(* ===== verification/Draftly_Prelude.thy ===== *)
theory Draftly_Prelude
  imports Complex_Main "HOL-Library.Char_ord" "HOL-Library.List_Lexorder"
    "HOL-Library.Product_Lexorder"
begin

text \<open>
  Shared vocabulary of the development: Python exceptions as values, JSON documents as the
  code passes them between components, the string operations of the standard library the
  sources use, and the two table operations (conditional update, insert-on-conflict) that
  every repository method is written with.

  Strings are \<^typ>\<open>string\<close> (ASCII characters); ordering of text is character order, which is
  Python's \<^verbatim>\<open>sorted\<close> and PostgreSQL's C collation. Floats are \<^typ>\<open>real\<close>.
\<close>

named_theorems table_simps \<open>laws of the row tables\<close>
named_theorems db_inv_intros \<open>preservation of the database invariant\<close>

section \<open>Exceptions as values\<close>

datatype exn = Exn (exn_type: string) (exn_msg: string)

abbreviation ValueError :: "string \<Rightarrow> exn" where "ValueError m \<equiv> Exn ''ValueError'' m"
abbreviation KeyError :: "string \<Rightarrow> exn" where "KeyError m \<equiv> Exn ''KeyError'' m"
abbreviation RuntimeError :: "string \<Rightarrow> exn" where "RuntimeError m \<equiv> Exn ''RuntimeError'' m"
abbreviation StaleArtifactError :: "string \<Rightarrow> exn" where
  "StaleArtifactError m \<equiv> Exn ''StaleArtifactError'' m"

type_synonym 'a res = "exn + 'a"

section \<open>JSON documents\<close>

datatype json =
    JNull
  | JBool bool
  | JInt int
  | JFloat real
  | JStr string
  | JList "json list"
  | JObj "(string \<times> json) list"

type_synonym jobj = "(string \<times> json) list"

text \<open>\<open>dict.get(key)\<close>: absent keys and explicit nulls are both \<open>None\<close> of Python.\<close>

definition jget :: "jobj \<Rightarrow> string \<Rightarrow> json" where
  "jget d k = (case map_of d k of None \<Rightarrow> JNull | Some v \<Rightarrow> v)"

text \<open>Python truthiness of a JSON value.\<close>

fun py_truth :: "json \<Rightarrow> bool" where
  "py_truth JNull = False"
| "py_truth (JBool b) = b"
| "py_truth (JInt i) = (i \<noteq> 0)"
| "py_truth (JFloat x) = (x \<noteq> 0)"
| "py_truth (JStr s) = (s \<noteq> [])"
| "py_truth (JList xs) = (xs \<noteq> [])"
| "py_truth (JObj kvs) = (kvs \<noteq> [])"

lemma jget_Nil [simp]: "jget [] k = JNull"
  by (simp add: jget_def)

lemma jget_Cons [simp]: "jget ((k', v) # d) k = (if k = k' then v else jget d k)"
  by (simp add: jget_def)

section \<open>Strings\<close>

subsection \<open>Decimal rendering of integers: \<open>str(n)\<close>\<close>

fun show_nat :: "nat \<Rightarrow> string" where
  "show_nat n = (if n < 10 then [char_of (48 + n)]
                 else show_nat (n div 10) @ [char_of (48 + n mod 10)])"

declare show_nat.simps [simp del]

definition show_int :: "int \<Rightarrow> string" where
  "show_int i = (if i < 0 then ''-'' @ show_nat (nat (- i)) else show_nat (nat i))"

definition digits_val :: "string \<Rightarrow> nat" where
  "digits_val s = foldl (\<lambda>a c. 10 * a + (of_char c - 48)) 0 s"

lemma digits_val_snoc: "digits_val (s @ [c]) = 10 * digits_val s + (of_char c - 48)"
  by (simp add: digits_val_def)

lemma of_char_digit: "d < 10 \<Longrightarrow> (of_char (char_of (48 + d :: nat)) :: nat) = 48 + d"
  by simp

lemma digits_val_show_nat: "digits_val (show_nat n) = n"
proof (induction n rule: show_nat.induct)
  case (1 n)
  show ?case
  proof (cases "n < 10")
    case True
    then show ?thesis
      by (simp add: show_nat.simps [of n] digits_val_def)
  next
    case False
    then have "digits_val (show_nat n) = 10 * (n div 10) + n mod 10"
      using "1.IH" by (simp add: show_nat.simps [of n] digits_val_snoc)
    then show ?thesis by simp
  qed
qed

lemma show_nat_inject [simp]: "show_nat m = show_nat n \<longleftrightarrow> m = n"
  by (metis digits_val_show_nat)

definition is_digit :: "char \<Rightarrow> bool" where
  "is_digit c \<longleftrightarrow> (48 :: nat) \<le> of_char c \<and> of_char c \<le> (57 :: nat)"

lemma show_nat_digits: "c \<in> set (show_nat n) \<Longrightarrow> is_digit c"
proof (induction n rule: show_nat.induct)
  case (1 n)
  show ?case
  proof (cases "n < 10")
    case True
    with "1.prems" show ?thesis
      by (simp add: show_nat.simps [of n] is_digit_def)
  next
    case False
    with "1" show ?thesis
      by (auto simp: show_nat.simps [of n] is_digit_def)
  qed
qed

lemma show_nat_nonempty: "show_nat n \<noteq> []"
  by (subst show_nat.simps) simp

lemma show_int_colon_free: "CHR '':'' \<notin> set (show_int i)"
proof -
  have "\<And>n. CHR '':'' \<notin> set (show_nat n)"
    using show_nat_digits by (fastforce simp: is_digit_def)
  then show ?thesis by (simp add: show_int_def)
qed

lemma show_int_inject: "show_int i = show_int j \<longleftrightarrow> i = j"
proof -
  have no_minus: "\<And>n s. show_nat n \<noteq> CHR ''-'' # s"
  proof
    fix n s assume "show_nat n = CHR ''-'' # s"
    then have "is_digit (CHR ''-'')" using show_nat_digits [of "CHR ''-''" n] by simp
    then show False by (simp add: is_digit_def)
  qed
  show ?thesis
    by (auto simp: show_int_def no_minus no_minus [symmetric] split: if_splits)
qed

subsection \<open>Splitting and joining\<close>

text \<open>\<open>s.split(c)\<close>: always at least one segment.\<close>

fun split_on :: "char \<Rightarrow> string \<Rightarrow> string list" where
  "split_on c [] = [[]]"
| "split_on c (x # xs) =
     (if x = c then [] # split_on c xs
      else (case split_on c xs of [] \<Rightarrow> [[x]] | s # ss \<Rightarrow> (x # s) # ss))"

text \<open>\<open>sep.join(parts)\<close>.\<close>

fun join_with :: "string \<Rightarrow> string list \<Rightarrow> string" where
  "join_with sep [] = []"
| "join_with sep [s] = s"
| "join_with sep (s # t # ss) = s @ sep @ join_with sep (t # ss)"

lemma split_on_nonempty: "split_on c s \<noteq> []"
  by (induction s) (auto split: list.splits)

lemma split_on_free: "seg \<in> set (split_on c s) \<Longrightarrow> c \<notin> set seg"
proof (induction s arbitrary: seg)
  case Nil
  then show ?case by simp
next
  case (Cons x xs)
  then show ?case
    by (cases "split_on c xs") (auto split: if_splits)
qed

lemma split_on_segment: "c \<notin> set s \<Longrightarrow> split_on c s = [s]"
  by (induction s) auto

lemma split_on_append: "c \<notin> set s \<Longrightarrow> split_on c (s @ c # t) = s # split_on c t"
  by (induction s) auto

lemma split_on_join:
  "ss \<noteq> [] \<Longrightarrow> (\<forall>s \<in> set ss. c \<notin> set s) \<Longrightarrow> split_on c (join_with [c] ss) = ss"
proof (induction ss rule: induct_list012)
  case 1
  then show ?case by simp
next
  case (2 s)
  then show ?case by (simp add: split_on_segment)
next
  case (3 s t ss)
  then show ?case by (simp add: split_on_append)
qed

lemma join_split_on: "join_with [c] (split_on c s) = s"
proof (induction s)
  case Nil
  then show ?case by simp
next
  case (Cons x xs)
  obtain t ts where sp: "split_on c xs = t # ts"
    by (cases "split_on c xs") (simp_all add: split_on_nonempty)
  with Cons show ?case by (cases ts) auto
qed

subsection \<open>White space, case and search\<close>

definition is_space :: "char \<Rightarrow> bool" where
  "is_space c \<longleftrightarrow> c = CHR '' '' \<or> (9 \<le> (of_char c :: nat) \<and> of_char c \<le> (13 :: nat))
     \<or> (28 \<le> (of_char c :: nat) \<and> of_char c \<le> (31 :: nat))"

definition strip :: "string \<Rightarrow> string" where
  "strip s = rev (dropWhile is_space (rev (dropWhile is_space s)))"

lemma strip_Nil [simp]: "strip [] = []"
  by (simp add: strip_def)

lemma strip_eq_Nil: "strip s = [] \<longleftrightarrow> (\<forall>c \<in> set s. is_space c)"
proof -
  have "strip s = [] \<longleftrightarrow> (\<forall>c \<in> set (dropWhile is_space s). is_space c)"
    by (simp add: strip_def dropWhile_eq_Nil_conv)
  also have "\<dots> \<longleftrightarrow> (\<forall>c \<in> set s. is_space c)"
    by (induction s) auto
  finally show ?thesis .
qed

definition to_lower :: "char \<Rightarrow> char" where
  "to_lower c = (if (65 :: nat) \<le> of_char c \<and> of_char c \<le> (90 :: nat)
                 then char_of ((of_char c :: nat) + 32) else c)"

definition lower :: "string \<Rightarrow> string" where
  "lower s = map to_lower s"

fun starts_with :: "string \<Rightarrow> string \<Rightarrow> bool" where
  "starts_with [] s = True"
| "starts_with (p # ps) [] = False"
| "starts_with (p # ps) (x # xs) = (p = x \<and> starts_with ps xs)"

text \<open>\<open>sub in s\<close>.\<close>

fun str_contains :: "string \<Rightarrow> string \<Rightarrow> bool" where
  "str_contains sub [] = (sub = [])"
| "str_contains sub (x # xs) = (starts_with sub (x # xs) \<or> str_contains sub xs)"

lemma starts_with_append: "starts_with p (p @ s)"
  by (induction p) auto

lemma starts_with_iff: "starts_with p s \<longleftrightarrow> (\<exists>t. s = p @ t)"
  by (induction p s rule: starts_with.induct) auto

lemma str_contains_iff: "str_contains sub s \<longleftrightarrow> (\<exists>u v. s = u @ sub @ v)"
proof (induction s)
  case Nil
  then show ?case by auto
next
  case (Cons x xs)
  note ih = Cons.IH
  show ?case
  proof
    assume "str_contains sub (x # xs)"
    then consider "starts_with sub (x # xs)" | "str_contains sub xs" by auto
    then show "\<exists>u v. x # xs = u @ sub @ v"
    proof cases
      case 1
      then show ?thesis by (metis append_Nil starts_with_iff)
    next
      case 2
      then show ?thesis using ih by (metis append_Cons)
    qed
  next
    assume "\<exists>u v. x # xs = u @ sub @ v"
    then obtain u v where uv: "x # xs = u @ sub @ v" by blast
    show "str_contains sub (x # xs)"
    proof (cases u)
      case Nil
      with uv have "starts_with sub (x # xs)" by (simp add: starts_with_append)
      then show ?thesis by simp
    next
      case (Cons y ys)
      with uv have "\<exists>u v. xs = u @ sub @ v" by auto
      with ih show ?thesis by simp
    qed
  qed
qed

subsection \<open>\<open>repr\<close> of a string\<close>

definition hex_digit :: "nat \<Rightarrow> char" where
  "hex_digit n = (if n < 10 then char_of (48 + n) else char_of (87 + n))"

definition repr_char :: "char \<Rightarrow> char \<Rightarrow> string" where
  "repr_char q c =
     (let n = (of_char c :: nat) in
      if c = q \<or> n = 92 then [char_of (92 :: nat), c]
      else if n = 10 then [char_of (92 :: nat), CHR ''n'']
      else if n = 13 then [char_of (92 :: nat), CHR ''r'']
      else if n = 9 then [char_of (92 :: nat), CHR ''t'']
      else if n < 32 \<or> n = 127
        then [char_of (92 :: nat), CHR ''x'', hex_digit (n div 16), hex_digit (n mod 16)]
      else [c])"

definition py_repr :: "string \<Rightarrow> string" where
  "py_repr s =
     (let sq = char_of (39 :: nat); dq = char_of (34 :: nat);
          q = (if sq \<in> set s \<and> dq \<notin> set s then dq else sq)
      in [q] @ concat (map (repr_char q) s) @ [q])"

text \<open>A name between single quotes, as the messages print it.\<close>

definition quoted :: "string \<Rightarrow> string" where
  "quoted s = CHR 0x27 # s @ [CHR 0x27]"

section \<open>Tables\<close>

text \<open>
  \<open>UPDATE t SET ... WHERE p\<close>: every row that satisfies the condition is rewritten, the
  others stay, the order of the rows is kept.
\<close>

definition upd_where :: "('r \<Rightarrow> bool) \<Rightarrow> ('r \<Rightarrow> 'r) \<Rightarrow> 'r list \<Rightarrow> 'r list" where
  "upd_where p f t = map (\<lambda>r. if p r then f r else r) t"

text \<open>\<open>INSERT ... ON CONFLICT (key) DO NOTHING\<close>.\<close>

definition insert_new :: "('r \<Rightarrow> 'k) \<Rightarrow> 'r \<Rightarrow> 'r list \<Rightarrow> 'r list" where
  "insert_new key r t = (if key r \<in> key ` set t then t else t @ [r])"

lemma length_upd_where [table_simps]: "length (upd_where p f t) = length t"
  by (simp add: upd_where_def)

lemma set_upd_where [table_simps]:
  "set (upd_where p f t) = f ` {r \<in> set t. p r} \<union> {r \<in> set t. \<not> p r}"
  by (auto simp: upd_where_def)

lemma map_key_upd_where [table_simps]:
  "(\<And>r. p r \<Longrightarrow> key (f r) = key r) \<Longrightarrow> map key (upd_where p f t) = map key t"
  by (auto simp: upd_where_def)

lemma upd_where_none [table_simps]: "(\<forall>r \<in> set t. \<not> p r) \<Longrightarrow> upd_where p f t = t"
  by (auto simp: upd_where_def intro: map_idI)

lemma distinct_insert_new [table_simps]:
  "distinct (map key (insert_new key r t)) \<longleftrightarrow> distinct (map key t)"
  by (auto simp: insert_new_def)

lemma set_insert_new [table_simps]:
  "set (insert_new key r t) = (if key r \<in> key ` set t then set t else insert r (set t))"
  by (auto simp: insert_new_def)

lemma insert_new_idem: "insert_new key r (insert_new key r t) = insert_new key r t"
  by (simp add: insert_new_def)

lemma find_Some_in: "find p t = Some r \<Longrightarrow> r \<in> set t \<and> p r"
  by (auto simp: find_Some_iff)

lemma find_Some_unique:
  assumes "x \<in> set xs" "p x" "\<And>y. y \<in> set xs \<Longrightarrow> p y \<Longrightarrow> y = x"
  shows "find p xs = Some x"
proof (cases "find p xs")
  case None
  with assms(1,2) show ?thesis by (auto simp: find_None_iff)
next
  case (Some y)
  with find_Some_in [OF Some] assms(3) [of y] show ?thesis by simp
qed

lemma find_distinct_key:
  assumes "distinct (map key t)" and "r \<in> set t" and "key r = k"
  shows "find (\<lambda>x. key x = k) t = Some r"
  using assms
proof (induction t)
  case Nil
  then show ?case by simp
next
  case (Cons x xs)
  then show ?case by (cases "x = r") auto
qed

section \<open>Generic facts on lists and sorting\<close>

lemma sort_key_filter_set: "set (sort_key f (filter p xs)) = {x \<in> set xs. p x}"
  by simp

lemma hd_sort_key_min:
  assumes "xs \<noteq> []"
  shows "\<forall>y \<in> set xs. f (hd (sort_key f xs)) \<le> f y"
proof -
  obtain z zs where s: "sort_key f xs = z # zs"
    using assms by (cases "sort_key f xs") (auto dest: arg_cong [where f = set])
  have "sorted (map f (z # zs))"
    using sorted_sort_key [of f xs] s by simp
  then have "\<forall>y \<in> set (z # zs). f z \<le> f y" by auto
  moreover have "set xs = set (z # zs)" using s by (metis set_sort)
  ultimately show ?thesis using s by simp
qed

end
