(* ===== verification/Page_Models.thy ===== *)
theory Page_Models
  imports Draftly_Prelude "HOL-Library.Multiset"
begin

text \<open>
  The data model of the page-scoped documentation workflow
  (\<^verbatim>\<open>src/draftly/orchestration/page_workflow/models.py\<close>): page and task statuses, sealed
  artifacts, per-page evaluations, the aggregate report \<^verbatim>\<open>DocumentationWorkflowResult\<close> and the
  canonical page identifier \<^verbatim>\<open>normalize_page_id\<close>.
\<close>

section \<open>Definitions\<close>

datatype page_status =
    PENDING | WRITING | EVALUATING | REVISING | PASSED | AWAITING_HUMAN_REVIEW | FAILED

datatype task_status = TPending | TRunning | TCompleted | TFailed | TCancelled

text \<open>The literal type of \<^verbatim>\<open>PageEvaluationResult.status\<close>.\<close>

datatype eval_status = EvPassed | EvRevisionRequired | EvAwaitingHumanReview

record document_artifact =
  da_page_id :: string
  da_path :: string
  da_artifact_id :: string
  da_version :: int
  da_content_hash :: string
  da_action :: string
  da_content :: string

record metric_result =
  mr_name :: string
  mr_score :: real
  mr_threshold :: real
  mr_passed :: bool
  mr_blocking :: bool
  mr_reason :: string

record page_evaluation =
  pe_page_id :: string
  pe_artifact_id :: string
  pe_version :: int
  pe_content_hash :: string
  pe_attempt :: int
  pe_status :: eval_status
  pe_score :: real
  pe_metrics :: "metric_result list"
  pe_revision_feedback :: "string list"

text \<open>The pattern \<^verbatim>\<open>^[0-9a-f]{64}$\<close> of a content hash.\<close>

definition is_hex64 :: "string \<Rightarrow> bool" where
  "is_hex64 h \<longleftrightarrow> length h = 64 \<and> (\<forall>c \<in> set h. c \<in> set ''0123456789abcdef'')"

text \<open>The field constraints pydantic checks when a model is constructed.\<close>

definition valid_document_artifact :: "document_artifact \<Rightarrow> bool" where
  "valid_document_artifact a \<longleftrightarrow> 1 \<le> da_version a \<and> is_hex64 (da_content_hash a)"

definition valid_metric_result :: "metric_result \<Rightarrow> bool" where
  "valid_metric_result m \<longleftrightarrow>
     0 \<le> mr_score m \<and> mr_score m \<le> 1 \<and> 0 \<le> mr_threshold m \<and> mr_threshold m \<le> 1"

definition valid_page_evaluation :: "page_evaluation \<Rightarrow> bool" where
  "valid_page_evaluation e \<longleftrightarrow>
     1 \<le> pe_version e \<and> is_hex64 (pe_content_hash e) \<and> 1 \<le> pe_attempt e
     \<and> 0 \<le> pe_score e \<and> pe_score e \<le> 1 \<and> list_all valid_metric_result (pe_metrics e)"

record workflow_result =
  wr_passed :: bool
  wr_ready_for_review :: bool
  wr_page_count :: nat
  wr_passed_page_ids :: "string list"
  wr_failed_page_ids :: "string list"
  wr_escalated_page_ids :: "string list"

text \<open>
  \<^verbatim>\<open>DocumentationWorkflowResult.from_pages\<close>: an iterable whose \<open>None\<close> entries are skipped.
\<close>

definition from_pages :: "page_evaluation option list \<Rightarrow> workflow_result" where
  "from_pages evaluations =
     (let pages = List.map_filter id evaluations;
          passed_ids = map pe_page_id (filter (\<lambda>e. pe_status e = EvPassed) pages);
          escalated_ids =
            map pe_page_id (filter (\<lambda>e. pe_status e = EvAwaitingHumanReview) pages);
          failed_ids =
            map pe_page_id
              (filter (\<lambda>e. pe_status e \<notin> {EvPassed, EvAwaitingHumanReview}) pages)
      in \<lparr>wr_passed = (pages \<noteq> [] \<and> length passed_ids = length pages),
          wr_ready_for_review =
            (pages \<noteq> [] \<and>
             list_all (\<lambda>e. pe_status e \<in> {EvPassed, EvAwaitingHumanReview}) pages),
          wr_page_count = length pages,
          wr_passed_page_ids = passed_ids,
          wr_failed_page_ids = failed_ids,
          wr_escalated_page_ids = escalated_ids\<rparr>)"

text \<open>\<^verbatim>\<open>normalize_page_id\<close>: a repository-relative page id, or \<open>ValueError\<close>.\<close>

definition slash :: char where "slash = CHR 0x2F"
definition backslash :: char where "backslash = CHR 0x5C"

definition normalize_page_id :: "string \<Rightarrow> string res" where
  "normalize_page_id path =
     (let normalized = map (\<lambda>c. if c = backslash then slash else c) path in
      if starts_with [slash] normalized
      then Inl (ValueError (''page path must be repository-relative: '' @ py_repr path))
      else
        let segments = split_on slash normalized in
        if ''..'' \<in> set segments
        then Inl (ValueError (''page path must not contain '' @ py_repr ''..'' @
                              '' segments: '' @ py_repr path))
        else
          let cleaned = filter (\<lambda>s. s \<notin> {[], ''.''}) segments in
          if cleaned = []
          then Inl (ValueError (''page path must name a page: '' @ py_repr path))
          else Inr (join_with [slash] cleaned))"

section \<open>Lemmas\<close>

lemma passed_ids_all:
  "length (map g (filter p xs)) = length xs \<longleftrightarrow> (\<forall>x \<in> set xs. p x)"
proof
  assume "length (map g (filter p xs)) = length xs"
  then have "length (filter p xs) = length xs" by simp
  then show "\<forall>x \<in> set xs. p x" by (metis length_filter_less less_irrefl)
next
  assume "\<forall>x \<in> set xs. p x"
  then show "length (map g (filter p xs)) = length xs" by simp
qed

definition canonical_page_path :: "string \<Rightarrow> bool" where
  "canonical_page_path s \<longleftrightarrow>
     s \<noteq> [] \<and> backslash \<notin> set s \<and>
     (\<forall>seg \<in> set (split_on slash s). seg \<noteq> [] \<and> seg \<noteq> ''.'' \<and> seg \<noteq> ''..'')"

lemma slash_backslash [simp]: "slash \<noteq> backslash" "backslash \<noteq> slash"
  by (simp_all add: slash_def backslash_def)

lemma split_on_subset: "seg \<in> set (split_on c s) \<Longrightarrow> set seg \<subseteq> set s"
proof (induction s arbitrary: seg)
  case Nil
  then show ?case by simp
next
  case (Cons x xs)
  then show ?case
    by (cases "split_on c xs") (fastforce split: if_splits)+
qed

lemma set_join_with: "set (join_with sep ss) \<subseteq> set sep \<union> (\<Union>s \<in> set ss. set s)"
  by (induction sep ss rule: join_with.induct) auto

lemma join_with_Nil_iff:
  "\<forall>s \<in> set ss. s \<noteq> [] \<Longrightarrow> join_with sep ss = [] \<longleftrightarrow> ss = []"
  by (induction sep ss rule: join_with.induct) auto

lemma normalize_page_id_split:
  assumes "normalize_page_id path = Inr p"
  obtains cleaned where "p = join_with [slash] cleaned" "cleaned \<noteq> []"
    "split_on slash p = cleaned"
    "\<forall>s \<in> set cleaned. s \<noteq> [] \<and> s \<noteq> ''.'' \<and> s \<noteq> ''..'' \<and> backslash \<notin> set s \<and> slash \<notin> set s"
proof -
  define nrm where "nrm = map (\<lambda>c. if c = backslash then slash else c) path"
  define cleaned where "cleaned = filter (\<lambda>s. s \<notin> {[], ''.''}) (split_on slash nrm)"
  from assms have dd: "''..'' \<notin> set (split_on slash nrm)" and ne: "cleaned \<noteq> []"
    and p: "p = join_with [slash] cleaned"
    by (auto simp: normalize_page_id_def nrm_def cleaned_def Let_def split: if_splits)
  have bs: "backslash \<notin> set nrm" by (auto simp: nrm_def)
  have props: "\<forall>s \<in> set cleaned. s \<noteq> [] \<and> s \<noteq> ''.'' \<and> s \<noteq> ''..'' \<and> backslash \<notin> set s \<and> slash \<notin> set s"
  proof
    fix s assume s: "s \<in> set cleaned"
    then have sp: "s \<in> set (split_on slash nrm)" by (simp add: cleaned_def)
    have "backslash \<notin> set s" using split_on_subset [OF sp] bs by blast
    with s sp dd split_on_free [OF sp]
    show "s \<noteq> [] \<and> s \<noteq> ''.'' \<and> s \<noteq> ''..'' \<and> backslash \<notin> set s \<and> slash \<notin> set s"
      by (auto simp: cleaned_def)
  qed
  have "split_on slash p = cleaned"
    unfolding p by (rule split_on_join) (use ne props in auto)
  then show ?thesis using p ne props that by blast
qed

lemma starts_with_slash_split:
  "starts_with [slash] s \<Longrightarrow> [] \<in> set (split_on slash s)"
  by (cases s) auto

lemma canonical_normalize:
  assumes "canonical_page_path s"
  shows "normalize_page_id s = Inr s"
proof -
  from assms have ne: "s \<noteq> []" and bs: "backslash \<notin> set s"
    and segs: "\<forall>seg \<in> set (split_on slash s). seg \<noteq> [] \<and> seg \<noteq> ''.'' \<and> seg \<noteq> ''..''"
    by (auto simp: canonical_page_path_def)
  from bs have nrm: "map (\<lambda>c. if c = backslash then slash else c) s = s"
    by (auto intro: map_idI)
  have "\<not> starts_with [slash] s" using segs starts_with_slash_split by blast
  moreover have "''..'' \<notin> set (split_on slash s)" using segs by blast
  moreover have "filter (\<lambda>s. s \<notin> {[], ''.''}) (split_on slash s) = split_on slash s"
    using segs by (auto intro: filter_True)
  ultimately show ?thesis
    by (simp add: normalize_page_id_def Let_def nrm join_split_on split_on_nonempty)
qed

lemma normalize_canonical:
  assumes "normalize_page_id path = Inr p"
  shows "canonical_page_path p"
proof -
  from assms obtain cleaned where c: "p = join_with [slash] cleaned" "cleaned \<noteq> []"
    "split_on slash p = cleaned"
    "\<forall>s \<in> set cleaned. s \<noteq> [] \<and> s \<noteq> ''.'' \<and> s \<noteq> ''..'' \<and> backslash \<notin> set s \<and> slash \<notin> set s"
    by (rule normalize_page_id_split)
  have "p \<noteq> []" using c(1,2,4) by (simp add: join_with_Nil_iff)
  moreover have "backslash \<notin> set p"
    using c(1,4) set_join_with [of "[slash]" cleaned] by auto
  ultimately show ?thesis using c(3,4) by (simp add: canonical_page_path_def)
qed

lemma from_pages_status:
  "wr_passed (from_pages es) \<longleftrightarrow>
     List.map_filter id es \<noteq> [] \<and> (\<forall>e \<in> set (List.map_filter id es). pe_status e = EvPassed)"
  "wr_ready_for_review (from_pages es) \<longleftrightarrow>
     List.map_filter id es \<noteq> [] \<and>
     (\<forall>e \<in> set (List.map_filter id es). pe_status e \<noteq> EvRevisionRequired)"
proof -
  show "wr_passed (from_pages es) \<longleftrightarrow>
     List.map_filter id es \<noteq> [] \<and> (\<forall>e \<in> set (List.map_filter id es). pe_status e = EvPassed)"
    unfolding from_pages_def Let_def by (simp only: workflow_result.simps passed_ids_all)
  have "pe_status e \<in> {EvPassed, EvAwaitingHumanReview} \<longleftrightarrow> pe_status e \<noteq> EvRevisionRequired"
    for e :: page_evaluation by (cases "pe_status e") auto
  then show "wr_ready_for_review (from_pages es) \<longleftrightarrow>
     List.map_filter id es \<noteq> [] \<and>
     (\<forall>e \<in> set (List.map_filter id es). pe_status e \<noteq> EvRevisionRequired)"
    unfolding from_pages_def Let_def
    by (simp only: workflow_result.simps list_all_iff)
qed

section \<open>Page identities and run verdicts\<close>

text \<open>
  Page identity: the ids \<^verbatim>\<open>normalize_page_id\<close> can return are exactly the canonical
  repository-relative paths (non-empty, no backslash, no empty, dot or dot-dot segment), and
  normalisation is idempotent on them, so two spellings of a page that normalise alike share one
  workflow row and no id escapes the repository.
\<close>

theorem normalize_page_id_range:
  "(\<exists>path. normalize_page_id path = Inr p)
     \<longleftrightarrow> canonical_page_path p \<and> normalize_page_id p = Inr p"
  using canonical_normalize normalize_canonical by blast

lemma mset_status_partition:
  "mset (map pe_page_id (filter (\<lambda>e. pe_status e = EvPassed) xs))
   + mset (map pe_page_id (filter (\<lambda>e. pe_status e \<notin> {EvPassed, EvAwaitingHumanReview}) xs))
   + mset (map pe_page_id (filter (\<lambda>e. pe_status e = EvAwaitingHumanReview) xs))
     = mset (map pe_page_id xs)"
  by (induction xs) (auto simp: ac_simps)

text \<open>
  The verdict of a run: every evaluated page is reported under exactly one of the passed,
  failed and escalated lists; the run passes when there is a page and all passed, and is ready for
  review when there is a page and none still needs revision.
\<close>

theorem from_pages_verdict:
  "let pages = List.map_filter id es; r = from_pages es in
     wr_page_count r = length pages
     \<and> mset (wr_passed_page_ids r) + mset (wr_failed_page_ids r) + mset (wr_escalated_page_ids r)
         = mset (map pe_page_id pages)
     \<and> (wr_passed r \<longleftrightarrow> pages \<noteq> [] \<and> wr_failed_page_ids r = [] \<and> wr_escalated_page_ids r = [])
     \<and> (wr_ready_for_review r \<longleftrightarrow> pages \<noteq> [] \<and> wr_failed_page_ids r = [])"
proof -
  let ?xs = "List.map_filter id es"
  have st: "pe_status e = EvPassed \<or> pe_status e = EvAwaitingHumanReview
      \<or> pe_status e = EvRevisionRequired" for e :: page_evaluation
    by (cases "pe_status e") auto
  have "wr_passed (from_pages es) \<longleftrightarrow> ?xs \<noteq> [] \<and> wr_failed_page_ids (from_pages es) = []
      \<and> wr_escalated_page_ids (from_pages es) = []"
    unfolding from_pages_status using st
    by (fastforce simp: from_pages_def Let_def filter_empty_conv)
  moreover have "wr_ready_for_review (from_pages es) \<longleftrightarrow>
      ?xs \<noteq> [] \<and> wr_failed_page_ids (from_pages es) = []"
    unfolding from_pages_status using st
    by (fastforce simp: from_pages_def Let_def filter_empty_conv)
  moreover have "mset (wr_passed_page_ids (from_pages es)) + mset (wr_failed_page_ids (from_pages es))
      + mset (wr_escalated_page_ids (from_pages es)) = mset (map pe_page_id ?xs)"
    unfolding from_pages_def Let_def workflow_result.simps by (rule mset_status_partition)
  ultimately show ?thesis by (simp add: Let_def from_pages_def)
qed

end
