(* ===== verification/Page_Store.thy ===== *)
theory Page_Store
  imports Page_Models
begin

text \<open>
  The database state behind the page workflow and every operation of
  \<^verbatim>\<open>PageWorkflowRepository\<close> (\<^verbatim>\<open>src/draftly/orchestration/page_workflow/repository.py\<close>).

  A table is the list of its rows. One repository call is one atomic step, as the single SQL
  statement or the transaction it runs is; a raised exception inside a transaction leaves the
  database as it was, so an operation that can raise returns \<open>exn + result\<close> and the new
  database only on the right. \<open>now\<close> is the transaction time of the call in seconds,
  \<open>locked\<close> the task ids whose rows another in-flight statement holds (what
  \<^verbatim>\<open>FOR UPDATE SKIP LOCKED\<close> leaves out). Comparisons with a NULL column are never true.
\<close>

section \<open>Tables\<close>

record page_state =
  ps_run_id :: string
  ps_org_id :: string
  ps_page_id :: string
  ps_path :: string
  ps_action :: string
  ps_status :: page_status
  ps_latest_artifact_id :: "string option"
  ps_latest_version :: int
  ps_next_version :: int
  ps_evaluation_attempt :: int
  ps_escalation_reason :: "string option"
  ps_updated_at :: int

record workflow_task =
  wt_run_id :: string
  wt_task_id :: string
  wt_org_id :: string
  wt_task_type :: string
  wt_page_id :: "string option"
  wt_artifact_version :: "int option"
  wt_dependencies :: "string list"
  wt_status :: task_status
  wt_infrastructure_retries :: int
  wt_lease_owner :: "string option"
  wt_lease_expires_at :: "int option"
  wt_input_data :: jobj
  wt_output_data :: "json option"
  wt_error :: "string option"
  wt_created_at :: int
  wt_updated_at :: int

record evaluation_row =
  er_run_id :: string
  er_org_id :: string
  er_page_id :: string
  er_artifact_id :: string
  er_version :: int
  er_content_hash :: string
  er_attempt :: int
  er_status :: eval_status
  er_score :: real
  er_metrics :: "metric_result list"
  er_revision_feedback :: "string list"

record draft_revision =
  rv_id :: string
  rv_run_id :: string
  rv_org_id :: string
  rv_generation :: int
  rv_path :: string
  rv_action :: string
  rv_sealed :: bool
  rv_content_size :: int
  rv_created_at :: "int option"
  rv_sealed_at :: "int option"
  rv_version :: "int option"
  rv_content_hash :: "string option"

record draft_chunk =
  ck_draft_id :: string
  ck_index :: int
  ck_content :: string

record db =
  db_pages :: "page_state list"
  db_tasks :: "workflow_task list"
  db_evaluations :: "evaluation_row list"
  db_revisions :: "draft_revision list"
  db_chunks :: "draft_chunk list"

record new_page =
  np_page_id :: string
  np_path :: string
  np_action :: string

record revision_schedule =
  rs_page_id :: string
  rs_source_artifact_id :: string
  rs_source_version :: int
  rs_attempt :: int
  rs_write_input :: jobj
  rs_evaluate_input :: jobj

definition MAX_AUTOMATIC_EVALUATION_ATTEMPTS :: int where
  "MAX_AUTOMATIC_EVALUATION_ATTEMPTS = 3"

abbreviation page_key :: "page_state \<Rightarrow> string \<times> string" where
  "page_key r \<equiv> (ps_run_id r, ps_page_id r)"

abbreviation task_key :: "workflow_task \<Rightarrow> string \<times> string" where
  "task_key r \<equiv> (wt_run_id r, wt_task_id r)"

abbreviation evaluation_key :: "evaluation_row \<Rightarrow> string \<times> string" where
  "evaluation_key r \<equiv> (er_run_id r, er_artifact_id r)"

text \<open>\<open>str(x)\<close> of a nullable text column, and \<open>x or y\<close> on optional strings.\<close>

definition str_opt :: "string option \<Rightarrow> string" where
  "str_opt x = (case x of None \<Rightarrow> ''None'' | Some s \<Rightarrow> s)"

definition or_str :: "string option \<Rightarrow> string \<Rightarrow> string" where
  "or_str x y = (case x of None \<Rightarrow> y | Some s \<Rightarrow> if s = [] then y else s)"

section \<open>Page states\<close>

definition seed_page :: "string \<Rightarrow> string \<Rightarrow> int \<Rightarrow> new_page \<Rightarrow> page_state" where
  "seed_page run_id org_id now p =
     \<lparr>ps_run_id = run_id, ps_org_id = org_id, ps_page_id = np_page_id p,
      ps_path = np_path p, ps_action = np_action p, ps_status = PENDING,
      ps_latest_artifact_id = None, ps_latest_version = 0, ps_next_version = 1,
      ps_evaluation_attempt = 0, ps_escalation_reason = None, ps_updated_at = now\<rparr>"

fun create_pages :: "string \<Rightarrow> string \<Rightarrow> new_page list \<Rightarrow> int \<Rightarrow> db \<Rightarrow> db" where
  "create_pages run_id org_id [] now d = d"
| "create_pages run_id org_id (p # ps) now d =
     create_pages run_id org_id ps now
       (d\<lparr>db_pages := insert_new page_key (seed_page run_id org_id now p) (db_pages d)\<rparr>)"

definition reserve_next_version :: "string \<Rightarrow> string \<Rightarrow> db \<Rightarrow> (int \<times> db) res" where
  "reserve_next_version run_id page_id d =
     (let p = (\<lambda>r. page_key r = (run_id, page_id));
          pages = upd_where p (\<lambda>r. r\<lparr>ps_next_version := ps_next_version r + 1\<rparr>) (db_pages d)
      in case find p pages of
           None \<Rightarrow> Inl (ValueError (''page state not found for page_id '' @ py_repr page_id))
         | Some r \<Rightarrow> Inr (ps_next_version r - 1, d\<lparr>db_pages := pages\<rparr>))"

text \<open>
  The promotion condition of \<^verbatim>\<open>record_artifact\<close>: strictly newer, or the same artifact again.
\<close>

definition promotes :: "string \<Rightarrow> string \<Rightarrow> string \<Rightarrow> int \<Rightarrow> page_state \<Rightarrow> bool" where
  "promotes run_id page_id artifact_id version r \<longleftrightarrow>
     page_key r = (run_id, page_id) \<and>
     (ps_latest_version r < version \<or>
      (ps_latest_version r = version \<and> ps_latest_artifact_id r = Some artifact_id))"

definition stale_promotion :: "string \<Rightarrow> int \<Rightarrow> exn" where
  "stale_promotion artifact_id version =
     StaleArtifactError (''artifact '' @ py_repr artifact_id @ '' v'' @ show_int version @
       '' is not the page'' @ [CHR 0x27] @ ''s next artifact'')"

definition record_artifact ::
  "string \<Rightarrow> string \<Rightarrow> string \<Rightarrow> int \<Rightarrow> int \<Rightarrow> db \<Rightarrow> db res" where
  "record_artifact run_id page_id artifact_id version now d =
     (let p = promotes run_id page_id artifact_id version;
          updated = length (filter p (db_pages d))
      in if updated \<noteq> 1
         then Inl (stale_promotion artifact_id version)
         else Inr (d\<lparr>db_pages :=
                upd_where p
                  (\<lambda>r. r\<lparr>ps_latest_artifact_id := Some artifact_id,
                         ps_latest_version := version,
                         ps_status := EVALUATING,
                         ps_updated_at := now\<rparr>) (db_pages d)\<rparr>))"

text \<open>\<^verbatim>\<open>_to_state\<close> reads a row; only a zero \<^verbatim>\<open>next_version\<close> would be read differently.\<close>

definition to_state :: "page_state \<Rightarrow> page_state" where
  "to_state r = r\<lparr>ps_next_version := (if ps_next_version r = 0 then 1 else ps_next_version r)\<rparr>"

definition get_page_states :: "string \<Rightarrow> db \<Rightarrow> page_state list" where
  "get_page_states run_id d =
     map to_state (sort_key ps_page_id (filter (\<lambda>r. ps_run_id r = run_id) (db_pages d)))"

definition awaiting :: "string \<Rightarrow> page_state \<Rightarrow> bool" where
  "awaiting run_id r \<longleftrightarrow> ps_run_id r = run_id \<and> ps_status r = AWAITING_HUMAN_REVIEW"

definition approved_reason :: "string option \<Rightarrow> string option \<Rightarrow> string option" where
  "approved_reason comment reason =
     (case comment of
        None \<Rightarrow> reason
      | Some c \<Rightarrow>
          (case reason of
             None \<Rightarrow> Some (''Approved: '' @ c)
           | Some e \<Rightarrow> Some (e @ [CHR 0x0A] @ ''Approved: '' @ c)))"

fun approve_loop ::
  "string \<Rightarrow> string list \<Rightarrow> string option \<Rightarrow> int \<Rightarrow> nat \<Rightarrow> db \<Rightarrow> nat \<times> db" where
  "approve_loop run_id [] comment now approved d = (approved, d)"
| "approve_loop run_id (page_id # page_ids) comment now approved d =
     (let p = (\<lambda>r. awaiting run_id r \<and> ps_page_id r = page_id);
          hit = (\<exists>r \<in> set (db_pages d). p r);
          d' = d\<lparr>db_pages :=
                 upd_where p
                   (\<lambda>r. r\<lparr>ps_status := PASSED,
                          ps_escalation_reason :=
                            approved_reason comment (ps_escalation_reason r),
                          ps_updated_at := now\<rparr>) (db_pages d)\<rparr>
      in approve_loop run_id page_ids comment now (if hit then approved + 1 else approved) d')"

definition approve_escalated_pages ::
  "string \<Rightarrow> string list \<Rightarrow> string option \<Rightarrow> int \<Rightarrow> db \<Rightarrow> (nat \<times> db) res" where
  "approve_escalated_pages run_id page_ids comment now d =
     (if page_ids = [] then Inl (ValueError ''approve requires at least one page id'')
      else Inr (approve_loop run_id page_ids comment now 0 d))"

definition mark_escalated_failed ::
  "string \<Rightarrow> string option \<Rightarrow> int \<Rightarrow> db \<Rightarrow> nat \<times> db" where
  "mark_escalated_failed run_id comment now d =
     (let reason = strip (or_str comment []);
          p = awaiting run_id
      in (length (filter p (db_pages d)),
          d\<lparr>db_pages :=
            upd_where p
              (\<lambda>r. r\<lparr>ps_status := FAILED,
                     ps_escalation_reason :=
                       Some ((case ps_escalation_reason r of None \<Rightarrow> [] | Some e \<Rightarrow> e) @
                             ''; rejected by human review'' @
                             (if reason = [] then [] else '': '' @ reason)),
                     ps_updated_at := now\<rparr>) (db_pages d)\<rparr>))"

section \<open>Evaluations\<close>

definition page_status_of :: "eval_status \<Rightarrow> page_status" where
  "page_status_of s =
     (case s of EvPassed \<Rightarrow> PASSED | EvRevisionRequired \<Rightarrow> REVISING
      | EvAwaitingHumanReview \<Rightarrow> AWAITING_HUMAN_REVIEW)"

definition evaluation_row_of :: "page_evaluation \<Rightarrow> string \<Rightarrow> string \<Rightarrow> evaluation_row" where
  "evaluation_row_of result run org =
     \<lparr>er_run_id = run, er_org_id = org, er_page_id = pe_page_id result,
      er_artifact_id = pe_artifact_id result, er_version = pe_version result,
      er_content_hash = pe_content_hash result, er_attempt = pe_attempt result,
      er_status = pe_status result, er_score = pe_score result,
      er_metrics = pe_metrics result,
      er_revision_feedback = pe_revision_feedback result\<rparr>"

text \<open>
  \<^verbatim>\<open>INSERT ... ON CONFLICT (run_id, artifact_id) DO UPDATE\<close> rewrites nothing but returns the
  persisted row, so a replayed evaluation projects the first verdict.
\<close>

definition persist_evaluation ::
  "evaluation_row \<Rightarrow> evaluation_row list \<Rightarrow> evaluation_row \<times> evaluation_row list" where
  "persist_evaluation row t =
     (case find (\<lambda>r. evaluation_key r = evaluation_key row) t of
        Some r \<Rightarrow> (r, t)
      | None \<Rightarrow> (row, t @ [row]))"

definition projects :: "page_evaluation \<Rightarrow> string \<Rightarrow> draft_revision list \<Rightarrow> page_state \<Rightarrow> bool" where
  "projects result run revisions r \<longleftrightarrow>
     page_key r = (run, pe_page_id result) \<and>
     ps_latest_artifact_id r = Some (pe_artifact_id result) \<and>
     ps_latest_version r = pe_version result \<and>
     (\<exists>v \<in> set revisions. rv_id v = pe_artifact_id result \<and>
        rv_content_hash v = Some (pe_content_hash result) \<and> rv_sealed v)"

definition project_evaluation ::
  "page_evaluation \<Rightarrow> string \<Rightarrow> string \<Rightarrow> int \<Rightarrow> db \<Rightarrow> db res" where
  "project_evaluation result run org now d =
     (let (persisted, evaluations) =
            persist_evaluation (evaluation_row_of result run org) (db_evaluations d);
          reason = (if er_status persisted = EvAwaitingHumanReview
                    then Some (join_with ''; '' (er_revision_feedback persisted)) else None);
          p = projects result run (db_revisions d)
      in if \<exists>r \<in> set (db_pages d). p r
         then Inr (d\<lparr>db_evaluations := evaluations,
                db_pages :=
                  upd_where p
                    (\<lambda>r. r\<lparr>ps_status := page_status_of (er_status persisted),
                           ps_evaluation_attempt := er_attempt persisted,
                           ps_escalation_reason := reason,
                           ps_updated_at := now\<rparr>) (db_pages d)\<rparr>)
         else Inl (StaleArtifactError
                ''evaluation state projection lost the current artifact identity''))"

definition record_evaluation ::
  "page_evaluation \<Rightarrow> string option \<Rightarrow> string option \<Rightarrow> int \<Rightarrow> db \<Rightarrow> db res" where
  "record_evaluation result run_id org_id now d =
     (case find (\<lambda>v. rv_id v = pe_artifact_id result) (db_revisions d) of
        None \<Rightarrow> Inl (StaleArtifactError
          (''artifact '' @ py_repr (pe_artifact_id result) @ '' is not a sealed revision''))
      | Some artifact \<Rightarrow>
          if \<not> rv_sealed artifact
          then Inl (StaleArtifactError
            (''artifact '' @ py_repr (pe_artifact_id result) @ '' is not a sealed revision''))
          else
            let run = or_str run_id (rv_run_id artifact);
                org = or_str org_id (rv_org_id artifact)
            in case find (\<lambda>r. page_key r = (run, pe_page_id result)) (db_pages d) of
                 None \<Rightarrow> Inl (StaleArtifactError
                   (''page '' @ py_repr (pe_page_id result) @ '' has no workflow state''))
               | Some page \<Rightarrow>
                   if str_opt (ps_latest_artifact_id page) \<noteq> pe_artifact_id result
                   then Inl (StaleArtifactError (
                     ''evaluation targets an artifact that is not the page'' @ [CHR 0x27] @
                     ''s current artifact''))
                   else if ps_latest_version page \<noteq> pe_version result
                   then Inl (StaleArtifactError ''evaluation targets a stale artifact version'')
                   else if str_opt (rv_content_hash artifact) \<noteq> pe_content_hash result
                   then Inl (StaleArtifactError
                     ''evaluation content hash does not match the artifact'')
                   else project_evaluation result run org now d)"

section \<open>Workflow tasks\<close>

definition write_task_id :: "string \<Rightarrow> int \<Rightarrow> string" where
  "write_task_id page_id version = ''write:'' @ page_id @ '':'' @ show_int version"

definition evaluate_task_id :: "string \<Rightarrow> int \<Rightarrow> string" where
  "evaluate_task_id page_id version = ''evaluate:'' @ page_id @ '':'' @ show_int version"

text \<open>A freshly inserted row: the column defaults of the schema, status \<open>pending\<close>.\<close>

definition pending_task ::
  "string \<Rightarrow> string \<Rightarrow> string \<Rightarrow> string \<Rightarrow> string option \<Rightarrow> int option \<Rightarrow> string list \<Rightarrow> jobj
     \<Rightarrow> int \<Rightarrow> workflow_task" where
  "pending_task run_id task_id org_id task_type page_id version deps input_data now =
     \<lparr>wt_run_id = run_id, wt_task_id = task_id, wt_org_id = org_id,
      wt_task_type = task_type, wt_page_id = page_id, wt_artifact_version = version,
      wt_dependencies = deps, wt_status = TPending, wt_infrastructure_retries = 0,
      wt_lease_owner = None, wt_lease_expires_at = None, wt_input_data = input_data,
      wt_output_data = None, wt_error = None, wt_created_at = now, wt_updated_at = now\<rparr>"

definition enqueue_task ::
  "string \<Rightarrow> string \<Rightarrow> string \<Rightarrow> string \<Rightarrow> string option \<Rightarrow> int option \<Rightarrow> string list \<Rightarrow> jobj
     \<Rightarrow> int \<Rightarrow> db \<Rightarrow> db" where
  "enqueue_task run_id task_id org_id task_type page_id version deps input_data now d =
     d\<lparr>db_tasks :=
       insert_new task_key
         (pending_task run_id task_id org_id task_type page_id version deps input_data now)
         (db_tasks d)\<rparr>"

text \<open>
  The write/evaluate pair both schedulers insert for version \<open>next_version\<close> of a page,
  after raising \<^verbatim>\<open>next_version\<close> past it and marking the page \<open>revising\<close>.
\<close>

definition schedule_pair ::
  "string \<Rightarrow> string \<Rightarrow> string \<Rightarrow> int \<Rightarrow> jobj \<Rightarrow> jobj \<Rightarrow> int \<Rightarrow> db \<Rightarrow> db" where
  "schedule_pair run_id org_id page_id next_version write_input evaluate_input now d =
     (let write_id = write_task_id page_id next_version;
          evaluate_id = evaluate_task_id page_id next_version;
          d1 = d\<lparr>db_pages :=
                 upd_where (\<lambda>r. page_key r = (run_id, page_id))
                   (\<lambda>r. r\<lparr>ps_next_version := max (ps_next_version r) (next_version + 1),
                          ps_status := REVISING,
                          ps_updated_at := now\<rparr>) (db_pages d)\<rparr>;
          d2 = enqueue_task run_id write_id org_id ''write'' (Some page_id)
                 (Some next_version) [] write_input now d1
      in enqueue_task run_id evaluate_id org_id ''evaluate'' (Some page_id)
           (Some next_version) [write_id] evaluate_input now d2)"

fun schedule_loop ::
  "string \<Rightarrow> string \<Rightarrow> revision_schedule list \<Rightarrow> int \<Rightarrow> db \<Rightarrow> (int list \<times> db) res" where
  "schedule_loop run_id org_id [] now d = Inr ([], d)"
| "schedule_loop run_id org_id (rn # revs) now d =
     (case find (\<lambda>r. page_key r = (run_id, rs_page_id rn)) (db_pages d) of
        None \<Rightarrow> Inl (StaleArtifactError
          (''page '' @ py_repr (rs_page_id rn) @ '' has no workflow state''))
      | Some page \<Rightarrow>
          if str_opt (ps_latest_artifact_id page) \<noteq> rs_source_artifact_id rn
             \<or> ps_latest_version page \<noteq> rs_source_version rn
          then Inl (StaleArtifactError
            (''revision for '' @ py_repr (rs_page_id rn) @ '' targets a stale artifact''))
          else if ps_evaluation_attempt page + 1 \<noteq> rs_attempt rn
          then Inl (ValueError
            (''revision attempt '' @ show_int (rs_attempt rn) @
             '' is not the next page attempt''))
          else
            let next_version = rs_source_version rn + 1;
                d' = schedule_pair run_id org_id (rs_page_id rn) next_version
                       (rs_write_input rn) (rs_evaluate_input rn) now d
            in case schedule_loop run_id org_id revs now d' of
                 Inl e \<Rightarrow> Inl e
               | Inr (vs, d2) \<Rightarrow> Inr (next_version # vs, d2))"

definition schedule_revisions ::
  "string \<Rightarrow> string \<Rightarrow> revision_schedule list \<Rightarrow> int \<Rightarrow> db \<Rightarrow> (int list \<times> db) res" where
  "schedule_revisions run_id org_id revisions now d =
     (if revisions = [] then Inr ([], d)
      else if \<not> distinct (map rs_page_id revisions)
      then Inl (ValueError ''revision batch contains duplicate page IDs'')
      else if list_ex (\<lambda>r. rs_attempt r < 1
                         \<or> MAX_AUTOMATIC_EVALUATION_ATTEMPTS < rs_attempt r) revisions
      then Inl (ValueError ''automatic page evaluation attempt must be between 1 and 3'')
      else schedule_loop run_id org_id revisions now d)"

text \<open>\<^verbatim>\<open>ORDER BY created_at DESC, task_id DESC LIMIT 1\<close> over a page's tasks of one type.\<close>

definition latest_task ::
  "string \<Rightarrow> string \<Rightarrow> string \<Rightarrow> db \<Rightarrow> workflow_task option" where
  "latest_task run_id page_id task_type d =
     (case rev (sort_key (\<lambda>t. (wt_created_at t, wt_task_id t))
             (filter (\<lambda>t. wt_run_id t = run_id \<and> wt_page_id t = Some page_id
                          \<and> wt_task_type t = task_type) (db_tasks d))) of
        [] \<Rightarrow> None
      | t # _ \<Rightarrow> Some t)"

text \<open>\<open>list(x)\<close> of a JSON value.\<close>

definition py_list :: "json \<Rightarrow> json list res" where
  "py_list x =
     (case x of
        JList xs \<Rightarrow> Inr xs
      | JObj kvs \<Rightarrow> Inr (map (\<lambda>kv. JStr (fst kv)) kvs)
      | JStr s \<Rightarrow> Inr (map (\<lambda>c. JStr [c]) s)
      | _ \<Rightarrow> Inl (Exn ''TypeError'' ''object is not iterable''))"

text \<open>The inputs of a human-guided pair: the page's own plan and evidence, and the comment.\<close>

definition human_inputs ::
  "string \<Rightarrow> string \<Rightarrow> page_state \<Rightarrow> db \<Rightarrow> (jobj \<times> jobj) res" where
  "human_inputs run_id comment page d =
     (let page_id = ps_page_id page;
          task = (case latest_task run_id page_id ''write'' d of
                    None \<Rightarrow> JNull | Some t \<Rightarrow> jget (wt_input_data t) ''task'');
          raw_evidence = (case latest_task run_id page_id ''evaluate'' d of
                    None \<Rightarrow> JList []
                  | Some t \<Rightarrow> (case map_of (wt_input_data t) ''evidence'' of
                                 None \<Rightarrow> JList [] | Some v \<Rightarrow> v))
      in case py_list raw_evidence of
           Inl e \<Rightarrow> Inl e
         | Inr evidence \<Rightarrow>
             Inr ([(''task'', task), (''human_guided'', JBool True),
                   (''revision_comment'', JStr comment)],
                  [(''task'', task), (''evidence'', JList evidence),
                   (''attempt'', JInt (ps_evaluation_attempt page)),
                   (''human_guided'', JBool True),
                   (''revision_comment'', JStr comment)]))"

fun human_loop ::
  "string \<Rightarrow> string \<Rightarrow> page_state list \<Rightarrow> int \<Rightarrow> db \<Rightarrow> (int list \<times> db) res" where
  "human_loop run_id comment [] now d = Inr ([], d)"
| "human_loop run_id comment (page # pages) now d =
     (case human_inputs run_id comment page d of
        Inl e \<Rightarrow> Inl e
      | Inr (write_input, evaluate_input) \<Rightarrow>
          let next_version = ps_latest_version page + 1;
              d' = schedule_pair run_id (ps_org_id page) (ps_page_id page) next_version
                     write_input evaluate_input now d
          in case human_loop run_id comment pages now d' of
               Inl e \<Rightarrow> Inl e
             | Inr (vs, d2) \<Rightarrow> Inr (next_version # vs, d2))"

definition schedule_human_revisions ::
  "string \<Rightarrow> string option \<Rightarrow> int \<Rightarrow> db \<Rightarrow> (int list \<times> db) res" where
  "schedule_human_revisions run_id raw_comment now d =
     (let comment = strip (or_str raw_comment []) in
      if comment = []
      then Inl (ValueError ''request_changes requires a non-empty comment'')
      else human_loop run_id comment
             (sort_key ps_page_id (filter (awaiting run_id) (db_pages d))) now d)"

definition cancel_pending_tasks :: "string \<Rightarrow> int \<Rightarrow> db \<Rightarrow> nat \<times> db" where
  "cancel_pending_tasks run_id now d =
     (let p = (\<lambda>t. wt_run_id t = run_id \<and> wt_status t \<in> {TPending, TRunning})
      in (length (filter p (db_tasks d)),
          d\<lparr>db_tasks :=
            upd_where p
              (\<lambda>t. t\<lparr>wt_status := TCancelled,
                     wt_error := (case wt_error t of
                        None \<Rightarrow> Some ''cancelled by human review rejection''
                      | Some e \<Rightarrow> Some e),
                     wt_updated_at := now\<rparr>) (db_tasks d)\<rparr>))"

text \<open>Every dependency names a completed task of the same run.\<close>

definition deps_completed :: "workflow_task list \<Rightarrow> workflow_task \<Rightarrow> bool" where
  "deps_completed ts t \<longleftrightarrow>
     (\<forall>dep \<in> set (wt_dependencies t).
        \<exists>c \<in> set ts. wt_run_id c = wt_run_id t \<and> wt_task_id c = dep \<and> wt_status c = TCompleted)"

definition claimable :: "string \<Rightarrow> workflow_task list \<Rightarrow> workflow_task \<Rightarrow> bool" where
  "claimable run_id ts t \<longleftrightarrow>
     wt_run_id t = run_id \<and> wt_status t = TPending \<and>
     (wt_dependencies t = [] \<or> deps_completed ts t)"

definition claim_selection ::
  "string \<Rightarrow> nat \<Rightarrow> string list \<Rightarrow> workflow_task list \<Rightarrow> string list" where
  "claim_selection run_id limit locked ts =
     map wt_task_id
       (take limit
         (filter (\<lambda>t. wt_task_id t \<notin> set locked)
           (sort_key (\<lambda>t. (wt_created_at t, wt_task_id t))
             (filter (claimable run_id ts) ts))))"

definition lease_task :: "string \<Rightarrow> int \<Rightarrow> int \<Rightarrow> workflow_task \<Rightarrow> workflow_task" where
  "lease_task owner lease_seconds now t =
     t\<lparr>wt_status := TRunning,
       wt_lease_owner := Some owner,
       wt_lease_expires_at := Some (now + lease_seconds),
       wt_updated_at := now\<rparr>"

definition claim_ready_tasks ::
  "string \<Rightarrow> string \<Rightarrow> int \<Rightarrow> nat \<Rightarrow> string list \<Rightarrow> int \<Rightarrow> db \<Rightarrow> workflow_task list \<times> db" where
  "claim_ready_tasks run_id lease_owner lease_seconds limit locked now d =
     (let ids = claim_selection run_id limit locked (db_tasks d);
          p = (\<lambda>t. wt_run_id t = run_id \<and> wt_task_id t \<in> set ids)
      in (map (lease_task lease_owner lease_seconds now) (filter p (db_tasks d)),
          d\<lparr>db_tasks :=
            upd_where p (lease_task lease_owner lease_seconds now) (db_tasks d)\<rparr>))"

definition holds_lease :: "string \<Rightarrow> string \<Rightarrow> string \<Rightarrow> workflow_task \<Rightarrow> bool" where
  "holds_lease run_id task_id owner t \<longleftrightarrow>
     task_key t = (run_id, task_id) \<and> wt_status t = TRunning
     \<and> wt_lease_owner t = Some owner"

text \<open>\<^verbatim>\<open>owned_by_other\<close>: running under a lease owner distinct from \<open>owner\<close> (or none).\<close>

definition owned_by_other :: "string \<Rightarrow> string \<Rightarrow> string \<Rightarrow> db \<Rightarrow> bool" where
  "owned_by_other run_id task_id owner d \<longleftrightarrow>
     (\<exists>t \<in> set (db_tasks d). task_key t = (run_id, task_id) \<and> wt_status t = TRunning
        \<and> wt_lease_owner t \<noteq> Some owner)"

definition leased_elsewhere :: "string \<Rightarrow> string \<Rightarrow> exn" where
  "leased_elsewhere task_id owner =
     StaleArtifactError (''task '' @ py_repr task_id @ '' is leased by another worker, not ''
       @ py_repr owner)"

definition complete_task ::
  "string \<Rightarrow> string \<Rightarrow> string \<Rightarrow> json option \<Rightarrow> int \<Rightarrow> db \<Rightarrow> (bool \<times> db) res" where
  "complete_task run_id task_id owner output_data now d =
     (let p = holds_lease run_id task_id owner;
          updated = length (filter p (db_tasks d))
      in if owned_by_other run_id task_id owner d \<and> updated = 0
         then Inl (leased_elsewhere task_id owner)
         else Inr (0 < updated,
                d\<lparr>db_tasks :=
                  upd_where p
                    (\<lambda>t. t\<lparr>wt_status := TCompleted, wt_output_data := output_data,
                           wt_error := None, wt_updated_at := now\<rparr>) (db_tasks d)\<rparr>))"

definition retry_task :: "string \<Rightarrow> int \<Rightarrow> workflow_task \<Rightarrow> workflow_task" where
  "retry_task error now t =
     t\<lparr>wt_status := (if wt_infrastructure_retries t < 1 then TPending else TFailed),
       wt_infrastructure_retries := min (wt_infrastructure_retries t + 1) 1,
       wt_error := Some error, wt_lease_owner := None, wt_lease_expires_at := None,
       wt_updated_at := now\<rparr>"

definition retry_or_fail_task ::
  "string \<Rightarrow> string \<Rightarrow> string \<Rightarrow> string \<Rightarrow> int \<Rightarrow> db \<Rightarrow> (task_status option \<times> db) res" where
  "retry_or_fail_task run_id task_id owner error now d =
     (let p = holds_lease run_id task_id owner;
          status = map_option (\<lambda>t. wt_status (retry_task error now t)) (find p (db_tasks d))
      in if owned_by_other run_id task_id owner d \<and> status = None
         then Inl (leased_elsewhere task_id owner)
         else Inr (status,
                d\<lparr>db_tasks := upd_where p (retry_task error now) (db_tasks d)\<rparr>))"

definition lease_expired :: "string \<Rightarrow> int \<Rightarrow> workflow_task \<Rightarrow> bool" where
  "lease_expired run_id now t \<longleftrightarrow>
     wt_run_id t = run_id \<and> wt_status t = TRunning \<and>
     (case wt_lease_expires_at t of None \<Rightarrow> False | Some e \<Rightarrow> e < now)"

definition reset_expired_leases :: "string \<Rightarrow> int \<Rightarrow> db \<Rightarrow> nat \<times> db" where
  "reset_expired_leases run_id now d =
     (length (filter (lease_expired run_id now) (db_tasks d)),
      d\<lparr>db_tasks :=
        upd_where (lease_expired run_id now)
          (\<lambda>t. t\<lparr>wt_status := TPending, wt_lease_owner := None,
                 wt_lease_expires_at := None, wt_updated_at := now\<rparr>) (db_tasks d)\<rparr>)"

definition get_tasks :: "string \<Rightarrow> db \<Rightarrow> workflow_task list" where
  "get_tasks run_id d =
     sort_key (\<lambda>t. (wt_created_at t, wt_task_id t))
       (filter (\<lambda>t. wt_run_id t = run_id) (db_tasks d))"

end
