(* ===== verification/Transition_Systems.thy ===== *)
theory Transition_Systems
  imports Draftly_Prelude
begin

text \<open>
  Interfaces of the stateful components: a step relation with an invariant, and a step relation whose
  rows evolve. Each component interprets them on its own steps.
\<close>

locale invariant_system =
  fixes start :: "'s \<Rightarrow> bool"
    and step :: "'s \<Rightarrow> 's \<Rightarrow> bool"
    and inv :: "'s \<Rightarrow> bool"
  assumes inv_start: "start s \<Longrightarrow> inv s"
    and inv_step: "inv s \<Longrightarrow> step s t \<Longrightarrow> inv t"
begin

lemma inv_steps: "step\<^sup>*\<^sup>* s t \<Longrightarrow> inv s \<Longrightarrow> inv t"
  by (induction rule: rtranclp_induct) (auto intro: inv_step)

lemma inv_reachable: "start s \<Longrightarrow> step\<^sup>*\<^sup>* s t \<Longrightarrow> inv t"
  by (rule inv_steps) (auto intro: inv_start)

lemma steps_guarded: "step\<^sup>*\<^sup>* s t \<Longrightarrow> inv s \<Longrightarrow> (\<lambda>a b. inv a \<and> step a b)\<^sup>*\<^sup>* s t"
proof (induction rule: rtranclp_induct)
  case (step y z)
  then have "inv y" using inv_steps by blast
  with step show ?case by (simp add: rtranclp.rtrancl_into_rtrancl)
qed simp

end

locale row_evolution =
  fixes step :: "'s \<Rightarrow> 's \<Rightarrow> bool"
    and rows :: "'s \<Rightarrow> 'r set"
    and evolves :: "'r \<Rightarrow> 'r \<Rightarrow> bool"
  assumes evolves_refl: "evolves r r"
    and evolves_trans: "evolves r r' \<Longrightarrow> evolves r' r2 \<Longrightarrow> evolves r r2"
    and row_step: "step s t \<Longrightarrow> r \<in> rows s \<Longrightarrow> \<exists>r' \<in> rows t. evolves r r'"
begin

lemma row_steps: "step\<^sup>*\<^sup>* s t \<Longrightarrow> r \<in> rows s \<Longrightarrow> \<exists>r' \<in> rows t. evolves r r'"
proof (induction rule: rtranclp_induct)
  case base
  then show ?case using evolves_refl by blast
next
  case (step y z)
  then show ?case by (meson evolves_trans row_step)
qed

end

end
