(* ===== verification/Page_Lifecycle.thy ===== *)
theory Page_Lifecycle
  imports Page_Store Transition_Systems
begin

text \<open>
  What every sequence of repository calls keeps true, whatever the order in which concurrent
  workers issue them: the step relation \<open>repo_step\<close> has one rule per method of
  \<^verbatim>\<open>PageWorkflowRepository\<close> (and one for the draft store, which writes its own two tables).
  Both contracts of transition systems are interpreted on it: its invariant, and the evolution of
  the rows of its tables.
\<close>

section \<open>The step relation\<close>

inductive repo_step :: "db \<Rightarrow> db \<Rightarrow> bool" where
  step_create_pages: "repo_step d (create_pages run org ps now d)"
| step_reserve: "reserve_next_version run page d = Inr (v, d') \<Longrightarrow> repo_step d d'"
| step_record_artifact: "record_artifact run page art v now d = Inr d' \<Longrightarrow> repo_step d d'"
| step_approve: "approve_escalated_pages run ids c now d = Inr (n, d') \<Longrightarrow> repo_step d d'"
| step_mark_failed: "repo_step d (snd (mark_escalated_failed run c now d))"
| step_record_evaluation: "record_evaluation res r org now d = Inr d' \<Longrightarrow> repo_step d d'"
| step_schedule: "schedule_revisions run org revs now d = Inr (vs, d') \<Longrightarrow> repo_step d d'"
| step_schedule_human: "schedule_human_revisions run hc now d = Inr (vs, d') \<Longrightarrow> repo_step d d'"
| step_cancel: "repo_step d (snd (cancel_pending_tasks run now d))"
| step_enqueue: "repo_step d (enqueue_task run tid org ty pg av deps inp now d)"
| step_claim: "repo_step d (snd (claim_ready_tasks run owner secs limit locked now d))"
| step_complete: "complete_task run tid owner out now d = Inr (b, d') \<Longrightarrow> repo_step d d'"
| step_retry: "retry_or_fail_task run tid owner err now d = Inr (st, d') \<Longrightarrow> repo_step d d'"
| step_reset: "repo_step d (snd (reset_expired_leases run now d))"
| step_drafts: "repo_step d (d\<lparr>db_revisions := vs, db_chunks := cs\<rparr>)"

definition empty_db :: db where
  "empty_db = \<lparr>db_pages = [], db_tasks = [], db_evaluations = [], db_revisions = [],
               db_chunks = []\<rparr>"

section \<open>Evolution of rows\<close>

inductive status_step :: "task_status \<Rightarrow> task_status \<Rightarrow> bool" where
  ss_claim: "status_step TPending TRunning"
| ss_complete: "status_step TRunning TCompleted"
| ss_recycle: "status_step TRunning TPending"
| ss_fail: "status_step TRunning TFailed"
| ss_cancel_pending: "status_step TPending TCancelled"
| ss_cancel_running: "status_step TRunning TCancelled"

inductive_simps status_step_from_terminal [simp]:
  "status_step TCompleted s" "status_step TFailed s" "status_step TCancelled s"

text \<open>What identifies a task and never changes after it was inserted.\<close>

definition same_task :: "workflow_task \<Rightarrow> workflow_task \<Rightarrow> bool" where
  "same_task t t' \<longleftrightarrow>
     task_key t' = task_key t \<and> wt_org_id t' = wt_org_id t \<and> wt_task_type t' = wt_task_type t
     \<and> wt_page_id t' = wt_page_id t \<and> wt_artifact_version t' = wt_artifact_version t
     \<and> wt_dependencies t' = wt_dependencies t \<and> wt_input_data t' = wt_input_data t
     \<and> wt_created_at t' = wt_created_at t"

definition task_step :: "workflow_task \<Rightarrow> workflow_task \<Rightarrow> bool" where
  "task_step t t' \<longleftrightarrow> t' = t \<or> (same_task t t' \<and> status_step (wt_status t) (wt_status t'))"

definition task_evolves :: "workflow_task \<Rightarrow> workflow_task \<Rightarrow> bool" where
  "task_evolves t t' \<longleftrightarrow>
     same_task t t' \<and> status_step\<^sup>*\<^sup>* (wt_status t) (wt_status t') \<and>
     (wt_status t \<in> {TCompleted, TFailed, TCancelled} \<longrightarrow> t' = t)"

definition page_evolves :: "page_state \<Rightarrow> page_state \<Rightarrow> bool" where
  "page_evolves r r' \<longleftrightarrow>
     page_key r' = page_key r \<and> ps_org_id r' = ps_org_id r \<and> ps_path r' = ps_path r
     \<and> ps_action r' = ps_action r \<and> ps_next_version r \<le> ps_next_version r'
     \<and> (ps_latest_version r < ps_latest_version r' \<or>
        (ps_latest_version r' = ps_latest_version r \<and>
         ps_latest_artifact_id r' = ps_latest_artifact_id r))"

lemma same_task_refl [simp]: "same_task t t"
  by (simp add: same_task_def)

lemma same_task_trans: "same_task t u \<Longrightarrow> same_task u v \<Longrightarrow> same_task t v"
  by (simp add: same_task_def)

lemma task_step_refl [simp]: "task_step t t"
  by (simp add: task_step_def)

lemma task_step_evolves: "task_step t t' \<Longrightarrow> task_evolves t t'"
  by (auto simp: task_step_def task_evolves_def)

lemma task_evolves_trans: "task_evolves t u \<Longrightarrow> task_evolves u v \<Longrightarrow> task_evolves t v"
  by (auto simp: task_evolves_def intro: same_task_trans rtranclp_trans)

lemma page_evolves_refl [simp]: "page_evolves r r"
  by (simp add: page_evolves_def)

lemma page_evolves_trans: "page_evolves r s \<Longrightarrow> page_evolves s t \<Longrightarrow> page_evolves r t"
  by (auto simp: page_evolves_def)

text \<open>Conditional updates and inserts lift a row relation to the table.\<close>

lemma upd_where_rows:
  assumes "\<And>r. r \<in> set t \<Longrightarrow> p r \<Longrightarrow> R r (f r)" and "\<And>r. R r r" and "r \<in> set t"
  shows "\<exists>r' \<in> set (upd_where p f t). R r r'"
  using assms by (cases "p r") (auto simp: upd_where_def)

lemma insert_new_rows: "r \<in> set t \<Longrightarrow> r \<in> set (insert_new key x t)"
  by (simp add: table_simps)

section \<open>Effect of each operation on the task table\<close>

definition task_sim :: "db \<Rightarrow> db \<Rightarrow> bool" where
  "task_sim d d' \<longleftrightarrow> (\<forall>t \<in> set (db_tasks d). \<exists>t' \<in> set (db_tasks d'). task_step t t')"

lemma task_sim_subset: "set (db_tasks d) \<subseteq> set (db_tasks d') \<Longrightarrow> task_sim d d'"
  unfolding task_sim_def using task_step_refl by blast

lemma task_sim_same: "db_tasks d' = db_tasks d \<Longrightarrow> task_sim d d'"
  by (simp add: task_sim_subset)

lemma task_sim_upd:
  assumes "\<And>t. t \<in> set (db_tasks d) \<Longrightarrow> p t \<Longrightarrow> task_step t (f t)"
  shows "task_sim d (d\<lparr>db_tasks := upd_where p f (db_tasks d)\<rparr>)"
  unfolding task_sim_def using assms
  by (auto intro!: upd_where_rows [where R = task_step])

lemma create_pages_frame [simp]:
  "db_tasks (create_pages run org ps now d) = db_tasks d"
  "db_evaluations (create_pages run org ps now d) = db_evaluations d"
  "db_revisions (create_pages run org ps now d) = db_revisions d"
  "db_chunks (create_pages run org ps now d) = db_chunks d"
  by (induction run org ps now d rule: create_pages.induct) auto

lemma approve_loop_frame:
  "approve_loop run ids c now k d = (n, d') \<Longrightarrow>
     db_tasks d' = db_tasks d \<and> db_evaluations d' = db_evaluations d"
  by (induction run ids c now k d rule: approve_loop.induct) (auto simp: Let_def)

lemma record_evaluation_project:
  assumes "record_evaluation res r org now d = Inr d'"
  obtains run org' where "project_evaluation res run org' now d = Inr d'"
  using assms
  by (auto simp: record_evaluation_def Let_def split: option.splits if_splits)

lemma project_evaluation_tasks:
  "project_evaluation res run org now d = Inr d' \<Longrightarrow> db_tasks d' = db_tasks d"
  by (auto simp: project_evaluation_def Let_def split: prod.splits if_splits)

lemma schedule_pair_tasks:
  "set (db_tasks d) \<subseteq> set (db_tasks (schedule_pair run org pg v wi ei now d))"
  by (auto simp: schedule_pair_def enqueue_task_def Let_def table_simps)

lemma schedule_loop_ConsD:
  assumes "schedule_loop run org (rn # revs) now d = Inr (vs, d')"
  obtains page ws where
    "find (\<lambda>r. page_key r = (run, rs_page_id rn)) (db_pages d) = Some page"
    "str_opt (ps_latest_artifact_id page) = rs_source_artifact_id rn"
    "ps_latest_version page = rs_source_version rn"
    "rs_attempt rn = ps_evaluation_attempt page + 1"
    "schedule_loop run org revs now
       (schedule_pair run org (rs_page_id rn) (rs_source_version rn + 1) (rs_write_input rn)
          (rs_evaluate_input rn) now d) = Inr (ws, d')"
    "vs = (rs_source_version rn + 1) # ws"
  using assms by (auto simp: Let_def split: option.splits if_splits sum.splits)

text \<open>A property of the database that every scheduled pair keeps, a whole batch keeps.\<close>

lemma schedule_loop_rel:
  assumes refl: "\<And>d. R d d" and trans: "\<And>a b c. R a b \<Longrightarrow> R b c \<Longrightarrow> R a c"
    and pair: "\<And>d org pg v wi ei. R d (schedule_pair run org pg v wi ei now d)"
  shows "schedule_loop run org revs now d = Inr (vs, d') \<Longrightarrow> R d d'"
proof (induction revs arbitrary: d vs)
  case Nil
  then show ?case by (simp add: refl)
next
  case (Cons rn revs)
  from Cons.prems obtain ws where
    "schedule_loop run org revs now
       (schedule_pair run org (rs_page_id rn) (rs_source_version rn + 1) (rs_write_input rn)
          (rs_evaluate_input rn) now d) = Inr (ws, d')"
    by (rule schedule_loop_ConsD)
  then show ?case by (blast intro: trans pair Cons.IH)
qed

lemma human_loop_ConsD:
  assumes "human_loop run c (p # ps) now d = Inr (vs, d')"
  obtains wi ei ws where
    "human_loop run c ps now
       (schedule_pair run (ps_org_id p) (ps_page_id p) (ps_latest_version p + 1) wi ei now d)
       = Inr (ws, d')"
    "human_inputs run c p d = Inr (wi, ei)"
    "vs = (ps_latest_version p + 1) # ws"
  using assms by (auto simp: Let_def split: sum.splits)

lemma human_loop_rel:
  assumes refl: "\<And>d. R d d" and trans: "\<And>a b c. R a b \<Longrightarrow> R b c \<Longrightarrow> R a c"
    and pair: "\<And>d org pg v wi ei. R d (schedule_pair run org pg v wi ei now d)"
  shows "human_loop run c ps now d = Inr (vs, d') \<Longrightarrow> R d d'"
proof (induction ps arbitrary: d vs)
  case Nil
  then show ?case by (simp add: refl)
next
  case (Cons p ps)
  from Cons.prems obtain wi ei ws where
    "human_loop run c ps now
       (schedule_pair run (ps_org_id p) (ps_page_id p) (ps_latest_version p + 1) wi ei now d)
       = Inr (ws, d')"
    by (rule human_loop_ConsD)
  then show ?case by (blast intro: trans pair Cons.IH)
qed

lemma schedule_revisions_loop:
  "schedule_revisions run org revs now d = Inr (vs, d') \<Longrightarrow>
     schedule_loop run org revs now d = Inr (vs, d')"
  by (auto simp: schedule_revisions_def split: if_splits)

lemma schedule_human_loop:
  assumes "schedule_human_revisions run hc now d = Inr (vs, d')"
  obtains c ps where "human_loop run c ps now d = Inr (vs, d')"
  using assms by (auto simp: schedule_human_revisions_def Let_def split: if_splits)

text \<open>The same for a predicate that a scheduled pair preserves.\<close>

lemma schedule_revisions_preserves:
  assumes "\<And>d org pg v wi ei. P d \<Longrightarrow> P (schedule_pair run org pg v wi ei now d)"
    and "schedule_revisions run org revs now d = Inr (vs, d')" and "P d"
  shows "P d'"
proof -
  have "P d \<longrightarrow> P d'"
    using schedule_revisions_loop [OF assms(2)]
    by (rule schedule_loop_rel [where R = "\<lambda>a b. P a \<longrightarrow> P b", rotated -1])
       (use assms(1) in auto)
  with assms(3) show ?thesis by simp
qed

lemma schedule_human_preserves:
  assumes "\<And>d org pg v wi ei. P d \<Longrightarrow> P (schedule_pair run org pg v wi ei now d)"
    and "schedule_human_revisions run hc now d = Inr (vs, d')" and "P d"
  shows "P d'"
proof -
  from assms(2) obtain c ps where "human_loop run c ps now d = Inr (vs, d')"
    by (rule schedule_human_loop)
  then have "P d \<longrightarrow> P d'"
    by (rule human_loop_rel [where R = "\<lambda>a b. P a \<longrightarrow> P b", rotated -1])
       (use assms(1) in auto)
  with assms(3) show ?thesis by simp
qed

lemma lease_task_step:
  "wt_status t = TPending \<Longrightarrow> task_step t (lease_task owner secs now t)"
  by (simp add: task_step_def lease_task_def same_task_def status_step.simps)

lemma retry_task_step:
  "wt_status t = TRunning \<Longrightarrow> task_step t (retry_task err now t)"
  by (simp add: task_step_def retry_task_def same_task_def status_step.simps)

lemma claim_selection_claimable:
  assumes "distinct (map task_key ts)" and "t \<in> set ts" and "wt_run_id t = run"
    and "wt_task_id t \<in> set (claim_selection run limit locked ts)"
  shows "claimable run ts t" and "wt_task_id t \<notin> set locked"
proof -
  from assms(4) obtain u where u: "u \<in> set ts" "claimable run ts u" "wt_task_id u = wt_task_id t"
    "wt_task_id u \<notin> set locked"
    by (auto simp: claim_selection_def dest!: in_set_takeD)
  from u(2) have "wt_run_id u = run" by (simp add: claimable_def)
  with u(3) assms(3) have key: "task_key u = task_key t" by simp
  have "inj_on task_key (set ts)" using assms(1) by (simp add: distinct_map)
  from this key u(1) assms(2) have "u = t" by (rule inj_onD)
  with u(2,4) show "claimable run ts t" "wt_task_id t \<notin> set locked" by simp_all
qed

section \<open>The database invariant\<close>

definition lease_ok :: "workflow_task \<Rightarrow> bool" where
  "lease_ok t \<longleftrightarrow>
     (wt_status t = TRunning \<longrightarrow> wt_lease_owner t \<noteq> None \<and> wt_lease_expires_at t \<noteq> None) \<and>
     (wt_status t = TPending \<longrightarrow> wt_lease_owner t = None \<and> wt_lease_expires_at t = None) \<and>
     (wt_status t = TFailed \<longrightarrow> wt_infrastructure_retries t = 1) \<and>
     wt_infrastructure_retries t \<in> {0, 1}"

definition started :: "workflow_task \<Rightarrow> bool" where
  "started t \<longleftrightarrow> wt_status t \<in> {TRunning, TCompleted, TFailed}"

definition tasks_inv :: "workflow_task list \<Rightarrow> bool" where
  "tasks_inv ts \<longleftrightarrow>
     distinct (map task_key ts) \<and> (\<forall>t \<in> set ts. lease_ok t) \<and>
     (\<forall>t \<in> set ts. started t \<longrightarrow> deps_completed ts t)"

definition page_ok :: "page_state \<Rightarrow> bool" where
  "page_ok r \<longleftrightarrow>
     0 \<le> ps_latest_version r \<and> 1 \<le> ps_next_version r \<and>
     (ps_latest_version r = 0 \<longleftrightarrow> ps_latest_artifact_id r = None)"

definition pages_inv :: "page_state list \<Rightarrow> bool" where
  "pages_inv ps \<longleftrightarrow> distinct (map page_key ps) \<and> (\<forall>r \<in> set ps. page_ok r)"

definition repo_inv :: "db \<Rightarrow> bool" where
  "repo_inv d \<longleftrightarrow> tasks_inv (db_tasks d) \<and> pages_inv (db_pages d)
     \<and> distinct (map evaluation_key (db_evaluations d))"

lemmas task_defs = lease_ok_def started_def

lemma deps_completed_mono:
  assumes "\<And>c. c \<in> set ts \<Longrightarrow> wt_status c = TCompleted \<Longrightarrow> c \<in> set ts'"
    and "wt_run_id t' = wt_run_id t" and "wt_dependencies t' = wt_dependencies t"
    and "deps_completed ts t"
  shows "deps_completed ts' t'"
  using assms unfolding deps_completed_def by metis

lemma tasks_inv_upd:
  assumes inv: "tasks_inv ts"
    and same: "\<And>t. t \<in> set ts \<Longrightarrow> p t \<Longrightarrow>
      task_key (f t) = task_key t \<and> wt_dependencies (f t) = wt_dependencies t"
    and open_row: "\<And>t. t \<in> set ts \<Longrightarrow> p t \<Longrightarrow> wt_status t \<noteq> TCompleted"
    and lease: "\<And>t. t \<in> set ts \<Longrightarrow> p t \<Longrightarrow> lease_ok t \<Longrightarrow> lease_ok (f t)"
    and deps: "\<And>t. t \<in> set ts \<Longrightarrow> p t \<Longrightarrow> started (f t) \<Longrightarrow> deps_completed ts t"
  shows "tasks_inv (upd_where p f ts)"
proof -
  let ?ts = "upd_where p f ts"
  from inv have d: "distinct (map task_key ts)" and l: "\<forall>t \<in> set ts. lease_ok t"
    and s: "\<forall>t \<in> set ts. started t \<longrightarrow> deps_completed ts t"
    by (auto simp: tasks_inv_def)
  have "map task_key ?ts = map task_key ts"
    using same by (auto simp: upd_where_def)
  with d have "distinct (map task_key ?ts)" by simp
  moreover have "\<forall>t \<in> set ?ts. lease_ok t"
    using l lease by (auto simp: table_simps)
  moreover have keep: "c \<in> set ?ts" if "c \<in> set ts" "wt_status c = TCompleted" for c
    using open_row that by (auto simp: table_simps)
  have "deps_completed ?ts t" if "t \<in> set ?ts" and st: "started t" for t
  proof -
    from that(1) consider u where "u \<in> set ts" "p u" "t = f u" | "t \<in> set ts" "\<not> p t"
      by (auto simp: table_simps)
    then show ?thesis
    proof cases
      case 1
      with st deps have "deps_completed ts u" by blast
      moreover have "wt_run_id t = wt_run_id u" "wt_dependencies t = wt_dependencies u"
        using same [OF 1(1,2)] 1(3) by auto
      ultimately show ?thesis using deps_completed_mono [OF keep] by blast
    next
      case 2
      with st s have "deps_completed ts t" by blast
      from deps_completed_mono [OF keep refl refl this] show ?thesis by blast
    qed
  qed
  ultimately show ?thesis by (simp add: tasks_inv_def)
qed

lemma tasks_inv_insert:
  assumes inv: "tasks_inv ts" and new: "wt_status t = TPending" "lease_ok t"
  shows "tasks_inv (insert_new task_key t ts)"
proof -
  have keep: "c \<in> set (insert_new task_key t ts)" if "c \<in> set ts" "wt_status c = TCompleted" for c
    using that(1) by (simp add: table_simps)
  have "deps_completed (insert_new task_key t ts) u"
    if "u \<in> set (insert_new task_key t ts)" "started u" for u
  proof -
    have "u \<in> set ts"
      using that new(1) by (auto simp: table_simps started_def split: if_splits)
    with inv that(2) have "deps_completed ts u" by (simp add: tasks_inv_def)
    from deps_completed_mono [OF keep refl refl this] show ?thesis by blast
  qed
  moreover have "\<forall>u \<in> set (insert_new task_key t ts). lease_ok u"
    using inv new by (simp add: table_simps tasks_inv_def)
  ultimately show ?thesis using inv by (simp add: tasks_inv_def table_simps)
qed

lemma pages_inv_upd:
  assumes inv: "pages_inv ps"
    and same: "\<And>r. r \<in> set ps \<Longrightarrow> p r \<Longrightarrow> page_key (f r) = page_key r"
    and ok: "\<And>r. r \<in> set ps \<Longrightarrow> p r \<Longrightarrow> page_ok r \<Longrightarrow> page_ok (f r)"
  shows "pages_inv (upd_where p f ps)"
proof -
  have "map page_key (upd_where p f ps) = map page_key ps"
    using same by (auto simp: upd_where_def)
  moreover have "\<forall>r \<in> set (upd_where p f ps). page_ok r"
    using inv ok by (auto simp: table_simps pages_inv_def)
  ultimately show ?thesis using inv by (simp add: pages_inv_def)
qed

lemma pages_inv_insert:
  "pages_inv ps \<Longrightarrow> page_ok r \<Longrightarrow> pages_inv (insert_new page_key r ps)"
  by (simp add: pages_inv_def table_simps)

subsection \<open>Preservation, operation by operation\<close>

lemma inv_enqueue [db_inv_intros]:
  "repo_inv d \<Longrightarrow> repo_inv (enqueue_task run tid org ty pg av deps inp now d)"
  by (auto simp: repo_inv_def enqueue_task_def pending_task_def lease_ok_def
      intro!: tasks_inv_insert)

lemma inv_create_pages [db_inv_intros]:
  "repo_inv d \<Longrightarrow> repo_inv (create_pages run org ps now d)"
proof (induction run org ps now d rule: create_pages.induct)
  case (1 run org now d)
  then show ?case by simp
next
  case (2 run org p ps now d)
  have "page_ok (seed_page run org now p)" by (simp add: page_ok_def seed_page_def)
  with "2" show ?case by (simp add: repo_inv_def pages_inv_insert)
qed

lemma inv_reserve [db_inv_intros]:
  "reserve_next_version run page d = Inr (v, d') \<Longrightarrow> repo_inv d \<Longrightarrow> repo_inv d'"
  by (auto simp: reserve_next_version_def Let_def repo_inv_def page_ok_def
      intro!: pages_inv_upd split: option.splits)

lemma inv_record_artifact [db_inv_intros]:
  "record_artifact run page art v now d = Inr d' \<Longrightarrow> repo_inv d \<Longrightarrow> repo_inv d'"
  by (auto simp: record_artifact_def Let_def repo_inv_def page_ok_def promotes_def
      intro!: pages_inv_upd split: if_splits)

lemma inv_approve_loop:
  "approve_loop run ids c now k d = (n, d') \<Longrightarrow> repo_inv d \<Longrightarrow> repo_inv d'"
proof (induction run ids c now k d rule: approve_loop.induct)
  case (1 run c now k d)
  then show ?case by simp
next
  case (2 run i ids c now k d)
  let ?d = "d\<lparr>db_pages := upd_where (\<lambda>r. awaiting run r \<and> ps_page_id r = i)
      (\<lambda>r. r\<lparr>ps_status := PASSED,
             ps_escalation_reason := approved_reason c (ps_escalation_reason r),
             ps_updated_at := now\<rparr>) (db_pages d)\<rparr>"
  have "repo_inv ?d"
    using "2.prems"(2) by (auto simp: repo_inv_def page_ok_def intro!: pages_inv_upd)
  with "2.IH" [OF refl refl refl] "2.prems"(1) show ?case by (simp add: Let_def)
qed

lemma inv_mark_failed [db_inv_intros]:
  "repo_inv d \<Longrightarrow> repo_inv (snd (mark_escalated_failed run c now d))"
  by (auto simp: mark_escalated_failed_def Let_def repo_inv_def page_ok_def
      intro!: pages_inv_upd)

lemma persist_evaluation_distinct:
  assumes "persist_evaluation row t = (r, t')" and "distinct (map evaluation_key t)"
  shows "distinct (map evaluation_key t')"
proof (cases "find (\<lambda>r. evaluation_key r = evaluation_key row) t")
  case None
  then have "evaluation_key row \<notin> set (map evaluation_key t)"
    by (auto simp: find_None_iff)
  with assms None show ?thesis by (auto simp: persist_evaluation_def)
next
  case (Some a)
  with assms show ?thesis by (auto simp: persist_evaluation_def)
qed

lemma inv_project_evaluation:
  "project_evaluation res run org now d = Inr d' \<Longrightarrow> repo_inv d \<Longrightarrow> repo_inv d'"
  by (auto simp: project_evaluation_def Let_def repo_inv_def page_ok_def
      intro!: pages_inv_upd dest: persist_evaluation_distinct split: prod.splits if_splits)

lemma inv_record_evaluation [db_inv_intros]:
  "record_evaluation res r org now d = Inr d' \<Longrightarrow> repo_inv d \<Longrightarrow> repo_inv d'"
  by (erule record_evaluation_project) (rule inv_project_evaluation)

lemma inv_schedule_pair:
  "repo_inv d \<Longrightarrow> repo_inv (schedule_pair run org pg v wi ei now d)"
  unfolding schedule_pair_def Let_def
  by (intro inv_enqueue) (auto simp: repo_inv_def page_ok_def intro!: pages_inv_upd)

lemma inv_schedule [db_inv_intros]:
  "schedule_revisions run org revs now d = Inr (vs, d') \<Longrightarrow> repo_inv d \<Longrightarrow> repo_inv d'"
  by (rule schedule_revisions_preserves [where P = repo_inv]) (rule inv_schedule_pair)

lemma inv_schedule_human [db_inv_intros]:
  "schedule_human_revisions run hc now d = Inr (vs, d') \<Longrightarrow> repo_inv d \<Longrightarrow> repo_inv d'"
  by (rule schedule_human_preserves [where P = repo_inv]) (rule inv_schedule_pair)

lemma repo_inv_tasks_upd:
  "repo_inv d \<Longrightarrow> (tasks_inv (db_tasks d) \<Longrightarrow> tasks_inv ts) \<Longrightarrow> repo_inv (d\<lparr>db_tasks := ts\<rparr>)"
  by (simp add: repo_inv_def)

lemma inv_cancel [db_inv_intros]:
  "repo_inv d \<Longrightarrow> repo_inv (snd (cancel_pending_tasks run now d))"
  unfolding cancel_pending_tasks_def Let_def snd_conv
  by (erule repo_inv_tasks_upd, erule tasks_inv_upd) (auto simp: task_defs)

lemma inv_claim [db_inv_intros]:
  assumes "repo_inv d"
  shows "repo_inv (snd (claim_ready_tasks run owner secs limit locked now d))"
proof -
  let ?ids = "claim_selection run limit locked (db_tasks d)"
  have ti: "tasks_inv (db_tasks d)" using assms by (simp add: repo_inv_def)
  then have ready: "claimable run (db_tasks d) t"
    if "t \<in> set (db_tasks d)" "wt_run_id t = run" "wt_task_id t \<in> set ?ids" for t
    using claim_selection_claimable(1) that by (simp add: tasks_inv_def)
  have "tasks_inv (upd_where (\<lambda>t. wt_run_id t = run \<and> wt_task_id t \<in> set ?ids)
          (lease_task owner secs now) (db_tasks d))"
    using ti
    by (rule tasks_inv_upd)
       (auto simp: lease_task_def task_defs claimable_def deps_completed_def dest!: ready)
  with assms show ?thesis
    by (simp add: claim_ready_tasks_def Let_def repo_inv_def)
qed

lemma inv_complete [db_inv_intros]:
  assumes "complete_task run tid owner out now d = Inr (b, d')" and "repo_inv d"
  shows "repo_inv d'"
proof -
  have ti: "tasks_inv (db_tasks d)" using assms(2) by (simp add: repo_inv_def)
  have "tasks_inv (upd_where (holds_lease run tid owner)
      (\<lambda>t. t\<lparr>wt_status := TCompleted, wt_output_data := out, wt_error := None,
             wt_updated_at := now\<rparr>) (db_tasks d))"
    by (rule tasks_inv_upd [OF ti])
       (use ti in \<open>auto simp: holds_lease_def task_defs tasks_inv_def\<close>)
  with assms show ?thesis
    by (auto simp: complete_task_def Let_def repo_inv_def split: if_splits)
qed

lemma inv_retry [db_inv_intros]:
  assumes "retry_or_fail_task run tid owner err now d = Inr (st, d')" and "repo_inv d"
  shows "repo_inv d'"
proof -
  have ti: "tasks_inv (db_tasks d)" using assms(2) by (simp add: repo_inv_def)
  have "tasks_inv (upd_where (holds_lease run tid owner) (retry_task err now) (db_tasks d))"
    by (rule tasks_inv_upd [OF ti])
       (use ti in \<open>auto simp: holds_lease_def retry_task_def task_defs tasks_inv_def
          split: if_splits\<close>)
  with assms show ?thesis
    by (auto simp: retry_or_fail_task_def Let_def repo_inv_def split: if_splits)
qed

lemma inv_reset [db_inv_intros]:
  "repo_inv d \<Longrightarrow> repo_inv (snd (reset_expired_leases run now d))"
  unfolding reset_expired_leases_def snd_conv
  by (erule repo_inv_tasks_upd, erule tasks_inv_upd) (auto simp: task_defs lease_expired_def)

lemma inv_approve [db_inv_intros]:
  "approve_escalated_pages run ids c now d = Inr (n, d') \<Longrightarrow> repo_inv d \<Longrightarrow> repo_inv d'"
  using inv_approve_loop by (auto simp: approve_escalated_pages_def split: if_splits)

theorem repo_step_inv: "repo_step d d' \<Longrightarrow> repo_inv d \<Longrightarrow> repo_inv d'"
proof (induction rule: repo_step.induct)
  case (step_drafts d vs cs)
  then show ?case by (simp add: repo_inv_def)
qed (auto intro: db_inv_intros)

section \<open>Simulation of the row automata\<close>

lemma step_tasks:
  assumes "repo_step d d'" and "repo_inv d"
  shows "task_sim d d'"
  using assms
proof (induction rule: repo_step.induct)
  case (step_create_pages d run org ps now)
  then show ?case by (simp add: task_sim_same)
next
  case (step_reserve run page d v d')
  then show ?case
    by (intro task_sim_same) (auto simp: reserve_next_version_def Let_def split: option.splits)
next
  case (step_record_artifact run page art v now d d')
  then show ?case
    by (intro task_sim_same) (auto simp: record_artifact_def Let_def split: if_splits)
next
  case (step_approve run ids c now d n d')
  then show ?case
    by (intro task_sim_same)
       (auto simp: approve_escalated_pages_def dest: approve_loop_frame split: if_splits)
next
  case (step_mark_failed d run c now)
  then show ?case by (intro task_sim_same) (simp add: mark_escalated_failed_def Let_def)
next
  case (step_record_evaluation res r org now d d')
  from step_record_evaluation.hyps obtain run o' where "project_evaluation res run o' now d = Inr d'"
    by (rule record_evaluation_project)
  then show ?case by (intro task_sim_same project_evaluation_tasks)
next
  case (step_schedule run org revs now d vs d')
  have "set (db_tasks d) \<subseteq> set (db_tasks d')"
    by (rule schedule_revisions_preserves [where P = "\<lambda>x. set (db_tasks d) \<subseteq> set (db_tasks x)",
          OF _ step_schedule.hyps])
       (use schedule_pair_tasks in blast)+
  then show ?case by (rule task_sim_subset)
next
  case (step_schedule_human run hc now d vs d')
  have "set (db_tasks d) \<subseteq> set (db_tasks d')"
    by (rule schedule_human_preserves [where P = "\<lambda>x. set (db_tasks d) \<subseteq> set (db_tasks x)",
          OF _ step_schedule_human.hyps])
       (use schedule_pair_tasks in blast)+
  then show ?case by (rule task_sim_subset)
next
  case (step_cancel d run now)
  show ?case
    unfolding cancel_pending_tasks_def Let_def snd_conv
    by (rule task_sim_upd) (auto simp: task_step_def same_task_def status_step.simps)
next
  case (step_enqueue d run tid org ty pg av deps inp now)
  show ?case by (rule task_sim_subset) (auto simp: enqueue_task_def table_simps)
next
  case (step_claim d run owner secs limit locked now)
  have "distinct (map task_key (db_tasks d))"
    using step_claim.prems by (simp add: repo_inv_def tasks_inv_def)
  then show ?case
    unfolding claim_ready_tasks_def Let_def snd_conv
    by (intro task_sim_upd lease_task_step)
       (auto dest: claim_selection_claimable(1) simp: claimable_def)
next
  case (step_complete run tid owner out now d b d')
  then have "d' = d\<lparr>db_tasks := upd_where (holds_lease run tid owner)
      (\<lambda>t. t\<lparr>wt_status := TCompleted, wt_output_data := out, wt_error := None,
             wt_updated_at := now\<rparr>) (db_tasks d)\<rparr>"
    by (auto simp: complete_task_def Let_def split: if_splits)
  then show ?case
    by (auto intro!: task_sim_upd simp: holds_lease_def task_step_def same_task_def status_step.simps)
next
  case (step_retry run tid owner err now d st d')
  then have "d' = d\<lparr>db_tasks := upd_where (holds_lease run tid owner) (retry_task err now) (db_tasks d)\<rparr>"
    by (auto simp: retry_or_fail_task_def Let_def split: if_splits)
  then show ?case by (auto intro!: task_sim_upd retry_task_step simp: holds_lease_def)
next
  case (step_reset d run now)
  show ?case
    unfolding reset_expired_leases_def snd_conv
    by (rule task_sim_upd)
       (auto simp: lease_expired_def task_step_def same_task_def status_step.simps)
next
  case (step_drafts d vs cs)
  show ?case by (rule task_sim_same) simp
qed

definition page_sim :: "db \<Rightarrow> db \<Rightarrow> bool" where
  "page_sim d d' \<longleftrightarrow> (\<forall>r \<in> set (db_pages d). \<exists>r' \<in> set (db_pages d'). page_evolves r r')"

lemma page_sim_subset: "set (db_pages d) \<subseteq> set (db_pages d') \<Longrightarrow> page_sim d d'"
  unfolding page_sim_def using page_evolves_refl by blast

lemma page_sim_same: "db_pages d' = db_pages d \<Longrightarrow> page_sim d d'"
  by (simp add: page_sim_subset)

lemma page_sim_trans: "page_sim a b \<Longrightarrow> page_sim b c \<Longrightarrow> page_sim a c"
  unfolding page_sim_def using page_evolves_trans by blast

lemma page_sim_upd:
  assumes "\<And>r. r \<in> set (db_pages d) \<Longrightarrow> p r \<Longrightarrow> page_evolves r (f r)"
    and "db_pages d' = upd_where p f (db_pages d)"
  shows "page_sim d d'"
  unfolding page_sim_def assms(2) using assms(1)
  by (auto intro!: upd_where_rows [where R = page_evolves])

lemma page_sim_create: "page_sim d (create_pages run org ps now d)"
proof (induction run org ps now d rule: create_pages.induct)
  case (1 run org now d)
  show ?case by (simp add: page_sim_same)
next
  case (2 run org p ps now d)
  have "page_sim d (d\<lparr>db_pages := insert_new page_key (seed_page run org now p) (db_pages d)\<rparr>)"
    by (rule page_sim_subset) (auto simp: table_simps)
  with "2" show ?case by (auto intro: page_sim_trans)
qed

lemma page_sim_approve_loop:
  "approve_loop run ids c now k d = (n, d') \<Longrightarrow> page_sim d d'"
proof (induction run ids c now k d rule: approve_loop.induct)
  case (1 run c now k d)
  then show ?case by (simp add: page_sim_same)
next
  case (2 run i ids c now k d)
  let ?d = "d\<lparr>db_pages := upd_where (\<lambda>r. awaiting run r \<and> ps_page_id r = i)
      (\<lambda>r. r\<lparr>ps_status := PASSED,
             ps_escalation_reason := approved_reason c (ps_escalation_reason r),
             ps_updated_at := now\<rparr>) (db_pages d)\<rparr>"
  have "page_sim d ?d" by (rule page_sim_upd) (auto simp: page_evolves_def)
  moreover have "page_sim ?d d'"
    using "2.IH" [OF refl refl refl] "2.prems" by (simp add: Let_def)
  ultimately show ?case by (rule page_sim_trans)
qed

lemma page_sim_schedule_pair: "page_sim d (schedule_pair run org pg v wi ei now d)"
  by (rule page_sim_upd [where p = "\<lambda>r. page_key r = (run, pg)"
        and f = "\<lambda>r. r\<lparr>ps_next_version := max (ps_next_version r) (v + 1),
                        ps_status := REVISING, ps_updated_at := now\<rparr>"])
     (auto simp: page_evolves_def schedule_pair_def enqueue_task_def Let_def)

lemma step_pages:
  assumes "repo_step d d'"
  shows "page_sim d d'"
  using assms
proof (induction rule: repo_step.induct)
  case (step_create_pages d run org ps now)
  show ?case by (rule page_sim_create)
next
  case (step_reserve run page d v d')
  then show ?case
    by (intro page_sim_upd [where p = "\<lambda>r. page_key r = (run, page)"
          and f = "\<lambda>r. r\<lparr>ps_next_version := ps_next_version r + 1\<rparr>"])
       (auto simp: reserve_next_version_def Let_def page_evolves_def split: option.splits)
next
  case (step_record_artifact run page art v now d d')
  then show ?case
    by (intro page_sim_upd [where p = "promotes run page art v"
          and f = "\<lambda>r. r\<lparr>ps_latest_artifact_id := Some art, ps_latest_version := v,
                         ps_status := EVALUATING, ps_updated_at := now\<rparr>"])
       (auto simp: record_artifact_def Let_def page_evolves_def promotes_def split: if_splits)
next
  case (step_approve run ids c now d n d')
  then show ?case
    by (auto simp: approve_escalated_pages_def dest: page_sim_approve_loop split: if_splits)
next
  case (step_mark_failed d run c now)
  show ?case
    by (rule page_sim_upd [where p = "awaiting run"])
       (auto simp: mark_escalated_failed_def Let_def page_evolves_def)
next
  case (step_record_evaluation res r org now d d')
  from step_record_evaluation obtain run o' where pe: "project_evaluation res run o' now d = Inr d'"
    by (rule record_evaluation_project)
  obtain x t where pers: "persist_evaluation (evaluation_row_of res run o') (db_evaluations d) = (x, t)"
    by fastforce
  have "db_pages d' = upd_where (projects res run (db_revisions d))
      (\<lambda>r. r\<lparr>ps_status := page_status_of (er_status x), ps_evaluation_attempt := er_attempt x,
             ps_escalation_reason := (if er_status x = EvAwaitingHumanReview
                then Some (join_with ''; '' (er_revision_feedback x)) else None),
             ps_updated_at := now\<rparr>) (db_pages d)"
    using pe by (auto simp: project_evaluation_def pers Let_def split: if_splits)
  then show ?case by (rule page_sim_upd [rotated]) (auto simp: page_evolves_def)
next
  case (step_schedule run org revs now d vs d')
  show ?case
    by (rule schedule_revisions_preserves [where P = "page_sim d", OF _ step_schedule])
       (auto intro: page_sim_trans page_sim_schedule_pair page_sim_same)
next
  case (step_schedule_human run hc now d vs d')
  show ?case
    by (rule schedule_human_preserves [where P = "page_sim d", OF _ step_schedule_human])
       (auto intro: page_sim_trans page_sim_schedule_pair page_sim_same)
next
  case (step_cancel d run now)
  show ?case by (rule page_sim_same) (simp add: cancel_pending_tasks_def Let_def)
next
  case (step_enqueue d run tid org ty pg av deps inp now)
  show ?case by (rule page_sim_same) (simp add: enqueue_task_def)
next
  case (step_claim d run owner secs limit locked now)
  show ?case by (rule page_sim_same) (simp add: claim_ready_tasks_def Let_def)
next
  case (step_complete run tid owner out now d b d')
  then show ?case
    by (intro page_sim_same) (auto simp: complete_task_def Let_def split: if_splits)
next
  case (step_retry run tid owner err now d st d')
  then show ?case
    by (intro page_sim_same) (auto simp: retry_or_fail_task_def Let_def split: if_splits)
next
  case (step_reset d run now)
  show ?case by (rule page_sim_same) (simp add: reset_expired_leases_def)
next
  case (step_drafts d vs cs)
  show ?case by (rule page_sim_same) simp
qed

section \<open>The contracts hold for the repository\<close>

interpretation repo: invariant_system "\<lambda>d. d = empty_db" repo_step repo_inv
proof unfold_locales
  show "s = empty_db \<Longrightarrow> repo_inv s" for s
    by (simp add: repo_inv_def empty_db_def tasks_inv_def pages_inv_def)
  show "repo_inv s \<Longrightarrow> repo_step s t \<Longrightarrow> repo_inv t" for s t
    by (rule repo_step_inv)
qed

interpretation task_rows:
  row_evolution "\<lambda>d d'. repo_inv d \<and> repo_step d d'" "\<lambda>d. set (db_tasks d)" task_evolves
proof unfold_locales
  show "task_evolves r r" for r by (rule task_step_evolves) simp
  show "task_evolves r r' \<Longrightarrow> task_evolves r' r2 \<Longrightarrow> task_evolves r r2" for r r' r2
    by (rule task_evolves_trans)
  show "repo_inv s \<and> repo_step s t \<Longrightarrow> r \<in> set (db_tasks s) \<Longrightarrow>
      \<exists>r' \<in> set (db_tasks t). task_evolves r r'" for s t r
    using step_tasks task_step_evolves unfolding task_sim_def by blast
qed

interpretation page_rows: row_evolution repo_step "\<lambda>d. set (db_pages d)" page_evolves
proof unfold_locales
  show "page_evolves r r" for r by simp
  show "page_evolves r r' \<Longrightarrow> page_evolves r' r2 \<Longrightarrow> page_evolves r r2" for r r' r2
    by (rule page_evolves_trans)
  show "repo_step s t \<Longrightarrow> r \<in> set (db_pages s) \<Longrightarrow> \<exists>r' \<in> set (db_pages t). page_evolves r r'"
    for s t r
    using step_pages unfolding page_sim_def by blast
qed

lemma steps_tasks:
  "repo_inv d \<Longrightarrow> repo_step\<^sup>*\<^sup>* d d' \<Longrightarrow> t \<in> set (db_tasks d) \<Longrightarrow>
     \<exists>t' \<in> set (db_tasks d'). task_evolves t t'"
  by (rule task_rows.row_steps [OF repo.steps_guarded])

lemma status_steps_terminal:
  "status_step\<^sup>*\<^sup>* s s' \<Longrightarrow> s \<in> {TCompleted, TFailed, TCancelled} \<Longrightarrow> s' = s"
  by (induction rule: rtranclp_induct) auto

end
