(* ===== verification/Page_Guarantees.thy ===== *)
theory Page_Guarantees
  imports Page_Lifecycle
begin

text \<open>
  What the page-workflow repository promises its clients: scheduling order and finality of
  tasks, exclusive leases, monotone artifact versions, immutable evaluations, the bounded
  and idempotent revision schedule, and the human review transitions.
\<close>

section \<open>Supporting facts\<close>

lemma reachable_inv: "repo_step\<^sup>*\<^sup>* empty_db d \<Longrightarrow> repo_inv d"
  by (rule repo.inv_reachable) simp_all

lemma reachable_create_pages: "repo_step\<^sup>*\<^sup>* empty_db (create_pages run org ps now empty_db)"
  by (rule r_into_rtranclp) (rule step_create_pages)

lemma repo_inv_tasksD:
  assumes "repo_inv d"
  shows "distinct (map task_key (db_tasks d))"
    and "t \<in> set (db_tasks d) \<Longrightarrow> lease_ok t"
    and "t \<in> set (db_tasks d) \<Longrightarrow> started t \<Longrightarrow> deps_completed (db_tasks d) t"
  using assms by (auto simp: repo_inv_def tasks_inv_def)

lemma task_unique:
  assumes "repo_inv d" "t \<in> set (db_tasks d)" "u \<in> set (db_tasks d)" "task_key t = task_key u"
  shows "t = u"
proof -
  have "inj_on task_key (set (db_tasks d))"
    using repo_inv_tasksD(1) [OF assms(1)] by (simp add: distinct_map)
  from this assms(4,2,3) show ?thesis by (rule inj_onD)
qed

lemma filter_unique:
  assumes "distinct (map key xs)" "x \<in> set xs" "p x" "\<And>y. y \<in> set xs \<Longrightarrow> p y \<Longrightarrow> key y = key x"
  shows "filter p xs = [x]"
  using assms
proof (induction xs)
  case Nil
  then show ?case by simp
next
  case (Cons a xs)
  show ?case
  proof (cases "a = x")
    case True
    have "filter p xs = []"
    proof (rule ccontr)
      assume "filter p xs \<noteq> []"
      then obtain y where "y \<in> set xs" "p y" by (auto simp: filter_empty_conv)
      moreover from this have "key y = key x" using Cons.prems(4) [of y] by simp
      ultimately have "key x \<in> key ` set xs" by (metis image_eqI)
      with Cons.prems(1) True show False by simp
    qed
    with True Cons.prems(3) show ?thesis by simp
  next
    case False
    then have x: "x \<in> set xs" using Cons.prems(2) by simp
    have "\<not> p a"
    proof
      assume "p a"
      then have "key a = key x" using Cons.prems(4) by simp
      with x have "key a \<in> key ` set xs" by auto
      with Cons.prems(1) show False by simp
    qed
    moreover have "filter p xs = [x]"
    proof (rule Cons.IH [OF _ x Cons.prems(3)])
      show "distinct (map key xs)" using Cons.prems(1) by simp
      show "key y = key x" if "y \<in> set xs" "p y" for y
        using Cons.prems(4) [of y] that by simp
    qed
    ultimately show ?thesis by simp
  qed
qed

lemma claimed_rows:
  assumes "claim_ready_tasks run owner secs limit locked now d = (claimed, d')"
  shows "claimed = map (lease_task owner secs now)
           (filter (\<lambda>t. wt_run_id t = run \<and>
              wt_task_id t \<in> set (claim_selection run limit locked (db_tasks d))) (db_tasks d))"
    and "db_tasks d' = upd_where (\<lambda>t. wt_run_id t = run \<and>
              wt_task_id t \<in> set (claim_selection run limit locked (db_tasks d)))
           (lease_task owner secs now) (db_tasks d)"
  using assms by (auto simp: claim_ready_tasks_def Let_def)

lemma claimed_task:
  assumes "repo_inv d" and "claim_ready_tasks run owner secs limit locked now d = (claimed, d')"
    and "u \<in> set claimed"
  obtains t where "t \<in> set (db_tasks d)" "u = lease_task owner secs now t"
    "claimable run (db_tasks d) t" "wt_task_id t \<notin> set locked"
proof -
  from assms(3) claimed_rows(1) [OF assms(2)] obtain t where
    t: "t \<in> set (db_tasks d)" "u = lease_task owner secs now t" "wt_run_id t = run"
      "wt_task_id t \<in> set (claim_selection run limit locked (db_tasks d))"
    by auto
  note c = claim_selection_claimable [OF repo_inv_tasksD(1) [OF assms(1)] t(1,3,4)]
  show ?thesis by (rule that [OF t(1,2) c])
qed

lemma claimed_length:
  assumes "distinct (map task_key ts)"
  shows "length (filter (\<lambda>t. wt_run_id t = run \<and> wt_task_id t \<in> set ids) ts) \<le> length ids"
proof -
  let ?F = "filter (\<lambda>t. wt_run_id t = run \<and> wt_task_id t \<in> set ids) ts"
  have inj: "inj_on wt_task_id (set ?F)"
  proof (rule inj_onI)
    fix x y assume xy: "x \<in> set ?F" "y \<in> set ?F" "wt_task_id x = wt_task_id y"
    then have "task_key x = task_key y" by simp
    moreover have "inj_on task_key (set ts)" using assms by (simp add: distinct_map)
    ultimately show "x = y" using xy(1,2) by (auto dest: inj_onD)
  qed
  have "distinct ?F" using assms by (simp add: distinct_map)
  then have "length ?F = card (wt_task_id ` set ?F)"
    by (simp only: card_image [OF inj] distinct_card)
  also have "\<dots> \<le> card (set ids)" by (rule card_mono) auto
  also have "\<dots> \<le> length ids" by (rule card_length)
  finally show ?thesis .
qed

section \<open>A sample run\<close>

text \<open>
  The run the concrete instances below use: one page is seeded, its write task is claimed and
  completed, the artifact is promoted and evaluated once.
\<close>

definition after :: "('a \<times> db) res \<Rightarrow> db \<Rightarrow> db" where
  "after outcome d = (case outcome of Inl _ \<Rightarrow> d | Inr (_, d') \<Rightarrow> d')"

definition sample_page :: new_page where
  "sample_page = \<lparr>np_page_id = ''a.md'', np_path = ''a.md'', np_action = ''create''\<rparr>"

definition sample_seeded :: db where
  "sample_seeded =
     enqueue_task ''r'' ''evaluate:a.md:1'' ''o'' ''evaluate'' (Some ''a.md'') (Some 1)
       [''write:a.md:1''] [] 1
       (enqueue_task ''r'' ''write:a.md:1'' ''o'' ''write'' (Some ''a.md'') (Some 1) [] [] 1
         (create_pages ''r'' ''o'' [sample_page] 0 empty_db))"

definition sample_claimed :: db where
  "sample_claimed = snd (claim_ready_tasks ''r'' ''w1'' 300 4 [] 2 sample_seeded)"

definition sample_written :: db where
  "sample_written =
     after (complete_task ''r'' ''write:a.md:1'' ''w1'' (Some JNull) 3 sample_claimed)
       sample_claimed"

definition sample_revision :: draft_revision where
  "sample_revision =
     \<lparr>rv_id = ''art1'', rv_run_id = ''r'', rv_org_id = ''o'', rv_generation = 1,
      rv_path = ''a.md'', rv_action = ''create'', rv_sealed = True, rv_content_size = 2,
      rv_created_at = Some 2, rv_sealed_at = Some 3, rv_version = Some 1,
      rv_content_hash = Some ''h1''\<rparr>"

definition sample_promoted :: db where
  "sample_promoted =
     after (map_sum id (Pair ()) (record_artifact ''r'' ''a.md'' ''art1'' 1 3
       (sample_written\<lparr>db_revisions := [sample_revision], db_chunks := []\<rparr>))) sample_written"

definition sample_verdict :: "eval_status \<Rightarrow> page_evaluation" where
  "sample_verdict st =
     \<lparr>pe_page_id = ''a.md'', pe_artifact_id = ''art1'', pe_version = 1,
      pe_content_hash = ''h1'', pe_attempt = 1, pe_status = st, pe_score = 0,
      pe_metrics = [], pe_revision_feedback = [''too short'']\<rparr>"

definition sample_evaluated :: "eval_status \<Rightarrow> db" where
  "sample_evaluated st =
     after (map_sum id (Pair ()) (record_evaluation (sample_verdict st) (Some ''r'') None 4
       sample_promoted)) sample_promoted"

lemma sample_seeded_reachable: "repo_step\<^sup>*\<^sup>* empty_db sample_seeded"
  unfolding sample_seeded_def
  by (rule rtranclp.rtrancl_into_rtrancl [OF rtranclp.rtrancl_into_rtrancl
        [OF reachable_create_pages step_enqueue] step_enqueue])

lemma sample_claim_step: "repo_step sample_seeded sample_claimed"
  unfolding sample_claimed_def by (rule step_claim)

lemma sample_complete:
  "complete_task ''r'' ''write:a.md:1'' ''w1'' (Some JNull) 3 sample_claimed
     = Inr (True, sample_written)"
  by code_simp

lemma sample_claimed_reachable: "repo_step\<^sup>*\<^sup>* empty_db sample_claimed"
  by (rule rtranclp.rtrancl_into_rtrancl [OF sample_seeded_reachable sample_claim_step])

lemma sample_written_reachable: "repo_step\<^sup>*\<^sup>* empty_db sample_written"
  by (rule rtranclp.rtrancl_into_rtrancl [OF sample_claimed_reachable])
    (rule step_complete [OF sample_complete])

lemma sample_promote:
  "record_artifact ''r'' ''a.md'' ''art1'' 1 3
     (sample_written\<lparr>db_revisions := [sample_revision], db_chunks := []\<rparr>) = Inr sample_promoted"
  by code_simp

lemma sample_written_promoted: "repo_step\<^sup>*\<^sup>* sample_written sample_promoted"
  by (rule converse_rtranclp_into_rtranclp, rule step_drafts, rule r_into_rtranclp,
      rule step_record_artifact [OF sample_promote])

lemma sample_promoted_reachable: "repo_step\<^sup>*\<^sup>* empty_db sample_promoted"
  by (rule rtranclp_trans [OF sample_written_reachable sample_written_promoted])

lemma sample_evaluate:
  "record_evaluation (sample_verdict EvRevisionRequired) (Some ''r'') None 4 sample_promoted
     = Inr (sample_evaluated EvRevisionRequired)"
  "record_evaluation (sample_verdict EvAwaitingHumanReview) (Some ''r'') None 4 sample_promoted
     = Inr (sample_evaluated EvAwaitingHumanReview)"
  by code_simp+

lemma sample_evaluated_reachable:
  "repo_step\<^sup>*\<^sup>* empty_db (sample_evaluated EvRevisionRequired)"
  "repo_step\<^sup>*\<^sup>* empty_db (sample_evaluated EvAwaitingHumanReview)"
  by (rule rtranclp.rtrancl_into_rtrancl [OF sample_promoted_reachable],
      rule step_record_evaluation, rule sample_evaluate)+

section \<open>Scheduling order, finality and versions\<close>

text \<open>
  C2. In every database state the repository can reach, whatever the interleaving of
  workers, a task that is running, completed or failed has all of its dependencies completed:
  evaluation of a page never starts before its write is done.
\<close>

theorem dependencies_complete_before_start:
  assumes "repo_step\<^sup>*\<^sup>* empty_db d" and "t \<in> set (db_tasks d)"
    and "wt_status t \<in> {TRunning, TCompleted, TFailed}" and "dep \<in> set (wt_dependencies t)"
  shows "\<exists>c \<in> set (db_tasks d). wt_run_id c = wt_run_id t \<and> wt_task_id c = dep
           \<and> wt_status c = TCompleted"
proof -
  have "deps_completed (db_tasks d) t"
    using repo_inv_tasksD(3) [OF reachable_inv [OF assms(1)] assms(2)] assms(3)
    by (simp add: started_def)
  with assms(4) show ?thesis by (simp add: deps_completed_def)
qed

theorem dependencies_complete_before_start_witness:
  "\<exists>c \<in> set (db_tasks (snd (claim_ready_tasks ''r'' ''w1'' 300 4 [] 4 sample_written))).
     wt_run_id c = ''r'' \<and> wt_task_id c = ''write:a.md:1'' \<and> wt_status c = TCompleted"
proof -
  let ?d = "snd (claim_ready_tasks ''r'' ''w1'' 300 4 [] 4 sample_written)"
  have "repo_step\<^sup>*\<^sup>* empty_db ?d"
    by (rule rtranclp.rtrancl_into_rtrancl [OF sample_written_reachable step_claim])
  moreover have "db_tasks ?d ! 1 \<in> set (db_tasks ?d)" by code_simp
  moreover have "wt_status (db_tasks ?d ! 1) \<in> {TRunning, TCompleted, TFailed}" by code_simp
  moreover have "''write:a.md:1'' \<in> set (wt_dependencies (db_tasks ?d ! 1))" by code_simp
  moreover have "wt_run_id (db_tasks ?d ! 1) = ''r''" by code_simp
  ultimately show ?thesis
    using dependencies_complete_before_start [of ?d "db_tasks ?d ! 1" "''write:a.md:1''"]
    by simp
qed

text \<open>
  C17. A settled task is final: once a task is completed, failed or cancelled, no later
  sequence of repository operations changes any column of its row.
\<close>

theorem settled_tasks_are_final:
  assumes "repo_step\<^sup>*\<^sup>* empty_db d" and "repo_step\<^sup>*\<^sup>* d d'" and "t \<in> set (db_tasks d)"
    and "wt_status t \<in> {TCompleted, TFailed, TCancelled}"
  shows "t \<in> set (db_tasks d')"
proof -
  obtain t' where "t' \<in> set (db_tasks d')" "task_evolves t t'"
    using steps_tasks [OF reachable_inv [OF assms(1)] assms(2,3)] by blast
  with assms(4) show ?thesis by (simp add: task_evolves_def)
qed

theorem settled_tasks_are_final_witness:
  "db_tasks sample_written ! 0 \<in> set (db_tasks sample_promoted)"
proof (rule settled_tasks_are_final [OF sample_written_reachable sample_written_promoted])
  show "db_tasks sample_written ! 0 \<in> set (db_tasks sample_written)" by code_simp
  show "wt_status (db_tasks sample_written ! 0) \<in> {TCompleted, TFailed, TCancelled}"
    by code_simp
qed

text \<open>
  C9. Artifact versions never go back: along any sequence of repository operations the
  promoted version of a page only grows, and while it stays the same so does the promoted
  artifact; a late writer can never replace a newer artifact.
\<close>

theorem promoted_version_monotone:
  assumes "repo_step\<^sup>*\<^sup>* d d'" and "r \<in> set (db_pages d)"
  shows "\<exists>r' \<in> set (db_pages d'). page_key r' = page_key r \<and>
     (ps_latest_version r < ps_latest_version r' \<or>
      ps_latest_version r' = ps_latest_version r \<and>
      ps_latest_artifact_id r' = ps_latest_artifact_id r)"
  using page_rows.row_steps [OF assms] by (auto simp: page_evolves_def)

theorem promoted_version_monotone_witness:
  "\<exists>r' \<in> set (db_pages sample_promoted). page_key r' = (''r'', ''a.md'') \<and>
     (0 < ps_latest_version r' \<or>
      ps_latest_version r' = 0 \<and> ps_latest_artifact_id r' = None)"
proof -
  let ?r = "seed_page ''r'' ''o'' 0 sample_page"
  have "?r \<in> set (db_pages sample_written)" by code_simp
  from promoted_version_monotone [OF sample_written_promoted this] show ?thesis
    by (simp add: seed_page_def sample_page_def)
qed

text \<open>
  C10. Claims take ready tasks only and their leases are exclusive: a claim returns at most \<open>limit\<close> rows; each
  is the row a task of the run now has, leased to the caller until \<open>now + lease_seconds\<close>, and was until then
  that task's pending row, with every dependency completed and not locked by another statement; every other
  row of the table stays as it was; a second claim by anyone returns none of the claimed tasks.
\<close>

theorem claim_is_exclusive:
  assumes "repo_inv d"
    and first: "claim_ready_tasks run owner secs limit locked now d = (claimed, d')"
    and second: "claim_ready_tasks run owner2 secs2 limit2 locked2 now2 d' = (claimed2, d2)"
  shows "length claimed \<le> limit
    \<and> (\<forall>u \<in> set claimed. u \<in> set (db_tasks d') \<and> wt_status u = TRunning \<and> wt_lease_owner u = Some owner
         \<and> wt_lease_expires_at u = Some (now + secs)
         \<and> (\<exists>t \<in> set (db_tasks d). task_key t = task_key u \<and> wt_run_id t = run \<and> wt_status t = TPending
              \<and> deps_completed (db_tasks d) t \<and> wt_task_id t \<notin> set locked))
    \<and> (\<forall>t \<in> set (db_tasks d). task_key t \<notin> task_key ` set claimed \<longrightarrow> t \<in> set (db_tasks d'))
    \<and> task_key ` set claimed \<inter> task_key ` set claimed2 = {}"
proof (intro conjI ballI impI)
  let ?ids = "claim_selection run limit locked (db_tasks d)"
  have "length claimed \<le> length ?ids"
    unfolding claimed_rows(1) [OF first] length_map
    by (rule claimed_length) (rule repo_inv_tasksD(1) [OF assms(1)])
  also have "length ?ids \<le> limit" by (simp add: claim_selection_def)
  finally show "length claimed \<le> limit" .
next
  fix u assume u: "u \<in> set claimed"
  obtain t where t: "t \<in> set (db_tasks d)" "u = lease_task owner secs now t"
    "claimable run (db_tasks d) t" "wt_task_id t \<notin> set locked"
    using claimed_task [OF assms(1) first u] .
  show "wt_status u = TRunning" "wt_lease_owner u = Some owner"
    "wt_lease_expires_at u = Some (now + secs)"
    using t(2) by (simp_all add: lease_task_def)
  show "\<exists>t \<in> set (db_tasks d). task_key t = task_key u \<and> wt_run_id t = run \<and> wt_status t = TPending
      \<and> deps_completed (db_tasks d) t \<and> wt_task_id t \<notin> set locked"
    using t by (intro bexI [of _ t]) (auto simp: claimable_def deps_completed_def lease_task_def)
  show "u \<in> set (db_tasks d')"
    using u claimed_rows [OF first] by (auto simp: table_simps)
next
  fix t assume t: "t \<in> set (db_tasks d)" "task_key t \<notin> task_key ` set claimed"
  show "t \<in> set (db_tasks d')"
  proof (rule ccontr)
    assume "t \<notin> set (db_tasks d')"
    with t(1) have hit: "wt_run_id t = run \<and> wt_task_id t \<in> set (claim_selection run limit locked (db_tasks d))"
      unfolding claimed_rows(2) [OF first] set_upd_where by blast
    have "lease_task owner secs now t \<in> set claimed"
      unfolding claimed_rows(1) [OF first] set_map set_filter
      by (rule imageI) (rule CollectI, rule conjI [OF t(1) hit])
    then have "task_key (lease_task owner secs now t) \<in> task_key ` set claimed" by (rule imageI)
    moreover have "task_key (lease_task owner secs now t) = task_key t" by (simp add: lease_task_def)
    ultimately show False using t(2) by (simp only:)
  qed
next
  have inv': "repo_inv d'" using inv_claim [OF assms(1)] first by (metis snd_conv)
  show "task_key ` set claimed \<inter> task_key ` set claimed2 = {}"
  proof (rule ccontr)
    assume "task_key ` set claimed \<inter> task_key ` set claimed2 \<noteq> {}"
    then obtain u v where uv: "u \<in> set claimed" "v \<in> set claimed2" "task_key u = task_key v"
      by auto
    obtain w where w: "w \<in> set (db_tasks d')" "v = lease_task owner2 secs2 now2 w"
      "claimable run (db_tasks d') w"
      using claimed_task [OF inv' second uv(2)] by blast
    have "u \<in> set (db_tasks d')"
      using uv(1) claimed_rows [OF first] by (auto simp: table_simps)
    moreover have "task_key w = task_key u" using w(2) uv(3) by (simp add: lease_task_def)
    ultimately have "w = u" using task_unique [OF inv' w(1)] by blast
    moreover have "wt_status u = TRunning"
      using uv(1) claimed_rows(1) [OF first] by (auto simp: lease_task_def)
    ultimately show False using w(3) by (simp add: claimable_def)
  qed
qed

theorem claim_is_exclusive_witness:
  "fst (claim_ready_tasks ''r'' ''w1'' 300 4 [] 2 sample_seeded) \<noteq> []
   \<and> (task_key ` set (fst (claim_ready_tasks ''r'' ''w1'' 300 4 [] 2 sample_seeded)))
     \<inter> (task_key ` set (fst (claim_ready_tasks ''r'' ''w2'' 300 4 [] 2
           (snd (claim_ready_tasks ''r'' ''w1'' 300 4 [] 2 sample_seeded))))) = {}"
proof
  show "fst (claim_ready_tasks ''r'' ''w1'' 300 4 [] 2 sample_seeded) \<noteq> []" by code_simp
  show "task_key ` set (fst (claim_ready_tasks ''r'' ''w1'' 300 4 [] 2 sample_seeded))
     \<inter> task_key ` set (fst (claim_ready_tasks ''r'' ''w2'' 300 4 [] 2
           (snd (claim_ready_tasks ''r'' ''w1'' 300 4 [] 2 sample_seeded)))) = {}"
    using claim_is_exclusive [OF reachable_inv [OF sample_seeded_reachable]
        prod.collapse [symmetric] prod.collapse [symmetric]] by blast
qed

section \<open>Lease holders\<close>

definition running_row :: "string \<Rightarrow> string \<Rightarrow> workflow_task \<Rightarrow> bool" where
  "running_row run_id task_id t \<longleftrightarrow> task_key t = (run_id, task_id) \<and> wt_status t = TRunning"

text \<open>
  With unique task keys the lease test of the SQL statements is a test on the one running row.
\<close>

lemma running_row_cases:
  assumes "repo_inv d"
  obtains (none) "find (running_row run tid) (db_tasks d) = None"
      "\<And>t. t \<in> set (db_tasks d) \<Longrightarrow> \<not> running_row run tid t"
    | (row) t where "find (running_row run tid) (db_tasks d) = Some t" "t \<in> set (db_tasks d)"
      "running_row run tid t" "\<And>u. u \<in> set (db_tasks d) \<Longrightarrow> task_key u = (run, tid) \<longleftrightarrow> u = t"
proof (cases "find (running_row run tid) (db_tasks d)")
  case None
  then show ?thesis using none by (auto simp: find_None_iff)
next
  case (Some t)
  then have t: "t \<in> set (db_tasks d)" "running_row run tid t" using find_Some_in by fast+
  have "task_key u = (run, tid) \<longleftrightarrow> u = t" if "u \<in> set (db_tasks d)" for u
    using task_unique [OF assms that t(1)] t(2) by (auto simp: running_row_def)
  with Some t show ?thesis using row by blast
qed

lemma holds_lease_row:
  assumes "\<And>u. u \<in> set ts \<Longrightarrow> task_key u = (run, tid) \<longleftrightarrow> u = t"
    and "u \<in> set ts" and "running_row run tid t"
  shows "holds_lease run tid owner u \<longleftrightarrow> u = t \<and> wt_lease_owner t = Some owner"
  using assms by (auto simp: holds_lease_def running_row_def)

lemma upd_where_cong:
  "(\<And>r. r \<in> set t \<Longrightarrow> p r = q r) \<Longrightarrow> upd_where p f t = upd_where q f t"
  by (simp add: upd_where_def)

text \<open>
  Completing a task needs its lease: the call changes the task exactly when it is
  running under the caller's lease, answers \<open>False\<close> and changes nothing when the task is not
  running, and raises \<open>StaleArtifactError\<close> when another worker holds the lease.
\<close>

theorem complete_task_spec:
  assumes "repo_inv d"
  shows "complete_task run tid owner out now d =
    (case find (running_row run tid) (db_tasks d) of
       None \<Rightarrow> Inr (False, d)
     | Some t \<Rightarrow>
         if wt_lease_owner t \<noteq> Some owner then Inl (leased_elsewhere tid owner)
         else Inr (True, d\<lparr>db_tasks := upd_where (\<lambda>u. u = t)
                (\<lambda>u. u\<lparr>wt_status := TCompleted, wt_output_data := out, wt_error := None,
                       wt_updated_at := now\<rparr>) (db_tasks d)\<rparr>))"
  using assms
proof (cases rule: running_row_cases [where run = run and tid = tid])
  case none
  then have "filter (holds_lease run tid owner) (db_tasks d) = []"
    and "\<not> owned_by_other run tid owner d"
    and "upd_where (holds_lease run tid owner) f (db_tasks d) = db_tasks d" for f
    by (auto simp: filter_empty_conv holds_lease_def running_row_def owned_by_other_def
        intro!: upd_where_none)
  then show ?thesis using none(1) by (simp add: complete_task_def Let_def)
next
  case (row t)
  note hl = holds_lease_row [OF row(4) _ row(3)]
  show ?thesis
  proof (cases "wt_lease_owner t = Some owner")
    case True
    then have "filter (holds_lease run tid owner) (db_tasks d) \<noteq> []"
      using hl row(2) by (auto simp: filter_empty_conv)
    moreover have "upd_where (holds_lease run tid owner) f (db_tasks d)
        = upd_where (\<lambda>u. u = t) f (db_tasks d)" for f
      using hl True by (intro upd_where_cong) auto
    ultimately show ?thesis using row(1) True by (simp add: complete_task_def Let_def)
  next
    case False
    then have "filter (holds_lease run tid owner) (db_tasks d) = []"
      using hl by (auto simp: filter_empty_conv)
    moreover have "owned_by_other run tid owner d"
      using row(2,3) False by (auto simp: owned_by_other_def running_row_def)
    ultimately show ?thesis using row(1) False by (simp add: complete_task_def Let_def)
  qed
qed

theorem complete_task_spec_witness:
  "complete_task ''r'' ''write:a.md:1'' ''w2'' None 3 sample_claimed
     = Inl (leased_elsewhere ''write:a.md:1'' ''w2'')
   \<and> complete_task ''r'' ''evaluate:a.md:1'' ''w2'' None 3 sample_claimed
     = Inr (False, sample_claimed)"
  unfolding complete_task_spec [OF reachable_inv [OF sample_claimed_reachable]]
  by code_simp

lemma find_unique:
  "(\<And>u. u \<in> set ts \<Longrightarrow> p u \<longleftrightarrow> u = t) \<Longrightarrow> t \<in> set ts \<Longrightarrow> find p ts = Some t"
  by (induction ts) auto

text \<open>
  Infrastructure failures are retried exactly once: the first failure of a leased task
  returns it to \<open>pending\<close> with its retry spent and its lease cleared, the second fails it for
  good; a task that is not running is left alone and a foreign lease raises.
\<close>

theorem retry_or_fail_task_spec:
  assumes "repo_inv d"
  shows "retry_or_fail_task run tid owner err now d =
    (case find (running_row run tid) (db_tasks d) of
       None \<Rightarrow> Inr (None, d)
     | Some t \<Rightarrow>
         if wt_lease_owner t \<noteq> Some owner then Inl (leased_elsewhere tid owner)
         else let st = (if wt_infrastructure_retries t = 0 then TPending else TFailed)
              in Inr (Some st, d\<lparr>db_tasks := upd_where (\<lambda>u. u = t)
                   (\<lambda>u. u\<lparr>wt_status := st, wt_infrastructure_retries := 1,
                          wt_error := Some err, wt_lease_owner := None,
                          wt_lease_expires_at := None, wt_updated_at := now\<rparr>) (db_tasks d)\<rparr>))"
  using assms
proof (cases rule: running_row_cases [where run = run and tid = tid])
  case none
  then have "find (holds_lease run tid owner) (db_tasks d) = None"
    and "\<not> owned_by_other run tid owner d"
    and "upd_where (holds_lease run tid owner) f (db_tasks d) = db_tasks d" for f
    by (auto simp: find_None_iff holds_lease_def running_row_def owned_by_other_def
        intro!: upd_where_none)
  then show ?thesis using none(1) by (simp add: retry_or_fail_task_def Let_def)
next
  case (row t)
  note hl = holds_lease_row [OF row(4) _ row(3)]
  show ?thesis
  proof (cases "wt_lease_owner t = Some owner")
    case True
    have r01: "wt_infrastructure_retries t \<in> {0, 1}"
      using repo_inv_tasksD(2) [OF assms row(2)] by (simp add: lease_ok_def)
    have "find (holds_lease run tid owner) (db_tasks d) = Some t"
      using hl True row(2) by (intro find_unique) auto
    moreover have "upd_where (holds_lease run tid owner) f (db_tasks d)
        = upd_where (\<lambda>u. u = t) f (db_tasks d)" for f
      using hl True by (intro upd_where_cong) auto
    moreover have "upd_where (\<lambda>u. u = t) (retry_task err now) (db_tasks d) =
        upd_where (\<lambda>u. u = t) (\<lambda>u. u\<lparr>
            wt_status := (if wt_infrastructure_retries t = 0 then TPending else TFailed),
            wt_infrastructure_retries := 1, wt_error := Some err, wt_lease_owner := None,
            wt_lease_expires_at := None, wt_updated_at := now\<rparr>) (db_tasks d)"
      using r01 by (auto simp: upd_where_def retry_task_def)
    ultimately show ?thesis using row(1) True r01
      by (auto simp: retry_or_fail_task_def retry_task_def Let_def)
  next
    case False
    then have "find (holds_lease run tid owner) (db_tasks d) = None"
      using hl by (auto simp: find_None_iff)
    moreover have "owned_by_other run tid owner d"
      using row(2,3) False by (auto simp: owned_by_other_def running_row_def)
    ultimately show ?thesis using row(1) False by (simp add: retry_or_fail_task_def Let_def)
  qed
qed

theorem retry_or_fail_task_spec_witness:
  "map_sum id fst (retry_or_fail_task ''r'' ''write:a.md:1'' ''w1'' ''boom'' 3 sample_claimed)
     = Inr (Some TPending)"
  unfolding retry_or_fail_task_spec [OF reachable_inv [OF sample_claimed_reachable]]
  by code_simp

section \<open>Artifacts and evaluations\<close>

lemma page_unique:
  assumes "repo_inv d" "r \<in> set (db_pages d)" "s \<in> set (db_pages d)" "page_key r = page_key s"
  shows "r = s"
proof -
  have "inj_on page_key (set (db_pages d))"
    using assms(1) by (simp add: repo_inv_def pages_inv_def distinct_map)
  from this assms(4,2,3) show ?thesis by (rule inj_onD)
qed

text \<open>
  Promotion of an artifact: it succeeds exactly when the page exists and the version
  is strictly newer than the promoted one, or repeats the very artifact that is promoted; it
  then makes the artifact current and sends the page to evaluation. Everything else raises
  \<open>StaleArtifactError\<close>.
\<close>

theorem record_artifact_spec:
  assumes "repo_inv d"
  shows "record_artifact run pg art v now d =
    (case find (\<lambda>r. page_key r = (run, pg)) (db_pages d) of
       None \<Rightarrow> Inl (stale_promotion art v)
     | Some r \<Rightarrow>
         if ps_latest_version r < v
            \<or> ps_latest_version r = v \<and> ps_latest_artifact_id r = Some art
         then Inr (d\<lparr>db_pages := upd_where (\<lambda>x. x = r)
                (\<lambda>x. x\<lparr>ps_latest_artifact_id := Some art, ps_latest_version := v,
                       ps_status := EVALUATING, ps_updated_at := now\<rparr>) (db_pages d)\<rparr>)
         else Inl (stale_promotion art v))"
proof (cases "find (\<lambda>r. page_key r = (run, pg)) (db_pages d)")
  case None
  then have "filter (promotes run pg art v) (db_pages d) = []"
    by (auto simp: find_None_iff filter_empty_conv promotes_def)
  with None show ?thesis by (simp add: record_artifact_def)
next
  case (Some r)
  then have r: "r \<in> set (db_pages d)" "page_key r = (run, pg)" using find_Some_in by fast+
  let ?c = "ps_latest_version r < v \<or> ps_latest_version r = v \<and> ps_latest_artifact_id r = Some art"
  have pr: "promotes run pg art v x \<longleftrightarrow> x = r \<and> ?c" if "x \<in> set (db_pages d)" for x
    using page_unique [OF assms that r(1)] r(2) by (auto simp: promotes_def)
  show ?thesis
  proof (cases ?c)
    case True
    have "distinct (map page_key (db_pages d))"
      using assms by (simp add: repo_inv_def pages_inv_def)
    then have "filter (promotes run pg art v) (db_pages d) = [r]"
      by (rule filter_unique [where key = page_key]) (use r(1) pr True in blast)+
    moreover have "upd_where (promotes run pg art v) f (db_pages d)
        = upd_where (\<lambda>x. x = r) f (db_pages d)" for f
      using pr True by (intro upd_where_cong) blast
    ultimately show ?thesis using Some True by (simp add: record_artifact_def)
  next
    case False
    then have "filter (promotes run pg art v) (db_pages d) = []"
      using pr by (auto simp: filter_empty_conv)
    with Some False show ?thesis by (simp add: record_artifact_def)
  qed
qed

theorem record_artifact_spec_witness:
  "record_artifact ''r'' ''a.md'' ''art2'' 1 5 sample_promoted = Inl (stale_promotion ''art2'' 1)
   \<and> map_sum id (\<lambda>d. map ps_latest_version (db_pages d))
       (record_artifact ''r'' ''a.md'' ''art2'' 2 5 sample_promoted) = Inr [2]"
  unfolding record_artifact_spec [OF reachable_inv [OF sample_promoted_reachable]]
  by code_simp

text \<open>
  Evaluations are immutable: when an artifact that already has a stored verdict in the
  run is evaluated again, the evaluation table is unchanged and the page is projected to the
  status and attempt of the first verdict, whatever the second evaluation says.
\<close>

theorem evaluation_replay_keeps_first_verdict:
  assumes "repo_inv d" and "first \<in> set (db_evaluations d)"
    and "er_run_id first = run" and "er_artifact_id first = pe_artifact_id res" and "run \<noteq> []"
    and "record_evaluation res (Some run) org now d = Inr d'"
  shows "db_evaluations d' = db_evaluations d \<and>
    (\<exists>r \<in> set (db_pages d'). page_key r = (run, pe_page_id res)
       \<and> ps_status r = page_status_of (er_status first)
       \<and> ps_evaluation_attempt r = er_attempt first)"
proof -
  from assms(5,6) obtain org' where pe: "project_evaluation res run org' now d = Inr d'"
    by (auto simp: record_evaluation_def or_str_def Let_def split: option.splits if_splits)
  have "distinct (map evaluation_key (db_evaluations d))" using assms(1) by (simp add: repo_inv_def)
  then have "find (\<lambda>r. evaluation_key r = evaluation_key (evaluation_row_of res run org'))
      (db_evaluations d) = Some first"
    using assms(2-4) by (intro find_distinct_key) (auto simp: evaluation_row_of_def)
  then have "persist_evaluation (evaluation_row_of res run org') (db_evaluations d)
      = (first, db_evaluations d)"
    by (simp add: persist_evaluation_def)
  with pe obtain r f where "r \<in> set (db_pages d)" "projects res run (db_revisions d) r"
      and "db_pages d' = upd_where (projects res run (db_revisions d)) f (db_pages d)"
      and "db_evaluations d' = db_evaluations d"
      and "\<And>x. page_key (f x) = page_key x \<and> ps_status (f x) = page_status_of (er_status first)
             \<and> ps_evaluation_attempt (f x) = er_attempt first"
    by (auto simp: project_evaluation_def Let_def split: if_splits)
  moreover from this have "f r \<in> set (db_pages d')"
    by (force simp: upd_where_def)
  ultimately show ?thesis by (auto simp: projects_def intro!: bexI [of _ "f r"])
qed

theorem evaluation_replay_keeps_first_verdict_witness:
  "\<exists>r \<in> set (db_pages (after (map_sum id (Pair ())
        (record_evaluation (sample_verdict EvPassed) (Some ''r'') None 5
           (sample_evaluated EvRevisionRequired))) empty_db)).
     page_key r = (''r'', ''a.md'') \<and> ps_status r = REVISING \<and> ps_evaluation_attempt r = 1"
proof -
  let ?d = "sample_evaluated EvRevisionRequired"
  let ?d' = "after (map_sum id (Pair ())
        (record_evaluation (sample_verdict EvPassed) (Some ''r'') None 5 ?d)) empty_db"
  let ?first = "evaluation_row_of (sample_verdict EvRevisionRequired) ''r'' ''o''"
  have "?first \<in> set (db_evaluations ?d)" by code_simp
  moreover have "record_evaluation (sample_verdict EvPassed) (Some ''r'') None 5 ?d = Inr ?d'"
    by code_simp
  ultimately show ?thesis
    using evaluation_replay_keeps_first_verdict [OF reachable_inv [OF sample_evaluated_reachable(1)],
        of ?first "''r''" "sample_verdict EvPassed" None 5 ?d']
    by (simp add: evaluation_row_of_def sample_verdict_def page_status_of_def)
qed

end
