(* ===== verification/Page_Revisions.thy ===== *)
theory Page_Revisions
  imports Page_Guarantees
begin

text \<open>
  The revision schedule of the page workflow: task identities, the bounded automatic attempts,
  replay of a schedule after a crash, and the three human review decisions on escalated pages.
\<close>

section \<open>Task identities\<close>

lemma separator_inject:
  "c \<notin> set a \<Longrightarrow> c \<notin> set b \<Longrightarrow> a @ c # x = b @ c # y \<longleftrightarrow> a = b \<and> x = y"
proof (induction a arbitrary: b)
  case Nil
  then show ?case by (cases b) auto
next
  case (Cons z a)
  then show ?case by (cases b) auto
qed

lemma colon_suffix_inject:
  "p @ '':'' @ show_int v = q @ '':'' @ show_int w \<longleftrightarrow> p = q \<and> v = w"
proof -
  have "p @ '':'' @ show_int v = q @ '':'' @ show_int w \<longleftrightarrow>
      rev (p @ '':'' @ show_int v) = rev (q @ '':'' @ show_int w)"
    by (rule rev_is_rev_conv [symmetric])
  also have "\<dots> \<longleftrightarrow> rev (show_int v) @ CHR '':'' # rev p = rev (show_int w) @ CHR '':'' # rev q"
    by simp
  also have "\<dots> \<longleftrightarrow> rev (show_int v) = rev (show_int w) \<and> rev p = rev q"
    by (rule separator_inject) (simp_all add: show_int_colon_free)
  finally show ?thesis by (auto simp: show_int_inject)
qed

text \<open>
  Task identities are unambiguous: the identifier of a write or evaluate task determines
  the kind of the task, its page and its version, even when page ids contain colons, so
  \<^verbatim>\<open>ON CONFLICT (run_id, task_id) DO NOTHING\<close> only ever drops a re-enqueued task.
\<close>

theorem task_ids_injective:
  "(write_task_id p v = write_task_id q w \<longleftrightarrow> p = q \<and> v = w)
   \<and> (evaluate_task_id p v = evaluate_task_id q w \<longleftrightarrow> p = q \<and> v = w)
   \<and> write_task_id p v \<noteq> evaluate_task_id q w"
  using colon_suffix_inject [of p v q w]
  by (simp add: write_task_id_def evaluate_task_id_def)

section \<open>The automatic schedule as a fold\<close>

text \<open>What the scheduler reads of a page; a scheduled pair leaves it alone.\<close>

definition page_view :: "db \<Rightarrow> string \<times> string \<Rightarrow> (string option \<times> int \<times> int) option" where
  "page_view d k =
     map_option (\<lambda>r. (ps_latest_artifact_id r, ps_latest_version r, ps_evaluation_attempt r))
       (find (\<lambda>r. page_key r = k) (db_pages d))"

definition schedulable :: "string \<Rightarrow> db \<Rightarrow> revision_schedule \<Rightarrow> bool" where
  "schedulable run d rn \<longleftrightarrow>
     (case page_view d (run, rs_page_id rn) of
        None \<Rightarrow> False
      | Some (art, v, attempt) \<Rightarrow>
          str_opt art = rs_source_artifact_id rn \<and> v = rs_source_version rn
          \<and> attempt + 1 = rs_attempt rn)"

definition schedule_one :: "string \<Rightarrow> string \<Rightarrow> int \<Rightarrow> revision_schedule \<Rightarrow> db \<Rightarrow> db" where
  "schedule_one run org now rn d =
     schedule_pair run org (rs_page_id rn) (rs_source_version rn + 1) (rs_write_input rn)
       (rs_evaluate_input rn) now d"

lemma find_upd_where:
  assumes "\<And>r. key (f r) = key r"
  shows "find (\<lambda>r. key r = k) (upd_where p f t)
           = map_option (\<lambda>r. if p r then f r else r) (find (\<lambda>r. key r = k) t)"
  using assms by (induction t) (auto simp: upd_where_def)

lemma schedule_pair_pages:
  "db_pages (schedule_pair run org pg v wi ei now d) =
     upd_where (\<lambda>r. page_key r = (run, pg))
       (\<lambda>r. r\<lparr>ps_next_version := max (ps_next_version r) (v + 1), ps_status := REVISING,
              ps_updated_at := now\<rparr>) (db_pages d)"
  by (simp add: schedule_pair_def enqueue_task_def Let_def)

lemma page_view_schedule_pair [simp]:
  "page_view (schedule_pair run org pg v wi ei now d) k = page_view d k"
proof -
  let ?f = "\<lambda>r. r\<lparr>ps_next_version := max (ps_next_version r) (v + 1), ps_status := REVISING,
              ps_updated_at := now\<rparr>"
  have "find (\<lambda>r. page_key r = k) (upd_where p ?f t)
      = map_option (\<lambda>r. if p r then ?f r else r) (find (\<lambda>r. page_key r = k) t)" for p t
    by (rule find_upd_where) simp
  then show ?thesis
    by (cases "find (\<lambda>r. page_key r = k) (db_pages d)")
       (auto simp: page_view_def schedule_pair_pages)
qed

lemma schedulable_schedule_one [simp]:
  "schedulable run (schedule_one run' org now rn d) x = schedulable run d x"
  by (simp add: schedulable_def schedule_one_def)

lemma page_view_fold [simp]: "page_view (fold (schedule_one run org now) rns d) = page_view d"
  by (induction rns arbitrary: d) (auto simp: schedule_one_def fun_eq_iff)

lemma schedule_loop_Cons_iff:
  "schedule_loop run org (rn # rns) now d = Inr (vs, d') \<longleftrightarrow>
     schedulable run d rn \<and>
     (\<exists>ws. vs = (rs_source_version rn + 1) # ws
        \<and> schedule_loop run org rns now (schedule_one run org now rn d) = Inr (ws, d'))"
  by (cases "find (\<lambda>r. page_key r = (run, rs_page_id rn)) (db_pages d)")
     (auto simp: schedulable_def page_view_def schedule_one_def Let_def split: sum.splits)

lemma schedule_loop_iff:
  "schedule_loop run org rns now d = Inr (vs, d') \<longleftrightarrow>
     list_all (schedulable run d) rns
     \<and> vs = map (\<lambda>rn. rs_source_version rn + 1) rns
     \<and> d' = fold (schedule_one run org now) rns d"
proof (induction rns arbitrary: d vs)
  case Nil
  then show ?case by auto
next
  case (Cons rn rns)
  show ?case
    unfolding schedule_loop_Cons_iff Cons.IH by (auto simp: list_all_iff)
qed

lemma schedule_revisions_iff:
  "schedule_revisions run org rns now d = Inr (vs, d') \<longleftrightarrow>
     distinct (map rs_page_id rns)
     \<and> list_all (\<lambda>rn. 1 \<le> rs_attempt rn \<and> rs_attempt rn \<le> 3 \<and> schedulable run d rn) rns
     \<and> vs = map (\<lambda>rn. rs_source_version rn + 1) rns
     \<and> d' = fold (schedule_one run org now) rns d"
proof -
  have "list_ex (\<lambda>r. rs_attempt r < 1 \<or> MAX_AUTOMATIC_EVALUATION_ATTEMPTS < rs_attempt r) rns
      \<longleftrightarrow> \<not> (\<forall>rn \<in> set rns. 1 \<le> rs_attempt rn \<and> rs_attempt rn \<le> 3)"
    by (auto simp: list_ex_iff not_le MAX_AUTOMATIC_EVALUATION_ATTEMPTS_def)
  then show ?thesis
    by (auto simp: schedule_revisions_def schedule_loop_iff list_all_iff)
qed

section \<open>Tasks a schedule inserts\<close>

definition task_keys :: "db \<Rightarrow> (string \<times> string) set" where
  "task_keys d = task_key ` set (db_tasks d)"

definition pair_keys :: "string \<Rightarrow> revision_schedule \<Rightarrow> (string \<times> string) set" where
  "pair_keys run rn =
     {(run, write_task_id (rs_page_id rn) (rs_source_version rn + 1)),
      (run, evaluate_task_id (rs_page_id rn) (rs_source_version rn + 1))}"

lemma task_keys_enqueue [simp]:
  "task_keys (enqueue_task run tid org ty pg v deps inp now d) = insert (run, tid) (task_keys d)"
  by (auto simp: task_keys_def enqueue_task_def insert_new_def pending_task_def)

lemma enqueue_known:
  "(run, tid) \<in> task_keys d \<Longrightarrow>
     db_tasks (enqueue_task run tid org ty pg v deps inp now d) = db_tasks d"
  by (auto simp: task_keys_def enqueue_task_def insert_new_def pending_task_def)

lemma task_keys_schedule_one [simp]:
  "task_keys (schedule_one run org now rn d) = pair_keys run rn \<union> task_keys d"
  by (auto simp: schedule_one_def schedule_pair_def Let_def pair_keys_def task_keys_def [of "d\<lparr>db_pages := _\<rparr>"]
      task_keys_def [of d])

lemma schedule_one_known:
  assumes "pair_keys run rn \<subseteq> task_keys d"
  shows "db_tasks (schedule_one run org now rn d) = db_tasks d"
proof -
  have "task_keys (d\<lparr>db_pages := ps\<rparr>) = task_keys d" for ps by (simp add: task_keys_def)
  with assms show ?thesis
    by (simp add: schedule_one_def schedule_pair_def Let_def pair_keys_def enqueue_known)
qed

lemma task_keys_fold:
  "task_keys (fold (schedule_one run org now) rns d) = (\<Union>rn \<in> set rns. pair_keys run rn) \<union> task_keys d"
  by (induction rns arbitrary: d) auto

lemma fold_known:
  "(\<Union>rn \<in> set rns. pair_keys run rn) \<subseteq> task_keys d \<Longrightarrow>
     db_tasks (fold (schedule_one run org now) rns d) = db_tasks d"
proof (induction rns arbitrary: d)
  case Nil
  then show ?case by simp
next
  case (Cons rn rns)
  then have "db_tasks (fold (schedule_one run org now) rns (schedule_one run org now rn d))
      = db_tasks (schedule_one run org now rn d)"
    by (intro Cons.IH) auto
  with Cons.prems show ?case by (simp add: schedule_one_known)
qed

section \<open>Automatic revisions\<close>

lemma schedule_one_tasks: "set (db_tasks d) \<subseteq> set (db_tasks (schedule_one run org now rn d))"
  unfolding schedule_one_def by (rule schedule_pair_tasks)

lemma fold_tasks: "set (db_tasks d) \<subseteq> set (db_tasks (fold (schedule_one run org now) rns d))"
proof (induction rns arbitrary: d)
  case (Cons rn rns)
  show ?case using schedule_one_tasks Cons.IH by fastforce
qed simp

definition scheduled_evaluate ::
  "string \<Rightarrow> string \<Rightarrow> int \<Rightarrow> revision_schedule \<Rightarrow> workflow_task" where
  "scheduled_evaluate run org now rn =
     (let v = rs_source_version rn + 1 in
      pending_task run (evaluate_task_id (rs_page_id rn) v) org ''evaluate''
        (Some (rs_page_id rn)) (Some v) [write_task_id (rs_page_id rn) v]
        (rs_evaluate_input rn) now)"

lemma write_not_evaluate [simp]:
  "write_task_id p v \<noteq> evaluate_task_id q w" "evaluate_task_id q w \<noteq> write_task_id p v"
  by (simp_all add: write_task_id_def evaluate_task_id_def)

lemma schedule_one_evaluate:
  assumes "(run, evaluate_task_id (rs_page_id rn) (rs_source_version rn + 1)) \<notin> task_keys d"
  shows "scheduled_evaluate run org now rn \<in> set (db_tasks (schedule_one run org now rn d))"
  using assms
  by (auto simp: schedule_one_def schedule_pair_def enqueue_task_def Let_def insert_new_def
      scheduled_evaluate_def task_keys_def pending_task_def image_iff)

lemma pair_keys_disjoint:
  assumes "rs_page_id x \<noteq> rs_page_id rn"
  shows "(run, evaluate_task_id (rs_page_id rn) v) \<notin> pair_keys run x"
proof -
  have "evaluate_task_id (rs_page_id rn) v \<noteq> evaluate_task_id (rs_page_id x) w" for w
    using assms colon_suffix_inject [of "rs_page_id rn" v "rs_page_id x" w]
    by (auto simp: evaluate_task_id_def)
  then show ?thesis by (simp add: pair_keys_def)
qed

lemma fold_evaluate:
  assumes "rn \<in> set rns" and "distinct (map rs_page_id rns)"
    and "(run, evaluate_task_id (rs_page_id rn) (rs_source_version rn + 1)) \<notin> task_keys d"
  shows "scheduled_evaluate run org now rn \<in> set (db_tasks (fold (schedule_one run org now) rns d))"
proof -
  from assms(1) obtain xs ys where rns: "rns = xs @ rn # ys" by (auto dest: split_list)
  let ?d = "fold (schedule_one run org now) xs d"
  have "rs_page_id x \<noteq> rs_page_id rn" if "x \<in> set xs" for x
    using assms(2) that unfolding rns by (auto intro: rev_image_eqI)
  then have "(run, evaluate_task_id (rs_page_id rn) (rs_source_version rn + 1)) \<notin> task_keys ?d"
    using assms(3) by (simp add: task_keys_fold pair_keys_disjoint)
  then have "scheduled_evaluate run org now rn \<in> set (db_tasks (schedule_one run org now rn ?d))"
    by (rule schedule_one_evaluate)
  then have "scheduled_evaluate run org now rn
      \<in> set (db_tasks (fold (schedule_one run org now) ys (schedule_one run org now rn ?d)))"
    by (rule subsetD [OF fold_tasks])
  then show ?thesis by (simp add: rns)
qed

text \<open>
  Automatic revisions are bounded and well formed: a batch is accepted only when its
  pages are distinct and every revision is the next attempt (at most the third) of the
  artifact that is current for its page; it then returns the successor versions and inserts,
  unless they exist, a write task and an evaluate task that depends on it.
\<close>

theorem schedule_revisions_spec:
  assumes "schedule_revisions run org rns now d = Inr (vs, d')" and "rn \<in> set rns"
  shows "distinct (map rs_page_id rns)
    \<and> vs = map (\<lambda>r. rs_source_version r + 1) rns
    \<and> 1 \<le> rs_attempt rn \<and> rs_attempt rn \<le> MAX_AUTOMATIC_EVALUATION_ATTEMPTS
    \<and> (\<exists>p \<in> set (db_pages d). page_key p = (run, rs_page_id rn)
         \<and> str_opt (ps_latest_artifact_id p) = rs_source_artifact_id rn
         \<and> ps_latest_version p = rs_source_version rn
         \<and> ps_evaluation_attempt p + 1 = rs_attempt rn)
    \<and> pair_keys run rn \<subseteq> task_keys d'
    \<and> ((run, evaluate_task_id (rs_page_id rn) (rs_source_version rn + 1)) \<notin> task_keys d
         \<longrightarrow> scheduled_evaluate run org now rn \<in> set (db_tasks d'))"
proof -
  note s = assms(1) [unfolded schedule_revisions_iff]
  from s assms(2) have "schedulable run d rn" by (simp add: list_all_iff)
  then obtain p where "find (\<lambda>r. page_key r = (run, rs_page_id rn)) (db_pages d) = Some p"
    "str_opt (ps_latest_artifact_id p) = rs_source_artifact_id rn"
    "ps_latest_version p = rs_source_version rn" "ps_evaluation_attempt p + 1 = rs_attempt rn"
    by (auto simp: schedulable_def page_view_def split: option.splits)
  then have p: "\<exists>p \<in> set (db_pages d). page_key p = (run, rs_page_id rn)
         \<and> str_opt (ps_latest_artifact_id p) = rs_source_artifact_id rn
         \<and> ps_latest_version p = rs_source_version rn
         \<and> ps_evaluation_attempt p + 1 = rs_attempt rn"
    by (auto dest!: find_Some_in)
  have "pair_keys run rn \<subseteq> task_keys d'" using s assms(2) task_keys_fold by auto
  moreover have "1 \<le> rs_attempt rn" "rs_attempt rn \<le> MAX_AUTOMATIC_EVALUATION_ATTEMPTS"
    using s assms(2) by (simp_all add: list_all_iff MAX_AUTOMATIC_EVALUATION_ATTEMPTS_def)
  ultimately show ?thesis using p s fold_evaluate [OF assms(2)] by blast
qed

definition sample_schedule :: revision_schedule where
  "sample_schedule =
     \<lparr>rs_page_id = ''a.md'', rs_source_artifact_id = ''art1'', rs_source_version = 1,
      rs_attempt = 2, rs_write_input = [], rs_evaluate_input = []\<rparr>"

definition sample_rescheduled :: db where
  "sample_rescheduled =
     after (schedule_revisions ''r'' ''o'' [sample_schedule] 5 (sample_evaluated EvRevisionRequired))
       empty_db"

lemma sample_reschedule:
  "schedule_revisions ''r'' ''o'' [sample_schedule] 5 (sample_evaluated EvRevisionRequired)
     = Inr ([2], sample_rescheduled)"
  by code_simp

theorem schedule_revisions_spec_witness:
  "scheduled_evaluate ''r'' ''o'' 5 sample_schedule \<in> set (db_tasks sample_rescheduled)"
proof -
  have "(''r'', evaluate_task_id (rs_page_id sample_schedule)
      (rs_source_version sample_schedule + 1)) \<notin> task_keys (sample_evaluated EvRevisionRequired)"
    unfolding task_keys_def by code_simp
  then show ?thesis
    using schedule_revisions_spec [OF sample_reschedule, of sample_schedule] by simp
qed

text \<open>
  Scheduling is replayable: repeating an accepted batch, as a restarted run does after a
  crash, is accepted again with the same versions and inserts no further task.
\<close>

theorem schedule_revisions_replay:
  assumes "schedule_revisions run org rns now d = Inr (vs, d')"
  shows "\<exists>d2. schedule_revisions run org rns now2 d' = Inr (vs, d2) \<and> db_tasks d2 = db_tasks d'"
proof -
  note s = assms [unfolded schedule_revisions_iff]
  from s have "schedulable run d' = schedulable run d"
    by (simp add: schedulable_def fun_eq_iff)
  with s have "schedule_revisions run org rns now2 d'
      = Inr (vs, fold (schedule_one run org now2) rns d')"
    unfolding schedule_revisions_iff by simp
  moreover have "db_tasks (fold (schedule_one run org now2) rns d') = db_tasks d'"
    using s by (intro fold_known) (auto simp: task_keys_fold)
  ultimately show ?thesis by blast
qed

theorem schedule_revisions_replay_witness:
  "\<exists>d2. schedule_revisions ''r'' ''o'' [sample_schedule] 9 sample_rescheduled = Inr ([2], d2)
     \<and> db_tasks d2 = db_tasks sample_rescheduled"
  by (rule schedule_revisions_replay [OF sample_reschedule])

section \<open>Human review decisions\<close>

definition approve_row :: "string option \<Rightarrow> int \<Rightarrow> page_state \<Rightarrow> page_state" where
  "approve_row comment now r =
     r\<lparr>ps_status := PASSED,
       ps_escalation_reason := approved_reason comment (ps_escalation_reason r),
       ps_updated_at := now\<rparr>"

definition escalated_in :: "string \<Rightarrow> string list \<Rightarrow> page_state \<Rightarrow> bool" where
  "escalated_in run ids r \<longleftrightarrow> awaiting run r \<and> ps_page_id r \<in> set ids"

lemma awaiting_approve_row [simp]: "\<not> awaiting run (approve_row c now r)"
  by (simp add: awaiting_def approve_row_def)

lemma approve_loop_pages:
  "db_pages (snd (approve_loop run ids c now n d)) =
     upd_where (escalated_in run ids) (approve_row c now) (db_pages d)"
proof (induction ids arbitrary: n d)
  case Nil
  show ?case by (simp add: escalated_in_def upd_where_def)
next
  case (Cons i ids)
  let ?p = "\<lambda>r. awaiting run r \<and> ps_page_id r = i"
  have "upd_where (escalated_in run ids) (approve_row c now) (upd_where ?p (approve_row c now) t)
      = upd_where (escalated_in run (i # ids)) (approve_row c now) t" for t
    by (auto simp: upd_where_def escalated_in_def)
  then show ?case using Cons.IH by (simp add: Let_def approve_row_def [abs_def])
qed

lemma approve_loop_frame_all:
  "snd (approve_loop run ids c now n d) = d\<lparr>db_pages := db_pages (snd (approve_loop run ids c now n d))\<rparr>"
proof (induction ids arbitrary: n d)
  case (Cons i ids)
  show ?case unfolding approve_loop.simps Let_def by (subst Cons.IH) simp
qed simp

lemma length_filter_unique:
  assumes "distinct (map key t)" and "\<And>x y. p x \<Longrightarrow> p y \<Longrightarrow> key x = key y"
  shows "length (filter p t) = (if \<exists>r \<in> set t. p r then 1 else 0)"
proof (cases "\<exists>r \<in> set t. p r")
  case True
  then obtain r where "r \<in> set t" "p r" by blast
  then have "filter p t = [r]" using assms by (intro filter_unique [where key = key]) blast+
  with True show ?thesis by simp
next
  case False
  then show ?thesis by (simp add: filter_empty_conv)
qed

lemma approve_loop_count:
  "distinct (map page_key (db_pages d)) \<Longrightarrow>
     fst (approve_loop run ids c now n d) = n + length (filter (escalated_in run ids) (db_pages d))"
proof (induction ids arbitrary: n d)
  case Nil
  then show ?case by (simp add: escalated_in_def)
next
  case (Cons i ids)
  let ?p = "\<lambda>r. awaiting run r \<and> ps_page_id r = i"
  let ?t = "upd_where ?p (approve_row c now) (db_pages d)"
  let ?hit = "\<exists>r \<in> set (db_pages d). ?p r"
  have key: "?p x \<Longrightarrow> ?p y \<Longrightarrow> page_key x = page_key y" for x y by (simp add: awaiting_def)
  have count: "length (filter ?p (db_pages d)) = (if ?hit then 1 else 0)"
    using Cons.prems key by (rule length_filter_unique)
  have "distinct (map page_key ?t)"
    using Cons.prems by (simp add: table_simps approve_row_def)
  from Cons.IH [of "d\<lparr>db_pages := ?t\<rparr>" "if ?hit then n + 1 else n"] this
  have "fst (approve_loop run (i # ids) c now n d)
      = (if ?hit then n + 1 else n) + length (filter (escalated_in run ids) ?t)"
    by (simp add: Let_def approve_row_def [abs_def])
  moreover have "length (filter (escalated_in run ids) (upd_where ?p (approve_row c now) t))
      + length (filter ?p t) = length (filter (escalated_in run (i # ids)) t)" for t
    by (induction t) (auto simp: upd_where_def escalated_in_def)
  from this [of "db_pages d"] have "length (filter (escalated_in run ids) ?t) + (if ?hit then 1 else 0)
      = length (filter (escalated_in run (i # ids)) (db_pages d))"
    by (simp only: count)
  ultimately show ?case by (simp split: if_splits)
qed

text \<open>
  Human approval: exactly the named pages of the run that await review become passed,
  each once and with the comment appended to its reason, the count returned is their number,
  and nothing else in the database changes; an empty selection raises \<open>ValueError\<close>.
\<close>

theorem approve_escalated_pages_spec:
  assumes "repo_inv d"
  shows "approve_escalated_pages run ids c now d =
    (if ids = [] then Inl (ValueError ''approve requires at least one page id'')
     else Inr (length (filter (escalated_in run ids) (db_pages d)),
               d\<lparr>db_pages := upd_where (escalated_in run ids) (approve_row c now) (db_pages d)\<rparr>))"
proof -
  have "distinct (map page_key (db_pages d))"
    using assms by (simp add: repo_inv_def pages_inv_def)
  from approve_loop_count [OF this, of run ids c now 0] approve_loop_pages [of run ids c now 0 d]
    approve_loop_frame_all [of run ids c now 0 d]
  show ?thesis by (auto simp: approve_escalated_pages_def prod_eq_iff)
qed

theorem approve_escalated_pages_spec_witness:
  "map_sum id (\<lambda>(n, d). (n, map ps_status (db_pages d)))
     (approve_escalated_pages ''r'' [''a.md'', ''b.md'', ''a.md''] None 9
        (sample_evaluated EvAwaitingHumanReview)) = Inr (1, [PASSED])"
  unfolding approve_escalated_pages_spec [OF reachable_inv [OF sample_evaluated_reachable(2)]]
  by code_simp

lemma filter_upd_where_empty:
  "(\<And>r. q r \<Longrightarrow> p r) \<Longrightarrow> (\<And>r. \<not> q (f r)) \<Longrightarrow> filter q (upd_where p f t) = []"
  by (induction t) (auto simp: upd_where_def)

text \<open>
  Human rejection ends the run: once its escalated pages are failed and its open tasks
  cancelled, no page of the run awaits review, no worker can claim a task of it, and the
  pages and tasks of other runs are as they were.
\<close>

theorem rejection_stops_run:
  "let d1 = snd (mark_escalated_failed run comment now d);
       d2 = snd (cancel_pending_tasks run now d1)
   in filter (awaiting run) (db_pages d2) = []
      \<and> fst (claim_ready_tasks run owner secs limit locked now2 d2) = []
      \<and> filter (\<lambda>r. ps_run_id r \<noteq> run) (db_pages d2) = filter (\<lambda>r. ps_run_id r \<noteq> run) (db_pages d)
      \<and> filter (\<lambda>t. wt_run_id t \<noteq> run) (db_tasks d2) = filter (\<lambda>t. wt_run_id t \<noteq> run) (db_tasks d)"
proof -
  define d1 where "d1 = snd (mark_escalated_failed run comment now d)"
  define d2 where "d2 = snd (cancel_pending_tasks run now d1)"
  have keep: "filter (\<lambda>r. key r \<noteq> run) (upd_where p f t) = filter (\<lambda>r. key r \<noteq> run) t"
    if "\<And>r. p r \<Longrightarrow> key r = run" "\<And>r. key (f r) = key r"
    for key :: "'r \<Rightarrow> string" and p f t
    using that by (induction t) (auto simp: upd_where_def)
  have "filter (awaiting run) (db_pages d2) = []"
    by (simp add: d2_def d1_def mark_escalated_failed_def cancel_pending_tasks_def Let_def
          split del: if_split) (rule filter_upd_where_empty, simp_all add: awaiting_def)
  moreover have "filter (claimable run ts) (db_tasks d2) = []" for ts
    by (simp add: d2_def cancel_pending_tasks_def Let_def)
       (rule filter_upd_where_empty, simp_all add: claimable_def)
  then have "fst (claim_ready_tasks run owner secs limit locked now2 d2) = []"
    by (simp add: claim_ready_tasks_def claim_selection_def Let_def)
  moreover have "filter (\<lambda>r. ps_run_id r \<noteq> run) (db_pages d2)
      = filter (\<lambda>r. ps_run_id r \<noteq> run) (db_pages d)"
    by (simp add: d2_def d1_def mark_escalated_failed_def cancel_pending_tasks_def Let_def
          split del: if_split) (rule keep, simp_all add: awaiting_def)
  moreover have "filter (\<lambda>t. wt_run_id t \<noteq> run) (db_tasks d2)
      = filter (\<lambda>t. wt_run_id t \<noteq> run) (db_tasks d)"
    by (simp add: d2_def d1_def mark_escalated_failed_def cancel_pending_tasks_def Let_def
          split del: if_split) (rule keep, simp_all)
  ultimately show ?thesis by (simp add: Let_def d1_def d2_def)
qed

lemma awaiting_schedule_pair:
  "filter (\<lambda>r. awaiting run r \<and> ps_page_id r \<notin> P)
      (db_pages (schedule_pair run org pg v wi ei now d))
     = filter (\<lambda>r. awaiting run r \<and> ps_page_id r \<notin> insert pg P) (db_pages d)"
proof -
  have *: "filter (\<lambda>r. awaiting run r \<and> ps_page_id r \<notin> P) (upd_where (\<lambda>r. page_key r = (run, pg)) f t)
      = filter (\<lambda>r. awaiting run r \<and> ps_page_id r \<notin> insert pg P) t"
    if "\<And>r. \<not> awaiting run (f r)" for f t
    using that by (induction t) (auto simp: upd_where_def awaiting_def)
  show ?thesis unfolding schedule_pair_pages by (rule *) (simp add: awaiting_def)
qed

definition human_pair_keys :: "string \<Rightarrow> page_state \<Rightarrow> (string \<times> string) set" where
  "human_pair_keys run p =
     {(run, write_task_id (ps_page_id p) (ps_latest_version p + 1)),
      (run, evaluate_task_id (ps_page_id p) (ps_latest_version p + 1))}"

lemma task_keys_schedule_pair:
  "task_keys (schedule_pair run org pg v wi ei now d) =
     {(run, write_task_id pg v), (run, evaluate_task_id pg v)} \<union> task_keys d"
proof -
  have "task_keys (d\<lparr>db_pages := x\<rparr>) = task_keys d" for x by (simp add: task_keys_def)
  then show ?thesis by (auto simp: schedule_pair_def Let_def)
qed

lemma human_loop_Inr:
  "human_loop run c ps now d = Inr (vs, d') \<Longrightarrow>
     vs = map (\<lambda>p. ps_latest_version p + 1) ps
     \<and> page_view d' = page_view d
     \<and> task_keys d' = (\<Union>p \<in> set ps. human_pair_keys run p) \<union> task_keys d
     \<and> filter (awaiting run) (db_pages d')
         = filter (\<lambda>r. awaiting run r \<and> ps_page_id r \<notin> ps_page_id ` set ps) (db_pages d)"
proof (induction ps arbitrary: d vs)
  case Nil
  then show ?case by simp
next
  case (Cons p ps)
  from Cons.prems obtain wi ei ws where
    l: "human_loop run c ps now
       (schedule_pair run (ps_org_id p) (ps_page_id p) (ps_latest_version p + 1) wi ei now d)
       = Inr (ws, d')" and vs: "vs = (ps_latest_version p + 1) # ws"
    by (rule human_loop_ConsD)
  note ih = Cons.IH [OF l]
  have "page_view d' = page_view d" using ih by (auto simp: fun_eq_iff)
  moreover have "task_keys d' = (\<Union>q \<in> set (p # ps). human_pair_keys run q) \<union> task_keys d"
    using ih by (auto simp: task_keys_schedule_pair human_pair_keys_def)
  moreover have "filter (awaiting run) (db_pages d')
      = filter (\<lambda>r. awaiting run r \<and> ps_page_id r \<notin> ps_page_id ` set (p # ps)) (db_pages d)"
    using ih by (simp add: awaiting_schedule_pair)
  ultimately show ?case using ih vs by simp
qed

text \<open>
  A request for changes: a blank comment raises \<open>ValueError\<close>; otherwise every page of the
  run that awaits review leaves that status with the write and evaluate tasks of its successor
  version queued, and no page's artifact, version or automatic attempt count is touched, so a
  human-guided revision never consumes an automatic attempt.
\<close>

theorem request_changes_spec:
  "(strip (or_str comment []) = [] \<longrightarrow> schedule_human_revisions run comment now d
      = Inl (ValueError ''request_changes requires a non-empty comment''))
   \<and> (\<forall>vs d'. schedule_human_revisions run comment now d = Inr (vs, d') \<longrightarrow>
        vs = map (\<lambda>p. ps_latest_version p + 1)
               (sort_key ps_page_id (filter (awaiting run) (db_pages d)))
        \<and> filter (awaiting run) (db_pages d') = []
        \<and> (\<forall>p \<in> set (db_pages d). awaiting run p \<longrightarrow> human_pair_keys run p \<subseteq> task_keys d')
        \<and> page_view d' = page_view d)"
proof (intro conjI impI allI)
  show "schedule_human_revisions run comment now d
      = Inl (ValueError ''request_changes requires a non-empty comment'')"
    if "strip (or_str comment []) = []"
    using that by (simp add: schedule_human_revisions_def)
next
  fix vs d'
  assume ok: "schedule_human_revisions run comment now d = Inr (vs, d')"
  let ?ps = "sort_key ps_page_id (filter (awaiting run) (db_pages d))"
  have "human_loop run (strip (or_str comment [])) ?ps now d = Inr (vs, d')"
    using ok by (auto simp: schedule_human_revisions_def Let_def split: if_splits)
  note h = human_loop_Inr [OF this]
  show "vs = map (\<lambda>p. ps_latest_version p + 1) ?ps" "page_view d' = page_view d"
    using h by blast+
  show "filter (awaiting run) (db_pages d') = []" using h by (auto simp: filter_empty_conv)
  show "\<forall>p \<in> set (db_pages d). awaiting run p \<longrightarrow> human_pair_keys run p \<subseteq> task_keys d'"
    using h by auto
qed

theorem request_changes_spec_witness:
  "case schedule_human_revisions ''r'' (Some ''shorter'') 9 (sample_evaluated EvAwaitingHumanReview) of
     Inl e \<Rightarrow> False
   | Inr (vs, d') \<Rightarrow> vs = [2] \<and> filter (awaiting ''r'') (db_pages d') = []"
proof -
  let ?d = "sample_evaluated EvAwaitingHumanReview"
  let ?r = "schedule_human_revisions ''r'' (Some ''shorter'') 9 ?d"
  have ok: "case ?r of Inl e \<Rightarrow> False | Inr (vs, d') \<Rightarrow> vs = [2]" by code_simp
  then obtain d' where r: "?r = Inr ([2], d')" by (auto split: sum.splits)
  from request_changes_spec [of "Some ''shorter''" "''r''" 9 ?d] r show ?thesis by simp
qed

end
