(* ===== verification/Draft_Store.thy ===== *)
theory Draft_Store
  imports Page_Lifecycle
begin

text \<open>
  The draft store (\<^verbatim>\<open>src/draftly/persistence/repositories/drafts.py\<close>): revisions whose bytes are
  appended in chunks, sealed once, replayed idempotently by version and read back newest first.
  The generated draft id, the clock and the hexadecimal SHA-256 digest of the UTF-8 bytes are
  arguments (\<open>draft_id\<close>, \<open>now\<close>, \<open>digest\<close>). The definitions here run one method from its first statement
  to its last with nothing in between; every statement commits on its own, so a failing second statement
  leaves the first one in place (\<open>gc\<close>). \<open>Draft_Calls\<close> splits the methods into their statements and
  lets the statements of several calls interleave.
\<close>

section \<open>Operations\<close>

definition KEEP_GENERATIONS :: int where
  "KEEP_GENERATIONS = 3"

record draft_file =
  df_path :: string
  df_action :: string
  df_content :: string
  df_content_size :: int
  df_artifact_id :: string
  df_version :: "int option"
  df_content_hash :: "string option"

definition get_versioned_revision ::
  "string \<Rightarrow> string \<Rightarrow> int \<Rightarrow> db \<Rightarrow> draft_revision option" where
  "get_versioned_revision run_id path version d =
     find (\<lambda>r. rv_run_id r = run_id \<and> rv_path r = path \<and> rv_version r = Some version)
       (db_revisions d)"

definition get_revision :: "string \<Rightarrow> db \<Rightarrow> draft_revision option" where
  "get_revision draft_id d = find (\<lambda>r. rv_id r = draft_id) (db_revisions d)"

definition new_revision ::
  "string \<Rightarrow> string \<Rightarrow> string \<Rightarrow> int \<Rightarrow> string \<Rightarrow> string \<Rightarrow> int option \<Rightarrow> int \<Rightarrow> draft_revision" where
  "new_revision draft_id run_id org_id generation path action version now =
     \<lparr>rv_id = draft_id, rv_run_id = run_id, rv_org_id = org_id, rv_generation = generation,
      rv_path = path, rv_action = action, rv_sealed = False, rv_content_size = 0,
      rv_created_at = Some now, rv_sealed_at = None, rv_version = version,
      rv_content_hash = None\<rparr>"

definition insert_revision :: "draft_revision \<Rightarrow> db \<Rightarrow> (draft_revision \<times> db) res" where
  "insert_revision r d =
     (if rv_id r \<in> rv_id ` set (db_revisions d)
      then Inl (Exn ''UniqueViolationError'' (rv_id r))
      else Inr (r, d\<lparr>db_revisions := db_revisions d @ [r]\<rparr>))"

definition create_revision ::
  "string \<Rightarrow> string \<Rightarrow> string \<Rightarrow> int \<Rightarrow> string \<Rightarrow> string \<Rightarrow> int option \<Rightarrow> int \<Rightarrow> db
     \<Rightarrow> (draft_revision \<times> db) res" where
  "create_revision draft_id run_id org_id generation path action version now d =
     (let fresh = new_revision draft_id run_id org_id generation path action version now in
      case version of
        None \<Rightarrow> insert_revision fresh d
      | Some v \<Rightarrow>
          (case get_versioned_revision run_id path v d of
             Some existing \<Rightarrow> Inr (existing, d)
           | None \<Rightarrow> insert_revision fresh d))"

definition chunks :: "string \<Rightarrow> db \<Rightarrow> draft_chunk list" where
  "chunks draft_id d =
     sort_key ck_index (filter (\<lambda>c. ck_draft_id c = draft_id) (db_chunks d))"

definition assembled :: "string \<Rightarrow> db \<Rightarrow> string" where
  "assembled draft_id d = concat (map ck_content (chunks draft_id d))"

definition to_draft_file :: "db \<Rightarrow> draft_revision \<Rightarrow> draft_file" where
  "to_draft_file d r =
     \<lparr>df_path = rv_path r, df_action = rv_action r, df_content = assembled (rv_id r) d,
      df_content_size = rv_content_size r, df_artifact_id = rv_id r,
      df_version = rv_version r, df_content_hash = rv_content_hash r\<rparr>"

definition prepare_versioned_write ::
  "string \<Rightarrow> string \<Rightarrow> int \<Rightarrow> db \<Rightarrow> draft_file option \<times> db" where
  "prepare_versioned_write run_id path version d =
     (case get_versioned_revision run_id path version d of
        None \<Rightarrow> (None, d)
      | Some r \<Rightarrow>
          if rv_sealed r then (Some (to_draft_file d r), d)
          else (None, d\<lparr>db_chunks := filter (\<lambda>c. ck_draft_id c \<noteq> rv_id r) (db_chunks d)\<rparr>))"

definition next_chunk_index :: "string \<Rightarrow> db \<Rightarrow> int" where
  "next_chunk_index draft_id d =
     (let is = map ck_index (filter (\<lambda>c. ck_draft_id c = draft_id) (db_chunks d))
      in if is = [] then 0 else Max (set is) + 1)"

definition append_chunk :: "string \<Rightarrow> string \<Rightarrow> db \<Rightarrow> (int \<times> db) res" where
  "append_chunk draft_id content d =
     (case get_revision draft_id d of
        None \<Rightarrow> Inl (ValueError (''unknown draft_id '' @ py_repr draft_id))
      | Some r \<Rightarrow>
          if rv_sealed r
          then Inl (ValueError (''draft '' @ py_repr draft_id @
                 '' is already sealed; start a new draft, do not mutate''))
          else let i = next_chunk_index draft_id d
               in Inr (i + 1, d\<lparr>db_chunks := db_chunks d @
                    [\<lparr>ck_draft_id = draft_id, ck_index = i, ck_content = content\<rparr>]\<rparr>))"

definition finalize ::
  "(string \<Rightarrow> string) \<Rightarrow> string \<Rightarrow> int \<Rightarrow> db \<Rightarrow> (draft_revision \<times> db) res" where
  "finalize digest draft_id now d =
     (case get_revision draft_id d of
        None \<Rightarrow> Inl (ValueError (''unknown draft_id '' @ py_repr draft_id))
      | Some r \<Rightarrow>
          if rv_sealed r
          then Inl (ValueError (''draft '' @ py_repr draft_id @ '' is already sealed''))
          else
            let content = assembled draft_id d in
            if strip content = []
            then Inl (ValueError (''draft '' @ py_repr draft_id @
                   '' is empty; append content before finalizing''))
            else
              let size = int (length content);
                  hash = digest content;
                  t1 = upd_where (\<lambda>x. rv_id x = draft_id)
                         (\<lambda>x. x\<lparr>rv_sealed := True, rv_content_size := size,
                                rv_content_hash := Some hash\<rparr>) (db_revisions d);
                  t2 = upd_where (\<lambda>x. rv_id x = draft_id \<and> rv_sealed x)
                         (\<lambda>x. x\<lparr>rv_sealed_at := Some now\<rparr>) t1
              in Inr (r\<lparr>rv_sealed := True, rv_content_size := size, rv_sealed_at := Some now,
                        rv_content_hash := Some hash\<rparr>,
                      d\<lparr>db_revisions := t2\<rparr>))"

definition get_generation :: "string \<Rightarrow> int \<Rightarrow> db \<Rightarrow> draft_file list" where
  "get_generation run_id generation d =
     map (to_draft_file d)
       (filter rv_sealed
         (sort_key rv_path
           (filter (\<lambda>r. rv_run_id r = run_id \<and> rv_generation r = generation)
             (db_revisions d))))"

text \<open>\<^verbatim>\<open>ORDER BY version DESC NULLS LAST, generation DESC, path\<close>.\<close>

definition newest_key :: "draft_revision \<Rightarrow> (nat \<times> int) \<times> int \<times> string" where
  "newest_key r =
     ((case rv_version r of None \<Rightarrow> (1, 0) | Some v \<Rightarrow> (0, - v)), - rv_generation r, rv_path r)"

definition newest_first :: "string \<Rightarrow> db \<Rightarrow> draft_revision list" where
  "newest_first run_id d =
     sort_key newest_key (filter (\<lambda>r. rv_run_id r = run_id) (db_revisions d))"

fun latest_loop :: "db \<Rightarrow> string list \<Rightarrow> draft_revision list \<Rightarrow> draft_file list" where
  "latest_loop d seen [] = []"
| "latest_loop d seen (r # rs) =
     (if \<not> rv_sealed r \<or> rv_path r \<in> set seen then latest_loop d seen rs
      else to_draft_file d r # latest_loop d (rv_path r # seen) rs)"

definition get_latest :: "string \<Rightarrow> db \<Rightarrow> draft_file list" where
  "get_latest run_id d = latest_loop d [] (newest_first run_id d)"

definition get_path_latest :: "string \<Rightarrow> string \<Rightarrow> db \<Rightarrow> draft_file option" where
  "get_path_latest run_id path d =
     map_option (to_draft_file d)
       (find (\<lambda>r. rv_sealed r \<and> rv_path r = path) (newest_first run_id d))"

definition list_revisions :: "string \<Rightarrow> int option \<Rightarrow> db \<Rightarrow> draft_revision list" where
  "list_revisions run_id generation d =
     (case generation of
        None \<Rightarrow> sort_key (\<lambda>r. (rv_generation r, rv_path r))
                  (filter (\<lambda>r. rv_run_id r = run_id) (db_revisions d))
      | Some g \<Rightarrow> sort_key rv_path
                  (filter (\<lambda>r. rv_run_id r = run_id \<and> rv_generation r = g) (db_revisions d)))"

definition next_generation :: "string \<Rightarrow> db \<Rightarrow> int" where
  "next_generation run_id d =
     (let gs = map rv_generation (filter (\<lambda>r. rv_run_id r = run_id) (db_revisions d))
      in if gs = [] then 1 else Max (set gs) + 1)"

text \<open>
  The foreign keys on \<^verbatim>\<open>draft_revisions(id)\<close> without \<^verbatim>\<open>ON DELETE CASCADE\<close>: promoted artifacts and
  evaluated artifacts cannot be deleted.
\<close>

definition referenced :: "db \<Rightarrow> string \<Rightarrow> bool" where
  "referenced d draft_id \<longleftrightarrow>
     (\<exists>p \<in> set (db_pages d). ps_latest_artifact_id p = Some draft_id)
     \<or> (\<exists>e \<in> set (db_evaluations d). er_artifact_id e = draft_id)"

definition gc :: "string \<Rightarrow> db \<Rightarrow> exn option \<times> db" where
  "gc run_id d =
     (let revisions = list_revisions run_id None d in
      if revisions = [] then (None, d)
      else
        let newest = Max (set (map rv_generation revisions));
            doomed = map rv_id (filter (\<lambda>r. rv_sealed r
                       \<and> rv_generation r \<le> newest - KEEP_GENERATIONS) revisions)
        in if doomed = [] then (None, d)
           else
             let d1 = d\<lparr>db_chunks := filter (\<lambda>c. ck_draft_id c \<notin> set doomed) (db_chunks d)\<rparr>
             in if list_ex (referenced d) doomed
                then (Some (Exn ''ForeignKeyViolationError'' ''draft_revisions''), d1)
                else (None, d1\<lparr>db_revisions :=
                        filter (\<lambda>r. rv_id r \<notin> set doomed) (db_revisions d)\<rparr>))"

section \<open>The invariant of the methods\<close>

text \<open>What a seal records about the bytes it covers.\<close>

definition seal_ok :: "(string \<Rightarrow> string) \<Rightarrow> db \<Rightarrow> draft_revision \<Rightarrow> bool" where
  "seal_ok digest d r \<longleftrightarrow>
     (rv_sealed r \<longrightarrow>
        rv_content_hash r = Some (digest (assembled (rv_id r) d))
        \<and> rv_content_size r = int (length (assembled (rv_id r) d))
        \<and> strip (assembled (rv_id r) d) \<noteq> [])"

definition version_key :: "draft_revision \<Rightarrow> string \<times> string \<times> int option" where
  "version_key r = (rv_run_id r, rv_path r, rv_version r)"

text \<open>The partial unique index on \<^verbatim>\<open>(run_id, path, version)\<close>.\<close>

definition versions_unique :: "draft_revision list \<Rightarrow> bool" where
  "versions_unique t \<longleftrightarrow>
     (\<forall>x \<in> set t. \<forall>y \<in> set t.
        rv_version x \<noteq> None \<longrightarrow> version_key x = version_key y \<longrightarrow> rv_id x = rv_id y)"

definition drafts_inv :: "(string \<Rightarrow> string) \<Rightarrow> db \<Rightarrow> bool" where
  "drafts_inv digest d \<longleftrightarrow>
     distinct (map rv_id (db_revisions d))
     \<and> (\<forall>r \<in> set (db_revisions d). seal_ok digest d r)
     \<and> versions_unique (db_revisions d)
     \<and> ck_draft_id ` set (db_chunks d) \<subseteq> rv_id ` set (db_revisions d)"

lemma versions_unique_upd:
  assumes "\<And>x. rv_id (f x) = rv_id x" "\<And>x. version_key (f x) = version_key x"
  shows "versions_unique (upd_where p f t) = versions_unique t"
proof -
  have "rv_version (f x) = rv_version x" for x using assms(2) [of x] by (simp add: version_key_def)
  then have g: "rv_version (if p x then f x else x) = rv_version x"
    "version_key (if p x then f x else x) = version_key x"
    "rv_id (if p x then f x else x) = rv_id x" for x
    using assms by simp_all
  show ?thesis unfolding versions_unique_def upd_where_def list.set_map ball_simps g ..
qed

lemma versions_unique_snoc:
  assumes "versions_unique t"
    and new: "\<And>q. q \<in> set t \<Longrightarrow> rv_version r \<noteq> None \<Longrightarrow> version_key q \<noteq> version_key r"
  shows "versions_unique (t @ [r])"
  unfolding versions_unique_def
proof (intro ballI impI)
  fix x y
  assume xy: "x \<in> set (t @ [r])" "y \<in> set (t @ [r])" "rv_version x \<noteq> None"
    "version_key x = version_key y"
  have v: "rv_version y \<noteq> None" using xy(3,4) by (simp add: version_key_def)
  show "rv_id x = rv_id y"
  proof (cases "x = r \<or> y = r")
    case True
    then show ?thesis using xy v new [of x] new [of y] by (cases "x = y") auto
  next
    case False
    then have "x \<in> set t" "y \<in> set t" using xy(1,2) by simp_all
    with assms(1) xy(3,4) show ?thesis unfolding versions_unique_def by blast
  qed
qed

lemma assembled_cong: "db_chunks d' = db_chunks d \<Longrightarrow> assembled i d' = assembled i d"
  by (simp add: assembled_def chunks_def)

lemma assembled_none: "i \<notin> ck_draft_id ` set (db_chunks d) \<Longrightarrow> assembled i d = []"
proof -
  assume "i \<notin> ck_draft_id ` set (db_chunks d)"
  then have "filter (\<lambda>c. ck_draft_id c = i) (db_chunks d) = []" by (auto simp: filter_empty_conv)
  then show ?thesis by (simp add: assembled_def chunks_def)
qed

lemma next_chunk_index_above:
  assumes "c \<in> set (db_chunks d)" "ck_draft_id c = i"
  shows "ck_index c < next_chunk_index i d"
proof -
  let ?is = "map ck_index (filter (\<lambda>c. ck_draft_id c = i) (db_chunks d))"
  have c: "ck_index c \<in> set ?is" using assms by auto
  then have "ck_index c \<le> Max (set ?is)" by (intro Max_ge) simp_all
  moreover have "?is \<noteq> []" using c by (metis empty_iff empty_set)
  ultimately show ?thesis unfolding next_chunk_index_def Let_def by (simp only: if_False)
qed

lemma sort_key_snoc:
  assumes "\<And>y. y \<in> set xs \<Longrightarrow> f y < f x"
  shows "sort_key f (xs @ [x]) = sort_key f xs @ [x]"
proof (rule properties_for_sort_key)
  fix k assume "k \<in> set (sort_key f xs @ [x])"
  show "filter (\<lambda>y. f k = f y) (sort_key f xs @ [x]) = filter (\<lambda>y. f k = f y) (xs @ [x])"
    using sort_key_stable [of f "f k" xs] by (simp add: eq_commute)
next
  show "sorted (map f (sort_key f xs @ [x]))"
    using assms by (auto simp: sorted_append less_imp_le)
qed simp

text \<open>Appending grows the body of its draft at the end, and of no other draft.\<close>

lemma assembled_append:
  assumes "append_chunk i content d = Inr (n, d')"
  shows "assembled j d' = (if j = i then assembled i d @ content else assembled j d)"
proof -
  let ?c = "\<lparr>ck_draft_id = i, ck_index = next_chunk_index i d, ck_content = content\<rparr>"
  from assms have d': "db_chunks d' = db_chunks d @ [?c]"
    by (auto simp: append_chunk_def Let_def split: option.splits if_splits)
  have "sort_key ck_index (filter (\<lambda>c. ck_draft_id c = i) (db_chunks d) @ [?c])
      = sort_key ck_index (filter (\<lambda>c. ck_draft_id c = i) (db_chunks d)) @ [?c]"
    by (rule sort_key_snoc) (simp add: next_chunk_index_above)
  then show ?thesis by (simp add: assembled_def chunks_def d')
qed

lemma get_revision_in:
  "get_revision i d = Some r \<Longrightarrow> r \<in> set (db_revisions d) \<and> rv_id r = i"
  unfolding get_revision_def by (auto dest: find_Some_in)

lemma append_chunk_revisions:
  assumes "append_chunk i content d = Inr (n, d')"
  obtains r where "get_revision i d = Some r" "\<not> rv_sealed r" "db_revisions d' = db_revisions d"
    "ck_draft_id ` set (db_chunks d') = insert i (ck_draft_id ` set (db_chunks d))"
  using assms by (auto simp: append_chunk_def Let_def split: option.splits if_splits)

lemma revision_unique:
  assumes "drafts_inv digest d" "r \<in> set (db_revisions d)" "s \<in> set (db_revisions d)"
    and "rv_id r = rv_id s"
  shows "r = s"
proof -
  have "inj_on rv_id (set (db_revisions d))"
    using assms(1) by (simp add: drafts_inv_def distinct_map)
  from this assms(4,2,3) show ?thesis by (rule inj_onD)
qed

lemma open_draft_other:
  assumes "drafts_inv digest d" "get_revision i d = Some q" "\<not> rv_sealed q"
    "r \<in> set (db_revisions d)" "rv_sealed r"
  shows "rv_id r \<noteq> i"
proof
  assume "rv_id r = i"
  then have "r = q"
    using get_revision_in [OF assms(2)] by (intro revision_unique [OF assms(1,4)]) simp_all
  with assms(3,5) show False by simp
qed

lemma seal_ok_cong:
  "assembled (rv_id r) d' = assembled (rv_id r) d \<Longrightarrow> seal_ok digest d' r = seal_ok digest d r"
  by (simp add: seal_ok_def)

definition sealed_row :: "(string \<Rightarrow> string) \<Rightarrow> db \<Rightarrow> int \<Rightarrow> draft_revision \<Rightarrow> draft_revision" where
  "sealed_row digest d now r =
     r\<lparr>rv_sealed := True, rv_content_size := int (length (assembled (rv_id r) d)),
       rv_sealed_at := Some now,
       rv_content_hash := Some (digest (assembled (rv_id r) d))\<rparr>"

lemma finalize_Inr:
  assumes "finalize digest i now d = Inr (r, d')"
  obtains q where "get_revision i d = Some q" "\<not> rv_sealed q" "strip (assembled i d) \<noteq> []"
    "r = sealed_row digest d now q"
    "d' = d\<lparr>db_revisions := upd_where (\<lambda>x. rv_id x = i) (sealed_row digest d now) (db_revisions d)\<rparr>"
proof -
  from assms obtain q where q: "get_revision i d = Some q" "\<not> rv_sealed q"
      "strip (assembled i d) \<noteq> []"
    by (auto simp: finalize_def Let_def split: option.splits if_splits)
  moreover have "rv_id q = i" using q(1) by (simp add: get_revision_in)
  moreover have "upd_where (\<lambda>x. rv_id x = i \<and> rv_sealed x) (\<lambda>x. x\<lparr>rv_sealed_at := Some now\<rparr>)
      (upd_where (\<lambda>x. rv_id x = i)
         (\<lambda>x. x\<lparr>rv_sealed := True, rv_content_size := int (length (assembled i d)),
                rv_content_hash := Some (digest (assembled i d))\<rparr>) (db_revisions d))
      = upd_where (\<lambda>x. rv_id x = i) (sealed_row digest d now) (db_revisions d)"
    by (auto simp: upd_where_def sealed_row_def)
  ultimately show ?thesis using assms that [of q]
    by (simp add: finalize_def Let_def sealed_row_def [of digest d now q])
qed

lemma insert_revision_inv:
  assumes inv: "drafts_inv digest d" and ins: "insert_revision r d = Inr (s, d')"
    and "\<not> rv_sealed r" and "\<And>q. q \<in> set (db_revisions d) \<Longrightarrow> rv_version r \<noteq> None
      \<Longrightarrow> version_key q \<noteq> version_key r"
  shows "drafts_inv digest d'"
proof -
  from ins have r: "rv_id r \<notin> rv_id ` set (db_revisions d)"
    and d': "d' = d\<lparr>db_revisions := db_revisions d @ [r]\<rparr>"
    by (auto simp: insert_revision_def split: if_splits)
  have so: "seal_ok digest d' q = seal_ok digest d q" for q
    by (rule seal_ok_cong, rule assembled_cong) (simp add: d')
  have r_ok: "seal_ok digest d r" using assms(3) by (simp add: seal_ok_def)
  have "versions_unique (db_revisions d @ [r])"
    using inv assms(4) by (intro versions_unique_snoc) (auto simp: drafts_inv_def)
  moreover have "\<forall>q \<in> set (db_revisions d'). seal_ok digest d' q"
    using inv r_ok unfolding so by (auto simp: d' drafts_inv_def)
  ultimately show ?thesis using inv r by (auto simp: drafts_inv_def d')
qed

lemma create_revision_inv:
  assumes "drafts_inv digest d"
    and "create_revision i run org g path action v now d = Inr (r, d')"
  shows "drafts_inv digest d'"
proof (cases "v \<noteq> None \<and> get_versioned_revision run path (the v) d \<noteq> None")
  case True
  with assms show ?thesis by (auto simp: create_revision_def)
next
  case False
  with assms(2) have "insert_revision (new_revision i run org g path action v now) d = Inr (r, d')"
    by (auto simp: create_revision_def Let_def split: option.splits)
  then show ?thesis
  proof (rule insert_revision_inv [OF assms(1)])
    fix q assume "q \<in> set (db_revisions d)"
      "rv_version (new_revision i run org g path action v now) \<noteq> None"
    with False show "version_key q \<noteq> version_key (new_revision i run org g path action v now)"
      by (auto simp: get_versioned_revision_def find_None_iff version_key_def new_revision_def)
  qed (simp add: new_revision_def)
qed

lemma drafts_inv_chunks:
  assumes "drafts_inv digest d" and "db_revisions d' = db_revisions d"
    and "\<And>r. r \<in> set (db_revisions d) \<Longrightarrow> rv_sealed r \<Longrightarrow> assembled (rv_id r) d' = assembled (rv_id r) d"
    and "ck_draft_id ` set (db_chunks d') \<subseteq> rv_id ` set (db_revisions d)"
  shows "drafts_inv digest d'"
proof -
  have "seal_ok digest d' r" if "r \<in> set (db_revisions d)" for r
    using that assms(1,3) by (auto simp: drafts_inv_def seal_ok_def)
  with assms(1,2,4) show ?thesis unfolding drafts_inv_def by simp
qed

lemma prepare_keeps_sealed:
  assumes "drafts_inv digest d" and "r \<in> set (db_revisions d)" and "rv_sealed r"
  shows "assembled (rv_id r) (snd (prepare_versioned_write run path v d)) = assembled (rv_id r) d"
proof (cases "get_versioned_revision run path v d")
  case (Some q)
  then have q: "q \<in> set (db_revisions d)"
    by (auto simp: get_versioned_revision_def dest: find_Some_in)
  show ?thesis
  proof (cases "rv_sealed q")
    case False
    have "rv_id r \<noteq> rv_id q" using revision_unique [OF assms(1,2) q] assms(3) False by blast
    then have "filter (\<lambda>c. ck_draft_id c \<noteq> rv_id q \<and> ck_draft_id c = rv_id r) cs
        = filter (\<lambda>c. ck_draft_id c = rv_id r) cs" for cs :: "draft_chunk list"
      by (intro filter_cong) auto
    then have "chunks (rv_id r) (d\<lparr>db_chunks := filter (\<lambda>c. ck_draft_id c \<noteq> rv_id q) (db_chunks d)\<rparr>)
        = chunks (rv_id r) d"
      by (simp add: chunks_def)
    then show ?thesis using Some False by (simp add: prepare_versioned_write_def assembled_def)
  qed (simp add: Some prepare_versioned_write_def)
qed (simp add: prepare_versioned_write_def)

lemma prepare_inv:
  assumes "drafts_inv digest d"
  shows "drafts_inv digest (snd (prepare_versioned_write run path v d))"
proof (rule drafts_inv_chunks [OF assms])
  show "ck_draft_id ` set (db_chunks (snd (prepare_versioned_write run path v d)))
      \<subseteq> rv_id ` set (db_revisions d)"
    using assms
    by (auto simp: drafts_inv_def prepare_versioned_write_def split: option.splits)
  show "db_revisions (snd (prepare_versioned_write run path v d)) = db_revisions d"
    by (simp add: prepare_versioned_write_def split: option.splits)
qed (rule prepare_keeps_sealed [OF assms])

lemma append_inv:
  assumes "drafts_inv digest d" and "append_chunk i content d = Inr (n, d')"
  shows "drafts_inv digest d'"
proof -
  obtain q where q: "get_revision i d = Some q" "\<not> rv_sealed q" "db_revisions d' = db_revisions d"
    "ck_draft_id ` set (db_chunks d') = insert i (ck_draft_id ` set (db_chunks d))"
    using append_chunk_revisions [OF assms(2)] .
  show ?thesis
  proof (rule drafts_inv_chunks [OF assms(1) q(3)])
    fix r assume "r \<in> set (db_revisions d)" "rv_sealed r"
    then have "rv_id r \<noteq> i" by (rule open_draft_other [OF assms(1) q(1,2)])
    then show "assembled (rv_id r) d' = assembled (rv_id r) d"
      by (simp add: assembled_append [OF assms(2)])
  next
    show "ck_draft_id ` set (db_chunks d') \<subseteq> rv_id ` set (db_revisions d)"
      using q(4) get_revision_in [OF q(1)] assms(1) by (auto simp: drafts_inv_def)
  qed
qed

lemma sealed_row_keys [simp]:
  "rv_id (sealed_row digest d now r) = rv_id r"
  "version_key (sealed_row digest d now r) = version_key r"
  "rv_version (sealed_row digest d now r) = rv_version r"
  by (simp_all add: sealed_row_def version_key_def)

lemma finalize_inv:
  assumes inv: "drafts_inv digest d" and "finalize digest i now d = Inr (r, d')"
  shows "drafts_inv digest d'"
proof -
  obtain q where q: "get_revision i d = Some q" "strip (assembled i d) \<noteq> []"
    and d': "d' = d\<lparr>db_revisions :=
        upd_where (\<lambda>x. rv_id x = i) (sealed_row digest d now) (db_revisions d)\<rparr>"
    using finalize_Inr [OF assms(2)] by blast
  have so: "seal_ok digest d' x = seal_ok digest d x" for x
    by (rule seal_ok_cong, rule assembled_cong) (simp add: d')
  show ?thesis unfolding drafts_inv_def
  proof (intro conjI)
    show "distinct (map rv_id (db_revisions d'))"
      using inv by (simp add: d' drafts_inv_def map_key_upd_where)
    show "\<forall>x \<in> set (db_revisions d'). seal_ok digest d' x"
      unfolding so using inv q(2)
      by (auto simp: d' drafts_inv_def set_upd_where seal_ok_def sealed_row_def)
    show "versions_unique (db_revisions d')"
      using inv by (simp add: d' drafts_inv_def versions_unique_upd)
    have "set (map rv_id (db_revisions d')) = set (map rv_id (db_revisions d))"
      by (simp add: d' map_key_upd_where del: set_map)
    then have "rv_id ` set (db_revisions d') = rv_id ` set (db_revisions d)" by simp
    moreover have "db_chunks d' = db_chunks d" by (simp add: d')
    ultimately show "ck_draft_id ` set (db_chunks d') \<subseteq> rv_id ` set (db_revisions d')"
      using inv by (simp add: drafts_inv_def)
  qed
qed

section \<open>Guarantees\<close>

text \<open>The writer's session on one artifact version: create or reopen, stream the chunks, seal.\<close>

fun append_all :: "string \<Rightarrow> string list \<Rightarrow> db \<Rightarrow> db res" where
  "append_all i [] d = Inr d"
| "append_all i (c # cs) d =
     (case append_chunk i c d of Inl e \<Rightarrow> Inl e | Inr (_, d') \<Rightarrow> append_all i cs d')"

definition write_session ::
  "(string \<Rightarrow> string) \<Rightarrow> string \<Rightarrow> string \<Rightarrow> string \<Rightarrow> int \<Rightarrow> string \<Rightarrow> string \<Rightarrow> int \<Rightarrow> int
     \<Rightarrow> string list \<Rightarrow> db \<Rightarrow> (draft_revision \<times> db) res" where
  "write_session digest i run org g path action v now cs d =
     (case create_revision i run org g path action (Some v) now d of
        Inl e \<Rightarrow> Inl e
      | Inr (r, d1) \<Rightarrow>
          (case append_all (rv_id r) cs d1 of
             Inl e \<Rightarrow> Inl e
           | Inr d2 \<Rightarrow> finalize digest (rv_id r) now d2))"

lemma append_all_open:
  assumes "get_revision i d = Some r" and "\<not> rv_sealed r"
  shows "\<exists>d'. append_all i cs d = Inr d' \<and> db_revisions d' = db_revisions d
           \<and> assembled i d' = assembled i d @ concat cs"
  using assms(1)
proof (induction cs arbitrary: d)
  case Nil
  then show ?case by simp
next
  case (Cons c cs)
  from Cons.prems assms(2) obtain n d1 where a: "append_chunk i c d = Inr (n, d1)"
    by (auto simp: append_chunk_def Let_def)
  then have rev: "db_revisions d1 = db_revisions d" by (rule append_chunk_revisions)
  with Cons.prems have "get_revision i d1 = Some r" by (simp add: get_revision_def)
  from Cons.IH [OF this] show ?case using a rev by (auto simp: assembled_append [OF a])
qed

lemma versioned_unique:
  assumes "drafts_inv digest d" "r \<in> set (db_revisions d)" "version_key r = (run, path, Some v)"
  shows "get_versioned_revision run path v d = Some r"
proof -
  obtain q where q: "get_versioned_revision run path v d = Some q"
    using assms(2,3) by (fastforce simp: get_versioned_revision_def find_None_iff version_key_def
        simp flip: not_None_eq)
  then have "q \<in> set (db_revisions d)" "version_key q = (run, path, Some v)"
    by (auto simp: get_versioned_revision_def version_key_def dest!: find_Some_in)
  moreover have "rv_id q = rv_id r"
    using assms calculation unfolding drafts_inv_def versions_unique_def
    by (metis Pair_inject option.distinct(1) version_key_def)
  ultimately show ?thesis using revision_unique [OF assms(1) _ assms(2)] q by blast
qed

lemma get_revision_Some:
  "drafts_inv digest d \<Longrightarrow> r \<in> set (db_revisions d) \<Longrightarrow> get_revision (rv_id r) d = Some r"
  unfolding get_revision_def by (rule find_distinct_key) (simp_all add: drafts_inv_def)

lemma append_all_inv:
  "drafts_inv digest d \<Longrightarrow> append_all i cs d = Inr d' \<Longrightarrow> drafts_inv digest d'"
  by (induction cs arbitrary: d) (auto split: sum.splits dest: append_inv)

text \<open>Preparing a version and creating its revision opens an empty draft under that version.\<close>

lemma prepare_create_open:
  assumes inv: "drafts_inv digest d" and fresh: "i \<notin> rv_id ` set (db_revisions d)"
    and "fst (prepare_versioned_write run path v d) = None"
  shows "\<exists>r d1. create_revision i run org g path action (Some v) now
             (snd (prepare_versioned_write run path v d)) = Inr (r, d1)
           \<and> r \<in> set (db_revisions d1) \<and> \<not> rv_sealed r \<and> assembled (rv_id r) d1 = []
           \<and> version_key r = (run, path, Some v)"
proof (cases "get_versioned_revision run path v d")
  case None
  let ?r = "new_revision i run org g path action (Some v) now"
  have "i \<notin> ck_draft_id ` set (db_chunks d)" using inv fresh by (auto simp: drafts_inv_def)
  then have "assembled i (d\<lparr>db_revisions := db_revisions d @ [?r]\<rparr>) = []"
    by (intro assembled_none) simp
  with None fresh show ?thesis
    by (simp add: prepare_versioned_write_def create_revision_def insert_revision_def
        new_revision_def version_key_def Let_def)
next
  case (Some q)
  then have q: "q \<in> set (db_revisions d)" "version_key q = (run, path, Some v)"
    by (auto simp: get_versioned_revision_def version_key_def dest!: find_Some_in)
  let ?d = "d\<lparr>db_chunks := filter (\<lambda>c. ck_draft_id c \<noteq> rv_id q) (db_chunks d)\<rparr>"
  from assms(3) Some have ns: "\<not> rv_sealed q"
    by (simp add: prepare_versioned_write_def split: if_splits)
  have "get_versioned_revision run path v ?d = Some q"
    using Some by (simp add: get_versioned_revision_def)
  then have "create_revision i run org g path action (Some v) now ?d = Inr (q, ?d)"
    by (simp add: create_revision_def)
  moreover have "assembled (rv_id q) ?d = []" by (rule assembled_none) auto
  moreover have "snd (prepare_versioned_write run path v d) = ?d"
    using Some ns by (simp add: prepare_versioned_write_def)
  ultimately show ?thesis using q ns by auto
qed

text \<open>
  C12. Writing an artifact version is idempotent and round trips: whether the version is new or
  a crashed writer left partial chunks behind, a replayed session that streams the given chunks
  succeeds, and the next replay finds the sealed artifact with exactly those bytes and their digest.
\<close>

theorem write_session_roundtrip:
  assumes inv: "drafts_inv digest d" and "i \<notin> rv_id ` set (db_revisions d)"
    and "fst (prepare_versioned_write run path v d) = None" and body: "strip (concat cs) \<noteq> []"
  shows "\<exists>r d' f.
     write_session digest i run org g path action v now cs
       (snd (prepare_versioned_write run path v d)) = Inr (r, d')
     \<and> prepare_versioned_write run path v d' = (Some f, d')
     \<and> df_content f = concat cs \<and> df_content_hash f = Some (digest (concat cs))
     \<and> df_artifact_id f = rv_id r \<and> df_version f = Some v"
proof -
  let ?d = "snd (prepare_versioned_write run path v d)"
  obtain r d1 where c: "create_revision i run org g path action (Some v) now ?d = Inr (r, d1)"
    and r: "r \<in> set (db_revisions d1)" "\<not> rv_sealed r" "assembled (rv_id r) d1 = []"
      "version_key r = (run, path, Some v)"
    using prepare_create_open [OF assms(1-3), of org g action now] by blast
  have inv1: "drafts_inv digest d1" by (rule create_revision_inv [OF prepare_inv [OF inv] c])
  obtain d2 where d2: "append_all (rv_id r) cs d1 = Inr d2" "db_revisions d2 = db_revisions d1"
      "assembled (rv_id r) d2 = concat cs"
    using append_all_open [OF get_revision_Some [OF inv1 r(1)] r(2), of cs] r(3) by auto
  have inv2: "drafts_inv digest d2" by (rule append_all_inv [OF inv1 d2(1)])
  let ?s = "sealed_row digest d2 now r"
  have "get_revision (rv_id r) d2 = Some r" using r(1) d2(2) by (intro get_revision_Some [OF inv2]) simp
  with r(2) d2(3) body obtain x d3 where f: "finalize digest (rv_id r) now d2 = Inr (x, d3)"
    by (auto simp: finalize_def Let_def)
  then obtain q where "get_revision (rv_id r) d2 = Some q" "x = sealed_row digest d2 now q"
    and d3: "d3 = d2\<lparr>db_revisions := upd_where (\<lambda>y. rv_id y = rv_id r) (sealed_row digest d2 now)
        (db_revisions d2)\<rparr>"
    by (rule finalize_Inr)
  then have x: "x = ?s" using \<open>get_revision (rv_id r) d2 = Some r\<close> by simp
  have "?s \<in> set (db_revisions d3)" using r(1) d2(2) by (auto simp: d3 upd_where_def)
  then have g: "get_versioned_revision run path v d3 = Some ?s"
    using r(4) by (intro versioned_unique [OF finalize_inv [OF inv2 f]]) simp_all
  have "assembled (rv_id r) d3 = concat cs"
    using d2(3) assembled_cong [of d3 d2] by (simp add: d3)
  then have "prepare_versioned_write run path v d3 = (Some (to_draft_file d3 ?s), d3)"
    and "df_content (to_draft_file d3 ?s) = concat cs"
    and "df_content_hash (to_draft_file d3 ?s) = Some (digest (concat cs))"
    using g d2(3) by (simp_all add: prepare_versioned_write_def to_draft_file_def sealed_row_def)
  moreover have "df_artifact_id (to_draft_file d3 ?s) = rv_id x" "df_version (to_draft_file d3 ?s) = Some v"
    using r(4) x by (simp_all add: to_draft_file_def version_key_def)
  ultimately show ?thesis using c d2(1) f by (auto simp: write_session_def)
qed

section \<open>Reading the newest artifact\<close>

lemma latest_loop_find:
  "find (\<lambda>f. df_path f = p) (latest_loop d seen rs) =
     (if p \<in> set seen then None
      else map_option (to_draft_file d) (find (\<lambda>r. rv_sealed r \<and> rv_path r = p) rs))"
  by (induction rs arbitrary: seen) (auto simp: to_draft_file_def)

lemma latest_loop_unseen: "p \<in> set seen \<Longrightarrow> p \<notin> df_path ` set (latest_loop d seen rs)"
  by (induction rs arbitrary: seen) (auto simp: to_draft_file_def)

lemma latest_loop_distinct: "distinct (map df_path (latest_loop d seen rs))"
  by (induction rs arbitrary: seen) (simp_all add: to_draft_file_def latest_loop_unseen)

lemma find_sorted_min:
  assumes "sorted (map f xs)" and "find p xs = Some x" and "y \<in> set xs" and "p y"
  shows "f x \<le> f y"
  using assms by (induction xs) (auto split: if_splits)

text \<open>
  Supersession is per path: the newest-drafts list has one entry per path, the single-path
  read agrees with it, and what it returns is a sealed revision of the run that no sealed revision
  of that path supersedes in the order by version (unversioned rows last) and then generation.
\<close>

theorem get_latest_newest_per_path:
  "distinct (map df_path (get_latest run d))
   \<and> get_path_latest run path d = find (\<lambda>f. df_path f = path) (get_latest run d)
   \<and> (case get_path_latest run path d of
        None \<Rightarrow> filter (\<lambda>r. rv_run_id r = run \<and> rv_path r = path \<and> rv_sealed r) (db_revisions d) = []
      | Some f \<Rightarrow> \<exists>r \<in> set (db_revisions d). f = to_draft_file d r \<and> rv_run_id r = run
          \<and> rv_path r = path \<and> rv_sealed r
          \<and> list_all (\<lambda>q. newest_key r \<le> newest_key q)
              (filter (\<lambda>q. rv_run_id q = run \<and> rv_path q = path \<and> rv_sealed q) (db_revisions d)))"
proof (intro conjI)
  show "distinct (map df_path (get_latest run d))"
    unfolding get_latest_def by (rule latest_loop_distinct)
  show "get_path_latest run path d = find (\<lambda>f. df_path f = path) (get_latest run d)"
    by (simp add: get_latest_def get_path_latest_def latest_loop_find)
  let ?p = "\<lambda>r. rv_sealed r \<and> rv_path r = path"
  have members: "set (newest_first run d) = {r \<in> set (db_revisions d). rv_run_id r = run}"
    by (simp add: newest_first_def)
  have "sorted (map newest_key (newest_first run d))" by (simp add: newest_first_def)
  then have min: "newest_key r \<le> newest_key q"
    if "find ?p (newest_first run d) = Some r" "q \<in> set (newest_first run d)" "?p q" for r q
    using that by (rule find_sorted_min)
  show "case get_path_latest run path d of
        None \<Rightarrow> filter (\<lambda>r. rv_run_id r = run \<and> rv_path r = path \<and> rv_sealed r) (db_revisions d) = []
      | Some f \<Rightarrow> \<exists>r \<in> set (db_revisions d). f = to_draft_file d r \<and> rv_run_id r = run
          \<and> rv_path r = path \<and> rv_sealed r
          \<and> list_all (\<lambda>q. newest_key r \<le> newest_key q)
              (filter (\<lambda>q. rv_run_id q = run \<and> rv_path q = path \<and> rv_sealed q) (db_revisions d))"
  proof (cases "find ?p (newest_first run d)")
    case None
    then have "\<not> (\<exists>r \<in> set (newest_first run d). ?p r)" by (auto simp: find_None_iff)
    with None show ?thesis by (auto simp: get_path_latest_def filter_empty_conv members)
  next
    case (Some r)
    then have "r \<in> set (newest_first run d)" "?p r" by (auto dest: find_Some_in)
    with Some min [OF Some] show ?thesis
      unfolding get_path_latest_def members list_all_iff by auto
  qed
qed

section \<open>Instances\<close>

definition sample_digest :: "string \<Rightarrow> string" where
  "sample_digest s = show_nat (length s)"

definition sample_partial :: db where
  "sample_partial =
     (case append_all ''u1'' [''par''] (empty_db\<lparr>db_revisions :=
        [new_revision ''u1'' ''r'' ''o'' 1 ''a.md'' ''create'' (Some 1) 0]\<rparr>) of
        Inl _ \<Rightarrow> empty_db | Inr d \<Rightarrow> d)"

lemma sample_partial_inv: "drafts_inv sample_digest sample_partial"
proof (rule append_inv)
  let ?r = "new_revision ''u1'' ''r'' ''o'' 1 ''a.md'' ''create'' (Some 1) 0"
  have "drafts_inv sample_digest empty_db" by (simp add: drafts_inv_def empty_db_def versions_unique_def)
  moreover have "create_revision ''u1'' ''r'' ''o'' 1 ''a.md'' ''create'' (Some 1) 0 empty_db
      = Inr (?r, empty_db\<lparr>db_revisions := [?r]\<rparr>)" by code_simp
  ultimately show "drafts_inv sample_digest (empty_db\<lparr>db_revisions := [?r]\<rparr>)" by (rule create_revision_inv)
  show "append_chunk ''u1'' ''par'' (empty_db\<lparr>db_revisions := [?r]\<rparr>) = Inr (1, sample_partial)"
    by code_simp
qed

theorem write_session_roundtrip_witness:
  "\<exists>r d' f. write_session sample_digest ''u2'' ''r'' ''o'' 2 ''a.md'' ''create'' 1 5 [''ab'', ''c'']
       (snd (prepare_versioned_write ''r'' ''a.md'' 1 sample_partial)) = Inr (r, d')
     \<and> prepare_versioned_write ''r'' ''a.md'' 1 d' = (Some f, d') \<and> df_content f = ''abc''"
proof -
  note sample_partial_inv
  moreover have "''u2'' \<notin> rv_id ` set (db_revisions sample_partial)" by code_simp
  moreover have "fst (prepare_versioned_write ''r'' ''a.md'' 1 sample_partial) = None" by code_simp
  moreover have "strip (concat [''ab'', ''c'']) \<noteq> []" by code_simp
  ultimately show ?thesis using write_session_roundtrip [of sample_digest sample_partial "''u2''"
        "''r''" "''a.md''" 1 "[''ab'', ''c'']" "''o''" 2 "''create''" 5] by fastforce
qed

definition gc_sample :: db where
  "gc_sample =
     (let sealed = (\<lambda>i g path. (new_revision i ''r'' ''o'' g path ''create'' None 0)\<lparr>rv_sealed := True\<rparr>)
      in empty_db\<lparr>db_revisions := [sealed ''u1'' 1 ''a.md'', sealed ''u2'' 2 ''b.md'',
           sealed ''u3'' 3 ''b.md'', sealed ''u4'' 4 ''b.md'']\<rparr>)"

text \<open>
  Collecting old generations can lose a page: three newer generations of another page are
  enough for \<open>gc\<close> to delete the newest sealed revision of a page nobody rewrote, which
  \<open>get_latest\<close> returned until then although supersession is meant to be per path.
\<close>

theorem gc_drops_untouched_page:
  "map df_path (get_latest ''r'' gc_sample) = [''b.md'', ''a.md'']
   \<and> fst (gc ''r'' gc_sample) = None
   \<and> map df_path (get_latest ''r'' (snd (gc ''r'' gc_sample))) = [''b.md'']"
  by code_simp

end
