(* ===== verification/Draft_Calls.thy ===== *)
theory Draft_Calls
  imports Draft_Store
begin

text \<open>
  The draft store one statement at a time (\<^verbatim>\<open>src/draftly/persistence/repositories/drafts.py\<close>). The database client
  commits every statement on its own, so between two statements of one method the statements of others may
  run: an open call is the statement it waits to run, with the values it has read. \<open>opens\<close> is the first read of
  a method and \<open>statement\<close> each later one; \<open>perform_is_method\<close> shows that without interleaving they
  are the methods of \<open>Draft_Store\<close>. Any call may stop between two statements (a crash, a lost connection), and
  the other tables may change in between.

  The steps keep one discipline, which the writer's task lease provides and the store does not enforce: while a
  call writes a draft no other call on that draft is open. \<open>late_append_breaks_seal\<close> is what happens without it.
\<close>

section \<open>Statements\<close>

datatype draft_call =
    Create_revision string string string int string string "int option" int
  | Prepare_versioned_write string string int
  | Append_chunk string string
  | Finalize string int
  | Gc string

datatype draft_session =
    Inserting draft_revision
  | Clearing string
  | Numbering string string
  | Appending string int string
  | Assembling string int
  | Sealing string int string int
  | Stamping string int
  | Collecting "string list"
  | Removing "string list"

definition doomed :: "string \<Rightarrow> db \<Rightarrow> string list" where
  "doomed run_id d =
     (let revisions = list_revisions run_id None d in
      if revisions = [] then []
      else map rv_id (filter (\<lambda>r. rv_sealed r
             \<and> rv_generation r \<le> Max (set (map rv_generation revisions)) - KEEP_GENERATIONS) revisions))"

text \<open>The first read of a method, and the statement it goes on to, if it has one left that may change a row.\<close>

fun opens :: "draft_call \<Rightarrow> db \<Rightarrow> draft_session option" where
  "opens (Create_revision draft_id run_id org_id generation path action version now) d =
     (let fresh = Inserting (new_revision draft_id run_id org_id generation path action version now) in
      case version of
        None \<Rightarrow> Some fresh
      | Some v \<Rightarrow> (case get_versioned_revision run_id path v d of None \<Rightarrow> Some fresh | Some _ \<Rightarrow> None))"
| "opens (Prepare_versioned_write run_id path version) d =
     (case get_versioned_revision run_id path version d of
        None \<Rightarrow> None
      | Some r \<Rightarrow> if rv_sealed r then None else Some (Clearing (rv_id r)))"
| "opens (Append_chunk draft_id content) d =
     (case get_revision draft_id d of
        None \<Rightarrow> None
      | Some r \<Rightarrow> if rv_sealed r then None else Some (Numbering draft_id content))"
| "opens (Finalize draft_id now) d =
     (case get_revision draft_id d of
        None \<Rightarrow> None
      | Some r \<Rightarrow> if rv_sealed r then None else Some (Assembling draft_id now))"
| "opens (Gc run_id) d = (if doomed run_id d = [] then None else Some (Collecting (doomed run_id d)))"

text \<open>
  One statement with the constraints of its table: the primary keys, the partial unique index on
  \<^verbatim>\<open>(run_id, path, version)\<close>, the chunk's reference to its revision with its \<^verbatim>\<open>ON DELETE CASCADE\<close>, and the
  references of other tables. A refused statement changes nothing and ends the call.
\<close>

definition version_taken :: "draft_revision \<Rightarrow> db \<Rightarrow> bool" where
  "version_taken r d \<longleftrightarrow> rv_version r \<noteq> None \<and> version_key r \<in> version_key ` set (db_revisions d)"

fun statement :: "(string \<Rightarrow> string) \<Rightarrow> draft_session \<Rightarrow> db \<Rightarrow> draft_session option \<times> db" where
  "statement digest (Inserting r) d =
     (None, if rv_id r \<in> rv_id ` set (db_revisions d) \<or> version_taken r d then d
            else d\<lparr>db_revisions := db_revisions d @ [r]\<rparr>)"
| "statement digest (Clearing draft_id) d =
     (None, d\<lparr>db_chunks := filter (\<lambda>c. ck_draft_id c \<noteq> draft_id) (db_chunks d)\<rparr>)"
| "statement digest (Numbering draft_id content) d =
     (Some (Appending draft_id (next_chunk_index draft_id d) content), d)"
| "statement digest (Appending draft_id index content) d =
     (None, if draft_id \<in> rv_id ` set (db_revisions d)
               \<and> (draft_id, index) \<notin> (\<lambda>c. (ck_draft_id c, ck_index c)) ` set (db_chunks d)
            then d\<lparr>db_chunks := db_chunks d @ [\<lparr>ck_draft_id = draft_id, ck_index = index, ck_content = content\<rparr>]\<rparr>
            else d)"
| "statement digest (Assembling draft_id now) d =
     (let content = assembled draft_id d in
      (if strip content = [] then None
       else Some (Sealing draft_id (int (length content)) (digest content) now), d))"
| "statement digest (Sealing draft_id content_size content_hash now) d =
     (Some (Stamping draft_id now),
      d\<lparr>db_revisions := upd_where (\<lambda>x. rv_id x = draft_id)
          (\<lambda>x. x\<lparr>rv_sealed := True, rv_content_size := content_size, rv_content_hash := Some content_hash\<rparr>) (db_revisions d)\<rparr>)"
| "statement digest (Stamping draft_id now) d =
     (None, d\<lparr>db_revisions := upd_where (\<lambda>x. rv_id x = draft_id \<and> rv_sealed x)
          (\<lambda>x. x\<lparr>rv_sealed_at := Some now\<rparr>) (db_revisions d)\<rparr>)"
| "statement digest (Collecting ids) d =
     (Some (Removing ids), d\<lparr>db_chunks := filter (\<lambda>c. ck_draft_id c \<notin> set ids) (db_chunks d)\<rparr>)"
| "statement digest (Removing ids) d =
     (None, if list_ex (referenced d) ids then d
            else d\<lparr>db_revisions := filter (\<lambda>r. rv_id r \<notin> set ids) (db_revisions d),
                   db_chunks := filter (\<lambda>c. ck_draft_id c \<notin> set ids) (db_chunks d)\<rparr>)"

section \<open>A call alone is the method\<close>

fun remaining :: "(string \<Rightarrow> string) \<Rightarrow> nat \<Rightarrow> draft_session option \<Rightarrow> db \<Rightarrow> db" where
  "remaining digest n None d = d"
| "remaining digest 0 (Some u) d = d"
| "remaining digest (Suc n) (Some u) d = (let (u', d') = statement digest u d in remaining digest n u' d')"

definition perform :: "(string \<Rightarrow> string) \<Rightarrow> draft_call \<Rightarrow> db \<Rightarrow> db" where
  "perform digest c d = remaining digest 3 (opens c d) d"

definition db_after :: "db \<Rightarrow> ('a \<times> db) res \<Rightarrow> db" where
  "db_after d out = (case out of Inl _ \<Rightarrow> d | Inr (_, d') \<Rightarrow> d')"

fun whole_call :: "(string \<Rightarrow> string) \<Rightarrow> draft_call \<Rightarrow> db \<Rightarrow> db" where
  "whole_call digest (Create_revision i run org g path action version now) d =
     db_after d (create_revision i run org g path action version now d)"
| "whole_call digest (Prepare_versioned_write run path version) d = snd (prepare_versioned_write run path version d)"
| "whole_call digest (Append_chunk i content) d = db_after d (append_chunk i content d)"
| "whole_call digest (Finalize i now) d = db_after d (finalize digest i now d)"
| "whole_call digest (Gc run) d = snd (gc run d)"

lemma new_revision_free:
  "get_versioned_revision run path v d = None \<Longrightarrow>
     \<not> version_taken (new_revision i run org g path action (Some v) now) d"
  by (auto simp: version_taken_def get_versioned_revision_def find_None_iff version_key_def new_revision_def)

lemma insert_statement:
  "\<not> version_taken r d \<Longrightarrow> snd (statement digest (Inserting r) d) = db_after d (insert_revision r d)"
  by (simp add: insert_revision_def db_after_def)

lemma gc_doomed:
  "snd (gc run d) = (if doomed run d = [] then d
     else snd (statement digest (Removing (doomed run d)) (snd (statement digest (Collecting (doomed run d)) d))))"
proof -
  have ref: "referenced (d\<lparr>db_chunks := cs\<rparr>) = referenced d" for cs by (simp add: referenced_def fun_eq_iff)
  show ?thesis by (simp add: gc_def doomed_def Let_def ref)
qed

text \<open>
  Run to its end with nothing in between, a call leaves the database that its method leaves, errors included.
\<close>

theorem perform_is_method: "perform digest c d = whole_call digest c d"
proof (cases c)
  case (Create_revision i run org g path action version now)
  show ?thesis
  proof (cases version)
    case None
    then show ?thesis using Create_revision
      by (simp add: perform_def numeral_3_eq_3 create_revision_def insert_revision_def db_after_def
          version_taken_def new_revision_def Let_def)
  next
    case (Some v)
    show ?thesis
    proof (cases "get_versioned_revision run path v d")
      case None
      then show ?thesis
        using Create_revision Some insert_statement [OF new_revision_free [OF None], of digest]
        by (simp add: perform_def numeral_3_eq_3 create_revision_def)
    qed (use Create_revision Some in \<open>simp add: perform_def numeral_3_eq_3 create_revision_def db_after_def\<close>)
  qed
next
  case (Append_chunk i content)
  have "(i, next_chunk_index i d) \<notin> (\<lambda>c. (ck_draft_id c, ck_index c)) ` set (db_chunks d)"
    using next_chunk_index_above [of _ d i] by fastforce
  moreover have "i \<in> rv_id ` set (db_revisions d)" if "get_revision i d = Some r" for r
    using get_revision_in [OF that] by blast
  ultimately show ?thesis using Append_chunk
    by (simp add: perform_def numeral_3_eq_3 append_chunk_def db_after_def Let_def split: option.split)
next
  case (Gc run)
  then show ?thesis by (simp add: perform_def numeral_3_eq_3 gc_doomed [of run d digest] Let_def split: prod.split)
qed (simp_all add: perform_def numeral_3_eq_3 prepare_versioned_write_def finalize_def db_after_def Let_def
    split: option.split)

section \<open>Interleaved calls\<close>

record draft_calls =
  dc_db :: db
  dc_open :: "nat \<rightharpoonup> draft_session"

definition fresh_calls :: draft_calls where
  "fresh_calls = \<lparr>dc_db = empty_db, dc_open = (\<lambda>_. None)\<rparr>"

fun named :: "draft_session \<Rightarrow> string set" where
  "named (Inserting r) = {rv_id r}"
| "named (Clearing i) = {i}"
| "named (Numbering i content) = {i}"
| "named (Appending i index content) = {i}"
| "named (Assembling i now) = {i}"
| "named (Sealing i n hash now) = {i}"
| "named (Stamping i now) = {i}"
| "named (Collecting ids) = set ids"
| "named (Removing ids) = set ids"

fun writes :: "draft_session \<Rightarrow> string set" where
  "writes (Stamping i now) = {}"
| "writes (Collecting ids) = {}"
| "writes (Removing ids) = {}"
| "writes u = named u"

text \<open>No call may write a draft that the other one names.\<close>

definition apart :: "draft_session \<Rightarrow> draft_session \<Rightarrow> bool" where
  "apart u v \<longleftrightarrow> writes u \<inter> named v = {} \<and> named u \<inter> writes v = {}"

inductive call_step :: "(string \<Rightarrow> string) \<Rightarrow> draft_calls \<Rightarrow> draft_calls \<Rightarrow> bool" for digest where
  cs_open: "opens c (dc_db s) = Some u \<Longrightarrow> dc_open s h = None
      \<Longrightarrow> (\<And>h' v. dc_open s h' = Some v \<Longrightarrow> apart u v)
      \<Longrightarrow> call_step digest s (s\<lparr>dc_open := (dc_open s)(h \<mapsto> u)\<rparr>)"
| cs_statement: "dc_open s h = Some u \<Longrightarrow> statement digest u (dc_db s) = (u', d')
      \<Longrightarrow> call_step digest s \<lparr>dc_db = d', dc_open = (dc_open s)(h := u')\<rparr>"
| cs_crash: "call_step digest s (s\<lparr>dc_open := (dc_open s)(h := None)\<rparr>)"
| cs_other: "db_revisions d' = db_revisions (dc_db s) \<Longrightarrow> db_chunks d' = db_chunks (dc_db s)
      \<Longrightarrow> call_step digest s (s\<lparr>dc_db := d'\<rparr>)"

text \<open>A revision that \<open>gc\<close> may collect: its run has one at least \<open>KEEP_GENERATIONS\<close> generations newer.\<close>

definition superseded :: "db \<Rightarrow> draft_revision \<Rightarrow> bool" where
  "superseded d r \<longleftrightarrow>
     (\<exists>q \<in> set (db_revisions d). rv_run_id q = rv_run_id r \<and> rv_generation r + KEEP_GENERATIONS \<le> rv_generation q)"

definition still_open :: "db \<Rightarrow> string \<Rightarrow> bool" where
  "still_open d i \<longleftrightarrow> (\<forall>r \<in> set (db_revisions d). rv_id r = i \<longrightarrow> \<not> rv_sealed r)"

definition collectable :: "db \<Rightarrow> string list \<Rightarrow> bool" where
  "collectable d ids \<longleftrightarrow> (\<forall>r \<in> set (db_revisions d). rv_id r \<in> set ids \<longrightarrow> superseded d r)"

fun call_ok :: "(string \<Rightarrow> string) \<Rightarrow> db \<Rightarrow> draft_session \<Rightarrow> bool" where
  "call_ok digest d (Inserting r) = (\<not> rv_sealed r)"
| "call_ok digest d (Clearing i) = still_open d i"
| "call_ok digest d (Numbering i content) = still_open d i"
| "call_ok digest d (Appending i index content) = still_open d i"
| "call_ok digest d (Assembling i now) = still_open d i"
| "call_ok digest d (Sealing i n hash now) =
     (still_open d i \<and> hash = digest (assembled i d) \<and> n = int (length (assembled i d)) \<and> strip (assembled i d) \<noteq> [])"
| "call_ok digest d (Stamping i now) = True"
| "call_ok digest d (Collecting ids) = collectable d ids"
| "call_ok digest d (Removing ids) = collectable d ids"

definition rows_ok :: "(string \<Rightarrow> string) \<Rightarrow> db \<Rightarrow> bool" where
  "rows_ok digest d \<longleftrightarrow> distinct (map rv_id (db_revisions d))
     \<and> (\<forall>r \<in> set (db_revisions d). seal_ok digest d r \<or> superseded d r)"

definition calls_inv :: "(string \<Rightarrow> string) \<Rightarrow> draft_calls \<Rightarrow> bool" where
  "calls_inv digest s \<longleftrightarrow> rows_ok digest (dc_db s)
     \<and> (\<forall>h u. dc_open s h = Some u \<longrightarrow> call_ok digest (dc_db s) u)
     \<and> (\<forall>h u h' v. dc_open s h = Some u \<longrightarrow> dc_open s h' = Some v \<longrightarrow> h \<noteq> h' \<longrightarrow> apart u v)"

lemma apart_sym: "apart u v = apart v u"
  unfolding apart_def by blast

lemma writes_named: "writes u \<subseteq> named u"
  by (cases u) simp_all

lemma apart_continues:
  assumes "statement digest u d = (Some u', d')" and "apart u v" shows "apart u' v"
proof -
  have "writes u' \<subseteq> writes u \<and> named u' \<subseteq> named u" using assms(1) by (cases u) (auto simp: Let_def split: if_splits)
  with assms(2) show ?thesis unfolding apart_def by blast
qed

lemma rows_unique:
  "distinct (map rv_id (db_revisions d)) \<Longrightarrow> r \<in> set (db_revisions d) \<Longrightarrow> q \<in> set (db_revisions d)
     \<Longrightarrow> rv_id r = rv_id q \<Longrightarrow> r = q"
  by (auto simp: distinct_map dest: inj_onD)

text \<open>The revisions a collection picks are sealed and superseded by the newest generation of their run.\<close>

lemma doomed_superseded:
  assumes "r \<in> set (db_revisions d)" and "rv_id r \<in> set (doomed run d)"
    and dist: "distinct (map rv_id (db_revisions d))"
  shows "superseded d r"
proof -
  let ?l = "list_revisions run None d"
  have l: "set ?l = {q \<in> set (db_revisions d). rv_run_id q = run}" by (simp add: list_revisions_def)
  from assms(2) obtain q where q: "q \<in> set ?l" "rv_id q = rv_id r"
      "rv_generation q \<le> Max (set (map rv_generation ?l)) - KEEP_GENERATIONS"
    by (auto simp: doomed_def Let_def split: if_splits)
  then have "r = q" using l assms(1) by (intro rows_unique [OF dist]) auto
  have "Max (set (map rv_generation ?l)) \<in> set (map rv_generation ?l)"
    using q(1) by (intro Max_in) auto
  then obtain m where "m \<in> set ?l" "rv_generation m = Max (set (map rv_generation ?l))" by auto
  then show ?thesis using q l unfolding \<open>r = q\<close> superseded_def by (intro bexI [of _ m]) auto
qed

lemma opens_ok:
  assumes "opens c d = Some u" and "rows_ok digest d" shows "call_ok digest d u"
proof -
  have dist: "distinct (map rv_id (db_revisions d))" using assms(2) by (simp add: rows_ok_def)
  have one: "still_open d (rv_id r)" if "r \<in> set (db_revisions d)" "\<not> rv_sealed r" for r
    unfolding still_open_def using that rows_unique [OF dist that(1)] by metis
  have two: "still_open d i" if "get_revision i d = Some r" "\<not> rv_sealed r" for i r
    using one [of r] get_revision_in [OF that(1)] that(2) by simp
  show ?thesis
  proof (cases c)
    case (Prepare_versioned_write run path v)
    with assms(1) show ?thesis
      by (auto simp: get_versioned_revision_def split: option.splits if_splits dest!: find_Some_in intro: one)
  next
    case (Gc run)
    with assms(1) show ?thesis by (auto simp: collectable_def split: if_splits intro: doomed_superseded [OF _ _ dist])
  qed (use assms(1) two in \<open>auto simp: Let_def new_revision_def split: option.splits if_splits\<close>)
qed

section \<open>What one statement changes\<close>

text \<open>A statement leaves the rows and the bytes of every draft it does not name.\<close>

lemma chunks_filter_other:
  assumes "\<And>c. ck_draft_id c = j \<Longrightarrow> p c"
  shows "assembled j (d\<lparr>db_chunks := filter p (db_chunks d)\<rparr>) = assembled j d"
proof -
  have "filter (\<lambda>c. p c \<and> ck_draft_id c = j) (db_chunks d) = filter (\<lambda>c. ck_draft_id c = j) (db_chunks d)"
    using assms by (intro filter_cong) auto
  then show ?thesis by (simp add: assembled_def chunks_def)
qed

lemma statement_bytes:
  assumes "j \<notin> named u"
  shows "assembled j (snd (statement digest u d)) = assembled j d"
proof -
  have rev: "assembled j (d\<lparr>db_revisions := t\<rparr>) = assembled j d" for t d by (rule assembled_cong) simp
  show ?thesis
  proof (cases u)
    case (Clearing i)
    then show ?thesis using assms by (auto intro: chunks_filter_other)
  next
    case (Collecting ids)
    then show ?thesis using assms by (auto intro: chunks_filter_other)
  next
    case (Removing ids)
    have "assembled j (d\<lparr>db_chunks := filter (\<lambda>c. ck_draft_id c \<notin> set ids) (db_chunks d)\<rparr>) = assembled j d"
      by (rule chunks_filter_other) (use Removing assms in auto)
    then show ?thesis using Removing by (simp add: assembled_def chunks_def)
  qed (use assms in \<open>auto simp: rev Let_def assembled_def chunks_def\<close>)
qed

lemma statement_rows:
  assumes "rv_id r \<notin> named u"
  shows "r \<in> set (db_revisions (snd (statement digest u d))) \<longleftrightarrow> r \<in> set (db_revisions d)"
  using assms by (cases u) (auto simp: set_upd_where Let_def)

lemma statement_ids:
  "distinct (map rv_id (db_revisions d)) \<Longrightarrow> distinct (map rv_id (db_revisions (snd (statement digest u d))))"
  by (cases u) (auto simp: map_key_upd_where Let_def distinct_map_filter)

lemma upd_where_keeps:
  assumes "q \<in> set t" and "\<And>x. k (f x) = k x" shows "\<exists>q' \<in> set (upd_where p f t). k q' = k q"
  using assms by (intro bexI [of _ "if p q then f q else q"]) (auto simp: upd_where_def)

text \<open>Except for an insertion, the rows after a statement are rows from before it, of the same run and generation.\<close>

lemma statement_superseded:
  assumes "superseded d r" and "call_ok digest d u" shows "superseded (snd (statement digest u d)) r"
proof (cases "\<exists>ids. u = Removing ids")
  case True
  then obtain ids where u: "u = Removing ids" by blast
  let ?S = "{q \<in> set (db_revisions d). rv_run_id q = rv_run_id r}"
  from assms(1) obtain q where q: "q \<in> ?S" "rv_generation r + KEEP_GENERATIONS \<le> rv_generation q"
    by (auto simp: superseded_def)
  define g where "g = Max (rv_generation ` ?S)"
  have "g \<in> rv_generation ` ?S" unfolding g_def using q(1) by (intro Max_in) auto
  then obtain m where m: "m \<in> ?S" "rv_generation m = g" by auto
  have max: "rv_generation p \<le> g" if "p \<in> ?S" for p unfolding g_def by (rule Max_ge) (use that in auto)
  have "\<not> superseded d m" using m max by (fastforce simp: superseded_def KEEP_GENERATIONS_def)
  then have "rv_id m \<notin> set ids" using assms(2) m(1) u by (auto simp: collectable_def)
  then have "m \<in> set (db_revisions (snd (statement digest u d)))" using u m(1) by simp
  moreover have "rv_generation r + KEEP_GENERATIONS \<le> rv_generation m" using max [OF q(1)] q(2) m(2) by simp
  ultimately show ?thesis using m(1) unfolding superseded_def by blast
next
  case False
  then have "\<exists>q' \<in> set (db_revisions (snd (statement digest u d))).
      (rv_run_id q', rv_generation q') = (rv_run_id q, rv_generation q)" if "q \<in> set (db_revisions d)" for q
    using that upd_where_keeps [OF that, of "\<lambda>x. (rv_run_id x, rv_generation x)"]
    by (cases u) (auto simp: Let_def)
  then show ?thesis using assms(1) unfolding superseded_def by (metis Pair_inject)
qed

lemma statement_still_open:
  "i \<notin> named u \<Longrightarrow> still_open (snd (statement digest u d)) i = still_open d i"
  using statement_rows by (fastforce simp: still_open_def)

lemma statement_old_row:
  assumes "writes u = {}" and "r \<in> set (db_revisions (snd (statement digest u d)))"
  obtains q where "q \<in> set (db_revisions d)" "rv_id q = rv_id r"
    "rv_run_id q = rv_run_id r" "rv_generation q = rv_generation r"
  using assms by (cases u) (auto simp: set_upd_where split: if_splits)

lemma superseded_cong:
  "rv_run_id q = rv_run_id r \<Longrightarrow> rv_generation q = rv_generation r \<Longrightarrow> superseded d q = superseded d r"
  by (simp add: superseded_def)

text \<open>What another open call relies on survives the statement of a call apart from it.\<close>

lemma statement_collectable:
  assumes "collectable d ids" and "call_ok digest d u" and "writes u \<inter> set ids = {}"
  shows "collectable (snd (statement digest u d)) ids"
  unfolding collectable_def
proof (intro ballI impI)
  fix r assume r: "r \<in> set (db_revisions (snd (statement digest u d)))" "rv_id r \<in> set ids"
  have "\<exists>q \<in> set (db_revisions d). rv_id q = rv_id r \<and> rv_run_id q = rv_run_id r \<and> rv_generation q = rv_generation r"
  proof (cases "writes u = {}")
    case True
    then show ?thesis using statement_old_row [OF _ r(1)] by metis
  next
    case False
    then have "rv_id r \<notin> named u" using assms(3) r(2) by (cases u) auto
    then show ?thesis using statement_rows r(1) by blast
  qed
  then obtain q where q: "q \<in> set (db_revisions d)" "rv_id q = rv_id r" "rv_run_id q = rv_run_id r"
    "rv_generation q = rv_generation r" by blast
  then have "superseded d q" using assms(1) r(2) by (simp add: collectable_def)
  then have "superseded d r" using superseded_cong [OF q(3,4)] by simp
  then show "superseded (snd (statement digest u d)) r" using assms(2) by (rule statement_superseded)
qed

lemma statement_other_call:
  assumes "call_ok digest d v" and "call_ok digest d u" and "apart u v"
  shows "call_ok digest (snd (statement digest u d)) v"
proof (cases "writes v = {}")
  case True
  then show ?thesis using assms statement_collectable [OF _ assms(2)] by (cases v) (auto simp: apart_def)
next
  case False
  then obtain i where i: "writes v = {i}" by (cases v) auto
  then have "i \<notin> named u" using assms(3) by (auto simp: apart_def)
  then show ?thesis
    using i assms(1) statement_still_open [of i u] statement_bytes [of i u] by (cases v) auto
qed

lemma statement_next_call:
  assumes "statement digest u d = (Some u', d')" and "call_ok digest d u" shows "call_ok digest d' u'"
  using assms by (cases u) (auto simp: Let_def collectable_def superseded_def still_open_def split: if_splits)

section \<open>The invariant and the guarantee\<close>

lemma statement_named_row:
  assumes "rows_ok digest d" and "call_ok digest d u"
    and "r \<in> set (db_revisions (snd (statement digest u d)))" and "rv_id r \<in> named u"
  shows "seal_ok digest (snd (statement digest u d)) r \<or> superseded (snd (statement digest u d)) r"
proof (cases u)
  case (Inserting q)
  show ?thesis
  proof (cases "snd (statement digest u d) = d")
    case True
    with assms(1,3) show ?thesis by (simp add: rows_ok_def)
  next
    case False
    then have "rv_id q \<notin> rv_id ` set (db_revisions d)" using Inserting by (auto split: if_splits)
    moreover have "rv_id r = rv_id q" using assms(4) Inserting by simp
    moreover have "r \<in> set (db_revisions d) \<or> r = q" using assms(3) Inserting by (auto split: if_splits)
    ultimately have "r = q" by (metis imageI)
    then show ?thesis using assms(2) Inserting by (simp add: seal_ok_def)
  qed
next
  case (Sealing i n hash now)
  have bytes: "assembled i (snd (statement digest u d)) = assembled i d" using Sealing by (simp add: assembled_def chunks_def)
  have "rv_id r = i" using assms(4) Sealing by simp
  with assms(3) Sealing obtain x where
    "r = x\<lparr>rv_sealed := True, rv_content_size := n, rv_content_hash := Some hash\<rparr>"
    by (auto simp: set_upd_where)
  then have "rv_content_size r = n" "rv_content_hash r = Some hash" by simp_all
  then have "seal_ok digest (snd (statement digest u d)) r"
    using \<open>rv_id r = i\<close> Sealing assms(2) bytes by (simp add: seal_ok_def)
  then show ?thesis ..
next
  case (Stamping i now)
  then obtain q where q: "q \<in> set (db_revisions d)" "q\<lparr>rv_sealed_at := None\<rparr> = r\<lparr>rv_sealed_at := None\<rparr>"
    using assms(3) by (auto simp: set_upd_where)
  have same: "rv_id q = rv_id r" "rv_sealed q = rv_sealed r" "rv_content_hash q = rv_content_hash r"
    "rv_content_size q = rv_content_size r" "rv_run_id q = rv_run_id r" "rv_generation q = rv_generation r"
    using arg_cong [OF q(2), of rv_id] arg_cong [OF q(2), of rv_sealed] arg_cong [OF q(2), of rv_content_hash]
      arg_cong [OF q(2), of rv_content_size] arg_cong [OF q(2), of rv_run_id] arg_cong [OF q(2), of rv_generation]
    by simp_all
  have "assembled j (snd (statement digest u d)) = assembled j d" for j
    using Stamping by (simp add: assembled_def chunks_def)
  then have "seal_ok digest (snd (statement digest u d)) r = seal_ok digest d q"
    using same by (simp add: seal_ok_def)
  moreover have "superseded d q = superseded d r" using same by (simp add: superseded_def)
  moreover have "seal_ok digest d q \<or> superseded d q" using q(1) assms(1) by (simp add: rows_ok_def)
  ultimately show ?thesis using statement_superseded [OF _ assms(2)] by blast
next
  case (Collecting ids)
  then have "superseded d r" using assms(2-4) by (simp add: collectable_def)
  then show ?thesis using statement_superseded [OF _ assms(2)] by blast
next
  case (Removing ids)
  then have "superseded d r" using assms(2-4) by (auto simp: collectable_def split: if_splits)
  then show ?thesis using statement_superseded [OF _ assms(2)] by blast
qed (use assms(2-4) in \<open>auto simp: seal_ok_def still_open_def Let_def split: if_splits\<close>)

lemma statement_rows_ok:
  assumes "rows_ok digest d" and "call_ok digest d u" shows "rows_ok digest (snd (statement digest u d))"
  unfolding rows_ok_def
proof (intro conjI ballI)
  show "distinct (map rv_id (db_revisions (snd (statement digest u d))))"
    using assms(1) by (intro statement_ids) (simp add: rows_ok_def)
  fix r assume r: "r \<in> set (db_revisions (snd (statement digest u d)))"
  show "seal_ok digest (snd (statement digest u d)) r \<or> superseded (snd (statement digest u d)) r"
  proof (cases "rv_id r \<in> named u")
    case True
    then show ?thesis by (rule statement_named_row [OF assms r])
  next
    case False
    then have "r \<in> set (db_revisions d)" using r statement_rows by blast
    then have "seal_ok digest d r \<or> superseded d r" using assms(1) by (simp add: rows_ok_def)
    then show ?thesis using seal_ok_cong [OF statement_bytes [OF False]] statement_superseded [OF _ assms(2)] by blast
  qed
qed

lemma call_ok_cong:
  "db_revisions d' = db_revisions d \<Longrightarrow> db_chunks d' = db_chunks d \<Longrightarrow> call_ok digest d' u = call_ok digest d u"
  using assembled_cong [of d' d] by (cases u) (simp_all add: still_open_def collectable_def superseded_def)

lemma rows_ok_cong:
  "db_revisions d' = db_revisions d \<Longrightarrow> db_chunks d' = db_chunks d \<Longrightarrow> rows_ok digest d' = rows_ok digest d"
  using assembled_cong [of d' d] by (simp add: rows_ok_def superseded_def seal_ok_def)

lemma call_step_inv:
  assumes inv: "calls_inv digest s" and "call_step digest s t" shows "calls_inv digest t"
  using assms(2)
proof cases
  case (cs_open c u h)
  have "call_ok digest (dc_db s) u" using opens_ok [OF cs_open(2)] inv by (simp add: calls_inv_def)
  then show ?thesis using inv cs_open(3,4) apart_sym unfolding cs_open(1) calls_inv_def by auto
next
  case (cs_statement h u u' d')
  have rows: "rows_ok digest (dc_db s)" and u: "call_ok digest (dc_db s) u"
    using inv cs_statement(2) by (auto simp: calls_inv_def)
  have d': "d' = snd (statement digest u (dc_db s))" using cs_statement(3) by simp
  have others: "call_ok digest d' v" if "dc_open s h' = Some v" "h' \<noteq> h" for h' v
    unfolding d' using that inv cs_statement(2) u by (intro statement_other_call) (auto simp: calls_inv_def)
  have nxt: "call_ok digest d' w" "apart w v" if "u' = Some w" "dc_open s h' = Some v" "h' \<noteq> h" for w v h'
    using statement_next_call [OF _ u] apart_continues [of digest u "dc_db s" w d' v] cs_statement(2,3) that inv
    by (auto simp: calls_inv_def)
  have self: "call_ok digest d' w" if "u' = Some w" for w
    using statement_next_call [OF _ u] cs_statement(3) that by auto
  have "rows_ok digest d'" unfolding d' by (rule statement_rows_ok [OF rows u])
  moreover have "call_ok digest d' w" if "((dc_open s)(h := u')) h' = Some w" for h' w
    using that others self by (cases "h' = h") auto
  moreover have "apart v w" if "((dc_open s)(h := u')) h1 = Some v" "((dc_open s)(h := u')) h2 = Some w" "h1 \<noteq> h2"
    for h1 h2 v w
  proof -
    consider "h1 = h" | "h2 = h" | "h1 \<noteq> h" "h2 \<noteq> h" by blast
    then show ?thesis
    proof cases
      case 1
      then show ?thesis using that nxt(2) [of v h2 w] by simp
    next
      case 2
      then show ?thesis using that nxt(2) [of w h1 v] apart_sym by simp
    next
      case 3
      then show ?thesis using that inv by (auto simp: calls_inv_def)
    qed
  qed
  ultimately show ?thesis unfolding cs_statement(1) calls_inv_def by simp
next
  case (cs_crash h)
  then show ?thesis using inv by (auto simp: calls_inv_def)
next
  case (cs_other d')
  then show ?thesis using inv call_ok_cong [OF cs_other(2,3)] rows_ok_cong [OF cs_other(2,3)] by (simp add: calls_inv_def)
qed

interpretation draft_calls: invariant_system "\<lambda>s. s = fresh_calls" "call_step digest" "calls_inv digest" for digest
proof unfold_locales
  show "s = fresh_calls \<Longrightarrow> calls_inv digest s" for s
    by (simp add: calls_inv_def fresh_calls_def rows_ok_def empty_db_def)
qed (rule call_step_inv)

text \<open>The row of a draft but for the time of its seal, which is a statement of its own, with its bytes.\<close>

definition artifact_of :: "db \<Rightarrow> draft_revision \<Rightarrow> draft_revision \<times> string" where
  "artifact_of d r = (r\<lparr>rv_sealed_at := None\<rparr>, assembled (rv_id r) d)"

definition artifact_rows :: "db \<Rightarrow> (draft_revision \<times> string) set" where
  "artifact_rows d = artifact_of d ` set (db_revisions d)"

lemma superseded_artifact:
  "rv_run_id (fst a) = rv_run_id r \<Longrightarrow> rv_generation (fst a) = rv_generation r \<Longrightarrow>
     superseded d (fst a) = superseded d r"
  by (simp add: superseded_def)

lemma statement_artifact:
  assumes "rows_ok digest d" and "call_ok digest d u" and r: "r \<in> set (db_revisions d)" "rv_sealed r"
  shows "artifact_of d r \<in> artifact_rows (snd (statement digest u d)) \<or> superseded (snd (statement digest u d)) r"
proof (cases "rv_id r \<in> named u")
  case False
  then have "artifact_of d r = artifact_of (snd (statement digest u d)) r"
    using statement_bytes [OF False] by (simp add: artifact_of_def)
  then show ?thesis using statement_rows [OF False] r(1) by (auto simp: artifact_rows_def)
next
  case True
  show ?thesis
  proof (cases "\<exists>i now. u = Stamping i now")
    case True
    then obtain now where u: "u = Stamping (rv_id r) now" using \<open>rv_id r \<in> named u\<close> by auto
    let ?q = "r\<lparr>rv_sealed_at := Some now\<rparr>"
    have "?q \<in> set (db_revisions (snd (statement digest u d)))" using u r by (auto simp: set_upd_where)
    moreover have "artifact_of d r = artifact_of (snd (statement digest u d)) ?q"
      using u by (simp add: artifact_of_def assembled_def chunks_def)
    ultimately show ?thesis by (simp add: artifact_rows_def)
  next
    case False
    show ?thesis
    proof (cases "\<exists>q. u = Inserting q")
      case True
      then obtain q where u: "u = Inserting q" by blast
      then have "rv_id q = rv_id r" using \<open>rv_id r \<in> named u\<close> by simp
      then have "rv_id q \<in> rv_id ` set (db_revisions d)" using imageI [OF r(1), of rv_id] by simp
      then have "snd (statement digest u d) = d" using u by simp
      then show ?thesis using r(1) by (simp add: artifact_rows_def)
    next
      case no: False
      have "superseded d r" using no False \<open>rv_id r \<in> named u\<close> r assms(2)
        by (cases u) (auto simp: still_open_def collectable_def)
      then show ?thesis using statement_superseded [OF _ assms(2)] by blast
    qed
  qed
qed

lemma artifact_row:
  assumes "a \<in> artifact_rows d"
  obtains q where "q \<in> set (db_revisions d)" "a = artifact_of d q" "rv_sealed q = rv_sealed (fst a)"
    "superseded d' q = superseded d' (fst a)"
  using assms by (auto simp: artifact_rows_def artifact_of_def superseded_def)

lemma call_step_superseded:
  assumes inv: "calls_inv digest s" and "call_step digest s t" and "superseded (dc_db s) r"
  shows "superseded (dc_db t) r"
  using assms(2)
proof cases
  case (cs_statement h u u' d')
  have "call_ok digest (dc_db s) u" using inv cs_statement(2) by (auto simp: calls_inv_def)
  from statement_superseded [OF assms(3) this] show ?thesis using cs_statement by simp
qed (use assms(3) in \<open>simp_all add: superseded_def\<close>)

lemma call_step_artifact:
  assumes inv: "calls_inv digest s" and "call_step digest s t"
    and a: "a \<in> artifact_rows (dc_db s) \<or> superseded (dc_db s) (fst a)" "rv_sealed (fst a)"
  shows "a \<in> artifact_rows (dc_db t) \<or> superseded (dc_db t) (fst a)"
  using assms(2)
proof cases
  case (cs_statement h u u' d')
  have d': "dc_db t = snd (statement digest u (dc_db s))" using cs_statement by simp
  have ok: "rows_ok digest (dc_db s)" "call_ok digest (dc_db s) u"
    using inv cs_statement(2) by (auto simp: calls_inv_def)
  show ?thesis
  proof (cases "superseded (dc_db s) (fst a)")
    case True
    then show ?thesis using call_step_superseded [OF inv assms(2)] by blast
  next
    case False
    then obtain q where q: "q \<in> set (db_revisions (dc_db s))" "a = artifact_of (dc_db s) q"
        "rv_sealed q = rv_sealed (fst a)" "superseded (dc_db t) q = superseded (dc_db t) (fst a)"
      using a(1) artifact_row by blast
    then show ?thesis using statement_artifact [OF ok q(1)] a(2) unfolding d' by simp
  qed
next
  case (cs_other d')
  then have "artifact_rows d' = artifact_rows (dc_db s)" "superseded d' = superseded (dc_db s)"
    using assembled_cong [of d' "dc_db s"] by (simp_all add: artifact_rows_def artifact_of_def superseded_def fun_eq_iff)
  then show ?thesis using a cs_other by simp
qed (use a in simp_all)

text \<open>
  C11. Sealed drafts do not change and describe themselves: in every state that interleaved calls of the draft
  repository reach, one statement at a time, with crashes between statements, collections by \<open>gc\<close> and, while
  a call writes a draft, no other call on that draft, a sealed revision records the length and the digest of
  its non-blank body, and in every later state its row (but for the time of the seal, which is written after
  it) and its body are the same; the only exception is a revision whose run has by then one at least three
  generations newer, which \<open>gc\<close> may have deleted.
\<close>

theorem sealed_drafts_immutable:
  assumes "(call_step digest)\<^sup>*\<^sup>* fresh_calls s" and "(call_step digest)\<^sup>*\<^sup>* s t"
    and "r \<in> set (db_revisions (dc_db s))" and "rv_sealed r"
  shows "superseded (dc_db t) r
    \<or> rv_content_hash r = Some (digest (assembled (rv_id r) (dc_db s)))
      \<and> rv_content_size r = int (length (assembled (rv_id r) (dc_db s)))
      \<and> strip (assembled (rv_id r) (dc_db s)) \<noteq> []
      \<and> (\<exists>r' \<in> set (db_revisions (dc_db t)). r'\<lparr>rv_sealed_at := None\<rparr> = r\<lparr>rv_sealed_at := None\<rparr>
          \<and> assembled (rv_id r') (dc_db t) = assembled (rv_id r) (dc_db s))"
proof -
  have inv: "calls_inv digest s" by (rule draft_calls.inv_reachable [OF refl assms(1)])
  let ?a = "artifact_of (dc_db s) r"
  have a: "rv_sealed (fst ?a)" "?a \<in> artifact_rows (dc_db s)" "superseded d (fst ?a) = superseded d r" for d
    using assms(3,4) by (simp_all add: artifact_of_def artifact_rows_def superseded_def)
  have later: "?a \<in> artifact_rows (dc_db y) \<or> superseded (dc_db y) (fst ?a)" if "(call_step digest)\<^sup>*\<^sup>* s y" for y
    using that
  proof (induction rule: rtranclp_induct)
    case (step y z)
    then show ?case using call_step_artifact [OF draft_calls.inv_steps [OF step(1) inv] step(2)] a(1) by blast
  qed (use a in simp)
  have start: "seal_ok digest (dc_db s) r \<or> superseded (dc_db s) r"
    using inv assms(3) by (simp add: calls_inv_def rows_ok_def)
  have "superseded (dc_db y) r" if "superseded (dc_db s) r" "(call_step digest)\<^sup>*\<^sup>* s y" for y
    using that(2)
  proof (induction rule: rtranclp_induct)
    case (step y z)
    have "calls_inv digest y" by (rule draft_calls.inv_steps [OF step(1) inv])
    from call_step_superseded [OF this step(2,3)] show ?case .
  qed (rule that(1))
  with start later [OF assms(2)] a(3) show ?thesis using assms(2,4)
    by (auto simp: artifact_rows_def artifact_of_def seal_ok_def)
qed

section \<open>Without the discipline\<close>

lemma assembled_snoc:
  "assembled i (d\<lparr>db_chunks := db_chunks d @ [\<lparr>ck_draft_id = i, ck_index = next_chunk_index i d, ck_content = content\<rparr>]\<rparr>)
     = assembled i d @ content"
proof -
  let ?c = "\<lparr>ck_draft_id = i, ck_index = next_chunk_index i d, ck_content = content\<rparr>"
  have "sort_key ck_index (filter (\<lambda>c. ck_draft_id c = i) (db_chunks d) @ [?c])
      = sort_key ck_index (filter (\<lambda>c. ck_draft_id c = i) (db_chunks d)) @ [?c]"
    by (rule sort_key_snoc) (simp add: next_chunk_index_above)
  then show ?thesis by (simp add: assembled_def chunks_def)
qed

text \<open>
  An append that read its revision before another call sealed it goes on to add its chunk: the sealed
  body has bytes that its recorded digest and length do not cover.
\<close>

theorem late_append_breaks_seal:
  fixes digest :: "string \<Rightarrow> string" and now :: int and content :: string
  assumes "get_revision i d = Some r" and "\<not> rv_sealed r" and "strip (assembled i d) \<noteq> []"
  defines "d1 \<equiv> perform digest (Finalize i now) d"
  defines "d2 \<equiv> remaining digest 2 (opens (Append_chunk i content) d) d1"
  shows "\<exists>q. get_revision i d2 = Some q \<and> rv_sealed q \<and> rv_content_hash q = Some (digest (assembled i d))
    \<and> rv_content_size q = int (length (assembled i d)) \<and> assembled i d2 = assembled i d @ content"
proof -
  obtain x where fin: "finalize digest i now d = Inr (x, d1)"
    using assms(1-3) unfolding d1_def perform_is_method by (auto simp: finalize_def db_after_def Let_def)
  then have d1: "d1 = d\<lparr>db_revisions := upd_where (\<lambda>x. rv_id x = i) (sealed_row digest d now) (db_revisions d)\<rparr>"
    by (rule finalize_Inr)
  have find_upd: "find (\<lambda>r. rv_id r = i) (upd_where (\<lambda>x. rv_id x = i) (sealed_row digest d now) t)
      = map_option (sealed_row digest d now) (find (\<lambda>r. rv_id r = i) t)" for t
    by (induction t) (auto simp: upd_where_def)
  have rid: "rv_id r = i" using get_revision_in [OF assms(1)] by simp
  have g1: "get_revision i d1 = Some (sealed_row digest d now r)"
    using assms(1) by (simp add: get_revision_def d1 find_upd)
  have "i \<in> rv_id ` set (db_revisions d1)" using get_revision_in [OF g1] by (metis imageI)
  moreover have "(i, next_chunk_index i d1) \<notin> (\<lambda>c. (ck_draft_id c, ck_index c)) ` set (db_chunks d1)"
    using next_chunk_index_above [of _ d1 i] by fastforce
  ultimately have d2: "d2 = d1\<lparr>db_chunks := db_chunks d1 @
      [\<lparr>ck_draft_id = i, ck_index = next_chunk_index i d1, ck_content = content\<rparr>]\<rparr>"
    using assms(1,2) by (simp add: d2_def numeral_2_eq_2)
  have "assembled i d1 = assembled i d" by (rule assembled_cong) (simp add: d1)
  then have "assembled i d2 = assembled i d @ content" unfolding d2 assembled_snoc by simp
  moreover have "get_revision i d2 = Some (sealed_row digest d now r)"
    using g1 by (simp add: d2 get_revision_def)
  ultimately show ?thesis using rid by (simp add: sealed_row_def)
qed

section \<open>Instances\<close>

lemma remaining_steps:
  "dc_open s h = Some u \<Longrightarrow> (call_step digest)\<^sup>*\<^sup>* s
     \<lparr>dc_db = remaining digest n (Some u) (dc_db s), dc_open = (dc_open s)(h := None)\<rparr>"
proof (induction n arbitrary: s u)
  case 0
  have "call_step digest s (s\<lparr>dc_open := (dc_open s)(h := None)\<rparr>)" by (rule cs_crash)
  then have "call_step digest s \<lparr>dc_db = dc_db s, dc_open = (dc_open s)(h := None)\<rparr>" by (cases s) simp
  then show ?case unfolding remaining.simps by (rule r_into_rtranclp)
next
  case (Suc n)
  obtain u' d' where st: "statement digest u (dc_db s) = (u', d')" by force
  let ?t = "\<lparr>dc_db = d', dc_open = (dc_open s)(h := u')\<rparr>"
  have one: "call_step digest s ?t" by (rule cs_statement [OF Suc.prems st])
  show ?case
  proof (cases u')
    case None
    have "remaining digest (Suc n) (Some u) (dc_db s) = d'" using st None by simp
    then show ?thesis using one unfolding None by (simp only: r_into_rtranclp)
  next
    case (Some v)
    have "(dc_open ?t)(h := None) = (dc_open s)(h := None)" by simp
    then have "(call_step digest)\<^sup>*\<^sup>* ?t \<lparr>dc_db = remaining digest n (Some v) d', dc_open = (dc_open s)(h := None)\<rparr>"
      using Suc.IH [of ?t v] Some by (simp only: draft_calls.simps fun_upd_same)
    moreover have "remaining digest (Suc n) (Some u) (dc_db s) = remaining digest n (Some v) d'" using st Some by simp
    ultimately show ?thesis using one by (simp only: converse_rtranclp_into_rtranclp)
  qed
qed

text \<open>Running whole methods one after the other is one way for the calls to interleave.\<close>

lemma perform_steps:
  "(call_step digest)\<^sup>*\<^sup>* \<lparr>dc_db = d, dc_open = (\<lambda>_. None)\<rparr> \<lparr>dc_db = fold (whole_call digest) cs d, dc_open = (\<lambda>_. None)\<rparr>"
proof (induction cs arbitrary: d)
  case (Cons c cs)
  let ?s = "\<lparr>dc_db = d, dc_open = (\<lambda>_. None)\<rparr> :: draft_calls"
  have "(call_step digest)\<^sup>*\<^sup>* ?s \<lparr>dc_db = whole_call digest c d, dc_open = (\<lambda>_. None)\<rparr>"
  proof (cases "opens c d")
    case None
    then have "whole_call digest c d = d" unfolding perform_is_method [symmetric] by (simp add: perform_def)
    then show ?thesis by simp
  next
    case (Some u)
    let ?t = "\<lparr>dc_db = d, dc_open = (\<lambda>_. None)(0 \<mapsto> u)\<rparr> :: draft_calls"
    have "call_step digest ?s ?t" using cs_open [of c ?s u 0 digest] Some by simp
    moreover have "(\<lambda>_. None)(0 := None) = (\<lambda>_. None)" by auto
    then have "(call_step digest)\<^sup>*\<^sup>* ?t \<lparr>dc_db = remaining digest 3 (Some u) d, dc_open = (\<lambda>_. None)\<rparr>"
      using remaining_steps [of ?t 0 u digest 3] by simp
    ultimately show ?thesis unfolding perform_is_method [symmetric] perform_def Some
      by (rule converse_rtranclp_into_rtranclp)
  qed
  with Cons.IH [of "whole_call digest c d"] show ?case by (simp add: rtranclp_trans)
qed simp

definition sample_calls :: "draft_call list" where
  "sample_calls = [Create_revision ''u1'' ''r'' ''o'' 1 ''a.md'' ''create'' (Some 1) 0, Append_chunk ''u1'' ''par'',
     Finalize ''u1'' 3]"

definition later_calls :: "draft_call list" where
  "later_calls = [Append_chunk ''u1'' ''more'', Finalize ''u1'' 4, Prepare_versioned_write ''r'' ''a.md'' 1,
     Create_revision ''u2'' ''r'' ''o'' 3 ''a.md'' ''create'' (Some 2) 5, Gc ''r'']"

theorem sealed_drafts_immutable_witness:
  "\<exists>r' \<in> set (db_revisions (fold (whole_call sample_digest) later_calls (fold (whole_call sample_digest) sample_calls empty_db))).
     rv_id r' = ''u1'' \<and> rv_content_hash r' = Some (sample_digest ''par'')
     \<and> assembled ''u1'' (fold (whole_call sample_digest) later_calls (fold (whole_call sample_digest) sample_calls empty_db)) = ''par''"
proof -
  let ?d = "fold (whole_call sample_digest) sample_calls empty_db"
  let ?s = "\<lparr>dc_db = ?d, dc_open = (\<lambda>_. None)\<rparr>"
  let ?t = "\<lparr>dc_db = fold (whole_call sample_digest) later_calls ?d, dc_open = (\<lambda>_. None)\<rparr> :: draft_calls"
  let ?r = "hd (db_revisions ?d)"
  have s: "(call_step sample_digest)\<^sup>*\<^sup>* fresh_calls ?s" unfolding fresh_calls_def by (rule perform_steps)
  have t: "(call_step sample_digest)\<^sup>*\<^sup>* ?s ?t" by (rule perform_steps)
  have "db_revisions ?d \<noteq> []" "rv_sealed ?r" "rv_id ?r = ''u1''" "assembled ''u1'' ?d = ''par''" by code_simp+
  moreover have "\<not> superseded (dc_db ?t) ?r" by code_simp
  ultimately obtain r' where r': "r' \<in> set (db_revisions (dc_db ?t))" "rv_content_hash ?r = Some (sample_digest ''par'')"
      "r'\<lparr>rv_sealed_at := None\<rparr> = ?r\<lparr>rv_sealed_at := None\<rparr>" "assembled (rv_id r') (dc_db ?t) = ''par''"
    using sealed_drafts_immutable [OF s t, of ?r] by fastforce
  have "rv_id r' = rv_id ?r" "rv_content_hash r' = rv_content_hash ?r"
    using arg_cong [OF r'(3), of rv_id] arg_cong [OF r'(3), of rv_content_hash] by simp_all
  with r' \<open>rv_id ?r = ''u1''\<close> show ?thesis by auto
qed

end
