(* ===== verification/Fuelled_Loops.thy ===== *)
theory Fuelled_Loops
  imports Main
begin

text \<open>
  Loops whose every round sees a new environment (the clock, the answers of a model, the
  rows other workers hold): a list of environments is the fuel, and running out of it is the
  value \<open>None\<close>. The contract \<open>fuelled_loop\<close> gives termination within a bound from a measure that every
  continuing round decreases.
\<close>

fun run_loop :: "('e \<Rightarrow> 's \<Rightarrow> 'r + 's) \<Rightarrow> 'e list \<Rightarrow> 's \<Rightarrow> 'r option" where
  "run_loop rnd [] s = None"
| "run_loop rnd (e # es) s = (case rnd e s of Inl r \<Rightarrow> Some r | Inr s' \<Rightarrow> run_loop rnd es s')"

lemma run_loop_last:
  "run_loop rnd es s = Some r \<Longrightarrow> \<exists>e s'. e \<in> set es \<and> rnd e s' = Inl r"
proof (induction es arbitrary: s)
  case (Cons e es)
  show ?case
  proof (cases "rnd e s")
    case (Inr s')
    with Cons.prems Cons.IH [of s'] show ?thesis by auto
  qed (use Cons.prems in auto)
qed simp

locale fuelled_loop =
  fixes rnd :: "'e \<Rightarrow> 's \<Rightarrow> 'r + 's"
    and good :: "'e \<Rightarrow> bool"
    and inv :: "'s \<Rightarrow> bool"
    and fuel :: "'s \<Rightarrow> nat"
  assumes round_inv: "inv s \<Longrightarrow> good e \<Longrightarrow> rnd e s = Inr s' \<Longrightarrow> inv s'"
    and round_decreases: "inv s \<Longrightarrow> good e \<Longrightarrow> rnd e s = Inr s' \<Longrightarrow> fuel s' < fuel s"
begin

lemma terminates:
  "inv s \<Longrightarrow> (\<And>e. e \<in> set es \<Longrightarrow> good e) \<Longrightarrow> fuel s < length es \<Longrightarrow> \<exists>r. run_loop rnd es s = Some r"
proof (induction es arbitrary: s)
  case Nil
  then show ?case by simp
next
  case (Cons e es)
  show ?case
  proof (cases "rnd e s")
    case (Inr s')
    have "good e" using Cons.prems(2) by simp
    then have "fuel s' < fuel s" "inv s'"
      using round_decreases [OF Cons.prems(1) _ Inr] round_inv [OF Cons.prems(1) _ Inr] by auto
    moreover from this have "fuel s' < length es" using Cons.prems(3) by simp
    ultimately show ?thesis using Inr Cons.IH [of s'] Cons.prems(2) by simp
  qed simp
qed

end

end
