(* ===== verification/Page_Executor.thy ===== *)
theory Page_Executor
  imports Page_Guarantees Fuelled_Loops
begin

text \<open>
  The durable executor (\<^verbatim>\<open>src/draftly/orchestration/page_workflow/executor.py\<close>): its loop claims
  ready tasks, runs their handlers, persists every outcome and stops on a failed task, a deadlock or
  a settled graph. One round's environment holds the clock, the rows other statements have locked
  and the effect of \<^verbatim>\<open>asyncio.gather\<close> on the claimed tasks: one outcome per task (an exception or the
  handler's output) and the database the handlers leave behind, whatever their interleaving.
  The semaphores only restrict that interleaving; the read cache is transparent to the handlers'
  results and is not modelled.
\<close>

section \<open>Definitions\<close>

type_synonym outcome = "exn + json"

record executor =
  ex_handlers :: "string list"
  ex_write_concurrency :: int
  ex_evaluation_concurrency :: int
  ex_lease_seconds :: int
  ex_lease_owner :: string

definition new_executor :: "string list \<Rightarrow> int \<Rightarrow> int \<Rightarrow> int \<Rightarrow> string \<Rightarrow> executor res" where
  "new_executor handlers write_concurrency evaluation_concurrency lease_seconds lease_owner =
     (if write_concurrency < 1 then Inl (ValueError ''write_concurrency must be >= 1'')
      else if evaluation_concurrency < 1
      then Inl (ValueError ''evaluation_concurrency must be >= 1'')
      else if handlers = [] then Inl (ValueError ''handlers must not be empty'')
      else Inr \<lparr>ex_handlers = handlers, ex_write_concurrency = write_concurrency,
                ex_evaluation_concurrency = evaluation_concurrency,
                ex_lease_seconds = lease_seconds, ex_lease_owner = lease_owner\<rparr>)"

record executor_result =
  xr_completed_task_ids :: "string set"
  xr_failed_task_ids :: "string set"
  xr_deadlocked_task_ids :: "string set"

datatype drive_outcome =
    Finished executor_result
  | Raised exn
  | DeadlockedWorkflowError "string list"

record round_env =
  re_now :: int
  re_locked :: "string list"
  re_gather :: "workflow_task list \<Rightarrow> db \<Rightarrow> outcome list \<times> db"

text \<open>\<^verbatim>\<open>str(outcome) or type(outcome).__name__\<close>.\<close>

definition error_text :: "exn \<Rightarrow> string" where
  "error_text e = (case e of Exn ty msg \<Rightarrow> if msg = [] then ty else msg)"

type_synonym settled = "string set \<times> string set \<times> db"

text \<open>Persisting the outcomes in claim order; an exception of the repository ends the run.\<close>

fun settle :: "string \<Rightarrow> string \<Rightarrow> int \<Rightarrow> (workflow_task \<times> outcome) list \<Rightarrow> settled
    \<Rightarrow> exn option \<times> settled" where
  "settle run_id owner now [] s = (None, s)"
| "settle run_id owner now ((t, Inl e) # rest) (completed, failed, d) =
     (case retry_or_fail_task run_id (wt_task_id t) owner (error_text e) now d of
        Inl x \<Rightarrow> (Some x, completed, failed, d)
      | Inr (status, d') \<Rightarrow>
          settle run_id owner now rest
            (completed,
             if status = Some TFailed then insert (wt_task_id t) failed else failed, d'))"
| "settle run_id owner now ((t, Inr out) # rest) (completed, failed, d) =
     (case complete_task run_id (wt_task_id t) owner (Some out) now d of
        Inl x \<Rightarrow> (Some x, completed, failed, d)
      | Inr (_, d') \<Rightarrow>
          settle run_id owner now rest (insert (wt_task_id t) completed, failed, d'))"

definition executor_result :: "string set \<Rightarrow> string set \<Rightarrow> executor_result" where
  "executor_result completed failed =
     \<lparr>xr_completed_task_ids = completed, xr_failed_task_ids = failed,
      xr_deadlocked_task_ids = {}\<rparr>"

definition CLAIM_LIMIT :: nat where
  "CLAIM_LIMIT = 10"

text \<open>One round of \<^verbatim>\<open>_drive\<close>: \<open>Inl\<close> returns or raises, \<open>Inr\<close> is \<^verbatim>\<open>continue\<close>.\<close>

definition drive_round ::
  "executor \<Rightarrow> string \<Rightarrow> round_env \<Rightarrow> settled \<Rightarrow> (drive_outcome \<times> db) + settled" where
  "drive_round ex run_id env s =
     (let (completed, failed, d) = s;
          d1 = snd (reset_expired_leases run_id (re_now env) d);
          (claimed, d2) = claim_ready_tasks run_id (ex_lease_owner ex) (ex_lease_seconds ex)
                            CLAIM_LIMIT (re_locked env) (re_now env) d1
      in case find (\<lambda>t. wt_task_type t \<notin> set (ex_handlers ex)) claimed of
           Some t \<Rightarrow> Inl (Raised (ValueError
             (''no handler registered for workflow task type '' @ py_repr (wt_task_type t))), d2)
         | None \<Rightarrow>
             if claimed \<noteq> []
             then
               let (outcomes, d3) = re_gather env claimed d2;
                   (exn, completed', failed', d4) =
                     settle run_id (ex_lease_owner ex) (re_now env) (zip claimed outcomes)
                       (completed, failed, d3)
               in case exn of
                    Some e \<Rightarrow> Inl (Raised e, d4)
                  | None \<Rightarrow>
                      if failed' \<noteq> {} then Inl (Finished (executor_result completed' failed'), d4)
                      else Inr (completed', failed', d4)
             else
               let snapshot = get_tasks run_id d2;
                   pending = filter (\<lambda>t. wt_status t = TPending) snapshot;
                   running = filter (\<lambda>t. wt_status t = TRunning) snapshot
               in if pending \<noteq> [] \<and> running = []
                  then Inl (DeadlockedWorkflowError (sort (map wt_task_id pending)), d2)
                  else if pending \<noteq> [] \<or> running \<noteq> [] then Inr (completed, failed, d2)
                  else Inl (Finished (executor_result completed failed), d2))"

definition drive :: "executor \<Rightarrow> string \<Rightarrow> round_env list \<Rightarrow> db \<Rightarrow> (drive_outcome \<times> db) option" where
  "drive ex run_id envs d = run_loop (drive_round ex run_id) envs ({}, {}, d)"

text \<open>
  \<^verbatim>\<open>_execute\<close>, and the interleaving in which \<^verbatim>\<open>gather\<close> runs the handlers one after the other.
\<close>

type_synonym handlers = "string \<Rightarrow> (workflow_task \<Rightarrow> db \<Rightarrow> outcome \<times> db) option"

definition execute :: "handlers \<Rightarrow> workflow_task \<Rightarrow> db \<Rightarrow> outcome \<times> db" where
  "execute handlers t d =
     (case handlers (wt_task_type t) of
        None \<Rightarrow> (Inl (KeyError (py_repr (wt_task_type t))), d)
      | Some h \<Rightarrow> h t d)"

fun gather_in_order :: "handlers \<Rightarrow> workflow_task list \<Rightarrow> db \<Rightarrow> outcome list \<times> db" where
  "gather_in_order handlers [] d = ([], d)"
| "gather_in_order handlers (t # ts) d =
     (let (out, d1) = execute handlers t d; (outs, d2) = gather_in_order handlers ts d1
      in (out # outs, d2))"

section \<open>Work left in a run\<close>

text \<open>
  An open task is worth the claims it can still consume: two while its infrastructure retry is
  unspent, one after.
\<close>

definition task_weight :: "string \<Rightarrow> workflow_task \<Rightarrow> nat" where
  "task_weight run_id t =
     (if wt_run_id t = run_id \<and> wt_status t \<in> {TPending, TRunning}
      then 2 - nat (wt_infrastructure_retries t) else 0)"

definition run_weight :: "string \<Rightarrow> db \<Rightarrow> nat" where
  "run_weight run_id d = sum_list (map (task_weight run_id) (db_tasks d))"

definition quiet :: "string \<Rightarrow> db \<Rightarrow> bool" where
  "quiet run_id d \<longleftrightarrow> list_all (\<lambda>t. wt_run_id t = run_id \<longrightarrow> wt_status t \<noteq> TRunning) (db_tasks d)"

definition held :: "string \<Rightarrow> string \<Rightarrow> db \<Rightarrow> workflow_task \<Rightarrow> bool" where
  "held run_id owner d t \<longleftrightarrow>
     t \<in> set (db_tasks d) \<and> wt_run_id t = run_id \<and> wt_status t = TRunning
     \<and> wt_lease_owner t = Some owner"

lemma sum_upd_row:
  fixes w :: "'a \<Rightarrow> nat"
  assumes "distinct ts" and "t \<in> set ts"
  shows "sum_list (map w (upd_where (\<lambda>u. u = t) f ts)) + w t = sum_list (map w ts) + w (f t)"
  using assms
proof (induction ts)
  case Nil
  then show ?case by simp
next
  case (Cons x xs)
  show ?case
  proof (cases "x = t")
    case True
    with Cons.prems have "upd_where (\<lambda>u. u = t) f xs = xs" by (intro upd_where_none) auto
    with True show ?thesis by (simp add: upd_where_def)
  next
    case False
    then have "t \<in> set xs" using Cons.prems(2) by auto
    with Cons.IH Cons.prems(1) False show ?thesis by (simp add: upd_where_def)
  qed
qed

lemma distinct_tasks: "repo_inv d \<Longrightarrow> distinct (db_tasks d)"
  using repo_inv_tasksD(1) by (auto simp: distinct_map)

text \<open>The lease holder's calls rewrite exactly the held row.\<close>

lemma held_row:
  assumes "repo_inv d" and "held run owner d t"
  shows "find (holds_lease run (wt_task_id t) owner) (db_tasks d) = Some t"
    and "upd_where (holds_lease run (wt_task_id t) owner) f (db_tasks d)
           = upd_where (\<lambda>u. u = t) f (db_tasks d)"
    and "filter (holds_lease run (wt_task_id t) owner) (db_tasks d) \<noteq> []"
proof -
  have hl: "holds_lease run (wt_task_id t) owner u \<longleftrightarrow> u = t" if "u \<in> set (db_tasks d)" for u
    using task_unique [OF assms(1) that, of t] assms(2) by (auto simp: holds_lease_def held_def)
  have t: "t \<in> set (db_tasks d)" using assms(2) by (simp add: held_def)
  show "find (holds_lease run (wt_task_id t) owner) (db_tasks d) = Some t"
    by (rule find_unique [OF hl t])
  show "upd_where (holds_lease run (wt_task_id t) owner) f (db_tasks d)
      = upd_where (\<lambda>u. u = t) f (db_tasks d)"
    by (rule upd_where_cong) (rule hl)
  show "filter (holds_lease run (wt_task_id t) owner) (db_tasks d) \<noteq> []"
    using hl t by (auto simp: filter_empty_conv)
qed

definition settle_row :: "string \<Rightarrow> int \<Rightarrow> outcome \<Rightarrow> workflow_task \<Rightarrow> workflow_task" where
  "settle_row owner now out t =
     (case out of
        Inl e \<Rightarrow> retry_task (error_text e) now t
      | Inr j \<Rightarrow> t\<lparr>wt_status := TCompleted, wt_output_data := Some j, wt_error := None,
                   wt_updated_at := now\<rparr>)"

lemma settle_held:
  assumes "repo_inv d" and "held run owner d t"
  obtains c' f' where "settle run owner now ((t, out) # zs) (c, f, d) =
     settle run owner now zs
       (c', f', d\<lparr>db_tasks := upd_where (\<lambda>u. u = t) (settle_row owner now out) (db_tasks d)\<rparr>)"
    and "repo_inv (d\<lparr>db_tasks := upd_where (\<lambda>u. u = t) (settle_row owner now out) (db_tasks d)\<rparr>)"
proof (cases out)
  case (Inl e)
  let ?d = "d\<lparr>db_tasks := upd_where (\<lambda>u. u = t) (retry_task (error_text e) now) (db_tasks d)\<rparr>"
  have r: "retry_or_fail_task run (wt_task_id t) owner (error_text e) now d
      = Inr (Some (wt_status (retry_task (error_text e) now t)), ?d)"
    by (simp add: retry_or_fail_task_def Let_def held_row [OF assms])
  have "settle_row owner now out = retry_task (error_text e) now"
    by (simp add: Inl settle_row_def fun_eq_iff)
  then show ?thesis using that inv_retry [OF r assms(1)] r Inl by simp
next
  case (Inr j)
  let ?g = "\<lambda>u. u\<lparr>wt_status := TCompleted, wt_output_data := Some j, wt_error := None,
                   wt_updated_at := now\<rparr>"
  have r: "complete_task run (wt_task_id t) owner (Some j) now d
      = Inr (True, d\<lparr>db_tasks := upd_where (\<lambda>u. u = t) ?g (db_tasks d)\<rparr>)"
    using held_row(3) [OF assms] by (simp add: complete_task_def Let_def held_row(2) [OF assms])
  have "settle_row owner now out = ?g" by (simp add: Inr settle_row_def fun_eq_iff)
  then show ?thesis using that inv_complete [OF r assms(1)] r Inr by simp
qed

lemma settle_row_weight:
  assumes "repo_inv d" and "held run owner d t"
  shows "task_weight run (settle_row owner now out t) < task_weight run t"
proof -
  have "wt_infrastructure_retries t \<in> {0, 1}"
    using repo_inv_tasksD(2) [OF assms(1), of t] assms(2) by (simp add: held_def lease_ok_def)
  with assms(2) show ?thesis
    by (auto simp: task_weight_def settle_row_def retry_task_def held_def split: sum.splits)
qed

lemma settle_all:
  assumes "repo_inv d" and "distinct (map (\<lambda>z. wt_task_id (fst z)) zs)"
    and "\<And>z. z \<in> set zs \<Longrightarrow> held run owner d (fst z)"
  shows "\<exists>c' f' d'. settle run owner now zs (c, f, d) = (None, c', f', d')
    \<and> repo_inv d' \<and> db_pages d' = db_pages d
    \<and> (\<forall>u \<in> set (db_tasks d'). wt_run_id u = run \<longrightarrow> wt_status u = TRunning \<longrightarrow>
         u \<in> set (db_tasks d) - fst ` set zs)
    \<and> run_weight run d' + length zs \<le> run_weight run d"
  using assms
proof (induction zs arbitrary: c f d)
  case Nil
  then show ?case by simp
next
  case (Cons z zs)
  obtain t out where z: "z = (t, out)" by (cases z)
  have h: "held run owner d t" using Cons.prems(3) [of z] z by simp
  let ?d = "d\<lparr>db_tasks := upd_where (\<lambda>u. u = t) (settle_row owner now out) (db_tasks d)\<rparr>"
  obtain c' f' where st: "settle run owner now (z # zs) (c, f, d) = settle run owner now zs (c', f', ?d)"
    and inv: "repo_inv ?d"
    using settle_held [OF Cons.prems(1) h, of now out zs c f] z by metis
  have held': "held run owner ?d (fst y)" if "y \<in> set zs" for y
  proof -
    have "fst y \<noteq> t" using Cons.prems(2) that by (force simp: z)
    moreover have "held run owner d (fst y)" using Cons.prems(3) that by simp
    ultimately show ?thesis by (force simp: held_def upd_where_def)
  qed
  have dist: "distinct (map (\<lambda>y. wt_task_id (fst y)) zs)" using Cons.prems(2) by simp
  obtain c2 f2 d2 where ih: "settle run owner now zs (c', f', ?d) = (None, c2, f2, d2)"
      "repo_inv d2" "db_pages d2 = db_pages d"
      "\<forall>u \<in> set (db_tasks d2). wt_run_id u = run \<longrightarrow> wt_status u = TRunning \<longrightarrow>
         u \<in> set (db_tasks ?d) - fst ` set zs"
      "run_weight run d2 + length zs \<le> run_weight run ?d"
    using Cons.IH [of ?d c' f', OF inv dist held'] by auto
  have t: "t \<in> set (db_tasks d)" using h by (simp add: held_def)
  have "run_weight run ?d + task_weight run t
      = run_weight run d + task_weight run (settle_row owner now out t)"
    unfolding run_weight_def using sum_upd_row [OF distinct_tasks [OF Cons.prems(1)] t] by simp
  then have "run_weight run d2 + length (z # zs) \<le> run_weight run d"
    using settle_row_weight [OF Cons.prems(1) h, of now out] ih(5) by simp
  moreover have "wt_status (settle_row owner now out t) \<noteq> TRunning"
    by (simp add: settle_row_def retry_task_def split: sum.splits)
  then have "\<forall>u \<in> set (db_tasks ?d). wt_status u = TRunning \<longrightarrow> u \<in> set (db_tasks d) - {t}"
    by (auto simp: upd_where_def)
  then have "\<forall>u \<in> set (db_tasks d2). wt_run_id u = run \<longrightarrow> wt_status u = TRunning \<longrightarrow>
         u \<in> set (db_tasks d) - fst ` set (z # zs)"
    using ih(4) z by fastforce
  ultimately show ?case using st ih(1-3) by simp
qed

section \<open>Termination\<close>

text \<open>
  What the handlers are trusted with: one outcome per task, the repository invariant kept, no
  existing task row touched, new tasks inserted as pending, and new work paid for by a credit
  that is a function of the page rows (the automatic attempts they have left, say).
\<close>

definition orderly :: "(page_state list \<Rightarrow> nat) \<Rightarrow> string \<Rightarrow> round_env \<Rightarrow> bool" where
  "orderly credit run_id env \<longleftrightarrow>
     (\<forall>claimed d outs d'. repo_inv d \<longrightarrow> re_gather env claimed d = (outs, d') \<longrightarrow>
        length outs = length claimed \<and> repo_inv d'
        \<and> set (db_tasks d) \<subseteq> set (db_tasks d')
        \<and> (\<forall>t \<in> set (db_tasks d') - set (db_tasks d). wt_status t = TPending)
        \<and> run_weight run_id d' + credit (db_pages d') \<le> run_weight run_id d + credit (db_pages d))"

definition drive_inv :: "string \<Rightarrow> settled \<Rightarrow> bool" where
  "drive_inv run_id s \<longleftrightarrow> (case s of (_, _, d) \<Rightarrow> repo_inv d \<and> quiet run_id d)"

definition drive_fuel :: "(page_state list \<Rightarrow> nat) \<Rightarrow> string \<Rightarrow> settled \<Rightarrow> nat" where
  "drive_fuel credit run_id s =
     (case s of (_, _, d) \<Rightarrow> run_weight run_id d + credit (db_pages d))"

lemma reset_quiet: "quiet run d \<Longrightarrow> snd (reset_expired_leases run now d) = d"
proof -
  assume "quiet run d"
  then have "upd_where (lease_expired run now) f (db_tasks d) = db_tasks d" for f
    by (intro upd_where_none) (auto simp: quiet_def list_all_iff lease_expired_def)
  then show ?thesis by (simp add: reset_expired_leases_def)
qed

lemma claim_pages: "claim_ready_tasks run owner secs limit locked now d = (claimed, d') \<Longrightarrow>
    db_pages d' = db_pages d"
  by (auto simp: claim_ready_tasks_def Let_def)

lemma task_weight_lease: "wt_status t = TPending \<Longrightarrow>
    task_weight run (lease_task owner secs now t) = task_weight run t"
  by (simp add: task_weight_def lease_task_def)

lemma claim_effects:
  assumes inv: "repo_inv d" and q: "quiet run d"
    and c: "claim_ready_tasks run owner secs limit locked now d = (claimed, d')"
  shows "repo_inv d'" and "distinct (map wt_task_id claimed)"
    and "\<And>u. u \<in> set claimed \<Longrightarrow> held run owner d' u"
    and "\<And>u. u \<in> set (db_tasks d') \<Longrightarrow> wt_run_id u = run \<Longrightarrow> wt_status u = TRunning \<Longrightarrow> u \<in> set claimed"
    and "run_weight run d' = run_weight run d"
proof -
  let ?p = "\<lambda>t. wt_run_id t = run \<and> wt_task_id t \<in> set (claim_selection run limit locked (db_tasks d))"
  note rows = claimed_rows [OF c]
  show "repo_inv d'" using inv_claim [OF inv] c by (metis snd_conv)
  have pend: "wt_status t = TPending" if "t \<in> set (db_tasks d)" "?p t" for t
    using claim_selection_claimable [OF repo_inv_tasksD(1) [OF inv] that(1)] that(2)
    by (auto simp: claimable_def)
  have "inj_on wt_task_id (set (filter ?p (db_tasks d)))"
    using task_unique [OF inv] by (auto intro!: inj_onI)
  then show "distinct (map wt_task_id claimed)"
    using distinct_tasks [OF inv] by (simp add: rows(1) distinct_map lease_task_def comp_def)
  show "held run owner d' u" if "u \<in> set claimed" for u
    using that unfolding rows(1) by (auto simp: held_def rows(2) set_upd_where lease_task_def)
  show "u \<in> set claimed"
    if "u \<in> set (db_tasks d')" "wt_run_id u = run" "wt_status u = TRunning" for u
    using that q unfolding rows by (auto simp: set_upd_where quiet_def list_all_iff)
  have "map (task_weight run) (upd_where ?p (lease_task owner secs now) (db_tasks d))
      = map (task_weight run) (db_tasks d)"
    unfolding upd_where_def map_map by (rule map_cong) (use pend in \<open>auto simp: task_weight_lease\<close>)
  then show "run_weight run d' = run_weight run d" by (simp add: run_weight_def rows(2))
qed

lemma drive_round_continues:
  assumes "drive_inv run s" and "orderly credit run env" and "drive_round ex run env s = Inr s'"
  shows "drive_inv run s' \<and> drive_fuel credit run s' < drive_fuel credit run s"
proof -
  obtain c f d where s: "s = (c, f, d)" by (cases s)
  have inv: "repo_inv d" and q: "quiet run d" using assms(1) s by (auto simp: drive_inv_def)
  obtain claimed d2 where cl: "claim_ready_tasks run (ex_lease_owner ex) (ex_lease_seconds ex)
      CLAIM_LIMIT (re_locked env) (re_now env) d = (claimed, d2)" by fastforce
  note ce = claim_effects [OF inv q cl]
  have "claimed \<noteq> []"
  proof
    assume e: "claimed = []"
    have "filter (\<lambda>t. wt_status t = TRunning) (get_tasks run d2) = []"
      using ce(4) e by (auto simp: get_tasks_def filter_empty_conv)
    with assms(3) show False
      by (simp add: drive_round_def s reset_quiet [OF q] cl e Let_def split: if_splits)
  qed
  obtain outs d3 where g: "re_gather env claimed d2 = (outs, d3)" by fastforce
  have o: "length outs = length claimed" "repo_inv d3" "set (db_tasks d2) \<subseteq> set (db_tasks d3)"
    "\<forall>t \<in> set (db_tasks d3) - set (db_tasks d2). wt_status t = TPending"
    "run_weight run d3 + credit (db_pages d3) \<le> run_weight run d2 + credit (db_pages d2)"
    using assms(2) ce(1) g unfolding orderly_def by blast+
  let ?zs = "zip claimed outs"
  have fz: "map fst ?zs = claimed" using o(1) by simp
  have "map (\<lambda>z. wt_task_id (fst z)) ?zs = map wt_task_id (map fst ?zs)" by simp
  then have "distinct (map (\<lambda>z. wt_task_id (fst z)) ?zs)" unfolding fz using ce(2) by simp
  moreover have "held run (ex_lease_owner ex) d3 (fst z)" if "z \<in> set ?zs" for z
  proof -
    have "fst z \<in> set claimed" using that by (metis fst_conv old.prod.exhaust set_zip_leftD)
    from ce(3) [OF this] o(3) show ?thesis by (auto simp: held_def)
  qed
  ultimately obtain c4 f4 d4 where st:
      "settle run (ex_lease_owner ex) (re_now env) ?zs (c, f, d3) = (None, c4, f4, d4)"
      "repo_inv d4" "db_pages d4 = db_pages d3"
      "\<forall>u \<in> set (db_tasks d4). wt_run_id u = run \<longrightarrow> wt_status u = TRunning \<longrightarrow>
         u \<in> set (db_tasks d3) - fst ` set ?zs"
      "run_weight run d4 + length ?zs \<le> run_weight run d3"
    using settle_all [OF o(2), of ?zs run "ex_lease_owner ex" "re_now env" c f] by auto
  have "fst ` set ?zs = set claimed" unfolding set_map [symmetric] fz ..
  note fs = this
  have "wt_status u \<noteq> TRunning" if u: "u \<in> set (db_tasks d4)" "wt_run_id u = run" for u
  proof
    assume "wt_status u = TRunning"
    moreover from this have "u \<in> set (db_tasks d3)" "u \<notin> set claimed"
      using st(4) u unfolding fs by blast+
    ultimately show False using o(4) ce(4) [of u] u(2) by (cases "u \<in> set (db_tasks d2)") auto
  qed
  then have "quiet run d4" by (simp add: quiet_def list_all_iff)
  moreover have "run_weight run d4 < run_weight run d3"
    using \<open>claimed \<noteq> []\<close> o(1) st(5) by (cases claimed; cases outs) auto
  moreover have "s' = (c4, f4, d4)"
    using assms(3) \<open>claimed \<noteq> []\<close>
    by (simp add: drive_round_def s reset_quiet [OF q] cl g st(1) Let_def
        split: option.splits if_splits)
  ultimately show ?thesis
    using st(2,3) o(5) ce(5) claim_pages [OF cl] by (simp add: drive_inv_def drive_fuel_def s)
qed

interpretation driving: fuelled_loop "drive_round ex run" "orderly credit run" "drive_inv run"
  "drive_fuel credit run" for ex run credit
  by unfold_locales (use drive_round_continues in blast)+

text \<open>
  The executor terminates relative to a contract: started on a run no worker is executing, with handlers
  that pay for the tasks they add out of a credit, its loop stops after at most as many rounds as there are
  claims left (two per fresh task, one per retried one) plus the credit. The contract is met here by
  handlers that write nothing; that the page handlers meet it is not shown.
\<close>

theorem drive_terminates:
  assumes "repo_inv d" and "quiet run d" and "\<And>env. env \<in> set envs \<Longrightarrow> orderly credit run env"
    and "run_weight run d + credit (db_pages d) < length envs"
  shows "\<exists>out d'. drive ex run envs d = Some (out, d')"
proof -
  have "\<exists>r. run_loop (drive_round ex run) envs ({}, {}, d) = Some r"
    using assms
    by (intro driving.terminates [where run = run and credit = credit])
       (simp_all add: drive_inv_def drive_fuel_def)
  then show ?thesis by (auto simp: drive_def)
qed

text \<open>Handlers that write nothing to the database are orderly for any credit.\<close>

definition quiet_env :: "int \<Rightarrow> (workflow_task \<Rightarrow> outcome) \<Rightarrow> round_env" where
  "quiet_env now h =
     \<lparr>re_now = now, re_locked = [],
      re_gather = gather_in_order (\<lambda>_. Some (\<lambda>t d. (h t, d)))\<rparr>"

lemma gather_quiet: "gather_in_order (\<lambda>_. Some (\<lambda>t d. (h t, d))) ts d = (map h ts, d)"
  by (induction ts arbitrary: d) (simp_all add: execute_def)

lemma orderly_quiet_env: "orderly credit run (quiet_env now h)"
  by (simp add: orderly_def quiet_env_def gather_quiet)

definition sample_executor :: executor where
  "sample_executor =
     \<lparr>ex_handlers = [''write'', ''evaluate''], ex_write_concurrency = 3,
      ex_evaluation_concurrency = 3, ex_lease_seconds = 300, ex_lease_owner = ''w1''\<rparr>"

theorem drive_terminates_witness:
  "\<exists>out d'. drive sample_executor ''r''
      (replicate 5 (quiet_env 2 (\<lambda>t. Inl (RuntimeError ''model down'')))) sample_seeded = Some (out, d')"
proof (rule drive_terminates [OF reachable_inv [OF sample_seeded_reachable], where credit = "\<lambda>_. 0"])
  show "quiet ''r'' sample_seeded" by code_simp
  show "run_weight ''r'' sample_seeded + 0
      < length (replicate 5 (quiet_env 2 (\<lambda>t. Inl (RuntimeError ''model down''))))"
    by code_simp
qed (auto intro: orderly_quiet_env)

section \<open>What an outcome means\<close>

lemma claim_empty:
  assumes "claim_ready_tasks run owner secs limit [] now d = ([], d')" and "0 < limit"
  shows "filter (claimable run (db_tasks d)) (db_tasks d) = []" and "d' = d"
proof -
  let ?ids = "claim_selection run limit [] (db_tasks d)"
  have none: "filter (\<lambda>t. wt_run_id t = run \<and> wt_task_id t \<in> set ?ids) (db_tasks d) = []"
    using claimed_rows(1) [OF assms(1)] by simp
  show "filter (claimable run (db_tasks d)) (db_tasks d) = []"
  proof (rule ccontr)
    let ?s = "sort_key (\<lambda>t. (wt_created_at t, wt_task_id t))
        (filter (claimable run (db_tasks d)) (db_tasks d))"
    assume "filter (claimable run (db_tasks d)) (db_tasks d) \<noteq> []"
    then have "?s \<noteq> []" by (metis set_empty set_sort)
    then have h: "hd ?s \<in> set (take limit ?s)" "hd ?s \<in> set ?s"
      using assms(2) by (cases ?s; cases limit; simp)+
    have "wt_task_id (hd ?s) \<in> set ?ids"
      unfolding claim_selection_def using h(1) by simp
    moreover have "hd ?s \<in> set (db_tasks d)" "wt_run_id (hd ?s) = run"
      using h(2) by (auto simp: claimable_def)
    ultimately show False using none by (auto simp: filter_empty_conv)
  qed
  then have "?ids = []" by (simp add: claim_selection_def)
  with assms(1) show "d' = d" by (auto simp: claim_ready_tasks_def Let_def upd_where_none)
qed

definition waits_forever :: "string \<Rightarrow> db \<Rightarrow> workflow_task \<Rightarrow> bool" where
  "waits_forever run_id d t \<longleftrightarrow>
     list_ex (\<lambda>dep. \<not> list_ex (\<lambda>c. wt_run_id c = run_id \<and> wt_task_id c = dep \<and> wt_status c = TCompleted)
                      (db_tasks d)) (wt_dependencies t)"

lemma not_claimable_waits:
  "wt_run_id t = run \<Longrightarrow> wt_status t = TPending \<Longrightarrow> \<not> claimable run (db_tasks d) t \<Longrightarrow> waits_forever run d t"
  by (auto simp: claimable_def deps_completed_def waits_forever_def list_ex_iff)

text \<open>
  An executor outcome tells the truth about the run: success without failed tasks leaves no
  pending or running task behind; a deadlock is raised only when pending tasks remain, none is
  running and every pending task waits for a dependency that is not completed, and the
  blocked ids it reports are exactly those pending tasks in order.
\<close>

theorem drive_outcome_sound:
  assumes "drive ex run envs d = Some (out, d')" and "\<And>env. env \<in> set envs \<Longrightarrow> re_locked env = []"
  shows "case out of
      Finished r \<Rightarrow> xr_failed_task_ids r = {} \<longrightarrow>
        filter (\<lambda>t. wt_status t \<in> {TPending, TRunning}) (get_tasks run d') = []
    | DeadlockedWorkflowError ids \<Rightarrow>
        (let pending = filter (\<lambda>t. wt_status t = TPending) (get_tasks run d') in
           pending \<noteq> [] \<and> ids = sort (map wt_task_id pending)
           \<and> list_all (waits_forever run d') pending
           \<and> filter (\<lambda>t. wt_status t = TRunning) (get_tasks run d') = [])
    | Raised e \<Rightarrow> True"
proof -
  obtain env c f d0 where env: "env \<in> set envs" and r: "drive_round ex run env (c, f, d0) = Inl (out, d')"
    using run_loop_last [OF assms(1) [unfolded drive_def]] by (metis prod_cases3)
  define d1 where "d1 = snd (reset_expired_leases run (re_now env) d0)"
  obtain claimed d2 where cl: "claim_ready_tasks run (ex_lease_owner ex) (ex_lease_seconds ex)
      CLAIM_LIMIT [] (re_now env) d1 = (claimed, d2)" by fastforce
  note r' = r [unfolded drive_round_def Let_def prod.case d1_def [symmetric] assms(2) [OF env] cl]
  show ?thesis
  proof (cases "claimed = []")
    case False
    with r' show ?thesis
      by (auto simp: executor_result_def split: option.splits prod.splits if_splits)
  next
    case True
    note ce = claim_empty [OF cl [unfolded True]]
    have d2: "d2 = d1" and none: "filter (claimable run (db_tasks d1)) (db_tasks d1) = []"
      using ce by (simp_all add: CLAIM_LIMIT_def)
    have wait: "list_all (waits_forever run d1) (filter (\<lambda>t. wt_status t = TPending) (get_tasks run d1))"
      using none not_claimable_waits [of _ run d1]
      by (auto simp: list_all_iff get_tasks_def filter_empty_conv)
    show ?thesis using r' True wait unfolding d2
      by (auto simp: executor_result_def Let_def filter_empty_conv split: if_splits)
  qed
qed

theorem drive_outcome_sound_witness:
  "case drive sample_executor ''r'' (replicate 5 (quiet_env 2 (\<lambda>t. Inr JNull))) sample_seeded of
     Some (Finished r, d') \<Rightarrow> xr_failed_task_ids r = {}
       \<and> filter (\<lambda>t. wt_status t \<in> {TPending, TRunning}) (get_tasks ''r'' d') = []
   | _ \<Rightarrow> False"
proof -
  let ?envs = "replicate 5 (quiet_env 2 (\<lambda>t. Inr JNull))"
  have "case drive sample_executor ''r'' ?envs sample_seeded of
     Some (Finished r, d') \<Rightarrow> xr_failed_task_ids r = {} | _ \<Rightarrow> False" by code_simp
  then obtain r d' where x: "drive sample_executor ''r'' ?envs sample_seeded = Some (Finished r, d')"
    "xr_failed_task_ids r = {}"
    by (auto split: option.splits drive_outcome.splits)
  from drive_outcome_sound [OF x(1)] x show ?thesis by (simp add: quiet_env_def)
qed

end
