(* ===== verification/Quality_Gate.thy ===== *)
theory Quality_Gate
  imports Page_Models
begin

text \<open>
  The deterministic quality gate (\<^verbatim>\<open>src/draftly/orchestration/nodes/evaluate.py\<close>): citation
  tokens and topics of evidence items, and the page metrics with the blocking weighted score.
  Evidence is a dictionary; an item whose id, url or topic is a non-empty non-string value raises
  \<^verbatim>\<open>AttributeError\<close> in the code and does so here. \<open>fmt2\<close> stands for Python's \<open>.2f\<close> rendering of a
  float.
\<close>

section \<open>Evidence items\<close>

record evidence =
  ev_id :: string
  ev_url :: string
  ev_topic :: string

definition strip_error :: exn where
  "strip_error = Exn ''AttributeError'' ''object has no attribute strip''"

text \<open>\<^verbatim>\<open>(entry.get(field) or "").strip()\<close>.\<close>

definition text_field :: "jobj \<Rightarrow> string \<Rightarrow> string res" where
  "text_field entry field =
     (case jget entry field of
        JStr s \<Rightarrow> Inr (strip s)
      | v \<Rightarrow> if py_truth v then Inl strip_error else Inr [])"

definition evidence_of :: "jobj \<Rightarrow> evidence res" where
  "evidence_of entry =
     (case text_field entry ''id'' of
        Inl e \<Rightarrow> Inl e
      | Inr i \<Rightarrow>
          (case text_field entry ''url'' of
             Inl e \<Rightarrow> Inl e
           | Inr u \<Rightarrow>
               (case text_field entry ''topic'' of
                  Inl e \<Rightarrow> if i = [] \<and> u = [] then Inl e
                           else Inr \<lparr>ev_id = i, ev_url = u, ev_topic = []\<rparr>
                | Inr t \<Rightarrow> Inr \<lparr>ev_id = i, ev_url = u, ev_topic = t\<rparr>)))"

definition evidence_has_signals :: "evidence \<Rightarrow> bool" where
  "evidence_has_signals e \<longleftrightarrow> ev_id e \<noteq> [] \<or> ev_url e \<noteq> [] \<or> ev_topic e \<noteq> []"

definition COMMON_BASENAMES :: "string list" where
  "COMMON_BASENAMES =
     [''readme'', ''index'', ''overview'', ''introduction'', ''getting-started'', ''api'',
      ''faq'', ''guide'', ''reference'', ''docs'']"

definition EXTENSIONS :: "string list" where
  "EXTENSIONS =
     [''md'', ''rst'', ''adoc'', ''py'', ''ts'', ''js'', ''tsx'', ''jsx'', ''go'', ''java'',
      ''rb'', ''rs'', ''yaml'', ''yml'', ''toml'', ''json'', ''sh'']"

text \<open>Dropping a suffix that starts at the last separator when its tail satisfies \<open>p\<close>.\<close>

definition drop_tail :: "char \<Rightarrow> (string \<Rightarrow> bool) \<Rightarrow> string \<Rightarrow> string" where
  "drop_tail c p s =
     (let segs = split_on c s in
      if 2 \<le> length segs \<and> p (last segs) then join_with [c] (butlast segs) else s)"

definition digits :: "string \<Rightarrow> bool" where
  "digits s \<longleftrightarrow> s \<noteq> [] \<and> list_all is_digit s"

text \<open>\<^verbatim>\<open>_LINE_REF_RE\<close> is \<^verbatim>\<open>:\d+(?:-\d+)?$\<close>, \<^verbatim>\<open>_EXT_RE\<close> a known extension at the end.\<close>

definition is_line_range :: "string \<Rightarrow> bool" where
  "is_line_range s =
     (case split_on (CHR ''-'') s of
        [a] \<Rightarrow> digits a | [a, b] \<Rightarrow> digits a \<and> digits b | _ \<Rightarrow> False)"

definition strip_line_ref :: "string \<Rightarrow> string" where
  "strip_line_ref = drop_tail (CHR '':'') is_line_range"

definition strip_extension :: "string \<Rightarrow> string" where
  "strip_extension = drop_tail (CHR ''.'') (\<lambda>s. lower s \<in> set EXTENSIONS)"

definition rstrip_slash :: "string \<Rightarrow> string" where
  "rstrip_slash s = rev (dropWhile (\<lambda>c. c = slash) (rev s))"

definition no_ext :: "string \<Rightarrow> string" where
  "no_ext raw = rstrip_slash (strip_extension (strip_line_ref raw))"

definition base_name :: "string \<Rightarrow> string" where
  "base_name raw = lower (last (split_on slash (no_ext raw)))"

definition field_tokens :: "string \<Rightarrow> string list" where
  "field_tokens raw =
     (if raw = [] then []
      else lower (no_ext raw) #
        (if base_name raw \<in> set COMMON_BASENAMES then []
         else if 3 \<le> length (base_name raw) then [base_name raw] else []))"

definition evidence_match_tokens :: "evidence \<Rightarrow> string list" where
  "evidence_match_tokens e =
     filter (\<lambda>t. 3 \<le> length t) (field_tokens (ev_id e) @ field_tokens (ev_url e))"

definition field_topic :: "string \<Rightarrow> string option" where
  "field_topic raw =
     (if raw \<noteq> [] \<and> base_name raw \<notin> set COMMON_BASENAMES \<and> 3 \<le> length (base_name raw)
      then Some (base_name raw) else None)"

definition evidence_topic :: "evidence \<Rightarrow> string" where
  "evidence_topic e =
     (if ev_topic e \<noteq> [] then lower (ev_topic e)
      else case field_topic (ev_id e) of
             Some t \<Rightarrow> t
           | None \<Rightarrow> (case field_topic (ev_url e) of Some t \<Rightarrow> t | None \<Rightarrow> []))"

section \<open>Page metrics\<close>

definition count_if :: "('a \<Rightarrow> bool) \<Rightarrow> 'a list \<Rightarrow> nat" where
  "count_if p xs = length (filter p xs)"

text \<open>Python's \<^verbatim>\<open>/\<close> of two integers raises on a zero divisor, where HOL's division is zero.\<close>

definition true_div :: "nat \<Rightarrow> nat \<Rightarrow> real res" where
  "true_div a b = (if b = 0 then Inl (Exn ''ZeroDivisionError'' ''division by zero'') else Inr (real a / real b))"

text \<open>The metrics of the two quotients, in order; the last one weighs the other three and is the gate.\<close>

definition metrics_of ::
  "(real \<Rightarrow> string) \<Rightarrow> evidence list \<Rightarrow> string \<Rightarrow> nat \<Rightarrow> string list \<Rightarrow> nat \<Rightarrow> real \<Rightarrow> real \<Rightarrow> metric_result list" where
  "metrics_of fmt2 evidence content cited topics covered coverage completeness =
     (let sources = show_nat cited @ ''/'' @ show_nat (length evidence) @ '' sources'';
          coverage_reason = (if coverage \<le> 8 / 10 then ''References '' @ sources
                             else ''Grounded in '' @ sources);
          completeness_reason =
            (if completeness > 7 / 10
             then ''Covers '' @ show_nat covered @ ''/'' @ show_nat (length topics) @ '' key topics''
             else if topics \<noteq> []
             then ''Missing topics: '' @
               join_with '', '' (filter (\<lambda>t. \<not> str_contains t (lower content)) topics)
             else ''No evidence topics available'');
          length_score = min (real (length content) / 500) 1;
          detail_reason =
            (if length_score > 1 / 2 then ''Adequate detail level''
             else ''Insufficient detail ('' @ show_nat (length content) @ ''/500 characters)'');
          score = coverage * (4 / 10) + completeness * (3 / 10) + length_score * (3 / 10)
      in [\<lparr>mr_name = ''citation_coverage'', mr_score = coverage, mr_threshold = 8 / 10,
           mr_passed = coverage > 8 / 10, mr_blocking = False, mr_reason = coverage_reason\<rparr>,
          \<lparr>mr_name = ''topic_completeness'', mr_score = completeness, mr_threshold = 7 / 10,
           mr_passed = completeness > 7 / 10, mr_blocking = False,
           mr_reason = completeness_reason\<rparr>,
          \<lparr>mr_name = ''detail'', mr_score = length_score, mr_threshold = 1 / 2,
           mr_passed = length_score > 1 / 2, mr_blocking = False, mr_reason = detail_reason\<rparr>,
          \<lparr>mr_name = ''quality_score'', mr_score = score, mr_threshold = 7 / 10,
           mr_passed = score \<ge> 7 / 10, mr_blocking = True,
           mr_reason = ''Weighted quality score '' @ fmt2 score @ '' (threshold: 0.70)''\<rparr>])"

definition compute_page_metrics ::
  "(real \<Rightarrow> string) \<Rightarrow> evidence list \<Rightarrow> string \<Rightarrow> metric_result list res" where
  "compute_page_metrics fmt2 evidence content =
     (let cited = count_if (\<lambda>e. list_ex (\<lambda>t. str_contains t (lower content)) (evidence_match_tokens e)) evidence;
          topics = filter (\<lambda>t. t \<noteq> []) (map evidence_topic evidence);
          covered = count_if (\<lambda>t. str_contains t (lower content)) topics
      in case true_div cited (max (length evidence) 1) of
           Inl e \<Rightarrow> Inl e
         | Inr coverage \<Rightarrow>
             (case true_div covered (max (length topics) 1) of
                Inl e \<Rightarrow> Inl e
              | Inr completeness \<Rightarrow>
                  Inr (metrics_of fmt2 evidence content cited topics covered coverage completeness)))"

definition compute_quality ::
  "(real \<Rightarrow> string) \<Rightarrow> evidence list \<Rightarrow> string \<Rightarrow> (real \<times> string list) res" where
  "compute_quality fmt2 evidence draft =
     (case compute_page_metrics fmt2 evidence draft of
        Inl e \<Rightarrow> Inl e
      | Inr ms \<Rightarrow>
          (let coverage = ms ! 0; completeness = ms ! 1; detail = ms ! 2; quality = ms ! 3
           in Inr (mr_score quality,
                (if mr_passed coverage then [mr_reason coverage] else [])
                @ (if mr_passed completeness then [mr_reason completeness]
                   else if list_ex (\<lambda>e. evidence_topic e \<noteq> []) evidence then [mr_reason completeness]
                   else [])
                @ (if mr_passed detail then [mr_reason detail] else []))))"

section \<open>Bounds of the gate\<close>

lemma true_div_count:
  "\<exists>x. true_div (count_if p xs) (max (length xs) 1) = Inr x \<and> 0 \<le> x \<and> x \<le> 1 \<and> x * real (max (length xs) 1) = real (count_if p xs)"
proof -
  have "real (length (filter p xs)) \<le> real (max (length xs) 1)" by (simp add: le_max_iff_disj)
  then show ?thesis by (simp add: true_div_def count_if_def divide_le_eq)
qed

text \<open>
  C40. The metrics are computed without a division error, whatever the evidence, and are four valid results
  whose verdicts follow from their own scores: every score and threshold lies between 0 and 1, citation
  coverage, topic completeness and detail pass exactly above their thresholds, and the weighted score, the
  only one that blocks, passes exactly from its threshold of 0.7 on and is 40% coverage, 30% completeness and
  30% detail.
\<close>

theorem page_metrics_valid:
  "\<exists>cov comp det score. compute_page_metrics fmt2 es content = Inr [cov, comp, det, score]
   \<and> list_all valid_metric_result [cov, comp, det, score]
   \<and> (mr_passed cov \<longleftrightarrow> mr_threshold cov < mr_score cov)
   \<and> (mr_passed comp \<longleftrightarrow> mr_threshold comp < mr_score comp)
   \<and> (mr_passed det \<longleftrightarrow> mr_threshold det < mr_score det)
   \<and> (mr_passed score \<longleftrightarrow> mr_threshold score \<le> mr_score score)
   \<and> map mr_threshold [cov, comp, det, score] = [8 / 10, 7 / 10, 1 / 2, 7 / 10]
   \<and> map mr_blocking [cov, comp, det, score] = [False, False, False, True]
   \<and> mr_score score = 4 / 10 * mr_score cov + 3 / 10 * mr_score comp + 3 / 10 * mr_score det
   \<and> mr_score cov * real (max (length es) 1)
       = real (length (filter (\<lambda>e. \<exists>t \<in> set (evidence_match_tokens e). str_contains t (lower content)) es))"
proof -
  let ?p = "\<lambda>e. list_ex (\<lambda>t. str_contains t (lower content)) (evidence_match_tokens e)"
  let ?q = "\<lambda>t. str_contains t (lower content)" and ?ts = "filter (\<lambda>t. t \<noteq> []) (map evidence_topic es)"
  obtain a b where a: "true_div (count_if ?p es) (max (length es) 1) = Inr a" "0 \<le> a" "a \<le> 1"
      "a * real (max (length es) 1) = real (count_if ?p es)"
    and b: "true_div (count_if ?q ?ts) (max (length ?ts) 1) = Inr b" "0 \<le> b" "b \<le> 1"
    using true_div_count [of ?p es] true_div_count [of ?q ?ts] by blast
  define l :: real where "l = min (real (length content) / 500) 1"
  have l: "0 \<le> l" "l \<le> 1" by (simp_all add: l_def)
  have "0 \<le> a * (4 / 10) + b * (3 / 10) + l * (3 / 10)" "a * (4 / 10) + b * (3 / 10) + l * (3 / 10) \<le> 1"
    using a(2,3) b(2,3) l by auto
  moreover have "count_if ?p es = length (filter (\<lambda>e. \<exists>t \<in> set (evidence_match_tokens e). ?q t) es)"
    by (simp add: count_if_def list_ex_iff)
  ultimately show ?thesis using a b l
    by (simp add: compute_page_metrics_def metrics_of_def Let_def l_def [symmetric] valid_metric_result_def)
qed

text \<open>
  What the gate can let through: a page with no evidence never passes, however long it is;
  a page of at least 500 characters that cites every source and covers every topic of non-empty
  evidence always does.
\<close>

theorem quality_gate_extremes:
  "(\<forall>ms. compute_page_metrics fmt2 [] content = Inr ms \<longrightarrow> \<not> mr_passed (last ms))
   \<and> (es \<noteq> [] \<longrightarrow> 500 \<le> length content
      \<longrightarrow> list_all (\<lambda>e. list_ex (\<lambda>t. str_contains t (lower content)) (evidence_match_tokens e)) es
      \<longrightarrow> list_all (\<lambda>e. evidence_topic e \<noteq> [] \<and> str_contains (evidence_topic e) (lower content)) es
      \<longrightarrow> (\<exists>ms. compute_page_metrics fmt2 es content = Inr ms \<and> mr_passed (last ms)))"
proof (intro conjI impI allI)
  fix ms assume "compute_page_metrics fmt2 [] content = Inr ms"
  then show "\<not> mr_passed (last ms)"
    by (auto simp: compute_page_metrics_def metrics_of_def Let_def count_if_def true_div_def min_def split: if_splits)
next
  assume a: "es \<noteq> []" "500 \<le> length content"
    "list_all (\<lambda>e. list_ex (\<lambda>t. str_contains t (lower content)) (evidence_match_tokens e)) es"
    "list_all (\<lambda>e. evidence_topic e \<noteq> [] \<and> str_contains (evidence_topic e) (lower content)) es"
  have "filter (\<lambda>e. list_ex (\<lambda>t. str_contains t (lower content)) (evidence_match_tokens e)) es = es"
    using a(3) by (simp add: list_all_iff)
  moreover have topics: "filter (\<lambda>t. t \<noteq> []) (map evidence_topic es) = map evidence_topic es"
    using a(4) by (auto simp: list_all_iff)
  moreover have "filter (\<lambda>t. str_contains t (lower content)) (map evidence_topic es)
      = map evidence_topic es"
    using a(4) by (auto simp: list_all_iff)
  moreover have "min (real (length content) / 500) 1 = 1" using a(2) by simp
  moreover have "true_div (length es) (max (length es) 1) = Inr 1"
    using a(1) by (cases es) (simp_all add: true_div_def)
  ultimately show "\<exists>ms. compute_page_metrics fmt2 es content = Inr ms \<and> mr_passed (last ms)"
    unfolding compute_page_metrics_def metrics_of_def Let_def count_if_def by simp
qed

lemma str_contains_prefix: "str_contains t (lower a) \<Longrightarrow> str_contains t (lower (a @ b))"
proof -
  assume "str_contains t (lower a)"
  then obtain u v where "lower a = u @ t @ v" by (auto simp: str_contains_iff)
  then have "lower (a @ b) = u @ t @ (v @ lower b)" by (simp add: lower_def)
  then show ?thesis unfolding str_contains_iff by blast
qed

theorem quality_gate_extremes_witness:
  "let es = [\<lparr>ev_id = ''docs/api/OAuth.md:3-9'', ev_url = [], ev_topic = ''tokens''\<rparr>];
       content = ''OAuth issues tokens'' @ replicate 500 CHR ''x''
   in \<exists>ms. compute_page_metrics (\<lambda>_. ''0.99'') es content = Inr ms \<and> mr_passed (last ms)"
proof -
  let ?es = "[\<lparr>ev_id = ''docs/api/OAuth.md:3-9'', ev_url = [], ev_topic = ''tokens''\<rparr>]"
  let ?c = "''OAuth issues tokens'' @ replicate 500 CHR ''x''"
  have "list_all (\<lambda>e. list_ex (\<lambda>t. str_contains t (lower ''OAuth issues tokens''))
      (evidence_match_tokens e)) ?es" by code_simp
  then have "list_all (\<lambda>e. list_ex (\<lambda>t. str_contains t (lower ?c)) (evidence_match_tokens e)) ?es"
    by (auto simp: list_ex_iff simp del: append_Cons intro: str_contains_prefix)
  moreover have "list_all (\<lambda>e. evidence_topic e \<noteq> []
      \<and> str_contains (evidence_topic e) (lower ''OAuth issues tokens'')) ?es" by code_simp
  then have "list_all (\<lambda>e. evidence_topic e \<noteq> [] \<and> str_contains (evidence_topic e) (lower ?c)) ?es"
    by (auto simp del: append_Cons intro: str_contains_prefix)
  moreover have "?es \<noteq> []" "500 \<le> length ?c" by simp_all
  ultimately have "\<exists>ms. compute_page_metrics (\<lambda>_. ''0.99'') ?es ?c = Inr ms \<and> mr_passed (last ms)"
    using quality_gate_extremes [of "\<lambda>_. ''0.99''" ?c ?es] by blast
  then show ?thesis unfolding Let_def .
qed

end
