(* ===== verification/Page_Handlers.thy ===== *)
theory Page_Handlers
  imports Page_Revisions Draft_Store Quality_Gate Fuelled_Loops
begin

text \<open>
  The task handlers (\<^verbatim>\<open>src/draftly/orchestration/page_workflow/handlers.py\<close>): the writer with its
  invocation budget, the evaluator and the cross-page reviewer, as functions from a task and the
  database to an outcome and the database they leave behind; what a handler committed before it
  raised stays committed.

  Arguments stand for what is outside the repository's own code: \<open>schema\<close> for pydantic's validation
  and dumping of plans and evaluations, an agent invocation for each call of the writer model,
  the rubric grader's answer, the reviewer's verdict, the documents store, SHA-256 digests and the
  float rendering \<open>fmt2\<close>. Prompt texts are not rendered: a prompt is the data its renderer is
  called with. Task inputs are those the workflow itself writes, so text items of an input that are
  not strings are ignored.
\<close>

section \<open>Plans, artifacts and errors\<close>

record doc_task =
  dt_id :: string
  dt_path :: string
  dt_action :: string
  dt_reason :: string
  dt_related_symbols :: "string list"
  dt_evidence :: "jobj list"
  dt_requirements :: "string list"
  dt_bundle_id :: "string option"
  dt_repository :: "string option"
  dt_head_sha :: "string option"

record schema =
  sc_task :: "jobj \<Rightarrow> doc_task res"
  sc_dump_task :: "doc_task \<Rightarrow> jobj"
  sc_evaluation :: "jobj \<Rightarrow> page_evaluation res"
  sc_dump_evaluation :: "page_evaluation \<Rightarrow> jobj"

definition MAX_PAGE_EVALUATION_ATTEMPTS :: int where
  "MAX_PAGE_EVALUATION_ATTEMPTS = MAX_AUTOMATIC_EVALUATION_ATTEMPTS"

definition CROSS_PAGE_REVIEW_TASK_ID :: string where
  "CROSS_PAGE_REVIEW_TASK_ID = ''cross-page-review''"

definition canonical_page_id :: "string \<Rightarrow> string res" where
  "canonical_page_id value =
     (let bad = ValueError (''page ID must be canonical: '' @ py_repr value) in
      case normalize_page_id value of
        Inl _ \<Rightarrow> Inl bad
      | Inr normalized \<Rightarrow> if normalized \<noteq> value then Inl bad else Inr normalized)"

definition document_task :: "schema \<Rightarrow> workflow_task \<Rightarrow> doc_task res" where
  "document_task sc t =
     (case jget (wt_input_data t) ''task'' of
        JObj raw \<Rightarrow>
          (case sc_task sc raw of
             Inl e \<Rightarrow> Inl e
           | Inr page \<Rightarrow>
               (case wt_page_id t of
                  None \<Rightarrow> Inl (ValueError (''task '' @ py_repr (wt_task_id t) @ '' is missing page_id''))
                | Some page_id \<Rightarrow>
                    (case canonical_page_id page_id of
                       Inl e \<Rightarrow> Inl e
                     | Inr _ \<Rightarrow>
                         if dt_id page \<noteq> page_id
                         then Inl (ValueError (''task '' @ py_repr (wt_task_id t) @
                           '' page plan does not match page_id '' @ py_repr page_id))
                         else Inr page)))
      | _ \<Rightarrow> Inl (ValueError (''task '' @ py_repr (wt_task_id t) @ '' is missing its page plan'')))"

definition artifact :: "string \<Rightarrow> draft_file \<Rightarrow> document_artifact res" where
  "artifact page_id file =
     (case (df_version file, df_content_hash file) of
        (Some v, Some h) \<Rightarrow>
          (let a = \<lparr>da_page_id = page_id, da_path = df_path file,
                    da_artifact_id = df_artifact_id file, da_version = v, da_content_hash = h,
                    da_action = df_action file, da_content = df_content file\<rparr>
           in if valid_document_artifact a then Inr a
              else Inl (Exn ''ValidationError'' ''DocumentArtifact''))
      | _ \<Rightarrow> Inl (ValueError (''page '' @ py_repr page_id @
               '' artifact is missing versioned identity'')))"

definition current_artifact ::
  "string \<Rightarrow> string \<Rightarrow> int option \<Rightarrow> string option \<Rightarrow> db \<Rightarrow> document_artifact res" where
  "current_artifact run_id page_id expected_version expected_artifact_id d =
     (case get_path_latest run_id page_id d of
        None \<Rightarrow> Inl (ValueError (''page '' @ py_repr page_id @ '' has no sealed artifact''))
      | Some file \<Rightarrow>
          if strip (df_content file) = []
          then Inl (ValueError (''page '' @ py_repr page_id @ '' sealed artifact is empty''))
          else
            case artifact page_id file of
              Inl e \<Rightarrow> Inl e
            | Inr a \<Rightarrow>
                if (case expected_version of None \<Rightarrow> False | Some v \<Rightarrow> da_version a \<noteq> v)
                then Inl (ValueError (''page '' @ py_repr page_id @ '' expected artifact version '' @
                  (case expected_version of None \<Rightarrow> [] | Some v \<Rightarrow> show_int v) @ '', found '' @
                  show_int (da_version a)))
                else if (case expected_artifact_id of None \<Rightarrow> False | Some i \<Rightarrow> da_artifact_id a \<noteq> i)
                then Inl (ValueError (''page '' @ py_repr page_id @ '' expected artifact '' @
                  (case expected_artifact_id of None \<Rightarrow> [] | Some i \<Rightarrow> py_repr i) @ '', found '' @
                  py_repr (da_artifact_id a)))
                else Inr a)"

record draft_progress =
  dp_draft_id :: "string option"
  dp_chunks :: int
  dp_sealed :: bool

definition no_artifact_error :: "string \<Rightarrow> draft_progress \<Rightarrow> exn" where
  "no_artifact_error page_id progress =
     (let detail =
        (case dp_draft_id progress of
           None \<Rightarrow> ''no draft was started''
         | Some i \<Rightarrow>
             if \<not> dp_sealed progress
             then ''draft '' @ i @ '' started with '' @ show_int (dp_chunks progress) @
                  '' chunks but was never finalized''
             else ''draft '' @ i @ '' reports sealed but no artifact row exists'')
      in ValueError (''page '' @ py_repr page_id @ '' produced no sealed artifact: '' @ detail))"

definition artifact_json :: "document_artifact \<Rightarrow> json" where
  "artifact_json a =
     JObj [(''page_id'', JStr (da_page_id a)), (''path'', JStr (da_path a)),
           (''artifact_id'', JStr (da_artifact_id a)), (''version'', JInt (da_version a)),
           (''content_hash'', JStr (da_content_hash a)), (''action'', JStr (da_action a))]"

section \<open>The writer\<close>

type_synonym attempts = "(string \<times> nat) list"

text \<open>\<^verbatim>\<open>_spend_attempt\<close>: the table is cleared once it has outgrown its bound.\<close>

definition spend_attempt :: "nat \<Rightarrow> nat \<Rightarrow> string \<Rightarrow> attempts \<Rightarrow> exn option \<times> attempts" where
  "spend_attempt max_write_attempts max_tracked task_id attempts =
     (let table = (if max_tracked < length attempts then [] else attempts);
          spent = (case map_of table task_id of None \<Rightarrow> 0 | Some n \<Rightarrow> n) + 1;
          table' = (if task_id \<in> fst ` set table
                    then map (\<lambda>(k, n). (k, if k = task_id then spent else n)) table
                    else table @ [(task_id, spent)])
      in (if max_write_attempts < spent
          then Some (RuntimeError (''write task '' @ py_repr task_id @ '' exhausted its budget of '' @
                 show_nat max_write_attempts @ '' writer invocations''))
          else None, table'))"

datatype prompt =
    FirstWrite doc_task "string option"
  | Revise doc_task document_artifact "page_evaluation option" "string list"
  | Resume string string

datatype writer_reply = WriterDone | MaxTokensReached | WriterFailed exn

text \<open>One \<^verbatim>\<open>agent.invoke_async\<close>: its reply, the progress of its draft tools, the database.\<close>

type_synonym invocation =
  "prompt \<Rightarrow> draft_progress \<Rightarrow> db \<Rightarrow> writer_reply \<times> draft_progress \<times> db"

definition next_step :: "draft_progress \<Rightarrow> string" where
  "next_step progress =
     (case dp_draft_id progress of
        None \<Rightarrow> ''No draft was started. Stop searching, call start_draft for '' @
               ''this page, append the required content, and finalize_draft.''
      | Some i \<Rightarrow>
          if dp_sealed progress
          then ''The draft is sealed. Emit the metadata-only DocChangePlan.''
          else ''Draft '' @ i @ '' has '' @ show_int (dp_chunks progress) @ '' chunks. '' @
               ''Append only missing content and call finalize_draft.'')"

definition resume_source :: "doc_task \<Rightarrow> string" where
  "resume_source page =
     (case dt_repository page of
        None \<Rightarrow> [] | Some r \<Rightarrow> if r = [] then [] else '' Authorized repository: '' @ r @ ''.'')
     @ (case dt_head_sha page of
          None \<Rightarrow> [] | Some h \<Rightarrow> if h = [] then [] else '' Read ref: '' @ h @ ''.'')"

type_synonym writing = "prompt \<times> draft_progress \<times> attempts \<times> db"

definition invoke_round ::
  "nat \<Rightarrow> nat \<Rightarrow> doc_task \<Rightarrow> string \<Rightarrow> invocation \<Rightarrow> writing
     \<Rightarrow> (exn option \<times> draft_progress \<times> attempts \<times> db) + writing" where
  "invoke_round max_write_attempts max_tracked page task_id agent s =
     (let (p, progress, attempts, d) = s;
          (exhausted, attempts') = spend_attempt max_write_attempts max_tracked task_id attempts
      in case exhausted of
           Some e \<Rightarrow> Inl (Some e, progress, attempts', d)
         | None \<Rightarrow>
             (case agent p progress d of
                (WriterDone, progress', d') \<Rightarrow> Inl (None, progress', attempts', d')
              | (WriterFailed e, progress', d') \<Rightarrow> Inl (Some e, progress', attempts', d')
              | (MaxTokensReached, progress', d') \<Rightarrow>
                  Inr (Resume (dt_id page) (next_step progress' @ resume_source page),
                       progress', attempts', d')))"

definition invoke_writer ::
  "nat \<Rightarrow> nat \<Rightarrow> doc_task \<Rightarrow> string \<Rightarrow> invocation list \<Rightarrow> writing
     \<Rightarrow> (exn option \<times> draft_progress \<times> attempts \<times> db) option" where
  "invoke_writer max_write_attempts max_tracked page task_id agents =
     run_loop (invoke_round max_write_attempts max_tracked page task_id) agents"

text \<open>The body of the file an update rewrites, or the advice that there is none.\<close>

definition current_repo_content ::
  "(string \<Rightarrow> string \<Rightarrow> string \<Rightarrow> json res) option \<Rightarrow> workflow_task \<Rightarrow> doc_task \<Rightarrow> string option" where
  "current_repo_content documents t page =
     (case documents of
        None \<Rightarrow> None
      | Some lookup \<Rightarrow>
          let repository = (case jget (wt_input_data t) ''repository'' of JStr s \<Rightarrow> s | _ \<Rightarrow> [])
          in if dt_action page \<noteq> ''update'' \<or> repository = [] then None
             else
               case lookup (wt_org_id t) repository (dt_path page) of
                 Inl _ \<Rightarrow> None
               | Inr row \<Rightarrow>
                   let content = (case row of
                                    JObj o1 \<Rightarrow> (case jget o1 ''content'' of JStr s \<Rightarrow> s | _ \<Rightarrow> [])
                                  | _ \<Rightarrow> [])
                   in if strip content = []
                      then Some (''TARGET FILE NOT FOUND: '' @ py_repr (dt_path page) @
                             '' has no stored body for '' @ py_repr repository @
                             ''. If your read tools also return not found (404) for this path, do NOT '' @
                             ''retry the read: the file does not exist yet at the ref you are reading, '' @
                             ''so author it as a new page -- call start_draft with action='' @
                             [CHR 0x22] @ ''create'' @ [CHR 0x22] @
                             '' for this exact path -- and write the content the task requires. Never '' @
                             ''guess its previous contents and never return an empty plan because it '' @
                             ''is missing.'')
                      else Some (''EXISTING CONTENT of '' @ py_repr (dt_path page) @
                             '' (rewrite in place; preserve anything still accurate):'' @
                             [CHR 0x0A, CHR 0x0A] @ content))"

definition text_items :: "json list \<Rightarrow> string list" where
  "text_items xs =
     List.map_filter (\<lambda>x. case x of JStr s \<Rightarrow> if strip s = [] then None else Some s | _ \<Rightarrow> None) xs"

definition items_or_empty :: "jobj \<Rightarrow> string \<Rightarrow> json list res" where
  "items_or_empty inp key =
     (case map_of inp key of None \<Rightarrow> Inr [] | Some v \<Rightarrow> py_list v)"

record writer_env =
  we_schema :: schema
  we_documents :: "(string \<Rightarrow> string \<Rightarrow> string \<Rightarrow> json res) option"
  we_max_write_attempts :: nat
  we_max_tracked_tasks :: nat
  we_agents :: "invocation list"
  we_now :: int

text \<open>The prompt of a write task: a revision when it carries an evaluation or instructions.\<close>

definition writer_prompt :: "writer_env \<Rightarrow> workflow_task \<Rightarrow> doc_task \<Rightarrow> db \<Rightarrow> prompt res" where
  "writer_prompt we t page d =
     (case (case jget (wt_input_data t) ''evaluation'' of
              JObj raw \<Rightarrow> map_sum id Some (sc_evaluation (we_schema we) raw)
            | _ \<Rightarrow> Inr None) of
        Inl e \<Rightarrow> Inl e
      | Inr evaluation \<Rightarrow>
          (case items_or_empty (wt_input_data t) ''reviewer_instructions'' of
             Inl e \<Rightarrow> Inl e
           | Inr items \<Rightarrow>
               let instructions = text_items items in
               if evaluation \<noteq> None \<or> instructions \<noteq> []
               then
                 (case current_artifact (wt_run_id t) (dt_id page) (map_option pe_version evaluation)
                         (map_option pe_artifact_id evaluation) d of
                    Inl e \<Rightarrow> Inl e
                  | Inr previous \<Rightarrow> Inr (Revise page previous evaluation instructions))
               else Inr (FirstWrite page (current_repo_content (we_documents we) t page))))"

definition promote :: "int \<Rightarrow> workflow_task \<Rightarrow> doc_task \<Rightarrow> int \<Rightarrow> document_artifact \<Rightarrow> db \<Rightarrow> json res \<times> db" where
  "promote now t page version a d =
     (case record_artifact (wt_run_id t) (dt_id page) (da_artifact_id a) version now d of
        Inl e \<Rightarrow> (Inl e, d)
      | Inr d' \<Rightarrow> (Inr (artifact_json a), d'))"

definition fresh_progress :: draft_progress where
  "fresh_progress = \<lparr>dp_draft_id = None, dp_chunks = 0, dp_sealed = False\<rparr>"

definition write_new ::
  "writer_env \<Rightarrow> workflow_task \<Rightarrow> doc_task \<Rightarrow> int \<Rightarrow> attempts \<Rightarrow> db \<Rightarrow> (json res \<times> attempts \<times> db) option" where
  "write_new we t page version attempts d =
     (case writer_prompt we t page d of
        Inl e \<Rightarrow> Some (Inl e, attempts, d)
      | Inr p \<Rightarrow>
          (case invoke_writer (we_max_write_attempts we) (we_max_tracked_tasks we) page (wt_task_id t)
                  (we_agents we) (p, fresh_progress, attempts, d) of
             None \<Rightarrow> None
           | Some (Some e, _, attempts', d') \<Rightarrow> Some (Inl e, attempts', d')
           | Some (None, progress, attempts', d') \<Rightarrow>
               (case current_artifact (wt_run_id t) (dt_id page) (Some version) None d' of
                  Inl e \<Rightarrow> Some (Inl (if exn_type e \<in> {''ValueError'', ''ValidationError''}
                             then no_artifact_error (dt_id page) progress else e), attempts', d')
                | Inr a \<Rightarrow>
                    let (out, d2) = promote (we_now we) t page version a d'
                    in Some (out, attempts', d2))))"

definition write_page ::
  "writer_env \<Rightarrow> workflow_task \<Rightarrow> attempts \<Rightarrow> db \<Rightarrow> (json res \<times> attempts \<times> db) option" where
  "write_page we t attempts d =
     (case document_task (we_schema we) t of
        Inl e \<Rightarrow> Some (Inl e, attempts, d)
      | Inr page \<Rightarrow>
          (case wt_artifact_version t of
             None \<Rightarrow> Some (Inl (ValueError (''write task '' @ py_repr (wt_task_id t) @
                        '' has no version'')), attempts, d)
           | Some version \<Rightarrow>
               let (existing_file, d1) = prepare_versioned_write (wt_run_id t) (dt_id page) version d
               in case existing_file of
                    Some file \<Rightarrow>
                      if df_version file = Some version
                      then
                        (case artifact (dt_id page) file of
                           Inl e \<Rightarrow> Some (Inl e, attempts, d1)
                         | Inr existing \<Rightarrow>
                             if strip (da_content existing) = []
                             then Some (Inl (ValueError (''page '' @ py_repr (dt_id page) @
                                    '' sealed artifact is empty'')), attempts, d1)
                             else let (out, d2) = promote (we_now we) t page version existing d1
                                  in Some (out, attempts, d2))
                      else write_new we t page version attempts d1
                  | None \<Rightarrow> write_new we t page version attempts d1))"

section \<open>The evaluator\<close>

text \<open>\<^verbatim>\<open>int(x)\<close> of a JSON number.\<close>

definition py_int :: "json \<Rightarrow> int res" where
  "py_int v =
     (case v of
        JInt i \<Rightarrow> Inr i
      | JBool b \<Rightarrow> Inr (if b then 1 else 0)
      | JFloat x \<Rightarrow> Inr (if 0 \<le> x then \<lfloor>x\<rfloor> else \<lceil>x\<rceil>)
      | JStr s \<Rightarrow> if digits (strip s) then Inr (int (digits_val (strip s)))
                  else Inl (ValueError (''invalid literal for int() with base 10: '' @ py_repr s))
      | _ \<Rightarrow> Inl (Exn ''TypeError'' ''int() argument must be a string or a real number''))"

record evaluator_env =
  ee_schema :: schema
  ee_max_attempts :: int
  ee_grade :: "string \<Rightarrow> evidence list \<Rightarrow> string list res"
  ee_fmt2 :: "real \<Rightarrow> string"
  ee_snapshot_digest :: "jobj \<Rightarrow> string"
  ee_now :: int

definition new_evaluator :: "evaluator_env \<Rightarrow> evaluator_env res" where
  "new_evaluator ee =
     (if MAX_AUTOMATIC_EVALUATION_ATTEMPTS < ee_max_attempts ee
      then Inl (ValueError ''max_attempts cannot exceed the shared automatic budget of 3'')
      else Inr ee)"

fun normalize_evidence :: "json list \<Rightarrow> evidence list res" where
  "normalize_evidence [] = Inr []"
| "normalize_evidence (JObj item # rest) =
     (case evidence_of item of
        Inl e \<Rightarrow> Inl e
      | Inr ev \<Rightarrow>
          (case normalize_evidence rest of
             Inl e \<Rightarrow> Inl e
           | Inr evs \<Rightarrow> Inr (if evidence_has_signals ev then ev # evs else evs)))"
| "normalize_evidence (_ # rest) = normalize_evidence rest"

text \<open>The judge's reasons are appended without repeating; a failing judge adds nothing.\<close>

definition add_reasons :: "string list res \<Rightarrow> string list \<Rightarrow> string list" where
  "add_reasons grade feedback =
     (case grade of
        Inl _ \<Rightarrow> feedback
      | Inr reasons \<Rightarrow>
          fold (\<lambda>r fb. if r \<noteq> [] \<and> r \<notin> set fb then fb @ [r] else fb) reasons feedback)"

definition page_verdict ::
  "int \<Rightarrow> int \<Rightarrow> bool \<Rightarrow> evidence list \<Rightarrow> metric_result list \<Rightarrow> string list res \<Rightarrow> eval_status \<times> string list" where
  "page_verdict max_attempts attempt human_guided evidence metrics grade =
     (let feedback = map mr_reason (filter (\<lambda>m. mr_blocking m \<and> \<not> mr_passed m) metrics) in
      if evidence = []
      then (EvAwaitingHumanReview, [''No page-scoped evidence is available; human review required''])
      else if mr_passed (last metrics) then (EvPassed, [])
      else if human_guided then (EvAwaitingHumanReview, add_reasons grade feedback)
      else (if max_attempts \<le> attempt then EvAwaitingHumanReview else EvRevisionRequired,
            add_reasons grade feedback))"

definition evaluation_of ::
  "evaluator_env \<Rightarrow> workflow_task \<Rightarrow> doc_task \<Rightarrow> int \<Rightarrow> db \<Rightarrow> page_evaluation res" where
  "evaluation_of ee t page version d =
     (let inp = wt_input_data t;
          raw = jget inp ''attempt'' in
      case (if py_truth raw then py_int raw else Inr version) of
        Inl e \<Rightarrow> Inl e
      | Inr attempt \<Rightarrow>
          if attempt < 1 \<or> ee_max_attempts ee < attempt
          then Inl (ValueError (''automatic evaluation attempt must be between 1 and '' @
                 show_int (ee_max_attempts ee)))
          else
            let human_guided = py_truth (jget inp ''human_guided'') in
            if human_guided \<and> \<not> py_truth (jget inp ''revision_comment'')
            then Inl (ValueError ''human-guided revision requires a review comment'')
            else
              case current_artifact (wt_run_id t) (dt_id page) (Some version) None d of
                Inl e \<Rightarrow> Inl e
              | Inr a \<Rightarrow>
                  (case (case jget inp ''evidence'' of
                           JNull \<Rightarrow> Inr (map JObj (dt_evidence page))
                         | JList xs \<Rightarrow> Inr xs
                         | _ \<Rightarrow> Inl (ValueError ''page evidence must be a list'')) of
                     Inl e \<Rightarrow> Inl e
                   | Inr items \<Rightarrow>
                       (case normalize_evidence items of
                          Inl e \<Rightarrow> Inl e
                        | Inr evs \<Rightarrow>
                            (case compute_page_metrics (ee_fmt2 ee) evs (da_content a) of
                               Inl e \<Rightarrow> Inl e
                             | Inr metrics \<Rightarrow>
                                 let outcome =
                                       page_verdict (ee_max_attempts ee) attempt human_guided evs metrics
                                         (ee_grade ee (da_content a) evs)
                                 in Inr \<lparr>pe_page_id = dt_id page, pe_artifact_id = da_artifact_id a,
                                         pe_version = da_version a, pe_content_hash = da_content_hash a,
                                         pe_attempt = attempt, pe_status = fst outcome,
                                         pe_score = mr_score (last metrics), pe_metrics = metrics,
                                         pe_revision_feedback = snd outcome\<rparr>))))"

definition revision_of :: "schema \<Rightarrow> workflow_task \<Rightarrow> doc_task \<Rightarrow> page_evaluation \<Rightarrow> json list \<Rightarrow> revision_schedule" where
  "revision_of sc t page result instructions =
     \<lparr>rs_page_id = dt_id page, rs_source_artifact_id = pe_artifact_id result,
      rs_source_version = pe_version result, rs_attempt = pe_attempt result + 1,
      rs_write_input =
        [(''task'', JObj (sc_dump_task sc page)),
         (''evaluation'', JObj (sc_dump_evaluation sc result)),
         (''reviewer_instructions'', JList instructions)],
      rs_evaluate_input =
        [(''task'', JObj (sc_dump_task sc page)),
         (''evidence'', JList (map JObj (dt_evidence page))),
         (''attempt'', JInt (pe_attempt result + 1)),
         (''reviewer_instructions'', JList instructions)]\<rparr>"

definition schedule_revision ::
  "evaluator_env \<Rightarrow> workflow_task \<Rightarrow> doc_task \<Rightarrow> page_evaluation \<Rightarrow> db \<Rightarrow> db res" where
  "schedule_revision ee t page result d =
     (case (let raw = jget (wt_input_data t) ''reviewer_instructions'' in
            if py_truth raw then py_list raw else Inr []) of
        Inl e \<Rightarrow> Inl e
      | Inr instructions \<Rightarrow>
          (case schedule_revisions (wt_run_id t) (wt_org_id t)
                  [revision_of (ee_schema ee) t page result instructions] (ee_now ee) d of
             Inl e \<Rightarrow> Inl e
           | Inr (_, d') \<Rightarrow> Inr d'))"

fun snapshot_loop :: "string \<Rightarrow> page_state list \<Rightarrow> db \<Rightarrow> jobj res" where
  "snapshot_loop run_id [] d = Inr []"
| "snapshot_loop run_id (st # states) d =
     (case current_artifact run_id (ps_page_id st) (Some (ps_latest_version st))
             (ps_latest_artifact_id st) d of
        Inl e \<Rightarrow> Inl e
      | Inr a \<Rightarrow>
          (case snapshot_loop run_id states d of
             Inl e \<Rightarrow> Inl e
           | Inr rest \<Rightarrow>
               Inr ((ps_page_id st,
                     JObj [(''artifact_id'', (case ps_latest_artifact_id st of
                              None \<Rightarrow> JNull | Some i \<Rightarrow> JStr i)),
                           (''version'', JInt (ps_latest_version st)),
                           (''content_hash'', JStr (da_content_hash a))]) # rest)))"

definition schedule_review_if_ready ::
  "evaluator_env \<Rightarrow> workflow_task \<Rightarrow> doc_task \<Rightarrow> db \<Rightarrow> db res" where
  "schedule_review_if_ready ee t page d =
     (let states = get_page_states (wt_run_id t) d in
      if states = [] \<or> list_ex (\<lambda>s. ps_status s \<noteq> PASSED) states then Inr d
      else if list_ex (\<lambda>s. ps_latest_artifact_id s = None \<or> ps_latest_version s < 1) states
      then Inl (ValueError ''passed pages must have accepted artifact identities'')
      else
        case snapshot_loop (wt_run_id t) states d of
          Inl e \<Rightarrow> Inl e
        | Inr snapshot \<Rightarrow>
            Inr (enqueue_task (wt_run_id t)
                   (CROSS_PAGE_REVIEW_TASK_ID @ '':'' @ ee_snapshot_digest ee snapshot)
                   (wt_org_id t) ''cross_page_review'' None None [wt_task_id t]
                   [(''last_page_task'', JObj (sc_dump_task (ee_schema ee) page)),
                    (''artifact_snapshot'', JObj snapshot)] (ee_now ee) d))"

definition evaluate_page :: "evaluator_env \<Rightarrow> workflow_task \<Rightarrow> db \<Rightarrow> json res \<times> db" where
  "evaluate_page ee t d =
     (case document_task (ee_schema ee) t of
        Inl e \<Rightarrow> (Inl e, d)
      | Inr page \<Rightarrow>
          (case wt_artifact_version t of
             None \<Rightarrow> (Inl (ValueError (''evaluate task '' @ py_repr (wt_task_id t) @
                        '' has no version'')), d)
           | Some version \<Rightarrow>
               (case evaluation_of ee t page version d of
                  Inl e \<Rightarrow> (Inl e, d)
                | Inr result \<Rightarrow>
                    (case record_evaluation result (Some (wt_run_id t)) (Some (wt_org_id t))
                            (ee_now ee) d of
                       Inl e \<Rightarrow> (Inl e, d)
                     | Inr d1 \<Rightarrow>
                         (case (case pe_status result of
                                  EvRevisionRequired \<Rightarrow> schedule_revision ee t page result d1
                                | EvPassed \<Rightarrow> schedule_review_if_ready ee t page d1
                                | EvAwaitingHumanReview \<Rightarrow> Inr d1) of
                            Inl e \<Rightarrow> (Inl e, d1)
                          | Inr d2 \<Rightarrow> (Inr (JObj (sc_dump_evaluation (ee_schema ee) result)), d2))))))"

section \<open>The cross-page reviewer\<close>

record correction =
  co_task_id :: string
  co_path :: string
  co_instructions :: "string list"

record verdict =
  vd_verdict :: string
  vd_corrections :: "correction list"

record reviewer_env =
  ve_schema :: schema
  ve_max_attempts :: int
  ve_reviewer :: "verdict option res option"
  ve_now :: int

text \<open>Every page passed, or is being revised from the very artifact the snapshot reviewed.\<close>

definition snapshot_entry :: "jobj \<Rightarrow> string \<Rightarrow> jobj option" where
  "snapshot_entry snapshot page_id =
     (case jget snapshot page_id of JObj entry \<Rightarrow> Some entry | _ \<Rightarrow> None)"

definition reviewable :: "jobj \<Rightarrow> page_state \<Rightarrow> bool" where
  "reviewable snapshot s \<longleftrightarrow>
     ps_status s = PASSED
     \<or> (ps_status s = REVISING \<and>
        (case snapshot_entry snapshot (ps_page_id s) of
           None \<Rightarrow> False
         | Some entry \<Rightarrow>
             jget entry ''artifact_id'' = (case ps_latest_artifact_id s of
                                             None \<Rightarrow> JNull | Some i \<Rightarrow> JStr i)
             \<and> jget entry ''version'' = JInt (ps_latest_version s)))"

fun check_identities :: "page_state list \<Rightarrow> unit res" where
  "check_identities [] = Inr ()"
| "check_identities (s # states) =
     (case canonical_page_id (ps_page_id s) of
        Inl e \<Rightarrow> Inl e
      | Inr _ \<Rightarrow>
          if ps_path s \<noteq> ps_page_id s
          then Inl (ValueError (''page path must match canonical page ID '' @ py_repr (ps_page_id s)))
          else if ps_latest_artifact_id s = None \<or> ps_latest_version s < 1
          then Inl (ValueError (''passed page '' @ py_repr (ps_page_id s) @
                 '' has no accepted artifact identity''))
          else check_identities states)"

fun check_artifacts :: "string \<Rightarrow> jobj \<Rightarrow> page_state list \<Rightarrow> db \<Rightarrow> unit res" where
  "check_artifacts run_id snapshot [] d = Inr ()"
| "check_artifacts run_id snapshot (s # states) d =
     (case current_artifact run_id (ps_page_id s) (Some (ps_latest_version s))
             (ps_latest_artifact_id s) d of
        Inl e \<Rightarrow> Inl e
      | Inr a \<Rightarrow>
          (case snapshot_entry snapshot (ps_page_id s) of
             Some entry \<Rightarrow>
               if jget entry ''content_hash'' \<notin> {JNull, JStr (da_content_hash a)}
               then Inl (ValueError (''review snapshot for '' @ py_repr (ps_page_id s) @
                      '' is no longer current''))
               else check_artifacts run_id snapshot states d
           | None \<Rightarrow> check_artifacts run_id snapshot states d))"

definition load_page_plan :: "schema \<Rightarrow> string \<Rightarrow> page_state \<Rightarrow> db \<Rightarrow> doc_task res" where
  "load_page_plan sc run_id s d =
     (case List.map_filter (\<lambda>t. if wt_page_id t = Some (ps_page_id s)
              then (case jget (wt_input_data t) ''task'' of JObj raw \<Rightarrow> Some raw | _ \<Rightarrow> None)
              else None) (get_tasks run_id d) of
        raw # _ \<Rightarrow> sc_task sc raw
      | [] \<Rightarrow> Inr \<lparr>dt_id = ps_page_id s, dt_path = ps_path s, dt_action = ps_action s,
                  dt_reason = ''Apply cross-page review correction'', dt_related_symbols = [],
                  dt_evidence = [], dt_requirements = [], dt_bundle_id = None,
                  dt_repository = None, dt_head_sha = None\<rparr>)"

definition correction_schedule ::
  "schema \<Rightarrow> page_state \<Rightarrow> doc_task \<Rightarrow> string list \<Rightarrow> revision_schedule" where
  "correction_schedule sc s page instructions =
     \<lparr>rs_page_id = ps_page_id s, rs_source_artifact_id = str_opt (ps_latest_artifact_id s),
      rs_source_version = ps_latest_version s, rs_attempt = ps_evaluation_attempt s + 1,
      rs_write_input =
        [(''task'', JObj (sc_dump_task sc page)),
         (''reviewer_instructions'', JList (map JStr instructions))],
      rs_evaluate_input =
        [(''task'', JObj (sc_dump_task sc page)),
         (''evidence'', JList (map JObj (dt_evidence page))),
         (''attempt'', JInt (ps_evaluation_attempt s + 1)),
         (''reviewer_instructions'', JList (map JStr instructions))]\<rparr>"

fun validate_corrections ::
  "reviewer_env \<Rightarrow> string \<Rightarrow> page_state list \<Rightarrow> string list \<Rightarrow> correction list \<Rightarrow> db
     \<Rightarrow> revision_schedule list res" where
  "validate_corrections ve run_id states corrected [] d = Inr []"
| "validate_corrections ve run_id states corrected (c # cs) d =
     (case find (\<lambda>s. ps_page_id s = co_task_id c) states of
        None \<Rightarrow> Inl (ValueError ''cross-page corrections must name known page IDs'')
      | Some s \<Rightarrow>
          if co_path c \<noteq> ps_path s
          then Inl (ValueError ''cross-page corrections must name known page IDs'')
          else if co_task_id c \<in> set corrected
          then validate_corrections ve run_id states corrected cs d
          else if ve_max_attempts ve < ps_evaluation_attempt s + 1
          then Inl (ValueError (''automatic evaluation attempt cannot exceed '' @
                 show_int (ve_max_attempts ve)))
          else
            case load_page_plan (ve_schema ve) run_id s d of
              Inl e \<Rightarrow> Inl e
            | Inr page \<Rightarrow>
                (case validate_corrections ve run_id states (co_task_id c # corrected) cs d of
                   Inl e \<Rightarrow> Inl e
                 | Inr rest \<Rightarrow>
                     Inr (correction_schedule (ve_schema ve) s page
                            (filter (\<lambda>i. strip i \<noteq> []) (co_instructions c)) # rest)))"

definition review_outcome :: "bool \<Rightarrow> string list \<Rightarrow> json" where
  "review_outcome passed ids =
     JObj [(''passed'', JBool passed), (''corrected_page_ids'', JList (map JStr ids))]"

definition apply_verdict ::
  "reviewer_env \<Rightarrow> workflow_task \<Rightarrow> page_state list \<Rightarrow> verdict \<Rightarrow> db \<Rightarrow> json res \<times> db" where
  "apply_verdict ve t states v d =
     (if vd_verdict v = ''clean''
      then (if vd_corrections v \<noteq> []
            then Inl (ValueError ''clean cross-page verdict cannot contain corrections'')
            else Inr (review_outcome True []), d)
      else if vd_verdict v \<noteq> ''correct'' \<or> vd_corrections v = []
      then (Inl (ValueError ''cross-page corrections must name known page IDs''), d)
      else
        case validate_corrections ve (wt_run_id t) states [] (vd_corrections v) d of
          Inl e \<Rightarrow> (Inl e, d)
        | Inr revisions \<Rightarrow>
            (case schedule_revisions (wt_run_id t) (wt_org_id t) revisions (ve_now ve) d of
               Inl e \<Rightarrow> (Inl e, d)
             | Inr (_, d') \<Rightarrow> (Inr (review_outcome False (map rs_page_id revisions)), d')))"

definition review_pages :: "reviewer_env \<Rightarrow> workflow_task \<Rightarrow> db \<Rightarrow> json res \<times> db" where
  "review_pages ve t d =
     (let states = get_page_states (wt_run_id t) d;
          snapshot = (case jget (wt_input_data t) ''artifact_snapshot'' of JObj s \<Rightarrow> s | _ \<Rightarrow> [])
      in if states = [] \<or> \<not> list_all (reviewable snapshot) states
         then (Inl (ValueError ''cross-page review starts only after every page has passed''), d)
         else
           case check_identities states of
             Inl e \<Rightarrow> (Inl e, d)
           | Inr _ \<Rightarrow>
               (case check_artifacts (wt_run_id t) snapshot states d of
                  Inl e \<Rightarrow> (Inl e, d)
                | Inr _ \<Rightarrow>
                    (case ve_reviewer ve of
                       None \<Rightarrow> (Inl (ValueError ''cross-page reviewer is unavailable''), d)
                     | Some (Inl e) \<Rightarrow> (Inl e, d)
                     | Some (Inr None) \<Rightarrow>
                         (Inl (ValueError ''cross-page reviewer returned no verdict''), d)
                     | Some (Inr (Some v)) \<Rightarrow> apply_verdict ve t states v d)))"

section \<open>The writer's budget\<close>

definition attempt_fuel :: "nat \<Rightarrow> nat \<Rightarrow> string \<Rightarrow> attempts \<Rightarrow> nat" where
  "attempt_fuel max_write_attempts max_tracked task_id attempts =
     (if max_tracked < length attempts then max_write_attempts
      else case map_of attempts task_id of
             None \<Rightarrow> max_write_attempts + 1
           | Some n \<Rightarrow> max_write_attempts - n)"

lemma map_of_charge:
  "k \<in> fst ` set t \<Longrightarrow> map_of (map (\<lambda>(x, n). (x, if x = k then v else n)) t) k = Some v"
  by (induction t) auto

lemma spend_attempt_fuel:
  assumes "spend_attempt mx tr k t = (None, t')" and "0 < mx" and "0 < tr"
  shows "attempt_fuel mx tr k t' < attempt_fuel mx tr k t"
proof (cases "tr < length t")
  case True
  with assms have "t' = [(k, 1)]" by (auto simp: spend_attempt_def Let_def split: if_splits)
  with True assms(2,3) show ?thesis by (simp add: attempt_fuel_def)
next
  case False
  show ?thesis
  proof (cases "map_of t k")
    case None
    then have "k \<notin> fst ` set t" by (simp add: map_of_eq_None_iff)
    with assms(1) None False have "t' = t @ [(k, 1)]"
      by (auto simp: spend_attempt_def Let_def split: if_splits)
    with None False show ?thesis by (auto simp: attempt_fuel_def map_add_Some_iff split: option.splits)
  next
    case (Some n)
    then have k: "k \<in> fst ` set t" by (metis map_of_eq_None_iff option.distinct(1))
    with assms(1) Some False have "t' = map (\<lambda>(x, m). (x, if x = k then n + 1 else m)) t"
      and "n + 1 \<le> mx"
      by (auto simp: spend_attempt_def Let_def split: if_splits)
    with Some False k show ?thesis by (simp add: attempt_fuel_def map_of_charge)
  qed
qed

interpretation writing: fuelled_loop "invoke_round mx tr page k" "\<lambda>_. True"
  "\<lambda>_. 0 < mx \<and> 0 < tr" "\<lambda>s. attempt_fuel mx tr k (fst (snd (snd s)))" for mx tr page k
proof unfold_locales
  fix s e s'
  assume "0 < mx \<and> 0 < tr" and r: "invoke_round mx tr page k e s = Inr s'"
  then have m: "0 < mx" "0 < tr" by simp_all
  obtain p pr t d where s: "s = (p, pr, t, d)" by (cases s)
  obtain x t' where sp: "spend_attempt mx tr k t = (x, t')" by fastforce
  with r have "x = None" and "fst (snd (snd s')) = t'"
    by (auto simp: invoke_round_def s Let_def split: option.splits prod.splits writer_reply.splits)
  with sp spend_attempt_fuel [of mx tr k t t'] m s
  show "attempt_fuel mx tr k (fst (snd (snd s'))) < attempt_fuel mx tr k (fst (snd (snd s)))"
    by simp
qed simp

lemma attempt_fuel_le: "attempt_fuel mx tr k t \<le> mx + 1"
  by (auto simp: attempt_fuel_def split: option.splits)

text \<open>
  Writing a page always ends: however often the model truncates its answers, a write task
  returns or raises after at most one writer invocation more than the budget (the extra one only
  when the attempt table overflows in between), resumes and infrastructure retries counted together.
\<close>

theorem write_page_terminates:
  assumes "0 < we_max_write_attempts we" and "0 < we_max_tracked_tasks we"
    and "we_max_write_attempts we + 1 < length (we_agents we)"
  shows "\<exists>out attempts' d'. write_page we t attempts d = Some (out, attempts', d')"
proof -
  have inv: "\<exists>r. invoke_writer (we_max_write_attempts we) (we_max_tracked_tasks we) page k
      (we_agents we) s = Some r" for page k s
    unfolding invoke_writer_def
    using assms attempt_fuel_le [of "we_max_write_attempts we" "we_max_tracked_tasks we" k "fst (snd (snd s))"]
    by (intro writing.terminates) auto
  have "write_new we t page v a d \<noteq> None" for page v a d
    using inv [of page "wt_task_id t"]
    by (auto simp: write_new_def Let_def split: sum.splits option.splits prod.splits) (metis option.distinct(1))
  then show ?thesis
    by (fastforce simp: write_page_def Let_def not_None_eq split: sum.splits option.splits prod.splits)
qed

text \<open>What a successful promotion leaves in the page table.\<close>

definition promoted :: "string \<Rightarrow> string \<Rightarrow> document_artifact \<Rightarrow> int \<Rightarrow> db \<Rightarrow> bool" where
  "promoted run_id page_id a version d \<longleftrightarrow>
     list_ex (\<lambda>r. page_key r = (run_id, page_id) \<and> ps_latest_artifact_id r = Some (da_artifact_id a)
                \<and> ps_latest_version r = version \<and> ps_status r = EVALUATING) (db_pages d)"

lemma promote_Inr:
  assumes "promote now t page v a d = (Inr out, d')"
  shows "out = artifact_json a \<and> promoted (wt_run_id t) (dt_id page) a v d'"
proof -
  from assms have out: "out = artifact_json a"
    and r: "record_artifact (wt_run_id t) (dt_id page) (da_artifact_id a) v now d = Inr d'"
    by (auto simp: promote_def split: sum.splits)
  let ?p = "promotes (wt_run_id t) (dt_id page) (da_artifact_id a) v"
  from r have "length (filter ?p (db_pages d)) = 1"
    and d': "db_pages d' = upd_where ?p (\<lambda>r. r\<lparr>ps_latest_artifact_id := Some (da_artifact_id a),
        ps_latest_version := v, ps_status := EVALUATING, ps_updated_at := now\<rparr>) (db_pages d)"
    by (auto simp: record_artifact_def Let_def split: if_splits)
  then have "filter ?p (db_pages d) \<noteq> []" by auto
  then obtain x where "x \<in> set (db_pages d)" "?p x" by (auto simp: filter_empty_conv)
  let ?f = "\<lambda>r. r\<lparr>ps_latest_artifact_id := Some (da_artifact_id a), ps_latest_version := v,
      ps_status := EVALUATING, ps_updated_at := now\<rparr>"
  have "?f x \<in> set (db_pages d')"
    using \<open>x \<in> set (db_pages d)\<close> \<open>?p x\<close> by (simp add: d' set_upd_where)
  moreover have "page_key x = (wt_run_id t, dt_id page)"
    using \<open>?p x\<close> by (simp add: promotes_def)
  ultimately have "promoted (wt_run_id t) (dt_id page) a v d'"
    unfolding promoted_def list_ex_iff by (intro bexI [of _ "?f x"]) simp_all
  with out show ?thesis by simp
qed

lemma current_artifact_Inr:
  assumes "current_artifact run pg (Some v) i d = Inr a"
  shows "da_version a = v \<and> strip (da_content a) \<noteq> [] \<and> valid_document_artifact a"
  using assms
  by (auto simp: current_artifact_def artifact_def Let_def split: option.splits sum.splits if_splits)

text \<open>
  A write task that succeeds has promoted exactly what it reports: a valid sealed artifact of
  the task's own version with a non-blank body is now the page's current artifact and the page is
  under evaluation.
\<close>

theorem write_page_promotes:
  assumes "write_page we t attempts d = Some (Inr out, attempts', d')"
  shows "\<exists>page version a. document_task (we_schema we) t = Inr page
    \<and> wt_artifact_version t = Some version \<and> out = artifact_json a
    \<and> da_version a = version \<and> valid_document_artifact a \<and> strip (da_content a) \<noteq> []
    \<and> promoted (wt_run_id t) (dt_id page) a version d'"
proof -
  have new: "\<exists>a. out = artifact_json a \<and> da_version a = v \<and> valid_document_artifact a
      \<and> strip (da_content a) \<noteq> [] \<and> promoted (wt_run_id t) (dt_id page) a v d'"
    if "write_new we t page v ats d1 = Some (Inr out, attempts', d')" for page v ats d1
    using that current_artifact_Inr promote_Inr
    by (fastforce simp: write_new_def Let_def split: sum.splits option.splits prod.splits)
  obtain page v where pv: "document_task (we_schema we) t = Inr page" "wt_artifact_version t = Some v"
    using assms by (auto simp: write_page_def split: sum.splits option.splits)
  obtain f d1 where pr: "prepare_versioned_write (wt_run_id t) (dt_id page) v d = (f, d1)" by fastforce
  show ?thesis
  proof (cases "write_new we t page v attempts d1 = Some (Inr out, attempts', d')")
    case True
    with new pv show ?thesis by blast
  next
    case False
    with assms pv pr obtain fl a where f: "f = Some fl" "df_version fl = Some v"
      and a: "artifact (dt_id page) fl = Inr a" "strip (da_content a) \<noteq> []"
      and p: "promote (we_now we) t page v a d1 = (Inr out, d')"
      by (auto simp: write_page_def Let_def split: option.splits if_splits sum.splits prod.splits)
    from a(1) f(2) have "da_version a = v" "valid_document_artifact a"
      by (auto simp: artifact_def Let_def split: option.splits if_splits)
    with promote_Inr [OF p] a(2) pv show ?thesis by blast
  qed
qed

section \<open>What evaluation and review may schedule\<close>

lemma enqueue_new:
  "u \<in> set (db_tasks (enqueue_task run tid org ty pg v deps inp now d)) \<Longrightarrow> u \<notin> set (db_tasks d) \<Longrightarrow>
     u = pending_task run tid org ty pg v deps inp now"
  by (auto simp: enqueue_task_def insert_new_def split: if_splits)

lemma schedule_one_new:
  assumes "u \<in> set (db_tasks (schedule_one run org now rn d))" and "u \<notin> set (db_tasks d)"
  shows "\<exists>tid ty deps inp. u = pending_task run tid org ty (Some (rs_page_id rn))
           (Some (rs_source_version rn + 1)) deps inp now
         \<and> (ty = ''write'' \<or> ty = ''evaluate'' \<and> inp = rs_evaluate_input rn)"
proof -
  let ?v = "rs_source_version rn + 1" and ?pg = "rs_page_id rn"
  define d1 where "d1 = enqueue_task run (write_task_id ?pg ?v) org ''write'' (Some ?pg) (Some ?v) []
      (rs_write_input rn) now d"
  have so: "db_tasks (schedule_one run org now rn d) = db_tasks (enqueue_task run
      (evaluate_task_id ?pg ?v) org ''evaluate'' (Some ?pg) (Some ?v) [write_task_id ?pg ?v]
      (rs_evaluate_input rn) now d1)"
    by (simp add: d1_def schedule_one_def schedule_pair_def enqueue_task_def Let_def)
  show ?thesis
  proof (cases "u \<in> set (db_tasks d1)")
    case True
    with assms(2) have "u = pending_task run (write_task_id ?pg ?v) org ''write'' (Some ?pg) (Some ?v) []
        (rs_write_input rn) now" unfolding d1_def by (intro enqueue_new) simp_all
    then show ?thesis by blast
  next
    case False
    with assms(1) have "u = pending_task run (evaluate_task_id ?pg ?v) org ''evaluate'' (Some ?pg)
        (Some ?v) [write_task_id ?pg ?v] (rs_evaluate_input rn) now"
      unfolding so by (intro enqueue_new)
    then show ?thesis by blast
  qed
qed

lemma record_evaluation_tasks:
  "record_evaluation res r org now d = Inr d' \<Longrightarrow> db_tasks d' = db_tasks d"
  using record_evaluation_project project_evaluation_tasks by metis

lemma evaluation_of_Inr:
  assumes "evaluation_of ee t page v d = Inr res"
  shows "pe_page_id res = dt_id page \<and> pe_version res = v \<and> 1 \<le> pe_attempt res
    \<and> (pe_status res = EvRevisionRequired \<longrightarrow>
         pe_attempt res < ee_max_attempts ee \<and> \<not> py_truth (jget (wt_input_data t) ''human_guided''))"
proof -
  let ?hg = "py_truth (jget (wt_input_data t) ''human_guided'')"
  obtain n a evs ms where n: "1 \<le> n" "n \<le> ee_max_attempts ee"
    and a: "current_artifact (wt_run_id t) (dt_id page) (Some v) None d = Inr a"
    and res: "pe_page_id res = dt_id page" "pe_version res = da_version a" "pe_attempt res = n"
      "pe_status res = fst (page_verdict (ee_max_attempts ee) n ?hg evs ms (ee_grade ee (da_content a) evs))"
    using assms
    by (auto simp: evaluation_of_def Let_def not_less split: sum.splits if_splits json.splits prod.splits)
  show ?thesis
    using n res current_artifact_Inr [OF a]
    by (auto simp: page_verdict_def Let_def split: if_splits)
qed

lemma document_task_page:
  "document_task sc t = Inr page \<Longrightarrow> wt_page_id t = Some (dt_id page)"
  by (auto simp: document_task_def split: json.splits sum.splits option.splits if_splits)

lemma schedule_revision_new:
  assumes "schedule_revision ee t page res d = Inr d'"
    and "u \<in> set (db_tasks d')" "u \<notin> set (db_tasks d)"
  shows "wt_status u = TPending \<and> wt_run_id u = wt_run_id t \<and> wt_page_id u = Some (dt_id page)
    \<and> wt_artifact_version u = Some (pe_version res + 1)
    \<and> (wt_task_type u = ''write'' \<or> wt_task_type u = ''evaluate''
         \<and> jget (wt_input_data u) ''attempt'' = JInt (pe_attempt res + 1))"
proof -
  obtain ins vs where "schedule_revisions (wt_run_id t) (wt_org_id t)
      [revision_of (ee_schema ee) t page res ins] (ee_now ee) d = Inr (vs, d')"
    using assms(1) by (auto simp: schedule_revision_def Let_def split: sum.splits if_splits)
  then have "d' = schedule_one (wt_run_id t) (wt_org_id t) (ee_now ee)
      (revision_of (ee_schema ee) t page res ins) d"
    unfolding schedule_revisions_iff by simp
  from schedule_one_new [OF assms(2,3) [unfolded this]] show ?thesis
    by (auto simp: pending_task_def revision_of_def)
qed

lemma schedule_review_new:
  assumes "schedule_review_if_ready ee t page d = Inr d'"
    and "u \<in> set (db_tasks d')" "u \<notin> set (db_tasks d)"
  shows "wt_status u = TPending \<and> wt_run_id u = wt_run_id t \<and> wt_task_type u = ''cross_page_review''
    \<and> wt_dependencies u = [wt_task_id t]
    \<and> list_all (\<lambda>s. ps_status s = PASSED) (get_page_states (wt_run_id t) d')"
proof -
  obtain tid inp where d': "d' = enqueue_task (wt_run_id t) tid (wt_org_id t) ''cross_page_review'' None
      None [wt_task_id t] inp (ee_now ee) d"
    and "list_all (\<lambda>s. ps_status s = PASSED) (get_page_states (wt_run_id t) d)"
    using assms
    by (auto simp: schedule_review_if_ready_def Let_def list_ex_iff list_all_iff
        split: sum.splits if_splits)
  moreover have "get_page_states (wt_run_id t) d' = get_page_states (wt_run_id t) d"
    by (simp add: d' get_page_states_def enqueue_task_def)
  moreover have "u = pending_task (wt_run_id t) tid (wt_org_id t) ''cross_page_review'' None None
      [wt_task_id t] inp (ee_now ee)"
    using assms(2,3) unfolding d' by (rule enqueue_new)
  ultimately show ?thesis by (simp add: pending_task_def)
qed

text \<open>
  The evaluator stays within the automatic budget: every task an evaluation adds is pending
  and is either the cross-page review, added only when every page of the run has passed, or a
  write or evaluation of the same page's next version, added only for a page that is not under
  human guidance, whose attempt is the next one and no greater than the configured maximum.
\<close>

theorem evaluator_stays_in_budget:
  assumes "evaluate_page ee t d = (out, d')" and "u \<in> set (db_tasks d')" and "u \<notin> set (db_tasks d)"
  shows "wt_status u = TPending \<and> wt_run_id u = wt_run_id t \<and>
    (if wt_task_type u = ''cross_page_review''
     then wt_dependencies u = [wt_task_id t]
          \<and> list_all (\<lambda>s. ps_status s = PASSED) (get_page_states (wt_run_id t) d')
     else wt_page_id u = wt_page_id t \<and> \<not> py_truth (jget (wt_input_data t) ''human_guided'')
          \<and> wt_artifact_version u = map_option (\<lambda>v. v + 1) (wt_artifact_version t)
          \<and> (wt_task_type u = ''write'' \<or> wt_task_type u = ''evaluate''
               \<and> (\<exists>a. jget (wt_input_data u) ''attempt'' = JInt a \<and> 2 \<le> a \<and> a \<le> ee_max_attempts ee)))"
proof -
  have "d' \<noteq> d" using assms(2,3) by blast
  then obtain page v res d1 where pg: "document_task (ee_schema ee) t = Inr page"
      and v: "wt_artifact_version t = Some v" and ev: "evaluation_of ee t page v d = Inr res"
      and re: "record_evaluation res (Some (wt_run_id t)) (Some (wt_org_id t)) (ee_now ee) d = Inr d1"
    using assms(1) by (auto simp: evaluate_page_def split: sum.splits option.splits)
  have t1: "u \<notin> set (db_tasks d1)" using assms(3) record_evaluation_tasks [OF re] by simp
  note e = evaluation_of_Inr [OF ev] and pid = document_task_page [OF pg]
  show ?thesis
  proof (cases "pe_status res")
    case EvRevisionRequired
    then have "schedule_revision ee t page res d1 = Inr d' \<or> d' = d1"
      using assms(1) pg v ev re by (auto simp: evaluate_page_def split: sum.splits)
    then have "schedule_revision ee t page res d1 = Inr d'" using t1 assms(2) by auto
    from schedule_revision_new [OF this assms(2) t1] e pid v EvRevisionRequired show ?thesis by auto
  next
    case EvPassed
    then have "schedule_review_if_ready ee t page d1 = Inr d' \<or> d' = d1"
      using assms(1) pg v ev re by (auto simp: evaluate_page_def split: sum.splits)
    then have "schedule_review_if_ready ee t page d1 = Inr d'" using t1 assms(2) by auto
    from schedule_review_new [OF this assms(2) t1] show ?thesis by simp
  next
    case EvAwaitingHumanReview
    then have "d' = d1" using assms(1) pg v ev re by (simp add: evaluate_page_def)
    with t1 assms(2) show ?thesis by simp
  qed
qed

lemma validate_corrections_Inr:
  assumes "validate_corrections ve run states corrected cs d = Inr rns"
  shows "distinct (map rs_page_id rns) \<and> set (map rs_page_id rns) \<inter> set corrected = {}
    \<and> list_all (\<lambda>rn. list_ex (\<lambda>s. ps_page_id s = rs_page_id rn
         \<and> rs_attempt rn = ps_evaluation_attempt s + 1
         \<and> ps_evaluation_attempt s < ve_max_attempts ve) states) rns
    \<and> set (map rs_page_id rns) \<subseteq> set (map co_task_id cs)"
  using assms
proof (induction cs arbitrary: corrected rns)
  case Nil
  then show ?case by simp
next
  case (Cons c cs)
  from Cons.prems obtain s where s: "find (\<lambda>s. ps_page_id s = co_task_id c) states = Some s"
    by (auto split: option.splits)
  then have s_in: "s \<in> set states" "ps_page_id s = co_task_id c" by (auto dest: find_Some_in)
  show ?case
  proof (cases "co_task_id c \<in> set corrected")
    case True
    with Cons.prems s have "validate_corrections ve run states corrected cs d = Inr rns"
      by (auto split: if_splits)
    from Cons.IH [OF this] show ?thesis by auto
  next
    case False
    with Cons.prems s obtain page rest where
      r: "validate_corrections ve run states (co_task_id c # corrected) cs d = Inr rest"
      "rns = correction_schedule (ve_schema ve) s page
         (filter (\<lambda>i. strip i \<noteq> []) (co_instructions c)) # rest"
      and att: "ps_evaluation_attempt s + 1 \<le> ve_max_attempts ve"
      by (auto simp: not_less split: if_splits sum.splits)
    note ih = Cons.IH [OF r(1)]
    have hd: "rs_page_id (hd rns) = co_task_id c" "rs_attempt (hd rns) = ps_evaluation_attempt s + 1"
      using s_in by (simp_all add: r(2) correction_schedule_def)
    have "list_ex (\<lambda>s. ps_page_id s = rs_page_id (hd rns)
         \<and> rs_attempt (hd rns) = ps_evaluation_attempt s + 1
         \<and> ps_evaluation_attempt s < ve_max_attempts ve) states"
      using s_in att hd by (auto simp: list_ex_iff intro!: bexI [of _ s])
    with ih False hd show ?thesis by (auto simp: r(2))
  qed
qed

lemma fold_other_pages:
  "filter (\<lambda>r. \<not> (ps_run_id r = run \<and> ps_page_id r \<in> P)) (db_pages (fold (schedule_one run org now) rns d))
     = filter (\<lambda>r. \<not> (ps_run_id r = run \<and> ps_page_id r \<in> P)) (db_pages d)"
  if "rs_page_id ` set rns \<subseteq> P"
  using that
proof (induction rns arbitrary: d)
  case (Cons rn rns)
  have one: "filter (\<lambda>r. \<not> (ps_run_id r = run \<and> ps_page_id r \<in> P))
        (upd_where (\<lambda>r. page_key r = (run, pg)) f t)
      = filter (\<lambda>r. \<not> (ps_run_id r = run \<and> ps_page_id r \<in> P)) t"
    if "pg \<in> P" "\<And>r. page_key (f r) = page_key r" for pg f and t :: "page_state list"
    using that by (induction t) (auto simp: upd_where_def)
  have "filter (\<lambda>r. \<not> (ps_run_id r = run \<and> ps_page_id r \<in> P)) (db_pages (schedule_one run org now rn d))
      = filter (\<lambda>r. \<not> (ps_run_id r = run \<and> ps_page_id r \<in> P)) (db_pages d)"
    unfolding schedule_one_def schedule_pair_pages using Cons.prems by (intro one) simp_all
  with Cons.IH [of "schedule_one run org now rn d"] Cons.prems show ?case by simp
qed simp

text \<open>
  The cross-page reviewer touches only pages it names: it changes the database at most when
  every page of the run is reviewable, and then exactly by scheduling, for a duplicate-free
  non-empty list of known pages with automatic attempts left, their next revision; no other page
  row changes.
\<close>

theorem review_corrects_only_named_pages:
  assumes "review_pages ve t d = (out, d')" and "d' \<noteq> d"
  shows "\<exists>ids. out = Inr (review_outcome False ids) \<and> distinct ids \<and> ids \<noteq> []
    \<and> list_all (\<lambda>s. ps_status s \<in> {PASSED, REVISING}) (get_page_states (wt_run_id t) d)
    \<and> list_all (\<lambda>i. list_ex (\<lambda>s. ps_page_id s = i \<and> ps_evaluation_attempt s < ve_max_attempts ve)
         (get_page_states (wt_run_id t) d)) ids
    \<and> filter (\<lambda>r. \<not> (ps_run_id r = wt_run_id t \<and> ps_page_id r \<in> set ids)) (db_pages d')
      = filter (\<lambda>r. \<not> (ps_run_id r = wt_run_id t \<and> ps_page_id r \<in> set ids)) (db_pages d)"
proof -
  let ?states = "get_page_states (wt_run_id t) d"
  obtain v snap where "list_all (reviewable snap) ?states"
    and v: "apply_verdict ve t ?states v d = (out, d')"
    using assms by (fastforce simp: review_pages_def Let_def split: if_splits sum.splits option.splits)
  then have st: "list_all (\<lambda>s. ps_status s \<in> {PASSED, REVISING}) ?states"
    by (auto simp: list_all_iff reviewable_def)
  obtain rns vs where rns: "validate_corrections ve (wt_run_id t) ?states [] (vd_corrections v) d = Inr rns"
    and sr: "schedule_revisions (wt_run_id t) (wt_org_id t) rns (ve_now ve) d = Inr (vs, d')"
    and out: "out = Inr (review_outcome False (map rs_page_id rns))"
    using v assms(2) by (auto simp: apply_verdict_def split: if_splits sum.splits)
  have "rns \<noteq> []" using sr assms(2) by (auto simp: schedule_revisions_def)
  moreover have d': "d' = fold (schedule_one (wt_run_id t) (wt_org_id t) (ve_now ve)) rns d"
    using sr by (simp add: schedule_revisions_iff)
  have "filter (\<lambda>r. \<not> (ps_run_id r = wt_run_id t \<and> ps_page_id r \<in> set (map rs_page_id rns))) (db_pages d')
      = filter (\<lambda>r. \<not> (ps_run_id r = wt_run_id t \<and> ps_page_id r \<in> set (map rs_page_id rns))) (db_pages d)"
    unfolding d' by (rule fold_other_pages) simp
  moreover have "list_all (\<lambda>i. list_ex (\<lambda>s. ps_page_id s = i \<and> ps_evaluation_attempt s < ve_max_attempts ve)
         ?states) (map rs_page_id rns)"
    using validate_corrections_Inr [OF rns] by (auto simp: list_all_iff list_ex_iff)
  ultimately show ?thesis using out st validate_corrections_Inr [OF rns] by blast
qed

section \<open>Instances\<close>

definition hash64 :: "string \<Rightarrow> string" where
  "hash64 s = replicate 64 (CHR ''a'')"

definition sample_plan :: doc_task where
  "sample_plan =
     \<lparr>dt_id = ''a.md'', dt_path = ''a.md'', dt_action = ''create'', dt_reason = [],
      dt_related_symbols = [], dt_evidence = [[(''id'', JStr ''src/oauth.py'')]], dt_requirements = [],
      dt_bundle_id = None, dt_repository = None, dt_head_sha = None\<rparr>"

definition sample_schema :: schema where
  "sample_schema =
     \<lparr>sc_task = (\<lambda>_. Inr sample_plan), sc_dump_task = (\<lambda>_. [(''id'', JStr ''a.md'')]),
      sc_evaluation = (\<lambda>_. Inl (ValueError ''evaluation'')), sc_dump_evaluation = (\<lambda>_. [])\<rparr>"

definition sample_agent :: invocation where
  "sample_agent p progress d =
     (case write_session hash64 ''u1'' ''r'' ''o'' 1 ''a.md'' ''create'' 1 3 [''body''] d of
        Inl e \<Rightarrow> (WriterFailed e, progress, d)
      | Inr (_, d') \<Rightarrow>
          (WriterDone, \<lparr>dp_draft_id = Some ''u1'', dp_chunks = 1, dp_sealed = True\<rparr>, d'))"

definition truncating :: invocation where
  "truncating p progress d = (MaxTokensReached, progress, d)"

definition sample_writer :: "invocation list \<Rightarrow> writer_env" where
  "sample_writer agents =
     \<lparr>we_schema = sample_schema, we_documents = None, we_max_write_attempts = 2,
      we_max_tracked_tasks = 1024, we_agents = agents, we_now = 3\<rparr>"

definition sample_task :: "string \<Rightarrow> workflow_task" where
  "sample_task ty =
     pending_task ''r'' (ty @ '':a.md:1'') ''o'' ty (Some ''a.md'') (Some 1) []
       [(''task'', JObj [(''id'', JStr ''a.md'')])] 1"

definition sample_written_page :: db where
  "sample_written_page =
     (case write_page (sample_writer [truncating, sample_agent]) (sample_task ''write'') [] sample_claimed of
        Some (_, _, d) \<Rightarrow> d | None \<Rightarrow> empty_db)"

definition sample_evaluator :: evaluator_env where
  "sample_evaluator =
     \<lparr>ee_schema = sample_schema, ee_max_attempts = 3, ee_grade = (\<lambda>_ _. Inr [''cite the source'']),
      ee_fmt2 = (\<lambda>_. ''0.00''), ee_snapshot_digest = (\<lambda>_. ''0123456789abcdef''), ee_now = 5\<rparr>"

theorem write_page_terminates_witness:
  "\<exists>out attempts' d'. write_page (sample_writer (replicate 4 truncating)) (sample_task ''write'') []
     sample_claimed = Some (out, attempts', d')"
  by (rule write_page_terminates) (simp_all add: sample_writer_def)

lemma sample_write:
  "write_page (sample_writer [truncating, sample_agent]) (sample_task ''write'') [] sample_claimed
     = Some (Inr (JObj [(''page_id'', JStr ''a.md''), (''path'', JStr ''a.md''),
           (''artifact_id'', JStr ''u1''), (''version'', JInt 1),
           (''content_hash'', JStr (replicate 64 (CHR ''a''))), (''action'', JStr ''create'')]),
         [(''write:a.md:1'', 2)], sample_written_page)"
  by code_simp

theorem write_page_promotes_witness:
  "\<exists>page version a. document_task sample_schema (sample_task ''write'') = Inr page
     \<and> wt_artifact_version (sample_task ''write'') = Some version
     \<and> promoted ''r'' (dt_id page) a version sample_written_page"
  using write_page_promotes [OF sample_write]
  by (auto simp: sample_writer_def sample_task_def pending_task_def)

theorem evaluator_stays_in_budget_witness:
  "let d' = snd (evaluate_page sample_evaluator (sample_task ''evaluate'') sample_written_page)
   in \<exists>u a. u \<in> set (db_tasks d') \<and> jget (wt_input_data u) ''attempt'' = JInt a \<and> a \<le> 3"
proof -
  let ?t = "sample_task ''evaluate''"
  let ?d' = "snd (evaluate_page sample_evaluator ?t sample_written_page)"
  let ?u = "last (db_tasks ?d')"
  have u: "?u \<in> set (db_tasks ?d')" by code_simp
  have "?u \<notin> set (db_tasks sample_written_page)" by code_simp
  from evaluator_stays_in_budget [OF prod.collapse [symmetric] u this]
  have "wt_task_type ?u = ''evaluate'' \<Longrightarrow>
      \<exists>a. jget (wt_input_data ?u) ''attempt'' = JInt a \<and> a \<le> ee_max_attempts sample_evaluator"
    by auto
  moreover have "wt_task_type ?u = ''evaluate''" by code_simp
  ultimately show ?thesis using u by (auto simp: Let_def sample_evaluator_def)
qed

definition sample_passed_page :: db where
  "sample_passed_page =
     (case record_evaluation \<lparr>pe_page_id = ''a.md'', pe_artifact_id = ''u1'', pe_version = 1,
             pe_content_hash = replicate 64 (CHR ''a''), pe_attempt = 1, pe_status = EvPassed,
             pe_score = 1, pe_metrics = [], pe_revision_feedback = []\<rparr>
           (Some ''r'') (Some ''o'') 6 sample_written_page of
        Inl _ \<Rightarrow> empty_db | Inr d \<Rightarrow> d)"

definition sample_reviewer :: reviewer_env where
  "sample_reviewer =
     \<lparr>ve_schema = sample_schema, ve_max_attempts = 3,
      ve_reviewer = Some (Inr (Some \<lparr>vd_verdict = ''correct'', vd_corrections =
        [\<lparr>co_task_id = ''a.md'', co_path = ''a.md'', co_instructions = [''link the guide'']\<rparr>]\<rparr>)),
      ve_now = 7\<rparr>"

theorem review_corrects_only_named_pages_witness:
  "\<exists>ids. fst (review_pages sample_reviewer (sample_task ''cross_page_review'') sample_passed_page)
       = Inr (review_outcome False ids) \<and> distinct ids \<and> ids \<noteq> []"
proof -
  let ?t = "sample_task ''cross_page_review''"
  have "length (db_tasks (snd (review_pages sample_reviewer ?t sample_passed_page)))
      \<noteq> length (db_tasks sample_passed_page)" by code_simp
  then have "snd (review_pages sample_reviewer ?t sample_passed_page) \<noteq> sample_passed_page" by auto
  from review_corrects_only_named_pages [OF prod.collapse [symmetric] this] show ?thesis by blast
qed

end
