(* ===== verification/Page_Node.thy ===== *)
theory Page_Node
  imports Page_Executor Page_Handlers
begin

text \<open>
  The graph node of the page workflow (\<^verbatim>\<open>src/draftly/orchestration/page_workflow/node.py\<close>): seeding a
  run, driving it to its report, and resuming it after a human decision, with the progress
  events it publishes. The validated impact plan (its action and the page plans with their resolved
  evidence), the original event and the executor's round environments are arguments.
\<close>

section \<open>Reports\<close>

definition result_from_states :: "page_state list \<Rightarrow> workflow_result" where
  "result_from_states states =
     (let passed_ids = map ps_page_id (filter (\<lambda>s. ps_status s = PASSED) states);
          escalated_ids =
            map ps_page_id (filter (\<lambda>s. ps_status s = AWAITING_HUMAN_REVIEW) states);
          failed_ids =
            map ps_page_id
              (filter (\<lambda>s. ps_status s \<notin> {PASSED, AWAITING_HUMAN_REVIEW}) states)
      in \<lparr>wr_passed = (states \<noteq> [] \<and> length passed_ids = length states),
          wr_ready_for_review =
            (states \<noteq> [] \<and> length passed_ids + length escalated_ids = length states),
          wr_page_count = length states,
          wr_passed_page_ids = passed_ids,
          wr_failed_page_ids = failed_ids,
          wr_escalated_page_ids = escalated_ids\<rparr>)"

definition empty_result :: "bool \<Rightarrow> workflow_result" where
  "empty_result ok =
     \<lparr>wr_passed = ok, wr_ready_for_review = ok, wr_page_count = 0, wr_passed_page_ids = [],
      wr_failed_page_ids = [], wr_escalated_page_ids = []\<rparr>"

section \<open>Progress events\<close>

record progress_event =
  pv_event_type :: string
  pv_task_id :: string
  pv_page_id :: string
  pv_artifact_version :: "int option"
  pv_attempt :: "int option"
  pv_status :: string

fun status_text :: "page_status \<Rightarrow> string" where
  "status_text PENDING = ''pending''"
| "status_text WRITING = ''writing''"
| "status_text EVALUATING = ''evaluating''"
| "status_text REVISING = ''revising''"
| "status_text PASSED = ''passed''"
| "status_text AWAITING_HUMAN_REVIEW = ''awaiting_human_review''"
| "status_text FAILED = ''failed''"

fun task_status_text :: "task_status \<Rightarrow> string" where
  "task_status_text TPending = ''pending''"
| "task_status_text TRunning = ''running''"
| "task_status_text TCompleted = ''completed''"
| "task_status_text TFailed = ''failed''"
| "task_status_text TCancelled = ''cancelled''"

definition page_event :: "string \<Rightarrow> page_state \<Rightarrow> progress_event" where
  "page_event event_type s =
     \<lparr>pv_event_type = event_type, pv_task_id = [], pv_page_id = ps_page_id s,
      pv_artifact_version = Some (ps_latest_version s),
      pv_attempt = Some (ps_evaluation_attempt s), pv_status = status_text (ps_status s)\<rparr>"

definition page_events :: "page_state \<Rightarrow> progress_event list" where
  "page_events s =
     (if ps_latest_artifact_id s = None then []
      else (if ps_status s = AWAITING_HUMAN_REVIEW
            then [page_event ''documentation.page.escalated'' s] else [])
         @ (if ps_status s \<in> {PASSED, AWAITING_HUMAN_REVIEW}
            then [page_event ''documentation.page.evaluated'' s] else [])
         @ (if 1 < ps_latest_version s
            then [page_event ''documentation.page.revision_scheduled'' s] else []))"

definition task_event :: "string \<Rightarrow> workflow_task \<Rightarrow> progress_event" where
  "task_event event_type t =
     \<lparr>pv_event_type = event_type, pv_task_id = wt_task_id t,
      pv_page_id = (case wt_page_id t of None \<Rightarrow> [] | Some p \<Rightarrow> p),
      pv_artifact_version = wt_artifact_version t, pv_attempt = None,
      pv_status = task_status_text (wt_status t)\<rparr>"

definition task_events :: "workflow_task \<Rightarrow> progress_event list" where
  "task_events t =
     (if wt_status t \<in> {TRunning, TCompleted, TCancelled}
      then [task_event ''documentation.task.claimed'' t] else [])
     @ (if wt_task_type t = ''write'' \<and> wt_status t = TCompleted
        then [task_event ''documentation.page.written'' t] else [])"

text \<open>\<^verbatim>\<open>_emit_page_progress\<close>: with no sink nothing is published.\<close>

definition page_progress :: "bool \<Rightarrow> string \<Rightarrow> page_state list \<Rightarrow> db \<Rightarrow> progress_event list" where
  "page_progress sink run_id states d =
     (if sink then concat (map page_events states) @ concat (map task_events (get_tasks run_id d))
      else [])"

section \<open>Seeding and running\<close>

record node =
  nd_wired :: bool
  nd_executor :: executor
  nd_schema :: schema
  nd_sink :: bool
  nd_now :: int

definition seed_task ::
  "schema \<Rightarrow> string \<Rightarrow> string \<Rightarrow> string option \<Rightarrow> int \<Rightarrow> doc_task \<Rightarrow> db \<Rightarrow> db" where
  "seed_task sc run_id org_id repository now task d =
     (let write_id = ''write:'' @ dt_id task @ '':1'';
          evaluate_id = ''evaluate:'' @ dt_id task @ '':1'';
          write_input = (''task'', JObj (sc_dump_task sc task)) #
            (case repository of None \<Rightarrow> []
             | Some r \<Rightarrow> if r = [] then [] else [(''repository'', JStr r)]);
          evaluate_input =
            [(''task'', JObj (sc_dump_task sc task)),
             (''evidence'', JList (map JObj (dt_evidence task))), (''attempt'', JInt 1)]
      in enqueue_task run_id evaluate_id org_id ''evaluate'' (Some (dt_id task)) (Some 1) [write_id]
           evaluate_input now
           (enqueue_task run_id write_id org_id ''write'' (Some (dt_id task)) (Some 1) [] write_input
              now d))"

definition seed ::
  "schema \<Rightarrow> string \<Rightarrow> string \<Rightarrow> doc_task list \<Rightarrow> string option \<Rightarrow> string option \<Rightarrow> int \<Rightarrow> db \<Rightarrow> db" where
  "seed sc run_id org_id plans repository head_sha now d =
     (let tasks = map (\<lambda>t. t\<lparr>dt_id := dt_path t, dt_repository := repository,
                             dt_head_sha := head_sha\<rparr>) plans;
          pages = map (\<lambda>t. \<lparr>np_page_id = dt_id t, np_path = dt_path t, np_action = dt_action t\<rparr>) tasks
      in fold (seed_task sc run_id org_id repository now) tasks
           (create_pages run_id org_id pages now d))"

datatype node_status = COMPLETED | NODE_FAILED string

record node_result =
  nr_status :: node_status
  nr_result :: workflow_result
  nr_sealed_pages :: "(string \<times> string \<times> string \<times> int \<times> page_status) list"
  nr_events :: "progress_event list"

definition node_failed :: "string \<Rightarrow> node_result" where
  "node_failed reason =
     \<lparr>nr_status = NODE_FAILED reason, nr_result = empty_result False, nr_sealed_pages = [],
      nr_events = []\<rparr>"

definition vacuous_pass :: node_result where
  "vacuous_pass =
     \<lparr>nr_status = COMPLETED, nr_result = empty_result True, nr_sealed_pages = [], nr_events = []\<rparr>"

definition sealed_pages ::
  "page_state list \<Rightarrow> (string \<times> string \<times> string \<times> int \<times> page_status) list" where
  "sealed_pages states =
     List.map_filter (\<lambda>s. case ps_latest_artifact_id s of
         None \<Rightarrow> None
       | Some i \<Rightarrow> if i = [] then None
                   else Some (ps_page_id s, ps_path s, i, ps_latest_version s, ps_status s)) states"

text \<open>\<^verbatim>\<open>str(x or "") or None\<close> of a text entry of the event.\<close>

definition event_text :: "json \<Rightarrow> string option" where
  "event_text v = (case v of JStr s \<Rightarrow> if s = [] then None else Some s | _ \<Rightarrow> None)"

definition head_sha_of :: "jobj \<Rightarrow> string option" where
  "head_sha_of event =
     (case jget event ''pull_request'' of
        JObj pr \<Rightarrow> (case jget pr ''head'' of JObj h \<Rightarrow> event_text (jget h ''sha'') | _ \<Rightarrow> None)
      | _ \<Rightarrow> None)"

datatype impact = NoImpact | InvalidImpact | Impact string "doc_task list"

definition is_pull_request :: "jobj \<Rightarrow> bool" where
  "is_pull_request event =
     (case event_text (jget event ''event_type'') of
        None \<Rightarrow> False | Some s \<Rightarrow> starts_with ''pull_request.'' s)"

definition run_seeded ::
  "node \<Rightarrow> string \<Rightarrow> string \<Rightarrow> doc_task list \<Rightarrow> jobj \<Rightarrow> round_env list \<Rightarrow> db \<Rightarrow> (node_result \<times> db) option" where
  "run_seeded nd run_id org_id plans event envs d =
     (let repository = event_text (jget event ''repository''); head_sha = head_sha_of event in
      if is_pull_request event \<and> (repository = None \<or> head_sha = None)
      then Some (node_failed ''PR writer requires a repository and head SHA'', d)
      else
        case drive (nd_executor nd) run_id envs
               (seed (nd_schema nd) run_id org_id plans repository head_sha (nd_now nd) d) of
          None \<Rightarrow> None
        | Some (DeadlockedWorkflowError _, d') \<Rightarrow> Some (node_failed ''page workflow deadlocked'', d')
        | Some (Raised _, d') \<Rightarrow> Some (node_failed ''page workflow infrastructure failure'', d')
        | Some (Finished r, d') \<Rightarrow>
            if xr_failed_task_ids r \<noteq> {} then Some (node_failed ''page workflow tasks failed'', d')
            else
              let states = get_page_states run_id d' in
              Some (\<lparr>nr_status = COMPLETED, nr_result = result_from_states states,
                     nr_sealed_pages = sealed_pages states,
                     nr_events = page_progress (nd_sink nd) run_id states d'\<rparr>, d'))"

definition invoke_node ::
  "node \<Rightarrow> string option \<Rightarrow> string option \<Rightarrow> impact \<Rightarrow> jobj \<Rightarrow> round_env list \<Rightarrow> db
     \<Rightarrow> (node_result \<times> db) option" where
  "invoke_node nd run project_id imp event envs d =
     (let run_id = or_str run []; org_id = or_str project_id run_id in
      if run_id = [] then Some (node_failed ''page workflow requires a run_id'', d)
      else if \<not> nd_wired nd then Some (node_failed ''page workflow is not wired for this run'', d)
      else if ex_handlers (nd_executor nd) = []
      then Some (node_failed ''page workflow has no handlers'', d)
      else
        case imp of
          NoImpact \<Rightarrow> Some (node_failed ''document node requires an impact analysis'', d)
        | InvalidImpact \<Rightarrow> Some (node_failed ''impact analysis is not valid'', d)
        | Impact action plans \<Rightarrow>
            if action \<notin> {''update'', ''create''} \<or> plans = [] then Some (vacuous_pass, d)
            else run_seeded nd run_id org_id plans event envs d)"

section \<open>Human resume\<close>

definition escalated_pages :: "page_state list \<Rightarrow> string list" where
  "escalated_pages states = map ps_page_id (filter (\<lambda>s. ps_status s = AWAITING_HUMAN_REVIEW) states)"

definition resume_approve :: "node \<Rightarrow> string \<Rightarrow> string option \<Rightarrow> db \<Rightarrow> workflow_result \<times> db" where
  "resume_approve nd run_id comment d =
     (let escalated = escalated_pages (get_page_states run_id d);
          d' = (case approve_escalated_pages run_id escalated comment (nd_now nd) d of
                  Inl _ \<Rightarrow> d | Inr (_, d1) \<Rightarrow> d1)
      in (result_from_states (get_page_states run_id d'), d'))"

definition resume_request_changes ::
  "node \<Rightarrow> string \<Rightarrow> string option \<Rightarrow> round_env list \<Rightarrow> db \<Rightarrow> (workflow_result res \<times> db) option" where
  "resume_request_changes nd run_id comment envs d =
     (if strip (or_str comment []) = []
      then Some (Inl (ValueError ''request_changes requires a non-empty comment''), d)
      else
        let states = get_page_states run_id d in
        if escalated_pages states = [] then Some (Inr (result_from_states states), d)
        else
          case schedule_human_revisions run_id comment (nd_now nd) d of
            Inl e \<Rightarrow> Some (Inl e, d)
          | Inr (_, d1) \<Rightarrow>
              (case drive (nd_executor nd) run_id envs d1 of
                 None \<Rightarrow> None
               | Some (_, d2) \<Rightarrow> Some (Inr (result_from_states (get_page_states run_id d2)), d2)))"

definition resume_reject :: "node \<Rightarrow> string \<Rightarrow> string option \<Rightarrow> db \<Rightarrow> workflow_result \<times> db" where
  "resume_reject nd run_id comment d =
     (let d1 = snd (cancel_pending_tasks run_id (nd_now nd) d);
          d2 = snd (mark_escalated_failed run_id comment (nd_now nd) d1)
      in (result_from_states (get_page_states run_id d2), d2))"

definition resume ::
  "node \<Rightarrow> string \<Rightarrow> string \<Rightarrow> string option \<Rightarrow> round_env list \<Rightarrow> db
     \<Rightarrow> (workflow_result res \<times> db) option" where
  "resume nd run_id decision comment envs d =
     (if \<not> nd_wired nd
      then Some (Inl (RuntimeError ''page workflow is not wired for this run''), d)
      else if decision = ''approve''
      then Some (map_prod Inr id (resume_approve nd run_id comment d))
      else if decision = ''request_changes'' then resume_request_changes nd run_id comment envs d
      else if decision = ''reject''
      then Some (map_prod Inr id (resume_reject nd run_id comment d))
      else Some (Inl (ValueError (''unknown resume decision '' @ py_repr decision)), d))"

section \<open>Reports and re-entry\<close>

text \<open>
  The node's report is the page table: every page is listed as passed, escalated or failed,
  exactly once; the run passes exactly when there are pages and all of them passed, and is ready for
  human review exactly when there are pages and none is anything but passed or escalated.
\<close>

theorem node_report_verdict:
  "let r = result_from_states states in
     mset (wr_passed_page_ids r) + mset (wr_failed_page_ids r) + mset (wr_escalated_page_ids r)
       = mset (map ps_page_id states)
     \<and> (wr_passed r \<longleftrightarrow> states \<noteq> [] \<and> list_all (\<lambda>s. ps_status s = PASSED) states)
     \<and> (wr_ready_for_review r \<longleftrightarrow> states \<noteq> []
          \<and> list_all (\<lambda>s. ps_status s \<in> {PASSED, AWAITING_HUMAN_REVIEW}) states)"
proof -
  have part: "mset (map ps_page_id (filter (\<lambda>s. ps_status s = PASSED) xs))
      + mset (map ps_page_id (filter (\<lambda>s. ps_status s \<notin> {PASSED, AWAITING_HUMAN_REVIEW}) xs))
      + mset (map ps_page_id (filter (\<lambda>s. ps_status s = AWAITING_HUMAN_REVIEW) xs))
      = mset (map ps_page_id xs)" for xs :: "page_state list"
    by (induction xs) (auto simp: ac_simps)
  have le: "length (filter (\<lambda>s. ps_status s = PASSED) xs)
      + length (filter (\<lambda>s. ps_status s = AWAITING_HUMAN_REVIEW) xs) \<le> length xs" for xs :: "page_state list"
    by (induction xs) auto
  have ready: "length (filter (\<lambda>s. ps_status s = PASSED) xs)
      + length (filter (\<lambda>s. ps_status s = AWAITING_HUMAN_REVIEW) xs) = length xs
      \<longleftrightarrow> list_all (\<lambda>s. ps_status s \<in> {PASSED, AWAITING_HUMAN_REVIEW}) xs" for xs :: "page_state list"
  proof (induction xs)
    case (Cons x xs)
    then show ?case using le [of xs] by auto
  qed simp
  have passed: "length (filter p xs) = length xs \<longleftrightarrow> list_all p xs" for p and xs :: "page_state list"
    by (metis filter_True length_filter_less list_all_iff nat_neq_iff)
  show ?thesis
    unfolding result_from_states_def Let_def workflow_result.simps length_map ready passed
    using part by blast
qed

lemma to_state_keeps [simp]: "ps_page_id (to_state r) = ps_page_id r" "ps_status (to_state r) = ps_status r"
  by (simp_all add: to_state_def)

lemma escalated_pages_set:
  "set (escalated_pages (get_page_states run d)) = ps_page_id ` {r \<in> set (db_pages d). awaiting run r}"
  by (auto simp: escalated_pages_def get_page_states_def awaiting_def filter_map comp_def)

text \<open>
  Approval settles the review and is idempotent: after it no page of the run awaits review, and
  approving again, with whatever comment, returns the same report and changes nothing.
\<close>

theorem resume_approve_idempotent:
  "let (r, d') = resume_approve nd run comment d in
     wr_escalated_page_ids r = [] \<and> resume_approve nd run comment2 d' = (r, d')"
proof -
  define ids where "ids = escalated_pages (get_page_states run d)"
  define d' where "d' = (case approve_escalated_pages run ids comment (nd_now nd) d of
      Inl _ \<Rightarrow> d | Inr (_, d1) \<Rightarrow> d1)"
  have none: "\<not> awaiting run r" if r: "r \<in> set (db_pages d')" for r
  proof (cases "ids = []")
    case True
    then have "d' = d" by (simp add: d'_def approve_escalated_pages_def)
    moreover have "{r \<in> set (db_pages d). awaiting run r} = {}"
      using True escalated_pages_set [of run d] by (simp add: ids_def)
    ultimately show ?thesis using r by blast
  next
    case False
    then have "d' = snd (approve_loop run ids comment (nd_now nd) 0 d)"
      by (simp add: d'_def approve_escalated_pages_def split: prod.splits)
    then have "db_pages d' = upd_where (escalated_in run ids) (approve_row comment (nd_now nd)) (db_pages d)"
      by (simp add: approve_loop_pages)
    with r show ?thesis
      using escalated_pages_set [of run d] by (auto simp: set_upd_where escalated_in_def ids_def)
  qed
  then have "{r \<in> set (db_pages d'). awaiting run r} = {}" by blast
  then have e: "escalated_pages (get_page_states run d') = []"
    using escalated_pages_set [of run d'] by (simp only: image_empty set_empty)
  have "resume_approve nd run comment d = (result_from_states (get_page_states run d'), d')"
    by (simp add: resume_approve_def Let_def d'_def ids_def)
  moreover have "resume_approve nd run comment2 d' = (result_from_states (get_page_states run d'), d')"
    by (simp add: resume_approve_def Let_def e approve_escalated_pages_def)
  ultimately show ?thesis
    using e by (simp add: result_from_states_def escalated_pages_def Let_def)
qed

lemma create_pages_keys:
  "page_key ` set (db_pages (create_pages run org ps now d))
     = (\<lambda>p. (run, np_page_id p)) ` set ps \<union> page_key ` set (db_pages d)"
  by (induction ps arbitrary: d) (auto simp: insert_new_def seed_page_def)

lemma create_pages_known:
  "(\<lambda>p. (run, np_page_id p)) ` set ps \<subseteq> page_key ` set (db_pages d) \<Longrightarrow>
     create_pages run org ps now d = d"
  by (induction ps) (auto simp: insert_new_def seed_page_def)

lemma enqueue_known_same:
  "(run, tid) \<in> task_keys d \<Longrightarrow> enqueue_task run tid org ty pg v deps inp now d = d"
  by (auto simp: task_keys_def enqueue_task_def insert_new_def pending_task_def)

definition seed_keys :: "string \<Rightarrow> doc_task \<Rightarrow> (string \<times> string) set" where
  "seed_keys run t = {(run, ''write:'' @ dt_id t @ '':1''), (run, ''evaluate:'' @ dt_id t @ '':1'')}"

lemma seed_task_keys: "task_keys (seed_task sc run org repo now t d) = seed_keys run t \<union> task_keys d"
  by (auto simp: seed_task_def seed_keys_def Let_def)

lemma seed_task_known: "seed_keys run t \<subseteq> task_keys d \<Longrightarrow> seed_task sc run org repo now t d = d"
  by (simp add: seed_task_def seed_keys_def Let_def enqueue_known_same)

lemma seed_fold_keys:
  "task_keys (fold (seed_task sc run org repo now) ts d) = (\<Union>t \<in> set ts. seed_keys run t) \<union> task_keys d"
  by (induction ts arbitrary: d) (auto simp: seed_task_keys)

lemma seed_fold_known:
  "(\<Union>t \<in> set ts. seed_keys run t) \<subseteq> task_keys d \<Longrightarrow> fold (seed_task sc run org repo now) ts d = d"
  by (induction ts) (simp_all add: seed_task_known)

lemma seed_task_pages: "db_pages (seed_task sc run org repo now t d) = db_pages d"
  by (simp add: seed_task_def enqueue_task_def Let_def)

lemma seed_fold_pages: "db_pages (fold (seed_task sc run org repo now) ts d) = db_pages d"
  by (induction ts arbitrary: d) (simp_all add: seed_task_pages)

text \<open>
  Seeding is idempotent on re-entry: a restarted node that seeds the same plan again, at any
  later time, changes nothing in the database, neither page rows nor queued tasks.
\<close>

theorem seed_idempotent:
  "seed sc run org plans repo sha now2 (seed sc run org plans repo sha now d)
     = seed sc run org plans repo sha now d"
proof -
  define ts where "ts = map (\<lambda>t. t\<lparr>dt_id := dt_path t, dt_repository := repo, dt_head_sha := sha\<rparr>) plans"
  define ps where "ps = map (\<lambda>t. \<lparr>np_page_id = dt_id t, np_path = dt_path t, np_action = dt_action t\<rparr>) ts"
  define d1 where "d1 = fold (seed_task sc run org repo now) ts (create_pages run org ps now d)"
  have s: "seed sc run org plans repo sha n x
      = fold (seed_task sc run org repo n) ts (create_pages run org ps n x)" for n x
    by (simp add: seed_def ts_def ps_def Let_def comp_def)
  have "create_pages run org ps now2 d1 = d1"
    by (rule create_pages_known) (simp add: d1_def seed_fold_pages create_pages_keys)
  moreover have "fold (seed_task sc run org repo now2) ts d1 = d1"
    by (rule seed_fold_known) (simp add: d1_def seed_fold_keys)
  ultimately show ?thesis by (simp add: s d1_def [symmetric])
qed

end
