(* ===== verification/Model_Health.thy ===== *)
theory Model_Health
  imports Draftly_Prelude
begin

text \<open>
  Health of providers and models (\<^verbatim>\<open>src/draftly/models/health.py\<close>, \<^verbatim>\<open>ModelHealthRegistry\<close> of
  \<^verbatim>\<open>models/performance.py\<close>, \<^verbatim>\<open>models/redis_health.py\<close>): failures, cooldowns, automatic disabling. Time is an
  argument \<open>now\<close> in seconds. The Redis registry is a map from keys to expiry times.
\<close>

section \<open>Provider health\<close>

datatype failure =
    FAILURE_TIMEOUT | FAILURE_RATE_LIMIT | FAILURE_UNAVAILABLE | FAILURE_AUTH
  | FAILURE_CONTEXT_LENGTH | FAILURE_INVALID_REQUEST | FAILURE_PAYMENT

definition FALLBACK_FAILURES :: "failure list" where
  "FALLBACK_FAILURES = [FAILURE_RATE_LIMIT, FAILURE_UNAVAILABLE, FAILURE_PAYMENT]"

definition DISABLING_FAILURES :: "failure list" where
  "DISABLING_FAILURES = [FAILURE_AUTH, FAILURE_PAYMENT]"

record provider_health =
  ph_provider :: string
  ph_healthy :: bool
  ph_failures :: nat
  ph_failure_counts :: "failure \<Rightarrow> nat"
  ph_last_failure :: "real option"
  ph_cooldown_seconds :: real
  ph_disabled :: bool
  ph_failure_threshold :: nat

definition new_health :: "string \<Rightarrow> provider_health" where
  "new_health provider =
     \<lparr>ph_provider = provider, ph_healthy = True, ph_failures = 0, ph_failure_counts = (\<lambda>_. 0),
      ph_last_failure = None, ph_cooldown_seconds = 30, ph_disabled = False,
      ph_failure_threshold = 5\<rparr>"

definition record_success :: "provider_health \<Rightarrow> provider_health" where
  "record_success h = h\<lparr>ph_healthy := True, ph_failures := 0, ph_failure_counts := (\<lambda>_. 0)\<rparr>"

definition disable :: "provider_health \<Rightarrow> provider_health" where
  "disable h = h\<lparr>ph_disabled := True, ph_healthy := False\<rparr>"

definition record_failure :: "failure \<Rightarrow> real \<Rightarrow> provider_health \<Rightarrow> provider_health" where
  "record_failure f now h =
     (let h' = h\<lparr>ph_healthy := False, ph_failures := ph_failures h + 1,
                 ph_failure_counts := (ph_failure_counts h)(f := ph_failure_counts h f + 1),
                 ph_last_failure := Some now\<rparr>
      in if ph_failure_threshold h' \<le> ph_failures h' then disable h' else h')"

definition reset :: "provider_health \<Rightarrow> provider_health" where
  "reset h = h\<lparr>ph_disabled := False, ph_healthy := True, ph_failures := 0,
              ph_failure_counts := (\<lambda>_. 0), ph_last_failure := None\<rparr>"

text \<open>\<^verbatim>\<open>available()\<close> answers and, when the cooldown has elapsed, marks the provider healthy.\<close>

definition available :: "real \<Rightarrow> provider_health \<Rightarrow> bool \<times> provider_health" where
  "available now h =
     (if ph_disabled h then (False, h)
      else if ph_healthy h then (True, h)
      else case ph_last_failure h of
             None \<Rightarrow> (True, h)
           | Some t \<Rightarrow>
               if ph_cooldown_seconds h \<le> now - t then (True, h\<lparr>ph_healthy := True\<rparr>)
               else (False, h))"

type_synonym health_registry = "string \<rightharpoonup> provider_health"

definition get_health :: "health_registry \<Rightarrow> string \<Rightarrow> provider_health" where
  "get_health reg p = (case reg p of None \<Rightarrow> new_health p | Some h \<Rightarrow> h)"

definition provider_available :: "real \<Rightarrow> string \<Rightarrow> health_registry \<Rightarrow> bool \<times> health_registry" where
  "provider_available now p reg =
     (let (b, h) = available now (get_health reg p) in (b, reg(p \<mapsto> h)))"

section \<open>Model cooldowns\<close>

record model_health =
  mh_cooldown :: real
  mh_failures :: "string \<rightharpoonup> real"

definition mark_failure :: "string \<Rightarrow> real \<Rightarrow> model_health \<Rightarrow> model_health" where
  "mark_failure name now h = h\<lparr>mh_failures := (mh_failures h)(name \<mapsto> now)\<rparr>"

definition is_model_healthy :: "real \<Rightarrow> string \<Rightarrow> model_health \<Rightarrow> bool" where
  "is_model_healthy now name h =
     (case mh_failures h name of None \<Rightarrow> True | Some t \<Rightarrow> mh_cooldown h \<le> now - t)"

definition clear_failure :: "string \<Rightarrow> model_health \<Rightarrow> model_health" where
  "clear_failure name h = h\<lparr>mh_failures := (mh_failures h)(name := None)\<rparr>"

section \<open>The Redis registry\<close>

text \<open>Keys with the time they expire at; \<^verbatim>\<open>EX\<close> takes whole seconds.\<close>

type_synonym redis_expiry = "string \<rightharpoonup> real"

definition health_key :: "string \<Rightarrow> string" where
  "health_key provider = ''draftly:health:'' @ provider"

definition redis_mark_failure :: "real \<Rightarrow> string \<Rightarrow> real \<Rightarrow> redis_expiry \<Rightarrow> redis_expiry" where
  "redis_mark_failure cooldown provider now r =
     r(health_key provider \<mapsto> now + of_int (if 0 \<le> cooldown then \<lfloor>cooldown\<rfloor> else \<lceil>cooldown\<rceil>))"

definition redis_is_healthy :: "real \<Rightarrow> string \<Rightarrow> redis_expiry \<Rightarrow> bool" where
  "redis_is_healthy now provider r =
     (case r (health_key provider) of None \<Rightarrow> True | Some t \<Rightarrow> t \<le> now)"

definition redis_clear_failure :: "string \<Rightarrow> redis_expiry \<Rightarrow> redis_expiry" where
  "redis_clear_failure provider r = r(health_key provider := None)"

section \<open>The cooldown contract\<close>

text \<open>
  What routing relies on: a failure keeps its subject out for the cooldown and no longer, clearing
  it takes effect at once, and neither touches anyone else.
\<close>

locale cooldown_registry =
  fixes mark :: "string \<Rightarrow> real \<Rightarrow> 'r \<Rightarrow> 'r"
    and clear :: "string \<Rightarrow> 'r \<Rightarrow> 'r"
    and healthy :: "real \<Rightarrow> string \<Rightarrow> 'r \<Rightarrow> bool"
    and cooldown :: "'r \<Rightarrow> real"
  assumes mark_healthy: "healthy now x (mark y t r) \<longleftrightarrow> (if x = y then cooldown r \<le> now - t else healthy now x r)"
    and clear_healthy: "healthy now x (clear y r) \<longleftrightarrow> x = y \<or> healthy now x r"
    and mark_cooldown: "cooldown (mark y t r) = cooldown r"
    and clear_cooldown: "cooldown (clear y r) = cooldown r"
begin

lemma out_during_cooldown: "now < t + cooldown r \<Longrightarrow> \<not> healthy now x (mark x t r)"
  by (simp add: mark_healthy)

lemma back_after_cooldown: "t + cooldown r \<le> now \<Longrightarrow> healthy now x (mark x t r)"
  by (simp add: mark_healthy)

lemma last_failure_counts: "healthy now x (mark x t2 (mark x t1 r)) \<longleftrightarrow> cooldown r \<le> now - t2"
  by (simp add: mark_healthy mark_cooldown)

lemma clear_after_failure: "healthy now x (clear x (mark x t r))"
  by (simp add: clear_healthy)

end

interpretation model_cooldown: cooldown_registry mark_failure clear_failure is_model_healthy mh_cooldown
  by unfold_locales
    (auto simp: mark_failure_def clear_failure_def is_model_healthy_def split: option.splits)

interpretation redis_cooldown: cooldown_registry "redis_mark_failure (of_nat n)" redis_clear_failure
  redis_is_healthy "\<lambda>_. of_nat n" for n :: nat
  by unfold_locales
    (auto simp: redis_mark_failure_def redis_clear_failure_def redis_is_healthy_def health_key_def)

section \<open>Provider guarantees\<close>

definition usable :: "real \<Rightarrow> provider_health \<Rightarrow> bool" where
  "usable now h = fst (available now h)"

lemma usable_cases:
  "usable now h \<longleftrightarrow> \<not> ph_disabled h \<and>
     (ph_healthy h \<or> (case ph_last_failure h of None \<Rightarrow> True | Some t \<Rightarrow> ph_cooldown_seconds h \<le> now - t))"
  by (simp add: usable_def available_def split: option.splits)

lemma available_idem: "available now (snd (available now h)) = (usable now h, snd (available now h))"
  by (auto simp: available_def usable_def split: option.splits)

fun fail_times :: "(failure \<times> real) list \<Rightarrow> provider_health \<Rightarrow> provider_health" where
  "fail_times [] h = h"
| "fail_times ((f, t) # fs) h = fail_times fs (record_failure f t h)"

lemma record_failure_fields:
  "ph_failures (record_failure f t h) = ph_failures h + 1"
  "ph_failure_threshold (record_failure f t h) = ph_failure_threshold h"
  "ph_cooldown_seconds (record_failure f t h) = ph_cooldown_seconds h"
  "ph_last_failure (record_failure f t h) = Some t"
  "\<not> ph_healthy (record_failure f t h)"
  "ph_disabled (record_failure f t h) \<longleftrightarrow> ph_disabled h \<or> ph_failure_threshold h \<le> ph_failures h + 1"
  by (auto simp: record_failure_def disable_def Let_def)

lemma fail_times_fields:
  "ph_failure_threshold (fail_times fs h) = ph_failure_threshold h"
  "ph_cooldown_seconds (fail_times fs h) = ph_cooldown_seconds h"
  "ph_disabled (fail_times fs h) \<longleftrightarrow> ph_disabled h \<or> (fs \<noteq> [] \<and> ph_failure_threshold h \<le> ph_failures h + length fs)"
  "fs \<noteq> [] \<Longrightarrow> \<not> ph_healthy (fail_times fs h) \<and> ph_last_failure (fail_times fs h) = Some (snd (last fs))"
proof (induction fs arbitrary: h rule: list.induct)
  case (Cons x fs)
  obtain f t where x: "x = (f, t)" by (cases x)
  { case 1 show ?case using Cons.IH(1) by (simp add: x record_failure_fields) }
  { case 2 show ?case using Cons.IH(2) by (simp add: x record_failure_fields) }
  { case 3 show ?case using Cons.IH(3) [of "record_failure f t h"]
      by (cases fs) (auto simp: x record_failure_fields) }
  { case 4 show ?case using Cons.IH(4) [of "record_failure f t h"]
      by (cases fs) (auto simp: x record_failure_fields) }
qed simp_all

text \<open>
  A failing provider is put aside: after consecutive failures it is unusable until the cooldown
  since the last of them has elapsed, and once they number the threshold (five) it stays unusable
  at every time, even after a success, until it is reset.
\<close>

theorem provider_failures:
  assumes "fs \<noteq> []"
  shows "(if 5 \<le> length fs
      then \<not> usable now (fail_times fs (new_health p))
           \<and> \<not> usable now (record_success (fail_times fs (new_health p)))
      else (usable now (fail_times fs (new_health p)) \<longleftrightarrow> 30 \<le> now - snd (last fs)))
    \<and> usable now (reset (fail_times fs (new_health p)))"
proof -
  have n: "ph_failure_threshold (new_health p) = 5" "ph_failures (new_health p) = 0"
    "\<not> ph_disabled (new_health p)" "ph_cooldown_seconds (new_health p) = 30"
    by (simp_all add: new_health_def)
  show ?thesis
    using assms n fail_times_fields [of fs "new_health p"]
    by (auto simp: usable_cases record_success_def reset_def)
qed

theorem provider_failures_witness:
  "\<not> usable 10 (fail_times [(FAILURE_TIMEOUT, 0)] (new_health ''p''))
   \<and> usable 40 (fail_times [(FAILURE_TIMEOUT, 0)] (new_health ''p''))"
  using provider_failures [of "[(FAILURE_TIMEOUT, 0)]" 10 "''p''"]
    provider_failures [of "[(FAILURE_TIMEOUT, 0)]" 40 "''p''"] by simp

end
