(* ===== verification/Model_Registry.thy ===== *)
theory Model_Registry
  imports Model_Health "HOL-Library.AList"
begin

text \<open>
  The model registry and the priority resolver: \<^verbatim>\<open>src/draftly/models/config.py\<close>, \<^verbatim>\<open>registry.py\<close>,
  \<^verbatim>\<open>capabilities.py\<close>, \<^verbatim>\<open>policies.py\<close> and \<^verbatim>\<open>ModelRouter.resolve\<close> of \<^verbatim>\<open>router.py\<close>. A provider
  is the code of a vendor SDK: whether it is enabled and what \<^verbatim>\<open>create_model\<close> returns or raises are
  parameters. One reading of the clock serves a whole call.
\<close>

section \<open>Configuration and registry\<close>

record model_config =
  mc_name :: string
  mc_provider :: string
  mc_model_id :: string
  mc_capabilities :: "string list"
  mc_temperature :: real
  mc_max_tokens :: "int option"
  mc_priority :: int
  mc_enabled :: bool
  mc_context_window :: "int option"
  mc_input_cost_per_1m_tokens :: "real option"
  mc_output_cost_per_1m_tokens :: "real option"

record embedding_config =
  ec_name :: string
  ec_provider :: string
  ec_model_id :: string
  ec_dimensions :: int
  ec_priority :: int
  ec_enabled :: bool

text \<open>Python dictionaries as association lists in insertion order.\<close>

record 'p model_registry =
  mr_providers :: "(string \<times> 'p) list"
  mr_models :: "(string \<times> model_config) list"
  mr_embedding_models :: "(string \<times> embedding_config) list"

definition empty_registry :: "'p model_registry" where
  "empty_registry = \<lparr>mr_providers = [], mr_models = [], mr_embedding_models = []\<rparr>"

definition register_provider :: "string \<Rightarrow> 'p \<Rightarrow> 'p model_registry \<Rightarrow> 'p model_registry" where
  "register_provider name p g = g\<lparr>mr_providers := AList.update name p (mr_providers g)\<rparr>"

definition register_model :: "model_config \<Rightarrow> 'p model_registry \<Rightarrow> 'p model_registry res" where
  "register_model m g =
     (if map_of (mr_providers g) (mc_provider m) = None
      then Inl (ValueError (''Provider '' @ quoted (mc_provider m) @ '' must be registered before its models.''))
      else if map_of (mr_models g) (mc_name m) \<noteq> None
      then Inl (ValueError (''Duplicate model name: '' @ quoted (mc_name m) @ '' is already registered.''))
      else Inr (g\<lparr>mr_models := mr_models g @ [(mc_name m, m)]\<rparr>))"

definition register_embedding_model ::
  "embedding_config \<Rightarrow> 'p model_registry \<Rightarrow> 'p model_registry res" where
  "register_embedding_model e g =
     (if map_of (mr_providers g) (ec_provider e) = None
      then Inl (ValueError
        (''Provider '' @ quoted (ec_provider e) @ '' must be registered before its embedding models.''))
      else Inr (g\<lparr>mr_embedding_models := AList.update (ec_name e) e (mr_embedding_models g)\<rparr>))"

definition list_embedding_models :: "'p model_registry \<Rightarrow> embedding_config list" where
  "list_embedding_models g = filter ec_enabled (map snd (mr_embedding_models g))"

definition get_model :: "'p model_registry \<Rightarrow> string \<Rightarrow> model_config res" where
  "get_model g name =
     (case map_of (mr_models g) name of
        None \<Rightarrow> Inl (KeyError (''Unknown Draftly model: '' @ name))
      | Some m \<Rightarrow> Inr m)"

definition get_provider :: "'p model_registry \<Rightarrow> string \<Rightarrow> 'p res" where
  "get_provider g name =
     (case map_of (mr_providers g) name of
        None \<Rightarrow> Inl (KeyError (''Unknown model provider: '' @ name))
      | Some p \<Rightarrow> Inr p)"

definition list_models :: "string option \<Rightarrow> 'p model_registry \<Rightarrow> model_config list" where
  "list_models capability g =
     (let models = filter mc_enabled (map snd (mr_models g));
          models = (case capability of
                      None \<Rightarrow> models
                    | Some c \<Rightarrow> if c = [] then models else filter (\<lambda>m. c \<in> set (mc_capabilities m)) models)
      in sort_key mc_priority models)"

definition providers :: "'p model_registry \<Rightarrow> string list" where
  "providers g = map fst (mr_providers g)"

section \<open>Capabilities and policies\<close>

definition KNOWN_CAPABILITIES :: "string list" where
  "KNOWN_CAPABILITIES =
     [''reasoning'', ''tool_calling'', ''structured_output'', ''research'', ''verification'', ''support'',
      ''evaluation'']"

text \<open>The message lists the known names; only its prefix is kept.\<close>

definition validate_capability :: "string \<Rightarrow> string res" where
  "validate_capability c =
     (if c \<notin> set KNOWN_CAPABILITIES then Inl (ValueError (''Unknown capability: '' @ quoted c @ ''.''))
      else Inr c)"

definition supports :: "model_config \<Rightarrow> string list \<Rightarrow> bool" where
  "supports m required \<longleftrightarrow> list_all (\<lambda>c. c \<in> set (mc_capabilities m)) required"

definition capability_filter :: "model_config list \<Rightarrow> string list \<Rightarrow> model_config list" where
  "capability_filter models required = filter (\<lambda>m. supports m required) models"

definition KNOWN_PROVIDERS :: "string list" where
  "KNOWN_PROVIDERS =
     [''openrouter'', ''nvidia'', ''requesty'', ''orcarouter'', ''bedrock'', ''mantle'', ''mantle-openai'',
      ''nebius_token_factory'']"

definition FALLBACK_CHAIN :: "string list" where
  "FALLBACK_CHAIN =
     [''mantle'', ''mantle-openai'', ''bedrock'', ''nvidia'', ''requesty'', ''orcarouter'', ''openrouter'']"

definition FALLBACKS :: "(string \<times> string list) list" where
  "FALLBACKS =
     map (\<lambda>c. (c, FALLBACK_CHAIN)) [''reasoning'', ''research'', ''fast'', ''verification'', ''evaluation'']"

definition validate_fallback_chain :: "string list \<Rightarrow> unit res" where
  "validate_fallback_chain chain =
     (if list_ex (\<lambda>p. p \<notin> set KNOWN_PROVIDERS) chain
      then Inl (ValueError ''Unknown provider(s) in fallback chain'') else Inr ())"

record routing_policy =
  rp_preferred_models :: "string list"
  rp_required_capabilities :: "string list"
  rp_allow_fallback :: bool
  rp_max_attempts :: int
  rp_fallback_chain :: "string list"

definition default_policy :: routing_policy where
  "default_policy =
     \<lparr>rp_preferred_models = [], rp_required_capabilities = [], rp_allow_fallback = True,
      rp_max_attempts = 3, rp_fallback_chain = []\<rparr>"

section \<open>Ordering candidates\<close>

text \<open>\<^verbatim>\<open>{x: i for i, x in enumerate(xs)}\<close>: a repeated name keeps its last index.\<close>

fun last_index :: "nat \<Rightarrow> 'a list \<Rightarrow> 'a \<Rightarrow> nat option" where
  "last_index i [] x = None"
| "last_index i (y # ys) x =
     (case last_index (i + 1) ys x of Some j \<Rightarrow> Some j | None \<Rightarrow> if x = y then Some i else None)"

definition rank_in :: "string list \<Rightarrow> string \<Rightarrow> nat" where
  "rank_in xs x = (case last_index 0 xs x of None \<Rightarrow> 9999 | Some i \<Rightarrow> i)"

definition supports_capabilities :: "model_config \<Rightarrow> routing_policy \<Rightarrow> bool" where
  "supports_capabilities m pol \<longleftrightarrow>
     list_all (\<lambda>c. c \<in> set (mc_capabilities m)) (rp_required_capabilities pol)"

definition policy_chain :: "routing_policy \<Rightarrow> string list" where
  "policy_chain pol =
     (if rp_fallback_chain pol \<noteq> [] then rp_fallback_chain pol
      else case map_of FALLBACKS
                  (case rp_required_capabilities pol of [] \<Rightarrow> [] | c # _ \<Rightarrow> c) of
             None \<Rightarrow> [] | Some chain \<Rightarrow> chain)"

definition candidate_key :: "routing_policy \<Rightarrow> model_config \<Rightarrow> nat \<times> nat \<times> int" where
  "candidate_key pol m =
     (rank_in (rp_preferred_models pol) (mc_name m), rank_in (policy_chain pol) (mc_provider m),
      mc_priority m)"

definition order_candidates :: "model_config list \<Rightarrow> routing_policy \<Rightarrow> model_config list" where
  "order_candidates candidates pol = sort_key (candidate_key pol) candidates"

section \<open>Classifying a failure\<close>

definition mentions :: "string list \<Rightarrow> string \<Rightarrow> bool" where
  "mentions words s \<longleftrightarrow> list_ex (\<lambda>w. str_contains w s) words"

definition classify_failure :: "exn \<Rightarrow> failure" where
  "classify_failure e =
     (let name = lower (exn_type e); message = lower (exn_msg e) in
      if str_contains ''maxtokensreached'' name then FAILURE_RATE_LIMIT
      else if str_contains ''auth'' name \<or> mentions [''401'', ''api key'', ''unauthorized''] message
      then FAILURE_AUTH
      else if mentions [''402'', ''payment'', ''billing'', ''insufficient balance'', ''balance is too low''] message
      then FAILURE_PAYMENT
      else if mentions [''429'', ''rate'', ''limit''] message then FAILURE_RATE_LIMIT
      else if mentions [''503'', ''unavailable'', ''overloaded''] message then FAILURE_UNAVAILABLE
      else if mentions [''400'', ''invalid'', ''bad request''] message then FAILURE_INVALID_REQUEST
      else FAILURE_TIMEOUT)"

section \<open>Resolving a policy to a model\<close>

text \<open>The log of attempts: provider, model name and attempt number of each call of \<^verbatim>\<open>create_model\<close>.\<close>

type_synonym attempt_log = "(string \<times> string \<times> int) list"

text \<open>A raised exception with its \<^verbatim>\<open>__cause__\<close>.\<close>

type_synonym raised = "exn \<times> exn option"

definition no_healthy_model :: "exn list \<Rightarrow> raised" where
  "no_healthy_model errors =
     (RuntimeError ''No healthy Draftly model was available.'',
      if errors = [] then None else Some (last errors))"

record ('p, 'm) vendor =
  is_enabled :: "'p \<Rightarrow> bool"
  create_model :: "'p \<Rightarrow> model_config \<Rightarrow> exn + 'm"

definition on_health ::
  "string \<Rightarrow> (provider_health \<Rightarrow> provider_health) \<Rightarrow> health_registry \<Rightarrow> health_registry" where
  "on_health p f reg = reg(p \<mapsto> f (get_health reg p))"

fun resolve_loop ::
  "('p, 'm) vendor \<Rightarrow> real \<Rightarrow> 'p model_registry \<Rightarrow> routing_policy \<Rightarrow> model_config list \<Rightarrow> int \<Rightarrow>
   exn list \<Rightarrow> health_registry \<Rightarrow> (raised + 'm) \<times> health_registry \<times> attempt_log" where
  "resolve_loop v now g pol [] attempts errors reg =
     (Inl (no_healthy_model errors), reg, [])"
| "resolve_loop v now g pol (config # configs) attempts errors reg =
     (if rp_max_attempts pol \<le> attempts
      then (Inl (no_healthy_model errors), reg, [])
      else let (ok, reg1) = provider_available now (mc_provider config) reg in
      if \<not> ok then resolve_loop v now g pol configs attempts errors reg1
      else case get_provider g (mc_provider config) of
        Inl e \<Rightarrow> (Inl (e, None), reg1, [])
      | Inr provider \<Rightarrow>
      if \<not> is_enabled v provider then resolve_loop v now g pol configs attempts errors reg1
      else let entry = (mc_provider config, mc_name config, attempts + 1) in
      case create_model v provider config of
        Inr model \<Rightarrow> (Inr model, on_health (mc_provider config) record_success reg1, [entry])
      | Inl exc \<Rightarrow>
      if classify_failure exc = FAILURE_INVALID_REQUEST then (Inl (exc, None), reg1, [entry])
      else let reg2 = on_health (mc_provider config)
                        (if classify_failure exc \<in> {FAILURE_PAYMENT, FAILURE_AUTH} then disable
                         else record_failure (classify_failure exc) now) reg1
      in if \<not> rp_allow_fallback pol then (Inl (exc, None), reg2, [entry])
      else let (out, reg3, trace) =
                 resolve_loop v now g pol configs (attempts + 1) (errors @ [exc]) reg2
      in (out, reg3, entry # trace))"

definition resolve ::
  "('p, 'm) vendor \<Rightarrow> real \<Rightarrow> 'p model_registry \<Rightarrow> routing_policy \<Rightarrow> health_registry \<Rightarrow>
   (raised + 'm) \<times> health_registry \<times> attempt_log" where
  "resolve v now g pol reg =
     resolve_loop v now g pol
       (order_candidates (filter (\<lambda>m. supports_capabilities m pol) (list_models None g)) pol) 0 [] reg"

definition resolve_model ::
  "('p, 'm) vendor \<Rightarrow> real \<Rightarrow> 'p model_registry \<Rightarrow> string \<Rightarrow> health_registry \<Rightarrow> 'm res \<times> health_registry" where
  "resolve_model v now g model_name reg =
     (case get_model g model_name of
        Inl e \<Rightarrow> (Inl e, reg)
      | Inr config \<Rightarrow>
          let (ok, reg1) = provider_available now (mc_provider config) reg in
          if \<not> ok
          then (Inl (RuntimeError
                  (''Provider '' @ quoted (mc_provider config) @ '' is currently unavailable.'')), reg1)
          else case get_provider g (mc_provider config) of
                 Inl e \<Rightarrow> (Inl e, reg1)
               | Inr provider \<Rightarrow> (create_model v provider config, reg1))"

definition resolve_capability ::
  "('p, 'm) vendor \<Rightarrow> real \<Rightarrow> 'p model_registry \<Rightarrow> string \<Rightarrow> health_registry \<Rightarrow>
   (raised + 'm) \<times> health_registry \<times> attempt_log" where
  "resolve_capability v now g capability reg =
     (case validate_capability capability of
        Inl e \<Rightarrow> (Inl (e, None), reg, [])
      | Inr c \<Rightarrow> resolve v now g (default_policy\<lparr>rp_required_capabilities := [c]\<rparr>) reg)"

section \<open>The registry invariant\<close>

definition registry_ok :: "'p model_registry \<Rightarrow> bool" where
  "registry_ok g \<longleftrightarrow>
     distinct (map fst (mr_models g))
     \<and> list_all (\<lambda>(n, m). n = mc_name m \<and> map_of (mr_providers g) (mc_provider m) \<noteq> None) (mr_models g)"

lemma registry_ok_empty: "registry_ok empty_registry"
  by (simp add: registry_ok_def empty_registry_def)

lemma registry_ok_provider: "registry_ok g \<Longrightarrow> registry_ok (register_provider n p g)"
  by (fastforce simp: registry_ok_def register_provider_def list_all_iff update_conv')

lemma registry_ok_model: "registry_ok g \<Longrightarrow> register_model m g = Inr g' \<Longrightarrow> registry_ok g'"
  by (auto simp: registry_ok_def register_model_def list_all_iff image_iff split: if_splits
      dest: map_of_SomeD)

lemma registry_ok_embedding:
  "registry_ok g \<Longrightarrow> register_embedding_model e g = Inr g' \<Longrightarrow> registry_ok g'"
  by (auto simp: registry_ok_def register_embedding_model_def split: if_splits)

lemma list_models_set:
  "set (list_models None g) = {m. m \<in> snd ` set (mr_models g) \<and> mc_enabled m}"
  by (auto simp: list_models_def)

lemma listed_provider:
  "registry_ok g \<Longrightarrow> m \<in> set (list_models None g) \<Longrightarrow> \<exists>p. get_provider g (mc_provider m) = Inr p"
  by (fastforce simp: list_models_set registry_ok_def list_all_iff get_provider_def)

lemma listed_unique:
  assumes "registry_ok g" "m \<in> set (list_models None g)" "m' \<in> set (list_models None g)"
    and "mc_name m = mc_name m'"
  shows "m = m'"
proof -
  have "(mc_name m, m) \<in> set (mr_models g)" "(mc_name m', m') \<in> set (mr_models g)"
    using assms by (fastforce simp: list_models_set registry_ok_def list_all_iff)+
  then show ?thesis using assms by (auto simp: registry_ok_def eq_key_imp_eq_value)
qed

section \<open>Provider availability while resolving\<close>

lemma provider_available_fst: "fst (provider_available now p reg) = usable now (get_health reg p)"
  by (simp add: provider_available_def usable_def split_beta Let_def)

lemma provider_available_get:
  "get_health (snd (provider_available now p reg)) q =
     (if q = p then snd (available now (get_health reg p)) else get_health reg q)"
  by (simp add: provider_available_def split_beta get_health_def)

lemma available_disabled: "ph_disabled (snd (available now h)) = ph_disabled h"
  by (simp add: available_def split: option.split)

lemma provider_available_keeps:
  "usable now (get_health (snd (provider_available now p reg)) q) = usable now (get_health reg q)"
  "ph_disabled (get_health (snd (provider_available now p reg)) q) = ph_disabled (get_health reg q)"
  by (simp_all add: provider_available_get available_disabled)
    (simp add: usable_def available_idem)

lemma on_health_get: "get_health (on_health p f reg) q = (if p = q then f (get_health reg q) else get_health reg q)"
  by (auto simp: on_health_def get_health_def)

text \<open>A step of the loop: what the health registry may change to, and the ways one candidate is handled.\<close>

definition same_health :: "real \<Rightarrow> health_registry \<Rightarrow> health_registry \<Rightarrow> bool" where
  "same_health now reg reg' \<longleftrightarrow>
     (\<forall>q. usable now (get_health reg' q) = usable now (get_health reg q)
          \<and> ph_disabled (get_health reg' q) = ph_disabled (get_health reg q))"

lemma same_health_available: "same_health now reg (snd (provider_available now p reg))"
  by (simp add: same_health_def provider_available_keeps)

text \<open>The registry after a failed attempt.\<close>

definition after_failure ::
  "real \<Rightarrow> model_config \<Rightarrow> exn \<Rightarrow> health_registry \<Rightarrow> health_registry" where
  "after_failure now c exc reg =
     on_health (mc_provider c)
       (if classify_failure exc \<in> {FAILURE_PAYMENT, FAILURE_AUTH} then disable
        else record_failure (classify_failure exc) now) reg"

lemma after_failure_disabled:
  "ph_disabled (get_health reg q) \<Longrightarrow> ph_disabled (get_health (after_failure now c exc reg) q)"
  "classify_failure exc \<in> {FAILURE_PAYMENT, FAILURE_AUTH} \<Longrightarrow>
     ph_disabled (get_health (after_failure now c exc reg) (mc_provider c))"
  by (auto simp: after_failure_def on_health_get disable_def record_failure_fields)

lemma after_failure_other:
  "q \<noteq> mc_provider c \<Longrightarrow> get_health (after_failure now c exc reg) q = get_health reg q"
  by (simp add: after_failure_def on_health_get)

lemma resolve_step:
  assumes "resolve_loop v now g pol (c # cs) attempts errors reg = (out, reg', trace)"
  obtains
    (stop) "rp_max_attempts pol \<le> attempts" "out = Inl (no_healthy_model errors)" "reg' = reg" "trace = []"
  | (skip) reg1 where "attempts < rp_max_attempts pol" "same_health now reg reg1"
      "\<not> usable now (get_health reg (mc_provider c))
       \<or> (\<exists>p. get_provider g (mc_provider c) = Inr p \<and> \<not> is_enabled v p)"
      "resolve_loop v now g pol cs attempts errors reg1 = (out, reg', trace)"
  | (unknown) e where "get_provider g (mc_provider c) = Inl e"
      "usable now (get_health reg (mc_provider c))" "out = Inl (e, None)" "trace = []"
      "same_health now reg reg'"
  | (created) p m where "attempts < rp_max_attempts pol" "usable now (get_health reg (mc_provider c))"
      "get_provider g (mc_provider c) = Inr p" "is_enabled v p" "create_model v p c = Inr m" "out = Inr m"
      "trace = [(mc_provider c, mc_name c, attempts + 1)]"
  | (raised) p exc reg1 where "attempts < rp_max_attempts pol" "same_health now reg reg1"
      "usable now (get_health reg (mc_provider c))"
      "get_provider g (mc_provider c) = Inr p" "is_enabled v p" "create_model v p c = Inl exc"
      "out = Inl (exc, None)" "trace = [(mc_provider c, mc_name c, attempts + 1)]"
      "classify_failure exc = FAILURE_INVALID_REQUEST \<and> reg' = reg1
       \<or> \<not> rp_allow_fallback pol \<and> reg' = after_failure now c exc reg1"
  | (next_one) p exc reg1 trace' where "attempts < rp_max_attempts pol" "same_health now reg reg1"
      "usable now (get_health reg (mc_provider c))"
      "get_provider g (mc_provider c) = Inr p" "is_enabled v p" "create_model v p c = Inl exc"
      "classify_failure exc \<noteq> FAILURE_INVALID_REQUEST" "rp_allow_fallback pol"
      "resolve_loop v now g pol cs (attempts + 1) (errors @ [exc]) (after_failure now c exc reg1)
         = (out, reg', trace')"
      "trace = (mc_provider c, mc_name c, attempts + 1) # trace'"
proof -
  define reg1 where "reg1 = snd (provider_available now (mc_provider c) reg)"
  define u where "u = usable now (get_health reg (mc_provider c))"
  have pa: "provider_available now (mc_provider c) reg = (u, reg1)"
    by (simp add: reg1_def u_def provider_available_fst prod_eq_iff)
  have sh: "same_health now reg reg1" by (simp add: reg1_def same_health_available)
  note step = assms [unfolded resolve_loop.simps pa Let_def prod.case after_failure_def [symmetric]]
  show thesis
  proof (cases "rp_max_attempts pol \<le> attempts")
    case True
    with step stop show thesis by simp
  next
    case lt: False
    show thesis
    proof (cases u)
      case False
      with step lt skip sh show thesis by (simp add: u_def)
    next
      case u: True
      show thesis
      proof (cases "get_provider g (mc_provider c)")
        case (Inl e)
        with step lt u unknown sh show thesis by (simp add: u_def)
      next
        case p: (Inr p)
        show thesis
        proof (cases "is_enabled v p")
          case False
          with step lt u p skip sh show thesis by simp
        next
          case en: True
          show thesis
          proof (cases "create_model v p c")
            case (Inr m)
            with step lt u p en created show thesis by (simp add: u_def)
          next
            case exc: (Inl exc)
            consider "classify_failure exc = FAILURE_INVALID_REQUEST"
              | "classify_failure exc \<noteq> FAILURE_INVALID_REQUEST" "\<not> rp_allow_fallback pol"
              | "classify_failure exc \<noteq> FAILURE_INVALID_REQUEST" "rp_allow_fallback pol" by blast
            then show thesis
            proof cases
              case 1
              with step lt u p en exc raised sh show thesis by (simp add: u_def)
            next
              case 2
              with step lt u p en exc raised sh show thesis by (simp add: u_def after_failure_def)
            next
              case 3
              with step lt u p en exc next_one sh show thesis
                by (auto simp: u_def after_failure_def split: prod.splits)
            qed
          qed
        qed
      qed
    qed
  qed
qed

section \<open>What resolving guarantees\<close>

lemma loop_bound:
  assumes "resolve_loop v now g pol cs attempts errors reg = (out, reg', trace)"
  shows "int (length trace) \<le> max 0 (rp_max_attempts pol - attempts)
    \<and> map (snd \<circ> snd) trace = [attempts + 1 .. attempts + int (length trace)]"
  using assms
proof (induction cs arbitrary: attempts errors reg trace)
  case (Cons c cs)
  from Cons.prems show ?case
  proof (cases rule: resolve_step)
    case (skip reg1)
    from skip(4) show ?thesis by (rule Cons.IH)
  next
    case (next_one p exc reg1 trace')
    from Cons.IH [OF next_one(9)] next_one(1,10) show ?thesis
      by (simp add: upto_rec1 algebra_simps)
  qed (simp_all add: upto_rec1)
qed simp

text \<open>An attempt is a call of \<^verbatim>\<open>create_model\<close> on an eligible candidate.\<close>

definition eligible :: "('p, 'm) vendor \<Rightarrow> real \<Rightarrow> 'p model_registry \<Rightarrow> health_registry \<Rightarrow> model_config \<Rightarrow> bool" where
  "eligible v now g reg c \<longleftrightarrow>
     usable now (get_health reg (mc_provider c))
     \<and> (case get_provider g (mc_provider c) of Inl _ \<Rightarrow> False | Inr p \<Rightarrow> is_enabled v p)"

definition creates :: "('p, 'm) vendor \<Rightarrow> 'p model_registry \<Rightarrow> model_config \<Rightarrow> exn + 'm" where
  "creates v g c = (case get_provider g (mc_provider c) of Inl e \<Rightarrow> Inl e | Inr p \<Rightarrow> create_model v p c)"

lemma usable_after_failure:
  assumes "same_health now reg reg1" "usable now (get_health reg (mc_provider c))"
    and "usable now (get_health (after_failure now c exc reg1) q)"
  shows "usable now (get_health reg q)"
  using assms by (cases "q = mc_provider c") (auto simp: after_failure_other same_health_def)

lemma loop_attempts:
  assumes "resolve_loop v now g pol cs attempts errors reg = (out, reg', trace)"
    and "(p, n, i) \<in> set trace"
  shows "\<exists>c \<in> set cs. mc_provider c = p \<and> mc_name c = n \<and> eligible v now g reg c"
  using assms
proof (induction cs arbitrary: attempts errors reg trace)
  case (Cons c cs)
  from Cons.prems(1) show ?case
  proof (cases rule: resolve_step)
    case (skip reg1)
    from Cons.IH [OF skip(4) Cons.prems(2)] skip(2) show ?thesis
      by (auto simp: eligible_def same_health_def)
  next
    case (next_one pr exc reg1 trace')
    show ?thesis
    proof (cases "(p, n, i) \<in> set trace'")
      case True
      from Cons.IH [OF next_one(9) True] usable_after_failure [OF next_one(2,3)] show ?thesis
        by (auto simp: eligible_def)
    next
      case False
      with next_one Cons.prems(2) show ?thesis by (auto simp: eligible_def)
    qed
  qed (use Cons.prems(2) in \<open>auto simp: eligible_def\<close>)
qed simp

lemma loop_keeps_disabled:
  assumes "resolve_loop v now g pol cs attempts errors reg = (out, reg', trace)"
    and "ph_disabled (get_health reg q)"
  shows "ph_disabled (get_health reg' q)"
  using assms
proof (induction cs arbitrary: attempts errors reg trace)
  case (Cons c cs)
  have sh: "ph_disabled (get_health r q)" if "same_health now reg r" for r
    using that Cons.prems(2) by (simp add: same_health_def)
  have un: "\<not> usable now (get_health reg q)" using Cons.prems(2) by (simp add: usable_cases)
  from Cons.prems(1) show ?case
  proof (cases rule: resolve_step)
    case (skip reg1)
    then show ?thesis using Cons.IH sh by blast
  next
    case (created p m)
    then have "q \<noteq> mc_provider c" using un by auto
    with Cons.prems created show ?thesis
      by (auto simp: on_health_get provider_available_get Let_def split_beta provider_available_fst)
  next
    case (next_one p exc reg1 trace')
    then show ?thesis using Cons.IH sh after_failure_disabled(1) by blast
  next
    case (raised p exc reg1)
    then show ?thesis using sh after_failure_disabled(1) by blast
  qed (use Cons.prems(2) sh in auto)
qed simp

lemma loop_disables:
  assumes "resolve_loop v now g pol cs attempts errors reg = (out, reg', trace)"
    and "(mc_provider c, mc_name c, i) \<in> set trace" and "c \<in> set cs" and "distinct (map mc_name cs)"
    and "creates v g c = Inl exc" and "classify_failure exc \<in> {FAILURE_PAYMENT, FAILURE_AUTH}"
  shows "ph_disabled (get_health reg' (mc_provider c))"
  using assms
proof (induction cs arbitrary: attempts errors reg trace)
  case (Cons d cs)
  from Cons.prems(1) show ?case
  proof (cases rule: resolve_step)
    case (skip reg1)
    have "c \<in> set cs" 
      using loop_attempts [OF skip(4) Cons.prems(2)] Cons.prems(3,4) by (auto simp: rev_image_eqI)
    then show ?thesis using Cons.IH [OF skip(4) Cons.prems(2)] Cons.prems by simp
  next
    case (next_one p e reg1 trace')
    show ?thesis
    proof (cases "c = d")
      case True
      with next_one Cons.prems have "e = exc" by (simp add: creates_def)
      then show ?thesis
        using loop_keeps_disabled [OF next_one(9)] after_failure_disabled(2) Cons.prems(6) True by blast
    next
      case False
      then have "c \<in> set cs" "mc_name c \<noteq> mc_name d"
        using Cons.prems(3,4) by (auto simp: rev_image_eqI)
      then show ?thesis
        using Cons.IH [OF next_one(9)] Cons.prems next_one(10) by simp
    qed
  next
    case (raised p e reg1)
    have cd: "c = d" using Cons.prems(2-4) raised(8) by (auto simp: rev_image_eqI)
    with raised Cons.prems have "e = exc" by (simp add: creates_def)
    with raised cd Cons.prems(6) show ?thesis using after_failure_disabled(2) by auto
  next
    case (created p m)
    have "c = d" using Cons.prems(2-4) created(7) by (auto simp: rev_image_eqI)
    with created Cons.prems(5) show ?thesis by (simp add: creates_def)
  qed (use Cons.prems(2) in auto)
qed simp

lemma loop_outcome:
  assumes "resolve_loop v now g pol cs attempts errors reg = (out, reg', trace)"
    and "\<forall>c \<in> set cs. \<exists>p. get_provider g (mc_provider c) = Inr p"
  shows "case out of
      Inr m \<Rightarrow> \<exists>c \<in> set cs. eligible v now g reg c \<and> creates v g c = Inr m
                 \<and> trace \<noteq> [] \<and> fst (last trace) = mc_provider c \<and> fst (snd (last trace)) = mc_name c
    | Inl (e, cause) \<Rightarrow>
        (\<exists>es. (e, cause) = no_healthy_model es)
        \<or> (\<exists>c \<in> set cs. eligible v now g reg c \<and> creates v g c = Inl e
             \<and> (classify_failure e = FAILURE_INVALID_REQUEST \<or> \<not> rp_allow_fallback pol))"
  using assms
proof (induction cs arbitrary: attempts errors reg trace)
  case Nil
  then show ?case by (cases "no_healthy_model errors") (auto intro!: exI [of _ errors])
next
  case (Cons c cs)
  have known: "\<forall>c \<in> set cs. \<exists>p. get_provider g (mc_provider c) = Inr p" using Cons.prems(2) by simp
  from Cons.prems(1) show ?case
  proof (cases rule: resolve_step)
    case stop
    then show ?thesis by (cases "no_healthy_model errors") (auto intro!: exI [of _ errors])
  next
    case (skip reg1)
    have "eligible v now g reg1 d = eligible v now g reg d" for d
      using skip(2) by (simp add: eligible_def same_health_def)
    with Cons.IH [OF skip(4) known] show ?thesis by (auto split: sum.splits prod.splits)
  next
    case (unknown e)
    then show ?thesis using Cons.prems(2) by simp
  next
    case (created p m)
    then show ?thesis by (simp add: eligible_def creates_def)
  next
    case (raised p exc reg1)
    then show ?thesis by (auto simp: eligible_def creates_def)
  next
    case (next_one p exc reg1 trace')
    have "eligible v now g reg d" if "eligible v now g (after_failure now c exc reg1) d" for d
      using that usable_after_failure [OF next_one(2,3)] by (auto simp: eligible_def)
    with Cons.IH [OF next_one(9) known] next_one(10) show ?thesis
      by (fastforce split: sum.splits prod.splits)
  qed
qed

lemma loop_finds:
  assumes "resolve_loop v now g pol cs attempts errors reg = (out, reg', trace)"
    and "\<forall>d \<in> set cs. \<exists>p. get_provider g (mc_provider d) = Inr p"
    and "rp_allow_fallback pol" and "int (length cs) \<le> rp_max_attempts pol - attempts"
    and "\<forall>d \<in> set cs. \<forall>e. creates v g d = Inl e \<longrightarrow> classify_failure e \<noteq> FAILURE_INVALID_REQUEST"
    and "c \<in> set cs" and "eligible v now g reg c"
    and "\<forall>d \<in> set cs. mc_provider d = mc_provider c \<longrightarrow> (\<exists>m. creates v g d = Inr m)"
  shows "\<exists>m. out = Inr m"
  using assms
proof (induction cs arbitrary: attempts errors reg trace)
  case (Cons d cs)
  from Cons.prems(1) show ?case
  proof (cases rule: resolve_step)
    case (skip reg1)
    have "eligible v now g reg1 c" "c \<noteq> d"
      using skip(2,3) Cons.prems(7) by (auto simp: eligible_def same_health_def)
    then show ?thesis using Cons.IH [OF skip(4)] Cons.prems by simp
  next
    case (next_one p exc reg1 trace')
    have d: "mc_provider d \<noteq> mc_provider c"
      using Cons.prems(8) next_one(4,6) by (auto simp: creates_def)
    then have "eligible v now g (after_failure now d exc reg1) c" "c \<noteq> d"
      using next_one(2) Cons.prems(7) by (auto simp: eligible_def after_failure_other same_health_def)
    then show ?thesis using Cons.IH [OF next_one(9)] Cons.prems by simp
  qed (use Cons.prems in \<open>auto simp: creates_def\<close>)
qed simp

lemma candidates_set:
  "set (order_candidates (filter (\<lambda>m. supports_capabilities m pol) (list_models None g)) pol)
     = {m \<in> set (list_models None g). supports_capabilities m pol}"
  by (auto simp: order_candidates_def)

lemma candidates_length:
  "length (order_candidates (filter (\<lambda>m. supports_capabilities m pol) (list_models None g)) pol)
     \<le> length (mr_models g)"
proof -
  have "length (list_models None g) \<le> length (mr_models g)"
    by (simp add: list_models_def le_trans [OF length_filter_le])
  then show ?thesis
    by (simp add: order_candidates_def le_trans [OF length_filter_le])
qed

lemma candidates_distinct:
  assumes "registry_ok g"
  shows "distinct (map mc_name
    (order_candidates (filter (\<lambda>m. supports_capabilities m pol) (list_models None g)) pol))"
proof -
  have "map fst (mr_models g) = map mc_name (map snd (mr_models g))"
    using assms by (auto simp: registry_ok_def list_all_iff)
  then have d: "distinct (map mc_name (map snd (mr_models g)))"
    using assms unfolding registry_ok_def by metis
  have "distinct (map mc_name (list_models None g))"
  proof -
    have "distinct (map mc_name (filter mc_enabled (map snd (mr_models g))))"
      using d by (rule distinct_map_filter)
    then show ?thesis by (simp add: list_models_def distinct_map del: map_map)
  qed
  then have "distinct (map mc_name (filter (\<lambda>m. supports_capabilities m pol) (list_models None g)))"
    by (rule distinct_map_filter)
  then show ?thesis by (simp add: order_candidates_def distinct_map)
qed

text \<open>
  C13. Resolving a policy is safe: it makes at most \<open>max_attempts\<close> numbered attempts, each on an enabled
  registered model that has the required capabilities and whose provider was usable; a provider that
  failed with an authentication or payment error is disabled afterwards; the model returned was
  created by the last attempt; and the error raised is either that no healthy model was available or
  one a vendor raised, an invalid request or any error when fallback is off.
\<close>

theorem resolve_sound:
  assumes "registry_ok g" and "resolve v now g pol reg = (out, reg', trace)"
  shows "int (length trace) \<le> max 0 (rp_max_attempts pol)
    \<and> map (snd \<circ> snd) trace = [1 .. int (length trace)]
    \<and> (\<forall>(p, n, i) \<in> set trace. \<exists>c \<in> set (list_models None g).
          mc_provider c = p \<and> mc_name c = n \<and> supports_capabilities c pol \<and> eligible v now g reg c
          \<and> (case creates v g c of
               Inr _ \<Rightarrow> True
             | Inl e \<Rightarrow> classify_failure e \<in> {FAILURE_PAYMENT, FAILURE_AUTH} \<longrightarrow>
                         ph_disabled (get_health reg' p)))
    \<and> (case out of
         Inr m \<Rightarrow> \<exists>c \<in> set (list_models None g).
             supports_capabilities c pol \<and> eligible v now g reg c \<and> creates v g c = Inr m
             \<and> trace \<noteq> [] \<and> fst (last trace) = mc_provider c \<and> fst (snd (last trace)) = mc_name c
       | Inl (e, cause) \<Rightarrow>
           (\<exists>es. (e, cause) = no_healthy_model es)
           \<or> (\<exists>c \<in> set (list_models None g). eligible v now g reg c \<and> creates v g c = Inl e
                \<and> (classify_failure e = FAILURE_INVALID_REQUEST \<or> \<not> rp_allow_fallback pol)))"
proof (intro conjI)
  let ?cs = "order_candidates (filter (\<lambda>m. supports_capabilities m pol) (list_models None g)) pol"
  have run: "resolve_loop v now g pol ?cs 0 [] reg = (out, reg', trace)"
    using assms(2) by (simp add: resolve_def)
  show "int (length trace) \<le> max 0 (rp_max_attempts pol)" "map (snd \<circ> snd) trace = [1 .. int (length trace)]"
    using loop_bound [OF run] by simp_all
  show "\<forall>(p, n, i) \<in> set trace. \<exists>c \<in> set (list_models None g).
      mc_provider c = p \<and> mc_name c = n \<and> supports_capabilities c pol \<and> eligible v now g reg c
      \<and> (case creates v g c of Inr _ \<Rightarrow> True
         | Inl e \<Rightarrow> classify_failure e \<in> {FAILURE_PAYMENT, FAILURE_AUTH} \<longrightarrow> ph_disabled (get_health reg' p))"
  proof clarify
    fix p n i
    assume e: "(p, n, i) \<in> set trace"
    then obtain c where c: "c \<in> set ?cs" "mc_provider c = p" "mc_name c = n" "eligible v now g reg c"
      using loop_attempts [OF run] by blast
    have "case creates v g c of Inr _ \<Rightarrow> True
        | Inl e \<Rightarrow> classify_failure e \<in> {FAILURE_PAYMENT, FAILURE_AUTH} \<longrightarrow> ph_disabled (get_health reg' p)"
      using loop_disables [OF run _ c(1) candidates_distinct [OF assms(1)]] e c(2,3)
      by (auto split: sum.split)
    with c show "\<exists>c \<in> set (list_models None g). mc_provider c = p \<and> mc_name c = n
        \<and> supports_capabilities c pol \<and> eligible v now g reg c \<and> (case creates v g c of Inr _ \<Rightarrow> True
        | Inl e \<Rightarrow> classify_failure e \<in> {FAILURE_PAYMENT, FAILURE_AUTH} \<longrightarrow> ph_disabled (get_health reg' p))"
      by (auto simp: candidates_set)
  qed
  have "\<forall>c \<in> set ?cs. \<exists>p. get_provider g (mc_provider c) = Inr p"
    using listed_provider [OF assms(1)] by (simp add: candidates_set)
  from loop_outcome [OF run this]
  show "case out of
      Inr m \<Rightarrow> \<exists>c \<in> set (list_models None g).
         supports_capabilities c pol \<and> eligible v now g reg c \<and> creates v g c = Inr m
         \<and> trace \<noteq> [] \<and> fst (last trace) = mc_provider c \<and> fst (snd (last trace)) = mc_name c
    | Inl (e, cause) \<Rightarrow>
       (\<exists>es. (e, cause) = no_healthy_model es)
       \<or> (\<exists>c \<in> set (list_models None g). eligible v now g reg c \<and> creates v g c = Inl e
            \<and> (classify_failure e = FAILURE_INVALID_REQUEST \<or> \<not> rp_allow_fallback pol))"
    by (cases out) (auto simp: candidates_set)
qed

text \<open>
  C39. Resolving a policy finds a model when there is one, provided no vendor rejects the request as invalid (such
  a failure is raised again at once): with fallback on and enough attempts for every registered model, it returns
  a model as soon as some candidate is on a usable, enabled provider none of whose models fails.
\<close>

theorem resolve_finds_model:
  assumes "registry_ok g" and "rp_allow_fallback pol" and "int (length (mr_models g)) \<le> rp_max_attempts pol"
    and "\<forall>d \<in> set (list_models None g). \<forall>e. creates v g d = Inl e \<longrightarrow>
           classify_failure e \<noteq> FAILURE_INVALID_REQUEST"
    and "c \<in> set (list_models None g)" and "supports_capabilities c pol" and "eligible v now g reg c"
    and "\<forall>d \<in> set (list_models None g). mc_provider d = mc_provider c \<longrightarrow> (\<exists>m. creates v g d = Inr m)"
  shows "\<exists>m. fst (resolve v now g pol reg) = Inr m"
proof -
  let ?cs = "order_candidates (filter (\<lambda>m. supports_capabilities m pol) (list_models None g)) pol"
  obtain out reg' trace where run: "resolve_loop v now g pol ?cs 0 [] reg = (out, reg', trace)"
    by (metis prod_cases3)
  have "\<exists>m. out = Inr m"
  proof (rule loop_finds [OF run _ assms(2), where c = c])
    show "int (length ?cs) \<le> rp_max_attempts pol - 0"
      using assms(3) candidates_length [of pol g] by linarith
  qed (use assms listed_provider [OF assms(1)] in \<open>auto simp: candidates_set\<close>)
  with run show ?thesis by (simp add: resolve_def)
qed

section \<open>A concrete router\<close>

definition sample_model :: "string \<Rightarrow> string \<Rightarrow> int \<Rightarrow> model_config" where
  "sample_model name provider priority =
     \<lparr>mc_name = name, mc_provider = provider, mc_model_id = name, mc_capabilities = [''reasoning''],
      mc_temperature = 0, mc_max_tokens = None, mc_priority = priority, mc_enabled = True,
      mc_context_window = None, mc_input_cost_per_1m_tokens = None, mc_output_cost_per_1m_tokens = None\<rparr>"

definition sample_registry :: "bool model_registry" where
  "sample_registry =
     \<lparr>mr_providers = [(''bedrock'', True), (''nvidia'', True)],
      mr_models = [(''small'', sample_model ''small'' ''nvidia'' 20), (''large'', sample_model ''large'' ''bedrock'' 10)],
      mr_embedding_models = []\<rparr>"

text \<open>The first provider of the chain is out of credit, the second answers.\<close>

definition sample_vendor :: "(bool, string) vendor" where
  "sample_vendor =
     \<lparr>is_enabled = (\<lambda>p. p),
      create_model = (\<lambda>p c. if mc_provider c = ''bedrock'' then Inl (RuntimeError ''HTTP 402'') else Inr (mc_name c))\<rparr>"

definition sample_policy :: routing_policy where
  "sample_policy = default_policy\<lparr>rp_required_capabilities := [''reasoning'']\<rparr>"

lemma sample_candidates:
  "order_candidates (filter (\<lambda>m. supports_capabilities m sample_policy) (list_models None sample_registry)) sample_policy
     = [sample_model ''large'' ''bedrock'' 10, sample_model ''small'' ''nvidia'' 20]"
  by code_simp

lemma sample_classify: "classify_failure (RuntimeError ''HTTP 402'') = FAILURE_PAYMENT"
  by code_simp

lemma sample_ok: "registry_ok sample_registry"
  by code_simp

lemma sample_new: "usable 0 (new_health p)" "snd (available 0 (new_health p)) = new_health p"
  by (simp_all add: usable_cases available_def new_health_def)

lemma sample_available:
  "provider_available 0 p Map.empty = (True, [p \<mapsto> new_health p])"
  "q \<noteq> p \<Longrightarrow> provider_available 0 q [p \<mapsto> h] = (True, [p \<mapsto> h, q \<mapsto> new_health q])"
  by (simp_all add: provider_available_def get_health_def available_def new_health_def)

lemma sample_run:
  "\<exists>reg'. resolve sample_vendor 0 sample_registry sample_policy Map.empty
      = (Inr ''small'', reg', [(''bedrock'', ''large'', 1), (''nvidia'', ''small'', 2)])"
  unfolding resolve_def sample_candidates
  by (simp add: sample_available sample_classify on_health_def get_provider_def sample_registry_def
      sample_vendor_def sample_policy_def default_policy_def sample_model_def)

lemma sample_listed:
  "set (list_models None sample_registry)
     = {sample_model ''large'' ''bedrock'' 10, sample_model ''small'' ''nvidia'' 20}"
  by (auto simp: list_models_set sample_registry_def sample_model_def)

lemma sample_creates:
  "creates sample_vendor sample_registry (sample_model ''large'' ''bedrock'' 10) = Inl (RuntimeError ''HTTP 402'')"
  "creates sample_vendor sample_registry (sample_model ''small'' ''nvidia'' 20) = Inr ''small''"
  by (simp_all add: creates_def get_provider_def sample_registry_def sample_vendor_def sample_model_def)

lemma sample_names:
  "mc_provider (sample_model n p i) = p" "mc_name (sample_model n p i) = n"
  by (simp_all add: sample_model_def)

theorem resolve_sound_witness:
  "\<exists>reg'. resolve sample_vendor 0 sample_registry sample_policy Map.empty
      = (Inr ''small'', reg', [(''bedrock'', ''large'', 1), (''nvidia'', ''small'', 2)])
    \<and> ph_disabled (get_health reg' ''bedrock'')"
proof -
  obtain reg' where run: "resolve sample_vendor 0 sample_registry sample_policy Map.empty
      = (Inr ''small'', reg', [(''bedrock'', ''large'', 1), (''nvidia'', ''small'', 2)])"
    using sample_run by blast
  have "ph_disabled (get_health reg' ''bedrock'')"
    using resolve_sound [OF sample_ok run] by (simp add: sample_listed sample_creates sample_names sample_classify)
  with run show ?thesis by blast
qed

theorem resolve_finds_model_witness:
  "\<exists>m. fst (resolve sample_vendor 0 sample_registry sample_policy Map.empty) = Inr m"
proof (rule resolve_finds_model [OF sample_ok, where c = "sample_model ''small'' ''nvidia'' 20"])
  show "sample_model ''small'' ''nvidia'' 20 \<in> set (list_models None sample_registry)"
    by (simp add: sample_listed)
  show "eligible sample_vendor 0 sample_registry Map.empty (sample_model ''small'' ''nvidia'' 20)"
    by (simp add: eligible_def get_health_def sample_new get_provider_def sample_registry_def
        sample_vendor_def sample_model_def)
  show "supports_capabilities (sample_model ''small'' ''nvidia'' 20) sample_policy"
    "rp_allow_fallback sample_policy"
    "int (length (mr_models sample_registry)) \<le> rp_max_attempts sample_policy"
    by (simp_all add: supports_capabilities_def sample_model_def sample_policy_def default_policy_def
        sample_registry_def)
  show "\<forall>d \<in> set (list_models None sample_registry). \<forall>e. creates sample_vendor sample_registry d = Inl e \<longrightarrow>
      classify_failure e \<noteq> FAILURE_INVALID_REQUEST"
    "\<forall>d \<in> set (list_models None sample_registry).
      mc_provider d = mc_provider (sample_model ''small'' ''nvidia'' 20) \<longrightarrow>
      (\<exists>m. creates sample_vendor sample_registry d = Inr m)"
    by (auto simp: sample_listed sample_creates sample_names sample_classify)
qed

end
