(* ===== verification/Model_Stats.thy ===== *)
theory Model_Stats
  imports Draftly_Prelude
begin

text \<open>
  Task-scoped model statistics: the in-memory store of \<^verbatim>\<open>src/draftly/models/performance.py\<close> with
  its latency window and percentiles, and the Redis store of \<^verbatim>\<open>models/redis_performance.py\<close>, which
  keeps a copy of its moving averages under a flat key and no percentiles. The two files share no code, so the
  models share none either. Floats are real numbers; a Redis value is the record its JSON encodes.
\<close>

section \<open>The in-memory store\<close>

definition LATENCY_WINDOW :: nat where
  "LATENCY_WINDOW = 250"

record task_model_stats =
  ts_sample_count :: nat
  ts_mean_latency_ms :: real
  ts_variance_latency_ms :: real
  ts_success_rate :: real
  ts_quality_ema :: "real option"
  ts_p50_latency_ms :: real
  ts_p95_latency_ms :: real
  ts_latencies :: "real list"

definition new_stats :: task_model_stats where
  "new_stats =
     \<lparr>ts_sample_count = 0, ts_mean_latency_ms = 0, ts_variance_latency_ms = 0, ts_success_rate = 1,
      ts_quality_ema = None, ts_p50_latency_ms = 0, ts_p95_latency_ms = 0, ts_latencies = []\<rparr>"

type_synonym stats_store = "string \<times> string \<rightharpoonup> task_model_stats"

text \<open>A \<^verbatim>\<open>deque(maxlen)\<close> drops its oldest entries.\<close>

definition push_latency :: "real \<Rightarrow> real list \<Rightarrow> real list" where
  "push_latency x xs = drop (length xs + 1 - LATENCY_WINDOW) (xs @ [x])"

definition ema :: "real \<Rightarrow> real \<Rightarrow> real \<Rightarrow> real" where
  "ema a x y = a * x + (1 - a) * y"

text \<open>The moving averages of an outcome.\<close>

definition outcome_ema :: "real \<Rightarrow> bool \<Rightarrow> real \<Rightarrow> task_model_stats \<Rightarrow> task_model_stats" where
  "outcome_ema a success latency st =
     (let n = ts_sample_count st + 1;
          delta = latency - ts_mean_latency_ms st
      in st\<lparr>ts_sample_count := n,
            ts_mean_latency_ms := (if n = 1 then latency else ts_mean_latency_ms st + a * delta),
            ts_variance_latency_ms :=
              (if n = 1 then 0
               else ts_variance_latency_ms st + a * (delta * delta - ts_variance_latency_ms st)),
            ts_success_rate := ema a (if success then 1 else 0) (ts_success_rate st)\<rparr>)"

definition quality_update :: "real \<Rightarrow> real \<Rightarrow> task_model_stats \<Rightarrow> task_model_stats" where
  "quality_update a quality st =
     st\<lparr>ts_sample_count := ts_sample_count st + 1,
        ts_quality_ema := Some (case ts_quality_ema st of None \<Rightarrow> quality | Some q \<Rightarrow> ema a quality q)\<rparr>"

definition outcome_update :: "real \<Rightarrow> bool \<Rightarrow> real \<Rightarrow> task_model_stats \<Rightarrow> task_model_stats" where
  "outcome_update a success latency st =
     (let window = push_latency latency (ts_latencies st);
          ordered = sort window;
          n = length ordered
      in (outcome_ema a success latency st)\<lparr>ts_latencies := window,
            ts_p50_latency_ms := ordered ! (n div 2),
            ts_p95_latency_ms := ordered ! (min (n * 95 div 100) (n - 1))\<rparr>)"

definition entry :: "string \<times> string \<Rightarrow> stats_store \<Rightarrow> task_model_stats" where
  "entry k s = (case s k of None \<Rightarrow> new_stats | Some st \<Rightarrow> st)"

definition record_outcome ::
  "real \<Rightarrow> string \<times> string \<Rightarrow> bool \<Rightarrow> real \<Rightarrow> stats_store \<Rightarrow> stats_store" where
  "record_outcome a k success latency s = s(k \<mapsto> outcome_update a success latency (entry k s))"

definition record_quality :: "real \<Rightarrow> string \<times> string \<Rightarrow> real \<Rightarrow> stats_store \<Rightarrow> stats_store" where
  "record_quality a k quality s = s(k \<mapsto> quality_update a quality (entry k s))"

definition get_stats :: "string \<times> string \<Rightarrow> stats_store \<Rightarrow> task_model_stats option" where
  "get_stats k s = s k"

definition sample_count :: "string \<times> string \<Rightarrow> stats_store \<Rightarrow> nat" where
  "sample_count k s = (case get_stats k s of None \<Rightarrow> 0 | Some st \<Rightarrow> ts_sample_count st)"

definition has_enough_samples :: "nat \<Rightarrow> string \<times> string \<Rightarrow> stats_store \<Rightarrow> bool" where
  "has_enough_samples threshold k s \<longleftrightarrow> threshold \<le> sample_count k s"

definition get_quality :: "string \<times> string \<Rightarrow> stats_store \<Rightarrow> real option" where
  "get_quality k s = (case get_stats k s of None \<Rightarrow> None | Some st \<Rightarrow> ts_quality_ema st)"

definition get_success_rate :: "string \<times> string \<Rightarrow> stats_store \<Rightarrow> real option" where
  "get_success_rate k s =
     (case get_stats k s of
        None \<Rightarrow> None
      | Some st \<Rightarrow> if 0 < ts_sample_count st then Some (ts_success_rate st) else None)"

definition get_latency_p95 :: "string \<times> string \<Rightarrow> stats_store \<Rightarrow> real option" where
  "get_latency_p95 k s =
     (case get_stats k s of
        None \<Rightarrow> None
      | Some st \<Rightarrow> if 0 < ts_p95_latency_ms st then Some (ts_p95_latency_ms st) else None)"

section \<open>The Redis store\<close>

text \<open>The fields of the JSON object under a key.\<close>

record redis_stats =
  rq_sample_count :: nat
  rq_mean_latency_ms :: real
  rq_variance_latency_ms :: real
  rq_success_rate :: real
  rq_quality_ema :: "real option"
  rq_p50_latency_ms :: real
  rq_p95_latency_ms :: real

definition new_redis_stats :: redis_stats where
  "new_redis_stats =
     \<lparr>rq_sample_count = 0, rq_mean_latency_ms = 0, rq_variance_latency_ms = 0, rq_success_rate = 1,
      rq_quality_ema = None, rq_p50_latency_ms = 0, rq_p95_latency_ms = 0\<rparr>"

type_synonym redis = "string \<rightharpoonup> redis_stats"

definition redis_key :: "string \<times> string \<Rightarrow> string" where
  "redis_key k = ''draftly:ema:'' @ fst k @ '':'' @ snd k"

definition redis_entry :: "string \<times> string \<Rightarrow> redis \<Rightarrow> redis_stats" where
  "redis_entry k r = (case r (redis_key k) of None \<Rightarrow> new_redis_stats | Some st \<Rightarrow> st)"

definition redis_outcome :: "real \<Rightarrow> bool \<Rightarrow> real \<Rightarrow> redis_stats \<Rightarrow> redis_stats" where
  "redis_outcome a success latency_ms st =
     (let counted = st\<lparr>rq_sample_count := rq_sample_count st + 1\<rparr>;
          timed =
            (if rq_sample_count counted = 1
             then counted\<lparr>rq_mean_latency_ms := latency_ms, rq_variance_latency_ms := 0\<rparr>
             else
               let delta = latency_ms - rq_mean_latency_ms counted
               in counted\<lparr>rq_mean_latency_ms := rq_mean_latency_ms counted + a * delta,
                         rq_variance_latency_ms := rq_variance_latency_ms counted
                           + a * (delta * delta - rq_variance_latency_ms counted)\<rparr>)
      in timed\<lparr>rq_success_rate := a * (if success then 1 else 0) + (1 - a) * rq_success_rate timed\<rparr>)"

definition redis_quality :: "real \<Rightarrow> real \<Rightarrow> redis_stats \<Rightarrow> redis_stats" where
  "redis_quality a quality st =
     st\<lparr>rq_sample_count := rq_sample_count st + 1,
        rq_quality_ema :=
          Some (case rq_quality_ema st of None \<Rightarrow> quality | Some q \<Rightarrow> a * quality + (1 - a) * q)\<rparr>"

definition redis_record_outcome ::
  "real \<Rightarrow> string \<times> string \<Rightarrow> bool \<Rightarrow> real \<Rightarrow> redis \<Rightarrow> redis" where
  "redis_record_outcome a k success latency r =
     r(redis_key k \<mapsto> redis_outcome a success latency (redis_entry k r))"

definition redis_record_quality :: "real \<Rightarrow> string \<times> string \<Rightarrow> real \<Rightarrow> redis \<Rightarrow> redis" where
  "redis_record_quality a k quality r =
     r(redis_key k \<mapsto> redis_quality a quality (redis_entry k r))"

definition redis_get_stats :: "string \<times> string \<Rightarrow> redis \<Rightarrow> redis_stats option" where
  "redis_get_stats k r = r (redis_key k)"

definition redis_sample_count :: "string \<times> string \<Rightarrow> redis \<Rightarrow> nat" where
  "redis_sample_count k r = (case redis_get_stats k r of None \<Rightarrow> 0 | Some st \<Rightarrow> rq_sample_count st)"

definition redis_has_enough_samples :: "nat \<Rightarrow> string \<times> string \<Rightarrow> redis \<Rightarrow> bool" where
  "redis_has_enough_samples threshold k r \<longleftrightarrow> threshold \<le> redis_sample_count k r"

definition redis_get_quality :: "string \<times> string \<Rightarrow> redis \<Rightarrow> real option" where
  "redis_get_quality k r = (case redis_get_stats k r of None \<Rightarrow> None | Some st \<Rightarrow> rq_quality_ema st)"

definition redis_get_success_rate :: "string \<times> string \<Rightarrow> redis \<Rightarrow> real option" where
  "redis_get_success_rate k r =
     (case redis_get_stats k r of
        None \<Rightarrow> None
      | Some st \<Rightarrow> if 0 < rq_sample_count st then Some (rq_success_rate st) else None)"

definition redis_get_latency_p95 :: "string \<times> string \<Rightarrow> redis \<Rightarrow> real option" where
  "redis_get_latency_p95 k r =
     (case redis_get_stats k r of
        None \<Rightarrow> None
      | Some st \<Rightarrow> if 0 < rq_p95_latency_ms st then Some (rq_p95_latency_ms st) else None)"

section \<open>The store contract\<close>

text \<open>
  A statistics store maps (task type, model) pairs to entries: recording updates its own pair
  by the store's update function, starting from a fresh entry, and no other pair.
\<close>

locale observation_store =
  fixes fresh :: 'e
    and read :: "'k \<Rightarrow> 's \<Rightarrow> 'e option"
    and write_outcome :: "'k \<Rightarrow> bool \<Rightarrow> real \<Rightarrow> 's \<Rightarrow> 's"
    and write_quality :: "'k \<Rightarrow> real \<Rightarrow> 's \<Rightarrow> 's"
    and on_outcome :: "bool \<Rightarrow> real \<Rightarrow> 'e \<Rightarrow> 'e"
    and on_quality :: "real \<Rightarrow> 'e \<Rightarrow> 'e"
    and key_ok :: "'k \<Rightarrow> bool"
  assumes read_outcome: "key_ok k \<Longrightarrow> key_ok j \<Longrightarrow>
      read k (write_outcome j b l s) =
        (if k = j then Some (on_outcome b l (case read j s of None \<Rightarrow> fresh | Some st \<Rightarrow> st)) else read k s)"
    and read_quality: "key_ok k \<Longrightarrow> key_ok j \<Longrightarrow>
      read k (write_quality j q s) =
        (if k = j then Some (on_quality q (case read j s of None \<Rightarrow> fresh | Some st \<Rightarrow> st)) else read k s)"
begin

text \<open>A predicate on statistics that holds of fresh ones and of every update holds of all reads.\<close>

lemma read_invariant_outcome:
  "(\<And>st. read k s = Some st \<Longrightarrow> P st) \<Longrightarrow> P fresh \<Longrightarrow> (\<And>st. P st \<Longrightarrow> P (on_outcome b l st)) \<Longrightarrow>
     key_ok k \<Longrightarrow> key_ok j \<Longrightarrow> read k (write_outcome j b l s) = Some st \<Longrightarrow> P st"
  by (auto simp: read_outcome split: if_splits option.splits)

lemma read_invariant_quality:
  "(\<And>st. read k s = Some st \<Longrightarrow> P st) \<Longrightarrow> P fresh \<Longrightarrow> (\<And>st. P st \<Longrightarrow> P (on_quality q st)) \<Longrightarrow>
     key_ok k \<Longrightarrow> key_ok j \<Longrightarrow> read k (write_quality j q s) = Some st \<Longrightarrow> P st"
  by (auto simp: read_quality split: if_splits option.splits)

end

text \<open>Task types contain no colon, so the flat Redis keys do not collide.\<close>

definition plain_key :: "string \<times> string \<Rightarrow> bool" where
  "plain_key k \<longleftrightarrow> CHR '':'' \<notin> set (fst k)"

lemma redis_key_inject:
  assumes "plain_key k" "plain_key j"
  shows "redis_key k = redis_key j \<longleftrightarrow> k = j"
proof -
  have "a @ c # x = b @ c # y \<longleftrightarrow> a = b \<and> x = y" if "c \<notin> set a" "c \<notin> set b" for a b x y :: string and c
    using that
  proof (induction a arbitrary: b)
    case Nil
    then show ?case by (cases b) auto
  next
    case (Cons z a)
    then show ?case by (cases b) auto
  qed
  with assms show ?thesis
    by (cases k, cases j) (auto simp: redis_key_def plain_key_def)
qed

interpretation memory: observation_store new_stats get_stats "record_outcome a" "record_quality a"
  "outcome_update a" "quality_update a" "\<lambda>_. True" for a
  by unfold_locales (simp_all add: get_stats_def record_outcome_def record_quality_def entry_def)

interpretation redis: observation_store new_redis_stats redis_get_stats "redis_record_outcome a"
  "redis_record_quality a" "redis_outcome a" "redis_quality a" plain_key for a
  by unfold_locales
    (simp_all add: redis_get_stats_def redis_record_outcome_def redis_record_quality_def
      redis_entry_def redis_key_inject)

section \<open>Observations and bounds\<close>

datatype observation = Outcome "string \<times> string" bool real | Quality "string \<times> string" real

fun obs_key :: "observation \<Rightarrow> string \<times> string" where
  "obs_key (Outcome k _ _) = k"
| "obs_key (Quality k _) = k"

fun observe :: "real \<Rightarrow> observation \<Rightarrow> stats_store \<Rightarrow> stats_store" where
  "observe a (Outcome k b l) s = record_outcome a k b l s"
| "observe a (Quality k q) s = record_quality a k q s"

fun redis_observe :: "real \<Rightarrow> observation \<Rightarrow> redis \<Rightarrow> redis" where
  "redis_observe a (Outcome k b l) r = redis_record_outcome a k b l r"
| "redis_observe a (Quality k q) r = redis_record_quality a k q r"

fun obs_ok :: "observation \<Rightarrow> bool" where
  "obs_ok (Outcome _ _ l) = (0 \<le> l)"
| "obs_ok (Quality _ q) = (0 \<le> q \<and> q \<le> 1)"

definition stats_ok :: "task_model_stats \<Rightarrow> bool" where
  "stats_ok st \<longleftrightarrow>
     0 \<le> ts_success_rate st \<and> ts_success_rate st \<le> 1
     \<and> 0 \<le> ts_variance_latency_ms st \<and> 0 \<le> ts_mean_latency_ms st
     \<and> (case ts_quality_ema st of None \<Rightarrow> True | Some q \<Rightarrow> 0 \<le> q \<and> q \<le> 1)
     \<and> length (ts_latencies st) \<le> LATENCY_WINDOW
     \<and> list_all (\<lambda>l. 0 \<le> l) (ts_latencies st)
     \<and> 0 \<le> ts_p50_latency_ms st \<and> ts_p50_latency_ms st \<le> ts_p95_latency_ms st"

lemma ema_bounds:
  assumes "0 \<le> a" "a \<le> 1" "lo \<le> x" "x \<le> hi" "lo \<le> y" "y \<le> hi"
  shows "lo \<le> ema a x y \<and> ema a x y \<le> hi"
proof -
  have "a * lo \<le> a * x" "(1 - a) * lo \<le> (1 - a) * y" "a * x \<le> a * hi" "(1 - a) * y \<le> (1 - a) * hi"
    using assms by (simp_all add: mult_left_mono)
  moreover have "a * lo + (1 - a) * lo = lo" "a * hi + (1 - a) * hi = hi"
    by (simp_all add: algebra_simps)
  ultimately show ?thesis by (simp add: ema_def)
qed

lemma window_length: "length (push_latency x xs) \<le> LATENCY_WINDOW" "push_latency x xs \<noteq> []"
  by (simp_all add: push_latency_def LATENCY_WINDOW_def)

lemma window_member: "set (push_latency x xs) \<subseteq> insert x (set xs)"
  using set_drop_subset [of "length xs + 1 - LATENCY_WINDOW" "xs @ [x]"]
  by (auto simp: push_latency_def)

lemma percentiles_ordered:
  fixes xs :: "real list"
  assumes "xs \<noteq> []"
  shows "sort xs ! (length xs div 2) \<in> set xs"
    and "sort xs ! (length xs div 2) \<le> sort xs ! (min (length xs * 95 div 100) (length xs - 1))"
proof -
  have n: "0 < length xs" using assms by simp
  then have "sort xs ! (length xs div 2) \<in> set (sort xs)" by (intro nth_mem) simp
  then show "sort xs ! (length xs div 2) \<in> set xs" by simp
  show "sort xs ! (length xs div 2) \<le> sort xs ! (min (length xs * 95 div 100) (length xs - 1))"
  proof (rule sorted_nth_mono)
    have lt: "length xs * 95 div 100 < length xs" using n by (simp add: div_less_iff_less_mult)
    then show "length xs div 2 \<le> min (length xs * 95 div 100) (length xs - 1)"
      using n by (simp add: min_def) linarith
    show "min (length xs * 95 div 100) (length xs - 1) < length (sort xs)"
      using lt by (simp add: min_less_iff_disj)
  qed simp
qed

lemma outcome_update_ok:
  assumes a: "0 \<le> a" "a \<le> 1" and st: "stats_ok st" and l: "0 \<le> l"
  shows "stats_ok (outcome_update a b l st)"
proof -
  let ?w = "push_latency l (ts_latencies st)"
  have w: "list_all (\<lambda>x. 0 \<le> x) ?w"
    using window_member [of l "ts_latencies st"] st l by (auto simp: stats_ok_def list_all_iff)
  have p: "0 \<le> sort ?w ! (length ?w div 2)"
    using percentiles_ordered(1) [of ?w] window_length(2) w by (auto simp: list_all_iff)
  have sr: "0 \<le> ema a (if b then 1 else 0) (ts_success_rate st)
      \<and> ema a (if b then 1 else 0) (ts_success_rate st) \<le> 1"
    using a st by (intro ema_bounds) (auto simp: stats_ok_def)
  have mean: "0 \<le> ts_mean_latency_ms st + a * (l - ts_mean_latency_ms st)"
    using a st l mult_left_le_one_le [of "ts_mean_latency_ms st" a] mult_nonneg_nonneg [of a l]
    by (auto simp: stats_ok_def algebra_simps intro: add_increasing2)
  have var: "0 \<le> ts_variance_latency_ms st + a * (x * x - ts_variance_latency_ms st)" for x
    using a st mult_left_le_one_le [of "ts_variance_latency_ms st" a] mult_nonneg_nonneg [of a "x * x"]
    by (auto simp: stats_ok_def algebra_simps intro: add_increasing2)
  show ?thesis
    using st w p sr mean var l percentiles_ordered(2) [of ?w] window_length
    by (simp add: stats_ok_def outcome_update_def outcome_ema_def Let_def)
qed

lemma quality_update_ok:
  assumes "0 \<le> a" "a \<le> 1" "stats_ok st" "0 \<le> q" "q \<le> 1"
  shows "stats_ok (quality_update a q st)"
  using assms ema_bounds [of a 0 q 1] by (auto simp: stats_ok_def quality_update_def split: option.splits)

lemma new_stats_ok: "stats_ok new_stats"
  by (simp add: stats_ok_def new_stats_def)

lemma observed_stats_ok:
  assumes "0 \<le> a" and "a \<le> 1" and "list_all obs_ok os"
    and "get_stats k (fold (observe a) os Map.empty) = Some st"
  shows "stats_ok st"
proof -
  have "\<forall>k st. get_stats k (fold (observe a) os s) = Some st \<longrightarrow> stats_ok st"
    if "\<forall>k st. get_stats k s = Some st \<longrightarrow> stats_ok st" for s
    using assms(3) that
  proof (induction os arbitrary: s)
    case (Cons ob os)
    have "stats_ok st" if "get_stats k (observe a ob s) = Some st" for k st
    proof (cases ob)
      case (Outcome j b l)
      with Cons.prems(1) have l: "0 \<le> l" by simp
      show ?thesis
        by (rule memory.read_invariant_outcome
            [where P = stats_ok and k = k and j = j and s = s and a = a and b = b and l = l])
          (use Cons.prems(2) that Outcome outcome_update_ok [OF assms(1,2)] l new_stats_ok in \<open>auto simp del: split_paired_All\<close>)
    next
      case (Quality j q)
      with Cons.prems(1) have q: "0 \<le> q" "q \<le> 1" by simp_all
      show ?thesis
        by (rule memory.read_invariant_quality
            [where P = stats_ok and k = k and j = j and s = s and a = a and q = q])
          (use Cons.prems(2) that Quality quality_update_ok [OF assms(1,2)] q new_stats_ok in \<open>auto simp del: split_paired_All\<close>)
    qed
    with Cons.IH [of "observe a ob s"] Cons.prems(1) show ?case by simp
  qed simp
  from this [of Map.empty] assms(4) show ?thesis by (cases k) (simp add: get_stats_def)
qed

text \<open>
  Statistics stay in range: with a smoothing factor between 0 and 1 and valid observations,
  every entry the store ever holds has a success rate and a quality between 0 and 1, non-negative
  mean and variance, a latency window of at most 250 entries, and a median no greater than its
  95th percentile.
\<close>

theorem stats_in_range:
  assumes "0 \<le> a" and "a \<le> 1" and "list_all obs_ok os"
    and "get_stats k (fold (observe a) os Map.empty) = Some st"
  shows "stats_ok st"
  using assms by (rule observed_stats_ok)

theorem stats_in_range_witness:
  "stats_ok (outcome_update (1 / 2) True 8 (outcome_update (1 / 2) False 4 new_stats))"
  using stats_in_range
    [of "1 / 2" "[Outcome (''t'', ''m'') False 4, Outcome (''t'', ''m'') True 8]" "(''t'', ''m'')"
      "outcome_update (1 / 2) True 8 (outcome_update (1 / 2) False 4 new_stats)"]
  by (simp add: get_stats_def record_outcome_def entry_def)

section \<open>The Redis store agrees with the in-memory store\<close>

text \<open>What Redis keeps of an entry: everything but the latency window and the percentiles.\<close>

definition flat_stats :: "task_model_stats \<Rightarrow> redis_stats" where
  "flat_stats st =
     \<lparr>rq_sample_count = ts_sample_count st, rq_mean_latency_ms = ts_mean_latency_ms st,
      rq_variance_latency_ms = ts_variance_latency_ms st, rq_success_rate = ts_success_rate st,
      rq_quality_ema = ts_quality_ema st, rq_p50_latency_ms = 0, rq_p95_latency_ms = 0\<rparr>"

lemma flat_new: "flat_stats new_stats = new_redis_stats"
  by (simp add: flat_stats_def new_stats_def new_redis_stats_def)

lemma flat_outcome: "flat_stats (outcome_update a b l st) = redis_outcome a b l (flat_stats st)"
  by (simp add: flat_stats_def outcome_update_def outcome_ema_def redis_outcome_def ema_def Let_def)

lemma flat_quality: "flat_stats (quality_update a q st) = redis_quality a q (flat_stats st)"
  by (simp add: flat_stats_def quality_update_def redis_quality_def ema_def split: option.split)

lemma redis_step:
  assumes k: "plain_key k" and ob: "plain_key (obs_key ob)"
    and rel: "\<And>j. plain_key j \<Longrightarrow> redis_get_stats j r = map_option flat_stats (get_stats j s)"
  shows "redis_get_stats k (redis_observe a ob r) = map_option flat_stats (get_stats k (observe a ob s))"
  using ob rel k
  by (cases ob)
    (auto simp: redis.read_outcome redis.read_quality memory.read_outcome memory.read_quality
      flat_outcome flat_quality flat_new split: option.splits)

text \<open>
  C37. The Redis store refines the in-memory store up to percentiles: after any sequence of observations for task
  types without a colon (a colon would make keys collide), the Redis entry is the in-memory one without its
  latency window and percentiles, so both answer sample counts, thresholds, success rates and qualities alike;
  the 95th percentile, which the in-memory store answers once a latency was observed, Redis never answers.
\<close>

theorem redis_refines_memory:
  assumes "list_all (\<lambda>ob. plain_key (obs_key ob)) os" and "plain_key k"
  shows "redis_get_stats k (fold (redis_observe a) os Map.empty)
           = map_option flat_stats (get_stats k (fold (observe a) os Map.empty))
    \<and> redis_sample_count k (fold (redis_observe a) os Map.empty)
           = sample_count k (fold (observe a) os Map.empty)
    \<and> redis_get_success_rate k (fold (redis_observe a) os Map.empty)
           = get_success_rate k (fold (observe a) os Map.empty)
    \<and> redis_get_quality k (fold (redis_observe a) os Map.empty)
           = get_quality k (fold (observe a) os Map.empty)
    \<and> redis_has_enough_samples threshold k (fold (redis_observe a) os Map.empty)
           = has_enough_samples threshold k (fold (observe a) os Map.empty)
    \<and> redis_get_latency_p95 k (fold (redis_observe a) os Map.empty) = None"
proof -
  have "\<forall>k. plain_key k \<longrightarrow> redis_get_stats k (fold (redis_observe a) os r)
      = map_option flat_stats (get_stats k (fold (observe a) os s))"
    if "\<forall>k. plain_key k \<longrightarrow> redis_get_stats k r = map_option flat_stats (get_stats k s)" for r s
    using assms(1) that
  proof (induction os arbitrary: r s)
    case (Cons ob os)
    show ?case
      by (simp del: split_paired_All, rule Cons.IH)
        (use Cons.prems redis_step [of _ ob r s a] in \<open>simp_all del: split_paired_All\<close>)
  qed simp
  from this [of Map.empty Map.empty] assms(2)
  have eq: "redis_get_stats k (fold (redis_observe a) os Map.empty)
      = map_option flat_stats (get_stats k (fold (observe a) os Map.empty))"
    by (cases k) (simp add: redis_get_stats_def get_stats_def)
  show ?thesis
    by (simp add: eq redis_sample_count_def sample_count_def redis_get_success_rate_def
        get_success_rate_def redis_get_quality_def get_quality_def redis_has_enough_samples_def
        has_enough_samples_def redis_get_latency_p95_def flat_stats_def split: option.splits)
qed

theorem redis_refines_memory_witness:
  "let os = [Outcome (''t'', ''m:0'') True 8, Outcome (''t'', ''m:0'') False 4, Quality (''t'', ''m:0'') 1] in
     redis_sample_count (''t'', ''m:0'') (fold (redis_observe (1 / 2)) os Map.empty) = 3
     \<and> redis_get_success_rate (''t'', ''m:0'') (fold (redis_observe (1 / 2)) os Map.empty) = Some (1 / 2)
     \<and> redis_get_latency_p95 (''t'', ''m:0'') (fold (redis_observe (1 / 2)) os Map.empty) = None
     \<and> get_latency_p95 (''t'', ''m:0'') (fold (observe (1 / 2)) os Map.empty) = Some 8"
proof -
  let ?os = "[Outcome (''t'', ''m:0'') True 8, Outcome (''t'', ''m:0'') False 4, Quality (''t'', ''m:0'') 1]"
  let ?k = "(''t'', ''m:0'')"
  have "list_all (\<lambda>ob. plain_key (obs_key ob)) ?os" "plain_key ?k" by (simp_all add: plain_key_def)
  note r = redis_refines_memory [OF this, of "1 / 2"]
  have "sample_count ?k (fold (observe (1 / 2)) ?os Map.empty) = 3"
    "get_success_rate ?k (fold (observe (1 / 2)) ?os Map.empty) = Some (1 / 2)"
    "get_latency_p95 ?k (fold (observe (1 / 2)) ?os Map.empty) = Some 8"
    by (simp_all add: sample_count_def get_success_rate_def get_latency_p95_def get_stats_def record_outcome_def
        record_quality_def entry_def quality_update_def outcome_update_def outcome_ema_def new_stats_def ema_def
        push_latency_def LATENCY_WINDOW_def Let_def)
  with r show ?thesis by simp
qed

end
