(* ===== verification/Model_Routing.thy ===== *)
theory Model_Routing
  imports Model_Registry Model_Stats "HOL-Library.Sublist"
begin

text \<open>
  Adaptive routing: \<^verbatim>\<open>src/draftly/models/schemas.py\<close>, \<^verbatim>\<open>profiles.py\<close>, \<^verbatim>\<open>pricing.py\<close>,
  \<^verbatim>\<open>constraints.py\<close>, \<^verbatim>\<open>scoring.py\<close> and \<^verbatim>\<open>ModelRouter.route\<close> of \<^verbatim>\<open>router.py\<close>. Checking the health
  of a provider may update its record, so the health registry is threaded through the filters.
\<close>

section \<open>Requests and profiles\<close>

datatype task_type =
    SUPPORT | FAST | REASONING | RESEARCH | DOCUMENTATION_GENERATION | DOCUMENTATION_REVIEW
  | EVALUATION | DELIVERY

fun task_value :: "task_type \<Rightarrow> string" where
  "task_value SUPPORT = ''support''"
| "task_value FAST = ''fast''"
| "task_value REASONING = ''reasoning''"
| "task_value RESEARCH = ''research''"
| "task_value DOCUMENTATION_GENERATION = ''documentation_generation''"
| "task_value DOCUMENTATION_REVIEW = ''documentation_review''"
| "task_value EVALUATION = ''evaluation''"
| "task_value DELIVERY = ''delivery''"

record routing_request =
  rq_task_type :: task_type
  rq_context_tokens :: int
  rq_estimated_output_tokens :: int
  rq_priority :: int
  rq_cost_budget :: "real option"
  rq_latency_budget_ms :: "real option"

record routing_profile =
  pf_name :: string
  pf_w_quality :: real
  pf_w_reliability :: real
  pf_w_latency :: real
  pf_w_cost :: real
  pf_w_history :: real
  pf_quality_floor :: real

definition mk_profile ::
  "string \<Rightarrow> real \<Rightarrow> real \<Rightarrow> real \<Rightarrow> real \<Rightarrow> real \<Rightarrow> real \<Rightarrow> routing_profile" where
  "mk_profile name q r l c h floor_q =
     \<lparr>pf_name = name, pf_w_quality = q, pf_w_reliability = r, pf_w_latency = l, pf_w_cost = c,
      pf_w_history = h, pf_quality_floor = floor_q\<rparr>"

text \<open>The check of \<^verbatim>\<open>__post_init__\<close>.\<close>

definition profile_post_init :: "routing_profile \<Rightarrow> routing_profile res" where
  "profile_post_init p =
     (let total = pf_w_quality p + pf_w_reliability p + pf_w_latency p + pf_w_cost p + pf_w_history p in
      if \<bar>total - 1\<bar> > 1 / 1000000 then Inl (ValueError ''Weights must sum to 1.0'')
      else if \<not> (0 \<le> pf_quality_floor p \<and> pf_quality_floor p \<le> 1)
      then Inl (ValueError ''quality_floor must be 0-1'') else Inr p)"

definition support_profile :: routing_profile where
  "support_profile = mk_profile ''support'' (25/100) (15/100) (35/100) (25/100) 0 (80/100)"
definition fast_profile :: routing_profile where
  "fast_profile = mk_profile ''fast'' (25/100) (15/100) (35/100) (25/100) 0 (80/100)"
definition reasoning_profile :: routing_profile where
  "reasoning_profile = mk_profile ''reasoning'' (40/100) (25/100) (15/100) (10/100) (10/100) (88/100)"
definition documentation_generation_profile :: routing_profile where
  "documentation_generation_profile =
     mk_profile ''documentation_generation'' (40/100) (25/100) (10/100) (10/100) (15/100) (90/100)"
definition documentation_review_profile :: routing_profile where
  "documentation_review_profile =
     mk_profile ''documentation_review'' (50/100) (30/100) (5/100) (10/100) (5/100) (93/100)"
definition evaluation_profile :: routing_profile where
  "evaluation_profile = mk_profile ''evaluation'' (50/100) (30/100) (5/100) (10/100) (5/100) (93/100)"
definition delivery_profile :: routing_profile where
  "delivery_profile = mk_profile ''delivery'' (40/100) (35/100) (15/100) (10/100) 0 (95/100)"

fun get_profile :: "task_type \<Rightarrow> routing_profile" where
  "get_profile SUPPORT = support_profile"
| "get_profile FAST = fast_profile"
| "get_profile REASONING = reasoning_profile"
| "get_profile RESEARCH = reasoning_profile"
| "get_profile DOCUMENTATION_GENERATION = documentation_generation_profile"
| "get_profile DOCUMENTATION_REVIEW = documentation_review_profile"
| "get_profile EVALUATION = evaluation_profile"
| "get_profile DELIVERY = delivery_profile"

fun TASK_TYPE_CAPABILITIES :: "task_type \<Rightarrow> string list" where
  "TASK_TYPE_CAPABILITIES DOCUMENTATION_GENERATION = [''reasoning'', ''tool_calling'', ''structured_output'']"
| "TASK_TYPE_CAPABILITIES DOCUMENTATION_REVIEW = [''verification'']"
| "TASK_TYPE_CAPABILITIES EVALUATION = [''evaluation'']"
| "TASK_TYPE_CAPABILITIES RESEARCH = [''research'']"
| "TASK_TYPE_CAPABILITIES _ = []"

section \<open>Pricing\<close>

definition UNPRICED_MODEL_COST :: real where
  "UNPRICED_MODEL_COST = 50 / 100"

definition rate_or_zero :: "real option \<Rightarrow> real" where
  "rate_or_zero r = (case r of None \<Rightarrow> 0 | Some x \<Rightarrow> x)"

definition estimate_cost :: "model_config \<Rightarrow> int \<Rightarrow> int \<Rightarrow> real" where
  "estimate_cost m input_tokens output_tokens =
     (if mc_input_cost_per_1m_tokens m = None \<and> mc_output_cost_per_1m_tokens m = None
      then UNPRICED_MODEL_COST
      else (rate_or_zero (mc_input_cost_per_1m_tokens m) * of_int input_tokens
            + rate_or_zero (mc_output_cost_per_1m_tokens m) * of_int output_tokens) / 1000000)"

definition estimate_request_cost :: "model_config \<Rightarrow> routing_request \<Rightarrow> real" where
  "estimate_request_cost m request =
     estimate_cost m (rq_context_tokens request) (rq_estimated_output_tokens request)"

section \<open>Constraints\<close>

definition UNKNOWN_WINDOW_FLOOR :: int where
  "UNKNOWN_WINDOW_FLOOR = 16000"

definition MIN_QUALITY_SAMPLES :: nat where
  "MIN_QUALITY_SAMPLES = 20"

text \<open>A filter keeps some candidates and names the others with its reason code.\<close>

definition partition_by :: "string \<Rightarrow> (model_config \<Rightarrow> bool) \<Rightarrow> model_config list \<Rightarrow> model_config list \<times> string list" where
  "partition_by reason keep ms =
     (filter keep ms, map (\<lambda>m. reason @ mc_name m) (filter (\<lambda>m. \<not> keep m) ms))"

definition filter_by_provider :: "string list \<Rightarrow> model_config list \<Rightarrow> model_config list \<times> string list" where
  "filter_by_provider enabled = partition_by ''provider_disabled:'' (\<lambda>m. mc_provider m \<in> set enabled)"

definition filter_by_capabilities :: "string list \<Rightarrow> model_config list \<Rightarrow> model_config list \<times> string list" where
  "filter_by_capabilities required =
     partition_by ''missing_capability:'' (\<lambda>m. set required \<subseteq> set (mc_capabilities m))"

definition window_fits :: "int \<Rightarrow> model_config \<Rightarrow> bool" where
  "window_fits tokens m =
     (case mc_context_window m of None \<Rightarrow> tokens \<le> UNKNOWN_WINDOW_FLOOR | Some w \<Rightarrow> tokens \<le> w)"

definition filter_by_context_window :: "int \<Rightarrow> model_config list \<Rightarrow> model_config list \<times> string list" where
  "filter_by_context_window tokens = partition_by ''context_window_exceeded:'' (window_fits tokens)"

text \<open>One pass of \<^verbatim>\<open>registry.get(m.provider).available()\<close> over the candidates.\<close>

fun available_pass ::
  "real \<Rightarrow> bool \<Rightarrow> model_config list \<Rightarrow> health_registry \<Rightarrow> model_config list \<times> health_registry" where
  "available_pass now want [] reg = ([], reg)"
| "available_pass now want (m # ms) reg =
     (let (ok, reg1) = provider_available now (mc_provider m) reg;
          (kept, reg2) = available_pass now want ms reg1
      in (if ok = want then m # kept else kept, reg2))"

definition filter_by_provider_health ::
  "real \<Rightarrow> model_config list \<Rightarrow> health_registry \<Rightarrow> (model_config list \<times> string list) \<times> health_registry" where
  "filter_by_provider_health now ms reg =
     (let (kept, reg1) = available_pass now True ms reg;
          (rejected, reg2) = available_pass now False ms reg1
      in ((kept, map (\<lambda>m. ''provider_unhealthy:'' @ mc_name m) rejected), reg2))"

definition filter_by_model_health ::
  "real \<Rightarrow> model_health \<Rightarrow> model_config list \<Rightarrow> model_config list \<times> string list" where
  "filter_by_model_health now h =
     partition_by ''model_in_cooldown:'' (\<lambda>m. is_model_healthy now (mc_name m) h)"

definition below_floor :: "task_type \<Rightarrow> stats_store \<Rightarrow> model_config \<Rightarrow> bool" where
  "below_floor t store m =
     (case get_quality (task_value t, mc_name m) store of
        None \<Rightarrow> False
      | Some q \<Rightarrow> MIN_QUALITY_SAMPLES \<le> sample_count (task_value t, mc_name m) store
                 \<and> q < pf_quality_floor (get_profile t))"

definition filter_by_quality_floor ::
  "task_type \<Rightarrow> stats_store \<Rightarrow> model_config list \<Rightarrow> model_config list \<times> string list" where
  "filter_by_quality_floor t store =
     partition_by ''below_quality_floor:'' (\<lambda>m. \<not> below_floor t store m)"

text \<open>A soft constraint is relaxed, and reported, when nothing meets it.\<close>

definition relax :: "string \<Rightarrow> (model_config \<Rightarrow> bool) \<Rightarrow> model_config list \<Rightarrow> model_config list \<times> string list" where
  "relax reason meets ms =
     (if filter meets ms \<noteq> [] then (filter meets ms, []) else (ms, [reason]))"

record rejections =
  rj_hard :: "string list"
  rj_soft :: "string list"

definition within_cost :: "routing_request \<Rightarrow> real \<Rightarrow> model_config \<Rightarrow> bool" where
  "within_cost request budget m \<longleftrightarrow> estimate_request_cost m request \<le> budget"

definition within_latency :: "routing_request \<Rightarrow> stats_store \<Rightarrow> real \<Rightarrow> model_config \<Rightarrow> bool" where
  "within_latency request store budget m \<longleftrightarrow>
     rate_or_zero (get_latency_p95 (task_value (rq_task_type request), mc_name m) store) \<le> budget"

definition cost_step :: "routing_request \<Rightarrow> model_config list \<Rightarrow> model_config list \<times> string list" where
  "cost_step request ms =
     (case rq_cost_budget request of
        None \<Rightarrow> (ms, [])
      | Some b \<Rightarrow> relax ''cost_budget'' (within_cost request b) ms)"

definition latency_step ::
  "routing_request \<Rightarrow> stats_store option \<Rightarrow> model_config list \<Rightarrow> model_config list \<times> string list" where
  "latency_step request store ms =
     (case (rq_latency_budget_ms request, store) of
        (Some b, Some st) \<Rightarrow> relax ''latency_budget'' (within_latency request st b) ms
      | _ \<Rightarrow> (ms, []))"

definition soft_constraints ::
  "routing_request \<Rightarrow> stats_store option \<Rightarrow> model_config list \<Rightarrow> model_config list \<times> string list" where
  "soft_constraints request store ms =
     (let (ms1, s1) = cost_step request ms; (ms2, s2) = latency_step request store ms1
      in (ms2, s1 @ s2))"

definition filter_candidates ::
  "real \<Rightarrow> routing_request \<Rightarrow> model_config list \<Rightarrow> model_health \<Rightarrow> string list \<Rightarrow> string list \<Rightarrow>
   stats_store option \<Rightarrow> health_registry \<Rightarrow> model_config list \<times> rejections \<times> health_registry" where
  "filter_candidates now request candidates mh enabled required_caps store reg =
     (let (c1, r1) = filter_by_provider enabled candidates;
          (c2, r2) = (if required_caps = [] then (c1, []) else filter_by_capabilities required_caps c1);
          (c3, r3) = filter_by_context_window (rq_context_tokens request) c2;
          ((c4, r4), reg1) = filter_by_provider_health now c3 reg;
          (c5, r5) = filter_by_model_health now mh c4;
          (c6, r6) = (case store of
                        None \<Rightarrow> (c5, [])
                      | Some st \<Rightarrow> if c5 = [] then (c5, [])
                                   else filter_by_quality_floor (rq_task_type request) st c5);
          hard = r1 @ r2 @ r3 @ r4 @ r5 @ r6
      in if c6 = [] then ([], \<lparr>rj_hard = hard, rj_soft = []\<rparr>, reg1)
         else let (c7, soft) = soft_constraints request store c6
              in (c7, \<lparr>rj_hard = hard, rj_soft = soft\<rparr>, reg1))"

section \<open>Scoring\<close>

definition COST_SCORE_ANCHOR :: real where
  "COST_SCORE_ANCHOR = 50 / 100"

definition LATENCY_SCORE_CEILING_MS :: real where
  "LATENCY_SCORE_CEILING_MS = 30000"

definition quality_score :: "routing_request \<Rightarrow> model_config \<Rightarrow> routing_profile \<Rightarrow> stats_store \<Rightarrow> real" where
  "quality_score request m profile store =
     (let k = (task_value (rq_task_type request), mc_name m) in
      case get_quality k store of
        None \<Rightarrow> pf_quality_floor profile
      | Some q \<Rightarrow> if MIN_QUALITY_SAMPLES \<le> sample_count k store then q else pf_quality_floor profile)"

definition reliability_score :: "string \<Rightarrow> model_config \<Rightarrow> stats_store \<Rightarrow> real" where
  "reliability_score task m store =
     (case get_success_rate (task, mc_name m) store of None \<Rightarrow> 95 / 100 | Some r \<Rightarrow> r)"

definition latency_score :: "string \<Rightarrow> model_config \<Rightarrow> stats_store \<Rightarrow> real" where
  "latency_score task m store =
     (case get_latency_p95 (task, mc_name m) store of
        None \<Rightarrow> 1 / 2
      | Some p95 \<Rightarrow> max 0 (min 1 (1 - p95 / LATENCY_SCORE_CEILING_MS)))"

definition cost_score :: "routing_request \<Rightarrow> model_config \<Rightarrow> real" where
  "cost_score request m = max 0 (min 1 (1 - estimate_request_cost m request / COST_SCORE_ANCHOR))"

definition history_score :: "string \<Rightarrow> model_config \<Rightarrow> stats_store \<Rightarrow> real" where
  "history_score task m store = min 1 (of_nat (sample_count (task, mc_name m) store) / 100)"

definition score_single :: "routing_request \<Rightarrow> model_config \<Rightarrow> routing_profile \<Rightarrow> stats_store \<Rightarrow> real" where
  "score_single request m profile store =
     (let task = task_value (rq_task_type request) in
      pf_w_quality profile * quality_score request m profile store
      + pf_w_reliability profile * reliability_score task m store
      + pf_w_latency profile * latency_score task m store
      + pf_w_cost profile * cost_score request m
      + pf_w_history profile * history_score task m store)"

text \<open>\<^verbatim>\<open>round(x, 6)\<close>, half to even.\<close>

definition round6 :: "real \<Rightarrow> real" where
  "round6 x =
     (let y = x * 1000000; f = \<lfloor>y\<rfloor>; d = y - of_int f
      in of_int (if d < 1 / 2 then f else if 1 / 2 < d then f + 1 else if even f then f else f + 1) / 1000000)"

definition rank_key :: "real \<times> model_config \<Rightarrow> real \<times> int" where
  "rank_key sm = (- fst sm, mc_priority (snd sm))"

definition rank_candidates ::
  "routing_request \<Rightarrow> model_config list \<Rightarrow> routing_profile \<Rightarrow> stats_store \<Rightarrow> (real \<times> model_config) list" where
  "rank_candidates request ms profile store =
     sort_key rank_key (map (\<lambda>m. (score_single request m profile store, m)) ms)"

definition score_candidates ::
  "routing_request \<Rightarrow> model_config list \<Rightarrow> routing_profile \<Rightarrow> stats_store \<Rightarrow> (model_config \<times> real) list" where
  "score_candidates request ms profile store =
     (if ms = [] then []
      else map (\<lambda>(s, m). (m, round6 s)) (rank_candidates request ms profile store))"

section \<open>Routing\<close>

record model_router =
  rt_health :: health_registry
  rt_enabled_providers :: "string list"
  rt_stats_store :: stats_store
  rt_model_health :: model_health

record routing_decision =
  rd_selected_model :: string
  rd_provider :: string
  rd_score :: real
  rd_candidates_considered :: nat
  rd_profile :: string
  rd_task_type :: string
  rd_estimated_latency_ms :: "real option"
  rd_rejected :: rejections
  rd_ranked :: "(string \<times> real) list"
  rd_reason_codes :: "string list"
  rd_fallback_chain :: "string list"

text \<open>\<open>Inl\<close> is \<^verbatim>\<open>NoCandidateError\<close> with the rejections its message prints.\<close>

definition route ::
  "real \<Rightarrow> 'p model_registry \<Rightarrow> routing_request \<Rightarrow> string list option \<Rightarrow> model_router \<Rightarrow>
   (rejections + routing_decision) \<times> model_router" where
  "route now g request required_caps r =
     (let profile = get_profile (rq_task_type request);
          task = task_value (rq_task_type request);
          caps = (case required_caps of None \<Rightarrow> TASK_TYPE_CAPABILITIES (rq_task_type request) | Some cs \<Rightarrow> cs);
          (filtered, rejected, reg1) =
            filter_candidates now request (list_models None g) (rt_model_health r) (rt_enabled_providers r)
              caps (Some (rt_stats_store r)) (rt_health r)
      in case score_candidates request filtered profile (rt_stats_store r) of
           [] \<Rightarrow> (Inl rejected, r\<lparr>rt_health := reg1\<rparr>)
         | (best_model, best_score) # others \<Rightarrow>
             let (ok, reg2) = provider_available now (mc_provider best_model) reg1;
                 scored = (best_model, best_score) # others;
                 reasons =
                   [''profile_'' @ pf_name profile]
                   @ (if caps \<noteq> [] \<and> set caps \<subseteq> set (mc_capabilities best_model)
                      then [''required_capabilities_match''] else [])
                   @ (if ok then [''healthy_provider''] else [])
                   @ (if mc_input_cost_per_1m_tokens best_model \<noteq> None then [''priced_model''] else [])
                   @ (if has_enough_samples 20 (task, mc_name best_model) (rt_stats_store r)
                      then [''known_task_performance''] else [''conservative_defaults''])
             in (Inr \<lparr>rd_selected_model = mc_name best_model, rd_provider = mc_provider best_model,
                      rd_score = best_score, rd_candidates_considered = length scored,
                      rd_profile = pf_name profile, rd_task_type = task,
                      rd_estimated_latency_ms =
                        get_latency_p95 (task, mc_name best_model) (rt_stats_store r),
                      rd_rejected = rejected,
                      rd_ranked = map (\<lambda>(m, s). (mc_name m, s)) scored,
                      rd_reason_codes = reasons,
                      rd_fallback_chain = map (mc_name \<circ> fst) (take 3 others)\<rparr>,
                 r\<lparr>rt_health := reg2\<rparr>))"

section \<open>What filtering keeps\<close>

text \<open>The hard constraints as one predicate.\<close>

definition hard_ok ::
  "real \<Rightarrow> routing_request \<Rightarrow> model_health \<Rightarrow> string list \<Rightarrow> string list \<Rightarrow> stats_store option \<Rightarrow>
   health_registry \<Rightarrow> model_config \<Rightarrow> bool" where
  "hard_ok now request mh enabled caps store reg m \<longleftrightarrow>
     mc_provider m \<in> set enabled \<and> set caps \<subseteq> set (mc_capabilities m)
     \<and> window_fits (rq_context_tokens request) m \<and> usable now (get_health reg (mc_provider m))
     \<and> is_model_healthy now (mc_name m) mh
     \<and> (case store of None \<Rightarrow> True | Some st \<Rightarrow> \<not> below_floor (rq_task_type request) st m)"

lemma available_pass_spec:
  "fst (available_pass now want ms reg)
     = filter (\<lambda>m. usable now (get_health reg (mc_provider m)) = want) ms
   \<and> same_health now reg (snd (available_pass now want ms reg))"
proof (induction ms arbitrary: reg)
  case Nil
  show ?case by (simp add: same_health_def)
next
  case (Cons m ms)
  define reg1 where "reg1 = snd (provider_available now (mc_provider m) reg)"
  have pa: "provider_available now (mc_provider m) reg = (usable now (get_health reg (mc_provider m)), reg1)"
    by (simp add: reg1_def provider_available_fst prod_eq_iff)
  have sh: "same_health now reg reg1" by (simp add: reg1_def same_health_available)
  then show ?case
    using Cons.IH [of reg1] by (simp add: pa split_beta same_health_def)
qed

lemma filter_by_provider_health_spec:
  "\<exists>reg'. same_health now reg reg' \<and> filter_by_provider_health now ms reg =
     ((filter (\<lambda>m. usable now (get_health reg (mc_provider m))) ms,
       map (\<lambda>m. ''provider_unhealthy:'' @ mc_name m)
         (filter (\<lambda>m. \<not> usable now (get_health reg (mc_provider m))) ms)), reg')"
proof -
  define p1 where "p1 = available_pass now True ms reg"
  have s1: "same_health now reg (snd p1)" and f1: "fst p1 = filter (\<lambda>m. usable now (get_health reg (mc_provider m))) ms"
    using available_pass_spec [of now True ms reg] by (simp_all add: p1_def)
  have "same_health now reg (snd (available_pass now False ms (snd p1)))"
    "fst (available_pass now False ms (snd p1))
       = filter (\<lambda>m. \<not> usable now (get_health reg (mc_provider m))) ms"
    using available_pass_spec [of now False ms "snd p1"] s1 by (simp_all add: same_health_def)
  then show ?thesis
    using f1 by (auto simp: filter_by_provider_health_def p1_def [symmetric] split_beta)
qed

lemma subseq_set: "subseq xs ys \<Longrightarrow> set xs \<subseteq> set ys"
  by (induction rule: list_emb.induct) auto

lemma relax_cases:
  obtains (met) "relax reason meets ms = (filter meets ms, [])" "filter meets ms \<noteq> []"
  | (relaxed) "relax reason meets ms = (ms, [reason])" "filter meets ms = []"
  by (cases "filter meets ms = []") (simp_all add: relax_def)

lemma relax_subseq: "subseq (fst (relax reason meets ms)) ms" "fst (relax reason meets ms) = [] \<longleftrightarrow> ms = []"
  by (cases rule: relax_cases [of reason meets ms]; auto)+

lemma cost_step_subseq:
  "subseq (fst (cost_step request ms)) ms" "fst (cost_step request ms) = [] \<longleftrightarrow> ms = []"
  by (simp_all add: cost_step_def relax_subseq split: option.split)

lemma latency_step_subseq:
  "subseq (fst (latency_step request store ms)) ms"
  "fst (latency_step request store ms) = [] \<longleftrightarrow> ms = []"
  by (simp_all add: latency_step_def relax_subseq split: option.split)

lemma soft_constraints_spec:
  "subseq (fst (soft_constraints request store ms)) ms"
  "fst (soft_constraints request store ms) = [] \<longleftrightarrow> ms = []"
  using subseq_order.trans [OF latency_step_subseq(1) cost_step_subseq(1)]
  by (simp_all add: soft_constraints_def split_beta latency_step_subseq(2) cost_step_subseq(2))

text \<open>The cost budget is either met by every candidate kept or met by none that passed.\<close>

lemma cost_step_budget:
  assumes "rq_cost_budget request = Some b"
  shows "if snd (cost_step request ms) = [''cost_budget''] then \<forall>m \<in> set ms. \<not> within_cost request b m
    else snd (cost_step request ms) = [] \<and> (\<forall>m \<in> set (fst (cost_step request ms)). within_cost request b m)"
  by (cases rule: relax_cases [of "''cost_budget''" "within_cost request b" ms])
    (simp_all add: cost_step_def assms filter_empty_conv)

lemma latency_step_tag: "''cost_budget'' \<notin> set (snd (latency_step request store ms))"
  by (simp add: latency_step_def relax_def split: option.split)

lemma soft_constraints_cost:
  assumes "rq_cost_budget request = Some b"
  shows "if ''cost_budget'' \<in> set (snd (soft_constraints request store ms))
    then \<forall>m \<in> set ms. \<not> within_cost request b m
    else \<forall>m \<in> set (fst (soft_constraints request store ms)). within_cost request b m"
proof -
  define c where "c = cost_step request ms"
  have soft: "fst (soft_constraints request store ms) = fst (latency_step request store (fst c))"
    "set (snd (soft_constraints request store ms))
       = set (snd c) \<union> set (snd (latency_step request store (fst c)))"
    by (simp_all add: soft_constraints_def c_def split_beta)
  have sub: "set (fst (latency_step request store (fst c))) \<subseteq> set (fst c)"
    using latency_step_subseq(1) [of request store "fst c"] by (simp add: subseq_set)
  show ?thesis
    using cost_step_budget [OF assms, of ms] sub latency_step_tag [of request store "fst c"]
    unfolding soft c_def [symmetric] by (auto split: if_splits)
qed

lemma partition_by_simps:
  "fst (partition_by reason keep ms) = filter keep ms"
  "length (snd (partition_by reason keep ms)) = length (filter (\<lambda>m. \<not> keep m) ms)"
  by (simp_all add: partition_by_def)

text \<open>A conditional filter is a filter whose test holds everywhere when the condition fails.\<close>

lemma capability_step:
  "(if caps = [] then (ms, []) else filter_by_capabilities caps ms)
     = partition_by ''missing_capability:'' (\<lambda>m. set caps \<subseteq> set (mc_capabilities m)) ms"
  by (simp add: filter_by_capabilities_def partition_by_def)

lemma floor_step:
  "(case store of
      None \<Rightarrow> (ms, [])
    | Some st \<Rightarrow> if ms = [] then (ms, []) else filter_by_quality_floor t st ms)
   = partition_by ''below_quality_floor:''
       (\<lambda>m. case store of None \<Rightarrow> True | Some st \<Rightarrow> \<not> below_floor t st m) ms"
  by (simp add: filter_by_quality_floor_def partition_by_def split: option.split)

lemma filter_candidates_hard:
  obtains reg' hard where "same_health now reg reg'"
    "length hard = length (filter (\<lambda>m. \<not> hard_ok now request mh enabled caps store reg m) candidates)"
    "filter_candidates now request candidates mh enabled caps store reg =
      (let kept = filter (hard_ok now request mh enabled caps store reg) candidates;
           soft = soft_constraints request store kept
       in (fst soft, \<lparr>rj_hard = hard, rj_soft = if kept = [] then [] else snd soft\<rparr>, reg'))"
proof -
  let ?c1 = "filter (\<lambda>m. mc_provider m \<in> set enabled) candidates"
  let ?c2 = "filter (\<lambda>m. set caps \<subseteq> set (mc_capabilities m)) ?c1"
  let ?c3 = "filter (window_fits (rq_context_tokens request)) ?c2"
  let ?c4 = "filter (\<lambda>m. usable now (get_health reg (mc_provider m))) ?c3"
  let ?c5 = "filter (\<lambda>m. is_model_healthy now (mc_name m) mh) ?c4"
  let ?fl = "\<lambda>m. case store of None \<Rightarrow> True | Some st \<Rightarrow> \<not> below_floor (rq_task_type request) st m"
  let ?kept = "filter (hard_ok now request mh enabled caps store reg) candidates"
  obtain reg' where reg': "same_health now reg reg'" and health:
    "filter_by_provider_health now ?c3 reg = ((?c4, map (\<lambda>m. ''provider_unhealthy:'' @ mc_name m)
         (filter (\<lambda>m. \<not> usable now (get_health reg (mc_provider m))) ?c3)), reg')"
    using filter_by_provider_health_spec [of now reg ?c3] by blast
  have kept: "filter ?fl ?c5 = ?kept"
    by (auto simp: hard_ok_def intro!: filter_cong)
  define hard where "hard =
      snd (partition_by ''provider_disabled:'' (\<lambda>m. mc_provider m \<in> set enabled) candidates)
      @ snd (partition_by ''missing_capability:'' (\<lambda>m. set caps \<subseteq> set (mc_capabilities m)) ?c1)
      @ snd (partition_by ''context_window_exceeded:'' (window_fits (rq_context_tokens request)) ?c2)
      @ map (\<lambda>m. ''provider_unhealthy:'' @ mc_name m)
          (filter (\<lambda>m. \<not> usable now (get_health reg (mc_provider m))) ?c3)
      @ snd (partition_by ''model_in_cooldown:'' (\<lambda>m. is_model_healthy now (mc_name m) mh) ?c4)
      @ snd (partition_by ''below_quality_floor:'' ?fl ?c5)"
  have split: "length (filter (\<lambda>m. \<not> p m) xs) + length (filter p xs) = length xs" for p and xs :: "model_config list"
    using sum_length_filter_compl [of p xs] by simp
  have "length hard + length ?kept = length candidates"
    unfolding hard_def kept [symmetric]
    using split [of "\<lambda>m. mc_provider m \<in> set enabled" candidates]
      split [of "\<lambda>m. set caps \<subseteq> set (mc_capabilities m)" ?c1]
      split [of "window_fits (rq_context_tokens request)" ?c2]
      split [of "\<lambda>m. usable now (get_health reg (mc_provider m))" ?c3]
      split [of "\<lambda>m. is_model_healthy now (mc_name m) mh" ?c4] split [of ?fl ?c5]
    by (simp only: length_append length_map partition_by_simps)
  then have len: "length hard = length (filter (\<lambda>m. \<not> hard_ok now request mh enabled caps store reg m) candidates)"
    using split [of "hard_ok now request mh enabled caps store reg" candidates] by linarith
  have "filter_candidates now request candidates mh enabled caps store reg =
      (let soft = soft_constraints request store ?kept
       in (fst soft, \<lparr>rj_hard = hard, rj_soft = if ?kept = [] then [] else snd soft\<rparr>, reg'))"
    unfolding filter_candidates_def filter_by_provider_def capability_step floor_step
      filter_by_context_window_def filter_by_model_health_def split_beta Let_def partition_by_simps
      health fst_conv snd_conv kept hard_def
    using soft_constraints_spec(2) [of request store "[]"] by simp
  with reg' len that [of reg' hard] show thesis by (simp only: Let_def)
qed

text \<open>
  The constraint pipeline: what it returns are candidates that meet every hard constraint, in
  their order, and there are none exactly when no candidate does; each other candidate is reported
  as a hard rejection. A cost budget is met by everything returned, unless it is reported as relaxed,
  which happens only when no candidate meets it. No provider becomes usable or unusable.
\<close>

theorem filter_candidates_spec:
  assumes "filter_candidates now request candidates mh enabled caps store reg = (ms, rj, reg')"
  shows "subseq ms (filter (hard_ok now request mh enabled caps store reg) candidates)
    \<and> (ms = [] \<longleftrightarrow> (\<forall>m \<in> set candidates. \<not> hard_ok now request mh enabled caps store reg m))
    \<and> length (rj_hard rj)
        = length (filter (\<lambda>m. \<not> hard_ok now request mh enabled caps store reg m) candidates)
    \<and> (case rq_cost_budget request of
         None \<Rightarrow> True
       | Some b \<Rightarrow>
           (if ''cost_budget'' \<in> set (rj_soft rj)
            then \<forall>m \<in> set candidates. hard_ok now request mh enabled caps store reg m \<longrightarrow>
                   \<not> within_cost request b m
            else \<forall>m \<in> set ms. within_cost request b m))
    \<and> (\<forall>p. usable now (get_health reg' p) = usable now (get_health reg p))"
proof -
  let ?ok = "hard_ok now request mh enabled caps store reg"
  let ?kept = "filter ?ok candidates"
  obtain hard where sh: "same_health now reg reg'" and len: "length hard = length (filter (\<lambda>m. \<not> ?ok m) candidates)"
    and ms: "ms = fst (soft_constraints request store ?kept)"
    and rj: "rj = \<lparr>rj_hard = hard, rj_soft = if ?kept = [] then [] else snd (soft_constraints request store ?kept)\<rparr>"
    using assms by (rule_tac filter_candidates_hard [of now reg request mh enabled caps store candidates])
      (auto simp: Let_def)
  have cost: "case rq_cost_budget request of None \<Rightarrow> True
      | Some b \<Rightarrow> (if ''cost_budget'' \<in> set (rj_soft rj)
          then \<forall>m \<in> set candidates. ?ok m \<longrightarrow> \<not> within_cost request b m
          else \<forall>m \<in> set ms. within_cost request b m)"
  proof (cases "rq_cost_budget request")
    case (Some b)
    show ?thesis
      using soft_constraints_cost [OF Some, of store ?kept] soft_constraints_spec(2) [of request store ?kept]
      by (auto simp: Some rj ms filter_empty_conv split: if_splits)
  qed simp
  show ?thesis
    using soft_constraints_spec [of request store ?kept] len cost sh
    by (simp add: ms rj same_health_def filter_empty_conv)
qed

section \<open>What ranking selects\<close>

lemma round6_mono:
  assumes "x \<le> y"
  shows "round6 x \<le> round6 y"
proof -
  define r where "r = (\<lambda>z :: real. if z - of_int \<lfloor>z\<rfloor> < 1 / 2 then \<lfloor>z\<rfloor> else if 1 / 2 < z - of_int \<lfloor>z\<rfloor> then \<lfloor>z\<rfloor> + 1
      else if even \<lfloor>z\<rfloor> then \<lfloor>z\<rfloor> else \<lfloor>z\<rfloor> + 1)"
  have near: "\<lfloor>z\<rfloor> \<le> r z" "r z \<le> \<lfloor>z\<rfloor> + 1" for z by (simp_all add: r_def)
  have le: "r a \<le> r b" if "a \<le> b" for a b
  proof (cases "\<lfloor>a\<rfloor> = \<lfloor>b\<rfloor>")
    case True
    with that show ?thesis by (auto simp: r_def)
  next
    case False
    with floor_mono [OF that] near(2) [of a] near(1) [of b] show ?thesis by linarith
  qed
  show ?thesis
    using le [of "x * 1000000" "y * 1000000"] assms
    by (simp add: round6_def r_def Let_def divide_right_mono)
qed

lemma rank_candidates_set:
  "set (rank_candidates request ms profile store) = (\<lambda>m. (score_single request m profile store, m)) ` set ms"
  by (simp add: rank_candidates_def)

lemma rank_candidates_length: "length (rank_candidates request ms profile store) = length ms"
  by (simp add: rank_candidates_def)

lemma rank_candidates_nonempty: "rank_candidates request ms profile store = [] \<longleftrightarrow> ms = []"
  using rank_candidates_length [of request ms profile store] by auto

lemma rank_candidates_best:
  assumes "rank_candidates request ms profile store = (x, best) # rest"
  shows "best \<in> set ms" "x = score_single request best profile store"
    "\<forall>m \<in> set ms. score_single request m profile store < x
       \<or> score_single request m profile store = x \<and> mc_priority best \<le> mc_priority m"
proof -
  have "(x, best) \<in> set (rank_candidates request ms profile store)" using assms by simp
  then show "best \<in> set ms" "x = score_single request best profile store"
    by (auto simp: rank_candidates_set)
  have "ms \<noteq> []" using assms rank_candidates_nonempty [of request ms profile store] by auto
  then have "\<forall>y \<in> set (map (\<lambda>m. (score_single request m profile store, m)) ms).
      rank_key (hd (rank_candidates request ms profile store)) \<le> rank_key y"
    unfolding rank_candidates_def by (intro hd_sort_key_min) simp
  then show "\<forall>m \<in> set ms. score_single request m profile store < x
       \<or> score_single request m profile store = x \<and> mc_priority best \<le> mc_priority m"
    by (auto simp: assms rank_key_def less_eq_prod_def)
qed

lemma ranked_scores_descending:
  "sorted (map (\<lambda>sm. - round6 (fst sm)) (rank_candidates request ms profile store))"
proof -
  have "sorted (map rank_key (rank_candidates request ms profile store))"
    by (simp add: rank_candidates_def)
  then have "sorted_wrt (\<lambda>a b. rank_key a \<le> rank_key b) (rank_candidates request ms profile store)"
    by (simp add: sorted_map)
  then have "sorted_wrt (\<lambda>a b. - round6 (fst a) \<le> - round6 (fst b)) (rank_candidates request ms profile store)"
    by (rule sorted_wrt_mono_rel [rotated])
      (auto simp: rank_key_def less_eq_prod_def intro: round6_mono)
  then show ?thesis by (simp add: sorted_map)
qed

section \<open>What routing decides\<close>

text \<open>The capabilities a request requires and the constraint pipeline as \<^verbatim>\<open>route\<close> calls it.\<close>

definition route_caps :: "routing_request \<Rightarrow> string list option \<Rightarrow> string list" where
  "route_caps request required_caps =
     (case required_caps of None \<Rightarrow> TASK_TYPE_CAPABILITIES (rq_task_type request) | Some cs \<Rightarrow> cs)"

definition route_ok ::
  "real \<Rightarrow> routing_request \<Rightarrow> string list option \<Rightarrow> model_router \<Rightarrow> model_config \<Rightarrow> bool" where
  "route_ok now request required_caps r =
     hard_ok now request (rt_model_health r) (rt_enabled_providers r) (route_caps request required_caps)
       (Some (rt_stats_store r)) (rt_health r)"

definition considered ::
  "real \<Rightarrow> 'p model_registry \<Rightarrow> routing_request \<Rightarrow> string list option \<Rightarrow> model_router \<Rightarrow> model_config list" where
  "considered now g request required_caps r =
     fst (soft_constraints request (Some (rt_stats_store r))
       (filter (route_ok now request required_caps r) (list_models None g)))"

definition route_score :: "routing_request \<Rightarrow> model_router \<Rightarrow> model_config \<Rightarrow> real" where
  "route_score request r m =
     score_single request m (get_profile (rq_task_type request)) (rt_stats_store r)"

lemma considered_ok: "m \<in> set (considered now g request caps r) \<Longrightarrow>
    m \<in> set (list_models None g) \<and> route_ok now request caps r m"
  using subseq_set [OF soft_constraints_spec(1)] unfolding considered_def by fastforce

lemma route_cases:
  obtains (no_candidate) rj r' where "route now g request required_caps r = (Inl rj, r')"
    "considered now g request required_caps r = []"
  | (decided) best x rest d r' where "route now g request required_caps r = (Inr d, r')"
    "rank_candidates request (considered now g request required_caps r)
       (get_profile (rq_task_type request)) (rt_stats_store r) = (x, best) # rest"
    "rd_selected_model d = mc_name best" "rd_provider d = mc_provider best" "rd_score d = round6 x"
    "rd_candidates_considered d = length (considered now g request required_caps r)"
    "rd_ranked d = map (\<lambda>(s, m). (mc_name m, round6 s)) ((x, best) # rest)"
    "rd_fallback_chain d = map (mc_name \<circ> snd) (take 3 rest)"
    "''healthy_provider'' \<in> set (rd_reason_codes d)"
proof -
  let ?st = "rt_stats_store r" and ?pf = "get_profile (rq_task_type request)"
  let ?ms = "considered now g request required_caps r"
  obtain reg1 hard where sh: "same_health now (rt_health r) reg1"
    and fc: "filter_candidates now request (list_models None g) (rt_model_health r) (rt_enabled_providers r)
        (route_caps request required_caps) (Some ?st) (rt_health r)
      = (let kept = filter (route_ok now request required_caps r) (list_models None g);
             soft = soft_constraints request (Some ?st) kept
         in (fst soft, \<lparr>rj_hard = hard, rj_soft = if kept = [] then [] else snd soft\<rparr>, reg1))"
    by (rule filter_candidates_hard [of now "rt_health r" request "rt_model_health r"
          "rt_enabled_providers r" "route_caps request required_caps" "Some ?st" "list_models None g"])
      (simp add: route_ok_def)
  then obtain rj where fc: "filter_candidates now request (list_models None g) (rt_model_health r)
      (rt_enabled_providers r) (route_caps request required_caps) (Some ?st) (rt_health r) = (?ms, rj, reg1)"
    by (simp add: Let_def considered_def)
  note route = route_def [of now g request required_caps r, unfolded Let_def route_caps_def [symmetric] fc prod.case]
  show thesis
  proof (cases "rank_candidates request ?ms ?pf ?st")
    case Nil
    then have "?ms = []" by (simp add: rank_candidates_nonempty)
    then show thesis using no_candidate route by (simp add: score_candidates_def)
  next
    case (Cons sb rest)
    obtain x best where sb: "sb = (x, best)" by (cases sb)
    have ms: "?ms \<noteq> []" using Cons rank_candidates_nonempty by (metis list.distinct(1))
    have len: "length ?ms = Suc (length rest)"
      using rank_candidates_length [of request ?ms ?pf ?st] Cons by simp
    have "best \<in> set ?ms" using rank_candidates_best(1) Cons sb by blast
    then have "usable now (get_health reg1 (mc_provider best))"
      using considered_ok [of best now g request required_caps r] sh
      by (simp add: route_ok_def hard_ok_def same_health_def)
    then have ok: "fst (provider_available now (mc_provider best) reg1)"
      by (simp add: provider_available_fst)
    have sc: "score_candidates request ?ms ?pf ?st = (best, round6 x) # map (\<lambda>(s, m). (m, round6 s)) rest"
      using Cons sb ms by (simp add: score_candidates_def)
    show thesis
      by (rule decided [OF _ Cons [unfolded sb]], subst route, simp only: sc list.case prod.case split_beta)
        (use ok len in \<open>simp_all add: split_beta comp_def take_map\<close>)
  qed
qed

text \<open>
  C14. Routing picks the best candidate: it raises \<^verbatim>\<open>NoCandidateError\<close> exactly when no enabled model
  meets the hard constraints; otherwise the model selected meets them, and every model considered
  scores less, or the same with no better static priority. The ranking reported is in descending
  order of score and its first entries after the selected model are the fallback chain.
\<close>

theorem route_selects_best:
  "case fst (route now g request caps r) of
     Inl _ \<Rightarrow> \<forall>m \<in> set (list_models None g). \<not> route_ok now request caps r m
   | Inr d \<Rightarrow> \<exists>best \<in> set (list_models None g).
       route_ok now request caps r best \<and> rd_selected_model d = mc_name best
       \<and> rd_provider d = mc_provider best \<and> rd_score d = round6 (route_score request r best)
       \<and> (\<forall>m \<in> set (considered now g request caps r).
            route_score request r m < route_score request r best
            \<or> route_score request r m = route_score request r best \<and> mc_priority best \<le> mc_priority m)
       \<and> rd_candidates_considered d = length (considered now g request caps r)
       \<and> sorted (map (\<lambda>(_, s). - s) (rd_ranked d))
       \<and> rd_fallback_chain d = map fst (take 3 (tl (rd_ranked d)))
       \<and> ''healthy_provider'' \<in> set (rd_reason_codes d)"
proof (cases rule: route_cases [of now g request caps r])
  case (no_candidate rj r')
  then have "filter (route_ok now request caps r) (list_models None g) = []"
    by (simp add: considered_def soft_constraints_spec(2))
  then show ?thesis using no_candidate by (simp add: filter_empty_conv)
next
  case (decided best x rest d r')
  note best = rank_candidates_best [OF decided(2)]
  have "sorted (map (\<lambda>(_, s). - s) (rd_ranked d))"
    using ranked_scores_descending
      [of request "considered now g request caps r" "get_profile (rq_task_type request)" "rt_stats_store r"]
    unfolding decided(2) decided(7) by (simp add: comp_def split_beta)
  then show ?thesis
    using decided best considered_ok [OF best(1)]
    by (auto simp: route_score_def comp_def split_beta take_map)
qed

section \<open>Scores are bounded\<close>

lemma get_profile_weights:
  "pf_w_quality (get_profile t) + pf_w_reliability (get_profile t) + pf_w_latency (get_profile t)
     + pf_w_cost (get_profile t) + pf_w_history (get_profile t) = 1"
  "0 \<le> pf_w_quality (get_profile t)" "0 \<le> pf_w_reliability (get_profile t)"
  "0 \<le> pf_w_latency (get_profile t)" "0 \<le> pf_w_cost (get_profile t)" "0 \<le> pf_w_history (get_profile t)"
  "0 \<le> pf_quality_floor (get_profile t)" "pf_quality_floor (get_profile t) \<le> 1"
  by (cases t; simp add: support_profile_def fast_profile_def reasoning_profile_def
      documentation_generation_profile_def documentation_review_profile_def evaluation_profile_def
      delivery_profile_def mk_profile_def)+

text \<open>Every profile passes its own check.\<close>

lemma get_profile_valid: "profile_post_init (get_profile t) = Inr (get_profile t)"
  using get_profile_weights [of t] by (simp add: profile_post_init_def Let_def)

lemma weighted_sum_bounds:
  fixes w1 w2 w3 w4 w5 :: real
  assumes "w1 + w2 + w3 + w4 + w5 = 1" "0 \<le> w1" "0 \<le> w2" "0 \<le> w3" "0 \<le> w4" "0 \<le> w5"
    and "0 \<le> a" "a \<le> 1" "0 \<le> b" "b \<le> 1" "0 \<le> c" "c \<le> 1" "0 \<le> d" "d \<le> 1" "0 \<le> e" "e \<le> 1"
  shows "0 \<le> w1 * a + w2 * b + w3 * c + w4 * d + w5 * e \<and> w1 * a + w2 * b + w3 * c + w4 * d + w5 * e \<le> 1"
proof -
  have "0 \<le> w1 * a \<and> w1 * a \<le> w1" "0 \<le> w2 * b \<and> w2 * b \<le> w2" "0 \<le> w3 * c \<and> w3 * c \<le> w3"
    "0 \<le> w4 * d \<and> w4 * d \<le> w4" "0 \<le> w5 * e \<and> w5 * e \<le> w5"
    using assms by (auto simp: mult_left_le)
  with assms(1) show ?thesis by linarith
qed

definition store_ok :: "stats_store \<Rightarrow> bool" where
  "store_ok store \<longleftrightarrow> (\<forall>k st. store k = Some st \<longrightarrow> stats_ok st)"

lemma store_ok_reads:
  assumes "store_ok store"
  shows "get_quality k store = Some q \<Longrightarrow> 0 \<le> q \<and> q \<le> 1"
    and "get_success_rate k store = Some x \<Longrightarrow> 0 \<le> x \<and> x \<le> 1"
proof -
  have ok: "stats_ok st" if "store k = Some st" for st
    using assms that by (cases k) (simp add: store_ok_def)
  show "get_quality k store = Some q \<Longrightarrow> 0 \<le> q \<and> q \<le> 1"
    using ok by (auto simp: get_quality_def get_stats_def stats_ok_def split: option.splits)
  show "get_success_rate k store = Some x \<Longrightarrow> 0 \<le> x \<and> x \<le> 1"
    using ok by (auto simp: get_success_rate_def get_stats_def stats_ok_def split: option.splits if_splits)
qed

lemma score_bounds:
  assumes "store_ok store"
  shows "0 \<le> score_single request m (get_profile t) store \<and> score_single request m (get_profile t) store \<le> 1"
proof -
  have q: "0 \<le> quality_score request m (get_profile t) store \<and> quality_score request m (get_profile t) store \<le> 1"
    using store_ok_reads(1) [OF assms] get_profile_weights(7,8) [of t]
    by (simp add: quality_score_def Let_def split: option.split)
  have r: "0 \<le> reliability_score k m store \<and> reliability_score k m store \<le> 1" for k
    using store_ok_reads(2) [OF assms] by (simp add: reliability_score_def split: option.split)
  have l: "0 \<le> latency_score k m store \<and> latency_score k m store \<le> 1" for k
    by (simp add: latency_score_def split: option.split)
  have c: "0 \<le> cost_score request m \<and> cost_score request m \<le> 1" by (simp add: cost_score_def)
  have h: "0 \<le> history_score k m store \<and> history_score k m store \<le> 1" for k
    by (simp add: history_score_def)
  show ?thesis
    unfolding score_single_def Let_def
    by (rule weighted_sum_bounds) (use get_profile_weights [of t] q r l c h in \<open>blast+\<close>)
qed

lemma observed_store_ok:
  assumes "0 \<le> a" "a \<le> 1" "list_all obs_ok os"
  shows "store_ok (fold (observe a) os Map.empty)"
  using observed_stats_ok [OF assms] by (auto simp: store_ok_def get_stats_def)

text \<open>
  Routing scores are comparable: with statistics built from valid observations, the score of
  every model for every request, whatever its prices and latencies, lies between 0 and 1.
\<close>

theorem route_scores_bounded:
  assumes "0 \<le> a" and "a \<le> 1" and "list_all obs_ok os"
    and "rt_stats_store r = fold (observe a) os Map.empty"
  shows "0 \<le> route_score request r m \<and> route_score request r m \<le> 1"
  using score_bounds [OF observed_store_ok [OF assms(1-3)]] by (simp add: route_score_def assms(4))

section \<open>A concrete request\<close>

definition sample_request :: routing_request where
  "sample_request =
     \<lparr>rq_task_type = SUPPORT, rq_context_tokens = 100, rq_estimated_output_tokens = 1024, rq_priority = 5,
      rq_cost_budget = Some 0, rq_latency_budget_ms = None\<rparr>"

definition sample_router :: model_router where
  "sample_router =
     \<lparr>rt_health = Map.empty, rt_enabled_providers = [''bedrock'', ''nvidia''], rt_stats_store = Map.empty,
      rt_model_health = \<lparr>mh_cooldown = 300, mh_failures = Map.empty\<rparr>\<rparr>"

lemma sample_route_ok: "route_ok 0 sample_request None sample_router (sample_model ''small'' ''nvidia'' 20)"
  by (simp add: route_ok_def hard_ok_def sample_router_def sample_request_def sample_model_def route_caps_def
      window_fits_def UNKNOWN_WINDOW_FLOOR_def get_health_def sample_new is_model_healthy_def
      below_floor_def get_quality_def get_stats_def)

lemma sample_over_budget: "\<not> within_cost sample_request 0 (sample_model n p i)"
  by (simp add: within_cost_def estimate_request_cost_def estimate_cost_def sample_model_def
      UNPRICED_MODEL_COST_def)

theorem filter_candidates_spec_witness:
  "\<exists>ms rj reg'. filter_candidates 0 sample_request [sample_model ''small'' ''nvidia'' 20]
       (rt_model_health sample_router) (rt_enabled_providers sample_router) [] (Some Map.empty) Map.empty = (ms, rj, reg')
     \<and> ms \<noteq> [] \<and> ''cost_budget'' \<in> set (rj_soft rj)"
proof -
  let ?f = "filter_candidates 0 sample_request [sample_model ''small'' ''nvidia'' 20]
       (rt_model_health sample_router) (rt_enabled_providers sample_router) [] (Some Map.empty) Map.empty"
  obtain ms rj reg' where f: "?f = (ms, rj, reg')" by (metis prod_cases3)
  have ok: "hard_ok 0 sample_request (rt_model_health sample_router) (rt_enabled_providers sample_router) []
      (Some Map.empty) Map.empty (sample_model ''small'' ''nvidia'' 20)"
    using sample_route_ok by (simp add: route_ok_def route_caps_def sample_request_def sample_router_def)
  have b: "rq_cost_budget sample_request = Some 0" by (simp add: sample_request_def)
  have "ms \<noteq> []" and sub: "set ms \<subseteq> {sample_model ''small'' ''nvidia'' 20}"
    using filter_candidates_spec [OF f] ok subseq_set by fastforce+
  moreover have "''cost_budget'' \<in> set (rj_soft rj)"
    using filter_candidates_spec [OF f] ok sample_over_budget sub \<open>ms \<noteq> []\<close>
    by (cases ms) (auto simp: b split: if_splits)
  ultimately show ?thesis using f by blast
qed

theorem route_selects_best_witness:
  "\<exists>d. fst (route 0 sample_registry sample_request None sample_router) = Inr d
     \<and> rd_selected_model d \<in> {''large'', ''small''}"
  using route_selects_best [where now = 0 and g = sample_registry and request = sample_request
      and caps = None and r = sample_router] sample_route_ok
  by (auto simp: sample_listed sample_names split: sum.splits)

theorem route_scores_bounded_witness:
  "0 \<le> route_score sample_request sample_router (sample_model ''small'' ''nvidia'' 20)"
  using route_scores_bounded [of "1 / 2" "[]" sample_router] by (simp add: sample_router_def)

end
