(* ===== verification/Tool_Guards.thy ===== *)
theory Tool_Guards
  imports Draftly_Prelude
begin

text \<open>
  The intervention handlers that bound an agent's tool loop (\<^verbatim>\<open>src/draftly/steering\<close>):
  \<^verbatim>\<open>research_budget_guard.py\<close>, \<^verbatim>\<open>tool_call_burst_guard.py\<close> and \<^verbatim>\<open>tool_registry_guard.py\<close>. A handler is
  a state and a callback that answers an event with an action; one invocation is the run of its
  callback over a list of events. The locale \<open>budgeted_guard\<close> is the contract they share with the
  writer's read budget: some answers spend a finite allowance. The dashes of the messages are ASCII.
\<close>

section \<open>Actions and runs\<close>

datatype action = Proceed | Guide string | Deny string

fun is_guide :: "action \<Rightarrow> bool" where
  "is_guide (Guide g) = True"
| "is_guide _ = False"

fun run_guard :: "('s \<Rightarrow> 'e \<Rightarrow> 'a \<times> 's) \<Rightarrow> 's \<Rightarrow> 'e list \<Rightarrow> 'a list \<times> 's" where
  "run_guard step s [] = ([], s)"
| "run_guard step s (e # es) =
     (case step s e of (a, s') \<Rightarrow> case run_guard step s' es of (as, s'') \<Rightarrow> (a # as, s''))"

definition answers :: "('s \<Rightarrow> 'e \<Rightarrow> 'a \<times> 's) \<Rightarrow> 's \<Rightarrow> 'e list \<Rightarrow> 'a list" where
  "answers step s es = fst (run_guard step s es)"

lemma answers_Nil [simp]: "answers step s [] = []"
  by (simp add: answers_def)

lemma answers_Cons [simp]:
  "answers step s (e # es) = fst (step s e) # answers step (snd (step s e)) es"
  by (simp add: answers_def split: prod.splits)

lemma length_answers [simp]: "length (answers step s es) = length es"
  by (induction es arbitrary: s) simp_all

locale budgeted_guard =
  fixes step :: "'s \<Rightarrow> 'e \<Rightarrow> 'a \<times> 's"
    and ok :: "'s \<Rightarrow> bool"
    and spends :: "'e \<Rightarrow> 'a \<Rightarrow> bool"
    and left :: "'s \<Rightarrow> nat"
  assumes step_ok: "ok s \<Longrightarrow> ok (snd (step s e))"
    and step_spends: "ok s \<Longrightarrow> left (snd (step s e)) + (if spends e (fst (step s e)) then 1 else 0) \<le> left s"
begin

lemma run_ok: "ok s \<Longrightarrow> ok (snd (run_guard step s es))"
proof (induction es arbitrary: s)
  case (Cons e es)
  from Cons.IH [OF step_ok [OF Cons.prems, of e]] show ?case by (auto split: prod.splits)
qed simp

lemma spent_bounded:
  "ok s \<Longrightarrow>
   length (filter (\<lambda>(e, a). spends e a) (zip es (answers step s es))) + left (snd (run_guard step s es)) \<le> left s"
proof (induction es arbitrary: s)
  case (Cons e es)
  have "length (filter (\<lambda>(e, a). spends e a) (zip es (answers step (snd (step s e)) es)))
          + left (snd (run_guard step (snd (step s e)) es)) \<le> left (snd (step s e))"
    by (rule Cons.IH) (rule step_ok [OF Cons.prems])
  with step_spends [OF Cons.prems, of e] show ?case
    by (auto split: prod.splits if_splits)
qed simp

lemma spent_le: "ok s \<Longrightarrow> length (filter (\<lambda>(e, a). spends e a) (zip es (answers step s es))) \<le> left s"
  using spent_bounded [of s es] by linarith

end

lemma filter_zip_answers:
  "length (filter (\<lambda>(e, a). P a) (zip es (answers step s es))) = length (filter P (answers step s es))"
  by (induction es arbitrary: s) simp_all

section \<open>\<open>json.dumps(value, sort_keys=...)\<close>\<close>

definition escape_json :: "char \<Rightarrow> string" where
  "escape_json c =
     (let n = (of_char c :: nat); bs = CHR 0x5C in
      if n = 34 \<or> n = 92 then [bs, c]
      else if n = 10 then [bs, CHR ''n'']
      else if n = 13 then [bs, CHR ''r'']
      else if n = 9 then [bs, CHR ''t'']
      else if n = 8 then [bs, CHR ''b'']
      else if n = 12 then [bs, CHR ''f'']
      else if n < 32 \<or> 126 < n then [bs, CHR ''u'', CHR ''0'', CHR ''0'', hex_digit (n div 16), hex_digit (n mod 16)]
      else [c])"

definition dumps_str :: "string \<Rightarrow> string" where
  "dumps_str s = CHR 0x22 # concat (map escape_json s) @ [CHR 0x22]"

definition order_items :: "bool \<Rightarrow> (string \<times> string) list \<Rightarrow> (string \<times> string) list" where
  "order_items sort_keys ps = (if sort_keys then sort_key fst ps else ps)"

function dumps_json :: "bool \<Rightarrow> (real \<Rightarrow> string) \<Rightarrow> json \<Rightarrow> string" where
  "dumps_json sort_keys fmt JNull = ''null''"
| "dumps_json sort_keys fmt (JBool b) = (if b then ''true'' else ''false'')"
| "dumps_json sort_keys fmt (JInt i) = show_int i"
| "dumps_json sort_keys fmt (JFloat x) = fmt x"
| "dumps_json sort_keys fmt (JStr s) = dumps_str s"
| "dumps_json sort_keys fmt (JList vs) = ''['' @ join_with '', '' (map (dumps_json sort_keys fmt) vs) @ '']''"
| "dumps_json sort_keys fmt (JObj kvs) =
     ''{'' @ join_with '', '' (map (\<lambda>(k, t). dumps_str k @ '': '' @ t)
        (order_items sort_keys (map (\<lambda>kv. (fst kv, dumps_json sort_keys fmt (snd kv))) kvs))) @ ''}''"
  by pat_completeness auto

lemma size_snd_less: "kv \<in> set kvs \<Longrightarrow> size (snd kv) < Suc (size_list (size_prod (\<lambda>x. 0) size) kvs)"
  by (induction kvs) (auto split: prod.splits)

termination dumps_json
  by (relation "measure (\<lambda>(srt, fmt, v). size v)") (auto simp: less_Suc_eq_le size_list_estimation' intro: size_snd_less)

section \<open>Research budget\<close>

record research_guard =
  rg_max_tool_calls :: int
  rg_max_repeats :: int
  rg_calls :: int
  rg_repeats :: int
  rg_last_signature :: "(string \<times> string) option"
  rg_searched :: "string list"
  rg_guided :: bool

definition research_reset :: "research_guard \<Rightarrow> research_guard" where
  "research_reset g = g\<lparr>rg_calls := 0, rg_repeats := 0, rg_last_signature := None, rg_searched := [], rg_guided := False\<rparr>"

definition research_before_invocation :: "research_guard \<Rightarrow> action \<times> research_guard" where
  "research_before_invocation g = (Proceed, research_reset g)"

text \<open>A tool use: its name and its input document.\<close>

type_synonym tool_use = "string \<times> json"

definition SYNTHESIS_FEEDBACK :: string where
  "SYNTHESIS_FEEDBACK = ''Research budget reached. Stop calling tools. Using only the evidence '' @
     ''already gathered, produce your final coverage/gap synthesis now.''"

definition research_before_tool_call ::
  "(real \<Rightarrow> string) \<Rightarrow> research_guard \<Rightarrow> tool_use \<Rightarrow> action \<times> research_guard" where
  "research_before_tool_call fmt g use =
     (let name = fst use in
      if rg_guided g then
        (if name \<in> set (rg_searched g) then (Deny ''research budget exhausted'', g)
         else (Proceed, g\<lparr>rg_searched := name # rg_searched g\<rparr>))
      else
        let signature = (name, dumps_json True fmt (if py_truth (snd use) then snd use else JObj []));
            repeats = (if Some signature = rg_last_signature g then rg_repeats g + 1 else 1);
            calls = rg_calls g + 1;
            g' = g\<lparr>rg_repeats := repeats, rg_last_signature := Some signature, rg_calls := calls,
                   rg_searched := List.insert name (rg_searched g)\<rparr>
        in if rg_max_repeats g < repeats \<or> rg_max_tool_calls g < calls
           then (Guide SYNTHESIS_FEEDBACK, g'\<lparr>rg_guided := True\<rparr>)
           else (Proceed, g'))"

section \<open>Tool-call bursts\<close>

record burst_guard =
  bg_max_per_message :: int
  bg_guided :: bool

definition burst_before_invocation :: "burst_guard \<Rightarrow> action \<times> burst_guard" where
  "burst_before_invocation g = (Proceed, g\<lparr>bg_guided := False\<rparr>)"

text \<open>The generated message, \<^verbatim>\<open>None\<close> being \<^const>\<open>JNull\<close>.\<close>

definition count_tool_uses :: "json \<Rightarrow> int" where
  "count_tool_uses message =
     (case message of
        JObj m \<Rightarrow>
          (case jget m ''content'' of
             JList content \<Rightarrow>
               int (length (filter (\<lambda>block. case block of JObj b \<Rightarrow> ''toolUse'' \<in> set (map fst b) | _ \<Rightarrow> False) content))
           | _ \<Rightarrow> 0)
      | _ \<Rightarrow> 0)"

definition burst_feedback :: "int \<Rightarrow> int \<Rightarrow> string" where
  "burst_feedback count limit =
     ''That response requested '' @ show_int count @ '' tool calls at once, which cannot complete: '' @
     ''the output was truncated and none of them ran. Decide what you need, then '' @
     ''issue at most '' @ show_int limit @ '' tool calls in this response -- one at a time, waiting '' @
     ''for each result. If you have already gathered the evidence, draft the page.''"

definition burst_after_model_call :: "burst_guard \<Rightarrow> json \<Rightarrow> action \<times> burst_guard" where
  "burst_after_model_call g message =
     (if bg_guided g then (Proceed, g)
      else let count = count_tool_uses message in
        if count \<le> bg_max_per_message g then (Proceed, g)
        else (Guide (burst_feedback count (bg_max_per_message g)), g\<lparr>bg_guided := True\<rparr>))"

section \<open>Unregistered tools\<close>

record registry_guard =
  tg_max_guides :: int
  tg_unknown_attempts :: int

definition registry_before_invocation :: "registry_guard \<Rightarrow> action \<times> registry_guard" where
  "registry_before_invocation g = (Proceed, g\<lparr>tg_unknown_attempts := 0\<rparr>)"

text \<open>The event carries the tool's name and the names registered at that moment.\<close>

definition registry_before_tool_call ::
  "registry_guard \<Rightarrow> string \<times> string list \<Rightarrow> action res \<times> registry_guard" where
  "registry_before_tool_call g ev =
     (let tool_name = fst ev; available = snd ev in
      if tool_name \<in> set available then (Inr Proceed, g)
      else
        let attempts = tg_unknown_attempts g + 1;
            g' = g\<lparr>tg_unknown_attempts := attempts\<rparr>;
            joined = join_with '', '' (sort available);
            names = (if joined = [] then ''none'' else joined)
        in if tg_max_guides g < attempts
           then (Inl (RuntimeError (''Repeated unregistered tool '' @ quoted tool_name @ '' after '' @
                   show_int (tg_max_guides g) @ '' corrections; available tools: '' @ names)), g')
           else (Inr (Guide (''Tool '' @ quoted tool_name @ '' is unregistered. Available tools: '' @ names @ ''. '' @
                   ''Use an exact registered name with its required arguments. '' @
                   ''If no suitable tool exists, report that limitation.'')), g'))"

section \<open>The allowances of the guards\<close>

lemma research_step_guides:
  "(if rg_guided (snd (research_before_tool_call fmt g use)) then 0 else 1 :: nat)
     + (if is_guide (fst (research_before_tool_call fmt g use)) then 1 else 0)
   \<le> (if rg_guided g then 0 else 1)"
  by (simp add: research_before_tool_call_def Let_def)

lemma card_Diff_insert_less:
  "x \<in> set T \<Longrightarrow> x \<notin> A \<Longrightarrow> Suc (card (set T - insert x A)) \<le> card (set T - A)"
  using psubset_card_mono [of "set T - A" "set T - insert x A"] by fastforce

lemma card_Diff_insert_le: "card (set T - insert x A) \<le> card (set T - A)"
  by (rule card_mono) auto

definition research_calls_left :: "string list \<Rightarrow> research_guard \<Rightarrow> nat" where
  "research_calls_left T g =
     (if rg_guided g then 0 else nat (rg_max_tool_calls g - rg_calls g)) + card (set T - set (rg_searched g))"

lemma research_step_calls:
  "research_calls_left T (snd (research_before_tool_call fmt g use))
     + (if fst (research_before_tool_call fmt g use) = Proceed \<and> fst use \<in> set T then 1 else 0)
   \<le> research_calls_left T g"
  using card_Diff_insert_less [of "fst use" T "set (rg_searched g)"] card_Diff_insert_le [of T "fst use" "set (rg_searched g)"]
  by (auto simp: research_before_tool_call_def research_calls_left_def Let_def)

interpretation research_guides:
  budgeted_guard "research_before_tool_call fmt" "\<lambda>_. True" "\<lambda>e. is_guide" "\<lambda>g. if rg_guided g then 0 else 1" for fmt
  by unfold_locales (rule TrueI, rule research_step_guides)

interpretation research_calls:
  budgeted_guard "research_before_tool_call fmt" "\<lambda>_. True" "\<lambda>e a. a = Proceed \<and> fst e \<in> set T" "research_calls_left T" for fmt T
  by unfold_locales (rule TrueI, rule research_step_calls)

interpretation burst_guides:
  budgeted_guard burst_after_model_call "\<lambda>_. True" "\<lambda>e. is_guide" "\<lambda>g. if bg_guided g then 0 else 1"
  by unfold_locales (simp_all add: burst_after_model_call_def Let_def)

interpretation registry_guides:
  budgeted_guard registry_before_tool_call "\<lambda>_. True" "\<lambda>e a. \<exists>f. a = Inr (Guide f)" "\<lambda>g. nat (tg_max_guides g - tg_unknown_attempts g)"
  by unfold_locales (auto simp: registry_before_tool_call_def Let_def)

lemma filter_zip_members:
  "length xs = length es \<Longrightarrow>
   filter (\<lambda>(e, a). P a \<and> fst e \<in> set (map fst es)) (zip es xs) = filter (\<lambda>(e, a). P a) (zip es xs)"
  by (rule filter_cong) (auto dest: set_zip_leftD)

text \<open>
  C38. One research invocation corrects the agent at most once, and lets at most \<open>max_tool_calls\<close> tool
  calls through plus one per distinct tool name, however many calls the model makes.
\<close>

theorem research_loop_bounded:
  "length (filter is_guide (answers (research_before_tool_call fmt) (snd (research_before_invocation g)) es)) \<le> 1
   \<and> length (filter (\<lambda>a. a = Proceed) (answers (research_before_tool_call fmt) (snd (research_before_invocation g)) es))
        \<le> nat (rg_max_tool_calls g) + card (set (map fst es))"
  using research_guides.spent_le [OF TrueI, of es fmt "snd (research_before_invocation g)"]
    research_calls.spent_le [OF TrueI, of "map fst es" es fmt "snd (research_before_invocation g)"]
  unfolding filter_zip_members [OF length_answers] filter_zip_answers
  by (simp add: research_before_invocation_def research_reset_def research_calls_left_def)

lemma registry_known:
  "(fst (registry_before_tool_call g e) = Inr Proceed) = (fst e \<in> set (snd e))"
  by (simp add: registry_before_tool_call_def Let_def)

text \<open>
  Under the registry guard a call proceeds exactly when its tool is registered at that moment, and
  of the others at most \<open>max_guides\<close> are corrected in one invocation: every further one raises. The
  burst guard discards at most one response per invocation.
\<close>

theorem guard_corrections_bounded:
  "map (\<lambda>a. a = Inr Proceed) (answers registry_before_tool_call (snd (registry_before_invocation g)) es)
     = map (\<lambda>(tool, available). tool \<in> set available) es
   \<and> length (filter (\<lambda>a. \<exists>f. a = Inr (Guide f))
        (answers registry_before_tool_call (snd (registry_before_invocation g)) es)) \<le> nat (tg_max_guides g)
   \<and> length (filter is_guide (answers burst_after_model_call (snd (burst_before_invocation b)) msgs)) \<le> 1"
proof (intro conjI)
  have "map (\<lambda>a. a = Inr Proceed) (answers registry_before_tool_call s es)
          = map (\<lambda>e. fst e \<in> set (snd e)) es" for s
    by (induction es arbitrary: s) (simp_all add: registry_known)
  then show "map (\<lambda>a. a = Inr Proceed) (answers registry_before_tool_call (snd (registry_before_invocation g)) es)
     = map (\<lambda>(tool, available). tool \<in> set available) es"
    by (simp add: case_prod_unfold)
  show "length (filter (\<lambda>a. \<exists>f. a = Inr (Guide f))
        (answers registry_before_tool_call (snd (registry_before_invocation g)) es)) \<le> nat (tg_max_guides g)"
    using registry_guides.spent_le [OF TrueI, of es "snd (registry_before_invocation g)"]
    by (simp add: filter_zip_answers registry_before_invocation_def)
  show "length (filter is_guide (answers burst_after_model_call (snd (burst_before_invocation b)) msgs)) \<le> 1"
    using burst_guides.spent_le [OF TrueI, of msgs "snd (burst_before_invocation b)"]
    by (simp add: filter_zip_answers burst_before_invocation_def)
qed

end
