(* ===== verification/Writer_Reads.thy ===== *)
theory Writer_Reads
  imports Page_Models Tool_Guards
begin

text \<open>
  The page writer's GitHub reads: its budget and scope (\<^verbatim>\<open>src/draftly/agents/documentation/draft_scope.py\<close>),
  the target checks of \<^verbatim>\<open>tools/github/writer_scope.py\<close>, the tools \<^verbatim>\<open>read_file.py\<close>, \<^verbatim>\<open>get_tree.py\<close> and
  \<^verbatim>\<open>search_code.py\<close> with their legacy names of \<^verbatim>\<open>compat.py\<close>, and the steering guard
  \<^verbatim>\<open>steering/writer_read_budget_guard.py\<close>. The scope is the state: it is published for one invocation and
  shared by the guard and the tools. The GitHub client and \<^verbatim>\<open>str\<close> of a compound JSON value are
  parameters.
\<close>

section \<open>Budget and scope\<close>

type_synonym read_key = "string list"

record read_budget =
  rb_max_calls :: int
  rb_seen :: "read_key list"

definition budget_failure :: "read_key \<Rightarrow> read_budget \<Rightarrow> string option" where
  "budget_failure key b =
     (if key \<in> set (rb_seen b)
      then Some ''This source was already read; use its existing evidence and draft the page.''
      else if rb_max_calls b \<le> int (length (rb_seen b))
      then Some (''Writer read budget of '' @ show_int (rb_max_calls b) @
             '' calls exhausted; draft the page from gathered evidence.'')
      else None)"

definition budget_reserve :: "read_key \<Rightarrow> read_budget \<Rightarrow> read_budget res" where
  "budget_reserve key b =
     (case budget_failure key b of
        Some reason \<Rightarrow> Inl (ValueError reason)
      | None \<Rightarrow> Inr (b\<lparr>rb_seen := key # rb_seen b\<rparr>))"

text \<open>The writer's progress, which no read touches, is left to the page handlers.\<close>

record draft_scope =
  ds_run_id :: string
  ds_org_id :: string
  ds_generation :: int
  ds_version :: "int option"
  ds_assigned_page_id :: "string option"
  ds_repository :: "string option"
  ds_head_sha :: "string option"
  ds_read_budget :: "read_budget option"

definition text_or_empty :: "string option \<Rightarrow> string" where
  "text_or_empty x = (case x of None \<Rightarrow> [] | Some s \<Rightarrow> s)"

definition require_writer_target :: "string \<Rightarrow> string \<Rightarrow> string option \<Rightarrow> draft_scope option \<Rightarrow> unit res" where
  "require_writer_target owner repo ref sc =
     (case sc of
        None \<Rightarrow> Inr ()
      | Some s \<Rightarrow>
          if ds_assigned_page_id s = None then Inr ()
          else let repository = text_or_empty (ds_repository s); head_sha = text_or_empty (ds_head_sha s) in
          if repository = []
          then Inl (ValueError ''Page writer has no assigned repository for GitHub reads'')
          else if owner @ ''/'' @ repo \<noteq> repository
          then Inl (ValueError (''GitHub read target '' @ owner @ ''/'' @ repo @
                 '' is outside assigned repository '' @ py_repr repository))
          else if ref \<noteq> None \<and> head_sha \<noteq> [] \<and> ref \<noteq> Some head_sha
          then Inl (ValueError (''GitHub read ref '' @ py_repr (text_or_empty ref) @
                 '' does not match assigned PR head SHA '' @ py_repr head_sha))
          else Inr ())"

definition writer_read_key :: "string \<Rightarrow> string \<Rightarrow> string \<Rightarrow> string \<Rightarrow> string \<Rightarrow> read_key" where
  "writer_read_key tool_name owner repo path ref = [tool_name, owner, repo, path, ref]"

definition reject_unpinned_writer_search :: "draft_scope option \<Rightarrow> unit res" where
  "reject_unpinned_writer_search sc =
     (case sc of
        None \<Rightarrow> Inr ()
      | Some s \<Rightarrow>
          if ds_assigned_page_id s \<noteq> None
          then Inl (ValueError (''github_search_code cannot read a pinned PR commit; '' @
                 ''use github_read_file or github_get_tree at the assigned SHA''))
          else Inr ())"

definition reserve_writer_read :: "read_key \<Rightarrow> draft_scope option \<Rightarrow> unit res \<times> draft_scope option" where
  "reserve_writer_read key sc =
     (case sc of
        None \<Rightarrow> (Inr (), sc)
      | Some s \<Rightarrow>
          case ds_read_budget s of
            None \<Rightarrow> (Inr (), sc)
          | Some b \<Rightarrow>
              (case budget_reserve key b of
                 Inl e \<Rightarrow> (Inl e, sc)
               | Inr b' \<Rightarrow> (Inr (), Some (s\<lparr>ds_read_budget := Some b'\<rparr>))))"

section \<open>The tools\<close>

definition read_file ::
  "(string \<Rightarrow> string \<Rightarrow> string \<Rightarrow> string \<Rightarrow> string res) \<Rightarrow> string \<Rightarrow> string \<Rightarrow> string \<Rightarrow> string \<Rightarrow>
   draft_scope option \<Rightarrow> string res \<times> draft_scope option" where
  "read_file fetch owner repo path ref sc =
     (case require_writer_target owner repo (Some ref) sc of
        Inl e \<Rightarrow> (Inl e, sc)
      | Inr _ \<Rightarrow>
          case reserve_writer_read (writer_read_key ''github_read_file'' owner repo path ref) sc of
            (Inl e, sc') \<Rightarrow> (Inl e, sc')
          | (Inr _, sc') \<Rightarrow> (fetch owner repo path ref, sc'))"

definition MAX_TREE_ENTRIES :: int where
  "MAX_TREE_ENTRIES = 500"

definition entry_budget :: "json \<Rightarrow> int" where
  "entry_budget v = (case v of JInt n \<Rightarrow> min (max n 1) MAX_TREE_ENTRIES | _ \<Rightarrow> MAX_TREE_ENTRIES)"

definition strip_slashes :: "string \<Rightarrow> string" where
  "strip_slashes s = rev (dropWhile (\<lambda>c. c = slash) (rev (dropWhile (\<lambda>c. c = slash) s)))"

definition normalized_prefix :: "json \<Rightarrow> string option" where
  "normalized_prefix v =
     (case v of
        JStr s \<Rightarrow> let cleaned = strip_slashes (strip s) in if cleaned = [] then None else Some cleaned
      | _ \<Rightarrow> None)"

record tree_page =
  tp_entries :: "json list"
  tp_truncated :: bool

record tree_result =
  tr_entries :: "json list"
  tr_returned :: int
  tr_truncated :: bool
  tr_hint :: "string option"

definition truncation_hint :: "int \<Rightarrow> string" where
  "truncation_hint n =
     ''Listing truncated at '' @ show_int n @ '' entries and is INCOMPLETE. '' @
     ''Re-issue with a narrower path_prefix (for example '' @ [CHR 0x22] @ ''docs'' @ [CHR 0x22] @ '' or '' @
     [CHR 0x22] @ ''docs/api'' @ [CHR 0x22] @ ''), and never assume a path is absent because it is '' @
     ''missing from a truncated listing.''"

definition render_tree :: "tree_page \<Rightarrow> tree_result" where
  "render_tree page =
     (let n = int (length (tp_entries page)) in
      \<lparr>tr_entries = tp_entries page, tr_returned = n, tr_truncated = tp_truncated page,
       tr_hint = (if tp_truncated page then Some (truncation_hint n) else None)\<rparr>)"

text \<open>\<^verbatim>\<open>str(None)\<close>, the key of a listing without a prefix, is the word None.\<close>

definition get_tree ::
  "(string \<Rightarrow> string \<Rightarrow> string \<Rightarrow> string option \<Rightarrow> int \<Rightarrow> tree_page res) \<Rightarrow> string \<Rightarrow> string \<Rightarrow> string \<Rightarrow> json \<Rightarrow> json \<Rightarrow>
   draft_scope option \<Rightarrow> tree_result res \<times> draft_scope option" where
  "get_tree fetch owner repo ref path_prefix max_entries sc =
     (case require_writer_target owner repo (Some ref) sc of
        Inl e \<Rightarrow> (Inl e, sc)
      | Inr _ \<Rightarrow>
          let prefix = normalized_prefix path_prefix in
          case reserve_writer_read (writer_read_key ''github_get_tree'' owner repo ref
                  (case prefix of None \<Rightarrow> ''None'' | Some p \<Rightarrow> p)) sc of
            (Inl e, sc') \<Rightarrow> (Inl e, sc')
          | (Inr _, sc') \<Rightarrow>
              (case fetch owner repo ref prefix (entry_budget max_entries) of
                 Inl e \<Rightarrow> (Inl e, sc')
               | Inr page \<Rightarrow> (Inr (render_tree page), sc')))"

definition search_code ::
  "(string \<Rightarrow> string \<Rightarrow> int \<Rightarrow> json list res) \<Rightarrow> string \<Rightarrow> string \<Rightarrow> string \<Rightarrow> int \<Rightarrow>
   draft_scope option \<Rightarrow> json list res \<times> draft_scope option" where
  "search_code search owner repo query limit sc =
     (case require_writer_target owner repo None sc of
        Inl e \<Rightarrow> (Inl e, sc)
      | Inr _ \<Rightarrow>
          case reject_unpinned_writer_search sc of
            Inl e \<Rightarrow> (Inl e, sc)
          | Inr _ \<Rightarrow>
              case reserve_writer_read (writer_read_key ''github_search_code'' owner repo query []) sc of
                (Inl e, sc') \<Rightarrow> (Inl e, sc')
              | (Inr _, sc') \<Rightarrow> (search (owner @ ''/'' @ repo) query limit, sc'))"

section \<open>The guard\<close>

definition READ_TOOL_NAMES :: "string list" where
  "READ_TOOL_NAMES =
     [''github_read_file'', ''github_get_tree'', ''github_search_code'', ''github_get_file'',
      ''github_list_tree'', ''read_file'', ''list_directory'', ''get_files'', ''code_search'']"

definition LEGACY_CANONICAL_TOOL_NAMES :: "(string \<times> string) list" where
  "LEGACY_CANONICAL_TOOL_NAMES =
     [(''github_get_file'', ''github_read_file''), (''github_list_tree'', ''github_get_tree'')]"

definition canonical_name :: "string \<Rightarrow> string" where
  "canonical_name name =
     (case map_of LEGACY_CANONICAL_TOOL_NAMES name of None \<Rightarrow> name | Some c \<Rightarrow> c)"

text \<open>\<^verbatim>\<open>str(a or b)\<close> of JSON values and text.\<close>

definition py_str :: "(json \<Rightarrow> string) \<Rightarrow> json \<Rightarrow> string" where
  "py_str render v =
     (case v of
        JStr s \<Rightarrow> s | JInt i \<Rightarrow> show_int i | JBool b \<Rightarrow> if b then ''True'' else ''False'' | JNull \<Rightarrow> ''None''
      | _ \<Rightarrow> render v)"

definition str_or :: "(json \<Rightarrow> string) \<Rightarrow> json \<Rightarrow> string \<Rightarrow> string" where
  "str_or render v dflt = (if py_truth v then py_str render v else dflt)"

definition partition_slash :: "string \<Rightarrow> string \<times> string" where
  "partition_slash s = (takeWhile (\<lambda>c. c \<noteq> slash) s, drop 1 (dropWhile (\<lambda>c. c \<noteq> slash) s))"

definition read_key_of :: "(json \<Rightarrow> string) \<Rightarrow> string \<Rightarrow> jobj \<Rightarrow> draft_scope \<Rightarrow> read_key" where
  "read_key_of render tool_name inp s =
     (let (owner, repo) = partition_slash (text_or_empty (ds_repository s)) in
      writer_read_key tool_name (str_or render (jget inp ''owner'') owner) (str_or render (jget inp ''repo'') repo)
        (str_or render (jget inp ''path'') (str_or render (jget inp ''file_path'') []))
        (str_or render (jget inp ''ref'') (text_or_empty (ds_head_sha s))))"

definition feedback_for :: "(json \<Rightarrow> string) \<Rightarrow> string \<Rightarrow> jobj \<Rightarrow> read_budget \<Rightarrow> string" where
  "feedback_for render reason inp b =
     (if str_contains ''already read'' reason
      then ''You already read '' @
             str_or render (jget inp ''path'') (str_or render (jget inp ''file_path'') ''that source'') @
             '' for this page. Do not read it again -- use the evidence you already gathered and draft '' @
             ''the page now.''
      else ''The page writer'' @ [CHR 0x27] @ ''s read budget of '' @ show_int (rb_max_calls b) @
             '' calls is exhausted. Do not read anything else. Using only the evidence already gathered, '' @
             ''draft the page and call the structured-output tool.'')"

definition guard_before_tool_call ::
  "(json \<Rightarrow> string) \<Rightarrow> draft_scope option \<Rightarrow> jobj \<Rightarrow> action \<times> draft_scope option" where
  "guard_before_tool_call render sc use =
     (case jget use ''name'' of
        JStr name \<Rightarrow>
          if name \<notin> set READ_TOOL_NAMES then (Proceed, sc)
          else (case sc of
            None \<Rightarrow> (Proceed, sc)
          | Some s \<Rightarrow>
              (case ds_read_budget s of
                 None \<Rightarrow> (Proceed, sc)
               | Some b \<Rightarrow>
                   (case jget use ''input'' of
                      JObj inp \<Rightarrow>
                        let key = read_key_of render (canonical_name name) inp s in
                        (case budget_failure key b of
                           None \<Rightarrow> (Proceed, Some (s\<lparr>ds_read_budget := Some (b\<lparr>rb_seen := key # rb_seen b\<rparr>)\<rparr>))
                         | Some why \<Rightarrow> (Guide (feedback_for render why inp b), sc))
                    | _ \<Rightarrow> (Proceed, sc))))
      | _ \<Rightarrow> (Proceed, sc))"

section \<open>What the budget promises\<close>

definition budget_ok :: "read_budget \<Rightarrow> bool" where
  "budget_ok b \<longleftrightarrow> distinct (rb_seen b) \<and> (rb_seen b = [] \<or> int (length (rb_seen b)) \<le> rb_max_calls b)"

definition scope_budget :: "draft_scope option \<Rightarrow> read_budget option" where
  "scope_budget sc = (case sc of None \<Rightarrow> None | Some s \<Rightarrow> ds_read_budget s)"

definition budgeted_scope :: "draft_scope option \<Rightarrow> bool" where
  "budgeted_scope sc \<longleftrightarrow> (\<exists>b. scope_budget sc = Some b \<and> budget_ok b)"

definition reads_left :: "draft_scope option \<Rightarrow> nat" where
  "reads_left sc = (case scope_budget sc of None \<Rightarrow> 0 | Some b \<Rightarrow> nat (rb_max_calls b - int (length (rb_seen b))))"

text \<open>A call that would read: a read tool with a document of arguments.\<close>

definition is_read_call :: "jobj \<Rightarrow> bool" where
  "is_read_call use \<longleftrightarrow>
     (case jget use ''name'' of JStr name \<Rightarrow> name \<in> set READ_TOOL_NAMES | _ \<Rightarrow> False) \<and>
     (case jget use ''input'' of JObj _ \<Rightarrow> True | _ \<Rightarrow> False)"

lemmas read_guard_defs = guard_before_tool_call_def budgeted_scope_def scope_budget_def budget_failure_def
  is_read_call_def reads_left_def

lemma guard_keeps_budget: "budgeted_scope sc \<Longrightarrow> budgeted_scope (snd (guard_before_tool_call render sc use))"
  by (auto simp: read_guard_defs budget_ok_def Let_def split: option.splits json.splits)

lemma guard_charges:
  "budgeted_scope sc \<Longrightarrow>
   reads_left (snd (guard_before_tool_call render sc use))
     + (if fst (guard_before_tool_call render sc use) = Proceed \<and> is_read_call use then 1 else 0)
   \<le> reads_left sc"
  by (auto simp: read_guard_defs Let_def split: option.splits json.splits)

interpretation read_budget_guard:
  budgeted_guard "guard_before_tool_call render" budgeted_scope "\<lambda>use a. a = Proceed \<and> is_read_call use" reads_left
  for render
  by unfold_locales (rule guard_keeps_budget, assumption, rule guard_charges, assumption)

lemma tool_keeps_budget:
  "budgeted_scope sc \<Longrightarrow> budgeted_scope (snd (reserve_writer_read key sc))"
  by (auto simp: reserve_writer_read_def budget_reserve_def budgeted_scope_def scope_budget_def budget_failure_def
      budget_ok_def split: option.splits)

text \<open>
  Under a published budget the guard lets at most \<open>max_calls\<close> reads of one invocation proceed,
  and the keys it records stay pairwise distinct and within the limit.
\<close>

theorem writer_reads_bounded:
  assumes "ds_read_budget s = Some b" and "rb_seen b = []"
  shows "length (filter (\<lambda>(use, a). a = Proceed \<and> is_read_call use) (zip uses (answers (guard_before_tool_call render) (Some s) uses)))
      \<le> nat (rb_max_calls b)
    \<and> (\<exists>b'. scope_budget (snd (run_guard (guard_before_tool_call render) (Some s) uses)) = Some b' \<and> budget_ok b')"
proof
  have ok: "budgeted_scope (Some s)"
    using assms by (simp add: budgeted_scope_def scope_budget_def budget_ok_def)
  show "length (filter (\<lambda>(use, a). a = Proceed \<and> is_read_call use) (zip uses (answers (guard_before_tool_call render) (Some s) uses)))
      \<le> nat (rb_max_calls b)"
    using read_budget_guard.spent_le [OF ok, of uses render] assms by (simp add: reads_left_def scope_budget_def)
  show "\<exists>b'. scope_budget (snd (run_guard (guard_before_tool_call render) (Some s) uses)) = Some b' \<and> budget_ok b'"
    using read_budget_guard.run_ok [OF ok] by (simp add: budgeted_scope_def)
qed

definition sample_scope :: draft_scope where
  "sample_scope = \<lparr>ds_run_id = ''r1'', ds_org_id = ''o1'', ds_generation = 1, ds_version = None,
     ds_assigned_page_id = Some ''docs/a.md'', ds_repository = Some ''o/r'', ds_head_sha = Some ''sha'',
     ds_read_budget = Some \<lparr>rb_max_calls = 2, rb_seen = []\<rparr>\<rparr>"

definition read_use :: "string \<Rightarrow> string \<Rightarrow> string \<Rightarrow> string \<Rightarrow> string \<Rightarrow> jobj" where
  "read_use name owner repo path ref =
     [(''name'', JStr name),
      (''input'', JObj [(''owner'', JStr owner), (''repo'', JStr repo), (''path'', JStr path), (''ref'', JStr ref)])]"

theorem writer_reads_bounded_witness:
  "length (filter (\<lambda>(use, a). a = Proceed \<and> is_read_call use)
     (zip (map (\<lambda>p. read_use ''github_read_file'' ''o'' ''r'' p ''sha'') [''a'', ''a'', ''b'', ''c''])
        (answers (guard_before_tool_call (\<lambda>_. [])) (Some sample_scope)
           (map (\<lambda>p. read_use ''github_read_file'' ''o'' ''r'' p ''sha'') [''a'', ''a'', ''b'', ''c''])))) \<le> 2"
  using writer_reads_bounded [of sample_scope "\<lparr>rb_max_calls = 2, rb_seen = []\<rparr>"
      "map (\<lambda>p. read_use ''github_read_file'' ''o'' ''r'' p ''sha'') [''a'', ''a'', ''b'', ''c'']" "\<lambda>_. []"]
  by (simp add: sample_scope_def)

lemma read_key_explicit:
  "owner \<noteq> [] \<Longrightarrow> repo \<noteq> [] \<Longrightarrow> ref \<noteq> [] \<Longrightarrow>
   read_key_of render name [(''owner'', JStr owner), (''repo'', JStr repo), (''path'', JStr path), (''ref'', JStr ref)] s
     = writer_read_key name owner repo path ref"
  by (simp add: read_key_of_def str_or_def py_str_def split: prod.splits)

text \<open>
  A file read the guard has let through is refused by the tool: the guard has already recorded the
  key under which the tool reserves the read, so the tool raises for a repeated source and no file is
  fetched.
\<close>

theorem guarded_read_rejected:
  assumes "ds_read_budget s = Some b"
    and "name \<in> {''github_read_file'', ''github_get_file''}"
    and "owner \<noteq> []" and "repo \<noteq> []" and "ref \<noteq> []"
    and "guard_before_tool_call render (Some s) (read_use name owner repo path ref) = (Proceed, sc')"
    and "require_writer_target owner repo (Some ref) sc' = Inr ()"
  shows "read_file fetch owner repo path ref sc' =
    (Inl (ValueError ''This source was already read; use its existing evidence and draft the page.''), sc')"
proof -
  have "canonical_name name = ''github_read_file''" "name \<in> set READ_TOOL_NAMES"
    using assms(2) by (auto simp: canonical_name_def LEGACY_CANONICAL_TOOL_NAMES_def READ_TOOL_NAMES_def)
  then have "sc' = Some (s\<lparr>ds_read_budget :=
      Some (b\<lparr>rb_seen := writer_read_key ''github_read_file'' owner repo path ref # rb_seen b\<rparr>)\<rparr>)"
    using assms(1,3-6)
    by (auto simp: guard_before_tool_call_def read_use_def read_key_explicit Let_def split: option.splits)
  with assms(7) show ?thesis
    by (simp add: read_file_def reserve_writer_read_def budget_reserve_def budget_failure_def)
qed

theorem guarded_read_rejected_witness:
  "read_file (\<lambda>_ _ _ _. Inr ''body'') ''o'' ''r'' ''a'' ''sha''
     (snd (guard_before_tool_call (\<lambda>_. []) (Some sample_scope) (read_use ''github_read_file'' ''o'' ''r'' ''a'' ''sha'')))
   = (Inl (ValueError ''This source was already read; use its existing evidence and draft the page.''),
      snd (guard_before_tool_call (\<lambda>_. []) (Some sample_scope) (read_use ''github_read_file'' ''o'' ''r'' ''a'' ''sha'')))"
  by (rule guarded_read_rejected [of sample_scope "\<lparr>rb_max_calls = 2, rb_seen = []\<rparr>" "''github_read_file''" _ _ _ "\<lambda>_. []"])
    (code_simp | simp)+

end
