(* ===== verification/Read_Cache.thy ===== *)
theory Read_Cache
  imports Writer_Reads
begin

text \<open>
  The run-wide cache of pinned GitHub reads: the least-recently-used store of
  \<^verbatim>\<open>src/draftly/agents/documentation/repo_read_cache.py\<close>, bounded in entries and bytes, and the plugin of
  \<^verbatim>\<open>steering/repo_read_cache_plugin.py\<close> that fills it and serves from it. An \<^verbatim>\<open>OrderedDict\<close> is an association
  list, oldest entry first. \<open>digest\<close> stands for the hexadecimal SHA-256 of a text, \<open>render\<close> for \<^verbatim>\<open>str\<close> of
  a compound value; a text has one byte per character.
\<close>

section \<open>The cache\<close>

definition DEFAULT_MAX_ENTRIES :: int where "DEFAULT_MAX_ENTRIES = 512"
definition DEFAULT_MAX_BYTES :: int where "DEFAULT_MAX_BYTES = 32 * 1024 * 1024"

record read_cache =
  rc_entries :: "(string \<times> string) list"
  rc_bytes :: int
  rc_max_entries :: int
  rc_max_bytes :: int
  rc_hits :: int
  rc_misses :: int
  rc_evictions :: int

definition new_cache :: "int \<Rightarrow> int \<Rightarrow> read_cache res" where
  "new_cache max_entries max_bytes =
     (if max_entries < 1 then Inl (ValueError (''max_entries must be >= 1, got '' @ show_int max_entries))
      else if max_bytes < 1 then Inl (ValueError (''max_bytes must be >= 1, got '' @ show_int max_bytes))
      else Inr \<lparr>rc_entries = [], rc_bytes = 0, rc_max_entries = max_entries, rc_max_bytes = max_bytes,
                rc_hits = 0, rc_misses = 0, rc_evictions = 0\<rparr>)"

definition drop_key :: "string \<Rightarrow> (string \<times> string) list \<Rightarrow> (string \<times> string) list" where
  "drop_key key es = filter (\<lambda>kv. fst kv \<noteq> key) es"

definition cache_get :: "string \<Rightarrow> read_cache \<Rightarrow> string option \<times> read_cache" where
  "cache_get key c =
     (case map_of (rc_entries c) key of
        None \<Rightarrow> (None, c\<lparr>rc_misses := rc_misses c + 1\<rparr>)
      | Some v \<Rightarrow> (Some v, c\<lparr>rc_entries := drop_key key (rc_entries c) @ [(key, v)], rc_hits := rc_hits c + 1\<rparr>))"

text \<open>The eviction loop of \<^verbatim>\<open>put\<close>: \<^verbatim>\<open>popitem\<close> of an empty dictionary raises.\<close>

fun evict_loop :: "int \<Rightarrow> int \<Rightarrow> (string \<times> string) list \<Rightarrow> int \<Rightarrow> int \<Rightarrow> ((string \<times> string) list \<times> int \<times> int) res" where
  "evict_loop max_entries max_bytes es bytes evictions =
     (if int (length es) > max_entries \<or> bytes > max_bytes then
        (case es of
           [] \<Rightarrow> Inl (KeyError ''dictionary is empty'')
         | (k, evicted) # es' \<Rightarrow>
             evict_loop max_entries max_bytes es' (bytes - int (length evicted)) (evictions + 1))
      else Inr (es, bytes, evictions))"

declare evict_loop.simps [simp del]

definition cache_put :: "string \<Rightarrow> string \<Rightarrow> read_cache \<Rightarrow> read_cache res" where
  "cache_put key v c =
     (let size = int (length v) in
      if size > rc_max_bytes c then Inr c
      else
        let bytes0 = (case map_of (rc_entries c) key of
                        None \<Rightarrow> rc_bytes c
                      | Some previous \<Rightarrow> rc_bytes c - int (length previous))
        in case evict_loop (rc_max_entries c) (rc_max_bytes c) (drop_key key (rc_entries c) @ [(key, v)])
                  (bytes0 + size) (rc_evictions c) of
             Inl e \<Rightarrow> Inl e
           | Inr (es, bytes, evictions) \<Rightarrow> Inr (c\<lparr>rc_entries := es, rc_bytes := bytes, rc_evictions := evictions\<rparr>))"

definition cache_clear :: "read_cache \<Rightarrow> read_cache" where
  "cache_clear c = c\<lparr>rc_entries := [], rc_bytes := 0\<rparr>"

definition cache_stats :: "read_cache \<Rightarrow> (string \<times> int) list" where
  "cache_stats c =
     [(''entries'', int (length (rc_entries c))), (''bytes'', rc_bytes c), (''hits'', rc_hits c),
      (''misses'', rc_misses c), (''evictions'', rc_evictions c)]"

section \<open>The plugin\<close>

definition CACHEABLE_TOOLS :: "string list" where
  "CACHEABLE_TOOLS = [''github_read_file'', ''github_get_file'', ''github_get_tree'', ''github_list_tree'']"

definition cache_key :: "(string \<Rightarrow> string) \<Rightarrow> string list \<Rightarrow> string" where
  "cache_key digest parts = digest (join_with [CHR 0x1F] parts)"

definition flat_args :: "jobj \<Rightarrow> jobj" where
  "flat_args use =
     (case jget use ''input'' of
        JObj nested \<Rightarrow> filter (\<lambda>kv. fst kv \<noteq> ''input'') use @ nested
      | _ \<Rightarrow> use)"

text \<open>The components the key is made of: tool, owner, repository, path and ref.\<close>

definition key_parts :: "(json \<Rightarrow> string) \<Rightarrow> draft_scope option \<Rightarrow> jobj \<Rightarrow> string list option" where
  "key_parts render sc use =
     (case jget use ''name'' of
        JStr name \<Rightarrow>
          if name \<notin> set CACHEABLE_TOOLS then None
          else let args = flat_args use;
                   head = (case sc of None \<Rightarrow> [] | Some s \<Rightarrow> text_or_empty (ds_head_sha s))
               in Some [canonical_name name,
                        str_or render (jget args ''owner'') (str_or render (jget args ''org'') []),
                        str_or render (jget args ''repo'') (str_or render (jget args ''repository'') []),
                        str_or render (jget args ''path'') [],
                        str_or render (jget args ''ref'') (str_or render (jget args ''sha'') head)]
      | _ \<Rightarrow> None)"

definition key_for :: "(string \<Rightarrow> string) \<Rightarrow> (json \<Rightarrow> string) \<Rightarrow> draft_scope option \<Rightarrow> jobj \<Rightarrow> string option" where
  "key_for digest render sc use = map_option (cache_key digest) (key_parts render sc use)"

text \<open>The body that replaces the tool's run, if any, and the cache after the lookup.\<close>

definition cache_before_tool_call ::
  "(string \<Rightarrow> string) \<Rightarrow> (json \<Rightarrow> string) \<Rightarrow> draft_scope option \<Rightarrow> jobj \<Rightarrow> read_cache option \<Rightarrow>
   string option \<times> read_cache option" where
  "cache_before_tool_call digest render sc use co =
     (case co of
        None \<Rightarrow> (None, None)
      | Some c \<Rightarrow>
          (case key_for digest render sc use of
             None \<Rightarrow> (None, Some c)
           | Some key \<Rightarrow> (case cache_get key c of (v, c') \<Rightarrow> (v, Some c'))))"

text \<open>The text a tool result is cached as; an exception is not a dictionary.\<close>

definition cacheable_text :: "json \<Rightarrow> string option" where
  "cacheable_text outcome =
     (case outcome of
        JObj r \<Rightarrow>
          if jget r ''status'' = JStr ''error'' then None
          else (case jget r ''content'' of
                  JList (JObj first # _) \<Rightarrow> (case jget first ''text'' of JStr t \<Rightarrow> Some t | _ \<Rightarrow> None)
                | _ \<Rightarrow> None)
      | _ \<Rightarrow> None)"

definition cache_after_tool_call ::
  "(string \<Rightarrow> string) \<Rightarrow> (json \<Rightarrow> string) \<Rightarrow> draft_scope option \<Rightarrow> jobj \<Rightarrow> json \<Rightarrow> read_cache option \<Rightarrow>
   read_cache option res" where
  "cache_after_tool_call digest render sc use outcome co =
     (case co of
        None \<Rightarrow> Inr None
      | Some c \<Rightarrow>
          (case key_for digest render sc use of
             None \<Rightarrow> Inr (Some c)
           | Some key \<Rightarrow>
               (case cacheable_text outcome of
                  None \<Rightarrow> Inr (Some c)
                | Some t \<Rightarrow> map_sum id Some (cache_put key t c))))"

text \<open>One run: the callbacks of all writers on the shared cache, in the order they happen.\<close>

datatype cache_event = Before "draft_scope option" jobj | After "draft_scope option" jobj json

fun cache_event_step ::
  "(string \<Rightarrow> string) \<Rightarrow> (json \<Rightarrow> string) \<Rightarrow> read_cache option \<Rightarrow> cache_event \<Rightarrow> read_cache option res" where
  "cache_event_step digest render co (Before sc use) = Inr (snd (cache_before_tool_call digest render sc use co))"
| "cache_event_step digest render co (After sc use outcome) = cache_after_tool_call digest render sc use outcome co"

fun cache_run ::
  "(string \<Rightarrow> string) \<Rightarrow> (json \<Rightarrow> string) \<Rightarrow> read_cache option \<Rightarrow> cache_event list \<Rightarrow> read_cache option res" where
  "cache_run digest render co [] = Inr co"
| "cache_run digest render co (ev # evs) =
     (case cache_event_step digest render co ev of Inl e \<Rightarrow> Inl e | Inr co' \<Rightarrow> cache_run digest render co' evs)"

section \<open>Bounds and recency\<close>

definition total_bytes :: "(string \<times> string) list \<Rightarrow> int" where
  "total_bytes es = sum_list (map (\<lambda>kv. int (length (snd kv))) es)"

definition fits :: "read_cache \<Rightarrow> (string \<times> string) list \<Rightarrow> bool" where
  "fits c es \<longleftrightarrow> int (length es) \<le> rc_max_entries c \<and> total_bytes es \<le> rc_max_bytes c"

definition cache_ok :: "read_cache \<Rightarrow> bool" where
  "cache_ok c \<longleftrightarrow> distinct (map fst (rc_entries c)) \<and> rc_bytes c = total_bytes (rc_entries c) \<and>
     fits c (rc_entries c) \<and> 1 \<le> rc_max_entries c \<and> 1 \<le> rc_max_bytes c"

lemma total_bytes_simps [simp]:
  "total_bytes [] = 0"
  "total_bytes (kv # es) = int (length (snd kv)) + total_bytes es"
  "total_bytes (es @ fs) = total_bytes es + total_bytes fs"
  by (simp_all add: total_bytes_def)

lemma total_bytes_drop_key:
  "distinct (map fst es) \<Longrightarrow>
   total_bytes (drop_key key es) = total_bytes es - (case map_of es key of None \<Rightarrow> 0 | Some v \<Rightarrow> int (length v))"
proof (induction es)
  case (Cons kv es)
  then show ?case
    by (cases "fst kv = key") (auto simp: drop_key_def map_of_eq_None_iff [THEN iffD2] split: option.splits)
qed (simp add: drop_key_def)

lemma distinct_drop_key_snoc:
  "distinct (map fst es) \<Longrightarrow> distinct (map fst (drop_key key es @ [(key, v)]))"
  by (auto simp: drop_key_def distinct_map_filter)

lemma evict_loop_spec:
  assumes "0 \<le> rc_max_entries c" and "0 \<le> rc_max_bytes c"
  shows "\<exists>n \<le> length es. evict_loop (rc_max_entries c) (rc_max_bytes c) es (total_bytes es) ev
             = Inr (drop n es, total_bytes (drop n es), ev + int n)
           \<and> fits c (drop n es) \<and> (\<forall>m < n. \<not> fits c (drop m es))"
proof (induction es arbitrary: ev)
  case Nil
  with assms show ?case by (simp add: evict_loop.simps [of _ _ "[]"] fits_def)
next
  case (Cons kv es)
  show ?case
  proof (cases "fits c (kv # es)")
    case True
    then show ?thesis
      by (intro exI [of _ 0]) (auto simp: evict_loop.simps [of _ _ "kv # es"] fits_def)
  next
    case False
    from Cons.IH [of "ev + 1"] obtain n where
      n: "n \<le> length es" "evict_loop (rc_max_entries c) (rc_max_bytes c) es (total_bytes es) (ev + 1)
             = Inr (drop n es, total_bytes (drop n es), ev + 1 + int n)"
         "fits c (drop n es)" "\<forall>m < n. \<not> fits c (drop m es)" by blast
    have "evict_loop (rc_max_entries c) (rc_max_bytes c) (kv # es) (total_bytes (kv # es)) ev
            = Inr (drop (Suc n) (kv # es), total_bytes (drop (Suc n) (kv # es)), ev + int (Suc n))"
      using False n(2) by (auto simp: evict_loop.simps [of _ _ "kv # es"] fits_def split: prod.splits)
    moreover have "\<forall>m < Suc n. \<not> fits c (drop m (kv # es))"
      using False n(4) by (auto simp: less_Suc_eq_0_disj)
    ultimately show ?thesis using n by (intro exI [of _ "Suc n"]) simp
  qed
qed

lemma fits_last: "cache_ok c \<Longrightarrow> int (length v) \<le> rc_max_bytes c \<Longrightarrow> fits c [(key, v)]"
  by (simp add: fits_def cache_ok_def)

lemma distinct_fst_drop: "distinct (map fst es) \<Longrightarrow> distinct (map fst (drop n es))"
  by (simp flip: drop_map)

lemma map_of_snoc_drop:
  "distinct (map fst (xs @ [(key, v)])) \<Longrightarrow> n \<le> length xs \<Longrightarrow> map_of (drop n (xs @ [(key, v)])) key = Some v"
proof -
  assume d: "distinct (map fst (xs @ [(key, v)]))" and n: "n \<le> length xs"
  have "(key, v) \<in> set (drop n (xs @ [(key, v)]))" using n by simp
  with distinct_fst_drop [OF d] show ?thesis by (rule map_of_is_SomeI)
qed

lemma cache_put_fitting:
  assumes "cache_ok c" and "int (length v) \<le> rc_max_bytes c"
  shows "\<exists>n c'. cache_put key v c = Inr c'
      \<and> rc_entries c' = drop n (drop_key key (rc_entries c) @ [(key, v)])
      \<and> n \<le> length (drop_key key (rc_entries c))
      \<and> fits c (rc_entries c') \<and> (\<forall>m < n. \<not> fits c (drop m (drop_key key (rc_entries c) @ [(key, v)])))
      \<and> cache_ok c' \<and> rc_max_entries c' = rc_max_entries c \<and> rc_max_bytes c' = rc_max_bytes c"
proof -
  let ?xs = "drop_key key (rc_entries c)" let ?l = "?xs @ [(key, v)]"
  have d: "distinct (map fst ?l)"
    using assms(1) by (intro distinct_drop_key_snoc) (simp add: cache_ok_def)
  have bytes: "(case map_of (rc_entries c) key of None \<Rightarrow> rc_bytes c | Some p \<Rightarrow> rc_bytes c - int (length p))
      + int (length v) = total_bytes ?l"
    using assms(1) by (simp add: cache_ok_def total_bytes_drop_key split: option.splits)
  obtain n where n: "n \<le> length ?l"
    "evict_loop (rc_max_entries c) (rc_max_bytes c) ?l (total_bytes ?l) (rc_evictions c)
       = Inr (drop n ?l, total_bytes (drop n ?l), rc_evictions c + int n)"
    "fits c (drop n ?l)" "\<forall>m < n. \<not> fits c (drop m ?l)"
    using evict_loop_spec [of c ?l "rc_evictions c"] assms(1) by (auto simp: cache_ok_def)
  have "n \<le> length ?xs"
  proof (rule ccontr)
    assume "\<not> n \<le> length ?xs"
    then have "length ?xs < n" by simp
    with n(4) have "\<not> fits c (drop (length ?xs) ?l)" by blast
    then show False using fits_last [OF assms] by simp
  qed
  moreover define c' where
    "c' = c\<lparr>rc_entries := drop n ?l, rc_bytes := total_bytes (drop n ?l), rc_evictions := rc_evictions c + int n\<rparr>"
  moreover have "cache_put key v c = Inr c'"
    using assms(2) n(2) bytes unfolding cache_put_def c'_def by (simp add: Let_def)
  moreover have "cache_ok c'"
    using assms(1) n(3) distinct_fst_drop [OF d, of n] by (simp add: c'_def cache_ok_def fits_def)
  ultimately show ?thesis using n(3,4) by (intro exI [of _ n] exI [of _ c']) (simp add: c'_def)
qed

lemma cache_put_total: "cache_ok c \<Longrightarrow> \<exists>c'. cache_put key v c = Inr c' \<and> cache_ok c'"
proof (cases "int (length v) \<le> rc_max_bytes c")
  case True
  assume "cache_ok c"
  then show ?thesis using cache_put_fitting [OF _ True] by metis
qed (auto simp: cache_put_def)

text \<open>
  Putting a body that fits on its own succeeds, keeps the cache's invariant and makes the body the
  one a lookup of its key returns; what is evicted is the shortest run of least recently used entries
  whose removal brings the cache back under both bounds.
\<close>

theorem cache_put_lru:
  assumes "cache_ok c" and "int (length v) \<le> rc_max_bytes c"
  shows "\<exists>n c'. cache_put key v c = Inr c' \<and> cache_ok c'
      \<and> rc_entries c' = drop n (drop_key key (rc_entries c) @ [(key, v)])
      \<and> fits c (rc_entries c') \<and> (\<forall>m < n. \<not> fits c (drop m (drop_key key (rc_entries c) @ [(key, v)])))
      \<and> fst (cache_get key c') = Some v"
proof -
  obtain n c' where c': "cache_put key v c = Inr c'"
    "rc_entries c' = drop n (drop_key key (rc_entries c) @ [(key, v)])"
    "n \<le> length (drop_key key (rc_entries c))"
    "fits c (rc_entries c')" "\<forall>m < n. \<not> fits c (drop m (drop_key key (rc_entries c) @ [(key, v)]))" "cache_ok c'"
    using cache_put_fitting [OF assms] by blast
  have "map_of (rc_entries c') key = Some v"
    unfolding c'(2) using assms(1) c'(3)
    by (intro map_of_snoc_drop distinct_drop_key_snoc) (simp_all add: cache_ok_def)
  then have "fst (cache_get key c') = Some v" by (simp add: cache_get_def)
  with c' show ?thesis by blast
qed

definition small_cache :: read_cache where
  "small_cache = \<lparr>rc_entries = [(''a'', ''12''), (''b'', ''3'')], rc_bytes = 3, rc_max_entries = 2, rc_max_bytes = 4,
     rc_hits = 0, rc_misses = 0, rc_evictions = 0\<rparr>"

theorem cache_put_lru_witness:
  "\<exists>n c'. cache_put ''c'' ''456'' small_cache = Inr c' \<and> cache_ok c'
      \<and> rc_entries c' = drop n (drop_key ''c'' (rc_entries small_cache) @ [(''c'', ''456'')])
      \<and> fits small_cache (rc_entries c')
      \<and> (\<forall>m < n. \<not> fits small_cache (drop m (drop_key ''c'' (rc_entries small_cache) @ [(''c'', ''456'')])))
      \<and> fst (cache_get ''c'' c') = Some ''456''"
  by (rule cache_put_lru [of small_cache "''456''" "''c''"]) (simp_all add: small_cache_def cache_ok_def fits_def)

section \<open>Runs of the plugin\<close>

lemma drop_key_length:
  "distinct (map fst es) \<Longrightarrow> map_of es key = Some v \<Longrightarrow> Suc (length (drop_key key es)) = length es"
proof (induction es)
  case (Cons kv es)
  have "key \<notin> fst ` set es \<Longrightarrow> filter (\<lambda>kv. fst kv \<noteq> key) es = es"
    by (auto simp: filter_id_conv)
  with Cons show ?case by (cases "fst kv = key") (auto simp: drop_key_def)
qed simp

lemma cache_get_ok: "cache_ok c \<Longrightarrow> cache_ok (snd (cache_get key c))"
  using drop_key_length [of "rc_entries c" key] total_bytes_drop_key [of "rc_entries c" key]
    distinct_drop_key_snoc [of "rc_entries c" key]
  by (auto simp: cache_get_def cache_ok_def fits_def split: option.splits)

lemma evict_loop_subset: "evict_loop a b es bytes ev = Inr (es', r) \<Longrightarrow> set es' \<subseteq> set es"
proof (induction es arbitrary: bytes ev)
  case (Cons kv es)
  then show ?case by (subst (asm) evict_loop.simps) (auto split: if_splits prod.splits)
qed (subst (asm) evict_loop.simps, simp split: if_splits)

lemma cache_put_entries:
  "cache_put key v c = Inr c' \<Longrightarrow> set (rc_entries c') \<subseteq> insert (key, v) (set (rc_entries c))"
  by (auto simp: cache_put_def Let_def drop_key_def dest!: evict_loop_subset split: if_splits sum.splits)

lemma cache_put_limits:
  "cache_put key v c = Inr c' \<Longrightarrow> rc_max_entries c' = rc_max_entries c \<and> rc_max_bytes c' = rc_max_bytes c"
  by (auto simp: cache_put_def Let_def split: if_splits sum.splits)

lemma cache_get_entries: "set (rc_entries (snd (cache_get key c))) \<subseteq> set (rc_entries c)"
  by (auto simp: cache_get_def drop_key_def dest: map_of_SomeD split: option.splits)

lemma cache_get_hit: "fst (cache_get key c) = Some v \<Longrightarrow> (key, v) \<in> set (rc_entries c)"
  by (auto simp: cache_get_def dest: map_of_SomeD split: option.splits)

text \<open>An entry's origin: a successful call of the run with that key and that text.\<close>

definition has_origin ::
  "(string \<Rightarrow> string) \<Rightarrow> (json \<Rightarrow> string) \<Rightarrow> cache_event set \<Rightarrow> string \<times> string \<Rightarrow> bool" where
  "has_origin digest render E kv \<longleftrightarrow>
     (\<exists>sc use outcome. After sc use outcome \<in> E \<and> key_for digest render sc use = Some (fst kv) \<and>
        cacheable_text outcome = Some (snd kv))"

definition run_inv ::
  "(string \<Rightarrow> string) \<Rightarrow> (json \<Rightarrow> string) \<Rightarrow> int \<Rightarrow> int \<Rightarrow> cache_event set \<Rightarrow> read_cache option \<Rightarrow> bool" where
  "run_inv digest render n m E co \<longleftrightarrow>
     (\<exists>c. co = Some c \<and> cache_ok c \<and> rc_max_entries c = n \<and> rc_max_bytes c = m \<and>
        (\<forall>kv \<in> set (rc_entries c). has_origin digest render E kv))"

lemma has_origin_mono: "has_origin digest render E kv \<Longrightarrow> E \<subseteq> F \<Longrightarrow> has_origin digest render F kv"
  by (auto simp: has_origin_def)

lemma run_inv_mono: "run_inv digest render n m E co \<Longrightarrow> E \<subseteq> F \<Longrightarrow> run_inv digest render n m F co"
  by (auto simp: run_inv_def intro: has_origin_mono)

lemma run_inv_get:
  assumes "run_inv digest render n m E (Some c)"
  shows "run_inv digest render n m E (Some (snd (cache_get key c)))"
proof -
  have "rc_max_entries (snd (cache_get key c)) = rc_max_entries c \<and> rc_max_bytes (snd (cache_get key c)) = rc_max_bytes c"
    by (simp add: cache_get_def split: option.splits)
  then show ?thesis
    using assms cache_get_ok [of c key] cache_get_entries [of key c] by (auto simp: run_inv_def)
qed

lemma run_inv_put:
  assumes "run_inv digest render n m E (Some c)" and "has_origin digest render E (key, v)"
  shows "\<exists>c'. cache_put key v c = Inr c' \<and> run_inv digest render n m E (Some c')"
proof -
  have ok: "cache_ok c" using assms(1) by (simp add: run_inv_def)
  obtain c' where c': "cache_put key v c = Inr c'" "cache_ok c'"
    using cache_put_total [OF ok, of key v] by blast
  then show ?thesis
    using assms cache_put_limits [OF c'(1)] cache_put_entries [OF c'(1)] by (auto simp: run_inv_def)
qed

lemma run_inv_step:
  assumes "run_inv digest render n m E co"
  shows "\<exists>co'. cache_event_step digest render co ev = Inr co' \<and> run_inv digest render n m (insert ev E) co'"
proof -
  from assms obtain c where co: "co = Some c" by (auto simp: run_inv_def)
  have inv: "run_inv digest render n m (insert ev E) (Some c)"
    using run_inv_mono [OF assms, of "insert ev E"] co by blast
  show ?thesis
  proof (cases ev)
    case (Before sc use)
    then show ?thesis
      using inv run_inv_get [OF inv] co
      by (auto simp: cache_before_tool_call_def case_prod_unfold split: option.splits)
  next
    case (After sc use outcome)
    show ?thesis
    proof (cases "\<exists>key t. key_for digest render sc use = Some key \<and> cacheable_text outcome = Some t")
      case True
      then obtain key t where kt: "key_for digest render sc use = Some key" "cacheable_text outcome = Some t" by blast
      then have "has_origin digest render (insert ev E) (key, t)" using After by (auto simp: has_origin_def)
      from run_inv_put [OF inv this] kt co After show ?thesis
        by (auto simp: cache_after_tool_call_def)
    next
      case False
      with inv co After show ?thesis by (auto simp: cache_after_tool_call_def split: option.splits)
    qed
  qed
qed

lemma run_inv_run:
  "run_inv digest render n m E co \<Longrightarrow>
   \<exists>co'. cache_run digest render co evs = Inr co' \<and> run_inv digest render n m (E \<union> set evs) co'"
proof (induction evs arbitrary: E co)
  case (Cons ev evs)
  obtain co1 where co1: "cache_event_step digest render co ev = Inr co1" "run_inv digest render n m (insert ev E) co1"
    using run_inv_step [OF Cons.prems] by blast
  from Cons.IH [OF co1(2)] co1(1) show ?case by simp
qed simp

lemma run_inv_new: "new_cache n m = Inr c \<Longrightarrow> run_inv digest render n m {} (Some c)"
  by (auto simp: new_cache_def run_inv_def cache_ok_def fits_def split: if_splits)

text \<open>
  Whatever the writers of a run look up and store, in whatever order, no callback raises and the
  shared cache stays within its bounds, with its byte count that of the bodies it holds.
\<close>

theorem cache_run_bounded:
  assumes "new_cache n m = Inr c0"
  shows "\<exists>c. cache_run digest render (Some c0) evs = Inr (Some c) \<and> int (length (rc_entries c)) \<le> n
    \<and> rc_bytes c = total_bytes (rc_entries c) \<and> rc_bytes c \<le> m \<and> distinct (map fst (rc_entries c))"
  using run_inv_run [OF run_inv_new [OF assms], of digest render evs]
  by (auto simp: run_inv_def cache_ok_def fits_def)

lemma join_sep_inject:
  assumes "join_with [c] p = join_with [c] q" "p \<noteq> []" "q \<noteq> []" "\<forall>x \<in> set p. c \<notin> set x" "\<forall>x \<in> set q. c \<notin> set x"
  shows "p = q"
  using assms by (metis split_on_join)

lemma key_parts_nonempty: "key_parts render sc use = Some p \<Longrightarrow> p \<noteq> []"
  by (auto simp: key_parts_def Let_def split: json.splits if_splits)

text \<open>The calls of a run whose results may be stored, as key components.\<close>

definition stored_parts :: "(json \<Rightarrow> string) \<Rightarrow> cache_event list \<Rightarrow> string list set" where
  "stored_parts render evs = {p. \<exists>sc use outcome. After sc use outcome \<in> set evs \<and> key_parts render sc use = Some p}"

text \<open>
  What a call asks for, field by field and apart from the key: the argument under the first of its names that
  is given, as text; a call without a ref asks for the head of its scope.
\<close>

definition asked :: "(json \<Rightarrow> string) \<Rightarrow> jobj \<Rightarrow> string list \<Rightarrow> string \<Rightarrow> string" where
  "asked render use names absent =
     (case find (\<lambda>k. py_truth (jget (flat_args use) k)) names of
        None \<Rightarrow> absent
      | Some k \<Rightarrow> py_str render (jget (flat_args use) k))"

definition scope_head :: "draft_scope option \<Rightarrow> string" where
  "scope_head sc = (case sc of None \<Rightarrow> [] | Some s \<Rightarrow> (case ds_head_sha s of None \<Rightarrow> [] | Some h \<Rightarrow> h))"

definition same_request :: "(json \<Rightarrow> string) \<Rightarrow> draft_scope option \<Rightarrow> jobj \<Rightarrow> draft_scope option \<Rightarrow> jobj \<Rightarrow> bool" where
  "same_request render sc use sc' use' \<longleftrightarrow>
     (\<exists>tool tool'. jget use ''name'' = JStr tool \<and> jget use' ''name'' = JStr tool'
        \<and> {tool, tool'} \<subseteq> set CACHEABLE_TOOLS \<and> canonical_name tool = canonical_name tool')
     \<and> asked render use [''owner'', ''org''] [] = asked render use' [''owner'', ''org''] []
     \<and> asked render use [''repo'', ''repository''] [] = asked render use' [''repo'', ''repository''] []
     \<and> asked render use [''path''] [] = asked render use' [''path''] []
     \<and> asked render use [''ref'', ''sha''] (scope_head sc) = asked render use' [''ref'', ''sha''] (scope_head sc')"

lemma key_parts_request:
  assumes "key_parts render sc use = Some p" and "key_parts render sc' use' = Some p"
  shows "same_request render sc use sc' use'"
proof -
  have parts: "\<exists>tool. jget use ''name'' = JStr tool \<and> tool \<in> set CACHEABLE_TOOLS
      \<and> p = [canonical_name tool, asked render use [''owner'', ''org''] [], asked render use [''repo'', ''repository''] [],
             asked render use [''path''] [], asked render use [''ref'', ''sha''] (scope_head sc)]"
    if "key_parts render sc use = Some p" for sc use
    using that by (cases "jget use ''name''")
      (auto simp: key_parts_def Let_def asked_def str_or_def scope_head_def text_or_empty_def split: if_splits option.splits)
  from parts [OF assms(1)] parts [OF assms(2)] show ?thesis by (auto simp: same_request_def)
qed

text \<open>
  C16. A body served from the cache is the text of an earlier successful call of the run that asked for the
  same thing: the same tool up to its alias, the same owner, repository and path, and the same ref, an absent
  ref being the scope's head. It holds when no component of the run's keys has the separator and the digest
  does not collide on them.
\<close>

theorem cached_reads_same_source:
  assumes "new_cache n m = Inr c0" and "cache_run digest render (Some c0) evs = Inr co"
    and "cache_before_tool_call digest render sc use co = (Some body, co')"
    and "key_parts render sc use = Some p"
    and "\<forall>q \<in> insert p (stored_parts render evs). \<forall>x \<in> set q. CHR 0x1F \<notin> set x"
    and "inj_on digest (join_with [CHR 0x1F] ` insert p (stored_parts render evs))"
  shows "\<exists>sc' use' outcome. After sc' use' outcome \<in> set evs \<and> same_request render sc use sc' use'
    \<and> cacheable_text outcome = Some body"
proof -
  have inv: "run_inv digest render n m (set evs) co"
    using run_inv_run [OF run_inv_new [OF assms(1)], of digest render evs] assms(2) by simp
  then obtain c where c: "co = Some c" "\<forall>kv \<in> set (rc_entries c). has_origin digest render (set evs) kv"
    by (auto simp: run_inv_def)
  have "fst (cache_get (cache_key digest p) c) = Some body"
    using assms(3,4) c(1) by (auto simp: cache_before_tool_call_def key_for_def split: prod.splits)
  with c(2) have "has_origin digest render (set evs) (cache_key digest p, body)" using cache_get_hit by blast
  then obtain sc' use' outcome q where o: "After sc' use' outcome \<in> set evs" "key_parts render sc' use' = Some q"
      "cache_key digest q = cache_key digest p" "cacheable_text outcome = Some body"
    by (auto simp: has_origin_def key_for_def)
  have q: "q \<in> stored_parts render evs" using o(1,2) by (auto simp: stored_parts_def)
  have "join_with [CHR 0x1F] q = join_with [CHR 0x1F] p"
  proof (rule inj_onD [OF assms(6)])
    show "digest (join_with [CHR 0x1F] q) = digest (join_with [CHR 0x1F] p)"
      using o(3) unfolding cache_key_def .
  qed (use q in blast)+
  then have "q = p"
    using key_parts_nonempty [OF o(2)] key_parts_nonempty [OF assms(4)]
    by (rule join_sep_inject) (use assms(5) q in \<open>simp_all\<close>)
  with o key_parts_request [OF assms(4)] show ?thesis by blast
qed

definition tree_use :: "string \<Rightarrow> string \<Rightarrow> string \<Rightarrow> string \<Rightarrow> jobj" where
  "tree_use owner repo ref prefix =
     [(''name'', JStr ''github_get_tree''),
      (''input'', JObj [(''owner'', JStr owner), (''repo'', JStr repo), (''ref'', JStr ref), (''path_prefix'', JStr prefix)])]"

definition text_result :: "string \<Rightarrow> json" where
  "text_result t = JObj [(''status'', JStr ''success''), (''content'', JList [JObj [(''text'', JStr t)]])]"

text \<open>
  The key of a tree listing ignores its \<open>path_prefix\<close>: once the listing of one directory is stored,
  the plugin answers the listing of any other directory of that commit with it.
\<close>

theorem narrowed_listing_shares_entry:
  assumes "cache_ok c" and "int (length t) \<le> rc_max_bytes c"
  shows "\<exists>c'. cache_after_tool_call digest render sc (tree_use owner repo ref prefix) (text_result t) (Some c) = Inr (Some c')
    \<and> fst (cache_before_tool_call digest render sc (tree_use owner repo ref other) (Some c')) = Some t"
proof -
  have same: "key_for digest render sc (tree_use owner repo ref other) = key_for digest render sc (tree_use owner repo ref prefix)"
    by (simp add: key_for_def key_parts_def tree_use_def flat_args_def CACHEABLE_TOOLS_def)
  obtain key where key: "key_for digest render sc (tree_use owner repo ref prefix) = Some key"
    by (simp add: key_for_def key_parts_def tree_use_def flat_args_def CACHEABLE_TOOLS_def Let_def)
  obtain n c' where c': "cache_put key t c = Inr c'" "rc_entries c' = drop n (drop_key key (rc_entries c) @ [(key, t)])"
      "n \<le> length (drop_key key (rc_entries c))"
    using cache_put_fitting [OF assms] by blast
  have "map_of (rc_entries c') key = Some t"
    unfolding c'(2) using assms(1) c'(3)
    by (intro map_of_snoc_drop distinct_drop_key_snoc) (simp_all add: cache_ok_def)
  with key same c'(1) show ?thesis
    by (simp add: cache_after_tool_call_def cache_before_tool_call_def cacheable_text_def text_result_def cache_get_def)
qed

definition read_event :: "string \<Rightarrow> string \<Rightarrow> cache_event" where
  "read_event path body = After None (read_use ''github_read_file'' ''o'' ''r'' path ''sha'') (text_result body)"

theorem cache_run_bounded_witness:
  "\<exists>c0 c. new_cache 1 10 = Inr c0
     \<and> cache_run (\<lambda>x. x) (\<lambda>_. []) (Some c0) [read_event ''a'' ''x'', read_event ''b'' ''y''] = Inr (Some c)
     \<and> int (length (rc_entries c)) \<le> 1 \<and> rc_bytes c \<le> 10"
proof -
  obtain c0 where c0: "new_cache 1 10 = Inr c0" by (simp add: new_cache_def)
  show ?thesis using cache_run_bounded [OF c0, of "\<lambda>x. x" "\<lambda>_. []" "[read_event ''a'' ''x'', read_event ''b'' ''y'']"] c0 by blast
qed

theorem cached_reads_same_source_witness:
  "\<exists>c0 co. new_cache 2 10 = Inr c0
     \<and> cache_run (\<lambda>x. x) (\<lambda>_. []) (Some c0) [read_event ''a'' ''x''] = Inr co
     \<and> (\<exists>sc' use' outcome. After sc' use' outcome \<in> set [read_event ''a'' ''x'']
          \<and> same_request (\<lambda>_. []) None (read_use ''github_read_file'' ''o'' ''r'' ''a'' ''sha'') sc' use'
          \<and> cacheable_text outcome = Some ''x'')"
proof -
  let ?c0 = "\<lparr>rc_entries = [], rc_bytes = 0, rc_max_entries = 2, rc_max_bytes = 10, rc_hits = 0, rc_misses = 0, rc_evictions = 0\<rparr>"
  let ?use = "read_use ''github_read_file'' ''o'' ''r'' ''a'' ''sha''"
  let ?p = "[''github_read_file'', ''o'', ''r'', ''a'', ''sha'']"
  let ?co = "Some (?c0\<lparr>rc_entries := [(cache_key (\<lambda>x. x) ?p, ''x'')], rc_bytes := 1\<rparr>)"
  have c0: "new_cache 2 10 = Inr ?c0" by code_simp
  have run: "cache_run (\<lambda>x. x) (\<lambda>_. []) (Some ?c0) [read_event ''a'' ''x''] = Inr ?co" by code_simp
  have hit: "cache_before_tool_call (\<lambda>x. x) (\<lambda>_. []) None ?use ?co
      = (Some ''x'', snd (cache_before_tool_call (\<lambda>x. x) (\<lambda>_. []) None ?use ?co))" by code_simp
  have p: "key_parts (\<lambda>_. []) None ?use = Some ?p" by code_simp
  then have st: "stored_parts (\<lambda>_. []) [read_event ''a'' ''x''] = {?p}"
    by (auto simp: stored_parts_def read_event_def)
  show ?thesis
    using cached_reads_same_source [OF c0 run hit p] c0 run unfolding st by simp
qed

theorem narrowed_listing_shares_entry_witness:
  "\<exists>c'. cache_after_tool_call (\<lambda>x. x) (\<lambda>_. []) None (tree_use ''o'' ''r'' ''sha'' ''docs'') (text_result ''1'') (Some small_cache) = Inr (Some c')
    \<and> fst (cache_before_tool_call (\<lambda>x. x) (\<lambda>_. []) None (tree_use ''o'' ''r'' ''sha'' ''src'') (Some c')) = Some ''1''"
  by (rule narrowed_listing_shares_entry) (simp_all add: small_cache_def cache_ok_def fits_def)

end
