(* ===== verification/Steering_Store.thy ===== *)
theory Steering_Store
  imports Transition_Systems
begin

text \<open>
  Durable steering state: the guide budgets and the intervention inbox of
  \<^verbatim>\<open>src/draftly/persistence/repositories/steering.py\<close> with the budgets that
  \<^verbatim>\<open>src/draftly/steering/persistence.py\<close> applies. The counters are a map keyed by the primary key of
  their table; the inbox is the list of its rows, with both unique constraints of the migration. A
  rejected statement leaves the tables unchanged, as the transaction does.
\<close>

section \<open>Guide budgets\<close>

record attempt_key =
  ak_run_id :: string
  ak_agent_id :: string
  ak_node_id :: string
  ak_phase :: string
  ak_tool_name :: string
  ak_model_turn :: int

type_synonym attempt_table = "attempt_key \<rightharpoonup> int"

text \<open>The upsert: a new counter starts at 1, an existing one grows while it is below the limit.\<close>

definition reserve :: "attempt_key \<Rightarrow> int \<Rightarrow> attempt_table \<Rightarrow> bool \<times> attempt_table" where
  "reserve key limit t =
     (case t key of
        None \<Rightarrow> (True, t(key \<mapsto> 1))
      | Some n \<Rightarrow> if n < limit then (True, t(key \<mapsto> n + 1)) else (False, t))"

definition reserve_with_total ::
  "attempt_key \<Rightarrow> int \<Rightarrow> attempt_key \<Rightarrow> int \<Rightarrow> attempt_table \<Rightarrow> bool \<times> attempt_table" where
  "reserve_with_total key limit total_key total_limit t =
     (let (scoped, t1) = reserve key limit t in
      if \<not> scoped then (False, t)
      else let (total, t2) = reserve total_key total_limit t1
           in if \<not> total then (False, t) else (True, t2))"

record steering_limits =
  sl_tool_guides_per_call :: int
  sl_model_guides_per_turn :: int
  sl_total_guides_per_agent :: int

definition default_limits :: steering_limits where
  "default_limits =
     \<lparr>sl_tool_guides_per_call = 4, sl_model_guides_per_turn = 2, sl_total_guides_per_agent = 7\<rparr>"

definition limits_post_init :: "steering_limits \<Rightarrow> steering_limits res" where
  "limits_post_init l =
     (if sl_tool_guides_per_call l < 0
      then Inl (ValueError (''tool_guides_per_call must be non-negative, got '' @ show_int (sl_tool_guides_per_call l)))
      else if sl_model_guides_per_turn l < 0
      then Inl (ValueError (''model_guides_per_turn must be non-negative, got '' @ show_int (sl_model_guides_per_turn l)))
      else if sl_total_guides_per_agent l < 0
      then Inl (ValueError (''total_guides_per_agent must be non-negative, got '' @ show_int (sl_total_guides_per_agent l)))
      else Inr l)"

definition total_key :: "string \<Rightarrow> string \<Rightarrow> attempt_key" where
  "total_key run_id agent_id =
     \<lparr>ak_run_id = run_id, ak_agent_id = agent_id, ak_node_id = [], ak_phase = ''agent_total'',
      ak_tool_name = [], ak_model_turn = 0\<rparr>"

definition tool_key :: "string \<Rightarrow> string \<Rightarrow> string \<Rightarrow> string \<Rightarrow> attempt_key" where
  "tool_key run_id agent_id node_id tool_name =
     \<lparr>ak_run_id = run_id, ak_agent_id = agent_id, ak_node_id = node_id, ak_phase = ''tool'',
      ak_tool_name = tool_name, ak_model_turn = 0\<rparr>"

definition model_key :: "string \<Rightarrow> string \<Rightarrow> string \<Rightarrow> attempt_key" where
  "model_key run_id agent_id node_id =
     \<lparr>ak_run_id = run_id, ak_agent_id = agent_id, ak_node_id = node_id, ak_phase = ''model'',
      ak_tool_name = [], ak_model_turn = 0\<rparr>"

definition reserve_tool_guide ::
  "steering_limits \<Rightarrow> string \<Rightarrow> string \<Rightarrow> string \<Rightarrow> string \<Rightarrow> attempt_table \<Rightarrow> bool \<times> attempt_table" where
  "reserve_tool_guide l run_id agent_id node_id tool_name =
     reserve_with_total (tool_key run_id agent_id node_id tool_name) (sl_tool_guides_per_call l)
       (total_key run_id agent_id) (sl_total_guides_per_agent l)"

definition reserve_model_guide ::
  "steering_limits \<Rightarrow> string \<Rightarrow> string \<Rightarrow> string \<Rightarrow> attempt_table \<Rightarrow> bool \<times> attempt_table" where
  "reserve_model_guide l run_id agent_id node_id =
     reserve_with_total (model_key run_id agent_id node_id) (sl_model_guides_per_turn l)
       (total_key run_id agent_id) (sl_total_guides_per_agent l)"

section \<open>The intervention inbox\<close>

record intervention =
  iv_id :: string
  iv_run_id :: string
  iv_interrupt_id :: string
  iv_org_id :: string
  iv_surface :: string
  iv_workflow_key :: "string option"
  iv_agent_id :: string
  iv_node_id :: string
  iv_tool_name :: string
  iv_status :: string
  iv_reason :: json
  iv_response_message :: "string option"
  iv_metadata :: json
  iv_idempotency_key :: "string option"
  iv_resolver_id :: "string option"
  iv_created_at :: int
  iv_updated_at :: int
  iv_resolved_at :: "int option"
  iv_expires_at :: "int option"

type_synonym inbox = "intervention list"

definition InterventionNotFoundError :: "string \<Rightarrow> exn" where
  "InterventionNotFoundError m = Exn ''InterventionNotFoundError'' m"
definition InterventionConflictError :: "string \<Rightarrow> exn" where
  "InterventionConflictError m = Exn ''InterventionConflictError'' m"
definition InvalidInterventionActionError :: "string \<Rightarrow> exn" where
  "InvalidInterventionActionError m = Exn ''InvalidInterventionActionError'' m"
definition UniqueViolationError :: exn where
  "UniqueViolationError = Exn ''UniqueViolationError'' ''workflow_interventions (org_id, idempotency_key)''"

definition ACTION_STATUS :: "(string \<times> string) list" where
  "ACTION_STATUS =
     [(''approve'', ''approved''), (''approve_and_review'', ''approved''), (''deny'', ''denied''),
      (''denied'', ''denied''), (''guide'', ''guided''), (''cancel'', ''cancelled'')]"

definition is_pending :: "intervention \<Rightarrow> bool" where
  "is_pending r \<longleftrightarrow> iv_status r = ''pending''"

definition at_interrupt :: "string \<Rightarrow> string \<Rightarrow> intervention \<Rightarrow> bool" where
  "at_interrupt run_id interrupt_id r \<longleftrightarrow> iv_run_id r = run_id \<and> iv_interrupt_id r = interrupt_id"

text \<open>A null key is distinct from every other key.\<close>

definition key_taken :: "string \<Rightarrow> string option \<Rightarrow> inbox \<Rightarrow> bool" where
  "key_taken org_id key t \<longleftrightarrow>
     key \<noteq> None \<and> list_ex (\<lambda>r. iv_org_id r = org_id \<and> iv_idempotency_key r = key) t"

definition create_pending :: "string \<Rightarrow> int \<Rightarrow> intervention \<Rightarrow> inbox \<Rightarrow> intervention res \<times> inbox" where
  "create_pending new_id now record t =
     (if list_ex (at_interrupt (iv_run_id record) (iv_interrupt_id record)) t
      then case find (\<lambda>r. at_interrupt (iv_run_id record) (iv_interrupt_id record) r
                          \<and> iv_org_id r = iv_org_id record) t of
             None \<Rightarrow> (Inl (InterventionNotFoundError
                        (''intervention '' @ iv_interrupt_id record @ '' is missing'')), t)
           | Some existing \<Rightarrow> (Inr existing, t)
      else if key_taken (iv_org_id record) (iv_idempotency_key record) t then (Inl UniqueViolationError, t)
      else let row = record\<lparr>iv_id := new_id, iv_status := ''pending'', iv_resolver_id := None,
                            iv_created_at := now, iv_updated_at := now, iv_resolved_at := None\<rparr>
           in (Inr row, t @ [row]))"

definition claimed :: "string \<Rightarrow> string \<Rightarrow> string option \<Rightarrow> string \<Rightarrow> int \<Rightarrow> intervention \<Rightarrow> intervention" where
  "claimed status action message key now r =
     r\<lparr>iv_status := status, iv_resolver_id := Some action, iv_response_message := message,
       iv_idempotency_key := (case iv_idempotency_key r of None \<Rightarrow> Some key | Some k \<Rightarrow> Some k),
       iv_resolved_at := Some now, iv_updated_at := now\<rparr>"

definition claimable_row :: "string \<Rightarrow> string \<Rightarrow> string \<Rightarrow> intervention \<Rightarrow> bool" where
  "claimable_row run_id interrupt_id org_id r \<longleftrightarrow>
     at_interrupt run_id interrupt_id r \<and> iv_org_id r = org_id \<and> is_pending r"

definition claim_response ::
  "string \<Rightarrow> string \<Rightarrow> string \<Rightarrow> string \<Rightarrow> string \<Rightarrow> string option \<Rightarrow> int \<Rightarrow> inbox \<Rightarrow> intervention res \<times> inbox" where
  "claim_response run_id interrupt_id org_id key action message now t =
     (case map_of ACTION_STATUS action of
        None \<Rightarrow> (Inl (InvalidInterventionActionError (''unsupported claim action '' @ quoted action)), t)
      | Some status \<Rightarrow>
          case find (\<lambda>r. iv_org_id r = org_id \<and> iv_idempotency_key r = Some key \<and> \<not> is_pending r) t of
            Some r \<Rightarrow>
              if iv_resolver_id r \<noteq> Some action \<or> iv_response_message r \<noteq> message
              then (Inl (InterventionConflictError
                     (''intervention '' @ iv_id r @ '' already resolved with a different response'')), t)
              else (Inr r, t)
          | None \<Rightarrow>
              case find (claimable_row run_id interrupt_id org_id) t of
                None \<Rightarrow> (Inl (InterventionNotFoundError (''no pending intervention for run '' @ run_id @
                           '' interrupt '' @ interrupt_id)), t)
              | Some r \<Rightarrow>
                  if iv_idempotency_key r = None \<and> key_taken org_id (Some key) t
                  then (Inl UniqueViolationError, t)
                  else (Inr (claimed status action message key now r),
                        upd_where (claimable_row run_id interrupt_id org_id)
                          (claimed status action message key now) t))"

definition resolved :: "string \<Rightarrow> string option \<Rightarrow> int \<Rightarrow> intervention \<Rightarrow> intervention" where
  "resolved status resolver_id now r =
     r\<lparr>iv_status := status,
       iv_resolver_id := (case resolver_id of None \<Rightarrow> iv_resolver_id r | Some x \<Rightarrow> Some x),
       iv_resolved_at := Some now, iv_updated_at := now\<rparr>"

definition resolve_intervention ::
  "string \<Rightarrow> string \<Rightarrow> string option \<Rightarrow> int \<Rightarrow> inbox \<Rightarrow> intervention res \<times> inbox" where
  "resolve_intervention i status resolver_id now t =
     (case find (\<lambda>r. iv_id r = i \<and> is_pending r) t of
        None \<Rightarrow> (Inl (InterventionNotFoundError (''no pending intervention with id '' @ i)), t)
      | Some r \<Rightarrow> (Inr (resolved status resolver_id now r),
                  upd_where (\<lambda>r. iv_id r = i \<and> is_pending r) (resolved status resolver_id now) t))"

definition get_pending :: "string \<Rightarrow> string \<Rightarrow> string \<Rightarrow> inbox \<Rightarrow> intervention option" where
  "get_pending run_id interrupt_id org_id = find (claimable_row run_id interrupt_id org_id)"

definition list_pending_for_run :: "string \<Rightarrow> string \<Rightarrow> inbox \<Rightarrow> intervention list" where
  "list_pending_for_run run_id org_id t =
     sort_key iv_created_at
       (filter (\<lambda>r. iv_run_id r = run_id \<and> iv_org_id r = org_id \<and> is_pending r) t)"

definition count_pending_for_org :: "string \<Rightarrow> inbox \<Rightarrow> nat" where
  "count_pending_for_org org_id t = length (filter (\<lambda>r. iv_org_id r = org_id \<and> is_pending r) t)"

section \<open>Budgets are exact\<close>

datatype guide_request =
    ToolGuide string string string string
  | ModelGuide string string string

fun scoped_key :: "guide_request \<Rightarrow> attempt_key" where
  "scoped_key (ToolGuide run agent node tool) = tool_key run agent node tool"
| "scoped_key (ModelGuide run agent node) = model_key run agent node"

fun agent_key :: "guide_request \<Rightarrow> attempt_key" where
  "agent_key (ToolGuide run agent node tool) = total_key run agent"
| "agent_key (ModelGuide run agent node) = total_key run agent"

fun scoped_limit :: "steering_limits \<Rightarrow> guide_request \<Rightarrow> int" where
  "scoped_limit l (ToolGuide _ _ _ _) = sl_tool_guides_per_call l"
| "scoped_limit l (ModelGuide _ _ _) = sl_model_guides_per_turn l"

fun request_guide :: "steering_limits \<Rightarrow> guide_request \<Rightarrow> attempt_table \<Rightarrow> bool \<times> attempt_table" where
  "request_guide l (ToolGuide run agent node tool) t = reserve_tool_guide l run agent node tool t"
| "request_guide l (ModelGuide run agent node) t = reserve_model_guide l run agent node t"

text \<open>Serving requests in turn: those granted, and the counters they leave.\<close>

fun serve :: "steering_limits \<Rightarrow> guide_request list \<Rightarrow> attempt_table \<Rightarrow> guide_request list \<times> attempt_table" where
  "serve l [] t = ([], t)"
| "serve l (q # qs) t =
     (let (ok, t1) = request_guide l q t; (granted, t2) = serve l qs t1
      in (if ok then q # granted else granted, t2))"

definition uses :: "attempt_key \<Rightarrow> guide_request list \<Rightarrow> nat" where
  "uses k h = length (filter (\<lambda>q. scoped_key q = k \<or> agent_key q = k) h)"

definition counts :: "attempt_table \<Rightarrow> guide_request list \<Rightarrow> bool" where
  "counts t h \<longleftrightarrow> (\<forall>k. t k = (if uses k h = 0 then None else Some (int (uses k h))))"

lemma request_guide_total:
  "request_guide l q = reserve_with_total (scoped_key q) (scoped_limit l q) (agent_key q) (sl_total_guides_per_agent l)"
  by (cases q) (auto simp: reserve_tool_guide_def reserve_model_guide_def)

lemma key_phases: "scoped_key q \<noteq> agent_key r"
  by (cases q; cases r) (simp_all add: tool_key_def model_key_def total_key_def)

lemma uses_snoc:
  "uses k (h @ [q]) = uses k h + (if scoped_key q = k \<or> agent_key q = k then 1 else 0)"
  by (simp add: uses_def)

lemma reserve_counts:
  assumes "t k = (if n = 0 then None else Some (int n))"
  shows "reserve k limit t =
    (if int n < max 1 limit then (True, t(k \<mapsto> int n + 1)) else (False, t))"
  using assms by (auto simp: reserve_def less_max_iff_disj)

lemma request_guide_counts:
  assumes "counts t h"
  shows "if int (uses (scoped_key q) h) < max 1 (scoped_limit l q)
        \<and> int (uses (agent_key q) h) < max 1 (sl_total_guides_per_agent l)
    then fst (request_guide l q t) \<and> counts (snd (request_guide l q t)) (h @ [q])
    else request_guide l q t = (False, t)"
proof -
  have s: "t (scoped_key q) = (if uses (scoped_key q) h = 0 then None else Some (int (uses (scoped_key q) h)))"
    using assms by (simp add: counts_def)
  have a: "(t(scoped_key q \<mapsto> x)) (agent_key q)
      = (if uses (agent_key q) h = 0 then None else Some (int (uses (agent_key q) h)))" for x
    using assms key_phases [of q q] by (simp add: counts_def)
  note r1 = reserve_counts [of t "scoped_key q" "uses (scoped_key q) h" "scoped_limit l q", OF s]
  have r2: "reserve (agent_key q) (sl_total_guides_per_agent l) (t(scoped_key q \<mapsto> x)) =
      (if int (uses (agent_key q) h) < max 1 (sl_total_guides_per_agent l)
       then (True, (t(scoped_key q \<mapsto> x))(agent_key q \<mapsto> int (uses (agent_key q) h) + 1))
       else (False, t(scoped_key q \<mapsto> x)))" for x
    by (rule reserve_counts) (rule a)
  show ?thesis
    using assms key_phases [of q q]
    by (auto simp: request_guide_total reserve_with_total_def r1 r2 counts_def uses_snoc)
qed

lemma serve_counts:
  assumes "counts t h" and "serve l qs t = (granted, t')"
    and "\<forall>q. int (uses (scoped_key q) h) \<le> max 1 (scoped_limit l q)
           \<and> int (uses (agent_key q) h) \<le> max 1 (sl_total_guides_per_agent l)"
  shows "counts t' (h @ granted)
    \<and> (\<forall>q. int (uses (scoped_key q) (h @ granted)) \<le> max 1 (scoped_limit l q)
           \<and> int (uses (agent_key q) (h @ granted)) \<le> max 1 (sl_total_guides_per_agent l))"
  using assms
proof (induction qs arbitrary: t h granted)
  case (Cons q qs)
  let ?go = "int (uses (scoped_key q) h) < max 1 (scoped_limit l q)
      \<and> int (uses (agent_key q) h) < max 1 (sl_total_guides_per_agent l)"
  obtain g where g: "serve l qs (snd (request_guide l q t)) = (g, t')"
    and granted: "granted = (if fst (request_guide l q t) then q # g else g)"
    using Cons.prems(2) by (auto simp: Let_def split_beta prod_eq_iff)
  note step = request_guide_counts [OF Cons.prems(1), of q l]
  show ?case
  proof (cases ?go)
    case True
    with step have c: "counts (snd (request_guide l q t)) (h @ [q])" and ok: "fst (request_guide l q t)"
      by simp_all
    have lim: "scoped_limit l r = scoped_limit l q" if "scoped_key r = scoped_key q" for r
      using that by (cases r; cases q) (simp_all add: tool_key_def model_key_def)
    have "int (uses (scoped_key r) (h @ [q])) \<le> max 1 (scoped_limit l r)
        \<and> int (uses (agent_key r) (h @ [q])) \<le> max 1 (sl_total_guides_per_agent l)" for r
      using Cons.prems(3) True key_phases [of q r] key_phases [of r q] lim [of r]
      by (auto simp: uses_snoc eq_commute [of "scoped_key q"])
    with Cons.IH [OF c g] show ?thesis by (simp add: granted ok)
  next
    case False
    with step have "request_guide l q t = (False, t)" by (meson)
    with Cons.IH [OF Cons.prems(1)] g Cons.prems(3) granted show ?thesis by simp
  qed
qed simp

text \<open>
  C15. Guide budgets are exact, with a floor of one: whatever requests are served, the guides granted to a
  tool call of a node, to the model of a node and to an agent in total never exceed a positive limit; a limit
  of zero or below does not forbid guides but allows one, because a new counter is inserted at 1 without
  looking at the limit; and the next request is granted exactly when neither of its two budgets, so read,
  is used up.
\<close>

theorem guide_budgets_exact:
  assumes "serve l qs Map.empty = (granted, t)"
  shows "(0 < scoped_limit l q \<longrightarrow> int (uses (scoped_key q) granted) \<le> scoped_limit l q)
    \<and> (0 < sl_total_guides_per_agent l \<longrightarrow> int (uses (agent_key q) granted) \<le> sl_total_guides_per_agent l)
    \<and> (scoped_limit l q \<le> 0 \<longrightarrow> uses (scoped_key q) granted \<le> 1)
    \<and> (sl_total_guides_per_agent l \<le> 0 \<longrightarrow> uses (agent_key q) granted \<le> 1)
    \<and> (fst (request_guide l q t) \<longleftrightarrow>
         int (uses (scoped_key q) granted) < (if 0 < scoped_limit l q then scoped_limit l q else 1)
         \<and> int (uses (agent_key q) granted)
             < (if 0 < sl_total_guides_per_agent l then sl_total_guides_per_agent l else 1))"
proof -
  have "counts Map.empty []" by (simp add: counts_def uses_def)
  from serve_counts [OF this assms] have c: "counts t granted"
    and b: "int (uses (scoped_key q) granted) \<le> max 1 (scoped_limit l q)
      \<and> int (uses (agent_key q) granted) \<le> max 1 (sl_total_guides_per_agent l)"
    by (auto simp: uses_def le_max_iff_disj)
  have floor: "(if 0 < k then k else 1) = max 1 (k :: int)" for k by simp
  from request_guide_counts [OF c, of q l]
  have "fst (request_guide l q t) \<longleftrightarrow> int (uses (scoped_key q) granted) < max 1 (scoped_limit l q)
      \<and> int (uses (agent_key q) granted) < max 1 (sl_total_guides_per_agent l)"
    by (auto split: if_splits)
  then show ?thesis using b unfolding floor by (auto simp: max_def split: if_splits)
qed

theorem guide_budgets_exact_witness:
  "let (granted, t) = serve default_limits (replicate 3 (ModelGuide ''r'' ''a'' ''n'')) Map.empty
   in length granted = 2 \<and> \<not> fst (request_guide default_limits (ModelGuide ''r'' ''a'' ''n'') t)"
proof -
  define s where "s = serve default_limits (replicate 3 (ModelGuide ''r'' ''a'' ''n'')) Map.empty"
  have two: "fst s = replicate 2 (ModelGuide ''r'' ''a'' ''n'')" unfolding s_def by code_simp
  have lim: "scoped_limit default_limits (ModelGuide ''r'' ''a'' ''n'') = 2" by (simp add: default_limits_def)
  have u: "uses (scoped_key (ModelGuide ''r'' ''a'' ''n'')) (fst s) = 2"
    by (simp add: two uses_def eval_nat_numeral)
  have "s = (fst s, snd s)" by simp
  from guide_budgets_exact [OF this [unfolded s_def], of "ModelGuide ''r'' ''a'' ''n''"] u lim
  have "\<not> fst (request_guide default_limits (ModelGuide ''r'' ''a'' ''n'') (snd s))" by (simp add: s_def)
  then show ?thesis using two by (simp add: s_def [symmetric] split_beta)
qed

section \<open>Interventions are answered once\<close>

inductive inbox_step :: "inbox \<Rightarrow> inbox \<Rightarrow> bool" where
  step_create: "new_id \<notin> iv_id ` set t \<Longrightarrow> inbox_step t (snd (create_pending new_id now rec t))"
| step_claim: "inbox_step t (snd (claim_response run_id interrupt_id org_id key action message now t))"
| step_resolve: "inbox_step t (snd (resolve_intervention i status resolver_id now t))"

definition interrupt_of :: "intervention \<Rightarrow> string \<times> string" where
  "interrupt_of r = (iv_run_id r, iv_interrupt_id r)"

definition inbox_inv :: "inbox \<Rightarrow> bool" where
  "inbox_inv t \<longleftrightarrow> distinct (map iv_id t) \<and> distinct (map interrupt_of t)"

text \<open>Every operation appends a row at a fresh interrupt or rewrites only pending rows.\<close>

definition keeps_identity :: "(intervention \<Rightarrow> intervention) \<Rightarrow> bool" where
  "keeps_identity f \<longleftrightarrow> (\<forall>r. iv_id (f r) = iv_id r \<and> interrupt_of (f r) = interrupt_of r)"

lemma claimed_identity: "keeps_identity (claimed status action message key now)"
  by (simp add: keeps_identity_def claimed_def interrupt_of_def)

lemma resolved_identity: "keeps_identity (resolved status resolver_id now)"
  by (simp add: keeps_identity_def resolved_def interrupt_of_def)

lemma inbox_step_cases:
  assumes "inbox_step t t'"
  obtains (same) "t' = t"
  | (append) r where "t' = t @ [r]" "iv_id r \<notin> iv_id ` set t" "interrupt_of r \<notin> interrupt_of ` set t"
  | (change) p f where "t' = upd_where p f t" "keeps_identity f" "\<And>r. p r \<Longrightarrow> is_pending r"
  using assms
proof cases
  case (step_create new_id now rec)
  define row where "row = rec\<lparr>iv_id := new_id, iv_status := ''pending'', iv_resolver_id := None,
      iv_created_at := now, iv_updated_at := now, iv_resolved_at := None\<rparr>"
  have "snd (create_pending new_id now rec t) \<in> {t, t @ [row]}"
    by (simp add: create_pending_def row_def Let_def split: option.split)
  moreover have "snd (create_pending new_id now rec t) = t"
    if "list_ex (at_interrupt (iv_run_id rec) (iv_interrupt_id rec)) t"
    using that by (simp add: create_pending_def split: option.split)
  moreover have "interrupt_of row \<notin> interrupt_of ` set t"
    if "\<not> list_ex (at_interrupt (iv_run_id rec) (iv_interrupt_id rec)) t"
    using that by (auto simp: interrupt_of_def row_def list_ex_iff at_interrupt_def)
  moreover have "iv_id row = new_id" by (simp add: row_def)
  ultimately show thesis using step_create same append [of row] by (metis insertE singletonD)
next
  case (step_claim run_id interrupt_id org_id key action message now)
  have "t' = t \<or> (\<exists>status. t' = upd_where (claimable_row run_id interrupt_id org_id)
      (claimed status action message key now) t)"
    unfolding step_claim claim_response_def by (auto split: option.split)
  then consider "t' = t" | status where "t' = upd_where (claimable_row run_id interrupt_id org_id)
      (claimed status action message key now) t" by blast
  then show thesis
  proof cases
    case 2
    show thesis by (rule change [OF 2 claimed_identity]) (simp add: claimable_row_def)
  qed (rule same)
next
  case (step_resolve i status resolver_id now)
  have "t' = t \<or> t' = upd_where (\<lambda>r. iv_id r = i \<and> is_pending r) (resolved status resolver_id now) t"
    unfolding step_resolve resolve_intervention_def by (auto split: option.split)
  then show thesis using same change [OF _ resolved_identity] by auto
qed

lemma inbox_step_inv:
  assumes "inbox_inv t" "inbox_step t t'"
  shows "inbox_inv t'"
  using assms(2)
proof (cases rule: inbox_step_cases)
  case (change p f)
  then have "map iv_id t' = map iv_id t" "map interrupt_of t' = map interrupt_of t"
    by (auto simp: keeps_identity_def intro!: map_key_upd_where)
  with assms(1) show ?thesis by (simp add: inbox_inv_def)
qed (use assms(1) in \<open>auto simp: inbox_inv_def\<close>)

interpretation inbox_system: invariant_system "\<lambda>t. t = []" inbox_step inbox_inv
  by unfold_locales (simp add: inbox_inv_def, rule inbox_step_inv)

text \<open>A row keeps its identity, and once it is no longer pending it keeps everything.\<close>

definition row_settles :: "intervention \<Rightarrow> intervention \<Rightarrow> bool" where
  "row_settles r r' \<longleftrightarrow> interrupt_of r' = interrupt_of r \<and> (\<not> is_pending r \<longrightarrow> r' = r)"

interpretation inbox_rows: row_evolution inbox_step set row_settles
proof unfold_locales
  show "row_settles r r" for r by (simp add: row_settles_def)
  show "row_settles r r' \<Longrightarrow> row_settles r' r2 \<Longrightarrow> row_settles r r2" for r r' r2
    by (auto simp: row_settles_def)
  show "\<exists>r' \<in> set t'. row_settles r r'" if "inbox_step t t'" "r \<in> set t" for t t' r
    using that(1)
  proof (cases rule: inbox_step_cases)
    case (change p f)
    show ?thesis
    proof (cases "p r")
      case True
      have "row_settles r (f r)" using change True by (simp add: row_settles_def keeps_identity_def)
      with True that(2) change(1) show ?thesis by (auto simp: set_upd_where)
    next
      case False
      with that(2) change(1) show ?thesis by (auto simp: set_upd_where row_settles_def)
    qed
  qed (use that(2) in \<open>auto simp: row_settles_def\<close>)
qed

text \<open>
  C20. An intervention is answered at most once: in an inbox built by any sequence of operations, a row
  that has been claimed, resolved or expired stays as it is through every later operation and remains
  the only row of its interrupt.
\<close>

theorem interventions_answered_once:
  assumes "inbox_step\<^sup>*\<^sup>* [] t" and "inbox_step\<^sup>*\<^sup>* t t'" and "r \<in> set t" and "\<not> is_pending r"
  shows "r \<in> set t' \<and> (\<forall>r' \<in> set t'. interrupt_of r' = interrupt_of r \<longrightarrow> r' = r)"
proof -
  have "inbox_inv t'" using assms(1,2) inbox_system.inv_reachable [of "[]" t'] by (simp add: rtranclp_trans)
  then have inj: "inj_on interrupt_of (set t')" by (simp add: inbox_inv_def distinct_map)
  have "r \<in> set t'"
    using inbox_rows.row_steps [OF assms(2,3)] assms(4) by (auto simp: row_settles_def)
  with inj show ?thesis by (auto dest: inj_onD)
qed

definition sample_intervention :: intervention where
  "sample_intervention =
     \<lparr>iv_id = [], iv_run_id = ''run'', iv_interrupt_id = ''int'', iv_org_id = ''org'', iv_surface = ''support'',
      iv_workflow_key = None, iv_agent_id = ''a'', iv_node_id = ''n'', iv_tool_name = ''create_comment'',
      iv_status = ''pending'', iv_reason = JNull, iv_response_message = None, iv_metadata = JNull,
      iv_idempotency_key = Some ''org:int'', iv_resolver_id = None, iv_created_at = 0, iv_updated_at = 0,
      iv_resolved_at = None, iv_expires_at = None\<rparr>"

definition sample_inbox :: inbox where
  "sample_inbox = snd (create_pending ''1'' 5 sample_intervention [])"

definition sample_claimed :: inbox where
  "sample_claimed = snd (claim_response ''run'' ''int'' ''org'' ''key-1'' ''approve'' None 6 sample_inbox)"

lemma sample_steps: "inbox_step\<^sup>*\<^sup>* [] sample_claimed"
proof -
  have "inbox_step [] sample_inbox" unfolding sample_inbox_def by (rule step_create) simp
  moreover have "inbox_step sample_inbox sample_claimed" unfolding sample_claimed_def by (rule step_claim)
  ultimately show ?thesis by (meson converse_rtranclp_into_rtranclp r_into_rtranclp)
qed

theorem interventions_answered_once_witness:
  "hd sample_claimed
     \<in> set (snd (claim_response ''run'' ''int'' ''org'' ''key-2'' ''deny'' None 7 sample_claimed))"
proof -
  have "inbox_step sample_claimed (snd (claim_response ''run'' ''int'' ''org'' ''key-2'' ''deny'' None 7 sample_claimed))"
    by (rule step_claim)
  moreover have "hd sample_claimed \<in> set sample_claimed \<and> \<not> is_pending (hd sample_claimed)" by code_simp
  ultimately show ?thesis
    using interventions_answered_once [OF sample_steps] by (meson r_into_rtranclp)
qed

section \<open>Replaying a claim\<close>

text \<open>
  Replaying a claim: repeating a successful claim with the same arguments returns the stored answer
  exactly when the row was created without an idempotency key or with the claim's own; a row created
  with another key, as the steering handler creates them, answers the replay with
  \<^verbatim>\<open>InterventionNotFoundError\<close>. Neither changes the inbox again.
\<close>

theorem claim_replay:
  assumes "distinct (map interrupt_of t)" and "map_of ACTION_STATUS action = Some status"
    and "find (claimable_row run_id interrupt_id org_id) t = Some row"
    and "\<forall>r \<in> set t. iv_org_id r = org_id \<and> iv_idempotency_key r = Some key \<longrightarrow> r = row"
  shows "let (out, t1) = claim_response run_id interrupt_id org_id key action message now t;
             (out2, t2) = claim_response run_id interrupt_id org_id key action message later t1
         in out = Inr (claimed status action message key now row) \<and> t2 = t1
            \<and> out2 = (if iv_idempotency_key row \<in> {None, Some key} then out
                      else Inl (InterventionNotFoundError (''no pending intervention for run '' @ run_id @
                             '' interrupt '' @ interrupt_id)))"
proof -
  let ?new = "claimed status action message key now row"
  have row: "row \<in> set t" "claimable_row run_id interrupt_id org_id row"
    using assms(3) find_Some_in by fastforce+
  have only: "r = row" if "r \<in> set t" "at_interrupt run_id interrupt_id r" for r
    using assms(1) row that inj_onD [of interrupt_of "set t" r row]
    by (auto simp: distinct_map interrupt_of_def claimable_row_def at_interrupt_def)
  have st: "status \<noteq> ''pending''"
    using assms(2) by (auto simp: ACTION_STATUS_def split: if_splits)
  have nokey: "find (\<lambda>r. iv_org_id r = org_id \<and> iv_idempotency_key r = Some key \<and> \<not> is_pending r) t = None"
    using assms(4) row(2) by (auto simp: find_None_iff claimable_row_def)
  have free: "\<not> (iv_idempotency_key row = None \<and> key_taken org_id (Some key) t)"
    using assms(4) by (auto simp: key_taken_def list_ex_iff)
  define t1 where "t1 = upd_where (claimable_row run_id interrupt_id org_id) (claimed status action message key now) t"
  have c1: "claim_response run_id interrupt_id org_id key action message now t = (Inr ?new, t1)"
    using free by (simp add: claim_response_def assms(2,3) nokey t1_def)
  have "{r \<in> set t. claimable_row run_id interrupt_id org_id r} = {row}"
    using row only unfolding claimable_row_def by blast
  moreover from this have "{r \<in> set t. \<not> claimable_row run_id interrupt_id org_id r} = set t - {row}" by blast
  ultimately have set_t1: "set t1 = insert ?new (set t - {row})" by (simp add: t1_def set_upd_where)
  have none: "find (claimable_row run_id interrupt_id org_id) t1 = None"
    using only st by (auto simp: find_None_iff set_t1 claimable_row_def is_pending_def claimed_def)
  have new: "iv_org_id ?new = org_id" "\<not> is_pending ?new" "iv_resolver_id ?new = Some action"
    "iv_response_message ?new = message"
    "iv_idempotency_key ?new = (case iv_idempotency_key row of None \<Rightarrow> Some key | Some k \<Rightarrow> Some k)"
    using row(2) st by (simp_all add: claimed_def is_pending_def claimable_row_def)
  have hit: "find (\<lambda>r. iv_org_id r = org_id \<and> iv_idempotency_key r = Some key \<and> \<not> is_pending r) t1
      = (if iv_idempotency_key row \<in> {None, Some key} then Some ?new else None)"
  proof (cases "iv_idempotency_key row \<in> {None, Some key}")
    case True
    then have "?new \<in> set t1 \<and> iv_org_id ?new = org_id \<and> iv_idempotency_key ?new = Some key \<and> \<not> is_pending ?new"
      using new by (auto simp: set_t1)
    moreover have "r = ?new" if "r \<in> set t1" "iv_org_id r = org_id" "iv_idempotency_key r = Some key" for r
      using that assms(4) by (auto simp: set_t1)
    ultimately have "find (\<lambda>r. iv_org_id r = org_id \<and> iv_idempotency_key r = Some key \<and> \<not> is_pending r) t1 = Some ?new"
      by (intro find_Some_unique) blast+
    with True show ?thesis by simp
  next
    case False
    then show ?thesis using assms(4) new by (auto simp: find_None_iff set_t1 split: option.splits)
  qed
  show ?thesis
    unfolding Let_def c1 split_beta fst_conv snd_conv
    using new by (simp add: claim_response_def assms(2) hit none)
qed

theorem claim_replay_witness:
  "fst (claim_response ''run'' ''int'' ''org'' ''key-1'' ''approve'' None 7 sample_claimed)
     = Inl (InterventionNotFoundError ''no pending intervention for run run interrupt int'')"
proof -
  have a: "distinct (map interrupt_of sample_inbox)" by code_simp
  have b: "map_of ACTION_STATUS ''approve'' = Some ''approved''" by code_simp
  have c: "find (claimable_row ''run'' ''int'' ''org'') sample_inbox = Some (hd sample_inbox)" by code_simp
  have d: "\<forall>r \<in> set sample_inbox. iv_org_id r = ''org'' \<and> iv_idempotency_key r = Some ''key-1'' \<longrightarrow> r = hd sample_inbox"
    by code_simp
  have k: "iv_idempotency_key (hd sample_inbox) \<notin> {None, Some ''key-1''}" by code_simp
  show ?thesis
    using claim_replay [OF a b c d, of None 6 7] k
    by (simp add: Let_def split_beta sample_claimed_def)
qed

end
