(* ===== verification/Redaction.thy ===== *)
theory Redaction
  imports Tool_Guards
begin

text \<open>
  The redaction of steering audit rows, events and judge prompts (\<^verbatim>\<open>src/draftly/steering/redaction.py\<close>):
  secret-shaped keys lose their values and the JSON encoding is cut down to a budget. The value is a
  fresh copy, so the in-place updates are functional ones; paths are lists of keys and indices. \<open>fmt\<close>
  stands for the decimal rendering of a float. The regular expressions of \<open>scrub_secret_values\<close> are
  matchers: the length of the match at a position, greedy as the patterns are, none of which can gain
  by backtracking.
\<close>

section \<open>Secret keys\<close>

definition REDACTED :: string where "REDACTED = ''[REDACTED]''"
definition TRUNCATED :: string where "TRUNCATED = ''[TRUNCATED]''"

definition SECRET_MARKERS :: "string list" where
  "SECRET_MARKERS =
     [''token'', ''secret'', ''password'', ''passwd'', ''apikey'', ''authorization'', ''credential'',
      ''accesskey'', ''privatekey'', ''clientsecret'', ''signingsecret'']"

definition is_secret_key :: "string \<Rightarrow> bool" where
  "is_secret_key key =
     (let normalized = filter (\<lambda>c. c \<noteq> CHR ''-'' \<and> c \<noteq> CHR ''_'') (lower key)
      in list_ex (\<lambda>marker. str_contains marker normalized) SECRET_MARKERS)"

function redact_secrets :: "json \<Rightarrow> json" where
  "redact_secrets (JObj kvs) =
     JObj (map (\<lambda>kv. (fst kv, if is_secret_key (fst kv) then JStr REDACTED else redact_secrets (snd kv))) kvs)"
| "redact_secrets (JList vs) = JList (map redact_secrets vs)"
| "redact_secrets JNull = JNull"
| "redact_secrets (JBool b) = JBool b"
| "redact_secrets (JInt i) = JInt i"
| "redact_secrets (JFloat x) = JFloat x"
| "redact_secrets (JStr s) = JStr s"
  by pat_completeness auto

termination redact_secrets
  by (relation "measure size") (auto simp: less_Suc_eq_le size_list_estimation' intro: size_snd_less)

section \<open>Cutting to size\<close>

definition json_bytes :: "(real \<Rightarrow> string) \<Rightarrow> json \<Rightarrow> int" where
  "json_bytes fmt v = int (length (dumps_json False fmt v))"

datatype path_step = Key string | Idx nat

definition longer :: "('p \<times> nat) option \<Rightarrow> ('p \<times> nat) option \<Rightarrow> ('p \<times> nat) option" where
  "longer best sub =
     (case sub of
        None \<Rightarrow> best
      | Some (p, n) \<Rightarrow> (case best of None \<Rightarrow> sub | Some (q, m) \<Rightarrow> if n > m then sub else best))"

definition under :: "path_step \<Rightarrow> (path_step list \<times> nat) option \<Rightarrow> (path_step list \<times> nat) option" where
  "under st r = map_option (\<lambda>(p, n). (st # p, n)) r"

function longest_string_path :: "json \<Rightarrow> (path_step list \<times> nat) option" where
  "longest_string_path (JObj kvs) =
     foldl longer None (map (\<lambda>kv. under (Key (fst kv)) (longest_string_path (snd kv))) kvs)"
| "longest_string_path (JList vs) =
     foldl longer None (map2 (\<lambda>i r. under (Idx i) r) [0..<length vs] (map longest_string_path vs))"
| "longest_string_path (JStr s) = Some ([], length s)"
| "longest_string_path JNull = None"
| "longest_string_path (JBool b) = None"
| "longest_string_path (JInt i) = None"
| "longest_string_path (JFloat x) = None"
  by pat_completeness auto

termination longest_string_path
  by (relation "measure size") (auto simp: less_Suc_eq_le size_list_estimation' intro: size_snd_less)

abbreviation TypeError :: "string \<Rightarrow> exn" where "TypeError m \<equiv> Exn ''TypeError'' m"
abbreviation IndexError :: "string \<Rightarrow> exn" where "IndexError m \<equiv> Exn ''IndexError'' m"

text \<open>\<^verbatim>\<open>node[part]\<close> and \<^verbatim>\<open>node[part] = value\<close>.\<close>

fun item_at :: "json \<Rightarrow> path_step \<Rightarrow> json res" where
  "item_at (JObj kvs) (Key k) = (case map_of kvs k of None \<Rightarrow> Inl (KeyError k) | Some v \<Rightarrow> Inr v)"
| "item_at (JList vs) (Idx i) = (if i < length vs then Inr (vs ! i) else Inl (IndexError ''list index out of range''))"
| "item_at _ _ = Inl (TypeError ''not subscriptable'')"

fun put_item :: "json \<Rightarrow> path_step \<Rightarrow> json \<Rightarrow> json res" where
  "put_item (JObj kvs) (Key k) v =
     Inr (JObj (if k \<in> set (map fst kvs) then map (\<lambda>kv. if fst kv = k then (k, v) else kv) kvs else kvs @ [(k, v)]))"
| "put_item (JList vs) (Idx i) v =
     (if i < length vs then Inr (JList (vs[i := v])) else Inl (IndexError ''list assignment index out of range''))"
| "put_item _ _ v = Inl (TypeError ''object does not support item assignment'')"

fun get_nested :: "json \<Rightarrow> path_step list \<Rightarrow> json res" where
  "get_nested v [] = Inr v"
| "get_nested v (st # p) = (case item_at v st of Inl e \<Rightarrow> Inl e | Inr w \<Rightarrow> get_nested w p)"

text \<open>The container at all but the last step is updated in place, so the change shows in the whole value.\<close>

fun set_nested :: "json \<Rightarrow> path_step list \<Rightarrow> json \<Rightarrow> json res" where
  "set_nested v [] r = Inl (IndexError ''tuple index out of range'')"
| "set_nested v [st] r = put_item v st r"
| "set_nested v (st # st' # p) r =
     (case item_at v st of
        Inl e \<Rightarrow> Inl e
      | Inr w \<Rightarrow> (case set_nested w (st' # p) r of Inl e \<Rightarrow> Inl e | Inr w' \<Rightarrow> put_item v st w'))"

definition trim_longest :: "(real \<Rightarrow> string) \<Rightarrow> int \<Rightarrow> json \<Rightarrow> json res" where
  "trim_longest fmt budget v =
     (case longest_string_path v of
        None \<Rightarrow> Inr v
      | Some (path, _) \<Rightarrow>
          (case get_nested v path of
             Inl e \<Rightarrow> Inl e
           | Inr (JStr longest) \<Rightarrow>
               let overhead = json_bytes fmt v - int (length longest);
                   target = budget - overhead
               in if target \<ge> 1 then set_nested v path (JStr (take (nat target) longest)) else Inr v
           | Inr _ \<Rightarrow> Inl (Exn ''AttributeError'' ''encode'')))"

fun items :: "json \<Rightarrow> nat" where
  "items (JObj kvs) = length kvs"
| "items (JList vs) = length vs"
| "items _ = 0"

lemma map_of_Some_key: "map_of kvs k = Some w \<Longrightarrow> k \<in> fst ` set kvs"
  by (force dest: map_of_SomeD)

lemma put_item_items:
  "put_item v st r = Inr v' \<Longrightarrow> item_at v st = Inr w \<Longrightarrow> items v' = items v"
  by (induction v st rule: item_at.induct) (auto dest: map_of_Some_key split: option.splits if_splits)

lemma set_nested_items:
  "set_nested v p r = Inr v' \<Longrightarrow> get_nested v p = Inr w \<Longrightarrow> items v' = items v"
proof (induction v p r arbitrary: v' w rule: set_nested.induct)
  case (2 v st r)
  then show ?case by (cases "item_at v st") (auto dest: put_item_items)
next
  case (3 v st st' p r)
  then show ?case by (cases "item_at v st") (auto split: sum.splits dest: put_item_items)
qed simp

lemma trim_items:
  assumes "trim_longest fmt budget v = Inr v'"
  shows "items v' = items v"
proof (cases "longest_string_path v")
  case (Some pn)
  obtain p n where pn: "pn = (p, n)" by (cases pn)
  show ?thesis
  proof (cases "get_nested v p")
    case (Inr w)
    with assms Some pn show ?thesis
      by (cases w) (auto simp: trim_longest_def Let_def split: if_splits dest: set_nested_items)
  qed (use assms Some pn in \<open>simp add: trim_longest_def\<close>)
qed (use assms in \<open>simp add: trim_longest_def\<close>)

function shrink_value :: "(real \<Rightarrow> string) \<Rightarrow> int \<Rightarrow> json \<Rightarrow> json res" where
  "shrink_value fmt budget v =
     (if json_bytes fmt v \<le> budget then Inr v
      else case trim_longest fmt budget v of
             Inl e \<Rightarrow> Inl e
           | Inr v' \<Rightarrow>
               if json_bytes fmt v' \<le> budget then Inr v'
               else (case v' of
                       JObj (kv # kvs) \<Rightarrow> shrink_value fmt budget (JObj (butlast (kv # kvs)))
                     | JList (x # xs) \<Rightarrow> shrink_value fmt budget (JList (butlast (x # xs)))
                     | _ \<Rightarrow> Inr (JStr TRUNCATED)))"
  by pat_completeness auto

termination shrink_value
  by (relation "measure (\<lambda>(fmt, budget, v). items v)") (auto dest: trim_items)

declare shrink_value.simps [simp del]

definition redact_value :: "(real \<Rightarrow> string) \<Rightarrow> int \<Rightarrow> json \<Rightarrow> json res" where
  "redact_value fmt max_bytes v =
     (if max_bytes < 1 then Inl (ValueError ''max_bytes must be at least 1'')
      else shrink_value fmt max_bytes (redact_secrets v))"

section \<open>Secrets in free text\<close>

definition is_alnum :: "char \<Rightarrow> bool" where
  "is_alnum c \<longleftrightarrow> is_digit c \<or> (97 :: nat) \<le> of_char (to_lower c) \<and> of_char (to_lower c) \<le> (122 :: nat)"

definition is_word :: "char \<Rightarrow> bool" where
  "is_word c \<longleftrightarrow> is_alnum c \<or> c = CHR ''_''"

type_synonym matcher = "string \<Rightarrow> nat option"

text \<open>A literal prefix, ignoring case, then at least \<open>n\<close> characters of a class.\<close>

definition match_run :: "string \<Rightarrow> (char \<Rightarrow> bool) \<Rightarrow> nat \<Rightarrow> matcher" where
  "match_run prefix cls n s =
     (if lower (take (length prefix) s) = lower prefix then
        (let k = length (takeWhile cls (drop (length prefix) s)) in
         if n \<le> k then Some (length prefix + k) else None)
      else None)"

definition one_of :: "string \<Rightarrow> char \<Rightarrow> bool" where
  "one_of cs c \<longleftrightarrow> c \<in> set cs"

definition match_akia :: matcher where
  "match_akia s =
     (if lower (take 4 s) = ''akia'' \<and> 16 \<le> length (takeWhile is_alnum (drop 4 s)) then Some 20 else None)"

definition match_slack :: matcher where
  "match_slack s =
     (if take 3 s = ''xox'' \<and> (\<exists>c \<in> set (take 1 (drop 3 s)). one_of ''baprs'' c) \<and> take 1 (drop 4 s) = ''-'' then
        (let k = length (takeWhile (\<lambda>c. is_alnum c \<or> c = CHR ''-'') (drop 5 s)) in
         if 10 \<le> k then Some (5 + k) else None)
      else None)"

definition match_bearer :: matcher where
  "match_bearer s =
     (if lower (take 6 s) = ''bearer'' then
        (let sp = length (takeWhile is_space (drop 6 s));
             k = length (takeWhile (\<lambda>c. is_alnum c \<or> one_of ''._~+/=-'' c) (drop (6 + sp) s))
         in if 1 \<le> sp \<and> 16 \<le> k then Some (6 + sp + k) else None)
      else None)"

definition CREDENTIAL_VALUE_PATTERNS :: "matcher list" where
  "CREDENTIAL_VALUE_PATTERNS =
     [match_run ''sk-'' (\<lambda>c. is_alnum c \<or> one_of ''_-'' c) 16,
      match_run ''ghp_'' is_alnum 20,
      match_run ''github_pat_'' is_word 20,
      match_akia,
      match_run ''ya29.'' (\<lambda>c. is_alnum c \<or> one_of ''_-'' c) 1,
      match_slack,
      match_bearer]"

text \<open>\<^verbatim>\<open>pattern.sub("[REDACTED]", text)\<close>: leftmost matches, from left to right.\<close>

function sub_pattern :: "matcher \<Rightarrow> string \<Rightarrow> string" where
  "sub_pattern m [] = []"
| "sub_pattern m (c # s) =
     (case m (c # s) of
        Some (Suc k) \<Rightarrow> REDACTED @ sub_pattern m (drop k s)
      | _ \<Rightarrow> c # sub_pattern m s)"
  by pat_completeness auto

termination sub_pattern
  by (relation "measure (\<lambda>(m, s). length s)") auto

text \<open>The labels in the order of the alternation; a pair of words may be joined by nothing, an underscore or a hyphen.\<close>

definition LABELS :: "(string \<times> string) list" where
  "LABELS =
     [(''token'', []), (''secret'', []), (''password'', []), (''passwd'', []), (''api'', ''key''), (''access'', ''key''),
      (''private'', ''key''), (''client'', ''secret''), (''signing'', ''secret''), (''authorization'', []), (''credential'', [])]"

definition match_label :: "string \<times> string \<Rightarrow> matcher" where
  "match_label l s =
     (let n = length (fst l) in
      if lower (take n s) \<noteq> fst l then None
      else if snd l = [] then Some n
      else let j = length (take 1 (takeWhile (one_of ''_-'') (drop n s))); m = length (snd l) in
           if lower (take m (drop (n + j) s)) = snd l then Some (n + j + m) else None)"

definition boundary_after :: "nat \<Rightarrow> string \<Rightarrow> bool" where
  "boundary_after n s \<longleftrightarrow> (\<forall>c \<in> set (take 1 (drop n s)). \<not> is_word c)"

text \<open>After a label: white space, a separator, white space, and the length of the value.\<close>

definition match_assignment :: "string \<Rightarrow> (nat \<times> nat) option" where
  "match_assignment s =
     (let a = length (takeWhile is_space s); rest = drop a s in
      if (\<exists>c \<in> set (take 1 rest). one_of ''=:'' c) then
        (let b = length (takeWhile is_space (drop 1 rest));
             v = length (takeWhile (\<lambda>c. \<not> is_space c \<and> \<not> one_of '',;'' c) (drop (1 + b) rest))
         in if 1 \<le> v then Some (a + 1 + b, v) else None)
      else None)"

text \<open>The part of the match that is kept and the length of the value that is replaced.\<close>

definition match_labeled :: "string \<Rightarrow> (nat \<times> nat) option" where
  "match_labeled s =
     (case List.map_filter (\<lambda>l. case match_label l s of
             Some n \<Rightarrow> if boundary_after n s then map_option (\<lambda>(g, v). (n + g, v)) (match_assignment (drop n s)) else None
           | None \<Rightarrow> None) LABELS of
        [] \<Rightarrow> None
      | r # _ \<Rightarrow> Some r)"

function sub_labeled :: "bool \<Rightarrow> string \<Rightarrow> string" where
  "sub_labeled boundary [] = []"
| "sub_labeled boundary (c # s) =
     (case (if boundary then match_labeled (c # s) else None) of
        Some (n, Suc v) \<Rightarrow>
          take n (c # s) @ REDACTED @ sub_labeled (\<not> is_word (last (take (n + Suc v) (c # s)))) (drop (n + v) s)
      | _ \<Rightarrow> c # sub_labeled (\<not> is_word c) s)"
  by pat_completeness auto

termination sub_labeled
  by (relation "measure (\<lambda>(b, s). length s)") auto

definition scrub_secret_values :: "string \<Rightarrow> string" where
  "scrub_secret_values s = foldl (\<lambda>t m. sub_pattern m t) (sub_labeled True s) CREDENTIAL_VALUE_PATTERNS"

section \<open>What redaction guarantees\<close>

text \<open>Dictionaries have one entry per key.\<close>

function dict_ok :: "json \<Rightarrow> bool" where
  "dict_ok (JObj kvs) = (distinct (map fst kvs) \<and> list_all (\<lambda>kv. dict_ok (snd kv)) kvs)"
| "dict_ok (JList vs) = list_all dict_ok vs"
| "dict_ok JNull = True"
| "dict_ok (JBool b) = True"
| "dict_ok (JInt i) = True"
| "dict_ok (JFloat x) = True"
| "dict_ok (JStr s) = True"
  by pat_completeness auto

termination dict_ok
  by (relation "measure size") (auto simp: less_Suc_eq_le size_list_estimation' intro: size_snd_less)

text \<open>Below a secret-shaped key only the marker, or what truncation left of it, remains.\<close>

definition marker_cut :: "json \<Rightarrow> bool" where
  "marker_cut v \<longleftrightarrow> (case v of JStr s \<Rightarrow> starts_with s REDACTED | _ \<Rightarrow> False)"

function secrets_hidden :: "json \<Rightarrow> bool" where
  "secrets_hidden (JObj kvs) =
     list_all (\<lambda>kv. if is_secret_key (fst kv)
                    then marker_cut (snd kv) else secrets_hidden (snd kv)) kvs"
| "secrets_hidden (JList vs) = list_all secrets_hidden vs"
| "secrets_hidden JNull = True"
| "secrets_hidden (JBool b) = True"
| "secrets_hidden (JInt i) = True"
| "secrets_hidden (JFloat x) = True"
| "secrets_hidden (JStr s) = True"
  by pat_completeness auto

termination secrets_hidden
  by (relation "measure size") (auto simp: less_Suc_eq_le size_list_estimation' intro: size_snd_less)

definition entry_hidden :: "string \<times> json \<Rightarrow> bool" where
  "entry_hidden kv \<longleftrightarrow> (if is_secret_key (fst kv) then marker_cut (snd kv) else secrets_hidden (snd kv))"

lemma secrets_hidden_JObj: "secrets_hidden (JObj kvs) \<longleftrightarrow> (\<forall>kv \<in> set kvs. entry_hidden kv)"
  by (simp add: list_all_iff entry_hidden_def)

lemma secrets_hidden_JList: "secrets_hidden (JList vs) \<longleftrightarrow> (\<forall>v \<in> set vs. secrets_hidden v)"
  by (simp add: list_all_iff)

lemma redact_secrets_dict_ok: "dict_ok v \<Longrightarrow> dict_ok (redact_secrets v)"
  by (induction v rule: dict_ok.induct) (auto simp: list_all_iff comp_def)

lemma redact_secrets_hidden: "secrets_hidden (redact_secrets v)"
  by (induction v rule: redact_secrets.induct) (auto simp: list_all_iff marker_cut_def starts_with_iff)

lemma foldl_longer: "foldl longer b rs = Some x \<Longrightarrow> b = Some x \<or> Some x \<in> set rs"
proof (induction rs arbitrary: b)
  case (Cons r rs)
  then have "longer b r = Some x \<or> Some x \<in> set rs" by simp
  then show ?case by (auto simp: longer_def split: option.splits if_splits prod.splits)
qed simp

lemma under_Some: "Some (p, n) = under st r \<longleftrightarrow> (\<exists>q. r = Some (q, n) \<and> p = st # q)"
  by (cases r) (auto simp: under_def)

lemma longest_in_dict:
  assumes "longest_string_path (JObj kvs) = Some (p, n)"
  shows "\<exists>k w q. (k, w) \<in> set kvs \<and> longest_string_path w = Some (q, n) \<and> p = Key k # q"
proof -
  have "Some (p, n) \<in> set (map (\<lambda>kv. under (Key (fst kv)) (longest_string_path (snd kv))) kvs)"
    using foldl_longer [of None _ "(p, n)"] assms by fastforce
  then show ?thesis by (force simp: under_Some)
qed

lemma longest_in_list:
  assumes "longest_string_path (JList vs) = Some (p, n)"
  shows "\<exists>i q. i < length vs \<and> longest_string_path (vs ! i) = Some (q, n) \<and> p = Idx i # q"
proof -
  have "Some (p, n) \<in> set (map2 (\<lambda>i r. under (Idx i) r) [0..<length vs] (map longest_string_path vs))"
    using foldl_longer [of None _ "(p, n)"] assms by fastforce
  then show ?thesis by (auto simp: under_Some set_zip)
qed

lemma longest_path_found:
  "dict_ok v \<Longrightarrow> longest_string_path v = Some (p, n) \<Longrightarrow> \<exists>s. get_nested v p = Inr (JStr s)"
proof (induction v arbitrary: p n rule: dict_ok.induct)
  case (1 kvs)
  from longest_in_dict [OF "1.prems"(2)] obtain k w q where
    kv: "(k, w) \<in> set kvs" "longest_string_path w = Some (q, n)" "p = Key k # q" by blast
  with "1.prems"(1) have "map_of kvs k = Some w" "dict_ok w" by (auto simp: list_all_iff)
  with "1.IH" [of "(k, w)" q n] kv show ?case by auto
next
  case (2 vs)
  from longest_in_list [OF "2.prems"(2)] obtain i q where
    kv: "i < length vs" "longest_string_path (vs ! i) = Some (q, n)" "p = Idx i # q" by blast
  with "2.prems"(1) have "dict_ok (vs ! i)" by (auto simp: list_all_iff)
  with "2.IH" [of "vs ! i" q n] kv show ?case by auto
qed auto

lemma longest_path_nonempty: "longest_string_path v = Some ([], n) \<Longrightarrow> \<exists>s. v = JStr s"
  by (cases v) (auto dest: longest_in_dict longest_in_list simp del: longest_string_path.simps(1,2))

text \<open>Writing back a string keeps dictionaries well formed, and a cut of the string that was there keeps secrets hidden.\<close>

lemma put_item_dict_ok:
  "dict_ok v \<Longrightarrow> dict_ok r \<Longrightarrow> item_at v st = Inr w \<Longrightarrow> \<exists>v'. put_item v st r = Inr v' \<and> dict_ok v'"
proof (induction v st rule: item_at.induct)
  case (1 kvs k)
  let ?kvs = "map (\<lambda>kv. if fst kv = k then (k, r) else kv) kvs"
  have "map fst ?kvs = map fst kvs" by auto
  with "1.prems"(1) have "distinct (map fst ?kvs)" by (simp only: dict_ok.simps)
  moreover have "list_all (\<lambda>kv. dict_ok (snd kv)) ?kvs"
    using "1.prems"(1,2) by (auto simp: list_all_iff)
  moreover have "k \<in> set (map fst kvs)"
    using "1.prems"(3) by (auto dest: map_of_Some_key split: option.splits)
  ultimately have "put_item (JObj kvs) (Key k) r = Inr (JObj ?kvs) \<and> dict_ok (JObj ?kvs)"
    by (simp only: put_item.simps dict_ok.simps if_True simp_thms)
  then show ?case by (intro exI)
next
  case (2 vs i)
  then show ?case
    using set_update_subset_insert [of vs i r] by (auto simp: list_all_iff split: if_splits)
qed simp_all

lemma item_dict_ok: "dict_ok v \<Longrightarrow> item_at v st = Inr w \<Longrightarrow> dict_ok w"
  by (induction v st rule: item_at.induct) (auto simp: list_all_iff dest: map_of_SomeD split: option.splits if_splits)

lemma set_nested_dict_ok:
  "dict_ok v \<Longrightarrow> dict_ok r \<Longrightarrow> get_nested v p = Inr w \<Longrightarrow> p \<noteq> [] \<Longrightarrow> \<exists>v'. set_nested v p r = Inr v' \<and> dict_ok v'"
proof (induction v p r rule: set_nested.induct)
  case (2 v st r)
  then show ?case by (cases "item_at v st") (auto intro: put_item_dict_ok)
next
  case (3 v st st' p r)
  from "3.prems"(3) obtain x where x: "item_at v st = Inr x" "get_nested x (st' # p) = Inr w"
    by (cases "item_at v st") auto
  with "3.IH" [OF x(1) item_dict_ok [OF "3.prems"(1) x(1)] "3.prems"(2)] obtain x' where
    x': "set_nested x (st' # p) r = Inr x'" "dict_ok x'" by auto
  from put_item_dict_ok [OF "3.prems"(1) x'(2) x(1)] x x' show ?case by simp
qed simp

lemma put_item_hidden:
  assumes "secrets_hidden v" "item_at v st = Inr w" "put_item v st r = Inr v'"
    and "secrets_hidden w \<Longrightarrow> secrets_hidden r" and "marker_cut w \<Longrightarrow> marker_cut r"
  shows "secrets_hidden v'"
  using assms
proof (induction v st rule: item_at.induct)
  case (1 kvs k)
  from "1.prems"(2) have w: "(k, w) \<in> set kvs" by (auto dest: map_of_SomeD split: option.splits)
  then have k: "k \<in> set (map fst kvs)" by force
  have "entry_hidden (k, w)" using "1.prems"(1) w by (simp add: secrets_hidden_JObj del: secrets_hidden.simps)
  then have r: "entry_hidden (k, r)"
    using "1.prems"(4,5) by (auto simp: entry_hidden_def split: if_splits)
  have "v' = JObj (map (\<lambda>kv. if fst kv = k then (k, r) else kv) kvs)" using "1.prems"(3) k by simp
  then show ?case
    using "1.prems"(1) r by (auto simp: secrets_hidden_JObj simp del: secrets_hidden.simps)
next
  case (2 vs i)
  then have "i < length vs" "v' = JList (vs[i := r])" "secrets_hidden w \<longrightarrow> secrets_hidden r" "w = vs ! i"
    by (auto split: if_splits)
  with "2.prems"(1) set_update_subset_insert [of vs i r] show ?case
    by (auto simp: secrets_hidden_JList simp del: secrets_hidden.simps)
qed simp_all

lemma set_nested_hidden:
  "secrets_hidden v \<Longrightarrow> get_nested v p = Inr (JStr s) \<Longrightarrow> set_nested v p (JStr (take n s)) = Inr v' \<Longrightarrow>
   secrets_hidden v'"
proof (induction p arbitrary: v v')
  case (Cons st p)
  from Cons.prems(2) obtain w where w: "item_at v st = Inr w" "get_nested w p = Inr (JStr s)"
    by (cases "item_at v st") auto
  show ?case
  proof (cases p)
    case Nil
    have "marker_cut (JStr s) \<Longrightarrow> marker_cut (JStr (take n s))"
      by (auto simp: marker_cut_def starts_with_iff) (metis append.assoc append_take_drop_id)
    with Nil Cons.prems w show ?thesis by (auto elim: put_item_hidden)
  next
    case (Cons st' p')
    with Cons.prems(3) w(1) obtain w' where
      w': "set_nested w p (JStr (take n s)) = Inr w'" "put_item v st w' = Inr v'"
      by (auto split: sum.splits)
    have "\<not> marker_cut w" using w(2) Cons by (cases w) (auto simp: marker_cut_def)
    then show ?thesis
      using put_item_hidden [OF Cons.prems(1) w(1) w'(2)] Cons.IH [OF _ w(2) w'(1)] by blast
  qed
qed simp

lemma trim_longest_inv:
  assumes "dict_ok v" and "secrets_hidden v" and "\<And>s. v \<noteq> JStr s"
  shows "\<exists>v'. trim_longest fmt budget v = Inr v' \<and> dict_ok v' \<and> secrets_hidden v'"
proof (cases "longest_string_path v")
  case (Some pn)
  obtain p n where pn: "pn = (p, n)" by (cases pn)
  obtain s where s: "get_nested v p = Inr (JStr s)"
    using longest_path_found [OF assms(1)] Some pn by blast
  have "p \<noteq> []" using longest_path_nonempty Some pn assms(3) by blast
  from set_nested_dict_ok [OF assms(1) dict_ok.simps(7) [THEN iffD2, OF TrueI] s this]
  have "\<exists>v'. set_nested v p (JStr (take m s)) = Inr v' \<and> dict_ok v' \<and> secrets_hidden v'" for m
    using set_nested_hidden [OF assms(2) s] by blast
  with Some pn s assms show ?thesis by (auto simp: trim_longest_def Let_def)
qed (use assms in \<open>simp add: trim_longest_def\<close>)

lemma butlast_inv:
  "dict_ok (JObj kvs) \<and> secrets_hidden (JObj kvs) \<Longrightarrow> dict_ok (JObj (butlast kvs)) \<and> secrets_hidden (JObj (butlast kvs))"
  "dict_ok (JList vs) \<and> secrets_hidden (JList vs) \<Longrightarrow> dict_ok (JList (butlast vs)) \<and> secrets_hidden (JList (butlast vs))"
  by (auto simp: secrets_hidden_JObj secrets_hidden_JList list_all_iff map_butlast distinct_butlast
      simp del: secrets_hidden.simps dest: in_set_butlastD)

lemma shrink_value_inv:
  "dict_ok v \<Longrightarrow> secrets_hidden v \<Longrightarrow> (\<And>s. v \<noteq> JStr s) \<Longrightarrow>
   \<exists>v'. shrink_value fmt budget v = Inr v' \<and> (json_bytes fmt v' \<le> budget \<or> v' = JStr TRUNCATED) \<and> secrets_hidden v'"
proof (induction fmt budget v rule: shrink_value.induct)
  case (1 fmt budget v)
  show ?case
  proof (cases "json_bytes fmt v \<le> budget")
    case True
    with "1.prems"(2) show ?thesis by (simp add: shrink_value.simps [of fmt budget v])
  next
    case over: False
    obtain v' where v': "trim_longest fmt budget v = Inr v'" "dict_ok v'" "secrets_hidden v'"
      using trim_longest_inv [OF "1.prems"] by blast
    note eq = shrink_value.simps [of fmt budget v, unfolded v'(1)]
    note IH = "1.IH" [OF over v'(1)]
    show ?thesis
    proof (cases "json_bytes fmt v' \<le> budget")
      case True
      with over v'(3) show ?thesis by (simp add: eq)
    next
      case still: False
      consider (obj) kv kvs where "v' = JObj (kv # kvs)" | (list) x xs where "v' = JList (x # xs)"
        | (other) "\<And>kv kvs. v' \<noteq> JObj (kv # kvs)" "\<And>x xs. v' \<noteq> JList (x # xs)" by blast
      then show ?thesis
      proof cases
        case obj
        have "dict_ok (JObj (butlast (kv # kvs))) \<and> secrets_hidden (JObj (butlast (kv # kvs)))"
          using butlast_inv(1) v'(2,3) unfolding obj by blast
        with IH(2) [OF still obj refl] show ?thesis
          using over still by (simp add: eq obj del: butlast.simps dict_ok.simps secrets_hidden.simps)
      next
        case list
        have "dict_ok (JList (butlast (x # xs))) \<and> secrets_hidden (JList (butlast (x # xs)))"
          using butlast_inv(2) v'(2,3) unfolding list by blast
        with IH(1) [OF still list refl] show ?thesis
          using over still by (simp add: eq list del: butlast.simps dict_ok.simps secrets_hidden.simps)
      next
        case other
        then have "shrink_value fmt budget v = Inr (JStr TRUNCATED)"
          using over still by (auto simp: eq split: json.splits list.splits)
        then show ?thesis by simp
      qed
    qed
  qed
qed

lemma json_bytes_TRUNCATED: "json_bytes fmt (JStr TRUNCATED) = 13"
  by (simp add: json_bytes_def dumps_str_def TRUNCATED_def escape_json_def)

text \<open>
  Redaction of a dictionary, a list or a scalar returns for every budget that can hold the truncation
  marker: the result's JSON encoding fits the budget, and below a secret-shaped key, at any depth,
  nothing is left but the marker or a cut of it.
\<close>

theorem redact_value_bounded:
  assumes "dict_ok v" and "\<forall>s. v \<noteq> JStr s" and "13 \<le> max_bytes"
  shows "\<exists>v'. redact_value fmt max_bytes v = Inr v' \<and> json_bytes fmt v' \<le> max_bytes \<and> secrets_hidden v'"
proof -
  have "redact_secrets v \<noteq> JStr s" for s using assms(2) by (cases v) auto
  then obtain v' where "shrink_value fmt max_bytes (redact_secrets v) = Inr v'"
    "json_bytes fmt v' \<le> max_bytes \<or> v' = JStr TRUNCATED" "secrets_hidden v'"
    using shrink_value_inv [OF redact_secrets_dict_ok [OF assms(1)] redact_secrets_hidden] by blast
  then show ?thesis using assms(3) by (auto simp: redact_value_def json_bytes_TRUNCATED)
qed

definition leaky :: json where
  "leaky = JObj [(''Api-Key'', JStr ''sk-1''), (''note'', JStr ''a long explanation of what happened''), (''n'', JInt 3)]"

theorem redact_value_bounded_witness:
  "\<exists>v'. redact_value (\<lambda>_. ''1.0'') 48 leaky = Inr v' \<and> json_bytes (\<lambda>_. ''1.0'') v' \<le> 48 \<and> secrets_hidden v'"
  by (rule redact_value_bounded) (simp_all add: leaky_def)

lemma escaped_length: "length s \<le> length (concat (map escape_json s))"
proof (induction s)
  case (Cons c s)
  have "1 \<le> length (escape_json c)" by (simp add: escape_json_def Let_def)
  with Cons show ?case by simp
qed simp

text \<open>
  A bare string above the budget is not shortened: the path of its longest string is empty and the
  assignment at that path raises.
\<close>

theorem redact_string_raises:
  assumes "max_bytes < json_bytes fmt (JStr s)" and "json_bytes fmt (JStr s) - int (length s) < max_bytes"
  shows "redact_value fmt max_bytes (JStr s) = Inl (IndexError ''tuple index out of range'')"
proof -
  have "0 < max_bytes"
    using assms(2) escaped_length [of s] by (simp add: json_bytes_def dumps_str_def)
  with assms show ?thesis
    by (simp add: redact_value_def shrink_value.simps [of _ _ "JStr s"] trim_longest_def Let_def)
qed

theorem redact_string_raises_witness:
  "redact_value (\<lambda>_. ''1.0'') 4 (JStr ''abcde'') = Inl (IndexError ''tuple index out of range'')"
  by (rule redact_string_raises) (simp_all add: json_bytes_def dumps_str_def escape_json_def)

end
