(* ===== verification/Steering_Policy.thy ===== *)
theory Steering_Policy
  imports Steering_Store Writer_Reads Redaction
begin

text \<open>
  The role policies of \<^verbatim>\<open>src/draftly/steering\<close>: the decisions of \<^verbatim>\<open>decisions.py\<close>, the runtime of
  \<^verbatim>\<open>context.py\<close> and the deterministic checks, judge refinement and budget reservation of \<^verbatim>\<open>policy.py\<close>
  with its role matrix. Sets of tool names are lists; the published draft scope is an argument, as in
  \<^verbatim>\<open>Writer_Reads\<close>. The durable sinks are one world: guide counters, audit rows and the intervention inbox;
  an environment says which database call raises. Windows path parsing is that of Python's \<^verbatim>\<open>pathlib\<close>.
\<close>

section \<open>Decisions\<close>

datatype agent_role = DELIVERY | RESEARCH | WRITER | REVIEWER | CLASSIFIER | RECOMMENDER | JUDGE | SUPPORT

fun role_value :: "agent_role \<Rightarrow> string" where
  "role_value DELIVERY = ''delivery''"
| "role_value RESEARCH = ''research''"
| "role_value WRITER = ''writer''"
| "role_value REVIEWER = ''reviewer''"
| "role_value CLASSIFIER = ''classifier''"
| "role_value RECOMMENDER = ''recommender''"
| "role_value JUDGE = ''judge''"
| "role_value SUPPORT = ''support''"

datatype steering_phase = BEFORE_TOOL | AFTER_MODEL

fun phase_value :: "steering_phase \<Rightarrow> string" where
  "phase_value BEFORE_TOOL = ''before_tool''"
| "phase_value AFTER_MODEL = ''after_model''"

datatype decision_kind = PROCEED | GUIDE | INTERRUPT

fun kind_value :: "decision_kind \<Rightarrow> string" where
  "kind_value PROCEED = ''proceed''"
| "kind_value GUIDE = ''guide''"
| "kind_value INTERRUPT = ''interrupt''"

record steering_decision =
  sd_kind :: decision_kind
  sd_phase :: steering_phase
  sd_reason :: string
  sd_role :: "agent_role option"
  sd_rule :: string
  sd_interrupt_id :: "string option"

definition clip_reason :: "string \<Rightarrow> string" where
  "clip_reason r = take 1000 r"

definition decision ::
  "decision_kind \<Rightarrow> steering_phase \<Rightarrow> string \<Rightarrow> agent_role option \<Rightarrow> string \<Rightarrow> steering_decision" where
  "decision kind phase why role rule =
     \<lparr>sd_kind = kind, sd_phase = phase, sd_reason = clip_reason why, sd_role = role, sd_rule = rule,
      sd_interrupt_id = None\<rparr>"

definition interrupt_decision ::
  "steering_phase \<Rightarrow> string \<Rightarrow> agent_role option \<Rightarrow> string \<Rightarrow> steering_decision res" where
  "interrupt_decision phase why role rule =
     (if phase = AFTER_MODEL then Inl (ValueError ''model steering cannot interrupt'')
      else Inr (decision INTERRUPT phase why role rule))"

datatype strands_action = SProceed string | SGuide string | SInterrupt string

definition to_strands_action :: "steering_decision \<Rightarrow> strands_action" where
  "to_strands_action d =
     (case sd_kind d of
        GUIDE \<Rightarrow> SGuide (sd_reason d)
      | INTERRUPT \<Rightarrow> SInterrupt (sd_reason d)
      | PROCEED \<Rightarrow> SProceed (sd_reason d))"

section \<open>Runtime\<close>

record runtime_config =
  cf_enabled :: bool
  cf_enforcement_enabled :: bool
  cf_policy_version :: string
  cf_tool_guides_per_call :: int
  cf_model_guides_per_turn :: int
  cf_total_guides_per_agent :: int
  cf_reason_max_chars :: int

record runtime_scope =
  rs_run_id :: string
  rs_surface :: string
  rs_org_id :: string
  rs_project_id :: string
  rs_workflow_key :: "string option"
  rs_repo_checkout_root :: "string option"

record agent_identity =
  id_run_id :: string
  id_agent_id :: string
  id_node_id :: string
  id_role :: agent_role

text \<open>The sinks: budgets with their limits, and whether an audit and an inbox are installed.\<close>

record steering_runtime =
  rt_scope :: runtime_scope
  rt_config :: runtime_config
  rt_identity :: "agent_identity option"
  rt_attempts :: "steering_limits option"
  rt_audit :: bool
  rt_interventions :: bool

definition for_agent :: "string option \<Rightarrow> string \<Rightarrow> string \<Rightarrow> agent_role \<Rightarrow> steering_runtime \<Rightarrow> steering_runtime" where
  "for_agent run_id agent_id node_id role rt =
     rt\<lparr>rt_identity := Some \<lparr>id_run_id = (if text_or_empty run_id = [] then rs_run_id (rt_scope rt) else text_or_empty run_id),
                            id_agent_id = agent_id, id_node_id = node_id, id_role = role\<rparr>\<rparr>"

definition rt_run_id :: "steering_runtime \<Rightarrow> string" where
  "rt_run_id rt = (case rt_identity rt of None \<Rightarrow> rs_run_id (rt_scope rt) | Some i \<Rightarrow> id_run_id i)"

definition rt_agent_id :: "steering_runtime \<Rightarrow> string" where
  "rt_agent_id rt = (case rt_identity rt of None \<Rightarrow> [] | Some i \<Rightarrow> id_agent_id i)"

definition rt_node_id :: "steering_runtime \<Rightarrow> string" where
  "rt_node_id rt = (case rt_identity rt of None \<Rightarrow> [] | Some i \<Rightarrow> id_node_id i)"

definition rt_role :: "steering_runtime \<Rightarrow> agent_role option" where
  "rt_role rt = map_option id_role (rt_identity rt)"

section \<open>Path helpers\<close>

definition backslash :: char where "backslash = CHR 0x5C"

text \<open>\<^verbatim>\<open>s.find(sep, start)\<close> of a single character.\<close>

definition find_from :: "char \<Rightarrow> nat \<Rightarrow> string \<Rightarrow> nat option" where
  "find_from c i s =
     (case dropWhile (\<lambda>j. s ! j \<noteq> c) [i..<length s] of [] \<Rightarrow> None | j # _ \<Rightarrow> Some j)"

text \<open>\<^verbatim>\<open>ntpath.splitroot\<close>, after forward slashes became backslashes: drive, root and rest.\<close>

definition win_splitroot :: "string \<Rightarrow> string \<times> string \<times> string" where
  "win_splitroot p =
     (if take 1 p = [backslash] then
        (if take 1 (drop 1 p) = [backslash] then
           (let start = (if lower (take 8 p) = [backslash, backslash, CHR ''?'', backslash] @ ''unc'' @ [backslash] then 8 else 2) in
            case find_from backslash start p of
              None \<Rightarrow> (p, [], [])
            | Some i \<Rightarrow>
                (case find_from backslash (i + 1) p of
                   None \<Rightarrow> (p, [], [])
                 | Some j \<Rightarrow> (take j p, take 1 (drop j p), drop (j + 1) p)))
         else ([], take 1 p, drop 1 p))
      else if take 1 (drop 1 p) = '':'' then
        (if take 1 (drop 2 p) = [backslash] then (take 2 p, take 1 (drop 2 p), drop 3 p) else (take 2 p, [], drop 2 p))
      else ([], [], p))"

text \<open>\<^verbatim>\<open>PureWindowsPath(path).parts\<close>: the anchor, then the segments that are neither empty nor a dot.\<close>

definition win_parts :: "string \<Rightarrow> string list" where
  "win_parts path =
     (let p = map (\<lambda>c. if c = slash then backslash else c) path;
          (drv, root0, rel) = win_splitroot p;
          drv_parts = split_on backslash drv;
          root = (if root0 = [] \<and> take 1 drv = [backslash] \<and> last drv \<noteq> backslash
                     \<and> (length drv_parts = 4 \<and> drv_parts ! 2 \<notin> {[], ''?'', ''.'', ''?.''} \<or> length drv_parts = 6)
                  then [backslash] else root0);
          anchor = drv @ root
      in (if anchor = [] then [] else [anchor]) @ filter (\<lambda>x. x \<noteq> [] \<and> x \<noteq> ''.'') (split_on backslash rel))"

definition normalize_path :: "string \<Rightarrow> string" where
  "normalize_path path = (let parts = win_parts path in if parts = [] then ''.'' else join_with [slash] parts)"

definition rstrip_sep :: "string \<Rightarrow> string" where
  "rstrip_sep s = rev (dropWhile (\<lambda>c. c = slash) (rev s))"

definition path_within :: "string \<Rightarrow> string \<Rightarrow> bool" where
  "path_within base candidate =
     (let norm = (\<lambda>p. let n = rstrip_sep (normalize_path p) in rstrip_sep (if n = [] then [slash] else n));
          root_n = norm base; cand = norm candidate
      in if cand = [] then False else if cand = root_n then True else starts_with (root_n @ [slash]) cand)"

definition has_evidence :: "jobj \<Rightarrow> string \<Rightarrow> bool" where
  "has_evidence use key = (case jget use key of JNull \<Rightarrow> False | JStr s \<Rightarrow> strip s \<noteq> [] | v \<Rightarrow> py_truth v)"

definition looks_like_repo :: "string \<Rightarrow> bool" where
  "looks_like_repo v \<longleftrightarrow> slash \<in> set v \<and> \<not> starts_with ''#'' v"

definition ends_with :: "string \<Rightarrow> string \<Rightarrow> bool" where
  "ends_with suf s = starts_with (rev suf) (rev s)"

section \<open>Role policies\<close>

datatype failure_mode = Fail_Interrupt | Fail_Proceed

record role_policy =
  rp_role :: agent_role
  rp_side_effecting :: bool
  rp_failure_mode :: failure_mode
  rp_side_effect_tools :: "string list"
  rp_read_tools :: "string list"
  rp_search_tools :: "string list"
  rp_write_tools :: "string list"
  rp_deliver_tools :: "string list"
  rp_read_only_tools :: "string list"
  rp_required_evidence :: "(string \<times> string) list"
  rp_required_text_args :: "(string \<times> string list) list"
  rp_judge_enabled :: bool

definition is_side_effect_tool :: "role_policy \<Rightarrow> string \<Rightarrow> bool" where
  "is_side_effect_tool p tool \<longleftrightarrow> tool \<in> set (rp_side_effect_tools p) \<or> tool \<in> set (rp_deliver_tools p)"

definition is_read_only_tool :: "role_policy \<Rightarrow> string \<Rightarrow> bool" where
  "is_read_only_tool p tool \<longleftrightarrow>
     (if is_side_effect_tool p tool then False
      else if tool \<in> set (rp_read_only_tools p) then True
      else tool \<in> set (rp_read_tools p) \<or> tool \<in> set (rp_search_tools p))"

definition DELIVERY_TOOLS :: "string list" where
  "DELIVERY_TOOLS = [''create_comment'', ''create_pull_request'', ''create_branch'', ''create_commit'']"
definition MESSAGING_TOOLS :: "string list" where
  "MESSAGING_TOOLS = [''slack_post_message'', ''discord_post_message'']"
definition REPO_READ_TOOLS :: "string list" where
  "REPO_READ_TOOLS = [''read_file'', ''list_directory'', ''file_exists'', ''code_search'', ''git_diff'', ''git_log'', ''git_status'']"
definition REPO_WRITE_TOOLS :: "string list" where
  "REPO_WRITE_TOOLS = [''write_file'', ''update_frontmatter'']"
definition GITHUB_READ_ONLY_TOOLS :: "string list" where
  "GITHUB_READ_ONLY_TOOLS =
     [''github_read_file'', ''github_get_file'', ''github_get_tree'', ''github_list_tree'', ''github_search_code'']"
definition OUTBOUND_READ_TOOLS :: "string list" where
  "OUTBOUND_READ_TOOLS =
     [''get_diff'', ''get_files'', ''get_issue'', ''get_pull_request'', ''slack_search_messages'', ''slack_get_thread'',
      ''discord_search_messages'', ''discord_get_thread'']"
definition SEARCH_TOOLS :: "string list" where
  "SEARCH_TOOLS = [''semantic_search'', ''keyword_search'', ''hybrid_search'', ''memory_search'', ''get_memory'', ''affected_docs'']"
definition DOC_TOOLS :: "string list" where
  "DOC_TOOLS =
     [''extract_frontmatter'', ''extract_links'', ''markdown_to_text'', ''split_sections'', ''validate_links'',
      ''analyze_structure'', ''generate_toc'', ''find_section'']"

definition WRITER_EVIDENCE :: "(string \<times> string) list" where
  "WRITER_EVIDENCE =
     [(''write_file'', ''evidence''), (''update_frontmatter'', ''evidence''), (''record_doc_relation'', ''evidence''),
      (''record_procedure'', ''evidence'')]"

definition DELIVERY_TEXT_ARGS :: "(string \<times> string list) list" where
  "DELIVERY_TEXT_ARGS =
     [(''create_comment'', [''body'']), (''create_pull_request'', [''title'', ''body'']), (''create_commit'', [''message'']),
      (''create_branch'', [''branch'']), (''slack_post_message'', [''message'']), (''discord_post_message'', [''message''])]"

text \<open>A read-only policy with no judge, which the matrix varies.\<close>

definition read_only_policy :: "agent_role \<Rightarrow> string list \<Rightarrow> string list \<Rightarrow> role_policy" where
  "read_only_policy role reads searches =
     \<lparr>rp_role = role, rp_side_effecting = False, rp_failure_mode = Fail_Proceed, rp_side_effect_tools = [],
      rp_read_tools = reads, rp_search_tools = searches, rp_write_tools = [], rp_deliver_tools = [],
      rp_read_only_tools = [], rp_required_evidence = [], rp_required_text_args = [], rp_judge_enabled = False\<rparr>"

fun policy_for :: "agent_role \<Rightarrow> role_policy" where
  "policy_for DELIVERY =
     \<lparr>rp_role = DELIVERY, rp_side_effecting = True, rp_failure_mode = Fail_Interrupt,
      rp_side_effect_tools = DELIVERY_TOOLS @ MESSAGING_TOOLS,
      rp_read_tools = REPO_READ_TOOLS @ OUTBOUND_READ_TOOLS, rp_search_tools = SEARCH_TOOLS @ DOC_TOOLS,
      rp_write_tools = REPO_WRITE_TOOLS, rp_deliver_tools = DELIVERY_TOOLS @ MESSAGING_TOOLS,
      rp_read_only_tools = [], rp_required_evidence = WRITER_EVIDENCE, rp_required_text_args = DELIVERY_TEXT_ARGS,
      rp_judge_enabled = False\<rparr>"
| "policy_for SUPPORT =
     \<lparr>rp_role = SUPPORT, rp_side_effecting = True, rp_failure_mode = Fail_Interrupt,
      rp_side_effect_tools = MESSAGING_TOOLS,
      rp_read_tools = OUTBOUND_READ_TOOLS @ REPO_READ_TOOLS, rp_search_tools = SEARCH_TOOLS,
      rp_write_tools = [], rp_deliver_tools = MESSAGING_TOOLS, rp_read_only_tools = [],
      rp_required_evidence = [(''slack_post_message'', ''evidence''), (''discord_post_message'', ''evidence'')],
      rp_required_text_args = DELIVERY_TEXT_ARGS, rp_judge_enabled = False\<rparr>"
| "policy_for WRITER =
     (read_only_policy WRITER (REPO_READ_TOOLS @ OUTBOUND_READ_TOOLS) (SEARCH_TOOLS @ DOC_TOOLS))
       \<lparr>rp_write_tools := REPO_WRITE_TOOLS @ map fst WRITER_EVIDENCE, rp_read_only_tools := GITHUB_READ_ONLY_TOOLS,
        rp_required_evidence := WRITER_EVIDENCE, rp_judge_enabled := True\<rparr>"
| "policy_for REVIEWER = read_only_policy REVIEWER (REPO_READ_TOOLS @ OUTBOUND_READ_TOOLS) (SEARCH_TOOLS @ DOC_TOOLS)"
| "policy_for RESEARCH = read_only_policy RESEARCH (REPO_READ_TOOLS @ OUTBOUND_READ_TOOLS) (SEARCH_TOOLS @ DOC_TOOLS)"
| "policy_for CLASSIFIER = read_only_policy CLASSIFIER OUTBOUND_READ_TOOLS (SEARCH_TOOLS @ DOC_TOOLS)"
| "policy_for RECOMMENDER =
     (read_only_policy RECOMMENDER (REPO_READ_TOOLS @ OUTBOUND_READ_TOOLS) (SEARCH_TOOLS @ DOC_TOOLS))
       \<lparr>rp_write_tools := REPO_WRITE_TOOLS, rp_read_only_tools := GITHUB_READ_ONLY_TOOLS,
        rp_required_evidence := WRITER_EVIDENCE, rp_judge_enabled := True\<rparr>"
| "policy_for JUDGE = read_only_policy JUDGE OUTBOUND_READ_TOOLS SEARCH_TOOLS"

section \<open>Deterministic checks\<close>

type_synonym violation = "string \<times> string"

definition guide_decision :: "steering_runtime \<Rightarrow> violation \<Rightarrow> steering_decision" where
  "guide_decision rt v = decision GUIDE BEFORE_TOOL (snd v) (rt_role rt) (fst v)"

definition interrupt_tool :: "steering_runtime \<Rightarrow> violation \<Rightarrow> steering_decision" where
  "interrupt_tool rt v = decision INTERRUPT BEFORE_TOOL (snd v) (rt_role rt) (fst v)"

definition json_or :: "json \<Rightarrow> json \<Rightarrow> json" where
  "json_or a b = (if py_truth a then a else b)"

definition read_parts :: "string \<Rightarrow> jobj \<Rightarrow> json list" where
  "read_parts tool use =
     (if tool = ''github_read_file''
      then [jget use ''owner'', jget use ''repo'', jget use ''path'', jget use ''ref'']
      else if tool = ''github_get_tree''
      then [jget use ''owner'', jget use ''repo'', jget use ''ref'',
            (case normalized_prefix (jget use ''path_prefix'') of None \<Rightarrow> JNull | Some p \<Rightarrow> JStr p)]
      else [jget use ''owner'', jget use ''repo'', jget use ''query''])"

definition check_github_read ::
  "(json \<Rightarrow> string) \<Rightarrow> draft_scope \<Rightarrow> string \<Rightarrow> jobj \<Rightarrow> violation option" where
  "check_github_read render s tool use =
     (let expected_repo = text_or_empty (ds_repository s); expected_ref = text_or_empty (ds_head_sha s) in
      if expected_repo = []
      then Some (''writer:repository'', ''This page has no assigned repository. Stop GitHub reads '' @
                  ''and report the missing assignment.'')
      else if py_str render (jget use ''owner'') @ ''/'' @ py_str render (jget use ''repo'') \<noteq> expected_repo
      then Some (''writer:repository'', ''This page belongs to '' @ expected_repo @ '' at PR head SHA '' @
                  (if expected_ref = [] then ''(unavailable)'' else expected_ref) @ ''. Retry that repository only.'')
      else if tool = ''github_search_code''
      then Some (''writer:unpinned-search'', ''GitHub code search cannot target pinned SHA '' @
                  (case ds_head_sha s of None \<Rightarrow> ''None'' | Some h \<Rightarrow> h) @
                  ''; read exact files or a narrow tree instead.'')
      else if expected_ref \<noteq> [] \<and> jget use ''ref'' \<noteq> JStr expected_ref
      then Some (''writer:ref'', ''Read '' @ expected_repo @ '' at PR head SHA '' @ expected_ref @ '', not a branch.'')
      else case ds_read_budget s of
             None \<Rightarrow> None
           | Some b \<Rightarrow> map_option (Pair ''writer:read-budget'') (budget_failure (tool # map (py_str render) (read_parts tool use)) b))"

definition check_writer_assignment ::
  "(json \<Rightarrow> string) \<Rightarrow> draft_scope option \<Rightarrow> string \<Rightarrow> jobj \<Rightarrow> violation option" where
  "check_writer_assignment render sc tool use =
     (case sc of
        None \<Rightarrow> None
      | Some s \<Rightarrow>
          (case ds_assigned_page_id s of
             None \<Rightarrow> None
           | Some page \<Rightarrow>
               if tool \<in> {''github_read_file'', ''github_get_tree'', ''github_search_code''}
               then check_github_read render s tool use
               else if tool = ''start_draft'' then
                 (let expected_repo = text_or_empty (ds_repository s) in
                  if expected_repo \<noteq> [] \<and> jget use ''repository'' \<noteq> JStr expected_repo
                  then Some (''writer:draft-repository'', ''Start the draft for assigned repository '' @ expected_repo @ ''.'')
                  else if jget use ''path'' \<noteq> JStr page
                  then Some (''writer:draft-path'', ''Draft only assigned page '' @ page @ ''.'')
                  else None)
               else None))"

definition SCOPE_PATH_KEYS :: "string list" where
  "SCOPE_PATH_KEYS = [''path'', ''repo_dir'', ''repo_root'', ''target'', ''directory'']"

fun check_scope_keys :: "string \<Rightarrow> string \<Rightarrow> jobj \<Rightarrow> string list \<Rightarrow> violation option" where
  "check_scope_keys tool base use [] = None"
| "check_scope_keys tool base use (key # keys) =
     (case jget use key of
        JStr raw \<Rightarrow>
          if strip raw = [] \<or> raw = ''__checkout__'' \<or> path_within base raw
          then check_scope_keys tool base use keys
          else Some (''reroute:scope'', ''tool '' @ quoted tool @ '' path '' @ quoted raw @
                 '' is outside checkout root '' @ quoted base)
      | _ \<Rightarrow> check_scope_keys tool base use keys)"

definition check_scope :: "steering_runtime \<Rightarrow> string \<Rightarrow> jobj \<Rightarrow> violation option" where
  "check_scope rt tool use =
     (let base = text_or_empty (rs_repo_checkout_root (rt_scope rt)) in
      if base = [] then None else check_scope_keys tool base use SCOPE_PATH_KEYS)"

definition authorized_repo :: "runtime_scope \<Rightarrow> string \<Rightarrow> bool" where
  "authorized_repo s destination \<longleftrightarrow>
     destination = rs_org_id s @ ''/'' @ rs_project_id s \<or> ends_with (''/'' @ rs_project_id s) destination"

definition check_side_effect_scope ::
  "(json \<Rightarrow> string) \<Rightarrow> role_policy \<Rightarrow> steering_runtime \<Rightarrow> string \<Rightarrow> jobj \<Rightarrow> violation option" where
  "check_side_effect_scope render p rt tool use =
     (let s = rt_scope rt; project = jget use ''destination_project'';
          destination = json_or (json_or (jget use ''destination'') (jget use ''repo'')) (jget use ''channel'') in
      if py_truth project \<and> project \<noteq> JStr (rs_project_id s)
      then Some (''delivery:destination-project'', ''destination_project '' @ quoted (py_str render project) @
             '' does not match run project'')
      else if (case destination of JStr d \<Rightarrow> looks_like_repo d \<and> \<not> authorized_repo s d | _ \<Rightarrow> False)
      then Some (''delivery:destination'', ''destination '' @ quoted (py_str render destination) @
             '' is outside authorized repo '' @ quoted (rs_org_id s @ ''/'' @ rs_project_id s))
      else case check_scope rt tool use of
             None \<Rightarrow> None
           | Some (rule, why) \<Rightarrow>
               if tool \<in> set (rp_write_tools p) \<or> tool \<in> set (rp_side_effect_tools p)
               then Some (''delivery:scope'', rule @ '': '' @ why) else None)"

text \<open>The idempotency key of a call; metadata that is not a mapping has no \<^verbatim>\<open>get\<close>.\<close>

definition idempotency_of :: "jobj \<Rightarrow> json res" where
  "idempotency_of use =
     (if py_truth (jget use ''idempotency_key'') then Inr (jget use ''idempotency_key'')
      else case json_or (jget use ''metadata'') (JObj []) of
             JObj m \<Rightarrow> Inr (jget m ''idempotency_key'')
           | _ \<Rightarrow> Inl (Exn ''AttributeError'' ''get''))"

definition check_idempotency :: "jobj \<Rightarrow> violation option res" where
  "check_idempotency use =
     map_sum id (\<lambda>idem. case idem of
         JStr k \<Rightarrow> if strip k = [] then Some (''delivery:idempotency'', ''side-effecting tool requires idempotency metadata'') else None
       | _ \<Rightarrow> Some (''delivery:idempotency'', ''side-effecting tool requires idempotency metadata''))
       (idempotency_of use)"

definition blank_arg :: "jobj \<Rightarrow> string \<Rightarrow> bool" where
  "blank_arg use arg = (case jget use arg of JStr v \<Rightarrow> strip v = [] | _ \<Rightarrow> True)"

definition text_args :: "role_policy \<Rightarrow> string \<Rightarrow> string list" where
  "text_args p tool = (case map_of (rp_required_text_args p) tool of None \<Rightarrow> [] | Some as \<Rightarrow> as)"

definition check_arguments :: "role_policy \<Rightarrow> string \<Rightarrow> jobj \<Rightarrow> violation option" where
  "check_arguments p tool use =
     map_option (\<lambda>arg. (''argument:required'', ''tool '' @ quoted tool @ '' requires non-empty '' @ quoted arg))
       (find (blank_arg use) (text_args p tool))"

definition check_destination :: "role_policy \<Rightarrow> string \<Rightarrow> jobj \<Rightarrow> violation option" where
  "check_destination p tool use =
     (if tool \<notin> set (rp_deliver_tools p) then None
      else if tool \<in> {''slack_post_message'', ''discord_post_message''} then
        (if blank_arg use ''channel'' then Some (''delivery:channel'', ''posting tool requires a channel target'') else None)
      else None)"

section \<open>Evaluation\<close>

text \<open>After the scope checks: arguments, evidence, destination.\<close>

definition evaluate_arguments :: "role_policy \<Rightarrow> steering_runtime \<Rightarrow> string \<Rightarrow> jobj \<Rightarrow> steering_decision" where
  "evaluate_arguments p rt tool use =
     (case check_arguments p tool use of
        Some v \<Rightarrow> guide_decision rt v
      | None \<Rightarrow>
          let missing = (case map_of (rp_required_evidence p) tool of
                           Some key \<Rightarrow> if key \<noteq> [] \<and> \<not> has_evidence use key then Some key else None
                         | None \<Rightarrow> None)
          in case missing of
               Some key \<Rightarrow> guide_decision rt (''evidence:missing'', ''missing required evidence '' @ quoted key)
             | None \<Rightarrow>
                 (case check_destination p tool use of
                    Some v \<Rightarrow> guide_decision rt v
                  | None \<Rightarrow> decision PROCEED BEFORE_TOOL ''deterministic policy ok'' (Some (rp_role p)) ''policy:ok''))"

text \<open>A side-effect tool never reaches \<^verbatim>\<open>_scope_failure\<close>, which therefore guides.\<close>

definition scope_failure :: "role_policy \<Rightarrow> steering_runtime \<Rightarrow> string \<Rightarrow> violation \<Rightarrow> steering_decision" where
  "scope_failure p rt tool v =
     (if rp_side_effecting p \<and> is_side_effect_tool p tool then interrupt_tool rt v else guide_decision rt v)"

definition evaluate_tool ::
  "(json \<Rightarrow> string) \<Rightarrow> draft_scope option \<Rightarrow> role_policy \<Rightarrow> steering_runtime \<Rightarrow> string \<Rightarrow> jobj \<Rightarrow> steering_decision res" where
  "evaluate_tool render sc p rt tool use =
     (case (if rp_role p = WRITER then check_writer_assignment render sc tool use else None) of
        Some v \<Rightarrow> Inr (guide_decision rt v)
      | None \<Rightarrow>
          if is_side_effect_tool p tool then
            (case check_side_effect_scope render p rt tool use of
               Some v \<Rightarrow> Inr (interrupt_tool rt v)
             | None \<Rightarrow>
                 (case check_idempotency use of
                    Inl e \<Rightarrow> Inl e
                  | Inr (Some v) \<Rightarrow> Inr (interrupt_tool rt v)
                  | Inr None \<Rightarrow> Inr (evaluate_arguments p rt tool use)))
          else if tool \<in> set (rp_read_tools p) \<or> tool \<in> set (rp_search_tools p) \<or> tool \<in> set (rp_write_tools p) then
            (case check_scope rt tool use of
               Some v \<Rightarrow> Inr (scope_failure p rt tool v)
             | None \<Rightarrow> Inr (evaluate_arguments p rt tool use))
          else Inr (evaluate_arguments p rt tool use))"

definition evaluate_model :: "role_policy \<Rightarrow> steering_runtime \<Rightarrow> jobj \<Rightarrow> string \<Rightarrow> steering_decision" where
  "evaluate_model p rt message stop_reason =
     (if stop_reason \<in> {''content_filtered'', ''guardrail_intervened'', ''limit_total_tokens''}
      then guide_decision rt (''model:unsafe-stop'', ''unsafe model stop reason '' @ quoted stop_reason)
      else if rp_role p \<in> {WRITER, RECOMMENDER, REVIEWER} \<and> \<not> py_truth (jget message ''content'')
      then guide_decision rt (''model:empty-output'', ''model returned empty content for a writing role'')
      else decision PROCEED AFTER_MODEL ''deterministic model policy ok'' (Some (rp_role p)) ''policy:model-ok'')"

section \<open>Judge and budgets\<close>

record audit_row =
  au_run_id :: string
  au_kind :: string
  au_name :: string
  au_status :: string
  au_detail :: json
  au_agent_id :: "string option"
  au_node_id :: "string option"
  au_surface :: string

type_synonym judge_key = "string \<times> string \<times> string \<times> string \<times> string"

record steering_world =
  sw_attempts :: attempt_table
  sw_audit :: "audit_row list"
  sw_inbox :: inbox
  sw_judge_cache :: "(judge_key \<times> steering_decision) list"
  sw_last_interrupt_id :: "string option"

datatype db_call = Reserve_Guide | Record_Step | Create_Pending

text \<open>A judge answers a decision, with no refinement or with an exception, and may use the world's cache.\<close>

type_synonym judge = "steering_decision \<Rightarrow> steering_world \<Rightarrow> steering_decision option res \<times> steering_world"

definition apply_judge ::
  "role_policy \<Rightarrow> judge option \<Rightarrow> steering_decision \<Rightarrow> steering_world \<Rightarrow> steering_decision \<times> steering_world" where
  "apply_judge p judge d w =
     (case judge of
        None \<Rightarrow> (d, w)
      | Some j \<Rightarrow>
          if \<not> rp_judge_enabled p then (d, w)
          else if sd_kind d = INTERRUPT then (d, w)
          else (case j d w of
                  (Inl e, w') \<Rightarrow> (d, w')
                | (Inr None, w') \<Rightarrow> (d, w')
                | (Inr (Some refined), w') \<Rightarrow> (if sd_phase refined \<noteq> sd_phase d then d else refined, w')))"

definition terminal :: "role_policy \<Rightarrow> steering_phase \<Rightarrow> string \<Rightarrow> steering_decision res" where
  "terminal p phase rule =
     (case rp_failure_mode p of
        Fail_Interrupt \<Rightarrow>
          interrupt_decision phase (''steering budget exhausted in rule '' @ quoted rule) (Some (rp_role p)) rule
      | Fail_Proceed \<Rightarrow>
          Inr (decision PROCEED phase (''steering budget exhausted in rule '' @ quoted rule @
                 ''; failing open for read-only role'') (Some (rp_role p)) rule))"

definition reserve_for ::
  "(db_call \<Rightarrow> exn option) \<Rightarrow> (steering_limits \<Rightarrow> attempt_table \<Rightarrow> bool \<times> attempt_table) \<Rightarrow> steering_runtime \<Rightarrow>
   steering_world \<Rightarrow> bool res \<times> steering_world" where
  "reserve_for fails request rt w =
     (case rt_attempts rt of
        None \<Rightarrow> (Inr True, w)
      | Some l \<Rightarrow>
          (case fails Reserve_Guide of
             Some e \<Rightarrow> (Inl e, w)
           | None \<Rightarrow> (case request l (sw_attempts w) of (ok, t) \<Rightarrow> (Inr ok, w\<lparr>sw_attempts := t\<rparr>))))"

definition reserve_tool :: "steering_runtime \<Rightarrow> string \<Rightarrow> steering_limits \<Rightarrow> attempt_table \<Rightarrow> bool \<times> attempt_table" where
  "reserve_tool rt tool l = reserve_tool_guide l (rt_run_id rt) (rt_agent_id rt) (rt_node_id rt) tool"

definition reserve_model :: "steering_runtime \<Rightarrow> steering_limits \<Rightarrow> attempt_table \<Rightarrow> bool \<times> attempt_table" where
  "reserve_model rt l = reserve_model_guide l (rt_run_id rt) (rt_agent_id rt) (rt_node_id rt)"

text \<open>A guide is charged to its budget; when none is left, the role's failure mode decides.\<close>

definition charge_guide ::
  "(db_call \<Rightarrow> exn option) \<Rightarrow> role_policy \<Rightarrow> steering_runtime \<Rightarrow> (steering_limits \<Rightarrow> attempt_table \<Rightarrow> bool \<times> attempt_table) \<Rightarrow>
   string \<Rightarrow> steering_decision \<Rightarrow> steering_world \<Rightarrow> steering_decision res \<times> steering_world" where
  "charge_guide fails p rt request rule d w =
     (if sd_kind d \<noteq> GUIDE then (Inr d, w)
      else case reserve_for fails request rt w of
             (Inl e, w') \<Rightarrow> (Inl e, w')
           | (Inr ok, w') \<Rightarrow> (if ok then Inr d else terminal p (sd_phase d) rule, w'))"

definition evaluate_tool_async ::
  "(db_call \<Rightarrow> exn option) \<Rightarrow> (json \<Rightarrow> string) \<Rightarrow> draft_scope option \<Rightarrow> role_policy \<Rightarrow> steering_runtime \<Rightarrow> string \<Rightarrow> jobj \<Rightarrow>
   judge option \<Rightarrow> steering_world \<Rightarrow> steering_decision res \<times> steering_world" where
  "evaluate_tool_async fails render sc p rt tool use judge w =
     (case evaluate_tool render sc p rt tool use of
        Inl e \<Rightarrow> (Inl e, w)
      | Inr d0 \<Rightarrow>
          (case apply_judge p judge d0 w of
             (d, w') \<Rightarrow> charge_guide fails p rt (reserve_tool rt tool) ''limit:tool_guides'' d w'))"

definition evaluate_tool_shadow ::
  "(json \<Rightarrow> string) \<Rightarrow> draft_scope option \<Rightarrow> role_policy \<Rightarrow> steering_runtime \<Rightarrow> string \<Rightarrow> jobj \<Rightarrow>
   judge option \<Rightarrow> steering_world \<Rightarrow> steering_decision res \<times> steering_world" where
  "evaluate_tool_shadow render sc p rt tool use judge w =
     (case evaluate_tool render sc p rt tool use of
        Inl e \<Rightarrow> (Inl e, w)
      | Inr d0 \<Rightarrow> (case apply_judge p judge d0 w of (d, w') \<Rightarrow> (Inr d, w')))"

definition evaluate_model_async ::
  "(db_call \<Rightarrow> exn option) \<Rightarrow> role_policy \<Rightarrow> steering_runtime \<Rightarrow> jobj \<Rightarrow> string \<Rightarrow> judge option \<Rightarrow> steering_world \<Rightarrow>
   steering_decision res \<times> steering_world" where
  "evaluate_model_async fails p rt message stop_reason judge w =
     (case apply_judge p judge (evaluate_model p rt message stop_reason) w of
        (d, w') \<Rightarrow> charge_guide fails p rt (reserve_model rt) ''limit:model_guides'' d w')"

definition evaluate_model_shadow ::
  "role_policy \<Rightarrow> steering_runtime \<Rightarrow> jobj \<Rightarrow> string \<Rightarrow> judge option \<Rightarrow> steering_world \<Rightarrow>
   steering_decision res \<times> steering_world" where
  "evaluate_model_shadow p rt message stop_reason judge w =
     (case apply_judge p judge (evaluate_model p rt message stop_reason) w of (d, w') \<Rightarrow> (Inr d, w'))"

section \<open>The scope check is lexical\<close>

lemma split_on_join_append:
  "ss \<noteq> [] \<Longrightarrow> (\<forall>x \<in> set ss. c \<notin> set x) \<Longrightarrow> split_on c (join_with [c] ss @ c # t) = ss @ split_on c t"
proof (induction ss rule: induct_list012)
  case (2 x)
  then show ?case by (simp add: split_on_append)
next
  case (3 x y zs)
  then show ?case by (simp add: split_on_append)
qed simp

lemma join_with_append:
  "xs \<noteq> [] \<Longrightarrow> ys \<noteq> [] \<Longrightarrow> join_with sep (xs @ ys) = join_with sep xs @ sep @ join_with sep ys"
proof (induction xs rule: induct_list012)
  case (2 x)
  then show ?case by (cases ys) simp_all
qed simp_all

lemma join_prefix:
  assumes "P \<noteq> []" "Q \<noteq> []" "\<forall>x \<in> set P. c \<notin> set x" "\<forall>x \<in> set Q. c \<notin> set x"
  shows "join_with [c] Q = join_with [c] P \<or> starts_with (join_with [c] P @ [c]) (join_with [c] Q)
    \<longleftrightarrow> take (length P) Q = P"
proof
  assume "join_with [c] Q = join_with [c] P \<or> starts_with (join_with [c] P @ [c]) (join_with [c] Q)"
  then consider "join_with [c] Q = join_with [c] P" | t where "join_with [c] Q = join_with [c] P @ c # t"
    by (auto simp: starts_with_iff)
  then show "take (length P) Q = P"
  proof cases
    case 1
    then have "Q = P" using assms by (metis split_on_join)
    then show ?thesis by simp
  next
    case 2
    then have "Q = P @ split_on c t" using assms by (metis split_on_join split_on_join_append)
    then show ?thesis by simp
  qed
next
  assume "take (length P) Q = P"
  then obtain R where "Q = P @ R" by (metis append_take_drop_id)
  then show "join_with [c] Q = join_with [c] P \<or> starts_with (join_with [c] P @ [c]) (join_with [c] Q)"
    using assms(1) by (cases "R = []") (auto simp: join_with_append starts_with_iff)
qed

lemma win_splitroot_set:
  "win_splitroot p = (drv, r, rel) \<Longrightarrow> set drv \<subseteq> set p \<and> set r \<subseteq> set p \<and> set rel \<subseteq> set p"
  by (auto simp: win_splitroot_def Let_def dest: in_set_takeD in_set_dropD split: if_splits option.splits)

lemma win_parts_segments: "x \<in> set (win_parts p) \<Longrightarrow> x \<noteq> [] \<and> slash \<notin> set x"
proof -
  assume x: "x \<in> set (win_parts p)"
  let ?p = "map (\<lambda>c. if c = slash then backslash else c) p"
  obtain drv r rel where sr: "win_splitroot ?p = (drv, r, rel)" by (metis prod_cases3)
  have bs: "slash \<noteq> backslash" by (simp add: slash_def backslash_def)
  then have "slash \<notin> set ?p" by auto
  with win_splitroot_set [OF sr] have free: "slash \<notin> set drv" "slash \<notin> set r" "slash \<notin> set rel" by auto
  from x sr consider "x = drv @ r" "x \<noteq> []" | "x = drv @ [backslash]" | "x \<in> set (split_on backslash rel)" "x \<noteq> []"
    by (auto simp: win_parts_def Let_def split: if_splits)
  then show ?thesis
    using free bs split_on_subset [of x backslash rel] by cases auto
qed

lemma join_last: "ss \<noteq> [] \<Longrightarrow> last ss \<noteq> [] \<Longrightarrow> join_with sep ss \<noteq> [] \<and> last (join_with sep ss) = last (last ss)"
  by (induction ss rule: induct_list012) (auto simp: last_append)

lemma rstrip_sep_id: "s \<noteq> [] \<Longrightarrow> last s \<noteq> slash \<Longrightarrow> rstrip_sep s = s"
  by (cases s rule: rev_cases) (simp_all add: rstrip_sep_def)

lemma normalize_path_clean:
  assumes "win_parts p \<noteq> []"
  shows "normalize_path p = join_with [slash] (win_parts p) \<and> normalize_path p \<noteq> []
    \<and> rstrip_sep (normalize_path p) = normalize_path p"
proof -
  have l: "last (win_parts p) \<noteq> []" "slash \<notin> set (last (win_parts p))"
    using win_parts_segments [OF last_in_set [OF assms]] by auto
  have "last (last (win_parts p)) \<noteq> slash" using l last_in_set by metis
  with join_last [OF assms l(1), of "[slash]"] assms show ?thesis
    by (simp add: normalize_path_def rstrip_sep_id)
qed

text \<open>
  A path is inside the checkout root exactly when its segments begin with those of the root: the
  check is lexical. Separators and dots are normalised, but a parent segment is not resolved, so a path
  that climbs out of the root still counts as inside.
\<close>

theorem path_within_lexical:
  assumes "win_parts base \<noteq> []" and "win_parts candidate \<noteq> []"
  shows "path_within base candidate \<longleftrightarrow> take (length (win_parts base)) (win_parts candidate) = win_parts base"
  using join_prefix [OF assms, of slash] normalize_path_clean [OF assms(1)] normalize_path_clean [OF assms(2)]
    win_parts_segments [of _ base] win_parts_segments [of _ candidate]
  by (auto simp: path_within_def Let_def)

text \<open>A dot is never a segment: an anchor begins with a separator or is a drive.\<close>

lemma win_splitroot_dot: "win_splitroot p = (drv, r, rel) \<Longrightarrow> drv @ r \<noteq> ''.'' \<and> (take 1 drv = [backslash] \<longrightarrow> drv @ [backslash] \<noteq> ''.'')"
proof -
  assume a: "win_splitroot p = (drv, r, rel)"
  have bs: "backslash \<noteq> CHR ''.''" by (simp add: backslash_def)
  show ?thesis
  proof (cases p)
    case Nil
    with a show ?thesis by (simp add: win_splitroot_def)
  next
    case (Cons c p')
    show ?thesis
    proof (cases "c = backslash")
      case True
      have t: "take n p @ q \<noteq> ''.''" if "q \<noteq> ''.''" for n q
        using that True Cons bs by (cases n) auto
      have "take 1 (drop j p) \<noteq> ''.''" if "find_from backslash i p = Some j" for i j
      proof -
        obtain js where "dropWhile (\<lambda>j. p ! j \<noteq> backslash) [i..<length p] = j # js"
          using \<open>find_from backslash i p = Some j\<close> by (auto simp: find_from_def split: list.splits)
        with hd_dropWhile [of "\<lambda>j. p ! j \<noteq> backslash" "[i..<length p]"] have pj: "p ! j = backslash" by simp
        show ?thesis
        proof (cases "j < length p")
          case True
          then have "drop j p = p ! j # drop (Suc j) p" by (simp add: Cons_nth_drop_Suc)
          with pj bs show ?thesis by simp
        qed simp
      qed
      then show ?thesis using a t [of _ "length p"] t True Cons bs
        by (auto simp: win_splitroot_def Let_def split: if_splits option.splits)
    next
      case False
      with a Cons show ?thesis
        by (cases p') (auto simp: win_splitroot_def split: if_splits)
    qed
  qed
qed

lemma dot_no_segment: "''.'' \<notin> set (win_parts p)"
proof -
  obtain drv r rel where sr: "win_splitroot (map (\<lambda>c. if c = slash then backslash else c) p) = (drv, r, rel)" by (metis prod_cases3)
  from win_splitroot_dot [OF sr] show ?thesis
    by (auto simp: win_parts_def Let_def sr split: if_splits)
qed

text \<open>A path of no segment is inside no root that has one.\<close>

lemma dot_not_within:
  assumes "win_parts base \<noteq> []" and "win_parts candidate = []"
  shows "\<not> path_within base candidate"
proof -
  have cand: "normalize_path candidate = ''.''" using assms(2) by (simp add: normalize_path_def)
  have dot: "rstrip_sep ''.'' = ''.''" by (rule rstrip_sep_id) (simp_all add: slash_def)
  have base: "normalize_path base = join_with [slash] (win_parts base)" "normalize_path base \<noteq> []"
    "rstrip_sep (normalize_path base) = normalize_path base"
    using normalize_path_clean [OF assms(1)] by blast+
  have "\<not> starts_with (normalize_path base @ [slash]) ''.''"
    using base(2) by (cases "normalize_path base") (auto simp: starts_with_iff)
  moreover have "normalize_path base \<noteq> ''.''"
  proof
    assume "normalize_path base = ''.''"
    then have "split_on slash (join_with [slash] (win_parts base)) = split_on slash ''.''" by (simp add: base(1))
    moreover have "split_on slash (join_with [slash] (win_parts base)) = win_parts base"
      using assms(1) win_parts_segments [of _ base] by (intro split_on_join) auto
    moreover have "split_on slash ''.'' = [''.'']" by code_simp
    ultimately have "''.'' \<in> set (win_parts base)" by simp
    then show False using dot_no_segment by blast
  qed
  ultimately show ?thesis by (simp add: path_within_def Let_def cand dot base(2,3))
qed

lemma path_within_segments:
  "path_within base candidate \<Longrightarrow> take (length (win_parts base)) (win_parts candidate) = win_parts base"
  using path_within_lexical [of base candidate] dot_not_within [of base candidate]
  by (cases "win_parts base = []"; cases "win_parts candidate = []") auto

theorem path_within_lexical_witness: "path_within ''/w/repo'' ''/w/repo/../../etc''"
  by (rule path_within_lexical [THEN iffD2]) code_simp+

end
