(* ===== verification/Steering_Handler.thy ===== *)
theory Steering_Handler
  imports Steering_Policy
begin

text \<open>
  The Strands adapter \<^verbatim>\<open>src/draftly/steering/handler.py\<close>: idempotency stamps, flattening of tool uses, the
  isolated judge with its cache, shadow mode and enforcement, the durable intervention behind every
  interrupt, the audit row of every decision (\<^verbatim>\<open>SteeringAuditSink\<close> of \<^verbatim>\<open>persistence.py\<close>), and which roles
  fail closed. The environment holds what the code takes from outside: which database call raises,
  SHA-256, UUIDs, the clock, the renderings of floats and compound values. Metrics, logs and the
  best-effort event sink have no effect on the result and are left out. Metadata that is not a mapping
  raises.
\<close>

record steering_env =
  en_fails :: "db_call \<Rightarrow> exn option"
  en_render :: "json \<Rightarrow> string"
  en_fmt :: "real \<Rightarrow> string"
  en_digest :: "string \<Rightarrow> string"
  en_uuid5 :: "string \<Rightarrow> string"
  en_uuid4 :: string
  en_new_id :: string
  en_now :: int

abbreviation SteeringFailure :: "string \<Rightarrow> exn" where "SteeringFailure m \<equiv> Exn ''SteeringFailure'' m"

definition is_steering_error :: "exn \<Rightarrow> bool" where
  "is_steering_error e \<longleftrightarrow> exn_type e \<in> {''SteeringError'', ''SteeringFailure'', ''PolicyViolation'', ''PolicyViolationError''}"

section \<open>Tool uses\<close>

definition use_name :: "jobj \<Rightarrow> string" where
  "use_name use = (case jget use ''name'' of JStr n \<Rightarrow> n | _ \<Rightarrow> [])"

definition jset :: "string \<Rightarrow> json \<Rightarrow> jobj \<Rightarrow> jobj" where
  "jset k v d = (if k \<in> set (map fst d) then map (\<lambda>kv. if fst kv = k then (k, v) else kv) d else d @ [(k, v)])"

definition IDEM_RESERVED_KEYS :: "string list" where
  "IDEM_RESERVED_KEYS = [''name'', ''toolUseId'', ''tool_use_id'', ''metadata'', ''idempotency_key'']"

definition call_args :: "jobj \<Rightarrow> jobj" where
  "call_args use = filter (\<lambda>kv. fst kv \<notin> set IDEM_RESERVED_KEYS) use"

definition idempotency_digest :: "steering_env \<Rightarrow> steering_runtime \<Rightarrow> jobj \<Rightarrow> string" where
  "idempotency_digest env rt use =
     en_digest env (rs_org_id (rt_scope rt) @ ''|'' @ rs_run_id (rt_scope rt) @ ''|'' @ use_name use @ ''|'' @
       dumps_json True (en_fmt env) (JObj (call_args use)))"

definition stamp_idempotency_key ::
  "steering_env \<Rightarrow> role_policy \<Rightarrow> steering_runtime \<Rightarrow> jobj \<Rightarrow> jobj res" where
  "stamp_idempotency_key env p rt use =
     (if use_name use \<notin> set (rp_side_effect_tools p) then Inr use
      else case json_or (jget use ''metadata'') (JObj []) of
             JObj meta \<Rightarrow>
               if py_truth (jget meta ''idempotency_key'') then Inr use
               else Inr (jset ''metadata'' (JObj (jset ''idempotency_key'' (JStr (idempotency_digest env rt use)) meta)) use)
           | _ \<Rightarrow> Inl (TypeError ''metadata is not a mapping''))"

definition flatten_tool_use :: "jobj \<Rightarrow> jobj" where
  "flatten_tool_use use =
     (case jget use ''input'' of
        JObj raw \<Rightarrow> foldl (\<lambda>flat kv. if fst kv \<in> set (map fst flat) then flat else flat @ [kv]) use raw
      | _ \<Rightarrow> use)"

definition strands_tool_interrupt_id :: "steering_env \<Rightarrow> string \<Rightarrow> string \<Rightarrow> string" where
  "strands_tool_interrupt_id env tool_use_id tool =
     (if tool_use_id = [] then en_uuid4 env
      else ''v1:before_tool_call:'' @ tool_use_id @ '':'' @ en_uuid5 env (''steering_input_'' @ tool))"

definition is_unregistered :: "string list option \<Rightarrow> jobj \<Rightarrow> bool" where
  "is_unregistered registered use = (case registered of None \<Rightarrow> False | Some names \<Rightarrow> use_name use \<notin> set names)"

section \<open>The judge\<close>

text \<open>What one round trip to the judge yields: a timeout, an exception of some type, no structured output, an output of another schema, or a verdict.\<close>

datatype judge_reply = Timed_Out | Raised string | No_Output | Other_Schema | Verdict string string

definition JUDGE_KINDS :: "(string \<times> decision_kind) list" where
  "JUDGE_KINDS = [(''proceed'', PROCEED), (''guide'', GUIDE), (''interrupt'', INTERRUPT)]"

definition judge_context :: "steering_env \<Rightarrow> steering_decision \<Rightarrow> json res" where
  "judge_context env d =
     redact_value (en_fmt env) 4096
       (JObj [(''phase'', JStr (phase_value (sd_phase d))),
              (''role'', (case sd_role d of None \<Rightarrow> JNull | Some r \<Rightarrow> JStr (role_value r))),
              (''rule'', JStr (sd_rule d)), (''reason'', JStr (scrub_secret_values (sd_reason d)))])"

text \<open>\<open>agent context n\<close> is the reply to the n-th attempt; only an exception is retried, once.\<close>

definition steering_judge ::
  "steering_env \<Rightarrow> (json \<Rightarrow> nat \<Rightarrow> judge_reply) \<Rightarrow> steering_decision \<Rightarrow> steering_decision res" where
  "steering_judge env agent d =
     (case judge_context env d of
        Inl e \<Rightarrow> Inl e
      | Inr ctx \<Rightarrow>
          let reply = (case agent ctx 0 of Raised _ \<Rightarrow> agent ctx 1 | r \<Rightarrow> r) in
          (case reply of
             Timed_Out \<Rightarrow> Inl (SteeringFailure ''steering judge timed out'')
           | Raised name \<Rightarrow> Inl (SteeringFailure (''steering judge unavailable: '' @ name))
           | No_Output \<Rightarrow> Inr d
           | Other_Schema \<Rightarrow> Inl (SteeringFailure ''steering judge returned an invalid schema'')
           | Verdict verdict why \<Rightarrow>
               (case map_of JUDGE_KINDS verdict of
                  None \<Rightarrow> Inl (SteeringFailure (''steering judge returned unsupported decision '' @ quoted verdict))
                | Some kind \<Rightarrow>
                    Inr \<lparr>sd_kind = (if kind = INTERRUPT \<and> sd_phase d = AFTER_MODEL then GUIDE else kind),
                         sd_phase = sd_phase d, sd_reason = why, sd_role = sd_role d,
                         sd_rule = ''judge:'' @ verdict, sd_interrupt_id = sd_interrupt_id d\<rparr>)))"

definition JUDGE_CACHE_LIMIT :: nat where "JUDGE_CACHE_LIMIT = 1024"

type_synonym base_judge = "steering_decision \<Rightarrow> steering_decision res"

definition judge_cache_key :: "steering_env \<Rightarrow> string \<Rightarrow> jobj \<Rightarrow> steering_decision \<Rightarrow> judge_key" where
  "judge_cache_key env tool use d =
     ((case sd_role d of None \<Rightarrow> [] | Some r \<Rightarrow> role_value r), phase_value (sd_phase d), sd_rule d, tool,
      en_digest env (dumps_json True (en_fmt env) (JObj (call_args use))))"

definition cached_judge_for :: "steering_env \<Rightarrow> role_policy \<Rightarrow> base_judge option \<Rightarrow> string \<Rightarrow> jobj \<Rightarrow> judge" where
  "cached_judge_for env p base tool use d w =
     (if is_read_only_tool p tool \<and> sd_kind d = PROCEED then (Inr (Some d), w)
      else case base of
             None \<Rightarrow> (Inr (Some d), w)
           | Some j \<Rightarrow>
               let key = judge_cache_key env tool use d in
               (case map_of (sw_judge_cache w) key of
                  Some cached \<Rightarrow> (Inr (Some cached), w)
                | None \<Rightarrow>
                    (case j d of
                       Inl e \<Rightarrow> (Inl e, w)
                     | Inr r \<Rightarrow>
                         let kept = (if JUDGE_CACHE_LIMIT \<le> length (sw_judge_cache w) then [] else sw_judge_cache w)
                         in (Inr (Some r), w\<lparr>sw_judge_cache := (key, r) # kept\<rparr>))))"

section \<open>Durable effects\<close>

definition py_take :: "int \<Rightarrow> string \<Rightarrow> string" where
  "py_take n s = (if 0 \<le> n then take (nat n) s else take (length s - nat (- n)) s)"

definition role_json :: "steering_decision \<Rightarrow> json" where
  "role_json d = (case sd_role d of None \<Rightarrow> JNull | Some r \<Rightarrow> JStr (role_value r))"

definition str_json :: "string option \<Rightarrow> json" where
  "str_json x = (case x of None \<Rightarrow> JNull | Some s \<Rightarrow> JStr s)"

definition audit_detail :: "steering_runtime \<Rightarrow> steering_decision \<Rightarrow> string option \<Rightarrow> json" where
  "audit_detail rt d tool =
     JObj [(''schema_version'', JStr ''1''), (''decision_type'', JStr (kind_value (sd_kind d))),
           (''phase'', JStr (phase_value (sd_phase d))),
           (''role'', JStr (case sd_role d of None \<Rightarrow> [] | Some r \<Rightarrow> role_value r)),
           (''rule'', JStr (sd_rule d)), (''tool_name'', str_json tool),
           (''reason'', JStr (take 1000 (scrub_secret_values (sd_reason d)))),
           (''surface'', JStr (rs_surface (rt_scope rt))), (''policy_version'', JStr (cf_policy_version (rt_config rt))),
           (''decision_source'', JStr (if starts_with ''judge:'' (sd_rule d) then ''judge'' else ''deterministic'')),
           (''outcome'', JStr (kind_value (sd_kind d))), (''interrupt_id'', str_json (sd_interrupt_id d)),
           (''attempt_summary'',
             JObj [(''tool_guides_per_call'', JInt (cf_tool_guides_per_call (rt_config rt))),
                   (''model_guides_per_turn'', JInt (cf_model_guides_per_turn (rt_config rt))),
                   (''total_guides_per_agent'', JInt (cf_total_guides_per_agent (rt_config rt)))])]"

definition audit_row_of :: "steering_runtime \<Rightarrow> steering_decision \<Rightarrow> json \<Rightarrow> audit_row" where
  "audit_row_of rt d detail =
     \<lparr>au_run_id = rt_run_id rt, au_kind = ''steering'', au_name = kind_value (sd_kind d), au_status = ''completed'',
      au_detail = (case detail of JObj kvs \<Rightarrow> detail | _ \<Rightarrow> JObj [(''detail'', detail)]),
      au_agent_id = map_option id_agent_id (rt_identity rt), au_node_id = map_option id_node_id (rt_identity rt),
      au_surface = rs_surface (rt_scope rt)\<rparr>"

definition record_decision ::
  "steering_env \<Rightarrow> steering_runtime \<Rightarrow> steering_decision \<Rightarrow> string option \<Rightarrow> steering_world \<Rightarrow> unit res \<times> steering_world" where
  "record_decision env rt d tool w =
     (if \<not> rt_audit rt then (Inr (), w)
      else case redact_value (en_fmt env) 4096 (audit_detail rt d tool) of
             Inl e \<Rightarrow> (Inl (SteeringFailure (''steering audit write failed: '' @ exn_msg e)), w)
           | Inr detail \<Rightarrow>
               (case en_fails env Record_Step of
                  Some e \<Rightarrow> (Inl (SteeringFailure (''steering audit write failed: '' @ exn_msg e)), w)
                | None \<Rightarrow> (Inr (), w\<lparr>sw_audit := sw_audit w @ [audit_row_of rt d detail]\<rparr>)))"

definition intervention_of :: "steering_runtime \<Rightarrow> steering_decision \<Rightarrow> string \<Rightarrow> string \<Rightarrow> intervention" where
  "intervention_of rt d tool interrupt_id =
     \<lparr>iv_id = [], iv_run_id = rt_run_id rt, iv_interrupt_id = interrupt_id, iv_org_id = rs_org_id (rt_scope rt),
      iv_surface = rs_surface (rt_scope rt), iv_workflow_key = rs_workflow_key (rt_scope rt),
      iv_agent_id = rt_agent_id rt, iv_node_id = rt_node_id rt, iv_tool_name = tool, iv_status = ''pending'',
      iv_reason = JObj [(''rule'', JStr (sd_rule d)), (''action'', JStr (kind_value (sd_kind d))),
         (''phase'', JStr (phase_value (sd_phase d))), (''role'', role_json d),
         (''reason'', JStr (py_take (cf_reason_max_chars (rt_config rt)) (scrub_secret_values (sd_reason d)))),
         (''policy_version'', JStr (cf_policy_version (rt_config rt)))],
      iv_response_message = None, iv_metadata = JObj [(''surface'', JStr (rs_surface (rt_scope rt)))],
      iv_idempotency_key = Some (rs_org_id (rt_scope rt) @ '':'' @ interrupt_id),
      iv_resolver_id = None, iv_created_at = 0, iv_updated_at = 0, iv_resolved_at = None, iv_expires_at = None\<rparr>"

definition persist_intervention ::
  "steering_env \<Rightarrow> role_policy \<Rightarrow> steering_runtime \<Rightarrow> steering_decision \<Rightarrow> string \<Rightarrow> string \<Rightarrow> steering_world \<Rightarrow>
   steering_decision res \<times> steering_world" where
  "persist_intervention env p rt d tool tool_use_id w =
     (if \<not> rt_interventions rt then
        (if rp_side_effecting p then Inl (SteeringFailure ''intervention persistence is unavailable'') else Inr d, w)
      else
        let interrupt_id = (case sd_interrupt_id d of
                              Some i \<Rightarrow> if i = [] then strands_tool_interrupt_id env tool_use_id tool else i
                            | None \<Rightarrow> strands_tool_interrupt_id env tool_use_id tool);
            (created, inbox') = (case en_fails env Create_Pending of
                Some e \<Rightarrow> (Inl e, sw_inbox w)
              | None \<Rightarrow> create_pending (en_new_id env) (en_now env) (intervention_of rt d tool interrupt_id) (sw_inbox w))
        in case created of
             Inl e \<Rightarrow>
               (if rp_side_effecting p then Inl (SteeringFailure (''intervention persistence failed: '' @ exn_msg e)) else Inr d,
                w\<lparr>sw_inbox := inbox'\<rparr>)
           | Inr row \<Rightarrow>
               (Inr (d\<lparr>sd_interrupt_id := Some interrupt_id\<rparr>),
                w\<lparr>sw_inbox := inbox', sw_last_interrupt_id := Some interrupt_id\<rparr>))"

definition on_policy_failure :: "role_policy \<Rightarrow> exn \<Rightarrow> strands_action res" where
  "on_policy_failure p e =
     (if rp_side_effecting p
      then Inl (SteeringFailure (''steering policy unavailable: '' @ exn_type e @ '': '' @ exn_msg e))
      else Inr (SProceed (''steering unavailable: '' @ exn_type e)))"

section \<open>Callbacks\<close>

text \<open>What both callbacks do with a decision: record it, then act on it when steering is enforced.\<close>

definition conclude ::
  "steering_env \<Rightarrow> steering_runtime \<Rightarrow> string option \<Rightarrow> (steering_decision \<Rightarrow> strands_action) \<Rightarrow> steering_decision \<Rightarrow>
   steering_world \<Rightarrow> strands_action res \<times> steering_world" where
  "conclude env rt tool act d w =
     (case record_decision env rt d tool w of
        (Inl e, w') \<Rightarrow> (Inl e, w')
      | (Inr _, w') \<Rightarrow>
          (Inr (if cf_enforcement_enabled (rt_config rt) then act d
                else SProceed ''shadow mode: steering not enforced''), w'))"

definition handle_tool ::
  "steering_env \<Rightarrow> role_policy \<Rightarrow> steering_runtime \<Rightarrow> base_judge option \<Rightarrow> draft_scope option \<Rightarrow> jobj \<Rightarrow> steering_world \<Rightarrow>
   strands_action res \<times> steering_world" where
  "handle_tool env p rt base sc use0 w =
     (case stamp_idempotency_key env p rt use0 of
        Inl e \<Rightarrow> (Inl e, w)
      | Inr stamped \<Rightarrow>
          let use = flatten_tool_use stamped; tool = use_name use;
              tool_use_id = str_or (en_render env) (jget use ''toolUseId'') [];
              enforcement = cf_enforcement_enabled (rt_config rt);
              judge = Some (cached_judge_for env p base tool use);
              (evaluated, w1) =
                (if enforcement then evaluate_tool_async (en_fails env) (en_render env) sc p rt tool use judge w
                 else evaluate_tool_shadow (en_render env) sc p rt tool use judge w)
          in case evaluated of
               Inl e \<Rightarrow> (if is_steering_error e then on_policy_failure p e else Inl e, w1)
             | Inr d \<Rightarrow>
                 let (persisted, w2) =
                   (if sd_kind d = INTERRUPT \<and> enforcement
                    then persist_intervention env p rt d tool tool_use_id w1 else (Inr d, w1))
                 in case persisted of
                      Inl e \<Rightarrow> (Inl e, w2)
                    | Inr d' \<Rightarrow> conclude env rt (Some tool) to_strands_action d' w2)"

definition model_action :: "steering_decision \<Rightarrow> strands_action" where
  "model_action d =
     (if sd_kind d = INTERRUPT then SGuide ''model steering cannot interrupt'' else to_strands_action d)"

definition handle_model ::
  "steering_env \<Rightarrow> role_policy \<Rightarrow> steering_runtime \<Rightarrow> base_judge option \<Rightarrow> jobj \<Rightarrow> string \<Rightarrow> steering_world \<Rightarrow>
   strands_action res \<times> steering_world" where
  "handle_model env p rt base message stop_reason w =
     (let judge = map_option (\<lambda>j d w. (map_sum id Some (j d), w)) base;
          (evaluated, w1) =
            (if cf_enforcement_enabled (rt_config rt)
             then evaluate_model_async (en_fails env) p rt message stop_reason judge w
             else evaluate_model_shadow p rt message stop_reason judge w)
      in case evaluated of
           Inl e \<Rightarrow> (Inl e, w1)
         | Inr d \<Rightarrow> conclude env rt None model_action d w1)"

text \<open>A steering failure propagates for a side-effecting role and lets a read-only role proceed.\<close>

definition fail_by_role :: "role_policy \<Rightarrow> strands_action res \<times> steering_world \<Rightarrow> strands_action res \<times> steering_world" where
  "fail_by_role p r =
     (case r of
        (Inl e, w) \<Rightarrow>
          (if exn_type e = ''SteeringFailure'' \<and> \<not> rp_side_effecting p
           then Inr (SProceed ''steering audit unavailable; read-only role proceeds'') else Inl e, w)
      | (Inr a, w) \<Rightarrow> (Inr a, w))"

definition steer_before_tool ::
  "steering_env \<Rightarrow> role_policy \<Rightarrow> steering_runtime \<Rightarrow> base_judge option \<Rightarrow> draft_scope option \<Rightarrow> string list option \<Rightarrow> jobj \<Rightarrow>
   steering_world \<Rightarrow> strands_action res \<times> steering_world" where
  "steer_before_tool env p rt base sc registered use w =
     (if \<not> cf_enabled (rt_config rt) then (Inr (SProceed ''steering disabled''), w)
      else if is_unregistered registered use then (Inr (SProceed ''tool absent from agent registry''), w)
      else fail_by_role p (handle_tool env p rt base sc use w))"

definition steer_after_model ::
  "steering_env \<Rightarrow> role_policy \<Rightarrow> steering_runtime \<Rightarrow> base_judge option \<Rightarrow> jobj \<Rightarrow> string \<Rightarrow> steering_world \<Rightarrow>
   strands_action res \<times> steering_world" where
  "steer_after_model env p rt base message stop_reason w =
     (if \<not> cf_enabled (rt_config rt) then (Inr (SProceed ''steering disabled''), w)
      else fail_by_role p (handle_model env p rt base message stop_reason w))"

section \<open>What reaches a side effect\<close>

definition destination_of :: "jobj \<Rightarrow> json" where
  "destination_of use = json_or (json_or (jget use ''destination'') (jget use ''repo'')) (jget use ''channel'')"

text \<open>
  The contract of a side-effecting call, stated on the call's fields and not with the policy's checks: its
  destination project is the run's, a destination that names a repository ends in the run's project, it has an
  idempotency key and its required texts, and the segments of every path it names begin with those of the
  checkout root. The last is lexical: a parent segment after the root is not resolved.
\<close>

definition delivery_ok :: "role_policy \<Rightarrow> steering_runtime \<Rightarrow> string \<Rightarrow> jobj \<Rightarrow> bool" where
  "delivery_ok p rt tool use \<longleftrightarrow>
     (py_truth (jget use ''destination_project'') \<longrightarrow>
        jget use ''destination_project'' = JStr (rs_project_id (rt_scope rt)))
     \<and> (\<forall>d. destination_of use = JStr d \<longrightarrow> slash \<in> set d \<longrightarrow> take 1 d \<noteq> ''#'' \<longrightarrow>
          (\<exists>owner. d = owner @ slash # rs_project_id (rt_scope rt)))
     \<and> (\<exists>k. idempotency_of use = Inr (JStr k) \<and> strip k \<noteq> [])
     \<and> (\<forall>arg \<in> set (text_args p tool). \<exists>v. jget use arg = JStr v \<and> strip v \<noteq> [])
     \<and> (\<forall>root. rs_repo_checkout_root (rt_scope rt) = Some root \<longrightarrow> root \<noteq> [] \<longrightarrow>
          (\<forall>key \<in> set SCOPE_PATH_KEYS. \<forall>path. jget use key = JStr path \<longrightarrow> strip path \<noteq> [] \<longrightarrow> path \<noteq> ''__checkout__'' \<longrightarrow>
             take (length (win_parts root)) (win_parts path) = win_parts root))"

lemma guide_kinds [simp]:
  "sd_kind (guide_decision rt v) = GUIDE" "sd_kind (interrupt_tool rt v) = INTERRUPT"
  "sd_kind (decision k ph r ro ru) = k"
  "sd_phase (guide_decision rt v) = BEFORE_TOOL" "sd_phase (interrupt_tool rt v) = BEFORE_TOOL"
  "sd_phase (decision k ph r ro ru) = ph"
  by (simp_all add: guide_decision_def interrupt_tool_def decision_def)

lemma evaluate_arguments_proceed:
  "sd_kind (evaluate_arguments p rt tool use) = PROCEED \<Longrightarrow> \<forall>arg \<in> set (text_args p tool). \<not> blank_arg use arg"
  by (auto simp: evaluate_arguments_def check_arguments_def Let_def find_None_iff split: option.splits)

lemma check_idempotency_None:
  "check_idempotency use = Inr None \<Longrightarrow> \<exists>k. idempotency_of use = Inr (JStr k) \<and> strip k \<noteq> []"
  by (cases "idempotency_of use") (auto simp: check_idempotency_def split: json.splits if_splits)

lemma check_side_effect_None:
  assumes "check_side_effect_scope render p rt tool use = None" and "tool \<in> set (rp_side_effect_tools p)"
  shows "(py_truth (jget use ''destination_project'') \<longrightarrow>
        jget use ''destination_project'' = JStr (rs_project_id (rt_scope rt)))
     \<and> (case destination_of use of JStr d \<Rightarrow> looks_like_repo d \<longrightarrow> authorized_repo (rt_scope rt) d | _ \<Rightarrow> True)
     \<and> check_scope rt tool use = None"
  using assms
  by (auto simp: check_side_effect_scope_def destination_of_def [symmetric] Let_def split: if_splits option.splits json.splits)

lemma authorized_owner: "authorized_repo s d \<Longrightarrow> \<exists>owner. d = owner @ slash # rs_project_id s"
proof -
  assume "authorized_repo s d"
  then consider "d = rs_org_id s @ slash # rs_project_id s" | t where "rev d = rev (slash # rs_project_id s) @ t"
    by (auto simp: authorized_repo_def ends_with_def starts_with_iff slash_def)
  then show ?thesis
  proof cases
    case 2
    then have "d = rev t @ slash # rs_project_id s" by (metis rev_append rev_rev_ident)
    then show ?thesis by blast
  qed blast
qed

lemma check_scope_keys_None:
  "check_scope_keys tool base use keys = None \<Longrightarrow> key \<in> set keys \<Longrightarrow> jget use key = JStr path \<Longrightarrow>
   strip path = [] \<or> path = ''__checkout__'' \<or> path_within base path"
  by (induction keys) (auto split: json.splits if_splits)

lemma evaluate_tool_proceed:
  assumes "evaluate_tool render sc p rt tool use = Inr d" and "sd_kind d = PROCEED"
    and "rp_role p \<noteq> WRITER" and "tool \<in> set (rp_side_effect_tools p)"
  shows "delivery_ok p rt tool use"
proof -
  have se: "is_side_effect_tool p tool" using assms(4) by (simp add: is_side_effect_tool_def)
  have scope: "check_side_effect_scope render p rt tool use = None"
    using assms(1-3) se by (auto simp: evaluate_tool_def split: option.splits)
  have idem: "check_idempotency use = Inr None" and args: "d = evaluate_arguments p rt tool use"
    using assms(1-3) se scope by (auto simp: evaluate_tool_def split: option.splits sum.splits)
  show ?thesis
    unfolding delivery_ok_def
  proof (intro conjI allI impI ballI)
    note se = check_side_effect_None [OF scope assms(4)]
    show "jget use ''destination_project'' = JStr (rs_project_id (rt_scope rt))" if "py_truth (jget use ''destination_project'')"
      using se that by blast
    show "\<exists>owner. d = owner @ slash # rs_project_id (rt_scope rt)"
      if "destination_of use = JStr d" "slash \<in> set d" "take 1 d \<noteq> ''#''" for d
    proof (rule authorized_owner)
      have "looks_like_repo d" using that(2,3) by (cases d) (auto simp: looks_like_repo_def)
      then show "authorized_repo (rt_scope rt) d" using se that(1) by simp
    qed
    show "\<exists>k. idempotency_of use = Inr (JStr k) \<and> strip k \<noteq> []" by (rule check_idempotency_None [OF idem])
    show "\<exists>v. jget use arg = JStr v \<and> strip v \<noteq> []" if "arg \<in> set (text_args p tool)" for arg
    proof -
      have "\<not> blank_arg use arg" using evaluate_arguments_proceed [of p rt tool use] assms(2) args that by blast
      then show ?thesis by (auto simp: blank_arg_def split: json.splits)
    qed
    show "take (length (win_parts root)) (win_parts path) = win_parts root"
      if "rs_repo_checkout_root (rt_scope rt) = Some root" "root \<noteq> []" "key \<in> set SCOPE_PATH_KEYS" "jget use key = JStr path"
        "strip path \<noteq> []" "path \<noteq> ''__checkout__''" for root key path
    proof -
      have "check_scope_keys tool root use SCOPE_PATH_KEYS = None"
        using se that(1,2) by (simp add: check_scope_def text_or_empty_def)
      from check_scope_keys_None [OF this that(3,4)] that(5,6) show ?thesis by (simp add: path_within_segments)
    qed
  qed
qed

lemma jget_append: "k \<in> fst ` set d \<Longrightarrow> jget (d @ e) k = jget d k"
  by (auto simp: jget_def map_add_def split: option.splits dest: map_of_eq_None_iff [THEN iffD1])

lemma flatten_fold_keeps:
  "k \<in> fst ` set d \<Longrightarrow>
   jget (foldl (\<lambda>flat kv. if fst kv \<in> set (map fst flat) then flat else flat @ [kv]) d raw) k = jget d k"
  by (induction raw arbitrary: d) (auto simp: jget_append)

lemma jget_flatten: "k \<in> fst ` set use \<Longrightarrow> jget (flatten_tool_use use) k = jget use k"
  by (cases "jget use ''input''") (simp_all add: flatten_tool_use_def flatten_fold_keeps del: set_map list.set_map)

lemma use_name_key: "use_name use \<noteq> [] \<Longrightarrow> ''name'' \<in> fst ` set use"
  by (auto simp: use_name_def jget_def split: option.splits json.splits dest: map_of_SomeD intro: rev_image_eqI)

lemma jget_jset: "k \<noteq> k' \<Longrightarrow> jget (jset k' v d) k = jget d k"
proof -
  assume k: "k \<noteq> k'"
  have "map_of (map (\<lambda>kv. if fst kv = k' then (k', v) else kv) d) k = map_of d k"
    using k by (induction d) auto
  then show ?thesis using k by (auto simp: jset_def jget_def map_add_def split: option.splits)
qed

lemma stamp_name:
  "stamp_idempotency_key env p rt use = Inr stamped \<Longrightarrow> jget stamped ''name'' = jget use ''name''"
  by (auto simp: stamp_idempotency_key_def jget_jset split: if_splits json.splits)

lemma stamped_tool:
  assumes "stamp_idempotency_key env p rt use = Inr stamped" and "use_name use \<noteq> []"
  shows "use_name (flatten_tool_use stamped) = use_name use"
proof -
  have n: "use_name stamped = use_name use" using stamp_name [OF assms(1)] by (simp add: use_name_def)
  then have "''name'' \<in> fst ` set stamped" using assms(2) use_name_key by metis
  then show ?thesis using n jget_flatten by (simp add: use_name_def)
qed

lemma charge_guide_proceed:
  assumes "charge_guide fails p rt request rule d w = (Inr d', w')" and "sd_kind d' = PROCEED"
    and "rp_failure_mode p = Fail_Interrupt"
  shows "d' = d"
  using assms
  by (auto simp: charge_guide_def terminal_def interrupt_decision_def split: if_splits prod.splits sum.splits)

lemma record_decision_keeps:
  "sw_inbox (snd (record_decision env rt d tool w)) = sw_inbox w \<and>
   sw_attempts (snd (record_decision env rt d tool w)) = sw_attempts w \<and>
   sw_last_interrupt_id (snd (record_decision env rt d tool w)) = sw_last_interrupt_id w"
  by (simp add: record_decision_def split: sum.splits option.splits)

lemma conclude_action:
  "conclude env rt tool act d w = (Inr a, w') \<Longrightarrow> cf_enforcement_enabled (rt_config rt) \<Longrightarrow>
   a = act d \<and> sw_inbox w' = sw_inbox w \<and> sw_last_interrupt_id w' = sw_last_interrupt_id w"
  using record_decision_keeps [of env rt d tool w] by (auto simp: conclude_def split: sum.splits prod.splits)

text \<open>An enforced tool callback that answers with an action, taken apart.\<close>

lemma handle_tool_enforced:
  assumes "handle_tool env p rt base sc use0 w = (Inr a, w')" and "cf_enforcement_enabled (rt_config rt)"
    and "rp_side_effecting p"
  obtains stamped d w1 d' w2 where
    "stamp_idempotency_key env p rt use0 = Inr stamped"
    "evaluate_tool_async (en_fails env) (en_render env) sc p rt (use_name (flatten_tool_use stamped)) (flatten_tool_use stamped)
       (Some (cached_judge_for env p base (use_name (flatten_tool_use stamped)) (flatten_tool_use stamped))) w = (Inr d, w1)"
    "(if sd_kind d = INTERRUPT
      then persist_intervention env p rt d (use_name (flatten_tool_use stamped))
             (str_or (en_render env) (jget (flatten_tool_use stamped) ''toolUseId'') []) w1
      else (Inr d, w1)) = (Inr d', w2)"
    "a = to_strands_action d'" "sw_inbox w' = sw_inbox w2" "sw_last_interrupt_id w' = sw_last_interrupt_id w2"
proof -
  obtain stamped where st: "stamp_idempotency_key env p rt use0 = Inr stamped"
    using assms(1) by (cases "stamp_idempotency_key env p rt use0") (auto simp: handle_tool_def)
  let ?use = "flatten_tool_use stamped" let ?tool = "use_name ?use"
  let ?ev = "evaluate_tool_async (en_fails env) (en_render env) sc p rt ?tool ?use (Some (cached_judge_for env p base ?tool ?use)) w"
  obtain r1 w1 where ev: "?ev = (r1, w1)" by (cases ?ev)
  obtain d where d: "r1 = Inr d"
    using assms st ev by (cases r1) (auto simp: handle_tool_def Let_def on_policy_failure_def split: if_splits)
  let ?pers = "if sd_kind d = INTERRUPT then persist_intervention env p rt d ?tool
      (str_or (en_render env) (jget ?use ''toolUseId'') []) w1 else (Inr d, w1)"
  obtain r2 w2 where pers: "?pers = (r2, w2)" by (cases ?pers)
  obtain d' where d': "r2 = Inr d'"
    using assms(1,2) st ev d pers by (cases r2) (auto simp: handle_tool_def Let_def)
  have "conclude env rt (Some ?tool) to_strands_action d' w2 = (Inr a, w')"
    using assms(1,2) st ev d pers d' by (simp add: handle_tool_def Let_def)
  from conclude_action [OF this assms(2)] st ev d pers d' that show thesis by blast
qed

lemma fail_by_role_closed:
  "rp_side_effecting p \<Longrightarrow> fail_by_role p r = (Inr a, w') \<Longrightarrow> r = (Inr a, w')"
  by (auto simp: fail_by_role_def split: prod.splits sum.splits)


definition sample_env :: steering_env where
  "sample_env = \<lparr>en_fails = (\<lambda>_. None), en_render = (\<lambda>_. []), en_fmt = (\<lambda>_. []), en_digest = (\<lambda>x. x),
     en_uuid5 = (\<lambda>x. x), en_uuid4 = ''u'', en_new_id = ''i1'', en_now = 0\<rparr>"

definition sample_runtime :: "bool \<Rightarrow> bool \<Rightarrow> steering_runtime" where
  "sample_runtime enforced audited =
     \<lparr>rt_scope = \<lparr>rs_run_id = ''r1'', rs_surface = ''github'', rs_org_id = ''acme'', rs_project_id = ''docs'',
                  rs_workflow_key = None, rs_repo_checkout_root = None\<rparr>,
      rt_config = \<lparr>cf_enabled = True, cf_enforcement_enabled = enforced, cf_policy_version = ''v1'', cf_tool_guides_per_call = 4,
                   cf_model_guides_per_turn = 2, cf_total_guides_per_agent = 7, cf_reason_max_chars = 1000\<rparr>,
      rt_identity = None, rt_attempts = Some default_limits, rt_audit = audited, rt_interventions = True\<rparr>"

definition empty_world :: steering_world where
  "empty_world = \<lparr>sw_attempts = Map.empty, sw_audit = [], sw_inbox = [], sw_judge_cache = [], sw_last_interrupt_id = None\<rparr>"

definition comment_use :: "string \<Rightarrow> jobj" where
  "comment_use repo =
     [(''name'', JStr ''create_comment''), (''toolUseId'', JStr ''t1''),
      (''input'', JObj [(''repo'', JStr repo), (''body'', JStr ''hi'')])]"

text \<open>The sample: a comment on the run's repository that names a file of the run's checkout.\<close>

definition checkout_runtime :: steering_runtime where
  "checkout_runtime =
     (sample_runtime True False)\<lparr>rt_scope := (rt_scope (sample_runtime True False))\<lparr>rs_repo_checkout_root := Some ''/w/repo''\<rparr>\<rparr>"

definition file_comment :: jobj where
  "file_comment = comment_use ''acme/docs'' @ [(''path'', JStr ''/w/repo/docs/a.md'')]"


section \<open>Interrupts are durable, shadow mode is inert\<close>

lemma create_pending_row:
  "create_pending i now r t = (Inr row, t') \<Longrightarrow>
   row \<in> set t' \<and> at_interrupt (iv_run_id r) (iv_interrupt_id r) row \<and> iv_org_id row = iv_org_id r"
  by (auto simp: create_pending_def Let_def at_interrupt_def dest: find_Some_in split: if_splits option.splits)

lemma persist_intervention_row:
  assumes "persist_intervention env p rt d tool tid w = (Inr d', w')" and "rp_side_effecting p"
  shows "\<exists>i row. sw_last_interrupt_id w' = Some i \<and> sd_interrupt_id d' = Some i \<and> row \<in> set (sw_inbox w')
    \<and> at_interrupt (rt_run_id rt) i row \<and> iv_org_id row = rs_org_id (rt_scope rt)"
proof -
  define i where "i = (case sd_interrupt_id d of
      Some i \<Rightarrow> if i = [] then strands_tool_interrupt_id env tid tool else i
    | None \<Rightarrow> strands_tool_interrupt_id env tid tool)"
  have inst: "rt_interventions rt"
    using assms by (cases "rt_interventions rt") (auto simp: persist_intervention_def)
  have ok: "en_fails env Create_Pending = None"
    using assms inst by (cases "en_fails env Create_Pending") (auto simp: persist_intervention_def Let_def)
  obtain c t where cp: "create_pending (en_new_id env) (en_now env) (intervention_of rt d tool i) (sw_inbox w) = (c, t)"
    by (cases "create_pending (en_new_id env) (en_now env) (intervention_of rt d tool i) (sw_inbox w)")
  obtain row where row: "c = Inr row"
    using assms inst ok cp unfolding i_def by (cases c) (auto simp: persist_intervention_def Let_def)
  then have "sw_last_interrupt_id w' = Some i \<and> sd_interrupt_id d' = Some i \<and> sw_inbox w' = t"
    using assms inst ok cp unfolding i_def by (auto simp: persist_intervention_def Let_def)
  with create_pending_row [OF cp [unfolded row]] show ?thesis by (auto simp: intervention_of_def)
qed

text \<open>
  Before an interrupt of a side-effecting role is returned to Strands, the inbox holds its row: the
  identifier the handler remembers names a row of this run and organization.
\<close>

theorem interrupts_durable:
  assumes "rp_side_effecting p" and "cf_enforcement_enabled (rt_config rt)"
    and "steer_before_tool env p rt base sc registered use w = (Inr (SInterrupt why), w')"
  shows "\<exists>i row. sw_last_interrupt_id w' = Some i \<and> row \<in> set (sw_inbox w')
    \<and> at_interrupt (rt_run_id rt) i row \<and> iv_org_id row = rs_org_id (rt_scope rt)"
proof -
  have "fail_by_role p (handle_tool env p rt base sc use w) = (Inr (SInterrupt why), w')"
    using assms(3) by (simp add: steer_before_tool_def split: if_splits)
  note ht = fail_by_role_closed [OF assms(1) this]
  from ht assms(2,1) show ?thesis
  proof (rule handle_tool_enforced)
    fix stamped d w1 d' w2
    assume pe: "(if sd_kind d = INTERRUPT then persist_intervention env p rt d (use_name (flatten_tool_use stamped))
             (str_or (en_render env) (jget (flatten_tool_use stamped) ''toolUseId'') []) w1 else (Inr d, w1)) = (Inr d', w2)"
      and act: "SInterrupt why = to_strands_action d'"
      and w': "sw_inbox w' = sw_inbox w2" "sw_last_interrupt_id w' = sw_last_interrupt_id w2"
    have "sd_kind d' = INTERRUPT" using act by (simp add: to_strands_action_def split: decision_kind.splits)
    then have "persist_intervention env p rt d (use_name (flatten_tool_use stamped))
             (str_or (en_render env) (jget (flatten_tool_use stamped) ''toolUseId'') []) w1 = (Inr d', w2)"
      using pe by (auto split: if_splits)
    from persist_intervention_row [OF this assms(1)] w' show ?thesis by auto
  qed
qed

definition foreign_comment :: "strands_action res \<times> steering_world" where
  "foreign_comment =
     steer_before_tool sample_env (policy_for DELIVERY) (sample_runtime True False) None None None
       (comment_use [CHR ''x'', slash, CHR ''y'']) empty_world"

theorem interrupts_durable_witness:
  "\<exists>i row. sw_last_interrupt_id (snd foreign_comment) = Some i \<and> row \<in> set (sw_inbox (snd foreign_comment))
     \<and> at_interrupt (rt_run_id (sample_runtime True False)) i row \<and> iv_org_id row = rs_org_id (rt_scope (sample_runtime True False))"
proof -
  let ?use = "comment_use [CHR ''x'', slash, CHR ''y'']" let ?rt = "sample_runtime True False" let ?p = "policy_for DELIVERY"
  obtain stamped d where st: "stamp_idempotency_key sample_env ?p ?rt ?use = Inr stamped"
    "use_name (flatten_tool_use stamped) = ''create_comment''"
    and ev: "evaluate_tool (\<lambda>_. []) None ?p ?rt ''create_comment'' (flatten_tool_use stamped) = Inr d" "sd_kind d = INTERRUPT"
  proof -
    have "case stamp_idempotency_key sample_env ?p ?rt ?use of
        Inr st \<Rightarrow> use_name (flatten_tool_use st) = ''create_comment'' \<and>
          (case evaluate_tool (\<lambda>_. []) None ?p ?rt ''create_comment'' (flatten_tool_use st) of
             Inr d \<Rightarrow> sd_kind d = INTERRUPT | _ \<Rightarrow> False) | _ \<Rightarrow> False" by code_simp
    then show thesis using that by (auto split: sum.splits)
  qed
  have "\<exists>why. fst foreign_comment = Inr (SInterrupt why)"
    using st ev
    by (auto simp: foreign_comment_def steer_before_tool_def is_unregistered_def handle_tool_def evaluate_tool_async_def
        apply_judge_def charge_guide_def persist_intervention_def create_pending_def conclude_def record_decision_def
        fail_by_role_def to_strands_action_def sample_env_def sample_runtime_def empty_world_def key_taken_def Let_def
        split: option.splits)
  then obtain why where why: "fst foreign_comment = Inr (SInterrupt why)" by blast
  show ?thesis
    by (rule interrupts_durable [of ?p _ sample_env None None None ?use empty_world why])
      (use why in \<open>simp_all add: foreign_comment_def prod_eq_iff\<close>, simp add: sample_runtime_def)
qed

definition same_durable :: "steering_world \<Rightarrow> steering_world \<Rightarrow> bool" where
  "same_durable w w' \<longleftrightarrow>
     sw_attempts w' = sw_attempts w \<and> sw_inbox w' = sw_inbox w \<and> sw_last_interrupt_id w' = sw_last_interrupt_id w"

lemma same_durable_refl [simp]: "same_durable w w"
  by (simp add: same_durable_def)

lemma same_durable_trans: "same_durable w w1 \<Longrightarrow> same_durable w1 w2 \<Longrightarrow> same_durable w w2"
  by (simp add: same_durable_def)

lemma cached_judge_durable: "same_durable w (snd (cached_judge_for env p base tool use d w))"
  by (simp add: cached_judge_for_def same_durable_def Let_def split: option.splits sum.splits)

lemma apply_judge_durable:
  "(\<And>d w. same_durable w (snd (j d w))) \<Longrightarrow> same_durable w (snd (apply_judge p (Some j) d w))"
proof -
  assume j: "\<And>d w. same_durable w (snd (j d w))"
  show ?thesis using j [of w d] by (cases "j d w") (auto simp: apply_judge_def split: sum.splits option.splits)
qed

lemma conclude_durable: "same_durable w (snd (conclude env rt tool act d w))"
  using record_decision_keeps [of env rt d tool w]
  by (auto simp: conclude_def same_durable_def split: prod.splits sum.splits)

lemma conclude_shadow:
  "\<not> cf_enforcement_enabled (rt_config rt) \<Longrightarrow> fst (conclude env rt tool act d w) = Inr a \<Longrightarrow> \<exists>why. a = SProceed why"
  by (auto simp: conclude_def split: prod.splits sum.splits)

text \<open>A result of shadow mode: durable state kept, no action but proceed.\<close>

definition inert :: "steering_world \<Rightarrow> strands_action res \<times> steering_world \<Rightarrow> bool" where
  "inert w r \<longleftrightarrow> same_durable w (snd r) \<and> (\<forall>a. fst r = Inr a \<longrightarrow> (\<exists>why. a = SProceed why))"

lemma inert_proceed [simp]: "inert w (Inr (SProceed why), w)"
  by (simp add: inert_def)

lemma fail_by_role_inert: "inert w r \<Longrightarrow> inert w (fail_by_role p r)"
  by (cases r) (auto simp: fail_by_role_def inert_def split: sum.splits)

lemma handle_tool_shadow:
  assumes "\<not> cf_enforcement_enabled (rt_config rt)"
  shows "inert w (handle_tool env p rt base sc use w)"
proof (cases "stamp_idempotency_key env p rt use")
  case (Inr stamped)
  let ?use = "flatten_tool_use stamped" let ?tool = "use_name ?use"
  let ?ev = "evaluate_tool_shadow (en_render env) sc p rt ?tool ?use (Some (cached_judge_for env p base ?tool ?use)) w"
  obtain r1 w1 where ev: "?ev = (r1, w1)" by (cases ?ev)
  have w1: "same_durable w w1"
    using ev apply_judge_durable [of "cached_judge_for env p base ?tool ?use" w p, OF cached_judge_durable]
    by (auto simp: evaluate_tool_shadow_def split: sum.splits prod.splits dest: arg_cong [where f = snd])
      (metis snd_conv)
  show ?thesis
  proof (cases r1)
    case (Inl e)
    then show ?thesis
      using assms Inr ev w1 by (auto simp: handle_tool_def Let_def on_policy_failure_def inert_def split: if_splits)
  next
    case r1: (Inr d)
    have "handle_tool env p rt base sc use w = conclude env rt (Some ?tool) to_strands_action d w1"
      using assms Inr ev r1 by (simp add: handle_tool_def Let_def)
    then show ?thesis
      using w1 conclude_durable conclude_shadow [OF assms] same_durable_trans unfolding inert_def by metis
  qed
qed (simp add: handle_tool_def inert_def)

lemma apply_plain_judge: "\<exists>d'. apply_judge p (map_option (\<lambda>j d w. (map_sum id Some (j d), w)) base) d w = (d', w)"
proof (cases base)
  case (Some j)
  then show ?thesis by (cases "j d") (simp_all add: apply_judge_def)
qed (simp add: apply_judge_def)

lemma handle_model_shadow:
  assumes "\<not> cf_enforcement_enabled (rt_config rt)"
  shows "inert w (handle_model env p rt base message stop w)"
proof -
  obtain d where d: "apply_judge p (map_option (\<lambda>j d w. (map_sum id Some (j d), w)) base) (evaluate_model p rt message stop) w = (d, w)"
    using apply_plain_judge by blast
  have "handle_model env p rt base message stop w = conclude env rt None model_action d w"
    using assms by (simp add: handle_model_def evaluate_model_shadow_def Let_def d)
  then show ?thesis using conclude_durable conclude_shadow [OF assms] unfolding inert_def by metis
qed

text \<open>
  Without enforcement a callback never guides or interrupts, whatever the policy and the judge say,
  and leaves the guide budgets, the inbox and the remembered interrupt as they were.
\<close>

theorem shadow_mode_inert:
  assumes "\<not> cf_enforcement_enabled (rt_config rt)"
    and "r \<in> {steer_before_tool env p rt base sc registered use w, steer_after_model env p rt base message stop w}"
  shows "same_durable w (snd r) \<and> (\<forall>a. fst r = Inr a \<longrightarrow> (\<exists>why. a = SProceed why))"
  using assms(2) fail_by_role_inert [OF handle_tool_shadow [OF assms(1)]] fail_by_role_inert [OF handle_model_shadow [OF assms(1)]]
  unfolding inert_def [symmetric] steer_before_tool_def steer_after_model_def by (auto split: if_splits)

theorem shadow_mode_inert_witness:
  "same_durable empty_world (snd (steer_before_tool sample_env (policy_for DELIVERY) (sample_runtime False True) None None None
     (comment_use [CHR ''x'', slash, CHR ''y'']) empty_world))"
  using shadow_mode_inert [of "sample_runtime False True" _ sample_env "policy_for DELIVERY" None None None
      "comment_use [CHR ''x'', slash, CHR ''y'']" empty_world "[]" "[]"]
  by (simp add: sample_runtime_def)

section \<open>Audit failures and model guides\<close>

lemma audit_detail_ok: "dict_ok (audit_detail rt d tool) \<and> (\<forall>s. audit_detail rt d tool \<noteq> JStr s)"
  by (auto simp: audit_detail_def str_json_def split: option.splits)

lemma audit_detail_redacted: "\<exists>v. redact_value fmt 4096 (audit_detail rt d tool) = Inr v"
proof -
  have "redact_secrets (audit_detail rt d tool) \<noteq> JStr s" for s by (simp add: audit_detail_def)
  with shrink_value_inv [OF redact_secrets_dict_ok redact_secrets_hidden] audit_detail_ok
  show ?thesis by (fastforce simp: redact_value_def)
qed

lemma record_decision_ok:
  "en_fails env Record_Step = None \<Longrightarrow> fst (record_decision env rt d tool w) = Inr ()"
  using audit_detail_redacted [of "en_fmt env" rt d tool] by (auto simp: record_decision_def)

lemma record_decision_down:
  "rt_audit rt \<Longrightarrow> en_fails env Record_Step = Some e \<Longrightarrow>
   fst (record_decision env rt d tool w) = Inl (SteeringFailure (''steering audit write failed: '' @ exn_msg e))"
  using audit_detail_redacted [of "en_fmt env" rt d tool] by (auto simp: record_decision_def)

lemma charge_guide_outcome:
  assumes "rp_failure_mode p = Fail_Interrupt" and "sd_kind d = GUIDE" and "sd_phase d = BEFORE_TOOL"
  shows "\<exists>d' w'. charge_guide (\<lambda>_. None) p rt request rule d w = (Inr d', w') \<and> (sd_kind d' = GUIDE \<or> sd_kind d' = INTERRUPT)"
proof -
  obtain ok w' where "reserve_for (\<lambda>_. None) request rt w = (Inr ok, w')"
    by (cases "rt_attempts rt") (auto simp: reserve_for_def case_prod_unfold)
  with assms show ?thesis by (cases ok) (simp_all add: charge_guide_def terminal_def interrupt_decision_def)
qed

lemma conclude_down:
  "rt_audit rt \<Longrightarrow> en_fails env Record_Step = Some e \<Longrightarrow>
   fst (conclude env rt tool act d w) = Inl (SteeringFailure (''steering audit write failed: '' @ exn_msg e))"
  using record_decision_down [of rt env e d tool w] by (auto simp: conclude_def split: prod.splits)

lemma handle_tool_down_closed:
  assumes "rp_side_effecting p" and "rt_audit rt" and "en_fails env Record_Step = Some e"
  shows "\<exists>err. fst (handle_tool env p rt base sc use w) = Inl err"
  using assms conclude_down [OF assms(2,3)]
  by (auto simp: handle_tool_def Let_def on_policy_failure_def split: sum.splits prod.splits)

lemma read_only_policies:
  "\<not> rp_side_effecting (policy_for role) \<Longrightarrow>
   rp_side_effect_tools (policy_for role) = [] \<and> rp_deliver_tools (policy_for role) = [] \<and> rp_failure_mode (policy_for role) = Fail_Proceed"
  by (cases role) (simp_all add: read_only_policy_def)

lemma evaluate_tool_read_only:
  "\<not> rp_side_effecting (policy_for role) \<Longrightarrow> \<exists>d. evaluate_tool render sc (policy_for role) rt tool use = Inr d"
  using read_only_policies [of role] by (auto simp: evaluate_tool_def is_side_effect_tool_def split: option.splits)

lemma evaluate_read_only_async:
  assumes "\<not> rp_side_effecting (policy_for role)" and "fails Reserve_Guide = None"
  shows "\<exists>d w'. evaluate_tool_async fails render sc (policy_for role) rt tool use judge w = (Inr d, w')"
proof -
  obtain d0 where d0: "evaluate_tool render sc (policy_for role) rt tool use = Inr d0"
    using evaluate_tool_read_only [OF assms(1)] by blast
  obtain d w1 where j: "apply_judge (policy_for role) judge d0 w = (d, w1)" by (cases "apply_judge (policy_for role) judge d0 w")
  obtain ok w2 where r: "reserve_for fails (reserve_tool rt tool) rt w1 = (Inr ok, w2)"
    using assms(2) by (cases "rt_attempts rt") (auto simp: reserve_for_def case_prod_unfold)
  show ?thesis
    using d0 j r read_only_policies [OF assms(1)] by (cases ok) (simp_all add: evaluate_tool_async_def charge_guide_def terminal_def)
qed

lemma persist_read_only: "\<not> rp_side_effecting p \<Longrightarrow> \<exists>d' w'. persist_intervention env p rt d tool tid w = (Inr d', w')"
  by (simp add: persist_intervention_def Let_def case_prod_unfold split: sum.splits option.splits)

lemma handle_tool_down_open:
  assumes "\<not> rp_side_effecting (policy_for role)" and "rt_audit rt" and "en_fails env Record_Step = Some e"
    and "en_fails env Reserve_Guide = None"
  shows "fst (handle_tool env (policy_for role) rt base sc use w) = Inl (SteeringFailure (''steering audit write failed: '' @ exn_msg e))"
proof -
  let ?p = "policy_for role" let ?use = "flatten_tool_use use" let ?tool = "use_name ?use"
  let ?judge = "Some (cached_judge_for env ?p base ?tool ?use)"
  have st: "stamp_idempotency_key env ?p rt use = Inr use"
    using read_only_policies [OF assms(1)] by (simp add: stamp_idempotency_key_def)
  obtain d w1 where ev: "(if cf_enforcement_enabled (rt_config rt)
      then evaluate_tool_async (en_fails env) (en_render env) sc ?p rt ?tool ?use ?judge w
      else evaluate_tool_shadow (en_render env) sc ?p rt ?tool ?use ?judge w) = (Inr d, w1)"
  proof (cases "cf_enforcement_enabled (rt_config rt)")
    case True
    with evaluate_read_only_async [where fails = "en_fails env", OF assms(1,4)] that show thesis by (metis (full_types))
  next
    case False
    obtain d0 where "evaluate_tool (en_render env) sc ?p rt ?tool ?use = Inr d0"
      using evaluate_tool_read_only [OF assms(1)] by blast
    with False that show thesis
      by (cases "apply_judge ?p ?judge d0 w") (simp add: evaluate_tool_shadow_def)
  qed
  obtain d' w2 where "(if sd_kind d = INTERRUPT \<and> cf_enforcement_enabled (rt_config rt)
      then persist_intervention env ?p rt d ?tool (str_or (en_render env) (jget ?use ''toolUseId'') []) w1
      else (Inr d, w1)) = (Inr d', w2)"
    using persist_read_only [OF assms(1)] by (cases "sd_kind d = INTERRUPT \<and> cf_enforcement_enabled (rt_config rt)") (metis, simp)
  with st ev conclude_down [OF assms(2,3)] show ?thesis by (simp add: handle_tool_def Let_def)
qed

text \<open>
  When the audit row of a decision cannot be written, a side-effecting role gets no action at all, the
  callback raises, while a read-only role proceeds.
\<close>

theorem audit_failure_by_role:
  assumes "cf_enabled (rt_config rt)" and "\<not> is_unregistered registered use" and "rt_audit rt"
    and "en_fails env Record_Step = Some e" and "en_fails env Reserve_Guide = None"
  shows "if rp_side_effecting (policy_for role)
    then \<exists>err. fst (steer_before_tool env (policy_for role) rt base sc registered use w) = Inl err
    else \<exists>why. fst (steer_before_tool env (policy_for role) rt base sc registered use w) = Inr (SProceed why)"
proof (cases "rp_side_effecting (policy_for role)")
  case True
  from handle_tool_down_closed [OF True assms(3,4), of base sc use w] True assms(1,2) show ?thesis
    by (cases "handle_tool env (policy_for role) rt base sc use w") (auto simp: steer_before_tool_def fail_by_role_def)
next
  case False
  from handle_tool_down_open [OF False assms(3-5), of base sc use w] False assms(1,2) show ?thesis
    by (cases "handle_tool env (policy_for role) rt base sc use w") (auto simp: steer_before_tool_def fail_by_role_def)
qed

theorem audit_failure_by_role_witness:
  "(\<exists>err. fst (steer_before_tool (sample_env\<lparr>en_fails := (\<lambda>c. if c = Record_Step then Some (Exn ''OSError'' ''down'') else None)\<rparr>)
       (policy_for DELIVERY) (sample_runtime True True) None None None (comment_use ''acme/docs'') empty_world) = Inl err)"
  using audit_failure_by_role [of "sample_runtime True True" None "comment_use ''acme/docs''"
      "sample_env\<lparr>en_fails := (\<lambda>c. if c = Record_Step then Some (Exn ''OSError'' ''down'') else None)\<rparr>"
      "Exn ''OSError'' ''down''" DELIVERY None None empty_world]
  by (simp add: sample_runtime_def is_unregistered_def)

text \<open>
  For a delivery or support agent an unsafe stop of the model is always answered with a guide, even
  when the model-guide budget is used up: the terminal interrupt carries the tool phase and is turned
  back into a guide, so the budget never ends the loop.
\<close>

theorem model_guides_unbounded:
  assumes "role \<in> {DELIVERY, SUPPORT}" and "cf_enabled (rt_config rt)" and "cf_enforcement_enabled (rt_config rt)"
    and "stop_reason \<in> {''content_filtered'', ''guardrail_intervened'', ''limit_total_tokens''}"
    and "en_fails env = (\<lambda>_. None)"
  shows "\<exists>why. fst (steer_after_model env (policy_for role) rt base message stop_reason w) = Inr (SGuide why)"
proof -
  let ?p = "policy_for role"
  let ?d = "guide_decision rt (''model:unsafe-stop'', ''unsafe model stop reason '' @ quoted stop_reason)"
  have p: "rp_failure_mode ?p = Fail_Interrupt" "\<not> rp_judge_enabled ?p" using assms(1) by auto
  have d: "evaluate_model ?p rt message stop_reason = ?d" using assms(4) by (simp add: evaluate_model_def)
  have j: "apply_judge ?p j ?d w = (?d, w)" for j using p(2) by (simp add: apply_judge_def split: option.splits)
  obtain d w1 where ch: "charge_guide (\<lambda>_. None) ?p rt (reserve_model rt) ''limit:model_guides'' ?d w = (Inr d, w1)"
    and k: "sd_kind d = GUIDE \<or> sd_kind d = INTERRUPT"
    using charge_guide_outcome [OF p(1), of ?d rt "reserve_model rt" "''limit:model_guides''" w] by auto
  have "handle_model env ?p rt base message stop_reason w = conclude env rt None model_action d w1"
    using assms(3,5) d j ch by (simp add: handle_model_def evaluate_model_async_def Let_def)
  moreover have "fst (conclude env rt None model_action d w1) = Inr (model_action d)"
    using record_decision_ok [of env rt d None w1] assms(3,5) by (auto simp: conclude_def split: prod.splits)
  moreover have "\<exists>why. model_action d = SGuide why" using k by (auto simp: model_action_def to_strands_action_def)
  ultimately show ?thesis
    using assms(2) by (cases "conclude env rt None model_action d w1") (auto simp: steer_after_model_def fail_by_role_def)
qed

theorem model_guides_unbounded_witness:
  "\<exists>why. fst (steer_after_model sample_env (policy_for SUPPORT) (sample_runtime True True) None [] ''content_filtered''
     (empty_world\<lparr>sw_attempts := [model_key ''r1'' [] [] \<mapsto> 2]\<rparr>)) = Inr (SGuide why)"
  by (rule model_guides_unbounded) (simp_all add: sample_runtime_def sample_env_def)

end
