(* ===== verification/Delivery_Graph.thy ===== *)
theory Delivery_Graph
  imports Page_Node Writer_Reads
begin

text \<open>
  The way to delivery in the documentation graph: node payloads (\<^verbatim>\<open>orchestration/nodes/base.py\<close>), the edge
  conditions of \<^verbatim>\<open>orchestration/routing/conditions.py\<close>, the edges of
  \<^verbatim>\<open>orchestration/graphs/documentation_graph.py\<close>, the review policy of \<^verbatim>\<open>routing/policies.py\<close>, the surfaces
  of \<^verbatim>\<open>routing/classifiers.py\<close>, the review gate of \<^verbatim>\<open>hooks/review_gate.py\<close>, the generation counter of
  \<^verbatim>\<open>hooks/draft_generation.py\<close> and the payload the document node hands to the gate. The JSON parser and
  \<^verbatim>\<open>str\<close> of a compound value are parameters. Strands schedules a node when a node with an edge to it
  completes and the edge's condition holds.
\<close>

section \<open>Node payloads\<close>

record json_lib =
  jl_loads :: "string \<Rightarrow> json option"
  jl_render :: "json \<Rightarrow> string"

text \<open>A structured output is a pydantic model, or an object of which only a verdict can be read.\<close>

datatype structured = Model jobj | Plain "string option"

record agent_output =
  ao_structured :: "structured option"
  ao_content :: "json list"

datatype node_payload = Single agent_output | Multi "(string \<times> agent_output) list"

record node_run =
  nd_completed :: bool
  nd_payload :: node_payload

record graph_state =
  gs_task :: "string option"
  gs_results :: "(string \<times> node_run) list"

abbreviation AttributeError :: "string \<Rightarrow> exn" where "AttributeError m \<equiv> Exn ''AttributeError'' m"

definition has_result :: "graph_state \<Rightarrow> string \<Rightarrow> bool" where
  "has_result st n \<longleftrightarrow> map_of (gs_results st) n \<noteq> None"

definition text_block :: "json \<Rightarrow> bool" where
  "text_block b \<longleftrightarrow> (case b of JObj d \<Rightarrow> ''text'' \<in> set (map fst d) | _ \<Rightarrow> False)"

definition output_of :: "graph_state \<Rightarrow> string \<Rightarrow> agent_output res" where
  "output_of st n =
     (case map_of (gs_results st) n of
        None \<Rightarrow> Inl (KeyError n)
      | Some r \<Rightarrow>
          (case nd_payload r of
             Single o1 \<Rightarrow> Inr o1
           | Multi rs \<Rightarrow> (case map_of rs n of None \<Rightarrow> Inl (KeyError n) | Some o1 \<Rightarrow> Inr o1)))"

definition payload_of :: "json_lib \<Rightarrow> string \<Rightarrow> agent_output \<Rightarrow> json res" where
  "payload_of lib n out =
     (case ao_structured out of
        Some (Model d) \<Rightarrow> Inr (JObj d)
      | Some (Plain _) \<Rightarrow> Inl (AttributeError ''model_dump'')
      | None \<Rightarrow>
          (case find text_block (ao_content out) of
             Some (JObj b) \<Rightarrow>
               (case jget b ''text'' of
                  JStr t \<Rightarrow> (case jl_loads lib t of None \<Rightarrow> Inl (ValueError ''JSONDecodeError'') | Some v \<Rightarrow> Inr v)
                | _ \<Rightarrow> Inl (Exn ''TypeError'' ''the JSON object must be str, bytes or bytearray''))
           | _ \<Rightarrow> Inl (ValueError (''node <'' @ n @ ''> has no parsable payload '' @
                  ''(structured output lost, message has no text block)''))))"

definition node_data :: "json_lib \<Rightarrow> graph_state \<Rightarrow> string \<Rightarrow> json res" where
  "node_data lib st n = (case output_of st n of Inl e \<Rightarrow> Inl e | Inr out \<Rightarrow> payload_of lib n out)"

text \<open>A payload that is the JSON null counts as none, as \<^verbatim>\<open>data is not None\<close> has it.\<close>

definition safe_node_data :: "json_lib \<Rightarrow> graph_state \<Rightarrow> string \<Rightarrow> json option" where
  "safe_node_data lib st n =
     (case node_data lib st n of Inl _ \<Rightarrow> None | Inr JNull \<Rightarrow> None | Inr v \<Rightarrow> Some v)"

text \<open>\<^verbatim>\<open>data.get(k)\<close> and \<^verbatim>\<open>data[k]\<close>.\<close>

definition get_res :: "json \<Rightarrow> string \<Rightarrow> json res" where
  "get_res v k = (case v of JObj d \<Rightarrow> Inr (jget d k) | _ \<Rightarrow> Inl (AttributeError ''get''))"

definition item_res :: "json \<Rightarrow> string \<Rightarrow> json res" where
  "item_res v k =
     (case v of
        JObj d \<Rightarrow> (case map_of d k of None \<Rightarrow> Inl (KeyError k) | Some x \<Rightarrow> Inr x)
      | _ \<Rightarrow> Inl (Exn ''TypeError'' ''indices must be integers''))"

definition and_then :: "'a res \<Rightarrow> ('a \<Rightarrow> 'b res) \<Rightarrow> 'b res" where
  "and_then r f = (case r of Inl e \<Rightarrow> Inl e | Inr x \<Rightarrow> f x)"

lemma and_then_Inr: "and_then r f = Inr y \<longleftrightarrow> (\<exists>x. r = Inr x \<and> f x = Inr y)"
  by (cases r) (simp_all add: and_then_def)

section \<open>Conditions\<close>

type_synonym condition = "json_lib \<Rightarrow> graph_state \<Rightarrow> bool res"

definition RECOGNIZED_SURFACES :: "string list" where
  "RECOGNIZED_SURFACES = [''pull_request'', ''issues'', ''slack'', ''discord'', ''release'']"

text \<open>\<^verbatim>\<open>task_data.get("event_type", "")\<close>; only text has \<^verbatim>\<open>split\<close> and \<^verbatim>\<open>startswith\<close>.\<close>

definition event_type_of :: "json \<Rightarrow> string res" where
  "event_type_of v =
     (case v of
        JObj d \<Rightarrow>
          (case map_of d ''event_type'' of
             None \<Rightarrow> Inr [] | Some (JStr s) \<Rightarrow> Inr s | Some _ \<Rightarrow> Inl (AttributeError ''split''))
      | _ \<Rightarrow> Inl (AttributeError ''get''))"

definition is_valid_surface :: condition where
  "is_valid_surface lib st =
     (case gs_task st of
        None \<Rightarrow> Inr False
      | Some t \<Rightarrow>
          (case jl_loads lib t of
             None \<Rightarrow> Inr False
           | Some v \<Rightarrow> map_sum id (\<lambda>s. hd (split_on CHR ''.'' s) \<in> set RECOGNIZED_SURFACES) (event_type_of v)))"

text \<open>The node ran and its payload's action is one of those given.\<close>

definition action_in :: "string \<Rightarrow> string list \<Rightarrow> condition" where
  "action_in node actions lib st =
     (if \<not> has_result st node then Inr False
      else case safe_node_data lib st node of
             None \<Rightarrow> Inr False
           | Some v \<Rightarrow> map_sum id (\<lambda>a. a \<in> JStr ` set actions) (get_res v ''action''))"

definition route_to_answer_of :: "string \<Rightarrow> condition" where
  "route_to_answer_of node = action_in node [''answer'']"
definition route_to_update_of :: "string \<Rightarrow> condition" where
  "route_to_update_of node = action_in node [''update'']"
definition route_to_create_of :: "string \<Rightarrow> condition" where
  "route_to_create_of node = action_in node [''create'']"
definition route_to_write_of :: "string \<Rightarrow> condition" where
  "route_to_write_of node = action_in node [''update'', ''create'']"

definition generated :: condition where
  "generated lib st = Inr (list_ex (has_result st) [''answer'', ''update'', ''create'', ''document''])"

text \<open>\<^verbatim>\<open>data["passed"]\<close> of a node that ran, false when it did not run or has no payload.\<close>

definition passed_item :: "string \<Rightarrow> (bool \<Rightarrow> bool) \<Rightarrow> condition" where
  "passed_item node f lib st =
     (if \<not> has_result st node then Inr False
      else case safe_node_data lib st node of
             None \<Rightarrow> Inr False
           | Some v \<Rightarrow> map_sum id (\<lambda>x. f (py_truth x)) (item_res v ''passed''))"

definition needs_revision :: condition where
  "needs_revision = passed_item ''evaluate'' Not"

definition needs_revision_of :: "string list \<Rightarrow> condition" where
  "needs_revision_of nodes lib st =
     map_sum id (\<lambda>b. b \<and> list_ex (has_result st) nodes) (needs_revision lib st)"

definition eval_passed :: condition where
  "eval_passed = passed_item ''evaluate'' id"

definition review_verdict :: "json_lib \<Rightarrow> graph_state \<Rightarrow> string option res" where
  "review_verdict lib st =
     (if \<not> has_result st ''review'' then Inr None
      else case safe_node_data lib st ''review'' of
             Some v \<Rightarrow> map_sum id (\<lambda>x. Some (str_or (jl_render lib) x [])) (get_res v ''verdict'')
           | None \<Rightarrow>
               (case map_of (gs_results st) ''review'' of
                  Some r \<Rightarrow>
                    (case nd_payload r of
                       Single out \<Rightarrow>
                         (case ao_structured out of
                            Some (Plain v) \<Rightarrow> Inr (Some (text_or_empty v))
                          | Some (Model d) \<Rightarrow> Inr (Some (str_or (jl_render lib) (jget d ''verdict'') []))
                          | None \<Rightarrow> Inr None)
                     | Multi _ \<Rightarrow> Inr None)
                | None \<Rightarrow> Inr None))"

definition review_clean :: condition where
  "review_clean lib st = map_sum id (\<lambda>v. v = Some ''clean'') (review_verdict lib st)"

definition needs_correction :: condition where
  "needs_correction lib st = map_sum id (\<lambda>v. v = Some ''correct'') (review_verdict lib st)"

definition eval_ready :: condition where
  "eval_ready lib st = (if has_result st ''answer'' then Inr True else review_clean lib st)"

definition all_dependencies_complete :: "string list \<Rightarrow> condition" where
  "all_dependencies_complete required lib st =
     Inr (list_all (\<lambda>n. case map_of (gs_results st) n of Some r \<Rightarrow> nd_completed r | None \<Rightarrow> False) required)"

definition none_and_release :: condition where
  "none_and_release lib st =
     (if \<not> has_result st ''impact'' then Inr False
      else case safe_node_data lib st ''impact'' of
             None \<Rightarrow> Inr False
           | Some v \<Rightarrow>
               and_then (get_res v ''action'') (\<lambda>a.
                 if a \<noteq> JStr ''none'' then Inr False
                 else and_then
                   (case gs_task st of
                      None \<Rightarrow> Inr (JObj [])
                    | Some t \<Rightarrow> (case jl_loads lib t of None \<Rightarrow> Inl (ValueError ''JSONDecodeError'') | Some d \<Rightarrow> Inr d))
                   (\<lambda>d. map_sum id (starts_with ''release'') (event_type_of d))))"

definition generated_changelog :: condition where
  "generated_changelog lib st = Inr (has_result st ''changelog'')"

definition changelog_needs_revision :: condition where
  "changelog_needs_revision lib st =
     map_sum id (\<lambda>b. b \<and> has_result st ''changelog'') (passed_item ''changelog_evaluate'' Not lib st)"

definition changelog_eval_passed :: condition where
  "changelog_eval_passed = passed_item ''changelog_evaluate'' id"

text \<open>The document node's payload and the result inside it.\<close>

definition result_in :: "jobj \<Rightarrow> jobj" where
  "result_in payload = (case jget payload ''result'' of JObj r \<Rightarrow> r | _ \<Rightarrow> payload)"

definition documentation_pair :: "json_lib \<Rightarrow> graph_state \<Rightarrow> jobj \<times> jobj" where
  "documentation_pair lib st =
     (if \<not> has_result st ''document'' then ([], [])
      else case safe_node_data lib st ''document'' of
             Some (JObj payload) \<Rightarrow> (payload, result_in payload)
           | _ \<Rightarrow> ([], []))"

text \<open>\<^verbatim>\<open>for item in value or []\<close>, the dictionaries among the items: text and dictionaries yield none, a number raises.\<close>

definition dict_items :: "json \<Rightarrow> jobj list res" where
  "dict_items v =
     (if \<not> py_truth v then Inr []
      else case v of
             JList xs \<Rightarrow> Inr (List.map_filter (\<lambda>x. case x of JObj d \<Rightarrow> Some d | _ \<Rightarrow> None) xs)
           | JStr _ \<Rightarrow> Inr []
           | JObj _ \<Rightarrow> Inr []
           | _ \<Rightarrow> Inl (Exn ''TypeError'' ''object is not iterable''))"

definition WRITE_FILE_ACTIONS :: "string list" where
  "WRITE_FILE_ACTIONS = [''create'', ''update'']"

definition item_path :: "json_lib \<Rightarrow> jobj \<Rightarrow> string" where
  "item_path lib item = str_or (jl_render lib) (jget item ''path'') []"

definition planned_page_paths :: "json_lib \<Rightarrow> jobj \<Rightarrow> string list res" where
  "planned_page_paths lib payload =
     map_sum id (\<lambda>items. map (item_path lib) (filter (\<lambda>item.
         let action = str_or (jl_render lib) (jget item ''action'') [] in
         item_path lib item \<noteq> [] \<and> \<not> (action \<noteq> [] \<and> action \<notin> set WRITE_FILE_ACTIONS)) items))
       (dict_items (jget payload ''files''))"

definition sealed_page_paths :: "json_lib \<Rightarrow> jobj \<Rightarrow> string list res" where
  "sealed_page_paths lib payload =
     map_sum id (\<lambda>items. filter (\<lambda>p. p \<noteq> []) (map (item_path lib) items)) (dict_items (jget payload ''sealed_pages''))"

definition documentation_passed :: condition where
  "documentation_passed lib st =
     (let (payload, result) = documentation_pair lib st in
      if jget result ''passed'' \<noteq> JBool True then Inr False
      else if py_truth (jget result ''escalated_page_ids'') \<or> py_truth (jget result ''failed_page_ids'') then Inr False
      else and_then (sealed_page_paths lib payload) (\<lambda>sealed.
             map_sum id (list_all (\<lambda>p. p \<in> set sealed)) (planned_page_paths lib payload)))"

definition documentation_escalated :: condition where
  "documentation_escalated lib st =
     (if \<not> has_result st ''document'' then Inr False
      else case safe_node_data lib st ''document'' of
             None \<Rightarrow> Inr False
           | Some (JObj data) \<Rightarrow>
               let result = result_in data in
               Inr (jget result ''passed'' = JBool False \<and> py_truth (jget result ''ready_for_review'')
                    \<and> py_truth (jget result ''escalated_page_ids'') \<and> \<not> py_truth (jget result ''failed_page_ids''))
           | Some _ \<Rightarrow> Inl (AttributeError ''get''))"

definition delivery_content_ready :: condition where
  "delivery_content_ready lib st =
     and_then (changelog_eval_passed lib st) (\<lambda>ok.
       if \<not> ok then Inr False
       else if has_result st ''document'' then documentation_passed lib st
       else Inr True)"

definition documentation_delivery_ready :: condition where
  "documentation_delivery_ready lib st =
     and_then (documentation_escalated lib st) (\<lambda>esc. if esc then Inr True else delivery_content_ready lib st)"

definition answer_eval_passed :: condition where
  "answer_eval_passed lib st =
     (if \<not> has_result st ''answer_evaluate'' then Inr False
      else case safe_node_data lib st ''answer_evaluate'' of
             None \<Rightarrow> Inr False
           | Some v \<Rightarrow> map_sum id py_truth (get_res v ''passed''))"

definition answer_needs_revision :: condition where
  "answer_needs_revision lib st =
     (if \<not> has_result st ''answer_evaluate'' then Inr False
      else case safe_node_data lib st ''answer_evaluate'' of
             None \<Rightarrow> Inr False
           | Some v \<Rightarrow>
               and_then (get_res v ''passed'') (\<lambda>p. and_then (get_res v ''escalated'') (\<lambda>e.
                 Inr (\<not> py_truth p \<and> \<not> py_truth e \<and> has_result st ''answer''))))"

definition pull_request_opened :: condition where
  "pull_request_opened lib st =
     (case gs_task st of
        None \<Rightarrow> Inr False
      | Some t \<Rightarrow>
          (case jl_loads lib t of
             None \<Rightarrow> Inr False
           | Some v \<Rightarrow> map_sum id (\<lambda>e. e = JStr ''pull_request.opened'') (get_res v ''event_type'')))"

section \<open>The edges\<close>

definition always :: condition where "always lib st = Inr True"

type_synonym edge = "string \<times> string \<times> condition"

definition documentation_edges :: "bool \<Rightarrow> edge list" where
  "documentation_edges research_failed =
     [(''classify'', ''context'', is_valid_surface),
      (''context'', ''research'', always)]
     @ (if research_failed then [] else [(''research'', ''impact'', always)]) @
     [(''impact'', ''answer'', route_to_answer_of ''impact''),
      (''impact'', ''document'', route_to_write_of ''impact''),
      (''research'', ''document'', route_to_write_of ''impact''),
      (''context'', ''document'', route_to_write_of ''impact''),
      (''impact'', ''notify_post'', pull_request_opened),
      (''answer'', ''answer_evaluate'', always),
      (''research'', ''answer_evaluate'', route_to_answer_of ''impact''),
      (''answer_evaluate'', ''answer'', answer_needs_revision),
      (''document'', ''changelog'', documentation_passed),
      (''answer_evaluate'', ''changelog'', answer_eval_passed),
      (''impact'', ''changelog'', none_and_release),
      (''changelog'', ''changelog_evaluate'', generated_changelog),
      (''changelog_evaluate'', ''changelog'', changelog_needs_revision),
      (''changelog_evaluate'', ''deliver'', delivery_content_ready),
      (''document'', ''deliver'', documentation_delivery_ready),
      (''answer'', ''deliver'', delivery_content_ready),
      (''changelog'', ''deliver'', delivery_content_ready)]"

text \<open>The node \<open>m\<close> is scheduled when \<open>n\<close> completes in state \<open>st\<close>.\<close>

definition schedules :: "json_lib \<Rightarrow> bool \<Rightarrow> graph_state \<Rightarrow> string \<Rightarrow> string \<Rightarrow> bool" where
  "schedules lib research_failed st n m \<longleftrightarrow>
     list_ex (\<lambda>(a, b, c). a = n \<and> b = m \<and> c lib st = Inr True) (documentation_edges research_failed)"

section \<open>Surfaces and review policy\<close>

definition SURFACE_BY_EVENT_PREFIX :: "(string \<times> string) list" where
  "SURFACE_BY_EVENT_PREFIX =
     [(''pull_request'', ''pull_request''), (''issues'', ''issue''), (''slack'', ''support''), (''discord'', ''support''),
      (''content'', ''content'')]"

definition WORKFLOW_BY_SURFACE :: "(string \<times> string) list" where
  "WORKFLOW_BY_SURFACE =
     [(''pull_request'', ''github_pr''), (''issue'', ''github_issue''), (''support'', ''support''), (''content'', ''content_generation'')]"

definition event_prefix :: "string \<Rightarrow> string" where
  "event_prefix event_type = hd (split_on CHR ''.'' event_type)"

definition surface_for_event :: "string \<Rightarrow> string option" where
  "surface_for_event event_type = map_of SURFACE_BY_EVENT_PREFIX (event_prefix event_type)"

definition workflow_for_event :: "string \<Rightarrow> string option res" where
  "workflow_for_event event_type =
     (case surface_for_event event_type of
        None \<Rightarrow> Inr None
      | Some s \<Rightarrow> (case map_of WORKFLOW_BY_SURFACE s of None \<Rightarrow> Inl (KeyError s) | Some w \<Rightarrow> Inr (Some w)))"

definition RISKY_CHANGE_TYPES :: "string list" where
  "RISKY_CHANGE_TYPES = [''breaking_change'', ''deprecation'', ''api_change'']"

definition VALID_POLICIES :: "string list" where
  "VALID_POLICIES = [''always'', ''risky'', ''never'']"

definition resolve_review_policy :: "json \<Rightarrow> string" where
  "resolve_review_policy raw = (case raw of JStr s \<Rightarrow> if s \<in> set VALID_POLICIES then s else ''always'' | _ \<Rightarrow> ''always'')"

text \<open>\<^verbatim>\<open>str(classification.get(k, ""))\<close>: an explicit null reads as the word None.\<close>

definition text_at :: "json_lib \<Rightarrow> jobj \<Rightarrow> string \<Rightarrow> string" where
  "text_at lib d k = (case map_of d k of None \<Rightarrow> [] | Some v \<Rightarrow> py_str (jl_render lib) v)"

definition is_risky :: "json_lib \<Rightarrow> jobj \<Rightarrow> bool" where
  "is_risky lib classification \<longleftrightarrow>
     (if classification = [] then True
      else text_at lib classification ''change_type'' \<in> set RISKY_CHANGE_TYPES
           \<or> text_at lib classification ''urgency'' = ''high'')"

definition should_review :: "json_lib \<Rightarrow> json \<Rightarrow> jobj \<Rightarrow> bool" where
  "should_review lib policy classification =
     (let p = resolve_review_policy policy in
      if p = ''never'' then False else if p = ''always'' then True else is_risky lib classification)"

section \<open>The review gate\<close>

definition classification_of :: "json_lib \<Rightarrow> graph_state \<Rightarrow> jobj \<Rightarrow> jobj" where
  "classification_of lib st invocation =
     (case jget invocation ''classification'' of
        JObj (kv # kvs) \<Rightarrow> kv # kvs
      | _ \<Rightarrow> (case safe_node_data lib st ''classify'' of Some (JObj d) \<Rightarrow> d | _ \<Rightarrow> []))"

definition dicts_of :: "json list \<Rightarrow> json list" where
  "dicts_of xs = filter (\<lambda>x. case x of JObj _ \<Rightarrow> True | _ \<Rightarrow> False) xs"

definition evidence_in :: "json_lib \<Rightarrow> graph_state \<Rightarrow> string \<Rightarrow> json list" where
  "evidence_in lib st node =
     (case safe_node_data lib st node of
        Some (JObj d) \<Rightarrow>
          (case jget d ''evidence'' of
             JList xs \<Rightarrow> dicts_of xs
           | _ \<Rightarrow> (case jget d ''items'' of JList xs \<Rightarrow> dicts_of xs | _ \<Rightarrow> []))
      | _ \<Rightarrow> [])"

definition collect_evidence :: "json_lib \<Rightarrow> graph_state \<Rightarrow> json list" where
  "collect_evidence lib st = evidence_in lib st ''context'' @ evidence_in lib st ''research''"

definition get_or :: "jobj \<Rightarrow> string \<Rightarrow> json \<Rightarrow> json" where
  "get_or d k dflt = (case map_of d k of None \<Rightarrow> dflt | Some v \<Rightarrow> v)"

definition or_json :: "json \<Rightarrow> json \<Rightarrow> json" where
  "or_json a b = (if py_truth a then a else b)"

definition WRITER_NODE_IDS :: "string list" where
  "WRITER_NODE_IDS = [''document'', ''answer'', ''content_blog'', ''content_linkedin'', ''content_x'']"

definition document_of :: "string \<Rightarrow> jobj \<Rightarrow> jobj \<Rightarrow> jobj" where
  "document_of node d invocation =
     (let summary = or_json (jget d ''summary'') (get_or invocation ''delivery_summary'' (JStr [])) in
      if node \<in> {''content_blog'', ''content_linkedin'', ''content_x''} then
        [(''kind'', JStr ''content_variant''), (''channel'', JStr (drop (length ''content_'') node)),
         (''title'', get_or d ''title'' (JStr [])), (''body'', get_or d ''body'' (JStr [])),
         (''evidence'', get_or d ''evidence'' (JList [])), (''feedback_ids'', get_or d ''feedback_ids'' (JList [])),
         (''gap_id'', jget d ''gap_id'')]
      else if node = ''answer'' then
        [(''kind'', JStr ''answer''), (''content'', get_or d ''content'' (JStr [])), (''summary'', summary),
         (''sources'', get_or d ''sources'' (JList []))]
      else
        [(''kind'', JStr ''change_plan''), (''files'', get_or d ''files'' (JList [])),
         (''commit_message'', get_or d ''commit_message'' (JStr [])), (''summary'', summary),
         (''branch'', get_or d ''branch'' (JStr [])), (''repository'', get_or d ''repository'' (JStr []))])"

fun first_document :: "json_lib \<Rightarrow> graph_state \<Rightarrow> jobj \<Rightarrow> string list \<Rightarrow> jobj option res" where
  "first_document lib st invocation [] = Inr None"
| "first_document lib st invocation (node # nodes) =
     (case safe_node_data lib st node of
        None \<Rightarrow> first_document lib st invocation nodes
      | Some v \<Rightarrow>
          if \<not> py_truth v then first_document lib st invocation nodes
          else case v of
                 JObj d \<Rightarrow>
                   let document = document_of node d invocation in
                   if py_truth (jget document ''content'') \<or> py_truth (jget document ''body'') \<or> py_truth (jget document ''files'')
                   then Inr (Some document) else first_document lib st invocation nodes
               | _ \<Rightarrow> Inl (AttributeError ''get''))"

definition collect_document :: "json_lib \<Rightarrow> graph_state \<Rightarrow> jobj \<Rightarrow> jobj option res" where
  "collect_document lib st invocation = first_document lib st invocation WRITER_NODE_IDS"

definition or_null :: "json option \<Rightarrow> json" where
  "or_null v = (case v of None \<Rightarrow> JNull | Some x \<Rightarrow> x)"

definition review_reason :: "json_lib \<Rightarrow> graph_state \<Rightarrow> jobj \<Rightarrow> jobj \<Rightarrow> jobj" where
  "review_reason lib st invocation document =
     [(''run_id'', jget invocation ''run_id''),
      (''summary'', or_json (jget document ''summary'') (or_json (jget document ''title'')
         (or_json (JStr (str_or (jl_render lib) (jget invocation ''delivery_summary'') [])) (JStr ''a documentation review is pending'')))),
      (''evaluation'', or_json (or_null (safe_node_data lib st ''evaluate'')) (get_or invocation ''evaluation'' (JObj []))),
      (''evidence_count'', get_or invocation ''evidence_count'' (JInt 0)),
      (''evidence'', JList (collect_evidence lib st)),
      (''classification'', JObj (classification_of lib st invocation)),
      (''document'', if document = [] then JNull else JObj document),
      (''changelog'', or_json (or_null (safe_node_data lib st ''changelog'')) JNull)]"

text \<open>
  What the gate does with the node about to run: let it run, pause the graph with a reason, or cancel
  the node. The response is the reviewer's, once there is one.
\<close>

datatype gate_outcome = Run | Pause jobj | Cancel string

definition approved :: "json \<Rightarrow> bool" where
  "approved decision = (case decision of JObj d \<Rightarrow> jget d ''approved'' = JBool True | v \<Rightarrow> py_truth v)"

definition review_comment :: "json_lib \<Rightarrow> json \<Rightarrow> string" where
  "review_comment lib decision =
     (case decision of JObj d \<Rightarrow> py_str (jl_render lib) (get_or d ''comment'' (JStr [])) | _ \<Rightarrow> [])"

definition review_gate ::
  "json_lib \<Rightarrow> graph_state \<Rightarrow> jobj \<Rightarrow> string \<Rightarrow> json option \<Rightarrow> gate_outcome res" where
  "review_gate lib st invocation node response =
     (if node \<noteq> ''deliver'' then Inr Run
      else
        let classification = classification_of lib st invocation;
            policy = get_or invocation ''review_policy'' (JStr ''always'')
        in if \<not> should_review lib policy classification then Inr Run
           else and_then (collect_document lib st invocation) (\<lambda>doc.
             let document = (case doc of None \<Rightarrow> [] | Some d \<Rightarrow> d) in
             case response of
               None \<Rightarrow> Inr (Pause (review_reason lib st invocation document))
             | Some decision \<Rightarrow>
                 if approved decision then Inr Run
                 else Inr (Cancel (''Rejected by reviewer: '' @ review_comment lib decision))))"

section \<open>Draft generations\<close>

type_synonym generations = "string \<rightharpoonup> int"

definition next_generation ::
  "string \<Rightarrow> jobj \<Rightarrow> generations \<Rightarrow> draft_scope option \<times> generations" where
  "next_generation node invocation counters =
     (case jget invocation ''run_id'' of
        JStr run_id \<Rightarrow>
          if (node \<noteq> ''document'' \<and> node \<noteq> ''deliver'') \<or> run_id = [] then (None, counters)
          else
            let current = (case counters run_id of None \<Rightarrow> 0 | Some n \<Rightarrow> n);
                seeded = (case jget invocation ''draft_generation_seed'' of JInt s \<Rightarrow> max (current + 1) s | _ \<Rightarrow> current + 1);
                count = (if node = ''document'' then seeded else current)
            in (Some \<lparr>ds_run_id = run_id,
                      ds_org_id = (case jget invocation ''project_id'' of JStr p \<Rightarrow> p | _ \<Rightarrow> []),
                      ds_generation = count, ds_version = None, ds_assigned_page_id = None, ds_repository = None,
                      ds_head_sha = None, ds_read_budget = None\<rparr>,
                if node = ''document'' then counters(run_id \<mapsto> count) else counters)
      | _ \<Rightarrow> (None, counters))"

section \<open>The document node's payload\<close>

definition json_strings :: "string list \<Rightarrow> json" where
  "json_strings xs = JList (map JStr xs)"

definition result_dump :: "workflow_result \<Rightarrow> json" where
  "result_dump r =
     JObj [(''passed'', JBool (wr_passed r)), (''ready_for_review'', JBool (wr_ready_for_review r)),
           (''page_count'', JInt (int (wr_page_count r))), (''passed_page_ids'', json_strings (wr_passed_page_ids r)),
           (''failed_page_ids'', json_strings (wr_failed_page_ids r)),
           (''escalated_page_ids'', json_strings (wr_escalated_page_ids r))]"

definition sealed_dump :: "string \<times> string \<times> string \<times> int \<times> page_status \<Rightarrow> json" where
  "sealed_dump s =
     (case s of (page_id, path, artifact_id, version, status) \<Rightarrow>
        JObj [(''page_id'', JStr page_id), (''path'', JStr path), (''artifact_id'', JStr artifact_id),
              (''version'', JInt version), (''status'', JStr (status_text status))])"

text \<open>The plan's own \<^verbatim>\<open>files\<close> pass through when the impact has them.\<close>

definition document_payload :: "jobj \<Rightarrow> doc_task list \<Rightarrow> node_result \<Rightarrow> jobj" where
  "document_payload impact_payload tasks nr =
     [(''result'', result_dump (nr_result nr))]
     @ (if nr_sealed_pages nr = [] then [] else [(''sealed_pages'', JList (map sealed_dump (nr_sealed_pages nr)))])
     @ [(''files'', (case jget impact_payload ''files'' of
                       JNull \<Rightarrow> JList (map (\<lambda>t. JObj [(''path'', JStr (dt_path t)), (''action'', JStr (dt_action t))]) tasks)
                     | v \<Rightarrow> v))]
     @ filter (\<lambda>kv. snd kv \<noteq> JNull)
         (map (\<lambda>k. (k, jget impact_payload k)) [''commit_message'', ''summary'', ''branch'', ''repository''])"

section \<open>What reaches delivery\<close>

lemma deliver_edges:
  "schedules lib rf st n ''deliver'' \<Longrightarrow>
   delivery_content_ready lib st = Inr True \<or> documentation_delivery_ready lib st = Inr True"
  by (auto simp: schedules_def documentation_edges_def split: if_splits)

lemma delivery_content_ready_True:
  "delivery_content_ready lib st = Inr True \<Longrightarrow>
   changelog_eval_passed lib st = Inr True \<and> (has_result st ''document'' \<longrightarrow> documentation_passed lib st = Inr True)"
  by (auto simp: delivery_content_ready_def and_then_Inr split: if_splits)

lemma documentation_delivery_ready_True:
  "documentation_delivery_ready lib st = Inr True \<Longrightarrow>
   documentation_escalated lib st = Inr True \<or> delivery_content_ready lib st = Inr True"
  by (auto simp: documentation_delivery_ready_def and_then_Inr split: if_splits)

text \<open>The condition on the document node's payload: nothing escalated or failed, every planned page sealed.\<close>

definition settled_pages :: "json_lib \<Rightarrow> jobj \<Rightarrow> bool" where
  "settled_pages lib payload \<longleftrightarrow>
     jget (result_in payload) ''passed'' = JBool True
     \<and> \<not> py_truth (jget (result_in payload) ''escalated_page_ids'') \<and> \<not> py_truth (jget (result_in payload) ''failed_page_ids'')
     \<and> (\<exists>sealed planned. sealed_page_paths lib payload = Inr sealed \<and> planned_page_paths lib payload = Inr planned
          \<and> set planned \<subseteq> set sealed)"

lemma documentation_passed_True:
  assumes "documentation_passed lib st = Inr True"
  shows "\<exists>payload. safe_node_data lib st ''document'' = Some (JObj payload) \<and> settled_pages lib payload"
proof -
  obtain payload result where pr: "documentation_pair lib st = (payload, result)" by (cases "documentation_pair lib st")
  have c: "jget result ''passed'' = JBool True" "\<not> py_truth (jget result ''escalated_page_ids'')"
    "\<not> py_truth (jget result ''failed_page_ids'')"
    and s: "and_then (sealed_page_paths lib payload) (\<lambda>sealed.
             map_sum id (list_all (\<lambda>p. p \<in> set sealed)) (planned_page_paths lib payload)) = Inr True"
    using assms pr by (auto simp: documentation_passed_def split: if_splits)
  from c(1) pr have d: "safe_node_data lib st ''document'' = Some (JObj payload)" "result = result_in payload"
    by (auto simp: documentation_pair_def split: if_splits option.splits json.splits)
  from s obtain sealed planned where "sealed_page_paths lib payload = Inr sealed" "planned_page_paths lib payload = Inr planned"
    "list_all (\<lambda>p. p \<in> set sealed) planned"
    by (cases "planned_page_paths lib payload") (auto simp: and_then_Inr)
  with c d show ?thesis by (auto simp: settled_pages_def list_all_iff)
qed

lemma review_gate_Run:
  assumes "review_gate lib st invocation ''deliver'' response = Inr Run"
  shows "(\<exists>decision. response = Some decision \<and> approved decision)
    \<or> resolve_review_policy (get_or invocation ''review_policy'' (JStr ''always'')) = ''never''
    \<or> resolve_review_policy (get_or invocation ''review_policy'' (JStr ''always'')) = ''risky''
      \<and> \<not> is_risky lib (classification_of lib st invocation)"
proof (cases "should_review lib (get_or invocation ''review_policy'' (JStr ''always'')) (classification_of lib st invocation)")
  case True
  with assms show ?thesis by (auto simp: review_gate_def Let_def and_then_Inr split: option.splits if_splits)
next
  case False
  then show ?thesis
    by (auto simp: should_review_def resolve_review_policy_def VALID_POLICIES_def Let_def split: if_splits json.splits)
qed

lemma deliver_due:
  assumes "schedules lib research_failed st n ''deliver''"
  shows "documentation_escalated lib st = Inr True
      \<or> changelog_eval_passed lib st = Inr True \<and>
        (has_result st ''document'' \<longrightarrow>
          (\<exists>payload. safe_node_data lib st ''document'' = Some (JObj payload) \<and> settled_pages lib payload))"
proof (cases "delivery_content_ready lib st = Inr True")
  case True
  then show ?thesis using delivery_content_ready_True documentation_passed_True by blast
next
  case False
  then show ?thesis using deliver_edges [OF assms] documentation_delivery_ready_True by blast
qed

text \<open>
  C5. Delivery runs only when it is due and released. Due: the changelog gate passed and, if the document
  node ran, its payload reports a pass with nothing escalated or failed and a sealed artifact for every
  planned page; or the page workflow escalated. Released: a reviewer approved, or the run's review
  policy waives the review.
\<close>

theorem delivery_gated:
  assumes "schedules lib research_failed st n ''deliver''"
    and "review_gate lib st invocation ''deliver'' response = Inr Run"
  shows "(documentation_escalated lib st = Inr True
      \<or> changelog_eval_passed lib st = Inr True \<and>
        (has_result st ''document'' \<longrightarrow>
          (\<exists>payload. safe_node_data lib st ''document'' = Some (JObj payload) \<and> settled_pages lib payload)))
    \<and> ((\<exists>decision. response = Some decision \<and> approved decision)
      \<or> resolve_review_policy (get_or invocation ''review_policy'' (JStr ''always'')) = ''never''
      \<or> resolve_review_policy (get_or invocation ''review_policy'' (JStr ''always'')) = ''risky''
        \<and> \<not> is_risky lib (classification_of lib st invocation))"
  using deliver_due [OF assms(1)] review_gate_Run [OF assms(2)] by (rule conjI)

text \<open>
  A run that escalated pages below the quality bar to human review is still delivered without one
  when the review policy is \<open>never\<close>: delivery is scheduled as soon as the document node completes, and the
  gate lets it run.
\<close>

theorem escalated_delivery_unreviewed:
  assumes "documentation_escalated lib st = Inr True"
    and "resolve_review_policy (get_or invocation ''review_policy'' (JStr ''always'')) = ''never''"
  shows "schedules lib research_failed st ''document'' ''deliver''
    \<and> review_gate lib st invocation ''deliver'' None = Inr Run"
proof
  show "schedules lib research_failed st ''document'' ''deliver''"
    using assms(1) by (simp add: schedules_def documentation_edges_def documentation_delivery_ready_def and_then_def)
  show "review_gate lib st invocation ''deliver'' None = Inr Run"
    using assms(2) by (simp add: review_gate_def should_review_def Let_def)
qed

section \<open>The document node's claim\<close>

text \<open>The node's output as the graph stores it, with its payload dumped to a text block.\<close>

definition node_output :: "string \<Rightarrow> string \<Rightarrow> node_run" where
  "node_output node t =
     \<lparr>nd_completed = True,
      nd_payload = Multi [(node, \<lparr>ao_structured = None, ao_content = [JObj [(''text'', JStr t)]]\<rparr>)]\<rparr>"

lemma safe_node_output:
  "map_of (gs_results st) node = Some (node_output node t) \<Longrightarrow> jl_loads lib t = Some (JObj d) \<Longrightarrow>
   safe_node_data lib st node = Some (JObj d)"
  by (simp add: safe_node_data_def node_data_def output_of_def node_output_def payload_of_def text_block_def)

definition finished_node :: "page_state list \<Rightarrow> progress_event list \<Rightarrow> node_result" where
  "finished_node states evs =
     \<lparr>nr_status = COMPLETED, nr_result = result_from_states states, nr_sealed_pages = sealed_pages states, nr_events = evs\<rparr>"

lemma payload_result:
  "result_in (document_payload imp tasks (finished_node states evs)) =
     [(''passed'', JBool (wr_passed (result_from_states states))),
      (''ready_for_review'', JBool (wr_ready_for_review (result_from_states states))),
      (''page_count'', JInt (int (wr_page_count (result_from_states states)))),
      (''passed_page_ids'', json_strings (wr_passed_page_ids (result_from_states states))),
      (''failed_page_ids'', json_strings (wr_failed_page_ids (result_from_states states))),
      (''escalated_page_ids'', json_strings (wr_escalated_page_ids (result_from_states states)))]"
  by (simp add: result_in_def document_payload_def finished_node_def result_dump_def)

lemma jget_dropped:
  "jget (filter (\<lambda>kv. snd kv \<noteq> JNull) (map (\<lambda>k. (k, f k)) ks)) k = (if k \<in> set ks then f k else JNull)"
  by (induction ks) auto

lemma payload_sealed:
  "jget (document_payload imp tasks (finished_node states evs)) ''sealed_pages'' =
     (if sealed_pages states = [] then JNull else JList (map sealed_dump (sealed_pages states)))"
  using jget_dropped [of "jget imp" "[''commit_message'', ''summary'', ''branch'', ''repository'']" "''sealed_pages''"]
  by (simp add: document_payload_def finished_node_def del: list.map filter.simps)

lemma payload_files:
  "jget imp ''files'' = JNull \<Longrightarrow>
   jget (document_payload imp tasks (finished_node states evs)) ''files'' =
     JList (map (\<lambda>t. JObj [(''path'', JStr (dt_path t)), (''action'', JStr (dt_action t))]) tasks)"
  by (simp add: document_payload_def finished_node_def)

lemma sealed_paths_of:
  "sealed_page_paths lib (document_payload imp tasks (finished_node states evs)) = Inr sealed \<Longrightarrow>
   p \<in> set sealed \<Longrightarrow> \<exists>s \<in> set states. ps_path s = p \<and> (\<exists>i. ps_latest_artifact_id s = Some i \<and> i \<noteq> [])"
proof -
  assume r: "sealed_page_paths lib (document_payload imp tasks (finished_node states evs)) = Inr sealed" and p: "p \<in> set sealed"
  have "List.map_filter (\<lambda>x. case x of JObj d \<Rightarrow> Some d | _ \<Rightarrow> None) (map sealed_dump xs)
      = map (\<lambda>(page_id, path, artifact_id, version, status).
          [(''page_id'', JStr page_id), (''path'', JStr path), (''artifact_id'', JStr artifact_id),
           (''version'', JInt version), (''status'', JStr (status_text status))]) xs" for xs
    by (induction xs) (auto simp: sealed_dump_def List.map_filter_simps split: prod.splits)
  with r p have "\<exists>a ab ac b. (a, p, ab, ac, b) \<in> set (sealed_pages states)"
    by (auto simp: sealed_page_paths_def payload_sealed dict_items_def item_path_def str_or_def py_str_def
        split: if_splits) blast
  then show ?thesis
    by (force simp: sealed_pages_def List.map_filter_def split: option.splits if_splits)
qed

lemma planned_paths_of:
  assumes "jget imp ''files'' = JNull"
  shows "\<exists>planned. planned_page_paths lib (document_payload imp tasks (finished_node states evs)) = Inr planned \<and>
    (\<forall>t \<in> set tasks. dt_path t \<noteq> [] \<and> dt_action t \<in> {''create'', ''update''} \<longrightarrow> dt_path t \<in> set planned)"
proof -
  let ?d = "\<lambda>t. [(''path'', JStr (dt_path t)), (''action'', JStr (dt_action t))]"
  have m: "List.map_filter (\<lambda>x. case x of JObj d \<Rightarrow> Some d | _ \<Rightarrow> None) (map (\<lambda>t. JObj (?d t)) ts) = map ?d ts" for ts
    by (induction ts) (simp_all add: List.map_filter_simps)
  then have "dict_items (JList (map (\<lambda>t. JObj (?d t)) tasks)) = Inr (map ?d tasks)"
    by (cases tasks) (simp_all add: dict_items_def List.map_filter_simps)
  then show ?thesis
    by (auto simp: planned_page_paths_def payload_files [OF assms] item_path_def str_or_def py_str_def WRITE_FILE_ACTIONS_def
        Let_def intro!: image_eqI)
qed

text \<open>
  C36. The gate's reading of the payload of a finished page table agrees with the table: when the condition
  holds, the run has pages, all of them passed, and every path the payload's files plan to create or update
  (or plan without an action) is that of a page of the table with an artifact. When the impact brings no files
  of its own, those paths include every task of the plan that creates or updates a page; an impact with files
  of its own replaces the plan's. The vacuous pass of a plan without pages is a different payload.
\<close>

theorem document_pass_sound:
  assumes "map_of (gs_results st) ''document'' = Some (node_output ''document'' t)"
    and "jl_loads lib t = Some (JObj (document_payload imp tasks (finished_node states evs)))"
    and "documentation_passed lib st = Inr True"
  shows "states \<noteq> [] \<and> list_all (\<lambda>s. ps_status s = PASSED) states
    \<and> (\<exists>planned. planned_page_paths lib (document_payload imp tasks (finished_node states evs)) = Inr planned
        \<and> (\<forall>p \<in> set planned. \<exists>s \<in> set states. ps_path s = p \<and> (\<exists>i. ps_latest_artifact_id s = Some i \<and> i \<noteq> [])))
    \<and> (jget imp ''files'' = JNull \<longrightarrow>
        (\<forall>task \<in> set tasks. dt_path task \<noteq> [] \<and> dt_action task \<in> {''create'', ''update''} \<longrightarrow>
          (\<exists>s \<in> set states. ps_path s = dt_path task \<and> (\<exists>i. ps_latest_artifact_id s = Some i \<and> i \<noteq> []))))"
proof -
  let ?payload = "document_payload imp tasks (finished_node states evs)"
  have settled: "settled_pages lib ?payload"
    using documentation_passed_True [OF assms(3)] safe_node_output [OF assms(1,2)] by auto
  then have "wr_passed (result_from_states states)" by (simp add: settled_pages_def payload_result)
  then have states: "states \<noteq> []" "length (filter (\<lambda>s. ps_status s = PASSED) states) = length states"
    by (simp_all add: result_from_states_def Let_def)
  then have "list_all (\<lambda>s. ps_status s = PASSED) states"
    by (metis list_all_iff length_filter_less nat_neq_iff)
  moreover obtain sealed planned where sp: "sealed_page_paths lib ?payload = Inr sealed" "planned_page_paths lib ?payload = Inr planned"
      "set planned \<subseteq> set sealed"
    using settled by (auto simp: settled_pages_def)
  then have "\<forall>p \<in> set planned. \<exists>s \<in> set states. ps_path s = p \<and> (\<exists>i. ps_latest_artifact_id s = Some i \<and> i \<noteq> [])"
    using sealed_paths_of [OF sp(1)] by blast
  moreover have "dt_path task \<in> set planned"
    if "jget imp ''files'' = JNull" "task \<in> set tasks" "dt_path task \<noteq> []" "dt_action task \<in> {''create'', ''update''}" for task
    using planned_paths_of [OF that(1), of lib tasks states evs] sp(2) that(2-4) by auto
  ultimately show ?thesis using states(1) sp(2) by blast
qed

section \<open>Witnesses\<close>

definition plain_lib :: "string \<Rightarrow> jobj \<Rightarrow> json_lib" where
  "plain_lib t d = \<lparr>jl_loads = (\<lambda>s. if s = t then Some (JObj d) else None), jl_render = (\<lambda>_. [])\<rparr>"

definition sample_page :: "page_status \<Rightarrow> page_state" where
  "sample_page status =
     \<lparr>ps_run_id = ''r1'', ps_org_id = ''o1'', ps_page_id = ''p1'', ps_path = ''docs/a.md'', ps_action = ''update'',
      ps_status = status, ps_latest_artifact_id = Some ''a1'', ps_latest_version = 1, ps_next_version = 2,
      ps_evaluation_attempt = 1, ps_escalation_reason = None, ps_updated_at = 0\<rparr>"

definition sample_payload :: "page_status \<Rightarrow> jobj" where
  "sample_payload status = document_payload [] [] (finished_node [sample_page status] [])"

definition sample_graph :: graph_state where
  "sample_graph = \<lparr>gs_task = None, gs_results = [(''document'', node_output ''document'' ''t'')]\<rparr>"

lemma sample_escalated:
  "documentation_escalated (plain_lib ''t'' (sample_payload AWAITING_HUMAN_REVIEW)) sample_graph = Inr True"
  by code_simp

theorem escalated_delivery_unreviewed_witness:
  "schedules (plain_lib ''t'' (sample_payload AWAITING_HUMAN_REVIEW)) False sample_graph ''document'' ''deliver''
    \<and> review_gate (plain_lib ''t'' (sample_payload AWAITING_HUMAN_REVIEW)) sample_graph
        [(''review_policy'', JStr ''never'')] ''deliver'' None = Inr Run"
  by (rule escalated_delivery_unreviewed [OF sample_escalated]) code_simp

theorem delivery_gated_witness:
  "documentation_escalated (plain_lib ''t'' (sample_payload AWAITING_HUMAN_REVIEW)) sample_graph = Inr True
    \<and> (\<exists>decision. Some (JBool True) = Some decision \<and> approved decision)"
proof -
  let ?lib = "plain_lib ''t'' (sample_payload AWAITING_HUMAN_REVIEW)"
  have s: "schedules ?lib False sample_graph ''document'' ''deliver''" by code_simp
  have g: "review_gate ?lib sample_graph [] ''deliver'' (Some (JBool True)) = Inr Run" by code_simp
  have p: "resolve_review_policy (get_or [] ''review_policy'' (JStr ''always'')) = ''always''"
    and c: "changelog_eval_passed ?lib sample_graph = Inr False" by code_simp+
  from delivery_gated [OF s g] show ?thesis unfolding p c by simp
qed

text \<open>The sample: a plan to update one page, whose page passed with an artifact.\<close>

definition sample_plan :: "doc_task list" where
  "sample_plan =
     [\<lparr>dt_id = ''p1'', dt_path = ''docs/a.md'', dt_action = ''update'', dt_reason = [], dt_related_symbols = [], dt_evidence = [],
       dt_requirements = [], dt_bundle_id = None, dt_repository = None, dt_head_sha = None\<rparr>]"

definition planned_payload :: jobj where
  "planned_payload = document_payload [] sample_plan (finished_node [sample_page PASSED] [])"

theorem document_pass_sound_witness:
  "documentation_passed (plain_lib ''t'' planned_payload) sample_graph = Inr True
   \<and> planned_page_paths (plain_lib ''t'' planned_payload) planned_payload = Inr [''docs/a.md'']
   \<and> (\<exists>s \<in> set [sample_page PASSED]. ps_path s = ''docs/a.md'' \<and> (\<exists>i. ps_latest_artifact_id s = Some i \<and> i \<noteq> []))"
proof -
  have pass: "documentation_passed (plain_lib ''t'' planned_payload) sample_graph = Inr True"
    and planned: "planned_page_paths (plain_lib ''t'' planned_payload) planned_payload = Inr [''docs/a.md'']" by code_simp+
  have "map_of (gs_results sample_graph) ''document'' = Some (node_output ''document'' ''t'')" by (simp add: sample_graph_def)
  note document_pass_sound [OF this _ pass]
  moreover have "jl_loads (plain_lib ''t'' planned_payload) ''t''
      = Some (JObj (document_payload [] sample_plan (finished_node [sample_page PASSED] [])))"
    by (simp add: plain_lib_def planned_payload_def)
  ultimately have "\<exists>planned. planned_page_paths (plain_lib ''t'' planned_payload) planned_payload = Inr planned
      \<and> (\<forall>p \<in> set planned. \<exists>s \<in> set [sample_page PASSED]. ps_path s = p \<and> (\<exists>i. ps_latest_artifact_id s = Some i \<and> i \<noteq> []))"
    unfolding planned_payload_def by blast
  with pass planned show ?thesis by auto
qed

end
