(* ===== verification/Keyset_Pages.thy ===== *)
theory Keyset_Pages
  imports Draftly_Prelude
begin

text \<open>
  Keyset pagination, the way every listing of the persistence layer works: a page is a prefix of the
  ordered rows after the cursor, and a full page hands out the sort key of its last row as the next
  cursor. The contract \<open>keyset_listing\<close> says what a listing promises; walking the cursors of one that
  keeps it enumerates the rows exactly once.
\<close>

section \<open>Walking the cursors\<close>

text \<open>One request: the rows of the page and the next cursor. \<open>None\<close> is the walk that runs out of requests.\<close>

fun walk_pages :: "('c option \<Rightarrow> 'r list \<times> 'c option) \<Rightarrow> nat \<Rightarrow> 'c option \<Rightarrow> 'r list option" where
  "walk_pages page 0 c = None"
| "walk_pages page (Suc n) c =
     (let (rows, next_cursor) = page c in
      case next_cursor of
        None \<Rightarrow> Some rows
      | Some c' \<Rightarrow> map_option ((@) rows) (walk_pages page n (Some c')))"

locale keyset_listing =
  fixes ok :: "'t \<Rightarrow> bool"
    and size_of :: "'q \<Rightarrow> nat"
    and remaining :: "'q \<Rightarrow> 't \<Rightarrow> 'c option \<Rightarrow> 'r list"
    and page :: "'q \<Rightarrow> 't \<Rightarrow> 'c option \<Rightarrow> 'r list \<times> 'c option"
  assumes size_pos: "0 < size_of q"
    and page_rows: "fst (page q t c) = take (size_of q) (remaining q t c)"
    and page_more: "ok t \<Longrightarrow> snd (page q t c) = Some c' \<Longrightarrow>
      remaining q t (Some c') = drop (size_of q) (remaining q t c)"
    and page_last: "ok t \<Longrightarrow> snd (page q t c) = None \<Longrightarrow> length (remaining q t c) \<le> size_of q"
    and page_full: "ok t \<Longrightarrow> snd (page q t c) = Some c' \<Longrightarrow> size_of q \<le> length (remaining q t c)"
begin

lemma walk_enumerates:
  assumes "ok t" and "length (remaining q t c) div size_of q < n"
  shows "walk_pages (page q t) n c = Some (remaining q t c)"
  using assms(2)
proof (induction n arbitrary: c)
  case (Suc n)
  obtain rows nc where p: "page q t c = (rows, nc)" by force
  have rows: "rows = take (size_of q) (remaining q t c)" using page_rows [of q t c] p by simp
  show ?case
  proof (cases nc)
    case None
    then show ?thesis using p rows page_last [OF assms(1), of q c] by simp
  next
    case (Some c')
    have more: "remaining q t (Some c') = drop (size_of q) (remaining q t c)"
      and full: "size_of q \<le> length (remaining q t c)"
      using page_more [OF assms(1), of q c c'] page_full [OF assms(1), of q c c'] p Some by auto
    have "length (remaining q t (Some c')) div size_of q = length (remaining q t c) div size_of q - 1"
      using full size_pos [of q] by (simp add: more le_div_geq)
    moreover have "0 < length (remaining q t c) div size_of q"
      using full size_pos [of q] by (simp add: div_greater_zero_iff)
    ultimately have "length (remaining q t (Some c')) div size_of q < n" using Suc.prems by linarith
    then show ?thesis using Suc.IH [of "Some c'"] p Some rows more by simp
  qed
qed simp

end

section \<open>Rows beyond a key\<close>

lemma filter_beyond_nth:
  assumes "sorted_wrt R xs" and "\<And>x. \<not> R x x" and "\<And>x y z. R x y \<Longrightarrow> R y z \<Longrightarrow> R x z"
    and "0 < n" and "n \<le> length xs"
  shows "filter (R (xs ! (n - 1))) xs = drop n xs"
proof -
  let ?a = "xs ! (n - 1)"
  have less: "R (xs ! i) (xs ! j)" if "i < j" "j < length xs" for i j
    using assms(1) that by (simp add: sorted_wrt_iff_nth_less)
  have "filter (R ?a) (take n xs) = []"
  proof -
    have "\<not> R ?a x" if "x \<in> set (take n xs)" for x
    proof
      assume r: "R ?a x"
      from that obtain i where i: "i < n" "x = xs ! i" by (auto simp: in_set_conv_nth)
      show False
      proof (cases "i = n - 1")
        case True
        then show False using r i assms(2) by simp
      next
        case False
        then have "R x ?a" using less [of i "n - 1"] i assms(5) by simp
        then show False using r assms(2,3) by blast
      qed
    qed
    then show ?thesis by (simp add: filter_empty_conv)
  qed
  moreover have "filter (R ?a) (drop n xs) = drop n xs"
  proof -
    have "R ?a x" if "x \<in> set (drop n xs)" for x
    proof -
      from that obtain i where "i < length (drop n xs)" "x = drop n xs ! i" by (auto simp: in_set_conv_nth)
      then show ?thesis using less [of "n - 1" "n + i"] assms(4) by simp
    qed
    then show ?thesis by (simp add: filter_id_conv)
  qed
  moreover have "filter (R ?a) xs = filter (R ?a) (take n xs) @ filter (R ?a) (drop n xs)"
    by (simp flip: filter_append)
  ultimately show ?thesis by simp
qed

text \<open>Ordered by a key that no two rows share.\<close>

lemma sorted_strict:
  fixes key :: "'r \<Rightarrow> 'k::linorder"
  assumes "distinct (map key t)"
  shows "sorted_wrt (\<lambda>a b. key a < key b) (sort_key key t)"
proof -
  have "sorted (map key (sort_key key t))" by simp
  moreover have "distinct (map key (sort_key key t))"
    using assms by (simp add: distinct_map)
  ultimately have "sorted_wrt (<) (map key (sort_key key t))" by (simp add: strict_sorted_iff)
  then show ?thesis by (simp add: sorted_wrt_map)
qed

lemma rev_sorted_strict:
  fixes key :: "'r \<Rightarrow> 'k::linorder"
  assumes "distinct (map key t)"
  shows "sorted_wrt (\<lambda>a b. key b < key a) (rev (sort_key key t))"
  using sorted_strict [OF assms] by (simp add: sorted_wrt_rev)

lemma distinct_map_filter_key: "distinct (map key t) \<Longrightarrow> distinct (map key (filter p t))"
  by (rule distinct_map_filter)

end
