(* ===== verification/Workflow_Ledger.thy ===== *)
theory Workflow_Ledger
  imports Keyset_Pages Transition_Systems
begin

text \<open>
  The canonical workflow resources of \<^verbatim>\<open>src/draftly/persistence/repositories/workflows.py\<close>: workflow
  definitions with their lifecycle, templates, and the runs with their idempotent start, their state
  transitions and their cursor listings. Tables are lists of rows with the constraints of migrations
  049-051 and 057; a rejected statement leaves its table unchanged. Generated ids and the clock are
  arguments; a cursor is the pair its text encodes (sort timestamp and id), the base64 text is not
  modelled.
\<close>

definition DEFAULT_PAGE_SIZE :: int where "DEFAULT_PAGE_SIZE = 50"
definition MAX_PAGE_SIZE :: int where "MAX_PAGE_SIZE = 200"

definition page_size :: "int option \<Rightarrow> int" where
  "page_size limit =
     (let wanted = (case limit of None \<Rightarrow> DEFAULT_PAGE_SIZE | Some n \<Rightarrow> if n = 0 then DEFAULT_PAGE_SIZE else n)
      in max 1 (min wanted MAX_PAGE_SIZE))"

type_synonym cursor = "int \<times> string"

abbreviation CheckViolation :: "string \<Rightarrow> exn" where "CheckViolation m \<equiv> Exn ''CheckViolationError'' m"
abbreviation UniqueViolation :: "string \<Rightarrow> exn" where "UniqueViolation m \<equiv> Exn ''UniqueViolationError'' m"
abbreviation NotNullViolation :: "string \<Rightarrow> exn" where "NotNullViolation m \<equiv> Exn ''NotNullViolationError'' m"
abbreviation DataError :: "string \<Rightarrow> exn" where "DataError m \<equiv> Exn ''DataError'' m"

section \<open>Definitions\<close>

record definition_row =
  wd_id :: string
  wd_org_id :: string
  wd_slug :: string
  wd_name :: string
  wd_description :: "string option"
  wd_workflow_key :: string
  wd_status :: string
  wd_version :: int
  wd_configs :: "(string \<times> json) list"
  wd_created_by :: "string option"
  wd_created_at :: int
  wd_updated_at :: int

type_synonym definitions = "definition_row list"

definition JSON_FIELDS :: "string list" where
  "JSON_FIELDS =
     [''trigger_config'', ''condition_config'', ''agent_config'', ''repository_config'',
      ''evaluation_config'', ''review_config'', ''delivery_config'']"

definition DEFINITION_STATUSES :: "string list" where
  "DEFINITION_STATUSES = [''active'', ''paused'', ''draft'', ''archived'']"

text \<open>The column check on slugs: lower-case words of letters and digits joined by single hyphens.\<close>

definition slug_char :: "char \<Rightarrow> bool" where
  "slug_char c \<longleftrightarrow> is_digit c \<or> (97 \<le> (of_char c :: nat) \<and> of_char c \<le> (122 :: nat))"

definition slug_ok :: "string \<Rightarrow> bool" where
  "slug_ok s \<longleftrightarrow> list_all (\<lambda>w. w \<noteq> [] \<and> list_all slug_char w) (split_on CHR ''-'' s)"

text \<open>\<open>_json\<close> stores null as the empty object; \<^verbatim>\<open>data[k]\<close> raises for a key that is not there.\<close>

definition json_column :: "json \<Rightarrow> json" where
  "json_column v = (case v of JNull \<Rightarrow> JObj [] | _ \<Rightarrow> v)"

definition text_param :: "json \<Rightarrow> string option res" where
  "text_param v =
     (case v of JStr s \<Rightarrow> Inr (Some s) | JNull \<Rightarrow> Inr None | _ \<Rightarrow> Inl (DataError ''invalid input for query argument''))"

definition required_item :: "jobj \<Rightarrow> string \<Rightarrow> json res" where
  "required_item d k = (case map_of d k of None \<Rightarrow> Inl (KeyError k) | Some v \<Rightarrow> Inr v)"

definition item_or :: "jobj \<Rightarrow> string \<Rightarrow> json \<Rightarrow> json" where
  "item_or d k dflt = (case map_of d k of None \<Rightarrow> dflt | Some v \<Rightarrow> v)"

definition not_null :: "string \<Rightarrow> string option \<Rightarrow> string res" where
  "not_null column v = (case v of None \<Rightarrow> Inl (NotNullViolation column) | Some s \<Rightarrow> Inr s)"

definition bind_res :: "'a res \<Rightarrow> ('a \<Rightarrow> 'b res) \<Rightarrow> 'b res" where
  "bind_res r f = (case r of Inl e \<Rightarrow> Inl e | Inr x \<Rightarrow> f x)"

lemma bind_res_simps [simp]: "bind_res (Inl e) f = Inl e" "bind_res (Inr x) f = f x"
  by (simp_all add: bind_res_def)

lemma bind_resE: "bind_res r f = Inr y \<Longrightarrow> (\<And>x. r = Inr x \<Longrightarrow> f x = Inr y \<Longrightarrow> P) \<Longrightarrow> P"
  by (cases r) simp_all

lemma bind_res_Inr: "bind_res r f = Inr y \<longleftrightarrow> (\<exists>x. r = Inr x \<and> f x = Inr y)"
  by (cases r) simp_all

definition slug_taken :: "string \<Rightarrow> string \<Rightarrow> definitions \<Rightarrow> bool" where
  "slug_taken org slug t \<longleftrightarrow> list_ex (\<lambda>r. wd_org_id r = org \<and> wd_slug r = slug) t"

definition built_definition ::
  "string \<Rightarrow> int \<Rightarrow> string \<Rightarrow> string option \<Rightarrow> jobj \<Rightarrow> definitions \<Rightarrow> definition_row res" where
  "built_definition new_id now org created_by data t =
        bind_res (bind_res (required_item data ''slug'') text_param) (\<lambda>slug.
        bind_res (bind_res (required_item data ''name'') text_param) (\<lambda>name.
        bind_res (text_param (jget data ''description'')) (\<lambda>description.
        bind_res (bind_res (required_item data ''workflow_key'') text_param) (\<lambda>key.
        bind_res (text_param (item_or data ''status'' (JStr ''draft''))) (\<lambda>status.
        bind_res (not_null ''slug'' slug) (\<lambda>slug.
        bind_res (not_null ''name'' name) (\<lambda>name.
        bind_res (not_null ''workflow_key'' key) (\<lambda>key.
        bind_res (not_null ''status'' status) (\<lambda>status.
          if status \<notin> set DEFINITION_STATUSES then Inl (CheckViolation ''workflow_definitions_status_check'')
          else if \<not> slug_ok slug then Inl (CheckViolation ''workflow_definitions_slug_check'')
          else if slug_taken org slug t then Inl (UniqueViolation ''workflow_definitions_org_slug_unique'')
          else Inr \<lparr>wd_id = new_id, wd_org_id = org, wd_slug = slug, wd_name = name,
                     wd_description = description, wd_workflow_key = key, wd_status = status, wd_version = 1,
                     wd_configs = map (\<lambda>k. (k, json_column (jget data k))) JSON_FIELDS,
                     wd_created_by = created_by, wd_created_at = now, wd_updated_at = now\<rparr>)))))))))"

definition create_definition ::
  "string \<Rightarrow> int \<Rightarrow> string \<Rightarrow> string option \<Rightarrow> jobj \<Rightarrow> definitions \<Rightarrow> definition_row res \<times> definitions" where
  "create_definition new_id now org created_by data t =
     (case built_definition new_id now org created_by data t of Inl e \<Rightarrow> (Inl e, t) | Inr row \<Rightarrow> (Inr row, t @ [row]))"

definition get_definition :: "string \<Rightarrow> string \<Rightarrow> definitions \<Rightarrow> definition_row option" where
  "get_definition org i t = find (\<lambda>r. wd_org_id r = org \<and> wd_id r = i) t"

text \<open>Ordered by update time and id, newest first.\<close>

definition definition_key :: "definition_row \<Rightarrow> cursor" where
  "definition_key r = (wd_updated_at r, wd_id r)"

definition find_active_by_key :: "string \<Rightarrow> string \<Rightarrow> definitions \<Rightarrow> definition_row option" where
  "find_active_by_key org key t =
     (case rev (sort_key definition_key
         (filter (\<lambda>r. wd_org_id r = org \<and> wd_workflow_key r = key \<and> wd_status r = ''active'') t)) of
        [] \<Rightarrow> None | r # _ \<Rightarrow> Some r)"

definition editable :: "string \<Rightarrow> string \<Rightarrow> definition_row \<Rightarrow> bool" where
  "editable org i r \<longleftrightarrow> wd_org_id r = org \<and> wd_id r = i \<and> wd_status r \<noteq> ''archived''"

definition allowed_field :: "string \<Rightarrow> bool" where
  "allowed_field k \<longleftrightarrow> k \<in> set ([''name'', ''description'', ''workflow_key'', ''status''] @ JSON_FIELDS)"

definition encodable :: "string \<times> json \<Rightarrow> bool" where
  "encodable kv \<longleftrightarrow> fst kv \<in> set JSON_FIELDS \<or> (case snd kv of JStr s \<Rightarrow> True | JNull \<Rightarrow> True | _ \<Rightarrow> False)"

text \<open>One assignment of the \<^verbatim>\<open>SET\<close> clause, with the constraint of its column.\<close>

definition set_field :: "string \<times> json \<Rightarrow> definition_row \<Rightarrow> definition_row res" where
  "set_field kv r =
     (let (k, v) = kv in
      if k \<in> set JSON_FIELDS
      then Inr (r\<lparr>wd_configs := map (\<lambda>c. if fst c = k then (k, json_column v) else c) (wd_configs r)\<rparr>)
      else bind_res (text_param v) (\<lambda>x.
        if k = ''description'' then Inr (r\<lparr>wd_description := x\<rparr>)
        else bind_res (not_null k x) (\<lambda>s.
          if k = ''name'' then Inr (r\<lparr>wd_name := s\<rparr>)
          else if k = ''workflow_key'' then Inr (r\<lparr>wd_workflow_key := s\<rparr>)
          else if s \<in> set DEFINITION_STATUSES then Inr (r\<lparr>wd_status := s\<rparr>)
          else Inl (CheckViolation ''workflow_definitions_status_check''))))"

fun set_fields :: "jobj \<Rightarrow> definition_row \<Rightarrow> definition_row res" where
  "set_fields [] r = Inr r"
| "set_fields (kv # kvs) r = bind_res (set_field kv r) (set_fields kvs)"

definition bump :: "int \<Rightarrow> definition_row \<Rightarrow> definition_row" where
  "bump now r = r\<lparr>wd_version := wd_version r + 1, wd_updated_at := now\<rparr>"

definition update_definition ::
  "int \<Rightarrow> string \<Rightarrow> string \<Rightarrow> jobj \<Rightarrow> definitions \<Rightarrow> definition_row option res \<times> definitions" where
  "update_definition now org i data t =
     (if data = [] then (Inr (get_definition org i t), t)
      else let fields = filter (\<lambda>kv. allowed_field (fst kv)) data in
      if \<not> list_all encodable fields then (Inl (DataError ''invalid input for query argument''), t)
      else case find (editable org i) t of
        None \<Rightarrow> (Inr None, t)
      | Some r \<Rightarrow>
          (case set_fields fields r of
             Inl e \<Rightarrow> (Inl e, t)
           | Inr r' \<Rightarrow> (Inr (Some (bump now r')), upd_where (editable org i) (\<lambda>_. bump now r') t)))"

definition set_definition_status ::
  "int \<Rightarrow> string \<Rightarrow> string \<Rightarrow> string \<Rightarrow> definitions \<Rightarrow> definition_row option res \<times> definitions" where
  "set_definition_status now org i status t =
     (case find (editable org i) t of
        None \<Rightarrow> (Inr None, t)
      | Some r \<Rightarrow>
          if status \<notin> set DEFINITION_STATUSES then (Inl (CheckViolation ''workflow_definitions_status_check''), t)
          else (Inr (Some (bump now (r\<lparr>wd_status := status\<rparr>))),
                upd_where (editable org i) (\<lambda>r. bump now (r\<lparr>wd_status := status\<rparr>)) t))"


section \<open>Listings\<close>

text \<open>
  A page of the rows that satisfy the filter: newest first, beyond the cursor, at most \<open>size\<close> of them. The
  count is taken with the same \<^verbatim>\<open>WHERE\<close> clause, cursor included; a full page hands out the key of its last
  row.
\<close>

definition beyond :: "('r \<Rightarrow> cursor) \<Rightarrow> cursor option \<Rightarrow> 'r \<Rightarrow> bool" where
  "beyond key c r = (case c of None \<Rightarrow> True | Some k \<Rightarrow> key r < k)"

definition newest_rows :: "('r \<Rightarrow> cursor) \<Rightarrow> ('r \<Rightarrow> bool) \<Rightarrow> cursor option \<Rightarrow> 'r list \<Rightarrow> 'r list" where
  "newest_rows key p c t = filter (beyond key c) (rev (sort_key key (filter p t)))"

definition list_newest ::
  "('r \<Rightarrow> cursor) \<Rightarrow> ('r \<Rightarrow> bool) \<Rightarrow> int option \<Rightarrow> cursor option \<Rightarrow> 'r list \<Rightarrow> 'r list \<times> int \<times> cursor option" where
  "list_newest key p limit c t =
     (let size = nat (page_size limit);
          rows = newest_rows key p c t;
          items = take size rows
      in (items, int (length rows), if length items = size then Some (key (last items)) else None))"

definition given :: "string option \<Rightarrow> ('r \<Rightarrow> string) \<Rightarrow> 'r \<Rightarrow> bool" where
  "given x column r = (case x of None \<Rightarrow> True | Some s \<Rightarrow> s = [] \<or> column r = s)"

definition list_definitions ::
  "string \<Rightarrow> string option \<Rightarrow> string option \<Rightarrow> int option \<Rightarrow> cursor option \<Rightarrow> definitions
   \<Rightarrow> definition_row list \<times> int \<times> cursor option" where
  "list_definitions org status key limit c t =
     list_newest definition_key (\<lambda>r. wd_org_id r = org \<and> given status wd_status r \<and> given key wd_workflow_key r) limit c t"

section \<open>Templates\<close>

record template_row =
  wt_template_id :: string
  wt_org_id_of :: "string option"
  wt_slug :: string
  wt_name :: string
  wt_description :: "string option"
  wt_workflow_key :: string
  wt_defaults :: json
  wt_is_system :: bool
  wt_created :: int
  wt_updated :: int

type_synonym templates = "template_row list"

definition template_key :: "template_row \<Rightarrow> bool \<times> cursor" where
  "template_key r = (wt_is_system r, wt_updated r, wt_template_id r)"

definition visible_template :: "string \<Rightarrow> template_row \<Rightarrow> bool" where
  "visible_template org r \<longleftrightarrow> wt_is_system r \<or> wt_org_id_of r = Some org"

definition list_templates :: "string \<Rightarrow> int option \<Rightarrow> templates \<Rightarrow> template_row list" where
  "list_templates org limit t =
     take (nat (page_size limit)) (rev (sort_key template_key (filter (visible_template org) t)))"

definition get_template :: "string \<Rightarrow> string \<Rightarrow> templates \<Rightarrow> template_row option" where
  "get_template org i t = find (\<lambda>r. wt_template_id r = i \<and> visible_template org r) t"

definition create_template ::
  "string \<Rightarrow> int \<Rightarrow> string \<Rightarrow> jobj \<Rightarrow> templates \<Rightarrow> template_row res \<times> templates" where
  "create_template new_id now org data t =
     (let built =
        bind_res (bind_res (required_item data ''slug'') text_param) (\<lambda>slug.
        bind_res (bind_res (required_item data ''name'') text_param) (\<lambda>name.
        bind_res (text_param (jget data ''description'')) (\<lambda>description.
        bind_res (bind_res (required_item data ''workflow_key'') text_param) (\<lambda>key.
        bind_res (not_null ''slug'' slug) (\<lambda>slug.
        bind_res (not_null ''name'' name) (\<lambda>name.
        bind_res (not_null ''workflow_key'' key) (\<lambda>key.
          if \<not> slug_ok slug then Inl (CheckViolation ''workflow_templates_slug_check'')
          else if list_ex (\<lambda>r. \<not> wt_is_system r \<and> wt_org_id_of r = Some org \<and> wt_slug r = slug) t
          then Inl (UniqueViolation ''uq_workflow_templates_org_slug'')
          else Inr \<lparr>wt_template_id = new_id, wt_org_id_of = Some org, wt_slug = slug, wt_name = name,
                     wt_description = description, wt_workflow_key = key,
                     wt_defaults = json_column (jget data ''defaults''), wt_is_system = False,
                     wt_created = now, wt_updated = now\<rparr>)))))))
      in case built of Inl e \<Rightarrow> (Inl e, t) | Inr row \<Rightarrow> (Inr row, t @ [row]))"

section \<open>Runs\<close>

record run_row =
  wr_id :: string
  wr_definition_id :: "string option"
  wr_org_id :: string
  wr_source :: string
  wr_source_event_id :: "string option"
  wr_event_type :: "string option"
  wr_title :: "string option"
  wr_repository :: "string option"
  wr_actor :: "string option"
  wr_target :: json
  wr_status :: string
  wr_current_stage :: "string option"
  wr_stage_states :: "(string \<times> string) list"
  wr_input :: json
  wr_output :: "json option"
  wr_error :: "string option"
  wr_started_at :: "int option"
  wr_completed_at :: "int option"
  wr_created_at :: int
  wr_updated_at :: int

type_synonym runs = "run_row list"

definition RUN_STATUSES :: "string list" where
  "RUN_STATUSES =
     [''queued'', ''running'', ''pending_review'', ''pending_intervention'', ''completed'', ''failed'',
      ''cancelled'', ''skipped'']"

definition get_run :: "string \<Rightarrow> string \<Rightarrow> runs \<Rightarrow> run_row option" where
  "get_run org run_id t = find (\<lambda>r. wr_id r = run_id \<and> wr_org_id r = org) t"

definition run_key :: "run_row \<Rightarrow> cursor" where
  "run_key r = (wr_created_at r, wr_id r)"

definition optional_id :: "string option \<Rightarrow> run_row \<Rightarrow> bool" where
  "optional_id d r = (case d of None \<Rightarrow> True | Some s \<Rightarrow> s = [] \<or> wr_definition_id r = Some s)"

definition list_runs ::
  "string \<Rightarrow> string option \<Rightarrow> string option \<Rightarrow> int option \<Rightarrow> cursor option \<Rightarrow> runs
   \<Rightarrow> run_row list \<times> int \<times> cursor option" where
  "list_runs org definition_id status limit c t =
     list_newest run_key (\<lambda>r. wr_org_id r = org \<and> optional_id definition_id r \<and> given status wr_status r) limit c t"

definition list_runs_for_definition ::
  "string \<Rightarrow> string \<Rightarrow> string option \<Rightarrow> int option \<Rightarrow> cursor option \<Rightarrow> runs
   \<Rightarrow> run_row list \<times> int \<times> cursor option" where
  "list_runs_for_definition org definition_id status limit c t =
     list_newest run_key
       (\<lambda>r. wr_org_id r = org \<and> wr_definition_id r = Some definition_id \<and> given status wr_status r) limit c t"

definition same_source :: "string \<Rightarrow> string \<Rightarrow> string option \<Rightarrow> run_row \<Rightarrow> bool" where
  "same_source org source event r \<longleftrightarrow>
     event \<noteq> None \<and> wr_org_id r = org \<and> wr_source r = source \<and> wr_source_event_id r = event"

record run_request =
  rq_run_id :: string
  rq_definition_id :: "string option"
  rq_source :: string
  rq_source_event_id :: "string option"
  rq_title :: "string option"
  rq_event_type :: "string option"
  rq_repository :: "string option"
  rq_actor :: "string option"
  rq_target :: json
  rq_input :: json

text \<open>The upsert on the source event returns the row that is there, unchanged; the primary key is checked for a new one.\<close>

definition start_or_get_idempotent :: "int \<Rightarrow> string \<Rightarrow> run_request \<Rightarrow> runs \<Rightarrow> run_row res \<times> runs" where
  "start_or_get_idempotent now org q t =
     (case find (same_source org (rq_source q) (rq_source_event_id q)) t of
        Some r \<Rightarrow> (Inr r, t)
      | None \<Rightarrow>
          if list_ex (\<lambda>r. wr_id r = rq_run_id q) t then (Inl (UniqueViolation ''workflow_runs_pkey''), t)
          else let row = \<lparr>wr_id = rq_run_id q, wr_definition_id = rq_definition_id q, wr_org_id = org,
                          wr_source = rq_source q, wr_source_event_id = rq_source_event_id q,
                          wr_event_type = rq_event_type q, wr_title = rq_title q,
                          wr_repository = rq_repository q, wr_actor = rq_actor q,
                          wr_target = json_column (rq_target q), wr_status = ''queued'',
                          wr_current_stage = None, wr_stage_states = [],
                          wr_input = json_column (rq_input q), wr_output = None, wr_error = None,
                          wr_started_at = None, wr_completed_at = None, wr_created_at = now,
                          wr_updated_at = now\<rparr>
               in (Inr row, t @ [row]))"

record state_update =
  su_status :: string
  su_current_stage :: "string option"
  su_stage_states :: "(string \<times> string) list option"
  su_error :: "string option"
  su_output :: "json option"

definition TERMINAL_RUN_STATUSES :: "string list" where
  "TERMINAL_RUN_STATUSES = [''completed'', ''failed'', ''cancelled'', ''skipped'']"

definition coalesce :: "'a option \<Rightarrow> 'a option \<Rightarrow> 'a option" where
  "coalesce a b = (case a of None \<Rightarrow> b | Some x \<Rightarrow> Some x)"

definition apply_state :: "int \<Rightarrow> state_update \<Rightarrow> run_row \<Rightarrow> run_row" where
  "apply_state now u r =
     r\<lparr>wr_status := su_status u,
       wr_current_stage := coalesce (su_current_stage u) (wr_current_stage r),
       wr_stage_states := (case su_stage_states u of None \<Rightarrow> wr_stage_states r | Some m \<Rightarrow> m),
       wr_error := su_error u,
       wr_output := coalesce (su_output u) (wr_output r),
       wr_started_at := (if su_status u = ''running'' \<and> wr_started_at r = None then Some now else wr_started_at r),
       wr_completed_at := (if su_status u \<in> set TERMINAL_RUN_STATUSES then coalesce (wr_completed_at r) (Some now) else None),
       wr_updated_at := now\<rparr>"

definition update_run_state :: "int \<Rightarrow> string \<Rightarrow> string \<Rightarrow> state_update \<Rightarrow> runs \<Rightarrow> unit res \<times> runs" where
  "update_run_state now org run_id u t =
     (if su_status u \<notin> set RUN_STATUSES \<and> get_run org run_id t \<noteq> None
      then (Inl (CheckViolation ''workflow_runs_status_check''), t)
      else (Inr (), upd_where (\<lambda>r. wr_id r = run_id \<and> wr_org_id r = org) (apply_state now u) t))"


section \<open>Cursor walks\<close>

lemma page_size_bounds: "1 \<le> page_size limit" "page_size limit \<le> 200"
  by (simp_all add: page_size_def MAX_PAGE_SIZE_def Let_def)

lemma newest_rows_sorted:
  assumes "distinct (map key t)"
  shows "sorted_wrt (\<lambda>a b. key b < key a) (newest_rows key p c t)"
  using rev_sorted_strict [OF distinct_map_filter_key [OF assms]]
  by (simp add: newest_rows_def sorted_wrt_filter)

lemma newest_rows_after:
  assumes "distinct (map key t)" and "0 < n" and "length (take n (newest_rows key p c t)) = n"
  shows "newest_rows key p (Some (key (last (take n (newest_rows key p c t))))) t = drop n (newest_rows key p c t)"
proof -
  let ?xs = "newest_rows key p c t"
  have n: "n \<le> length ?xs" using assms(3) by simp
  have last: "last (take n ?xs) = ?xs ! (n - 1)"
    using n assms(2) last_conv_nth [of "take n ?xs"] by (cases "?xs = []") (simp_all add: min_def)
  have mem: "?xs ! (n - 1) \<in> set ?xs" using n assms(2) by (intro nth_mem) simp
  have inner: "newest_rows key p (Some k) t = filter (\<lambda>r. key r < k) ?xs"
    if "k = key (?xs ! (n - 1))" for k
    using mem that by (auto simp: newest_rows_def beyond_def intro!: filter_cong split: option.splits)
  show ?thesis
    unfolding last inner [OF refl]
    by (rule filter_beyond_nth [OF newest_rows_sorted [OF assms(1)]]) (use assms(2) n in auto)
qed

text \<open>A listing keeps the pagination contract for every filter and page limit.\<close>

definition newest_page ::
  "('r \<Rightarrow> cursor) \<Rightarrow> ('r \<Rightarrow> bool) \<times> int option \<Rightarrow> 'r list \<Rightarrow> cursor option \<Rightarrow> 'r list \<times> cursor option" where
  "newest_page key q t c = (case list_newest key (fst q) (snd q) c t of (items, count, nc) \<Rightarrow> (items, nc))"

lemma newest_page_laws:
  fixes key :: "'r \<Rightarrow> cursor"
  shows "keyset_listing (\<lambda>t. distinct (map key t)) (\<lambda>q. nat (page_size (snd q)))
    (\<lambda>q t c. newest_rows key (fst q) c t) (newest_page key)"
proof
  fix q :: "('r \<Rightarrow> bool) \<times> int option" and t c c'
  show pos: "0 < nat (page_size (snd q))" using page_size_bounds [of "snd q"] by simp
  show "fst (newest_page key q t c) = take (nat (page_size (snd q))) (newest_rows key (fst q) c t)"
    by (simp add: newest_page_def list_newest_def Let_def)
  {
    assume t: "distinct (map key t)"
    show "snd (newest_page key q t c) = None \<Longrightarrow> length (newest_rows key (fst q) c t) \<le> nat (page_size (snd q))"
      by (simp add: newest_page_def list_newest_def Let_def split: if_splits)
    assume "snd (newest_page key q t c) = Some c'"
    then have full: "length (take (nat (page_size (snd q))) (newest_rows key (fst q) c t)) = nat (page_size (snd q))"
      and c': "c' = key (last (take (nat (page_size (snd q))) (newest_rows key (fst q) c t)))"
      by (auto simp: newest_page_def list_newest_def Let_def split: if_splits)
    show "nat (page_size (snd q)) \<le> length (newest_rows key (fst q) c t)" using full by simp
    show "newest_rows key (fst q) (Some c') t = drop (nat (page_size (snd q))) (newest_rows key (fst q) c t)"
      unfolding c' by (rule newest_rows_after [OF t pos full])
  }
qed

interpretation run_pages: keyset_listing "\<lambda>t. distinct (map run_key t)" "\<lambda>q. nat (page_size (snd q))"
  "\<lambda>q t c. newest_rows run_key (fst q) c t" "newest_page run_key"
  by (rule newest_page_laws)

interpretation definition_pages: keyset_listing "\<lambda>t. distinct (map definition_key t)"
  "\<lambda>q. nat (page_size (snd q))" "\<lambda>q t c. newest_rows definition_key (fst q) c t" "newest_page definition_key"
  by (rule newest_page_laws)

lemma distinct_run_keys: "distinct (map wr_id t) \<Longrightarrow> distinct (map run_key t)"
  by (auto simp: distinct_map inj_on_def run_key_def)

text \<open>
  Following the cursors of a run listing from its first page returns, after at most one request per full
  page and one more, every run of the organization that passes the filters, exactly once and newest
  first; every page holds at most 200 of them.
\<close>

theorem run_pages_enumerate:
  assumes "distinct (map wr_id t)"
  shows "\<exists>rows. walk_pages (\<lambda>c. case list_runs org d st limit c t of (items, count, nc) \<Rightarrow> (items, nc))
      (Suc (length t div nat (page_size limit))) None = Some rows
    \<and> set rows = {r \<in> set t. wr_org_id r = org \<and> optional_id d r \<and> given st wr_status r}
    \<and> sorted_wrt (\<lambda>a b. run_key b < run_key a) rows
    \<and> length (fst (list_runs org d st limit c t)) \<le> 200"
proof -
  let ?p = "\<lambda>r. wr_org_id r = org \<and> optional_id d r \<and> given st wr_status r"
  let ?rows = "newest_rows run_key ?p None t"
  have keys: "distinct (map run_key t)" by (rule distinct_run_keys [OF assms])
  have "length ?rows \<le> length t" by (simp add: newest_rows_def beyond_def length_filter_le)
  then have "length ?rows div nat (page_size limit) < Suc (length t div nat (page_size limit))"
    by (simp add: div_le_mono le_imp_less_Suc)
  then have "walk_pages (newest_page run_key (?p, limit) t) (Suc (length t div nat (page_size limit))) None = Some ?rows"
    using run_pages.walk_enumerates [OF keys, where q = "(?p, limit)" and c = None] by (simp del: walk_pages.simps)
  moreover have "newest_page run_key (?p, limit) t
      = (\<lambda>c. case list_runs org d st limit c t of (items, count, nc) \<Rightarrow> (items, nc))"
    by (simp add: newest_page_def list_runs_def fun_eq_iff)
  moreover have "set ?rows = {r \<in> set t. ?p r}" by (auto simp: newest_rows_def beyond_def)
  moreover have "length (fst (list_runs org d st limit c t)) \<le> 200"
    using page_size_bounds(2) [of limit] by (simp add: list_runs_def list_newest_def Let_def)
  ultimately show ?thesis using newest_rows_sorted [OF keys, of ?p None] by auto
qed


section \<open>Runs along any operations\<close>

inductive run_step :: "runs \<Rightarrow> runs \<Rightarrow> bool" where
  step_start: "run_step t (snd (start_or_get_idempotent now org q t))"
| step_update: "run_step t (snd (update_run_state now org run_id u t))"

definition run_identity :: "run_row \<Rightarrow> string \<times> string \<times> string \<times> string option" where
  "run_identity r = (wr_id r, wr_org_id r, wr_source r, wr_source_event_id r)"

definition source_of :: "run_row \<Rightarrow> string \<times> string \<times> string option" where
  "source_of r = (wr_org_id r, wr_source r, wr_source_event_id r)"

definition has_source :: "run_row \<Rightarrow> bool" where
  "has_source r \<longleftrightarrow> wr_source_event_id r \<noteq> None"

definition stamped :: "run_row \<Rightarrow> bool" where
  "stamped r \<longleftrightarrow> wr_status r \<in> set RUN_STATUSES \<and> (wr_completed_at r \<noteq> None \<longleftrightarrow> wr_status r \<in> set TERMINAL_RUN_STATUSES)"

definition runs_inv :: "runs \<Rightarrow> bool" where
  "runs_inv t \<longleftrightarrow> distinct (map wr_id t) \<and> inj_on source_of {r \<in> set t. has_source r} \<and> list_all stamped t"

lemma apply_state_identity: "run_identity (apply_state now u r) = run_identity r"
  by (simp add: run_identity_def apply_state_def)

lemma apply_state_stamped: "su_status u \<in> set RUN_STATUSES \<Longrightarrow> stamped (apply_state now u r)"
  by (simp add: stamped_def apply_state_def coalesce_def split: option.splits)

lemma run_step_cases:
  assumes "run_step t t'"
  obtains (same) "t' = t"
  | (append) r where "t' = t @ [r]" "wr_id r \<notin> wr_id ` set t" "stamped r"
      "\<And>r'. r' \<in> set t \<Longrightarrow> has_source r \<Longrightarrow> source_of r' \<noteq> source_of r"
  | (change) p u now where "t' = upd_where p (apply_state now u) t" "\<And>r. r \<in> set t \<Longrightarrow> p r \<Longrightarrow> su_status u \<in> set RUN_STATUSES"
  using assms
proof cases
  case (step_start now org q)
  show thesis
  proof (cases "find (same_source org (rq_source q) (rq_source_event_id q)) t")
    case None
    show thesis
    proof (cases "list_ex (\<lambda>r. wr_id r = rq_run_id q) t")
      case True
      then show thesis using step_start None same by (simp add: start_or_get_idempotent_def)
    next
      case False
      have no: "\<not> same_source org (rq_source q) (rq_source_event_id q) r'" if "r' \<in> set t" for r'
        using None that by (simp add: find_None_iff)
      show thesis
        by (rule append [OF _ _ _ _], simp add: step_start start_or_get_idempotent_def None False Let_def)
          (use False no in \<open>auto simp: list_ex_iff stamped_def RUN_STATUSES_def TERMINAL_RUN_STATUSES_def
            has_source_def source_of_def same_source_def\<close>)
    qed
  next
    case (Some r)
    then show thesis using step_start same by (simp add: start_or_get_idempotent_def)
  qed
next
  case (step_update now org run_id u)
  show thesis
  proof (cases "su_status u \<notin> set RUN_STATUSES \<and> get_run org run_id t \<noteq> None")
    case True
    then show thesis using step_update same by (simp add: update_run_state_def)
  next
    case False
    show thesis
      by (rule change [of "\<lambda>r. wr_id r = run_id \<and> wr_org_id r = org" now u])
        (use False in \<open>auto simp: step_update update_run_state_def get_run_def find_None_iff\<close>)
  qed
qed

lemma run_step_inv: "runs_inv t \<Longrightarrow> run_step t t' \<Longrightarrow> runs_inv t'"
proof (erule run_step_cases)
  fix r assume inv: "runs_inv t" and t': "t' = t @ [r]" "wr_id r \<notin> wr_id ` set t" "stamped r"
    and new: "\<And>r'. r' \<in> set t \<Longrightarrow> has_source r \<Longrightarrow> source_of r' \<noteq> source_of r"
  have "inj_on source_of {r' \<in> set t'. has_source r'}"
  proof (rule inj_onI)
    fix x y assume "x \<in> {r' \<in> set t'. has_source r'}" "y \<in> {r' \<in> set t'. has_source r'}" "source_of x = source_of y"
    then show "x = y" using inv new [of x] new [of y] t'(1) by (auto simp: runs_inv_def inj_on_def)
  qed
  then show "runs_inv t'" using inv t' by (simp add: runs_inv_def)
next
  fix p u now assume inv: "runs_inv t" and t': "t' = upd_where p (apply_state now u) t"
    and st: "\<And>r. r \<in> set t \<Longrightarrow> p r \<Longrightarrow> su_status u \<in> set RUN_STATUSES"
  have id: "wr_id (apply_state now u r) = wr_id r" "source_of (apply_state now u r) = source_of r"
    "has_source (apply_state now u r) = has_source r" for r
    by (simp_all add: apply_state_def source_of_def has_source_def)
  have "map wr_id t' = map wr_id t" unfolding t' by (rule map_key_upd_where) (simp add: id)
  moreover have "inj_on source_of {r \<in> set t'. has_source r}"
    using inv unfolding t' runs_inv_def inj_on_def set_upd_where by (auto simp: id)
  moreover have "list_all stamped t'"
    using inv st unfolding t' runs_inv_def by (auto simp: list_all_iff set_upd_where apply_state_stamped)
  ultimately show "runs_inv t'" using inv by (simp add: runs_inv_def)
qed auto

interpretation run_system: invariant_system "\<lambda>t. t = []" run_step runs_inv
  by unfold_locales (simp add: runs_inv_def, rule run_step_inv)

interpretation run_rows: row_evolution run_step set "\<lambda>r r'. run_identity r' = run_identity r"
proof unfold_locales
  show "\<exists>r' \<in> set t'. run_identity r' = run_identity r" if "run_step t t'" "r \<in> set t" for t t' r
    using that(1)
  proof (cases rule: run_step_cases)
    case (change p u now)
    have "(if p r then apply_state now u r else r) \<in> set t'"
      using that(2) unfolding change(1) set_upd_where by auto
    then show ?thesis by (rule bexI [rotated]) (simp add: apply_state_identity)
  qed (use that(2) in auto)
qed auto


text \<open>
  C21. A source event has one run: once \<^verbatim>\<open>start_or_get_idempotent\<close> has returned a run for it, every later start
  for the same organization, source and event, whatever its run id and whatever happened in between,
  returns that run and adds no row, and no other row carries the event. Rows always have a known status,
  and a completion time exactly in a terminal status.
\<close>

theorem one_run_per_source_event:
  assumes "run_step\<^sup>*\<^sup>* [] t" and "start_or_get_idempotent now org q t = (Inr r, t1)"
    and "rq_source_event_id q \<noteq> None" and "run_step\<^sup>*\<^sup>* t1 t2"
    and "rq_source q' = rq_source q" and "rq_source_event_id q' = rq_source_event_id q"
  shows "\<exists>r'. start_or_get_idempotent now' org q' t2 = (Inr r', t2) \<and> wr_id r' = wr_id r
    \<and> stamped r' \<and> {x \<in> set t2. source_of x = source_of r} = {r'}"
proof -
  have "run_step t t1" using step_start [of t now org q] assms(2) by simp
  then have "run_step\<^sup>*\<^sup>* [] t2" using assms(1,4) by (meson rtranclp.rtrancl_into_rtrancl rtranclp_trans)
  then have inv: "runs_inv t2" using run_system.inv_reachable [of "[]" t2] by simp
  have r: "r \<in> set t1 \<and> same_source org (rq_source q) (rq_source_event_id q) r"
    using assms(2,3) find_Some_in
    by (fastforce simp: start_or_get_idempotent_def same_source_def Let_def split: option.splits if_splits)
  from run_rows.row_steps [OF assms(4), of r] r obtain r' where
    r': "r' \<in> set t2" "run_identity r' = run_identity r" by blast
  have same: "same_source org (rq_source q') (rq_source_event_id q') r'"
    using r r'(2) assms(5,6) by (simp add: same_source_def run_identity_def)
  have only: "x = r'" if "x \<in> set t2" "same_source org (rq_source q') (rq_source_event_id q') x" for x
    using inv that same r'(1) by (auto simp: runs_inv_def inj_on_def has_source_def source_of_def same_source_def)
  have "find (same_source org (rq_source q') (rq_source_event_id q')) t2 = Some r'"
    using find_Some_unique [of r' t2 "same_source org (rq_source q') (rq_source_event_id q')"] r'(1) same only by blast
  then have "start_or_get_idempotent now' org q' t2 = (Inr r', t2)"
    by (simp add: start_or_get_idempotent_def)
  moreover have "{x \<in> set t2. source_of x = source_of r} = {r'}"
  proof -
    have "same_source org (rq_source q') (rq_source_event_id q') x" if "source_of x = source_of r" for x
      using that r assms(5,6) by (simp add: source_of_def same_source_def)
    moreover have "source_of r' = source_of r" using r'(2) by (simp add: source_of_def run_identity_def)
    ultimately show ?thesis using only r'(1) by blast
  qed
  moreover have "stamped r'" using inv r'(1) by (simp add: runs_inv_def list_all_iff)
  ultimately show ?thesis using r'(2) by (simp add: run_identity_def)
qed

definition sample_request_of :: "string \<Rightarrow> run_request" where
  "sample_request_of i = \<lparr>rq_run_id = i, rq_definition_id = None, rq_source = ''github'', rq_source_event_id = Some ''e1'',
     rq_title = None, rq_event_type = None, rq_repository = None, rq_actor = None, rq_target = JNull, rq_input = JNull\<rparr>"

definition sample_runs :: runs where
  "sample_runs = snd (start_or_get_idempotent 1 ''org'' (sample_request_of ''r1'') [])"

theorem one_run_per_source_event_witness:
  "map_sum exn_type wr_id (fst (start_or_get_idempotent 9 ''org'' (sample_request_of ''r2'') sample_runs)) = Inr ''r1''"
proof -
  obtain r where r: "start_or_get_idempotent 1 ''org'' (sample_request_of ''r1'') [] = (Inr r, sample_runs)"
    "wr_id r = ''r1''"
    by (simp add: sample_runs_def start_or_get_idempotent_def sample_request_of_def Let_def)
  from one_run_per_source_event [OF rtranclp.rtrancl_refl r(1) _ rtranclp.rtrancl_refl, of "sample_request_of ''r2''" 9] r(2)
  show ?thesis by (auto simp: sample_request_of_def)
qed

theorem run_pages_enumerate_witness:
  "\<exists>rows. walk_pages (\<lambda>c. case list_runs ''org'' None None (Some 1) c sample_runs of (items, count, nc) \<Rightarrow> (items, nc))
      2 None = Some rows \<and> length rows = 1"
proof -
  have d: "distinct (map wr_id sample_runs)" by code_simp
  have p: "nat (page_size (Some 1)) = 1" "length sample_runs = 1" by code_simp+
  have "{r \<in> set sample_runs. wr_org_id r = ''org'' \<and> optional_id None r \<and> given None wr_status r} = {hd sample_runs}"
    by (auto simp: sample_runs_def start_or_get_idempotent_def sample_request_of_def optional_id_def given_def Let_def)
  then obtain rows where rows: "walk_pages (\<lambda>c. case list_runs ''org'' None None (Some 1) c sample_runs of (items, count, nc) \<Rightarrow> (items, nc))
      (Suc (length sample_runs div nat (page_size (Some 1)))) None = Some rows"
      "set rows = {hd sample_runs}" "sorted_wrt (\<lambda>a b. run_key b < run_key a) rows"
    using run_pages_enumerate [OF d, where org = "''org''" and d = None and st = None and limit = "Some 1" and c = None]
    by metis
  then have "length rows = 1"
    by (cases rows; cases "tl rows") fastforce+
  moreover have "Suc (length sample_runs div nat (page_size (Some 1))) = 2" by (simp add: p)
  ultimately show ?thesis using rows(1) by metis
qed

section \<open>Definitions along any operations\<close>

inductive definition_step :: "definitions \<Rightarrow> definitions \<Rightarrow> bool" where
  step_create: "new_id \<notin> wd_id ` set t \<Longrightarrow> definition_step t (snd (create_definition new_id now org by_user data t))"
| step_edit: "definition_step t (snd (update_definition now org i data t))"
| step_status: "definition_step t (snd (set_definition_status now org i status t))"

text \<open>What a change may do to a row: nothing, or a new version of a row that is not archived.\<close>

definition edited :: "definition_row \<Rightarrow> definition_row \<Rightarrow> bool" where
  "edited r r' \<longleftrightarrow> wd_id r' = wd_id r \<and> wd_org_id r' = wd_org_id r \<and> wd_slug r' = wd_slug r
     \<and> wd_status r' \<in> set DEFINITION_STATUSES \<and> wd_status r \<noteq> ''archived'' \<and> wd_version r' = wd_version r + 1"

definition definition_evolves :: "definition_row \<Rightarrow> definition_row \<Rightarrow> bool" where
  "definition_evolves r r' \<longleftrightarrow> wd_id r' = wd_id r \<and> wd_org_id r' = wd_org_id r \<and> wd_slug r' = wd_slug r
     \<and> wd_version r \<le> wd_version r' \<and> (wd_version r' = wd_version r \<or> wd_status r = ''archived'' \<longrightarrow> r' = r)"

definition definitions_inv :: "definitions \<Rightarrow> bool" where
  "definitions_inv t \<longleftrightarrow> distinct (map wd_id t) \<and> distinct (map (\<lambda>r. (wd_org_id r, wd_slug r)) t)
     \<and> list_all (\<lambda>r. wd_status r \<in> set DEFINITION_STATUSES \<and> slug_ok (wd_slug r) \<and> 1 \<le> wd_version r) t"

lemma set_field_keeps:
  assumes "set_field kv r = Inr r'" and "wd_status r \<in> set DEFINITION_STATUSES"
  shows "wd_id r' = wd_id r \<and> wd_org_id r' = wd_org_id r \<and> wd_slug r' = wd_slug r \<and> wd_version r' = wd_version r
    \<and> wd_status r' \<in> set DEFINITION_STATUSES"
proof -
  obtain k v where kv: "kv = (k, v)" by force
  show ?thesis
  proof (cases "k \<in> set JSON_FIELDS")
    case True
    then show ?thesis using assms by (auto simp: kv set_field_def)
  next
    case False
    then obtain x where x: "text_param v = Inr x"
      and r': "(if k = ''description'' then Inr (r\<lparr>wd_description := x\<rparr>)
        else bind_res (not_null k x) (\<lambda>s.
          if k = ''name'' then Inr (r\<lparr>wd_name := s\<rparr>)
          else if k = ''workflow_key'' then Inr (r\<lparr>wd_workflow_key := s\<rparr>)
          else if s \<in> set DEFINITION_STATUSES then Inr (r\<lparr>wd_status := s\<rparr>)
          else Inl (CheckViolation ''workflow_definitions_status_check''))) = Inr r'"
      using assms(1) by (simp add: kv set_field_def bind_res_Inr) blast
    show ?thesis using r' assms(2) by (cases x) (simp_all add: not_null_def split: if_splits, auto)
  qed
qed

lemma set_fields_keeps:
  "set_fields kvs r = Inr r' \<Longrightarrow> wd_status r \<in> set DEFINITION_STATUSES \<Longrightarrow>
    wd_id r' = wd_id r \<and> wd_org_id r' = wd_org_id r \<and> wd_slug r' = wd_slug r \<and> wd_version r' = wd_version r
    \<and> wd_status r' \<in> set DEFINITION_STATUSES"
proof (induction kvs arbitrary: r)
  case (Cons kv kvs)
  then obtain r1 where "set_field kv r = Inr r1" "set_fields kvs r1 = Inr r'" by (auto simp: bind_res_Inr)
  with Cons.IH [of r1] set_field_keeps [of kv r r1] Cons.prems(2) show ?case by simp
qed simp


lemma built_definition_Inr:
  assumes "built_definition new_id now org by_user data t = Inr r"
  shows "wd_id r = new_id \<and> wd_org_id r = org \<and> \<not> slug_taken org (wd_slug r) t
    \<and> wd_status r \<in> set DEFINITION_STATUSES \<and> slug_ok (wd_slug r) \<and> wd_version r = 1"
  using assms unfolding built_definition_def
  by (elim bind_resE, simp only: sum.inject sum.distinct split: if_split_asm, hypsubst) simp

lemma editable_only:
  assumes "distinct (map wd_id t)" "r \<in> set t" "editable org i r"
  shows "upd_where (editable org i) f t = upd_where (\<lambda>x. x = r) f t"
proof -
  have "editable org i x \<longleftrightarrow> x = r" if "x \<in> set t" for x
    using assms that inj_onD [of wd_id "set t" x r] by (auto simp: distinct_map editable_def)
  then show ?thesis unfolding upd_where_def by (intro map_cong) simp_all
qed

lemma definition_step_cases:
  assumes "definitions_inv t \<and> definition_step t t'"
  obtains (same) "t' = t"
  | (append) r where "t' = t @ [r]" "wd_id r \<notin> wd_id ` set t" "\<not> slug_taken (wd_org_id r) (wd_slug r) t"
      "wd_status r \<in> set DEFINITION_STATUSES" "slug_ok (wd_slug r)" "wd_version r = 1"
  | (change) r f where "r \<in> set t" "edited r (f r)" "t' = upd_where (\<lambda>x. x = r) f t"
proof -
  have step: "definition_step t t'" and ids: "distinct (map wd_id t)"
    and st: "\<And>r. r \<in> set t \<Longrightarrow> wd_status r \<in> set DEFINITION_STATUSES"
    using assms by (auto simp: definitions_inv_def list_all_iff)
  show thesis
  using step
proof cases
  case (step_create new_id now org by_user data)
  show thesis
  proof (cases "fst (create_definition new_id now org by_user data t)")
    case (Inl e)
    then show thesis using step_create same by (auto simp: create_definition_def split: sum.splits)
  next
    case (Inr row)
    then have "built_definition new_id now org by_user data t = Inr row"
      by (auto simp: create_definition_def split: sum.splits)
    from built_definition_Inr [OF this] this show thesis
      using step_create append [of row] by (simp add: create_definition_def)
  qed
next
  case (step_edit now org i data)
  have "snd (update_definition now org i data t) = t \<or> (\<exists>r r'. find (editable org i) t = Some r
      \<and> set_fields (filter (\<lambda>kv. allowed_field (fst kv)) data) r = Inr r'
      \<and> snd (update_definition now org i data t) = upd_where (editable org i) (\<lambda>_. bump now r') t)"
    unfolding update_definition_def Let_def by (simp split: option.split sum.split)
  then consider "t' = t" | r r' where "find (editable org i) t = Some r"
      "set_fields (filter (\<lambda>kv. allowed_field (fst kv)) data) r = Inr r'"
      "t' = upd_where (editable org i) (\<lambda>_. bump now r') t"
    using step_edit by blast
  then show thesis
  proof cases
    case (2 r r')
    have r: "r \<in> set t" "editable org i r" using find_Some_in [OF 2(1)] by auto
    have "t' = upd_where (\<lambda>x. x = r) (\<lambda>_. bump now r') t"
      unfolding 2(3) by (rule editable_only [OF ids r])
    moreover have "edited r (bump now r')"
      using set_fields_keeps [OF 2(2) st [OF r(1)]] r(2) by (auto simp: edited_def bump_def editable_def)
    ultimately show thesis using change [of r "\<lambda>_. bump now r'"] r(1) by simp
  qed (rule same)
next
  case (step_status now org i status)
  show thesis
  proof (cases "find (editable org i) t = None \<or> status \<notin> set DEFINITION_STATUSES")
    case True
    then show thesis using step_status same by (auto simp: set_definition_status_def split: option.splits)
  next
    case False
    then obtain r where f: "find (editable org i) t = Some r" by auto
    have r: "r \<in> set t" "editable org i r" using find_Some_in [OF f] by auto
    have "t' = upd_where (editable org i) (\<lambda>r. bump now (r\<lparr>wd_status := status\<rparr>)) t"
      using step_status False f by (simp add: set_definition_status_def)
    also have "\<dots> = upd_where (\<lambda>x. x = r) (\<lambda>r. bump now (r\<lparr>wd_status := status\<rparr>)) t"
      by (rule editable_only [OF ids r])
    finally show thesis
      using change [of r "\<lambda>r. bump now (r\<lparr>wd_status := status\<rparr>)"] r False by (simp add: edited_def bump_def editable_def)
  qed
qed
qed

lemma definition_step_inv: "definitions_inv t \<and> definition_step t t' \<Longrightarrow> definitions_inv t'"
proof -
  assume step: "definitions_inv t \<and> definition_step t t'"
  then have inv: "definitions_inv t" by simp
  from step show ?thesis
  proof (cases rule: definition_step_cases)
    case (append r)
    then show ?thesis
      using inv by (auto simp: definitions_inv_def slug_taken_def list_ex_iff)
  next
    case (change r f)
    have "map wd_id t' = map wd_id t" "map (\<lambda>r. (wd_org_id r, wd_slug r)) t' = map (\<lambda>r. (wd_org_id r, wd_slug r)) t"
      using change by (auto simp: upd_where_def edited_def)
    moreover have "wd_status x \<in> set DEFINITION_STATUSES \<and> slug_ok (wd_slug x) \<and> 1 \<le> wd_version x" if "x \<in> set t'" for x
      using that change inv by (auto simp: upd_where_def edited_def definitions_inv_def list_all_iff split: if_splits)
    ultimately show ?thesis using inv by (simp add: definitions_inv_def list_all_iff)
  qed (use inv in simp)
qed

interpretation definition_system: invariant_system "\<lambda>t. t = []" definition_step definitions_inv
  by unfold_locales (simp add: definitions_inv_def, rule definition_step_inv, rule conjI)

interpretation definition_rows: row_evolution "\<lambda>t t'. definitions_inv t \<and> definition_step t t'" set definition_evolves
proof unfold_locales
  show "definition_evolves r r' \<Longrightarrow> definition_evolves r' r2 \<Longrightarrow> definition_evolves r r2" for r r' r2
    by (auto simp: definition_evolves_def)
  show "\<exists>r' \<in> set t'. definition_evolves r r'" if "definitions_inv t \<and> definition_step t t'" "r \<in> set t" for t t' r
    using that(1)
  proof (cases rule: definition_step_cases)
    case (change r0 f)
    have "(if r = r0 then f r else r) \<in> set t'" using that(2) change(3) by (auto simp: upd_where_def)
    moreover have "definition_evolves r (if r = r0 then f r else r)"
      using change(2) by (auto simp: definition_evolves_def edited_def)
    ultimately show ?thesis by blast
  qed (use that(2) in \<open>auto simp: definition_evolves_def\<close>)
qed (simp add: definition_evolves_def)

text \<open>
  Workflow definitions are versioned: whatever the operations, a definition keeps its id, organization and
  slug, no other definition of the organization gets that slug, its version never goes down and is at
  least 1, any change to it raises the version, and an archived definition never changes again.
\<close>

theorem definitions_versioned:
  assumes "definition_step\<^sup>*\<^sup>* [] t" and "definition_step\<^sup>*\<^sup>* t t'" and "r \<in> set t"
  shows "\<exists>r' \<in> set t'. definition_evolves r r' \<and> 1 \<le> wd_version r'
    \<and> (\<forall>x \<in> set t'. wd_org_id x = wd_org_id r \<and> wd_slug x = wd_slug r \<longrightarrow> x = r')"
proof -
  have inv: "definitions_inv t" using definition_system.inv_reachable [OF refl assms(1)] .
  from definition_rows.row_steps [OF definition_system.steps_guarded [OF assms(2) inv] assms(3)]
  obtain r' where r': "r' \<in> set t'" "definition_evolves r r'" by blast
  have inv': "definitions_inv t'" using definition_system.inv_steps [OF assms(2) inv] .
  then have "x = r'" if "x \<in> set t'" "wd_org_id x = wd_org_id r" "wd_slug x = wd_slug r" for x
    using that r' by (auto simp: definitions_inv_def distinct_map inj_on_def definition_evolves_def)
  moreover have "1 \<le> wd_version r'" using inv' r'(1) by (simp add: definitions_inv_def list_all_iff)
  ultimately show ?thesis using r' by blast
qed

definition sample_definitions :: definitions where
  "sample_definitions = snd (create_definition ''d1'' 1 ''org'' None
     [(''slug'', JStr ''default-pr''), (''name'', JStr ''Default''), (''workflow_key'', JStr ''github_pr'')] [])"

definition archived_definitions :: definitions where
  "archived_definitions = snd (set_definition_status 2 ''org'' ''d1'' ''archived'' sample_definitions)"

theorem definitions_versioned_witness:
  "hd archived_definitions \<in> set (snd (set_definition_status 3 ''org'' ''d1'' ''active'' archived_definitions))"
proof -
  have "definition_step [] sample_definitions" unfolding sample_definitions_def by (rule step_create) simp
  moreover have "definition_step sample_definitions archived_definitions"
    unfolding archived_definitions_def by (rule step_status)
  ultimately have "definition_step\<^sup>*\<^sup>* [] archived_definitions" by (meson converse_rtranclp_into_rtranclp r_into_rtranclp)
  moreover have "definition_step\<^sup>*\<^sup>* archived_definitions (snd (set_definition_status 3 ''org'' ''d1'' ''active'' archived_definitions))"
    by (simp add: step_status r_into_rtranclp)
  moreover have "archived_definitions \<noteq> []" "wd_status (hd archived_definitions) = ''archived''" by code_simp+
  ultimately show ?thesis
    using definitions_versioned [of archived_definitions _ "hd archived_definitions"] hd_in_set
    unfolding definition_evolves_def by blast
qed

end
