(* ===== verification/Event_Stream.thy ===== *)
theory Event_Stream
  imports Workflow_Ledger Steering_Policy Delivery_Graph
begin

text \<open>
  The event stream of a run: shaping of raw graph events into envelopes (\<^verbatim>\<open>events/stream_envelope.py\<close>), the
  sequence numbers of \<^verbatim>\<open>workflows/runner.py\<close>, the durable log with the stage projection it keeps on the run
  row (\<^verbatim>\<open>integrations/database/workflow_events_store.py\<close>), the projection that readers recompute
  (\<^verbatim>\<open>persistence/repositories/workflow_progress.py\<close>), the publisher of \<^verbatim>\<open>app/composition/workflows.py\<close> and the
  frames a subscriber is sent (\<^verbatim>\<open>app/api/routes/workflows.py\<close>). Timestamps of envelopes are left out; the
  live bus is the list of envelopes it delivers. \<^verbatim>\<open>float\<close> and \<^verbatim>\<open>str\<close> of compound values are parameters.
\<close>

section \<open>Envelopes\<close>

record envelope =
  se_type :: string
  se_run_id :: string
  se_surface :: string
  se_seq :: int
  se_node_id :: "string option"
  se_payload :: jobj

record stream_lib =
  sl_render :: "json \<Rightarrow> string"
  sl_float :: "json \<Rightarrow> real option"
  sl_fmt :: "real \<Rightarrow> string"

text \<open>
  What a graph run returns: its status, interrupts, the nodes in execution order, the failures and the usage.
  A node's result carries attributes of its own and wraps what its agent or sub-graph returned.
\<close>

datatype wrapped = Wraps_Nothing | Wraps_Agent agent_output | Wraps_Graph "(string \<times> agent_output) list" agent_output

record node_entry =
  ne_node_id :: string
  ne_failed :: bool
  ne_own :: agent_output
  ne_wrapped :: wrapped

datatype failed_nodes = Failed_Count int | Failed_Ids "string list"

record graph_result =
  gr_status :: string
  gr_interrupts :: "(string \<times> json) list"
  gr_order :: "node_entry list"
  gr_failed :: failed_nodes
  gr_usage :: "jobj option"

text \<open>A raw event is a mapping; its node result is a dict or an object, its result a graph result.\<close>

datatype stop_result = Stop_Dict jobj | Stop_Object "string option" json

record raw_event =
  rw_fields :: jobj
  rw_node_result :: "stop_result option"
  rw_result :: "graph_result option"

definition as_dict :: "json \<Rightarrow> jobj" where
  "as_dict v = (case v of JObj d \<Rightarrow> d | _ \<Rightarrow> [])"

definition status_name :: "string option \<Rightarrow> string" where
  "status_name st = (case st of None \<Rightarrow> ''UNKNOWN'' | Some n \<Rightarrow> if n = [] then ''UNKNOWN'' else n)"

definition interrupt_records :: "graph_result \<Rightarrow> json" where
  "interrupt_records r = JList (map (\<lambda>(i, reason). JObj [(''id'', JStr i), (''reason'', reason)]) (gr_interrupts r))"

text \<open>\<^verbatim>\<open>int(x or 0)\<close> of a usage counter.\<close>

definition int_of :: "json \<Rightarrow> int" where
  "int_of v = (case v of JInt i \<Rightarrow> i | JBool True \<Rightarrow> 1 | _ \<Rightarrow> 0)"

definition token_usage :: "graph_result \<Rightarrow> jobj" where
  "token_usage r =
     (case gr_usage r of
        None \<Rightarrow> []
      | Some u \<Rightarrow> [(''tokens_in'', JInt (int_of (jget u ''inputTokens''))), (''tokens_out'', JInt (int_of (jget u ''outputTokens'')))])"

definition trunc :: "real \<Rightarrow> int" where
  "trunc x = (if 0 \<le> x then \<lfloor>x\<rfloor> else \<lceil>x\<rceil>)"

definition duration_ms :: "stream_lib \<Rightarrow> json \<Rightarrow> json res" where
  "duration_ms lib v =
     (case v of
        JNull \<Rightarrow> Inr JNull
      | _ \<Rightarrow> (case sl_float lib v of None \<Rightarrow> Inl (ValueError ''could not convert to float'') | Some x \<Rightarrow> Inr (JInt (trunc (x * 1000)))))"

definition strings_of :: "stream_lib \<Rightarrow> jobj \<Rightarrow> string \<Rightarrow> json res" where
  "strings_of lib d k =
     (case map_of d k of
        None \<Rightarrow> Inr (JList [])
      | Some (JList xs) \<Rightarrow> Inr (JList (map (\<lambda>x. JStr (py_str (sl_render lib) x)) xs))
      | Some (JStr s) \<Rightarrow> Inr (JList (map (\<lambda>c. JStr [c]) s))
      | Some (JObj kvs) \<Rightarrow> Inr (JList (map (\<lambda>kv. JStr (fst kv)) kvs))
      | Some _ \<Rightarrow> Inl (Exn ''TypeError'' ''object is not iterable''))"

definition env_of :: "string \<Rightarrow> string \<Rightarrow> string \<Rightarrow> string option \<Rightarrow> jobj \<Rightarrow> envelope" where
  "env_of type run_id surface node payload =
     \<lparr>se_type = type, se_run_id = run_id, se_surface = surface, se_seq = 0, se_node_id = node, se_payload = payload\<rparr>"

definition node_stream :: "stream_lib \<Rightarrow> string \<Rightarrow> string \<Rightarrow> string option \<Rightarrow> jobj \<Rightarrow> envelope option" where
  "node_stream lib run_id surface node nested =
     (case jget nested ''data'' of
        JStr text \<Rightarrow> Some (env_of ''text_delta'' run_id surface node [(''text'', JStr text)])
      | _ \<Rightarrow>
          let tool = as_dict (jget nested ''current_tool_use'') in
          if py_truth (jget tool ''name'')
          then Some (env_of ''tool_progress'' run_id surface node
                 [(''name'', JStr (py_str (sl_render lib) (jget tool ''name''))),
                  (''tool_use_id'', JStr (py_str (sl_render lib) (item_or tool ''toolUseId'' (JStr []))))])
          else None)"

definition node_stop :: "stream_lib \<Rightarrow> stop_result option \<Rightarrow> jobj res" where
  "node_stop lib r =
     (case r of
        Some (Stop_Dict d) \<Rightarrow>
          if d = [] then Inr [(''status'', JStr ''UNKNOWN''), (''duration_ms'', JNull)]
          else bind_res (duration_ms lib (jget d ''duration'')) (\<lambda>ms.
                 Inr [(''status'', JStr (py_str (sl_render lib) (item_or d ''status'' (JStr ''UNKNOWN'')))), (''duration_ms'', ms)])
      | Some (Stop_Object st time) \<Rightarrow> Inr [(''status'', JStr (status_name st)), (''duration_ms'', time)]
      | None \<Rightarrow> Inr [(''status'', JStr ''UNKNOWN''), (''duration_ms'', JNull)])"

definition filter_graph_event :: "stream_lib \<Rightarrow> string \<Rightarrow> string \<Rightarrow> raw_event \<Rightarrow> envelope option res" where
  "filter_graph_event lib run_id surface ev =
     (let d = rw_fields ev;
          kind = py_str (sl_render lib) (item_or d ''type'' (JStr []));
          node = (case jget d ''node_id'' of JNull \<Rightarrow> None | v \<Rightarrow> Some (py_str (sl_render lib) v))
      in
      if kind = ''multiagent_node_start''
      then Inr (Some (env_of ''node_start'' run_id surface node
             [(''node_type'', JStr (py_str (sl_render lib) (item_or d ''node_type'' (JStr ''agent''))))]))
      else if kind = ''multiagent_node_stream''
      then Inr (node_stream lib run_id surface node (as_dict (jget d ''event'')))
      else if kind = ''multiagent_node_stop''
      then map_sum id (\<lambda>p. Some (env_of ''node_stop'' run_id surface node p)) (node_stop lib (rw_node_result ev))
      else if kind = ''multiagent_handoff''
      then bind_res (strings_of lib d ''from_node_ids'') (\<lambda>f. bind_res (strings_of lib d ''to_node_ids'') (\<lambda>t.
             Inr (Some (env_of ''handoff'' run_id surface None [(''from'', f), (''to'', t)]))))
      else case rw_result ev of
        Some r \<Rightarrow> Inr (Some (env_of ''workflow_result'' run_id surface None
               ([(''status'', JStr (status_name (Some (gr_status r)))), (''interrupts'', interrupt_records r)] @ token_usage r)))
      | None \<Rightarrow>
          if py_truth (jget d ''force_stop'')
          then Inr (Some (env_of ''workflow_result'' run_id surface None
                 [(''status'', JStr ''FAILED''),
                  (''force_stop_reason'', JStr (py_str (sl_render lib) (item_or d ''force_stop_reason'' (JStr ''unknown'')))),
                  (''interrupts'', JList [])]))
          else Inr None)"

definition optional_text :: "string option \<Rightarrow> json" where
  "optional_text x = (case x of None \<Rightarrow> JNull | Some s \<Rightarrow> JStr s)"

definition steering_envelope ::
  "stream_lib \<Rightarrow> steering_decision \<Rightarrow> string \<Rightarrow> string \<Rightarrow> string option \<Rightarrow> string option \<Rightarrow> string option \<Rightarrow> jobj option \<Rightarrow> int
   \<Rightarrow> envelope res" where
  "steering_envelope lib d run_id surface node agent tool attempts max_bytes =
     bind_res (redact_value (sl_fmt lib) max_bytes (JObj
       ([(''schema_version'', JStr ''1''), (''phase'', JStr (phase_value (sd_phase d))),
         (''action'', JStr (kind_value (sd_kind d))), (''role'', optional_text (map_option role_value (sd_role d))),
         (''rule'', JStr (sd_rule d)), (''reason'', JStr (scrub_secret_values (sd_reason d))),
         (''agent_id'', optional_text agent), (''node_id'', optional_text node), (''tool_name'', optional_text tool),
         (''interrupt_id'', optional_text (sd_interrupt_id d))]
        @ (case attempts of None \<Rightarrow> [] | Some a \<Rightarrow> [(''attempt_summary'', JObj a)])))) (\<lambda>bounded.
     Inr (env_of ''steering'' run_id surface node (as_dict bounded)))"

definition task_progress_envelope ::
  "string \<Rightarrow> string \<Rightarrow> string option \<Rightarrow> string \<Rightarrow> string \<Rightarrow> string \<Rightarrow> string \<Rightarrow> int \<Rightarrow> int \<Rightarrow> envelope" where
  "task_progress_envelope run_id surface node task path act status position n =
     env_of ''task_progress'' run_id surface node
       [(''schema_version'', JStr ''1''), (''task_id'', JStr task), (''path'', JStr path), (''action'', JStr act),
        (''status'', JStr status), (''position'', JInt position), (''total'', JInt n)]"

definition DOCUMENTATION_PROGRESS_EVENTS :: "string list" where
  "DOCUMENTATION_PROGRESS_EVENTS =
     [''documentation.task.claimed'', ''documentation.page.written'', ''documentation.page.evaluated'',
      ''documentation.page.revision_scheduled'', ''documentation.page.escalated'', ''documentation.workflow.resumed'']"

definition optional_int :: "int option \<Rightarrow> json" where
  "optional_int x = (case x of None \<Rightarrow> JNull | Some i \<Rightarrow> JInt i)"

definition documentation_progress_envelope ::
  "string \<Rightarrow> string \<Rightarrow> string \<Rightarrow> string option \<Rightarrow> string \<Rightarrow> string \<Rightarrow> int option \<Rightarrow> int option \<Rightarrow> string \<Rightarrow> envelope" where
  "documentation_progress_envelope event_type run_id surface node task page version attempt status =
     env_of ''documentation.progress'' run_id surface node
       [(''schema_version'', JStr ''1''), (''event_type'', JStr event_type), (''run_id'', JStr run_id), (''task_id'', JStr task),
        (''page_id'', JStr page), (''artifact_version'', optional_int version), (''attempt'', optional_int attempt),
        (''status'', JStr status)]"


section \<open>The durable log\<close>

record logged =
  lg_run_id :: string
  lg_seq :: int
  lg_type :: string
  lg_node_id :: "string option"
  lg_payload :: jobj

type_synonym event_log = "logged list"

definition logged_of :: "envelope \<Rightarrow> logged" where
  "logged_of e = \<lparr>lg_run_id = se_run_id e, lg_seq = se_seq e, lg_type = se_type e, lg_node_id = se_node_id e,
     lg_payload = se_payload e\<rparr>"

definition log_key :: "logged \<Rightarrow> string \<times> int" where
  "log_key r = (lg_run_id r, lg_seq r)"

definition node_event :: "logged \<Rightarrow> bool" where
  "node_event r \<longleftrightarrow> lg_type r \<in> {''node_start'', ''node_stop''} \<and> lg_node_id r \<noteq> None \<and> lg_node_id r \<noteq> Some []"

definition stage_state :: "logged \<Rightarrow> string" where
  "stage_state r =
     (if lg_type r = ''node_start'' then ''running''
      else if jget (lg_payload r) ''status'' = JStr ''COMPLETED'' then ''completed'' else ''failed'')"

text \<open>\<^verbatim>\<open>jsonb_set\<close>: the value of the key is replaced, or the key added.\<close>

definition put_stage :: "string \<Rightarrow> string \<Rightarrow> (string \<times> string) list \<Rightarrow> (string \<times> string) list" where
  "put_stage k v m = (if k \<in> set (map fst m) then map (\<lambda>kv. if fst kv = k then (k, v) else kv) m else m @ [(k, v)])"

text \<open>
  The payload is bound as dumped text to a \<^verbatim>\<open>jsonb\<close> parameter. The pool's connections register a codec whose
  encoder dumps it again (\<^verbatim>\<open>integrations/database/client.py\<close>): the column then holds a JSON string, in which
  the operator \<^verbatim>\<open>->>\<close> of the statement finds no field. Readers decode until they have the object.
\<close>

definition sql_object :: "bool \<Rightarrow> jobj \<Rightarrow> jobj" where
  "sql_object codec payload = (if codec then [] else payload)"

definition stored_state :: "bool \<Rightarrow> logged \<Rightarrow> string" where
  "stored_state codec r = stage_state (r\<lparr>lg_payload := sql_object codec (lg_payload r)\<rparr>)"

lemma stored_state_plain [simp]: "stored_state False r = stage_state r"
  by (simp add: stored_state_def sql_object_def)

definition stage_update :: "bool \<Rightarrow> int \<Rightarrow> logged \<Rightarrow> run_row \<Rightarrow> run_row" where
  "stage_update codec now r run =
     run\<lparr>wr_current_stage := lg_node_id r,
         wr_stage_states := put_stage (the (lg_node_id r)) (stored_state codec r) (wr_stage_states run),
         wr_updated_at := now\<rparr>"

text \<open>One statement: the row is inserted unless its key is there, and an inserted node event updates its run.\<close>

definition append_envelope :: "bool \<Rightarrow> int \<Rightarrow> envelope \<Rightarrow> event_log \<times> runs \<Rightarrow> event_log \<times> runs" where
  "append_envelope codec now e lt =
     (let (rows, t) = lt; r = logged_of e in
      if log_key r \<in> log_key ` set rows then (rows, t)
      else (rows @ [r],
            if node_event r then upd_where (\<lambda>run. wr_id run = lg_run_id r) (stage_update codec now r) t else t))"

definition list_after :: "string \<Rightarrow> int \<Rightarrow> nat \<Rightarrow> event_log \<Rightarrow> event_log" where
  "list_after run_id seq limit rows =
     take limit (sort_key lg_seq (filter (\<lambda>r. lg_run_id r = run_id \<and> seq < lg_seq r) rows))"

definition terminal_run_ids :: "string list \<Rightarrow> event_log \<Rightarrow> string set" where
  "terminal_run_ids ids rows = {lg_run_id r |r. r \<in> set rows \<and> lg_run_id r \<in> set ids \<and> lg_type r = ''workflow_result''}"

subsection \<open>The projection readers recompute\<close>

record progress =
  pg_current :: "string option"
  pg_states :: "(string \<times> string) list"
  pg_sequence :: "string list"

definition project_event :: "logged \<Rightarrow> progress \<Rightarrow> progress" where
  "project_event r p =
     (if \<not> node_event r then p
      else let node = the (lg_node_id r) in
        \<lparr>pg_current = Some node, pg_states = put_stage node (stage_state r) (pg_states p),
         pg_sequence = (if node \<in> set (map fst (pg_states p)) then pg_sequence p else pg_sequence p @ [node])\<rparr>)"

definition project_progress :: "event_log \<Rightarrow> progress" where
  "project_progress rows = fold project_event (sort_key lg_seq rows) \<lparr>pg_current = None, pg_states = [], pg_sequence = []\<rparr>"

text \<open>The progress a run page attaches: recomputed from the log when it holds node events, else the stored states.\<close>

definition with_progress :: "event_log \<Rightarrow> run_row \<Rightarrow> run_row \<times> string list" where
  "with_progress rows run =
     (let p = project_progress (filter (\<lambda>r. lg_run_id r = wr_id run \<and> lg_type r \<in> {''node_start'', ''node_stop''}) rows) in
      if pg_sequence p \<noteq> []
      then (run\<lparr>wr_current_stage := pg_current p, wr_stage_states := pg_states p\<rparr>, pg_sequence p)
      else (run, map fst (wr_stage_states run)))"

section \<open>Publishing\<close>

text \<open>
  The sequence of one graph build: numbers count from 1. The publisher appends to the log, whose failure
  it swallows, and then hands the envelope to the bus, whose failure the runner swallows.
\<close>

record stream_state =
  st_codec :: bool
  st_log :: event_log
  st_runs :: runs
  st_bus :: "envelope list"
  st_next :: int

definition publish :: "int \<Rightarrow> bool \<Rightarrow> bool \<Rightarrow> envelope \<Rightarrow> stream_state \<Rightarrow> stream_state" where
  "publish now log_down bus_down e s =
     (let (rows, t) = (if log_down then (st_log s, st_runs s) else append_envelope (st_codec s) now e (st_log s, st_runs s))
      in s\<lparr>st_log := rows, st_runs := t, st_bus := (if bus_down then st_bus s else st_bus s @ [e])\<rparr>)"

definition publish_next :: "int \<Rightarrow> bool \<Rightarrow> bool \<Rightarrow> envelope \<Rightarrow> stream_state \<Rightarrow> stream_state" where
  "publish_next now log_down bus_down e s =
     (let n = st_next s + 1 in publish now log_down bus_down (e\<lparr>se_seq := n\<rparr>) (s\<lparr>st_next := n\<rparr>))"

definition new_graph :: "stream_state \<Rightarrow> stream_state" where
  "new_graph s = s\<lparr>st_next := 0\<rparr>"

section \<open>Subscribers\<close>

definition replay_frame :: "logged \<Rightarrow> envelope" where
  "replay_frame r = \<lparr>se_type = lg_type r, se_run_id = lg_run_id r, se_surface = [], se_seq = lg_seq r,
     se_node_id = lg_node_id r, se_payload = lg_payload r\<rparr>"

text \<open>The live frames up to and including the first terminal one, those already seen skipped.\<close>

fun live_frames :: "int \<Rightarrow> envelope list \<Rightarrow> envelope list" where
  "live_frames min_seq [] = []"
| "live_frames min_seq (e # es) =
     (if se_seq e \<le> min_seq then live_frames min_seq es
      else if se_type e = ''workflow_result'' then [e]
      else e # live_frames min_seq es)"

definition event_source :: "event_log \<Rightarrow> int \<Rightarrow> envelope list \<Rightarrow> envelope list" where
  "event_source replayed min_seq live =
     map replay_frame replayed
       @ (if list_ex (\<lambda>r. lg_type r = ''workflow_result'') replayed then [] else live_frames min_seq live)"

definition REPLAY_LIMIT :: nat where "REPLAY_LIMIT = 500"

text \<open>\<open>last_event_id\<close> is the decimal header of a reconnecting client, absent on a first connection.\<close>

fun dedupe :: "int list \<Rightarrow> event_log \<Rightarrow> event_log" where
  "dedupe seen [] = []"
| "dedupe seen (r # rs) = (if lg_seq r \<in> set seen then dedupe seen rs else r # dedupe (lg_seq r # seen) rs)"

definition stream_events :: "string \<Rightarrow> int option \<Rightarrow> event_log \<Rightarrow> envelope list \<Rightarrow> envelope list" where
  "stream_events run_id last_event_id rows live =
     (let replayed = list_after run_id (case last_event_id of None \<Rightarrow> 0 | Some n \<Rightarrow> n) REPLAY_LIMIT rows;
          min_seq = (case last_event_id of
                       Some n \<Rightarrow> n
                     | None \<Rightarrow> if replayed = [] then 0 else Max (lg_seq ` set replayed))
      in event_source (dedupe [] replayed) min_seq live)"


section \<open>Stored stages and the stages a reader recomputes\<close>

definition empty_progress :: progress where
  "empty_progress = \<lparr>pg_current = None, pg_states = [], pg_sequence = []\<rparr>"

definition of_run :: "string \<Rightarrow> event_log \<Rightarrow> event_log" where
  "of_run i rows = filter (\<lambda>r. lg_run_id r = i) rows"

lemma of_run_snoc: "of_run i (rows @ [r]) = (if lg_run_id r = i then of_run i rows @ [r] else of_run i rows)"
  by (simp add: of_run_def)

lemma map_of_put_stage: "map_of (put_stage k v m) k = Some v"
proof (cases "k \<in> set (map fst m)")
  case True
  then have "map_of (map (\<lambda>kv. if fst kv = k then (k, v) else kv) m) k = Some v"
    by (induction m) auto
  with True show ?thesis by (simp add: put_stage_def)
next
  case False
  then have "map_of m k = None" by (simp add: map_of_eq_None_iff)
  with False show ?thesis by (simp add: put_stage_def map_add_def)
qed

text \<open>
  C22. Through the JSON codec that the pool registers on every connection, the stages kept on the run row and
  those a reader recomputes from the log disagree: when a node's completion (a \<^verbatim>\<open>node_stop\<close> whose payload
  says COMPLETED, with a number above those the run has in the log) is appended, the row records the node as
  failed, although the log's reader projects it as completed.
\<close>

theorem registered_codec_fails_stages:
  assumes "append_envelope True now e (rows, t) = (rows', t')" and "run \<in> set t" and "wr_id run = se_run_id e"
    and "se_type e = ''node_stop''" and "se_node_id e = Some n" and "n \<noteq> []"
    and "jget (se_payload e) ''status'' = JStr ''COMPLETED''"
    and "\<forall>r \<in> set rows. lg_run_id r = se_run_id e \<longrightarrow> lg_seq r < se_seq e"
  shows "(\<exists>run' \<in> set t'. wr_id run' = wr_id run \<and> map_of (wr_stage_states run') n = Some ''failed'')
    \<and> map_of (pg_states (project_progress (of_run (se_run_id e) rows'))) n = Some ''completed''"
proof -
  let ?r = "logged_of e"
  have "log_key ?r \<notin> log_key ` set rows" using assms(8) by (auto simp: log_key_def logged_of_def)
  moreover have node: "node_event ?r" using assms(4-6) by (simp add: node_event_def logged_of_def)
  ultimately have rows': "rows' = rows @ [?r]" and t': "t' = upd_where (\<lambda>run. wr_id run = lg_run_id ?r) (stage_update True now ?r) t"
    using assms(1) by (simp_all add: append_envelope_def Let_def)
  note put = map_of_put_stage
  have "stage_update True now ?r run \<in> set t'"
    using assms(2,3) by (auto simp: t' set_upd_where logged_of_def)
  moreover have "stored_state True ?r = ''failed''"
    using assms(4) by (simp add: stored_state_def sql_object_def stage_state_def logged_of_def)
  then have "map_of (wr_stage_states (stage_update True now ?r run)) n = Some ''failed''"
    using assms(5) by (simp add: stage_update_def logged_of_def put)
  moreover have "wr_id (stage_update True now ?r run) = wr_id run" by (simp add: stage_update_def)
  moreover have "sort_key lg_seq (of_run (se_run_id e) rows') = sort_key lg_seq (of_run (se_run_id e) rows) @ [?r]"
  proof (rule properties_for_sort_key)
    show "mset (sort_key lg_seq (of_run (se_run_id e) rows) @ [?r]) = mset (of_run (se_run_id e) rows')"
      by (simp add: rows' of_run_snoc logged_of_def)
    have later: "\<forall>x \<in> set (of_run (se_run_id e) rows). lg_seq x < lg_seq ?r"
      using assms(8) by (simp add: of_run_def logged_of_def)
    then show "sorted (map lg_seq (sort_key lg_seq (of_run (se_run_id e) rows) @ [?r]))"
      by (auto simp: sorted_append intro: less_imp_le)
    show "filter (\<lambda>y. lg_seq k = lg_seq y) (sort_key lg_seq (of_run (se_run_id e) rows) @ [?r])
        = filter (\<lambda>y. lg_seq k = lg_seq y) (of_run (se_run_id e) rows')" for k
      using sort_key_stable [of lg_seq "lg_seq k" "of_run (se_run_id e) rows"]
      by (simp add: rows' of_run_snoc logged_of_def eq_commute [of "lg_seq k"])
  qed
  then have "pg_states (project_progress (of_run (se_run_id e) rows'))
      = put_stage n (stage_state ?r) (pg_states (project_progress (of_run (se_run_id e) rows)))"
    using node assms(5) by (simp add: project_progress_def project_event_def Let_def) (simp add: logged_of_def)
  then have "map_of (pg_states (project_progress (of_run (se_run_id e) rows'))) n = Some ''completed''"
    using assms(4,7) by (simp add: put stage_state_def logged_of_def)
  ultimately show ?thesis by blast
qed

section \<open>A resumed run\<close>

lemma append_known: "log_key (logged_of e) \<in> log_key ` set rows \<Longrightarrow> append_envelope codec now e (rows, t) = (rows, t)"
  by (simp add: append_envelope_def)

definition publish_all :: "int \<Rightarrow> envelope list \<Rightarrow> stream_state \<Rightarrow> stream_state" where
  "publish_all now es s = fold (publish_next now False False) es s"

lemma publish_all_known:
  assumes "\<forall>e \<in> set es. se_run_id e = i" and "0 \<le> st_next s" and "st_next s + int (length es) \<le> n"
    and "\<And>k. 0 < k \<Longrightarrow> k \<le> n \<Longrightarrow> (i, k) \<in> log_key ` set (st_log s)"
  shows "st_log (publish_all now es s) = st_log s \<and> st_runs (publish_all now es s) = st_runs s
    \<and> length (st_bus (publish_all now es s)) = length (st_bus s) + length es"
  using assms
proof (induction es arbitrary: s)
  case (Cons e es)
  have "log_key (logged_of (e\<lparr>se_seq := st_next s + 1\<rparr>)) = (i, st_next s + 1)"
    using Cons.prems(1) by (simp add: log_key_def logged_of_def)
  moreover have "(i, st_next s + 1) \<in> log_key ` set (st_log s)"
    using Cons.prems(2,3) Cons.prems(4) [of "st_next s + 1"] by simp
  ultimately have step: "publish_next now False False e s
      = s\<lparr>st_next := st_next s + 1, st_bus := st_bus s @ [e\<lparr>se_seq := st_next s + 1\<rparr>]\<rparr>"
    by (simp add: publish_next_def publish_def Let_def append_known)
  from Cons.IH [of "publish_next now False False e s"] Cons.prems show ?case
    by (simp add: publish_all_def step)
qed (simp add: publish_all_def)

text \<open>
  Resuming a run loses its events: the graph built for the resumption numbers them from 1 again, so as
  long as it publishes no more envelopes than the log already holds for the run, the log and the stages
  of the run stay as the paused execution left them; and since the paused execution has logged its own
  result, a subscriber is replayed that and sent none of the live frames.
\<close>

theorem resumed_events_lost:
  assumes "\<forall>k. 0 < k \<and> k \<le> n \<longrightarrow> (i, k) \<in> log_key ` set (st_log s)"
    and "\<forall>e \<in> set es. se_run_id e = i" and "int (length es) \<le> n"
    and "list_ex (\<lambda>r. lg_type r = ''workflow_result'') (dedupe [] (list_after i 0 REPLAY_LIMIT (st_log s)))"
  shows "let s' = publish_all now es (new_graph s) in
    st_log s' = st_log s \<and> st_runs s' = st_runs s \<and> length (st_bus s') = length (st_bus s) + length es
    \<and> stream_events i None (st_log s') (st_bus s') = map replay_frame (dedupe [] (list_after i 0 REPLAY_LIMIT (st_log s)))"
proof -
  have "st_log (publish_all now es (new_graph s)) = st_log (new_graph s)
    \<and> st_runs (publish_all now es (new_graph s)) = st_runs (new_graph s)
    \<and> length (st_bus (publish_all now es (new_graph s))) = length (st_bus (new_graph s)) + length es"
    by (rule publish_all_known [OF assms(2), where n = n]) (use assms(1,3) in \<open>auto simp: new_graph_def\<close>)
  then show ?thesis
    using assms(4) by (simp add: new_graph_def Let_def stream_events_def event_source_def)
qed

definition sample_envelope :: "string \<Rightarrow> string option \<Rightarrow> envelope" where
  "sample_envelope type node = env_of type ''r1'' ''issue'' node []"

definition paused_stream :: stream_state where
  "paused_stream = publish_all 5
     [sample_envelope ''node_start'' (Some ''deliver''), sample_envelope ''workflow_result'' None]
     \<lparr>st_codec = True, st_log = [], st_runs = sample_runs, st_bus = [], st_next = 0\<rparr>"

lemma paused_stream_log:
  "st_log paused_stream =
    [logged_of ((sample_envelope ''node_start'' (Some ''deliver''))\<lparr>se_seq := 1\<rparr>),
     logged_of ((sample_envelope ''workflow_result'' None)\<lparr>se_seq := 2\<rparr>)]"
  by (simp add: paused_stream_def publish_all_def publish_next_def publish_def append_envelope_def Let_def
      log_key_def logged_of_def sample_envelope_def env_of_def)

theorem resumed_events_lost_witness:
  "st_log (publish_all 9 [sample_envelope ''node_stop'' (Some ''deliver'')] (new_graph paused_stream)) = st_log paused_stream"
proof -
  have k: "\<forall>k. 0 < k \<and> k \<le> (2::int) \<longrightarrow> (''r1'', k) \<in> log_key ` set (st_log paused_stream)"
  proof (intro allI impI)
    fix k :: int assume "0 < k \<and> k \<le> 2"
    then have "k = 1 \<or> k = 2" by linarith
    then show "(''r1'', k) \<in> log_key ` set (st_log paused_stream)"
      by (auto simp: paused_stream_log log_key_def logged_of_def sample_envelope_def env_of_def)
  qed
  have r: "\<forall>e \<in> set [sample_envelope ''node_stop'' (Some ''deliver'')]. se_run_id e = ''r1''"
    by (simp add: sample_envelope_def env_of_def)
  have "list_ex (\<lambda>r. lg_type r = ''workflow_result'') (dedupe [] (list_after ''r1'' 0 REPLAY_LIMIT (st_log paused_stream)))"
    by (simp add: paused_stream_log list_after_def logged_of_def sample_envelope_def env_of_def REPLAY_LIMIT_def)
  from resumed_events_lost [OF k r _ this, of 9] show ?thesis by (simp add: Let_def)
qed

theorem registered_codec_fails_stages_witness:
  "\<exists>run' \<in> set (snd (append_envelope True 9 (env_of ''node_stop'' ''r1'' ''issue'' (Some ''deliver'') [(''status'', JStr ''COMPLETED'')])
       ([], sample_runs))). map_of (wr_stage_states run') ''deliver'' = Some ''failed''"
proof -
  let ?e = "env_of ''node_stop'' ''r1'' ''issue'' (Some ''deliver'') [(''status'', JStr ''COMPLETED'')]"
  have "hd sample_runs \<in> set sample_runs" "wr_id (hd sample_runs) = se_run_id ?e"
    by (simp_all add: sample_runs_def start_or_get_idempotent_def Let_def sample_request_of_def env_of_def)
  moreover have "append_envelope True 9 ?e ([], sample_runs)
      = (fst (append_envelope True 9 ?e ([], sample_runs)), snd (append_envelope True 9 ?e ([], sample_runs)))"
    by (rule prod.collapse [symmetric])
  ultimately have "\<exists>run' \<in> set (snd (append_envelope True 9 ?e ([], sample_runs))).
      wr_id run' = wr_id (hd sample_runs) \<and> map_of (wr_stage_states run') ''deliver'' = Some ''failed''"
    by (intro conjunct1 [OF registered_codec_fails_stages]) (assumption | simp add: env_of_def)+
  then show ?thesis by blast
qed

section \<open>Frames of one subscriber\<close>

lemma set_dedupe: "set (dedupe seen rs) \<subseteq> set rs"
  by (induction seen rs rule: dedupe.induct) auto

lemma dedupe_sorted:
  "sorted_wrt (\<lambda>a b. lg_seq a < lg_seq b) rs \<Longrightarrow> (\<forall>r \<in> set rs. lg_seq r \<notin> set seen) \<Longrightarrow> dedupe seen rs = rs"
  by (induction seen rs rule: dedupe.induct) (auto, fastforce)

lemma live_frames_above: "e \<in> set (live_frames n es) \<Longrightarrow> n < se_seq e \<and> e \<in> set es"
  by (induction n es rule: live_frames.induct) (auto split: if_splits)

lemma live_frames_sorted:
  "sorted_wrt (\<lambda>a b. se_seq a < se_seq b) es \<Longrightarrow> sorted_wrt (\<lambda>a b. se_seq a < se_seq b) (live_frames n es)"
  by (induction n es rule: live_frames.induct) (auto dest: live_frames_above)

lemma live_frames_complete:
  "\<forall>e \<in> set es. se_type e \<noteq> ''workflow_result'' \<Longrightarrow> live_frames n es = filter (\<lambda>e. n < se_seq e) es"
  by (induction n es rule: live_frames.induct) auto

lemma list_after_sorted:
  assumes "distinct (map log_key rows)"
  shows "sorted_wrt (\<lambda>a b. lg_seq a < lg_seq b) (list_after i n m rows)"
proof -
  have "distinct (map lg_seq (filter (\<lambda>r. lg_run_id r = i \<and> n < lg_seq r) rows))"
    using assms by (auto simp: distinct_map inj_on_def log_key_def)
  from sorted_strict [OF this] show ?thesis unfolding list_after_def by (simp add: sorted_wrt_take)
qed

text \<open>
  A first connection is sent every event once and in order: the numbers of its frames grow strictly, the
  logged events of the run that the replay limit admits come first, and while the run has not ended every
  live event with a number beyond them follows. A reconnecting client is not: the rows beyond its last
  event are replayed and, when the bus delivers them too, sent again.
\<close>

theorem subscriber_frames:
  assumes "distinct (map log_key rows)" and "sorted_wrt (\<lambda>a b. se_seq a < se_seq b) live"
    and "\<forall>e \<in> set live. se_type e \<noteq> ''workflow_result''"
    and "\<forall>r \<in> set rows. lg_type r \<noteq> ''workflow_result'' \<and> 0 < lg_seq r"
  shows "let replayed = list_after i 0 REPLAY_LIMIT rows in
    sorted_wrt (\<lambda>a b. se_seq a < se_seq b) (stream_events i None rows live)
    \<and> stream_events i None rows live
        = map replay_frame replayed @ filter (\<lambda>e. \<forall>r \<in> set replayed. lg_seq r < se_seq e) (filter (\<lambda>e. 0 < se_seq e) live)
    \<and> stream_events i (Some n) rows live
        = map replay_frame (list_after i n REPLAY_LIMIT rows) @ filter (\<lambda>e. n < se_seq e) live"
proof -
  define replayed where "replayed = list_after i 0 REPLAY_LIMIT rows"
  have sub: "set (list_after i m REPLAY_LIMIT rows) \<subseteq> set rows" for m
    by (auto simp: list_after_def dest: in_set_takeD)
  have ded: "dedupe [] (list_after i m REPLAY_LIMIT rows) = list_after i m REPLAY_LIMIT rows" for m
    by (rule dedupe_sorted [OF list_after_sorted [OF assms(1)]]) simp
  have nt: "\<not> list_ex (\<lambda>r. lg_type r = ''workflow_result'') (list_after i m REPLAY_LIMIT rows)" for m
    using sub [of m] assms(4) by (auto simp: list_ex_iff)
  define b where "b = (if replayed = [] then 0 else Max (lg_seq ` set replayed))"
  have frames: "stream_events i None rows live = map replay_frame replayed @ live_frames b live"
    by (simp add: stream_events_def Let_def event_source_def ded nt replayed_def b_def)
  have pos: "0 < lg_seq r" if "r \<in> set replayed" for r
    using that sub [of 0] assms(4) by (auto simp: replayed_def)
  have above: "b < x \<longleftrightarrow> (\<forall>r \<in> set replayed. lg_seq r < x) \<and> 0 < x" for x
  proof (cases "replayed = []")
    case False
    then have "b < x \<longleftrightarrow> (\<forall>r \<in> set replayed. lg_seq r < x)" by (simp add: b_def)
    moreover have "0 < x" if "\<forall>r \<in> set replayed. lg_seq r < x"
      using that pos False by (metis last_in_set less_trans)
    ultimately show ?thesis by blast
  qed (simp add: b_def)
  have live: "live_frames b live = filter (\<lambda>e. \<forall>r \<in> set replayed. lg_seq r < se_seq e) (filter (\<lambda>e. 0 < se_seq e) live)"
    unfolding live_frames_complete [OF assms(3)] above by (simp add: conj_commute)
  have "sorted_wrt (\<lambda>a b. se_seq a < se_seq b) (map replay_frame replayed @ live_frames b live)"
    unfolding sorted_wrt_append
    using list_after_sorted [OF assms(1), of i 0 REPLAY_LIMIT] live_frames_sorted [OF assms(2), of b]
    by (auto simp: sorted_wrt_map replay_frame_def replayed_def [symmetric] live)
  moreover have "stream_events i (Some n) rows live
      = map replay_frame (list_after i n REPLAY_LIMIT rows) @ filter (\<lambda>e. n < se_seq e) live"
    by (simp add: stream_events_def Let_def event_source_def ded nt live_frames_complete [OF assms(3)])
  ultimately show ?thesis using frames live by (simp add: Let_def replayed_def)
qed

theorem subscriber_frames_witness:
  "map se_seq (stream_events ''r1'' None [logged_of ((sample_envelope ''handoff'' None)\<lparr>se_seq := 1\<rparr>)]
      [(sample_envelope ''handoff'' None)\<lparr>se_seq := 1\<rparr>, (sample_envelope ''handoff'' None)\<lparr>se_seq := 2\<rparr>]) = [1, 2]
   \<and> map se_seq (stream_events ''r1'' (Some 0) [logged_of ((sample_envelope ''handoff'' None)\<lparr>se_seq := 1\<rparr>)]
      [(sample_envelope ''handoff'' None)\<lparr>se_seq := 1\<rparr>, (sample_envelope ''handoff'' None)\<lparr>se_seq := 2\<rparr>]) = [1, 1, 2]"
  using subscriber_frames [of "[logged_of ((sample_envelope ''handoff'' None)\<lparr>se_seq := 1\<rparr>)]"
      "[(sample_envelope ''handoff'' None)\<lparr>se_seq := 1\<rparr>, (sample_envelope ''handoff'' None)\<lparr>se_seq := 2\<rparr>]" "''r1''" 0]
  by (simp add: Let_def list_after_def logged_of_def sample_envelope_def env_of_def REPLAY_LIMIT_def replay_frame_def)

end
