(* ===== verification/Run_Tables.thy ===== *)
theory Run_Tables
  imports Workflow_Ledger Transition_Systems
begin

text \<open>
  The tables around a run that the workflow runner keeps in step: recorded events
  (\<^verbatim>\<open>persistence/repositories/events.py\<close>), jobs (\<^verbatim>\<open>integrations/database/jobs_store.py\<close>), the GitHub read
  model (\<^verbatim>\<open>persistence/repositories/github.py\<close>), the support receipts of Slack and Discord
  (\<^verbatim>\<open>persistence/repositories/slack.py\<close>, \<^verbatim>\<open>discord.py\<close>, \<^verbatim>\<open>support.py\<close>) and feedback outcomes
  (\<^verbatim>\<open>persistence/repositories/feedback_outcomes.py\<close>). One function per method; generated ids and the clock
  are arguments. Rows with equal sort keys keep the order of the table, which SQL leaves open.
\<close>

section \<open>Events\<close>

record event_row =
  ev_event_id :: string
  ev_org_id :: "string option"
  ev_event_type :: string
  ev_source :: string
  ev_repository :: "string option"
  ev_actor :: "string option"
  ev_payload :: json
  ev_occurred_at :: int
  ev_processed_at :: "int option"
  ev_status :: string
  ev_created_at :: int

type_synonym events = "event_row list"

record event_claim =
  ec_source :: string
  ec_event_type :: string
  ec_repository :: "string option"
  ec_actor :: "string option"
  ec_payload :: json
  ec_org_id :: "string option"

text \<open>Both inserts do nothing when the event is recorded; only the claim says which of the two happened.\<close>

definition claimed_event :: "int \<Rightarrow> string \<Rightarrow> event_claim \<Rightarrow> event_row" where
  "claimed_event now event_id c =
     \<lparr>ev_event_id = event_id, ev_org_id = ec_org_id c, ev_event_type = ec_event_type c,
      ev_source = ec_source c, ev_repository = ec_repository c, ev_actor = ec_actor c,
      ev_payload = ec_payload c, ev_occurred_at = now, ev_processed_at = None, ev_status = ''running'',
      ev_created_at = now\<rparr>"

definition try_claim :: "int \<Rightarrow> string \<Rightarrow> event_claim \<Rightarrow> events \<Rightarrow> bool \<times> events" where
  "try_claim now event_id c t =
     (event_id \<notin> ev_event_id ` set t, insert_new ev_event_id (claimed_event now event_id c) t)"

record github_event =
  ge_event_id :: string
  ge_event_type :: string
  ge_repository :: "string option"
  ge_occurred_at :: int
  ge_actor :: "string option"
  ge_payload :: json

definition saved_event :: "int \<Rightarrow> github_event \<Rightarrow> event_row" where
  "saved_event now e =
     \<lparr>ev_event_id = ge_event_id e, ev_org_id = None, ev_event_type = ge_event_type e, ev_source = ''github'',
      ev_repository = ge_repository e, ev_actor = ge_actor e, ev_payload = ge_payload e,
      ev_occurred_at = ge_occurred_at e, ev_processed_at = None, ev_status = ''pending'', ev_created_at = now\<rparr>"

definition save_event :: "int \<Rightarrow> github_event \<Rightarrow> events \<Rightarrow> github_event \<times> events" where
  "save_event now e t = (e, insert_new ev_event_id (saved_event now e) t)"

definition github_event_of :: "event_row \<Rightarrow> github_event" where
  "github_event_of r =
     \<lparr>ge_event_id = ev_event_id r, ge_event_type = ev_event_type r, ge_repository = ev_repository r,
      ge_occurred_at = ev_occurred_at r, ge_actor = ev_actor r, ge_payload = ev_payload r\<rparr>"

definition get_event :: "string \<Rightarrow> events \<Rightarrow> github_event option" where
  "get_event event_id t =
     map_option github_event_of (find (\<lambda>r. ev_event_id r = event_id \<and> ev_source r = ''github'') t)"

definition get_event_by_id :: "string \<Rightarrow> events \<Rightarrow> event_row option" where
  "get_event_by_id event_id t = find (\<lambda>r. ev_event_id r = event_id) t"

definition latest_events :: "(event_row \<Rightarrow> bool) \<Rightarrow> nat \<Rightarrow> events \<Rightarrow> github_event list" where
  "latest_events p limit t =
     map github_event_of (take limit (rev (sort_key ev_occurred_at (filter (\<lambda>r. ev_source r = ''github'' \<and> p r) t))))"

definition list_events :: "string \<Rightarrow> string option \<Rightarrow> nat \<Rightarrow> events \<Rightarrow> github_event list" where
  "list_events repository event_type limit t =
     latest_events (\<lambda>r. ev_repository r = Some repository \<and> given event_type ev_event_type r) limit t"

definition find_recent_events :: "string \<Rightarrow> int \<Rightarrow> nat \<Rightarrow> events \<Rightarrow> github_event list" where
  "find_recent_events repository since limit t =
     latest_events (\<lambda>r. ev_repository r = Some repository \<and> since \<le> ev_occurred_at r) limit t"

definition find_by_event_id :: "string \<Rightarrow> events \<Rightarrow> event_row option" where
  "find_by_event_id event_id t = find (\<lambda>r. ev_event_id r = event_id) t"

definition mark_status :: "int \<Rightarrow> string \<Rightarrow> string \<Rightarrow> events \<Rightarrow> events" where
  "mark_status now event_id status t =
     upd_where (\<lambda>r. ev_event_id r = event_id) (\<lambda>r. r\<lparr>ev_status := status, ev_processed_at := Some now\<rparr>) t"

definition list_recent_runs :: "nat \<Rightarrow> events \<Rightarrow> (string \<times> string) list" where
  "list_recent_runs limit t =
     map (\<lambda>r. (ev_event_id r, ev_status r)) (take limit (rev (sort_key ev_created_at t)))"

section \<open>Jobs\<close>

record job_row =
  jb_id :: string
  jb_run_id :: "string option"
  jb_org_id :: string
  jb_name :: string
  jb_job_type :: string
  jb_schedule :: string
  jb_status :: string
  jb_configuration :: json
  jb_last_run_at :: "int option"
  jb_error :: "string option"
  jb_result :: "json option"
  jb_started_at :: "int option"
  jb_completed_at :: "int option"
  jb_updated_at :: int

type_synonym jobs = "job_row list"

record new_job =
  nj_run_id :: "string option"
  nj_org_id :: string
  nj_name :: string
  nj_job_type :: string
  nj_schedule :: string
  nj_configuration :: json
  nj_status :: string

definition job_of :: "int \<Rightarrow> string \<Rightarrow> new_job \<Rightarrow> job_row" where
  "job_of now job_id j =
     \<lparr>jb_id = job_id, jb_run_id = nj_run_id j, jb_org_id = nj_org_id j, jb_name = nj_name j,
      jb_job_type = nj_job_type j, jb_schedule = nj_schedule j, jb_status = nj_status j,
      jb_configuration = nj_configuration j, jb_last_run_at = None, jb_error = None, jb_result = None,
      jb_started_at = None, jb_completed_at = None, jb_updated_at = now\<rparr>"

text \<open>The primary key and the unique run id, for which nulls are distinct.\<close>

definition run_id_taken :: "string option \<Rightarrow> jobs \<Rightarrow> bool" where
  "run_id_taken run_id t \<longleftrightarrow> run_id \<noteq> None \<and> list_ex (\<lambda>r. jb_run_id r = run_id) t"

definition insert_job :: "int \<Rightarrow> string \<Rightarrow> new_job \<Rightarrow> jobs \<Rightarrow> job_row res \<times> jobs" where
  "insert_job now job_id j t =
     (if list_ex (\<lambda>r. jb_id r = job_id) t then (Inl (UniqueViolation ''jobs_pkey''), t)
      else if run_id_taken (nj_run_id j) t then (Inl (UniqueViolation ''jobs_run_id_key''), t)
      else (Inr (job_of now job_id j), t @ [job_of now job_id j]))"

definition upsert_on_conflict :: "int \<Rightarrow> string \<Rightarrow> string \<Rightarrow> new_job \<Rightarrow> jobs \<Rightarrow> job_row option res \<times> jobs" where
  "upsert_on_conflict now job_id run_id j t =
     (let row = job_of now job_id (j\<lparr>nj_run_id := Some run_id\<rparr>) in
      if run_id_taken (Some run_id) t then (Inr None, t)
      else if list_ex (\<lambda>r. jb_id r = job_id) t then (Inl (UniqueViolation ''jobs_pkey''), t)
      else (Inr (Some row), t @ [row]))"

definition get_job :: "string \<Rightarrow> jobs \<Rightarrow> job_row option" where
  "get_job run_id t = find (\<lambda>r. jb_run_id r = Some run_id) t"

definition get_job_for_org :: "string \<Rightarrow> string \<Rightarrow> jobs \<Rightarrow> job_row option" where
  "get_job_for_org run_id org t = find (\<lambda>r. jb_run_id r = Some run_id \<and> jb_org_id r = org) t"

definition set_job_status :: "int \<Rightarrow> string \<Rightarrow> string option \<Rightarrow> json option \<Rightarrow> job_row \<Rightarrow> job_row" where
  "set_job_status now status error outcome r =
     r\<lparr>jb_status := status,
       jb_started_at := (if status = ''running'' \<and> jb_started_at r = None then Some now else jb_started_at r),
       jb_completed_at := (if status \<in> {''completed'', ''failed'', ''cancelled''} then Some now else jb_completed_at r),
       jb_error := error, jb_result := outcome, jb_last_run_at := Some now, jb_updated_at := now\<rparr>"

definition update_job_status ::
  "int \<Rightarrow> string \<Rightarrow> string \<Rightarrow> string option \<Rightarrow> json option \<Rightarrow> jobs \<Rightarrow> job_row res \<times> jobs" where
  "update_job_status now run_id status error outcome t =
     (case get_job run_id t of
        None \<Rightarrow> (Inl (ValueError (''Job '' @ quoted run_id @ '' was not found.'')), t)
      | Some r \<Rightarrow> (Inr (set_job_status now status error outcome r),
                  upd_where (\<lambda>r. jb_run_id r = Some run_id) (set_job_status now status error outcome) t))"

definition list_active :: "string option \<Rightarrow> jobs \<Rightarrow> jobs" where
  "list_active org t = filter (\<lambda>r. jb_status r = ''active'' \<and> (case org of None \<Rightarrow> True | Some x \<Rightarrow> jb_org_id r = x)) t"

definition stuck :: "int \<Rightarrow> string \<Rightarrow> job_row \<Rightarrow> bool" where
  "stuck started_before status r \<longleftrightarrow>
     jb_status r = status \<and> (case jb_started_at r of None \<Rightarrow> False | Some s \<Rightarrow> s < started_before)"

text \<open>A row without a run id is listed under the word None.\<close>

definition run_id_text :: "job_row \<Rightarrow> string" where
  "run_id_text r = (case jb_run_id r of None \<Rightarrow> ''None'' | Some s \<Rightarrow> s)"

definition list_stuck :: "int \<Rightarrow> string \<Rightarrow> nat \<Rightarrow> jobs \<Rightarrow> (string \<times> string) list" where
  "list_stuck started_before status limit t =
     map (\<lambda>r. (run_id_text r, jb_org_id r))
       (take limit (sort_key (\<lambda>r. the (jb_started_at r)) (filter (stuck started_before status) t)))"

section \<open>The GitHub read model\<close>

record github_row =
  gw_workflow_id :: string
  gw_org_id :: string
  gw_installation_id :: int
  gw_owner :: string
  gw_repo :: string
  gw_issue_number :: int
  gw_run_id :: string
  gw_title :: string
  gw_actor :: string
  gw_event_type :: "string option"
  gw_status :: string
  gw_completed_at :: "int option"
  gw_created_at :: int

type_synonym github_rows = "github_row list"

definition store_github_workflow :: "int \<Rightarrow> github_row \<Rightarrow> github_rows \<Rightarrow> unit res \<times> github_rows" where
  "store_github_workflow now q t =
     (if list_ex (\<lambda>r. gw_workflow_id r = gw_workflow_id q) t
      then (Inl (UniqueViolation ''github_workflows_workflow_id_key''), t)
      else (Inr (), t @ [q\<lparr>gw_event_type := None, gw_status := ''pending'', gw_completed_at := None, gw_created_at := now\<rparr>]))"

definition save_github_workflow :: "int \<Rightarrow> github_row \<Rightarrow> github_rows \<Rightarrow> github_rows" where
  "save_github_workflow now q t =
     (if list_ex (\<lambda>r. gw_workflow_id r = gw_workflow_id q) t
      then upd_where (\<lambda>r. gw_workflow_id r = gw_workflow_id q)
             (\<lambda>r. q\<lparr>gw_status := ''pending'', gw_completed_at := gw_completed_at r, gw_created_at := gw_created_at r\<rparr>) t
      else t @ [q\<lparr>gw_status := ''pending'', gw_completed_at := None, gw_created_at := now\<rparr>])"

definition newest_github :: "(github_row \<Rightarrow> bool) \<Rightarrow> github_rows \<Rightarrow> github_row option" where
  "newest_github p t = (case rev (sort_key gw_created_at (filter p t)) of [] \<Rightarrow> None | r # _ \<Rightarrow> Some r)"

definition get_github_workflow_by_issue :: "string \<Rightarrow> string \<Rightarrow> int \<Rightarrow> github_rows \<Rightarrow> github_row option" where
  "get_github_workflow_by_issue owner repo number =
     newest_github (\<lambda>r. gw_owner r = owner \<and> gw_repo r = repo \<and> gw_issue_number r = number)"

definition get_github_workflow_by_run_id :: "string \<Rightarrow> github_rows \<Rightarrow> github_row option" where
  "get_github_workflow_by_run_id run_id = newest_github (\<lambda>r. gw_run_id r = run_id \<or> gw_workflow_id r = run_id)"

definition update_github_workflow_status :: "int \<Rightarrow> string \<Rightarrow> string \<Rightarrow> github_rows \<Rightarrow> github_rows" where
  "update_github_workflow_status now workflow_id status t =
     upd_where (\<lambda>r. gw_workflow_id r = workflow_id)
       (\<lambda>r. r\<lparr>gw_status := status,
              gw_completed_at := (if status \<in> {''completed'', ''failed''} then Some now else gw_completed_at r)\<rparr>) t"

section \<open>Support receipts\<close>

text \<open>
  One table per platform with the same columns; \<^verbatim>\<open>thread_ts\<close> of Slack is \<^verbatim>\<open>thread_id\<close> of Discord.
\<close>

record receipt =
  rc_run_id :: string
  rc_org_id :: "string option"
  rc_platform :: string
  rc_channel_id :: "string option"
  rc_thread_id :: "string option"
  rc_source_message_id :: "string option"
  rc_provider_message_id :: "string option"
  rc_status :: string
  rc_error :: "string option"

record support_row =
  sr_id :: string
  sr_org_id :: "string option"
  sr_workflow_id :: string
  sr_channel_id :: string
  sr_thread :: "string option"
  sr_source_message :: "string option"
  sr_source_message_id :: "string option"
  sr_provider_message_id :: "string option"
  sr_delivery_error :: "string option"
  sr_status :: string
  sr_delivered_at :: "int option"
  sr_created_at :: int

type_synonym support_rows = "support_row list"

definition receipt_row :: "int \<Rightarrow> string \<Rightarrow> string \<Rightarrow> receipt \<Rightarrow> support_row" where
  "receipt_row now new_id channel q =
     \<lparr>sr_id = new_id, sr_org_id = rc_org_id q, sr_workflow_id = rc_run_id q, sr_channel_id = channel,
      sr_thread = rc_thread_id q, sr_source_message = rc_source_message_id q,
      sr_source_message_id = rc_source_message_id q, sr_provider_message_id = rc_provider_message_id q,
      sr_delivery_error = rc_error q, sr_status = rc_status q,
      sr_delivered_at = (if rc_status q = ''delivered'' then Some now else None), sr_created_at = now\<rparr>"

text \<open>The partial unique index on the source message: another run of the organization has it.\<close>

definition source_taken :: "receipt \<Rightarrow> support_rows \<Rightarrow> bool" where
  "source_taken q t \<longleftrightarrow>
     rc_org_id q \<noteq> None \<and> rc_source_message_id q \<noteq> None
     \<and> list_ex (\<lambda>r. sr_workflow_id r \<noteq> rc_run_id q \<and> sr_org_id r = rc_org_id q
                  \<and> sr_source_message_id r = rc_source_message_id q) t"

definition save_support_delivery :: "int \<Rightarrow> string \<Rightarrow> receipt \<Rightarrow> support_rows \<Rightarrow> string res \<times> support_rows" where
  "save_support_delivery now new_id q t =
     (case rc_channel_id q of
        None \<Rightarrow> (Inl (NotNullViolation ''channel_id''), t)
      | Some channel \<Rightarrow>
          if source_taken q t then (Inl (UniqueViolation ''uq_workflows_org_source''), t)
          else case find (\<lambda>r. sr_workflow_id r = rc_run_id q) t of
                 None \<Rightarrow> (Inr new_id, t @ [receipt_row now new_id channel q])
               | Some r \<Rightarrow>
                   (Inr (sr_id r),
                    upd_where (\<lambda>r. sr_workflow_id r = rc_run_id q)
                      (\<lambda>r. (receipt_row now (sr_id r) channel q)
                         \<lparr>sr_delivered_at := (if rc_status q = ''delivered'' then Some now else sr_delivered_at r),
                          sr_created_at := sr_created_at r\<rparr>) t))"

definition get_support_delivery :: "string \<Rightarrow> support_rows \<Rightarrow> support_row option" where
  "get_support_delivery run_id t = find (\<lambda>r. sr_workflow_id r = run_id) t"

definition get_support_delivery_by_source :: "string \<Rightarrow> string \<Rightarrow> support_rows \<Rightarrow> support_row option" where
  "get_support_delivery_by_source org source_message_id t =
     (case rev (sort_key sr_created_at
         (filter (\<lambda>r. sr_org_id r = Some org \<and> sr_source_message_id r = Some source_message_id) t)) of
        [] \<Rightarrow> None | r # _ \<Rightarrow> Some r)"

text \<open>The row of an incoming question: a known run goes back to pending.\<close>

definition save_support_workflow ::
  "int \<Rightarrow> string \<Rightarrow> string \<Rightarrow> string \<Rightarrow> string \<Rightarrow> string option \<Rightarrow> string \<Rightarrow> support_rows \<Rightarrow> string \<times> support_rows" where
  "save_support_workflow now new_id org run_id channel thread message t =
     (case find (\<lambda>r. sr_workflow_id r = run_id) t of
        Some r \<Rightarrow> (sr_id r, upd_where (\<lambda>r. sr_workflow_id r = run_id) (\<lambda>r. r\<lparr>sr_status := ''pending''\<rparr>) t)
      | None \<Rightarrow>
          (new_id, t @ [\<lparr>sr_id = new_id, sr_org_id = Some org, sr_workflow_id = run_id, sr_channel_id = channel,
             sr_thread = thread, sr_source_message = Some message, sr_source_message_id = None,
             sr_provider_message_id = None, sr_delivery_error = None, sr_status = ''pending'',
             sr_delivered_at = None, sr_created_at = now\<rparr>]))"

text \<open>Both platforms: the one the receipt names.\<close>

record support_tables =
  sp_slack :: support_rows
  sp_discord :: support_rows

definition platform_rows :: "string \<Rightarrow> support_tables \<Rightarrow> support_rows option" where
  "platform_rows platform s =
     (if platform = ''slack'' then Some (sp_slack s) else if platform = ''discord'' then Some (sp_discord s) else None)"

definition set_platform_rows :: "string \<Rightarrow> support_rows \<Rightarrow> support_tables \<Rightarrow> support_tables" where
  "set_platform_rows platform t s =
     (if platform = ''slack'' then s\<lparr>sp_slack := t\<rparr> else if platform = ''discord'' then s\<lparr>sp_discord := t\<rparr> else s)"

definition save_receipt :: "int \<Rightarrow> string \<Rightarrow> receipt \<Rightarrow> support_tables \<Rightarrow> string option res \<times> support_tables" where
  "save_receipt now new_id q s =
     (case platform_rows (rc_platform q) s of
        None \<Rightarrow> (Inr None, s)
      | Some t \<Rightarrow>
          (case save_support_delivery now new_id q t of
             (Inl e, t') \<Rightarrow> (Inl e, s)
           | (Inr i, t') \<Rightarrow> (Inr (Some i), set_platform_rows (rc_platform q) t' s)))"

definition receipt_of_run :: "string \<Rightarrow> support_tables \<Rightarrow> support_row option" where
  "receipt_of_run run_id s =
     (case get_support_delivery run_id (sp_slack s) of
        Some r \<Rightarrow> Some r | None \<Rightarrow> get_support_delivery run_id (sp_discord s))"

definition receipt_by_source :: "string \<Rightarrow> string \<Rightarrow> string \<Rightarrow> support_tables \<Rightarrow> support_row option" where
  "receipt_by_source org platform source_message_id s =
     (case platform_rows platform s of None \<Rightarrow> None | Some t \<Rightarrow> get_support_delivery_by_source org source_message_id t)"

section \<open>Feedback outcomes\<close>

record outcome_row =
  oc_id :: string
  oc_org_id :: string
  oc_source_type :: string
  oc_source_id :: string
  oc_outcome :: json
  oc_resolved_at :: "int option"
  oc_created_at :: int
  oc_updated_at :: int

type_synonym outcomes = "outcome_row list"

definition outcome_key :: "outcome_row \<Rightarrow> string \<times> string \<times> string" where
  "outcome_key r = (oc_org_id r, oc_source_type r, oc_source_id r)"

definition save_outcome ::
  "int \<Rightarrow> string \<Rightarrow> string \<Rightarrow> string \<Rightarrow> string \<Rightarrow> json \<Rightarrow> outcomes \<Rightarrow> string \<times> outcomes" where
  "save_outcome now new_id org source_type source_id v t =
     (case find (\<lambda>r. outcome_key r = (org, source_type, source_id)) t of
        Some r \<Rightarrow> (oc_id r, upd_where (\<lambda>r. outcome_key r = (org, source_type, source_id))
                              (\<lambda>r. r\<lparr>oc_outcome := v, oc_updated_at := now\<rparr>) t)
      | None \<Rightarrow> (new_id, t @ [\<lparr>oc_id = new_id, oc_org_id = org, oc_source_type = source_type,
                   oc_source_id = source_id, oc_outcome = v, oc_resolved_at = None, oc_created_at = now,
                   oc_updated_at = now\<rparr>]))"

definition list_unresolved :: "string \<Rightarrow> nat \<Rightarrow> outcomes \<Rightarrow> outcomes" where
  "list_unresolved org limit t =
     take limit (sort_key oc_created_at (filter (\<lambda>r. oc_org_id r = org \<and> oc_resolved_at r = None) t))"

definition mark_resolved :: "int \<Rightarrow> string \<Rightarrow> string \<Rightarrow> string \<Rightarrow> outcomes \<Rightarrow> outcomes" where
  "mark_resolved now org source_type source_id t =
     upd_where (\<lambda>r. outcome_key r = (org, source_type, source_id))
       (\<lambda>r. r\<lparr>oc_resolved_at := Some now, oc_updated_at := now\<rparr>) t"

section \<open>An event is claimed once\<close>

inductive event_step :: "events \<Rightarrow> events \<Rightarrow> bool" where
  claim: "event_step t (snd (try_claim now i c t))"
| save: "event_step t (snd (save_event now e t))"
| mark: "event_step t (mark_status now i status t)"

inductive_cases event_stepE: "event_step t t'"

definition event_identity ::
  "event_row \<Rightarrow> string \<times> string option \<times> string \<times> string \<times> string option \<times> string option \<times> json \<times> int" where
  "event_identity r =
     (ev_event_id r, ev_org_id r, ev_event_type r, ev_source r, ev_repository r, ev_actor r, ev_payload r, ev_occurred_at r)"

interpretation event_system: invariant_system "\<lambda>t. t = []" event_step "\<lambda>t. distinct (map ev_event_id t)"
proof
  fix t t' :: events
  assume "distinct (map ev_event_id t)" and "event_step t t'"
  then show "distinct (map ev_event_id t')"
    by (auto simp: try_claim_def save_event_def mark_status_def table_simps elim: event_stepE)
qed simp

interpretation event_rows: row_evolution event_step set "\<lambda>r r'. event_identity r' = event_identity r"
proof
  fix t t' :: events and r
  assume "event_step t t'" and r: "r \<in> set t"
  then show "\<exists>r' \<in> set t'. event_identity r' = event_identity r"
  proof (cases rule: event_step.cases)
    case (mark now i status)
    let ?f = "\<lambda>r. r\<lparr>ev_status := status, ev_processed_at := Some now\<rparr>"
    have "(if ev_event_id r = i then ?f r else r) \<in> set t'"
      using r by (auto simp: mark mark_status_def upd_where_def)
    moreover have "event_identity (if ev_event_id r = i then ?f r else r) = event_identity r"
      by (simp add: event_identity_def)
    ultimately show ?thesis by blast
  qed (auto simp: try_claim_def save_event_def table_simps)
qed simp_all

lemma try_claim_row:
  "i \<notin> ev_event_id ` set t \<Longrightarrow> snd (try_claim now i c t) = t @ [claimed_event now i c]"
  by (simp add: try_claim_def insert_new_def claimed_event_def)

text \<open>
  An event has one owner: after a claim has succeeded, no later claim of the same event does, whatever
  is saved, claimed or marked in between, and the row keeps the identity and payload of the first claim.
\<close>

theorem claimed_once:
  assumes "try_claim now i c t = (True, t1)" and "event_step\<^sup>*\<^sup>* t1 t2"
  shows "fst (try_claim now' i c' t2) = False
    \<and> (\<exists>r \<in> set t2. event_identity r = event_identity (claimed_event now i c))"
proof -
  have "claimed_event now i c \<in> set t1"
    using assms(1) by (auto simp: try_claim_def insert_new_def claimed_event_def)
  from event_rows.row_steps [OF assms(2) this] obtain r where
    r: "r \<in> set t2" "event_identity r = event_identity (claimed_event now i c)" by blast
  then have "ev_event_id r = i" by (simp add: event_identity_def claimed_event_def)
  with r show ?thesis by (auto simp: try_claim_def)
qed

definition sample_claim :: event_claim where
  "sample_claim = \<lparr>ec_source = ''github'', ec_event_type = ''pull_request.opened'', ec_repository = Some ''o/r'',
     ec_actor = None, ec_payload = JObj [], ec_org_id = Some ''org''\<rparr>"

theorem claimed_once_witness:
  "fst (try_claim 9 ''e'' sample_claim (mark_status 5 ''e'' ''failed'' (snd (try_claim 1 ''e'' sample_claim [])))) = False"
proof -
  have "try_claim 1 ''e'' sample_claim [] = (True, snd (try_claim 1 ''e'' sample_claim []))"
    by (simp add: try_claim_def)
  moreover have "event_step\<^sup>*\<^sup>* (snd (try_claim 1 ''e'' sample_claim []))
      (mark_status 5 ''e'' ''failed'' (snd (try_claim 1 ''e'' sample_claim [])))"
    by (intro r_into_rtranclp event_step.mark)
  ultimately show ?thesis using claimed_once by blast
qed

section \<open>One receipt per run and per source message\<close>

definition receipt_source :: "support_row \<Rightarrow> (string \<times> string) option" where
  "receipt_source r = (case (sr_org_id r, sr_source_message_id r) of (Some x, Some m) \<Rightarrow> Some (x, m) | _ \<Rightarrow> None)"

definition receipts_inv :: "support_rows \<Rightarrow> bool" where
  "receipts_inv t \<longleftrightarrow>
     distinct (map sr_workflow_id t)
     \<and> (\<forall>r \<in> set t. \<forall>r' \<in> set t. receipt_source r \<noteq> None \<longrightarrow> receipt_source r = receipt_source r' \<longrightarrow> sr_workflow_id r = sr_workflow_id r')"

lemma receipts_invD:
  "receipts_inv t \<Longrightarrow> r \<in> set t \<Longrightarrow> r' \<in> set t \<Longrightarrow> receipt_source r \<noteq> None \<Longrightarrow> receipt_source r = receipt_source r'
    \<Longrightarrow> sr_workflow_id r = sr_workflow_id r'"
  unfolding receipts_inv_def by blast

lemma receipts_invI:
  assumes "distinct (map sr_workflow_id t)"
    and "\<And>r r'. r \<in> set t \<Longrightarrow> r' \<in> set t \<Longrightarrow> receipt_source r \<noteq> None \<Longrightarrow> receipt_source r = receipt_source r'
      \<Longrightarrow> sr_workflow_id r = sr_workflow_id r'"
  shows "receipts_inv t"
  unfolding receipts_inv_def using assms by blast

lemma receipts_inv_snoc:
  assumes inv: "receipts_inv t" and new: "sr_workflow_id row \<notin> sr_workflow_id ` set t"
    and other: "\<And>r. r \<in> set t \<Longrightarrow> receipt_source r \<noteq> None \<Longrightarrow> receipt_source r \<noteq> receipt_source row"
  shows "receipts_inv (t @ [row])"
proof (rule receipts_invI)
  show "distinct (map sr_workflow_id (t @ [row]))"
    using inv new by (simp add: receipts_inv_def)
  fix a b
  assume ab: "a \<in> set (t @ [row])" "b \<in> set (t @ [row])" "receipt_source a \<noteq> None" "receipt_source a = receipt_source b"
  from ab(1,2) consider "a \<in> set t" "b \<in> set t" | "a = b" | "a \<in> set t" "b = row" | "b \<in> set t" "a = row" by auto
  then show "sr_workflow_id a = sr_workflow_id b"
  proof cases
    case 1
    then show ?thesis using receipts_invD [OF inv] ab(3,4) by blast
  next
    case 3
    then show ?thesis using other [of a] ab(3,4) by simp
  next
    case 4
    then show ?thesis using other [of b] ab(3,4) by simp
  qed simp
qed

inductive receipt_step :: "support_rows \<Rightarrow> support_rows \<Rightarrow> bool" where
  deliver: "receipt_step t (snd (save_support_delivery now i q t))"
| ask: "receipt_step t (snd (save_support_workflow now i org run channel thread message t))"

lemma receipt_row_simps [simp]:
  "sr_workflow_id (receipt_row now i ch q) = rc_run_id q" "sr_org_id (receipt_row now i ch q) = rc_org_id q"
  "sr_source_message_id (receipt_row now i ch q) = rc_source_message_id q"
  by (simp_all add: receipt_row_def)

lemma source_of_taken:
  assumes "\<not> source_taken q t" and "r \<in> set t" and "receipt_source r = Some x"
    and "rc_org_id q = Some (fst x)" and "rc_source_message_id q = Some (snd x)"
  shows "sr_workflow_id r = rc_run_id q"
  using assms by (auto simp: source_taken_def receipt_source_def list_ex_iff split: option.splits)

lemma receipts_inv_rewrite:
  assumes inv: "receipts_inv t" and free: "\<not> source_taken q t"
    and f: "\<And>r. sr_workflow_id (f r) = rc_run_id q \<and> sr_org_id (f r) = rc_org_id q
      \<and> sr_source_message_id (f r) = rc_source_message_id q"
  shows "receipts_inv (upd_where (\<lambda>r. sr_workflow_id r = rc_run_id q) f t)"
proof -
  let ?t = "upd_where (\<lambda>r. sr_workflow_id r = rc_run_id q) f t"
  have "distinct (map sr_workflow_id ?t)"
    using inv f by (simp add: receipts_inv_def table_simps)
  moreover have src: "receipt_source (f r) = (case (rc_org_id q, rc_source_message_id q) of (Some x, Some m) \<Rightarrow> Some (x, m) | _ \<Rightarrow> None)"
    for r using f [of r] by (simp add: receipt_source_def)
  have "sr_workflow_id a = sr_workflow_id b"
    if ab: "a \<in> set ?t" "b \<in> set ?t" "receipt_source a \<noteq> None" "receipt_source a = receipt_source b" for a b
  proof -
    have old: "sr_workflow_id r = rc_run_id q" if "r \<in> set t" "receipt_source r = receipt_source (f x)" "receipt_source r \<noteq> None" for r x
      using source_of_taken [OF free that(1)] that src [of x] by (auto split: option.splits)
    have cases: "sr_workflow_id x = rc_run_id q \<and> (\<exists>r. x = f r) \<or> x \<in> set t \<and> sr_workflow_id x \<noteq> rc_run_id q"
      if "x \<in> set ?t" for x
      using that f unfolding set_upd_where by blast
    show ?thesis
      using cases [OF ab(1)] cases [OF ab(2)] old [of a] old [of b] ab(3,4) inv
      unfolding receipts_inv_def by metis
  qed
  ultimately show ?thesis by (intro receipts_invI) blast+
qed

lemma save_support_delivery_inv:
  assumes "receipts_inv t"
  shows "receipts_inv (snd (save_support_delivery now i q t))"
proof (cases "rc_channel_id q")
  case (Some ch)
  show ?thesis
  proof (cases "source_taken q t")
    case free: False
    show ?thesis
    proof (cases "find (\<lambda>r. sr_workflow_id r = rc_run_id q) t")
      case None
      then have new: "rc_run_id q \<notin> sr_workflow_id ` set t" by (auto simp: find_None_iff)
      have other: "receipt_source r \<noteq> receipt_source (receipt_row now i ch q)" if "r \<in> set t" "receipt_source r \<noteq> None" for r
      proof
        assume "receipt_source r = receipt_source (receipt_row now i ch q)"
        then have "sr_workflow_id r = rc_run_id q"
          using source_of_taken [OF free that(1)] that(2)
          by (auto simp: receipt_source_def [of "receipt_row now i ch q"] split: option.splits)
        with new that(1) show False by force
      qed
      have "receipts_inv (t @ [receipt_row now i ch q])"
        using assms new other by (intro receipts_inv_snoc) simp_all
      with Some free None show ?thesis by (simp add: save_support_delivery_def)
    next
      case (Some r)
      show ?thesis
        unfolding save_support_delivery_def
        using assms free Some \<open>rc_channel_id q = Some ch\<close>
        by (simp add: receipts_inv_rewrite)
    qed
  qed (use assms Some in \<open>simp add: save_support_delivery_def\<close>)
qed (use assms in \<open>simp add: save_support_delivery_def\<close>)

lemma save_support_workflow_inv:
  assumes "receipts_inv t"
  shows "receipts_inv (snd (save_support_workflow now i org run channel thread message t))"
proof (cases "find (\<lambda>r. sr_workflow_id r = run) t")
  case None
  then have "run \<notin> sr_workflow_id ` set t" by (auto simp: find_None_iff)
  with assms have "receipts_inv (snd (save_support_workflow now i org run channel thread message t))"
    unfolding save_support_workflow_def None by (simp, intro receipts_inv_snoc) (simp_all add: receipt_source_def)
  then show ?thesis .
next
  case (Some r)
  let ?f = "\<lambda>r. r\<lparr>sr_status := ''pending''\<rparr>"
  have keep: "receipt_source (?f r) = receipt_source r" "sr_workflow_id (?f r) = sr_workflow_id r" for r
    by (simp_all add: receipt_source_def)
  have img: "\<exists>y \<in> set t. receipt_source x = receipt_source y \<and> sr_workflow_id x = sr_workflow_id y"
    if "x \<in> set (upd_where (\<lambda>r. sr_workflow_id r = run) ?f t)" for x
    using that keep unfolding set_upd_where by blast
  have "receipts_inv (upd_where (\<lambda>r. sr_workflow_id r = run) ?f t)"
  proof (rule receipts_invI)
    show "distinct (map sr_workflow_id (upd_where (\<lambda>r. sr_workflow_id r = run) ?f t))"
      using assms by (simp add: receipts_inv_def table_simps)
    fix a b
    assume ab: "a \<in> set (upd_where (\<lambda>r. sr_workflow_id r = run) ?f t)"
      "b \<in> set (upd_where (\<lambda>r. sr_workflow_id r = run) ?f t)" "receipt_source a \<noteq> None" "receipt_source a = receipt_source b"
    obtain x y where x: "x \<in> set t" "receipt_source x = receipt_source a" "sr_workflow_id a = sr_workflow_id x"
      and y: "y \<in> set t" "receipt_source b = receipt_source y" "sr_workflow_id b = sr_workflow_id y"
      using img [OF ab(1)] img [OF ab(2)] by metis
    have "receipt_source x = receipt_source y" using x(2) ab(4) y(2) by (rule trans [OF trans])
    moreover have "receipt_source x \<noteq> None" unfolding x(2) by (rule ab(3))
    ultimately have "sr_workflow_id x = sr_workflow_id y"
      using receipts_invD [OF assms x(1) y(1)] by blast
    then show "sr_workflow_id a = sr_workflow_id b" by (simp only: x(3) y(3))
  qed
  with Some show ?thesis by (simp add: save_support_workflow_def)
qed

interpretation receipt_system: invariant_system "\<lambda>t. t = []" receipt_step receipts_inv
proof
  fix t t' assume "receipts_inv t" and "receipt_step t t'"
  from this(2,1) show "receipts_inv t'"
    by (cases rule: receipt_step.cases) (simp_all add: save_support_delivery_inv save_support_workflow_inv)
qed (simp add: receipts_inv_def)

lemma distinct_singleton: "set xs = {x} \<Longrightarrow> distinct xs \<Longrightarrow> xs = [x]"
  by (cases xs; cases "tl xs") auto

lemma receipt_determined:
  assumes "receipts_inv t" and "r \<in> set t" and "r' \<in> set t" and "sr_workflow_id r = sr_workflow_id r'"
  shows "r = r'"
  using assms unfolding receipts_inv_def distinct_map by (auto dest: inj_onD)

text \<open>
  A support question has one receipt: in every table the operations build, the row that carries an
  organization's source message is the one the lookup of redeliveries returns, whatever its status, failed
  deliveries included, and another run's receipt for that message is rejected.
\<close>

theorem one_receipt_per_message:
  assumes "receipt_step\<^sup>*\<^sup>* [] t" and "r \<in> set t"
    and "sr_org_id r = Some org" and "sr_source_message_id r = Some m"
  shows "get_support_delivery_by_source org m t = Some r
    \<and> (rc_org_id q = Some org \<and> rc_source_message_id q = Some m \<and> rc_run_id q \<noteq> sr_workflow_id r
         \<and> rc_channel_id q \<noteq> None
       \<longrightarrow> save_support_delivery now i q t = (Inl (UniqueViolation ''uq_workflows_org_source''), t))"
proof
  have inv: "receipts_inv t" using receipt_system.inv_reachable [OF refl assms(1)] .
  let ?p = "\<lambda>x. sr_org_id x = Some org \<and> sr_source_message_id x = Some m"
  have same: "x = r" if "x \<in> set t" "?p x" for x
  proof -
    have "sr_workflow_id x = sr_workflow_id r"
      using receipts_invD [OF inv that(1) assms(2)] that(2) assms(3,4) by (simp add: receipt_source_def)
    then show ?thesis by (rule receipt_determined [OF inv that(1) assms(2)])
  qed
  have "set (filter ?p t) = {r}"
  proof
    show "set (filter ?p t) \<subseteq> {r}" using same by (simp add: subset_iff)
    show "{r} \<subseteq> set (filter ?p t)" using assms(2-4) by simp
  qed
  moreover have "distinct (filter ?p t)"
    using inv by (simp add: receipts_inv_def distinct_map distinct_filter)
  ultimately have "filter ?p t = [r]"
    by (intro distinct_singleton)
  then show "get_support_delivery_by_source org m t = Some r"
    by (simp add: get_support_delivery_by_source_def)
  show "rc_org_id q = Some org \<and> rc_source_message_id q = Some m \<and> rc_run_id q \<noteq> sr_workflow_id r
         \<and> rc_channel_id q \<noteq> None
       \<longrightarrow> save_support_delivery now i q t = (Inl (UniqueViolation ''uq_workflows_org_source''), t)"
  proof
    assume q: "rc_org_id q = Some org \<and> rc_source_message_id q = Some m \<and> rc_run_id q \<noteq> sr_workflow_id r
        \<and> rc_channel_id q \<noteq> None"
    then have "source_taken q t" using assms(2-4) by (auto simp: source_taken_def list_ex_iff intro!: bexI [of _ r])
    then show "save_support_delivery now i q t = (Inl (UniqueViolation ''uq_workflows_org_source''), t)"
      using q by (auto simp: save_support_delivery_def)
  qed
qed

definition sample_receipt :: "string \<Rightarrow> string \<Rightarrow> receipt" where
  "sample_receipt run status = \<lparr>rc_run_id = run, rc_org_id = Some ''org'', rc_platform = ''slack'', rc_channel_id = Some ''C'',
     rc_thread_id = None, rc_source_message_id = Some ''m'', rc_provider_message_id = None, rc_status = status, rc_error = None\<rparr>"

theorem one_receipt_per_message_witness:
  "get_support_delivery_by_source ''org'' ''m'' (snd (save_support_delivery 1 ''i'' (sample_receipt ''r1'' ''failed'') []))
     = Some (receipt_row 1 ''i'' ''C'' (sample_receipt ''r1'' ''failed''))
   \<and> fst (save_support_delivery 2 ''j'' (sample_receipt ''r2'' ''delivered'')
       (snd (save_support_delivery 1 ''i'' (sample_receipt ''r1'' ''failed'') [])))
     = Inl (UniqueViolation ''uq_workflows_org_source'')"
proof -
  let ?t = "snd (save_support_delivery 1 ''i'' (sample_receipt ''r1'' ''failed'') [])"
  let ?r = "receipt_row 1 ''i'' ''C'' (sample_receipt ''r1'' ''failed'')"
  have "receipt_step\<^sup>*\<^sup>* [] ?t" by (intro r_into_rtranclp receipt_step.deliver)
  moreover have "?r \<in> set ?t" by (simp add: save_support_delivery_def source_taken_def sample_receipt_def)
  ultimately show ?thesis
    using one_receipt_per_message [of ?t ?r "''org''" "''m''" "sample_receipt ''r2'' ''delivered''" 2 "''j''"]
    by (simp add: sample_receipt_def)
qed

end
