(* ===== verification/Review_Inbox.thy ===== *)
theory Review_Inbox
  imports Run_Tables Steering_Policy Keyset_Pages
begin

text \<open>
  The human-review inbox: the reviews table of \<^verbatim>\<open>persistence/repositories/reviews.py\<close> with its listing and
  counters, the queue (\<^verbatim>\<open>review/queue.py\<close>), the handlers of a decision (\<^verbatim>\<open>review/approvals.py\<close>,
  \<^verbatim>\<open>review/rejection.py\<close>) and the service over them (\<^verbatim>\<open>review/service.py\<close>, \<^verbatim>\<open>review/models.py\<close>). Times are
  seconds; a cursor is the pair its text encodes; \<^verbatim>\<open>json.dumps\<close> and \<^verbatim>\<open>str\<close> of compound values are parameters.
\<close>

section \<open>The table\<close>

record review =
  hr_id :: string
  hr_org_id :: string
  hr_thread_id :: string
  hr_workflow :: string
  hr_tool_name :: string
  hr_tool_args :: json
  hr_action_description :: "string option"
  hr_status :: string
  hr_reviewer_id :: "string option"
  hr_decision :: "string option"
  hr_decision_comment :: "string option"
  hr_decided_at :: "int option"
  hr_created_at :: int
  hr_expires_at :: "int option"
  hr_notification_sent_at :: "int option"
  hr_metadata :: json
  hr_detail :: json

type_synonym reviews = "review list"

record review_lib =
  rl_render :: "json \<Rightarrow> string"
  rl_dumps :: "json \<Rightarrow> string"

text \<open>What a row is read as: metadata that is no dict is empty, a detail that is none is absent.\<close>

definition row_to_record :: "review \<Rightarrow> review" where
  "row_to_record r =
     r\<lparr>hr_metadata := (case hr_metadata r of JObj d \<Rightarrow> JObj d | _ \<Rightarrow> JObj []),
       hr_detail := (case hr_detail r of JObj d \<Rightarrow> JObj d | _ \<Rightarrow> JNull)\<rparr>"

definition REASON_FIELDS :: "string list" where
  "REASON_FIELDS = [''summary'', ''evaluation'', ''evidence_count'', ''run_id'', ''classification'', ''evidence'', ''document'', ''changelog'']"

definition reason_detail :: "json \<Rightarrow> jobj" where
  "reason_detail reason = (case reason of JObj d \<Rightarrow> map (\<lambda>k. (k, jget d k)) REASON_FIELDS | _ \<Rightarrow> [])"

definition create_review ::
  "int \<Rightarrow> string \<Rightarrow> string \<Rightarrow> string \<Rightarrow> string \<Rightarrow> string \<Rightarrow> jobj \<Rightarrow> string option \<Rightarrow> int \<Rightarrow> reviews \<Rightarrow> review res \<times> reviews" where
  "create_review now new_id org thread workflow tool args description hours t =
     (let row = \<lparr>hr_id = new_id, hr_org_id = org, hr_thread_id = thread, hr_workflow = workflow, hr_tool_name = tool,
                 hr_tool_args = JObj args, hr_action_description = description, hr_status = ''pending'',
                 hr_reviewer_id = None, hr_decision = None, hr_decision_comment = None, hr_decided_at = None,
                 hr_created_at = now, hr_expires_at = Some (now + hours * 3600), hr_notification_sent_at = None,
                 hr_metadata = JObj [], hr_detail = JNull\<rparr>
      in if list_ex (\<lambda>r. hr_id r = new_id) t then (Inl (UniqueViolation ''reviews_pkey''), t)
         else (Inr row, t @ [row]))"

definition scalar :: "json \<Rightarrow> bool" where
  "scalar v \<longleftrightarrow> (case v of JStr _ \<Rightarrow> True | JInt _ \<Rightarrow> True | JFloat _ \<Rightarrow> True | JBool _ \<Rightarrow> True | _ \<Rightarrow> False)"

definition interrupt_description :: "review_lib \<Rightarrow> json \<Rightarrow> string option" where
  "interrupt_description lib reason =
     (case reason of
        JObj d \<Rightarrow> Some (if py_truth (jget d ''summary'') then py_str (rl_render lib) (jget d ''summary'')
                       else ''a documentation review is pending'')
      | JNull \<Rightarrow> None
      | v \<Rightarrow> Some (py_str (rl_render lib) v))"

definition store_interrupt ::
  "review_lib \<Rightarrow> int \<Rightarrow> string \<Rightarrow> string \<Rightarrow> string \<Rightarrow> json \<Rightarrow> string \<Rightarrow> string \<Rightarrow> reviews \<Rightarrow> review res \<times> reviews" where
  "store_interrupt lib now new_id run_id interrupt_id reason workflow_type org t =
     (let row = \<lparr>hr_id = new_id, hr_org_id = org, hr_thread_id = run_id, hr_workflow = workflow_type,
                 hr_tool_name = ''doc-review'', hr_tool_args = JObj [(''interrupt_id'', JStr interrupt_id)],
                 hr_action_description = interrupt_description lib reason, hr_status = ''pending'',
                 hr_reviewer_id = None, hr_decision = None, hr_decision_comment = None, hr_decided_at = None,
                 hr_created_at = now, hr_expires_at = Some (now + 24 * 3600), hr_notification_sent_at = None,
                 hr_metadata = JObj [(''run_id'', JStr run_id), (''interrupt_id'', JStr interrupt_id),
                    (''reason'', if scalar reason then reason else JStr (rl_dumps lib reason))],
                 hr_detail = JObj (reason_detail reason)\<rparr>
      in if list_ex (\<lambda>r. hr_id r = new_id) t then (Inl (UniqueViolation ''reviews_pkey''), t)
         else (Inr row, t @ [row]))"

definition get_review :: "string \<Rightarrow> reviews \<Rightarrow> review option" where
  "get_review i t = map_option row_to_record (find (\<lambda>r. hr_id r = i) t)"

definition get_pending_by_run_id :: "string \<Rightarrow> reviews \<Rightarrow> review option" where
  "get_pending_by_run_id run_id t =
     (case rev (sort_key hr_created_at
         (filter (\<lambda>r. hr_thread_id r = run_id \<and> hr_tool_name r = ''doc-review'' \<and> hr_status r = ''pending'') t)) of
        [] \<Rightarrow> None | r # _ \<Rightarrow> Some (row_to_record r))"

definition decided :: "string \<Rightarrow> string \<Rightarrow> string option \<Rightarrow> int \<Rightarrow> review \<Rightarrow> review" where
  "decided reviewer status comment now r =
     r\<lparr>hr_status := status, hr_reviewer_id := Some reviewer, hr_decision := Some status,
       hr_decision_comment := comment, hr_decided_at := Some now\<rparr>"

definition undecided :: "string \<Rightarrow> review \<Rightarrow> bool" where
  "undecided i r \<longleftrightarrow> hr_id r = i \<and> hr_status r = ''pending''"

definition record_review_decision ::
  "int \<Rightarrow> string \<Rightarrow> string \<Rightarrow> string \<Rightarrow> string option \<Rightarrow> reviews \<Rightarrow> review res \<times> reviews" where
  "record_review_decision now i reviewer status comment t =
     (case find (undecided i) t of
        Some r \<Rightarrow> (Inr (row_to_record (decided reviewer status comment now r)),
                  upd_where (undecided i) (decided reviewer status comment now) t)
      | None \<Rightarrow>
          (case get_review i t of
             Some existing \<Rightarrow> (Inr existing, t)
           | None \<Rightarrow> (Inl (ValueError (''Review '' @ i @ '' not found'')), t)))"

definition overdue :: "int \<Rightarrow> review \<Rightarrow> bool" where
  "overdue now r \<longleftrightarrow> hr_status r = ''pending'' \<and> (case hr_expires_at r of None \<Rightarrow> False | Some e \<Rightarrow> e < now)"

definition expired :: "int \<Rightarrow> review \<Rightarrow> review" where
  "expired now r = r\<lparr>hr_status := ''expired'', hr_decision := Some ''timeout'', hr_decided_at := Some now\<rparr>"

definition expire_old_reviews :: "int \<Rightarrow> reviews \<Rightarrow> review list \<times> reviews" where
  "expire_old_reviews now t =
     (map (\<lambda>r. row_to_record (expired now r)) (filter (overdue now) t), upd_where (overdue now) (expired now) t)"

definition mark_notification_sent :: "int \<Rightarrow> string \<Rightarrow> reviews \<Rightarrow> reviews" where
  "mark_notification_sent now i t = upd_where (\<lambda>r. hr_id r = i) (\<lambda>r. r\<lparr>hr_notification_sent_at := Some now\<rparr>) t"

section \<open>Listing and counters\<close>

definition review_key :: "review \<Rightarrow> cursor" where
  "review_key r = (hr_created_at r, hr_id r)"

definition review_filter :: "string option \<Rightarrow> string option \<Rightarrow> review \<Rightarrow> bool" where
  "review_filter status org r \<longleftrightarrow> given status hr_status r \<and> given org hr_org_id r"

definition oldest_rows :: "(review \<Rightarrow> bool) \<Rightarrow> reviews \<Rightarrow> cursor option \<Rightarrow> reviews" where
  "oldest_rows p t c =
     filter (\<lambda>r. case c of None \<Rightarrow> True | Some k \<Rightarrow> k < review_key r) (sort_key review_key (filter p t))"

definition list_reviews :: "string option \<Rightarrow> string option \<Rightarrow> nat \<Rightarrow> cursor option \<Rightarrow> reviews \<Rightarrow> review list" where
  "list_reviews status org limit c t = map row_to_record (take limit (oldest_rows (review_filter status org) t c))"

definition normalized_score :: "json \<Rightarrow> real option" where
  "normalized_score v =
     (let clamp = (\<lambda>x :: real. max 0 (min 100 (if x \<le> 1 then x * 100 else x)))
      in case v of JInt i \<Rightarrow> Some (clamp (real_of_int i)) | JFloat x \<Rightarrow> Some (clamp x) | _ \<Rightarrow> None)"

definition bump_count :: "string \<Rightarrow> (string \<times> nat) list \<Rightarrow> (string \<times> nat) list" where
  "bump_count k c = map (\<lambda>(x, n). (x, if x = k then n + 1 else n)) c"

definition first_true :: "json list \<Rightarrow> json" where
  "first_true vs = (case find py_truth vs of None \<Rightarrow> JStr [] | Some v \<Rightarrow> v)"

definition review_urgent :: "review_lib \<Rightarrow> review \<Rightarrow> bool" where
  "review_urgent lib r =
     (let dict = (\<lambda>v. case v of JObj d \<Rightarrow> d | _ \<Rightarrow> []);
          detail = dict (hr_detail r);
          classification = dict (jget detail ''classification'');
          risk = lower (strip (py_str (rl_render lib) (first_true
                   [jget classification ''risk'', jget classification ''risk_level'', jget classification ''urgency'', jget detail ''risk''])));
          evaluation = dict (jget detail ''evaluation'')
      in risk \<in> {''high'', ''critical''}
         \<or> (case normalized_score (item_or evaluation ''overall_score'' (jget evaluation ''score'')) of
              None \<Rightarrow> False | Some score \<Rightarrow> score < 80))"

definition count_review :: "review_lib \<Rightarrow> review \<Rightarrow> (string \<times> nat) list \<Rightarrow> (string \<times> nat) list" where
  "count_review lib r c =
     (let status = lower (strip (hr_status r));
          verdict = lower (strip (case hr_decision r of None \<Rightarrow> [] | Some s \<Rightarrow> s));
          c = bump_count status c;
          c = (if status \<noteq> ''needs_changes'' \<and> verdict = ''needs_changes'' then bump_count ''needs_changes'' c else c)
      in if review_urgent lib r then bump_count ''urgent'' c else c)"

definition review_counts_from_records :: "review_lib \<Rightarrow> review list \<Rightarrow> (string \<times> nat) list" where
  "review_counts_from_records lib rs =
     fold (count_review lib) rs
       [(''pending'', 0), (''urgent'', 0), (''approved'', 0), (''needs_changes'', 0), (''rejected'', 0)]"

definition review_count_summary :: "review_lib \<Rightarrow> string \<Rightarrow> reviews \<Rightarrow> nat \<times> (string \<times> nat) list" where
  "review_count_summary lib org t =
     (let records = map row_to_record (sort_key review_key (filter (\<lambda>r. hr_org_id r = org) t))
      in (length records, review_counts_from_records lib records))"

record review_page =
  vp_items :: "review list"
  vp_total :: nat
  vp_counts :: "(string \<times> nat) list"
  vp_next_cursor :: "cursor option"

definition bounded_limit :: "int \<Rightarrow> nat" where
  "bounded_limit limit = nat (max 1 (min limit 200))"

definition list_reviews_page ::
  "review_lib \<Rightarrow> string option \<Rightarrow> string \<Rightarrow> int \<Rightarrow> cursor option \<Rightarrow> reviews \<Rightarrow> review_page" where
  "list_reviews_page lib status org limit c t =
     (let n = bounded_limit limit;
          rows = list_reviews status (Some org) (n + 1) c t;
          items = take n rows;
          (count, counts) = review_count_summary lib org t
      in \<lparr>vp_items = items, vp_total = count, vp_counts = counts,
          vp_next_cursor = (if n < length rows \<and> items \<noteq> [] then Some (review_key (last items)) else None)\<rparr>)"

section \<open>Queue and service\<close>

text \<open>The queue asks for the oldest hundred pending reviews of all organizations and filters those.\<close>

definition queue_pending :: "string option \<Rightarrow> reviews \<Rightarrow> review list" where
  "queue_pending org t =
     (let records = list_reviews (Some ''pending'') None 100 None t;
          mine = (case org of None \<Rightarrow> records | Some x \<Rightarrow> if x = [] then records else filter (\<lambda>r. hr_org_id r = x) records)
      in sort_key hr_created_at mine)"

definition service_expire_stale :: "int \<Rightarrow> reviews \<Rightarrow> nat \<times> reviews" where
  "service_expire_stale now t = (let (gone, t') = expire_old_reviews now t in (length gone, t'))"

datatype review_answer = Approve | Request_Changes | Reject

record review_decision =
  rd_review_id :: string
  rd_reviewer_id :: string
  rd_approved :: "bool option"
  rd_decision :: "review_answer option"
  rd_comment :: "string option"

definition normalized_decision :: "review_decision \<Rightarrow> review_answer res" where
  "normalized_decision d =
     (case rd_decision d of
        Some k \<Rightarrow> Inr k
      | None \<Rightarrow> (case rd_approved d of
                   Some b \<Rightarrow> Inr (if b then Approve else Reject)
                 | None \<Rightarrow> Inl (ValueError ''A review decision is required'')))"

record decision_result =
  dr_review :: review
  dr_run_id :: string
  dr_interrupt_id :: json
  dr_approved :: bool
  dr_comment :: "string option"
  dr_expected :: "string option"

definition interrupt_id_of :: "review \<Rightarrow> json res" where
  "interrupt_id_of r =
     (if \<not> py_truth (hr_tool_args r) then Inr JNull
      else case hr_tool_args r of JObj d \<Rightarrow> Inr (jget d ''interrupt_id'') | _ \<Rightarrow> Inl (Exn ''AttributeError'' ''get''))"

definition or_none :: "string option \<Rightarrow> string option" where
  "or_none c = (if c = Some [] then None else c)"

definition status_of_decision :: "review_answer \<Rightarrow> string" where
  "status_of_decision k = (case k of Approve \<Rightarrow> ''approved'' | Reject \<Rightarrow> ''rejected'' | Request_Changes \<Rightarrow> ''needs_changes'')"

definition expected_outcome :: "review_answer \<Rightarrow> string option" where
  "expected_outcome k =
     (case k of Approve \<Rightarrow> None | Reject \<Rightarrow> Some ''delivery_cancelled'' | Request_Changes \<Rightarrow> Some ''revision_requested'')"

text \<open>The three handlers: they differ in the status they record and in what they answer.\<close>

definition handle_decision ::
  "int \<Rightarrow> review_answer \<Rightarrow> string \<Rightarrow> string \<Rightarrow> string option \<Rightarrow> reviews \<Rightarrow> decision_result res \<times> reviews" where
  "handle_decision now kind i reviewer comment t =
     (let (r, t') = record_review_decision now i reviewer (status_of_decision kind) (or_none comment) t
      in (bind_res r (\<lambda>row. bind_res (interrupt_id_of row) (\<lambda>interrupt.
            Inr \<lparr>dr_review = row, dr_run_id = hr_thread_id row, dr_interrupt_id = interrupt,
                 dr_approved = (kind = Approve), dr_comment = comment, dr_expected = expected_outcome kind\<rparr>)), t'))"

definition text_or_null :: "string option \<Rightarrow> json" where
  "text_or_null x = (case x of None \<Rightarrow> JNull | Some s \<Rightarrow> JStr s)"

definition outcome_of :: "review \<Rightarrow> json" where
  "outcome_of r = JObj [(''decision'', text_or_null (hr_decision r)), (''comment'', text_or_null (hr_decision_comment r)),
     (''run_id'', JStr (hr_thread_id r)), (''workflow'', JStr (hr_workflow r))]"

text \<open>The learning outcome is saved for the record the handler returned; its failure is swallowed.\<close>

definition decide ::
  "int \<Rightarrow> string \<Rightarrow> bool \<Rightarrow> review_decision \<Rightarrow> reviews \<times> outcomes \<Rightarrow> decision_result res \<times> reviews \<times> outcomes" where
  "decide now outcome_id outcomes_down d s =
     (let (t, os) = s in
      case normalized_decision d of
        Inl e \<Rightarrow> (Inl e, s)
      | Inr kind \<Rightarrow>
          (case handle_decision now kind (rd_review_id d) (rd_reviewer_id d) (rd_comment d) t of
             (Inl e, t') \<Rightarrow> (Inl e, t', os)
           | (Inr r, t') \<Rightarrow>
               (Inr r, t',
                if outcomes_down then os
                else snd (save_outcome now outcome_id (hr_org_id (dr_review r)) ''human_review'' (hr_id (dr_review r))
                            (outcome_of (dr_review r)) os))))"

record review_request =
  vq_review_id :: string
  vq_run_id :: string
  vq_workflow :: string
  vq_org_id :: string
  vq_summary :: string
  vq_evaluation :: json
  vq_evidence_count :: int
  vq_interrupt_id :: json
  vq_created_at :: int
  vq_expires_at :: "int option"

text \<open>\<^verbatim>\<open>int(x)\<close> of a JSON value.\<close>

definition int_of_json :: "json \<Rightarrow> int res" where
  "int_of_json v =
     (case v of
        JInt i \<Rightarrow> Inr i
      | JBool b \<Rightarrow> Inr (if b then 1 else 0)
      | JFloat x \<Rightarrow> Inr (if 0 \<le> x then \<lfloor>x\<rfloor> else \<lceil>x\<rceil>)
      | JStr s \<Rightarrow> (if strip s \<noteq> [] \<and> list_all is_digit (strip s) then Inr (int (digits_val (strip s)))
                  else Inl (ValueError ''invalid literal for int()''))
      | _ \<Rightarrow> Inl (Exn ''TypeError'' ''int() argument must be a string or a number''))"

definition is_dict :: "json \<Rightarrow> bool" where
  "is_dict v \<longleftrightarrow> (case v of JObj _ \<Rightarrow> True | _ \<Rightarrow> False)"

definition to_request :: "review_lib \<Rightarrow> review \<Rightarrow> review_request res" where
  "to_request lib r =
     (let args = (case hr_tool_args r of JObj d \<Rightarrow> d | _ \<Rightarrow> []);
          metadata = (case hr_metadata r of JObj d \<Rightarrow> d | _ \<Rightarrow> []);
          reason = (if py_truth (jget args ''reason'') then jget args ''reason'' else JObj []);
          shown = (case reason of
                     JObj d \<Rightarrow> bind_res (int_of_json (item_or d ''evidence_count'' (JInt 0))) (\<lambda>n.
                       Inr (py_str (rl_render lib) (item_or d ''summary'' (JStr [])),
                            (if py_truth (jget d ''evaluation'') then jget d ''evaluation'' else JObj []), n))
                   | v \<Rightarrow> Inr (py_str (rl_render lib) v, JObj [], 0))
      in if py_truth (hr_tool_args r) \<and> \<not> is_dict (hr_tool_args r) then Inl (Exn ''AttributeError'' ''get'')
         else bind_res shown (\<lambda>(summary, evaluation, n).
           Inr \<lparr>vq_review_id = hr_id r, vq_run_id = hr_thread_id r, vq_workflow = hr_workflow r, vq_org_id = hr_org_id r,
                vq_summary = summary, vq_evaluation = evaluation, vq_evidence_count = n,
                vq_interrupt_id = (if py_truth (jget args ''interrupt_id'') then jget args ''interrupt_id'' else jget metadata ''interrupt_id''),
                vq_created_at = hr_created_at r, vq_expires_at = hr_expires_at r\<rparr>))"

section \<open>A review is decided once\<close>

inductive review_step :: "reviews \<Rightarrow> reviews \<Rightarrow> bool" where
  create: "review_step t (snd (create_review now i org thread workflow tool args description hours t))"
| interrupt: "review_step t (snd (store_interrupt lib now i run interrupt reason workflow org t))"
| record_step: "review_step t (snd (record_review_decision now i reviewer status comment t))"
| expire: "review_step t (snd (expire_old_reviews now t))"
| notify: "review_step t (mark_notification_sent now i t)"

text \<open>What a review keeps: its question always, and its answer once there is one.\<close>

definition question :: "review \<Rightarrow> review" where
  "question r = r\<lparr>hr_status := [], hr_reviewer_id := None, hr_decision := None, hr_decision_comment := None,
     hr_decided_at := None, hr_notification_sent_at := None\<rparr>"

definition review_evolves :: "review \<Rightarrow> review \<Rightarrow> bool" where
  "review_evolves r r' \<longleftrightarrow>
     question r' = question r
     \<and> (hr_status r \<noteq> ''pending'' \<longrightarrow> r'\<lparr>hr_notification_sent_at := None\<rparr> = r\<lparr>hr_notification_sent_at := None\<rparr>)"

lemma review_evolves_refl: "review_evolves r r"
  by (simp add: review_evolves_def)

lemma review_evolves_trans: "review_evolves r r' \<Longrightarrow> review_evolves r' r2 \<Longrightarrow> review_evolves r r2"
proof -
  assume a: "review_evolves r r'" and b: "review_evolves r' r2"
  have "r2\<lparr>hr_notification_sent_at := None\<rparr> = r\<lparr>hr_notification_sent_at := None\<rparr>" if n: "hr_status r \<noteq> ''pending''"
  proof -
    from a n have eq: "r'\<lparr>hr_notification_sent_at := None\<rparr> = r\<lparr>hr_notification_sent_at := None\<rparr>"
      by (simp add: review_evolves_def)
    then have "hr_status (r'\<lparr>hr_notification_sent_at := None\<rparr>) = hr_status (r\<lparr>hr_notification_sent_at := None\<rparr>)"
      by (rule arg_cong)
    then have "hr_status r' \<noteq> ''pending''" using n by simp
    with b eq show ?thesis by (simp add: review_evolves_def)
  qed
  with a b show ?thesis by (simp add: review_evolves_def)
qed

lemma upd_where_evolves:
  assumes "r \<in> set t" and "\<And>x. p x \<Longrightarrow> review_evolves x (f x)"
  shows "\<exists>r' \<in> set (upd_where p f t). review_evolves r r'"
  using assms review_evolves_refl [of r] by (cases "p r") (auto simp: set_upd_where)

lemma review_step_row:
  assumes "review_step t t'" and "r \<in> set t"
  shows "\<exists>r' \<in> set t'. review_evolves r r'"
  using assms
proof (cases rule: review_step.cases)
  case (create now i org thread workflow tool args description hours)
  then have "set t \<subseteq> set t'" by (auto simp: create_review_def Let_def)
  then show ?thesis using assms(2) review_evolves_refl by blast
next
  case (interrupt lib now i run interrupt reason workflow org)
  then have "set t \<subseteq> set t'" by (auto simp: store_interrupt_def Let_def)
  then show ?thesis using assms(2) review_evolves_refl by blast
next
  case (record_step now i reviewer status comment)
  have "t' = t \<or> t' = upd_where (undecided i) (decided reviewer status comment now) t"
    by (auto simp: record_step(1) record_review_decision_def split: option.splits)
  moreover have "review_evolves x (decided reviewer status comment now x)" if "undecided i x" for x
    using that by (simp add: review_evolves_def question_def decided_def undecided_def)
  ultimately show ?thesis
    using assms(2) review_evolves_refl upd_where_evolves [OF assms(2)] by (metis (no_types, lifting))
next
  case (expire now)
  have "review_evolves x (expired now x)" if "overdue now x" for x
    using that by (simp add: review_evolves_def question_def expired_def overdue_def)
  with upd_where_evolves [OF assms(2)] show ?thesis by (simp add: expire expire_old_reviews_def)
next
  case (notify now i)
  have "review_evolves x (x\<lparr>hr_notification_sent_at := Some now\<rparr>)" for x
    by (simp add: review_evolves_def question_def)
  with upd_where_evolves [OF assms(2)] show ?thesis by (simp add: notify mark_notification_sent_def)
qed

interpretation review_rows: row_evolution review_step set review_evolves
  by unfold_locales (fact review_evolves_refl review_evolves_trans review_step_row)+

lemma record_review_decision_ids: "map hr_id (snd (record_review_decision now i reviewer status comment t)) = map hr_id t"
  by (auto simp: record_review_decision_def decided_def undecided_def table_simps split: option.splits)

interpretation review_system: invariant_system "\<lambda>t. t = []" review_step "\<lambda>t. distinct (map hr_id t)"
proof
  fix t t' assume "distinct (map hr_id t)" and "review_step t t'"
  from this(2,1) show "distinct (map hr_id t')"
  proof (cases rule: review_step.cases)
    case (record_step now i reviewer status comment)
    then show "distinct (map hr_id t) \<Longrightarrow> ?thesis" by (simp add: record_review_decision_ids)
  qed (auto simp: create_review_def store_interrupt_def Let_def list_ex_iff expire_old_reviews_def expired_def
      mark_notification_sent_def table_simps)
qed simp

lemma find_id:
  assumes "distinct (map hr_id t)" and "r \<in> set t" and "hr_id r = i"
  shows "find (\<lambda>x. hr_id x = i) t = Some r"
  by (rule find_distinct_key [where key = hr_id]) (use assms in auto)

lemma record_review_decision_again:
  assumes "distinct (map hr_id t)" and "r \<in> set t" and "hr_status r \<noteq> ''pending''"
  shows "record_review_decision now (hr_id r) reviewer status comment t = (Inr (row_to_record r), t)"
proof -
  have found: "find (\<lambda>x. hr_id x = hr_id r) t = Some r" by (rule find_id [OF assms(1,2) refl])
  have "\<not> undecided (hr_id r) x" if x: "x \<in> set t" for x
  proof
    assume "undecided (hr_id r) x"
    then have u: "hr_id x = hr_id r" "hr_status x = ''pending''" by (simp_all add: undecided_def)
    have "Some x = Some r" using find_id [OF assms(1) x u(1)] found by (rule trans [OF sym])
    then have "x = r" by simp
    with u(2) assms(3) show False by blast
  qed
  then have "find (undecided (hr_id r)) t = None" by (simp add: find_None_iff)
  then show ?thesis by (simp add: record_review_decision_def get_review_def found)
qed

text \<open>
  A review is decided once: after a decision or an expiry has been recorded, whatever happens to the inbox
  next, the row keeps its status, reviewer, decision, comment and time, and deciding it again changes nothing
  and returns the first decision.
\<close>

theorem review_decided_once:
  assumes "distinct (map hr_id t)" and "r \<in> set t" and "hr_status r \<noteq> ''pending''" and "review_step\<^sup>*\<^sup>* t t'"
  shows "\<exists>r' \<in> set t'. hr_id r' = hr_id r \<and> hr_status r' = hr_status r \<and> hr_decision r' = hr_decision r
      \<and> hr_reviewer_id r' = hr_reviewer_id r \<and> hr_decision_comment r' = hr_decision_comment r
      \<and> hr_decided_at r' = hr_decided_at r
      \<and> record_review_decision now (hr_id r) reviewer status comment t' = (Inr (row_to_record r'), t')"
proof -
  obtain r' where r': "r' \<in> set t'" "review_evolves r r'"
    using review_rows.row_steps [OF assms(4,2)] by blast
  then have eq: "r'\<lparr>hr_notification_sent_at := None\<rparr> = r\<lparr>hr_notification_sent_at := None\<rparr>"
    using assms(3) by (simp add: review_evolves_def)
  have same: "g r' = g r" if "\<And>x. g (x\<lparr>hr_notification_sent_at := None\<rparr>) = g x" for g :: "review \<Rightarrow> 'b"
    using arg_cong [OF eq, of g] that by simp
  have ids: "distinct (map hr_id t')" using review_system.inv_steps [OF assms(4,1)] .
  have id: "hr_id r' = hr_id r" and st: "hr_status r' = hr_status r" by (simp_all add: same)
  have "record_review_decision now (hr_id r) reviewer status comment t' = (Inr (row_to_record r'), t')"
    using record_review_decision_again [OF ids r'(1)] assms(3) st by (simp add: id)
  with r'(1) show ?thesis by (intro bexI [of _ r']) (simp_all add: same)
qed

definition sample_review :: "string \<Rightarrow> string \<Rightarrow> int \<Rightarrow> review" where
  "sample_review i org made = \<lparr>hr_id = i, hr_org_id = org, hr_thread_id = ''run'', hr_workflow = ''pull_request'',
     hr_tool_name = ''doc-review'', hr_tool_args = JObj [(''interrupt_id'', JStr ''i1'')], hr_action_description = None,
     hr_status = ''pending'', hr_reviewer_id = None, hr_decision = None, hr_decision_comment = None, hr_decided_at = None,
     hr_created_at = made, hr_expires_at = Some (made + 86400), hr_notification_sent_at = None, hr_metadata = JObj [],
     hr_detail = JNull\<rparr>"

theorem review_decided_once_witness:
  "\<exists>r' \<in> set (snd (expire_old_reviews 1000000 [decided ''u'' ''rejected'' None 5 (sample_review ''r'' ''o'' 1)])).
     hr_status r' = ''rejected'' \<and> hr_reviewer_id r' = Some ''u''"
proof -
  let ?r = "decided ''u'' ''rejected'' None 5 (sample_review ''r'' ''o'' 1)"
  have "review_step\<^sup>*\<^sup>* [?r] (snd (expire_old_reviews 1000000 [?r]))"
    by (intro r_into_rtranclp review_step.expire)
  moreover have "distinct (map hr_id [?r])" and "?r \<in> set [?r]" and "hr_status ?r \<noteq> ''pending''"
    and "hr_status ?r = ''rejected''" and "hr_reviewer_id ?r = Some ''u''"
    by (simp_all add: decided_def)
  ultimately show ?thesis
    using review_decided_once [of "[?r]" ?r "snd (expire_old_reviews 1000000 [?r])"] by metis
qed

section \<open>Walking the inbox\<close>

lemma row_to_record_key [simp]: "review_key (row_to_record r) = review_key r"
  by (simp add: row_to_record_def review_key_def)

lemma distinct_review_keys: "distinct (map hr_id t) \<Longrightarrow> distinct (map review_key t)"
  by (auto simp: distinct_map inj_on_def review_key_def)

lemma oldest_rows_sorted:
  assumes "distinct (map review_key t)"
  shows "sorted_wrt (\<lambda>a b. review_key a < review_key b) (oldest_rows p t c)"
  using sorted_strict [OF distinct_map_filter_key [OF assms]] by (simp add: oldest_rows_def sorted_wrt_filter)

lemma oldest_rows_after:
  assumes "distinct (map review_key t)" and "0 < n" and "n \<le> length (oldest_rows p t c)"
  shows "oldest_rows p t (Some (review_key (oldest_rows p t c ! (n - 1)))) = drop n (oldest_rows p t c)"
proof -
  let ?xs = "oldest_rows p t c"
  have "?xs ! (n - 1) \<in> set ?xs" using assms(2,3) by (intro nth_mem) simp
  then have "oldest_rows p t (Some (review_key (?xs ! (n - 1)))) = filter (\<lambda>r. review_key (?xs ! (n - 1)) < review_key r) ?xs"
    by (auto simp: oldest_rows_def intro!: filter_cong split: option.splits)
  also have "\<dots> = drop n ?xs"
    by (rule filter_beyond_nth [OF oldest_rows_sorted [OF assms(1)]]) (use assms(2,3) in auto)
  finally show ?thesis .
qed

definition review_page_of ::
  "review_lib \<Rightarrow> string option \<times> string \<times> int \<Rightarrow> reviews \<Rightarrow> cursor option \<Rightarrow> review list \<times> cursor option" where
  "review_page_of lib q t c =
     (let v = list_reviews_page lib (fst q) (fst (snd q)) (snd (snd q)) c t in (vp_items v, vp_next_cursor v))"

abbreviation wanted :: "string option \<times> string \<times> int \<Rightarrow> review \<Rightarrow> bool" where
  "wanted q \<equiv> review_filter (fst q) (Some (fst (snd q)))"

lemma review_page_of_eq:
  "review_page_of lib q t c =
     (let n = bounded_limit (snd (snd q)); rows = oldest_rows (wanted q) t c
      in (map row_to_record (take n rows), if n < length rows then Some (review_key (rows ! (n - 1))) else None))"
proof -
  let ?n = "bounded_limit (snd (snd q))" and ?rows = "oldest_rows (wanted q) t c"
  have pos: "0 < ?n" by (simp add: bounded_limit_def)
  have "review_key (last (take ?n (map row_to_record (take (?n + 1) ?rows)))) = review_key (?rows ! (?n - 1))"
    if "?n < length ?rows"
  proof -
    have "take ?n ?rows \<noteq> []" using that pos by auto
    then have "last (map row_to_record (take ?n ?rows)) = row_to_record (?rows ! (?n - 1))"
      using that by (simp add: last_map last_conv_nth min_def)
    moreover have "take ?n (map row_to_record (take (?n + 1) ?rows)) = map row_to_record (take ?n ?rows)"
      by (simp add: take_map min_def)
    ultimately show ?thesis by simp
  qed
  with pos show ?thesis
    by (auto simp: review_page_of_def list_reviews_page_def list_reviews_def Let_def take_map min_def split: prod.splits)
qed

interpretation review_pages: keyset_listing "\<lambda>t. distinct (map review_key t)" "\<lambda>q. bounded_limit (snd (snd q))"
  "\<lambda>q t c. map row_to_record (oldest_rows (wanted q) t c)" "review_page_of lib" for lib
proof
  fix q :: "string option \<times> string \<times> int" and t c c'
  show pos: "0 < bounded_limit (snd (snd q))" by (simp add: bounded_limit_def)
  show "fst (review_page_of lib q t c) = take (bounded_limit (snd (snd q))) (map row_to_record (oldest_rows (wanted q) t c))"
    by (simp add: review_page_of_eq Let_def take_map)
  {
    assume t: "distinct (map review_key t)"
    show "snd (review_page_of lib q t c) = None \<Longrightarrow>
        length (map row_to_record (oldest_rows (wanted q) t c)) \<le> bounded_limit (snd (snd q))"
      by (simp add: review_page_of_eq Let_def split: if_splits)
    assume "snd (review_page_of lib q t c) = Some c'"
    then have full: "bounded_limit (snd (snd q)) < length (oldest_rows (wanted q) t c)"
      and c': "c' = review_key (oldest_rows (wanted q) t c ! (bounded_limit (snd (snd q)) - 1))"
      by (auto simp: review_page_of_eq Let_def split: if_splits)
    then show "bounded_limit (snd (snd q)) \<le> length (map row_to_record (oldest_rows (wanted q) t c))" by simp
    show "map row_to_record (oldest_rows (wanted q) t (Some c'))
        = drop (bounded_limit (snd (snd q))) (map row_to_record (oldest_rows (wanted q) t c))"
      unfolding c' using oldest_rows_after [OF t pos] full by (simp add: drop_map)
  }
qed

text \<open>
  Following the cursors of the review inbox from its first page returns every review of the organization
  with the wanted status exactly once, oldest first, in pages of at most 200, and the total shown beside each
  page counts all reviews of the organization, whatever the status filter.
\<close>

theorem review_pages_enumerate:
  assumes "distinct (map hr_id t)" and "length t div bounded_limit limit < n"
  shows "\<exists>rs. walk_pages (review_page_of lib (status, org, limit) t) n None = Some rs
    \<and> set rs = row_to_record ` {r \<in> set t. review_filter status (Some org) r}
    \<and> distinct (map hr_id rs) \<and> sorted (map review_key rs)
    \<and> length (vp_items (list_reviews_page lib status org limit c t)) \<le> 200
    \<and> vp_total (list_reviews_page lib status org limit c t) = length (filter (\<lambda>r. hr_org_id r = org) t)"
proof -
  let ?p = "review_filter status (Some org)"
  let ?rows = "oldest_rows ?p t None"
  have "length (map row_to_record ?rows) div bounded_limit limit \<le> length t div bounded_limit limit"
    by (intro div_le_mono) (simp add: oldest_rows_def)
  then have "walk_pages (review_page_of lib (status, org, limit) t) n None = Some (map row_to_record ?rows)"
    using review_pages.walk_enumerates [OF distinct_review_keys [OF assms(1)], of "(status, org, limit)" None n lib] assms(2)
    by simp
  moreover have "set (map row_to_record ?rows) = row_to_record ` {r \<in> set t. ?p r}"
    by (simp add: oldest_rows_def)
  moreover have "distinct (map hr_id (map row_to_record ?rows))"
  proof -
    have "map hr_id (map row_to_record ?rows) = map hr_id ?rows" by (simp add: row_to_record_def)
    then show ?thesis using assms(1) by (simp add: oldest_rows_def distinct_map inj_on_def)
  qed
  moreover have "sorted (map review_key (map row_to_record ?rows))"
    by (simp add: oldest_rows_def comp_def)
  moreover have "length (vp_items (list_reviews_page lib status org limit c t)) \<le> 200"
  proof -
    have "bounded_limit limit \<le> 200" by (simp add: bounded_limit_def nat_le_iff)
    then show ?thesis by (simp add: list_reviews_page_def Let_def min.coboundedI2 split: prod.splits)
  qed
  moreover have "vp_total (list_reviews_page lib status org limit c t) = length (filter (\<lambda>r. hr_org_id r = org) t)"
    by (simp add: list_reviews_page_def review_count_summary_def Let_def)
  ultimately show ?thesis by blast
qed

definition plain_review_lib :: review_lib where
  "plain_review_lib = \<lparr>rl_render = (\<lambda>_. ''{}''), rl_dumps = (\<lambda>_. ''{}'')\<rparr>"

theorem review_pages_enumerate_witness:
  "\<exists>rs. walk_pages (review_page_of plain_review_lib (None, ''o'', 1) [sample_review ''b'' ''o'' 2, sample_review ''a'' ''o'' 1]) 3 None
     = Some rs \<and> hr_id ` set rs = {''a'', ''b''}"
proof -
  have "distinct (map hr_id [sample_review ''b'' ''o'' 2, sample_review ''a'' ''o'' 1])"
    and "length [sample_review ''b'' ''o'' 2, sample_review ''a'' ''o'' 1] div bounded_limit 1 < 3"
    by (simp_all add: sample_review_def bounded_limit_def)
  from review_pages_enumerate [OF this, of plain_review_lib None "''o''" None] obtain rs where
    rs: "walk_pages (review_page_of plain_review_lib (None, ''o'', 1) [sample_review ''b'' ''o'' 2, sample_review ''a'' ''o'' 1]) 3 None = Some rs"
    "set rs = row_to_record ` {r \<in> set [sample_review ''b'' ''o'' 2, sample_review ''a'' ''o'' 1]. review_filter None (Some ''o'') r}"
    by blast
  have "hr_id ` set rs = {''a'', ''b''}"
  proof -
    have "hr_id ` row_to_record ` X = hr_id ` X" for X by (simp add: image_image row_to_record_def)
    moreover have "{r \<in> set [sample_review ''b'' ''o'' 2, sample_review ''a'' ''o'' 1]. review_filter None (Some ''o'') r}
        = {sample_review ''b'' ''o'' 2, sample_review ''a'' ''o'' 1}"
      by (auto simp: sample_review_def review_filter_def given_def)
    ultimately show ?thesis unfolding rs(2) by (simp only:) (auto simp: sample_review_def)
  qed
  with rs(1) show ?thesis by blast
qed

section \<open>The service\<close>

text \<open>
  The queue of one organization can look empty while its reviews wait: the filter is applied to the
  hundred oldest pending reviews of all organizations, so behind a hundred older pending reviews of others
  nothing of the organization is listed, however much of it is pending.
\<close>

theorem queue_hides_behind_others:
  assumes "distinct (map hr_id t)" and "org \<noteq> []" and "r \<in> set t"
    and "\<And>x. x \<in> set t \<Longrightarrow> hr_org_id x = org \<Longrightarrow> review_key r \<le> review_key x"
    and "100 \<le> length (filter (\<lambda>x. hr_status x = ''pending'' \<and> review_key x < review_key r) t)"
  shows "queue_pending (Some org) t = []"
proof -
  let ?rows = "oldest_rows (review_filter (Some ''pending'') None) t None"
  have p: "review_filter (Some ''pending'') None x \<longleftrightarrow> hr_status x = ''pending''" for x
    by (simp add: review_filter_def given_def)
  have sorted: "sorted_wrt (\<lambda>a b. review_key a < review_key b) ?rows"
    by (rule oldest_rows_sorted [OF distinct_review_keys [OF assms(1)]])
  have mset_rows: "length (filter q ?rows) = length (filter (\<lambda>x. hr_status x = ''pending'' \<and> q x) t)" for q
  proof -
    have "length (filter q ?rows) = length (filter q (filter (\<lambda>x. hr_status x = ''pending'') t))"
      by (simp add: oldest_rows_def p filter_sort)
    then show ?thesis by (simp add: conj_commute)
  qed
  have early: "review_key x < review_key r" if x: "x \<in> set (take 100 ?rows)" for x
  proof (rule ccontr)
    assume late: "\<not> review_key x < review_key r"
    from x obtain i where i: "i < 100" "i < length ?rows" "x = ?rows ! i" by (auto simp: in_set_conv_nth)
    have "set (filter (\<lambda>y. review_key y < review_key r) ?rows) \<subseteq> set (take i ?rows)"
    proof
      fix y assume y: "y \<in> set (filter (\<lambda>y. review_key y < review_key r) ?rows)"
      then obtain j where j: "j < length ?rows" "y = ?rows ! j" by (auto simp: in_set_conv_nth)
      have "j < i"
      proof (rule ccontr)
        assume "\<not> j < i"
        then have "review_key x \<le> review_key y"
          using sorted i j by (cases "i = j") (auto simp: sorted_wrt_iff_nth_less intro!: less_imp_le)
        then show False using y late by auto
      qed
      then show "y \<in> set (take i ?rows)" using j by (auto simp: in_set_conv_nth)
    qed
    moreover have d: "distinct ?rows"
      using assms(1) by (simp add: oldest_rows_def distinct_map distinct_filter)
    ultimately have "length (filter (\<lambda>y. review_key y < review_key r) ?rows) \<le> length (take i ?rows)"
      by (metis card_mono distinct_card distinct_filter distinct_take finite_set)
    then have "length (filter (\<lambda>y. review_key y < review_key r) ?rows) < 100" using i(1) by simp
    then show False using assms(5) by (simp add: mset_rows)
  qed
  have "filter (\<lambda>x. hr_org_id x = org) (map row_to_record (take 100 ?rows)) = []"
  proof -
    have "hr_org_id x \<noteq> org" if "x \<in> set (take 100 ?rows)" for x
    proof -
      have "x \<in> set ?rows" using that by (rule in_set_takeD)
      then show ?thesis using assms(4) [of x] early [OF that] by (auto simp: oldest_rows_def)
    qed
    then show ?thesis by (simp add: filter_empty_conv row_to_record_def)
  qed
  then show ?thesis by (simp add: queue_pending_def list_reviews_def assms(2))
qed

definition crowd :: reviews where
  "crowd = map (\<lambda>n. sample_review (show_nat n) ''other'' (int n)) [0..<100]"

lemma crowd_distinct: "distinct (map hr_id crowd)" "''z'' \<notin> hr_id ` set crowd"
proof -
  have "map hr_id crowd = map show_nat [0..<100]" by (simp add: crowd_def sample_review_def comp_def)
  then show "distinct (map hr_id crowd)" by (simp only: distinct_map) (auto simp: inj_on_def)
  show "''z'' \<notin> hr_id ` set crowd"
  proof
    assume "''z'' \<in> hr_id ` set crowd"
    then obtain n where n: "show_nat n = ''z''" by (auto simp: crowd_def sample_review_def)
    have "is_digit (CHR ''z'')" by (rule show_nat_digits [of _ n]) (simp add: n)
    then show False by (simp add: is_digit_def)
  qed
qed

theorem queue_hides_behind_others_witness:
  "sample_review ''z'' ''o'' 1000 \<in> set (crowd @ [sample_review ''z'' ''o'' 1000])
   \<and> queue_pending (Some ''o'') (crowd @ [sample_review ''z'' ''o'' 1000]) = []"
proof
  let ?r = "sample_review ''z'' ''o'' 1000"
  have early: "hr_status x = ''pending'' \<and> review_key x < review_key ?r \<and> hr_org_id x = ''other''" if "x \<in> set crowd" for x
    using that by (auto simp: crowd_def sample_review_def review_key_def)
  show "queue_pending (Some ''o'') (crowd @ [?r]) = []"
  proof (rule queue_hides_behind_others)
    show "distinct (map hr_id (crowd @ [?r]))" using crowd_distinct by (auto simp: sample_review_def)
    show "''o'' \<noteq> []" and "?r \<in> set (crowd @ [?r])" by simp_all
    show "review_key ?r \<le> review_key x" if "x \<in> set (crowd @ [?r])" "hr_org_id x = ''o''" for x
      using that early [of x] by auto
    have "filter (\<lambda>x. hr_status x = ''pending'' \<and> review_key x < review_key ?r) crowd = crowd"
      using early by (simp add: filter_id_conv)
    then show "100 \<le> length (filter (\<lambda>x. hr_status x = ''pending'' \<and> review_key x < review_key ?r) (crowd @ [?r]))"
      by (simp add: crowd_def)
  qed
qed simp

text \<open>
  A late answer is acknowledged but not applied: deciding a review that is no longer pending leaves the
  inbox unchanged, yet the answer says what the late reviewer chose, and that resume instruction contradicts
  the decision on record.
\<close>

theorem late_decision_contradicts:
  assumes "distinct (map hr_id t)" and "r \<in> set t" and "hr_status r \<noteq> ''pending''"
    and "hr_tool_args r = JObj args" and "normalized_decision d = Inr kind" and "rd_review_id d = hr_id r"
  shows "\<exists>res. decide now o_id down d (t, os) = (Inr res, t, snd (snd (decide now o_id down d (t, os))))
    \<and> dr_approved res = (kind = Approve) \<and> hr_status (dr_review res) = hr_status r"
proof -
  have "record_review_decision now (hr_id r) u s c t = (Inr (row_to_record r), t)" for u s c
    by (rule record_review_decision_again [OF assms(1-3)])
  moreover have "\<exists>i. interrupt_id_of (row_to_record r) = Inr i"
    using assms(4) by (simp add: interrupt_id_of_def row_to_record_def)
  then obtain i where "interrupt_id_of (row_to_record r) = Inr i" ..
  ultimately show ?thesis
    by (simp add: decide_def assms(5,6) handle_decision_def) (simp add: row_to_record_def)
qed

definition approve_request :: review_decision where
  "approve_request = \<lparr>rd_review_id = ''r'', rd_reviewer_id = ''u2'', rd_approved = Some True, rd_decision = None, rd_comment = None\<rparr>"

theorem late_decision_contradicts_witness:
  "\<exists>res. fst (decide 9 ''o1'' True approve_request ([decided ''u'' ''rejected'' None 5 (sample_review ''r'' ''o'' 1)], [])) = Inr res
    \<and> dr_approved res \<and> hr_status (dr_review res) = ''rejected''"
proof -
  let ?r = "decided ''u'' ''rejected'' None 5 (sample_review ''r'' ''o'' 1)"
  have st: "hr_status ?r = ''rejected''" by (simp add: decided_def)
  have "\<exists>res. decide 9 ''o1'' True approve_request ([?r], []) = (Inr res, [?r], snd (snd (decide 9 ''o1'' True approve_request ([?r], []))))
      \<and> dr_approved res = (Approve = Approve) \<and> hr_status (dr_review res) = hr_status ?r"
    by (rule late_decision_contradicts [where args = "[(''interrupt_id'', JStr ''i1'')]"])
      (simp_all add: decided_def sample_review_def approve_request_def normalized_decision_def)
  then obtain res where "decide 9 ''o1'' True approve_request ([?r], []) = (Inr res, [?r], snd (snd (decide 9 ''o1'' True approve_request ([?r], []))))"
    and "dr_approved res" and "hr_status (dr_review res) = hr_status ?r" by blast
  then show ?thesis by (intro exI [of _ res]) (metis fst_conv st)
qed

text \<open>
  The request shown for a review that the graph's interrupt stored never carries what the reviewer is
  asked to judge: its summary is empty, its evaluation is empty and it counts no evidence, although the row
  keeps all three in its detail.
\<close>

theorem stored_request_is_blank:
  assumes "store_interrupt lib now i run interrupt (JObj d) workflow org t = (Inr r, t')"
  shows "\<exists>q. to_request lib' (row_to_record r) = Inr q \<and> vq_summary q = [] \<and> vq_evaluation q = JObj []
      \<and> vq_evidence_count q = 0 \<and> vq_run_id q = run
    \<and> (case hr_detail r of JObj kvs \<Rightarrow> jget kvs ''summary'' = jget d ''summary''
         \<and> jget kvs ''evaluation'' = jget d ''evaluation'' | _ \<Rightarrow> False)"
proof -
  have r: "hr_tool_args r = JObj [(''interrupt_id'', JStr interrupt)]" "hr_thread_id r = run"
    "hr_detail r = JObj (reason_detail (JObj d))"
    using assms by (auto simp: store_interrupt_def Let_def split: if_splits)
  then show ?thesis
    by (simp add: to_request_def row_to_record_def is_dict_def item_or_def int_of_json_def py_str_def reason_detail_def REASON_FIELDS_def)
qed

theorem stored_request_is_blank_witness:
  "\<exists>r q. fst (store_interrupt plain_review_lib 1 ''v'' ''run'' ''i'' (JObj [(''summary'', JStr ''two pages'')]) ''pull_request'' ''o'' [])
       = Inr r \<and> to_request plain_review_lib (row_to_record r) = Inr q \<and> vq_summary q = []"
proof -
  obtain r t' where "store_interrupt plain_review_lib 1 ''v'' ''run'' ''i'' (JObj [(''summary'', JStr ''two pages'')]) ''pull_request'' ''o'' []
      = (Inr r, t')"
    by (simp add: store_interrupt_def Let_def)
  from stored_request_is_blank [OF this, of plain_review_lib] this show ?thesis by auto
qed

end
