(* ===== verification/Document_Store.thy ===== *)
theory Document_Store
  imports Keyset_Pages Transition_Systems Workflow_Ledger
begin

text \<open>
  Documents and their edited revisions: the store of \<^verbatim>\<open>integrations/database/document_store.py\<close> behind
  \<^verbatim>\<open>persistence/repositories/documents.py\<close>, and the revisions with optimistic concurrency of
  \<^verbatim>\<open>persistence/repositories/document_revisions.py\<close>. Tables carry the constraints of migrations 010 and 054;
  a rejected statement leaves them unchanged. Generated ids and the clock are arguments, the quality flags no
  operation here writes are left out, and a lookup with \<^verbatim>\<open>LIMIT 1\<close> takes the first row of the table.
\<close>

section \<open>Tables\<close>

record document =
  do_id :: string
  do_org_id :: "string option"
  do_repository :: "string option"
  do_path :: string
  do_title :: "string option"
  do_content :: string
  do_document_type :: string
  do_commit_sha :: "string option"
  do_source_hash :: "string option"
  do_status :: string
  do_metadata :: json
  do_updated_at :: int
  do_last_committed_at :: "int option"
  do_draft_revision_id :: "string option"

type_synonym documents = "document list"

record doc_revision =
  dv_id :: string
  dv_document_id :: string
  dv_org_id :: string
  dv_number :: int
  dv_origin :: string
  dv_status :: string
  dv_title :: "string option"
  dv_content :: string
  dv_base_source_hash :: "string option"
  dv_base_updated_at :: int
  dv_created_by :: string
  dv_created_at :: int

record docs_db =
  dd_documents :: documents
  dd_revisions :: "doc_revision list"

section \<open>The document store\<close>

record upsert =
  up_org_id :: "string option"
  up_repository :: string
  up_path :: string
  up_content :: string
  up_metadata :: json
  up_title :: "string option"
  up_document_type :: "string option"
  up_status :: "string option"
  up_commit_sha :: "string option"
  up_source_hash :: "string option"
  up_last_committed_at :: "int option"

text \<open>The assignments of both update forms: optional columns are written only when given.\<close>

definition overwrite :: "int \<Rightarrow> upsert \<Rightarrow> document \<Rightarrow> document" where
  "overwrite now u r =
     r\<lparr>do_content := up_content u, do_metadata := up_metadata u,
       do_title := coalesce (up_title u) (do_title r),
       do_document_type := (case up_document_type u of None \<Rightarrow> do_document_type r | Some x \<Rightarrow> x),
       do_status := (case up_status u of None \<Rightarrow> do_status r | Some x \<Rightarrow> x),
       do_commit_sha := coalesce (up_commit_sha u) (do_commit_sha r),
       do_source_hash := coalesce (up_source_hash u) (do_source_hash r),
       do_last_committed_at := coalesce (up_last_committed_at u) (do_last_committed_at r),
       do_updated_at := now\<rparr>"

definition new_document :: "string \<Rightarrow> int \<Rightarrow> string \<Rightarrow> upsert \<Rightarrow> document" where
  "new_document new_id now org u =
     \<lparr>do_id = new_id, do_org_id = Some org, do_repository = Some (up_repository u), do_path = up_path u,
      do_title = up_title u, do_content = up_content u,
      do_document_type = (case up_document_type u of None \<Rightarrow> ''general'' | Some [] \<Rightarrow> ''general'' | Some x \<Rightarrow> x),
      do_commit_sha = up_commit_sha u, do_source_hash = up_source_hash u,
      do_status = (case up_status u of None \<Rightarrow> ''draft'' | Some [] \<Rightarrow> ''draft'' | Some x \<Rightarrow> x),
      do_metadata = up_metadata u, do_updated_at = now, do_last_committed_at = up_last_committed_at u,
      do_draft_revision_id = None\<rparr>"

definition at_path :: "string \<Rightarrow> string \<Rightarrow> document \<Rightarrow> bool" where
  "at_path repository path r \<longleftrightarrow> do_repository r = Some repository \<and> do_path r = path"

definition owned_path :: "string \<Rightarrow> string \<Rightarrow> document \<Rightarrow> bool" where
  "owned_path org path r \<longleftrightarrow> do_org_id r = Some org \<and> do_path r = path"

text \<open>
  The row is looked for by repository and path. A new row without an organization names a conflict target that
  no index has, which the server refuses; one with an organization conflicts with the organization's row at
  the path.
\<close>

definition upsert_document :: "string \<Rightarrow> int \<Rightarrow> upsert \<Rightarrow> documents \<Rightarrow> document res \<times> documents" where
  "upsert_document new_id now u t =
     (case find (at_path (up_repository u) (up_path u)) t of
        Some r \<Rightarrow> (Inr (overwrite now u r), upd_where (\<lambda>x. do_id x = do_id r) (overwrite now u) t)
      | None \<Rightarrow>
          (case up_org_id u of
             None \<Rightarrow> (Inl (Exn ''InvalidColumnReferenceError'' ''no unique constraint matching the ON CONFLICT specification''), t)
           | Some org \<Rightarrow>
               (case find (owned_path org (up_path u)) t of
                  Some r \<Rightarrow> (Inr (overwrite now u r), upd_where (owned_path org (up_path u)) (overwrite now u) t)
                | None \<Rightarrow>
                    if list_ex (\<lambda>x. do_id x = new_id) t then (Inl (UniqueViolation ''documentation_pkey''), t)
                    else (Inr (new_document new_id now org u), t @ [new_document new_id now org u]))))"

definition insert_document ::
  "string \<Rightarrow> int \<Rightarrow> string \<Rightarrow> string \<Rightarrow> string \<Rightarrow> string \<Rightarrow> string \<Rightarrow> json \<Rightarrow> documents \<Rightarrow> document res \<times> documents" where
  "insert_document new_id now org path title content document_type metadata t =
     (let row = \<lparr>do_id = new_id, do_org_id = Some org, do_repository = None, do_path = path, do_title = Some title,
                 do_content = content, do_document_type = document_type, do_commit_sha = None, do_source_hash = None,
                 do_status = ''draft'', do_metadata = metadata, do_updated_at = now, do_last_committed_at = None,
                 do_draft_revision_id = None\<rparr>
      in if list_ex (\<lambda>x. do_id x = new_id) t then (Inl (UniqueViolation ''documentation_pkey''), t)
         else if list_ex (owned_path org path) t then (Inl (UniqueViolation ''documentation_org_id_path_key''), t)
         else (Inr row, t @ [row]))"

definition get_document_by_id :: "string \<Rightarrow> documents \<Rightarrow> document option" where
  "get_document_by_id i t = find (\<lambda>r. do_id r = i) t"

definition get_document_for_org :: "string \<Rightarrow> string \<Rightarrow> documents \<Rightarrow> document option" where
  "get_document_for_org i org t = find (\<lambda>r. do_id r = i \<and> do_org_id r = Some org) t"

definition get_document :: "string \<Rightarrow> string \<Rightarrow> documents \<Rightarrow> document option" where
  "get_document repository path t = find (at_path repository path) t"

definition get_by_org_and_path :: "string \<Rightarrow> string \<Rightarrow> documents \<Rightarrow> document option" where
  "get_by_org_and_path org path t = find (owned_path org path) t"

definition get_by_org_repository_path :: "string \<Rightarrow> string \<Rightarrow> string \<Rightarrow> documents \<Rightarrow> document option" where
  "get_by_org_repository_path org repository path t =
     find (\<lambda>r. owned_path org path r \<and> do_repository r = Some repository) t"

definition list_by_org :: "string \<Rightarrow> nat \<Rightarrow> documents \<Rightarrow> documents" where
  "list_by_org org limit t = take limit (rev (sort_key do_updated_at (filter (\<lambda>r. do_org_id r = Some org) t)))"

record document_patch =
  dp_content :: "string option"
  dp_title :: "string option"
  dp_status :: "string option"
  dp_metadata :: "json option"

definition patched :: "int \<Rightarrow> document_patch \<Rightarrow> document \<Rightarrow> document" where
  "patched now q r =
     r\<lparr>do_content := (case dp_content q of None \<Rightarrow> do_content r | Some x \<Rightarrow> x),
       do_title := coalesce (dp_title q) (do_title r),
       do_status := (case dp_status q of None \<Rightarrow> do_status r | Some x \<Rightarrow> x),
       do_metadata := (case dp_metadata q of None \<Rightarrow> do_metadata r | Some x \<Rightarrow> x), do_updated_at := now\<rparr>"

definition update_document :: "int \<Rightarrow> string \<Rightarrow> document_patch \<Rightarrow> documents \<Rightarrow> document res \<times> documents" where
  "update_document now i q t =
     (case get_document_by_id i t of
        None \<Rightarrow> (Inl (ValueError (''Document '' @ quoted i @ '' not found.'')), t)
      | Some r \<Rightarrow> (Inr (patched now q r), upd_where (\<lambda>x. do_id x = i) (patched now q) t))"

text \<open>A document takes its revisions with it, and the call reports success either way.\<close>

definition delete_document :: "string \<Rightarrow> docs_db \<Rightarrow> bool \<times> docs_db" where
  "delete_document i d =
     (True, d\<lparr>dd_documents := filter (\<lambda>r. do_id r \<noteq> i) (dd_documents d),
              dd_revisions := filter (\<lambda>v. dv_document_id v \<noteq> i) (dd_revisions d)\<rparr>)"

subsection \<open>Search\<close>

text \<open>\<^verbatim>\<open>LIKE\<close>: a percent sign is any text, an underscore any character, a backslash quotes the next one.\<close>

fun like :: "string \<Rightarrow> string \<Rightarrow> bool" where
  "like [] s = (s = [])"
| "like (p # ps) s =
     (if p = CHR ''%'' then like ps s \<or> (case s of [] \<Rightarrow> False | x # xs \<Rightarrow> like (p # ps) xs)
      else if p = CHR ''_'' then (case s of [] \<Rightarrow> False | x # xs \<Rightarrow> like ps xs)
      else if p = char_of (92 :: nat)
      then (case ps of [] \<Rightarrow> False | q # qs \<Rightarrow> (case s of [] \<Rightarrow> False | x # xs \<Rightarrow> x = q \<and> like qs xs))
      else (case s of [] \<Rightarrow> False | x # xs \<Rightarrow> x = p \<and> like ps xs))"

definition ilike :: "string \<Rightarrow> string \<Rightarrow> bool" where
  "ilike query s = like (lower (''%'' @ query @ ''%'')) (lower s)"

definition ilike_column :: "string \<Rightarrow> string option \<Rightarrow> bool" where
  "ilike_column query v = (case v of None \<Rightarrow> False | Some s \<Rightarrow> ilike query s)"

definition search_org :: "string \<Rightarrow> string \<Rightarrow> nat \<Rightarrow> documents \<Rightarrow> documents" where
  "search_org org query limit t =
     take limit (filter (\<lambda>r. do_org_id r = Some org \<and> (ilike_column query (do_title r) \<or> ilike query (do_content r))) t)"

definition search_documents :: "string \<Rightarrow> string option \<Rightarrow> string list \<Rightarrow> documents \<Rightarrow> documents" where
  "search_documents repository query paths t =
     rev (sort_key do_updated_at (filter (\<lambda>r. do_repository r = Some repository
       \<and> (paths = [] \<or> do_path r \<in> set paths)
       \<and> (case query of None \<Rightarrow> True | Some q \<Rightarrow> q = [] \<or> ilike q (do_content r))) t))"

definition list_documents :: "string \<Rightarrow> documents \<Rightarrow> documents" where
  "list_documents repository t = search_documents repository None [] t"

definition projection_status :: "string option \<Rightarrow> document \<Rightarrow> bool" where
  "projection_status status r =
     (case status of
        None \<Rightarrow> True
      | Some s \<Rightarrow> s = [] \<or> (if s = ''published'' then do_status r \<in> {''indexed'', ''published''} else do_status r = s))"

text \<open>The cursor argument of the listing is not used.\<close>

definition list_projection_by_org ::
  "string \<Rightarrow> string option \<Rightarrow> string option \<Rightarrow> string option \<Rightarrow> int \<Rightarrow> string option \<Rightarrow> documents \<Rightarrow> (document \<times> bool) list" where
  "list_projection_by_org org repository status query limit c t =
     map (\<lambda>r. (r, do_draft_revision_id r \<noteq> None))
       (take (nat (max 1 (min limit 1000)))
         (rev (sort_key (\<lambda>r. (do_updated_at r, do_id r)) (filter (\<lambda>r. do_org_id r = Some org
            \<and> (case repository of None \<Rightarrow> True | Some x \<Rightarrow> x = [] \<or> do_repository r = Some x)
            \<and> projection_status status r
            \<and> (case query of None \<Rightarrow> True | Some q \<Rightarrow> q = [] \<or> ilike_column q (do_title r) \<or> ilike q (do_path r))) t))))"

section \<open>Revisions\<close>

definition RevisionConflict :: "string \<Rightarrow> exn" where
  "RevisionConflict m = Exn ''RevisionConflict'' m"

definition CHANGED :: exn where
  "CHANGED = RevisionConflict ''Document has changed since it was loaded''"

text \<open>
  A column of type \<^verbatim>\<open>uuid\<close> reaches the program as the driver decodes it, an argument: as text, or as a UUID
  object, which Python never finds equal to text.
\<close>

datatype py_value = Text string | Uuid string

definition revision_differs :: "(string \<Rightarrow> py_value) \<Rightarrow> string option \<Rightarrow> document \<Rightarrow> bool" where
  "revision_differs decode base_revision_id doc =
     (case base_revision_id of
        None \<Rightarrow> False
      | Some b \<Rightarrow> Some (Text b) \<noteq> map_option decode (do_draft_revision_id doc))"

definition validate_base :: "(string \<Rightarrow> py_value) \<Rightarrow> document \<Rightarrow> string option \<Rightarrow> string option \<Rightarrow> unit res" where
  "validate_base decode doc base_source_hash base_revision_id =
     (if base_source_hash \<noteq> None \<and> base_source_hash \<noteq> do_source_hash doc then Inl CHANGED
      else if revision_differs decode base_revision_id doc then Inl CHANGED
      else Inr ())"

definition revisions_of :: "string \<Rightarrow> string \<Rightarrow> docs_db \<Rightarrow> doc_revision list" where
  "revisions_of document_id org d = filter (\<lambda>v. dv_document_id v = document_id \<and> dv_org_id v = org) (dd_revisions d)"

definition next_number :: "string \<Rightarrow> string \<Rightarrow> docs_db \<Rightarrow> int" where
  "next_number document_id org d =
     (case map dv_number (revisions_of document_id org d) of [] \<Rightarrow> 0 | n # ns \<Rightarrow> Max (set (n # ns))) + 1"

definition superseding :: "string option \<Rightarrow> string \<Rightarrow> string \<Rightarrow> doc_revision list \<Rightarrow> doc_revision list" where
  "superseding current document_id org vs =
     (case current of
        None \<Rightarrow> vs
      | Some i \<Rightarrow> if i = [] then vs
                 else upd_where (\<lambda>v. dv_id v = i \<and> dv_document_id v = document_id \<and> dv_org_id v = org)
                        (\<lambda>v. v\<lparr>dv_status := ''superseded''\<rparr>) vs)"

definition insert_doc_revision ::
  "string \<Rightarrow> int \<Rightarrow> document \<Rightarrow> string \<Rightarrow> string \<Rightarrow> string option \<Rightarrow> string \<Rightarrow> string \<Rightarrow> docs_db \<Rightarrow> doc_revision res \<times> docs_db" where
  "insert_doc_revision new_id now doc org content title created_by origin d =
     (let row = \<lparr>dv_id = new_id, dv_document_id = do_id doc, dv_org_id = org,
                 dv_number = next_number (do_id doc) org d, dv_origin = origin, dv_status = ''draft'',
                 dv_title = title, dv_content = content, dv_base_source_hash = do_source_hash doc,
                 dv_base_updated_at = do_updated_at doc, dv_created_by = created_by, dv_created_at = now\<rparr>
      in if list_ex (\<lambda>v. dv_id v = new_id) (dd_revisions d)
         then (Inl (UniqueViolation ''documentation_revisions_pkey''), d)
         else if list_ex (\<lambda>v. dv_document_id v = do_id doc \<and> dv_number v = dv_number row) (dd_revisions d)
         then (Inl (UniqueViolation ''documentation_revisions_document_id_revision_number_key''), d)
         else (Inr row,
               d\<lparr>dd_revisions := superseding (do_draft_revision_id doc) (do_id doc) org (dd_revisions d) @ [row],
                 dd_documents := upd_where (\<lambda>r. do_id r = do_id doc \<and> do_org_id r = Some org)
                   (\<lambda>r. r\<lparr>do_draft_revision_id := Some new_id\<rparr>) (dd_documents d)\<rparr>))"

definition create_draft ::
  "(string \<Rightarrow> py_value) \<Rightarrow> string \<Rightarrow> int \<Rightarrow> string \<Rightarrow> string \<Rightarrow> string \<Rightarrow> string option \<Rightarrow> string option \<Rightarrow> string option
     \<Rightarrow> string \<Rightarrow> docs_db \<Rightarrow> doc_revision res \<times> docs_db" where
  "create_draft decode new_id now document_id org content title base_source_hash base_revision_id created_by d =
     (case get_document_for_org document_id org (dd_documents d) of
        None \<Rightarrow> (Inl (RevisionConflict (''Document '' @ quoted document_id @ '' not found'')), d)
      | Some doc \<Rightarrow>
          (case validate_base decode doc base_source_hash base_revision_id of
             Inl e \<Rightarrow> (Inl e, d)
           | Inr _ \<Rightarrow> insert_doc_revision new_id now doc org content title created_by ''manual'' d))"

definition get_doc_revision :: "string \<Rightarrow> string \<Rightarrow> string \<Rightarrow> docs_db \<Rightarrow> doc_revision option" where
  "get_doc_revision document_id revision_id org d =
     find (\<lambda>v. dv_id v = revision_id \<and> dv_document_id v = document_id \<and> dv_org_id v = org) (dd_revisions d)"

definition restore_revision ::
  "string \<Rightarrow> int \<Rightarrow> string \<Rightarrow> string \<Rightarrow> string \<Rightarrow> string \<Rightarrow> docs_db \<Rightarrow> doc_revision res \<times> docs_db" where
  "restore_revision new_id now document_id revision_id org created_by d =
     (case get_document_for_org document_id org (dd_documents d) of
        None \<Rightarrow> (Inl (RevisionConflict (''Document '' @ quoted document_id @ '' not found'')), d)
      | Some doc \<Rightarrow>
          (case get_doc_revision document_id revision_id org d of
             None \<Rightarrow> (Inl (RevisionConflict (''Revision '' @ quoted revision_id @ '' not found'')), d)
           | Some v \<Rightarrow> insert_doc_revision new_id now doc org (dv_content v) (dv_title v) created_by ''restore'' d))"

text \<open>A cursor that is no number is ignored.\<close>

definition cursor_number :: "string option \<Rightarrow> int option" where
  "cursor_number c =
     (case c of None \<Rightarrow> None | Some s \<Rightarrow> if s \<noteq> [] \<and> list_all is_digit s then Some (int (digits_val s)) else None)"

definition newest_revisions :: "string \<Rightarrow> string \<Rightarrow> docs_db \<Rightarrow> string option \<Rightarrow> doc_revision list" where
  "newest_revisions document_id org d c =
     filter (\<lambda>v. case cursor_number c of None \<Rightarrow> True | Some n \<Rightarrow> dv_number v < n)
       (rev (sort_key dv_number (revisions_of document_id org d)))"

definition revision_limit :: "int \<Rightarrow> nat" where
  "revision_limit limit = nat (max 1 (min limit 100))"

definition list_doc_revisions ::
  "string \<Rightarrow> string \<Rightarrow> int \<Rightarrow> string option \<Rightarrow> docs_db \<Rightarrow> doc_revision list \<times> nat \<times> string option" where
  "list_doc_revisions document_id org limit c d =
     (let n = revision_limit limit;
          rows = take (n + 1) (newest_revisions document_id org d c);
          items = take n rows
      in (items, length (revisions_of document_id org d),
          if n < length rows then Some (show_int (dv_number (last items))) else None))"

section \<open>The history of a document is linear\<close>

definition of_doc :: "string \<Rightarrow> docs_db \<Rightarrow> doc_revision list" where
  "of_doc i d = filter (\<lambda>v. dv_document_id v = i) (dd_revisions d)"

text \<open>Numbered from one in the order of creation; all but the newest superseded.\<close>

definition linear :: "doc_revision list \<Rightarrow> bool" where
  "linear vs \<longleftrightarrow>
     map dv_number vs = map int [1..<Suc (length vs)]
     \<and> (vs \<noteq> [] \<longrightarrow> map dv_status vs = replicate (length vs - 1) ''superseded'' @ [''draft''])"

definition head_of :: "doc_revision list \<Rightarrow> string option" where
  "head_of vs = (if vs = [] then None else Some (dv_id (last vs)))"

definition revisions_inv :: "docs_db \<Rightarrow> bool" where
  "revisions_inv d \<longleftrightarrow>
     distinct (map do_id (dd_documents d)) \<and> distinct (map dv_id (dd_revisions d)) \<and> [] \<notin> dv_id ` set (dd_revisions d)
     \<and> (\<forall>v \<in> set (dd_revisions d). \<exists>r \<in> set (dd_documents d). do_id r = dv_document_id v \<and> do_org_id r = Some (dv_org_id v))
     \<and> (\<forall>r \<in> set (dd_documents d). linear (of_doc (do_id r) d) \<and> do_draft_revision_id r = head_of (of_doc (do_id r) d))"

lemma revisions_invI:
  assumes "distinct (map do_id (dd_documents d))" and "distinct (map dv_id (dd_revisions d))" and "[] \<notin> dv_id ` set (dd_revisions d)"
    and "\<And>v. v \<in> set (dd_revisions d) \<Longrightarrow> \<exists>r \<in> set (dd_documents d). do_id r = dv_document_id v \<and> do_org_id r = Some (dv_org_id v)"
    and "\<And>r. r \<in> set (dd_documents d) \<Longrightarrow> linear (of_doc (do_id r) d) \<and> do_draft_revision_id r = head_of (of_doc (do_id r) d)"
  shows "revisions_inv d"
  unfolding revisions_inv_def using assms by blast

lemma revisions_invD:
  assumes "revisions_inv d"
  shows "distinct (map do_id (dd_documents d))" and "distinct (map dv_id (dd_revisions d))"
    and "[] \<notin> dv_id ` set (dd_revisions d)"
    and "v \<in> set (dd_revisions d) \<Longrightarrow> \<exists>r \<in> set (dd_documents d). do_id r = dv_document_id v \<and> do_org_id r = Some (dv_org_id v)"
    and "r \<in> set (dd_documents d) \<Longrightarrow> linear (of_doc (do_id r) d) \<and> do_draft_revision_id r = head_of (of_doc (do_id r) d)"
proof -
  note c = assms [unfolded revisions_inv_def]
  show "distinct (map do_id (dd_documents d))" by (rule c [THEN conjunct1])
  show "distinct (map dv_id (dd_revisions d))" by (rule c [THEN conjunct2, THEN conjunct1])
  show "[] \<notin> dv_id ` set (dd_revisions d)" by (rule c [THEN conjunct2, THEN conjunct2, THEN conjunct1])
  show "v \<in> set (dd_revisions d) \<Longrightarrow> \<exists>r \<in> set (dd_documents d). do_id r = dv_document_id v \<and> do_org_id r = Some (dv_org_id v)"
    by (rule c [THEN conjunct2, THEN conjunct2, THEN conjunct2, THEN conjunct1, THEN bspec])
  show "r \<in> set (dd_documents d) \<Longrightarrow> linear (of_doc (do_id r) d) \<and> do_draft_revision_id r = head_of (of_doc (do_id r) d)"
    by (rule c [THEN conjunct2, THEN conjunct2, THEN conjunct2, THEN conjunct2, THEN bspec])
qed

text \<open>The operations; a generated id is never empty.\<close>

inductive docs_step :: "docs_db \<Rightarrow> docs_db \<Rightarrow> bool" where
  upsert: "docs_step d (d\<lparr>dd_documents := snd (upsert_document i now u (dd_documents d))\<rparr>)"
| insert: "docs_step d (d\<lparr>dd_documents := snd (insert_document i now org path title content dt md (dd_documents d))\<rparr>)"
| patch: "docs_step d (d\<lparr>dd_documents := snd (update_document now i q (dd_documents d))\<rparr>)"
| delete: "docs_step d (snd (delete_document i d))"
| draft: "i \<noteq> [] \<Longrightarrow> docs_step d (snd (create_draft decode i now doc org content title h b u d))"
| restore: "i \<noteq> [] \<Longrightarrow> docs_step d (snd (restore_revision i now doc v org u d))"

abbreviation anchor :: "document \<Rightarrow> string \<times> string option \<times> string option" where
  "anchor r \<equiv> (do_id r, do_org_id r, do_draft_revision_id r)"

lemma of_doc_documents [simp]: "of_doc i (d\<lparr>dd_documents := t\<rparr>) = of_doc i d"
  by (simp add: of_doc_def)

lemma revisions_inv_anchors:
  assumes inv: "revisions_inv d" and same: "map anchor t = map anchor (dd_documents d)"
  shows "revisions_inv (d\<lparr>dd_documents := t\<rparr>)"
proof -
  have sets: "anchor ` set t = anchor ` set (dd_documents d)" using arg_cong [OF same, of set] by simp
  have ids: "map do_id t = map do_id (dd_documents d)" using arg_cong [OF same, of "map fst"] by (simp add: comp_def)
  have there: "\<exists>r' \<in> set t. do_id r' = do_id r \<and> do_org_id r' = do_org_id r" if "r \<in> set (dd_documents d)" for r
  proof -
    have "anchor r \<in> anchor ` set t" unfolding sets using that by (rule imageI)
    then show ?thesis by force
  qed
  have prior: "\<exists>r \<in> set (dd_documents d). do_id r' = do_id r \<and> do_draft_revision_id r' = do_draft_revision_id r" if "r' \<in> set t" for r'
  proof -
    have "anchor r' \<in> anchor ` set (dd_documents d)" unfolding sets [symmetric] using that by (rule imageI)
    then show ?thesis by force
  qed
  have "\<exists>r \<in> set t. do_id r = dv_document_id v \<and> do_org_id r = Some (dv_org_id v)" if v: "v \<in> set (dd_revisions d)" for v
  proof -
    obtain r where "r \<in> set (dd_documents d)" "do_id r = dv_document_id v" "do_org_id r = Some (dv_org_id v)"
      using revisions_invD(4) [OF inv v] by blast
    with there [of r] show ?thesis by metis
  qed
  moreover have "linear (of_doc (do_id r') d) \<and> do_draft_revision_id r' = head_of (of_doc (do_id r') d)" if r': "r' \<in> set t" for r'
  proof -
    obtain r where r: "r \<in> set (dd_documents d)" "do_id r' = do_id r" "do_draft_revision_id r' = do_draft_revision_id r"
      using prior [OF r'] by blast
    have "linear (of_doc (do_id r) d) \<and> do_draft_revision_id r = head_of (of_doc (do_id r) d)"
      by (rule revisions_invD(5) [OF inv r(1)])
    then show ?thesis by (simp only: r(2,3))
  qed
  moreover have "distinct (map do_id t)" "distinct (map dv_id (dd_revisions d))" "[] \<notin> dv_id ` set (dd_revisions d)"
    using revisions_invD(1-3) [OF inv] by (simp_all add: ids)
  ultimately show ?thesis by (intro revisions_invI) simp_all
qed

lemma revisions_inv_new:
  assumes inv: "revisions_inv d" and new: "do_id row \<notin> do_id ` set (dd_documents d)" and none: "do_draft_revision_id row = None"
  shows "revisions_inv (d\<lparr>dd_documents := dd_documents d @ [row]\<rparr>)"
proof -
  have "of_doc (do_id row) d = []"
  proof -
    have "dv_document_id v \<noteq> do_id row" if v: "v \<in> set (dd_revisions d)" for v
    proof -
      obtain r where "r \<in> set (dd_documents d)" "do_id r = dv_document_id v"
        using revisions_invD(4) [OF inv v] by blast
      with new show ?thesis by (metis imageI)
    qed
    then show ?thesis by (simp add: of_doc_def filter_empty_conv)
  qed
  then have mine: "linear (of_doc (do_id row) d) \<and> do_draft_revision_id row = head_of (of_doc (do_id row) d)"
    by (simp add: linear_def head_of_def none)
  show ?thesis
  proof (rule revisions_invI)
    let ?d = "d\<lparr>dd_documents := dd_documents d @ [row]\<rparr>"
    show "distinct (map do_id (dd_documents ?d))" using revisions_invD(1) [OF inv] new by simp
    show "distinct (map dv_id (dd_revisions ?d))" "[] \<notin> dv_id ` set (dd_revisions ?d)"
      using revisions_invD(2,3) [OF inv] by simp_all
    show "\<exists>r \<in> set (dd_documents ?d). do_id r = dv_document_id v \<and> do_org_id r = Some (dv_org_id v)"
      if "v \<in> set (dd_revisions ?d)" for v
      using revisions_invD(4) [OF inv, of v] that by auto
    show "linear (of_doc (do_id r) ?d) \<and> do_draft_revision_id r = head_of (of_doc (do_id r) ?d)"
      if "r \<in> set (dd_documents ?d)" for r
    proof (cases "r = row")
      case False
      then have "r \<in> set (dd_documents d)" using that by simp
      then show ?thesis unfolding of_doc_documents by (rule revisions_invD(5) [OF inv])
    qed (use mine in simp)
  qed
qed

lemma anchors_upd: "(\<And>r. p r \<Longrightarrow> anchor (f r) = anchor r) \<Longrightarrow> map anchor (upd_where p f t) = map anchor t"
  by (rule map_key_upd_where)

lemma upsert_inv: "revisions_inv d \<Longrightarrow> revisions_inv (d\<lparr>dd_documents := snd (upsert_document i now u (dd_documents d))\<rparr>)"
proof -
  assume inv: "revisions_inv d"
  let ?t = "snd (upsert_document i now u (dd_documents d))"
  have "map anchor ?t = map anchor (dd_documents d)
      \<or> (\<exists>org. ?t = dd_documents d @ [new_document i now org u] \<and> \<not> list_ex (\<lambda>x. do_id x = i) (dd_documents d))"
    by (auto simp: upsert_document_def overwrite_def intro!: anchors_upd split: option.splits)
  then show ?thesis
  proof
    assume "map anchor ?t = map anchor (dd_documents d)"
    then show ?thesis by (rule revisions_inv_anchors [OF inv])
  next
    assume "\<exists>org. ?t = dd_documents d @ [new_document i now org u] \<and> \<not> list_ex (\<lambda>x. do_id x = i) (dd_documents d)"
    then obtain org where t: "?t = dd_documents d @ [new_document i now org u]"
      and n: "\<not> list_ex (\<lambda>x. do_id x = i) (dd_documents d)" by blast
    show ?thesis unfolding t
      by (rule revisions_inv_new [OF inv]) (use n in \<open>auto simp: new_document_def list_ex_iff\<close>)
  qed
qed

lemma insert_inv:
  assumes inv: "revisions_inv d"
  shows "revisions_inv (d\<lparr>dd_documents := snd (insert_document i now org path title content dt md (dd_documents d))\<rparr>)"
proof (cases "list_ex (\<lambda>x. do_id x = i) (dd_documents d) \<or> list_ex (owned_path org path) (dd_documents d)")
  case False
  then show ?thesis
    unfolding insert_document_def Let_def
    by simp (rule revisions_inv_new [OF inv], auto simp: list_ex_iff)
qed (use inv in \<open>auto simp: insert_document_def Let_def\<close>)

lemma patch_inv:
  assumes "revisions_inv d"
  shows "revisions_inv (d\<lparr>dd_documents := snd (update_document now i q (dd_documents d))\<rparr>)"
  by (rule revisions_inv_anchors [OF assms])
    (auto simp: update_document_def patched_def intro!: anchors_upd split: option.splits)

lemma delete_inv: "revisions_inv d \<Longrightarrow> revisions_inv (snd (delete_document i d))"
proof -
  assume inv: "revisions_inv d"
  let ?d = "snd (delete_document i d)"
  have keep: "of_doc j ?d = of_doc j d" if "j \<noteq> i" for j
    using that by (auto simp: of_doc_def delete_document_def intro!: filter_cong)
  have "\<exists>r \<in> set (dd_documents ?d). do_id r = dv_document_id v \<and> do_org_id r = Some (dv_org_id v)"
    if "v \<in> set (dd_revisions ?d)" for v
    using revisions_invD(4) [OF inv, of v] that by (auto simp: delete_document_def)
  moreover have "linear (of_doc (do_id r) ?d) \<and> do_draft_revision_id r = head_of (of_doc (do_id r) ?d)"
    if "r \<in> set (dd_documents ?d)" for r
  proof -
    have "r \<in> set (dd_documents d)" and "do_id r \<noteq> i" using that by (simp_all add: delete_document_def)
    then show ?thesis unfolding keep [OF \<open>do_id r \<noteq> i\<close>] by (intro revisions_invD(5) [OF inv])
  qed
  moreover have "distinct (map do_id (dd_documents ?d))" "distinct (map dv_id (dd_revisions ?d))" "[] \<notin> dv_id ` set (dd_revisions ?d)"
    using revisions_invD(1-3) [OF inv] by (auto simp: delete_document_def distinct_map_filter)
  ultimately show ?thesis by (intro revisions_invI) blast+
qed

lemma upd_last:
  fixes vs :: "doc_revision list"
  assumes "distinct (map dv_id vs)" and "vs \<noteq> []" and "\<And>v. v \<in> set vs \<Longrightarrow> q v"
  shows "upd_where (\<lambda>v. dv_id v = dv_id (last vs) \<and> q v) f vs = butlast vs @ [f (last vs)]"
proof -
  have split: "vs = butlast vs @ [last vs]" using assms(2) by simp
  have d: "distinct (map dv_id (butlast vs @ [last vs]))" using assms(1) split by simp
  have other: "dv_id v \<noteq> dv_id (last vs)" if "v \<in> set (butlast vs)" for v
  proof
    assume "dv_id v = dv_id (last vs)"
    then have "dv_id (last vs) \<in> dv_id ` set (butlast vs)" using that by (metis imageI)
    with d show False by simp
  qed
  have "q (last vs)" using assms(2,3) by simp
  have "upd_where p f (xs @ [x]) = upd_where p f xs @ [if p x then f x else x]" for p x and xs :: "doc_revision list"
    by (simp add: upd_where_def)
  then have "upd_where (\<lambda>v. dv_id v = dv_id (last vs) \<and> q v) f (butlast vs @ [last vs])
      = upd_where (\<lambda>v. dv_id v = dv_id (last vs) \<and> q v) f (butlast vs) @ [f (last vs)]"
    using \<open>q (last vs)\<close> by simp
  also have "upd_where (\<lambda>v. dv_id v = dv_id (last vs) \<and> q v) f (butlast vs) = butlast vs"
    by (rule upd_where_none) (use other in blast)
  finally show ?thesis using split by simp
qed

subsection \<open>Adding a revision\<close>

definition retired :: "doc_revision list \<Rightarrow> doc_revision list" where
  "retired vs = (if vs = [] then [] else butlast vs @ [(last vs)\<lparr>dv_status := ''superseded''\<rparr>])"

lemma map_retired: "(\<And>v. g (v\<lparr>dv_status := ''superseded''\<rparr>) = g v) \<Longrightarrow> map g (retired vs) = map g vs"
proof (cases "vs = []")
  case False
  assume "\<And>v. g (v\<lparr>dv_status := ''superseded''\<rparr>) = g v"
  then have "map g (retired vs) = map g (butlast vs @ [last vs])" using False by (simp add: retired_def del: append_butlast_last_id)
  then show ?thesis unfolding append_butlast_last_id [OF False] .
qed (simp add: retired_def)

lemma linear_snoc:
  assumes "linear vs" and "dv_number row = int (length vs) + 1" and "dv_status row = ''draft''"
  shows "linear (retired vs @ [row])"
proof -
  have len: "length (retired vs) = length vs" by (simp add: retired_def)
  have "map dv_number (retired vs @ [row]) = map int [1..<Suc (length (retired vs @ [row]))]"
    using assms by (simp add: map_retired linear_def len)
  moreover have "map dv_status (retired vs) = replicate (length vs) ''superseded''"
  proof (cases "vs = []")
    case False
    then have "map dv_status (butlast vs) = replicate (length vs - 1) ''superseded''"
      using assms(1) by (simp add: linear_def map_butlast)
    then have "map dv_status (retired vs) = replicate (length vs - 1) ''superseded'' @ [''superseded'']"
      using False by (simp add: retired_def)
    also have "\<dots> = replicate (Suc (length vs - 1)) ''superseded''" by (simp only: replicate_append_same replicate_Suc)
    also have "Suc (length vs - 1) = length vs" using False by simp
    finally show ?thesis .
  qed (simp add: retired_def)
  ultimately show ?thesis using assms(3) by (simp add: linear_def len)
qed

lemma revisions_of_eq:
  assumes "revisions_inv d" and "doc \<in> set (dd_documents d)" and "do_org_id doc = Some org"
  shows "revisions_of (do_id doc) org d = of_doc (do_id doc) d"
proof -
  have "dv_org_id v = org" if v: "v \<in> set (dd_revisions d)" "dv_document_id v = do_id doc" for v
  proof -
    obtain r where r: "r \<in> set (dd_documents d)" "do_id r = dv_document_id v" "do_org_id r = Some (dv_org_id v)"
      using revisions_invD(4) [OF assms(1) v(1)] by blast
    have "r = doc"
      using revisions_invD(1) [OF assms(1)] r(1,2) v(2) assms(2) by (auto simp: distinct_map dest: inj_onD)
    with r(3) assms(3) show ?thesis by simp
  qed
  then show ?thesis by (auto simp: revisions_of_def of_doc_def intro!: filter_cong)
qed

lemma next_number_eq:
  assumes "linear (revisions_of i org d)"
  shows "next_number i org d = int (length (revisions_of i org d)) + 1"
proof (cases "revisions_of i org d = []")
  case False
  let ?n = "length (revisions_of i org d)"
  have nums: "map dv_number (revisions_of i org d) = map int [1..<Suc ?n]" using assms by (simp add: linear_def)
  have pos: "1 \<le> ?n" using False by (simp add: Suc_le_eq)
  have "Max (set (map dv_number (revisions_of i org d))) = int ?n"
    unfolding nums using pos by (intro Max_eqI) auto
  moreover have "map dv_number (revisions_of i org d) \<noteq> []" using False by simp
  ultimately show ?thesis unfolding next_number_def by (auto split: list.splits)
qed (simp add: next_number_def)

text \<open>What an accepted revision does: nothing else can refuse it than a repeated id.\<close>

lemma insert_doc_revision_effect:
  assumes inv: "revisions_inv d" and doc: "doc \<in> set (dd_documents d)" "do_org_id doc = Some org"
    and new: "i \<notin> dv_id ` set (dd_revisions d)"
    and res: "insert_doc_revision i now doc org content title u origin d = (res, d')"
  shows "\<exists>row. res = Inr row \<and> dv_id row = i \<and> dv_number row = int (length (of_doc (do_id doc) d)) + 1
    \<and> dv_status row = ''draft'' \<and> dv_content row = content \<and> dv_title row = title \<and> dv_origin row = origin
    \<and> dv_document_id row = do_id doc \<and> dv_org_id row = org
    \<and> of_doc (do_id doc) d' = retired (of_doc (do_id doc) d) @ [row]
    \<and> (\<forall>j. j \<noteq> do_id doc \<longrightarrow> of_doc j d' = of_doc j d)
    \<and> map dv_id (dd_revisions d') = map dv_id (dd_revisions d) @ [i]
    \<and> (\<forall>v \<in> set (dd_revisions d'). v = row \<or> (\<exists>w \<in> set (dd_revisions d). dv_document_id v = dv_document_id w \<and> dv_org_id v = dv_org_id w))
    \<and> dd_documents d' = upd_where (\<lambda>r. do_id r = do_id doc \<and> do_org_id r = Some org)
        (\<lambda>r. r\<lparr>do_draft_revision_id := Some i\<rparr>) (dd_documents d)"
proof -
  let ?vs = "of_doc (do_id doc) d" and ?sup = "superseding (do_draft_revision_id doc) (do_id doc) org (dd_revisions d)"
  note lin = revisions_invD(5) [OF inv doc(1)]
  note own = revisions_of_eq [OF inv doc]
  have num: "next_number (do_id doc) org d = int (length ?vs) + 1"
    using next_number_eq [of "do_id doc" org d] lin by (simp add: own)
  have taken: "\<not> list_ex (\<lambda>v. dv_document_id v = do_id doc \<and> dv_number v = int (length ?vs) + 1) (dd_revisions d)"
  proof
    assume "list_ex (\<lambda>v. dv_document_id v = do_id doc \<and> dv_number v = int (length ?vs) + 1) (dd_revisions d)"
    then have "int (length ?vs) + 1 \<in> set (map dv_number ?vs)" by (force simp: list_ex_iff of_doc_def)
    moreover have "map dv_number ?vs = map int [1..<Suc (length ?vs)]" using lin by (simp add: linear_def)
    ultimately show False by auto
  qed
  have nonempty: "dv_id v \<noteq> []" if "v \<in> set (dd_revisions d)" for v
    using revisions_invD(3) [OF inv] that by (metis imageI)
  have sup: "filter (\<lambda>v. dv_document_id v = do_id doc) ?sup = retired ?vs"
  proof (cases "?vs = []")
    case True
    then show ?thesis using lin by (simp add: superseding_def head_of_def retired_def of_doc_def)
  next
    case False
    let ?q = "\<lambda>v. dv_document_id v = do_id doc \<and> dv_org_id v = org"
    let ?f = "\<lambda>v. v\<lparr>dv_status := ''superseded''\<rparr>"
    have "last ?vs \<in> set ?vs" using False by (rule last_in_set)
    then have "last ?vs \<in> set (dd_revisions d)" by (simp add: of_doc_def)
    then have "dv_id (last ?vs) \<noteq> []" by (rule nonempty)
    then have a: "?sup = upd_where (\<lambda>v. dv_id v = dv_id (last ?vs) \<and> ?q v) ?f (dd_revisions d)"
      using lin False by (simp add: superseding_def head_of_def)
    have b: "filter (\<lambda>v. dv_document_id v = do_id doc) (upd_where p ?f xs)
        = upd_where p ?f (filter (\<lambda>v. dv_document_id v = do_id doc) xs)" for p xs
      by (induction xs) (auto simp: upd_where_def)
    have c: "upd_where (\<lambda>v. dv_id v = dv_id (last ?vs) \<and> ?q v) ?f ?vs = butlast ?vs @ [?f (last ?vs)]"
    proof (rule upd_last)
      show "distinct (map dv_id ?vs)"
        using revisions_invD(2) [OF inv] unfolding of_doc_def by (rule distinct_map_filter)
      show "dv_document_id v = do_id doc \<and> dv_org_id v = org" if "v \<in> set ?vs" for v
      proof -
        have "v \<in> set (revisions_of (do_id doc) org d)" using that by (simp add: own)
        then show ?thesis by (simp add: revisions_of_def)
      qed
    qed (rule False)
    have "filter (\<lambda>v. dv_document_id v = do_id doc) ?sup
        = upd_where (\<lambda>v. dv_id v = dv_id (last ?vs) \<and> ?q v) ?f ?vs"
      unfolding a b of_doc_def [symmetric] ..
    also note c
    finally show ?thesis using False by (simp only: retired_def if_False)
  qed
  have skip: "filter (\<lambda>v. dv_document_id v = j) (upd_where (\<lambda>v. dv_id v = k \<and> dv_document_id v = do_id doc \<and> dv_org_id v = org)
      (\<lambda>v. v\<lparr>dv_status := ''superseded''\<rparr>) xs) = filter (\<lambda>v. dv_document_id v = j) xs" if "j \<noteq> do_id doc" for j k xs
    using that by (induction xs) (auto simp: upd_where_def)
  have sup_other: "filter (\<lambda>v. dv_document_id v = j) ?sup = of_doc j d" if "j \<noteq> do_id doc" for j
  proof (cases "do_draft_revision_id doc")
    case (Some k)
    then show ?thesis using skip [OF that, of k "dd_revisions d"] by (cases "k = []") (simp_all add: superseding_def of_doc_def)
  qed (simp add: superseding_def of_doc_def)
  have sup_ids: "map dv_id ?sup = map dv_id (dd_revisions d)"
    by (auto simp: superseding_def intro!: map_key_upd_where split: option.splits)
  have sup_rows: "\<exists>w \<in> set (dd_revisions d). dv_document_id v = dv_document_id w \<and> dv_org_id v = dv_org_id w" if "v \<in> set ?sup" for v
    using that by (force simp: superseding_def set_upd_where split: option.splits if_splits)
  have "\<not> list_ex (\<lambda>v. dv_id v = i) (dd_revisions d)" using new by (auto simp: list_ex_iff)
  moreover define row where "row = \<lparr>dv_id = i, dv_document_id = do_id doc, dv_org_id = org, dv_number = int (length ?vs) + 1,
    dv_origin = origin, dv_status = ''draft'', dv_title = title, dv_content = content, dv_base_source_hash = do_source_hash doc,
    dv_base_updated_at = do_updated_at doc, dv_created_by = u, dv_created_at = now\<rparr>"
  ultimately have "insert_doc_revision i now doc org content title u origin d = (Inr row, d\<lparr>dd_revisions := ?sup @ [row],
      dd_documents := upd_where (\<lambda>r. do_id r = do_id doc \<and> do_org_id r = Some org)
        (\<lambda>r. r\<lparr>do_draft_revision_id := Some i\<rparr>) (dd_documents d)\<rparr>)"
    unfolding insert_doc_revision_def Let_def num using taken by simp
  then have r: "res = Inr row" and d': "d' = d\<lparr>dd_revisions := ?sup @ [row],
      dd_documents := upd_where (\<lambda>r. do_id r = do_id doc \<and> do_org_id r = Some org)
        (\<lambda>r. r\<lparr>do_draft_revision_id := Some i\<rparr>) (dd_documents d)\<rparr>"
    unfolding res by simp_all
  have row: "dv_id row = i" "dv_number row = int (length ?vs) + 1" "dv_status row = ''draft''" "dv_content row = content"
    "dv_title row = title" "dv_origin row = origin" "dv_document_id row = do_id doc" "dv_org_id row = org"
    by (simp_all add: row_def)
  have revs: "dd_revisions d' = ?sup @ [row]" by (simp add: d')
  have split: "of_doc j d' = filter (\<lambda>v. dv_document_id v = j) ?sup @ (if do_id doc = j then [row] else [])" for j
    by (simp add: of_doc_def [of j d'] revs row)
  show ?thesis
  proof (intro exI [of _ row] conjI)
    show "of_doc (do_id doc) d' = retired ?vs @ [row]" by (simp add: split sup)
    show "\<forall>j. j \<noteq> do_id doc \<longrightarrow> of_doc j d' = of_doc j d" by (simp add: split sup_other)
    show "\<forall>v \<in> set (dd_revisions d'). v = row \<or> (\<exists>w \<in> set (dd_revisions d). dv_document_id v = dv_document_id w \<and> dv_org_id v = dv_org_id w)"
    proof
      fix v assume "v \<in> set (dd_revisions d')"
      then have "v = row \<or> v \<in> set ?sup" by (auto simp: revs)
      then show "v = row \<or> (\<exists>w \<in> set (dd_revisions d). dv_document_id v = dv_document_id w \<and> dv_org_id v = dv_org_id w)"
        using sup_rows by blast
    qed
    show "map dv_id (dd_revisions d') = map dv_id (dd_revisions d) @ [i]" by (simp add: revs sup_ids row)
  qed (use row r in \<open>simp_all add: d'\<close>)
qed

lemma get_document_for_orgD: "get_document_for_org i org t = Some doc \<Longrightarrow> doc \<in> set t \<and> do_id doc = i \<and> do_org_id doc = Some org"
  unfolding get_document_for_org_def by (auto simp: find_Some_iff)

text \<open>Either the revision is refused and nothing changes, or it is added.\<close>

lemma insert_doc_revision_cases:
  assumes "insert_doc_revision i now doc org content title u origin d = (res, d')"
  obtains e where "res = Inl e" "d' = d" | "i \<notin> dv_id ` set (dd_revisions d)"
  using assms by (auto simp: insert_doc_revision_def Let_def list_ex_iff split: if_splits)

lemma insert_doc_revision_inv:
  assumes inv: "revisions_inv d" and doc: "doc \<in> set (dd_documents d)" "do_org_id doc = Some org" and "i \<noteq> []"
    and res: "insert_doc_revision i now doc org content title u origin d = (res, d')"
  shows "revisions_inv d'"
  using res
proof (cases rule: insert_doc_revision_cases)
  case 2
  from insert_doc_revision_effect [OF inv doc 2 res] obtain row where
    row: "dv_id row = i" "dv_number row = int (length (of_doc (do_id doc) d)) + 1" "dv_status row = ''draft''"
      "dv_document_id row = do_id doc" "dv_org_id row = org"
    and mine: "of_doc (do_id doc) d' = retired (of_doc (do_id doc) d) @ [row]"
    and others: "\<And>j. j \<noteq> do_id doc \<Longrightarrow> of_doc j d' = of_doc j d"
    and ids: "map dv_id (dd_revisions d') = map dv_id (dd_revisions d) @ [i]"
    and rows: "\<And>v. v \<in> set (dd_revisions d') \<Longrightarrow> v = row \<or> (\<exists>w \<in> set (dd_revisions d). dv_document_id v = dv_document_id w \<and> dv_org_id v = dv_org_id w)"
    and docs: "dd_documents d' = upd_where (\<lambda>r. do_id r = do_id doc \<and> do_org_id r = Some org)
        (\<lambda>r. r\<lparr>do_draft_revision_id := Some i\<rparr>) (dd_documents d)"
    by blast
  note keys = map_key_upd_where [where f = "\<lambda>r. r\<lparr>do_draft_revision_id := Some i\<rparr>"]
  have there: "\<exists>r' \<in> set (dd_documents d'). do_id r' = do_id r \<and> do_org_id r' = do_org_id r" if "r \<in> set (dd_documents d)" for r
    using that unfolding docs upd_where_def set_map by (intro bexI [OF _ imageI [OF that]]) simp
  show ?thesis
  proof (rule revisions_invI)
    have "map do_id (dd_documents d') = map do_id (dd_documents d)" unfolding docs by (rule keys) simp
    then show "distinct (map do_id (dd_documents d'))" using revisions_invD(1) [OF inv] by simp
    show "distinct (map dv_id (dd_revisions d'))" using revisions_invD(2) [OF inv] 2 by (simp add: ids)
    have "dv_id ` set (dd_revisions d') = insert i (dv_id ` set (dd_revisions d))"
      using arg_cong [OF ids, of set] by simp
    then show "[] \<notin> dv_id ` set (dd_revisions d')" using revisions_invD(3) [OF inv] assms(4) by simp
    show "\<exists>r \<in> set (dd_documents d'). do_id r = dv_document_id v \<and> do_org_id r = Some (dv_org_id v)"
      if "v \<in> set (dd_revisions d')" for v
      using rows [OF that]
    proof
      assume "v = row"
      then show ?thesis using there [OF doc(1)] doc(2) row by simp
    next
      assume "\<exists>w \<in> set (dd_revisions d). dv_document_id v = dv_document_id w \<and> dv_org_id v = dv_org_id w"
      then obtain w where w: "w \<in> set (dd_revisions d)" "dv_document_id v = dv_document_id w" "dv_org_id v = dv_org_id w" by blast
      obtain r where "r \<in> set (dd_documents d)" "do_id r = dv_document_id w" "do_org_id r = Some (dv_org_id w)"
        using revisions_invD(4) [OF inv w(1)] by blast
      with there [of r] w(2,3) show ?thesis by metis
    qed
    show "linear (of_doc (do_id r) d') \<and> do_draft_revision_id r = head_of (of_doc (do_id r) d')"
      if r: "r \<in> set (dd_documents d')" for r
    proof -
      obtain r0 where r0: "r0 \<in> set (dd_documents d)"
        "r = (if do_id r0 = do_id doc \<and> do_org_id r0 = Some org then r0\<lparr>do_draft_revision_id := Some i\<rparr> else r0)"
        using r unfolding docs upd_where_def set_map by blast
      have id: "do_id r = do_id r0" by (simp add: r0(2))
      note old = revisions_invD(5) [OF inv r0(1)]
      show ?thesis
      proof (cases "do_id r0 = do_id doc")
        case True
        then have "r0 = doc" using revisions_invD(1) [OF inv] r0(1) doc(1) by (auto simp: distinct_map dest: inj_onD)
        then have "do_draft_revision_id r = Some i" using r0(2) doc(2) by simp
        moreover have "linear (retired (of_doc (do_id doc) d) @ [row])"
          by (rule linear_snoc) (use old True row in simp_all)
        ultimately show ?thesis unfolding id True mine by (simp add: head_of_def row)
      next
        case False
        then have "r = r0" using r0(2) by simp
        with old False show ?thesis unfolding id others [OF False] by simp
      qed
    qed
  qed
qed (use inv in simp)

lemma draft_inv:
  assumes "revisions_inv d" and "i \<noteq> []"
  shows "revisions_inv (snd (create_draft decode i now doc org content title h b u d))"
proof (cases "get_document_for_org doc org (dd_documents d)")
  case (Some r)
  obtain res d' where ins: "insert_doc_revision i now r org content title u ''manual'' d = (res, d')" by force
  have "revisions_inv d'"
    using get_document_for_orgD [OF Some] by (intro insert_doc_revision_inv [OF assms(1) _ _ assms(2) ins]) blast+
  then show ?thesis using assms(1) Some ins by (simp add: create_draft_def split: sum.split)
qed (simp add: create_draft_def assms(1))

lemma restore_inv:
  assumes "revisions_inv d" and "i \<noteq> []"
  shows "revisions_inv (snd (restore_revision i now doc v org u d))"
proof (cases "get_document_for_org doc org (dd_documents d)")
  case (Some r)
  show ?thesis
  proof (cases "get_doc_revision doc v org d")
    case old: (Some w)
    obtain res d' where ins: "insert_doc_revision i now r org (dv_content w) (dv_title w) u ''restore'' d = (res, d')" by force
    have "revisions_inv d'"
      using get_document_for_orgD [OF Some] by (intro insert_doc_revision_inv [OF assms(1) _ _ assms(2) ins]) blast+
    then show ?thesis using Some old ins by (simp add: restore_revision_def)
  qed (simp add: restore_revision_def Some assms(1))
qed (simp add: restore_revision_def assms(1))

interpretation docs_system: invariant_system "\<lambda>d. d = \<lparr>dd_documents = [], dd_revisions = []\<rparr>" docs_step revisions_inv
proof
  show "revisions_inv s" if "s = \<lparr>dd_documents = [], dd_revisions = []\<rparr>" for s
    using that by (simp add: revisions_inv_def)
  show "revisions_inv t" if "docs_step s t" "revisions_inv s" for s t
    using that
    by (induction rule: docs_step.induct) (simp_all add: upsert_inv insert_inv patch_inv delete_inv draft_inv restore_inv)
qed

text \<open>
  C32. After any sequence of document operations the history of every document is linear: its edited revisions
  are numbered one, two, three in the order they were made, all but the newest are superseded, the newest is
  the draft, and the document points at exactly it, or at none when it was never edited.
\<close>

theorem revision_history_linear:
  assumes "docs_step\<^sup>*\<^sup>* \<lparr>dd_documents = [], dd_revisions = []\<rparr> d" and "r \<in> set (dd_documents d)"
  shows "map dv_number (of_doc (do_id r) d) = map int [1..<Suc (length (of_doc (do_id r) d))]
    \<and> (\<forall>v \<in> set (butlast (of_doc (do_id r) d)). dv_status v = ''superseded'')
    \<and> (of_doc (do_id r) d \<noteq> [] \<longrightarrow> dv_status (last (of_doc (do_id r) d)) = ''draft'')
    \<and> do_draft_revision_id r = (if of_doc (do_id r) d = [] then None else Some (dv_id (last (of_doc (do_id r) d))))"
proof -
  let ?vs = "of_doc (do_id r) d"
  have "linear ?vs \<and> do_draft_revision_id r = head_of ?vs"
    by (rule revisions_invD(5) [OF docs_system.inv_reachable [OF refl assms(1)] assms(2)])
  then have lin: "linear ?vs" and head: "do_draft_revision_id r = head_of ?vs" by blast+
  have statuses: "map dv_status (butlast ?vs) = replicate (length ?vs - 1) ''superseded''
      \<and> (?vs \<noteq> [] \<longrightarrow> dv_status (last ?vs) = ''draft'')"
  proof (cases "?vs = []")
    case False
    then have st: "map dv_status ?vs = replicate (length ?vs - 1) ''superseded'' @ [''draft'']" using lin by (simp add: linear_def)
    have "map dv_status (butlast ?vs) = butlast (map dv_status ?vs)" by (simp add: map_butlast)
    moreover have "dv_status (last ?vs) = last (map dv_status ?vs)" using False by (simp add: last_map)
    ultimately show ?thesis unfolding st by simp
  qed simp
  have "dv_status v = ''superseded''" if "v \<in> set (butlast ?vs)" for v
  proof -
    have "dv_status v \<in> set (map dv_status (butlast ?vs))" using that by simp
    also have "\<dots> \<subseteq> {''superseded''}" unfolding statuses [THEN conjunct1] by auto
    finally show ?thesis by simp
  qed
  with lin head statuses show ?thesis by (simp add: linear_def head_of_def)
qed

definition sample_doc :: "docs_db \<Rightarrow> docs_db" where
  "sample_doc d = d\<lparr>dd_documents := snd (insert_document ''d'' 1 ''o'' ''a.md'' ''A'' ''one'' ''general'' JNull (dd_documents d))\<rparr>"

abbreviation empty_docs :: docs_db where
  "empty_docs \<equiv> \<lparr>dd_documents = [], dd_revisions = []\<rparr>"

definition sample_draft :: "docs_db \<Rightarrow> docs_db" where
  "sample_draft d = snd (create_draft Uuid ''v1'' 2 ''d'' ''o'' ''two'' None None None ''u'' d)"

lemma sample_docs_steps: "docs_step\<^sup>*\<^sup>* empty_docs (sample_draft (sample_doc empty_docs))"
proof -
  have one: "docs_step empty_docs (sample_doc empty_docs)"
    unfolding sample_doc_def by (rule docs_step.insert)
  have two: "docs_step (sample_doc empty_docs) (sample_draft (sample_doc empty_docs))"
    unfolding sample_draft_def by (rule docs_step.draft) simp
  show ?thesis by (rule rtranclp.rtrancl_into_rtrancl [where b = "sample_doc empty_docs"]) (rule r_into_rtranclp, rule one, rule two)
qed

lemmas sample_doc_defs = sample_doc_def sample_draft_def create_draft_def insert_document_def insert_doc_revision_def
  get_document_for_org_def validate_base_def revision_differs_def next_number_def revisions_of_def superseding_def
  upd_where_def

lemma sample_docs_eval:
  "do_draft_revision_id (hd (dd_documents (sample_draft (sample_doc empty_docs)))) = Some ''v1''"
  "dd_documents (sample_draft (sample_doc empty_docs)) \<noteq> []"
  "do_id (hd (dd_documents (sample_draft (sample_doc empty_docs)))) = ''d''"
  "get_document_for_org ''d'' ''o'' (dd_documents (sample_draft (sample_doc empty_docs)))
     = Some (hd (dd_documents (sample_draft (sample_doc empty_docs))))"
  by (simp_all add: sample_doc_defs Let_def)

theorem revision_history_linear_witness:
  "map dv_number (of_doc ''d'' (sample_draft (sample_doc empty_docs)))
     = map int [1..<Suc (length (of_doc ''d'' (sample_draft (sample_doc empty_docs))))]"
  using revision_history_linear [OF sample_docs_steps hd_in_set [OF sample_docs_eval(2)]]
  unfolding sample_docs_eval(3) by (rule conjunct1)

text \<open>
  The optimistic lock on a document's edited revision locks everybody out: the driver decodes the document's
  draft pointer to a UUID object while the request carries text, so a draft that names the revision it was
  based on is refused as a conflict, be it the current one, and changes nothing.
\<close>

theorem draft_on_current_revision_refused:
  assumes "\<And>i. decode i = Uuid i" and "get_document_for_org doc org (dd_documents d) = Some r"
    and "do_draft_revision_id r = Some current"
  shows "create_draft decode i now doc org content title h (Some current) u d = (Inl CHANGED, d)"
  using assms(2,3) by (simp add: create_draft_def validate_base_def revision_differs_def assms(1))

theorem draft_on_current_revision_refused_witness:
  "create_draft Uuid ''v2'' 3 ''d'' ''o'' ''three'' None None (Some ''v1'') ''u'' (sample_draft (sample_doc empty_docs))
     = (Inl CHANGED, sample_draft (sample_doc empty_docs))"
  by (rule draft_on_current_revision_refused [OF refl sample_docs_eval(4,1)])

text \<open>
  Restoring an old revision never rewrites history: when it succeeds, the contents of all revisions of the
  document stay in their order, one more with the restored revision's content and title is added at the end,
  and the document points at it.
\<close>

theorem restore_appends:
  assumes "docs_step\<^sup>*\<^sup>* empty_docs d" and "restore_revision i now doc revision org u d = (Inr row, d')"
    and "get_doc_revision doc revision org d = Some v"
  shows "map dv_content (of_doc doc d') = map dv_content (of_doc doc d) @ [dv_content v]
    \<and> map dv_id (of_doc doc d') = map dv_id (of_doc doc d) @ [i]
    \<and> dv_title row = dv_title v \<and> dv_origin row = ''restore'' \<and> dv_id row = i
    \<and> (\<exists>r \<in> set (dd_documents d'). do_id r = doc \<and> do_draft_revision_id r = Some i)"
proof -
  have inv: "revisions_inv d" by (rule docs_system.inv_reachable [OF refl assms(1)])
  obtain r where r: "get_document_for_org doc org (dd_documents d) = Some r"
    using assms(2) by (auto simp: restore_revision_def split: option.splits)
  then have r': "r \<in> set (dd_documents d)" "do_org_id r = Some org" "do_id r = doc"
    using get_document_for_orgD by blast+
  have ins: "insert_doc_revision i now r org (dv_content v) (dv_title v) u ''restore'' d = (Inr row, d')"
    using assms(2,3) r by (simp add: restore_revision_def)
  have "i \<notin> dv_id ` set (dd_revisions d)" using ins by (cases rule: insert_doc_revision_cases) simp_all
  from insert_doc_revision_effect [OF inv r'(1,2) this ins] obtain row' where
    row: "row' = row" "dv_id row' = i" "dv_content row' = dv_content v" "dv_title row' = dv_title v" "dv_origin row' = ''restore''"
    and mine: "of_doc doc d' = retired (of_doc doc d) @ [row']"
    and docs: "dd_documents d' = upd_where (\<lambda>x. do_id x = doc \<and> do_org_id x = Some org)
        (\<lambda>x. x\<lparr>do_draft_revision_id := Some i\<rparr>) (dd_documents d)"
    unfolding r'(3) by auto
  have "r\<lparr>do_draft_revision_id := Some i\<rparr> \<in> set (dd_documents d')"
    using r' by (force simp: docs upd_where_def)
  then have "\<exists>r \<in> set (dd_documents d'). do_id r = doc \<and> do_draft_revision_id r = Some i"
    using r'(3) by (intro bexI [of _ "r\<lparr>do_draft_revision_id := Some i\<rparr>"]) simp_all
  with row show ?thesis by (simp add: mine map_retired)
qed

theorem restore_appends_witness:
  "map dv_content (of_doc ''d'' (snd (restore_revision ''v2'' 3 ''d'' ''v1'' ''o'' ''u'' (sample_draft (sample_doc empty_docs)))))
     = [''two'', ''two'']"
proof -
  let ?d = "sample_draft (sample_doc empty_docs)"
  obtain row where "restore_revision ''v2'' 3 ''d'' ''v1'' ''o'' ''u'' ?d = (Inr row, snd (restore_revision ''v2'' 3 ''d'' ''v1'' ''o'' ''u'' ?d))"
    by (simp add: sample_doc_defs restore_revision_def get_doc_revision_def Let_def)
  moreover obtain v where "get_doc_revision ''d'' ''v1'' ''o'' ?d = Some v" and "dv_content v = ''two''"
    by (simp add: sample_doc_defs get_doc_revision_def Let_def)
  ultimately show ?thesis
    using restore_appends [OF sample_docs_steps, of "''v2''" 3 "''d''" "''v1''" "''o''" "''u''"]
    by (simp add: of_doc_def) (simp add: sample_doc_defs Let_def)
qed

subsection \<open>The page of revisions\<close>

definition revision_page_of ::
  "string \<times> string \<times> int \<Rightarrow> docs_db \<Rightarrow> string option \<Rightarrow> doc_revision list \<times> string option" where
  "revision_page_of q d c =
     (case list_doc_revisions (fst q) (fst (snd q)) (snd (snd q)) c d of (items, _, nc) \<Rightarrow> (items, nc))"

lemma revision_numbers:
  assumes "revisions_inv d"
  shows "distinct (map dv_number (revisions_of i org d))" and "v \<in> set (revisions_of i org d) \<Longrightarrow> 1 \<le> dv_number v"
proof -
  have sub: "revisions_of i org d = filter (\<lambda>v. dv_org_id v = org) (of_doc i d)"
    by (simp add: revisions_of_def of_doc_def conj_commute)
  have "distinct (map dv_number (of_doc i d)) \<and> (\<forall>v \<in> set (of_doc i d). 1 \<le> dv_number v)"
  proof (cases "of_doc i d = []")
    case False
    then obtain v where "v \<in> set (dd_revisions d)" "dv_document_id v = i" by (auto simp: of_doc_def filter_empty_conv)
    then obtain r where "r \<in> set (dd_documents d)" "do_id r = i" using revisions_invD(4) [OF assms, of v] by metis
    then have "linear (of_doc i d)" using revisions_invD(5) [OF assms, of r] by simp
    then have nums: "map dv_number (of_doc i d) = map int [1..<Suc (length (of_doc i d))]" by (simp add: linear_def)
    have "1 \<le> dv_number v" if "v \<in> set (of_doc i d)" for v
    proof -
      have "dv_number v \<in> set (map dv_number (of_doc i d))" using that by simp
      then show ?thesis unfolding nums by auto
    qed
    moreover have "distinct (map dv_number (of_doc i d))" unfolding nums by (simp add: distinct_map)
    ultimately show ?thesis by blast
  qed simp
  then show "distinct (map dv_number (revisions_of i org d))" "v \<in> set (revisions_of i org d) \<Longrightarrow> 1 \<le> dv_number v"
    unfolding sub by (simp_all add: distinct_map_filter)
qed

lemma cursor_of_number: "0 \<le> n \<Longrightarrow> cursor_number (Some (show_int n)) = Some n"
  by (auto simp: cursor_number_def show_int_def digits_val_show_nat show_nat_nonempty list_all_iff show_nat_digits)

lemma newest_revisions_after:
  assumes inv: "revisions_inv d" and "0 < n" and "n \<le> length (newest_revisions i org d c)"
  shows "newest_revisions i org d (Some (show_int (dv_number (newest_revisions i org d c ! (n - 1)))))
    = drop n (newest_revisions i org d c)"
proof -
  let ?xs = "newest_revisions i org d c"
  have "?xs ! (n - 1) \<in> set ?xs" using assms(2,3) by (intro nth_mem) simp
  moreover have "x \<in> set (revisions_of i org d) \<and> (case cursor_number c of None \<Rightarrow> True | Some m \<Rightarrow> dv_number x < m)"
    if "x \<in> set ?xs" for x
    using that by (simp add: newest_revisions_def)
  ultimately have last: "?xs ! (n - 1) \<in> set (revisions_of i org d)"
    and before: "case cursor_number c of None \<Rightarrow> True | Some m \<Rightarrow> dv_number (?xs ! (n - 1)) < m"
    by blast+
  define k where "k = dv_number (?xs ! (n - 1))"
  have "cursor_number (Some (show_int k)) = Some k"
    using revision_numbers(2) [OF inv last] by (intro cursor_of_number) (simp add: k_def)
  then have "newest_revisions i org d (Some (show_int k)) = filter (\<lambda>v. dv_number v < k) (rev (sort_key dv_number (revisions_of i org d)))"
    by (simp add: newest_revisions_def)
  moreover have "case cursor_number c of None \<Rightarrow> True | Some m \<Rightarrow> k < m" unfolding k_def by (rule before)
  then have "filter (\<lambda>v. dv_number v < k) (rev (sort_key dv_number (revisions_of i org d))) = filter (\<lambda>v. dv_number v < k) ?xs"
    unfolding newest_revisions_def filter_filter by (intro filter_cong refl) (auto split: option.splits)
  ultimately have "newest_revisions i org d (Some (show_int (dv_number (?xs ! (n - 1)))))
      = filter (\<lambda>v. dv_number v < dv_number (?xs ! (n - 1))) ?xs"
    unfolding k_def by (rule trans)
  also have "\<dots> = drop n ?xs"
  proof (rule filter_beyond_nth [where R = "\<lambda>a b. dv_number b < dv_number a"])
    show "sorted_wrt (\<lambda>a b. dv_number b < dv_number a) ?xs"
      unfolding newest_revisions_def
      by (intro sorted_wrt_filter rev_sorted_strict revision_numbers(1) [OF inv])
  qed (use assms(2,3) in auto)
  finally show ?thesis .
qed

lemma revision_page_of_eq:
  "revision_page_of q d c =
     (let n = revision_limit (snd (snd q)); rows = newest_revisions (fst q) (fst (snd q)) d c
      in (take n rows, if n < length rows then Some (show_int (dv_number (rows ! (n - 1)))) else None))"
proof -
  let ?n = "revision_limit (snd (snd q))" and ?rows = "newest_revisions (fst q) (fst (snd q)) d c"
  have "0 < ?n" by (simp add: revision_limit_def)
  then have "last (take ?n ?rows) = ?rows ! (?n - 1)" if "?n < length ?rows"
  proof -
    have "take ?n ?rows \<noteq> []" using that \<open>0 < ?n\<close> by auto
    then show ?thesis using that by (simp add: last_conv_nth min_def)
  qed
  then show ?thesis
    by (auto simp: revision_page_of_def list_doc_revisions_def Let_def min_def)
qed

interpretation revision_pages: keyset_listing revisions_inv "\<lambda>q. revision_limit (snd (snd q))"
  "\<lambda>q d c. newest_revisions (fst q) (fst (snd q)) d c" revision_page_of
proof
  fix q :: "string \<times> string \<times> int" and d c c'
  show pos: "0 < revision_limit (snd (snd q))" by (simp add: revision_limit_def)
  show "fst (revision_page_of q d c) = take (revision_limit (snd (snd q))) (newest_revisions (fst q) (fst (snd q)) d c)"
    by (simp add: revision_page_of_eq Let_def)
  {
    assume d: "revisions_inv d"
    show "snd (revision_page_of q d c) = None \<Longrightarrow>
        length (newest_revisions (fst q) (fst (snd q)) d c) \<le> revision_limit (snd (snd q))"
      by (simp add: revision_page_of_eq Let_def split: if_splits)
    assume "snd (revision_page_of q d c) = Some c'"
    then have full: "revision_limit (snd (snd q)) < length (newest_revisions (fst q) (fst (snd q)) d c)"
      and c': "c' = show_int (dv_number (newest_revisions (fst q) (fst (snd q)) d c ! (revision_limit (snd (snd q)) - 1)))"
      by (auto simp: revision_page_of_eq Let_def split: if_splits)
    then show "revision_limit (snd (snd q)) \<le> length (newest_revisions (fst q) (fst (snd q)) d c)" by simp
    show "newest_revisions (fst q) (fst (snd q)) d (Some c') = drop (revision_limit (snd (snd q))) (newest_revisions (fst q) (fst (snd q)) d c)"
      unfolding c' using full by (intro newest_revisions_after [OF d pos]) simp
  }
qed

text \<open>
  Following the textual cursors of a document's revision list from its first page returns every revision the
  organization made of it exactly once, newest first, whatever the page size asked for.
\<close>

theorem revision_pages_enumerate:
  assumes "docs_step\<^sup>*\<^sup>* empty_docs d" and "length (dd_revisions d) < n"
  shows "\<exists>vs. walk_pages (revision_page_of (doc, org, limit) d) n None = Some vs
    \<and> set vs = {v \<in> set (dd_revisions d). dv_document_id v = doc \<and> dv_org_id v = org}
    \<and> sorted_wrt (\<lambda>a b. dv_number b < dv_number a) vs"
proof -
  have inv: "revisions_inv d" by (rule docs_system.inv_reachable [OF refl assms(1)])
  let ?vs = "newest_revisions doc org d None"
  have "length ?vs div revision_limit limit \<le> length ?vs" by simp
  also have "length ?vs \<le> length (dd_revisions d)"
    by (simp add: newest_revisions_def cursor_number_def revisions_of_def)
  finally have "length ?vs div revision_limit limit < n" using assms(2) by linarith
  then have "walk_pages (revision_page_of (doc, org, limit) d) n None = Some ?vs"
    using revision_pages.walk_enumerates [OF inv, of "(doc, org, limit)" None n] by simp
  moreover have "set ?vs = {v \<in> set (dd_revisions d). dv_document_id v = doc \<and> dv_org_id v = org}"
    by (simp add: newest_revisions_def cursor_number_def revisions_of_def)
  moreover have "sorted_wrt (\<lambda>a b. dv_number b < dv_number a) ?vs"
    unfolding newest_revisions_def by (intro sorted_wrt_filter rev_sorted_strict revision_numbers(1) [OF inv])
  ultimately show ?thesis by blast
qed

theorem revision_pages_enumerate_witness:
  "\<exists>vs. walk_pages (revision_page_of (''d'', ''o'', 1) (sample_draft (sample_doc empty_docs))) 2 None = Some vs
     \<and> dv_id ` set vs = {''v1''}"
proof -
  let ?d = "sample_draft (sample_doc empty_docs)"
  have "map dv_id (dd_revisions ?d) = [''v1'']" by (simp add: sample_doc_defs Let_def)
  from arg_cong [OF this, of length] have "length (dd_revisions ?d) < 2" by simp
  from revision_pages_enumerate [OF sample_docs_steps this, of "''d''" "''o''" 1] obtain vs where
    walk: "walk_pages (revision_page_of (''d'', ''o'', 1) ?d) 2 None = Some vs"
    and vs: "set vs = {v \<in> set (dd_revisions ?d). dv_document_id v = ''d'' \<and> dv_org_id v = ''o''}" by blast
  have "map dv_id (filter (\<lambda>v. dv_document_id v = ''d'' \<and> dv_org_id v = ''o'') (dd_revisions ?d)) = [''v1'']"
    by (simp add: sample_doc_defs Let_def)
  from arg_cong [OF this, of set] have "dv_id ` set vs = {''v1''}"
    unfolding set_map set_filter list.set vs .
  with walk show ?thesis by (intro exI [of _ vs] conjI)
qed

section \<open>One organization, one path\<close>

text \<open>
  Two repositories of one organization share their paths: saving a document of a second repository under a
  path the first already has, which the lookup by repository does not find, overwrites the first repository's
  content and leaves no document of the second; a lookup there still finds nothing.
\<close>

theorem upsert_crosses_repositories:
  assumes "get_by_org_and_path org path t = Some r" and "do_repository r = Some first_repository"
    and "\<forall>x \<in> set t. \<not> at_path (up_repository u) path x" and "up_org_id u = Some org" and "up_path u = path"
    and "upsert_document i now u t = (res, t')"
  shows "\<exists>saved. res = Inr saved \<and> saved \<in> set t' \<and> do_id saved = do_id r \<and> do_repository saved = Some first_repository
    \<and> do_content saved = up_content u \<and> get_document (up_repository u) path t' = None"
proof -
  have none: "find (at_path (up_repository u) path) t = None" using assms(3) by (simp add: find_None_iff)
  have some: "find (owned_path org path) t = Some r" using assms(1) by (simp add: get_by_org_and_path_def)
  then have r: "r \<in> set t" "owned_path org path r" by (auto simp: find_Some_iff)
  let ?s = "overwrite now u r"
  have res: "res = Inr ?s" "t' = upd_where (owned_path org path) (overwrite now u) t"
    using assms(6) none some by (simp_all add: upsert_document_def assms(4,5))
  have "?s \<in> set t'" using r unfolding res(2) by (force simp: upd_where_def)
  moreover have "get_document (up_repository u) path t' = None"
    unfolding get_document_def find_None_iff res(2) upd_where_def
    using assms(3) by (auto simp: at_path_def overwrite_def)
  ultimately show ?thesis using assms(2) by (simp add: res(1) overwrite_def)
qed

definition sample_upsert :: "string option \<Rightarrow> string \<Rightarrow> string \<Rightarrow> upsert" where
  "sample_upsert org repository content =
     \<lparr>up_org_id = org, up_repository = repository, up_path = ''README.md'', up_content = content, up_metadata = JNull,
      up_title = None, up_document_type = None, up_status = None, up_commit_sha = None, up_source_hash = None,
      up_last_committed_at = None\<rparr>"

theorem upsert_crosses_repositories_witness:
  "\<exists>saved. fst (upsert_document ''e'' 2 (sample_upsert (Some ''o'') ''web'' ''web docs'')
       [new_document ''d'' 1 ''o'' (sample_upsert (Some ''o'') ''api'' ''api docs'')]) = Inr saved
     \<and> do_repository saved = Some ''api'' \<and> do_content saved = ''web docs''"
proof -
  let ?r = "new_document ''d'' 1 ''o'' (sample_upsert (Some ''o'') ''api'' ''api docs'')"
  let ?u = "sample_upsert (Some ''o'') ''web'' ''web docs''"
  have "get_by_org_and_path ''o'' ''README.md'' [?r] = Some ?r" "do_repository ?r = Some ''api''"
    "\<forall>x \<in> set [?r]. \<not> at_path (up_repository ?u) ''README.md'' x" "up_org_id ?u = Some ''o''" "up_path ?u = ''README.md''"
    by (simp_all add: get_by_org_and_path_def owned_path_def new_document_def sample_upsert_def at_path_def)
  from upsert_crosses_repositories [OF this prod.collapse [symmetric], of "''e''" 2]
  show ?thesis by (auto simp: sample_upsert_def)
qed

text \<open>
  A document saved under a repository and path that some row already has is written into that row, whichever
  organization owns it: the caller's organization gets no row of its own, and the row keeps its owner.
\<close>

theorem upsert_crosses_organizations:
  assumes "get_document (up_repository u) (up_path u) t = Some r" and "do_org_id r = Some owner"
    and "up_org_id u = Some org" and "org \<noteq> owner" and "get_by_org_and_path org (up_path u) t = None"
    and "distinct (map do_id t)" and "upsert_document i now u t = (res, t')"
  shows "\<exists>saved. res = Inr saved \<and> saved \<in> set t' \<and> do_org_id saved = Some owner \<and> do_content saved = up_content u
    \<and> get_by_org_and_path org (up_path u) t' = None"
proof -
  have some: "find (at_path (up_repository u) (up_path u)) t = Some r" using assms(1) by (simp add: get_document_def)
  then have r: "r \<in> set t" by (auto simp: find_Some_iff)
  let ?s = "overwrite now u r"
  have res: "res = Inr ?s" "t' = upd_where (\<lambda>x. do_id x = do_id r) (overwrite now u) t"
    using assms(7) some by (simp_all add: upsert_document_def)
  have only: "x = r" if "x \<in> set t" "do_id x = do_id r" for x
    using assms(6) that r by (auto simp: distinct_map dest: inj_onD)
  have "?s \<in> set t'" using r unfolding res(2) by (force simp: upd_where_def)
  moreover have "get_by_org_and_path org (up_path u) t' = None"
    using assms(5) only assms(2,4)
    unfolding get_by_org_and_path_def find_None_iff res(2) upd_where_def
    by (auto simp: owned_path_def overwrite_def)
  ultimately show ?thesis using assms(2) by (simp add: res(1) overwrite_def)
qed

theorem upsert_crosses_organizations_witness:
  "\<exists>saved. fst (upsert_document ''e'' 2 (sample_upsert (Some ''mine'') ''api'' ''my docs'')
       [new_document ''d'' 1 ''theirs'' (sample_upsert (Some ''theirs'') ''api'' ''their docs'')]) = Inr saved
     \<and> do_org_id saved = Some ''theirs'' \<and> do_content saved = ''my docs''"
proof -
  let ?r = "new_document ''d'' 1 ''theirs'' (sample_upsert (Some ''theirs'') ''api'' ''their docs'')"
  let ?u = "sample_upsert (Some ''mine'') ''api'' ''my docs''"
  have "get_document (up_repository ?u) (up_path ?u) [?r] = Some ?r" "do_org_id ?r = Some ''theirs''"
    "up_org_id ?u = Some ''mine''" "''mine'' \<noteq> ''theirs''" "get_by_org_and_path ''mine'' (up_path ?u) [?r] = None"
    "distinct (map do_id [?r])"
    by (simp_all add: get_by_org_and_path_def owned_path_def new_document_def sample_upsert_def at_path_def get_document_def)
  from upsert_crosses_organizations [OF this prod.collapse [symmetric], of "''e''" 2]
  show ?thesis by (auto simp: sample_upsert_def)
qed

end
