(* ===== verification/Run_Outcome.thy ===== *)
theory Run_Outcome
  imports Event_Stream
begin

text \<open>
  What a run came to: the parts of \<^verbatim>\<open>workflows/runner.py\<close> that read a graph result (delivery receipt, failed
  nodes, node payloads, the timeout message, the status that counts) and the routing of an event to a graph
  (\<^verbatim>\<open>events/dispatcher.py\<close>). \<^verbatim>\<open>str\<close> of a compound value and the JSON parser are parameters.
\<close>

section \<open>Routing\<close>

definition SURFACE_BY_PREFIX :: "(string \<times> string) list" where
  "SURFACE_BY_PREFIX =
     [(''pull_request'', ''pull_request''), (''release'', ''pull_request''), (''push'', ''pull_request''),
      (''issues'', ''issue''), (''slack'', ''support''), (''discord'', ''support''), (''content'', ''content'')]"

text \<open>\<^verbatim>\<open>x or y\<close>, \<^verbatim>\<open>x or {}\<close> followed by \<^verbatim>\<open>get\<close>.\<close>

definition dict_or_empty :: "json \<Rightarrow> jobj res" where
  "dict_or_empty v =
     (if \<not> py_truth v then Inr [] else case v of JObj d \<Rightarrow> Inr d | _ \<Rightarrow> Inl (AttributeError ''get''))"

definition route_event :: "json_lib \<Rightarrow> jobj \<Rightarrow> string option res" where
  "route_event lib event =
     (let by_type = (let event_type = text_at lib event ''event_type'' in
            case map_of SURFACE_BY_PREFIX (event_prefix event_type) of
              Some s \<Rightarrow> Some s | None \<Rightarrow> surface_for_event event_type)
      in if py_truth (jget event ''content_relevant'') then Inr (Some ''content'')
         else bind_res (dict_or_empty (or_json (jget event ''release'') (jget event ''pull_request''))) (\<lambda>body.
           Inr (if py_truth (jget body ''content_relevant'') then Some ''content'' else by_type)))"

definition workflow_key_for :: "json_lib \<Rightarrow> jobj \<Rightarrow> string \<Rightarrow> string" where
  "workflow_key_for lib event surface =
     (let workflow_key = str_or (jl_render lib) (jget event ''workflow_key'') [];
          event_type = str_or (jl_render lib) (jget event ''event_type'') []
      in if workflow_key \<noteq> [] then workflow_key
         else if starts_with ''release'' event_type then ''github_release''
         else if starts_with ''issues'' event_type then ''github_issue''
         else if starts_with ''pull_request'' event_type then ''github_pr''
         else surface)"

section \<open>Node timeouts\<close>

text \<open>The message of a node timeout, matched at the start of a text and searched for in a text.\<close>

definition timeout_at :: "string \<Rightarrow> string option" where
  "timeout_at s =
     (let head = ''Node '' @ [CHR 0x27]; tail = CHR 0x27 # '' execution timed out after '' in
      if \<not> starts_with head s then None
      else let r = drop (length head) s; name = takeWhile (\<lambda>c. c \<noteq> CHR 0x27) r; t = drop (length name) r in
        if name = [] \<or> \<not> starts_with tail t then None
        else let u = drop (length tail) t; ds = takeWhile is_digit u in
          if ds \<noteq> [] \<and> starts_with ''s'' (drop (length ds) u) then Some name else None)"

fun node_timeout_id :: "string \<Rightarrow> string option" where
  "node_timeout_id [] = None"
| "node_timeout_id (c # cs) = (case timeout_at (c # cs) of Some name \<Rightarrow> Some name | None \<Rightarrow> node_timeout_id cs)"

section \<open>Receipts\<close>

definition structured_dict :: "agent_output \<Rightarrow> jobj option" where
  "structured_dict out = (case ao_structured out of Some (Model d) \<Rightarrow> Some d | _ \<Rightarrow> None)"

fun first_receipt :: "node_entry list \<Rightarrow> jobj option" where
  "first_receipt [] = None"
| "first_receipt (n # ns) =
     (if ne_node_id n \<noteq> ''deliver'' then first_receipt ns
      else case structured_dict (ne_own n) of Some d \<Rightarrow> Some d | None \<Rightarrow> first_receipt ns)"

definition delivery_receipt :: "graph_result \<Rightarrow> jobj option" where
  "delivery_receipt r = first_receipt (gr_order r)"

definition is_blocked_delivery :: "json_lib \<Rightarrow> jobj option \<Rightarrow> bool" where
  "is_blocked_delivery lib receipt =
     (case receipt of
        None \<Rightarrow> False
      | Some d \<Rightarrow> d \<noteq> [] \<and> lower (str_or (jl_render lib) (jget d ''status'') []) = ''blocked'')"

definition is_empty_delivery :: "json_lib \<Rightarrow> jobj option \<Rightarrow> bool" where
  "is_empty_delivery lib receipt =
     (case receipt of
        None \<Rightarrow> False
      | Some d \<Rightarrow>
          let surface = lower (str_or (jl_render lib) (jget d ''surface'') []) in
          if d = [] then False
          else if surface \<noteq> [] \<and> surface \<noteq> ''github'' then False
          else if lower (str_or (jl_render lib) (jget d ''status'') ''completed'') \<noteq> ''completed'' then False
          else strip (str_or (jl_render lib) (jget d ''reference'') []) = [])"

section \<open>Failed nodes and payloads\<close>

definition failed_node_ids :: "graph_result \<Rightarrow> string list" where
  "failed_node_ids r =
     (let from_order = map ne_node_id (filter ne_failed (gr_order r)) in
      if from_order \<noteq> [] then sort from_order
      else case gr_failed r of Failed_Count _ \<Rightarrow> [] | Failed_Ids ids \<Rightarrow> sort ids)"

text \<open>Where a node's payload is: in the entry of a nested graph, in what the node wraps, or in its own result.\<close>

definition payload_source :: "string \<Rightarrow> node_entry \<Rightarrow> agent_output" where
  "payload_source node_id n =
     (case ne_wrapped n of
        Wraps_Nothing \<Rightarrow> ne_own n
      | Wraps_Agent out \<Rightarrow> out
      | Wraps_Graph rs out \<Rightarrow> (case map_of rs node_id of Some inner \<Rightarrow> inner | None \<Rightarrow> out))"

fun first_json_object :: "json_lib \<Rightarrow> json list \<Rightarrow> jobj option" where
  "first_json_object lib [] = None"
| "first_json_object lib (b # bs) =
     (case b of
        JObj d \<Rightarrow>
          (case map_of d ''text'' of
             Some (JStr t) \<Rightarrow> (case jl_loads lib t of Some (JObj v) \<Rightarrow> Some v | _ \<Rightarrow> first_json_object lib bs)
           | _ \<Rightarrow> first_json_object lib bs)
      | _ \<Rightarrow> first_json_object lib bs)"

fun payload_in :: "json_lib \<Rightarrow> string \<Rightarrow> node_entry list \<Rightarrow> jobj" where
  "payload_in lib node_id [] = []"
| "payload_in lib node_id (n # ns) =
     (if ne_node_id n \<noteq> node_id then payload_in lib node_id ns
      else case structured_dict (payload_source node_id n) of
             Some d \<Rightarrow> d
           | None \<Rightarrow> (case first_json_object lib (ao_content (payload_source node_id n)) of
                        Some d \<Rightarrow> d | None \<Rightarrow> payload_in lib node_id ns))"

definition node_payload_of :: "json_lib \<Rightarrow> graph_result \<Rightarrow> string \<Rightarrow> jobj" where
  "node_payload_of lib r node_id = payload_in lib node_id (gr_order r)"

definition safe_display_result :: "jobj option \<Rightarrow> jobj option" where
  "safe_display_result v =
     (case v of
        None \<Rightarrow> None
      | Some d \<Rightarrow> if d = [] then None
                 else Some (List.map_filter (\<lambda>k. map_option (Pair k) (map_of d k)) [''status'', ''evaluation'', ''failed_nodes'', ''error'']))"

section \<open>The status that counts\<close>

text \<open>Interrupts outweigh a failure, and so does a receipt that is neither blocked nor empty.\<close>

definition effective_status :: "json_lib \<Rightarrow> graph_result \<Rightarrow> string" where
  "effective_status lib r =
     (if gr_status r = ''FAILED'' \<and> gr_interrupts r \<noteq> [] then ''INTERRUPTED''
      else if gr_status r = ''FAILED'' \<and> delivery_receipt r \<noteq> None
           \<and> \<not> is_blocked_delivery lib (delivery_receipt r) \<and> \<not> is_empty_delivery lib (delivery_receipt r)
      then ''COMPLETED'' else gr_status r)"

definition refused :: "json_lib \<Rightarrow> graph_result \<Rightarrow> bool" where
  "refused lib r \<longleftrightarrow> is_blocked_delivery lib (delivery_receipt r) \<or> is_empty_delivery lib (delivery_receipt r)"

text \<open>The result made up for a node that ran out of time, and for a stream that was stopped.\<close>

definition timed_out :: "string \<Rightarrow> graph_result" where
  "timed_out node_id = \<lparr>gr_status = ''FAILED'', gr_interrupts = [], gr_order = [], gr_failed = Failed_Ids [node_id], gr_usage = None\<rparr>"

definition force_stopped :: graph_result where
  "force_stopped = \<lparr>gr_status = ''FAILED'', gr_interrupts = [], gr_order = [], gr_failed = Failed_Count 0, gr_usage = None\<rparr>"

section \<open>Pull request numbers\<close>

fun after_last :: "string \<Rightarrow> string \<Rightarrow> string option" where
  "after_last p [] = (if p = [] then Some [] else None)"
| "after_last p (x # xs) =
     (case after_last p xs of
        Some r \<Rightarrow> Some r
      | None \<Rightarrow> if starts_with p (x # xs) then Some (drop (length p) (x # xs)) else None)"

text \<open>\<^verbatim>\<open>int\<close> of a text: white space around, a sign, digits in groups joined by single underscores.\<close>

definition int_of_text :: "string \<Rightarrow> int option" where
  "int_of_text s =
     (let t = strip s;
          (negative, body) = (case t of [] \<Rightarrow> (False, [])
             | c # cs \<Rightarrow> if c = CHR ''-'' then (True, cs) else if c = CHR ''+'' then (False, cs) else (False, c # cs));
          groups = split_on CHR ''_'' body
      in if list_all (\<lambda>g. g \<noteq> [] \<and> list_all is_digit g) groups
         then Some ((if negative then -1 else 1) * int (digits_val (concat groups))) else None)"

definition pull_number :: "string \<Rightarrow> int option" where
  "pull_number reference =
     (case after_last ''/pull/'' reference of
        Some rest \<Rightarrow> int_of_text (hd (split_on CHR ''/'' rest))
      | None \<Rightarrow> if reference \<noteq> [] \<and> list_all is_digit reference then Some (int (digits_val reference)) else None)"

section \<open>Reading back\<close>

lemma takeWhile_stop: "\<forall>x \<in> set xs. p x \<Longrightarrow> \<not> p y \<Longrightarrow> takeWhile p (xs @ y # ys) = xs"
  by (induction xs) auto

lemma timeout_message:
  assumes "name \<noteq> []" and "CHR 0x27 \<notin> set name"
  shows "timeout_at (''Node '' @ quoted name @ '' execution timed out after '' @ show_nat k @ CHR ''s'' # rest) = Some name"
proof -
  have name: "takeWhile (\<lambda>c. c \<noteq> CHR 0x27) (name @ CHR 0x27 # u) = name" for u
    using assms(2) by (intro takeWhile_stop) auto
  have "\<not> is_digit (CHR ''s'')" by (simp add: is_digit_def)
  then have digits: "takeWhile is_digit (show_nat k @ CHR ''s'' # rest) = show_nat k"
    using show_nat_digits [of _ k] by (intro takeWhile_stop) auto
  show ?thesis
    using assms(1) by (simp add: timeout_at_def quoted_def name digits Let_def show_nat_nonempty)
qed

text \<open>
  The node a graph timed out in is recovered from the exception text: for every node name without a quote
  and every number of seconds, the message in the form the graph library prints it gives back that name.
\<close>

theorem timeout_node_recovered:
  assumes "name \<noteq> []" and "CHR 0x27 \<notin> set name"
  shows "node_timeout_id (''Node '' @ quoted name @ '' execution timed out after '' @ show_nat k @ ''s'') = Some name"
proof -
  have "''Node '' @ quoted name @ '' execution timed out after '' @ show_nat k @ ''s''
      = CHR ''N'' # (''ode '' @ quoted name @ '' execution timed out after '' @ show_nat k @ ''s'')" by simp
  then show ?thesis using timeout_message [OF assms, of k "[]"] by simp
qed

theorem timeout_node_recovered_witness:
  "node_timeout_id (''Node '' @ quoted ''document'' @ '' execution timed out after '' @ show_nat 900 @ ''s'') = Some ''document''"
  by (rule timeout_node_recovered) (simp, code_simp)

text \<open>A pull request reference gives back its number.\<close>

lemma after_last_free:
  assumes "CHR ''/'' \<notin> set s"
  shows "after_last ''/pull/'' s = None"
  using assms by (induction s) auto

lemma after_last_pull:
  assumes "CHR ''/'' \<notin> set s"
  shows "after_last ''/pull/'' (u @ ''/pull/'' @ s) = Some s"
proof (induction u)
  case Nil
  have "after_last ''/pull/'' s = None" by (rule after_last_free [OF assms])
  moreover have "\<not> starts_with ''pull/'' s" using assms by (auto simp: starts_with_iff)
  ultimately show ?case by simp
qed simp

lemma int_of_show_nat: "int_of_text (show_nat n) = Some (int n)"
proof -
  let ?s = "show_nat n"
  have digits: "\<forall>c \<in> set ?s. is_digit c" using show_nat_digits by blast
  have char: "\<not> is_space c \<and> c \<noteq> CHR ''-'' \<and> c \<noteq> CHR ''+'' \<and> c \<noteq> CHR ''_''" if "is_digit c" for c
    using that by (auto simp: is_digit_def is_space_def)
  have "dropWhile is_space xs = xs" if "\<forall>c \<in> set xs. is_digit c" for xs
    using that char by (cases xs) auto
  then have strip: "strip ?s = ?s" using digits by (simp add: strip_def)
  have "CHR ''_'' \<notin> set ?s" using digits char by blast
  then have split: "split_on CHR ''_'' ?s = [?s]" by (rule split_on_segment)
  obtain c cs where s: "?s = c # cs" using show_nat_nonempty [of n] by (cases ?s) auto
  have "c \<noteq> CHR ''-''" "c \<noteq> CHR ''+''" using digits char s by auto
  then show ?thesis
    using digits split unfolding int_of_text_def strip
    by (simp add: s list_all_iff) (simp add: s [symmetric] digits_val_show_nat)
qed

theorem pull_number_roundtrip:
  "pull_number (''https://github.com/'' @ repository @ ''/pull/'' @ show_nat n) = Some (int n)"
proof -
  have free: "CHR ''/'' \<notin> set (show_nat n)"
    using show_nat_digits [of "CHR ''/''" n] by (auto simp: is_digit_def)
  have "after_last ''/pull/'' ((''https://github.com/'' @ repository) @ ''/pull/'' @ show_nat n) = Some (show_nat n)"
    by (rule after_last_pull [OF free])
  then show ?thesis by (simp add: pull_number_def split_on_segment [OF free] int_of_show_nat)
qed

end
