(* ===== verification/Workflow_Runner.thy ===== *)
theory Workflow_Runner
  imports Run_Outcome Run_Tables Review_Inbox Document_Store Steering_Handler
begin

text \<open>
  The workflow runner, \<^verbatim>\<open>workflows/runner.py\<close>: claiming an event, starting its run, building and invoking the
  graph, and settling what it came to in the tables of events, jobs, runs, reviews, interventions, documents
  and receipts. The graph is the environment's: what its construction raises, the events it streams, how it
  ends and what it leaves in the draft, intervention and job tables are arguments. A repository is absent,
  failing or working for the length of one call. Metrics, routing telemetry, the audit flush, post-run memory
  and the closing of support threads are left out; none of them can fail a run or is read by the runner.
\<close>

section \<open>World and environment\<close>

record pull_row =
  pl_repository_id :: string
  pl_owner :: string
  pl_name :: string
  pl_number :: int
  pl_url :: "string option"
  pl_title :: string
  pl_org_id :: "string option"
  pl_run_id :: string

record gate_verdict =
  er_org_id :: string
  er_run_id :: string
  er_score :: real
  er_passed :: bool
  er_status :: string
  er_reasons :: "string list"
  er_failures :: "string list"

record world =
  ww_events :: events
  ww_jobs :: jobs
  ww_github :: github_rows
  ww_stream :: stream_state
  ww_definitions :: definitions
  ww_reviews :: reviews
  ww_inbox :: inbox
  ww_outcomes :: outcomes
  ww_support :: support_tables
  ww_pulls :: "pull_row list"
  ww_documents :: documents
  ww_evaluations :: "gate_verdict list"
  ww_db :: db
  ww_broadcasts :: "(string \<times> string \<times> string) list"
  ww_notified :: "string list"
  ww_invoked :: "string list"

datatype part =
    Claims | Lookups | Marks | Jobs | Github | Runs | Definitions | Reviews | Interventions | Drafts | Documents
  | Deliveries | Supports | Platforms | Outcomes | Evaluations | Broadcaster | Notifier | Event_Log | Event_Bus

datatype health = Absent | Failing | Working

text \<open>A call of the graph: a fresh task, or the answer to an interrupt.\<close>

record graph_call =
  gc_run_id :: string
  gc_surface :: string
  gc_input :: json
  gc_state :: jobj

record graph_reply =
  gy_events :: "raw_event list"
  gy_raised :: "exn option"
  gy_result :: graph_result
  gy_db :: db
  gy_inbox :: inbox
  gy_jobs :: jobs

text \<open>The persisted session of a graph: none is kept, or its state, if it can be read.\<close>

datatype session = No_Manager | Session (is_new: bool) (stored: "jobj option")

record env =
  xe_now :: int
  xe_uuid :: string
  xe_row_id :: "nat \<Rightarrow> string"
  xe_part :: "part \<Rightarrow> health"
  xe_streaming :: bool
  xe_lib :: json_lib
  xe_stream_lib :: stream_lib
  xe_review_lib :: review_lib
  xe_round :: "real \<Rightarrow> real"
  xe_policy :: string
  xe_repo_dir :: "jobj \<Rightarrow> string option"
  xe_build :: "string \<Rightarrow> string \<Rightarrow> world \<Rightarrow> exn option"
  xe_graph :: "graph_call \<Rightarrow> world \<Rightarrow> graph_reply"
  xe_session :: session
  xe_node :: "node option"

abbreviation working :: "env \<Rightarrow> part \<Rightarrow> bool" where "working e p \<equiv> xe_part e p = Working"
abbreviation down :: "env \<Rightarrow> part \<Rightarrow> bool" where "down e p \<equiv> xe_part e p \<noteq> Working"
abbreviation text_of :: "env \<Rightarrow> json \<Rightarrow> string" where "text_of e \<equiv> py_str (jl_render (xe_lib e))"
abbreviation text_or :: "env \<Rightarrow> jobj \<Rightarrow> string \<Rightarrow> string \<Rightarrow> string" where
  "text_or e d k dflt \<equiv> str_or (jl_render (xe_lib e)) (jget d k) dflt"

definition nonempty :: "string \<Rightarrow> string option" where
  "nonempty s = (if s = [] then None else Some s)"

definition OutOfService :: exn where "OutOfService = Exn ''ConnectionError'' ''store unavailable''"

text \<open>Sequencing of calls that may raise.\<close>

definition and_then_do :: "'a res \<times> world \<Rightarrow> ('a \<Rightarrow> world \<Rightarrow> 'b res \<times> world) \<Rightarrow> 'b res \<times> world" where
  "and_then_do r f = (case r of (Inl e, w) \<Rightarrow> (Inl e, w) | (Inr x, w) \<Rightarrow> f x w)"

lemma and_then_do_simps [simp]: "and_then_do (Inl e, w) f = (Inl e, w)" "and_then_do (Inr x, w) f = f x w"
  by (simp_all add: and_then_do_def)

lemma and_then_doD:
  "and_then_do p f = (Inr y, w') \<Longrightarrow> \<exists>x w1. p = (Inr x, w1) \<and> f x w1 = (Inr y, w')"
  by (auto simp: and_then_do_def split: prod.splits sum.splits)

section \<open>The state of a run\<close>

datatype workflow_status =
  Run_Pending | Run_Running | Run_Duplicate | Run_Pending_Review | Run_Pending_Intervention | Run_Delivered | Run_Failed | Run_Skipped

definition status_value :: "workflow_status \<Rightarrow> string" where
  "status_value st =
     (case st of
        Run_Pending \<Rightarrow> ''pending'' | Run_Running \<Rightarrow> ''running'' | Run_Duplicate \<Rightarrow> ''duplicate''
      | Run_Pending_Review \<Rightarrow> ''pending_review'' | Run_Pending_Intervention \<Rightarrow> ''pending_intervention''
      | Run_Delivered \<Rightarrow> ''delivered'' | Run_Failed \<Rightarrow> ''failed'' | Run_Skipped \<Rightarrow> ''skipped'')"

datatype run_value = No_Value | Graph_Value graph_result | Receipt_Value support_row

record wf_state =
  ws_run_id :: string
  ws_status :: workflow_status
  ws_surface :: "string option"
  ws_value :: run_value
  ws_errors :: "string list"
  ws_interrupts :: "(string \<times> json) list"

definition fresh_state :: "string \<Rightarrow> wf_state" where
  "fresh_state run_id =
     \<lparr>ws_run_id = run_id, ws_status = Run_Pending, ws_surface = None, ws_value = No_Value, ws_errors = [], ws_interrupts = []\<rparr>"

section \<open>Persistence helpers\<close>

definition org_of :: "env \<Rightarrow> jobj \<Rightarrow> string" where
  "org_of e event = text_or e event ''project_id'' []"

definition claim_event :: "env \<Rightarrow> jobj \<Rightarrow> string \<Rightarrow> world \<Rightarrow> bool res \<times> world" where
  "claim_event e event run_id w =
     (case xe_part e Claims of
        Absent \<Rightarrow> (Inr True, w)
      | Failing \<Rightarrow> (Inl OutOfService, w)
      | Working \<Rightarrow>
          (case bind_res (text_param (jget event ''repository'')) (\<lambda>repository.
                 bind_res (text_param (jget event ''actor'')) (\<lambda>actor.
                 bind_res (text_param (jget event ''project_id'')) (\<lambda>org.
                   Inr \<lparr>ec_source = text_or e event ''source'' ''github'', ec_event_type = text_or e event ''event_type'' ''unknown'',
                        ec_repository = repository, ec_actor = actor, ec_payload = JObj event, ec_org_id = org\<rparr>))) of
             Inl x \<Rightarrow> (Inl x, w)
           | Inr c \<Rightarrow> (let (won, t) = try_claim (xe_now e) run_id c (ww_events w) in (Inr won, w\<lparr>ww_events := t\<rparr>))))"

definition existing_event :: "env \<Rightarrow> json \<Rightarrow> world \<Rightarrow> string option res" where
  "existing_event e event_id w =
     (if \<not> py_truth event_id then Inr None
      else case xe_part e Lookups of
             Absent \<Rightarrow> Inr None
           | Failing \<Rightarrow> Inl OutOfService
           | Working \<Rightarrow>
               (case event_id of
                  JStr i \<Rightarrow> Inr (map_option ev_status (find_by_event_id i (ww_events w)))
                | _ \<Rightarrow> Inl (DataError ''invalid input for query argument'')))"

definition existing_support_delivery :: "env \<Rightarrow> jobj \<Rightarrow> world \<Rightarrow> support_row option" where
  "existing_support_delivery e event w =
     (let source = text_or e event ''source'' []; org = org_of e event;
          message = text_or e event ''source_message_id'' [] in
      if source \<notin> {''slack'', ''discord''} \<or> \<not> py_truth (jget event ''source_message_id'') then None
      else case xe_part e Supports of
             Working \<Rightarrow> receipt_by_source org source message (ww_support w)
           | Failing \<Rightarrow> None
           | Absent \<Rightarrow> if working e Platforms then receipt_by_source org source message (ww_support w) else None)"

text \<open>The default workflow of an organization; a key that is no workflow key is refused, and the refusal swallowed.\<close>

definition WORKFLOW_KEYS :: "string list" where
  "WORKFLOW_KEYS =
     [''github_pr'', ''github_release'', ''github_issue'', ''github_feedback'', ''slack_support'', ''discord_support'',
      ''documentation_sync'', ''documentation_audit'', ''feedback_loop'', ''content_generation'', ''evaluation_loop'',
      ''onboarding_initialize'', ''memory_curation'', ''memory_maintenance'', ''stale_run_reconcile'']"

definition replace_char :: "char \<Rightarrow> char \<Rightarrow> string \<Rightarrow> string" where
  "replace_char a b s = map (\<lambda>c. if c = a then b else c) s"

definition to_upper :: "char \<Rightarrow> char" where
  "to_upper c = (if (97 :: nat) \<le> of_char c \<and> of_char c \<le> (122 :: nat) then char_of ((of_char c :: nat) - 32) else c)"

definition is_letter :: "char \<Rightarrow> bool" where
  "is_letter c \<longleftrightarrow> to_lower c \<noteq> c \<or> to_upper c \<noteq> c"

fun title_from :: "bool \<Rightarrow> string \<Rightarrow> string" where
  "title_from inside [] = []"
| "title_from inside (c # cs) = (if inside then to_lower c else to_upper c) # title_from (is_letter c) cs"

definition default_definition :: "env \<Rightarrow> jobj \<Rightarrow> string \<Rightarrow> jobj option" where
  "default_definition e event key =
     (if key \<notin> set WORKFLOW_KEYS then None
      else Some ([(''name'', JStr (''Default '' @ title_from False (replace_char CHR ''_'' CHR '' '' key))),
            (''slug'', JStr (''default-'' @ replace_char CHR ''_'' CHR ''-'' key)), (''workflow_key'', JStr key),
            (''description'', JNull), (''status'', JStr ''active''),
            (''trigger_config'', JObj [(''source'', JStr (text_or e event ''source'' ''webhook''))])]
           @ map (\<lambda>k. (k, JObj [])) (tl JSON_FIELDS)))"

definition active_definition :: "env \<Rightarrow> string \<Rightarrow> string \<Rightarrow> world \<Rightarrow> definition_row option res" where
  "active_definition e org key w =
     (if xe_part e Definitions = Failing then Inl OutOfService else Inr (find_active_by_key org key (ww_definitions w)))"

definition definition_for :: "env \<Rightarrow> jobj \<Rightarrow> string \<Rightarrow> string \<Rightarrow> world \<Rightarrow> definition_row option res \<times> world" where
  "definition_for e event org key w =
     (let requested = jget event ''workflow_definition_id'';
          asked = (if \<not> py_truth requested then Inr None
                   else if xe_part e Definitions = Failing then Inl OutOfService
                   else Inr (get_definition org (text_of e requested) (ww_definitions w)));
          found = bind_res asked (\<lambda>x. case x of Some r \<Rightarrow> Inr (Some r) | None \<Rightarrow> active_definition e org key w)
      in if xe_part e Definitions = Absent then (Inr None, w)
         else case found of
           Inl x \<Rightarrow> (Inl x, w)
         | Inr (Some r) \<Rightarrow> (Inr (Some r), w)
         | Inr None \<Rightarrow>
             (case default_definition e event key of
                None \<Rightarrow> (active_definition e org key w, w)
              | Some data \<Rightarrow>
                  (case create_definition (xe_row_id e 0) (xe_now e) org None data (ww_definitions w) of
                     (Inr r, t) \<Rightarrow> (Inr (Some r), w\<lparr>ww_definitions := t\<rparr>)
                   | (Inl _, t) \<Rightarrow> (active_definition e org key w, w))))"

definition with_runs :: "runs \<Rightarrow> world \<Rightarrow> world" where
  "with_runs t w = w\<lparr>ww_stream := (ww_stream w)\<lparr>st_runs := t\<rparr>\<rparr>"

definition run_request_of :: "env \<Rightarrow> jobj \<Rightarrow> string \<Rightarrow> definition_row option \<Rightarrow> jobj \<Rightarrow> run_request" where
  "run_request_of e event run_id d pr =
     \<lparr>rq_run_id = run_id, rq_definition_id = map_option wd_id d, rq_source = text_or e event ''source'' ''github'',
      rq_source_event_id = Some (str_or (jl_render (xe_lib e)) (jget event ''event_id'') run_id),
      rq_title = nonempty (str_or (jl_render (xe_lib e)) (or_json (jget event ''title'') (jget pr ''title'')) []),
      rq_event_type = Some (text_or e event ''event_type'' ''unknown''),
      rq_repository = nonempty (text_or e event ''repository'' []), rq_actor = nonempty (text_or e event ''actor'' []),
      rq_target = JObj (filter (\<lambda>kv. snd kv \<noteq> JNull) (map (\<lambda>k. (k, jget pr k)) [''number'', ''html_url'', ''base'', ''head''])),
      rq_input = JNull\<rparr>"

definition ensure_canonical_run :: "env \<Rightarrow> jobj \<Rightarrow> string \<Rightarrow> string \<Rightarrow> world \<Rightarrow> unit res \<times> world" where
  "ensure_canonical_run e event run_id surface w =
     (let org = org_of e event in
      if xe_part e Runs = Absent \<or> org = [] then (Inr (), w)
      else and_then_do (definition_for e event org (workflow_key_for (xe_lib e) event surface) w) (\<lambda>d w.
        case dict_or_empty (jget event ''pull_request'') of
          Inl x \<Rightarrow> (Inl x, w)
        | Inr pr \<Rightarrow>
            if xe_part e Runs = Failing then (Inl OutOfService, w)
            else case start_or_get_idempotent (xe_now e) org (run_request_of e event run_id d pr) (st_runs (ww_stream w)) of
                   (Inl x, t) \<Rightarrow> (Inl x, w)
                 | (Inr r, t) \<Rightarrow> (Inr (), with_runs t w)))"

text \<open>The three rows of a run; each write may fail on its own, and none of the failures is raised.\<close>

definition persist_lifecycle :: "env \<Rightarrow> jobj \<Rightarrow> string \<Rightarrow> string \<Rightarrow> string option \<Rightarrow> jobj option \<Rightarrow> world \<Rightarrow> world" where
  "persist_lifecycle e event status run_id error v w =
     (let w1 = (if down e Jobs then w
                else w\<lparr>ww_jobs := snd (update_job_status (xe_now e) run_id status error (map_option JObj v) (ww_jobs w))\<rparr>);
          w2 = (if down e Github then w1
                else w1\<lparr>ww_github := update_github_workflow_status (xe_now e) run_id status (ww_github w1)\<rparr>)
      in if down e Runs then w2
         else with_runs (snd (update_run_state (xe_now e) (org_of e event) run_id
                \<lparr>su_status = status, su_current_stage = None, su_stage_states = None, su_error = error,
                 su_output = map_option JObj (safe_display_result v)\<rparr> (st_runs (ww_stream w2)))) w2)"

text \<open>The event is marked under the text of its id, which is the word None for an event without one.\<close>

definition mark_event :: "env \<Rightarrow> jobj \<Rightarrow> string \<Rightarrow> world \<Rightarrow> world" where
  "mark_event e event status w =
     (if down e Marks then w
      else w\<lparr>ww_events := mark_status (xe_now e) (text_of e (jget event ''event_id'')) status (ww_events w)\<rparr>)"

definition broadcast_lifecycle :: "env \<Rightarrow> string \<Rightarrow> string \<Rightarrow> string \<Rightarrow> world \<Rightarrow> world" where
  "broadcast_lifecycle e org run_id status w =
     (if down e Broadcaster \<or> org = [] then w else w\<lparr>ww_broadcasts := ww_broadcasts w @ [(org, run_id, status)]\<rparr>)"

definition notify_reviewers :: "env \<Rightarrow> string \<Rightarrow> world \<Rightarrow> world" where
  "notify_reviewers e run_id w = (if down e Notifier then w else w\<lparr>ww_notified := ww_notified w @ [run_id]\<rparr>)"

section \<open>What a completed graph leaves behind\<close>

text \<open>\<^verbatim>\<open>[str(x) for x in (v or [])]\<close> and \<^verbatim>\<open>float(v or 0.0)\<close>.\<close>

definition texts_in :: "env \<Rightarrow> json \<Rightarrow> string list res" where
  "texts_in e v =
     (if \<not> py_truth v then Inr []
      else case v of
             JList xs \<Rightarrow> Inr (map (text_of e) xs)
           | JStr s \<Rightarrow> Inr (map (\<lambda>c. [c]) s)
           | JObj d \<Rightarrow> Inr (map fst d)
           | _ \<Rightarrow> Inl (Exn ''TypeError'' ''object is not iterable''))"

definition float_or_zero :: "env \<Rightarrow> json \<Rightarrow> real res" where
  "float_or_zero e v =
     (if \<not> py_truth v then Inr 0
      else case sl_float (xe_stream_lib e) v of None \<Rightarrow> Inl (ValueError ''could not convert to float'') | Some x \<Rightarrow> Inr x)"

definition persist_evaluation_outcome :: "env \<Rightarrow> jobj \<Rightarrow> string \<Rightarrow> jobj \<Rightarrow> world \<Rightarrow> unit res \<times> world" where
  "persist_evaluation_outcome e event run_id evaluation w =
     (let org = org_of e event; passed = py_truth (jget evaluation ''passed'') in
      if evaluation = [] \<or> org = [] then (Inr (), w)
      else case bind_res (float_or_zero e (jget evaluation ''score'')) (\<lambda>score.
             bind_res (texts_in e (jget evaluation ''reasons'')) (\<lambda>reasons. Inr (score, reasons))) of
        Inl x \<Rightarrow> (Inl x, w)
      | Inr (score, reasons) \<Rightarrow>
          let status = (if passed then ''passed'' else ''failed'');
              payload = JObj [(''passed'', JBool passed), (''score'', JFloat score),
                (''reasons'', JList (map JStr reasons)), (''status'', JStr status)];
              w1 = (if down e Outcomes then w
                    else w\<lparr>ww_outcomes := snd (save_outcome (xe_now e) (xe_row_id e 1) org ''evaluation_gate'' run_id payload (ww_outcomes w))\<rparr>)
          in (Inr (), if down e Evaluations then w1
               else w1\<lparr>ww_evaluations := ww_evaluations w1 @
                 [\<lparr>er_org_id = org, er_run_id = run_id, er_score = xe_round e (score * 100), er_passed = passed,
                   er_status = status, er_reasons = reasons, er_failures = (if passed then [] else reasons)\<rparr>]\<rparr>))"

definition support_receipt :: "env \<Rightarrow> jobj \<Rightarrow> string \<Rightarrow> string \<Rightarrow> jobj \<Rightarrow> receipt" where
  "support_receipt e event run_id surface d =
     (let render = jl_render (xe_lib e);
          delivered = lower (text_or e d ''status'' ''completed'') \<in> {''completed'', ''delivered''}
      in \<lparr>rc_run_id = run_id, rc_org_id = nonempty (org_of e event), rc_platform = surface,
          rc_channel_id = nonempty (str_or render (or_json (jget d ''delivered_to'') (jget event ''channel'')) []),
          rc_thread_id = nonempty (str_or render (or_json (jget event ''thread_ts'') (jget d ''thread_id'')) []),
          rc_source_message_id = nonempty (text_or e event ''source_message_id'' []),
          rc_provider_message_id = nonempty (text_or e d ''reference'' []),
          rc_status = (if delivered then ''delivered'' else ''failed''),
          rc_error = (if delivered then None else Some (text_or e d ''error'' []))\<rparr>)"

definition pull_row_of :: "env \<Rightarrow> jobj \<Rightarrow> string \<Rightarrow> jobj \<Rightarrow> pull_row option" where
  "pull_row_of e event run_id d =
     (let reference = text_or e d ''reference'' [];
          repository = str_or (jl_render (xe_lib e)) (or_json (jget d ''delivered_to'') (jget event ''repository'')) [];
          (owner, name) = partition_slash repository
      in case pull_number reference of
           None \<Rightarrow> None
         | Some n \<Rightarrow>
             if owner = [] \<or> name = [] then None
             else Some \<lparr>pl_repository_id = repository, pl_owner = owner, pl_name = name, pl_number = n,
                        pl_url = (if starts_with ''http'' reference then Some reference else None),
                        pl_title = text_or e d ''title'' [], pl_org_id = nonempty (org_of e event), pl_run_id = run_id\<rparr>)"

definition persist_delivery_result :: "env \<Rightarrow> jobj \<Rightarrow> string \<Rightarrow> graph_result \<Rightarrow> world \<Rightarrow> world" where
  "persist_delivery_result e event run_id r w =
     (case delivery_receipt r of
        None \<Rightarrow> w
      | Some d \<Rightarrow>
          let surface = lower (text_or e d ''surface'' []) in
          if d = [] then w
          else if surface \<in> {''slack'', ''discord''}
          then (if down e Platforms then w
                else w\<lparr>ww_support := snd (save_receipt (xe_now e) (xe_row_id e 2) (support_receipt e event run_id surface d) (ww_support w))\<rparr>)
          else if xe_part e Deliveries = Absent \<or> surface \<noteq> ''github'' \<or> lower (text_or e d ''status'' ''completed'') \<noteq> ''completed'' then w
          else case pull_row_of e event run_id d of
                 None \<Rightarrow> w
               | Some row \<Rightarrow> if down e Deliveries then w else w\<lparr>ww_pulls := ww_pulls w @ [row]\<rparr>)"

text \<open>The files of the update and create nodes, written one by one; the repository is carried along.\<close>

definition changed_file :: "env \<Rightarrow> jobj \<Rightarrow> string \<Rightarrow> string \<Rightarrow> jobj \<Rightarrow> upsert option" where
  "changed_file e event run_id repository d =
     (case jget d ''content'' of
        JStr content \<Rightarrow>
          if \<not> py_truth (jget d ''path'') then None
          else Some \<lparr>up_org_id = nonempty (org_of e event), up_repository = repository, up_path = text_of e (jget d ''path''),
                     up_content = content, up_metadata = JObj [(''run_id'', JStr run_id), (''source'', JStr ''github_workflow'')],
                     up_title = None, up_document_type = None, up_status = Some ''delivered'', up_commit_sha = None,
                     up_source_hash = None, up_last_committed_at = None\<rparr>
      | _ \<Rightarrow> None)"

fun index_files :: "env \<Rightarrow> nat \<Rightarrow> upsert list \<Rightarrow> world \<Rightarrow> world" where
  "index_files e n [] w = w"
| "index_files e n (u # us) w =
     index_files e (Suc n) us
       (if down e Documents then w
        else w\<lparr>ww_documents := snd (upsert_document (xe_row_id e n) (xe_now e) u (ww_documents w))\<rparr>)"

fun persist_nodes :: "env \<Rightarrow> jobj \<Rightarrow> string \<Rightarrow> nat \<Rightarrow> string \<Rightarrow> node_entry list \<Rightarrow> world \<Rightarrow> unit res \<times> world" where
  "persist_nodes e event run_id n repository [] w = (Inr (), w)"
| "persist_nodes e event run_id n repository (nd # nds) w =
     (if ne_node_id nd \<notin> {''update'', ''create''} then persist_nodes e event run_id n repository nds w
      else case structured_dict (ne_own nd) of
        None \<Rightarrow> persist_nodes e event run_id n repository nds w
      | Some d \<Rightarrow>
          let repository = text_or e d ''repository'' repository in
          (case dict_items (jget d ''files'') of
             Inl x \<Rightarrow> (Inl x, w)
           | Inr files \<Rightarrow>
               let us = List.map_filter (changed_file e event run_id repository) files
               in persist_nodes e event run_id (n + length us) repository nds (index_files e n us w)))"

definition persist_document_changes :: "env \<Rightarrow> jobj \<Rightarrow> string \<Rightarrow> graph_result \<Rightarrow> world \<Rightarrow> unit res \<times> world" where
  "persist_document_changes e event run_id r w =
     (if xe_part e Documents = Absent then (Inr (), w)
      else persist_nodes e event run_id 100 (text_or e event ''repository'' []) (gr_order r) w)"

section \<open>Interrupts\<close>

text \<open>What a reviewer is shown of each changed file: the sealed draft, and the original of an update.\<close>

definition original_content :: "env \<Rightarrow> string \<Rightarrow> json \<Rightarrow> string \<Rightarrow> string \<Rightarrow> world \<Rightarrow> string option" where
  "original_content e org repository action path w =
     (if action = ''create'' \<or> \<not> py_truth repository \<or> path = [] \<or> down e Documents then None
      else map_option do_content (get_by_org_repository_path org (text_of e repository) path (ww_documents w)))"

definition enrich_file :: "env \<Rightarrow> string \<Rightarrow> json \<Rightarrow> (string \<times> string) list \<Rightarrow> world \<Rightarrow> json \<Rightarrow> json" where
  "enrich_file e org repository drafted w v =
     (case v of
        JObj d \<Rightarrow>
          let action = lower (text_or e d ''action'' []); path = text_or e d ''path'' [];
              draft = map_of drafted path; original = original_content e org repository action path w;
              shown = (\<lambda>x. case x of None \<Rightarrow> JNull | Some c \<Rightarrow> JStr c)
          in if action \<notin> {''update'', ''create''} then v
             else JObj (jset ''original_content_available'' (JBool (original \<noteq> None)) (jset ''original_content'' (shown original)
                   (jset ''content_available'' (JBool (draft \<noteq> None)) (jset ''content'' (shown draft) d))))
      | _ \<Rightarrow> v)"

definition drafted_bodies :: "env \<Rightarrow> string \<Rightarrow> world \<Rightarrow> (string \<times> string) list" where
  "drafted_bodies e run_id w =
     (if down e Drafts then [] else rev (map (\<lambda>f. (df_path f, df_content f)) (get_latest run_id (ww_db w))))"

definition enrich_review_reason :: "env \<Rightarrow> string \<Rightarrow> string \<Rightarrow> json \<Rightarrow> world \<Rightarrow> json" where
  "enrich_review_reason e org run_id reason w =
     (case reason of
        JObj d \<Rightarrow>
          (case jget d ''document'' of
             JObj document \<Rightarrow>
               (case jget document ''files'' of
                  JList files \<Rightarrow>
                    JObj (jset ''document'' (JObj (jset ''files'' (JList (map (enrich_file e org (jget document ''repository'')
                      (drafted_bodies e run_id w) w) files)) document)) d)
                | _ \<Rightarrow> reason)
           | _ \<Rightarrow> reason)
      | _ \<Rightarrow> JObj [])"

definition steering_interrupt :: "env \<Rightarrow> string \<Rightarrow> string \<Rightarrow> string \<Rightarrow> world \<Rightarrow> bool" where
  "steering_interrupt e run_id org i w \<longleftrightarrow> working e Interventions \<and> get_pending run_id i org (ww_inbox w) \<noteq> None"

text \<open>One review row per interrupt that is not a pending intervention; the numbers name the generated ids.\<close>

definition store_one :: "env \<Rightarrow> string \<Rightarrow> string \<Rightarrow> string \<Rightarrow> nat \<Rightarrow> string \<times> json \<Rightarrow> world \<Rightarrow> world" where
  "store_one e run_id surface org n ir w =
     (if down e Reviews \<or> steering_interrupt e run_id org (fst ir) w then w
      else w\<lparr>ww_reviews := snd (store_interrupt (xe_review_lib e) (xe_now e) (xe_row_id e n) run_id (fst ir)
               (enrich_review_reason e org run_id (snd ir) w) surface org (ww_reviews w))\<rparr>)"

fun store_interrupts :: "env \<Rightarrow> string \<Rightarrow> string \<Rightarrow> string \<Rightarrow> nat \<Rightarrow> (string \<times> json) list \<Rightarrow> wf_state \<Rightarrow> world
    \<Rightarrow> string list \<times> wf_state \<times> world" where
  "store_interrupts e run_id surface org n [] s w = ([], s, w)"
| "store_interrupts e run_id surface org n (ir # irs) s w =
     (let seen = (if steering_interrupt e run_id org (fst ir) w then [fst ir] else []);
          s1 = s\<lparr>ws_interrupts := ws_interrupts s @ [(fst ir, enrich_review_reason e org run_id (snd ir) w)]\<rparr>;
          (steering, s2, w2) = store_interrupts e run_id surface org (Suc n) irs s1 (store_one e run_id surface org n ir w)
      in (seen @ steering, s2, w2))"

section \<open>Settling a run\<close>

text \<open>Job, run and read model first, then what the branch adds, then the event, then the dashboard.\<close>

definition result_of :: "string \<Rightarrow> jobj \<Rightarrow> jobj \<Rightarrow> jobj" where
  "result_of status extra evaluation =
     [(''status'', JStr status)] @ extra @ (if evaluation = [] then [] else [(''evaluation'', JObj evaluation)])"

definition settle_paused :: "env \<Rightarrow> jobj \<Rightarrow> string \<Rightarrow> string \<Rightarrow> jobj \<Rightarrow> world \<Rightarrow> world" where
  "settle_paused e event run_id status v w =
     broadcast_lifecycle e (org_of e event) run_id status
       (mark_event e event status (persist_lifecycle e event status run_id None (Some v) w))"

definition settle_failed :: "env \<Rightarrow> jobj \<Rightarrow> string \<Rightarrow> string \<Rightarrow> string list \<Rightarrow> jobj \<Rightarrow> wf_state \<Rightarrow> world \<Rightarrow> wf_state res \<times> world" where
  "settle_failed e event run_id error failed evaluation s w =
     and_then_do (persist_evaluation_outcome e event run_id evaluation
         (persist_lifecycle e event ''failed'' run_id (Some error)
           (Some (result_of ''FAILED'' [(''failed_nodes'', JList (map JStr failed))] evaluation)) w))
       (\<lambda>_ w. (Inr (s\<lparr>ws_status := Run_Failed\<rparr>),
          broadcast_lifecycle e (org_of e event) run_id ''failed'' (mark_event e event ''failed'' w)))"

definition settle_completed :: "env \<Rightarrow> jobj \<Rightarrow> string \<Rightarrow> graph_result \<Rightarrow> jobj \<Rightarrow> wf_state \<Rightarrow> world \<Rightarrow> wf_state res \<times> world" where
  "settle_completed e event run_id r evaluation s w =
     and_then_do (persist_document_changes e event run_id r w) (\<lambda>_ w.
     and_then_do (persist_evaluation_outcome e event run_id evaluation
         (persist_lifecycle e event ''completed'' run_id None (Some (result_of ''COMPLETED'' [] evaluation))
           (persist_delivery_result e event run_id r w)))
       (\<lambda>_ w. (Inr (s\<lparr>ws_status := Run_Delivered\<rparr>),
          broadcast_lifecycle e (org_of e event) run_id ''completed'' (mark_event e event ''completed'' w))))"

definition or_text :: "string \<Rightarrow> string \<Rightarrow> string" where
  "or_text s dflt = (if s = [] then dflt else s)"

definition finish_result :: "env \<Rightarrow> jobj \<Rightarrow> string \<Rightarrow> graph_result \<Rightarrow> wf_state \<Rightarrow> world \<Rightarrow> wf_state res \<times> world" where
  "finish_result e event surface r s w =
     (let lib = xe_lib e; run_id = ws_run_id s; effective = effective_status lib r;
          s1 = s\<lparr>ws_value := Graph_Value r, ws_errors := ws_errors s @ (if effective = gr_status r then [] else failed_node_ids r)\<rparr>;
          evaluation = node_payload_of lib r ''evaluate''
      in if effective = ''INTERRUPTED''
         then let (steering, s2, w1) = store_interrupts e run_id surface (org_of e event) 200 (gr_interrupts r) s1 w in
           if steering \<noteq> []
           then (Inr (s2\<lparr>ws_status := Run_Pending_Intervention\<rparr>),
                 settle_paused e event run_id ''pending_intervention'' (result_of ''PENDING_INTERVENTION'' [] evaluation) w1)
           else (Inr (s2\<lparr>ws_status := Run_Pending_Review\<rparr>),
                 notify_reviewers e run_id
                   (settle_paused e event run_id ''pending_review'' (result_of ''PENDING_REVIEW'' [] evaluation) w1))
         else if effective = ''COMPLETED''
         then if refused lib r
           then let why = (if is_blocked_delivery lib (delivery_receipt r)
                   then ''delivery blocked: agent refused to deliver (no content)''
                   else ''delivery completed without a reference (empty receipt, nothing delivered)'');
                 s2 = s1\<lparr>ws_errors := ws_errors s1 @ [why]\<rparr>
             in settle_failed e event run_id (join_with ''; '' (ws_errors s2)) [''deliver''] evaluation s2 w
           else settle_completed e event run_id r evaluation s1 w
         else let failed = failed_node_ids r; s2 = s1\<lparr>ws_errors := ws_errors s1 @ failed\<rparr>
           in settle_failed e event run_id (or_text (join_with ''; '' failed) ''workflow failed'') failed evaluation s2 w)"

section \<open>Invoking the graph\<close>

text \<open>A build gives the run a new sequence of envelope numbers.\<close>

definition build_graph :: "env \<Rightarrow> string \<Rightarrow> string \<Rightarrow> world \<Rightarrow> unit res \<times> world" where
  "build_graph e run_id surface w =
     (case xe_build e run_id surface w of
        Some x \<Rightarrow> (Inl x, w)
      | None \<Rightarrow> (Inr (), w\<lparr>ww_stream := new_graph (ww_stream w)\<rparr>))"

definition draft_seed :: "env \<Rightarrow> string \<Rightarrow> string \<Rightarrow> world \<Rightarrow> jobj" where
  "draft_seed e run_id surface w =
     (if surface \<noteq> ''pull_request'' \<or> down e Drafts \<or> Draft_Store.next_generation run_id (ww_db w) \<le> 1 then []
      else [(''draft_generation_seed'', JInt (Draft_Store.next_generation run_id (ww_db w)))])"

definition invocation_state :: "env \<Rightarrow> jobj \<Rightarrow> string \<Rightarrow> world \<Rightarrow> jobj" where
  "invocation_state e event surface w =
     (let run_id = text_or e event ''event_id'' [] in
      [(''run_id'', JStr run_id), (''review_policy'', or_json (jget event ''review_policy'') (JStr (xe_policy e))),
       (''delivery_summary'', JStr []), (''evaluation'', JObj []), (''evidence_count'', JInt 0),
       (''source'', JStr (text_or e event ''source'' ''github'')), (''event_type'', JStr (text_or e event ''event_type'' ''unknown'')),
       (''project_id'', JStr (org_of e event)), (''surface'', JStr surface), (''installation_id'', jget event ''installation_id''),
       (''repo_dir'', jget event ''repo_dir''), (''review_revision_of'', jget event ''review_revision_of''),
       (''review_feedback'', jget event ''review_feedback'')] @ draft_seed e run_id surface w)"

definition publish_envelope :: "env \<Rightarrow> envelope \<Rightarrow> world \<Rightarrow> world" where
  "publish_envelope e v w =
     w\<lparr>ww_stream := publish_next (xe_now e) (down e Event_Log) (down e Event_Bus) v (ww_stream w)\<rparr>"

definition publish_frame :: "env \<Rightarrow> string \<Rightarrow> string \<Rightarrow> envelope option \<Rightarrow> world \<Rightarrow> world" where
  "publish_frame e run_id org env w =
     (case env of
        None \<Rightarrow> w
      | Some v \<Rightarrow>
          let w1 = publish_envelope e v w in
          if se_type v \<in> {''node_start'', ''node_stop''} then broadcast_lifecycle e org run_id ''running'' w1 else w1)"

text \<open>The last result or stop in the stream decides; an exception in shaping ends it as one of the graph does.\<close>

fun stream_loop :: "env \<Rightarrow> string \<Rightarrow> string \<Rightarrow> string \<Rightarrow> raw_event list \<Rightarrow> graph_result option \<Rightarrow> world
    \<Rightarrow> graph_result option res \<times> world" where
  "stream_loop e run_id surface org [] r w = (Inr r, w)"
| "stream_loop e run_id surface org (raw # raws) r w =
     (case filter_graph_event (xe_stream_lib e) run_id surface raw of
        Inl x \<Rightarrow> (Inl x, w)
      | Inr env \<Rightarrow>
          stream_loop e run_id surface org raws
            (case rw_result raw of
               Some r' \<Rightarrow> Some r'
             | None \<Rightarrow> if py_truth (jget (rw_fields raw) ''force_stop'') then Some force_stopped else r)
            (publish_frame e run_id org env w))"

definition timeout_envelope :: "string \<Rightarrow> string \<Rightarrow> string \<Rightarrow> envelope" where
  "timeout_envelope run_id surface node_id =
     \<lparr>se_type = ''workflow_result'', se_run_id = run_id, se_surface = surface, se_seq = 0, se_node_id = Some node_id,
      se_payload = [(''status'', JStr ''FAILED''), (''reason'', JStr (''node '' @ node_id @ '' timed out'')), (''interrupts'', JList [])]\<rparr>"

definition settle_graph :: "graph_reply \<Rightarrow> world \<Rightarrow> world" where
  "settle_graph y w = w\<lparr>ww_db := gy_db y, ww_inbox := gy_inbox y, ww_jobs := gy_jobs y\<rparr>"

definition invoke_streaming :: "env \<Rightarrow> graph_call \<Rightarrow> world \<Rightarrow> graph_result res \<times> world" where
  "invoke_streaming e c w =
     (let run_id = gc_run_id c; surface = gc_surface c; org = text_or e (gc_state c) ''project_id'' [];
          y = xe_graph e c w;
          (res, w1) = stream_loop e run_id surface org (gy_events y) None
                        (settle_graph y (w\<lparr>ww_invoked := ww_invoked w @ [run_id]\<rparr>));
          raised = (case res of Inl x \<Rightarrow> Some x | Inr _ \<Rightarrow> gy_raised y)
      in case raised of
           Some x \<Rightarrow>
             (case node_timeout_id (exn_msg x) of
                None \<Rightarrow> (Inl x, w1)
              | Some node_id \<Rightarrow> (Inr (timed_out node_id), publish_envelope e (timeout_envelope run_id surface node_id) w1))
         | None \<Rightarrow>
             (case res of
                Inr (Some r) \<Rightarrow> (Inr r, w1)
              | _ \<Rightarrow> (Inl (RuntimeError (''stream ended without a result event run_id='' @ run_id)), w1)))"

definition invoke_plain :: "env \<Rightarrow> graph_call \<Rightarrow> world \<Rightarrow> graph_result res \<times> world" where
  "invoke_plain e c w =
     (let y = xe_graph e c w; w1 = settle_graph y (w\<lparr>ww_invoked := ww_invoked w @ [gc_run_id c]\<rparr>)
      in (case gy_raised y of Some x \<Rightarrow> Inl x | None \<Rightarrow> Inr (gy_result y), w1))"

text \<open>A fresh run forgives a node timeout on both paths, a resumed one only when it streams.\<close>

definition forgive_timeout :: "graph_result res \<Rightarrow> graph_result res" where
  "forgive_timeout r =
     (case r of
        Inl x \<Rightarrow> (case node_timeout_id (exn_msg x) of None \<Rightarrow> Inl x | Some node_id \<Rightarrow> Inr (timed_out node_id))
      | Inr v \<Rightarrow> Inr v)"

definition invoke_graph :: "env \<Rightarrow> bool \<Rightarrow> graph_call \<Rightarrow> world \<Rightarrow> graph_result res \<times> world" where
  "invoke_graph e fresh c w =
     (if xe_streaming e then invoke_streaming e c w
      else let (r, w1) = invoke_plain e c w in (if fresh then forgive_timeout r else r, w1))"

section \<open>A fresh run\<close>

definition with_repo_dir :: "env \<Rightarrow> jobj \<Rightarrow> jobj" where
  "with_repo_dir e event =
     (case xe_repo_dir e event of
        None \<Rightarrow> event
      | Some p \<Rightarrow> if p = [] \<or> py_truth (jget event ''repo_dir'') then event else jset ''repo_dir'' (JStr p) event)"

definition call_of :: "env \<Rightarrow> jobj \<Rightarrow> string \<Rightarrow> json \<Rightarrow> world \<Rightarrow> graph_call" where
  "call_of e event surface inp w =
     \<lparr>gc_run_id = text_or e event ''event_id'' [], gc_surface = surface, gc_input = inp,
      gc_state = invocation_state e event surface w\<rparr>"

definition execute_run :: "env \<Rightarrow> jobj \<Rightarrow> string \<Rightarrow> wf_state \<Rightarrow> world \<Rightarrow> wf_state res \<times> world" where
  "execute_run e event surface s w =
     (let run_id = ws_run_id s in
      and_then_do (ensure_canonical_run e event run_id surface w) (\<lambda>_ w.
      let event = with_repo_dir e event in
      and_then_do (build_graph e run_id surface w) (\<lambda>_ w.
      let w = broadcast_lifecycle e (org_of e event) run_id ''running'' (persist_lifecycle e event ''running'' run_id None None w) in
      and_then_do (invoke_graph e True (call_of e event surface (JObj event) w) w) (\<lambda>r w.
        finish_result e event surface r s w))))"

definition skipped_pull_request :: "env \<Rightarrow> jobj \<Rightarrow> bool" where
  "skipped_pull_request e event \<longleftrightarrow>
     (let event_type = text_or e event ''event_type'' [] in
      event_prefix event_type = ''pull_request'' \<and> event_type \<noteq> ''pull_request.opened'')"

definition run_workflow :: "env \<Rightarrow> jobj \<Rightarrow> world \<Rightarrow> wf_state res \<times> world" where
  "run_workflow e event w =
     (let run_id = str_or (jl_render (xe_lib e)) (jget event ''event_id'') (xe_uuid e); s = fresh_state run_id in
      case route_event (xe_lib e) event of
        Inl x \<Rightarrow> (Inl x, w)
      | Inr None \<Rightarrow> (Inr (s\<lparr>ws_status := Run_Skipped\<rparr>), w)
      | Inr (Some surface) \<Rightarrow>
          let s = s\<lparr>ws_surface := Some surface\<rparr> in
          if skipped_pull_request e event then (Inr (s\<lparr>ws_status := Run_Skipped\<rparr>), w)
          else and_then_do (claim_event e event run_id w) (\<lambda>won w.
            if \<not> won
            then (case existing_event e (item_or event ''event_id'' (JStr [])) w of
                    Inl x \<Rightarrow> (Inl x, w)
                  | Inr None \<Rightarrow> (Inr (s\<lparr>ws_status := Run_Duplicate\<rparr>), w)
                  | Inr (Some st) \<Rightarrow> (Inr (s\<lparr>ws_status := Run_Duplicate, ws_errors := [''event already recorded: '' @ st]\<rparr>), w))
            else case existing_support_delivery e event w of
                   Some row \<Rightarrow> (Inr (s\<lparr>ws_status := Run_Duplicate, ws_value := Receipt_Value row\<rparr>), w)
                 | None \<Rightarrow> execute_run e event surface s w))"

section \<open>Resuming after a review\<close>

text \<open>The persisted session holds a paused graph that waits for the interrupt.\<close>

definition waits_for :: "string \<Rightarrow> jobj \<Rightarrow> bool" where
  "waits_for interrupt_id d \<longleftrightarrow>
     (let internal = as_dict (jget d ''_internal_state''); state = as_dict (jget internal ''interrupt_state'')
      in py_truth (jget d ''next_nodes_to_execute'')
         \<and> (case jget state ''interrupts'' of
              JNull \<Rightarrow> True
            | JObj kvs \<Rightarrow> interrupt_id \<in> fst ` set kvs
            | JList xs \<Rightarrow> JStr interrupt_id \<in> set xs
            | JStr s \<Rightarrow> str_contains interrupt_id s
            | _ \<Rightarrow> False))"

definition session_is_resumable :: "session \<Rightarrow> string \<Rightarrow> bool" where
  "session_is_resumable s interrupt_id \<longleftrightarrow>
     (case s of
        No_Manager \<Rightarrow> True
      | Session fresh None \<Rightarrow> False
      | Session fresh (Some d) \<Rightarrow> \<not> fresh \<and> d \<noteq> [] \<and> waits_for interrupt_id d)"

text \<open>The decision reaches the escalated pages before the graph resumes; its failure is swallowed.\<close>

definition resume_pages :: "env \<Rightarrow> string \<Rightarrow> string \<Rightarrow> string \<Rightarrow> world \<Rightarrow> world" where
  "resume_pages e run_id verdict comment w =
     (case xe_node e of
        None \<Rightarrow> w
      | Some nd \<Rightarrow>
          if escalated_pages (get_page_states run_id (ww_db w)) = [] then w
          else (case resume nd run_id verdict (Some comment) [] (ww_db w) of
                  None \<Rightarrow> w | Some (_, d) \<Rightarrow> w\<lparr>ww_db := d\<rparr>))"

definition resume_input :: "string \<Rightarrow> json \<Rightarrow> json" where
  "resume_input interrupt_id response =
     JList [JObj [(''interruptResponse'', JObj [(''interruptId'', JStr interrupt_id), (''response'', response)])]]"

definition ReviewResumeError :: "string \<Rightarrow> exn" where "ReviewResumeError m = Exn ''ReviewResumeError'' m"
definition InterventionResumeError :: "string \<Rightarrow> exn" where "InterventionResumeError m = Exn ''InterventionResumeError'' m"

definition SESSION_LOST :: string where
  "SESSION_LOST = ''interrupted session state not found; the run cannot be resumed''"

definition error_result :: "string \<Rightarrow> string \<Rightarrow> jobj" where
  "error_result status error = [(''status'', JStr status), (''error'', JStr error)]"

text \<open>Here the event is marked before the other rows are written.\<close>

definition settle_error :: "env \<Rightarrow> jobj \<Rightarrow> string \<Rightarrow> string \<Rightarrow> string \<Rightarrow> string \<Rightarrow> world \<Rightarrow> world" where
  "settle_error e event run_id status code error w =
     broadcast_lifecycle e (org_of e event) run_id status
       (persist_lifecycle e event status run_id (Some error) (Some (error_result code error)) (mark_event e event status w))"

definition resumed_state :: "string \<Rightarrow> string \<Rightarrow> wf_state" where
  "resumed_state run_id surface = (fresh_state run_id)\<lparr>ws_surface := Some surface\<rparr>"

definition resumable_run :: "env \<Rightarrow> jobj \<Rightarrow> exn \<Rightarrow> (string \<times> string) res" where
  "resumable_run e event otherwise =
     (let run_id = text_or e event ''event_id'' [] in
      bind_res (route_event (xe_lib e) event) (\<lambda>surface.
        case surface of Some s \<Rightarrow> (if run_id = [] then Inl otherwise else Inr (run_id, s)) | None \<Rightarrow> Inl otherwise))"

definition review_answer_of :: "jobj \<Rightarrow> bool" where
  "review_answer_of response \<longleftrightarrow> jget response ''approved'' = JBool True"

definition resume_review :: "env \<Rightarrow> jobj \<Rightarrow> string \<Rightarrow> jobj \<Rightarrow> world \<Rightarrow> wf_state res \<times> world" where
  "resume_review e event interrupt_id response w =
     (case resumable_run e event (ValueError ''Cannot resume a workflow without a valid run and surface'') of
        Inl x \<Rightarrow> (Inl x, w)
      | Inr (run_id, surface) \<Rightarrow>
          let event = with_repo_dir e event; approved = review_answer_of response in
          and_then_do (build_graph e run_id surface w) (\<lambda>_ w.
          if \<not> session_is_resumable (xe_session e) interrupt_id
          then (Inl (ReviewResumeError (''Cannot resume run '' @ run_id @ '': '' @ SESSION_LOST)),
                notify_reviewers e run_id (settle_error e event run_id ''pending_review'' ''SESSION_LOST'' SESSION_LOST w))
          else
            let w = resume_pages e run_id (if approved then ''approve'' else ''reject'') (text_or e response ''comment'' []) w;
                s = resumed_state run_id surface
            in case invoke_graph e False (call_of e event surface (resume_input interrupt_id (JObj response)) w) w of
                 (Inr r, w) \<Rightarrow> finish_result e event surface r s w
               | (Inl x, w) \<Rightarrow>
                   let s = s\<lparr>ws_errors := [exn_msg x]\<rparr> in
                   if approved
                   then (Inr (s\<lparr>ws_status := Run_Pending_Review\<rparr>),
                         notify_reviewers e run_id (settle_error e event run_id ''pending_review'' ''RESUME_FAILED'' (exn_msg x) w))
                   else (Inr (s\<lparr>ws_status := Run_Failed\<rparr>), settle_error e event run_id ''failed'' ''FAILED'' (exn_msg x) w)))"

text \<open>The decision alone, for a request of changes: the graph is built but not invoked.\<close>

definition resume_documentation ::
  "env \<Rightarrow> jobj \<Rightarrow> string \<Rightarrow> string option \<Rightarrow> round_env list \<Rightarrow> world \<Rightarrow> (workflow_result option res \<times> world) option" where
  "resume_documentation e event verdict comment envs w =
     (case resumable_run e event (ValueError ''Cannot resume documentation without a valid run and surface'') of
        Inl x \<Rightarrow> Some (Inl x, w)
      | Inr (run_id, surface) \<Rightarrow>
          (case build_graph e run_id surface w of
             (Inl x, w) \<Rightarrow> Some (Inl x, w)
           | (Inr _, w) \<Rightarrow>
               (case xe_node e of
                  None \<Rightarrow> Some (Inr None, w)
                | Some nd \<Rightarrow>
                    if escalated_pages (get_page_states run_id (ww_db w)) = [] then Some (Inr None, w)
                    else map_option (\<lambda>(r, d). (map_sum id Some r, w\<lparr>ww_db := d\<rparr>))
                           (resume nd run_id verdict comment envs (ww_db w)))))"

section \<open>Resuming after an intervention\<close>

definition INTERVENTION_ACTIONS :: "string list" where
  "INTERVENTION_ACTIONS = [''approve'', ''approve_and_review'', ''deny'', ''denied'', ''guide'', ''cancel'']"

record resume_request =
  rr_run_id :: string
  rr_surface :: string
  rr_org :: string
  rr_interrupt_id :: string
  rr_action :: string
  rr_key :: string
  rr_message :: "string option"

text \<open>The checks before the inbox is read.\<close>

definition resume_request_of :: "env \<Rightarrow> jobj \<Rightarrow> string \<Rightarrow> jobj \<Rightarrow> resume_request res" where
  "resume_request_of e event interrupt_id response =
     (let org = org_of e event; action = text_or e response ''action'' [] in
      bind_res (resumable_run e event (InterventionResumeError ''Cannot resume an intervention without a valid run and surface'')) (\<lambda>(run_id, surface).
        if interrupt_id = [] then Inl (InterventionResumeError ''interrupt_id is required'')
        else if response = [] then Inl (InterventionResumeError ''a non-empty response dict is required'')
        else if xe_part e Interventions = Absent then Inl (InterventionResumeError ''steering interventions are unavailable'')
        else if action \<notin> set INTERVENTION_ACTIONS then Inl (InterventionResumeError (''unsupported intervention action '' @ quoted action))
        else Inr \<lparr>rr_run_id = run_id, rr_surface = surface, rr_org = org, rr_interrupt_id = interrupt_id, rr_action = action,
                  rr_key = str_or (jl_render (xe_lib e)) (jget response ''idempotency_key'') (org @ '':'' @ interrupt_id),
                  rr_message = (case jget response ''message'' of JNull \<Rightarrow> None | v \<Rightarrow> Some (text_of e v))\<rparr>))"

definition lookup_intervention :: "env \<Rightarrow> resume_request \<Rightarrow> world \<Rightarrow> intervention option res" where
  "lookup_intervention e q w =
     (if down e Interventions then Inl (InterventionResumeError ''intervention lookup failed: store unavailable'')
      else Inr (get_pending (rr_run_id q) (rr_interrupt_id q) (rr_org q) (ww_inbox w)))"

definition lapsed :: "env \<Rightarrow> intervention \<Rightarrow> bool" where
  "lapsed e r \<longleftrightarrow> (case iv_expires_at r of None \<Rightarrow> False | Some t \<Rightarrow> t < xe_now e)"

definition replay_outcome :: "env \<Rightarrow> resume_request \<Rightarrow> world \<Rightarrow> wf_state" where
  "replay_outcome e q w =
     (let status = (if down e Lookups then None else map_option ev_status (find_by_event_id (rr_run_id q) (ww_events w)))
      in (resumed_state (rr_run_id q) (rr_surface q))
           \<lparr>ws_status := (if status \<in> {Some ''completed'', Some ''delivered''} then Run_Delivered else Run_Failed)\<rparr>)"

text \<open>What follows the lookup: claim the answer, then resume for a row that was pending, replay for one that was not.\<close>

definition continue_intervention :: "env \<Rightarrow> jobj \<Rightarrow> resume_request \<Rightarrow> json \<Rightarrow> world \<Rightarrow> wf_state res \<times> world" where
  "continue_intervention e event q message w =
     (let run_id = rr_run_id q; surface = rr_surface q; event = with_repo_dir e event;
          approved = (rr_action q \<in> {''approve'', ''approve_and_review''});
          s = resumed_state run_id surface
      in and_then_do (build_graph e run_id surface w) (\<lambda>_ w.
         if \<not> session_is_resumable (xe_session e) (rr_interrupt_id q)
         then (Inr (s\<lparr>ws_status := Run_Failed\<rparr>), settle_error e event run_id ''failed'' ''SESSION_LOST'' SESSION_LOST w)
         else
           case invoke_graph e False (call_of e event surface (resume_input (rr_interrupt_id q)
                  (JObj [(''approved'', JBool approved), (''action'', JStr (rr_action q)), (''message'', message)])) w) w of
             (Inr r, w) \<Rightarrow> finish_result e event surface r s w
           | (Inl x, w) \<Rightarrow>
               (Inr (s\<lparr>ws_errors := [exn_msg x], ws_status := Run_Failed\<rparr>),
                settle_error e event run_id ''failed'' ''RESUME_FAILED'' (exn_msg x) w)))"

definition after_lookup ::
  "env \<Rightarrow> jobj \<Rightarrow> resume_request \<Rightarrow> json \<Rightarrow> intervention option \<Rightarrow> world \<Rightarrow> wf_state res \<times> world" where
  "after_lookup e event q message pending w =
     (case pending of
        Some r \<Rightarrow>
          if lapsed e r
          then (Inl (InterventionResumeError (''intervention '' @ rr_interrupt_id q @ '' is expired'')),
                w\<lparr>ww_inbox := snd (resolve_intervention (iv_id r) ''expired'' (Some ''system:expired'') (xe_now e) (ww_inbox w))\<rparr>)
          else (case claim_response (rr_run_id q) (rr_interrupt_id q) (rr_org q) (rr_key q) (rr_action q) (rr_message q) (xe_now e) (ww_inbox w) of
                  (Inl x, t) \<Rightarrow> (Inl (InterventionResumeError (exn_msg x)), w)
                | (Inr _, t) \<Rightarrow> continue_intervention e event q message (w\<lparr>ww_inbox := t\<rparr>))
      | None \<Rightarrow>
          (case claim_response (rr_run_id q) (rr_interrupt_id q) (rr_org q) (rr_key q) (rr_action q) (rr_message q) (xe_now e) (ww_inbox w) of
             (Inl x, t) \<Rightarrow> (Inl (InterventionResumeError (exn_msg x)), w)
           | (Inr _, t) \<Rightarrow> (Inr (replay_outcome e q w), w\<lparr>ww_inbox := t\<rparr>)))"

definition resume_intervention :: "env \<Rightarrow> jobj \<Rightarrow> string \<Rightarrow> jobj \<Rightarrow> world \<Rightarrow> wf_state res \<times> world" where
  "resume_intervention e event interrupt_id response w =
     (case bind_res (resume_request_of e event interrupt_id response) (\<lambda>q.
             bind_res (lookup_intervention e q w) (\<lambda>pending. Inr (q, pending))) of
        Inl x \<Rightarrow> (Inl x, w)
      | Inr (q, pending) \<Rightarrow> after_lookup e event q (jget response ''message'') pending w)"

section \<open>What each helper leaves alone\<close>

text \<open>The events table is written by the claim and the mark only, the ghost record of invocations by the graph call only.\<close>

lemma with_runs_frame [simp]: "ww_events (with_runs t w) = ww_events w" "ww_invoked (with_runs t w) = ww_invoked w"
  by (simp_all add: with_runs_def)

lemma lifecycle_frame [simp]:
  "ww_events (persist_lifecycle e event st i err v w) = ww_events w"
  "ww_invoked (persist_lifecycle e event st i err v w) = ww_invoked w"
  by (simp_all add: persist_lifecycle_def Let_def)

lemma broadcast_frame [simp]:
  "ww_events (broadcast_lifecycle e org i st w) = ww_events w" "ww_invoked (broadcast_lifecycle e org i st w) = ww_invoked w"
  by (simp_all add: broadcast_lifecycle_def)

lemma notify_frame [simp]:
  "ww_events (notify_reviewers e i w) = ww_events w" "ww_invoked (notify_reviewers e i w) = ww_invoked w"
  by (simp_all add: notify_reviewers_def)

lemma mark_frame [simp]: "ww_invoked (mark_event e event st w) = ww_invoked w"
  by (simp add: mark_event_def)

lemma publish_frame_simps [simp]:
  "ww_events (publish_envelope e v w) = ww_events w" "ww_invoked (publish_envelope e v w) = ww_invoked w"
  "ww_events (publish_frame e i org env w) = ww_events w" "ww_invoked (publish_frame e i org env w) = ww_invoked w"
  by (simp_all add: publish_envelope_def publish_frame_def Let_def split: option.split)

lemma stream_loop_frame:
  "stream_loop e i surface org raws r w = (res, w') \<Longrightarrow> ww_events w' = ww_events w \<and> ww_invoked w' = ww_invoked w"
proof (induction raws arbitrary: r w)
  case (Cons raw raws)
  then show ?case
    by (cases "filter_graph_event (xe_stream_lib e) i surface raw") fastforce+
qed simp

lemma settle_graph_frame [simp]: "ww_events (settle_graph y w) = ww_events w" "ww_invoked (settle_graph y w) = ww_invoked w"
  by (simp_all add: settle_graph_def)

lemma invoke_frame:
  assumes "invoke_graph e fresh c w = (res, w')"
  shows "ww_events w' = ww_events w" and "ww_invoked w' = ww_invoked w @ [gc_run_id c]"
proof -
  let ?w = "settle_graph (xe_graph e c w) (w\<lparr>ww_invoked := ww_invoked w @ [gc_run_id c]\<rparr>)"
  have "ww_events w' = ww_events w \<and> ww_invoked w' = ww_invoked w @ [gc_run_id c]"
  proof (cases "xe_streaming e")
    case True
    obtain r1 w1 where loop: "stream_loop e (gc_run_id c) (gc_surface c) (text_or e (gc_state c) ''project_id'' [])
        (gy_events (xe_graph e c w)) None ?w = (r1, w1)" by force
    have "w' = w1 \<or> (\<exists>v. w' = publish_envelope e v w1)"
      using assms True loop by (auto simp: invoke_graph_def invoke_streaming_def Let_def split: sum.splits option.splits)
    moreover have "ww_events w1 = ww_events w \<and> ww_invoked w1 = ww_invoked w @ [gc_run_id c]"
      using stream_loop_frame [OF loop] by simp
    ultimately show ?thesis by auto
  next
    case False
    then have "w' = ?w" using assms by (simp add: invoke_graph_def invoke_plain_def Let_def)
    then show ?thesis by simp
  qed
  then show "ww_events w' = ww_events w" "ww_invoked w' = ww_invoked w @ [gc_run_id c]" by blast+
qed

lemma definition_for_frame:
  "definition_for e event org key w = (res, w') \<Longrightarrow> ww_events w' = ww_events w \<and> ww_invoked w' = ww_invoked w"
  by (auto simp: definition_for_def Let_def split: if_splits sum.splits option.splits prod.splits)

lemma canonical_run_frame:
  assumes "ensure_canonical_run e event i surface w = (res, w')"
  shows "ww_events w' = ww_events w \<and> ww_invoked w' = ww_invoked w"
proof (cases "xe_part e Runs = Absent \<or> org_of e event = []")
  case False
  obtain d w1 where d: "definition_for e event (org_of e event) (workflow_key_for (xe_lib e) event surface) w = (d, w1)" by force
  have "w' = w1 \<or> (\<exists>t. w' = with_runs t w1)"
    using assms False d
    by (cases d) (auto simp: ensure_canonical_run_def Let_def split: sum.splits if_splits prod.splits)
  then show ?thesis using definition_for_frame [OF d] by auto
qed (use assms in \<open>auto simp: ensure_canonical_run_def\<close>)

lemma build_frame:
  "build_graph e i surface w = (res, w') \<Longrightarrow> ww_events w' = ww_events w \<and> ww_invoked w' = ww_invoked w"
  by (auto simp: build_graph_def split: option.splits)

lemma index_files_frame [simp]:
  "ww_events (index_files e n us w) = ww_events w" "ww_invoked (index_files e n us w) = ww_invoked w"
  by (induction us arbitrary: n w) simp_all

lemma persist_nodes_frame:
  "persist_nodes e event i n repository nds w = (res, w') \<Longrightarrow> ww_events w' = ww_events w \<and> ww_invoked w' = ww_invoked w"
proof (induction nds arbitrary: n repository w)
  case (Cons nd nds)
  show ?case
  proof (cases "ne_node_id nd \<in> {''update'', ''create''} \<and> structured_dict (ne_own nd) \<noteq> None")
    case False
    then show ?thesis using Cons by (auto split: if_splits option.splits)
  next
    case True
    then obtain d where d: "structured_dict (ne_own nd) = Some d" by blast
    show ?thesis
    proof (cases "dict_items (jget d ''files'')")
      case (Inl x)
      then show ?thesis using Cons.prems True d by auto
    next
      case (Inr files)
      then show ?thesis using Cons.IH Cons.prems True d by (fastforce simp: Let_def)
    qed
  qed
qed simp

lemma document_changes_frame:
  "persist_document_changes e event i r w = (res, w') \<Longrightarrow> ww_events w' = ww_events w \<and> ww_invoked w' = ww_invoked w"
  by (auto simp: persist_document_changes_def dest: persist_nodes_frame split: if_splits)

lemma delivery_frame [simp]:
  "ww_events (persist_delivery_result e event i r w) = ww_events w"
  "ww_invoked (persist_delivery_result e event i r w) = ww_invoked w"
  by (simp_all add: persist_delivery_result_def Let_def split: option.split)

lemma evaluation_frame:
  "persist_evaluation_outcome e event i v w = (res, w') \<Longrightarrow> ww_events w' = ww_events w \<and> ww_invoked w' = ww_invoked w"
  by (auto simp: persist_evaluation_outcome_def Let_def split: if_splits sum.splits)

lemma store_one_frame [simp]:
  "ww_events (store_one e i surface org n ir w) = ww_events w" "ww_invoked (store_one e i surface org n ir w) = ww_invoked w"
  by (simp_all add: store_one_def)

lemma store_interrupts_frame:
  "store_interrupts e i surface org n irs s w = (ids, s', w') \<Longrightarrow> ww_events w' = ww_events w \<and> ww_invoked w' = ww_invoked w"
  by (induction irs arbitrary: n s w ids) (fastforce simp: Let_def split: prod.splits)+

section \<open>How a run settles\<close>

text \<open>The text under which a status is stored.\<close>

definition stored_status :: "workflow_status \<Rightarrow> string" where
  "stored_status st =
     (case st of
        Run_Pending \<Rightarrow> ''pending'' | Run_Running \<Rightarrow> ''running'' | Run_Duplicate \<Rightarrow> ''duplicate''
      | Run_Pending_Review \<Rightarrow> ''pending_review'' | Run_Pending_Intervention \<Rightarrow> ''pending_intervention''
      | Run_Delivered \<Rightarrow> ''completed'' | Run_Failed \<Rightarrow> ''failed'' | Run_Skipped \<Rightarrow> ''skipped'')"

definition settled_statuses :: "workflow_status set" where
  "settled_statuses = {Run_Pending_Review, Run_Pending_Intervention, Run_Delivered, Run_Failed}"

lemma mark_events: "ww_events (mark_event e event st w) =
    (if down e Marks then ww_events w else mark_status (xe_now e) (text_of e (jget event ''event_id'')) st (ww_events w))"
  by (simp add: mark_event_def)

text \<open>A settlement that returns has marked the event with its status; one that raises has not.\<close>

definition settles :: "env \<Rightarrow> jobj \<Rightarrow> wf_state res \<times> world \<Rightarrow> world \<Rightarrow> bool" where
  "settles e event o1 w \<longleftrightarrow>
     ww_invoked (snd o1) = ww_invoked w
     \<and> (case fst o1 of
          Inl _ \<Rightarrow> ww_events (snd o1) = ww_events w
        | Inr s \<Rightarrow> ws_status s \<in> settled_statuses
            \<and> ww_events (snd o1) = ww_events (mark_event e event (stored_status (ws_status s)) w))"

lemma settlesI:
  assumes "o1 = (Inr s, w')" and "ws_status s \<in> settled_statuses" and "ww_invoked w' = ww_invoked w"
    and "ww_events w' = ww_events (mark_event e event (stored_status (ws_status s)) w)"
  shows "settles e event o1 w"
  using assms by (simp add: settles_def)

lemma settle_failed_settles: "settles e event (settle_failed e event i error failed evaluation s w) w"
proof -
  obtain u w1 where ev: "persist_evaluation_outcome e event i evaluation (persist_lifecycle e event ''failed'' i (Some error)
      (Some (result_of ''FAILED'' [(''failed_nodes'', JList (map JStr failed))] evaluation)) w) = (u, w1)" by force
  show ?thesis
    using evaluation_frame [OF ev]
    by (cases u) (simp_all add: settle_failed_def ev settles_def settled_statuses_def stored_status_def mark_events)
qed

lemma settle_completed_settles: "settles e event (settle_completed e event i r evaluation s w) w"
proof -
  obtain u w1 where doc: "persist_document_changes e event i r w = (u, w1)" by force
  obtain u2 w2 where ev: "persist_evaluation_outcome e event i evaluation (persist_lifecycle e event ''completed'' i None
      (Some (result_of ''COMPLETED'' [] evaluation)) (persist_delivery_result e event i r w1)) = (u2, w2)" by force
  show ?thesis
    using document_changes_frame [OF doc] evaluation_frame [OF ev]
    by (cases u; cases u2) (simp_all add: settle_completed_def doc ev settles_def settled_statuses_def stored_status_def mark_events)
qed

lemma finish_settles: "settles e event (finish_result e event surface r s w) w"
proof -
  let ?lib = "xe_lib e"
  consider (paused) "effective_status ?lib r = ''INTERRUPTED''"
    | (complete) "effective_status ?lib r = ''COMPLETED''"
    | (broken) "effective_status ?lib r \<noteq> ''INTERRUPTED''" "effective_status ?lib r \<noteq> ''COMPLETED''" by blast
  then show ?thesis
  proof cases
    case paused
    let ?s1 = "s\<lparr>ws_value := Graph_Value r, ws_errors := ws_errors s @ (if effective_status ?lib r = gr_status r then [] else failed_node_ids r)\<rparr>"
    obtain ids s2 w1 where st: "store_interrupts e (ws_run_id s) surface (org_of e event) 200 (gr_interrupts r) ?s1 w = (ids, s2, w1)"
      by (metis prod_cases3)
    have "finish_result e event surface r s w =
        (if ids \<noteq> [] then (Inr (s2\<lparr>ws_status := Run_Pending_Intervention\<rparr>),
             settle_paused e event (ws_run_id s) ''pending_intervention'' (result_of ''PENDING_INTERVENTION'' [] (node_payload_of ?lib r ''evaluate'')) w1)
         else (Inr (s2\<lparr>ws_status := Run_Pending_Review\<rparr>), notify_reviewers e (ws_run_id s)
             (settle_paused e event (ws_run_id s) ''pending_review'' (result_of ''PENDING_REVIEW'' [] (node_payload_of ?lib r ''evaluate'')) w1)))"
      using paused st by (simp add: finish_result_def Let_def)
    then show ?thesis
      using store_interrupts_frame [OF st]
      by (simp add: settles_def settle_paused_def settled_statuses_def stored_status_def mark_events)
  next
    case complete
    then show ?thesis
      by (simp add: finish_result_def Let_def settle_failed_settles settle_completed_settles)
  next
    case broken
    then show ?thesis by (simp add: finish_result_def Let_def settle_failed_settles)
  qed
qed

text \<open>A claimed run: the canonical row, the graph, one invocation, one settlement.\<close>

lemma with_repo_dir_id [simp]: "jget (with_repo_dir e event) ''event_id'' = jget event ''event_id''"
  by (simp add: with_repo_dir_def jget_jset split: option.split)

lemma mark_repo_dir [simp]: "mark_event e (with_repo_dir e event) st w = mark_event e event st w"
  by (simp add: mark_event_def)

lemma execute_run_effect:
  assumes "execute_run e event surface s w = (res, w')"
  shows "(ww_invoked w' = ww_invoked w \<or> ww_invoked w' = ww_invoked w @ [text_or e event ''event_id'' []])
    \<and> (case res of
         Inl _ \<Rightarrow> ww_events w' = ww_events w
       | Inr s' \<Rightarrow> ws_status s' \<in> settled_statuses
           \<and> ww_events w' = ww_events (mark_event e event (stored_status (ws_status s')) w))"
proof -
  obtain u w1 where run: "ensure_canonical_run e event (ws_run_id s) surface w = (u, w1)" by force
  note f1 = canonical_run_frame [OF run]
  show ?thesis
  proof (cases u)
    case (Inl x)
    then show ?thesis using assms f1 by (auto simp: execute_run_def run Let_def)
  next
    case u: (Inr a)
    let ?event = "with_repo_dir e event"
    obtain v w2 where build: "build_graph e (ws_run_id s) surface w1 = (v, w2)" by force
    note f2 = build_frame [OF build]
    show ?thesis
    proof (cases v)
      case (Inl x)
      then show ?thesis using assms f1 f2 u by (auto simp: execute_run_def run build Let_def)
    next
      case v: (Inr b)
      let ?w = "broadcast_lifecycle e (org_of e ?event) (ws_run_id s) ''running''
        (persist_lifecycle e ?event ''running'' (ws_run_id s) None None w2)"
      let ?c = "call_of e ?event surface (JObj ?event) ?w"
      obtain r w3 where inv: "invoke_graph e True ?c ?w = (r, w3)" by force
      have f3: "ww_events w3 = ww_events w" "ww_invoked w3 = ww_invoked w @ [text_or e event ''event_id'' []]"
        using invoke_frame [OF inv] f1 f2 by (simp_all add: call_of_def)
      show ?thesis
      proof (cases r)
        case (Inl x)
        then show ?thesis using assms f3 u v by (auto simp: execute_run_def run build inv Let_def)
      next
        case r: (Inr y)
        have "(res, w') = finish_result e ?event surface y s w3"
          using assms u v r by (simp add: execute_run_def run build inv Let_def)
        then have "settles e ?event (res, w') w3" using finish_settles by metis
        then show ?thesis using f3 by (cases res) (simp_all add: settles_def mark_events)
      qed
    qed
  qed
qed

section \<open>One invocation per event\<close>

abbreviation known :: "world \<Rightarrow> string set" where "known w \<equiv> ev_event_id ` set (ww_events w)"

lemma mark_known [simp]: "known (mark_event e event st w) = known w"
proof -
  have "map ev_event_id (mark_status now i st t) = map ev_event_id t" for now i t
    unfolding mark_status_def by (rule map_key_upd_where) simp
  then have "ev_event_id ` set (mark_status now i st t) = ev_event_id ` set t" for now i t
    by (metis set_map)
  then show ?thesis by (simp add: mark_events)
qed

lemma claim_effect:
  assumes "working e Claims" and "claim_event e event i w = (res, w')"
  shows "(\<exists>x. res = Inl x \<and> w' = w)
    \<or> (\<exists>c. res = Inr (i \<notin> known w) \<and> w' = w\<lparr>ww_events := insert_new ev_event_id (claimed_event (xe_now e) i c) (ww_events w)\<rparr>)"
  using assms by (auto simp: claim_event_def try_claim_def split: sum.splits)

text \<open>The outcomes of a delivery, by what the events table knew.\<close>

lemma run_id_of: "jget event ''event_id'' = JStr i \<Longrightarrow> i \<noteq> [] \<Longrightarrow> str_or render (jget event ''event_id'') dflt = i"
  by (simp add: str_or_def py_str_def)

lemma run_known:
  assumes "working e Claims" and "jget event ''event_id'' = JStr i" "i \<noteq> []" and "i \<in> known w"
    and "run_workflow e event w = (res, w')"
  shows "w' = w \<and> (\<forall>s. res = Inr s \<longrightarrow> ws_status s \<in> {Run_Duplicate, Run_Skipped})"
proof -
  obtain c w1 where cl: "claim_event e event i w = (c, w1)" by force
  have "(\<exists>x. c = Inl x) \<or> c = Inr False" "w1 = w"
    using claim_effect [OF assms(1) cl] assms(4) by (auto simp: insert_new_def claimed_event_def)
  then show ?thesis
    using assms(5) by (auto simp: run_workflow_def run_id_of [OF assms(2,3)] cl Let_def split: sum.splits option.splits if_splits)
qed

lemma run_new:
  assumes "working e Claims" and ids: "str_or (jl_render (xe_lib e)) (jget event ''event_id'') (xe_uuid e) = i" and "i \<notin> known w"
    and "run_workflow e event w = (res, w')"
  shows "(w' = w \<and> (\<forall>s. res = Inr s \<longrightarrow> ws_status s = Run_Skipped))
    \<or> (\<exists>c. let claimed = w\<lparr>ww_events := ww_events w @ [claimed_event (xe_now e) i c]\<rparr> in
          (ww_invoked w' = ww_invoked w \<or> ww_invoked w' = ww_invoked w @ [text_or e event ''event_id'' []])
          \<and> ((ww_events w' = ww_events claimed \<and> (\<forall>s. res = Inr s \<longrightarrow> ws_status s = Run_Duplicate))
             \<or> (\<exists>s. res = Inr s \<and> ws_status s \<in> settled_statuses
                  \<and> ww_events w' = ww_events (mark_event e event (stored_status (ws_status s)) claimed))))"
proof -
  obtain c w1 where cl: "claim_event e event i w = (c, w1)" by force
  consider (skip) "w' = w" "\<forall>s. res = Inr s \<longrightarrow> ws_status s = Run_Skipped"
    | (raised) x where "c = Inl x" "(res, w') = (Inl x, w1)"
    | (claimed) surface where "c = Inr True"
        "(res, w') = (let s = (fresh_state i)\<lparr>ws_surface := Some surface\<rparr> in
           case existing_support_delivery e event w1 of
             Some row \<Rightarrow> (Inr (s\<lparr>ws_status := Run_Duplicate, ws_value := Receipt_Value row\<rparr>), w1)
           | None \<Rightarrow> execute_run e event surface s w1)"
    | (lost) "c = Inr False"
  proof (cases "route_event (xe_lib e) event")
    case (Inr routed)
    show ?thesis
    proof (cases routed)
      case (Some surface)
      show ?thesis
      proof (cases "skipped_pull_request e event")
        case False
        note go = assms(4) [unfolded run_workflow_def ids cl Inr Some, simplified False, simplified Let_def, simplified]
        show ?thesis
        proof (cases c)
          case (Inl x)
          then show ?thesis using go cl by (intro raised [of x]) simp_all
        next
          case c: (Inr won)
          show ?thesis
          proof (cases won)
            case True
            then show ?thesis using go c cl by (intro claimed [of surface]) (simp_all add: Let_def)
          qed (use c lost in simp)
        qed
      qed (use Inr Some assms(4) in \<open>auto simp: run_workflow_def Let_def intro: skip\<close>)
    qed (use Inr assms(4) in \<open>auto simp: run_workflow_def Let_def intro: skip\<close>)
  qed (use assms(4) in \<open>auto simp: run_workflow_def Let_def intro: skip\<close>)
  then show ?thesis
  proof cases
    case skip
    then show ?thesis by blast
  next
    case raised
    then have "w1 = w" using claim_effect [OF assms(1) cl] by auto
    then show ?thesis using raised by auto
  next
    case lost
    then show ?thesis using claim_effect [OF assms(1) cl] assms(3) by auto
  next
    case claimed
    obtain d where w1: "w1 = w\<lparr>ww_events := ww_events w @ [claimed_event (xe_now e) i d]\<rparr>"
      using claim_effect [OF assms(1) cl] claimed(1) assms(3) by (auto simp: insert_new_def claimed_event_def)
    show ?thesis
    proof (cases "existing_support_delivery e event w1")
      case (Some row)
      then have "w' = w1" "\<forall>s. res = Inr s \<longrightarrow> ws_status s = Run_Duplicate" using claimed(2) by (auto simp: Let_def)
      then show ?thesis unfolding w1 by (intro disjI2 exI [of _ d]) (simp add: Let_def)
    next
      case None
      then have "execute_run e event surface ((fresh_state i)\<lparr>ws_surface := Some surface\<rparr>) w1 = (res, w')"
        using claimed(2) by (simp add: Let_def)
      from execute_run_effect [OF this] have inv: "ww_invoked w' = ww_invoked w1 \<or> ww_invoked w' = ww_invoked w1 @ [text_or e event ''event_id'' []]"
        and ev: "case res of Inl _ \<Rightarrow> ww_events w' = ww_events w1
          | Inr s' \<Rightarrow> ws_status s' \<in> settled_statuses \<and> ww_events w' = ww_events (mark_event e event (stored_status (ws_status s')) w1)"
        by simp_all
      show ?thesis
        using inv ev unfolding w1 by (intro disjI2 exI [of _ d]) (cases res; simp add: Let_def)
    qed
  qed
qed

lemma run_grows:
  assumes "working e Claims" and "jget event ''event_id'' = JStr i" "i \<noteq> []" and "run_workflow e event w = (res, w')"
  shows "known w \<subseteq> known w'" and "ww_invoked w' = ww_invoked w \<or> (ww_invoked w' = ww_invoked w @ [i] \<and> i \<notin> known w \<and> i \<in> known w')"
proof -
  have "known w \<subseteq> known w' \<and> (ww_invoked w' = ww_invoked w \<or> (ww_invoked w' = ww_invoked w @ [i] \<and> i \<notin> known w \<and> i \<in> known w'))"
  proof (cases "i \<in> known w")
    case True
    then show ?thesis using run_known [OF assms(1-3) True assms(4)] by simp
  next
    case False
    from run_new [OF assms(1) run_id_of [OF assms(2,3)] False assms(4)]
    consider "w' = w" | c where "ww_invoked w' = ww_invoked w \<or> ww_invoked w' = ww_invoked w @ [i]"
        "ww_events w' = ww_events w @ [claimed_event (xe_now e) i c]
         \<or> (\<exists>st. ww_events w' = ww_events (mark_event e event st (w\<lparr>ww_events := ww_events w @ [claimed_event (xe_now e) i c]\<rparr>)))"
      by (auto simp: Let_def run_id_of [OF assms(2,3)])
    then show ?thesis
    proof cases
      case 2
      let ?w = "w\<lparr>ww_events := ww_events w @ [claimed_event (xe_now e) i c]\<rparr>"
      have claimed: "known ?w = insert i (known w)" by (simp add: claimed_event_def)
      have "known w' = insert i (known w)"
        using 2(2)
      proof
        assume "ww_events w' = ww_events w @ [claimed_event (xe_now e) i c]"
        then show ?thesis using claimed by simp
      next
        assume "\<exists>st. ww_events w' = ww_events (mark_event e event st ?w)"
        then obtain st where "ww_events w' = ww_events (mark_event e event st ?w)" ..
        then show ?thesis using mark_known [of e event st ?w] claimed by simp
      qed
      with 2(1) False show ?thesis by auto
    qed simp
  qed
  then show "known w \<subseteq> known w'" "ww_invoked w' = ww_invoked w \<or> (ww_invoked w' = ww_invoked w @ [i] \<and> i \<notin> known w \<and> i \<in> known w')"
    by blast+
qed

text \<open>Deliveries in any order, each in an environment of its own.\<close>

fun deliver_all :: "(env \<times> jobj) list \<Rightarrow> world \<Rightarrow> world" where
  "deliver_all [] w = w"
| "deliver_all ((e, event) # ds) w = deliver_all ds (snd (run_workflow e event w))"

text \<open>
  C1. However often and in whatever order events are delivered, the graph is invoked at most once for each:
  with the claim working, the run ids of all invocations are distinct, whatever raises, times out or is
  delivered again in between.
\<close>

theorem graph_invoked_once:
  assumes "\<forall>(e, event) \<in> set ds. working e Claims \<and> (\<exists>i. jget event ''event_id'' = JStr i \<and> i \<noteq> [])"
    and "distinct (ww_invoked w)" and "set (ww_invoked w) \<subseteq> known w"
  shows "distinct (ww_invoked (deliver_all ds w))"
  using assms
proof (induction ds arbitrary: w)
  case (Cons d ds)
  obtain e event where d: "d = (e, event)" by force
  then obtain i where i: "working e Claims" "jget event ''event_id'' = JStr i" "i \<noteq> []" using Cons.prems(1) by auto
  obtain res w' where r: "run_workflow e event w = (res, w')" by force
  note g = run_grows [OF i r]
  have "distinct (ww_invoked w')" using g(2) Cons.prems(2,3) by auto
  moreover have "set (ww_invoked w') \<subseteq> known w'"
    using g(2)
  proof
    assume "ww_invoked w' = ww_invoked w"
    then show ?thesis using g(1) Cons.prems(3) by (metis subset_trans)
  next
    assume new: "ww_invoked w' = ww_invoked w @ [i] \<and> i \<notin> known w \<and> i \<in> known w'"
    then have "set (ww_invoked w') = insert i (set (ww_invoked w))" by (metis list.simps(15) append_Nil2 empty_set set_append Un_insert_right Un_empty_right)
    then show ?thesis using new g(1) Cons.prems(3) by (metis insert_subset subset_trans)
  qed
  ultimately have "distinct (ww_invoked w')" "set (ww_invoked w') \<subseteq> known w'" by blast+
  then show ?case using Cons.IH [of w'] Cons.prems(1) by (simp add: d r)
qed simp

definition idle_stream :: stream_state where
  "idle_stream = \<lparr>st_codec = True, st_log = [], st_runs = [], st_bus = [], st_next = 0\<rparr>"

definition empty_world :: world where
  "empty_world = \<lparr>ww_events = [], ww_jobs = [], ww_github = [], ww_stream = idle_stream, ww_definitions = [], ww_reviews = [],
     ww_inbox = [], ww_outcomes = [], ww_support = \<lparr>sp_slack = [], sp_discord = []\<rparr>, ww_pulls = [], ww_documents = [],
     ww_evaluations = [], ww_db = \<lparr>db_pages = [], db_tasks = [], db_evaluations = [], db_revisions = [], db_chunks = []\<rparr>,
     ww_broadcasts = [], ww_notified = [], ww_invoked = []\<rparr>"

definition plain_json_lib :: json_lib where
  "plain_json_lib = \<lparr>jl_loads = (\<lambda>_. None), jl_render = (\<lambda>_. ''{}'')\<rparr>"

definition plain_result :: "string \<Rightarrow> graph_result" where
  "plain_result status = \<lparr>gr_status = status, gr_interrupts = [], gr_order = [], gr_failed = Failed_Count 0, gr_usage = None\<rparr>"

definition sample_reply :: "graph_result \<Rightarrow> world \<Rightarrow> graph_reply" where
  "sample_reply r w = \<lparr>gy_events = [], gy_raised = None, gy_result = r, gy_db = ww_db w, gy_inbox = ww_inbox w, gy_jobs = ww_jobs w\<rparr>"

definition sample_env :: "graph_result \<Rightarrow> env" where
  "sample_env r =
     \<lparr>xe_now = 1, xe_uuid = ''u1'', xe_row_id = (\<lambda>n. ''row'' @ show_nat n), xe_part = (\<lambda>_. Working), xe_streaming = False,
      xe_lib = plain_json_lib, xe_stream_lib = \<lparr>sl_render = (\<lambda>_. ''{}''), sl_float = (\<lambda>_. None), sl_fmt = (\<lambda>_. [])\<rparr>,
      xe_review_lib = plain_review_lib, xe_round = (\<lambda>x. x), xe_policy = ''always'', xe_repo_dir = (\<lambda>_. None),
      xe_build = (\<lambda>_ _ _. None), xe_graph = (\<lambda>_ w. sample_reply r w), xe_session = No_Manager, xe_node = None\<rparr>"

definition sample_event :: "jobj \<Rightarrow> jobj" where
  "sample_event extra = (''event_type'', JStr ''issues.opened'') # extra"

theorem graph_invoked_once_witness:
  "distinct (ww_invoked (deliver_all (replicate 3 (sample_env (plain_result ''COMPLETED''), sample_event [(''event_id'', JStr ''e1'')])) empty_world))"
  by (rule graph_invoked_once) (simp_all add: sample_env_def sample_event_def empty_world_def)

text \<open>
  C23. A delivery that claimed its event and then raised, or was answered as a duplicate because the question
  already has a receipt, leaves the event running for good: its row keeps the status it was claimed with, and
  every later delivery of it is turned away without touching anything.
\<close>

theorem unfinished_event_stays_running:
  assumes "working e Claims" and "jget event ''event_id'' = JStr i" "i \<noteq> []" and "i \<notin> known w"
    and "run_workflow e event w = (res, w')" and "i \<in> known w'"
    and "case res of Inl _ \<Rightarrow> True | Inr s \<Rightarrow> ws_status s = Run_Duplicate"
  shows "(\<exists>row \<in> set (ww_events w'). ev_event_id row = i \<and> ev_status row = ''running'')
    \<and> (\<forall>e2. working e2 Claims \<longrightarrow> snd (run_workflow e2 event w') = w')"
proof -
  have no: "\<not> (\<exists>s. res = Inr s \<and> ws_status s \<in> settled_statuses)"
    using assms(7) by (auto simp: settled_statuses_def)
  have "w' \<noteq> w" using assms(4,6) by blast
  with run_new [OF assms(1) run_id_of [OF assms(2,3)] assms(4,5)] no
  obtain c where "ww_events w' = ww_events w @ [claimed_event (xe_now e) i c]" by (auto simp: Let_def)
  then have "claimed_event (xe_now e) i c \<in> set (ww_events w')" by simp
  moreover have "ev_event_id (claimed_event (xe_now e) i c) = i" "ev_status (claimed_event (xe_now e) i c) = ''running''"
    by (simp_all add: claimed_event_def)
  moreover have "snd (run_workflow e2 event w') = w'" if "working e2 Claims" for e2
    using run_known [OF that assms(2,3,6) prod.collapse [symmetric]] by blast
  ultimately show ?thesis by blast
qed

definition failing_build :: "env \<Rightarrow> env" where
  "failing_build e = e\<lparr>xe_build := \<lambda>_ _ _. Some (RuntimeError ''no model'')\<rparr>"

theorem unfinished_event_stays_running_witness:
  "\<exists>row \<in> set (ww_events (snd (run_workflow (failing_build (sample_env (plain_result ''COMPLETED'')))
       (sample_event [(''event_id'', JStr ''e1'')]) empty_world))). ev_event_id row = ''e1'' \<and> ev_status row = ''running''"
proof -
  let ?e = "failing_build (sample_env (plain_result ''COMPLETED''))" and ?ev = "sample_event [(''event_id'', JStr ''e1'')]"
  have w: "working ?e Claims" "jget ?ev ''event_id'' = JStr ''e1''" "''e1'' \<noteq> []" "''e1'' \<notin> known empty_world"
    by (simp_all add: failing_build_def sample_env_def sample_event_def empty_world_def)
  obtain x w' where r: "run_workflow ?e ?ev empty_world = (Inl x, w')" and k: "''e1'' \<in> known w'"
    by (simp add: run_workflow_def run_id_of [OF w(2,3)] route_event_def sample_event_def text_at_def py_str_def event_prefix_def
        SURFACE_BY_PREFIX_def dict_or_empty_def or_json_def skipped_pull_request_def str_or_def claim_event_def text_param_def
        try_claim_def insert_new_def existing_support_delivery_def execute_run_def ensure_canonical_run_def org_of_def
        failing_build_def sample_env_def empty_world_def Let_def build_graph_def claimed_event_def)
  show ?thesis
    using unfinished_event_stays_running [OF w r k] by (simp add: r)
qed

lemma sample_run_eval:
  assumes "ev = sample_event extra" and "extra = [] \<or> extra = [(''event_id'', JStr ''e1'')]"
  shows "\<exists>s w'. run_workflow (sample_env (plain_result ''COMPLETED'')) ev empty_world = (Inr s, w') \<and> ws_status s = Run_Delivered"
  using assms(2) unfolding assms(1)
  by (elim disjE)
    (simp_all add: run_workflow_def route_event_def sample_event_def text_at_def py_str_def event_prefix_def item_or_def
      SURFACE_BY_PREFIX_def dict_or_empty_def or_json_def skipped_pull_request_def str_or_def claim_event_def text_param_def
      try_claim_def insert_new_def existing_support_delivery_def execute_run_def ensure_canonical_run_def org_of_def
      sample_env_def empty_world_def Let_def build_graph_def claimed_event_def with_repo_dir_def invoke_graph_def invoke_plain_def
      sample_reply_def settle_graph_def forgive_timeout_def finish_result_def effective_status_def plain_result_def refused_def
      is_blocked_delivery_def is_empty_delivery_def delivery_receipt_def settle_completed_def persist_document_changes_def
      persist_evaluation_outcome_def node_payload_of_def broadcast_lifecycle_def fresh_state_def)

text \<open>
  A run of an event without an id never settles its event: the event is claimed under a generated id but
  marked under the text of the missing one, so whatever the run comes to, the claimed row keeps the status
  running.
\<close>

theorem unnamed_event_never_settles:
  assumes "working e Claims" and "jget event ''event_id'' = JNull" and "xe_uuid e \<notin> known w" and "xe_uuid e \<noteq> ''None''"
    and "run_workflow e event w = (Inr s, w')" and "ws_status s \<in> settled_statuses"
  shows "\<exists>row \<in> set (ww_events w'). ev_event_id row = xe_uuid e \<and> ev_status row = ''running''"
proof -
  have id: "str_or (jl_render (xe_lib e)) (jget event ''event_id'') (xe_uuid e) = xe_uuid e"
    by (simp add: assms(2) str_or_def)
  from run_new [OF assms(1) id assms(3,5)] assms(6)
  obtain c where "ww_events w' = ww_events (mark_event e event (stored_status (ws_status s))
      (w\<lparr>ww_events := ww_events w @ [claimed_event (xe_now e) (xe_uuid e) c]\<rparr>))"
    by (auto simp: Let_def settled_statuses_def)
  moreover have "text_of e (jget event ''event_id'') = ''None''" by (simp add: assms(2) py_str_def)
  ultimately have "claimed_event (xe_now e) (xe_uuid e) c \<in> set (ww_events w')"
    using assms(4) by (auto simp: mark_events mark_status_def upd_where_def claimed_event_def)
  then show ?thesis by (intro bexI [of _ "claimed_event (xe_now e) (xe_uuid e) c"]) (simp_all add: claimed_event_def)
qed

theorem unnamed_event_never_settles_witness:
  "\<exists>row \<in> set (ww_events (snd (run_workflow (sample_env (plain_result ''COMPLETED'')) (sample_event []) empty_world))).
     ev_event_id row = ''u1'' \<and> ev_status row = ''running''"
proof -
  let ?e = "sample_env (plain_result ''COMPLETED'')"
  obtain s w' where r: "run_workflow ?e (sample_event []) empty_world = (Inr s, w')" "ws_status s = Run_Delivered"
    using sample_run_eval [OF refl, of "[]"] by blast
  have "working ?e Claims" "jget (sample_event []) ''event_id'' = JNull" "xe_uuid ?e \<notin> known empty_world" "xe_uuid ?e \<noteq> ''None''"
    by (simp_all add: sample_env_def sample_event_def empty_world_def)
  from unnamed_event_never_settles [OF this r(1)] r(2) show ?thesis
    by (simp add: r(1) settled_statuses_def) (simp add: sample_env_def)
qed

section \<open>The tables agree\<close>

text \<open>Every row that is kept of the run has the status.\<close>

definition rows_agree :: "env \<Rightarrow> string \<Rightarrow> string \<Rightarrow> string \<Rightarrow> world \<Rightarrow> bool" where
  "rows_agree e org run_id st w \<longleftrightarrow>
     (working e Jobs \<longrightarrow> (\<forall>r \<in> set (ww_jobs w). jb_run_id r = Some run_id \<longrightarrow> jb_status r = st))
     \<and> (working e Github \<longrightarrow> (\<forall>r \<in> set (ww_github w). gw_workflow_id r = run_id \<longrightarrow> gw_status r = st))
     \<and> (working e Runs \<longrightarrow> (\<forall>r \<in> set (st_runs (ww_stream w)). wr_id r = run_id \<and> wr_org_id r = org \<longrightarrow> wr_status r = st))"

lemma job_agrees:
  assumes "r \<in> set (snd (update_job_status now i st err v t))" and "jb_run_id r = Some i"
  shows "jb_status r = st"
proof (cases "get_job i t")
  case None
  then have "r \<in> set t" using assms(1) by (simp add: update_job_status_def)
  then show ?thesis using None assms(2) by (simp add: get_job_def find_None_iff)
next
  case (Some q)
  then show ?thesis using assms by (auto simp: update_job_status_def set_upd_where set_job_status_def)
qed

lemma upd_whereE:
  assumes "r \<in> set (upd_where p f t)"
  obtains q where "q \<in> set t" "p q" "r = f q" | "r \<in> set t" "\<not> p r"
  using assms unfolding set_upd_where by blast

lemma run_agrees:
  assumes "r \<in> set (snd (update_run_state now org i u t))" and "wr_id r = i" and "wr_org_id r = org" and "su_status u \<in> set RUN_STATUSES"
  shows "wr_status r = su_status u"
proof -
  have "r \<in> set (upd_where (\<lambda>r. wr_id r = i \<and> wr_org_id r = org) (apply_state now u) t)"
    using assms(1,4) by (simp add: update_run_state_def)
  then show ?thesis
  proof (cases rule: upd_whereE)
    case (1 q)
    then show ?thesis by (simp add: apply_state_def)
  next
    case 2
    then show ?thesis using assms(2,3) by simp
  qed
qed

lemma github_agrees:
  assumes "r \<in> set (update_github_workflow_status now i st t)" and "gw_workflow_id r = i"
  shows "gw_status r = st"
  using assms(1) unfolding update_github_workflow_status_def
proof (cases rule: upd_whereE)
  case (1 q)
  then show ?thesis by simp
next
  case 2
  then show ?thesis using assms(2) by simp
qed

lemma with_runs_tables [simp]:
  "ww_jobs (with_runs t w) = ww_jobs w" "ww_github (with_runs t w) = ww_github w" "st_runs (ww_stream (with_runs t w)) = t"
  by (simp_all add: with_runs_def)

lemma lifecycle_jobs: "working e Jobs \<Longrightarrow>
    ww_jobs (persist_lifecycle e event st i err v w) = snd (update_job_status (xe_now e) i st err (map_option JObj v) (ww_jobs w))"
  by (simp add: persist_lifecycle_def Let_def)

lemma lifecycle_github: "working e Github \<Longrightarrow>
    ww_github (persist_lifecycle e event st i err v w) = update_github_workflow_status (xe_now e) i st (ww_github w)"
  by (simp add: persist_lifecycle_def Let_def)

lemma lifecycle_runs: "working e Runs \<Longrightarrow>
    st_runs (ww_stream (persist_lifecycle e event st i err v w)) = snd (update_run_state (xe_now e) (org_of e event) i
      \<lparr>su_status = st, su_current_stage = None, su_stage_states = None, su_error = err,
       su_output = map_option JObj (safe_display_result v)\<rparr> (st_runs (ww_stream w)))"
  by (simp add: persist_lifecycle_def Let_def)

lemma lifecycle_agrees:
  assumes "st \<in> set RUN_STATUSES"
  shows "rows_agree e (org_of e event) i st (persist_lifecycle e event st i err v w)"
  unfolding rows_agree_def
proof (intro conjI impI ballI)
  fix r assume "working e Jobs" "r \<in> set (ww_jobs (persist_lifecycle e event st i err v w))" "jb_run_id r = Some i"
  then show "jb_status r = st" unfolding lifecycle_jobs [OF \<open>working e Jobs\<close>] by (rule_tac job_agrees)
next
  fix r assume "working e Github" "r \<in> set (ww_github (persist_lifecycle e event st i err v w))" "gw_workflow_id r = i"
  then show "gw_status r = st" unfolding lifecycle_github [OF \<open>working e Github\<close>] by (rule_tac github_agrees)
next
  fix r assume w: "working e Runs"
    and r: "r \<in> set (st_runs (ww_stream (persist_lifecycle e event st i err v w)))" "wr_id r = i \<and> wr_org_id r = org_of e event"
  show "wr_status r = st"
    using run_agrees [OF r(1) [unfolded lifecycle_runs [OF w]] conjunct1 [OF r(2)] conjunct2 [OF r(2)]] assms by simp
qed

lemma rows_agree_mark [simp]: "rows_agree e org i st (mark_event e event x w) = rows_agree e org i st w"
  by (simp add: rows_agree_def mark_event_def)
lemma rows_agree_broadcast [simp]: "rows_agree e org i st (broadcast_lifecycle e o1 j x w) = rows_agree e org i st w"
  by (simp add: rows_agree_def broadcast_lifecycle_def)
lemma rows_agree_notify [simp]: "rows_agree e org i st (notify_reviewers e j w) = rows_agree e org i st w"
  by (simp add: rows_agree_def notify_reviewers_def)

lemma rows_agree_evaluation:
  "persist_evaluation_outcome e event i v w = (res, w') \<Longrightarrow> rows_agree e org j st w' = rows_agree e org j st w"
  by (auto simp: persist_evaluation_outcome_def Let_def rows_agree_def split: if_splits sum.splits)

lemma known_statuses: "{''pending_review'', ''pending_intervention'', ''completed'', ''failed'', ''running''} \<subseteq> set RUN_STATUSES"
  by (simp add: RUN_STATUSES_def)

lemma settle_failed_agrees:
  assumes "settle_failed e event i error failed evaluation s w = (Inr s', w')"
  shows "rows_agree e (org_of e event) i (stored_status (ws_status s')) w'"
proof -
  let ?w = "persist_lifecycle e event ''failed'' i (Some error) (Some (result_of ''FAILED'' [(''failed_nodes'', JList (map JStr failed))] evaluation)) w"
  obtain u w1 where ev: "persist_evaluation_outcome e event i evaluation ?w = (u, w1)" by force
  have "rows_agree e (org_of e event) i ''failed'' ?w" by (rule lifecycle_agrees) (simp add: RUN_STATUSES_def)
  then show ?thesis using assms rows_agree_evaluation [OF ev]
    by (cases u) (auto simp: settle_failed_def ev stored_status_def)
qed

lemma settle_completed_agrees:
  assumes "settle_completed e event i r evaluation s w = (Inr s', w')"
  shows "rows_agree e (org_of e event) i (stored_status (ws_status s')) w'"
proof -
  obtain u w1 where doc: "persist_document_changes e event i r w = (u, w1)" by force
  let ?w = "persist_lifecycle e event ''completed'' i None (Some (result_of ''COMPLETED'' [] evaluation)) (persist_delivery_result e event i r w1)"
  obtain u2 w2 where ev: "persist_evaluation_outcome e event i evaluation ?w = (u2, w2)" by force
  have "rows_agree e (org_of e event) i ''completed'' ?w" by (rule lifecycle_agrees) (simp add: RUN_STATUSES_def)
  then show ?thesis using assms rows_agree_evaluation [OF ev]
    by (cases u; cases u2) (auto simp: settle_completed_def doc ev stored_status_def)
qed

lemma settle_paused_agrees:
  "st \<in> set RUN_STATUSES \<Longrightarrow> rows_agree e (org_of e event) i st (settle_paused e event i st v w)"
  by (simp add: settle_paused_def lifecycle_agrees)

text \<open>
  C6. A graph result settles as waiting for review, waiting for an intervention, completed or failed, and every
  store that works tells that story: where the job store, the GitHub read model or the run store works, each of
  its rows of the run (of the run and the organization, for canonical runs) carries the status that was
  returned, completed for a delivered run, and where the event store works, so does each row under the text of
  the event's id. A store that fails keeps its rows as they were, and an event without an id names no row.
\<close>

theorem settled_tables_agree:
  assumes "finish_result e event surface r s w = (Inr s', w')"
  shows "ws_status s' \<in> settled_statuses
    \<and> rows_agree e (org_of e event) (ws_run_id s) (stored_status (ws_status s')) w'
    \<and> (working e Marks \<longrightarrow> (\<forall>row \<in> set (ww_events w'). ev_event_id row = text_of e (jget event ''event_id'')
          \<longrightarrow> ev_status row = stored_status (ws_status s')))"
proof -
  have s: "ws_status s' \<in> settled_statuses" "ww_events w' = ww_events (mark_event e event (stored_status (ws_status s')) w)"
    using finish_settles [of e event surface r s w] assms by (simp_all add: settles_def)
  have "rows_agree e (org_of e event) (ws_run_id s) (stored_status (ws_status s')) w'"
  proof (cases "effective_status (xe_lib e) r = ''INTERRUPTED''")
    case True
    then show ?thesis
      using assms known_statuses
      by (auto simp: finish_result_def Let_def stored_status_def settle_paused_agrees split: prod.splits if_splits)
  next
    case False
    then show ?thesis
      using assms settle_failed_agrees settle_completed_agrees
      by (auto simp: finish_result_def Let_def split: if_splits)
  qed
  moreover have "ev_status row = stored_status (ws_status s')"
    if "working e Marks" "row \<in> set (ww_events w')" "ev_event_id row = text_of e (jget event ''event_id'')" for row
    using that by (auto simp: s(2) mark_events mark_status_def upd_where_def)
  ultimately show ?thesis using s(1) by blast
qed

text \<open>The sample: a run with its event, its job and its GitHub row, and a graph that failed.\<close>

definition started_world :: world where
  "started_world = empty_world\<lparr>
     ww_events := [claimed_event 0 ''e1'' \<lparr>ec_source = ''github'', ec_event_type = ''issues.opened'', ec_repository = None,
        ec_actor = None, ec_payload = JNull, ec_org_id = None\<rparr>],
     ww_jobs := [\<lparr>jb_id = ''j1'', jb_run_id = Some ''e1'', jb_org_id = [], jb_name = ''n'', jb_job_type = ''t'', jb_schedule = [],
        jb_status = ''running'', jb_configuration = JNull, jb_last_run_at = None, jb_error = None, jb_result = None,
        jb_started_at = None, jb_completed_at = None, jb_updated_at = 0\<rparr>],
     ww_github := [\<lparr>gw_workflow_id = ''e1'', gw_org_id = [], gw_installation_id = 1, gw_owner = ''o'', gw_repo = ''r'',
        gw_issue_number = 1, gw_run_id = ''e1'', gw_title = [], gw_actor = [], gw_event_type = None, gw_status = ''running'',
        gw_completed_at = None, gw_created_at = 0\<rparr>]\<rparr>"

theorem settled_tables_agree_witness:
  "\<exists>s' w'. finish_result (sample_env (plain_result ''FAILED'')) (sample_event [(''event_id'', JStr ''e1'')]) ''issue''
       (plain_result ''FAILED'') (fresh_state ''e1'') started_world = (Inr s', w')
     \<and> ws_status s' = Run_Failed \<and> length (ww_jobs w') = 1 \<and> length (ww_github w') = 1 \<and> length (ww_events w') = 1
     \<and> rows_agree (sample_env (plain_result ''FAILED'')) [] ''e1'' ''failed'' w'
     \<and> (\<forall>row \<in> set (ww_events w'). ev_event_id row = ''e1'' \<longrightarrow> ev_status row = ''failed'')"
proof -
  let ?e = "sample_env (plain_result ''FAILED'')" and ?ev = "sample_event [(''event_id'', JStr ''e1'')]"
  define out where "out = finish_result ?e ?ev ''issue'' (plain_result ''FAILED'') (fresh_state ''e1'') started_world"
  have "(case fst out of Inr s' \<Rightarrow> ws_status s' = Run_Failed | Inl _ \<Rightarrow> False) \<and> length (ww_jobs (snd out)) = 1
      \<and> length (ww_github (snd out)) = 1 \<and> length (ww_events (snd out)) = 1"
    unfolding out_def by code_simp
  then obtain s' w' where r: "out = (Inr s', w')" "ws_status s' = Run_Failed" "length (ww_jobs w') = 1"
      "length (ww_github w') = 1" "length (ww_events w') = 1"
    by (cases out) (auto split: sum.splits)
  have org: "org_of ?e ?ev = []" "text_of ?e (jget ?ev ''event_id'') = ''e1''" "ws_run_id (fresh_state ''e1'') = ''e1''"
      "stored_status Run_Failed = ''failed''" "working ?e Marks" by code_simp+
  from settled_tables_agree [OF r(1) [unfolded out_def], unfolded r(2) org]
  show ?thesis using r org(5) unfolding out_def by blast
qed

end
