(* ===== verification/Run_Entry.thy ===== *)
theory Run_Entry
  imports Workflow_Runner
begin

text \<open>
  The workflow functions around the runner (\<^verbatim>\<open>workflows/documentation/github_pr_workflow.py\<close>,
  \<^verbatim>\<open>github_release_workflow.py\<close>) and the repair of rows that fell behind
  (\<^verbatim>\<open>workflows/documentation/reconciliation.py\<close>, \<^verbatim>\<open>stale_reconcile_workflow.py\<close>). The clock counts seconds; a
  sweep sees the tables as they are when it starts, so its second look at the event log is the first one.
\<close>

section \<open>Reconciling one run\<close>

definition TERMINAL_STATUSES :: "string list" where
  "TERMINAL_STATUSES = [''completed'', ''failed'', ''pending_review'', ''skipped'']"

text \<open>A status alone: error and result of the job row are left to their defaults, which are null.\<close>

definition set_job :: "env \<Rightarrow> string \<Rightarrow> string \<Rightarrow> world \<Rightarrow> world" where
  "set_job e run_id status w =
     (if down e Jobs then w
      else w\<lparr>ww_jobs := snd (update_job_status (xe_now e) run_id status None None (ww_jobs w))\<rparr>)"

definition set_github :: "env \<Rightarrow> string \<Rightarrow> string \<Rightarrow> world \<Rightarrow> world" where
  "set_github e run_id status w =
     (if down e Github then w
      else w\<lparr>ww_github := update_github_workflow_status (xe_now e) run_id status (ww_github w)\<rparr>)"

definition reconcile_run :: "env \<Rightarrow> string \<Rightarrow> world \<Rightarrow> string option res \<times> world" where
  "reconcile_run e run_id w =
     (if run_id = [] then (Inr None, w)
      else case xe_part e Lookups of
        Absent \<Rightarrow> (Inr None, w)
      | Failing \<Rightarrow> (Inl OutOfService, w)
      | Working \<Rightarrow>
          (case find_by_event_id run_id (ww_events w) of
             None \<Rightarrow> (Inr None, w)
           | Some row \<Rightarrow>
               if ev_status row \<notin> set TERMINAL_STATUSES then (Inr None, w)
               else (Inr (Some (ev_status row)), set_github e run_id (ev_status row) (set_job e run_id (ev_status row) w))))"

fun reconcile_each :: "env \<Rightarrow> string list \<Rightarrow> nat \<Rightarrow> world \<Rightarrow> nat res \<times> world" where
  "reconcile_each e [] n w = (Inr n, w)"
| "reconcile_each e (i # is) n w =
     and_then_do (reconcile_run e i w) (\<lambda>r w. reconcile_each e is (if r = None then n else Suc n) w)"

definition reconcile_stale_runs :: "env \<Rightarrow> nat \<Rightarrow> world \<Rightarrow> nat res \<times> world" where
  "reconcile_stale_runs e limit w =
     (case xe_part e Lookups of
        Absent \<Rightarrow> (Inr 0, w)
      | Failing \<Rightarrow> (Inl OutOfService, w)
      | Working \<Rightarrow> reconcile_each e (map fst (list_recent_runs limit (ww_events w))) 0 w)"

section \<open>The sweep\<close>

definition DEFAULT_STALE_AFTER_SECONDS :: int where "DEFAULT_STALE_AFTER_SECONDS = 3600"

text \<open>The threshold: the execution timeout of the configuration with a margin, at least an hour.\<close>

definition default_stale_after :: "real option \<Rightarrow> int" where
  "default_stale_after timeout =
     (case timeout of
        None \<Rightarrow> DEFAULT_STALE_AFTER_SECONDS
      | Some t \<Rightarrow> if 0 < t then max DEFAULT_STALE_AFTER_SECONDS (\<lfloor>t\<rfloor> + 600) else DEFAULT_STALE_AFTER_SECONDS)"

definition set_read_models_failed :: "env \<Rightarrow> string \<Rightarrow> world \<Rightarrow> world" where
  "set_read_models_failed e run_id w = set_github e run_id ''failed'' (set_job e run_id ''failed'' w)"

definition fail_event :: "env \<Rightarrow> string \<Rightarrow> world \<Rightarrow> world" where
  "fail_event e run_id w =
     (if down e Lookups \<or> down e Marks \<or> find_by_event_id run_id (ww_events w) = None then w
      else w\<lparr>ww_events := mark_status (xe_now e) run_id ''failed'' (ww_events w)\<rparr>)"

definition recover :: "env \<Rightarrow> string \<times> string \<Rightarrow> world \<Rightarrow> unit res \<times> world" where
  "recover e row w =
     and_then_do (reconcile_run e (fst row) (fail_event e (fst row) w)) (\<lambda>r w.
       let w = (if r = None then set_read_models_failed e (fst row) w else w)
       in (Inr (), broadcast_lifecycle e (snd row) (fst row) ''failed'' w))"

fun recover_each :: "env \<Rightarrow> (string \<times> string) list \<Rightarrow> world \<Rightarrow> nat res \<times> world" where
  "recover_each e [] w = (Inr 0, w)"
| "recover_each e (row # rows) w =
     and_then_do (recover e row w) (\<lambda>_ w. and_then_do (recover_each e rows w) (\<lambda>n w. (Inr (Suc n), w)))"

text \<open>The terminal runs of the log; a log that cannot be read has none.\<close>

definition terminal_runs :: "env \<Rightarrow> string list \<Rightarrow> world \<Rightarrow> string set" where
  "terminal_runs e ids w = (if down e Event_Log then {} else terminal_run_ids ids (st_log (ww_stream w)))"

definition stuck_rows :: "env \<Rightarrow> int \<Rightarrow> nat \<Rightarrow> world \<Rightarrow> (string \<times> string) list" where
  "stuck_rows e stale_after limit w =
     filter (\<lambda>r. fst r \<noteq> [] \<and> fst r \<notin> terminal_runs e [fst r] w)
       (list_stuck (xe_now e - stale_after) ''running'' limit (ww_jobs w))"

definition sweep_seconds :: "int option \<Rightarrow> real option \<Rightarrow> int" where
  "sweep_seconds stale_after timeout =
     (case stale_after of None \<Rightarrow> default_stale_after timeout
      | Some n \<Rightarrow> if n = 0 then default_stale_after timeout else n)"

definition mark_stale_runs_failed :: "env \<Rightarrow> int option \<Rightarrow> real option \<Rightarrow> nat \<Rightarrow> world \<Rightarrow> nat res \<times> world" where
  "mark_stale_runs_failed e stale_after timeout limit w =
     (case xe_part e Jobs of
        Absent \<Rightarrow> (Inr 0, w)
      | Failing \<Rightarrow> (Inl OutOfService, w)
      | Working \<Rightarrow> recover_each e (stuck_rows e (sweep_seconds stale_after timeout) limit w) w)"

definition run_stale_reconcile :: "env \<Rightarrow> json \<Rightarrow> real option \<Rightarrow> world \<Rightarrow> nat res \<times> world" where
  "run_stale_reconcile e raw timeout w =
     (if \<not> py_truth raw then mark_stale_runs_failed e None timeout 200 w
      else case int_of_json raw of
             Inl x \<Rightarrow> (Inl x, w)
           | Inr n \<Rightarrow> mark_stale_runs_failed e (Some n) timeout 200 w)"

section \<open>The workflow functions\<close>

definition resolve_run_id :: "env \<Rightarrow> jobj \<Rightarrow> string option \<Rightarrow> string" where
  "resolve_run_id e event run_id =
     (case run_id of Some i \<Rightarrow> if i = [] then text_or e event ''event_id'' [] else i
      | None \<Rightarrow> text_or e event ''event_id'' [])"

definition set_run_job :: "env \<Rightarrow> string \<Rightarrow> string \<Rightarrow> world \<Rightarrow> world" where
  "set_run_job e run_id status w = (if run_id = [] then w else set_job e run_id status w)"

definition run_pull_request_workflow :: "env \<Rightarrow> jobj \<Rightarrow> string option \<Rightarrow> world \<Rightarrow> wf_state res \<times> world" where
  "run_pull_request_workflow e event run_id w =
     (let i = resolve_run_id e event run_id in
      and_then_do (run_workflow e event (set_run_job e i ''running'' w)) (\<lambda>s w.
        case ws_status s of
          Run_Failed \<Rightarrow> (Inr s, set_run_job e i ''failed'' w)
        | Run_Duplicate \<Rightarrow> and_then_do (reconcile_run e i w) (\<lambda>_ w. (Inr s, w))
        | Run_Delivered \<Rightarrow> (Inr s, set_run_job e i ''completed'' w)
        | _ \<Rightarrow> (Inr s, w)))"

definition run_release_workflow :: "env \<Rightarrow> jobj \<Rightarrow> string option \<Rightarrow> world \<Rightarrow> wf_state res \<times> world" where
  "run_release_workflow e event run_id w =
     (let i = resolve_run_id e event run_id in
      and_then_do (run_workflow e event (set_run_job e i ''running'' w)) (\<lambda>s w.
        case ws_status s of
          Run_Failed \<Rightarrow> (Inr s, set_run_job e i ''failed'' w)
        | Run_Delivered \<Rightarrow> (Inr s, set_run_job e i ''completed'' w)
        | _ \<Rightarrow> (Inr s, w)))"

section \<open>What a status alone does to a job\<close>

lemma set_job_rows:
  assumes "working e Jobs" and "r \<in> set (ww_jobs (set_job e i st w))" and "jb_run_id r = Some i"
  shows "jb_status r = st" and "jb_error r = None" and "jb_result r = None"
proof -
  have r: "r \<in> set (snd (update_job_status (xe_now e) i st None None (ww_jobs w)))"
    using assms(1,2) by (simp add: set_job_def)
  show "jb_status r = st" by (rule job_agrees [OF r assms(3)])
  have "jb_error r = None \<and> jb_result r = None"
  proof (cases "get_job i (ww_jobs w)")
    case None
    then have "r \<in> set (ww_jobs w)" using r by (simp add: update_job_status_def)
    then show ?thesis using None assms(3) by (simp add: get_job_def find_None_iff)
  next
    case (Some q)
    then have "r \<in> set (upd_where (\<lambda>r. jb_run_id r = Some i) (set_job_status (xe_now e) st None None) (ww_jobs w))"
      using r by (simp add: update_job_status_def)
    then show ?thesis
    proof (cases rule: upd_whereE)
      case (1 q)
      then show ?thesis by (simp add: set_job_status_def)
    next
      case 2
      then show ?thesis using assms(3) by simp
    qed
  qed
  then show "jb_error r = None" "jb_result r = None" by blast+
qed

lemma set_job_frame [simp]:
  "ww_events (set_job e i st w) = ww_events w" "ww_github (set_job e i st w) = ww_github w"
  "ww_stream (set_job e i st w) = ww_stream w" "ww_invoked (set_job e i st w) = ww_invoked w"
  "ww_events (set_run_job e i st w) = ww_events w"
  by (simp_all add: set_job_def set_run_job_def)

lemma set_github_frame [simp]:
  "ww_events (set_github e i st w) = ww_events w" "ww_jobs (set_github e i st w) = ww_jobs w"
  "ww_stream (set_github e i st w) = ww_stream w"
  by (simp_all add: set_github_def)

lemma reconcile_events: "reconcile_run e i w = (r, w') \<Longrightarrow> ww_events w' = ww_events w"
  by (auto simp: reconcile_run_def split: if_splits health.splits option.splits)

text \<open>
  C24. The pull request workflow forgets what its run came to: the runner stores the error and the result of a
  run in its job, and the workflow then writes the bare status over them, so a run that was delivered or failed
  ends with a job that has neither an error nor a result.
\<close>

theorem workflow_forgets_outcome:
  assumes "working e Jobs" and "resolve_run_id e event run_id \<noteq> []"
    and "run_pull_request_workflow e event run_id w = (Inr s, w')" and "ws_status s \<in> {Run_Delivered, Run_Failed}"
  shows "\<forall>r \<in> set (ww_jobs w'). jb_run_id r = Some (resolve_run_id e event run_id) \<longrightarrow>
           jb_status r = stored_status (ws_status s) \<and> jb_error r = None \<and> jb_result r = None"
proof -
  let ?i = "resolve_run_id e event run_id"
  have job: "set_run_job e ?i st v = set_job e ?i st v" for st v using assms(2) by (simp add: set_run_job_def)
  obtain r w1 where run: "run_workflow e event (set_job e ?i ''running'' w) = (r, w1)" by force
  have "w' = set_job e ?i (stored_status (ws_status s)) w1"
    using assms(3,4) by (cases r) (auto simp: run_pull_request_workflow_def Let_def job run stored_status_def
        split: workflow_status.splits prod.splits dest: and_then_doD)
  then show ?thesis using set_job_rows [OF assms(1)] by blast
qed

text \<open>
  C25. Delivering a webhook again disturbs the run it belongs to: the job goes back to running with its error and
  result erased, and unless the event is completed, failed, skipped or waiting for a review (a run that waits
  for an intervention, say) nothing puts it back.
\<close>

theorem redelivery_strands_job:
  assumes "working e Claims" and "working e Jobs" and "jget event ''event_id'' = JStr i" "i \<noteq> []"
    and "find_by_event_id i (ww_events w) = Some row" and "ev_status row \<notin> set TERMINAL_STATUSES"
    and "run_pull_request_workflow e event None w = (Inr s, w')"
  shows "ww_events w' = ww_events w \<and> ws_status s \<in> {Run_Duplicate, Run_Skipped}
    \<and> (\<forall>r \<in> set (ww_jobs w'). jb_run_id r = Some i \<longrightarrow> jb_status r = ''running'' \<and> jb_error r = None \<and> jb_result r = None)"
proof -
  have i: "resolve_run_id e event None = i"
    by (simp add: resolve_run_id_def run_id_of [OF assms(3,4)])
  let ?w = "set_job e i ''running'' w"
  have w: "set_run_job e i ''running'' w = ?w" using assms(4) by (simp add: set_run_job_def)
  have known: "i \<in> known ?w"
    using find_Some_in [OF assms(5) [unfolded find_by_event_id_def]] by (auto intro: rev_image_eqI)
  obtain r w1 where run: "run_workflow e event ?w = (r, w1)" by force
  note k = run_known [OF assms(1,3,4) known run]
  have rec: "reconcile_run e i ?w = (v, w2) \<Longrightarrow> w2 = ?w" for v w2
    using assms(5,6) by (auto simp: reconcile_run_def split: if_splits health.splits)
  have "w' = ?w \<and> r = Inr s"
  proof (cases r)
    case (Inl x)
    then show ?thesis using assms(7) by (simp add: run_pull_request_workflow_def Let_def i w run)
  next
    case (Inr s1)
    then have st: "ws_status s1 \<in> {Run_Duplicate, Run_Skipped}" "w1 = ?w" using k by auto
    obtain v w2 where r2: "reconcile_run e i ?w = (v, w2)" by force
    show ?thesis
      using assms(7) st Inr r2 rec [OF r2]
      by (cases v) (auto simp: run_pull_request_workflow_def Let_def i w run)
  qed
  then show ?thesis using k set_job_rows [OF assms(2), of _ i "''running''" w] by auto
qed

definition known_event :: "string \<Rightarrow> string \<Rightarrow> event_row" where
  "known_event i st = (claimed_event 1 i \<lparr>ec_source = ''github'', ec_event_type = ''pull_request.opened'', ec_repository = None,
     ec_actor = None, ec_payload = JObj [], ec_org_id = None\<rparr>)\<lparr>ev_status := st\<rparr>"

definition known_job :: "string \<Rightarrow> string \<Rightarrow> job_row" where
  "known_job i st = (job_of 1 ''j1'' \<lparr>nj_run_id = Some i, nj_org_id = ''o1'', nj_name = ''pr'', nj_job_type = ''workflow'',
     nj_schedule = ''once'', nj_configuration = JNull, nj_status = st\<rparr>)\<lparr>jb_started_at := Some 1, jb_result := Some (JObj [])\<rparr>"

definition waiting_world :: "string \<Rightarrow> world" where
  "waiting_world st = empty_world\<lparr>ww_events := [known_event ''e1'' st], ww_jobs := [known_job ''e1'' st]\<rparr>"

definition pr_event :: jobj where
  "pr_event = [(''event_type'', JStr ''pull_request.opened''), (''event_id'', JStr ''e1'')]"

lemma pr_event_simps [simp]:
  "jget pr_event ''event_id'' = JStr ''e1''" "resolve_run_id e pr_event None = ''e1''"
  "route_event lib pr_event = Inr (Some ''pull_request'')" "\<not> skipped_pull_request e pr_event"
  by (simp_all add: pr_event_def resolve_run_id_def str_or_def py_str_def route_event_def text_at_def event_prefix_def
      SURFACE_BY_PREFIX_def dict_or_empty_def or_json_def skipped_pull_request_def)

theorem redelivery_strands_job_witness:
  "\<exists>s w'. run_pull_request_workflow (sample_env (plain_result ''COMPLETED'')) pr_event None (waiting_world ''pending_intervention'') = (Inr s, w')
     \<and> (\<forall>r \<in> set (ww_jobs w'). jb_run_id r = Some ''e1'' \<longrightarrow> jb_status r = ''running'')"
proof -
  let ?e = "sample_env (plain_result ''COMPLETED'')" and ?w = "waiting_world ''pending_intervention''"
  have e: "working ?e Claims" "working ?e Jobs" by (simp_all add: sample_env_def)
  have row: "find_by_event_id ''e1'' (ww_events ?w) = Some (known_event ''e1'' ''pending_intervention'')"
    "ev_status (known_event ''e1'' ''pending_intervention'') \<notin> set TERMINAL_STATUSES"
    by (simp_all add: waiting_world_def find_by_event_id_def known_event_def claimed_event_def TERMINAL_STATUSES_def)
  obtain s w' where run: "run_pull_request_workflow ?e pr_event None ?w = (Inr s, w')"
    by (simp add: run_pull_request_workflow_def run_workflow_def Let_def claim_event_def text_param_def pr_event_def try_claim_def
        insert_new_def waiting_world_def known_event_def claimed_event_def set_run_job_def set_job_def sample_env_def
        existing_event_def item_or_def find_by_event_id_def reconcile_run_def TERMINAL_STATUSES_def
        pr_event_simps [unfolded pr_event_def sample_env_def, simplified] str_or_def py_str_def)
  show ?thesis using redelivery_strands_job [OF e _ _ row run] run by simp
qed

definition job_world :: world where
  "job_world = empty_world\<lparr>ww_jobs := [known_job ''e1'' ''pending'']\<rparr>"

lemma job_world_runs:
  "\<exists>s w'. run_pull_request_workflow (sample_env (plain_result ''COMPLETED'')) (sample_event [(''event_id'', JStr ''e1'')]) None job_world
      = (Inr s, w') \<and> ws_status s = Run_Delivered"
  by (simp add: run_pull_request_workflow_def resolve_run_id_def set_run_job_def set_job_def
      run_workflow_def route_event_def sample_event_def text_at_def py_str_def event_prefix_def item_or_def
      SURFACE_BY_PREFIX_def dict_or_empty_def or_json_def skipped_pull_request_def str_or_def claim_event_def text_param_def
      try_claim_def insert_new_def existing_support_delivery_def execute_run_def ensure_canonical_run_def org_of_def
      sample_env_def job_world_def empty_world_def Let_def build_graph_def claimed_event_def with_repo_dir_def invoke_graph_def
      invoke_plain_def sample_reply_def settle_graph_def forgive_timeout_def finish_result_def effective_status_def plain_result_def
      refused_def is_blocked_delivery_def is_empty_delivery_def delivery_receipt_def settle_completed_def persist_document_changes_def
      persist_evaluation_outcome_def node_payload_of_def broadcast_lifecycle_def fresh_state_def)

theorem workflow_forgets_outcome_witness:
  "\<exists>s w'. run_pull_request_workflow (sample_env (plain_result ''COMPLETED'')) (sample_event [(''event_id'', JStr ''e1'')]) None job_world
      = (Inr s, w')
     \<and> (\<forall>r \<in> set (ww_jobs w'). jb_run_id r = Some ''e1'' \<longrightarrow> jb_status r = ''completed'' \<and> jb_result r = None)"
proof -
  let ?e = "sample_env (plain_result ''COMPLETED'')" and ?ev = "sample_event [(''event_id'', JStr ''e1'')]"
  obtain s w' where r: "run_pull_request_workflow ?e ?ev None job_world = (Inr s, w')" "ws_status s = Run_Delivered"
    using job_world_runs by blast
  have i: "resolve_run_id ?e ?ev None = ''e1''" by (simp add: resolve_run_id_def sample_event_def str_or_def py_str_def)
  have "working ?e Jobs" by (simp add: sample_env_def)
  from workflow_forgets_outcome [OF this _ r(1)] r(2) have
    "\<forall>q \<in> set (ww_jobs w'). jb_run_id q = Some ''e1'' \<longrightarrow> jb_status q = ''completed'' \<and> jb_error q = None \<and> jb_result q = None"
    unfolding i by (simp add: stored_status_def)
  then show ?thesis using r(1) by blast
qed

section \<open>Reconciling aligns and settles\<close>

lemma upd_where_idem:
  assumes "\<And>r. p r \<Longrightarrow> p (f r)" and "\<And>r. p r \<Longrightarrow> f (f r) = f r"
  shows "upd_where p f (upd_where p f t) = upd_where p f t"
  using assms by (simp add: upd_where_def)

lemma set_job_status_idem: "set_job_status now st None None (set_job_status now st None None r) = set_job_status now st None None r"
  by (simp add: set_job_status_def)

text \<open>The update by run id, whether the job is there or not.\<close>

lemma set_job_alt:
  "set_job e i st w = (if down e Jobs then w
     else w\<lparr>ww_jobs := upd_where (\<lambda>r. jb_run_id r = Some i) (set_job_status (xe_now e) st None None) (ww_jobs w)\<rparr>)"
proof (cases "get_job i (ww_jobs w)")
  case None
  then have "\<forall>r \<in> set (ww_jobs w). jb_run_id r \<noteq> Some i" by (auto simp: get_job_def find_None_iff)
  then show ?thesis using None by (simp add: set_job_def update_job_status_def upd_where_none)
qed (simp add: set_job_def update_job_status_def)

lemma set_job_idem: "set_job e i st (set_job e i st w) = set_job e i st w"
proof -
  have "upd_where (\<lambda>r. jb_run_id r = Some i) (set_job_status (xe_now e) st None None)
      (upd_where (\<lambda>r. jb_run_id r = Some i) (set_job_status (xe_now e) st None None) t)
    = upd_where (\<lambda>r. jb_run_id r = Some i) (set_job_status (xe_now e) st None None) t" for t
    by (rule upd_where_idem) (simp_all add: set_job_status_idem, simp add: set_job_status_def)
  then show ?thesis by (simp add: set_job_alt)
qed

lemma set_github_idem: "set_github e i st (set_github e i st w) = set_github e i st w"
proof -
  have "update_github_workflow_status now i st (update_github_workflow_status now i st t) = update_github_workflow_status now i st t" for now t
    unfolding update_github_workflow_status_def by (rule upd_where_idem) simp_all
  then show ?thesis by (simp add: set_github_def)
qed

lemma set_job_github: "set_job e i st (set_github e j st' w) = set_github e j st' (set_job e i st w)"
  by (simp add: set_job_alt set_github_def)

text \<open>
  Reconciling a run takes the status of its event for granted: the event is left alone, the job and the
  GitHub read model carry its status afterwards, and doing it again at the same moment changes nothing.
\<close>

theorem reconcile_aligns:
  assumes "reconcile_run e i w = (Inr (Some st), w')"
  shows "ww_events w' = ww_events w \<and> (\<exists>row \<in> set (ww_events w). ev_event_id row = i \<and> ev_status row = st)
    \<and> (working e Jobs \<longrightarrow> (\<forall>r \<in> set (ww_jobs w'). jb_run_id r = Some i \<longrightarrow> jb_status r = st))
    \<and> (working e Github \<longrightarrow> (\<forall>r \<in> set (ww_github w'). gw_workflow_id r = i \<longrightarrow> gw_status r = st))
    \<and> reconcile_run e i w' = (Inr (Some st), w')"
proof -
  obtain row where row: "find_by_event_id i (ww_events w) = Some row" "ev_status row = st" "st \<in> set TERMINAL_STATUSES" "i \<noteq> []"
    "working e Lookups" and w': "w' = set_github e i st (set_job e i st w)"
    using assms by (auto simp: reconcile_run_def split: if_splits health.splits option.splits)
  have "row \<in> set (ww_events w)" "ev_event_id row = i"
    using find_Some_in [OF row(1) [unfolded find_by_event_id_def]] by auto
  then have "\<exists>row \<in> set (ww_events w). ev_event_id row = i \<and> ev_status row = st" using row(2) by blast
  moreover have "jb_status r = st" if "working e Jobs" "r \<in> set (ww_jobs w')" "jb_run_id r = Some i" for r
    using set_job_rows(1) [OF that(1) _ that(3)] that(2) by (simp add: w')
  moreover have "gw_status r = st" if "working e Github" "r \<in> set (ww_github w')" "gw_workflow_id r = i" for r
    using github_agrees [OF _ that(3)] that(1,2) by (simp add: w' set_github_def)
  moreover have "reconcile_run e i w' = (Inr (Some st), set_github e i st (set_job e i st w'))"
    using row by (simp add: reconcile_run_def w')
  moreover have "set_github e i st (set_job e i st w') = w'"
    by (simp add: w' set_job_github set_job_idem set_github_idem)
  ultimately show ?thesis by (simp add: w')
qed

theorem reconcile_aligns_witness:
  "\<exists>w'. reconcile_run (sample_env (plain_result ''COMPLETED'')) ''e1'' (waiting_world ''completed'') = (Inr (Some ''completed''), w')
     \<and> (\<forall>r \<in> set (ww_jobs w'). jb_run_id r = Some ''e1'' \<longrightarrow> jb_status r = ''completed'')"
proof -
  let ?e = "sample_env (plain_result ''COMPLETED'')"
  have "find_by_event_id ''e1'' (ww_events (waiting_world ''completed'')) = Some (known_event ''e1'' ''completed'')"
    "ev_status (known_event ''e1'' ''completed'') = ''completed''"
    by (simp_all add: waiting_world_def known_event_def claimed_event_def find_by_event_id_def)
  moreover have "working ?e Lookups" by (simp add: sample_env_def)
  ultimately obtain w' where r: "reconcile_run ?e ''e1'' (waiting_world ''completed'') = (Inr (Some ''completed''), w')"
    by (simp add: reconcile_run_def TERMINAL_STATUSES_def)
  have "working ?e Jobs" by (simp add: sample_env_def)
  then show ?thesis using reconcile_aligns [OF r] r by blast
qed

section \<open>What a sweep does\<close>

definition fail_row :: "int \<Rightarrow> event_row \<Rightarrow> event_row" where
  "fail_row now r = r\<lparr>ev_status := ''failed'', ev_processed_at := Some now\<rparr>"

definition fail_job :: "int \<Rightarrow> job_row \<Rightarrow> job_row" where
  "fail_job now = set_job_status now ''failed'' None None"

lemma upd_where_again:
  assumes "\<And>r. q (f r) = q r" and "\<And>r. f (f r) = f r"
  shows "upd_where q f (upd_where p f t) = upd_where (\<lambda>r. p r \<or> q r) f t"
  using assms by (simp add: upd_where_def)

lemma fail_event_rows:
  assumes "working e Lookups" and "working e Marks"
  shows "ww_events (fail_event e i w) = upd_where (\<lambda>r. ev_event_id r = i) (fail_row (xe_now e)) (ww_events w)"
    and "ww_jobs (fail_event e i w) = ww_jobs w"
proof -
  show "ww_events (fail_event e i w) = upd_where (\<lambda>r. ev_event_id r = i) (fail_row (xe_now e)) (ww_events w)"
  proof (cases "find_by_event_id i (ww_events w)")
    case None
    then have "\<forall>r \<in> set (ww_events w). ev_event_id r \<noteq> i" by (auto simp: find_by_event_id_def find_None_iff)
    then show ?thesis using None by (simp add: fail_event_def upd_where_none)
  next
    case (Some r)
    then show ?thesis using assms by (simp add: fail_event_def mark_status_def fail_row_def [abs_def])
  qed
  show "ww_jobs (fail_event e i w) = ww_jobs w" by (simp add: fail_event_def)
qed

lemma recover_effect:
  assumes "working e Jobs" and "working e Lookups" and "working e Marks" and "fst row \<noteq> []"
  shows "fst (recover e row w) = Inr ()"
    and "ww_events (snd (recover e row w)) = upd_where (\<lambda>r. ev_event_id r = fst row) (fail_row (xe_now e)) (ww_events w)"
    and "ww_jobs (snd (recover e row w)) = upd_where (\<lambda>r. jb_run_id r = Some (fst row)) (fail_job (xe_now e)) (ww_jobs w)"
proof -
  let ?i = "fst row" and ?w = "fail_event e (fst row) w"
  note rows = fail_event_rows [OF assms(2,3), of ?i w]
  have "\<exists>v. reconcile_run e ?i ?w = (Inr v, if v = None then ?w else set_github e ?i ''failed'' (set_job e ?i ''failed'' ?w))"
  proof (cases "find_by_event_id ?i (ww_events ?w)")
    case None
    then show ?thesis using assms by (simp add: reconcile_run_def)
  next
    case (Some r)
    from find_Some_in [OF this [unfolded find_by_event_id_def]]
    have "r \<in> set (ww_events ?w)" "ev_event_id r = ?i" by auto
    then have "ev_status r = ''failed''"
      unfolding rows(1) by (auto simp: set_upd_where fail_row_def)
    then show ?thesis using Some assms by (simp add: reconcile_run_def TERMINAL_STATUSES_def)
  qed
  then obtain v where v: "reconcile_run e ?i ?w = (Inr v, if v = None then ?w else set_github e ?i ''failed'' (set_job e ?i ''failed'' ?w))" ..
  have r: "recover e row w = (Inr (), broadcast_lifecycle e (snd row) ?i ''failed'' (set_github e ?i ''failed'' (set_job e ?i ''failed'' ?w)))"
    by (simp add: recover_def v set_read_models_failed_def Let_def)
  show "fst (recover e row w) = Inr ()" by (simp add: r)
  show "ww_events (snd (recover e row w)) = upd_where (\<lambda>r. ev_event_id r = ?i) (fail_row (xe_now e)) (ww_events w)"
    by (simp add: r rows)
  have "ww_jobs (broadcast_lifecycle e o1 j st u) = ww_jobs u" for o1 j st u by (simp add: broadcast_lifecycle_def)
  then show "ww_jobs (snd (recover e row w)) = upd_where (\<lambda>r. jb_run_id r = Some ?i) (fail_job (xe_now e)) (ww_jobs w)"
    using assms(1) by (simp add: r rows(2) set_job_alt fail_job_def)
qed

lemma recover_each_effect:
  assumes "working e Jobs" and "working e Lookups" and "working e Marks" and "\<forall>row \<in> set rows. fst row \<noteq> []"
  shows "fst (recover_each e rows w) = Inr (length rows)
    \<and> ww_events (snd (recover_each e rows w)) = upd_where (\<lambda>r. ev_event_id r \<in> fst ` set rows) (fail_row (xe_now e)) (ww_events w)
    \<and> ww_jobs (snd (recover_each e rows w)) = upd_where (\<lambda>r. jb_run_id r \<in> Some ` fst ` set rows) (fail_job (xe_now e)) (ww_jobs w)"
  using assms(4)
proof (induction rows arbitrary: w)
  case Nil
  then show ?case by (simp add: upd_where_none)
next
  case (Cons row rows)
  note one = recover_effect [OF assms(1-3), of row w]
  obtain w1 where w1: "recover e row w = (Inr (), w1)" using one(1) Cons.prems by (cases "recover e row w") auto
  note ih = Cons.IH [of w1]
  obtain n w2 where w2: "recover_each e rows w1 = (Inr n, w2)" "n = length rows"
    using ih Cons.prems by (cases "recover_each e rows w1") auto
  have ev: "upd_where (\<lambda>r. ev_event_id r \<in> fst ` set rows) (fail_row now) (upd_where (\<lambda>r. ev_event_id r = fst row) (fail_row now) t)
      = upd_where (\<lambda>r. ev_event_id r = fst row \<or> ev_event_id r \<in> fst ` set rows) (fail_row now) t" for now t
    by (rule upd_where_again) (simp_all add: fail_row_def)
  have jb: "upd_where (\<lambda>r. jb_run_id r \<in> Some ` fst ` set rows) (fail_job now) (upd_where (\<lambda>r. jb_run_id r = Some (fst row)) (fail_job now) t)
      = upd_where (\<lambda>r. jb_run_id r = Some (fst row) \<or> jb_run_id r \<in> Some ` fst ` set rows) (fail_job now) t" for now t
    by (rule upd_where_again) (simp_all add: fail_job_def set_job_status_def)
  show ?case using ih one Cons.prems w2 by (simp add: w1 ev jb)
qed

text \<open>
  C8. A sweep fails exactly the runs it finds stuck, those whose job has been running for longer than the
  threshold and whose log has no result: their jobs lose error and result, every other job is untouched, and
  their events become failed whatever they were, so an event that had settled as completed while the write
  of its job failed is turned into a failure.
\<close>

theorem sweep_exact:
  assumes "working e Jobs" and "working e Lookups" and "working e Marks"
    and "rows = stuck_rows e (sweep_seconds stale_after timeout) limit w"
    and "mark_stale_runs_failed e stale_after timeout limit w = (res, w')"
  shows "res = Inr (length rows)
    \<and> ww_events w' = upd_where (\<lambda>r. ev_event_id r \<in> fst ` set rows)
        (\<lambda>r. r\<lparr>ev_status := ''failed'', ev_processed_at := Some (xe_now e)\<rparr>) (ww_events w)
    \<and> ww_jobs w' = upd_where (\<lambda>r. jb_run_id r \<in> Some ` fst ` set rows)
        (set_job_status (xe_now e) ''failed'' None None) (ww_jobs w)"
proof -
  have "\<forall>row \<in> set rows. fst row \<noteq> []" by (simp add: assms(4) stuck_rows_def)
  moreover have "recover_each e rows w = (res, w')" using assms(1,4,5) by (simp add: mark_stale_runs_failed_def)
  ultimately show ?thesis
    using recover_each_effect [OF assms(1-3), of rows w] by (simp add: fail_row_def [abs_def] fail_job_def)
qed

definition late_env :: env where
  "late_env = (sample_env (plain_result ''COMPLETED''))\<lparr>xe_now := 5000\<rparr>"

definition skewed_world :: world where
  "skewed_world = empty_world\<lparr>ww_events := [known_event ''e1'' ''completed''], ww_jobs := [known_job ''e1'' ''running'']\<rparr>"

theorem sweep_exact_witness:
  "fst (mark_stale_runs_failed late_env None None 200 skewed_world) = Inr 1
   \<and> map ev_status (ww_events skewed_world) = [''completed'']
   \<and> map ev_status (ww_events (snd (mark_stale_runs_failed late_env None None 200 skewed_world))) = [''failed'']"
proof -
  have w: "working late_env Jobs" "working late_env Lookups" "working late_env Marks" by (simp_all add: late_env_def sample_env_def)
  have rows: "stuck_rows late_env (sweep_seconds None None) 200 skewed_world = [(''e1'', ''o1'')]"
    by (simp add: stuck_rows_def sweep_seconds_def default_stale_after_def DEFAULT_STALE_AFTER_SECONDS_def terminal_runs_def
        terminal_run_ids_def list_stuck_def stuck_def run_id_text_def skewed_world_def late_env_def sample_env_def empty_world_def
        idle_stream_def known_job_def job_of_def known_event_def claimed_event_def)
  have "map ev_status (ww_events skewed_world) = [''completed'']" "map ev_event_id (ww_events skewed_world) = [''e1'']"
    by (simp_all add: skewed_world_def known_event_def claimed_event_def)
  then show ?thesis
    using sweep_exact [OF w rows [symmetric] prod.collapse [symmetric]]
    by (auto simp: upd_where_def skewed_world_def)
qed

end
