(* ===== verification/Review_Resume.thy ===== *)
theory Review_Resume
  imports Workflow_Runner
begin

text \<open>
  Deciding a review and resuming its run, \<^verbatim>\<open>review/resume.py\<close>: the checks on the stored review, the reloaded
  event, the resume of the graph or the revised run of a request for changes, and the decision, which is
  recorded once the run came to what the decision expects. An interrupt id that is no text is read as its text.
  \<open>None\<close> says that the list of executor rounds given for the page revisions was too short.
\<close>

section \<open>The request and the event\<close>

record resume_order =
  ro_review_id :: string
  ro_approved :: "bool option"
  ro_answer :: "review_answer option"
  ro_reviewer :: string
  ro_comment :: string
  ro_org :: "string option"
  ro_uuid :: string
  ro_runner :: bool
  ro_rounds :: "round_env list"

definition answer_of :: "resume_order \<Rightarrow> review_answer res" where
  "answer_of q =
     (case ro_answer q of
        Some a \<Rightarrow> Inr a
      | None \<Rightarrow> (case ro_approved q of
                   None \<Rightarrow> Inl (ReviewResumeError ''A review decision is required'')
                 | Some b \<Rightarrow> Inr (if b then Approve else Reject)))"

definition coerce_payload :: "json_lib \<Rightarrow> json \<Rightarrow> jobj" where
  "coerce_payload lib v =
     (case v of
        JObj d \<Rightarrow> d
      | JStr s \<Rightarrow> (case jl_loads lib s of Some (JObj d) \<Rightarrow> d | _ \<Rightarrow> [])
      | _ \<Rightarrow> [])"

definition load_event :: "env \<Rightarrow> string \<Rightarrow> world \<Rightarrow> jobj res" where
  "load_event e run_id w =
     (case xe_part e Lookups of
        Absent \<Rightarrow> Inl (ReviewResumeError (''Run '' @ run_id @ '' has no persisted event store''))
      | Failing \<Rightarrow> Inl OutOfService
      | Working \<Rightarrow>
          (case get_event_by_id run_id (ww_events w) of
             None \<Rightarrow> Inl (ReviewResumeError (''Run '' @ run_id @ '' has no resumable event''))
           | Some row \<Rightarrow>
               let event = coerce_payload (xe_lib e) (ev_payload row) in
               if event = [] then Inl (ReviewResumeError (''Run '' @ run_id @ '' has no resumable event'')) else Inr event))"

definition review_interrupt :: "env \<Rightarrow> review \<Rightarrow> string option" where
  "review_interrupt e r =
     (let of_dict = (\<lambda>v. case v of JObj d \<Rightarrow> jget d ''interrupt_id'' | _ \<Rightarrow> JNull);
          first = of_dict (hr_tool_args r);
          found = (if py_truth first then first else of_dict (hr_metadata r))
      in if py_truth found then Some (text_of e found) else None)"

definition RESUMABLE_WORKFLOWS :: "string list" where
  "RESUMABLE_WORKFLOWS = [''pull_request'', ''issue'', ''support'']"

record resumable =
  rs_answer :: review_answer
  rs_run_id :: string
  rs_interrupt_id :: string
  rs_event :: jobj

text \<open>All checks before anything is written.\<close>

definition resumable_review :: "env \<Rightarrow> resume_order \<Rightarrow> world \<Rightarrow> resumable res" where
  "resumable_review e q w =
     bind_res (answer_of q) (\<lambda>answer.
     if answer = Request_Changes \<and> strip (ro_comment q) = []
     then Inl (ReviewResumeError ''Request changes requires a comment'')
     else case xe_part e Reviews of
       Absent \<Rightarrow> Inl (ReviewResumeError ''Reviews store unavailable'')
     | Failing \<Rightarrow> Inl OutOfService
     | Working \<Rightarrow>
         (case get_review (ro_review_id q) (ww_reviews w) of
            None \<Rightarrow> Inl (ReviewResumeError (''Review '' @ ro_review_id q @ '' is not pending''))
          | Some r \<Rightarrow>
              if hr_status r \<noteq> ''pending''
              then Inl (ReviewResumeError (''Review '' @ ro_review_id q @ '' is not pending''))
              else if (case ro_org q of None \<Rightarrow> False | Some org \<Rightarrow> org \<noteq> [] \<and> hr_org_id r \<noteq> org)
              then Inl (ReviewResumeError (''Review '' @ ro_review_id q @ '' does not belong to the organization''))
              else if hr_workflow r \<notin> set RESUMABLE_WORKFLOWS
              then Inl (ReviewResumeError (''Workflow '' @ py_repr (hr_workflow r) @ '' is not resumable''))
              else case review_interrupt e r of
                     None \<Rightarrow> Inl (ReviewResumeError ''Review has no interrupt to resume'')
                   | Some i \<Rightarrow>
                       bind_res (load_event e (hr_thread_id r) w) (\<lambda>event.
                         Inr \<lparr>rs_answer = answer, rs_run_id = hr_thread_id r, rs_interrupt_id = i,
                              rs_event = jset ''org_id'' (JStr (hr_org_id r)) (jset ''project_id'' (JStr (hr_org_id r)) event)\<rparr>)))"

section \<open>Recording the decision\<close>

definition decide_review :: "env \<Rightarrow> resume_order \<Rightarrow> review_answer \<Rightarrow> string \<Rightarrow> world \<Rightarrow> decision_result res \<times> world" where
  "decide_review e q answer comment w =
     (let (r, t, os) = decide (xe_now e) (xe_row_id e 300) (down e Outcomes)
            \<lparr>rd_review_id = ro_review_id q, rd_reviewer_id = ro_reviewer q, rd_approved = Some (answer = Approve),
             rd_decision = Some answer, rd_comment = Some comment\<rparr> (ww_reviews w, ww_outcomes w)
      in (r, w\<lparr>ww_reviews := t, ww_outcomes := os\<rparr>))"

text \<open>The revised run is a new event that remembers what it revises.\<close>

definition revision_event :: "resume_order \<Rightarrow> jobj \<Rightarrow> jobj" where
  "revision_event q event =
     jset ''review_feedback'' (JObj [(''decision'', JStr ''needs_changes''), (''comment'', JStr (strip (ro_comment q)))])
       (jset ''review_revision_of'' (JStr (ro_review_id q))
         (jset ''review_policy'' (JStr ''always'') (jset ''event_id'' (JStr (ro_uuid q)) event)))"

definition mark_original :: "env \<Rightarrow> string \<Rightarrow> world \<Rightarrow> world" where
  "mark_original e run_id w =
     (if down e Marks then w else w\<lparr>ww_events := mark_status (xe_now e) run_id ''needs_changes'' (ww_events w)\<rparr>)"

definition revise_run :: "env \<Rightarrow> resume_order \<Rightarrow> resumable \<Rightarrow> world \<Rightarrow> (wf_state res \<times> world) option" where
  "revise_run e q r w =
     (case decide_review e q Request_Changes (strip (ro_comment q)) w of
        (Inl x, w) \<Rightarrow> Some (Inl x, w)
      | (Inr _, w) \<Rightarrow>
          let w = mark_original e (rs_run_id r) w in
          if \<not> ro_runner q then Some (Inl (ReviewResumeError ''Workflow runner unavailable''), w)
          else map_option (\<lambda>(_, w). run_workflow e (revision_event q (rs_event r)) w)
                 (resume_documentation e (rs_event r) ''request_changes'' (Some (strip (ro_comment q))) (ro_rounds q) w))"

definition expected_status :: "review_answer \<Rightarrow> workflow_status" where
  "expected_status answer = (if answer = Approve then Run_Delivered else Run_Failed)"

text \<open>What is resumed with the answer, and what is made of the state it ends in.\<close>

definition settle_review :: "env \<Rightarrow> resume_order \<Rightarrow> resumable \<Rightarrow> wf_state res \<times> world \<Rightarrow> wf_state res \<times> world" where
  "settle_review e q r out =
     (case out of
        (Inl x, w) \<Rightarrow> (Inl (ReviewResumeError (''Resume failed for review '' @ ro_review_id q)), w)
      | (Inr s, w) \<Rightarrow>
          if ws_status s = Run_Pending_Intervention then (Inr s, w)
          else if ws_status s \<noteq> expected_status (rs_answer r)
          then (Inl (ReviewResumeError (''Review did not reach expected status '' @ py_repr (status_value (expected_status (rs_answer r)))
                  @ '' (status='' @ status_value (ws_status s) @ '')'')), w)
          else case decide_review e q (rs_answer r) (ro_comment q) w of
                 (Inl x, w) \<Rightarrow> (Inl x, w)
               | (Inr _, w) \<Rightarrow> (Inr s, w))"

definition answer_json :: "resume_order \<Rightarrow> resumable \<Rightarrow> jobj" where
  "answer_json q r = [(''approved'', JBool (rs_answer r = Approve)), (''comment'', JStr (ro_comment q))]"

definition resume_with :: "env \<Rightarrow> resume_order \<Rightarrow> resumable \<Rightarrow> world \<Rightarrow> (wf_state res \<times> world) option" where
  "resume_with e q r w =
     (if rs_answer r = Request_Changes then revise_run e q r w
      else if \<not> ro_runner q then Some (Inl (ReviewResumeError ''Workflow runner unavailable''), w)
      else Some (settle_review e q r (resume_review e (rs_event r) (rs_interrupt_id r) (answer_json q r) w)))"

definition resume_review_from_runtime :: "env \<Rightarrow> resume_order \<Rightarrow> world \<Rightarrow> (wf_state res \<times> world) option" where
  "resume_review_from_runtime e q w =
     (case resumable_review e q w of Inl x \<Rightarrow> Some (Inl x, w) | Inr r \<Rightarrow> resume_with e q r w)"

text \<open>The worker's job: a review that is no longer pending was handled by an earlier attempt.\<close>

definition already_handled :: "exn \<Rightarrow> bool" where
  "already_handled x \<longleftrightarrow> exn_type x = ''ReviewResumeError'' \<and> str_contains ''is not pending'' (exn_msg x)"

definition run_review_resume :: "env \<Rightarrow> resume_order \<Rightarrow> world \<Rightarrow> (wf_state option res \<times> world) option" where
  "run_review_resume e q w =
     (if \<not> ro_runner q
      then Some (Inl (ReviewResumeError ''Workflow context is not composed (missing repositories/runner)''), w)
      else map_option (\<lambda>(r, w). (case r of Inr s \<Rightarrow> Inr (Some s) | Inl x \<Rightarrow> if already_handled x then Inr None else Inl x, w))
             (resume_review_from_runtime e q w))"

section \<open>The reviews a run leaves alone\<close>

text \<open>Settling a run adds rows to the inbox and changes none; the ghost record of invocations grows by the graph's.\<close>

definition inbox_grows :: "world \<Rightarrow> world \<Rightarrow> bool" where
  "inbox_grows w w' \<longleftrightarrow> (\<exists>rows. ww_reviews w' = ww_reviews w @ rows \<and> hr_id ` set rows \<inter> hr_id ` set (ww_reviews w) = {})"

lemma grows_refl [simp, intro]: "inbox_grows w w"
  by (simp add: inbox_grows_def)

lemma grows_same: "ww_reviews w' = ww_reviews w \<Longrightarrow> inbox_grows w w'"
  by (simp add: inbox_grows_def)

lemma grows_trans [trans]: "inbox_grows w1 w2 \<Longrightarrow> inbox_grows w2 w3 \<Longrightarrow> inbox_grows w1 w3"
  unfolding inbox_grows_def
proof (elim exE conjE)
  fix a b
  assume "ww_reviews w2 = ww_reviews w1 @ a" "hr_id ` set a \<inter> hr_id ` set (ww_reviews w1) = {}"
    "ww_reviews w3 = ww_reviews w2 @ b" "hr_id ` set b \<inter> hr_id ` set (ww_reviews w2) = {}"
  then show "\<exists>rows. ww_reviews w3 = ww_reviews w1 @ rows \<and> hr_id ` set rows \<inter> hr_id ` set (ww_reviews w1) = {}"
    by (intro exI [of _ "a @ b"]) auto
qed

lemma reviews_frames [simp]:
  "ww_reviews (with_runs t w) = ww_reviews w" "ww_reviews (mark_event e event st w) = ww_reviews w"
  "ww_reviews (broadcast_lifecycle e org i st w) = ww_reviews w" "ww_reviews (notify_reviewers e i w) = ww_reviews w"
  "ww_reviews (publish_envelope e v w) = ww_reviews w" "ww_reviews (settle_graph y w) = ww_reviews w"
  by (simp_all add: with_runs_def mark_event_def broadcast_lifecycle_def notify_reviewers_def publish_envelope_def settle_graph_def)

lemma reviews_lifecycle [simp]: "ww_reviews (persist_lifecycle e event st i err v w) = ww_reviews w"
  by (simp add: persist_lifecycle_def Let_def)

lemma reviews_error [simp]: "ww_reviews (settle_error e event i st code err w) = ww_reviews w"
  by (simp add: settle_error_def)

lemma reviews_paused [simp]: "ww_reviews (settle_paused e event i st v w) = ww_reviews w"
  by (simp add: settle_paused_def)

lemma reviews_publish [simp]: "ww_reviews (publish_frame e i org v w) = ww_reviews w"
  by (simp add: publish_frame_def Let_def split: option.split)

lemma reviews_stream: "stream_loop e i surface org raws r w = (res, w') \<Longrightarrow> ww_reviews w' = ww_reviews w"
  by (induction raws arbitrary: r w) (auto split: sum.splits)

lemma reviews_invoke:
  assumes "invoke_graph e fresh c w = (res, w')"
  shows "ww_reviews w' = ww_reviews w"
proof -
  let ?w = "settle_graph (xe_graph e c w) (w\<lparr>ww_invoked := ww_invoked w @ [gc_run_id c]\<rparr>)"
  show ?thesis
  proof (cases "xe_streaming e")
    case True
    obtain r1 w1 where loop: "stream_loop e (gc_run_id c) (gc_surface c) (text_or e (gc_state c) ''project_id'' [])
        (gy_events (xe_graph e c w)) None ?w = (r1, w1)" by force
    have "w' = w1 \<or> (\<exists>v. w' = publish_envelope e v w1)"
      using assms True loop by (auto simp: invoke_graph_def invoke_streaming_def Let_def split: sum.splits option.splits)
    then show ?thesis using reviews_stream [OF loop] by auto
  next
    case False
    then have "w' = ?w" using assms by (simp add: invoke_graph_def invoke_plain_def Let_def)
    then show ?thesis by simp
  qed
qed

lemma reviews_build: "build_graph e i surface w = (res, w') \<Longrightarrow> ww_reviews w' = ww_reviews w"
  by (auto simp: build_graph_def split: option.splits)

lemma reviews_pages [simp]: "ww_reviews (resume_pages e i verdict comment w) = ww_reviews w"
  by (simp add: resume_pages_def split: option.split prod.split)

lemma reviews_index [simp]: "ww_reviews (index_files e n us w) = ww_reviews w"
  by (induction us arbitrary: n w) simp_all

lemma reviews_nodes: "persist_nodes e event i n repository nds w = (res, w') \<Longrightarrow> ww_reviews w' = ww_reviews w"
proof (induction nds arbitrary: n repository w)
  case (Cons nd nds)
  show ?case
  proof (cases "ne_node_id nd \<in> {''update'', ''create''} \<and> structured_dict (ne_own nd) \<noteq> None")
    case False
    then show ?thesis using Cons by (auto split: if_splits option.splits)
  next
    case True
    then obtain d where d: "structured_dict (ne_own nd) = Some d" by blast
    show ?thesis
    proof (cases "dict_items (jget d ''files'')")
      case (Inl x)
      then show ?thesis using Cons.prems True d by auto
    next
      case (Inr files)
      then show ?thesis using Cons.IH Cons.prems True d by (fastforce simp: Let_def)
    qed
  qed
qed simp

lemma reviews_documents: "persist_document_changes e event i r w = (res, w') \<Longrightarrow> ww_reviews w' = ww_reviews w"
  by (auto simp: persist_document_changes_def dest: reviews_nodes split: if_splits)

lemma reviews_delivery [simp]: "ww_reviews (persist_delivery_result e event i r w) = ww_reviews w"
  by (simp add: persist_delivery_result_def Let_def split: option.split)

lemma reviews_evaluation: "persist_evaluation_outcome e event i v w = (res, w') \<Longrightarrow> ww_reviews w' = ww_reviews w"
  by (auto simp: persist_evaluation_outcome_def Let_def split: if_splits sum.splits)

lemma store_one_grows: "inbox_grows w (store_one e i surface org n ir w)"
  by (auto simp: store_one_def inbox_grows_def store_interrupt_def Let_def list_ex_iff)

lemma store_interrupts_grows: "store_interrupts e i surface org n irs s w = (ids, s', w') \<Longrightarrow> inbox_grows w w'"
proof (induction irs arbitrary: n s w ids s' w')
  case (Cons ir irs)
  obtain ids1 s1 w1 where r: "store_interrupts e i surface org (Suc n) irs
      (s\<lparr>ws_interrupts := ws_interrupts s @ [(fst ir, enrich_review_reason e org i (snd ir) w)]\<rparr>)
      (store_one e i surface org n ir w) = (ids1, s1, w1)" by (metis prod_cases3)
  have "w' = w1" using Cons.prems r by (simp add: Let_def)
  then show ?case using grows_trans [OF store_one_grows Cons.IH [OF r]] by simp
qed simp

lemma finish_grows: "finish_result e event surface r s w = (res, w') \<Longrightarrow> inbox_grows w w'"
proof -
  assume fin: "finish_result e event surface r s w = (res, w')"
  have failed: "settle_failed e event i error f v s w = (res, w') \<Longrightarrow> ww_reviews w' = ww_reviews w" for i error f v s res w'
    by (auto simp: settle_failed_def and_then_do_def dest!: reviews_evaluation split: prod.splits sum.splits)
  have completed: "settle_completed e event i r v s w = (res, w') \<Longrightarrow> ww_reviews w' = ww_reviews w" for i v s res w'
    by (auto simp: settle_completed_def and_then_do_def dest!: reviews_evaluation reviews_documents split: prod.splits sum.splits)
  show ?thesis
  proof (cases "effective_status (xe_lib e) r = ''INTERRUPTED''")
    case True
    then obtain ids s0 n irs s2 w1 where st: "store_interrupts e (ws_run_id s) surface (org_of e event) n irs s0 w = (ids, s2, w1)"
      "ww_reviews w' = ww_reviews w1"
      using fin by (auto simp: finish_result_def Let_def split: prod.splits if_splits)
    show ?thesis by (rule grows_trans [OF store_interrupts_grows [OF st(1)] grows_same [OF st(2)]])
  next
    case False
    then show ?thesis using fin failed completed
      by (intro grows_same) (auto simp: finish_result_def Let_def split: if_splits)
  qed
qed

lemma resume_review_grows:
  assumes "resume_review e event i response w = (res, w')"
  shows "inbox_grows w w'"
proof (cases "resumable_run e event (ValueError ''Cannot resume a workflow without a valid run and surface'')")
  case (Inr p)
  obtain run_id surface where p: "p = (run_id, surface)" by force
  let ?event = "with_repo_dir e event"
  obtain b w1 where build: "build_graph e run_id surface w = (b, w1)" by force
  note f1 = reviews_build [OF build]
  show ?thesis
  proof (cases "b = Inr () \<and> session_is_resumable (xe_session e) i")
    case False
    then have "ww_reviews w' = ww_reviews w"
      using assms f1 by (cases b) (auto simp: resume_review_def Inr p build Let_def)
    then show ?thesis by (rule grows_same)
  next
    case True
    let ?w = "resume_pages e run_id (if review_answer_of response then ''approve'' else ''reject'') (text_or e response ''comment'' []) w1"
    obtain y w2 where inv: "invoke_graph e False (call_of e ?event surface (resume_input i (JObj response)) ?w) ?w = (y, w2)" by force
    have f2: "ww_reviews w2 = ww_reviews w" using reviews_invoke [OF inv] f1 by simp
    show ?thesis
    proof (cases y)
      case (Inl x)
      then have "ww_reviews w' = ww_reviews w"
        using assms True f2 by (auto simp: resume_review_def Inr p build Let_def inv split: if_splits)
      then show ?thesis by (rule grows_same)
    next
      case y: (Inr r)
      then have "finish_result e ?event surface r (resumed_state run_id surface) w2 = (res, w')"
        using assms True by (simp add: resume_review_def Inr p build Let_def inv)
      from grows_trans [OF grows_same [OF f2] finish_grows [OF this]] show ?thesis .
    qed
  qed
qed (use assms in \<open>simp add: resume_review_def\<close>)

section \<open>The decision and the outcome\<close>

lemma handled_not_pending: "already_handled (ReviewResumeError (''Review '' @ i @ '' is not pending''))"
proof -
  have "''Review '' @ i @ '' is not pending'' = (''Review '' @ i @ '' '') @ ''is not pending'' @ []" by simp
  then show ?thesis unfolding already_handled_def ReviewResumeError_def exn.sel str_contains_iff by blast
qed

lemma grows_keeps: "inbox_grows w w' \<Longrightarrow> r \<in> set (ww_reviews w) \<Longrightarrow> r \<in> set (ww_reviews w')"
  by (auto simp: inbox_grows_def)

lemma decide_rows:
  assumes "decide_review e q a c w = (x, w')"
  shows "ww_reviews w' = upd_where (undecided (ro_review_id q))
      (decided (ro_reviewer q) (status_of_decision a) (or_none (Some c)) (xe_now e)) (ww_reviews w)"
    and "ww_events w' = ww_events w" and "ww_invoked w' = ww_invoked w"
proof -
  let ?t = "snd (record_review_decision (xe_now e) (ro_review_id q) (ro_reviewer q) (status_of_decision a) (or_none (Some c)) (ww_reviews w))"
  have t: "?t = upd_where (undecided (ro_review_id q))
      (decided (ro_reviewer q) (status_of_decision a) (or_none (Some c)) (xe_now e)) (ww_reviews w)"
  proof (cases "find (undecided (ro_review_id q)) (ww_reviews w)")
    case None
    then have "\<forall>r \<in> set (ww_reviews w). \<not> undecided (ro_review_id q) r" by (simp add: find_None_iff)
    then show ?thesis using None by (simp add: record_review_decision_def upd_where_none split: option.split)
  qed (simp add: record_review_decision_def)
  have "ww_reviews w' = ?t"
    using assms by (auto simp: decide_review_def decide_def handle_decision_def normalized_decision_def Let_def split: prod.splits sum.splits)
  then show "ww_reviews w' = upd_where (undecided (ro_review_id q))
      (decided (ro_reviewer q) (status_of_decision a) (or_none (Some c)) (xe_now e)) (ww_reviews w)" by (simp add: t)
  show "ww_events w' = ww_events w" "ww_invoked w' = ww_invoked w"
    using assms by (auto simp: decide_review_def split: prod.splits)
qed

lemma none_undecided:
  "r \<in> set (upd_where (undecided i) (decided reviewer (status_of_decision a) c now) t) \<Longrightarrow> \<not> undecided i r"
  by (erule upd_whereE) (auto simp: undecided_def decided_def status_of_decision_def split: review_answer.splits)

lemma settle_review_cases:
  assumes "settle_review e q r (out, w1) = (res, w')"
  obtains (same) "w' = w1" "\<forall>s. res = Inr s \<longrightarrow> ws_status s = Run_Pending_Intervention"
    | (decided) s x where "out = Inr s" "ws_status s = expected_status (rs_answer r)"
        "decide_review e q (rs_answer r) (ro_comment q) w1 = (x, w')" "res = Inr s \<or> (\<exists>y. res = Inl y)"
proof (cases out)
  case (Inl x)
  then show ?thesis using assms by (intro same) (auto simp: settle_review_def)
next
  case (Inr s)
  show ?thesis
  proof (cases "ws_status s \<noteq> Run_Pending_Intervention \<and> ws_status s = expected_status (rs_answer r)")
    case False
    then show ?thesis using assms Inr by (intro same) (auto simp: settle_review_def split: if_splits)
  next
    case True
    obtain x w2 where d: "decide_review e q (rs_answer r) (ro_comment q) w1 = (x, w2)" by force
    then have "w' = w2" "res = Inr s \<or> (\<exists>y. res = Inl y)"
      using assms Inr True by (auto simp: settle_review_def split: sum.splits)
    then show ?thesis using decided [OF Inr] True d by blast
  qed
qed

lemma answered_resume:
  assumes "resume_review_from_runtime e q w = Some (res, w')" and "answer_of q = Inr a" and "a \<noteq> Request_Changes"
  obtains (refused) x where "res = Inl x" "w' = w"
    | (resumed) r out w1 where "resumable_review e q w = Inr r" "rs_answer r = a" "inbox_grows w w1"
        "settle_review e q r (out, w1) = (res, w')"
        "resume_review e (rs_event r) (rs_interrupt_id r) (answer_json q r) w = (out, w1)"
proof (cases "resumable_review e q w")
  case (Inl x)
  then show ?thesis using assms(1) by (intro refused [of x]) (auto simp: resume_review_from_runtime_def)
next
  case (Inr r)
  have a: "rs_answer r = a"
    using Inr assms(2) by (auto simp: resumable_review_def bind_res_Inr split: if_splits health.splits option.splits)
  show ?thesis
  proof (cases "ro_runner q")
    case False
    then show ?thesis using assms Inr a
      by (intro refused) (auto simp: resume_review_from_runtime_def resume_with_def)
  next
    case True
    obtain out w1 where rv: "resume_review e (rs_event r) (rs_interrupt_id r) (answer_json q r) w = (out, w1)" by force
    have "settle_review e q r (out, w1) = (res, w')"
      using assms Inr a True rv by (simp add: resume_review_from_runtime_def resume_with_def)
    then show ?thesis using resumed [OF Inr a resume_review_grows [OF rv]] rv by blast
  qed
qed

text \<open>
  C7. An approval or a rejection is recorded only for a run that came to what it expects, whether or not the
  answer then raises: a review row that an answer changes is the pending one it names, it is changed into the
  decided row of that answer, and the run the review names was resumed with the answer and ended delivered for
  an approval, failed for a rejection. So an answer whose run pauses again, ends otherwise or raises leaves
  every review as it was.
\<close>

theorem decision_follows_outcome:
  assumes "resume_review_from_runtime e q w = Some (res, w')" and "answer_of q = Inr a" and "a \<noteq> Request_Changes"
    and "r \<in> set (ww_reviews w)" and "r \<notin> set (ww_reviews w')"
  shows "hr_id r = ro_review_id q \<and> hr_status r = ''pending''
    \<and> (\<exists>r' \<in> set (ww_reviews w'). hr_id r' = hr_id r \<and> hr_thread_id r' = hr_thread_id r \<and> hr_status r' = status_of_decision a)
    \<and> (\<exists>v s w1. resumable_review e q w = Inr v
         \<and> resume_review e (rs_event v) (rs_interrupt_id v) [(''approved'', JBool (a = Approve)), (''comment'', JStr (ro_comment q))] w = (Inr s, w1)
         \<and> ws_status s = (if a = Approve then Run_Delivered else Run_Failed))"
  using assms(1-3)
proof (cases rule: answered_resume)
  case (refused x)
  then show ?thesis using assms(4,5) by simp
next
  case (resumed v out w1)
  have r: "r \<in> set (ww_reviews w1)" by (rule grows_keeps [OF resumed(3) assms(4)])
  from resumed(4) show ?thesis
  proof (cases rule: settle_review_cases)
    case same
    then show ?thesis using r assms(5) by simp
  next
    case (decided s x)
    have "undecided (ro_review_id q) r"
    proof (rule ccontr)
      assume "\<not> undecided (ro_review_id q) r"
      then have "r \<in> set (ww_reviews w')" unfolding decide_rows(1) [OF decided(3)] set_upd_where using r by blast
      then show False using assms(5) by simp
    qed
    then have und: "hr_id r = ro_review_id q \<and> hr_status r = ''pending''" by (simp add: undecided_def)
    obtain now reviewer c where rows: "ww_reviews w' =
        upd_where (undecided (ro_review_id q)) (decided reviewer (status_of_decision (rs_answer v)) c now) (ww_reviews w1)"
      using decide_rows(1) [OF decided(3)] by blast
    have "decided reviewer (status_of_decision a) c now r \<in> set (ww_reviews w')"
      unfolding rows set_upd_where using r \<open>undecided (ro_review_id q) r\<close> resumed(2) by blast
    then have "\<exists>r' \<in> set (ww_reviews w'). hr_id r' = hr_id r \<and> hr_thread_id r' = hr_thread_id r \<and> hr_status r' = status_of_decision a"
      by (rule bexI [rotated]) (simp add: decided_def)
    moreover have "resume_review e (rs_event v) (rs_interrupt_id v)
        [(''approved'', JBool (a = Approve)), (''comment'', JStr (ro_comment q))] w = (Inr s, w1)"
      using resumed(2,5) decided(1) by (simp add: answer_json_def)
    moreover have "ws_status s = (if a = Approve then Run_Delivered else Run_Failed)"
      using decided(2) resumed(2) by (simp add: expected_status_def)
    ultimately show ?thesis using und resumed(1) by blast
  qed
qed

text \<open>
  C28. A review that was answered is answered once: after an approval or a rejection that reached its outcome,
  the worker's retry of it, with whatever answer, reports success without touching anything.
\<close>

theorem answered_review_not_resumed:
  assumes "resume_review_from_runtime e q w = Some (Inr s, w')" and "answer_of q = Inr a" and "a \<noteq> Request_Changes"
    and "ws_status s \<noteq> Run_Pending_Intervention"
    and "ro_review_id q2 = ro_review_id q" and "ro_runner q2" and "working e2 Reviews"
    and "answer_of q2 = Inr b" and "strip (ro_comment q2) \<noteq> []"
  shows "run_review_resume e2 q2 w' = Some (Inr None, w')"
proof -
  have none: "\<not> undecided (ro_review_id q) r" if "r \<in> set (ww_reviews w')" for r
    using assms(1-3)
  proof (cases rule: answered_resume)
    case (resumed v out w1)
    from resumed(4) show ?thesis
    proof (cases rule: settle_review_cases)
      case (decided s x)
      then show ?thesis using none_undecided that unfolding decide_rows(1) [OF decided(3)] by blast
    qed (use assms(4) in simp)
  qed simp
  have "get_review (ro_review_id q) (ww_reviews w') = Some r \<Longrightarrow> hr_status r \<noteq> ''pending''" for r
    using none by (auto simp: get_review_def row_to_record_def undecided_def dest!: find_Some_in)
  then have "resumable_review e2 q2 w' = Inl (ReviewResumeError (''Review '' @ ro_review_id q @ '' is not pending''))"
    using assms(5,7-9) by (auto simp: resumable_review_def split: option.split)
  then show ?thesis using assms(6) by (simp add: run_review_resume_def resume_review_from_runtime_def handled_not_pending [simplified])
qed

section \<open>Requests for changes\<close>

lemma reviews_canonical: "ensure_canonical_run e event i surface w = (res, w') \<Longrightarrow> ww_reviews w' = ww_reviews w"
proof -
  assume run: "ensure_canonical_run e event i surface w = (res, w')"
  have def_for: "definition_for e event org key w = (res, w') \<Longrightarrow> ww_reviews w' = ww_reviews w" for org key res w'
    by (auto simp: definition_for_def Let_def split: if_splits sum.splits option.splits prod.splits)
  show ?thesis
  proof (cases "xe_part e Runs = Absent \<or> org_of e event = []")
    case False
    obtain d w1 where d: "definition_for e event (org_of e event) (workflow_key_for (xe_lib e) event surface) w = (d, w1)" by force
    have "w' = w1 \<or> (\<exists>t. w' = with_runs t w1)"
      using run False d by (cases d) (auto simp: ensure_canonical_run_def Let_def split: sum.splits if_splits prod.splits)
    then show ?thesis using def_for [OF d] by auto
  qed (use run in \<open>auto simp: ensure_canonical_run_def\<close>)
qed

lemma execute_run_grows:
  assumes "execute_run e event surface s w = (res, w')"
  shows "inbox_grows w w'"
proof -
  let ?event = "with_repo_dir e event"
  obtain u w1 where run: "ensure_canonical_run e event (ws_run_id s) surface w = (u, w1)" by force
  note f1 = reviews_canonical [OF run]
  show ?thesis
  proof (cases u)
    case (Inl x)
    then show ?thesis using assms f1 by (intro grows_same) (simp add: execute_run_def run Let_def)
  next
    case u: (Inr a)
    obtain v w2 where build: "build_graph e (ws_run_id s) surface w1 = (v, w2)" by force
    note f2 = reviews_build [OF build]
    show ?thesis
    proof (cases v)
      case (Inl x)
      then show ?thesis using assms f1 f2 u by (intro grows_same) (simp add: execute_run_def run build Let_def)
    next
      case v: (Inr b)
      let ?w = "broadcast_lifecycle e (org_of e ?event) (ws_run_id s) ''running''
        (persist_lifecycle e ?event ''running'' (ws_run_id s) None None w2)"
      obtain r w3 where inv: "invoke_graph e True (call_of e ?event surface (JObj ?event) ?w) ?w = (r, w3)" by force
      have f3: "ww_reviews w3 = ww_reviews w" using reviews_invoke [OF inv] f1 f2 by simp
      show ?thesis
      proof (cases r)
        case (Inl x)
        then show ?thesis using assms f3 u v by (intro grows_same) (simp add: execute_run_def run build inv Let_def)
      next
        case (Inr y)
        then have "finish_result e ?event surface y s w3 = (res, w')"
          using assms u v by (simp add: execute_run_def run build inv Let_def)
        from grows_trans [OF grows_same [OF f3] finish_grows [OF this]] show ?thesis .
      qed
    qed
  qed
qed

lemma run_workflow_grows:
  assumes "run_workflow e event w = (res, w')"
  shows "inbox_grows w w'"
proof -
  let ?i = "str_or (jl_render (xe_lib e)) (jget event ''event_id'') (xe_uuid e)"
  obtain c w1 where cl: "claim_event e event ?i w = (c, w1)" by force
  have f: "ww_reviews w1 = ww_reviews w"
    using cl by (auto simp: claim_event_def Let_def split: health.splits sum.splits prod.splits)
  have "w' = w \<or> w' = w1 \<or> (\<exists>surface s. execute_run e event surface s w1 = (res, w'))"
    using assms by (auto simp: run_workflow_def cl Let_def and_then_do_def split: sum.splits option.splits if_splits)
  then show ?thesis using f execute_run_grows grows_trans grows_same by blast
qed

lemma resume_documentation_reviews:
  "resume_documentation e event verdict comment envs w = Some (res, w') \<Longrightarrow> ww_reviews w' = ww_reviews w"
  by (auto simp: resume_documentation_def dest!: reviews_build split: sum.splits prod.splits option.splits if_splits)

text \<open>
  C29. A request for changes is spent as soon as it is taken: it is recorded before the revised run starts, so
  whatever that run comes to, and even if it raises, the review is no longer pending and the worker's retry
  reports success without running anything.
\<close>

theorem revision_request_spent:
  assumes "resumable_review e q w = Inr r" and "rs_answer r = Request_Changes"
    and "resume_review_from_runtime e q w = Some (res, w')"
    and "ro_review_id q2 = ro_review_id q" and "ro_runner q2" and "working e2 Reviews"
    and "answer_of q2 = Inr b" and "strip (ro_comment q2) \<noteq> []"
  shows "run_review_resume e2 q2 w' = Some (Inr None, w')"
proof -
  let ?i = "ro_review_id q"
  obtain v where v: "v \<in> set (ww_reviews w)" "hr_id v = ?i"
    using assms(1) by (auto simp: resumable_review_def bind_res_Inr get_review_def dest!: find_Some_in split: if_splits health.splits option.splits)
  obtain x w1 where d: "decide_review e q Request_Changes (strip (ro_comment q)) w = (x, w1)" by force
  let ?w = "mark_original e (rs_run_id r) w1"
  have mark: "ww_reviews ?w = ww_reviews w1" by (simp add: mark_original_def)
  have "w' = w1 \<or> inbox_grows ?w w'"
  proof (cases "\<exists>y. x = Inr y \<and> ro_runner q")
    case False
    then show ?thesis using assms(1-3) d by (cases x) (auto simp: resume_review_from_runtime_def resume_with_def revise_run_def Let_def)
  next
    case True
    then obtain y z w2 where "resume_documentation e (rs_event r) ''request_changes'' (Some (strip (ro_comment q))) (ro_rounds q) ?w = Some (y, w2)"
      "run_workflow e (revision_event q (rs_event r)) w2 = (res, w')"
      using assms(1-3) d by (auto simp: resume_review_from_runtime_def resume_with_def revise_run_def Let_def)
    then show ?thesis
      using grows_trans [OF grows_same [OF resume_documentation_reviews] run_workflow_grows] by blast
  qed
  then have grows: "inbox_grows w1 w'" using grows_trans [OF grows_same [OF mark]] by auto
  have old: "\<not> undecided ?i u" if "u \<in> set (ww_reviews w1)" for u
    using none_undecided that unfolding decide_rows(1) [OF d] by blast
  have "map hr_id (ww_reviews w1) = map hr_id (ww_reviews w)"
    unfolding decide_rows(1) [OF d] by (rule map_key_upd_where) (simp add: decided_def)
  then have "hr_id ` set (ww_reviews w1) = hr_id ` set (ww_reviews w)" by (metis set_map)
  then have "?i \<in> hr_id ` set (ww_reviews w1)" using v by (auto intro: rev_image_eqI)
  then have none: "\<not> undecided ?i u" if u: "u \<in> set (ww_reviews w')" for u
  proof -
    obtain rows where rows: "ww_reviews w' = ww_reviews w1 @ rows" "hr_id ` set rows \<inter> hr_id ` set (ww_reviews w1) = {}"
      using grows by (auto simp: inbox_grows_def)
    show ?thesis
    proof (cases "u \<in> set rows")
      case True
      then have "hr_id u \<noteq> ?i" using rows(2) \<open>?i \<in> hr_id ` set (ww_reviews w1)\<close> imageI [OF True, of hr_id] by (metis disjoint_iff)
      then show ?thesis by (simp add: undecided_def)
    next
      case False
      then show ?thesis using old u rows(1) by simp
    qed
  qed
  have "get_review ?i (ww_reviews w') = Some u \<Longrightarrow> hr_status u \<noteq> ''pending''" for u
    using none by (auto simp: get_review_def row_to_record_def undecided_def dest!: find_Some_in)
  then have "resumable_review e2 q2 w' = Inl (ReviewResumeError (''Review '' @ ?i @ '' is not pending''))"
    using assms(4,6-8) by (auto simp: resumable_review_def split: option.split)
  then show ?thesis using assms(5) by (simp add: run_review_resume_def resume_review_from_runtime_def handled_not_pending [simplified])
qed

section \<open>Examples\<close>

definition order :: "review_answer \<Rightarrow> resume_order" where
  "order a = \<lparr>ro_review_id = ''v1'', ro_approved = None, ro_answer = Some a, ro_reviewer = ''u1'', ro_comment = ''fine'',
     ro_org = None, ro_uuid = ''e2'', ro_runner = True, ro_rounds = []\<rparr>"

definition sample_review :: review where
  "sample_review = \<lparr>hr_id = ''v1'', hr_org_id = [], hr_thread_id = ''e1'', hr_workflow = ''issue'', hr_tool_name = ''doc-review'',
     hr_tool_args = JObj [(''interrupt_id'', JStr ''i1'')], hr_action_description = None, hr_status = ''pending'',
     hr_reviewer_id = None, hr_decision = None, hr_decision_comment = None, hr_decided_at = None, hr_created_at = 1,
     hr_expires_at = None, hr_notification_sent_at = None, hr_metadata = JObj [], hr_detail = JNull\<rparr>"

definition review_event :: jobj where
  "review_event = [(''event_type'', JStr ''issues.opened''), (''event_id'', JStr ''e1'')]"

definition review_world :: world where
  "review_world = empty_world\<lparr>ww_reviews := [sample_review],
     ww_events := [claimed_event 1 ''e1'' \<lparr>ec_source = ''github'', ec_event_type = ''issues.opened'', ec_repository = None,
       ec_actor = None, ec_payload = JObj review_event, ec_org_id = None\<rparr>]\<rparr>"

abbreviation good_env :: env where "good_env \<equiv> sample_env (plain_result ''COMPLETED'')"

definition sample_resumable :: "review_answer \<Rightarrow> resumable" where
  "sample_resumable a = \<lparr>rs_answer = a, rs_run_id = ''e1'', rs_interrupt_id = ''i1'',
     rs_event = jset ''org_id'' (JStr []) (jset ''project_id'' (JStr []) review_event)\<rparr>"

lemma sample_resumable: "resumable_review good_env (order a) review_world = Inr (sample_resumable a)"
  by (simp add: resumable_review_def order_def answer_of_def review_world_def sample_review_def get_review_def row_to_record_def
      RESUMABLE_WORKFLOWS_def review_interrupt_def load_event_def get_event_by_id_def claimed_event_def coerce_payload_def
      review_event_def Let_def py_str_def strip_def is_space_def sample_env_def sample_resumable_def)

lemma sample_settles:
  "\<exists>s w'. resume_review good_env (rs_event (sample_resumable Approve)) ''i1'' (answer_json (order Approve) (sample_resumable Approve)) review_world
      = (Inr s, w') \<and> ws_status s = Run_Delivered"
  by (simp add: resume_review_def resumable_run_def sample_resumable_def review_event_def jset_def route_event_def text_at_def py_str_def
      event_prefix_def SURFACE_BY_PREFIX_def dict_or_empty_def or_json_def str_or_def with_repo_dir_def session_is_resumable_def
      answer_json_def order_def review_answer_of_def build_graph_def sample_env_def invoke_graph_def invoke_plain_def Let_def
      sample_reply_def finish_result_def effective_status_def plain_result_def refused_def is_blocked_delivery_def
      is_empty_delivery_def delivery_receipt_def settle_completed_def persist_document_changes_def persist_evaluation_outcome_def
      node_payload_of_def resumed_state_def fresh_state_def org_of_def)

lemma order_simps [simp]:
  "ro_review_id (order a) = ''v1''" "ro_runner (order a)" "ro_comment (order a) = ''fine''" "ro_rounds (order a) = []"
  "rs_answer (sample_resumable a) = a" "rs_interrupt_id (sample_resumable a) = ''i1''"
  by (simp_all add: order_def sample_resumable_def)

lemma strip_fine [simp]: "strip ''fine'' = ''fine''"
  by (simp add: strip_def is_space_def)

lemma sample_decides:
  assumes "inbox_grows review_world w"
  shows "\<exists>x w'. decide_review good_env (order a) a c w = (Inr x, w')"
proof -
  have "find (undecided ''v1'') (ww_reviews w) = Some sample_review"
    using assms by (auto simp: inbox_grows_def review_world_def sample_review_def undecided_def)
  then show ?thesis
    by (simp add: decide_review_def decide_def order_def normalized_decision_def handle_decision_def record_review_decision_def
        row_to_record_def decided_def interrupt_id_of_def sample_review_def Let_def split: prod.split)
qed

lemma sample_approved:
  obtains s w' where "resume_review_from_runtime good_env (order Approve) review_world = Some (Inr s, w')"
    "ws_status s = Run_Delivered" "sample_review \<notin> set (ww_reviews w')"
proof -
  obtain s w1 where rv: "resume_review good_env (rs_event (sample_resumable Approve)) ''i1''
      (answer_json (order Approve) (sample_resumable Approve)) review_world = (Inr s, w1)" "ws_status s = Run_Delivered"
    using sample_settles by blast
  obtain x w' where d: "decide_review good_env (order Approve) Approve ''fine'' w1 = (Inr x, w')"
    using sample_decides [OF resume_review_grows [OF rv(1)]] by blast
  have "resume_review_from_runtime good_env (order Approve) review_world = Some (Inr s, w')"
    using rv d by (simp add: resume_review_from_runtime_def sample_resumable resume_with_def settle_review_def expected_status_def)
  moreover have "sample_review \<notin> set (ww_reviews w')"
  proof
    assume "sample_review \<in> set (ww_reviews w')"
    then have "\<not> undecided (ro_review_id (order Approve)) sample_review"
      unfolding decide_rows(1) [OF d] by (rule none_undecided)
    then show False by (simp add: undecided_def sample_review_def order_def)
  qed
  ultimately show ?thesis using that rv(2) by blast
qed

theorem decision_follows_outcome_witness:
  "\<exists>s w'. resume_review_from_runtime good_env (order Approve) review_world = Some (Inr s, w')
     \<and> sample_review \<notin> set (ww_reviews w') \<and> (\<exists>r' \<in> set (ww_reviews w'). hr_id r' = ''v1'' \<and> hr_status r' = status_of_decision Approve)"
proof -
  obtain s w' where r: "resume_review_from_runtime good_env (order Approve) review_world = Some (Inr s, w')"
    "sample_review \<notin> set (ww_reviews w')" using sample_approved by metis
  have "answer_of (order Approve) = Inr Approve" "sample_review \<in> set (ww_reviews review_world)"
    by (simp_all add: answer_of_def order_def review_world_def)
  from decision_follows_outcome [OF r(1) this(1) _ this(2) r(2)]
  have "\<exists>r' \<in> set (ww_reviews w'). hr_id r' = hr_id sample_review \<and> hr_status r' = status_of_decision Approve" by blast
  then have "\<exists>r' \<in> set (ww_reviews w'). hr_id r' = ''v1'' \<and> hr_status r' = status_of_decision Approve"
    by (simp add: sample_review_def)
  with r show ?thesis by blast
qed

theorem answered_review_not_resumed_witness:
  "\<exists>s w'. resume_review_from_runtime good_env (order Approve) review_world = Some (Inr s, w')
     \<and> run_review_resume good_env (order Reject) w' = Some (Inr None, w')"
proof -
  obtain s w' where r: "resume_review_from_runtime good_env (order Approve) review_world = Some (Inr s, w')"
    "ws_status s = Run_Delivered" using sample_approved by metis
  have q: "answer_of (order Approve) = Inr Approve" "answer_of (order Reject) = Inr Reject"
    "ro_review_id (order Reject) = ro_review_id (order Approve)" "ro_runner (order Reject)" "working good_env Reviews"
    "strip (ro_comment (order Reject)) \<noteq> []"
    by (simp_all add: answer_of_def order_def sample_env_def strip_def is_space_def)
  show ?thesis
    using answered_review_not_resumed [OF r(1) q(1) _ _ q(3) q(4) q(5) q(2) q(6)] r by auto
qed

theorem revision_request_spent_witness:
  "\<exists>res w'. resume_review_from_runtime good_env (order Request_Changes) review_world = Some (res, w')
     \<and> run_review_resume good_env (order Request_Changes) w' = Some (Inr None, w')"
proof -
  obtain x w1 where d: "decide_review good_env (order Request_Changes) Request_Changes ''fine'' review_world = (Inr x, w1)"
    using sample_decides [OF grows_refl] by blast
  have "xe_node good_env = None" "xe_build good_env = (\<lambda>_ _ _. None)" by (simp_all add: sample_env_def)
  then have "\<exists>y. resume_documentation good_env (rs_event (sample_resumable Request_Changes)) ''request_changes'' (Some ''fine'') [] w = Some y" for w
    by (auto simp: resume_documentation_def build_graph_def split: sum.split)
  then obtain y where y: "resume_documentation good_env (rs_event (sample_resumable Request_Changes)) ''request_changes'' (Some ''fine'') []
      (mark_original good_env (rs_run_id (sample_resumable Request_Changes)) w1) = Some y" by blast
  have "\<exists>out. resume_review_from_runtime good_env (order Request_Changes) review_world = Some out"
    by (simp add: resume_review_from_runtime_def sample_resumable resume_with_def revise_run_def Let_def d y)
  then have "\<exists>res w'. resume_review_from_runtime good_env (order Request_Changes) review_world = Some (res, w')" by simp
  then obtain res w' where r: "resume_review_from_runtime good_env (order Request_Changes) review_world = Some (res, w')" by blast
  have q: "answer_of (order Request_Changes) = Inr Request_Changes" "ro_runner (order Request_Changes)" "working good_env Reviews"
    "strip (ro_comment (order Request_Changes)) \<noteq> []" "rs_answer (sample_resumable Request_Changes) = Request_Changes"
    by (simp_all add: answer_of_def order_def sample_env_def strip_def is_space_def sample_resumable_def)
  show ?thesis using revision_request_spent [OF sample_resumable q(5) r refl q(2,3,1,4)] r by blast
qed

end
