(* ===== verification/Answer_Races.thy ===== *)
theory Answer_Races
  imports Review_Resume
begin

text \<open>
  Answers to one intervention that meet: \<^verbatim>\<open>WorkflowRunner.resume_intervention\<close> reads the pending row, claims the
  answer and resumes the graph in three steps, and other calls may come in between. The lookup of a call is an
  argument of what follows it (\<open>after_lookup\<close>), so a call that read the row before another one claimed it is
  that function with the old row in the new world.
\<close>

lemma pages_invoked [simp]: "ww_invoked (settle_error e event i st code err w) = ww_invoked w"
  by (simp add: settle_error_def)

text \<open>A continued answer invokes the graph, unless the build raises or the session is gone.\<close>

lemma continue_invokes:
  assumes "xe_build e (rr_run_id q) (rr_surface q) w = None" and "session_is_resumable (xe_session e) (rr_interrupt_id q)"
  shows "ww_invoked (snd (continue_intervention e event q m w)) = ww_invoked w @ [text_or e event ''event_id'' []]"
proof -
  let ?event = "with_repo_dir e event" and ?w = "w\<lparr>ww_stream := new_graph (ww_stream w)\<rparr>"
  let ?c = "call_of e ?event (rr_surface q) (resume_input (rr_interrupt_id q) (JObj [(''approved'',
      JBool (rr_action q = ''approve'' \<or> rr_action q = ''approve_and_review'')), (''action'', JStr (rr_action q)), (''message'', m)])) ?w"
  have build: "build_graph e (rr_run_id q) (rr_surface q) w = (Inr (), ?w)" by (simp add: build_graph_def assms(1))
  obtain y w2 where inv: "invoke_graph e False ?c ?w = (y, w2)" by force
  have f: "ww_invoked w2 = ww_invoked w @ [text_or e event ''event_id'' []]"
    using invoke_frame(2) [OF inv] by (simp add: call_of_def)
  show ?thesis
  proof (cases y)
    case (Inl x)
    then show ?thesis using f assms(2) by (simp add: continue_intervention_def Let_def build inv)
  next
    case (Inr r)
    have "ww_invoked (snd (finish_result e ?event (rr_surface q) r (resumed_state (rr_run_id q) (rr_surface q)) w2)) = ww_invoked w2"
      using finish_settles [of e ?event "rr_surface q" r "resumed_state (rr_run_id q) (rr_surface q)" w2]
      unfolding settles_def by (rule conjunct1)
    then show ?thesis using Inr f assms(2) by (simp add: continue_intervention_def Let_def build inv)
  qed
qed

text \<open>The same answer twice, the second time in a world whose inbox has the first one.\<close>

definition answer :: "resume_request \<Rightarrow> int \<Rightarrow> inbox \<Rightarrow> intervention res \<times> inbox" where
  "answer q now t = claim_response (rr_run_id q) (rr_interrupt_id q) (rr_org q) (rr_key q) (rr_action q) (rr_message q) now t"

definition keyless :: "resume_request \<Rightarrow> intervention \<Rightarrow> bool" where
  "keyless q row \<longleftrightarrow> iv_idempotency_key row \<in> {None, Some (rr_key q)}"

lemma second_answer:
  assumes "distinct (map interrupt_of (ww_inbox w))" and "rr_action q \<in> set INTERVENTION_ACTIONS"
    and "get_pending (rr_run_id q) (rr_interrupt_id q) (rr_org q) (ww_inbox w) = Some row"
    and "\<forall>r \<in> set (ww_inbox w). iv_org_id r = rr_org q \<and> iv_idempotency_key r = Some (rr_key q) \<longrightarrow> r = row"
    and "ww_inbox w2 = snd (answer q now (ww_inbox w))"
  shows "\<exists>out x. answer q later (ww_inbox w2) = (if keyless q row then Inr out else Inl (InterventionNotFoundError x), ww_inbox w2)"
proof -
  obtain status where st: "map_of ACTION_STATUS (rr_action q) = Some status"
    using assms(2) by (auto simp: INTERVENTION_ACTIONS_def ACTION_STATUS_def)
  obtain out t1 where c1: "answer q now (ww_inbox w) = (out, t1)" by force
  obtain out2 t2 where c2: "answer q later t1 = (out2, t2)" by force
  show ?thesis
    using claim_replay [OF assms(1) st assms(3) [unfolded get_pending_def] assms(4), of "rr_message q" now later] c1 c2 assms(5)
    by (auto simp: answer_def keyless_def)
qed

text \<open>
  C27. What a repeated answer does depends on when it looked. For a row whose key is free or the answer's own, a
  call that looks after the first claim returns the outcome known so far and leaves everything as it is, but
  one that had looked before it is taken for the same answer and resumes the graph a second time. For a row
  that was created with another key (the handler gives its rows one of its own, and a client may answer with
  any) both are refused, although they repeat the stored answer.
\<close>

theorem repeated_answer:
  assumes "distinct (map interrupt_of (ww_inbox w))" and "rr_action q \<in> set INTERVENTION_ACTIONS"
    and "get_pending (rr_run_id q) (rr_interrupt_id q) (rr_org q) (ww_inbox w) = Some row"
    and "\<forall>r \<in> set (ww_inbox w). iv_org_id r = rr_org q \<and> iv_idempotency_key r = Some (rr_key q) \<longrightarrow> r = row"
    and "ww_inbox w2 = snd (answer q now (ww_inbox w))" and "\<not> lapsed e row"
    and "xe_build e (rr_run_id q) (rr_surface q) w2 = None" and "session_is_resumable (xe_session e) (rr_interrupt_id q)"
  shows "(keyless q row \<longrightarrow>
       after_lookup e event q m None w2 = (Inr (replay_outcome e q w2), w2)
       \<and> ww_invoked (snd (after_lookup e event q m (Some row) w2)) = ww_invoked w2 @ [text_or e event ''event_id'' []])
    \<and> (\<not> keyless q row \<longrightarrow>
       (\<exists>x. after_lookup e event q m None w2 = (Inl x, w2)) \<and> (\<exists>x. after_lookup e event q m (Some row) w2 = (Inl x, w2)))"
proof -
  obtain out x where c: "answer q (xe_now e) (ww_inbox w2)
      = (if keyless q row then Inr out else Inl (InterventionNotFoundError x), ww_inbox w2)"
    using second_answer [OF assms(1-5)] by blast
  have same: "w2\<lparr>ww_inbox := ww_inbox w2\<rparr> = w2" by simp
  show ?thesis
  proof (cases "keyless q row")
    case True
    have "after_lookup e event q m None w2 = (Inr (replay_outcome e q w2), w2)"
      using c True by (simp add: after_lookup_def answer_def same)
    moreover have "after_lookup e event q m (Some row) w2 = continue_intervention e event q m w2"
      using c True assms(6) by (simp add: after_lookup_def answer_def same)
    ultimately show ?thesis using True continue_invokes [OF assms(7,8)] by simp
  next
    case False
    then show ?thesis using c assms(6) by (simp add: after_lookup_def answer_def)
  qed
qed

definition sample_request :: resume_request where
  "sample_request = \<lparr>rr_run_id = ''e1'', rr_surface = ''issue'', rr_org = ''o1'', rr_interrupt_id = ''i1'',
     rr_action = ''approve'', rr_key = ''o1:i1'', rr_message = None\<rparr>"

definition waiting_row :: intervention where
  "waiting_row = \<lparr>iv_id = ''v1'', iv_run_id = ''e1'', iv_interrupt_id = ''i1'', iv_org_id = ''o1'', iv_surface = ''issue'',
     iv_workflow_key = None, iv_agent_id = ''a'', iv_node_id = ''n'', iv_tool_name = ''t'', iv_status = ''pending'',
     iv_reason = JNull, iv_response_message = None, iv_metadata = JNull, iv_idempotency_key = None, iv_resolver_id = None,
     iv_created_at = 1, iv_updated_at = 1, iv_resolved_at = None, iv_expires_at = None\<rparr>"

theorem repeated_answer_witness:
  "let e = sample_env (plain_result ''COMPLETED''); w2 = empty_world\<lparr>ww_inbox := snd (answer sample_request 1 [waiting_row])\<rparr>
   in ww_invoked (snd (after_lookup e (sample_event [(''event_id'', JStr ''e1'')]) sample_request JNull (Some waiting_row) w2)) = [''e1'']"
proof -
  let ?e = "sample_env (plain_result ''COMPLETED'')" and ?w = "empty_world\<lparr>ww_inbox := [waiting_row]\<rparr>"
  let ?w2 = "empty_world\<lparr>ww_inbox := snd (answer sample_request 1 [waiting_row])\<rparr>" and ?ev = "sample_event [(''event_id'', JStr ''e1'')]"
  have "distinct (map interrupt_of (ww_inbox ?w))" by simp
  moreover have "rr_action sample_request \<in> set INTERVENTION_ACTIONS" by (simp add: sample_request_def INTERVENTION_ACTIONS_def)
  moreover have "get_pending (rr_run_id sample_request) (rr_interrupt_id sample_request) (rr_org sample_request) (ww_inbox ?w) = Some waiting_row"
    by (simp add: get_pending_def sample_request_def waiting_row_def claimable_row_def at_interrupt_def is_pending_def)
  moreover have "\<forall>r \<in> set (ww_inbox ?w). iv_org_id r = rr_org sample_request \<and> iv_idempotency_key r = Some (rr_key sample_request) \<longrightarrow> r = waiting_row"
    by simp
  moreover have "ww_inbox ?w2 = snd (answer sample_request 1 (ww_inbox ?w))" by simp
  moreover have "\<not> lapsed ?e waiting_row" by (simp add: lapsed_def waiting_row_def)
  moreover have "xe_build ?e (rr_run_id sample_request) (rr_surface sample_request) ?w2 = None"
    "session_is_resumable (xe_session ?e) (rr_interrupt_id sample_request)"
    by (simp_all add: sample_env_def session_is_resumable_def)
  ultimately have "keyless sample_request waiting_row \<longrightarrow>
      ww_invoked (snd (after_lookup ?e ?ev sample_request JNull (Some waiting_row) ?w2)) = ww_invoked ?w2 @ [text_or ?e ?ev ''event_id'' []]"
    using repeated_answer [of ?w sample_request waiting_row ?w2 1 ?e ?ev JNull] by blast
  then show ?thesis
    by (simp add: keyless_def waiting_row_def [of] Let_def empty_world_def sample_event_def str_or_def py_str_def)
qed

section \<open>The response route\<close>

text \<open>
  \<^verbatim>\<open>app/api/routes/interventions.py\<close>: the run and the pending row of the caller's organization, the resume, and
  the claim repeated to read the stored answer back. An exception that is no claim or resume error is the
  server's own failure.
\<close>

record intervention_reply =
  ir_intervention_id :: string
  ir_interrupt_id :: string
  ir_status :: string
  ir_resolver :: "string option"
  ir_message :: "string option"
  ir_run_status :: string

datatype http_reply = Replied intervention_reply | Refused nat string | Crashed exn

definition reply_of :: "intervention \<Rightarrow> string \<Rightarrow> intervention_reply" where
  "reply_of r run_status =
     \<lparr>ir_intervention_id = iv_id r, ir_interrupt_id = iv_interrupt_id r, ir_status = iv_status r, ir_resolver = iv_resolver_id r,
      ir_message = (case iv_response_message r of None \<Rightarrow> None | Some m \<Rightarrow> if m = [] then None else Some (scrub_secret_values m)),
      ir_run_status = run_status\<rparr>"

text \<open>The event a run is resumed with: four fields, the workflow key always empty, for run rows have none.\<close>

definition event_for :: "run_row \<Rightarrow> string \<Rightarrow> string \<Rightarrow> jobj" where
  "event_for run run_id org =
     [(''event_id'', JStr run_id), (''event_type'', JStr (case wr_event_type run of None \<Rightarrow> [] | Some t \<Rightarrow> t)),
      (''project_id'', JStr org), (''workflow_key'', JStr [])]"

definition response_of :: "string \<Rightarrow> string option \<Rightarrow> string \<Rightarrow> jobj" where
  "response_of action message key =
     [(''action'', JStr action), (''message'', case message of None \<Rightarrow> JNull | Some m \<Rightarrow> JStr m), (''idempotency_key'', JStr key)]"

definition claim_reply :: "(exn \<Rightarrow> nat option) \<Rightarrow> intervention res \<Rightarrow> string \<Rightarrow> http_reply" where
  "claim_reply code r run_status =
     (case r of
        Inr row \<Rightarrow> Replied (reply_of row run_status)
      | Inl x \<Rightarrow> (case code x of Some n \<Rightarrow> Refused n (exn_msg x) | None \<Rightarrow> Crashed x))"

definition replay_code :: "exn \<Rightarrow> nat option" where
  "replay_code x =
     (if exn_type x = ''InterventionConflictError'' then Some 409
      else if exn_type x = ''InterventionNotFoundError'' then Some 404 else None)"

definition reread_code :: "exn \<Rightarrow> nat option" where
  "reread_code x = (if exn_type x \<in> {''InterventionConflictError'', ''InterventionNotFoundError''} then Some 409 else None)"

definition phase_of :: "intervention \<Rightarrow> json" where
  "phase_of r = (case iv_reason r of JObj d \<Rightarrow> jget d ''phase'' | _ \<Rightarrow> JNull)"

definition respond_to_intervention ::
  "env \<Rightarrow> string \<Rightarrow> string \<Rightarrow> string \<Rightarrow> string \<Rightarrow> string option \<Rightarrow> string \<Rightarrow> world \<Rightarrow> http_reply \<times> world" where
  "respond_to_intervention e org run_id interrupt_id action message key w =
     (if xe_part e Runs = Absent \<or> xe_part e Interventions = Absent
      then (Refused 503 ''Intervention responses unavailable'', w)
      else if xe_part e Runs = Failing then (Crashed OutOfService, w)
      else case get_run org run_id (st_runs (ww_stream w)) of
        None \<Rightarrow> (Refused 404 ''Workflow run not found'', w)
      | Some run \<Rightarrow>
          if xe_part e Interventions = Failing then (Crashed OutOfService, w)
          else case get_pending run_id interrupt_id org (ww_inbox w) of
            None \<Rightarrow>
              (let (r, t) = claim_response run_id interrupt_id org key action message (xe_now e) (ww_inbox w)
               in (claim_reply replay_code r (wr_status run), w\<lparr>ww_inbox := t\<rparr>))
          | Some row \<Rightarrow>
              if phase_of row \<noteq> JStr ''before_tool''
              then (Refused 422 ''This intervention phase does not support human responses'', w)
              else case resume_intervention e (event_for run run_id org) interrupt_id (response_of action message key) w of
                (Inl x, w) \<Rightarrow>
                  (if exn_type x \<in> {''InterventionConflictError'', ''InterventionResumeError''}
                   then Refused 409 (exn_msg x) else Crashed x, w)
              | (Inr s, w) \<Rightarrow>
                  (let (r, t) = claim_response run_id interrupt_id org key action message (xe_now e) (ww_inbox w)
                   in (claim_reply reread_code r (status_value (ws_status s)), w\<lparr>ww_inbox := t\<rparr>)))"

section \<open>What a resume does to the inbox\<close>

lemma inbox_frames [simp]:
  "ww_inbox (with_runs t w) = ww_inbox w" "ww_inbox (mark_event e event st w) = ww_inbox w"
  "ww_inbox (broadcast_lifecycle e org i st w) = ww_inbox w" "ww_inbox (notify_reviewers e i w) = ww_inbox w"
  "ww_inbox (publish_envelope e v w) = ww_inbox w"
  by (simp_all add: with_runs_def mark_event_def broadcast_lifecycle_def notify_reviewers_def publish_envelope_def)

lemma inbox_lifecycle [simp]: "ww_inbox (persist_lifecycle e event st i err v w) = ww_inbox w"
  by (simp add: persist_lifecycle_def Let_def)

lemma inbox_settled [simp]:
  "ww_inbox (settle_error e event i st code err w) = ww_inbox w" "ww_inbox (settle_paused e event i st v w) = ww_inbox w"
  by (simp_all add: settle_error_def settle_paused_def)

lemma inbox_publish [simp]: "ww_inbox (publish_frame e i org v w) = ww_inbox w"
  by (simp add: publish_frame_def Let_def split: option.split)

lemma inbox_stream: "stream_loop e i surface org raws r w = (res, w') \<Longrightarrow> ww_inbox w' = ww_inbox w"
  by (induction raws arbitrary: r w) (auto split: sum.splits)

lemma inbox_invoke:
  assumes "invoke_graph e fresh c w = (res, w')"
  shows "ww_inbox w' = gy_inbox (xe_graph e c w)"
proof -
  let ?w = "settle_graph (xe_graph e c w) (w\<lparr>ww_invoked := ww_invoked w @ [gc_run_id c]\<rparr>)"
  have g: "ww_inbox ?w = gy_inbox (xe_graph e c w)" by (simp add: settle_graph_def)
  show ?thesis
  proof (cases "xe_streaming e")
    case True
    obtain r1 w1 where loop: "stream_loop e (gc_run_id c) (gc_surface c) (text_or e (gc_state c) ''project_id'' [])
        (gy_events (xe_graph e c w)) None ?w = (r1, w1)" by force
    have "w' = w1 \<or> (\<exists>v. w' = publish_envelope e v w1)"
      using assms True loop by (auto simp: invoke_graph_def invoke_streaming_def Let_def split: sum.splits option.splits)
    then show ?thesis using inbox_stream [OF loop] g by auto
  next
    case False
    then have "w' = ?w" using assms by (simp add: invoke_graph_def invoke_plain_def Let_def)
    then show ?thesis using g by simp
  qed
qed

lemma inbox_index [simp]: "ww_inbox (index_files e n us w) = ww_inbox w"
  by (induction us arbitrary: n w) simp_all

lemma inbox_nodes: "persist_nodes e event i n repository nds w = (res, w') \<Longrightarrow> ww_inbox w' = ww_inbox w"
proof (induction nds arbitrary: n repository w)
  case (Cons nd nds)
  show ?case
  proof (cases "ne_node_id nd \<in> {''update'', ''create''} \<and> structured_dict (ne_own nd) \<noteq> None")
    case False
    then show ?thesis using Cons by (auto split: if_splits option.splits)
  next
    case True
    then obtain d where d: "structured_dict (ne_own nd) = Some d" by blast
    show ?thesis
    proof (cases "dict_items (jget d ''files'')")
      case (Inl x)
      then show ?thesis using Cons.prems True d by auto
    next
      case (Inr files)
      then show ?thesis using Cons.IH Cons.prems True d by (fastforce simp: Let_def)
    qed
  qed
qed simp

lemma inbox_documents: "persist_document_changes e event i r w = (res, w') \<Longrightarrow> ww_inbox w' = ww_inbox w"
  by (auto simp: persist_document_changes_def dest: inbox_nodes split: if_splits)

lemma inbox_delivery [simp]: "ww_inbox (persist_delivery_result e event i r w) = ww_inbox w"
  by (simp add: persist_delivery_result_def Let_def split: option.split)

lemma inbox_evaluation: "persist_evaluation_outcome e event i v w = (res, w') \<Longrightarrow> ww_inbox w' = ww_inbox w"
  by (auto simp: persist_evaluation_outcome_def Let_def split: if_splits sum.splits)

lemma inbox_interrupts: "store_interrupts e i surface org n irs s w = (ids, s', w') \<Longrightarrow> ww_inbox w' = ww_inbox w"
proof (induction irs arbitrary: n s w ids)
  case (Cons ir irs)
  have "ww_inbox (store_one e i surface org n ir w) = ww_inbox w" by (simp add: store_one_def)
  then show ?case using Cons by (fastforce simp: Let_def split: prod.splits)
qed simp

lemma inbox_finish: "finish_result e event surface r s w = (res, w') \<Longrightarrow> ww_inbox w' = ww_inbox w"
proof -
  assume fin: "finish_result e event surface r s w = (res, w')"
  have failed: "settle_failed e event i error f v s w = (res, w') \<Longrightarrow> ww_inbox w' = ww_inbox w" for i error f v s res w'
    by (auto simp: settle_failed_def and_then_do_def dest!: inbox_evaluation split: prod.splits sum.splits)
  have completed: "settle_completed e event i r v s w = (res, w') \<Longrightarrow> ww_inbox w' = ww_inbox w" for i v s res w'
    by (auto simp: settle_completed_def and_then_do_def dest!: inbox_evaluation inbox_documents split: prod.splits sum.splits)
  show ?thesis
  proof (cases "effective_status (xe_lib e) r = ''INTERRUPTED''")
    case True
    then obtain ids s0 n irs s2 w1 where st: "store_interrupts e (ws_run_id s) surface (org_of e event) n irs s0 w = (ids, s2, w1)"
      "ww_inbox w' = ww_inbox w1"
      using fin by (auto simp: finish_result_def Let_def split: prod.splits if_splits)
    show ?thesis using inbox_interrupts [OF st(1)] st(2) by simp
  next
    case False
    then show ?thesis using fin failed completed by (auto simp: finish_result_def Let_def split: if_splits)
  qed
qed

lemma inbox_continue:
  assumes "\<forall>c w. gy_inbox (xe_graph e c w) = ww_inbox w" and "continue_intervention e event q m w = (res, w')"
  shows "ww_inbox w' = ww_inbox w"
proof -
  let ?event = "with_repo_dir e event"
  let ?inp = "resume_input (rr_interrupt_id q) (JObj [(''approved'',
      JBool (rr_action q = ''approve'' \<or> rr_action q = ''approve_and_review'')), (''action'', JStr (rr_action q)), (''message'', m)])"
  obtain b w1 where build: "build_graph e (rr_run_id q) (rr_surface q) w = (b, w1)" by force
  then have f1: "ww_inbox w1 = ww_inbox w" by (auto simp: build_graph_def split: option.splits)
  obtain y w2 where inv: "invoke_graph e False (call_of e ?event (rr_surface q) ?inp w1) w1 = (y, w2)" by force
  have f2: "ww_inbox w2 = ww_inbox w" using inbox_invoke [OF inv] assms(1) f1 by simp
  show ?thesis
  proof (cases b)
    case (Inl x)
    then show ?thesis using assms(2) f1 by (simp add: continue_intervention_def Let_def build)
  next
    case b: (Inr u)
    show ?thesis
    proof (cases "session_is_resumable (xe_session e) (rr_interrupt_id q)")
      case False
      then have "w' = settle_error e ?event (rr_run_id q) ''failed'' ''SESSION_LOST'' SESSION_LOST w1"
        using assms(2) b by (simp add: continue_intervention_def Let_def build)
      then show ?thesis using f1 by simp
    next
      case True
      show ?thesis
      proof (cases y)
        case (Inl x)
        then have "w' = settle_error e ?event (rr_run_id q) ''failed'' ''RESUME_FAILED'' (exn_msg x) w2"
          using assms(2) b True by (simp add: continue_intervention_def Let_def build inv)
        then show ?thesis using f2 by simp
      next
        case (Inr r)
        then have "finish_result e ?event (rr_surface q) r (resumed_state (rr_run_id q) (rr_surface q)) w2 = (res, w')"
          using assms(2) b True by (simp add: continue_intervention_def Let_def build inv)
        then show ?thesis using inbox_finish f2 by metis
      qed
    qed
  qed
qed

text \<open>The request a response of the route makes, when it gets as far as the lookup.\<close>

lemma route_request:
  assumes "resume_intervention e (event_for run run_id org) i (response_of action message key) w = (Inr s, w')" and "key \<noteq> []"
  obtains q pending where "rr_run_id q = run_id" "rr_interrupt_id q = i" "rr_org q = org" "rr_action q = action"
    "rr_key q = key" "rr_message q = message" "action \<in> set INTERVENTION_ACTIONS"
    "pending = get_pending run_id i org (ww_inbox w)"
    "after_lookup e (event_for run run_id org) q (jget (response_of action message key) ''message'') pending w = (Inr s, w')"
proof -
  let ?ev = "event_for run run_id org" and ?r = "response_of action message key"
  have ids: "text_or e ?ev ''event_id'' [] = run_id" "org_of e ?ev = org" "text_or e ?r ''action'' [] = action"
    "str_or (jl_render (xe_lib e)) (jget ?r ''idempotency_key'') dflt = key" for dflt
    using assms(2) by (simp_all add: event_for_def org_of_def response_of_def str_or_def py_str_def)
  obtain q pending where q: "resume_request_of e ?ev i ?r = Inr q" "lookup_intervention e q w = Inr pending"
    "after_lookup e ?ev q (jget ?r ''message'') pending w = (Inr s, w')"
  proof -
    obtain p where p: "bind_res (resume_request_of e ?ev i ?r) (\<lambda>q. bind_res (lookup_intervention e q w) (\<lambda>pending. Inr (q, pending))) = Inr p"
      using assms(1) by (cases "bind_res (resume_request_of e ?ev i ?r) (\<lambda>q. bind_res (lookup_intervention e q w) (\<lambda>pending. Inr (q, pending)))")
        (simp_all add: resume_intervention_def)
    then obtain q0 p0 where q0: "resume_request_of e ?ev i ?r = Inr q0" "lookup_intervention e q0 w = Inr p0" "p = (q0, p0)"
      by (elim bind_resE) simp
    have "after_lookup e ?ev q0 (jget ?r ''message'') p0 w = (Inr s, w')"
      using assms(1) unfolding resume_intervention_def p q0(3) by simp
    then show ?thesis using that q0(1,2) by blast
  qed
  have msg: "(case jget ?r ''message'' of JNull \<Rightarrow> None | v \<Rightarrow> Some (text_of e v)) = message"
    by (cases message) (simp_all add: response_of_def py_str_def)
  obtain rs where rs: "resumable_run e ?ev (InterventionResumeError ''Cannot resume an intervention without a valid run and surface'') = Inr rs"
    and rest: "(case rs of (run_id, surface) \<Rightarrow>
        if i = [] then Inl (InterventionResumeError ''interrupt_id is required'')
        else if ?r = [] then Inl (InterventionResumeError ''a non-empty response dict is required'')
        else if xe_part e Interventions = Absent then Inl (InterventionResumeError ''steering interventions are unavailable'')
        else if action \<notin> set INTERVENTION_ACTIONS then Inl (InterventionResumeError (''unsupported intervention action '' @ quoted action))
        else Inr \<lparr>rr_run_id = run_id, rr_surface = surface, rr_org = org, rr_interrupt_id = i, rr_action = action,
                  rr_key = key, rr_message = message\<rparr>) = Inr q"
    using q(1) unfolding resume_request_of_def ids msg Let_def by (rule bind_resE)
  obtain surface where surface: "rs = (run_id, surface)"
    using rs unfolding resumable_run_def ids Let_def by (rule bind_resE) (auto split: option.splits if_splits)
  have "q = \<lparr>rr_run_id = run_id, rr_surface = surface, rr_org = org, rr_interrupt_id = i, rr_action = action,
      rr_key = key, rr_message = message\<rparr> \<and> action \<in> set INTERVENTION_ACTIONS"
    using rest unfolding surface prod.case by (simp split: if_splits)
  then have fields: "rr_run_id q = run_id" "rr_interrupt_id q = i" "rr_org q = org" "rr_action q = action" "rr_key q = key"
    "rr_message q = message" "action \<in> set INTERVENTION_ACTIONS" by simp_all
  have pend: "pending = get_pending run_id i org (ww_inbox w)"
    using q(2) by (auto simp: lookup_intervention_def fields split: if_splits)
  show ?thesis by (rule that [OF fields pend q(3)])
qed

text \<open>
  C26. An answer that the client gives a key of its own is carried out and then reported as a conflict: the row
  keeps the key the handler created it with, so reading the answer back under the client's key finds nothing,
  and the client is told 409 for a run that was resumed and settled.
\<close>

theorem answer_reported_as_conflict:
  assumes "\<forall>c w. gy_inbox (xe_graph e c w) = ww_inbox w"
    and "working e Runs" and "working e Interventions"
    and "get_run org run_id (st_runs (ww_stream w)) = Some run"
    and "distinct (map interrupt_of (ww_inbox w))"
    and "get_pending run_id i org (ww_inbox w) = Some row" and "phase_of row = JStr ''before_tool''"
    and "iv_idempotency_key row = Some k" and "k \<noteq> key" and "key \<noteq> []"
    and "\<forall>r \<in> set (ww_inbox w). iv_org_id r = org \<longrightarrow> iv_idempotency_key r \<noteq> Some key"
    and "resume_intervention e (event_for run run_id org) i (response_of action message key) w = (Inr s, w')"
  shows "\<exists>m. respond_to_intervention e org run_id i action message key w = (Refused 409 m, w')"
proof -
  from route_request [OF assms(12,10)] obtain q pending where
    q: "rr_run_id q = run_id" "rr_interrupt_id q = i" "rr_org q = org" "rr_action q = action" "rr_key q = key" "rr_message q = message"
    and act: "action \<in> set INTERVENTION_ACTIONS" and pending: "pending = get_pending run_id i org (ww_inbox w)"
    and out: "after_lookup e (event_for run run_id org) q (jget (response_of action message key) ''message'') pending w = (Inr s, w')"
    by metis
  obtain c t where ans: "answer q (xe_now e) (ww_inbox w) = (c, t)" by force
  have "\<not> lapsed e row \<and> (\<exists>v. c = Inr v) \<and>
      continue_intervention e (event_for run run_id org) q (jget (response_of action message key) ''message'') (w\<lparr>ww_inbox := t\<rparr>) = (Inr s, w')"
    using out ans assms(6) unfolding pending
    by (auto simp: after_lookup_def answer_def split: if_splits sum.splits prod.splits)
  then have inbox: "ww_inbox w' = t" using inbox_continue [OF assms(1)] by fastforce
  have "ww_inbox w' = snd (answer q (xe_now e) (ww_inbox w))" by (simp add: inbox ans)
  moreover have "get_pending (rr_run_id q) (rr_interrupt_id q) (rr_org q) (ww_inbox w) = Some row" using assms(6) by (simp add: q)
  moreover have "\<forall>r \<in> set (ww_inbox w). iv_org_id r = rr_org q \<and> iv_idempotency_key r = Some (rr_key q) \<longrightarrow> r = row"
    using assms(11) unfolding q by blast
  moreover have "rr_action q \<in> set INTERVENTION_ACTIONS" using act by (simp add: q)
  ultimately obtain v x where again: "answer q (xe_now e) (ww_inbox w')
      = (if keyless q row then Inr v else Inl (InterventionNotFoundError x), ww_inbox w')"
    using second_answer [OF assms(5)] by metis
  have "\<not> keyless q row" using assms(8,9) by (simp add: keyless_def q)
  then have "claim_response run_id i org key action message (xe_now e) (ww_inbox w') = (Inl (InterventionNotFoundError x), ww_inbox w')"
    using again by (simp add: answer_def q)
  then show ?thesis
    using assms(2-4,6,7,12) by (simp add: respond_to_intervention_def claim_reply_def reread_code_def InterventionNotFoundError_def)
qed

definition issue_run :: run_row where
  "issue_run = \<lparr>wr_id = ''e1'', wr_definition_id = None, wr_org_id = ''o1'', wr_source = ''github'', wr_source_event_id = None,
     wr_event_type = Some ''issues.opened'', wr_title = None, wr_repository = None, wr_actor = None, wr_target = JNull,
     wr_status = ''pending_intervention'', wr_current_stage = None, wr_stage_states = [], wr_input = JNull, wr_output = None,
     wr_error = None, wr_started_at = None, wr_completed_at = None, wr_created_at = 1, wr_updated_at = 1\<rparr>"

definition handler_row :: intervention where
  "handler_row = waiting_row\<lparr>iv_reason := JObj [(''phase'', JStr ''before_tool'')], iv_idempotency_key := Some ''o1:i1''\<rparr>"

definition handler_world :: world where
  "handler_world = empty_world\<lparr>ww_inbox := [handler_row], ww_stream := idle_stream\<lparr>st_runs := [issue_run]\<rparr>\<rparr>"

lemma handler_settles:
  "\<exists>s w'. resume_intervention good_env (event_for issue_run ''e1'' ''o1'') ''i1'' (response_of ''approve'' None ''k1'') handler_world
     = (Inr s, w')"
  by (simp add: resume_intervention_def resume_request_of_def org_of_def event_for_def issue_run_def response_of_def str_or_def py_str_def
      resumable_run_def route_event_def text_at_def event_prefix_def SURFACE_BY_PREFIX_def dict_or_empty_def or_json_def
      INTERVENTION_ACTIONS_def sample_env_def lookup_intervention_def get_pending_def handler_world_def handler_row_def waiting_row_def
      claimable_row_def at_interrupt_def is_pending_def after_lookup_def lapsed_def claim_response_def ACTION_STATUS_def
      continue_intervention_def with_repo_dir_def build_graph_def session_is_resumable_def invoke_graph_def invoke_plain_def Let_def
      sample_reply_def finish_result_def effective_status_def plain_result_def refused_def is_blocked_delivery_def
      is_empty_delivery_def delivery_receipt_def settle_completed_def persist_document_changes_def persist_evaluation_outcome_def
      node_payload_of_def)

theorem answer_reported_as_conflict_witness:
  "\<exists>m w'. respond_to_intervention good_env ''o1'' ''e1'' ''i1'' ''approve'' None ''k1'' handler_world = (Refused 409 m, w')"
proof -
  obtain s w' where r: "resume_intervention good_env (event_for issue_run ''e1'' ''o1'') ''i1'' (response_of ''approve'' None ''k1'') handler_world
     = (Inr s, w')" using handler_settles by blast
  have "\<forall>c w. gy_inbox (xe_graph good_env c w) = ww_inbox w" by (simp add: sample_env_def sample_reply_def)
  moreover have "working good_env Runs" "working good_env Interventions" by (simp_all add: sample_env_def)
  moreover have "get_run ''o1'' ''e1'' (st_runs (ww_stream handler_world)) = Some issue_run"
    by (simp add: handler_world_def get_run_def issue_run_def)
  moreover have inbox: "ww_inbox handler_world = [handler_row]" by (simp add: handler_world_def)
  moreover have "get_pending ''e1'' ''i1'' ''o1'' (ww_inbox handler_world) = Some handler_row"
    by (simp add: inbox get_pending_def handler_row_def waiting_row_def claimable_row_def at_interrupt_def is_pending_def)
  moreover have "phase_of handler_row = JStr ''before_tool''" "iv_idempotency_key handler_row = Some ''o1:i1''"
    by (simp_all add: phase_of_def handler_row_def)
  ultimately show ?thesis using answer_reported_as_conflict [OF _ _ _ _ _ _ _ _ _ _ _ r, of handler_row "''o1:i1''"] by auto
qed

end
