(* ===== verification/Text_Similarity.thy ===== *)
theory Text_Similarity
  imports Draftly_Prelude
begin

text \<open>
  The text functions of the feedback modules: the words a topic is made of (the pattern
  \<^verbatim>\<open>[a-z][a-z0-9_-]{2,}\<close>), the normal form of a message, and the ratio of \<^verbatim>\<open>difflib.SequenceMatcher\<close>
  with its rule for popular characters of long texts, by which near-duplicates are found.
\<close>

section \<open>Words and normal forms\<close>

definition is_lower :: "char \<Rightarrow> bool" where
  "is_lower c \<longleftrightarrow> (97 :: nat) \<le> of_char c \<and> of_char c \<le> (122 :: nat)"

definition word_char :: "char \<Rightarrow> bool" where
  "word_char c \<longleftrightarrow> is_lower c \<or> is_digit c \<or> c = CHR ''_'' \<or> c = CHR ''-''"

function find_words :: "string \<Rightarrow> string list" where
  "find_words [] = []"
| "find_words (c # cs) =
     (let w = takeWhile word_char cs in
      if is_lower c \<and> 2 \<le> length w then (c # w) # find_words (dropWhile word_char cs) else find_words cs)"
  by pat_completeness auto
termination
  by (relation "measure length") (simp_all add: le_imp_less_Suc length_dropWhile_le)

fun collapse_spaces :: "bool \<Rightarrow> string \<Rightarrow> string" where
  "collapse_spaces seen [] = []"
| "collapse_spaces seen (c # cs) =
     (if is_space c then (if seen then [] else [CHR '' '']) @ collapse_spaces True cs
      else c # collapse_spaces False cs)"

definition normalize :: "string \<Rightarrow> string" where
  "normalize s = collapse_spaces False (strip (lower s))"

section \<open>Matching blocks\<close>

text \<open>In a text of 200 characters or more, those that make up over a hundredth of it start no match.\<close>

definition popular :: "string \<Rightarrow> char \<Rightarrow> bool" where
  "popular b c \<longleftrightarrow> 200 \<le> length b \<and> length b div 100 + 1 < count_list b c"

fun common :: "string \<Rightarrow> string \<Rightarrow> nat" where
  "common (x # xs) (y # ys) = (if x = y then Suc (common xs ys) else 0)"
| "common xs ys = 0"

fun run_of :: "(char \<Rightarrow> bool) \<Rightarrow> string \<Rightarrow> string \<Rightarrow> nat" where
  "run_of p (x # xs) (y # ys) = (if x = y \<and> \<not> p x then Suc (run_of p xs ys) else 0)"
| "run_of p xs ys = 0"

definition run_at :: "(char \<Rightarrow> bool) \<Rightarrow> string \<Rightarrow> string \<Rightarrow> nat \<Rightarrow> nat \<Rightarrow> nat" where
  "run_at p xs ys i j = run_of p (drop i xs) (drop j ys)"

definition longest :: "(char \<Rightarrow> bool) \<Rightarrow> string \<Rightarrow> string \<Rightarrow> nat" where
  "longest p xs ys =
     foldr max (concat (map (\<lambda>i. map (run_at p xs ys i) [0..<length ys]) [0..<length xs])) 0"

text \<open>The longest run that starts earliest in the first text and then in the second, grown on both sides.\<close>

definition first_run :: "(char \<Rightarrow> bool) \<Rightarrow> string \<Rightarrow> string \<Rightarrow> nat \<times> nat" where
  "first_run p xs ys =
     (let k = longest p xs ys in
      if k = 0 then (0, 0)
      else case find (\<lambda>i. \<exists>j \<in> set [0..<length ys]. run_at p xs ys i j = k) [0..<length xs] of
        None \<Rightarrow> (0, 0)
      | Some i \<Rightarrow> (case find (\<lambda>j. run_at p xs ys i j = k) [0..<length ys] of None \<Rightarrow> (0, 0) | Some j \<Rightarrow> (i, j)))"

definition match_block :: "(char \<Rightarrow> bool) \<Rightarrow> string \<Rightarrow> string \<Rightarrow> nat \<times> nat \<times> nat" where
  "match_block p xs ys =
     (let (i, j) = first_run p xs ys; k = longest p xs ys;
          l = common (rev (take i xs)) (rev (take j ys));
          r = common (drop (i + k) xs) (drop (j + k) ys)
      in (i - l, j - l, l + k + r))"

lemma common_le: "common xs ys \<le> length xs" "common xs ys \<le> length ys"
  by (induction xs ys rule: common.induct) simp_all

lemma run_le: "run_of p xs ys \<le> length xs" "run_of p xs ys \<le> length ys"
  by (induction p xs ys rule: run_of.induct) auto

lemma longest_ge: "i < length xs \<Longrightarrow> j < length ys \<Longrightarrow> run_at p xs ys i j \<le> longest p xs ys"
proof -
  have ge: "x \<in> set ns \<Longrightarrow> x \<le> foldr max ns 0" for x :: nat and ns by (induction ns) auto
  assume "i < length xs" "j < length ys"
  then have "i \<in> set [0..<length xs]" "run_at p xs ys i j \<in> set (map (run_at p xs ys i) [0..<length ys])" by auto
  then have "\<exists>l \<in> set (map (\<lambda>i. map (run_at p xs ys i) [0..<length ys]) [0..<length xs]). run_at p xs ys i j \<in> set l"
    by (simp only: set_map bex_simps) (rule bexI)
  then have "run_at p xs ys i j \<in> set (concat (map (\<lambda>i. map (run_at p xs ys i) [0..<length ys]) [0..<length xs]))"
    by (simp only: set_concat UN_iff)
  then show ?thesis unfolding longest_def by (rule ge)
qed

lemma longest_attained:
  assumes "longest p xs ys \<noteq> 0"
  obtains i j where "i < length xs" "j < length ys" "run_at p xs ys i j = longest p xs ys"
proof -
  have in_fold: "foldr max ns 0 \<noteq> 0 \<Longrightarrow> foldr max ns 0 \<in> set ns" for ns :: "nat list"
    by (induction ns) (auto simp: max_def)
  from in_fold [OF assms [unfolded longest_def]] that show ?thesis unfolding longest_def by auto
qed

lemma find_first:
  assumes "find p [0..<n] = Some i"
  shows "i < n" and "p i" and "\<And>j. p j \<Longrightarrow> i \<le> j"
proof -
  obtain m where m: "m < n" "p m" "i = m" "\<forall>j<m. \<not> p j" using assms by (auto simp: find_Some_iff)
  show "i < n" "p i" using m(1-3) by simp_all
  show "i \<le> j" if "p j" for j using m(3,4) that by (meson not_less)
qed

text \<open>The run that is found: it is a longest one, and none starts earlier.\<close>

lemma first_run_props:
  assumes "longest p xs ys \<noteq> 0" and "first_run p xs ys = (i, j)"
  shows "i < length xs" "j < length ys" "run_at p xs ys i j = longest p xs ys"
    and "\<And>i' j'. i' < length xs \<Longrightarrow> j' < length ys \<Longrightarrow> run_at p xs ys i' j' = longest p xs ys \<Longrightarrow> i \<le> i'"
    and "\<And>j'. j' < length ys \<Longrightarrow> run_at p xs ys i j' = longest p xs ys \<Longrightarrow> j \<le> j'"
proof -
  let ?k = "longest p xs ys" and ?P = "\<lambda>i. \<exists>j \<in> set [0..<length ys]. run_at p xs ys i j = longest p xs ys"
  obtain i0 j0 where w: "i0 < length xs" "j0 < length ys" "run_at p xs ys i0 j0 = ?k"
    using longest_attained [OF assms(1)] by blast
  then have "?P i0" by auto
  then obtain a where a: "find ?P [0..<length xs] = Some a"
    using w(1) by (cases "find ?P [0..<length xs]") (auto simp: find_None_iff)
  note a1 = find_first [OF a]
  then obtain j1 where "j1 < length ys" "run_at p xs ys a j1 = ?k" by auto
  then obtain b where b: "find (\<lambda>j. run_at p xs ys a j = ?k) [0..<length ys] = Some b"
    by (cases "find (\<lambda>j. run_at p xs ys a j = ?k) [0..<length ys]") (auto simp: find_None_iff)
  note b1 = find_first [OF b]
  have "first_run p xs ys = (a, b)" using assms(1) a b by (simp add: first_run_def Let_def)
  then have ij: "i = a" "j = b" using assms(2) by auto
  show "i < length xs" "j < length ys" "run_at p xs ys i j = ?k" using a1(1) b1(1,2) ij by auto
  show "i \<le> i'" if "i' < length xs" "j' < length ys" "run_at p xs ys i' j' = ?k" for i' j'
    unfolding ij(1) by (rule a1(3)) (use that(2,3) in \<open>auto intro!: bexI [of _ j']\<close>)
  show "j \<le> j'" if "j' < length ys" "run_at p xs ys i j' = ?k" for j'
    unfolding ij(2) by (rule b1(3)) (use that(2) ij(1) in simp)
qed

lemma first_run_zero: "longest p xs ys = 0 \<Longrightarrow> first_run p xs ys = (0, 0)"
  by (simp add: first_run_def)

text \<open>A block lies within both texts.\<close>

lemma match_block_le:
  assumes "match_block p xs ys = (i, j, k)"
  shows "i + k \<le> length xs" and "j + k \<le> length ys"
proof -
  obtain a b where ab: "first_run p xs ys = (a, b)" by force
  define n where "n = longest p xs ys"
  have bounds: "a + n \<le> length xs \<and> b + n \<le> length ys"
  proof (cases "n = 0")
    case True
    then show ?thesis using ab first_run_zero [of p xs ys] by (simp add: n_def)
  next
    case False
    note f = first_run_props [OF False [unfolded n_def] ab]
    have "n \<le> length xs - a" "n \<le> length ys - b"
      using run_le [of p "drop a xs" "drop b ys"] f(3) by (simp_all add: n_def run_at_def)
    then show ?thesis using f(1,2) by linarith
  qed
  have l: "common (rev (take a xs)) (rev (take b ys)) \<le> a" "common (rev (take a xs)) (rev (take b ys)) \<le> b"
    using common_le [of "rev (take a xs)" "rev (take b ys)"] by simp_all
  have r: "common (drop (a + n) xs) (drop (b + n) ys) \<le> length xs - (a + n)"
    "common (drop (a + n) xs) (drop (b + n) ys) \<le> length ys - (b + n)"
    using common_le [of "drop (a + n) xs" "drop (b + n) ys"] by simp_all
  show "i + k \<le> length xs" "j + k \<le> length ys"
    using assms bounds l r by (auto simp: match_block_def ab Let_def n_def [symmetric])
qed

function matched :: "(char \<Rightarrow> bool) \<Rightarrow> string \<Rightarrow> string \<Rightarrow> nat" where
  "matched p xs ys =
     (case match_block p xs ys of (i, j, k) \<Rightarrow>
        if k = 0 then 0
        else k + matched p (take i xs) (take j ys) + matched p (drop (i + k) xs) (drop (j + k) ys))"
  by pat_completeness auto
termination
  by (relation "measure (\<lambda>(p, xs, ys). length xs)") (auto dest!: match_block_le(1) [OF sym])

declare matched.simps [simp del]

text \<open>\<^verbatim>\<open>SequenceMatcher(None, a, b).ratio()\<close>.\<close>

definition match_ratio :: "string \<Rightarrow> string \<Rightarrow> real" where
  "match_ratio a b =
     (if length a + length b = 0 then 1
      else 2 * real (matched (popular b) a b) / real (length a + length b))"

definition similarity :: "string \<Rightarrow> string \<Rightarrow> real" where
  "similarity a b = match_ratio (normalize a) (normalize b)"


section \<open>A text is its own match\<close>

lemma common_same: "common xs xs = length xs"
  by (induction xs) simp_all

lemma run_of_sym: "run_of p xs ys = run_of p ys xs"
  by (induction p xs ys rule: run_of.induct) auto

lemma run_of_self: "run_of p xs ys \<le> run_of p xs xs"
  by (induction p xs ys rule: run_of.induct) auto

lemma match_block_same: "match_block p xs xs = (0, 0, length xs)"
proof (cases "longest p xs xs = 0")
  case True
  then show ?thesis by (simp add: match_block_def first_run_zero common_same)
next
  case False
  obtain i j where ij: "first_run p xs xs = (i, j)" by force
  let ?k = "longest p xs xs"
  note f = first_run_props [OF False ij]
  have "run_at p xs xs j i = ?k" using f(3) run_of_sym [of p "drop i xs" "drop j xs"] by (simp add: run_at_def)
  then have le: "i \<le> j" using f(4) [OF f(2,1)] by simp
  have "?k \<le> run_at p xs xs i i" using f(3) run_of_self [of p "drop i xs" "drop j xs"] by (simp add: run_at_def)
  then have "run_at p xs xs i i = ?k" using longest_ge [OF f(1,1), of p] by simp
  then have eq: "j = i" using f(5) [OF f(1)] le by simp
  have "?k \<le> length xs - i" using run_le(1) [of p "drop i xs" "drop i xs"] f(3) eq by (simp add: run_at_def)
  then have "i + ?k \<le> length xs" using f(1) by linarith
  then show ?thesis using ij eq f(1) by (simp add: match_block_def Let_def common_same)
qed

lemma matched_same: "matched p xs xs = length xs"
proof -
  have nil: "matched p [] [] = 0" by (subst matched.simps) (simp add: match_block_same)
  show ?thesis by (subst matched.simps) (simp add: match_block_same nil)
qed

lemma similarity_same: "normalize a = normalize b \<Longrightarrow> similarity a b = 1"
  by (simp add: similarity_def match_ratio_def matched_same)

end
