(* ===== verification/Feedback_Store.thy ===== *)
theory Feedback_Store
  imports Document_Store Tool_Guards
begin

text \<open>
  The tables of the feedback loop and their repositories: support messages and threads
  (\<^verbatim>\<open>persistence/repositories/support.py\<close>) with the two routes that read them (\<^verbatim>\<open>app/api/routes/support.py\<close>),
  feedback signals (\<^verbatim>\<open>feedback.py\<close>) and documentation gaps (\<^verbatim>\<open>documentation_gaps.py\<close>), with the
  constraints of migrations 011, 043 and 044. A document handed to the
  driver as text becomes a JSON string, since the connection's encoder writes its text once more.
\<close>

section \<open>Rows\<close>

record support_message =
  sm_id :: string
  sm_platform :: string
  sm_channel_id :: "string option"
  sm_channel_name :: "string option"
  sm_author_id :: "string option"
  sm_author_name :: "string option"
  sm_content :: string
  sm_thread_id :: "string option"
  sm_timestamp :: "int option"
  sm_url :: "string option"
  sm_raw :: json
  sm_org_id :: "string option"

record support_thread =
  th_id :: string
  th_platform :: string
  th_channel_id :: "string option"
  th_channel_name :: "string option"
  th_root_message_id :: "string option"
  th_messages :: "support_message list"
  th_created_at :: "int option"
  th_updated_at :: "int option"
  th_raw :: json
  th_org_id :: "string option"

record feedback_item =
  fi_id :: "string option"
  fi_org_id :: "string option"
  fi_platform :: string
  fi_topic :: "string option"
  fi_content :: string
  fi_author :: "string option"
  fi_channel :: "string option"
  fi_source_message_id :: "string option"
  fi_source_event_id :: "string option"
  fi_source_url :: "string option"
  fi_category :: string
  fi_sentiment :: string
  fi_timestamp :: "int option"

record signal_row =
  sg_id :: string
  sg_org_id :: string
  sg_platform :: string
  sg_event_id :: string
  sg_item :: feedback_item
  sg_created_at :: int
  sg_updated_at :: int

record gap_candidate =
  gc_topic :: string
  gc_occurrences :: int
  gc_severity :: real
  gc_platforms :: "string list"
  gc_sample_questions :: "string list"
  gc_metadata :: json

record gap_row =
  gp_id :: string
  gp_org_id :: string
  gp_topic :: string
  gp_occurrences :: int
  gp_severity :: real
  gp_platforms :: json
  gp_sample_questions :: json
  gp_metadata :: json
  gp_outcome :: string
  gp_dispatch_route :: "string option"
  gp_dispatch_run_id :: "string option"
  gp_dispatched_at :: "int option"
  gp_updated_at :: int

record feedback_db =
  fb_orgs :: "string list"
  fb_messages :: "support_message list"
  fb_threads :: "support_thread list"
  fb_signals :: "signal_row list"
  fb_gaps :: "gap_row list"

definition ForeignKeyViolation :: "string \<Rightarrow> exn" where
  "ForeignKeyViolation c = Exn ''ForeignKeyViolationError'' c"

text \<open>A reference to an organization: null, or one of the table.\<close>

definition known_org :: "feedback_db \<Rightarrow> string option \<Rightarrow> bool" where
  "known_org d org = (case org of None \<Rightarrow> True | Some x \<Rightarrow> x \<in> set (fb_orgs d))"

definition first_set :: "string option list \<Rightarrow> string option" where
  "first_set xs = (case filter (\<lambda>x. x \<noteq> None \<and> x \<noteq> Some []) xs of [] \<Rightarrow> None | x # _ \<Rightarrow> x)"

section \<open>Support messages and threads\<close>

definition same_message :: "support_message \<Rightarrow> support_message \<Rightarrow> bool" where
  "same_message m r \<longleftrightarrow> sm_id r = sm_id m \<and> sm_platform r = sm_platform m"

text \<open>A message already stored takes the new content, document and organization; the rest of its row stays.\<close>

definition save_message :: "support_message \<Rightarrow> string option \<Rightarrow> feedback_db \<Rightarrow> support_message res \<times> feedback_db" where
  "save_message m org d =
     (let org' = (case org of None \<Rightarrow> sm_org_id m | Some x \<Rightarrow> Some x); m' = m\<lparr>sm_org_id := org'\<rparr>;
          raw = (if py_truth (sm_raw m) then sm_raw m else JObj []) in
      if sm_channel_id m = None \<or> sm_timestamp m = None then (Inl (NotNullViolation ''support_messages''), d)
      else if \<not> known_org d org' then (Inl (ForeignKeyViolation ''support_messages_org_id_fkey''), d)
      else (Inr m',
            if list_ex (same_message m) (fb_messages d)
            then d\<lparr>fb_messages := upd_where (same_message m)
                     (\<lambda>r. r\<lparr>sm_content := sm_content m, sm_raw := raw, sm_org_id := org'\<rparr>) (fb_messages d)\<rparr>
            else d\<lparr>fb_messages := fb_messages d @ [m'\<lparr>sm_raw := raw\<rparr>]\<rparr>))"

fun save_messages :: "support_message list \<Rightarrow> string option \<Rightarrow> feedback_db \<Rightarrow> unit res \<times> feedback_db" where
  "save_messages [] org d = (Inr (), d)"
| "save_messages (m # ms) org d =
     (case save_message m org d of (Inl e, d1) \<Rightarrow> (Inl e, d1) | (Inr _, d1) \<Rightarrow> save_messages ms org d1)"

definition same_thread :: "support_thread \<Rightarrow> support_thread \<Rightarrow> bool" where
  "same_thread t r \<longleftrightarrow> th_id r = th_id t \<and> th_platform r = th_platform t"

definition save_thread :: "support_thread \<Rightarrow> feedback_db \<Rightarrow> unit res \<times> feedback_db" where
  "save_thread t d =
     (let raw = (if py_truth (th_raw t) then th_raw t else JObj []) in
      if th_channel_id t = None \<or> th_created_at t = None \<or> th_updated_at t = None
      then (Inl (NotNullViolation ''support_threads''), d)
      else if \<not> known_org d (th_org_id t) then (Inl (ForeignKeyViolation ''support_threads_org_id_fkey''), d)
      else save_messages (th_messages t) (th_org_id t)
        (if list_ex (same_thread t) (fb_threads d)
         then d\<lparr>fb_threads := upd_where (same_thread t)
                  (\<lambda>r. r\<lparr>th_updated_at := th_updated_at t, th_raw := raw, th_org_id := th_org_id t\<rparr>) (fb_threads d)\<rparr>
         else d\<lparr>fb_threads := fb_threads d @ [t\<lparr>th_messages := [], th_raw := raw\<rparr>]\<rparr>))"

definition get_thread :: "string \<Rightarrow> feedback_db \<Rightarrow> support_thread option" where
  "get_thread i d =
     map_option (\<lambda>r. r\<lparr>th_messages := sort_key (\<lambda>m. the (sm_timestamp m)) (filter (\<lambda>m. sm_thread_id m = Some i) (fb_messages d)),
                     th_root_message_id := Some (case th_root_message_id r of None \<Rightarrow> ''None'' | Some x \<Rightarrow> x)\<rparr>)
       (find (\<lambda>r. th_id r = i) (fb_threads d))"

definition on_platform :: "string option \<Rightarrow> string \<Rightarrow> bool" where
  "on_platform platform p = (case platform of None \<Rightarrow> True | Some x \<Rightarrow> x = [] \<or> p = x)"

definition search_messages :: "string \<Rightarrow> string option \<Rightarrow> string option \<Rightarrow> nat \<Rightarrow> feedback_db \<Rightarrow> support_message list" where
  "search_messages query platform org limit d =
     take limit (sort_key (\<lambda>m. - the (sm_timestamp m))
       (filter (\<lambda>m. on_platform platform (sm_platform m) \<and> ilike query (sm_content m)
          \<and> (case org of None \<Rightarrow> True | Some x \<Rightarrow> sm_org_id m = Some x)) (fb_messages d)))"

text \<open>The routes: any verified caller, whose organization neither of them reads.\<close>

definition list_support_questions :: "string \<Rightarrow> string option \<Rightarrow> int \<Rightarrow> feedback_db \<Rightarrow> support_message list" where
  "list_support_questions caller_org platform limit d =
     search_messages ''%'' platform None (nat (max 1 (min limit 200))) d"

definition get_support_question :: "string \<Rightarrow> string \<Rightarrow> feedback_db \<Rightarrow> (nat \<times> string) + support_thread" where
  "get_support_question caller_org i d =
     (case get_thread i d of
        None \<Rightarrow> Inl (404, ''Support thread '' @ i @ '' not found'')
      | Some t \<Rightarrow> Inr t)"

section \<open>Feedback signals\<close>

definition signal_key :: "signal_row \<Rightarrow> string \<times> string \<times> string" where
  "signal_key r = (sg_org_id r, sg_platform r, sg_event_id r)"

text \<open>The row as an item: the columns that were written, with the row's id.\<close>

definition stored_item :: "signal_row \<Rightarrow> feedback_item" where
  "stored_item r =
     (sg_item r)\<lparr>fi_id := Some (sg_id r), fi_org_id := Some (sg_org_id r), fi_platform := sg_platform r,
                  fi_source_event_id := Some (sg_event_id r)\<rparr>"

definition save_signal :: "string \<Rightarrow> int \<Rightarrow> feedback_item \<Rightarrow> feedback_db \<Rightarrow> feedback_item res \<times> feedback_db" where
  "save_signal new_id now it d =
     (case fi_org_id it of
        None \<Rightarrow> (Inl (ValueError ''feedback signal requires org_id''), d)
      | Some org \<Rightarrow>
          if org = [] then (Inl (ValueError ''feedback signal requires org_id''), d)
          else (case first_set [fi_source_event_id it, fi_source_message_id it, fi_id it] of
             None \<Rightarrow> (Inl (ValueError ''feedback signal requires source_event_id''), d)
           | Some event_id \<Rightarrow>
               if org \<notin> set (fb_orgs d) then (Inl (ForeignKeyViolation ''feedback_signals_org_id_fkey''), d)
               else (case find (\<lambda>r. signal_key r = (org, fi_platform it, event_id)) (fb_signals d) of
                  Some r \<Rightarrow>
                    (Inr (stored_item (r\<lparr>sg_item := it\<rparr>)),
                     d\<lparr>fb_signals := upd_where (\<lambda>x. signal_key x = (org, fi_platform it, event_id))
                                       (\<lambda>x. x\<lparr>sg_item := it, sg_updated_at := now\<rparr>) (fb_signals d)\<rparr>)
                | None \<Rightarrow>
                    let row = \<lparr>sg_id = new_id, sg_org_id = org, sg_platform = fi_platform it, sg_event_id = event_id,
                               sg_item = it, sg_created_at = now, sg_updated_at = now\<rparr>
                    in (Inr (stored_item row), d\<lparr>fb_signals := fb_signals d @ [row]\<rparr>))))"

text \<open>Latest first by the signal's own time, those without one last, then by the time of insertion.\<close>

definition recency :: "signal_row \<Rightarrow> bool \<times> int \<times> int" where
  "recency r =
     (case fi_timestamp (sg_item r) of None \<Rightarrow> (True, 0, - sg_created_at r) | Some t \<Rightarrow> (False, - t, - sg_created_at r))"

definition list_signals :: "string \<Rightarrow> string option \<Rightarrow> nat \<Rightarrow> feedback_db \<Rightarrow> feedback_item list" where
  "list_signals org platform limit d =
     map stored_item (take limit (sort_key recency
       (filter (\<lambda>r. sg_org_id r = org \<and> on_platform platform (sg_platform r)) (fb_signals d))))"

definition list_org_ids :: "feedback_db \<Rightarrow> string list" where
  "list_org_ids d = sort (fb_orgs d)"

section \<open>Documentation gaps\<close>

definition gap_key :: "gap_row \<Rightarrow> string \<times> string" where
  "gap_key r = (gp_org_id r, gp_topic r)"

definition counted_gap :: "(real \<Rightarrow> string) \<Rightarrow> int \<Rightarrow> gap_candidate \<Rightarrow> gap_row \<Rightarrow> gap_row" where
  "counted_gap fmt now c r =
     r\<lparr>gp_occurrences := gc_occurrences c, gp_severity := gc_severity c, gp_platforms := JList (map JStr (gc_platforms c)),
       gp_sample_questions := JStr (dumps_json False fmt (JList (map JStr (gc_sample_questions c)))),
       gp_metadata := JStr (dumps_json False fmt (gc_metadata c)), gp_updated_at := now\<rparr>"

definition new_gap :: "string \<Rightarrow> int \<Rightarrow> string \<Rightarrow> string \<Rightarrow> gap_row" where
  "new_gap new_id now org topic =
     \<lparr>gp_id = new_id, gp_org_id = org, gp_topic = topic, gp_occurrences = 0, gp_severity = 0,
      gp_platforms = JList [], gp_sample_questions = JList [], gp_metadata = JObj [],
      gp_outcome = ''pending'', gp_dispatch_route = None, gp_dispatch_run_id = None,
      gp_dispatched_at = None, gp_updated_at = now\<rparr>"

definition upsert_candidate ::
  "(real \<Rightarrow> string) \<Rightarrow> string \<Rightarrow> int \<Rightarrow> string \<Rightarrow> gap_candidate \<Rightarrow> feedback_db \<Rightarrow> string res \<times> feedback_db" where
  "upsert_candidate fmt new_id now org c d =
     (if org \<notin> set (fb_orgs d) then (Inl (ForeignKeyViolation ''documentation_gaps_org_id_fkey''), d)
      else case find (\<lambda>r. gap_key r = (org, gc_topic c)) (fb_gaps d) of
        Some r \<Rightarrow> (Inr (gp_id r),
                   d\<lparr>fb_gaps := upd_where (\<lambda>x. gap_key x = (org, gc_topic c)) (counted_gap fmt now c) (fb_gaps d)\<rparr>)
      | None \<Rightarrow>
          (Inr new_id, d\<lparr>fb_gaps := fb_gaps d @ [counted_gap fmt now c (new_gap new_id now org (gc_topic c))]\<rparr>))"

definition GAP_OUTCOMES :: "string list" where
  "GAP_OUTCOMES = [''documentation'', ''content'', ''both'', ''pending'']"

definition set_gap_outcome :: "int \<Rightarrow> string \<Rightarrow> string \<Rightarrow> feedback_db \<Rightarrow> unit res \<times> feedback_db" where
  "set_gap_outcome now i result d =
     (if list_ex (\<lambda>r. gp_id r = i) (fb_gaps d) \<and> result \<notin> set GAP_OUTCOMES
      then (Inl (Exn ''CheckViolationError'' ''documentation_gaps_outcome_check''), d)
      else (Inr (), d\<lparr>fb_gaps := upd_where (\<lambda>r. gp_id r = i) (\<lambda>r. r\<lparr>gp_outcome := result, gp_updated_at := now\<rparr>) (fb_gaps d)\<rparr>))"

definition mark_gap_dispatched :: "int \<Rightarrow> string \<Rightarrow> string \<Rightarrow> string \<Rightarrow> feedback_db \<Rightarrow> feedback_db" where
  "mark_gap_dispatched now i run_id route d =
     d\<lparr>fb_gaps := upd_where (\<lambda>r. gp_id r = i)
         (\<lambda>r. r\<lparr>gp_dispatched_at := Some now, gp_dispatch_run_id := Some run_id, gp_dispatch_route := Some route,
               gp_updated_at := now\<rparr>) (fb_gaps d)\<rparr>"

section \<open>Who sees what\<close>

lemma like_any: "like ''%'' s"
  by (induction s) simp_all

lemma ilike_any [simp]: "ilike ''%'' s"
proof -
  have pad: "like ps t \<Longrightarrow> like (CHR ''%'' # ps) t" for ps t by (cases t) simp_all
  have "like ''%%%'' (lower s)" by (intro pad like_any)
  then show ?thesis by (simp add: ilike_def lower_def to_lower_def)
qed

lemma search_scoped: "m \<in> set (search_messages q p (Some org) n d) \<Longrightarrow> m \<in> set (fb_messages d) \<and> sm_org_id m = Some org"
proof -
  assume "m \<in> set (search_messages q p (Some org) n d)"
  from in_set_takeD [OF this [unfolded search_messages_def]] show ?thesis by simp
qed

text \<open>
  C19. The support routes show every organization's messages and threads to any verified caller; the search that
  is given the caller's organization does not.
\<close>

theorem support_routes_unscoped:
  assumes "m \<in> set (fb_messages d)" and "length (fb_messages d) \<le> 200" and "sm_org_id m \<noteq> Some caller_org"
  shows "m \<in> set (list_support_questions caller_org None 200 d)
    \<and> m \<notin> set (search_messages ''%'' None (Some caller_org) 200 d)
    \<and> (\<forall>t \<in> set (fb_threads d). \<exists>r. get_support_question caller_org (th_id t) d = Inr r \<and> th_id r = th_id t)"
proof (intro conjI ballI)
  have "length (filter (\<lambda>m. on_platform None (sm_platform m) \<and> ilike ''%'' (sm_content m)) (fb_messages d)) \<le> 200"
    using length_filter_le assms(2) le_trans by blast
  then show "m \<in> set (list_support_questions caller_org None 200 d)"
    using assms(1) by (simp add: list_support_questions_def search_messages_def on_platform_def)
  show "m \<notin> set (search_messages ''%'' None (Some caller_org) 200 d)" using search_scoped assms(3) by blast
  fix t assume "t \<in> set (fb_threads d)"
  then obtain r where r: "find (\<lambda>r. th_id r = th_id t) (fb_threads d) = Some r"
    by (cases "find (\<lambda>r. th_id r = th_id t) (fb_threads d)") (auto simp: find_None_iff)
  then show "\<exists>r. get_support_question caller_org (th_id t) d = Inr r \<and> th_id r = th_id t"
    using find_Some_in [OF r] by (simp add: get_support_question_def get_thread_def)
qed

definition sample_message :: "string \<Rightarrow> string \<Rightarrow> string \<Rightarrow> int \<Rightarrow> support_message" where
  "sample_message i org content time =
     \<lparr>sm_id = i, sm_platform = ''slack'', sm_channel_id = Some ''C1'', sm_channel_name = Some ''help'', sm_author_id = None,
      sm_author_name = Some ''ann'', sm_content = content, sm_thread_id = None, sm_timestamp = Some time, sm_url = None,
      sm_raw = JNull, sm_org_id = Some org\<rparr>"

definition no_feedback :: "string list \<Rightarrow> feedback_db" where
  "no_feedback orgs =
     \<lparr>fb_orgs = orgs, fb_messages = [], fb_threads = [], fb_signals = [], fb_gaps = []\<rparr>"

definition two_tenants :: feedback_db where
  "two_tenants = (no_feedback [''o1'', ''o2''])\<lparr>fb_messages := [sample_message ''1.0'' ''o1'' ''our key leaked'' 1]\<rparr>"

theorem support_routes_unscoped_witness:
  "sample_message ''1.0'' ''o1'' ''our key leaked'' 1 \<in> set (list_support_questions ''o2'' None 200 two_tenants)"
  by (rule support_routes_unscoped [THEN conjunct1]) (simp_all add: two_tenants_def sample_message_def)

text \<open>
  A platform's message ids are its own, not an organization's: when two organizations store a message under
  one id, the second takes the row over, with the first one's channel and author and its own text.
\<close>

theorem message_changes_hands:
  assumes m1: "save_message m1 (Some a) d = (Inr x, d1)" and m2: "save_message m2 (Some b) d1 = (Inr y, d2)"
    and same: "same_message m1 m2" and "a \<noteq> b"
  shows "(\<forall>r \<in> set (search_messages q p (Some a) n d2). \<not> same_message m1 r)
    \<and> (\<exists>r \<in> set (fb_messages d2). same_message m1 r \<and> sm_org_id r = Some b \<and> sm_content r = sm_content m2
         \<and> (\<not> list_ex (same_message m1) (fb_messages d) \<longrightarrow>
              sm_channel_id r = sm_channel_id m1 \<and> sm_author_name r = sm_author_name m1))"
proof -
  let ?raw = "if py_truth (sm_raw m2) then sm_raw m2 else JObj []"
  have eq: "same_message m2 = same_message m1" using same by (auto simp: same_message_def fun_eq_iff)
  obtain r1 where r1: "r1 \<in> set (fb_messages d1)" "same_message m1 r1"
    "\<not> list_ex (same_message m1) (fb_messages d) \<longrightarrow> sm_channel_id r1 = sm_channel_id m1 \<and> sm_author_name r1 = sm_author_name m1"
  proof (cases "list_ex (same_message m1) (fb_messages d)")
    case True
    then obtain r where "r \<in> set (fb_messages d)" "same_message m1 r" by (auto simp: list_ex_iff)
    then have "r\<lparr>sm_content := sm_content m1, sm_raw := (if py_truth (sm_raw m1) then sm_raw m1 else JObj []), sm_org_id := Some a\<rparr>
        \<in> set (fb_messages d1)" "same_message m1
          (r\<lparr>sm_content := sm_content m1, sm_raw := (if py_truth (sm_raw m1) then sm_raw m1 else JObj []), sm_org_id := Some a\<rparr>)"
      using m1 True by (auto simp: save_message_def Let_def set_upd_where same_message_def split: if_splits)
    then show ?thesis using that True by blast
  next
    case False
    then have "m1\<lparr>sm_org_id := Some a, sm_raw := (if py_truth (sm_raw m1) then sm_raw m1 else JObj [])\<rparr> \<in> set (fb_messages d1)"
      using m1 by (auto simp: save_message_def Let_def split: if_splits)
    then show ?thesis by (rule that) (simp_all add: same_message_def)
  qed
  have "list_ex (same_message m1) (fb_messages d1)" using r1 by (auto simp: list_ex_iff)
  then have d2: "fb_messages d2 = upd_where (same_message m1)
      (\<lambda>r. r\<lparr>sm_content := sm_content m2, sm_raw := ?raw, sm_org_id := Some b\<rparr>) (fb_messages d1)"
    using m2 eq by (auto simp: save_message_def Let_def split: if_splits)
  have "\<forall>r \<in> set (fb_messages d2). same_message m1 r \<longrightarrow> sm_org_id r = Some b"
    unfolding d2 set_upd_where by auto
  then have "\<forall>r \<in> set (search_messages q p (Some a) n d2). \<not> same_message m1 r" using search_scoped \<open>a \<noteq> b\<close> by fastforce
  moreover have "r1\<lparr>sm_content := sm_content m2, sm_raw := ?raw, sm_org_id := Some b\<rparr> \<in> set (fb_messages d2)"
    unfolding d2 set_upd_where using r1 by blast
  ultimately show ?thesis
    using r1 by (intro conjI bexI [of _ "r1\<lparr>sm_content := sm_content m2, sm_raw := ?raw, sm_org_id := Some b\<rparr>"])
      (simp_all add: same_message_def)
qed

theorem message_changes_hands_witness:
  "\<exists>d1 d2. save_message (sample_message ''1.0'' ''o1'' ''ours'' 1) (Some ''o1'') (no_feedback [''o1'', ''o2'']) = (Inr (sample_message ''1.0'' ''o1'' ''ours'' 1), d1)
     \<and> save_message (sample_message ''1.0'' ''o2'' ''theirs'' 2) (Some ''o2'') d1 = (Inr (sample_message ''1.0'' ''o2'' ''theirs'' 2), d2)
     \<and> (\<exists>r \<in> set (fb_messages d2). sm_org_id r = Some ''o2'')"
proof -
  let ?m1 = "sample_message ''1.0'' ''o1'' ''ours'' 1" and ?m2 = "sample_message ''1.0'' ''o2'' ''theirs'' 2"
    and ?d = "no_feedback [''o1'', ''o2'']"
  obtain d1 where d1: "save_message ?m1 (Some ''o1'') ?d = (Inr ?m1, d1)" "fb_orgs d1 = [''o1'', ''o2'']"
    by (simp add: save_message_def no_feedback_def sample_message_def known_org_def Let_def)
  obtain d2 where d2: "save_message ?m2 (Some ''o2'') d1 = (Inr ?m2, d2)"
    using d1(2) by (simp add: save_message_def sample_message_def known_org_def Let_def)
  have "same_message ?m1 ?m2" "''o1'' \<noteq> ''o2''" by (simp_all add: same_message_def sample_message_def)
  from message_changes_hands [OF d1(1) d2 this] d1 d2 show ?thesis by blast
qed

section \<open>Signals\<close>

definition signals_unique :: "feedback_db \<Rightarrow> bool" where
  "signals_unique d \<longleftrightarrow> distinct (map signal_key (fb_signals d))"

lemma save_signal_cases:
  assumes "save_signal new_id now it d = (Inr x, d')"
  obtains org event_id where "fi_org_id it = Some org" "first_set [fi_source_event_id it, fi_source_message_id it, fi_id it] = Some event_id"
    "org \<in> set (fb_orgs d)" "org \<noteq> []"
    "\<exists>r. find (\<lambda>r. signal_key r = (org, fi_platform it, event_id)) (fb_signals d) = Some r
       \<and> d' = d\<lparr>fb_signals := upd_where (\<lambda>x. signal_key x = (org, fi_platform it, event_id))
                   (\<lambda>x. x\<lparr>sg_item := it, sg_updated_at := now\<rparr>) (fb_signals d)\<rparr>
     \<or> find (\<lambda>r. signal_key r = (org, fi_platform it, event_id)) (fb_signals d) = None
       \<and> d' = d\<lparr>fb_signals := fb_signals d @ [\<lparr>sg_id = new_id, sg_org_id = org, sg_platform = fi_platform it, sg_event_id = event_id,
                               sg_item = it, sg_created_at = now, sg_updated_at = now\<rparr>]\<rparr>"
  using assms by (auto simp: save_signal_def Let_def split: option.splits if_splits)

end
