(* ===== verification/Feedback_Analysis.thy ===== *)
theory Feedback_Analysis
  imports Text_Similarity Feedback_Store "HOL-Library.Sublist" "HOL-Library.Multiset"
begin

text \<open>
  The feedback services (\<^verbatim>\<open>feedback/\<close>): the rules that classify a signal, the removal of near-duplicates, the
  clusters by leading words, the gaps they give rise to and their ranking. Thresholds and weights are the
  decimal numbers of the source; rounding to two places is to the nearest.
\<close>

section \<open>Classification\<close>

definition CATEGORY_RULES :: "(string \<times> string list) list" where
  "CATEGORY_RULES =
     [(''bug_report'', [''error'', ''crash'', ''fails'', ''broken'', ''exception'', ''traceback'']),
      (''how_to'', [''how do'', ''how to'', ''how can'', ''is there a way'', ''where do'']),
      (''docs_gap'', [''not documented'', ''no docs'', ''missing docs'', ''can't find'', ''cannot find'']),
      (''feature_request'', [''would be nice'', ''feature request'', ''please add'', ''wish'']),
      (''complaint'', [''frustrating'', ''annoying'', ''confusing'', ''terrible'', ''hate''])]"

definition SENTIMENT_RULES :: "(string \<times> string list) list" where
  "SENTIMENT_RULES =
     [(''negative'', [''error'', ''broken'', ''fail'', ''confusing'', ''frustrating'', ''hate'', ''terrible'']),
      (''positive'', [''thanks'', ''great'', ''love'', ''awesome'', ''works''])]"

definition has_keyword :: "string list \<Rightarrow> string \<Rightarrow> bool" where
  "has_keyword keywords s = list_ex (\<lambda>k. str_contains k s) keywords"

definition categorize :: "string \<Rightarrow> string" where
  "categorize content =
     (case find (\<lambda>r. has_keyword (snd r) (lower content)) CATEGORY_RULES of Some r \<Rightarrow> fst r | None \<Rightarrow> ''question'')"

definition sentiment :: "string \<Rightarrow> string" where
  "sentiment content =
     (if has_keyword (snd (SENTIMENT_RULES ! 0)) (lower content) then ''negative''
      else if has_keyword (snd (SENTIMENT_RULES ! 1)) (lower content) then ''positive'' else ''neutral'')"

definition text_or_misc :: "string \<Rightarrow> string" where
  "text_or_misc s = (if s = [] then ''misc'' else s)"

definition topic_key :: "nat \<Rightarrow> string \<Rightarrow> string" where
  "topic_key max_words content = text_or_misc (join_with ''-'' (take max_words (find_words (lower content))))"

definition classify :: "feedback_item \<Rightarrow> feedback_item" where
  "classify it =
     it\<lparr>fi_category := categorize (fi_content it), fi_sentiment := sentiment (fi_content it),
        fi_topic := (case fi_topic it of None \<Rightarrow> Some (topic_key 3 (fi_content it))
                     | Some t \<Rightarrow> Some (if t = [] then topic_key 3 (fi_content it) else t))\<rparr>"

lemma topic_key_nonempty: "topic_key n s \<noteq> []"
  by (simp add: topic_key_def text_or_misc_def)

lemma classify_simps [simp]:
  "fi_content (classify it) = fi_content it" "fi_platform (classify it) = fi_platform it"
  "fi_org_id (classify it) = fi_org_id it" "fi_source_event_id (classify it) = fi_source_event_id it"
  "fi_id (classify it) = fi_id it"
  by (simp_all add: classify_def)

lemma classify_idem: "classify (classify it) = classify it"
  using topic_key_nonempty [of 3 "fi_content it"] by (simp add: classify_def split: option.splits)

section \<open>Near-duplicates\<close>

definition near :: "real \<Rightarrow> feedback_item \<Rightarrow> feedback_item \<Rightarrow> bool" where
  "near threshold it other \<longleftrightarrow> threshold \<le> similarity (fi_content it) (fi_content other)"

text \<open>The loop over the items, with the items kept so far; the same loop for any relation.\<close>

fun keep_new :: "('a \<Rightarrow> 'a \<Rightarrow> bool) \<Rightarrow> 'a list \<Rightarrow> 'a list \<Rightarrow> 'a list" where
  "keep_new similar kept [] = kept"
| "keep_new similar kept (it # items) =
     keep_new similar (if list_ex (similar it) kept then kept else kept @ [it]) items"

lemma keep_new_extends: "\<exists>zs. keep_new similar kept xs = kept @ zs \<and> subseq zs xs"
proof (induction xs arbitrary: kept)
  case Nil
  then show ?case by simp
next
  case (Cons x xs)
  show ?case
  proof (cases "list_ex (similar x) kept")
    case True
    then show ?thesis using Cons.IH [of kept] by (auto intro: list_emb_Cons)
  next
    case False
    obtain zs where "keep_new similar (kept @ [x]) xs = (kept @ [x]) @ zs" "subseq zs xs"
      using Cons.IH [of "kept @ [x]"] by blast
    then show ?thesis using False by (intro exI [of _ "x # zs"]) simp
  qed
qed

lemma keep_new_separate:
  "sorted_wrt (\<lambda>x y. \<not> similar y x) kept \<Longrightarrow> sorted_wrt (\<lambda>x y. \<not> similar y x) (keep_new similar kept xs)"
  by (induction xs arbitrary: kept) (auto simp: sorted_wrt_append list_ex_iff)

lemma keep_new_keeps: "set kept \<subseteq> set (keep_new similar kept xs)"
  using keep_new_extends [of similar kept xs] by auto

lemma keep_new_covers: "x \<in> set xs \<Longrightarrow> x \<in> set (keep_new similar kept xs) \<or> list_ex (similar x) (keep_new similar kept xs)"
proof (induction xs arbitrary: kept)
  case Nil
  then show ?case by simp
next
  case (Cons y ys)
  show ?case
  proof (cases "x = y")
    case True
    then show ?thesis
      using keep_new_keeps [of kept similar ys] keep_new_keeps [of "kept @ [y]" similar ys] by (auto simp: list_ex_iff)
  next
    case False
    then show ?thesis using Cons by simp
  qed
qed

lemma keep_new_separated_same:
  "sorted_wrt (\<lambda>x y. \<not> similar y x) (kept @ xs) \<Longrightarrow> keep_new similar kept xs = kept @ xs"
proof (induction xs arbitrary: kept)
  case Nil
  then show ?case by simp
next
  case (Cons x xs)
  then have "\<not> list_ex (similar x) kept" by (auto simp: sorted_wrt_append list_ex_iff)
  then show ?case using Cons.IH [of "kept @ [x]"] Cons.prems by simp
qed

lemma keep_new_first:
  "k \<in> set kept \<Longrightarrow> \<forall>x \<in> set xs. similar x k \<Longrightarrow> keep_new similar kept xs = kept"
  by (induction xs) (auto simp: list_ex_iff)

definition deduplicate :: "real \<Rightarrow> feedback_item list \<Rightarrow> feedback_item list" where
  "deduplicate threshold items = keep_new (near threshold) [] items"

section \<open>Clusters and gaps\<close>

definition STOPWORDS :: "string list" where
  "STOPWORDS =
     [''the'', ''a'', ''an'', ''and'', ''or'', ''to'', ''of'', ''in'', ''for'', ''on'', ''is'', ''are'', ''with'',
      ''how'', ''do'', ''does'', ''i'', ''my'', ''we'', ''our'', ''it'', ''when'', ''what'', ''why'', ''can'',
      ''there'', ''way'', ''get'', ''use'', ''using'']"

definition keywords_of :: "nat \<Rightarrow> string \<Rightarrow> string list" where
  "keywords_of limit s = take limit (filter (\<lambda>w. w \<notin> set STOPWORDS) (find_words (lower s)))"

definition topic_for :: "feedback_item \<Rightarrow> string" where
  "topic_for it =
     (let ws = keywords_of 4 (fi_content it) in if ws = [] then ''misc'' else join_with ''-'' ws)"

record cluster =
  cl_topic :: string
  cl_items :: "feedback_item list"
  cl_platforms :: "string list"

text \<open>Items grouped by a key, the groups in the order of their keys; a sorted set.\<close>

definition group_by :: "('a \<Rightarrow> 'k::linorder) \<Rightarrow> 'a list \<Rightarrow> ('k \<times> 'a list) list" where
  "group_by f xs = map (\<lambda>k. (k, filter (\<lambda>x. f x = k) xs)) (sort (remdups (map f xs)))"

definition sorted_set :: "'k::linorder list \<Rightarrow> 'k list" where
  "sorted_set xs = sort (remdups xs)"

definition cluster_items :: "feedback_item list \<Rightarrow> cluster list" where
  "cluster_items items =
     map (\<lambda>(topic, group). \<lparr>cl_topic = topic, cl_items = group, cl_platforms = sorted_set (map fi_platform group)\<rparr>)
       (group_by topic_for items)"

definition round2 :: "real \<Rightarrow> real" where
  "round2 x = real_of_int (round (100 * x)) / 100"

definition severity_of :: "feedback_item list \<Rightarrow> real" where
  "severity_of items =
     min 1 (25 / 100 * real (length items) + 1 / 10 * real (length (filter (\<lambda>i. fi_sentiment i = ''negative'') items)))"

definition gap_of_cluster :: "cluster \<Rightarrow> gap_candidate" where
  "gap_of_cluster c =
     \<lparr>gc_topic = cl_topic c, gc_occurrences = int (length (cl_items c)), gc_severity = round2 (severity_of (cl_items c)),
      gc_platforms = cl_platforms c, gc_sample_questions = map fi_content (take 5 (cl_items c)), gc_metadata = JObj []\<rparr>"

definition gap_order :: "gap_candidate \<Rightarrow> real \<times> int" where
  "gap_order g = (- gc_severity g, - gc_occurrences g)"

definition gap_threshold :: "nat \<Rightarrow> nat option \<Rightarrow> nat" where
  "gap_threshold min_size min_occurrences =
     (case min_occurrences of None \<Rightarrow> min_size | Some n \<Rightarrow> if n = 0 then min_size else n)"

definition detect_gaps :: "nat \<Rightarrow> nat option \<Rightarrow> feedback_item list \<Rightarrow> gap_candidate list" where
  "detect_gaps min_size min_occurrences items =
     sort_key gap_order
       (map gap_of_cluster (filter (\<lambda>c. gap_threshold min_size min_occurrences \<le> length (cl_items c)) (cluster_items items)))"

section \<open>Ranking\<close>

definition platform_bonus :: "string \<Rightarrow> real" where
  "platform_bonus p =
     (if p = ''slack'' then 5 / 100 else if p = ''discord'' then 5 / 100 else if p = ''github'' then 1 / 10 else 0)"

definition gap_score :: "real \<Rightarrow> gap_candidate \<Rightarrow> real" where
  "gap_score frequency_weight g =
     (1 - frequency_weight) * gc_severity g
     + frequency_weight * min (real_of_int (gc_occurrences g) / 10) 1
     + (case map platform_bonus (gc_platforms g) of [] \<Rightarrow> 0 | b # bs \<Rightarrow> foldr max bs b)"

text \<open>A stable sort, highest score first; no limit, or the limit zero, keeps every gap.\<close>

definition prioritize :: "real \<Rightarrow> nat option \<Rightarrow> gap_candidate list \<Rightarrow> gap_candidate list" where
  "prioritize frequency_weight limit gaps =
     (let ranked = sort_key (\<lambda>g. - gap_score frequency_weight g) gaps in
      case limit of None \<Rightarrow> ranked | Some n \<Rightarrow> if n = 0 then ranked else take n ranked)"

section \<open>The service\<close>

definition id_text :: "support_message \<Rightarrow> string" where
  "id_text m =
     (case sm_channel_id m of None \<Rightarrow> ''None'' | Some c \<Rightarrow> c) @ '':'' @
     (case sm_thread_id m of None \<Rightarrow> sm_id m | Some t \<Rightarrow> if t = [] then sm_id m else t)"

definition item_of_message :: "support_message \<Rightarrow> feedback_item" where
  "item_of_message m =
     \<lparr>fi_id = Some (sm_id m), fi_org_id = sm_org_id m, fi_platform = sm_platform m, fi_topic = None,
      fi_content = sm_content m, fi_author = sm_author_name m, fi_channel = sm_channel_name m,
      fi_source_message_id = Some (id_text m), fi_source_event_id = Some (id_text m), fi_source_url = sm_url m,
      fi_category = ''question'', fi_sentiment = ''neutral'', fi_timestamp = sm_timestamp m\<rparr>"

text \<open>The feedback repository is the service's own, or none.\<close>

definition collect_questions :: "bool \<Rightarrow> string \<Rightarrow> string option \<Rightarrow> nat \<Rightarrow> feedback_db \<Rightarrow> feedback_item list res" where
  "collect_questions with_signals org platform limit d =
     (if org = [] then Inl (ValueError ''org_id is required for feedback collection'')
      else Inr (map classify
        (map (\<lambda>m. classify (item_of_message m)) (search_messages ''%'' platform (Some org) limit d)
         @ (if with_signals then list_signals org platform limit d else []))))"

definition service_detect_gaps ::
  "bool \<Rightarrow> string \<Rightarrow> string option \<Rightarrow> nat option \<Rightarrow> nat option \<Rightarrow> feedback_db \<Rightarrow> gap_candidate list res" where
  "service_detect_gaps with_signals org platform min_occurrences limit d =
     map_sum id
       (\<lambda>items. prioritize (6 / 10) limit (detect_gaps 2 min_occurrences (deduplicate (85 / 100) items)))
       (collect_questions with_signals org platform 200 d)"

section \<open>Groups\<close>

lemma group_by_keys: "map fst (group_by f xs) = sort (remdups (map f xs))"
  by (simp add: group_by_def comp_def)

lemma group_by_sorted: "sorted_wrt (<) (map fst (group_by f xs))"
  unfolding group_by_keys strict_sorted_iff by (simp add: distinct_sort)

lemma distinct_map_sort: "distinct (map f xs) \<Longrightarrow> distinct (map f (sort_key g xs))"
  by (simp add: distinct_map distinct_sort)

lemma group_by_mem: "(k, g) \<in> set (group_by f xs) \<longleftrightarrow> k \<in> f ` set xs \<and> g = filter (\<lambda>x. f x = k) xs"
  by (auto simp: group_by_def)

lemma filter_partition:
  "distinct ks \<Longrightarrow> f ` set xs \<subseteq> set ks \<Longrightarrow> mset (concat (map (\<lambda>k. filter (\<lambda>x. f x = k) xs) ks)) = mset xs"
proof (induction ks arbitrary: xs)
  case Nil
  then show ?case by simp
next
  case (Cons k ks)
  let ?rest = "filter (\<lambda>x. f x \<noteq> k) xs"
  have "filter (\<lambda>x. f x = l) ?rest = filter (\<lambda>x. f x = l) xs" if "l \<in> set ks" for l
    using that Cons.prems(1) by (auto intro!: filter_cong)
  then have eq: "map (\<lambda>l. filter (\<lambda>x. f x = l) ?rest) ks = map (\<lambda>l. filter (\<lambda>x. f x = l) xs) ks"
    by (intro map_cong) blast+
  have "mset (concat (map (\<lambda>l. filter (\<lambda>x. f x = l) ?rest) ks)) = mset ?rest"
    using Cons.prems by (intro Cons.IH) auto
  then have "mset (concat (map (\<lambda>l. filter (\<lambda>x. f x = l) xs) ks)) = mset ?rest" unfolding eq .
  then show ?case by (simp add: mset_filter multiset_partition [symmetric])
qed

lemma group_by_partition: "mset (concat (map snd (group_by f xs))) = mset xs"
proof -
  have "map snd (group_by f xs) = map (\<lambda>k. filter (\<lambda>x. f x = k) xs) (sort (remdups (map f xs)))"
    by (simp add: group_by_def comp_def)
  then show ?thesis by (simp only:) (rule filter_partition, auto simp: distinct_sort)
qed

text \<open>Severity is a multiple of a twentieth or one, so rounding to two places changes nothing.\<close>

lemma severity_rounded: "round2 (severity_of xs) = severity_of xs"
proof -
  define n where "n = (25 * int (length xs) + 10 * int (length (filter (\<lambda>i. fi_sentiment i = ''negative'') xs)))"
  have "100 * severity_of xs = real_of_int (min 100 n)"
    by (simp add: severity_of_def n_def min_def)
  then show ?thesis unfolding round2_def by simp
qed

lemma severity_range: "xs \<noteq> [] \<Longrightarrow> 0 < severity_of xs \<and> severity_of xs \<le> 1"
  by (cases xs) (auto simp: severity_of_def min_def add_pos_nonneg)

section \<open>Properties\<close>

text \<open>
  C31. Deduplication keeps a subsequence of the items in which no item resembles an earlier one, while every item
  that went resembles one that stayed; applied again it changes nothing.
\<close>

theorem dedup_exact:
  "let kept = deduplicate threshold xs in
     subseq kept xs \<and> sorted_wrt (\<lambda>x y. \<not> near threshold y x) kept
     \<and> (\<forall>x \<in> set xs. x \<in> set kept \<or> (\<exists>y \<in> set kept. near threshold x y))
     \<and> deduplicate threshold kept = kept"
proof -
  let ?kept = "deduplicate threshold xs"
  have sep: "sorted_wrt (\<lambda>x y. \<not> near threshold y x) ?kept"
    unfolding deduplicate_def by (rule keep_new_separate) simp
  have "subseq ?kept xs" using keep_new_extends [of "near threshold" "[]" xs] by (auto simp: deduplicate_def)
  moreover have "\<forall>x \<in> set xs. x \<in> set ?kept \<or> (\<exists>y \<in> set ?kept. near threshold x y)"
    using keep_new_covers [of _ xs "near threshold" "[]"] unfolding deduplicate_def list_ex_iff by blast
  moreover have "deduplicate threshold ?kept = ?kept"
    using keep_new_separated_same [of "near threshold" "[]" ?kept] sep by (simp add: deduplicate_def)
  ultimately show ?thesis using sep by (simp add: Let_def)
qed

definition with_topic :: "string \<Rightarrow> feedback_item list \<Rightarrow> feedback_item list" where
  "with_topic t xs = filter (\<lambda>it. topic_for it = t) xs"

lemma cluster_mem:
  "c \<in> set (cluster_items xs) \<longleftrightarrow>
     cl_topic c \<in> topic_for ` set xs \<and> cl_items c = with_topic (cl_topic c) xs
     \<and> cl_platforms c = sorted_set (map fi_platform (cl_items c))"
proof
  assume "c \<in> set (cluster_items xs)"
  then obtain t g where "(t, g) \<in> set (group_by topic_for xs)"
    "c = \<lparr>cl_topic = t, cl_items = g, cl_platforms = sorted_set (map fi_platform g)\<rparr>"
    by (auto simp: cluster_items_def)
  then show "cl_topic c \<in> topic_for ` set xs \<and> cl_items c = with_topic (cl_topic c) xs
     \<and> cl_platforms c = sorted_set (map fi_platform (cl_items c))"
    by (simp add: group_by_mem with_topic_def)
next
  assume r: "cl_topic c \<in> topic_for ` set xs \<and> cl_items c = with_topic (cl_topic c) xs
     \<and> cl_platforms c = sorted_set (map fi_platform (cl_items c))"
  then have "(cl_topic c, cl_items c) \<in> set (group_by topic_for xs)" by (simp add: group_by_mem with_topic_def)
  then have "\<lparr>cl_topic = cl_topic c, cl_items = cl_items c, cl_platforms = sorted_set (map fi_platform (cl_items c))\<rparr>
      \<in> set (cluster_items xs)"
    unfolding cluster_items_def set_map by (rule image_eqI [rotated]) simp
  then show "c \<in> set (cluster_items xs)" using r by (cases c) simp
qed

lemma cluster_topics: "map cl_topic (cluster_items xs) = map fst (group_by topic_for xs)"
  by (simp add: cluster_items_def comp_def case_prod_unfold)

lemma gap_of_cluster_simps [simp]:
  "gc_topic (gap_of_cluster c) = cl_topic c" "gc_occurrences (gap_of_cluster c) = int (length (cl_items c))"
  "gc_severity (gap_of_cluster c) = severity_of (cl_items c)"
  by (simp_all add: gap_of_cluster_def severity_rounded)

text \<open>
  The gaps are the topics that enough items share, each once, with the number of its items and the severity
  of their sentiments, the most severe first and the more frequent first among equals.
\<close>

theorem gaps_exact:
  "let gaps = detect_gaps min_size min_occurrences xs; n = gap_threshold min_size min_occurrences in
     set (map gc_topic gaps) = {t \<in> topic_for ` set xs. n \<le> length (with_topic t xs)}
     \<and> distinct (map gc_topic gaps)
     \<and> (\<forall>g \<in> set gaps. gc_occurrences g = int (length (with_topic (gc_topic g) xs))
          \<and> gc_severity g = severity_of (with_topic (gc_topic g) xs) \<and> 0 < gc_severity g \<and> gc_severity g \<le> 1)
     \<and> sorted_wrt (\<lambda>g h. gc_severity h < gc_severity g
          \<or> gc_severity h = gc_severity g \<and> gc_occurrences h \<le> gc_occurrences g) gaps"
proof -
  let ?gaps = "detect_gaps min_size min_occurrences xs" and ?n = "gap_threshold min_size min_occurrences"
  let ?hot = "filter (\<lambda>c. ?n \<le> length (cl_items c)) (cluster_items xs)"
  have members: "set ?gaps = gap_of_cluster ` set ?hot" by (simp add: detect_gaps_def)
  have items: "cl_items c = with_topic (cl_topic c) xs \<and> with_topic (cl_topic c) xs \<noteq> []" if "c \<in> set ?hot" for c
    using that by (auto simp: cluster_mem with_topic_def filter_empty_conv)
  have "set (map gc_topic ?gaps) = cl_topic ` set ?hot" unfolding set_map members image_image by simp
  also have "\<dots> = {t \<in> topic_for ` set xs. ?n \<le> length (with_topic t xs)}"
  proof (intro equalityI subsetI)
    fix t assume "t \<in> cl_topic ` set ?hot"
    then obtain c where c: "c \<in> set (cluster_items xs)" "?n \<le> length (cl_items c)" "t = cl_topic c" by auto
    have "cl_items c = with_topic t xs" "t \<in> topic_for ` set xs" using cluster_mem [THEN iffD1, OF c(1)] c(3) by simp_all
    then show "t \<in> {t \<in> topic_for ` set xs. ?n \<le> length (with_topic t xs)}" using c(2) by simp
  next
    fix t assume "t \<in> {t \<in> topic_for ` set xs. ?n \<le> length (with_topic t xs)}"
    then have "\<lparr>cl_topic = t, cl_items = with_topic t xs, cl_platforms = sorted_set (map fi_platform (with_topic t xs))\<rparr>
        \<in> set ?hot" by (auto simp: cluster_mem)
    then show "t \<in> cl_topic ` set ?hot" by (rule image_eqI [rotated]) simp
  qed
  finally have topics: "set (map gc_topic ?gaps) = {t \<in> topic_for ` set xs. ?n \<le> length (with_topic t xs)}" .
  have "distinct (map cl_topic (cluster_items xs))"
    unfolding cluster_topics group_by_keys by (simp add: distinct_sort)
  then have "distinct (map cl_topic ?hot)" by (rule distinct_map_filter)
  then have "distinct (map gc_topic (map gap_of_cluster ?hot))" by (simp add: comp_def)
  then have dist: "distinct (map gc_topic ?gaps)"
    unfolding detect_gaps_def by (rule distinct_map_sort)
  have each: "gc_occurrences g = int (length (with_topic (gc_topic g) xs))
      \<and> gc_severity g = severity_of (with_topic (gc_topic g) xs) \<and> 0 < gc_severity g \<and> gc_severity g \<le> 1"
    if g: "g \<in> set ?gaps" for g
  proof -
    obtain c where c: "c \<in> set ?hot" "g = gap_of_cluster c" using g unfolding members by blast
    then show ?thesis using items [OF c(1)] severity_range [of "with_topic (cl_topic c) xs"] by simp
  qed
  have "sorted (map gap_order ?gaps)" by (simp add: detect_gaps_def)
  then have "sorted_wrt (\<lambda>g h. gap_order g \<le> gap_order h) ?gaps" by (simp add: sorted_wrt_map)
  then have "sorted_wrt (\<lambda>g h. gc_severity h < gc_severity g
      \<or> gc_severity h = gc_severity g \<and> gc_occurrences h \<le> gc_occurrences g) ?gaps"
    by (rule sorted_wrt_mono_rel [rotated]) (auto simp: gap_order_def less_eq_prod_def)
  then show ?thesis using topics dist each by (simp only: Let_def) blast
qed

section \<open>Repeated questions\<close>

lemma near_same: "threshold \<le> 1 \<Longrightarrow> normalize (fi_content x) = normalize (fi_content y) \<Longrightarrow> near threshold x y"
  by (simp add: near_def similarity_same)

lemma dedup_repeats:
  assumes "threshold \<le> 1" and "\<And>y. y \<in> set (x # xs) \<Longrightarrow> normalize (fi_content y) = s"
  shows "deduplicate threshold (x # xs) = [x]"
proof -
  have "keep_new (near threshold) [x] xs = [x]"
    using assms by (intro keep_new_first [of x]) (auto intro: near_same)
  then show ?thesis by (simp add: deduplicate_def)
qed

text \<open>The sample: one question, asked twice.\<close>

definition twice_asked :: "feedback_item list" where
  "twice_asked = map item_of_message [sample_message ''1.0'' ''o1'' ''rotate keys'' 1, sample_message ''2.0'' ''o1'' ''Rotate  keys'' 2]"

theorem dedup_exact_witness:
  "let kept = deduplicate (85 / 100) twice_asked in length kept = 1 \<and> subseq kept twice_asked \<and> deduplicate (85 / 100) kept = kept"
proof -
  have n: "normalize ''Rotate  keys'' = normalize ''rotate keys''" by code_simp
  have "deduplicate (85 / 100) twice_asked = [hd twice_asked]"
    unfolding twice_asked_def list.map list.sel
    by (rule dedup_repeats [where s = "normalize ''rotate keys''"]) (auto simp: item_of_message_def sample_message_def n)
  then show ?thesis using dedup_exact [of "85 / 100" twice_asked] by (simp add: Let_def)
qed

end
