(* ===== verification/Feedback_Loop.thy ===== *)
theory Feedback_Loop
  imports Feedback_Analysis Workflow_Runner
begin

text \<open>
  The scheduled feedback loop: the four nodes of \<^verbatim>\<open>orchestration/graphs/feedback_graph.py\<close>, the workflow of
  \<^verbatim>\<open>workflows/feedback/documentation_feedback_loop.py\<close> with its question gathering and gap persistence, the
  rankings of \<^verbatim>\<open>feedback_prioritization.py\<close> and \<^verbatim>\<open>knowledge_update.py\<close>, and the ingestion of GitHub signals
  (\<^verbatim>\<open>workflows/github/feedback_ingestion.py\<close>). A cluster is a record with the keys of its dictionary; payloads
  travel between nodes as JSON text, which is read back as written; an exception of a node ends the loop.
\<close>

section \<open>The graph\<close>

record question_cluster =
  qc_topic :: string
  qc_count :: int
  qc_sample_question :: json
  qc_sample_questions :: "json list"
  qc_sources :: "string list"
  qc_source_event_ids :: "string list"
  qc_source_urls :: "string list"

definition topic_of :: "(json \<Rightarrow> string) \<Rightarrow> jobj \<Rightarrow> string" where
  "topic_of render q = lower (strip (str_or render (jget q ''topic'') ''general''))"

definition cluster_of :: "(json \<Rightarrow> string) \<Rightarrow> string \<Rightarrow> jobj list \<Rightarrow> question_cluster" where
  "cluster_of render topic qs =
     \<lparr>qc_topic = topic, qc_count = int (length qs),
      qc_sample_question = (case qs of [] \<Rightarrow> JNull | i # _ \<Rightarrow> get_or i ''question'' (JStr [])),
      qc_sample_questions = map (\<lambda>i. get_or i ''question'' (JStr [])) (take 5 qs),
      qc_sources = sorted_set (map (\<lambda>i. py_str render (get_or i ''source'' (JStr []))) qs),
      qc_source_event_ids = map (\<lambda>i. py_str render (jget i ''source_event_id''))
                              (filter (\<lambda>i. py_truth (jget i ''source_event_id'')) qs),
      qc_source_urls = map (\<lambda>i. py_str render (jget i ''source_url'')) (filter (\<lambda>i. py_truth (jget i ''source_url'')) qs)\<rparr>"

text \<open>A question that is no dictionary has no \<^verbatim>\<open>get\<close>.\<close>

fun dicts_or_raise :: "json list \<Rightarrow> jobj list res" where
  "dicts_or_raise [] = Inr []"
| "dicts_or_raise (JObj d # vs) = map_sum id (\<lambda>ds. d # ds) (dicts_or_raise vs)"
| "dicts_or_raise (v # vs) = Inl (AttributeError ''get'')"

definition summarize_clusters :: "(json \<Rightarrow> string) \<Rightarrow> jobj list \<Rightarrow> question_cluster list" where
  "summarize_clusters render questions =
     map (\<lambda>(topic, qs). cluster_of render topic qs) (group_by (topic_of render) questions)"

definition gaps_of :: "int \<Rightarrow> question_cluster list \<Rightarrow> question_cluster list" where
  "gaps_of threshold clusters = filter (\<lambda>c. threshold \<le> qc_count c) clusters"

definition rank_gaps :: "question_cluster list \<Rightarrow> question_cluster list" where
  "rank_gaps gaps = sort_key (\<lambda>g. - qc_count g) gaps"

record enqueued_gap =
  eq_gap_id :: string
  eq_topic :: string
  eq_count :: int
  eq_sample_questions :: "json list"
  eq_platforms :: "string list"
  eq_source_event_ids :: "string list"
  eq_source_urls :: "string list"
  eq_action :: string

definition pad3 :: "nat \<Rightarrow> string" where
  "pad3 n = replicate (3 - length (show_nat n)) (CHR ''0'') @ show_nat n"

definition enqueue_gap :: "nat \<Rightarrow> question_cluster \<Rightarrow> enqueued_gap" where
  "enqueue_gap i g =
     \<lparr>eq_gap_id = ''gap-'' @ pad3 (i + 1), eq_topic = qc_topic g, eq_count = qc_count g,
      eq_sample_questions = (if qc_sample_questions g = [] then [qc_sample_question g] else qc_sample_questions g),
      eq_platforms = qc_sources g, eq_source_event_ids = qc_source_event_ids g, eq_source_urls = qc_source_urls g,
      eq_action = ''create''\<rparr>"

definition enqueue_gaps :: "question_cluster list \<Rightarrow> enqueued_gap list" where
  "enqueue_gaps gaps = map (\<lambda>(i, g). enqueue_gap i g) (enumerate 0 gaps)"

definition has_gaps :: "question_cluster list \<Rightarrow> bool" where
  "has_gaps ranked \<longleftrightarrow> ranked \<noteq> []"

text \<open>The run of the graph: without a gap the last node does not run, and nothing is enqueued.\<close>

definition feedback_graph :: "(json \<Rightarrow> string) \<Rightarrow> int \<Rightarrow> json list \<Rightarrow> enqueued_gap list res" where
  "feedback_graph render threshold questions =
     map_sum id
       (\<lambda>qs. let ranked = rank_gaps (gaps_of threshold (summarize_clusters render qs))
              in if has_gaps ranked then enqueue_gaps ranked else [])
       (dicts_or_raise questions)"

section \<open>Persisting the gaps\<close>

record loop_env =
  le_now :: int
  le_row_id :: "nat \<Rightarrow> string"
  le_render :: "json \<Rightarrow> string"
  le_float :: "real \<Rightarrow> string"
  le_service :: health
  le_signals :: health
  le_support :: health
  le_gaps :: health
  le_enumerates :: bool

fun texts_or_raise :: "json list \<Rightarrow> string list res" where
  "texts_or_raise [] = Inr []"
| "texts_or_raise (JStr s # vs) = map_sum id (\<lambda>ss. s # ss) (texts_or_raise vs)"
| "texts_or_raise (v # vs) = Inl (Exn ''ValidationError'' ''sample_questions'')"

definition candidate_of :: "enqueued_gap \<Rightarrow> gap_candidate res" where
  "candidate_of g =
     map_sum id
       (\<lambda>texts. \<lparr>gc_topic = (if eq_topic g = [] then ''general'' else eq_topic g), gc_occurrences = eq_count g,
                 gc_severity = 1 / 2, gc_platforms = eq_platforms g, gc_sample_questions = texts,
                 gc_metadata = JObj [(''source_event_ids'', JList (map JStr (eq_source_event_ids g))),
                                     (''source_urls'', JList (map JStr (eq_source_urls g)))]\<rparr>)
       (texts_or_raise (eq_sample_questions g))"

definition persist_gap :: "loop_env \<Rightarrow> string \<Rightarrow> enqueued_gap \<Rightarrow> feedback_db \<Rightarrow> string res \<times> feedback_db" where
  "persist_gap e org g d =
     (case candidate_of g of
        Inl x \<Rightarrow> (Inl x, d)
      | Inr c \<Rightarrow>
          if le_gaps e \<noteq> Working then (Inl OutOfService, d)
          else (case upsert_candidate (le_float e) (le_row_id e (length (fb_gaps d))) (le_now e) org c d of
                  (Inl x, d1) \<Rightarrow> (Inl x, d1)
                | (Inr i, d1) \<Rightarrow>
                    (case set_gap_outcome (le_now e) i ''documentation'' d1 of
                       (Inl x, d2) \<Rightarrow> (Inl x, d2) | (Inr _, d2) \<Rightarrow> (Inr i, d2))))"

fun persist_each :: "loop_env \<Rightarrow> string \<Rightarrow> enqueued_gap list \<Rightarrow> feedback_db \<Rightarrow> unit res \<times> feedback_db" where
  "persist_each e org [] d = (Inr (), d)"
| "persist_each e org (g # gs) d =
     (case persist_gap e org g d of (Inl x, d1) \<Rightarrow> (Inl x, d1) | (Inr _, d1) \<Rightarrow> persist_each e org gs d1)"

definition persist_gaps :: "loop_env \<Rightarrow> string \<Rightarrow> enqueued_gap list \<Rightarrow> feedback_db \<Rightarrow> unit res \<times> feedback_db" where
  "persist_gaps e org gaps d = (if le_gaps e = Absent then (Inr (), d) else persist_each e org gaps d)"

section \<open>Gathering the questions\<close>

definition opt_json :: "string option \<Rightarrow> json" where
  "opt_json v = (case v of None \<Rightarrow> JNull | Some s \<Rightarrow> JStr s)"

definition question_of_item :: "string \<Rightarrow> feedback_item \<Rightarrow> json" where
  "question_of_item org it =
     JObj [(''topic'', opt_json (fi_topic it)), (''question'', JStr (fi_content it)), (''source'', JStr (fi_platform it)),
           (''source_event_id'', or_json (opt_json (fi_source_event_id it)) (opt_json (fi_source_message_id it))),
           (''source_url'', opt_json (fi_source_url it)), (''org_id'', or_json (opt_json (fi_org_id it)) (JStr org))]"

definition question_of_message :: "string \<Rightarrow> support_message \<Rightarrow> json" where
  "question_of_message org m =
     JObj [(''topic'', JStr (lower (strip (case first_set [sm_channel_name m, Some (sm_platform m)] of
              None \<Rightarrow> ''general'' | Some s \<Rightarrow> s)))),
           (''question'', JStr (sm_content m)), (''source'', JStr (sm_platform m)),
           (''source_event_id'', JStr (id_text m)), (''source_url'', opt_json (sm_url m)), (''org_id'', JStr org)]"

definition raw_questions :: "loop_env \<Rightarrow> string \<Rightarrow> feedback_db \<Rightarrow> json list" where
  "raw_questions e org d =
     (if le_support e \<noteq> Working then [] else map (question_of_message org) (search_messages ''%'' None (Some org) 100 d))"

text \<open>The service's collection, which raises when a store it reads does.\<close>

definition collected :: "loop_env \<Rightarrow> string \<Rightarrow> feedback_db \<Rightarrow> feedback_item list res" where
  "collected e org d =
     (if le_support e \<noteq> Working \<or> le_signals e = Failing then Inl OutOfService
      else collect_questions (le_signals e = Working) org None 200 d)"

definition gather_questions :: "loop_env \<Rightarrow> string \<Rightarrow> feedback_db \<Rightarrow> json list" where
  "gather_questions e org d =
     (if le_service e = Absent then raw_questions e org d
      else case collected e org d of
        Inl _ \<Rightarrow> raw_questions e org d
      | Inr found \<Rightarrow>
          if found = [] then raw_questions e org d
          else map (question_of_item org) (deduplicate (85 / 100) found))"

section \<open>The workflow\<close>

record loop_state =
  lp_status :: workflow_status
  lp_errors :: "string list"
  lp_gaps :: "enqueued_gap list"
  lp_organizations :: "(string \<times> workflow_status) list"

definition loop_end :: "workflow_status \<Rightarrow> string list \<Rightarrow> enqueued_gap list \<Rightarrow> loop_state" where
  "loop_end st errs gaps = \<lparr>lp_status = st, lp_errors = errs, lp_gaps = gaps, lp_organizations = []\<rparr>"

definition run_questions ::
  "loop_env \<Rightarrow> int \<Rightarrow> json list \<Rightarrow> string option \<Rightarrow> feedback_db \<Rightarrow> loop_state res \<times> feedback_db" where
  "run_questions e threshold questions org d =
     (case feedback_graph (le_render e) threshold questions of
        Inl x \<Rightarrow> (Inl x, d)
      | Inr gaps \<Rightarrow>
          if org = None \<or> org = Some [] then (Inr (loop_end Run_Delivered [] gaps), d)
          else (case persist_gaps e (the org) gaps d of
                  (Inl x, d1) \<Rightarrow> (Inr (loop_end Run_Failed [exn_msg x] gaps), d1)
                | (Inr _, d1) \<Rightarrow> (Inr (loop_end Run_Delivered [] gaps), d1)))"

definition run_org :: "loop_env \<Rightarrow> int \<Rightarrow> string \<Rightarrow> feedback_db \<Rightarrow> loop_state res \<times> feedback_db" where
  "run_org e threshold org d = run_questions e threshold (gather_questions e org d) (Some org) d"

fun run_orgs :: "loop_env \<Rightarrow> int \<Rightarrow> string list \<Rightarrow> feedback_db \<Rightarrow> (string \<times> workflow_status) list res \<times> feedback_db" where
  "run_orgs e threshold [] d = (Inr [], d)"
| "run_orgs e threshold (org # orgs) d =
     (case run_org e threshold org d of
        (Inl x, d1) \<Rightarrow> (Inl x, d1)
      | (Inr st, d1) \<Rightarrow>
          (case run_orgs e threshold orgs d1 of
             (Inl x, d2) \<Rightarrow> (Inl x, d2) | (Inr sts, d2) \<Rightarrow> (Inr ((org, lp_status st) # sts), d2)))"

definition run_feedback_loop ::
  "loop_env \<Rightarrow> int \<Rightarrow> json list option \<Rightarrow> string option \<Rightarrow> feedback_db \<Rightarrow> loop_state res \<times> feedback_db" where
  "run_feedback_loop e threshold questions org d =
     (case questions of
        Some qs \<Rightarrow> run_questions e threshold qs org d
      | None \<Rightarrow>
          if org = None \<or> org = Some [] then
            if \<not> le_enumerates e
            then (Inr (loop_end Run_Failed [''org_id is required when organization enumeration is unavailable''] []), d)
            else (case run_orgs e threshold (list_org_ids d) d of
                    (Inl x, d1) \<Rightarrow> (Inl x, d1)
                  | (Inr sts, d1) \<Rightarrow> (Inr ((loop_end Run_Delivered [] [])\<lparr>lp_organizations := sts\<rparr>), d1))
          else run_org e threshold (the org) d)"

section \<open>Ranking and knowledge plans\<close>

definition SEVERITY_WEIGHTS :: "(string \<times> int) list" where
  "SEVERITY_WEIGHTS =
     [(''breaking'', 3), (''error'', 3), (''failure'', 3), (''deprecated'', 2), (''how-to'', 1), (''question'', 1)]"

definition weight_of :: "string \<Rightarrow> int" where
  "weight_of topic = (case find (\<lambda>kw. str_contains (fst kw) topic) SEVERITY_WEIGHTS of None \<Rightarrow> 1 | Some kw \<Rightarrow> snd kw)"

fun score_gaps :: "(json \<Rightarrow> string) \<Rightarrow> int \<Rightarrow> jobj list \<Rightarrow> (int \<times> jobj) list res" where
  "score_gaps render min_count [] = Inr []"
| "score_gaps render min_count (gap # gaps) =
     and_then (int_of_json (or_json (get_or gap ''count'' (JInt 0)) (JInt 0))) (\<lambda>n.
       and_then (score_gaps render min_count gaps) (\<lambda>ranked.
         let score = weight_of (py_str render (get_or gap ''topic'' (JStr []))) * n in
         Inr (if n < min_count then ranked else (score, jset ''priority_score'' (JInt score) gap) # ranked)))"

definition prioritize_gaps :: "(json \<Rightarrow> string) \<Rightarrow> int \<Rightarrow> jobj list \<Rightarrow> jobj list res" where
  "prioritize_gaps render min_count gaps =
     map_sum id (\<lambda>ranked. map snd (sort_key (\<lambda>p. - fst p) ranked)) (score_gaps render min_count gaps)"

definition plan_knowledge_updates :: "(json \<Rightarrow> string) \<Rightarrow> jobj list \<Rightarrow> jobj list" where
  "plan_knowledge_updates render gaps =
     map (\<lambda>gap. [(''kind'', JStr ''documentation_gap''),
                 (''key'', JStr (''gap:'' @ py_str render (get_or gap ''topic'' (JStr ''unknown'')))),
                 (''content'', JStr (''Users repeatedly ask about: '' @ py_str render (get_or gap ''topic'' (JStr [])))),
                 (''count'', get_or gap ''count'' (JInt 0)), (''action'', get_or gap ''action'' (JStr ''create''))]) gaps"

section \<open>Ingesting GitHub signals\<close>

definition sub_dict :: "jobj \<Rightarrow> string \<Rightarrow> jobj res" where
  "sub_dict event k =
     (let v = or_json (jget event k) (JObj []) in case v of JObj d \<Rightarrow> Inr d | _ \<Rightarrow> Inl (AttributeError ''get''))"

definition item_text :: "json \<Rightarrow> string option res" where
  "item_text v = (case v of JNull \<Rightarrow> Inr None | JStr s \<Rightarrow> Inr (Some s) | _ \<Rightarrow> Inl (Exn ''ValidationError'' ''FeedbackItem''))"

definition feedback_item_of :: "(json \<Rightarrow> string) \<Rightarrow> jobj \<Rightarrow> feedback_item res" where
  "feedback_item_of render event =
     and_then (sub_dict event ''feedback'') (\<lambda>payload.
     and_then (sub_dict event ''issue'') (\<lambda>issue.
     and_then (sub_dict event ''pull_request'') (\<lambda>pull.
       let content = strip (str_or render (or_json (jget payload ''content'') (or_json (jget issue ''body'') (jget issue ''title''))) []);
           event_id = str_or render (or_json (jget payload ''source_event_id'')
                        (or_json (jget event ''event_id'') (jget payload ''source_message_id''))) [];
           org = str_or render (or_json (jget event ''project_id'') (jget event ''org_id'')) [] in
       if content = [] then Inl (ValueError ''GitHub feedback event has no content'')
       else if event_id = [] then Inl (ValueError ''GitHub feedback event has no source event id'')
       else
         and_then (item_text (or_json (jget payload ''topic'') (or_json (jget issue ''title'') (jget pull ''title'')))) (\<lambda>topic.
         and_then (item_text (jget event ''actor'')) (\<lambda>author.
         and_then (item_text (jget event ''repository'')) (\<lambda>channel.
         and_then (item_text (or_json (jget payload ''source_message_id'') (JStr event_id))) (\<lambda>message_id.
         and_then (item_text (or_json (jget payload ''source_url'')
                      (or_json (jget issue ''html_url'') (jget pull ''html_url'')))) (\<lambda>url.
           Inr \<lparr>fi_id = Some event_id, fi_org_id = (if org = [] then None else Some org),
                fi_platform = str_or render (jget payload ''platform'') ''github'', fi_topic = topic, fi_content = content,
                fi_author = author, fi_channel = channel, fi_source_message_id = message_id,
                fi_source_event_id = Some event_id, fi_source_url = url,
                fi_category = str_or render (jget payload ''category'') ''question'',
                fi_sentiment = str_or render (jget payload ''sentiment'') ''neutral'', fi_timestamp = None\<rparr>))))))))"

record ingest_state =
  in_run_id :: string
  in_status :: workflow_status
  in_errors :: "string list"
  in_item :: "feedback_item option"

definition ingest_github_feedback ::
  "loop_env \<Rightarrow> jobj \<Rightarrow> string option \<Rightarrow> feedback_db \<Rightarrow> ingest_state \<times> feedback_db" where
  "ingest_github_feedback e event run_id d =
     (let rid = str_or (le_render e) (jget event ''event_id'') ''github-feedback'';
          failed = (\<lambda>m. \<lparr>in_run_id = rid, in_status = Run_Failed, in_errors = [m], in_item = None\<rparr>) in
      if le_signals e = Absent then (failed ''feedback repository is unavailable'', d)
      else case feedback_item_of (le_render e) event of
        Inl x \<Rightarrow> (failed (exn_msg x), d)
      | Inr it \<Rightarrow>
          if le_signals e = Failing then (failed (exn_msg OutOfService), d)
          else (case save_signal (le_row_id e (length (fb_signals d))) (le_now e) it d of
                  (Inl x, d1) \<Rightarrow> (failed (exn_msg x), d1)
                | (Inr _, d1) \<Rightarrow> (\<lparr>in_run_id = rid, in_status = Run_Delivered, in_errors = [], in_item = Some it\<rparr>, d1)))"

definition process_issue_feedback :: "loop_env \<Rightarrow> jobj \<Rightarrow> feedback_db \<Rightarrow> ingest_state \<times> feedback_db" where
  "process_issue_feedback e event d = ingest_github_feedback e event None d"

section \<open>What the graph enqueues\<close>

lemma dicts_of_map: "dicts_or_raise (map JObj qs) = Inr qs"
  by (induction qs) simp_all

definition asking :: "(json \<Rightarrow> string) \<Rightarrow> string \<Rightarrow> jobj list \<Rightarrow> jobj list" where
  "asking render t qs = filter (\<lambda>q. topic_of render q = t) qs"

lemma graph_runs:
  "feedback_graph render threshold (map JObj qs) =
     Inr (enqueue_gaps (rank_gaps (gaps_of threshold (summarize_clusters render qs))))"
  by (simp add: feedback_graph_def dicts_of_map has_gaps_def enqueue_gaps_def Let_def)

lemma enqueue_simps [simp]: "eq_topic (enqueue_gap i g) = qc_topic g" "eq_count (enqueue_gap i g) = qc_count g"
  by (simp_all add: enqueue_gap_def)

lemma map_enqueue: "(\<And>i g. f (enqueue_gap i g) = h g) \<Longrightarrow> map f (enqueue_gaps gs) = map h gs"
proof -
  assume "\<And>i g. f (enqueue_gap i g) = h g"
  then have "map f (map (\<lambda>(i, g). enqueue_gap i g) (enumerate n gs)) = map h gs" for n
    by (induction gs arbitrary: n) simp_all
  then show ?thesis by (simp only: enqueue_gaps_def)
qed

lemma cluster_of_simps [simp]: "qc_topic (cluster_of render t qs) = t" "qc_count (cluster_of render t qs) = int (length qs)"
  by (simp_all add: cluster_of_def)

lemma summarized:
  "c \<in> set (summarize_clusters render qs) \<longleftrightarrow>
     (\<exists>t \<in> topic_of render ` set qs. c = cluster_of render t (asking render t qs))"
proof
  assume "c \<in> set (summarize_clusters render qs)"
  then obtain t g where "(t, g) \<in> set (group_by (topic_of render) qs)" "c = cluster_of render t g"
    by (auto simp: summarize_clusters_def)
  then show "\<exists>t \<in> topic_of render ` set qs. c = cluster_of render t (asking render t qs)"
    by (auto simp: group_by_mem asking_def)
next
  assume "\<exists>t \<in> topic_of render ` set qs. c = cluster_of render t (asking render t qs)"
  then obtain t where "t \<in> topic_of render ` set qs" and c: "c = cluster_of render t (asking render t qs)" by blast
  then have "(t, asking render t qs) \<in> set (group_by (topic_of render) qs)" by (simp add: group_by_mem asking_def)
  then show "c \<in> set (summarize_clusters render qs)"
    unfolding summarize_clusters_def set_map c by (rule image_eqI [rotated]) simp
qed

lemma summarized_topics: "distinct (map qc_topic (summarize_clusters render qs))"
proof -
  have "map qc_topic (summarize_clusters render qs) = map fst (group_by (topic_of render) qs)"
    by (simp add: summarize_clusters_def comp_def case_prod_unfold)
  then show ?thesis by (simp add: group_by_keys)
qed

lemma graph_topics:
  assumes "feedback_graph render threshold (map JObj qs) = Inr gaps"
  shows "distinct (map eq_topic gaps)"
proof -
  have "distinct (map qc_topic (rank_gaps (gaps_of threshold (summarize_clusters render qs))))"
    unfolding rank_gaps_def gaps_of_def by (intro distinct_map_sort distinct_map_filter summarized_topics)
  moreover have "map eq_topic gaps = map qc_topic (rank_gaps (gaps_of threshold (summarize_clusters render qs)))"
    using assms unfolding graph_runs by (auto intro: map_enqueue)
  ultimately show ?thesis by simp
qed

text \<open>
  The graph enqueues exactly the topics that reach the threshold, each once, with the number of questions
  asked about it, the most frequent first.
\<close>

theorem graph_exact:
  "\<exists>gaps. feedback_graph render threshold (map JObj qs) = Inr gaps
     \<and> set (map (\<lambda>g. (eq_topic g, eq_count g)) gaps)
         = {(t, int (length (asking render t qs))) | t. t \<in> topic_of render ` set qs \<and> threshold \<le> int (length (asking render t qs))}
     \<and> distinct (map eq_topic gaps)
     \<and> sorted_wrt (\<lambda>g h. eq_count h \<le> eq_count g) gaps"
proof -
  let ?hot = "gaps_of threshold (summarize_clusters render qs)"
  let ?gaps = "enqueue_gaps (rank_gaps ?hot)"
  have pairs: "map (\<lambda>g. (eq_topic g, eq_count g)) ?gaps = map (\<lambda>g. (qc_topic g, qc_count g)) (rank_gaps ?hot)"
    by (rule map_enqueue) simp
  have counts: "map eq_count ?gaps = map qc_count (rank_gaps ?hot)" by (rule map_enqueue) simp
  have "set (map (\<lambda>g. (eq_topic g, eq_count g)) ?gaps)
      = (\<lambda>g. (qc_topic g, qc_count g)) ` {c \<in> set (summarize_clusters render qs). threshold \<le> qc_count c}"
    unfolding pairs by (simp add: rank_gaps_def gaps_of_def)
  also have "{c \<in> set (summarize_clusters render qs). threshold \<le> qc_count c}
      = (\<lambda>t. cluster_of render t (asking render t qs)) ` {t \<in> topic_of render ` set qs. threshold \<le> int (length (asking render t qs))}"
    (is "_ = _ ` ?T") using summarized [of _ render qs] by (auto simp del: image_iff)
  also have "(\<lambda>g. (qc_topic g, qc_count g)) ` (\<lambda>t. cluster_of render t (asking render t qs)) ` ?T
      = {(t, int (length (asking render t qs))) | t. t \<in> topic_of render ` set qs \<and> threshold \<le> int (length (asking render t qs))}"
    unfolding image_image by auto
  finally have s: "set (map (\<lambda>g. (eq_topic g, eq_count g)) ?gaps) = \<dots>" .
  have d: "distinct (map eq_topic ?gaps)" by (rule graph_topics [OF graph_runs])
  have "sorted (map (\<lambda>g. - qc_count g) (rank_gaps ?hot))" by (simp add: rank_gaps_def)
  then have "sorted_wrt (\<lambda>m n. n \<le> m) (map qc_count (rank_gaps ?hot))" by (simp add: sorted_wrt_map)
  then have "sorted_wrt (\<lambda>m n. n \<le> m) (map eq_count ?gaps)" unfolding counts .
  then have "sorted_wrt (\<lambda>g h. eq_count h \<le> eq_count g) ?gaps" by (simp only: sorted_wrt_map)
  then show ?thesis using graph_runs s d by blast
qed

lemma graph_single:
  assumes "2 \<le> threshold" and "length qs \<le> 1"
  shows "feedback_graph render threshold (map JObj qs) = Inr []"
proof -
  have "qc_count c < threshold" if c: "c \<in> set (summarize_clusters render qs)" for c
  proof -
    obtain t where "c = cluster_of render t (asking render t qs)" using c unfolding summarized by blast
    moreover have "length (asking render t qs) \<le> length qs" unfolding asking_def by (rule length_filter_le)
    ultimately show ?thesis using assms by simp
  qed
  then have "gaps_of threshold (summarize_clusters render qs) = []"
    unfolding gaps_of_def filter_empty_conv by fastforce
  then show ?thesis by (simp add: graph_runs rank_gaps_def enqueue_gaps_def)
qed

section \<open>Repeated questions are not gaps\<close>

lemma search_mem: "m \<in> set (search_messages q p (Some org) n d) \<Longrightarrow> m \<in> set (fb_messages d) \<and> sm_org_id m = Some org"
  unfolding search_messages_def by (auto dest: in_set_takeD)

lemma signals_mem: "it \<in> set (list_signals org p n d) \<Longrightarrow> \<exists>r \<in> set (fb_signals d). sg_org_id r = org \<and> it = stored_item r"
proof -
  assume "it \<in> set (list_signals org p n d)"
  then obtain r where r: "it = stored_item r" "r \<in> set (take n (sort_key recency
      (filter (\<lambda>r. sg_org_id r = org \<and> on_platform p (sg_platform r)) (fb_signals d))))"
    by (auto simp: list_signals_def)
  from in_set_takeD [OF r(2)] show ?thesis using r(1) by auto
qed

lemma stored_simps [simp]: "fi_content (stored_item r) = fi_content (sg_item r)" "fi_org_id (stored_item r) = Some (sg_org_id r)"
  by (simp_all add: stored_item_def)

lemma item_of_message_simps [simp]:
  "fi_content (item_of_message m) = sm_content m" "fi_org_id (item_of_message m) = sm_org_id m"
  by (simp_all add: item_of_message_def)

lemma question_is_dict: "\<exists>q. question_of_item org it = JObj q"
  by (simp add: question_of_item_def)

text \<open>
  C18. Questions of an organization that all say the same never become a gap, however often they are asked: the
  loop drops the repetitions before it counts, and leaves the tables as they are.
\<close>

theorem repeated_question_lost:
  assumes "le_service e \<noteq> Absent" "le_support e = Working" "le_signals e \<noteq> Failing" and org: "org \<noteq> []" and "2 \<le> threshold"
    and messages: "\<And>m. m \<in> set (fb_messages d) \<Longrightarrow> sm_org_id m = Some org \<Longrightarrow> normalize (sm_content m) = s"
    and signals: "\<And>r. r \<in> set (fb_signals d) \<Longrightarrow> sg_org_id r = org \<Longrightarrow> normalize (fi_content (sg_item r)) = s"
  shows "run_feedback_loop e threshold None (Some org) d = (Inr (loop_end Run_Delivered [] []), d)"
proof -
  obtain found where f: "collected e org d = Inr found" using assms(2,3) org by (auto simp: collected_def collect_questions_def)
  have same: "normalize (fi_content it) = s" if "it \<in> set found" for it
  proof -
    have "it \<in> classify ` (classify ` item_of_message ` set (search_messages ''%'' None (Some org) 200 d) \<union>
        set (list_signals org None 200 d))"
      using f that assms(2,3) org by (auto simp: collected_def collect_questions_def split: if_splits)
    then show ?thesis using messages signals by (auto dest!: search_mem signals_mem)
  qed
  have "\<exists>qs. gather_questions e org d = map JObj qs \<and> length qs \<le> 1"
  proof (cases found)
    case Nil
    then have "search_messages ''%'' None (Some org) 200 d = []"
      using f assms(2,3) org by (auto simp: collected_def collect_questions_def split: if_splits)
    then have "search_messages ''%'' None (Some org) 100 d = []" by (auto simp: search_messages_def)
    then have "gather_questions e org d = []" using f Nil by (simp add: gather_questions_def raw_questions_def)
    then show ?thesis by (intro exI [of _ "[]"]) simp
  next
    case (Cons x xs)
    have "deduplicate (85 / 100) (x # xs) = [x]" using same Cons by (intro dedup_repeats [of _ _ _ s]) simp_all
    then have "gather_questions e org d = [question_of_item org x]" using f Cons assms(1) by (simp add: gather_questions_def)
    then show ?thesis using question_is_dict [of org x] by (metis list.simps(8,9) list.size(3,4) One_nat_def le_refl add_0)
  qed
  then obtain qs where "gather_questions e org d = map JObj qs" "length qs \<le> 1" by blast
  then show ?thesis
    using graph_single [OF \<open>2 \<le> threshold\<close>, of qs] org
    by (simp add: run_feedback_loop_def run_org_def run_questions_def persist_gaps_def)
qed

section \<open>What the loop writes\<close>

definition gap_topic :: "enqueued_gap \<Rightarrow> string" where
  "gap_topic g = (if eq_topic g = [] then ''general'' else eq_topic g)"

definition recorded :: "string \<Rightarrow> enqueued_gap \<Rightarrow> gap_row \<Rightarrow> bool" where
  "recorded org g r \<longleftrightarrow> gap_key r = (org, gap_topic g) \<and> gp_outcome r = ''documentation'' \<and> gp_occurrences r = eq_count g"

definition gap_inv :: "loop_env \<Rightarrow> feedback_db \<Rightarrow> bool" where
  "gap_inv e d \<longleftrightarrow>
     distinct (map gap_key (fb_gaps d)) \<and> distinct (map gp_id (fb_gaps d))
     \<and> inj (le_row_id e) \<and> (\<forall>n \<ge> length (fb_gaps d). le_row_id e n \<notin> gp_id ` set (fb_gaps d))"

lemma gap_invD:
  "gap_inv e d \<Longrightarrow> distinct (map gap_key (fb_gaps d))" "gap_inv e d \<Longrightarrow> distinct (map gp_id (fb_gaps d))"
  "gap_inv e d \<Longrightarrow> inj (le_row_id e)" "gap_inv e d \<Longrightarrow> length (fb_gaps d) \<le> n \<Longrightarrow> le_row_id e n \<notin> gp_id ` set (fb_gaps d)"
  by (auto simp: gap_inv_def)

lemma counted_simps [simp]:
  "gap_key (counted_gap fmt now c r) = gap_key r" "gp_id (counted_gap fmt now c r) = gp_id r"
  "gp_org_id (counted_gap fmt now c r) = gp_org_id r" "gp_topic (counted_gap fmt now c r) = gp_topic r"
  "gp_occurrences (counted_gap fmt now c r) = gc_occurrences c"
  by (simp_all add: counted_gap_def gap_key_def)

lemma outcome_simps [simp]:
  "gap_key (r\<lparr>gp_outcome := x, gp_updated_at := n\<rparr>) = gap_key r"
  by (simp add: gap_key_def)

text \<open>One gap: the row of its topic is written, the others stay.\<close>

lemma persist_gap_row:
  assumes "persist_gap e org g d = (Inr i, d')"
  obtains c where "candidate_of g = Inr c" "le_gaps e = Working" "org \<in> set (fb_orgs d)"
    "(\<exists>r. find (\<lambda>r. gap_key r = (org, gc_topic c)) (fb_gaps d) = Some r \<and> i = gp_id r
        \<and> d' = d\<lparr>fb_gaps := upd_where (\<lambda>r. gp_id r = i) (\<lambda>r. r\<lparr>gp_outcome := ''documentation'', gp_updated_at := le_now e\<rparr>)
                 (upd_where (\<lambda>x. gap_key x = (org, gc_topic c)) (counted_gap (le_float e) (le_now e) c) (fb_gaps d))\<rparr>)
     \<or> (\<exists>row. find (\<lambda>r. gap_key r = (org, gc_topic c)) (fb_gaps d) = None \<and> i = le_row_id e (length (fb_gaps d))
        \<and> gp_id row = i \<and> gap_key row = (org, gc_topic c) \<and> gp_occurrences row = gc_occurrences c
        \<and> d' = d\<lparr>fb_gaps := upd_where (\<lambda>r. gp_id r = i) (\<lambda>r. r\<lparr>gp_outcome := ''documentation'', gp_updated_at := le_now e\<rparr>)
                 (fb_gaps d @ [row])\<rparr>)"
proof -
  obtain c where c: "candidate_of g = Inr c" "le_gaps e = Working"
    using assms by (auto simp: persist_gap_def split: sum.splits if_splits)
  obtain d1 where u: "upsert_candidate (le_float e) (le_row_id e (length (fb_gaps d))) (le_now e) org c d = (Inr i, d1)"
    and o: "set_gap_outcome (le_now e) i ''documentation'' d1 = (Inr (), d')"
    using assms c by (auto simp: persist_gap_def split: sum.splits prod.splits)
  have d': "d' = d1\<lparr>fb_gaps := upd_where (\<lambda>r. gp_id r = i) (\<lambda>r. r\<lparr>gp_outcome := ''documentation'', gp_updated_at := le_now e\<rparr>) (fb_gaps d1)\<rparr>"
    using o by (simp add: set_gap_outcome_def GAP_OUTCOMES_def)
  have org: "org \<in> set (fb_orgs d)" using u by (simp add: upsert_candidate_def split: if_splits)
  show ?thesis
  proof (cases "find (\<lambda>r. gap_key r = (org, gc_topic c)) (fb_gaps d)")
    case None
    let ?row = "counted_gap (le_float e) (le_now e) c (new_gap (le_row_id e (length (fb_gaps d))) (le_now e) org (gc_topic c))"
    have "i = le_row_id e (length (fb_gaps d))" "d1 = d\<lparr>fb_gaps := fb_gaps d @ [?row]\<rparr>"
      using u org None by (auto simp: upsert_candidate_def)
    then show ?thesis using None
      by (intro that [OF c org] disjI2 exI [of _ ?row]) (simp add: d' gap_key_def new_gap_def)
  next
    case (Some r)
    then have "i = gp_id r"
      "d1 = d\<lparr>fb_gaps := upd_where (\<lambda>x. gap_key x = (org, gc_topic c)) (counted_gap (le_float e) (le_now e) c) (fb_gaps d)\<rparr>"
      using u org by (auto simp: upsert_candidate_def)
    then show ?thesis using Some by (intro that [OF c org] disjI1 exI [of _ r]) (simp add: d')
  qed
qed

lemma row_of_id: "gap_inv e d \<Longrightarrow> r \<in> set (fb_gaps d) \<Longrightarrow> x \<in> set (fb_gaps d) \<Longrightarrow> gp_id x = gp_id r \<longleftrightarrow> x = r"
  using gap_invD(2) by (metis distinct_map inj_onD)

lemma row_of_key: "gap_inv e d \<Longrightarrow> r \<in> set (fb_gaps d) \<Longrightarrow> x \<in> set (fb_gaps d) \<Longrightarrow> gap_key x = gap_key r \<longleftrightarrow> x = r"
  using gap_invD(1) by (metis distinct_map inj_onD)

lemma candidate_topic: "candidate_of g = Inr c \<Longrightarrow> gc_topic c = gap_topic g \<and> gc_occurrences c = eq_count g"
  by (cases "texts_or_raise (eq_sample_questions g)") (auto simp: candidate_of_def gap_topic_def)

lemma persist_gap_effect:
  assumes inv: "gap_inv e d" and p: "persist_gap e org g d = (Inr i, d')"
  shows "gap_inv e d' \<and> (\<exists>r \<in> set (fb_gaps d'). recorded org g r)
    \<and> (\<forall>r. gap_key r \<noteq> (org, gap_topic g) \<longrightarrow> r \<in> set (fb_gaps d') \<longleftrightarrow> r \<in> set (fb_gaps d))"
proof -
  let ?doc = "\<lambda>r. r\<lparr>gp_outcome := ''documentation'', gp_updated_at := le_now e\<rparr>"
  obtain c where c: "candidate_of g = Inr c" and
    cases: "(\<exists>r. find (\<lambda>r. gap_key r = (org, gc_topic c)) (fb_gaps d) = Some r \<and> i = gp_id r
        \<and> d' = d\<lparr>fb_gaps := upd_where (\<lambda>r. gp_id r = i) ?doc
                 (upd_where (\<lambda>x. gap_key x = (org, gc_topic c)) (counted_gap (le_float e) (le_now e) c) (fb_gaps d))\<rparr>)
     \<or> (\<exists>row. find (\<lambda>r. gap_key r = (org, gc_topic c)) (fb_gaps d) = None \<and> i = le_row_id e (length (fb_gaps d))
        \<and> gp_id row = i \<and> gap_key row = (org, gc_topic c) \<and> gp_occurrences row = gc_occurrences c
        \<and> d' = d\<lparr>fb_gaps := upd_where (\<lambda>r. gp_id r = i) ?doc (fb_gaps d @ [row])\<rparr>)"
    by (rule persist_gap_row [OF p]) (rule that)
  note t = candidate_topic [OF c]
  from cases show ?thesis
  proof (elim disjE exE conjE)
    fix r assume f: "find (\<lambda>r. gap_key r = (org, gc_topic c)) (fb_gaps d) = Some r" and i: "i = gp_id r"
      and d': "d' = d\<lparr>fb_gaps := upd_where (\<lambda>r. gp_id r = i) ?doc
                 (upd_where (\<lambda>x. gap_key x = (org, gc_topic c)) (counted_gap (le_float e) (le_now e) c) (fb_gaps d))\<rparr>"
    have r: "r \<in> set (fb_gaps d)" "gap_key r = (org, gc_topic c)" using find_Some_in [OF f] by auto
    let ?C = "counted_gap (le_float e) (le_now e) c"
    have key: "gap_key x = (org, gc_topic c) \<longleftrightarrow> x = r" and ident: "gp_id x = i \<longleftrightarrow> x = r" if "x \<in> set (fb_gaps d)" for x
      using row_of_key [OF inv r(1) that] row_of_id [OF inv r(1) that] r(2) i by simp_all
    have "fb_gaps d' = map ((\<lambda>x. if gp_id x = i then ?doc x else x) \<circ> (\<lambda>x. if gap_key x = (org, gc_topic c) then ?C x else x)) (fb_gaps d)"
      by (simp add: d' upd_where_def)
    also have "\<dots> = upd_where (\<lambda>x. x = r) (\<lambda>x. ?doc (?C x)) (fb_gaps d)"
      unfolding upd_where_def
    proof (rule map_cong [OF refl])
      fix x assume x: "x \<in> set (fb_gaps d)"
      show "((\<lambda>x. if gp_id x = i then ?doc x else x) \<circ> (\<lambda>x. if gap_key x = (org, gc_topic c) then ?C x else x)) x
          = (if x = r then ?doc (?C x) else x)"
        using key [OF x] ident [OF x] by (cases "x = r") simp_all
    qed
    finally have "fb_gaps d' = upd_where (\<lambda>x. x = r) (\<lambda>x. ?doc (?C x)) (fb_gaps d)" .
    note g' = this
    have keys: "map gap_key (fb_gaps d') = map gap_key (fb_gaps d)" "map gp_id (fb_gaps d') = map gp_id (fb_gaps d)"
      unfolding g' by (rule map_key_upd_where; simp)+
    have ids: "gp_id ` set (fb_gaps d') = gp_id ` set (fb_gaps d)" "length (fb_gaps d') = length (fb_gaps d)"
      using arg_cong [OF keys(2), of set] arg_cong [OF keys(2), of length] by simp_all
    have "gap_inv e d'" using inv unfolding gap_inv_def keys ids by simp
    moreover have "recorded org g (?doc (counted_gap (le_float e) (le_now e) c r))" using r(2) t by (simp add: recorded_def)
    moreover have "?doc (counted_gap (le_float e) (le_now e) c r) \<in> set (fb_gaps d')" unfolding g' set_upd_where using r(1) by blast
    moreover have "\<forall>x. gap_key x \<noteq> (org, gap_topic g) \<longrightarrow> x \<in> set (fb_gaps d') \<longleftrightarrow> x \<in> set (fb_gaps d)"
      unfolding g' set_upd_where using r t by auto
    ultimately show ?thesis by blast
  next
    fix row assume f: "find (\<lambda>r. gap_key r = (org, gc_topic c)) (fb_gaps d) = None" and i: "i = le_row_id e (length (fb_gaps d))"
      and row: "gp_id row = i" "gap_key row = (org, gc_topic c)" "gp_occurrences row = gc_occurrences c"
      and d': "d' = d\<lparr>fb_gaps := upd_where (\<lambda>r. gp_id r = i) ?doc (fb_gaps d @ [row])\<rparr>"
    have new: "i \<notin> gp_id ` set (fb_gaps d)" using gap_invD(4) [OF inv, of "length (fb_gaps d)"] i by simp
    then have "\<forall>x \<in> set (fb_gaps d). gp_id x \<noteq> i" by (auto simp: image_iff)
    then have "upd_where (\<lambda>r. gp_id r = i) ?doc (fb_gaps d) = fb_gaps d" by (rule upd_where_none)
    then have g': "fb_gaps d' = fb_gaps d @ [?doc row]" unfolding d' using row(1) by (simp add: upd_where_def)
    have nokey: "(org, gc_topic c) \<notin> gap_key ` set (fb_gaps d)" using f by (auto simp: find_None_iff)
    have "gap_inv e d'" unfolding gap_inv_def g'
    proof (intro conjI allI impI)
      show "distinct (map gap_key (fb_gaps d @ [?doc row]))" using gap_invD(1) [OF inv] nokey row(2) by auto
      show "distinct (map gp_id (fb_gaps d @ [?doc row]))" using gap_invD(2) [OF inv] new row(1) by auto
      show "inj (le_row_id e)" using inv by (rule gap_invD(3))
      fix n assume "length (fb_gaps d @ [?doc row]) \<le> n"
      then have "le_row_id e n \<notin> gp_id ` set (fb_gaps d)" "n \<noteq> length (fb_gaps d)" using gap_invD(4) [OF inv, of n] by auto
      then show "le_row_id e n \<notin> gp_id ` set (fb_gaps d @ [?doc row])"
        using row(1) i gap_invD(3) [OF inv] by (auto dest: injD)
    qed
    moreover have "recorded org g (?doc row)" using row t by (simp add: recorded_def)
    moreover have "\<forall>x. gap_key x \<noteq> (org, gap_topic g) \<longrightarrow> x \<in> set (fb_gaps d') \<longleftrightarrow> x \<in> set (fb_gaps d)"
      unfolding g' using row(2) t by auto
    ultimately show ?thesis unfolding g' by auto
  qed
qed

lemma persist_each_effect:
  assumes "gap_inv e d" and "persist_each e org gs d = (Inr (), d')"
  shows "gap_inv e d' \<and> (\<forall>r. (\<forall>g \<in> set gs. gap_key r \<noteq> (org, gap_topic g)) \<longrightarrow> r \<in> set (fb_gaps d') \<longleftrightarrow> r \<in> set (fb_gaps d))
    \<and> (distinct (map gap_topic gs) \<longrightarrow> (\<forall>g \<in> set gs. \<exists>r \<in> set (fb_gaps d'). recorded org g r))"
  using assms
proof (induction gs arbitrary: d)
  case Nil
  then show ?case by simp
next
  case (Cons g gs)
  obtain i d1 where p: "persist_gap e org g d = (Inr i, d1)" and rest: "persist_each e org gs d1 = (Inr (), d')"
    using Cons.prems(2) by (auto split: prod.splits sum.splits)
  note eff = persist_gap_effect [OF Cons.prems(1) p]
  note ih = Cons.IH [OF eff [THEN conjunct1] rest]
  have "\<exists>r \<in> set (fb_gaps d'). recorded org g r" if "distinct (map gap_topic (g # gs))"
  proof -
    obtain r where r: "r \<in> set (fb_gaps d1)" "recorded org g r" using eff by blast
    have "\<forall>h \<in> set gs. gap_key r \<noteq> (org, gap_topic h)" using that r(2) by (auto simp: recorded_def)
    then show ?thesis using ih r by blast
  qed
  then show ?case using eff ih by auto
qed

text \<open>
  C30. When the gap repository works, the loop of a named organization that is delivered leaves the gaps of other
  organizations and of other topics as they were, with no two rows for one topic, and, unless one of the topics
  is empty, a row for every gap it enqueued, under its organization and topic, for documentation and with its count.
\<close>

theorem gaps_recorded:
  assumes inv: "gap_inv e d" and "le_gaps e = Working" and "org \<noteq> []"
    and run: "run_questions e threshold questions (Some org) d = (Inr st, d')" and "lp_status st = Run_Delivered"
  shows "gap_inv e d'
    \<and> (\<forall>r. (\<forall>g \<in> set (lp_gaps st). gap_key r \<noteq> (org, gap_topic g)) \<longrightarrow> r \<in> set (fb_gaps d') \<longleftrightarrow> r \<in> set (fb_gaps d))
    \<and> ([] \<notin> eq_topic ` set (lp_gaps st) \<longrightarrow> (\<forall>g \<in> set (lp_gaps st). \<exists>r \<in> set (fb_gaps d'). recorded org g r))"
proof (intro conjI impI)
  obtain gaps where g: "feedback_graph (le_render e) threshold questions = Inr gaps"
    and p: "persist_each e org gaps d = (Inr (), d')" and st: "lp_gaps st = gaps"
    using assms by (auto simp: run_questions_def persist_gaps_def loop_end_def split: sum.splits prod.splits)
  note eff = persist_each_effect [OF inv p]
  show "gap_inv e d'" using eff by blast
  show "\<forall>r. (\<forall>g \<in> set (lp_gaps st). gap_key r \<noteq> (org, gap_topic g)) \<longrightarrow> r \<in> set (fb_gaps d') \<longleftrightarrow> r \<in> set (fb_gaps d)"
    unfolding st using eff by blast
  show "\<forall>g \<in> set (lp_gaps st). \<exists>r \<in> set (fb_gaps d'). recorded org g r" if ne: "[] \<notin> eq_topic ` set (lp_gaps st)"
  proof -
    obtain qs where qs: "dicts_or_raise questions = Inr qs" using g by (cases "dicts_or_raise questions") (simp_all add: feedback_graph_def)
    have "feedback_graph (le_render e) threshold questions = feedback_graph (le_render e) threshold (map JObj qs)"
      by (simp add: feedback_graph_def qs dicts_of_map)
    then have "distinct (map eq_topic gaps)" using graph_topics [of "le_render e" threshold qs] g by simp
    moreover have "\<forall>x \<in> set gaps. eq_topic x \<noteq> []" using ne st by (metis image_eqI)
    then have "map gap_topic gaps = map eq_topic gaps" by (simp add: gap_topic_def)
    ultimately have "distinct (map gap_topic gaps)" by (simp only:)
    then show ?thesis using eff unfolding st by blast
  qed
qed

definition plain_loop :: loop_env where
  "plain_loop =
     \<lparr>le_now = 9, le_row_id = (\<lambda>n. CHR ''g'' # show_nat n), le_render = (\<lambda>_. ''?''), le_float = (\<lambda>_. ''0.0''),
      le_service = Working, le_signals = Working, le_support = Working, le_gaps = Working, le_enumerates = True\<rparr>"

text \<open>The sample: three messages that say the same.\<close>

definition thrice :: feedback_db where
  "thrice =
     (no_feedback [''o1''])\<lparr>fb_messages :=
        [sample_message ''1.0'' ''o1'' ''How do I rotate keys'' 1, sample_message ''2.0'' ''o1'' ''how do I rotate  keys'' 2,
         sample_message ''3.0'' ''o1'' ''How do I rotate keys'' 3]\<rparr>"

theorem repeated_question_lost_witness:
  "run_feedback_loop plain_loop 2 None (Some ''o1'') thrice = (Inr (loop_end Run_Delivered [] []), thrice)
   \<and> map eq_count (case fst (run_feedback_loop (plain_loop\<lparr>le_service := Absent\<rparr>) 2 None (Some ''o1'') thrice) of
                      Inr st \<Rightarrow> lp_gaps st | Inl _ \<Rightarrow> []) = [3]"
proof
  have n: "normalize ''how do I rotate  keys'' = normalize ''How do I rotate keys''" by code_simp
  show "run_feedback_loop plain_loop 2 None (Some ''o1'') thrice = (Inr (loop_end Run_Delivered [] []), thrice)"
    by (rule repeated_question_lost [where s = "normalize ''How do I rotate keys''"])
      (auto simp: plain_loop_def thrice_def no_feedback_def sample_message_def n)
  show "map eq_count (case fst (run_feedback_loop (plain_loop\<lparr>le_service := Absent\<rparr>) 2 None (Some ''o1'') thrice) of
                      Inr st \<Rightarrow> lp_gaps st | Inl _ \<Rightarrow> []) = [3]"
    by code_simp
qed

section \<open>Signals reach the loop\<close>

lemma list_signals_all:
  "r \<in> set (fb_signals d) \<Longrightarrow> stored_item r \<in> set (list_signals (sg_org_id r) None (length (fb_signals d)) d)"
proof -
  assume r: "r \<in> set (fb_signals d)"
  let ?own = "filter (\<lambda>x. sg_org_id x = sg_org_id r \<and> on_platform None (sg_platform x)) (fb_signals d)"
  have "length (sort_key recency ?own) \<le> length (fb_signals d)" by simp
  moreover have "r \<in> set (sort_key recency ?own)" using r by (simp add: on_platform_def)
  ultimately show ?thesis by (simp add: list_signals_def)
qed

lemma upd_keyed_same:
  "distinct (map key t) \<Longrightarrow> r \<in> set t \<Longrightarrow> f r = r \<Longrightarrow> upd_where (\<lambda>x. key x = key r) f t = t"
  unfolding upd_where_def by (rule map_idI) (auto simp: distinct_map dest: inj_onD)

lemma item_event: "feedback_item_of render event = Inr it \<Longrightarrow> \<exists>ev. fi_source_event_id it = Some ev \<and> ev \<noteq> []"
  by (auto simp: feedback_item_of_def and_then_def Let_def split: sum.splits if_splits)

lemma saved_signal:
  assumes u: "signals_unique d" and save: "save_signal new_id now it d = (Inr x, d')"
    and ev: "fi_source_event_id it = Some ev" "ev \<noteq> []"
  shows "\<exists>org r. fi_org_id it = Some org \<and> org \<noteq> [] \<and> org \<in> set (fb_orgs d') \<and> r \<in> set (fb_signals d')
    \<and> signal_key r = (org, fi_platform it, ev) \<and> sg_item r = it \<and> sg_updated_at r = now \<and> signals_unique d'"
proof -
  obtain org where org: "fi_org_id it = Some org" "org \<in> set (fb_orgs d)" "org \<noteq> []" and
    c: "(\<exists>r. find (\<lambda>r. signal_key r = (org, fi_platform it, ev)) (fb_signals d) = Some r
       \<and> d' = d\<lparr>fb_signals := upd_where (\<lambda>x. signal_key x = (org, fi_platform it, ev))
                   (\<lambda>x. x\<lparr>sg_item := it, sg_updated_at := now\<rparr>) (fb_signals d)\<rparr>)
     \<or> (find (\<lambda>r. signal_key r = (org, fi_platform it, ev)) (fb_signals d) = None
       \<and> d' = d\<lparr>fb_signals := fb_signals d @ [\<lparr>sg_id = new_id, sg_org_id = org, sg_platform = fi_platform it, sg_event_id = ev,
                               sg_item = it, sg_created_at = now, sg_updated_at = now\<rparr>]\<rparr>)"
    by (rule save_signal_cases [OF save]) (use ev that in \<open>auto simp: first_set_def\<close>)
  from c show ?thesis
  proof (elim disjE exE conjE)
    fix r assume f: "find (\<lambda>r. signal_key r = (org, fi_platform it, ev)) (fb_signals d) = Some r"
      and d': "d' = d\<lparr>fb_signals := upd_where (\<lambda>x. signal_key x = (org, fi_platform it, ev))
                   (\<lambda>x. x\<lparr>sg_item := it, sg_updated_at := now\<rparr>) (fb_signals d)\<rparr>"
    have "r\<lparr>sg_item := it, sg_updated_at := now\<rparr> \<in> set (fb_signals d')"
      unfolding d' using find_Some_in [OF f] by (auto simp: set_upd_where)
    moreover have "signals_unique d'" using u unfolding signals_unique_def d'
      by (simp add: map_key_upd_where signal_key_def)
    moreover have "signal_key (r\<lparr>sg_item := it, sg_updated_at := now\<rparr>) = (org, fi_platform it, ev)"
      using find_Some_in [OF f] by (simp add: signal_key_def)
    ultimately show ?thesis using org by (intro exI [of _ org] exI [of _ "r\<lparr>sg_item := it, sg_updated_at := now\<rparr>"]) (simp add: d')
  next
    assume f: "find (\<lambda>r. signal_key r = (org, fi_platform it, ev)) (fb_signals d) = None"
      and d': "d' = d\<lparr>fb_signals := fb_signals d @ [\<lparr>sg_id = new_id, sg_org_id = org, sg_platform = fi_platform it,
                sg_event_id = ev, sg_item = it, sg_created_at = now, sg_updated_at = now\<rparr>]\<rparr>"
    have "(org, fi_platform it, ev) \<notin> signal_key ` set (fb_signals d)" using f by (auto simp: find_None_iff)
    then have "signals_unique d'" using u by (simp add: signals_unique_def d' signal_key_def)
    then show ?thesis using org
      by (intro exI [of _ org] exI [of _ "\<lparr>sg_id = new_id, sg_org_id = org, sg_platform = fi_platform it,
                sg_event_id = ev, sg_item = it, sg_created_at = now, sg_updated_at = now\<rparr>"]) (simp add: d' signal_key_def)
  qed
qed

lemma resaved_signal:
  assumes u: "signals_unique d" and org: "fi_org_id it = Some org" "org \<noteq> []" "org \<in> set (fb_orgs d)"
    and r: "r \<in> set (fb_signals d)" "signal_key r = (org, fi_platform it, ev)" "sg_item r = it" "sg_updated_at r = now"
    and ev: "fi_source_event_id it = Some ev" "ev \<noteq> []"
  shows "\<exists>y. save_signal new_id now it d = (Inr y, d)"
proof -
  let ?k = "(org, fi_platform it, ev)"
  have d: "distinct (map signal_key (fb_signals d))" using u by (simp add: signals_unique_def)
  have "find (\<lambda>x. signal_key x = ?k) (fb_signals d) = Some r" by (rule find_distinct_key [OF d r(1,2)])
  moreover have "upd_where (\<lambda>x. signal_key x = ?k) (\<lambda>x. x\<lparr>sg_item := it, sg_updated_at := now\<rparr>) (fb_signals d) = fb_signals d"
    using upd_keyed_same [OF d r(1), of "\<lambda>x. x\<lparr>sg_item := it, sg_updated_at := now\<rparr>"] r(2-4) by (cases r) auto
  ultimately show ?thesis using org ev by (simp add: save_signal_def first_set_def Let_def)
qed

text \<open>
  A GitHub signal that is delivered can be collected by its organization from then on, under its event id and
  with its text; signals keep one row for each event, and delivering the event again changes nothing.
\<close>

theorem signal_ingested:
  assumes u: "signals_unique d" and run: "ingest_github_feedback e event run_id d = (st, d')" and "in_status st = Run_Delivered"
  shows "(\<exists>it org. in_item st = Some it \<and> fi_org_id it = Some org
      \<and> (\<exists>x \<in> set (list_signals org None (length (fb_signals d')) d').
           fi_content x = fi_content it \<and> fi_source_event_id x = fi_source_event_id it \<and> fi_platform x = fi_platform it))
    \<and> signals_unique d' \<and> ingest_github_feedback e event run_id' d' = (st, d')"
proof (intro conjI)
  obtain it x where it: "feedback_item_of (le_render e) event = Inr it"
    and save: "save_signal (le_row_id e (length (fb_signals d))) (le_now e) it d = (Inr x, d')"
    and parts: "le_signals e = Working" and st: "in_item st = Some it"
      "st = \<lparr>in_run_id = str_or (le_render e) (jget event ''event_id'') ''github-feedback'', in_status = Run_Delivered,
             in_errors = [], in_item = Some it\<rparr>"
    using run assms(3)
    by (cases "le_signals e") (auto simp: ingest_github_feedback_def Let_def split: sum.splits prod.splits if_splits)
  obtain ev where ev: "fi_source_event_id it = Some ev" "ev \<noteq> []" using item_event [OF it] by blast
  from saved_signal [OF u save ev] obtain org r where r: "fi_org_id it = Some org" "org \<noteq> []" "org \<in> set (fb_orgs d')"
    "r \<in> set (fb_signals d')" "signal_key r = (org, fi_platform it, ev)" "sg_item r = it" "sg_updated_at r = le_now e"
    and u': "signals_unique d'" by blast
  have "stored_item r \<in> set (list_signals org None (length (fb_signals d')) d')"
    using list_signals_all [OF r(4)] r(5) by (simp add: signal_key_def)
  moreover have "fi_content (stored_item r) = fi_content it" "fi_source_event_id (stored_item r) = fi_source_event_id it"
    "fi_platform (stored_item r) = fi_platform it"
    using r(5,6) ev by (simp_all add: stored_item_def signal_key_def)
  ultimately show "\<exists>it org. in_item st = Some it \<and> fi_org_id it = Some org
      \<and> (\<exists>x \<in> set (list_signals org None (length (fb_signals d')) d').
           fi_content x = fi_content it \<and> fi_source_event_id x = fi_source_event_id it \<and> fi_platform x = fi_platform it)"
    using st(1) r(1) by blast
  show "signals_unique d'" by (rule u')
  have "\<exists>y. save_signal (le_row_id e (length (fb_signals d'))) (le_now e) it d' = (Inr y, d')"
    using resaved_signal [OF u' r(1-7) ev] by blast
  then show "ingest_github_feedback e event run_id' d' = (st, d')"
    using it parts st(2) by (auto simp: ingest_github_feedback_def Let_def)
qed

text \<open>Two sample events of an issue.\<close>

definition issue_event :: jobj where
  "issue_event =
     [(''event_id'', JStr ''e1''), (''project_id'', JStr ''o1''),
      (''issue'', JObj [(''title'', JStr ''Keys''), (''body'', JStr ''How do I rotate keys'')])]"

theorem signal_ingested_witness:
  "let (st, d') = ingest_github_feedback plain_loop issue_event None (no_feedback [''o1'']) in
     in_status st = Run_Delivered \<and> ingest_github_feedback plain_loop issue_event None d' = (st, d')"
proof -
  obtain st d' where run: "ingest_github_feedback plain_loop issue_event None (no_feedback [''o1'']) = (st, d')" by force
  have "in_status (fst (ingest_github_feedback plain_loop issue_event None (no_feedback [''o1'']))) = Run_Delivered" by code_simp
  then have "in_status st = Run_Delivered" using run by simp
  moreover have "signals_unique (no_feedback [''o1''])" by (simp add: signals_unique_def no_feedback_def)
  ultimately show ?thesis using signal_ingested [OF _ run] run by simp
qed

text \<open>The sample: the question asked three times, whose gap is recorded with its count.\<close>

theorem gaps_recorded_witness:
  "\<exists>st d' g. run_questions plain_loop 2 (map (question_of_message ''o1'') (fb_messages thrice)) (Some ''o1'') (no_feedback [''o1''])
       = (Inr st, d')
     \<and> g \<in> set (lp_gaps st) \<and> eq_count g = 3 \<and> (\<exists>r \<in> set (fb_gaps d'). recorded ''o1'' g r)"
proof -
  let ?d = "no_feedback [''o1'']" and ?qs = "map (question_of_message ''o1'') (fb_messages thrice)"
  define out where "out = run_questions plain_loop 2 ?qs (Some ''o1'') ?d"
  have "(case fst out of Inr st \<Rightarrow> lp_status st = Run_Delivered \<and> map eq_count (lp_gaps st) = [3] \<and> [] \<notin> set (map eq_topic (lp_gaps st))
      | Inl _ \<Rightarrow> False)"
    unfolding out_def by code_simp
  then obtain st d' where st: "out = (Inr st, d')" "lp_status st = Run_Delivered" "map eq_count (lp_gaps st) = [3]"
      "[] \<notin> eq_topic ` set (lp_gaps st)"
    by (cases out) (auto split: sum.splits)
  from st(3) obtain g where g: "lp_gaps st = [g]" "eq_count g = 3" by auto
  have "inj (\<lambda>n. CHR ''g'' # show_nat n)" by (simp add: inj_def)
  then have "gap_inv plain_loop ?d" by (simp add: gap_inv_def plain_loop_def no_feedback_def)
  from gaps_recorded [OF this _ _ st(1) [unfolded out_def] st(2)] st(4) g(1)
  have "\<exists>r \<in> set (fb_gaps d'). recorded ''o1'' g r" by (simp add: plain_loop_def)
  with st(1) g show ?thesis unfolding out_def by auto
qed

end
