(* ===== verification/Content_Store.thy ===== *)
theory Content_Store
  imports Feedback_Store
begin

text \<open>
  Content packages: the request and package models of \<^verbatim>\<open>content/models.py\<close>, the repository
  \<^verbatim>\<open>persistence/repositories/content.py\<close> on the tables of its migration, the service of \<^verbatim>\<open>content/service.py\<close>
  and the evaluator \<^verbatim>\<open>evaluation/evaluators/content_quality.py\<close>. JSON columns are written and read back as the
  values they hold. Generated ids are texts of UUIDs and arguments, the clock too; a text from outside is sent as
  a UUID when the driver takes it for one (\<open>is_uuid\<close>) and refused otherwise. A UUID column that is selected
  without a cast comes back as a UUID object, which no text field of a model accepts. The message of a
  validation error is the name of the field or of the rule.
\<close>

section \<open>Models\<close>

datatype channel = Blog | LinkedIn | X_Post

definition channel_text :: "channel \<Rightarrow> string" where
  "channel_text c = (case c of Blog \<Rightarrow> ''blog'' | LinkedIn \<Rightarrow> ''linkedin'' | X_Post \<Rightarrow> ''x'')"

definition channel_of :: "string \<Rightarrow> channel res" where
  "channel_of s =
     (if s = ''blog'' then Inr Blog else if s = ''linkedin'' then Inr LinkedIn else if s = ''x'' then Inr X_Post
      else Inl (ValueError (quoted s @ '' is not a valid ContentChannel'')))"

datatype package_status = Draft_Package | In_Review | Approved_Package | Rejected_Package

definition package_status_text :: "package_status \<Rightarrow> string" where
  "package_status_text s =
     (case s of Draft_Package \<Rightarrow> ''draft'' | In_Review \<Rightarrow> ''in_review'' | Approved_Package \<Rightarrow> ''approved''
      | Rejected_Package \<Rightarrow> ''rejected'')"

record content_request =
  cq_org_id :: string
  cq_repository_id :: string
  cq_source_event_id :: string
  cq_source_event_type :: string
  cq_source_title :: string
  cq_source_summary :: string
  cq_source_feedback_ids :: "string list"
  cq_source_gap_id :: "string option"
  cq_source_evidence :: "jobj list"
  cq_requested_channels :: "channel list"
  cq_audience :: string
  cq_tone :: string

definition SOURCE_TYPES :: "string list" where
  "SOURCE_TYPES = [''pull_request'', ''release'', ''documentation'', ''manual_brief'', ''feedback_gap'']"

definition ValidationError :: "string \<Rightarrow> exn" where
  "ValidationError m = Exn ''ValidationError'' m"

definition validated :: "content_request \<Rightarrow> content_request res" where
  "validated q =
     (if [] \<in> {cq_org_id q, cq_repository_id q, cq_source_event_id q, cq_source_title q, cq_source_summary q, cq_audience q,
              cq_tone q} then Inl (ValidationError ''string_too_short'')
      else if cq_source_event_type q \<notin> set SOURCE_TYPES then Inl (ValidationError ''source_event_type'')
      else if cq_requested_channels q = [] then Inl (ValidationError ''requested_channels'')
      else if \<not> distinct (cq_requested_channels q)
        then Inl (ValidationError ''requested_channels must not contain duplicates'')
      else if cq_source_event_type q = ''feedback_gap'' \<and> cq_source_gap_id q \<in> {None, Some []}
        then Inl (ValidationError ''feedback_gap source requires source_gap_id'')
      else if cq_source_event_type q = ''feedback_gap'' \<and> cq_source_feedback_ids q = []
        then Inl (ValidationError ''feedback_gap source requires source_feedback_ids'')
      else Inr q)"

record content_revision =
  cr_id :: string
  cr_package_id :: string
  cr_number :: int
  cr_reason :: string
  cr_reviewer_comment :: "string option"
  cr_created_by_run_id :: string

record content_variant =
  cv_id :: string
  cv_package_id :: string
  cv_channel :: channel
  cv_title :: string
  cv_body :: string
  cv_status :: package_status
  cv_evidence :: "json list"
  cv_evaluation :: jobj
  cv_revision_id :: "string option"

record content_package =
  pk_id :: string
  pk_org_id :: string
  pk_repository_id :: string
  pk_source_event_id :: string
  pk_source_event_type :: string
  pk_status :: package_status
  pk_brief :: string
  pk_source_evidence :: "jobj list"
  pk_source_feedback_ids :: "string list"
  pk_source_gap_id :: "string option"
  pk_workflow_run_id :: string
  pk_created_at :: int
  pk_updated_at :: int
  pk_variants :: "content_variant list"
  pk_revisions :: "content_revision list"

record content_review_event =
  ce_package_id :: string
  ce_revision_id :: "string option"
  ce_decision :: string
  ce_comment :: "string option"
  ce_reviewer_id :: string

record content_db =
  cd_orgs :: "string list"
  cd_packages :: "content_package list"
  cd_variants :: "content_variant list"
  cd_revisions :: "content_revision list"
  cd_reviews :: "content_review_event list"

definition package_ids :: "content_db \<Rightarrow> string set" where
  "package_ids d = pk_id ` set (cd_packages d)"

section \<open>The repository\<close>

definition hydrate :: "content_db \<Rightarrow> content_package \<Rightarrow> content_package" where
  "hydrate d p =
     p\<lparr>pk_variants := sort_key (\<lambda>v. channel_text (cv_channel v)) (filter (\<lambda>v. cv_package_id v = pk_id p) (cd_variants d)),
       pk_revisions := sort_key cr_number (filter (\<lambda>r. cr_package_id r = pk_id p) (cd_revisions d))\<rparr>"

definition package_source :: "content_package \<Rightarrow> string \<times> string \<times> string \<times> string" where
  "package_source p = (pk_org_id p, pk_repository_id p, pk_source_event_type p, pk_source_event_id p)"

definition DataError :: "string \<Rightarrow> exn" where
  "DataError i = Exn ''DataError'' (''invalid UUID '' @ quoted i)"

text \<open>
  A row as a package: its \<open>source_gap_id\<close> column is a UUID that no query casts to text, so a row that has one is
  refused by the model. A failed read leaves what the statement wrote.
\<close>

definition row_to_package :: "content_package \<Rightarrow> content_package res" where
  "row_to_package p = (if pk_source_gap_id p = None then Inr p else Inl (ValidationError ''source_gap_id''))"

definition read_package :: "content_db \<Rightarrow> content_package \<Rightarrow> content_package res" where
  "read_package d p = map_sum id (hydrate d) (row_to_package p)"

lemma read_package_Inr: "read_package d p = Inr q \<longleftrightarrow> pk_source_gap_id p = None \<and> q = hydrate d p"
  by (auto simp: read_package_def row_to_package_def)

fun read_packages :: "content_db \<Rightarrow> content_package list \<Rightarrow> content_package list res" where
  "read_packages d [] = Inr []"
| "read_packages d (p # ps) =
     (case read_package d p of Inl e \<Rightarrow> Inl e | Inr q \<Rightarrow> map_sum id (\<lambda>qs. q # qs) (read_packages d ps))"

definition read_found :: "content_db \<Rightarrow> content_package option \<Rightarrow> content_package option res" where
  "read_found d found = (case found of None \<Rightarrow> Inr None | Some p \<Rightarrow> map_sum id Some (read_package d p))"

lemma read_found_Inr: "read_found d found = Inr (Some q) \<longleftrightarrow> (\<exists>p. found = Some p \<and> pk_source_gap_id p = None \<and> q = hydrate d p)"
  by (cases found) (auto simp: read_found_def read_package_def row_to_package_def)

definition create_or_get ::
  "(string \<Rightarrow> bool) \<Rightarrow> int \<Rightarrow> content_package \<Rightarrow> content_db \<Rightarrow> content_package res \<times> content_db" where
  "create_or_get is_uuid now p d =
     (if (case pk_source_gap_id p of None \<Rightarrow> False | Some g \<Rightarrow> \<not> is_uuid g) then (Inl (DataError (the (pk_source_gap_id p))), d)
      else if pk_org_id p \<notin> set (cd_orgs d) then (Inl (ForeignKeyViolation ''content_packages_org_id_fkey''), d)
      else case find (\<lambda>r. package_source r = package_source p) (cd_packages d) of
        Some r \<Rightarrow>
          let d1 = d\<lparr>cd_packages := upd_where (\<lambda>x. package_source x = package_source p) (\<lambda>x. x\<lparr>pk_updated_at := now\<rparr>) (cd_packages d)\<rparr>
          in (read_package d1 (r\<lparr>pk_updated_at := now\<rparr>), d1)
      | None \<Rightarrow>
          if pk_id p \<in> package_ids d then (Inl (UniqueViolation ''content_packages_pkey''), d)
          else let row = p\<lparr>pk_created_at := now, pk_updated_at := now, pk_variants := [], pk_revisions := []\<rparr>;
                   d1 = d\<lparr>cd_packages := cd_packages d @ [row]\<rparr>
               in (read_package d1 row, d1))"

definition get_package :: "(string \<Rightarrow> bool) \<Rightarrow> string \<Rightarrow> string \<Rightarrow> content_db \<Rightarrow> content_package option res" where
  "get_package is_uuid org i d =
     (if \<not> is_uuid i then Inl (DataError i)
      else read_found d (find (\<lambda>p. pk_org_id p = org \<and> pk_id p = i) (cd_packages d)))"

definition get_by_source :: "string \<Rightarrow> string \<Rightarrow> string \<Rightarrow> string \<Rightarrow> content_db \<Rightarrow> content_package option res" where
  "get_by_source org repository event_type event_id d =
     read_found d (find (\<lambda>p. package_source p = (org, repository, event_type, event_id)) (cd_packages d))"

definition list_packages :: "string \<Rightarrow> string option \<Rightarrow> content_db \<Rightarrow> content_package list res" where
  "list_packages org st d =
     read_packages d (sort_key (\<lambda>p. - pk_created_at p)
       (filter (\<lambda>p. pk_org_id p = org \<and> (st \<in> {None, Some []} \<or> st = Some (package_status_text (pk_status p)))) (cd_packages d)))"

definition update_package_status :: "int \<Rightarrow> string \<Rightarrow> string \<Rightarrow> package_status \<Rightarrow> content_db \<Rightarrow> content_db" where
  "update_package_status now org i st d =
     d\<lparr>cd_packages := upd_where (\<lambda>p. pk_org_id p = org \<and> pk_id p = i) (\<lambda>p. p\<lparr>pk_status := st, pk_updated_at := now\<rparr>) (cd_packages d)\<rparr>"

text \<open>A channel has one variant in a revision; variants without a revision do not conflict.\<close>

definition save_variant :: "string \<Rightarrow> content_variant \<Rightarrow> content_db \<Rightarrow> unit res \<times> content_db" where
  "save_variant package_id v d =
     (let taken = (\<lambda>x. cv_id x \<noteq> cv_id v \<and> cv_revision_id v \<noteq> None \<and> cv_package_id x = package_id
                      \<and> cv_channel x = cv_channel v \<and> cv_revision_id x = cv_revision_id v) in
      if package_id \<notin> package_ids d then (Inl (ForeignKeyViolation ''content_variants_package_id_fkey''), d)
      else if list_ex taken (cd_variants d) then (Inl (UniqueViolation ''content_variants_package_id_channel_revision_id_key''), d)
      else if list_ex (\<lambda>x. cv_id x = cv_id v) (cd_variants d)
      then (Inr (), d\<lparr>cd_variants := upd_where (\<lambda>x. cv_id x = cv_id v)
             (\<lambda>x. x\<lparr>cv_title := cv_title v, cv_body := cv_body v, cv_status := cv_status v, cv_evidence := cv_evidence v,
                   cv_evaluation := cv_evaluation v, cv_revision_id := cv_revision_id v\<rparr>) (cd_variants d)\<rparr>)
      else (Inr (), d\<lparr>cd_variants := cd_variants d @ [v\<lparr>cv_package_id := package_id\<rparr>]\<rparr>))"

definition save_revision :: "string \<Rightarrow> content_revision \<Rightarrow> content_db \<Rightarrow> unit res \<times> content_db" where
  "save_revision package_id r d =
     (if package_id \<notin> package_ids d then (Inl (ForeignKeyViolation ''content_revisions_package_id_fkey''), d)
      else if list_ex (\<lambda>x. cr_package_id x = package_id \<and> cr_number x = cr_number r) (cd_revisions d) then (Inr (), d)
      else if list_ex (\<lambda>x. cr_id x = cr_id r) (cd_revisions d) then (Inl (UniqueViolation ''content_revisions_pkey''), d)
      else (Inr (), d\<lparr>cd_revisions := cd_revisions d @ [r\<lparr>cr_package_id := package_id\<rparr>]\<rparr>))"

definition append_review_event :: "content_review_event \<Rightarrow> content_db \<Rightarrow> unit res \<times> content_db" where
  "append_review_event x d =
     (if ce_package_id x \<notin> package_ids d then (Inl (ForeignKeyViolation ''content_review_events_package_id_fkey''), d)
      else if ce_decision x \<notin> {''approve'', ''request_changes'', ''reject''}
      then (Inl (Exn ''CheckViolationError'' ''content_review_events_decision_check''), d)
      else (Inr (), d\<lparr>cd_reviews := cd_reviews d @ [x]\<rparr>))"

section \<open>The service\<close>

definition package_of :: "string \<Rightarrow> int \<Rightarrow> string \<Rightarrow> content_request \<Rightarrow> content_package" where
  "package_of new_id now run_id q =
     \<lparr>pk_id = new_id, pk_org_id = cq_org_id q, pk_repository_id = cq_repository_id q,
      pk_source_event_id = cq_source_event_id q, pk_source_event_type = cq_source_event_type q, pk_status = Draft_Package,
      pk_brief = cq_source_summary q, pk_source_evidence = cq_source_evidence q,
      pk_source_feedback_ids = cq_source_feedback_ids q, pk_source_gap_id = cq_source_gap_id q, pk_workflow_run_id = run_id,
      pk_created_at = now, pk_updated_at = now, pk_variants = [], pk_revisions = []\<rparr>"

definition create_package ::
  "(string \<Rightarrow> bool) \<Rightarrow> string \<Rightarrow> int \<Rightarrow> string \<Rightarrow> content_request \<Rightarrow> content_db \<Rightarrow> content_package res \<times> content_db" where
  "create_package is_uuid new_id now run_id q d = create_or_get is_uuid now (package_of new_id now run_id q) d"

text \<open>The revision is returned as built, whether or not the insert found its number taken.\<close>

definition create_content_revision ::
  "string \<Rightarrow> string \<Rightarrow> int \<Rightarrow> string \<Rightarrow> string \<Rightarrow> string option \<Rightarrow> content_db \<Rightarrow> content_revision res \<times> content_db" where
  "create_content_revision new_id package_id number reason run_id comment d =
     (let r = \<lparr>cr_id = new_id, cr_package_id = package_id, cr_number = number, cr_reason = reason,
               cr_reviewer_comment = comment, cr_created_by_run_id = run_id\<rparr> in
      if number < 1 \<or> reason \<notin> {''initial'', ''request_changes'', ''regeneration''}
      then (Inl (ValidationError ''ContentRevision''), d)
      else (case save_revision package_id r d of (Inl e, d1) \<Rightarrow> (Inl e, d1) | (Inr _, d1) \<Rightarrow> (Inr r, d1)))"

definition record_review ::
  "int \<Rightarrow> string \<Rightarrow> string \<Rightarrow> package_status \<Rightarrow> string option \<Rightarrow> content_db \<Rightarrow> unit res \<times> content_db" where
  "record_review now org i st comment d =
     (if st = Rejected_Package \<and> comment \<in> {None, Some []} then (Inl (ValueError ''rejected content requires reviewer_comment''), d)
      else (Inr (), update_package_status now org i st d))"

definition last_revision_id :: "content_package \<Rightarrow> string option" where
  "last_revision_id p = (if pk_revisions p = [] then None else Some (cr_id (last (pk_revisions p))))"

definition record_review_event ::
  "(string \<Rightarrow> bool) \<Rightarrow> string \<Rightarrow> string \<Rightarrow> string \<Rightarrow> string \<Rightarrow> string option \<Rightarrow> content_db \<Rightarrow> unit res \<times> content_db" where
  "record_review_event is_uuid org i verdict reviewer comment d =
     (case get_package is_uuid org i d of
        Inl e \<Rightarrow> (Inl e, d)
      | Inr None \<Rightarrow> (Inl (ValueError ''content package not found''), d)
      | Inr (Some p) \<Rightarrow>
          if verdict = ''request_changes'' \<and> comment \<in> {None, Some []}
          then (Inl (ValueError ''request_changes requires comment''), d)
          else append_review_event \<lparr>ce_package_id = i, ce_revision_id = last_revision_id p, ce_decision = verdict,
                 ce_comment = comment, ce_reviewer_id = reviewer\<rparr> d)"

section \<open>The evaluator\<close>

definition THRESHOLDS :: "(string \<times> real \<times> string) list" where
  "THRESHOLDS =
     [(''groundedness'', 9 / 10, ''0.90''), (''completeness'', 8 / 10, ''0.80''), (''relevance'', 8 / 10, ''0.80''),
      (''channel_fit'', 8 / 10, ''0.80'')]"

text \<open>\<^verbatim>\<open>float(x)\<close>: numbers; text, as a number or not, is refused here.\<close>

definition float_of :: "json \<Rightarrow> real res" where
  "float_of v =
     (case v of
        JFloat x \<Rightarrow> Inr x | JInt i \<Rightarrow> Inr (real_of_int i) | JBool b \<Rightarrow> Inr (if b then 1 else 0)
      | JStr _ \<Rightarrow> Inl (ValueError ''could not convert string to float'')
      | _ \<Rightarrow> Inl (Exn ''TypeError'' ''float() argument must be a string or a real number''))"

record content_verdict =
  vd_passed :: bool
  vd_scores :: "(string \<times> real) list"
  vd_issues :: "string list"

fun score_each :: "jobj \<Rightarrow> (string \<times> real \<times> string) list \<Rightarrow> (string \<times> real) list res" where
  "score_each ev [] = Inr []"
| "score_each ev ((k, _) # ks) =
     (case map_of ev k of
        None \<Rightarrow> map_sum id (\<lambda>rest. (k, 0) # rest) (score_each ev ks)
      | Some v \<Rightarrow> (case float_of v of Inl e \<Rightarrow> Inl e | Inr x \<Rightarrow> map_sum id (\<lambda>rest. (k, x) # rest) (score_each ev ks)))"

text \<open>Only scores that exist are held against their threshold.\<close>

definition low_scores :: "jobj \<Rightarrow> string list" where
  "low_scores ev =
     concat (map (\<lambda>(k, low, txt). case float_of (jget ev k) of
                    Inl _ \<Rightarrow> [] | Inr x \<Rightarrow> if x < low then [k @ '' below threshold '' @ txt] else []) THRESHOLDS)"

definition evaluate_content_variant :: "content_variant \<Rightarrow> content_verdict res" where
  "evaluate_content_variant v =
     (let issues = (if cv_evidence v = [] then [''missing evidence references''] else []) @ low_scores (cv_evaluation v) in
      map_sum id (\<lambda>scores. \<lparr>vd_passed = (issues = []), vd_scores = scores, vd_issues = issues\<rparr>)
        (score_each (cv_evaluation v) THRESHOLDS))"

fun evaluate_each :: "content_variant list \<Rightarrow> content_verdict list res" where
  "evaluate_each [] = Inr []"
| "evaluate_each (v # vs) =
     (case evaluate_content_variant v of Inl e \<Rightarrow> Inl e | Inr r \<Rightarrow> map_sum id (\<lambda>rs. r # rs) (evaluate_each vs))"

definition evaluate_content :: "content_variant list \<Rightarrow> (bool \<times> content_verdict list \<times> string list) res" where
  "evaluate_content vs =
     map_sum id (\<lambda>rs. (rs \<noteq> [] \<and> list_all vd_passed rs, rs, concat (map vd_issues rs))) (evaluate_each vs)"

end
