(* ===== verification/Content_Workflow.thy ===== *)
theory Content_Workflow
  imports Content_Store Feedback_Loop
begin

text \<open>
  Content production: the generation workflow (\<^verbatim>\<open>workflows/content/content_generation.py\<close>), the adapters of
  \<^verbatim>\<open>content/source_adapters.py\<close>, the dispatch of a feedback gap, the routes of \<^verbatim>\<open>app/api/routes/content.py\<close> and
  the nodes and edges of \<^verbatim>\<open>orchestration/graphs/content_graph.py\<close>. What the writer agents and the judge answer is an
  argument. A node of the graph is given the payloads of the completed nodes with an edge to it, read back as
  they were written; an exception of a node ends the graph.
\<close>

record content_env =
  xc_now :: int
  xc_uuid :: "nat \<Rightarrow> string"
  xc_is_uuid :: "string \<Rightarrow> bool"
  xc_render :: "json \<Rightarrow> string"

section \<open>Generating from a request\<close>

definition NEWLINE :: string where
  "NEWLINE = [char_of (10 :: nat)]"

definition variant_of :: "string \<Rightarrow> content_request \<Rightarrow> string \<Rightarrow> channel \<Rightarrow> content_variant" where
  "variant_of new_id q package_id c =
     \<lparr>cv_id = new_id, cv_package_id = package_id, cv_channel = c, cv_title = cq_source_title q,
      cv_body = (if c = Blog then cq_source_summary q @ NEWLINE @ NEWLINE @ ''What changed'' @ NEWLINE @ NEWLINE
                   @ cq_source_title q @ ''.''
                 else cq_source_title q @ '': '' @ cq_source_summary q),
      cv_status = Draft_Package, cv_evidence = map JObj (cq_source_evidence q),
      cv_evaluation = [(''groundedness'', JFloat 1), (''completeness'', JFloat (8 / 10)), (''relevance'', JFloat (9 / 10)),
                       (''channel_fit'', JFloat (8 / 10)), (''blocking_issues'', JList [])],
      cv_revision_id = None\<rparr>"

definition with_verdict :: "content_verdict \<Rightarrow> content_variant \<Rightarrow> content_variant" where
  "with_verdict r v =
     v\<lparr>cv_evaluation := jset ''blocking_issues'' (JList (map JStr (vd_issues r)))
         (jset ''scores'' (JObj (map (\<lambda>(k, x). (k, JFloat x)) (vd_scores r))) (cv_evaluation v))\<rparr>"

text \<open>The channels in their order; the ids after the first two are the variants'.\<close>

fun generate_each ::
  "content_env \<Rightarrow> content_request \<Rightarrow> string \<Rightarrow> string \<Rightarrow> nat \<Rightarrow> channel list \<Rightarrow> content_db \<Rightarrow> content_variant list res \<times> content_db" where
  "generate_each e q package_id revision_id n [] d = (Inr [], d)"
| "generate_each e q package_id revision_id n (c # cs) d =
     (let v = (variant_of (xc_uuid e n) q package_id c)\<lparr>cv_revision_id := Some revision_id\<rparr> in
      case evaluate_content_variant v of
        Inl x \<Rightarrow> (Inl x, d)
      | Inr r \<Rightarrow>
          (case save_variant package_id (with_verdict r v) d of
             (Inl x, d1) \<Rightarrow> (Inl x, d1)
           | (Inr _, d1) \<Rightarrow>
               (case generate_each e q package_id revision_id (Suc n) cs d1 of
                  (Inl x, d2) \<Rightarrow> (Inl x, d2) | (Inr vs, d2) \<Rightarrow> (Inr (with_verdict r v # vs), d2))))"

record produced_content =
  gn_package_id :: string
  gn_variants :: "content_variant list"
  gn_revision_id :: string

definition generate_content ::
  "content_env \<Rightarrow> content_request \<Rightarrow> string \<Rightarrow> content_db \<Rightarrow> produced_content res \<times> content_db" where
  "generate_content e q run_id d =
     (case create_package (xc_is_uuid e) (xc_uuid e 0) (xc_now e) run_id q d of
        (Inl x, d1) \<Rightarrow> (Inl x, d1)
      | (Inr p, d1) \<Rightarrow>
          (case create_content_revision (xc_uuid e 1) (pk_id p) 1 ''initial'' run_id None d1 of
             (Inl x, d2) \<Rightarrow> (Inl x, d2)
           | (Inr r, d2) \<Rightarrow>
               (case generate_each e q (pk_id p) (cr_id r) 2 (cq_requested_channels q) d2 of
                  (Inl x, d3) \<Rightarrow> (Inl x, d3)
                | (Inr vs, d3) \<Rightarrow>
                    (Inr \<lparr>gn_package_id = pk_id p, gn_variants = vs, gn_revision_id = cr_id r\<rparr>,
                     update_package_status (xc_now e) (cq_org_id q) (pk_id p) In_Review d3))))"

record content_state =
  cn_run_id :: string
  cn_status :: workflow_status
  cn_errors :: "string list"
  cn_result :: "produced_content option"

definition run_content_generation ::
  "content_env \<Rightarrow> content_request \<Rightarrow> string \<Rightarrow> content_db \<Rightarrow> content_state \<times> content_db" where
  "run_content_generation e q run_id d =
     (case generate_content e q run_id d of
        (Inl x, d1) \<Rightarrow> (\<lparr>cn_run_id = run_id, cn_status = Run_Failed, cn_errors = [exn_msg x], cn_result = None\<rparr>, d1)
      | (Inr g, d1) \<Rightarrow> (\<lparr>cn_run_id = run_id, cn_status = Run_Pending_Review, cn_errors = [], cn_result = Some g\<rparr>, d1))"

section \<open>Requests from sources\<close>

definition channels_of :: "json list \<Rightarrow> (json \<Rightarrow> string) \<Rightarrow> channel list res" where
  "channels_of vs render =
     foldr (\<lambda>v r. and_then (channel_of (py_str render v)) (\<lambda>c. map_sum id (\<lambda>cs. c # cs) r)) vs (Inr [])"

definition ALL_CHANNELS :: "json list" where
  "ALL_CHANNELS = [JStr ''blog'', JStr ''linkedin'', JStr ''x'']"

text \<open>\<^verbatim>\<open>list(value or default)\<close>; text or a dictionary in place of a list is refused here.\<close>

definition list_or :: "json \<Rightarrow> json list \<Rightarrow> json list res" where
  "list_or v dflt =
     (if \<not> py_truth v then Inr dflt
      else case v of JList xs \<Rightarrow> Inr xs | _ \<Rightarrow> Inl (ValidationError ''list''))"

fun evidence_dicts :: "json list \<Rightarrow> jobj list res" where
  "evidence_dicts [] = Inr []"
| "evidence_dicts (JObj d # vs) = map_sum id (\<lambda>ds. d # ds) (evidence_dicts vs)"
| "evidence_dicts (v # vs) = Inl (ValidationError ''source_evidence'')"

definition from_github_event :: "(json \<Rightarrow> string) \<Rightarrow> string \<Rightarrow> jobj \<Rightarrow> content_request res" where
  "from_github_event render org event =
     and_then (if py_truth (jget event ''repository_id'') then Inr JNull
               else get_res (get_or event ''repository'' (JObj [])) ''id'') (\<lambda>repository.
     and_then (list_or (jget event ''source_feedback_ids'') []) (\<lambda>ids.
     and_then (texts_or_raise ids) (\<lambda>feedback_ids.
     and_then (item_text (jget event ''source_gap_id'')) (\<lambda>gap.
     and_then (list_or (jget event ''source_evidence'') []) (\<lambda>ev.
     and_then (evidence_dicts ev) (\<lambda>evidence.
     and_then (list_or (jget event ''requested_channels'') ALL_CHANNELS) (\<lambda>cs.
     and_then (channels_of cs render) (\<lambda>channels.
       validated
         \<lparr>cq_org_id = org, cq_repository_id = str_or render (or_json (jget event ''repository_id'') repository) [],
          cq_source_event_id = str_or render (or_json (jget event ''source_event_id'') (jget event ''id'')) [],
          cq_source_event_type = str_or render (or_json (jget event ''source_event_type'') (jget event ''event_type'')) ''release'',
          cq_source_title = str_or render (or_json (jget event ''source_title'') (jget event ''title'')) ''GitHub update'',
          cq_source_summary = str_or render (or_json (jget event ''source_summary'') (jget event ''body'')) [],
          cq_source_feedback_ids = feedback_ids, cq_source_gap_id = gap, cq_source_evidence = evidence,
          cq_requested_channels = channels, cq_audience = str_or render (jget event ''audience'') ''developers and users'',
          cq_tone = str_or render (jget event ''tone'') ''clear, practical, trustworthy''\<rparr>))))))))"

definition from_documentation_source :: "(json \<Rightarrow> string) \<Rightarrow> string \<Rightarrow> jobj \<Rightarrow> content_request res" where
  "from_documentation_source render org source =
     and_then (list_or (jget source ''source_evidence'') [JObj [(''source_id'', jget source ''id'')]]) (\<lambda>ev.
     and_then (evidence_dicts ev) (\<lambda>evidence.
     and_then (list_or (jget source ''requested_channels'') ALL_CHANNELS) (\<lambda>cs.
     and_then (channels_of cs render) (\<lambda>channels.
       validated
         \<lparr>cq_org_id = org, cq_repository_id = str_or render (or_json (jget source ''repository_id'') (jget source ''repository'')) [],
          cq_source_event_id = str_or render (or_json (jget source ''source_event_id'')
            (or_json (jget source ''id'') (jget source ''path''))) [],
          cq_source_event_type = ''documentation'',
          cq_source_title = str_or render (or_json (jget source ''title'') (jget source ''path'')) ''Documentation update'',
          cq_source_summary = str_or render (or_json (jget source ''summary'') (jget source ''content'')) [],
          cq_source_feedback_ids = [], cq_source_gap_id = None, cq_source_evidence = evidence,
          cq_requested_channels = channels, cq_audience = str_or render (jget source ''audience'') ''developers and users'',
          cq_tone = str_or render (jget source ''tone'') ''clear, practical, trustworthy''\<rparr>))))"

definition from_manual_brief :: "(json \<Rightarrow> string) \<Rightarrow> string \<Rightarrow> jobj \<Rightarrow> content_request res" where
  "from_manual_brief render org brief =
     and_then (list_or (jget brief ''source_evidence'') []) (\<lambda>ev.
     and_then (evidence_dicts ev) (\<lambda>evidence.
     and_then (list_or (jget brief ''requested_channels'') ALL_CHANNELS) (\<lambda>cs.
     and_then (channels_of cs render) (\<lambda>channels.
       validated
         \<lparr>cq_org_id = org, cq_repository_id = str_or render (jget brief ''repository_id'') ''manual'',
          cq_source_event_id = str_or render (or_json (jget brief ''source_event_id'') (jget brief ''id'')) ''manual-brief'',
          cq_source_event_type = ''manual_brief'',
          cq_source_title = str_or render (jget brief ''title'') ''Manual content brief'',
          cq_source_summary = str_or render (or_json (jget brief ''summary'') (jget brief ''brief'')) [],
          cq_source_feedback_ids = [], cq_source_gap_id = None, cq_source_evidence = evidence,
          cq_requested_channels = channels, cq_audience = str_or render (jget brief ''audience'') ''developers and users'',
          cq_tone = str_or render (jget brief ''tone'') ''clear, practical, trustworthy''\<rparr>))))"

record content_opportunity =
  op_org_id :: string
  op_gap_id :: string
  op_topic :: string
  op_source_feedback_ids :: "string list"
  op_recommended_channels :: "string list"
  op_evidence :: "jobj list"
  op_reason :: string

text \<open>The request of a gap; the adapter and the dispatch differ in the organization and the repository.\<close>

definition gap_request :: "string \<Rightarrow> string \<Rightarrow> content_opportunity \<Rightarrow> content_request res" where
  "gap_request org repository op =
     and_then (channels_of (map JStr (op_recommended_channels op)) (\<lambda>_. [])) (\<lambda>channels.
       validated
         \<lparr>cq_org_id = org, cq_repository_id = repository, cq_source_event_id = op_gap_id op,
          cq_source_event_type = ''feedback_gap'', cq_source_title = op_topic op, cq_source_summary = op_reason op,
          cq_source_feedback_ids = op_source_feedback_ids op, cq_source_gap_id = Some (op_gap_id op),
          cq_source_evidence = (if op_evidence op = [] then [[(''source_id'', JStr (op_gap_id op))]] else op_evidence op),
          cq_requested_channels = channels, cq_audience = ''users with the recurring question'', cq_tone = ''clear and helpful''\<rparr>)"

definition from_content_opportunity :: "string \<Rightarrow> content_opportunity \<Rightarrow> content_request res" where
  "from_content_opportunity org op =
     gap_request org ''feedback''
       (if op_recommended_channels op = [] then op\<lparr>op_recommended_channels := [''blog'', ''linkedin'', ''x'']\<rparr> else op)"

text \<open>The dispatch without a runner in the context.\<close>

definition dispatch_content_opportunity ::
  "content_env \<Rightarrow> content_opportunity \<Rightarrow> string \<Rightarrow> string option \<Rightarrow> content_db \<Rightarrow> string res \<times> content_db" where
  "dispatch_content_opportunity e op repository_id run_id d =
     (case gap_request (op_org_id op) repository_id op of
        Inl x \<Rightarrow> (Inl x, d)
      | Inr q \<Rightarrow>
          let rid = (case run_id of None \<Rightarrow> ''content-gap-'' @ op_gap_id op
                     | Some r \<Rightarrow> if r = [] then ''content-gap-'' @ op_gap_id op else r);
              (st, d1) = run_content_generation e q rid d in
          (case cn_result st of
             None \<Rightarrow> (Inl (RuntimeError (''content opportunity dispatch failed: '' @ join_with ''; '' (cn_errors st))), d1)
           | Some g \<Rightarrow> (Inr (gn_package_id g), d1)))"

section \<open>The routes\<close>

type_synonym http_error = "nat \<times> string"

definition token_org :: "string option \<Rightarrow> http_error + string" where
  "token_org org = (case org of None \<Rightarrow> Inl (403, ''Organization context required'')
     | Some x \<Rightarrow> if x = [] then Inl (403, ''Organization context required'') else Inr x)"

text \<open>An exception no route catches is a server error.\<close>

definition server_error :: "'a res \<Rightarrow> http_error + 'a" where
  "server_error r = map_sum (\<lambda>x. (500, exn_msg x)) id r"

lemma server_error_Inr: "server_error r = Inr x \<Longrightarrow> r = Inr x"
  by (cases r) (simp_all add: server_error_def)

definition get_content :: "content_env \<Rightarrow> string option \<Rightarrow> string \<Rightarrow> content_db \<Rightarrow> http_error + content_package" where
  "get_content e org i d =
     (case token_org org of
        Inl x \<Rightarrow> Inl x
      | Inr o1 \<Rightarrow>
          (case server_error (get_package (xc_is_uuid e) o1 i d) of
             Inl x \<Rightarrow> Inl x
           | Inr None \<Rightarrow> Inl (404, ''Content package not found'')
           | Inr (Some p) \<Rightarrow> Inr p))"

definition list_content :: "string option \<Rightarrow> string option \<Rightarrow> content_db \<Rightarrow> http_error + content_package list" where
  "list_content org st d =
     (case token_org org of Inl x \<Rightarrow> Inl x | Inr o1 \<Rightarrow> server_error (list_packages o1 st d))"

definition list_content_revisions :: "content_env \<Rightarrow> string option \<Rightarrow> string \<Rightarrow> content_db \<Rightarrow> http_error + content_revision list" where
  "list_content_revisions e org i d = map_sum id pk_revisions (get_content e org i d)"

definition blocking :: "content_variant \<Rightarrow> bool" where
  "blocking v \<longleftrightarrow> py_truth (jget (cv_evaluation v) ''blocking_issues'')"

datatype content_decision = Approve | Request_Changes | Reject

definition decision_text :: "content_decision \<Rightarrow> string" where
  "decision_text x = (case x of Approve \<Rightarrow> ''approve'' | Request_Changes \<Rightarrow> ''request_changes'' | Reject \<Rightarrow> ''reject'')"

definition next_status :: "content_decision \<Rightarrow> package_status" where
  "next_status x = (case x of Approve \<Rightarrow> Approved_Package | Request_Changes \<Rightarrow> Draft_Package | Reject \<Rightarrow> Rejected_Package)"

definition review_content ::
  "content_env \<Rightarrow> string option \<Rightarrow> string \<Rightarrow> string \<Rightarrow> content_decision \<Rightarrow> string option \<Rightarrow> content_db
     \<Rightarrow> (http_error + package_status) \<times> content_db" where
  "review_content e org reviewer i verdict comment d =
     (case get_content e org i d of
        Inl x \<Rightarrow> (Inl x, d)
      | Inr p \<Rightarrow>
          if verdict = Request_Changes \<and> comment \<in> {None, Some []} then (Inl (400, ''request_changes requires comment''), d)
          else if verdict = Approve \<and> list_ex blocking (pk_variants p)
          then (Inl (409, ''Content has blocking evaluation issues''), d)
          else
            (let number = (if pk_revisions p = [] then 0 else cr_number (last (pk_revisions p))) + 1;
                 revised = (if verdict = Request_Changes
                            then apfst (map_sum id (\<lambda>_. ()))
                              (create_content_revision (xc_uuid e 0) i number ''request_changes'' (''review-'' @ xc_uuid e 1) comment d)
                            else (Inr (), d)) in
             case revised of
               (Inl x, d1) \<Rightarrow> (Inl (500, exn_msg x), d1)
             | (Inr _, d1) \<Rightarrow>
                 (case append_review_event \<lparr>ce_package_id = i, ce_revision_id = last_revision_id p,
                         ce_decision = decision_text verdict, ce_comment = comment, ce_reviewer_id = reviewer\<rparr> d1 of
                    (Inl x, d2) \<Rightarrow> (Inl (500, exn_msg x), d2)
                  | (Inr _, d2) \<Rightarrow>
                      (Inr (next_status verdict), update_package_status (xc_now e) (the org) i (next_status verdict) d2))))"

section \<open>The graph\<close>

text \<open>The nodes of the content graph with the edges between them.\<close>

definition content_edges :: "(string \<times> string) list" where
  "content_edges =
     [(''content_brief'', ''content_blog''), (''content_blog'', ''content_linkedin''), (''content_blog'', ''content_x''),
      (''content_linkedin'', ''evaluate''), (''content_x'', ''evaluate''), (''evaluate'', ''persist''), (''persist'', ''deliver'')]"

definition node_input :: "(string \<times> jobj) list \<Rightarrow> string \<Rightarrow> (string \<times> jobj) list" where
  "node_input payloads node = filter (\<lambda>p. (fst p, node) \<in> set content_edges) payloads"

definition request_from_event :: "(json \<Rightarrow> string) \<Rightarrow> jobj \<Rightarrow> content_request res" where
  "request_from_event render event =
     (case or_json (jget event ''release'') (or_json (jget event ''pull_request'') (JObj event)) of
        JObj body \<Rightarrow>
          and_then (list_or (or_json (jget body ''source_feedback_ids'') (jget event ''source_feedback_ids'')) []) (\<lambda>ids.
          and_then (texts_or_raise ids) (\<lambda>feedback_ids.
          and_then (item_text (or_json (jget body ''source_gap_id'') (jget event ''source_gap_id''))) (\<lambda>gap.
          and_then (list_or (or_json (jget body ''source_evidence'') (jget event ''source_evidence'')) []) (\<lambda>ev.
          and_then (evidence_dicts ev) (\<lambda>evidence.
          and_then (case get_or event ''requested_channels'' (JList ALL_CHANNELS) of
                      JList cs \<Rightarrow> channels_of cs render | _ \<Rightarrow> Inl (ValidationError ''requested_channels'')) (\<lambda>channels.
            validated
              \<lparr>cq_org_id = str_or render (or_json (jget event ''org_id'') (jget event ''project_id'')) [],
               cq_repository_id = str_or render (or_json (jget event ''repository_id'') (jget event ''repository'')) [],
               cq_source_event_id = str_or render (or_json (jget body ''source_event_id'') (jget event ''event_id'')) [],
               cq_source_event_type = str_or render (or_json (jget body ''source_event_type'') (jget event ''source_event_type'')) ''release'',
               cq_source_title = str_or render (or_json (jget body ''source_title'')
                 (or_json (jget body ''title'') (jget body ''name''))) ''GitHub update'',
               cq_source_summary = str_or render (or_json (jget body ''source_summary'')
                 (or_json (jget body ''body'') (jget body ''name''))) [],
               cq_source_feedback_ids = feedback_ids, cq_source_gap_id = gap, cq_source_evidence = evidence,
               cq_requested_channels = channels, cq_audience = str_or render (jget event ''audience'') ''developers and users'',
               cq_tone = str_or render (jget event ''tone'') ''clear, practical, trustworthy''\<rparr>))))))
      | _ \<Rightarrow> Inl (AttributeError ''get''))"

definition WRITER_CHANNELS :: "(string \<times> channel) list" where
  "WRITER_CHANNELS = [(''content_blog'', Blog), (''content_linkedin'', LinkedIn), (''content_x'', X_Post)]"

text \<open>The payloads of the writers among a node's inputs; an empty one counts as none.\<close>

definition drafts_in :: "(string \<times> jobj) list \<Rightarrow> (channel \<times> jobj) list" where
  "drafts_in deps =
     concat (map (\<lambda>(n, c). case map_of deps n of None \<Rightarrow> [] | Some d \<Rightarrow> if d = [] then [] else [(c, d)]) WRITER_CHANNELS)"

definition list_field :: "jobj \<Rightarrow> string \<Rightarrow> json list \<Rightarrow> json list res" where
  "list_field d k dflt = list_or (jget d k) dflt"

text \<open>A draft as a variant: title and body must not be empty, evidence is a list of dictionaries.\<close>

definition draft_variant ::
  "(json \<Rightarrow> string) \<Rightarrow> string \<Rightarrow> string \<Rightarrow> channel \<Rightarrow> jobj \<Rightarrow> jobj list \<Rightarrow> jobj \<Rightarrow> string option \<Rightarrow> content_variant res" where
  "draft_variant render i package_id c payload dflt ev revision =
     and_then (list_field payload ''evidence'' (map JObj dflt)) (\<lambda>es.
     and_then (evidence_dicts es) (\<lambda>evidence.
       if str_or render (jget payload ''body'') [] = [] then Inl (ValidationError ''body'')
       else Inr \<lparr>cv_id = i, cv_package_id = package_id, cv_channel = c,
                 cv_title = str_or render (jget payload ''title'') ''Content draft'',
                 cv_body = str_or render (jget payload ''body'') [], cv_status = Draft_Package,
                 cv_evidence = map JObj evidence, cv_evaluation = ev, cv_revision_id = revision\<rparr>))"

text \<open>The judge's verdict on a variant: grounded, or its blocking issues; a judge that fails counts as grounded.\<close>

type_synonym draft_judge = "content_variant \<Rightarrow> (bool \<times> string list) option"

definition DEFAULT_BLOCKING_MESSAGE :: string where
  "DEFAULT_BLOCKING_MESSAGE = ''content makes claims unsupported by the provided evidence''"

definition judged :: "draft_judge option \<Rightarrow> content_variant \<Rightarrow> content_verdict \<Rightarrow> content_verdict" where
  "judged judge v r =
     (if \<not> vd_passed r then r
      else case judge of
        None \<Rightarrow> r
      | Some ask \<Rightarrow>
          (case ask v of
             None \<Rightarrow> r
           | Some (grounded, found) \<Rightarrow>
               if grounded then r
               else r\<lparr>vd_passed := False,
                      vd_issues := vd_issues r @ (if found = [] then [DEFAULT_BLOCKING_MESSAGE] else found)\<rparr>))"

record judged_draft =
  jd_channel :: channel
  jd_payload :: jobj
  jd_verdict :: content_verdict

fun judge_each :: "(json \<Rightarrow> string) \<Rightarrow> draft_judge option \<Rightarrow> (channel \<times> jobj) list \<Rightarrow> judged_draft list res" where
  "judge_each render judge [] = Inr []"
| "judge_each render judge ((c, payload) # rest) =
     and_then (draft_variant render (''evaluation-'' @ channel_text c) ''pending'' c payload [] [] None) (\<lambda>v.
     and_then (evaluate_content_variant v) (\<lambda>r.
       map_sum id (\<lambda>js. \<lparr>jd_channel = c, jd_payload = payload, jd_verdict = judged judge v r\<rparr> # js)
         (judge_each render judge rest)))"

definition evaluation_node :: "(json \<Rightarrow> string) \<Rightarrow> draft_judge option \<Rightarrow> (string \<times> jobj) list \<Rightarrow> (bool \<times> judged_draft list) res" where
  "evaluation_node render judge deps =
     map_sum id (\<lambda>js. (js \<noteq> [] \<and> list_all (\<lambda>j. vd_passed (jd_verdict j)) js, js)) (judge_each render judge (drafts_in deps))"

fun persist_drafts ::
  "content_env \<Rightarrow> content_request \<Rightarrow> string \<Rightarrow> string \<Rightarrow> judged_draft list \<Rightarrow> nat \<Rightarrow> (channel \<times> jobj) list \<Rightarrow> content_db
     \<Rightarrow> content_variant list res \<times> content_db" where
  "persist_drafts e q package_id revision_id js n [] d = (Inr [], d)"
| "persist_drafts e q package_id revision_id js n ((c, payload) # rest) d =
     (let found = find (\<lambda>j. jd_channel j = c) js;
          ev = [(''scores'', JObj (case found of None \<Rightarrow> [] | Some j \<Rightarrow> map (\<lambda>(k, x). (k, JFloat x)) (vd_scores (jd_verdict j)))),
                (''blocking_issues'', JList (case found of None \<Rightarrow> [] | Some j \<Rightarrow> map JStr (vd_issues (jd_verdict j))))] in
      case draft_variant (xc_render e) (xc_uuid e n) package_id c payload (cq_source_evidence q) ev (Some revision_id) of
        Inl x \<Rightarrow> (Inl x, d)
      | Inr v \<Rightarrow>
          (case save_variant package_id v d of
             (Inl x, d1) \<Rightarrow> (Inl x, d1)
           | (Inr _, d1) \<Rightarrow>
               (case persist_drafts e q package_id revision_id js (Suc n) rest d1 of
                  (Inl x, d2) \<Rightarrow> (Inl x, d2) | (Inr vs, d2) \<Rightarrow> (Inr (v # vs), d2))))"

definition persist_node ::
  "content_env \<Rightarrow> string \<Rightarrow> jobj \<Rightarrow> (string \<times> jobj) list \<Rightarrow> judged_draft list \<Rightarrow> content_db \<Rightarrow> produced_content res \<times> content_db" where
  "persist_node e run_id event deps js d =
     (case request_from_event (xc_render e) event of
        Inl x \<Rightarrow> (Inl x, d)
      | Inr q \<Rightarrow>
          (case create_package (xc_is_uuid e) (xc_uuid e 0) (xc_now e) run_id q d of
             (Inl x, d1) \<Rightarrow> (Inl x, d1)
           | (Inr p, d1) \<Rightarrow>
               (case create_content_revision (xc_uuid e 1) (pk_id p) 1 ''initial'' run_id None d1 of
                  (Inl x, d2) \<Rightarrow> (Inl x, d2)
                | (Inr r, d2) \<Rightarrow>
                    (case persist_drafts e q (pk_id p) (cr_id r) js 2 (drafts_in deps) d2 of
                       (Inl x, d3) \<Rightarrow> (Inl x, d3)
                     | (Inr vs, d3) \<Rightarrow>
                         (Inr \<lparr>gn_package_id = pk_id p, gn_variants = vs, gn_revision_id = cr_id r\<rparr>,
                          update_package_status (xc_now e) (cq_org_id q) (pk_id p) In_Review d3)))))"

definition approval_node :: "content_env \<Rightarrow> jobj \<Rightarrow> string \<Rightarrow> content_db \<Rightarrow> content_db" where
  "approval_node e event package_id d =
     (let org = str_or (xc_render e) (or_json (jget event ''org_id'') (jget event ''project_id'')) [] in
      if package_id \<noteq> [] \<and> org \<noteq> [] then update_package_status (xc_now e) org package_id Approved_Package d else d)"

text \<open>
  The run of the graph from the payloads the writers completed with: both social writers before the evaluation,
  the persisting node on a pass, and the approval once a reviewer let the run through the gate.
\<close>

datatype content_outcome = Not_Evaluated | Not_Passed | Gated produced_content | Delivered_Content produced_content

definition run_content_graph ::
  "content_env \<Rightarrow> draft_judge option \<Rightarrow> bool \<Rightarrow> string \<Rightarrow> jobj \<Rightarrow> (string \<times> jobj) list \<Rightarrow> content_db
     \<Rightarrow> content_outcome res \<times> content_db" where
  "run_content_graph e judge released run_id event payloads d =
     (if \<not> {''content_linkedin'', ''content_x''} \<subseteq> fst ` set payloads then (Inr Not_Evaluated, d)
      else case evaluation_node (xc_render e) judge (node_input payloads ''evaluate'') of
        Inl x \<Rightarrow> (Inl x, d)
      | Inr (passed, js) \<Rightarrow>
          if \<not> passed then (Inr Not_Passed, d)
          else (case persist_node e run_id event (node_input payloads ''persist'') js d of
                  (Inl x, d1) \<Rightarrow> (Inl x, d1)
                | (Inr g, d1) \<Rightarrow>
                    if released then (Inr (Delivered_Content g), approval_node e event (gn_package_id g) d1)
                    else (Inr (Gated g), d1)))"

section \<open>Blocked content stays blocked\<close>

lemma create_or_get_frame:
  assumes "create_or_get is_uuid now p d = (r, d')"
  shows "cd_variants d' = cd_variants d \<and> cd_revisions d' = cd_revisions d \<and> cd_orgs d' = cd_orgs d"
  using assms by (auto simp: create_or_get_def Let_def split: option.splits if_splits)

lemma create_revision_frame:
  assumes "create_content_revision i p n reason run_id c d = (r, d')"
  shows "cd_variants d' = cd_variants d \<and> cd_packages d' = cd_packages d \<and> cd_orgs d' = cd_orgs d"
  using assms by (auto simp: create_content_revision_def save_revision_def Let_def split: if_splits)

lemma update_status_frame [simp]:
  "cd_variants (update_package_status now org i st d) = cd_variants d"
  "cd_revisions (update_package_status now org i st d) = cd_revisions d"
  by (simp_all add: update_package_status_def)

definition unused :: "content_env \<Rightarrow> nat \<Rightarrow> content_db \<Rightarrow> bool" where
  "unused e n d \<longleftrightarrow> inj (xc_uuid e) \<and> (\<forall>m \<ge> n. xc_uuid e m \<notin> cv_id ` set (cd_variants d))"

lemma save_new_variant:
  assumes "save_variant package_id v d = (r, d')" and "cv_id v \<notin> cv_id ` set (cd_variants d)"
  shows "cd_variants d' = cd_variants d \<or> cd_variants d' = cd_variants d @ [v\<lparr>cv_package_id := package_id\<rparr>]"
proof -
  have "cv_id x \<noteq> cv_id v" if "x \<in> set (cd_variants d)" for x
    using imageI [OF that, of cv_id] assms(2) by (rule_tac notI) (simp only:)
  then have "\<not> list_ex (\<lambda>x. cv_id x = cv_id v) (cd_variants d)" by (auto simp: list_ex_iff)
  then show ?thesis using assms(1) by (auto simp: save_variant_def Let_def split: if_splits)
qed

lemma unused_save:
  assumes u: "unused e n d" and s: "save_variant package_id v d = (r, d')" and i: "cv_id v = xc_uuid e n"
  shows "unused e (Suc n) d' \<and> set (cd_variants d) \<subseteq> set (cd_variants d')"
proof -
  have "cv_id v \<notin> cv_id ` set (cd_variants d)" using u i by (auto simp: unused_def)
  from save_new_variant [OF s this] show ?thesis
  proof
    assume "cd_variants d' = cd_variants d"
    then show ?thesis using u by (auto simp: unused_def)
  next
    assume a: "cd_variants d' = cd_variants d @ [v\<lparr>cv_package_id := package_id\<rparr>]"
    have "xc_uuid e m \<noteq> cv_id v" if "Suc n \<le> m" for m using u i that by (auto simp: unused_def dest: injD)
    then show ?thesis using u a by (auto simp: unused_def)
  qed
qed

lemma with_verdict_id [simp]: "cv_id (with_verdict r v) = cv_id v" by (simp add: with_verdict_def)

lemma variant_of_id [simp]: "cv_id (variant_of i q p c) = i" by (simp add: variant_of_def)

lemma generate_each_keeps:
  "unused e n d \<Longrightarrow> generate_each e q p rv n cs d = (r, d') \<Longrightarrow> set (cd_variants d) \<subseteq> set (cd_variants d')"
proof (induction cs arbitrary: n d r)
  case Nil
  then show ?case by simp
next
  case (Cons c cs)
  let ?v = "(variant_of (xc_uuid e n) q p c)\<lparr>cv_revision_id := Some rv\<rparr>"
  show ?case
  proof (cases "evaluate_content_variant ?v")
    case (Inl x)
    then show ?thesis using Cons.prems(2) by simp
  next
    case (Inr w)
    obtain s d1 where s: "save_variant p (with_verdict w ?v) d = (s, d1)" by force
    have step: "unused e (Suc n) d1 \<and> set (cd_variants d) \<subseteq> set (cd_variants d1)"
      using Cons.prems(1) by (rule unused_save [OF _ s]) simp
    have "d' = d1 \<or> (\<exists>r2. generate_each e q p rv (Suc n) cs d1 = (r2, d'))"
      using Cons.prems(2) Inr s by (auto split: sum.splits prod.splits)
    then show ?thesis using step Cons.IH [of "Suc n" d1] by blast
  qed
qed

lemma draft_variant_id: "draft_variant render i p c payload dflt ev rv = Inr v \<Longrightarrow> cv_id v = i"
  by (auto simp: draft_variant_def and_then_def split: sum.splits if_splits)

lemma persist_drafts_keeps:
  "unused e n d \<Longrightarrow> persist_drafts e q p rv js n ps d = (r, d') \<Longrightarrow> set (cd_variants d) \<subseteq> set (cd_variants d')"
proof (induction ps arbitrary: n d r)
  case Nil
  then show ?case by simp
next
  case (Cons cp ps)
  obtain c payload where cp: "cp = (c, payload)" by force
  let ?found = "find (\<lambda>j. jd_channel j = c) js"
  define ev where "ev = [(''scores'', JObj (case ?found of None \<Rightarrow> [] | Some j \<Rightarrow> map (\<lambda>(k, x). (k, JFloat x)) (vd_scores (jd_verdict j)))),
                (''blocking_issues'', JList (case ?found of None \<Rightarrow> [] | Some j \<Rightarrow> map JStr (vd_issues (jd_verdict j))))]"
  show ?case
  proof (cases "draft_variant (xc_render e) (xc_uuid e n) p c payload (cq_source_evidence q) ev (Some rv)")
    case (Inl x)
    then show ?thesis using Cons.prems(2) by (simp add: cp ev_def Let_def)
  next
    case (Inr v)
    obtain s d1 where s: "save_variant p v d = (s, d1)" by force
    have step: "unused e (Suc n) d1 \<and> set (cd_variants d) \<subseteq> set (cd_variants d1)"
      by (rule unused_save [OF Cons.prems(1) s draft_variant_id [OF Inr]])
    have "d' = d1 \<or> (\<exists>r2. persist_drafts e q p rv js (Suc n) ps d1 = (r2, d'))"
      using Cons.prems(2) Inr s by (auto simp: cp ev_def [symmetric] Let_def split: sum.splits prod.splits)
    then show ?thesis using step Cons.IH [of "Suc n" d1] by blast
  qed
qed

lemma unused_cong: "cd_variants d' = cd_variants d \<Longrightarrow> unused e n d' = unused e n d"
  by (simp add: unused_def)

text \<open>The parts of a generation: package and revision, then the variants, then the status.\<close>

lemma generate_content_cases:
  assumes "generate_content e q run_id d = (r, d')"
  obtains (early) "cd_variants d' = cd_variants d"
  | (late) p d1 rv d2 r3 d3 where "create_package (xc_is_uuid e) (xc_uuid e 0) (xc_now e) run_id q d = (Inr p, d1)"
      "create_content_revision (xc_uuid e 1) (pk_id p) 1 ''initial'' run_id None d1 = (Inr rv, d2)"
      "generate_each e q (pk_id p) (cr_id rv) 2 (cq_requested_channels q) d2 = (r3, d3)" "cd_variants d' = cd_variants d3"
proof -
  obtain r1 d1 where c: "create_package (xc_is_uuid e) (xc_uuid e 0) (xc_now e) run_id q d = (r1, d1)" by force
  have v1: "cd_variants d1 = cd_variants d" using create_or_get_frame [of _ _ _ d r1 d1] c by (simp add: create_package_def)
  show ?thesis
  proof (cases r1)
    case (Inl x)
    then show ?thesis using assms c v1 early by (simp add: generate_content_def)
  next
    case (Inr p)
    obtain r2 d2 where c2: "create_content_revision (xc_uuid e 1) (pk_id p) 1 ''initial'' run_id None d1 = (r2, d2)" by force
    note v2 = create_revision_frame [OF c2]
    show ?thesis
    proof (cases r2)
      case (Inl x)
      then show ?thesis using assms c c2 v1 v2 Inr early by (simp add: generate_content_def)
    next
      case (Inr rv)
      obtain r3 d3 where c3: "generate_each e q (pk_id p) (cr_id rv) 2 (cq_requested_channels q) d2 = (r3, d3)" by force
      then have "cd_variants d' = cd_variants d3"
        using assms c c2 \<open>r1 = Inr p\<close> Inr by (auto simp: generate_content_def split: sum.splits)
      then show ?thesis using late [OF _ _ c3] c c2 \<open>r1 = Inr p\<close> Inr by simp
    qed
  qed
qed

lemma generate_content_keeps:
  assumes "unused e 0 d" and "generate_content e q run_id d = (r, d')"
  shows "set (cd_variants d) \<subseteq> set (cd_variants d')"
  using assms(2)
proof (cases rule: generate_content_cases)
  case early
  then show ?thesis by simp
next
  case (late p d1 rv d2 r3 d3)
  have "cd_variants d1 = cd_variants d" using create_or_get_frame late(1) unfolding create_package_def by blast
  then have v: "cd_variants d2 = cd_variants d" using create_revision_frame [OF late(2)] by simp
  then have "unused e 2 d2" using assms(1) by (simp add: unused_def)
  from generate_each_keeps [OF this late(3)] show ?thesis using v late(4) by simp
qed

lemma persist_node_keeps:
  assumes u: "unused e 0 d" and run: "persist_node e run_id event deps js d = (r, d')"
  shows "set (cd_variants d) \<subseteq> set (cd_variants d')"
proof (cases "request_from_event (xc_render e) event")
  case (Inl x)
  then show ?thesis using run by (simp add: persist_node_def)
next
  case (Inr q)
  obtain r1 d1 where c: "create_package (xc_is_uuid e) (xc_uuid e 0) (xc_now e) run_id q d = (r1, d1)" by force
  have v1: "cd_variants d1 = cd_variants d" using create_or_get_frame c unfolding create_package_def by blast
  show ?thesis
  proof (cases r1)
    case (Inl x)
    then show ?thesis using run Inr c v1 by (simp add: persist_node_def)
  next
    case p: (Inr p)
    obtain r2 d2 where c2: "create_content_revision (xc_uuid e 1) (pk_id p) 1 ''initial'' run_id None d1 = (r2, d2)" by force
    have v2: "cd_variants d2 = cd_variants d" using create_revision_frame [OF c2] v1 by simp
    show ?thesis
    proof (cases r2)
      case (Inl x)
      then show ?thesis using run Inr c c2 v2 p by (simp add: persist_node_def)
    next
      case rv: (Inr rv)
      obtain r3 d3 where c3: "persist_drafts e q (pk_id p) (cr_id rv) js 2 (drafts_in deps) d2 = (r3, d3)" by force
      have "unused e 2 d2" using u v2 by (simp add: unused_def)
      from persist_drafts_keeps [OF this c3] have "set (cd_variants d) \<subseteq> set (cd_variants d3)" using v2 by simp
      moreover have "cd_variants d' = cd_variants d3"
        using run Inr c c2 c3 p rv by (auto simp: persist_node_def split: sum.splits)
      ultimately show ?thesis by simp
    qed
  qed
qed

lemma approval_frame [simp]: "cd_variants (approval_node e event i d) = cd_variants d"
  by (simp add: approval_node_def Let_def)

lemma content_graph_keeps:
  assumes u: "unused e 0 d" and run: "run_content_graph e judge released run_id event payloads d = (r, d')"
  shows "set (cd_variants d) \<subseteq> set (cd_variants d')"
proof -
  obtain r1 where ev: "evaluation_node (xc_render e) judge (node_input payloads ''evaluate'') = r1" by force
  show ?thesis
  proof (cases "{''content_linkedin'', ''content_x''} \<subseteq> fst ` set payloads \<and> (\<exists>js. r1 = Inr (True, js))")
    case False
    then have "d' = d" using run ev by (auto simp: run_content_graph_def split: if_splits sum.splits prod.splits)
    then show ?thesis by simp
  next
    case True
    then obtain js where js: "r1 = Inr (True, js)" by blast
    obtain r2 d2 where p: "persist_node e run_id event (node_input payloads ''persist'') js d = (r2, d2)" by force
    have "cd_variants d' = cd_variants d2"
      using run ev js p True by (cases r2) (auto simp: run_content_graph_def split: if_splits)
    then show ?thesis using persist_node_keeps [OF u p] by simp
  qed
qed

lemma review_keeps: "review_content e org reviewer i x comment d = (r, d') \<Longrightarrow> cd_variants d' = cd_variants d"
proof -
  assume run: "review_content e org reviewer i x comment d = (r, d')"
  have "cd_variants d2 = cd_variants d1" if "append_review_event ev d1 = (r2, d2)" for ev d1 r2 d2
    using that by (auto simp: append_review_event_def split: if_splits)
  moreover have "cd_variants d1 = cd_variants d"
    if "apfst (map_sum id (\<lambda>_. ())) (create_content_revision a b n reason rid c d) = (r1, d1)" for a b n reason rid c r1 d1
    using that create_revision_frame by (cases "create_content_revision a b n reason rid c d") fastforce
  ultimately show ?thesis using run
    by (auto simp: review_content_def Let_def split: sum.splits prod.splits if_splits) 
qed

text \<open>What changes content: generating it, running its graph, reviewing it. Generated ids are new.\<close>

inductive content_step :: "content_db \<Rightarrow> content_db \<Rightarrow> bool" where
  generating: "unused e 0 d \<Longrightarrow> run_content_generation e q run_id d = (st, d') \<Longrightarrow> content_step d d'"
| graph_run: "unused e 0 d \<Longrightarrow> run_content_graph e judge released run_id event payloads d = (r, d') \<Longrightarrow> content_step d d'"
| reviewing: "review_content e org reviewer i x comment d = (r, d') \<Longrightarrow> content_step d d'"

lemma content_step_keeps: "content_step d d' \<Longrightarrow> set (cd_variants d) \<subseteq> set (cd_variants d')"
proof (induction rule: content_step.induct)
  case (generating e d q run_id st d')
  then obtain r where "generate_content e q run_id d = (r, d')"
    by (auto simp: run_content_generation_def split: sum.splits prod.splits)
  then show ?case using generate_content_keeps generating(1) by blast
next
  case (graph_run e d judge released run_id event payloads r d')
  then show ?case using content_graph_keeps by blast
next
  case (reviewing e org reviewer i x comment d r d')
  then show ?case using review_keeps [OF reviewing] by simp
qed

text \<open>
  C34. A package one of whose variants has blocking issues can never be approved: a request for changes, a new
  generation or another run of the graph add variants, and the old one keeps blocking.
\<close>

theorem blocked_forever:
  assumes "content_step\<^sup>*\<^sup>* d d'" and v: "v \<in> set (cd_variants d)" "cv_package_id v = i" "blocking v"
  shows "isl (fst (review_content e org reviewer i Approve comment d'))"
proof -
  from assms(1) have "set (cd_variants d) \<subseteq> set (cd_variants d')"
    by (induction rule: rtranclp_induct) (use content_step_keeps in blast)+
  then have v': "v \<in> set (cd_variants d')" using v(1) by blast
  show ?thesis
  proof (cases "get_content e org i d'")
    case (Inl x)
    then show ?thesis by (simp add: review_content_def)
  next
    case (Inr p)
    then obtain o1 where "get_package (xc_is_uuid e) o1 i d' = Inr (Some p)"
      by (auto simp: get_content_def split: sum.splits option.splits dest!: server_error_Inr)
    then obtain r where r: "p = hydrate d' r" "pk_id r = i"
      by (auto simp: get_package_def read_found_Inr dest: find_Some_in split: if_splits)
    then have "v \<in> set (pk_variants p)" using v' v(2) by (simp add: hydrate_def)
    then have "list_ex blocking (pk_variants p)" using v(3) by (auto simp: list_ex_iff)
    then show ?thesis using Inr by (simp add: review_content_def)
  qed
qed

section \<open>What the graph delivers\<close>

lemma input_edges:
  "node_input payloads ''persist'' = filter (\<lambda>p. fst p = ''evaluate'') payloads"
  "node_input payloads ''evaluate'' = filter (\<lambda>p. fst p = ''content_linkedin'' \<or> fst p = ''content_x'') payloads"
  by (simp_all add: node_input_def content_edges_def)

lemma map_of_filter_out: "\<not> P k \<Longrightarrow> map_of (filter (\<lambda>p. P (fst p)) ps) k = None"
  by (induction ps) auto

lemma no_drafts_to_persist: "drafts_in (node_input payloads ''persist'') = []"
  unfolding input_edges drafts_in_def WRITER_CHANNELS_def
  by (simp add: map_of_filter_out [where P = "\<lambda>n. n = ''evaluate''"])

lemma validated_Inr: "validated q = Inr q' \<Longrightarrow> q' = q \<and> cq_org_id q \<noteq> []"
  by (auto simp: validated_def split: if_splits)

lemma request_org:
  "request_from_event render event = Inr q \<Longrightarrow>
     cq_org_id q = str_or render (or_json (jget event ''org_id'') (jget event ''project_id'')) [] \<and> cq_org_id q \<noteq> []"
  by (auto simp: request_from_event_def and_then_Inr split: json.splits dest!: validated_Inr)

lemma create_package_row:
  assumes "create_package is_uuid i now run_id q d = (Inr p, d')" and "i \<noteq> []" and "\<forall>r \<in> set (cd_packages d). pk_id r \<noteq> []"
  shows "pk_id p \<noteq> [] \<and> (\<exists>r \<in> set (cd_packages d'). pk_id r = pk_id p \<and> pk_org_id r = cq_org_id q)"
proof (cases "find (\<lambda>r. package_source r = package_source (package_of i now run_id q)) (cd_packages d)")
  case None
  then have "pk_id p = i" "\<exists>r \<in> set (cd_packages d'). pk_id r = i \<and> pk_org_id r = cq_org_id q"
    using assms(1)
    by (auto simp: create_package_def create_or_get_def Let_def package_of_def hydrate_def read_package_Inr split: if_splits)
  then show ?thesis using assms(2) by simp
next
  case (Some r)
  note r = find_Some_in [OF Some]
  have p: "pk_id p = pk_id r" "r\<lparr>pk_updated_at := now\<rparr> \<in> set (cd_packages d')"
    using assms(1) Some r
    by (auto simp: create_package_def create_or_get_def Let_def hydrate_def read_package_Inr set_upd_where split: if_splits)
  have "pk_org_id r = cq_org_id q" using r by (simp add: package_source_def package_of_def)
  then show ?thesis using p r assms(3) by (intro conjI bexI [of _ "r\<lparr>pk_updated_at := now\<rparr>"]) auto
qed

lemma status_row:
  "\<exists>r \<in> set (cd_packages d). pk_id r = i \<and> pk_org_id r = org \<Longrightarrow>
     \<exists>r \<in> set (cd_packages (update_package_status now org i st d)). pk_id r = i \<and> pk_org_id r = org \<and> pk_status r = st"
proof -
  assume "\<exists>r \<in> set (cd_packages d). pk_id r = i \<and> pk_org_id r = org"
  then obtain r where "r \<in> set (cd_packages d)" "pk_id r = i" "pk_org_id r = org" by blast
  then have "r\<lparr>pk_status := st, pk_updated_at := now\<rparr> \<in> set (cd_packages (update_package_status now org i st d))"
    "pk_id (r\<lparr>pk_status := st, pk_updated_at := now\<rparr>) = i" "pk_org_id (r\<lparr>pk_status := st, pk_updated_at := now\<rparr>) = org"
    by (auto simp: update_package_status_def set_upd_where)
  then show ?thesis by (intro bexI [of _ "r\<lparr>pk_status := st, pk_updated_at := now\<rparr>"]) simp_all
qed

text \<open>
  C33. A content run that is delivered has written no variant: the persisting node is only given the
  evaluation's payload, so the drafts are lost. The package it approves is one that existed before the run, with
  whatever variants it had, or a new one that has no variant at all.
\<close>

theorem graph_delivers_nothing:
  assumes run: "run_content_graph e judge released run_id event payloads d = (Inr (Delivered_Content g), d')"
    and "xc_uuid e 0 \<noteq> []" and "\<forall>r \<in> set (cd_packages d). pk_id r \<noteq> []"
    and fk: "\<forall>v \<in> set (cd_variants d). cv_package_id v \<in> package_ids d"
  shows "gn_variants g = [] \<and> cd_variants d' = cd_variants d
    \<and> (\<exists>r \<in> set (cd_packages d'). pk_id r = gn_package_id g \<and> pk_status r = Approved_Package)
    \<and> (gn_package_id g \<in> package_ids d \<or> (\<forall>v \<in> set (cd_variants d'). cv_package_id v \<noteq> gn_package_id g))"
proof -
  obtain js d1 where p: "persist_node e run_id event (node_input payloads ''persist'') js d = (Inr g, d1)"
    and d': "d' = approval_node e event (gn_package_id g) d1"
    using run by (auto simp: run_content_graph_def split: if_splits sum.splits prod.splits)
  obtain q where q: "request_from_event (xc_render e) event = Inr q" using p by (cases "request_from_event (xc_render e) event") (auto simp: persist_node_def)
  obtain pk d2 where c: "create_package (xc_is_uuid e) (xc_uuid e 0) (xc_now e) run_id q d = (Inr pk, d2)"
    using p q by (auto simp: persist_node_def split: sum.splits prod.splits)
  obtain rv d3 where rv: "create_content_revision (xc_uuid e 1) (pk_id pk) 1 ''initial'' run_id None d2 = (Inr rv, d3)"
    using p q c by (auto simp: persist_node_def split: sum.splits prod.splits)
  have g: "gn_variants g = []" "gn_package_id g = pk_id pk" "d1 = update_package_status (xc_now e) (cq_org_id q) (pk_id pk) In_Review d3"
    using p q c rv by (auto simp: persist_node_def no_drafts_to_persist)
  have "cd_variants d2 = cd_variants d" using create_or_get_frame c unfolding create_package_def by blast
  then have v: "cd_variants d' = cd_variants d" using create_revision_frame [OF rv] g(3) d' by simp
  note row = create_package_row [OF c assms(2,3)]
  then have "\<exists>r \<in> set (cd_packages d3). pk_id r = pk_id pk \<and> pk_org_id r = cq_org_id q" using create_revision_frame [OF rv] by simp
  from status_row [OF this, of "xc_now e" In_Review]
  have "\<exists>r \<in> set (cd_packages d1). pk_id r = pk_id pk \<and> pk_org_id r = cq_org_id q" unfolding g(3) by blast
  from status_row [OF this, of "xc_now e" Approved_Package]
  have "\<exists>r \<in> set (cd_packages d'). pk_id r = gn_package_id g \<and> pk_status r = Approved_Package"
    using row request_org [OF q] by (auto simp: d' approval_node_def g(2) Let_def)
  moreover have "gn_package_id g \<in> package_ids d \<or> (\<forall>x \<in> set (cd_variants d'). cv_package_id x \<noteq> gn_package_id g)"
    unfolding v using fk by auto
  ultimately show ?thesis using g(1) v by blast
qed

text \<open>The blog draft reaches neither the evaluation nor the package: the run is the same without it.\<close>

lemma blog_unread:
  "run_content_graph e judge released run_id event payloads d
     = run_content_graph e judge released run_id event (filter (\<lambda>p. fst p \<noteq> ''content_blog'') payloads) d"
proof -
  have same: "node_input (filter (\<lambda>p. fst p \<noteq> ''content_blog'') payloads) n = node_input payloads n"
    if "n = ''evaluate'' \<or> n = ''persist''" for n
    using that by (auto simp: input_edges intro!: filter_cong)
  have "({''content_linkedin'', ''content_x''} \<subseteq> fst ` set (filter (\<lambda>p. fst p \<noteq> ''content_blog'') payloads))
      = ({''content_linkedin'', ''content_x''} \<subseteq> fst ` set payloads)"
    by (force simp: image_iff)
  then show ?thesis unfolding run_content_graph_def by (simp only: same simp_thms)
qed

section \<open>What a generation leaves\<close>

definition verdict_for :: "content_request \<Rightarrow> content_verdict" where
  "verdict_for q =
     \<lparr>vd_passed = (cq_source_evidence q \<noteq> []),
      vd_scores = [(''groundedness'', 1), (''completeness'', 8 / 10), (''relevance'', 9 / 10), (''channel_fit'', 8 / 10)],
      vd_issues = (if cq_source_evidence q = [] then [''missing evidence references''] else [])\<rparr>"

lemma evaluates: "evaluate_content_variant ((variant_of i q p c)\<lparr>cv_revision_id := rv\<rparr>) = Inr (verdict_for q)"
  by (simp add: evaluate_content_variant_def variant_of_def THRESHOLDS_def low_scores_def float_of_def verdict_for_def)

fun made :: "content_env \<Rightarrow> content_request \<Rightarrow> string \<Rightarrow> string \<Rightarrow> nat \<Rightarrow> channel list \<Rightarrow> content_variant list" where
  "made e q p rv n [] = []"
| "made e q p rv n (c # cs) =
     with_verdict (verdict_for q) ((variant_of (xc_uuid e n) q p c)\<lparr>cv_revision_id := Some rv\<rparr>) # made e q p rv (Suc n) cs"

lemma made_one:
  "cv_id (with_verdict r ((variant_of i q p c)\<lparr>cv_revision_id := x\<rparr>)) = i"
  "cv_package_id (with_verdict r ((variant_of i q p c)\<lparr>cv_revision_id := x\<rparr>)) = p"
  "cv_channel (with_verdict r ((variant_of i q p c)\<lparr>cv_revision_id := x\<rparr>)) = c"
  "cv_revision_id (with_verdict r ((variant_of i q p c)\<lparr>cv_revision_id := x\<rparr>)) = x"
  "blocking (with_verdict r ((variant_of i q p c)\<lparr>cv_revision_id := x\<rparr>)) \<longleftrightarrow> vd_issues r \<noteq> []"
  by (simp_all add: with_verdict_def variant_of_def blocking_def jset_def)

lemma made_channels: "map cv_channel (made e q p rv n cs) = cs"
  by (induction cs arbitrary: n) (simp_all add: made_one)

lemma made_facts:
  "v \<in> set (made e q p rv n cs) \<Longrightarrow>
     cv_package_id v = p \<and> cv_revision_id v = Some rv \<and> (blocking v \<longleftrightarrow> cq_source_evidence q = [])"
proof (induction cs arbitrary: n)
  case (Cons c cs)
  have "blocking (with_verdict (verdict_for q) ((variant_of (xc_uuid e n) q p c)\<lparr>cv_revision_id := Some rv\<rparr>))
      \<longleftrightarrow> cq_source_evidence q = []"
    unfolding made_one by (simp add: verdict_for_def)
  moreover have "v = with_verdict (verdict_for q) ((variant_of (xc_uuid e n) q p c)\<lparr>cv_revision_id := Some rv\<rparr>)
      \<or> v \<in> set (made e q p rv (Suc n) cs)" using Cons.prems by simp
  ultimately show ?case using Cons.IH [of "Suc n"] by (elim disjE) (simp_all only: made_one simp_thms)
qed simp

lemma generate_each_made:
  "unused e n d \<Longrightarrow> p \<in> package_ids d \<Longrightarrow> distinct cs \<Longrightarrow>
   \<forall>x \<in> set (cd_variants d). cv_revision_id x = Some rv \<longrightarrow> cv_channel x \<notin> set cs \<Longrightarrow>
     generate_each e q p rv n cs d = (Inr (made e q p rv n cs), d\<lparr>cd_variants := cd_variants d @ made e q p rv n cs\<rparr>)"
proof (induction cs arbitrary: n d)
  case Nil
  then show ?case by simp
next
  case (Cons c cs)
  define v where "v = with_verdict (verdict_for q) ((variant_of (xc_uuid e n) q p c)\<lparr>cv_revision_id := Some rv\<rparr>)"
  have v: "cv_id v = xc_uuid e n" "cv_package_id v = p" "cv_channel v = c" "cv_revision_id v = Some rv"
    by (simp_all add: v_def with_verdict_def variant_of_def)
  have nin: "xc_uuid e n \<notin> cv_id ` set (cd_variants d)" using Cons.prems(1) by (simp add: unused_def)
  have new: "cv_id x \<noteq> xc_uuid e n" if "x \<in> set (cd_variants d)" for x
    using imageI [OF that, of cv_id] nin by (rule_tac notI) (simp only:)
  have free: "\<not> (cv_channel x = c \<and> cv_revision_id x = Some rv)" if "x \<in> set (cd_variants d)" for x
    using Cons.prems(4) that by auto
  have same: "v\<lparr>cv_package_id := p\<rparr> = v" using v(2) by simp
  have s: "save_variant p v d = (Inr (), d\<lparr>cd_variants := cd_variants d @ [v]\<rparr>)"
    using Cons.prems(2) new free v same by (auto simp: save_variant_def Let_def list_ex_iff)
  let ?d = "d\<lparr>cd_variants := cd_variants d @ [v]\<rparr>"
  have "unused e (Suc n) ?d" using unused_save [OF Cons.prems(1) s v(1)] by simp
  moreover have "p \<in> package_ids ?d" using Cons.prems(2) by (simp add: package_ids_def)
  moreover have "\<forall>x \<in> set (cd_variants ?d). cv_revision_id x = Some rv \<longrightarrow> cv_channel x \<notin> set cs"
    using Cons.prems(3,4) v(3) by auto
  ultimately have "generate_each e q p rv (Suc n) cs ?d =
      (Inr (made e q p rv (Suc n) cs), ?d\<lparr>cd_variants := cd_variants ?d @ made e q p rv (Suc n) cs\<rparr>)"
    using Cons.prems(3) by (intro Cons.IH) simp_all
  then show ?case by (simp add: Let_def evaluates s v_def [symmetric])
qed

lemma generation_run:
  assumes "create_package (xc_is_uuid e) (xc_uuid e 0) (xc_now e) run_id q d = (Inr p, d1)"
    and "create_content_revision (xc_uuid e 1) (pk_id p) 1 ''initial'' run_id None d1 = (Inr rv, d2)"
    and "unused e 2 d2" "pk_id p \<in> package_ids d2" "distinct (cq_requested_channels q)"
    and "\<forall>x \<in> set (cd_variants d2). cv_revision_id x \<noteq> Some (cr_id rv)"
  shows "generate_content e q run_id d =
    (Inr \<lparr>gn_package_id = pk_id p, gn_variants = made e q (pk_id p) (cr_id rv) 2 (cq_requested_channels q), gn_revision_id = cr_id rv\<rparr>,
     update_package_status (xc_now e) (cq_org_id q) (pk_id p) In_Review
       (d2\<lparr>cd_variants := cd_variants d2 @ made e q (pk_id p) (cr_id rv) 2 (cq_requested_channels q)\<rparr>))"
  using assms generate_each_made [of e 2 d2 "pk_id p" "cq_requested_channels q" "cr_id rv" q] by (simp add: generate_content_def)

definition request_source :: "content_request \<Rightarrow> string \<times> string \<times> string \<times> string" where
  "request_source q = (cq_org_id q, cq_repository_id q, cq_source_event_type q, cq_source_event_id q)"

lemma package_of_source: "package_source (package_of i now run_id q) = request_source q"
  by (simp add: package_source_def package_of_def request_source_def)

text \<open>
  C35. Generating content for a source that already has a package, neither naming a gap, puts the package back in
  review whatever was decided about it, and stores one more variant per channel under a revision that does not
  exist: the first revision's number is taken, and the insert that was to number it again does nothing.
\<close>

theorem regeneration_reopens:
  assumes org: "cq_org_id q \<in> set (cd_orgs d)" and p: "p \<in> set (cd_packages d)" "package_source p = request_source q"
    and gap: "cq_source_gap_id q = None" "pk_source_gap_id p = None"
    and d: "distinct (map package_source (cd_packages d))" and r: "r \<in> set (cd_revisions d)" "cr_package_id r = pk_id p" "cr_number r = 1"
    and u: "unused e 0 d" and fresh: "xc_uuid e 1 \<notin> cr_id ` set (cd_revisions d)" "\<forall>x \<in> set (cd_variants d). cv_revision_id x \<noteq> Some (xc_uuid e 1)"
    and cs: "distinct (cq_requested_channels q)" and run: "run_content_generation e q run_id d = (st, d')"
  shows "cn_status st = Run_Pending_Review \<and> cd_revisions d' = cd_revisions d
    \<and> (\<forall>x \<in> set (cd_packages d'). package_source x = request_source q \<longrightarrow> pk_status x = In_Review)
    \<and> (\<exists>vs. cd_variants d' = cd_variants d @ vs \<and> map cv_channel vs = cq_requested_channels q
         \<and> (\<forall>v \<in> set vs. cv_package_id v = pk_id p \<and> cv_revision_id v = Some (xc_uuid e 1)))
    \<and> xc_uuid e 1 \<notin> cr_id ` set (cd_revisions d')"
proof -
  let ?S = "request_source q" and ?touch = "\<lambda>x. x\<lparr>pk_updated_at := xc_now e\<rparr>"
  define d1 where "d1 = d\<lparr>cd_packages := upd_where (\<lambda>x. package_source x = ?S) ?touch (cd_packages d)\<rparr>"
  let ?p = "hydrate d1 (p\<lparr>pk_updated_at := xc_now e\<rparr>)"
  have f: "find (\<lambda>x. package_source x = ?S) (cd_packages d) = Some p" by (rule find_distinct_key [OF d p])
  have oid: "pk_org_id (package_of (xc_uuid e 0) (xc_now e) run_id q) = cq_org_id q" by (simp add: package_of_def)
  have c: "create_package (xc_is_uuid e) (xc_uuid e 0) (xc_now e) run_id q d = (Inr ?p, d1)"
    using org gap
    by (simp add: create_package_def create_or_get_def package_of_source f oid d1_def Let_def read_package_def row_to_package_def)
      (simp add: package_of_def)
  have pid: "pk_id ?p = pk_id p" by (simp add: hydrate_def)
  have ids: "package_ids d1 = package_ids d"
    using map_key_upd_where [of "\<lambda>x. package_source x = ?S" pk_id ?touch "cd_packages d"]
    by (simp add: package_ids_def d1_def) (metis list.set_map)
  have "pk_id p \<in> package_ids d" using p(1) by (simp add: package_ids_def)
  then have known: "pk_id p \<in> package_ids d1" unfolding ids .
  have same: "cd_variants d1 = cd_variants d" "cd_revisions d1 = cd_revisions d" by (simp_all add: d1_def)
  have taken: "list_ex (\<lambda>x. cr_package_id x = pk_id p \<and> cr_number x = 1) (cd_revisions d1)" using r same by (auto simp: list_ex_iff)
  obtain rv where rv: "create_content_revision (xc_uuid e 1) (pk_id ?p) 1 ''initial'' run_id None d1 = (Inr rv, d1)" "cr_id rv = xc_uuid e 1"
    using known taken unfolding pid by (simp add: create_content_revision_def save_revision_def Let_def)
  have u2: "unused e 2 d1" using u same by (simp add: unused_def)
  let ?vs = "made e q (pk_id p) (xc_uuid e 1) 2 (cq_requested_channels q)"
  let ?d2 = "d1\<lparr>cd_variants := cd_variants d1 @ ?vs\<rparr>"
  have "generate_content e q run_id d =
    (Inr \<lparr>gn_package_id = pk_id p, gn_variants = ?vs, gn_revision_id = xc_uuid e 1\<rparr>,
     update_package_status (xc_now e) (cq_org_id q) (pk_id p) In_Review ?d2)"
    using generation_run [OF c rv(1) u2 _ cs] known fresh(2) same rv(2) pid by simp
  then have st: "cn_status st = Run_Pending_Review" and d': "d' = update_package_status (xc_now e) (cq_org_id q) (pk_id p) In_Review ?d2"
    using run by (auto simp: run_content_generation_def)
  have "pk_status x = In_Review" if x: "x \<in> set (cd_packages d')" "package_source x = ?S" for x
  proof -
    let ?hit = "\<lambda>y. pk_org_id y = cq_org_id q \<and> pk_id y = pk_id p"
    let ?st = "\<lambda>y. y\<lparr>pk_status := In_Review, pk_updated_at := xc_now e\<rparr>"
    have "x \<in> ?st ` {y \<in> set (cd_packages d1). ?hit y} \<union> {y \<in> set (cd_packages d1). \<not> ?hit y}"
      using x(1) by (simp add: d' update_package_status_def set_upd_where)
    then consider y where "x = ?st y" | "x \<in> set (cd_packages d1)" "\<not> ?hit x" by blast
    then show ?thesis
    proof cases
      case 1
      then show ?thesis by simp
    next
      case 2
      then obtain z where z: "z \<in> set (cd_packages d)" "package_source z = package_source x" "pk_id x = pk_id z" "pk_org_id x = pk_org_id z"
        unfolding d1_def by (auto simp: set_upd_where package_source_def)
      then have "z = p" using d p x(2) by (metis distinct_map inj_onD)
      then show ?thesis using 2(2) z p(2) by (simp add: package_source_def request_source_def)
    qed
  qed
  moreover have "cd_variants d' = cd_variants d @ ?vs" "cd_revisions d' = cd_revisions d" using d' same by simp_all
  moreover have "map cv_channel ?vs = cq_requested_channels q" by (rule made_channels)
  moreover have "\<forall>v \<in> set ?vs. cv_package_id v = pk_id p \<and> cv_revision_id v = Some (xc_uuid e 1)" using made_facts by blast
  ultimately show ?thesis using st fresh(1) by auto
qed

text \<open>The samples: an approved package of one release, and what the release's delivery asks for.\<close>

definition plain_content :: content_env where
  "plain_content = \<lparr>xc_now = 9, xc_uuid = (\<lambda>n. CHR ''u'' # show_nat n), xc_is_uuid = (\<lambda>_. True), xc_render = (\<lambda>_. ''?'')\<rparr>"

definition release_request :: content_request where
  "release_request =
     \<lparr>cq_org_id = ''o1'', cq_repository_id = ''r'', cq_source_event_id = ''e1'', cq_source_event_type = ''release'',
      cq_source_title = ''1.2'', cq_source_summary = ''A release'', cq_source_feedback_ids = [], cq_source_gap_id = None,
      cq_source_evidence = [], cq_requested_channels = [Blog, X_Post], cq_audience = ''users'', cq_tone = ''clear''\<rparr>"

definition approved_release :: content_db where
  "approved_release =
     \<lparr>cd_orgs = [''o1''], cd_packages = [(package_of ''p1'' 1 ''run'' release_request)\<lparr>pk_status := Approved_Package\<rparr>], cd_variants = [],
      cd_revisions = [\<lparr>cr_id = ''r1'', cr_package_id = ''p1'', cr_number = 1, cr_reason = ''initial'', cr_reviewer_comment = None,
        cr_created_by_run_id = ''run''\<rparr>], cd_reviews = []\<rparr>"

lemma plain_unused: "cd_variants d = [] \<Longrightarrow> unused plain_content n d"
  by (simp add: unused_def plain_content_def inj_def)

theorem regeneration_reopens_witness:
  "\<exists>d'. snd (run_content_generation plain_content release_request ''again'' approved_release) = d' \<and> length (cd_variants d') = 2
     \<and> (\<forall>x \<in> set (cd_packages d'). package_source x = request_source release_request \<longrightarrow> pk_status x = In_Review)"
proof -
  obtain st d' where run: "run_content_generation plain_content release_request ''again'' approved_release = (st, d')" by force
  let ?p = "(package_of ''p1'' 1 ''run'' release_request)\<lparr>pk_status := Approved_Package\<rparr>"
  let ?r = "\<lparr>cr_id = ''r1'', cr_package_id = ''p1'', cr_number = 1, cr_reason = ''initial'', cr_reviewer_comment = None,
        cr_created_by_run_id = ''run''\<rparr>"
  have "cq_org_id release_request \<in> set (cd_orgs approved_release)" by (simp add: approved_release_def release_request_def)
  moreover have "?p \<in> set (cd_packages approved_release)" "distinct (map package_source (cd_packages approved_release))"
    by (simp_all add: approved_release_def)
  moreover have "package_source ?p = request_source release_request"
    by (simp add: package_source_def package_of_def request_source_def)
  moreover have "cq_source_gap_id release_request = None" "pk_source_gap_id ?p = None"
    by (simp_all add: release_request_def package_of_def)
  moreover have "?r \<in> set (cd_revisions approved_release)" "cr_package_id ?r = pk_id ?p" "cr_number ?r = 1"
    by (simp_all add: approved_release_def package_of_def)
  moreover have "unused plain_content 0 approved_release" by (rule plain_unused) (simp add: approved_release_def)
  moreover have "xc_uuid plain_content 1 \<notin> cr_id ` set (cd_revisions approved_release)"
    by (simp add: approved_release_def plain_content_def)
  moreover have "\<forall>x \<in> set (cd_variants approved_release). cv_revision_id x \<noteq> Some (xc_uuid plain_content 1)"
    by (simp add: approved_release_def)
  moreover have "distinct (cq_requested_channels release_request)" by (simp add: release_request_def)
  ultimately have "\<exists>vs. cd_variants d' = cd_variants approved_release @ vs \<and> map cv_channel vs = cq_requested_channels release_request"
    and all: "\<forall>x \<in> set (cd_packages d'). package_source x = request_source release_request \<longrightarrow> pk_status x = In_Review"
    using regeneration_reopens [OF _ _ _ _ _ _ _ _ _ _ _ _ _ run] by blast+
  then obtain vs where "cd_variants d' = vs" "map cv_channel vs = [Blog, X_Post]"
    by (auto simp: approved_release_def release_request_def)
  then have "length (cd_variants d') = 2" by (metis length_map length_Cons list.size(3) numeral_2_eq_2)
  then show ?thesis using run all by simp
qed

text \<open>The sample: a package with one blocked variant, which a second generation does not free.\<close>

definition blocked_variant :: content_variant where
  "blocked_variant =
     with_verdict (verdict_for release_request) ((variant_of ''v1'' release_request ''p1'' Blog)\<lparr>cv_revision_id := Some ''r1''\<rparr>)"

definition blocked_release :: content_db where
  "blocked_release = approved_release\<lparr>cd_variants := [blocked_variant]\<rparr>"

theorem blocked_forever_witness:
  "isl (fst (review_content plain_content (Some ''o1'') ''ann'' ''p1'' Approve None
     (snd (run_content_generation plain_content release_request ''again'' blocked_release))))"
proof (rule blocked_forever [where d = blocked_release and v = blocked_variant])
  have "cv_id blocked_variant = ''v1''" unfolding blocked_variant_def made_one ..
  then have "unused plain_content 0 blocked_release" by (simp add: unused_def plain_content_def inj_def blocked_release_def)
  then have "content_step blocked_release (snd (run_content_generation plain_content release_request ''again'' blocked_release))"
    by (rule content_step.generating) (rule prod.collapse [symmetric])
  then show "content_step\<^sup>*\<^sup>* blocked_release (snd (run_content_generation plain_content release_request ''again'' blocked_release))"
    by blast
  show "blocked_variant \<in> set (cd_variants blocked_release)" by (simp add: blocked_release_def)
  show "cv_package_id blocked_variant = ''p1''" unfolding blocked_variant_def made_one ..
  show "blocking blocked_variant" unfolding blocked_variant_def made_one by (simp add: verdict_for_def release_request_def)
qed

definition release_event :: jobj where
  "release_event =
     [(''org_id'', JStr ''o1''), (''repository_id'', JStr ''r''), (''event_id'', JStr ''e2''),
      (''release'', JObj [(''title'', JStr ''1.3''), (''body'', JStr ''Another release'')])]"

definition written_drafts :: "(string \<times> jobj) list" where
  "written_drafts =
     map (\<lambda>n. (n, [(''title'', JStr ''t''), (''body'', JStr ''b''), (''evidence'', JList [JObj [(''source_id'', JStr ''s'')]])]))
       [''content_blog'', ''content_linkedin'', ''content_x'']"

theorem graph_delivers_nothing_witness:
  "\<exists>g d'. run_content_graph plain_content None True ''run'' release_event written_drafts approved_release
       = (Inr (Delivered_Content g), d') \<and> gn_variants g = [] \<and> gn_package_id g \<notin> package_ids approved_release
     \<and> (\<exists>r \<in> set (cd_packages d'). pk_id r = gn_package_id g \<and> pk_status r = Approved_Package)
     \<and> (\<forall>v \<in> set (cd_variants d'). cv_package_id v \<noteq> gn_package_id g)"
proof -
  obtain r d' where run: "run_content_graph plain_content None True ''run'' release_event written_drafts approved_release = (r, d')" by force
  have "(case fst (run_content_graph plain_content None True ''run'' release_event written_drafts approved_release) of
           Inr (Delivered_Content g) \<Rightarrow> gn_package_id g = ''u0'' | _ \<Rightarrow> False)" by code_simp
  then obtain g where g: "r = Inr (Delivered_Content g)" "gn_package_id g = ''u0''"
    using run by (auto split: sum.splits content_outcome.splits)
  have ids: "xc_uuid plain_content 0 \<noteq> []" "\<forall>r \<in> set (cd_packages approved_release). pk_id r \<noteq> []"
    "\<forall>v \<in> set (cd_variants approved_release). cv_package_id v \<in> package_ids approved_release"
    by (simp_all add: plain_content_def approved_release_def package_of_def)
  have "gn_package_id g \<notin> package_ids approved_release" by (simp add: g(2) package_ids_def approved_release_def package_of_def)
  then show ?thesis using graph_delivers_nothing [OF run [unfolded g(1)] ids] run g(1) by blast
qed

text \<open>A gap whose feedback is not named cannot be dispatched: the request is refused.\<close>

lemma dispatch_needs_feedback: "op_source_feedback_ids op = [] \<Longrightarrow> isl (fst (dispatch_content_opportunity e op repository_id run_id d))"
proof -
  assume none: "op_source_feedback_ids op = []"
  have "isl (gap_request (op_org_id op) repository_id op)"
    using none by (auto simp: gap_request_def and_then_def validated_def split: sum.splits)
  then show ?thesis by (cases "gap_request (op_org_id op) repository_id op") (simp_all add: dispatch_content_opportunity_def)
qed

section \<open>Hand-overs and the generation route\<close>

record gap_handoff =
  gh_org_id :: string
  gh_repository :: string
  gh_base_branch :: string
  gh_source_event_ids :: "string list"
  gh_evidence :: "json list"
  gh_base_sha :: "string option"
  gh_change_plan :: "jobj option"

definition documentation_gap_to_content_request ::
  "content_env \<Rightarrow> gap_handoff \<Rightarrow> string \<Rightarrow> string \<Rightarrow> string \<Rightarrow> string \<Rightarrow> channel list \<Rightarrow> content_request res" where
  "documentation_gap_to_content_request e h title summary audience tone channels =
     and_then (evidence_dicts (gh_evidence h)) (\<lambda>given.
       validated
         \<lparr>cq_org_id = gh_org_id h, cq_repository_id = gh_repository h,
          cq_source_event_id = (case gh_source_event_ids h of [] \<Rightarrow> xc_uuid e 0 | i # _ \<Rightarrow> i),
          cq_source_event_type = ''documentation'', cq_source_title = title, cq_source_summary = summary,
          cq_source_feedback_ids = gh_source_event_ids h,
          cq_source_gap_id = Some (str_or (xc_render e) (case gh_change_plan h of None \<Rightarrow> JNull | Some p \<Rightarrow> jget p ''gap_id'') (xc_uuid e 1)),
          cq_source_evidence = (if given = [] then [[(''source_event_ids'', JList (map JStr (gh_source_event_ids h)))]] else given),
          cq_requested_channels = channels, cq_audience = audience, cq_tone = tone\<rparr>)"

text \<open>
  The route: through the runner when there is one, whose run is an argument, else directly. The body names at
  least one piece of evidence; what the request's own validation refuses ends in a server error.
\<close>

definition generate_route ::
  "content_env \<Rightarrow> string option \<Rightarrow> (content_db \<Rightarrow> string list \<times> content_db) option \<Rightarrow> content_request \<Rightarrow> content_db
     \<Rightarrow> (http_error + string \<times> package_status) \<times> content_db" where
  "generate_route e org runner body d =
     (if cq_source_evidence body = [] then (Inl (422, ''source_evidence''), d)
      else case token_org org of
        Inl x \<Rightarrow> (Inl x, d)
      | Inr o1 \<Rightarrow>
          (case validated (body\<lparr>cq_org_id := o1\<rparr>) of
             Inl x \<Rightarrow> (Inl (500, exn_msg x), d)
           | Inr q \<Rightarrow>
               (case runner of
                  Some runs \<Rightarrow>
                    let (errs, d1) = runs d in
                    (case server_error (get_by_source o1 (cq_repository_id q) (cq_source_event_type q) (cq_source_event_id q) d1) of
                       Inl x \<Rightarrow> (Inl x, d1)
                     | Inr None \<Rightarrow> (Inl (500, if errs = [] then ''content package not persisted'' else join_with ''; '' errs), d1)
                     | Inr (Some p) \<Rightarrow> (Inr (pk_id p, pk_status p), d1))
                | None \<Rightarrow>
                    let (st, d1) = run_content_generation e q (''content-'' @ xc_uuid e 0) d in
                    (case cn_result st of
                       None \<Rightarrow> (Inl (500, join_with ''; '' (cn_errors st)), d1)
                     | Some g \<Rightarrow> (Inr (gn_package_id g, In_Review), d1)))))"

end
