(* ===== verification/Content_Gaps.thy ===== *)
theory Content_Gaps
  imports Content_Workflow
begin

text \<open>
  What generating content for a feedback gap does to the packages of its organization: the rows that no
  operation of the content subsystem removes or repairs, and the list route that reads them all.
\<close>

section \<open>Packages of gaps\<close>

text \<open>What no operation changes of a package: its id, its organization and its gap.\<close>

definition identities :: "content_db \<Rightarrow> (string \<times> string \<times> string option) set" where
  "identities d = (\<lambda>p. (pk_id p, pk_org_id p, pk_source_gap_id p)) ` set (cd_packages d)"

lemma identities_upd:
  assumes "\<And>p. pk_id (f p) = pk_id p \<and> pk_org_id (f p) = pk_org_id p \<and> pk_source_gap_id (f p) = pk_source_gap_id p"
  shows "identities (d\<lparr>cd_packages := upd_where P f (cd_packages d)\<rparr>) = identities d"
proof -
  have "map (\<lambda>p. (pk_id p, pk_org_id p, pk_source_gap_id p)) (upd_where P f (cd_packages d))
      = map (\<lambda>p. (pk_id p, pk_org_id p, pk_source_gap_id p)) (cd_packages d)"
    using assms by (intro map_key_upd_where) simp
  from arg_cong [OF this, of set] show ?thesis by (simp add: identities_def)
qed

lemma identities_status [simp]: "identities (update_package_status now org i st d) = identities d"
  unfolding update_package_status_def by (rule identities_upd) simp

lemma identities_cong: "cd_packages d' = cd_packages d \<Longrightarrow> identities d' = identities d"
  by (simp add: identities_def)

lemma create_or_get_identities:
  assumes "create_or_get is_uuid now p d = (r, d')"
  shows "identities d \<subseteq> identities d'"
proof (cases "\<exists>row. d' = d\<lparr>cd_packages := cd_packages d @ [row]\<rparr>")
  case True
  then show ?thesis by (auto simp: identities_def)
next
  case False
  then have "d' = d \<or> d' = d\<lparr>cd_packages := upd_where (\<lambda>x. package_source x = package_source p)
      (\<lambda>x. x\<lparr>pk_updated_at := now\<rparr>) (cd_packages d)\<rparr>"
    using assms by (auto simp: create_or_get_def Let_def split: option.splits if_splits)
  then show ?thesis using identities_upd [of "\<lambda>x. x\<lparr>pk_updated_at := now\<rparr>"] by auto
qed

lemma save_variant_packages: "save_variant i v d = (r, d') \<Longrightarrow> cd_packages d' = cd_packages d"
  by (auto simp: save_variant_def Let_def split: if_splits)

lemma generate_each_packages: "generate_each e q p rv n cs d = (r, d') \<Longrightarrow> cd_packages d' = cd_packages d"
proof (induction cs arbitrary: n d r)
  case (Cons c cs)
  let ?v = "(variant_of (xc_uuid e n) q p c)\<lparr>cv_revision_id := Some rv\<rparr>"
  show ?case
  proof (cases "evaluate_content_variant ?v")
    case (Inl x)
    then show ?thesis using Cons.prems by simp
  next
    case (Inr w)
    obtain s d1 where s: "save_variant p (with_verdict w ?v) d = (s, d1)" by force
    then have "d' = d1 \<or> (\<exists>r2. generate_each e q p rv (Suc n) cs d1 = (r2, d'))"
      using Cons.prems Inr by (auto split: sum.splits prod.splits)
    then show ?thesis using Cons.IH [of "Suc n" d1] save_variant_packages [OF s] by auto
  qed
qed simp

lemma persist_drafts_packages: "persist_drafts e q p rv js n ps d = (r, d') \<Longrightarrow> cd_packages d' = cd_packages d"
proof (induction ps arbitrary: n d r)
  case (Cons cp ps)
  obtain c payload where cp: "cp = (c, payload)" by force
  let ?found = "find (\<lambda>j. jd_channel j = c) js"
  define ev where "ev = [(''scores'', JObj (case ?found of None \<Rightarrow> [] | Some j \<Rightarrow> map (\<lambda>(k, x). (k, JFloat x)) (vd_scores (jd_verdict j)))),
                (''blocking_issues'', JList (case ?found of None \<Rightarrow> [] | Some j \<Rightarrow> map JStr (vd_issues (jd_verdict j))))]"
  show ?case
  proof (cases "draft_variant (xc_render e) (xc_uuid e n) p c payload (cq_source_evidence q) ev (Some rv)")
    case (Inl x)
    then show ?thesis using Cons.prems by (simp add: cp ev_def Let_def)
  next
    case (Inr v)
    obtain s d1 where s: "save_variant p v d = (s, d1)" by force
    have "d' = d1 \<or> (\<exists>r2. persist_drafts e q p rv js (Suc n) ps d1 = (r2, d'))"
      using Cons.prems Inr s by (auto simp: cp ev_def [symmetric] Let_def split: sum.splits prod.splits)
    then show ?thesis using Cons.IH [of "Suc n" d1] save_variant_packages [OF s] by auto
  qed
qed simp

lemma generate_content_identities:
  assumes "generate_content e q run_id d = (r, d')"
  shows "identities d \<subseteq> identities d'"
proof -
  obtain r1 d1 where c: "create_package (xc_is_uuid e) (xc_uuid e 0) (xc_now e) run_id q d = (r1, d1)" by force
  then have i1: "identities d \<subseteq> identities d1" using create_or_get_identities unfolding create_package_def by blast
  have "cd_packages d' = cd_packages d1 \<or> identities d' = identities d1"
    using assms c create_revision_frame generate_each_packages
    by (fastforce simp: generate_content_def split: sum.splits prod.splits dest: identities_cong)
  then show ?thesis using i1 identities_cong by blast
qed

lemma persist_node_identities:
  assumes "persist_node e run_id event deps js d = (r, d')"
  shows "identities d \<subseteq> identities d'"
proof (cases "request_from_event (xc_render e) event")
  case (Inl x)
  then show ?thesis using assms by (simp add: persist_node_def)
next
  case (Inr q)
  obtain r1 d1 where c: "create_package (xc_is_uuid e) (xc_uuid e 0) (xc_now e) run_id q d = (r1, d1)" by force
  then have i1: "identities d \<subseteq> identities d1" using create_or_get_identities unfolding create_package_def by blast
  have "cd_packages d' = cd_packages d1 \<or> identities d' = identities d1"
    using assms c Inr create_revision_frame persist_drafts_packages
    by (fastforce simp: persist_node_def split: sum.splits prod.splits dest: identities_cong)
  then show ?thesis using i1 identities_cong by blast
qed

lemma append_review_packages: "append_review_event x d = (r, d') \<Longrightarrow> cd_packages d' = cd_packages d"
  by (auto simp: append_review_event_def split: if_splits)

lemma review_identities:
  assumes "review_content e org reviewer i x comment d = (r, d')"
  shows "identities d \<subseteq> identities d'"
proof (cases "get_content e org i d")
  case (Inl y)
  then show ?thesis using assms by (simp add: review_content_def)
next
  case (Inr p)
  define number where "number = (if pk_revisions p = [] then 0 else cr_number (last (pk_revisions p))) + 1"
  define ev where "ev = \<lparr>ce_package_id = i, ce_revision_id = last_revision_id p, ce_decision = decision_text x,
      ce_comment = comment, ce_reviewer_id = reviewer\<rparr>"
  obtain a d1 where rv: "(if x = Request_Changes
      then apfst (map_sum id (\<lambda>_. ())) (create_content_revision (xc_uuid e 0) i number ''request_changes'' (''review-'' @ xc_uuid e 1) comment d)
      else (Inr (), d)) = (a, d1)" by force
  have d1: "cd_packages d1 = cd_packages d"
    using rv create_revision_frame
    by (cases "create_content_revision (xc_uuid e 0) i number ''request_changes'' (''review-'' @ xc_uuid e 1) comment d")
      (auto split: if_splits)
  obtain b d2 where ap: "append_review_event ev d1 = (b, d2)" by force
  have d2: "cd_packages d2 = cd_packages d" using append_review_packages [OF ap] d1 by simp
  have "d' \<in> {d, d1, d2, update_package_status (xc_now e) (the org) i (next_status x) d2}"
  proof (cases "x = Request_Changes \<and> comment \<in> {None, Some []} \<or> x = Approve \<and> list_ex blocking (pk_variants p)")
    case True
    then have "d' = d" using assms Inr by (auto simp: review_content_def split: if_splits)
    then show ?thesis by simp
  next
    case False
    then have c: "(x = Request_Changes \<and> comment \<in> {None, Some []}) = False" "(x = Approve \<and> list_ex blocking (pk_variants p)) = False"
      by blast+
    have "review_content e org reviewer i x comment d =
        (case (a, d1) of (Inl y, d1) \<Rightarrow> (Inl (500, exn_msg y), d1)
         | (Inr _, d1) \<Rightarrow> (case append_review_event ev d1 of (Inl y, d2) \<Rightarrow> (Inl (500, exn_msg y), d2)
             | (Inr _, d2) \<Rightarrow> (Inr (next_status x), update_package_status (xc_now e) (the org) i (next_status x) d2)))"
      by (simp only: review_content_def Inr sum.case Let_def c if_False number_def [symmetric] ev_def [symmetric] rv)
    then show ?thesis using assms ap by (cases a; cases b) simp_all
  qed
  then show ?thesis using d1 d2 identities_cong [of d1 d] identities_cong [of d2 d] by auto
qed

lemma content_step_identities: "content_step d d' \<Longrightarrow> identities d \<subseteq> identities d'"
proof (induction rule: content_step.induct)
  case (generating e d q run_id st d')
  then obtain r where "generate_content e q run_id d = (r, d')"
    by (auto simp: run_content_generation_def split: sum.splits prod.splits)
  then show ?case by (rule generate_content_identities)
next
  case (graph_run e d judge released run_id event payloads r d')
  have "identities (approval_node e event i d1) = identities d1" for i d1 by (simp add: approval_node_def Let_def)
  then show ?case using graph_run(2) persist_node_identities
    by (fastforce simp: run_content_graph_def split: sum.splits prod.splits if_splits)
next
  case (reviewing e org reviewer i x comment d r d')
  then show ?case using review_identities by blast
qed

lemma read_packages_Inr: "read_packages d ps = Inr qs \<Longrightarrow> p \<in> set ps \<Longrightarrow> pk_source_gap_id p = None"
proof (induction ps arbitrary: qs)
  case (Cons a ps)
  then obtain q where a: "read_package d a = Inr q" by (cases "read_package d a") auto
  with Cons.prems(1) obtain rest where "read_packages d ps = Inr rest" by (cases "read_packages d ps") auto
  with Cons.IH Cons.prems(2) a show ?case by (auto simp: read_package_Inr)
qed simp

lemma read_packages_Inl: "read_packages d ps = Inl x \<Longrightarrow> x = ValidationError ''source_gap_id''"
proof (induction ps)
  case (Cons a ps)
  show ?case
  proof (cases "read_package d a")
    case (Inl y)
    then show ?thesis using Cons.prems by (simp add: read_package_def row_to_package_def split: if_splits)
  next
    case (Inr q)
    then show ?thesis using Cons by (cases "read_packages d ps") simp_all
  qed
qed simp

lemma gap_read_fails: "p \<in> set ps \<Longrightarrow> pk_source_gap_id p \<noteq> None \<Longrightarrow> read_packages d ps = Inl (ValidationError ''source_gap_id'')"
  by (cases "read_packages d ps") (auto dest: read_packages_Inr read_packages_Inl)

text \<open>
  C3. Generating content for a feedback gap always fails, and takes the organization's content list down with
  it: the package's row is written before it is read back, the gap's id comes back as a UUID the model refuses, so
  the run fails without a variant, and whatever is generated, run or reviewed later, listing the content of that
  organization ends in a server error.
\<close>

theorem gap_breaks_listing:
  assumes run: "run_content_generation e q run_id d = (st, d')"
    and org: "cq_org_id q \<in> set (cd_orgs d)" "cq_org_id q \<noteq> []"
    and gap: "cq_source_gap_id q = Some g" "xc_is_uuid e g"
    and new: "\<forall>p \<in> set (cd_packages d). package_source p \<noteq> request_source q" "xc_uuid e 0 \<notin> package_ids d"
    and later: "content_step\<^sup>*\<^sup>* d' d2"
  shows "cn_status st = Run_Failed \<and> cd_variants d' = cd_variants d
    \<and> (\<exists>p \<in> set (cd_packages d'). package_source p = request_source q \<and> pk_status p = Draft_Package)
    \<and> list_content (Some (cq_org_id q)) None d2 = Inl (500, ''source_gap_id'')"
proof -
  let ?row = "package_of (xc_uuid e 0) (xc_now e) run_id q"
  define d1 where "d1 = d\<lparr>cd_packages := cd_packages d @ [?row]\<rparr>"
  have fields: "pk_source_gap_id ?row = Some g" "pk_org_id ?row = cq_org_id q" "pk_id ?row = xc_uuid e 0"
    "?row\<lparr>pk_created_at := xc_now e, pk_updated_at := xc_now e, pk_variants := [], pk_revisions := []\<rparr> = ?row"
    "pk_status ?row = Draft_Package"
    using gap(1) by (simp_all add: package_of_def)
  have none: "find (\<lambda>r. package_source r = package_source ?row) (cd_packages d) = None"
    using new(1) by (auto simp: find_None_iff package_of_source)
  have create: "create_package (xc_is_uuid e) (xc_uuid e 0) (xc_now e) run_id q d = (Inl (ValidationError ''source_gap_id''), d1)"
    using org(1) gap(2) new(2) none
    by (simp add: create_package_def create_or_get_def fields Let_def d1_def [symmetric] read_package_def row_to_package_def)
  then have st: "cn_status st = Run_Failed" and d': "d' = d1"
    using run by (auto simp: run_content_generation_def generate_content_def)
  have "(xc_uuid e 0, cq_org_id q, Some g) \<in> identities d'"
    unfolding d' identities_def d1_def using fields(1-3) by (auto intro!: rev_image_eqI [of ?row])
  moreover from later have "identities d' \<subseteq> identities d2"
    by (induction rule: rtranclp_induct) (use content_step_identities in blast)+
  ultimately obtain p where p: "p \<in> set (cd_packages d2)" "pk_org_id p = cq_org_id q" "pk_source_gap_id p = Some g"
    by (auto simp: identities_def)
  have "list_packages (cq_org_id q) None d2 = Inl (ValidationError ''source_gap_id'')"
    unfolding list_packages_def by (rule gap_read_fails [of p]) (use p in simp_all)
  then have "list_content (Some (cq_org_id q)) None d2 = Inl (500, ''source_gap_id'')"
    using org(2) by (simp add: list_content_def token_org_def server_error_def ValidationError_def)
  moreover have "?row \<in> set (cd_packages d')" "package_source ?row = request_source q"
    by (simp_all add: d' d1_def package_of_source)
  moreover have "cd_variants d' = cd_variants d" by (simp add: d' d1_def)
  ultimately show ?thesis using st fields(5) by blast
qed

text \<open>The sample: the gap of one organization, whose listing is broken from then on, also after another run.\<close>

definition gap_question :: content_request where
  "gap_question =
     release_request\<lparr>cq_source_event_id := ''g1'', cq_source_event_type := ''feedback_gap'', cq_source_gap_id := Some ''g1'',
       cq_source_feedback_ids := [''f1'']\<rparr>"

theorem gap_breaks_listing_witness:
  "let d1 = snd (run_content_generation plain_content gap_question ''run'' approved_release);
       d2 = snd (run_content_generation plain_content release_request ''again'' d1) in
     list_content (Some ''o1'') None approved_release \<noteq> Inl (500, ''source_gap_id'')
     \<and> list_content (Some ''o1'') None d2 = Inl (500, ''source_gap_id'')"
proof -
  define d1 where "d1 = snd (run_content_generation plain_content gap_question ''run'' approved_release)"
  define d2 where "d2 = snd (run_content_generation plain_content release_request ''again'' d1)"
  obtain st where run: "run_content_generation plain_content gap_question ''run'' approved_release = (st, d1)"
    by (metis d1_def prod.collapse)
  have "cd_variants d1 = []" unfolding d1_def by code_simp
  then have "content_step d1 d2"
    unfolding d2_def by (intro content_step.generating [OF plain_unused]) (simp_all add: prod_eq_iff)
  then have steps: "content_step\<^sup>*\<^sup>* d1 d2" by blast
  have facts: "cq_org_id gap_question \<in> set (cd_orgs approved_release)" "cq_org_id gap_question \<noteq> []"
    "cq_source_gap_id gap_question = Some ''g1''" "xc_is_uuid plain_content ''g1''"
    "\<forall>p \<in> set (cd_packages approved_release). package_source p \<noteq> request_source gap_question"
    "xc_uuid plain_content 0 \<notin> package_ids approved_release" "cq_org_id gap_question = ''o1''"
    by (simp_all add: gap_question_def release_request_def approved_release_def plain_content_def package_source_def
        package_of_def request_source_def package_ids_def)
  have "list_content (Some ''o1'') None d2 = Inl (500, ''source_gap_id'')"
    using gap_breaks_listing [OF run facts(1-6) steps] facts(7) by simp
  moreover have "list_content (Some ''o1'') None approved_release \<noteq> Inl (500, ''source_gap_id'')" by code_simp
  ultimately show ?thesis by (simp add: Let_def d1_def [symmetric] d2_def [symmetric])
qed

end
