(* ===== verification/Spec2Isabelle.thy ===== *)
theory Spec2Isabelle
  imports Page_Revisions Draft_Calls Page_Executor Quality_Gate Page_Handlers Page_Node Model_Routing
    Read_Cache Steering_Handler Delivery_Graph Workflow_Ledger Event_Stream Run_Tables Review_Inbox Document_Store
    Workflow_Runner Run_Entry Review_Resume Answer_Races Feedback_Loop Content_Gaps
begin

text \<open>
  Verification of the Draftly documentation backend. All paths below are relative to
  \<^verbatim>\<open>src/src/draftly/\<close>.

  \<^bold>\<open>The program.\<close> An event (a merged pull request, a release, an issue, a support question) starts a
  workflow run. The documentation run plans pages, lets writer agents draft each page under a durable
  task queue, evaluates and cross-reviews the drafts, schedules bounded revisions, escalates to people
  and delivers what passed through a graph of gated edges. Around it: steering handlers that guide,
  interrupt or stop the agents' tool calls, model routing with health and statistics, the read cache and
  read budgets of the writers, the ledger of workflow definitions and runs, and the stream of run events
  a dashboard follows.

  \<^bold>\<open>The theories.\<close>

  \<^item> \<open>Draftly_Prelude\<close>: exceptions as values, JSON documents, Python's string operations, conditional
    update and insert-on-conflict on tables. \<open>Transition_Systems\<close> (locales \<open>invariant_system\<close>,
    \<open>row_evolution\<close>), \<open>Fuelled_Loops\<close> (\<open>fuelled_loop\<close>) and \<open>Keyset_Pages\<close> (\<open>keyset_listing\<close>) are the
    contracts the components interpret on their own operations.
  \<^item> Page workflow, \<^verbatim>\<open>orchestration/page_workflow/\<close>: \<open>Page_Models\<close> is \<^verbatim>\<open>models.py\<close>; \<open>Page_Store\<close> has one
    function on the tables per method of \<^verbatim>\<open>repository.py\<close>; \<open>Page_Lifecycle\<close> the step relation of all those
    calls, the invariant and how rows evolve; \<open>Page_Guarantees\<close> what clients rely on (dependency order,
    exclusive leases, settled tasks, monotone promotion, immutable verdicts); \<open>Page_Revisions\<close> the bounded
    revision schedule and the three human decisions; \<open>Page_Executor\<close> the loop of \<^verbatim>\<open>executor.py\<close>;
    \<open>Page_Handlers\<close> the writer, evaluator and reviewer of \<^verbatim>\<open>handlers.py\<close>; \<open>Page_Node\<close> seeding, running and
    resuming in \<^verbatim>\<open>node.py\<close>. \<open>Quality_Gate\<close> has the page metrics of \<^verbatim>\<open>orchestration/nodes/evaluate.py\<close>.
  \<^item> \<open>Draft_Store\<close>: the methods of the draft revisions, \<^verbatim>\<open>persistence/repositories/drafts.py\<close>;
    \<open>Draft_Calls\<close>: the same methods statement by statement, with the statements of several calls interleaved.
  \<^item> Models, \<^verbatim>\<open>models/\<close>: \<open>Model_Health\<close> (cooldowns, in memory and in Redis), \<open>Model_Stats\<close> (moving averages;
    the Redis store, a model of its own, refines the in-memory one up to percentiles), \<open>Model_Registry\<close> (registration and priority resolution),
    \<open>Model_Routing\<close> (the adaptive router).
  \<^item> Steering, \<^verbatim>\<open>steering/\<close>: \<open>Steering_Store\<close> (guide budgets and the intervention inbox), \<open>Redaction\<close>,
    \<open>Steering_Policy\<close> (role policies), \<open>Steering_Handler\<close> (the Strands callbacks), \<open>Tool_Guards\<close>,
    \<open>Writer_Reads\<close> and \<open>Read_Cache\<close> (the guards and the read plugin of the agents' tool loops).
  \<^item> \<open>Delivery_Graph\<close>: edge conditions and review gate of the documentation graph,
    \<^verbatim>\<open>orchestration/routing/conditions.py\<close>, \<^verbatim>\<open>hooks/review_gate.py\<close> and the graph's edges.
  \<^item> \<open>Workflow_Ledger\<close>: \<^verbatim>\<open>persistence/repositories/workflows.py\<close>; \<open>Event_Stream\<close>: envelopes, durable log,
    stage projection, publishing and the subscriber's frames (\<^verbatim>\<open>events/stream_envelope.py\<close>,
    \<^verbatim>\<open>integrations/database/workflow_events_store.py\<close>, \<^verbatim>\<open>app/api/routes/workflows.py\<close>).
  \<^item> \<open>Run_Tables\<close>: events, jobs, the GitHub read model, support receipts and feedback outcomes;
    \<open>Review_Inbox\<close>: the reviews table, its listing and counters, and \<^verbatim>\<open>review/\<close> (queue, handlers, service);
    \<open>Document_Store\<close>: documents and their edited revisions (\<^verbatim>\<open>integrations/database/document_store.py\<close>,
    \<^verbatim>\<open>persistence/repositories/document_revisions.py\<close>).
  \<^item> \<open>Run_Outcome\<close> reads what a graph came to and routes events; \<open>Workflow_Runner\<close> is \<^verbatim>\<open>workflows/runner.py\<close>: the
    fresh run (claim, canonical run, graph, settlement), the resume after a review and the resume after an
    intervention, over one record of all the tables above. What the graph does in between is an argument.
  \<^item> Around the runner: \<open>Run_Entry\<close> has the pull request and release workflows, the reconciliation of a run's
    rows and the sweep of stuck runs (\<^verbatim>\<open>workflows/documentation/\<close>); \<open>Review_Resume\<close> the decision of a review and
    the resume of its run (\<^verbatim>\<open>review/resume.py\<close>); \<open>Answer_Races\<close> answers to interventions that meet, and the
    route they come in by (\<^verbatim>\<open>app/api/routes/interventions.py\<close>).
  \<^item> Feedback: \<open>Text_Similarity\<close> (words, normal forms and the matching ratio of \<^verbatim>\<open>difflib\<close>), \<open>Feedback_Store\<close>
    (support messages, signals and documentation gaps with their repositories and routes),
    \<open>Feedback_Analysis\<close> (\<^verbatim>\<open>feedback/\<close>: classification, deduplication, clusters, gaps) and \<open>Feedback_Loop\<close> (the
    feedback graph and the workflows of \<^verbatim>\<open>workflows/feedback/\<close> and \<^verbatim>\<open>workflows/github/feedback_ingestion.py\<close>).
  \<^item> Content: \<open>Content_Store\<close> (\<^verbatim>\<open>content/models.py\<close>, \<^verbatim>\<open>content/service.py\<close>, the repository of packages and
    the evaluator), \<open>Content_Workflow\<close> (generation, source adapters, routes, and the nodes and edges of
    \<^verbatim>\<open>orchestration/graphs/content_graph.py\<close>) and \<open>Content_Gaps\<close> (what a package of a feedback gap, whose row
    cannot be read back, does to the content of its organization).

  \<^bold>\<open>State and interaction.\<close> Tables are lists of records; a method takes the tables and returns its result
  with the new tables, its SQL guards being the conditions of the update. The step relations over the tables
  (\<open>repo_step\<close>, \<open>inbox_step\<close>, \<open>run_step\<close>, \<open>definition_step\<close>, \<open>event_step\<close>, \<open>receipt_step\<close>, \<open>review_step\<close>, \<open>docs_step\<close>)
  have a rule per method that writes, and a method is one step of them: an interleaving of workers is a
  sequence of method calls, which leaves out what may run between the statements of one that is no transaction. The draft store, whose methods commit several statements one by one, has the finer
  relation \<open>call_step\<close>: a step is one statement of one of the calls that are open, and a call may stop between two. The
  invariants hold for every such sequence. What the code
  asks of the outside (clock, generated ids, digests, answers of models, judges and graphs) is an argument
  of the definitions. Exceptions are values of \<open>error + 'a\<close>.

  \<^bold>\<open>What the lemmas show.\<close> Each component proves its invariant for every operation, the behaviour of each
  operation on every branch, and then the properties named C1 to C40: ordering and exclusion in
  the page workflow, the gate in front of delivery, the exactness of budgets, the
  bounds of caches and statistics, linear revision histories, single claims and single decisions, one graph
  invocation per event, the agreement of the tables a settled run writes and of the two implementations of the
  statistics, and the behaviours where the code fails what it is for or differs from its documentation: the
  stored run stages that contradict the log, packages that no query can read, answers that are lost. Where a
  property needs a condition, its text and its statement name it.

  \<^bold>\<open>Loops and fuel.\<close> A loop whose rounds see new environments runs on a list of them; \<open>None\<close> is running
  out. Termination is proved, never presupposed: the executor (\<open>drive\<close>) stops within the claims left in the
  tasks plus a credit the handlers pay new tasks from, a contract that is met here by handlers that add no
  tasks and not shown for the page handlers; the writer (\<open>write_page\<close>) within one call more than
  its budget; following the cursors of a listing within one page more than its rows. All
  other recursions are structural or carry a termination proof.

  \<^bold>\<open>Not modelled.\<close> Prompt texts, schemas and agent construction; clients of GitHub, Slack, Discord, Clerk,
  Tavily and the model providers; parsing and indexing of documents; vector search and memory; HTTP
  request handling; telemetry; wall-clock scheduling. They are either outside the
  repository's own logic (a service answers, the code forwards) or text. Floating-point numbers are modelled
  as reals or rationals, so rounding is not covered; strings are ASCII.
\<close>

end
